(* ===== verification/Prelude.thy ===== *)
theory Prelude
  imports Main "HOL-Library.Word" "HOL-Library.Multiset"
begin

text \<open>
  Shared vocabulary of the development: the machine limits the C++ code tests
  against, the \<open>Status\<close> values every fallible operation returns, decimal printing
  of indices, and the generic list and product lemmas the component theories use.

  Conventions.  A \<open>size_t\<close> is a natural number; where the code lets it wrap, the
  reduction modulo \<open>2 ^ 64\<close> is written out.  An \<open>int64_t\<close> is an integer; where the
  code tests against the limits of the type, the test is written out.  A \<open>float\<close> is
  its bit pattern.  A function that returns a \<open>Status\<close> and fills an output argument
  becomes a function into \<open>status + 'a\<close>, the error on the left.
\<close>

section \<open>Collections of facts\<close>

named_theorems shape_simps \<open>equations about dimension lists\<close>
named_theorems graph_simps \<open>unfolding rules of the static graph accessors\<close>

section \<open>Machine limits\<close>

type_synonym i64 = int
type_synonym size_t = nat
type_synonym f32 = "32 word"
type_synonym u8 = "8 word"
type_synonym u16 = "16 word"
type_synonym u32 = "32 word"

definition INT64_MAX :: int where "INT64_MAX = 9223372036854775807"
definition INT64_MIN :: int where "INT64_MIN = - 9223372036854775808"
definition SIZE_MAX :: nat where "SIZE_MAX = 18446744073709551615"

text \<open>Unsigned 64-bit multiplication, addition and decrement, with their wrap-around.\<close>

definition mul64 :: "nat \<Rightarrow> nat \<Rightarrow> nat" where
  "mul64 a b = (a * b) mod 18446744073709551616"

definition add64 :: "nat \<Rightarrow> nat \<Rightarrow> nat" where
  "add64 a b = (a + b) mod 18446744073709551616"

definition dec64 :: "nat \<Rightarrow> nat" where
  "dec64 a = (if a = 0 then SIZE_MAX else a - 1)"

lemma mul64_exact: "a * b \<le> SIZE_MAX \<Longrightarrow> mul64 a b = a * b"
  by (simp add: mul64_def SIZE_MAX_def)

lemma add64_exact: "a + b \<le> SIZE_MAX \<Longrightarrow> add64 a b = a + b"
  by (simp add: add64_def SIZE_MAX_def)

lemma dec64_pos [simp]: "0 < a \<Longrightarrow> dec64 a = a - 1"
  by (simp add: dec64_def)

section \<open>Status\<close>

datatype status_code =
    kOk | kInvalidArgument | kNotFound | kShapeMismatch | kUnsupported
  | kBuildFailed | kExecutionFailed | kInternal

record status =
  code :: status_code
  message :: string

definition Ok :: status where
  "Ok = \<lparr>code = kOk, message = []\<rparr>"

definition Error :: "status_code \<Rightarrow> string \<Rightarrow> status" where
  "Error c m = \<lparr>code = c, message = m\<rparr>"

definition ok :: "status \<Rightarrow> bool" where
  "ok s \<longleftrightarrow> code s = kOk"

definition WithContext :: "status \<Rightarrow> string \<Rightarrow> status" where
  "WithContext s context =
     (if ok s then s else \<lparr>code = code s, message = context @ '': '' @ message s\<rparr>)"

lemma ok_Ok [simp]: "ok Ok"
  by (simp add: ok_def Ok_def)

lemma ok_Error [simp]: "ok (Error c m) \<longleftrightarrow> c = kOk"
  by (simp add: ok_def Error_def)

lemma code_WithContext [simp]: "code (WithContext s c) = code s"
  by (simp add: WithContext_def)

lemma ok_WithContext [simp]: "ok (WithContext s c) = ok s"
  by (simp add: ok_def)

section \<open>Results\<close>

text \<open>Sequencing of fallible steps: the first error ends the function, as a \<open>return\<close> does.\<close>

definition bindR :: "'e + 'a \<Rightarrow> ('a \<Rightarrow> 'e + 'b) \<Rightarrow> 'e + 'b" where
  "bindR r f = (case r of Inl e \<Rightarrow> Inl e | Inr a \<Rightarrow> f a)"

lemma bindR_Inr [simp]: "bindR (Inr a) f = f a"
  by (simp add: bindR_def)

lemma bindR_Inl [simp]: "bindR (Inl e) f = Inl e"
  by (simp add: bindR_def)

text \<open>For evaluation: look at the first computation only.\<close>

lemma bindR_cong_weak: "r = r' \<Longrightarrow> bindR r f = bindR r' f"
  by simp

lemma bindR_eq_Inr: "bindR r f = Inr b \<longleftrightarrow> (\<exists>a. r = Inr a \<and> f a = Inr b)"
  by (cases r) auto

lemma bindR_eq_InrE [elim!]:
  assumes "bindR r f = Inr b"
  obtains a where "r = Inr a" and "f a = Inr b"
  using assms by (auto simp: bindR_eq_Inr)

text \<open>A loop over a list whose body may return early.\<close>

fun foldR :: "('a \<Rightarrow> 's \<Rightarrow> 'e + 's) \<Rightarrow> 'a list \<Rightarrow> 's \<Rightarrow> 'e + 's" where
  "foldR f [] s = Inr s"
| "foldR f (x # xs) s = (case f x s of Inl e \<Rightarrow> Inl e | Inr s' \<Rightarrow> foldR f xs s')"

text \<open>
  What a loop establishes: if every iteration keeps \<open>I\<close>, moves along the preorder \<open>R\<close> and
  establishes \<open>Q\<close> of its element, and \<open>Q\<close> is stable along \<open>R\<close>, then the loop establishes
  \<open>Q\<close> of every element.
\<close>

lemma foldR_establish:
  assumes "foldR f xs s = Inr t" and "I s"
    and step: "\<And>x s s'. x \<in> set xs \<Longrightarrow> I s \<Longrightarrow> f x s = Inr s' \<Longrightarrow> I s' \<and> R s s' \<and> Q x s'"
    and refl: "\<And>s. R s s" and trans: "\<And>s t u. R s t \<Longrightarrow> R t u \<Longrightarrow> R s u"
    and stable: "\<And>x s t. Q x s \<Longrightarrow> R s t \<Longrightarrow> Q x t"
  shows "I t \<and> R s t \<and> (\<forall>x \<in> set xs. Q x t)"
  using assms(1,2) step
proof (induction xs arbitrary: s)
  case Nil
  then show ?case using refl by simp
next
  case (Cons x xs)
  from Cons.prems(1) obtain s' where s': "f x s = Inr s'" and rest: "foldR f xs s' = Inr t"
    by (auto split: sum.splits)
  have 1: "I s' \<and> R s s' \<and> Q x s'" using Cons.prems(2,3) s' by (metis list.set_intros(1))
  have "I t \<and> R s' t \<and> (\<forall>x \<in> set xs. Q x t)"
    by (rule Cons.IH[OF rest]) (use 1 Cons.prems(3) in auto)
  with 1 show ?case using trans stable by auto
qed

lemma foldR_append:
  "foldR f (xs @ ys) s = bindR (foldR f xs s) (foldR f ys)"
  by (induction xs arbitrary: s) (auto split: sum.splits)

lemma foldR_snoc:
  "foldR f (xs @ [x]) s = Inr t \<longleftrightarrow> (\<exists>u. foldR f xs s = Inr u \<and> f x u = Inr t)"
  by (cases "foldR f xs s") (auto simp: foldR_append split: sum.splits)

lemma foldR_ConsE [elim!]:
  assumes "foldR f (x # xs) s = Inr t"
  obtains s' where "f x s = Inr s'" and "foldR f xs s' = Inr t"
  using assms by (auto split: sum.splits)

text \<open>An invariant that every iteration keeps holds at the end of the loop.\<close>

lemma foldR_error:
  assumes "foldR f xs s = Inl e" and "\<And>x s e. f x s = Inl e \<Longrightarrow> P e"
  shows "P e"
  using assms(1) by (induction xs arbitrary: s) (auto split: sum.splits dest: assms(2))

lemma foldR_invariant:
  assumes "foldR f xs s = Inr t" and "P s"
    and "\<And>x s s'. x \<in> set xs \<Longrightarrow> P s \<Longrightarrow> f x s = Inr s' \<Longrightarrow> P s'"
  shows "P t"
  using assms
proof (induction xs arbitrary: s)
  case Nil
  then show ?case by simp
next
  case (Cons x xs)
  from Cons.prems(1) obtain s' where s': "f x s = Inr s'" and rest: "foldR f xs s' = Inr t" ..
  from Cons.prems(3)[OF _ Cons.prems(2) s'] have "P s'" by simp
  with rest show ?case
    using Cons.prems(3) by (intro Cons.IH[of s']) auto
qed

text \<open>The same with a ghost index: the prefix of the list already processed.\<close>

lemma foldR_prefix_invariant:
  assumes "foldR f xs s = Inr t" and "P [] s"
    and "\<And>ys x zs s s'. xs = ys @ x # zs \<Longrightarrow> P ys s \<Longrightarrow> f x s = Inr s' \<Longrightarrow> P (ys @ [x]) s'"
  shows "P xs t"
proof -
  have "foldR f zs s = Inr t \<Longrightarrow> xs = ys @ zs \<Longrightarrow> P ys s \<Longrightarrow> P xs t" for ys zs s
  proof (induction zs arbitrary: ys s)
    case Nil
    then show ?case by simp
  next
    case (Cons z zs)
    from Cons.prems(1) obtain s' where s': "f z s = Inr s'" and rest: "foldR f zs s' = Inr t" ..
    from assms(3)[OF Cons.prems(2) Cons.prems(3) s'] have "P (ys @ [z]) s'" .
    with rest Cons.prems(2) show ?case by (intro Cons.IH[of s' "ys @ [z]"]) auto
  qed
  from this[OF assms(1) _ assms(2)] show ?thesis by simp
qed

text \<open>Reading off the result of an evaluated run.\<close>

lemma case_option_ex: "(case x of None \<Rightarrow> False | Some y \<Rightarrow> P y) \<Longrightarrow> \<exists>y. x = Some y \<and> P y"
  by (cases x) auto

lemma case_sum_ex: "(case x of Inl e \<Rightarrow> False | Inr y \<Rightarrow> P y) \<Longrightarrow> \<exists>y. x = Inr y \<and> P y"
  by (cases x) auto

section \<open>Decimal printing (\<open>std::to_string\<close>)\<close>

definition digit_char :: "nat \<Rightarrow> char" where
  "digit_char d = char_of (48 + d)"

fun to_string :: "nat \<Rightarrow> string" where
  "to_string n = (if n < 10 then [digit_char n] else to_string (n div 10) @ [digit_char (n mod 10)])"

declare to_string.simps [simp del]

section \<open>Lists\<close>

text \<open>\<open>v.find\<close> on a vector: the first element with the property.\<close>

lemma find_Some_in: "List.find P xs = Some x \<Longrightarrow> x \<in> set xs \<and> P x"
  by (induction xs) (auto split: if_splits)

lemma find_None_iff_all: "List.find P xs = None \<longleftrightarrow> (\<forall>x \<in> set xs. \<not> P x)"
  by (induction xs) auto

lemma sum_list_update_int:
  fixes xs :: "int list"
  shows "i < length xs \<Longrightarrow> sum_list (xs[i := v]) = sum_list xs - xs ! i + v"
proof (induction xs arbitrary: i)
  case (Cons x xs)
  then show ?case by (cases i) auto
qed simp

lemma prod_list_append: "prod_list (xs @ ys) = prod_list xs * (prod_list ys :: 'a :: comm_monoid_mult)"
  by (induction xs) (auto simp: mult.assoc)

lemma prod_list_nonneg: "(\<And>x. x \<in> set xs \<Longrightarrow> 0 \<le> x) \<Longrightarrow> 0 \<le> (prod_list xs :: int)"
  by (induction xs) auto

lemma prod_list_pos: "(\<And>x. x \<in> set xs \<Longrightarrow> 0 < x) \<Longrightarrow> 0 < (prod_list xs :: int)"
  by (induction xs) auto

lemma prod_list_eq_0: "prod_list xs = (0 :: int) \<longleftrightarrow> 0 \<in> set xs"
  by (induction xs) auto

lemma nat_prod_list:
  "(\<And>x. x \<in> set xs \<Longrightarrow> 0 \<le> x) \<Longrightarrow> nat (prod_list xs) = prod_list (map nat xs)"
  by (induction xs) (auto simp: nat_mult_distrib)

lemma distinct_filter_nth:
  "distinct xs \<Longrightarrow> i < length xs \<Longrightarrow> j < length xs \<Longrightarrow> xs ! i = xs ! j \<Longrightarrow> i = j"
  by (simp add: nth_eq_iff_index_eq)

end
