(* ===== verification/Types.thy ===== *)
theory Types
  imports Prelude
begin

text \<open>
  The value types of \<open>include/util/types.h\<close>: element types, layouts and devices with
  their encodings, image shapes, and the quantization metadata a tensor carries.  The
  \<open>float\<close> fields are kept as bit patterns, with IEEE equality and order defined on them.
\<close>

section \<open>Enumerations\<close>

datatype DataType =
    INT4 | INT8 | UINT8 | FP16 | FP32 | INT32 | INT64 | STRING | TENSOR | BOOL
  | UNKNOWN | BF16 | FP8E4M3 | FP8E5M2

text \<open>The numeric value of each enumerator, as written in the declaration.\<close>

fun dtype_value :: "DataType \<Rightarrow> nat" where
  "dtype_value INT4 = 0" | "dtype_value INT8 = 1" | "dtype_value UINT8 = 2"
| "dtype_value FP16 = 3" | "dtype_value FP32 = 4" | "dtype_value INT32 = 5"
| "dtype_value INT64 = 6" | "dtype_value STRING = 7" | "dtype_value TENSOR = 8"
| "dtype_value BOOL = 9" | "dtype_value UNKNOWN = 10" | "dtype_value BF16 = 11"
| "dtype_value FP8E4M3 = 12" | "dtype_value FP8E5M2 = 13"

lemma dtype_value_inj: "dtype_value a = dtype_value b \<longleftrightarrow> a = b"
  by (cases a; cases b) simp_all

text \<open>A scoped enumeration is ordered by its values.\<close>

instantiation DataType :: linorder
begin

definition less_eq_DataType :: "DataType \<Rightarrow> DataType \<Rightarrow> bool" where
  "less_eq_DataType a b \<longleftrightarrow> dtype_value a \<le> dtype_value b"

definition less_DataType :: "DataType \<Rightarrow> DataType \<Rightarrow> bool" where
  "less_DataType a b \<longleftrightarrow> dtype_value a < dtype_value b"

instance
  by standard (auto simp: less_eq_DataType_def less_DataType_def dtype_value_inj)

end

datatype QuantizationGranularity = kPerTensor | kPerChannel | kPerGroup | kPerBlock

datatype DeviceType = UNKNOWN_DEVICE | COMMON | X86 | ARM32 | ARM64 | CUDA | ASCEND

datatype DataLayout = NCHW | NHWC | ND

section \<open>Single-precision comparisons on bit patterns\<close>

definition f32_exponent :: "f32 \<Rightarrow> nat" where
  "f32_exponent b = unat b div 8388608 mod 256"

definition f32_mantissa :: "f32 \<Rightarrow> nat" where
  "f32_mantissa b = unat b mod 8388608"

definition f32_negative :: "f32 \<Rightarrow> bool" where
  "f32_negative b \<longleftrightarrow> 2147483648 \<le> unat b"

definition f32_is_nan :: "f32 \<Rightarrow> bool" where
  "f32_is_nan b \<longleftrightarrow> f32_exponent b = 255 \<and> f32_mantissa b \<noteq> 0"

definition f32_is_finite :: "f32 \<Rightarrow> bool" where
  "f32_is_finite b \<longleftrightarrow> f32_exponent b \<noteq> 255"

definition f32_is_zero :: "f32 \<Rightarrow> bool" where
  "f32_is_zero b \<longleftrightarrow> unat b mod 2147483648 = 0"

text \<open>IEEE equality: a NaN equals nothing, the two zeros are equal.\<close>

definition f32_eq :: "f32 \<Rightarrow> f32 \<Rightarrow> bool" where
  "f32_eq a b \<longleftrightarrow> \<not> f32_is_nan a \<and> \<not> f32_is_nan b \<and> (a = b \<or> f32_is_zero a \<and> f32_is_zero b)"

text \<open>The comparison \<open>x > 0.0f\<close>.\<close>

definition f32_positive :: "f32 \<Rightarrow> bool" where
  "f32_positive b \<longleftrightarrow> \<not> f32_is_nan b \<and> \<not> f32_negative b \<and> \<not> f32_is_zero b"

definition f32_one :: f32 where "f32_one = 0x3f800000"

lemma f32_eq_sym: "f32_eq a b \<longleftrightarrow> f32_eq b a"
  by (auto simp: f32_eq_def)

lemma f32_eq_refl: "f32_eq a a \<longleftrightarrow> \<not> f32_is_nan a"
  by (auto simp: f32_eq_def)

lemma f32_one_positive [simp]: "f32_positive f32_one"
  by (simp add: f32_positive_def f32_one_def f32_is_nan_def f32_exponent_def f32_mantissa_def
      f32_negative_def f32_is_zero_def)

lemma f32_one_finite [simp]: "f32_is_finite f32_one"
  by (simp add: f32_is_finite_def f32_one_def f32_exponent_def)

text \<open>The same tests on integers, for evaluation.\<close>

lemma uint_fields:
  fixes b :: f32
  shows "uint b mod 2147483648 = int (unat b mod 2147483648)"
    and "uint b mod 8388608 = int (f32_mantissa b)" and "uint b div 8388608 mod 256 = int (f32_exponent b)"
    and "uint b = int (unat b)"
  by (simp_all add: f32_mantissa_def f32_exponent_def zmod_int zdiv_int)

lemma f32_fields_code [code]:
  "f32_is_zero b \<longleftrightarrow> uint b mod 2147483648 = 0"
  "f32_negative b \<longleftrightarrow> 2147483648 \<le> uint b"
  "f32_is_finite b \<longleftrightarrow> uint b div 8388608 mod 256 \<noteq> 255"
  "f32_is_nan b \<longleftrightarrow> uint b div 8388608 mod 256 = 255 \<and> uint b mod 8388608 \<noteq> 0"
proof -
  show "f32_negative b \<longleftrightarrow> 2147483648 \<le> uint b"
    unfolding f32_negative_def uint_fields(4) by linarith
qed (simp_all add: f32_is_zero_def f32_is_finite_def f32_is_nan_def uint_fields(1-3))

section \<open>Quantization metadata\<close>

record QuantizationParams =
  q_enabled :: bool
  q_scale :: f32
  q_granularity :: QuantizationGranularity
  q_axis :: i64
  q_block_size :: i64
  q_zero_point :: int
  q_scales :: "f32 list"
  q_zero_points :: "int list"

text \<open>The default member initialisers.\<close>

definition default_quantization :: QuantizationParams where
  "default_quantization = \<lparr>q_enabled = False, q_scale = f32_one, q_granularity = kPerTensor,
     q_axis = -1, q_block_size = 0, q_zero_point = 0, q_scales = [], q_zero_points = []\<rparr>"

text \<open>\<open>std::vector::at\<close> throws on an index out of range: \<open>None\<close>.\<close>

definition scale_at :: "QuantizationParams \<Rightarrow> nat \<Rightarrow> f32 option" where
  "scale_at q index =
     (if \<not> q_enabled q then Some f32_one
      else if q_scales q = [] \<or> length (q_scales q) = 1
      then Some (if q_scales q = [] then q_scale q else hd (q_scales q))
      else if index < length (q_scales q) then Some (q_scales q ! index) else None)"

definition zero_point_at :: "QuantizationParams \<Rightarrow> nat \<Rightarrow> int option" where
  "zero_point_at q index =
     (if \<not> q_enabled q then Some 0
      else if q_zero_points q = [] \<or> length (q_zero_points q) = 1
      then Some (if q_zero_points q = [] then q_zero_point q else hd (q_zero_points q))
      else if index < length (q_zero_points q) then Some (q_zero_points q ! index) else None)"

definition HasSameQuantization :: "QuantizationParams \<Rightarrow> QuantizationParams \<Rightarrow> bool" where
  "HasSameQuantization a b =
     (if q_enabled a \<noteq> q_enabled b then False
      else if \<not> q_enabled a then True
      else f32_eq (q_scale a) (q_scale b) \<and> q_zero_point a = q_zero_point b \<and>
           q_granularity a = q_granularity b \<and> q_axis a = q_axis b \<and> q_block_size a = q_block_size b \<and>
           list_all2 f32_eq (q_scales a) (q_scales b) \<and> q_zero_points a = q_zero_points b)"

definition HasCompatiblePerTensorQuantization :: "QuantizationParams \<Rightarrow> bool" where
  "HasCompatiblePerTensorQuantization q \<longleftrightarrow> \<not> q_enabled q \<or> q_granularity q = kPerTensor"

lemma HasSameQuantization_sym: "HasSameQuantization a b \<longleftrightarrow> HasSameQuantization b a"
proof -
  have "list_all2 f32_eq xs ys \<longleftrightarrow> list_all2 f32_eq ys xs" for xs ys
    by (auto simp: list_all2_conv_all_nth f32_eq_sym)
  then show ?thesis by (auto simp: HasSameQuantization_def f32_eq_sym)
qed

section \<open>Layouts and image shapes\<close>

record ImageShape4D =
  shape_n :: i64
  shape_c :: i64
  shape_h :: i64
  shape_w :: i64

definition IsImageLayout :: "DataLayout \<Rightarrow> bool" where
  "IsImageLayout layout \<longleftrightarrow> layout = NCHW \<or> layout = NHWC"

definition NormalizeDataLayout :: "DataLayout \<Rightarrow> DataLayout" where
  "NormalizeDataLayout layout = (if IsImageLayout layout then layout else NCHW)"

definition IsChannelLastLayout :: "DataLayout \<Rightarrow> bool" where
  "IsChannelLastLayout layout \<longleftrightarrow> NormalizeDataLayout layout = NHWC"

definition ChannelAxisForLayout :: "DataLayout \<Rightarrow> nat" where
  "ChannelAxisForLayout layout = (if IsChannelLastLayout layout then 3 else 1)"

definition HeightAxisForLayout :: "DataLayout \<Rightarrow> nat" where
  "HeightAxisForLayout layout = (if IsChannelLastLayout layout then 1 else 2)"

definition WidthAxisForLayout :: "DataLayout \<Rightarrow> nat" where
  "WidthAxisForLayout layout = (if IsChannelLastLayout layout then 2 else 3)"

definition DecodeImageShape4D :: "i64 list \<Rightarrow> DataLayout \<Rightarrow> ImageShape4D option" where
  "DecodeImageShape4D dims layout =
     (if length dims \<noteq> 4 then None
      else let normalized = NormalizeDataLayout layout
           in Some \<lparr>shape_n = dims ! 0,
                shape_c = dims ! ChannelAxisForLayout normalized,
                shape_h = dims ! HeightAxisForLayout normalized,
                shape_w = dims ! WidthAxisForLayout normalized\<rparr>)"

definition EncodeImageShape4D :: "ImageShape4D \<Rightarrow> DataLayout \<Rightarrow> i64 list" where
  "EncodeImageShape4D s layout =
     (if IsChannelLastLayout layout then [shape_n s, shape_h s, shape_w s, shape_c s]
      else [shape_n s, shape_c s, shape_h s, shape_w s])"

definition OffsetForImage4D ::
  "DataLayout \<Rightarrow> i64 \<Rightarrow> i64 \<Rightarrow> i64 \<Rightarrow> i64 \<Rightarrow> i64 \<Rightarrow> i64 \<Rightarrow> i64 \<Rightarrow> i64" where
  "OffsetForImage4D layout n c h w channels height width =
     (if IsChannelLastLayout layout
      then ((n * height + h) * width + w) * channels + c
      else ((n * channels + c) * height + h) * width + w)"

text \<open>Bytes of one element; \<open>0\<close> for the types with no fixed element size.\<close>

fun DataTypeBytes :: "DataType \<Rightarrow> nat" where
  "DataTypeBytes INT8 = 1" | "DataTypeBytes UINT8 = 1" | "DataTypeBytes BOOL = 1"
| "DataTypeBytes FP8E4M3 = 1" | "DataTypeBytes FP8E5M2 = 1"
| "DataTypeBytes FP16 = 2" | "DataTypeBytes BF16 = 2"
| "DataTypeBytes FP32 = 4" | "DataTypeBytes INT32 = 4"
| "DataTypeBytes INT64 = 8"
| "DataTypeBytes _ = 0"

lemmas layout_defs = IsImageLayout_def NormalizeDataLayout_def IsChannelLastLayout_def
  ChannelAxisForLayout_def HeightAxisForLayout_def WidthAxisForLayout_def

lemma decode_encode_image:
  "DecodeImageShape4D (EncodeImageShape4D s layout) layout = Some s"
  by (cases layout) (simp_all add: DecodeImageShape4D_def EncodeImageShape4D_def layout_defs)

lemma encode_decode_image:
  "DecodeImageShape4D dims layout = Some s \<Longrightarrow> EncodeImageShape4D s layout = dims"
  by (cases layout)
    (auto simp: DecodeImageShape4D_def EncodeImageShape4D_def layout_defs numeral_eq_Suc
      length_Suc_conv split: if_splits)

text \<open>A mixed-radix lemma: two digits below their bases determine the number.\<close>

lemma mixed_radix_unique:
  fixes a b q r m :: int
  assumes "0 \<le> b" and "b < m" and "0 \<le> r" and "r < m" and "a * m + b = q * m + r"
  shows "a = q \<and> b = r"
proof -
  from assms(1,2) have m: "(a * m + b) div m = a" by simp
  from assms(3,4) have "(q * m + r) div m = q" by simp
  with m assms(5) have "a = q" by simp
  with assms(5) show ?thesis by simp
qed

text \<open>
  Different coordinates inside the image have different linear offsets, in either layout.
\<close>

lemma OffsetForImage4D_inj:
  assumes "0 \<le> c" "c < C" "0 \<le> h" "h < H" "0 \<le> w" "w < W"
    and "0 \<le> c'" "c' < C" "0 \<le> h'" "h' < H" "0 \<le> w'" "w' < W"
    and "OffsetForImage4D layout n c h w C H W = OffsetForImage4D layout n' c' h' w' C H W"
  shows "n = n' \<and> c = c' \<and> h = h' \<and> w = w'"
proof (cases "IsChannelLastLayout layout")
  case True
  with assms(13) have "((n * H + h) * W + w) * C + c = ((n' * H + h') * W + w') * C + c'"
    by (simp add: OffsetForImage4D_def)
  from mixed_radix_unique[OF assms(1,2,7,8) this]
  have "(n * H + h) * W + w = (n' * H + h') * W + w'" and c: "c = c'" by simp_all
  from mixed_radix_unique[OF assms(5,6,11,12) this(1)]
  have "n * H + h = n' * H + h'" and w: "w = w'" by simp_all
  from mixed_radix_unique[OF assms(3,4,9,10) this(1)] c w show ?thesis by simp
next
  case False
  with assms(13) have "((n * C + c) * H + h) * W + w = ((n' * C + c') * H + h') * W + w'"
    by (simp add: OffsetForImage4D_def)
  from mixed_radix_unique[OF assms(5,6,11,12) this]
  have "(n * C + c) * H + h = (n' * C + c') * H + h'" and w: "w = w'" by simp_all
  from mixed_radix_unique[OF assms(3,4,9,10) this(1)]
  have "n * C + c = n' * C + c'" and h: "h = h'" by simp_all
  from mixed_radix_unique[OF assms(1,2,7,8) this(1)] h w show ?thesis by simp
qed

lemma OffsetForImage4D_bounds:
  assumes "0 \<le> n" "n < N" "0 \<le> c" "c < C" "0 \<le> h" "h < H" "0 \<le> w" "w < W"
  shows "0 \<le> OffsetForImage4D layout n c h w C H W"
    and "OffsetForImage4D layout n c h w C H W < N * C * H * W"
proof -
  have step: "0 \<le> a * m + b \<and> a * m + b < A * m"
    if "0 \<le> a" "a < A" "0 \<le> b" "b < m" for a A b m :: int
  proof -
    from that have "a * m + b < (a + 1) * m" by (simp add: algebra_simps)
    also have "\<dots> \<le> A * m" using that by (intro mult_right_mono) auto
    finally show ?thesis using that by simp
  qed
  have "0 \<le> ((n * H + h) * W + w) * C + c \<and> ((n * H + h) * W + w) * C + c < ((N * H) * W) * C"
    using assms by (intro step) (auto dest: step)
  moreover have "0 \<le> ((n * C + c) * H + h) * W + w \<and> ((n * C + c) * H + h) * W + w < ((N * C) * H) * W"
    using assms by (intro step) (auto dest: step)
  ultimately show "0 \<le> OffsetForImage4D layout n c h w C H W"
    and "OffsetForImage4D layout n c h w C H W < N * C * H * W"
    by (auto simp: OffsetForImage4D_def algebra_simps)
qed

end
