(* ===== verification/Shape.thy ===== *)
theory Shape
  imports Types
begin

text \<open>
  Dimension lists: the class \<open>DDim\<close> of \<open>include/core/dim.h\<close> and \<open>src/core/dim.cc\<close>,
  and the overflow-checked element and byte counts of \<open>include/core/shape_utils.h\<close>
  that every allocation of the engine goes through.
\<close>

section \<open>DDim\<close>

type_synonym DDim = "i64 list"

text \<open>
  The products of \<open>DDim\<close> are taken without an overflow test; they are modelled in the
  integers.  \<open>start\<close> and \<open>end\<close> are C \<open>int\<close>s that may be negative.
\<close>

fun production_from :: "i64 \<Rightarrow> DDim \<Rightarrow> i64" where
  "production_from res [] = res"
| "production_from res (d # ds) = production_from (res * d) ds"

definition production :: "DDim \<Rightarrow> i64" where
  "production m_data = production_from 1 m_data"

definition DDim_count :: "DDim \<Rightarrow> int \<Rightarrow> int \<Rightarrow> i64" where
  "DDim_count m_data start0 end0 =
     (let start = max start0 0;
          end' = min end0 (int (length m_data))
      in if end' < start then 0
         else production_from 1 (take (nat (end' - start)) (drop (nat start) m_data)))"

text \<open>
  \<open>Slice\<close> sizes its result before copying: a negative length becomes a huge
  \<open>size_t\<close> and the vector constructor throws, which is \<open>None\<close> here.
\<close>

definition Slice :: "DDim \<Rightarrow> int \<Rightarrow> int \<Rightarrow> DDim option" where
  "Slice m_data start0 end0 =
     (let start = max start0 0;
          end' = min end0 (int (length m_data))
      in if end' < start then None
         else Some (map (\<lambda>i. m_data ! (nat start + i)) [0..<nat (end' - start)]))"

definition Flatten2D :: "DDim \<Rightarrow> int \<Rightarrow> DDim option" where
  "Flatten2D m_data col =
     (case Slice m_data 0 col of None \<Rightarrow> None
      | Some outer \<Rightarrow> (case Slice m_data col (int (length m_data)) of None \<Rightarrow> None
         | Some inner \<Rightarrow> Some [production outer, production inner]))"

fun DDim_eq :: "DDim \<Rightarrow> DDim \<Rightarrow> bool" where
  "DDim_eq [] [] = True"
| "DDim_eq (x # xs) (y # ys) = (if x \<noteq> y then False else DDim_eq xs ys)"
| "DDim_eq _ _ = False"

definition show_int :: "int \<Rightarrow> string" where
  "show_int i = (if i < 0 then ''-'' @ to_string (nat (- i)) else to_string (nat i))"

fun repr_items :: "DDim \<Rightarrow> string" where
  "repr_items [] = ''''"
| "repr_items [d] = show_int d"
| "repr_items (d # ds) = show_int d @ '','' @ repr_items ds"

definition repr :: "DDim \<Rightarrow> string" where
  "repr m_data = (if m_data = [] then ''{}'' else ''{'' @ repr_items m_data @ ''}'')"

lemma production_from_eq: "production_from r ds = r * prod_list ds"
  by (induction ds arbitrary: r) (simp_all add: mult.assoc)

lemma production_prod_list [shape_simps]: "production ds = prod_list ds"
  by (simp add: production_def production_from_eq)

lemma DDim_eq_iff [simp]: "DDim_eq a b \<longleftrightarrow> a = b"
  by (induction a b rule: DDim_eq.induct) auto

lemma Slice_Some:
  "0 \<le> s \<Longrightarrow> s \<le> e \<Longrightarrow> e \<le> int (length ds) \<Longrightarrow>
   Slice ds s e = Some (take (nat (e - s)) (drop (nat s) ds))"
  by (auto simp: Slice_def Let_def max_def min_def intro!: nth_equalityI)

lemma DDim_count_eq [shape_simps]:
  "0 \<le> s \<Longrightarrow> s \<le> e \<Longrightarrow> e \<le> int (length ds) \<Longrightarrow>
   DDim_count ds s e = prod_list (take (nat (e - s)) (drop (nat s) ds))"
  by (auto simp: DDim_count_def Let_def max_def min_def production_from_eq)

lemma Flatten2D_preserves_production:
  assumes "0 \<le> col" and "col \<le> int (length ds)"
  shows "\<exists>a b. Flatten2D ds col = Some [a, b] \<and> a * b = production ds"
proof -
  have outer: "Slice ds 0 col = Some (take (nat col) ds)"
    using assms Slice_Some[of 0 col ds] by simp
  have inner: "Slice ds col (int (length ds)) = Some (drop (nat col) ds)"
    using assms Slice_Some[of col "int (length ds)" ds] by (simp add: nat_diff_distrib)
  have "prod_list (take (nat col) ds) * prod_list (drop (nat col) ds) = prod_list ds"
    by (metis append_take_drop_id prod_list_append)
  with outer inner show ?thesis
    by (simp add: Flatten2D_def production_prod_list)
qed

section \<open>Checked counts\<close>

text \<open>
  \<open>CheckedElementCount\<close>.  The first loop rejects negative dimensions and notes a
  zero one; the second multiplies with the test \<open>result > INT64_MAX / dim\<close>.
\<close>

fun scan_dims :: "DDim \<Rightarrow> bool \<Rightarrow> bool option" where
  "scan_dims [] emp = Some emp"
| "scan_dims (d # ds) emp = (if d < 0 then None else scan_dims ds (emp \<or> d = 0))"

fun multiply_dims :: "DDim \<Rightarrow> size_t \<Rightarrow> size_t option" where
  "multiply_dims [] result = Some result"
| "multiply_dims (d # ds) result =
     (if d \<noteq> 0 \<and> result > nat INT64_MAX div nat d then None
      else multiply_dims ds (mul64 result (nat d)))"

definition CheckedElementCount :: "DDim \<Rightarrow> size_t option" where
  "CheckedElementCount dims =
     (case scan_dims dims False of None \<Rightarrow> None
      | Some emp \<Rightarrow> multiply_dims dims (if emp then 0 else 1))"

definition CheckedByteCount :: "DDim \<Rightarrow> size_t \<Rightarrow> size_t option" where
  "CheckedByteCount dims element_bytes =
     (if element_bytes = 0 then None
      else case CheckedElementCount dims of None \<Rightarrow> None
           | Some c \<Rightarrow> if c > SIZE_MAX div element_bytes then None
                       else Some (mul64 c element_bytes))"

definition CheckedTensorBytes :: "DDim \<Rightarrow> DataType \<Rightarrow> size_t option" where
  "CheckedTensorBytes dims dtype =
     (if dtype = INT4
      then (case CheckedElementCount dims of None \<Rightarrow> None
            | Some c \<Rightarrow> Some (c div 2 + c mod 2))
      else CheckedByteCount dims (DataTypeBytes dtype))"

lemma scan_dims_eq:
  "scan_dims ds e = (if \<exists>d \<in> set ds. d < 0 then None else Some (e \<or> 0 \<in> set ds))"
  by (induction ds arbitrary: e) auto

lemma multiply_dims_zero:
  "(\<And>d. d \<in> set ds \<Longrightarrow> 0 \<le> d) \<Longrightarrow> multiply_dims ds 0 = Some 0"
  by (induction ds) (auto simp: mul64_def)

lemma multiply_dims_pos:
  assumes "\<And>d. d \<in> set ds \<Longrightarrow> 0 < d" and "0 < r" and "r \<le> nat INT64_MAX"
  shows "multiply_dims ds r =
    (if int r * prod_list ds \<le> INT64_MAX then Some (nat (int r * prod_list ds)) else None)"
  using assms
proof (induction ds arbitrary: r)
  case Nil
  then show ?case by (auto simp: INT64_MAX_def)
next
  case (Cons d ds)
  from Cons.prems have d: "0 < d" and rest: "\<And>d. d \<in> set ds \<Longrightarrow> 0 < d" by auto
  from rest have p: "0 < prod_list ds" by (rule prod_list_pos)
  show ?case
  proof (cases "r > nat INT64_MAX div nat d")
    case True
    then have "nat INT64_MAX < r * nat d"
      using d by (simp add: div_less_iff_less_mult)
    then have "int (nat INT64_MAX) < int (r * nat d)" by (simp only: of_nat_less_iff)
    then have "INT64_MAX < int r * d" using d by (simp add: INT64_MAX_def)
    also have "\<dots> \<le> int r * d * prod_list ds" 
      using p d mult_left_mono[of 1 "prod_list ds" "int r * d"] by simp
    finally show ?thesis using True d by (simp add: mult.assoc)
  next
    case False
    then have le: "r * nat d \<le> nat INT64_MAX"
      using d by (simp add: not_less less_eq_div_iff_mult_less_eq)
    then have "mul64 r (nat d) = r * nat d"
      by (intro mul64_exact) (simp add: INT64_MAX_def SIZE_MAX_def)
    moreover have "0 < r * nat d" using d Cons.prems(2) by simp
    ultimately show ?thesis
      using False d le rest Cons.IH[of "r * nat d"] by (simp add: mult.assoc)
  qed
qed

text \<open>The functional contract: exactly the non-negative shapes whose product fits.\<close>

lemma CheckedElementCount_spec:
  "CheckedElementCount dims =
     (if (\<forall>d \<in> set dims. 0 \<le> d) \<and> prod_list dims \<le> INT64_MAX
      then Some (nat (prod_list dims)) else None)"
proof (cases "\<forall>d \<in> set dims. 0 \<le> d")
  case neg: False
  then have "scan_dims dims False = None" by (auto simp: scan_dims_eq not_le)
  with neg show ?thesis by (auto simp: CheckedElementCount_def)
next
  case nonneg: True
  then have scan: "scan_dims dims False = Some (0 \<in> set dims)"
    by (auto simp: scan_dims_eq not_less)
  show ?thesis
  proof (cases "0 \<in> set dims")
    case True
    then have "prod_list dims = 0" by (simp add: prod_list_eq_0)
    with True nonneg scan show ?thesis
      by (simp add: CheckedElementCount_def multiply_dims_zero INT64_MAX_def)
  next
    case False
    with nonneg have "\<And>d. d \<in> set dims \<Longrightarrow> 0 < d" by (auto simp: order_less_le)
    with False nonneg scan show ?thesis
      using multiply_dims_pos[of dims 1] by (simp add: CheckedElementCount_def INT64_MAX_def)
  qed
qed

lemma CheckedElementCount_SomeD:
  assumes "CheckedElementCount dims = Some c"
  shows "\<forall>d \<in> set dims. 0 \<le> d" and "c = nat (prod_list dims)" and "int c \<le> INT64_MAX"
    and "int c = prod_list dims"
proof -
  from assms show n: "\<forall>d \<in> set dims. 0 \<le> d" and c: "c = nat (prod_list dims)"
    by (auto simp: CheckedElementCount_spec split: if_splits)
  then have "0 \<le> prod_list dims" by (intro prod_list_nonneg) auto
  with c assms show "int c \<le> INT64_MAX" and "int c = prod_list dims"
    by (auto simp: CheckedElementCount_spec split: if_splits)
qed

lemma CheckedByteCount_spec:
  "CheckedByteCount dims eb =
     (if eb = 0 then None else
      case CheckedElementCount dims of None \<Rightarrow> None
      | Some c \<Rightarrow> if c * eb \<le> SIZE_MAX then Some (c * eb) else None)"
proof (cases "eb = 0")
  case False
  have "c > SIZE_MAX div eb \<longleftrightarrow> \<not> c * eb \<le> SIZE_MAX" for c
    using False by (simp add: div_less_iff_less_mult not_le)
  with False show ?thesis
    by (auto simp: CheckedByteCount_def mul64_exact split: option.splits)
qed (simp add: CheckedByteCount_def)

lemma CheckedTensorBytes_bound:
  assumes "CheckedTensorBytes dims dtype = Some b"
  shows "b \<le> SIZE_MAX"
proof (cases "dtype = INT4")
  case True
  with assms obtain c where c: "CheckedElementCount dims = Some c" "b = c div 2 + c mod 2"
    by (auto simp: CheckedTensorBytes_def split: option.splits)
  from CheckedElementCount_SomeD(3)[OF c(1)] have "c \<le> SIZE_MAX"
    by (simp add: INT64_MAX_def SIZE_MAX_def)
  with c(2) show ?thesis by linarith
next
  case False
  with assms show ?thesis
    by (auto simp: CheckedTensorBytes_def CheckedByteCount_spec split: option.splits if_splits)
qed

text \<open>
  The byte count is exact: no multiplication of the check wrapped.
\<close>

lemma CheckedTensorBytes_exact:
  assumes "CheckedTensorBytes dims dtype = Some b"
  shows "int b = (if dtype = INT4 then (prod_list dims + 1) div 2
                  else prod_list dims * int (DataTypeBytes dtype))"
proof (cases "dtype = INT4")
  case True
  with assms obtain c where c: "CheckedElementCount dims = Some c" "b = c div 2 + c mod 2"
    by (auto simp: CheckedTensorBytes_def split: option.splits)
  have "int c = prod_list dims" by (rule CheckedElementCount_SomeD(4)[OF c(1)])
  with c True show ?thesis by (auto simp: zdiv_int zmod_int) presburger
next
  case False
  with assms obtain c where c: "CheckedElementCount dims = Some c" "b = c * DataTypeBytes dtype"
    by (auto simp: CheckedTensorBytes_def CheckedByteCount_spec split: option.splits if_splits)
  with CheckedElementCount_SomeD(4)[OF c(1)] False show ?thesis by simp
qed

end
