(* ===== verification/Size_Class.thy ===== *)
theory Size_Class
  imports Shape
begin

text \<open>
  The size classes of the buffer pool, \<open>BufferPool::NormalizeSize\<close> of \<open>src/core/memory.cc\<close>: a
  request is served by a block of the next power of two from 64 on, above 8192 bytes by the next
  multiple of 4096.  The pool builds its blocks from them, and a tensor made from the pool has
  its class as its capacity.  A failed \<open>CHECK\<close> throws, which is \<open>None\<close>.
\<close>

definition MAX_CHUNK_SIZE :: nat where "MAX_CHUNK_SIZE = 8192"
definition MIN_CLASS_SIZE :: nat where "MIN_CLASS_SIZE = 64"
definition LARGE_ALIGN_SIZE :: nat where "LARGE_ALIGN_SIZE = 4096"

definition ALIGN_UP :: "nat \<Rightarrow> nat \<Rightarrow> nat" where
  "ALIGN_UP step sz = (if sz mod step = 0 then sz else sz - sz mod step + step)"

text \<open>The doubling loop; \<open>klass\<close> starts at 64, so the test \<open>klass = 0\<close> never fires.\<close>

function double_until :: "nat \<Rightarrow> nat \<Rightarrow> nat" where
  "double_until klass sz =
     (if klass = 0 \<or> \<not> klass < sz then klass else double_until (2 * klass) sz)"
  by pat_completeness auto
termination
  by (relation "measure (\<lambda>(klass, sz). sz - klass)") auto

declare double_until.simps [simp del]

definition NormalizeSize :: "nat \<Rightarrow> nat option" where
  "NormalizeSize sz =
     (if sz = 0 then Some MIN_CLASS_SIZE
      else if sz \<le> MAX_CHUNK_SIZE then Some (double_until MIN_CLASS_SIZE sz)
      else if sz \<le> SIZE_MAX - (LARGE_ALIGN_SIZE - 1) then Some (ALIGN_UP LARGE_ALIGN_SIZE sz)
      else None)"

lemmas pool_consts = MAX_CHUNK_SIZE_def MIN_CLASS_SIZE_def LARGE_ALIGN_SIZE_def

lemma ALIGN_UP_ge: "0 < step \<Longrightarrow> sz \<le> ALIGN_UP step sz"
proof -
  assume "0 < step"
  then have "sz mod step < step" by simp
  then have "sz \<le> sz - sz mod step + step" by arith
  then show ?thesis by (simp only: ALIGN_UP_def) simp
qed

lemma ALIGN_UP_lt: "0 < step \<Longrightarrow> ALIGN_UP step sz < sz + step"
proof -
  assume "0 < step"
  moreover have "sz mod step \<le> sz" by simp
  ultimately show ?thesis by (cases "sz mod step = 0") (auto simp: ALIGN_UP_def)
qed

lemma ALIGN_UP_dvd: "0 < step \<Longrightarrow> step dvd ALIGN_UP step sz"
  by (auto simp: ALIGN_UP_def minus_mod_eq_mult_div intro: dvd_add)

lemma ALIGN_UP_id [simp]: "step dvd sz \<Longrightarrow> ALIGN_UP step sz = sz"
  by (simp add: ALIGN_UP_def)

lemma double_until_bounds:
  "0 < klass \<Longrightarrow> sz \<le> double_until klass sz \<and>
     (klass < sz \<longrightarrow> double_until klass sz < 2 * sz) \<and>
     (\<not> klass < sz \<longrightarrow> double_until klass sz = klass) \<and>
     (\<exists>k. double_until klass sz = klass * 2 ^ k)"
proof (induction klass sz rule: double_until.induct)
  case (1 klass sz)
  show ?case
  proof (cases "klass < sz")
    case False
    then show ?thesis
      using exI[of "\<lambda>k. klass = klass * 2 ^ k" 0] by (simp add: double_until.simps[of klass sz])
  next
    case True
    with "1.prems" have eq: "double_until klass sz = double_until (2 * klass) sz"
      by (simp add: double_until.simps[of klass sz])
    from True "1.prems" have IH: "sz \<le> double_until (2 * klass) sz \<and>
     (2 * klass < sz \<longrightarrow> double_until (2 * klass) sz < 2 * sz) \<and>
     (\<not> 2 * klass < sz \<longrightarrow> double_until (2 * klass) sz = 2 * klass) \<and>
     (\<exists>k. double_until (2 * klass) sz = (2 * klass) * 2 ^ k)"
      by (intro "1.IH") auto
    then obtain k where "double_until (2 * klass) sz = (2 * klass) * 2 ^ k" by blast
    then have "\<exists>k. double_until klass sz = klass * 2 ^ k"
      by (intro exI[of _ "Suc k"]) (simp add: eq)
    moreover from IH True eq have "double_until klass sz < 2 * sz"
      by (cases "2 * klass < sz") auto
    ultimately show ?thesis using IH eq True by auto
  qed
qed

lemma NormalizeSize_bounds:
  assumes "NormalizeSize sz = Some c"
  shows "sz \<le> c" and "64 \<le> c" and "64 dvd c" and "64 \<le> sz \<Longrightarrow> c < 2 * sz + 4096"
proof -
  have "sz \<le> c \<and> 64 \<le> c \<and> 64 dvd c \<and> (64 \<le> sz \<longrightarrow> c < 2 * sz + 4096)"
  proof (cases "sz \<le> MAX_CHUNK_SIZE")
    case True
    have cls: "c = double_until 64 sz \<or> sz = 0 \<and> c = 64"
      using assms True by (auto simp: NormalizeSize_def pool_consts split: if_splits)
    then show ?thesis
    proof
      assume c: "c = double_until 64 sz"
      from double_until_bounds[of 64 sz] obtain k where "c = 64 * 2 ^ k" using c by auto
      then have "64 dvd c" and "64 \<le> c" by simp_all
      with double_until_bounds[of 64 sz] c show ?thesis
        by (cases "64 < sz") auto
    qed auto
  next
    case False
    then have "c = ALIGN_UP 4096 sz" and "8192 < sz"
      using assms by (auto simp: NormalizeSize_def pool_consts split: if_splits)
    moreover have "(64::nat) dvd ALIGN_UP 4096 sz"
      using ALIGN_UP_dvd[of 4096 sz] by (rule dvd_trans[rotated]) simp_all
    ultimately show ?thesis
      using ALIGN_UP_ge[of 4096 sz] ALIGN_UP_lt[of 4096 sz] by auto
  qed
  then show "sz \<le> c" and "64 \<le> c" and "64 dvd c" and "64 \<le> sz \<Longrightarrow> c < 2 * sz + 4096"
    by auto
qed

text \<open>Only a size within a page of the end of \<open>size_t\<close> has no class.\<close>

lemma NormalizeSize_total: "sz \<le> SIZE_MAX - 4095 \<Longrightarrow> \<exists>c. NormalizeSize sz = Some c"
  by (simp add: NormalizeSize_def pool_consts)

end
