(* ===== verification/Buffer_Pool.thy ===== *)
theory Buffer_Pool
  imports Size_Class "HOL-Library.AList"
begin

text \<open>
  The buffer pool of \<open>include/core/memory.h\<close> and \<open>src/core/memory.cc\<close>: the
  chunk and block allocators, the per-class free lists and the owning \<open>Buffer\<close> handles,
  over the size classes of \<open>Size_Class\<close>.  A pointer to a \<open>MemBlock\<close> is its index in the store \<open>m_blocks\<close>; a block's
  memory is either a range of a chunk (the linked list \<open>m_head_chunk\<close> is the list
  \<open>m_chunks\<close>) or an allocation of its own on the heap.  A failed \<open>CHECK\<close> throws, which is \<open>None\<close>.
\<close>

section \<open>Chunks, blocks and the pool\<close>

datatype place = InChunk nat nat | OnHeap nat

record MemChunk =
  chunk_offset :: nat
  chunk_size :: nat

record MemBlock =
  block_size :: nat
  block_data :: place
  occupied :: bool

record BufferPool =
  m_chunks :: "MemChunk list"
  m_blocks :: "MemBlock list"
  m_mem_cache :: "(nat \<times> nat list) list"
  m_free_blocks :: "(nat \<times> nat list) list"
  m_heap :: nat

definition empty_pool :: BufferPool where
  "empty_pool = \<lparr>m_chunks = [], m_blocks = [], m_mem_cache = [], m_free_blocks = [], m_heap = 0\<rparr>"

text \<open>\<open>map[key]\<close> on a map of chains: a missing key is the null chain.\<close>

definition chain :: "(nat \<times> nat list) list \<Rightarrow> nat \<Rightarrow> nat list" where
  "chain m key = (case map_of m key of None \<Rightarrow> [] | Some bs \<Rightarrow> bs)"

lemma chain_Nil [simp]: "chain [] k = []"
  by (simp add: chain_def)

lemma chain_update [simp]: "chain (AList.update k v m) k' = (if k' = k then v else chain m k')"
  by (simp add: chain_def update_conv)

definition sub64 :: "nat \<Rightarrow> nat \<Rightarrow> nat" where
  "sub64 a b = (if b \<le> a then a - b else a + 18446744073709551616 - b)"

text \<open>The walk over the chunk list for the first chunk with room.\<close>

fun find_chunk :: "MemChunk list \<Rightarrow> nat \<Rightarrow> nat \<Rightarrow> nat option" where
  "find_chunk [] i sz = None"
| "find_chunk (c # cs) i sz =
     (if sz \<le> sub64 (chunk_size c) (chunk_offset c) then Some i else find_chunk cs (Suc i) sz)"

definition allocate_mem_chunk :: "nat \<Rightarrow> MemChunk" where
  "allocate_mem_chunk sz = \<lparr>chunk_offset = 0, chunk_size = sz\<rparr>"

definition bump_chunk :: "nat \<Rightarrow> MemChunk \<Rightarrow> MemChunk" where
  "bump_chunk sz c = c\<lparr>chunk_offset := chunk_offset c + ALIGN_UP 4 sz\<rparr>"

definition allocate_mem_block :: "nat \<Rightarrow> BufferPool \<Rightarrow> BufferPool \<times> nat" where
  "allocate_mem_block sz p =
     (let b = length (m_blocks p) in
      if sz < MAX_CHUNK_SIZE then
        (case find_chunk (m_chunks p) 0 sz of
           Some i \<Rightarrow>
             (p\<lparr>m_chunks := (m_chunks p)[i := bump_chunk sz (m_chunks p ! i)],
                m_blocks := m_blocks p @ [\<lparr>block_size = sz,
                  block_data = InChunk i (chunk_offset (m_chunks p ! i)), occupied = False\<rparr>]\<rparr>, b)
         | None \<Rightarrow>
             (let chunk = allocate_mem_chunk MAX_CHUNK_SIZE in
              (p\<lparr>m_chunks := m_chunks p @ [bump_chunk sz chunk],
                 m_blocks := m_blocks p @ [\<lparr>block_size = sz,
                   block_data = InChunk (length (m_chunks p)) (chunk_offset chunk),
                   occupied = False\<rparr>]\<rparr>, b)))
      else
        (p\<lparr>m_blocks := m_blocks p @ [\<lparr>block_size = sz, block_data = OnHeap (m_heap p),
              occupied = False\<rparr>],
           m_heap := Suc (m_heap p)\<rparr>, b))"

definition set_occupied :: "bool \<Rightarrow> nat \<Rightarrow> BufferPool \<Rightarrow> BufferPool" where
  "set_occupied v b p = p\<lparr>m_blocks := (m_blocks p)[b := (m_blocks p ! b)\<lparr>occupied := v\<rparr>]\<rparr>"

text \<open>The pooled branch of \<open>allocate\<close>: pop the free list of the class, else a new block.\<close>

definition allocate_block :: "nat \<Rightarrow> BufferPool \<Rightarrow> (BufferPool \<times> nat) option" where
  "allocate_block sz p =
     (case NormalizeSize sz of None \<Rightarrow> None
      | Some class_size \<Rightarrow>
          (case chain (m_free_blocks p) class_size of
             block # rest \<Rightarrow>
               Some (set_occupied True block
                       (p\<lparr>m_free_blocks := AList.update class_size rest (m_free_blocks p)\<rparr>), block)
           | [] \<Rightarrow>
               (let (p', block) = allocate_mem_block class_size p;
                    p'' = p'\<lparr>m_mem_cache := AList.update class_size
                              (block # chain (m_mem_cache p') class_size) (m_mem_cache p')\<rparr>
                in Some (set_occupied True block p'', block))))"

definition release_block :: "nat \<Rightarrow> BufferPool \<Rightarrow> BufferPool" where
  "release_block b p =
     (if b < length (m_blocks p) \<and> occupied (m_blocks p ! b)
      then let p' = set_occupied False b p; sz = block_size (m_blocks p ! b)
           in p'\<lparr>m_free_blocks := AList.update sz (b # chain (m_free_blocks p') sz) (m_free_blocks p')\<rparr>
      else p)"

text \<open>
  \<open>deallocate_all\<close> checks that every block of every class is free, then drops the free
  lists, the blocks and the chunks.
\<close>

definition deallocate_all :: "BufferPool \<Rightarrow> BufferPool option" where
  "deallocate_all p =
     (if \<exists>e \<in> set (m_mem_cache p). \<exists>b \<in> set (snd e). occupied (m_blocks p ! b) then None
      else Some (p\<lparr>m_free_blocks := [], m_blocks := [], m_mem_cache := [], m_chunks := []\<rparr>))"

section \<open>Buffer handles\<close>

text \<open>
  \<open>m_data\<close> is not modelled beyond the block it came from: \<open>m_block\<close> is the index of the
  block, \<open>m_releaser\<close> says whether the handle returns the block to a pool.
\<close>

record Buffer =
  m_read_only :: bool
  m_malloc :: bool
  m_released :: bool
  m_size :: nat
  m_block :: "nat option"
  m_releaser :: bool

definition Buffer_heap :: "nat \<Rightarrow> Buffer" where
  "Buffer_heap sz = \<lparr>m_read_only = False, m_malloc = True, m_released = False, m_size = sz,
     m_block = None, m_releaser = False\<rparr>"

definition Buffer_block :: "nat \<Rightarrow> nat \<Rightarrow> Buffer" where
  "Buffer_block block sz = \<lparr>m_read_only = False, m_malloc = False, m_released = False,
     m_size = sz, m_block = Some block, m_releaser = True\<rparr>"

text \<open>\<open>BufferPool::allocate\<close>; without an owning \<open>shared_ptr\<close> the buffer is a plain heap one.\<close>

definition allocate :: "bool \<Rightarrow> nat \<Rightarrow> BufferPool \<Rightarrow> (BufferPool \<times> Buffer) option" where
  "allocate owned sz p =
     (if \<not> owned then Some (p, Buffer_heap sz)
      else case allocate_block sz p of None \<Rightarrow> None
           | Some (p', block) \<Rightarrow> Some (p', Buffer_block block (block_size (m_blocks p' ! block))))"

text \<open>\<open>Buffer::deallocate\<close>, run by the destructor: at most one release per handle.\<close>

definition buffer_deallocate :: "Buffer \<Rightarrow> BufferPool \<Rightarrow> Buffer \<times> BufferPool" where
  "buffer_deallocate buf p =
     (case m_block buf of
        Some block \<Rightarrow>
          if \<not> m_malloc buf \<and> \<not> m_released buf
          then (buf\<lparr>m_released := True\<rparr>,
                if m_releaser buf then release_block block p else set_occupied False block p)
          else (buf, p)
      | None \<Rightarrow> (buf, p))"

section \<open>Invariant\<close>

text \<open>The memory ranges of two blocks share a byte.\<close>

definition place_overlap :: "MemBlock \<Rightarrow> MemBlock \<Rightarrow> bool" where
  "place_overlap x y =
     (case (block_data x, block_data y) of
        (InChunk i o1, InChunk j o2) \<Rightarrow> i = j \<and> o1 < o2 + block_size y \<and> o2 < o1 + block_size x
      | (OnHeap h, OnHeap k) \<Rightarrow> h = k
      | _ \<Rightarrow> False)"

definition chunks_ok :: "BufferPool \<Rightarrow> bool" where
  "chunks_ok p \<longleftrightarrow> (\<forall>c \<in> set (m_chunks p).
     chunk_offset c \<le> chunk_size c \<and> chunk_size c = MAX_CHUNK_SIZE \<and> 64 dvd chunk_offset c)"

definition block_placed :: "BufferPool \<Rightarrow> MemBlock \<Rightarrow> bool" where
  "block_placed p x =
     (64 \<le> block_size x \<and> 64 dvd block_size x \<and>
      (case block_data x of
         InChunk i off \<Rightarrow> i < length (m_chunks p) \<and> off + block_size x \<le> chunk_offset (m_chunks p ! i)
       | OnHeap h \<Rightarrow> h < m_heap p))"

definition blocks_disjoint :: "BufferPool \<Rightarrow> bool" where
  "blocks_disjoint p \<longleftrightarrow> (\<forall>i < length (m_blocks p). \<forall>j < length (m_blocks p).
     i \<noteq> j \<longrightarrow> \<not> place_overlap (m_blocks p ! i) (m_blocks p ! j))"

definition free_ok :: "BufferPool \<Rightarrow> bool" where
  "free_ok p \<longleftrightarrow> (\<forall>c. distinct (chain (m_free_blocks p) c) \<and>
     (\<forall>b \<in> set (chain (m_free_blocks p) c).
        b < length (m_blocks p) \<and> \<not> occupied (m_blocks p ! b) \<and> block_size (m_blocks p ! b) = c))"

definition cache_ok :: "BufferPool \<Rightarrow> bool" where
  "cache_ok p \<longleftrightarrow> (\<forall>b < length (m_blocks p). b \<in> set (chain (m_mem_cache p) (block_size (m_blocks p ! b))))"

definition pool_inv :: "BufferPool \<Rightarrow> bool" where
  "pool_inv p \<longleftrightarrow> chunks_ok p \<and> (\<forall>x \<in> set (m_blocks p). block_placed p x) \<and>
     blocks_disjoint p \<and> free_ok p \<and> cache_ok p"

lemma pool_inv_empty: "pool_inv empty_pool"
  by (simp add: pool_inv_def empty_pool_def chunks_ok_def blocks_disjoint_def free_ok_def cache_ok_def)

lemma place_overlap_sym: "place_overlap x y \<longleftrightarrow> place_overlap y x"
  by (auto simp: place_overlap_def split: place.splits)

lemma set_occupied_sel [simp]:
  "m_chunks (set_occupied v b p) = m_chunks p"
  "m_heap (set_occupied v b p) = m_heap p"
  "m_mem_cache (set_occupied v b p) = m_mem_cache p"
  "m_free_blocks (set_occupied v b p) = m_free_blocks p"
  "length (m_blocks (set_occupied v b p)) = length (m_blocks p)"
  by (simp_all add: set_occupied_def)

lemma set_occupied_nth:
  "i < length (m_blocks p) \<Longrightarrow> m_blocks (set_occupied v b p) ! i =
     (if i = b then (m_blocks p ! b)\<lparr>occupied := v\<rparr> else m_blocks p ! i)"
  by (auto simp: set_occupied_def nth_list_update)

lemma set_occupied_block [simp]:
  "i < length (m_blocks p) \<Longrightarrow> block_size (m_blocks (set_occupied v b p) ! i) = block_size (m_blocks p ! i)"
  "i < length (m_blocks p) \<Longrightarrow> block_data (m_blocks (set_occupied v b p) ! i) = block_data (m_blocks p ! i)"
  by (auto simp: set_occupied_nth)

text \<open>What of the invariant does not look at the occupied flags.\<close>

definition layout_inv :: "BufferPool \<Rightarrow> bool" where
  "layout_inv p \<longleftrightarrow> chunks_ok p \<and> (\<forall>i < length (m_blocks p). block_placed p (m_blocks p ! i)) \<and>
     blocks_disjoint p"

lemma pool_inv_layout: "pool_inv p \<longleftrightarrow> layout_inv p \<and> free_ok p \<and> cache_ok p"
  by (auto simp: pool_inv_def layout_inv_def all_set_conv_all_nth)

lemma layout_inv_set_occupied [simp]: "layout_inv (set_occupied v b p) = layout_inv p"
proof -
  have "block_placed (set_occupied v b p) (m_blocks (set_occupied v b p) ! i) =
        block_placed p (m_blocks p ! i)" if "i < length (m_blocks p)" for i
    using that by (simp add: block_placed_def split: place.split)
  moreover have "place_overlap (m_blocks (set_occupied v b p) ! i) (m_blocks (set_occupied v b p) ! j) =
        place_overlap (m_blocks p ! i) (m_blocks p ! j)"
    if "i < length (m_blocks p)" "j < length (m_blocks p)" for i j
    using that by (simp add: place_overlap_def split: place.split)
  ultimately show ?thesis
    by (simp add: layout_inv_def chunks_ok_def blocks_disjoint_def)
qed

lemma layout_inv_lists [simp]:
  "layout_inv (p\<lparr>m_free_blocks := f\<rparr>) = layout_inv p"
  "layout_inv (p\<lparr>m_mem_cache := f\<rparr>) = layout_inv p"
  by (simp_all add: layout_inv_def chunks_ok_def blocks_disjoint_def block_placed_def cong: place.case_cong)

lemma find_chunk_Some:
  assumes "find_chunk cs k sz = Some i"
  shows "k \<le> i" and "i - k < length cs"
    and "sz \<le> sub64 (chunk_size (cs ! (i - k))) (chunk_offset (cs ! (i - k)))"
proof -
  have "k \<le> i \<and> i - k < length cs \<and> sz \<le> sub64 (chunk_size (cs ! (i - k))) (chunk_offset (cs ! (i - k)))"
    using assms
  proof (induction cs arbitrary: k)
    case (Cons c cs)
    show ?case
    proof (cases "sz \<le> sub64 (chunk_size c) (chunk_offset c)")
      case False
      with Cons.prems have "find_chunk cs (Suc k) sz = Some i" by simp
      from Cons.IH[OF this] show ?thesis by (auto simp: Suc_diff_Suc nth_Cons' diff_Suc split: nat.splits)
    qed (use Cons.prems in auto)
  qed simp
  then show "k \<le> i" and "i - k < length cs"
    and "sz \<le> sub64 (chunk_size (cs ! (i - k))) (chunk_offset (cs ! (i - k)))" by auto
qed

lemma chunks_okD:
  assumes "chunks_ok p" and "i < length (m_chunks p)"
  shows "chunk_offset (m_chunks p ! i) \<le> chunk_size (m_chunks p ! i)"
    and "chunk_size (m_chunks p ! i) = MAX_CHUNK_SIZE" and "64 dvd chunk_offset (m_chunks p ! i)"
  using assms unfolding chunks_ok_def all_set_conv_all_nth by blast+

lemma find_chunk_room:
  assumes "chunks_ok p" and "find_chunk (m_chunks p) 0 sz = Some i"
  shows "i < length (m_chunks p)"
    and "chunk_offset (m_chunks p ! i) + sz \<le> chunk_size (m_chunks p ! i)"
proof -
  from find_chunk_Some[OF assms(2)] show i: "i < length (m_chunks p)" by simp
  with assms(1) have "chunk_offset (m_chunks p ! i) \<le> chunk_size (m_chunks p ! i)"
    by (blast dest: chunks_okD)
  with find_chunk_Some(3)[OF assms(2)]
  show "chunk_offset (m_chunks p ! i) + sz \<le> chunk_size (m_chunks p ! i)"
    by (simp add: sub64_def)
qed

section \<open>Preservation\<close>

text \<open>Appending a block that lies in fresh memory keeps the layout.\<close>

lemma layout_inv_append:
  assumes inv: "layout_inv p"
    and cs: "length (m_chunks p) \<le> length cs"
    and grow: "\<And>i. i < length (m_chunks p) \<Longrightarrow> chunk_offset (m_chunks p ! i) \<le> chunk_offset (cs ! i)"
    and ok: "\<And>i. i < length cs \<Longrightarrow> chunk_offset (cs ! i) \<le> chunk_size (cs ! i) \<and>
                chunk_size (cs ! i) = MAX_CHUNK_SIZE \<and> 64 dvd chunk_offset (cs ! i)"
    and h: "m_heap p \<le> h"
    and placed: "block_placed (p\<lparr>m_chunks := cs, m_blocks := m_blocks p @ [x], m_heap := h\<rparr>) x"
    and fresh: "\<And>i. i < length (m_blocks p) \<Longrightarrow> \<not> place_overlap (m_blocks p ! i) x"
  shows "layout_inv (p\<lparr>m_chunks := cs, m_blocks := m_blocks p @ [x], m_heap := h\<rparr>)" (is "layout_inv ?p")
proof -
  have sel: "m_chunks ?p = cs" by simp
  have "chunks_ok ?p" unfolding chunks_ok_def all_set_conv_all_nth sel using ok by blast
  moreover have "block_placed ?p (m_blocks ?p ! i)" if "i < length (m_blocks ?p)" for i
  proof (cases "i = length (m_blocks p)")
    case True
    with placed show ?thesis by simp
  next
    case False
    with that have i: "i < length (m_blocks p)" by simp
    with inv have "block_placed p (m_blocks p ! i)" by (simp add: layout_inv_def)
    with cs grow h have "block_placed ?p (m_blocks p ! i)"
      by (fastforce simp: block_placed_def split: place.splits intro: order_trans)
    with i show ?thesis by (simp add: nth_append)
  qed
  moreover have "blocks_disjoint ?p"
    using inv fresh place_overlap_sym
    by (auto simp: blocks_disjoint_def layout_inv_def nth_append less_Suc_eq)
  ultimately show ?thesis by (simp add: layout_inv_def)
qed

text \<open>An old block of a chunk ends before the chunk's bump pointer.\<close>

lemma layout_inv_below:
  assumes "layout_inv p" and "j < length (m_blocks p)" and "block_data (m_blocks p ! j) = InChunk i off"
  shows "i < length (m_chunks p)" and "off + block_size (m_blocks p ! j) \<le> chunk_offset (m_chunks p ! i)"
proof -
  from assms(1,2) have "block_placed p (m_blocks p ! j)" by (simp add: layout_inv_def)
  with assms(3) show "i < length (m_chunks p)"
    and "off + block_size (m_blocks p ! j) \<le> chunk_offset (m_chunks p ! i)"
    by (simp_all add: block_placed_def)
qed

lemma layout_inv_heap:
  assumes "layout_inv p" and "j < length (m_blocks p)" and "block_data (m_blocks p ! j) = OnHeap h"
  shows "h < m_heap p"
  using assms by (auto simp: layout_inv_def block_placed_def dest!: spec[of _ j])

lemma allocate_mem_block_layout:
  assumes inv: "layout_inv p" and sz: "64 \<le> sz" "64 dvd sz"
    and al: "allocate_mem_block sz p = (p', b)"
  shows "layout_inv p'"
proof -
  have four: "ALIGN_UP 4 sz = sz"
    using dvd_trans[of 4 64 sz] sz(2) by simp
  from inv have cok: "chunks_ok p" by (simp add: layout_inv_def)
  consider (old) i where "sz < MAX_CHUNK_SIZE" "find_chunk (m_chunks p) 0 sz = Some i"
    | (new) "sz < MAX_CHUNK_SIZE" "find_chunk (m_chunks p) 0 sz = None"
    | (heap) "\<not> sz < MAX_CHUNK_SIZE" by fastforce
  then show ?thesis
  proof cases
    case (old i)
    note room = find_chunk_room[OF cok old(2)]
    note ci = chunks_okD[OF cok room(1)]
    let ?x = "\<lparr>block_size = sz, block_data = InChunk i (chunk_offset (m_chunks p ! i)), occupied = False\<rparr>"
    let ?cs = "(m_chunks p)[i := bump_chunk sz (m_chunks p ! i)]"
    have p': "p' = p\<lparr>m_chunks := ?cs, m_blocks := m_blocks p @ [?x], m_heap := m_heap p\<rparr>"
      using al old by (cases p) (auto simp: allocate_mem_block_def Let_def)
    show ?thesis unfolding p'
    proof (rule layout_inv_append[OF inv])
      fix k assume "k < length ?cs"
      then show "chunk_offset (?cs ! k) \<le> chunk_size (?cs ! k) \<and>
          chunk_size (?cs ! k) = MAX_CHUNK_SIZE \<and> 64 dvd chunk_offset (?cs ! k)"
        using room ci sz(2) chunks_okD[OF cok, of k]
        by (cases "k = i") (auto simp: bump_chunk_def four intro: dvd_add)
    next
      fix k assume k: "k < length (m_blocks p)"
      show "\<not> place_overlap (m_blocks p ! k) ?x"
      proof (cases "block_data (m_blocks p ! k)")
        case (InChunk i' off)
        with layout_inv_below[OF inv k this] show ?thesis by (auto simp: place_overlap_def)
      qed (simp add: place_overlap_def)
    qed (use room(1) sz in \<open>auto simp: nth_list_update bump_chunk_def block_placed_def four\<close>)
  next
    case new
    let ?c = "bump_chunk sz (allocate_mem_chunk MAX_CHUNK_SIZE)"
    let ?x = "\<lparr>block_size = sz, block_data = InChunk (length (m_chunks p)) 0, occupied = False\<rparr>"
    have p': "p' = p\<lparr>m_chunks := m_chunks p @ [?c], m_blocks := m_blocks p @ [?x], m_heap := m_heap p\<rparr>"
      using al new by (cases p) (auto simp: allocate_mem_block_def allocate_mem_chunk_def Let_def)
    show ?thesis unfolding p'
    proof (rule layout_inv_append[OF inv])
      fix k assume "k < length (m_chunks p @ [?c])"
      then show "chunk_offset ((m_chunks p @ [?c]) ! k) \<le> chunk_size ((m_chunks p @ [?c]) ! k) \<and>
          chunk_size ((m_chunks p @ [?c]) ! k) = MAX_CHUNK_SIZE \<and>
          64 dvd chunk_offset ((m_chunks p @ [?c]) ! k)"
        using new sz chunks_okD[OF cok, of k]
        by (cases "k = length (m_chunks p)")
          (auto simp: nth_append bump_chunk_def allocate_mem_chunk_def four)
    next
      fix k assume k: "k < length (m_blocks p)"
      show "\<not> place_overlap (m_blocks p ! k) ?x"
      proof (cases "block_data (m_blocks p ! k)")
        case (InChunk i' off)
        with layout_inv_below[OF inv k this] show ?thesis by (auto simp: place_overlap_def)
      qed (simp add: place_overlap_def)
    qed (use sz in \<open>auto simp: nth_append bump_chunk_def allocate_mem_chunk_def block_placed_def four\<close>)
  next
    case heap
    let ?x = "\<lparr>block_size = sz, block_data = OnHeap (m_heap p), occupied = False\<rparr>"
    have p': "p' = p\<lparr>m_chunks := m_chunks p, m_blocks := m_blocks p @ [?x], m_heap := Suc (m_heap p)\<rparr>"
      using al heap by (cases p) (auto simp: allocate_mem_block_def Let_def)
    show ?thesis unfolding p'
    proof (rule layout_inv_append[OF inv])
      fix k assume k: "k < length (m_blocks p)"
      show "\<not> place_overlap (m_blocks p ! k) ?x"
      proof (cases "block_data (m_blocks p ! k)")
        case (OnHeap h)
        with layout_inv_heap[OF inv k this] show ?thesis by (auto simp: place_overlap_def)
      qed (simp add: place_overlap_def)
    qed (use sz chunks_okD[OF cok] in \<open>auto simp: block_placed_def\<close>)
  qed
qed

lemma allocate_mem_block_frame:
  assumes "allocate_mem_block sz p = (p', b)"
  shows "b = length (m_blocks p)" and "m_free_blocks p' = m_free_blocks p"
    and "m_mem_cache p' = m_mem_cache p"
    and "\<exists>x. m_blocks p' = m_blocks p @ [x] \<and> block_size x = sz \<and> \<not> occupied x"
  using assms by (auto simp: allocate_mem_block_def Let_def split: if_splits option.splits)

lemma allocate_block_cases:
  assumes "allocate_block sz p = Some (p', b)"
  obtains (reuse) c rest where "NormalizeSize sz = Some c" "chain (m_free_blocks p) c = b # rest"
      "p' = set_occupied True b (p\<lparr>m_free_blocks := AList.update c rest (m_free_blocks p)\<rparr>)"
    | (fresh) c q where "NormalizeSize sz = Some c" "chain (m_free_blocks p) c = []"
      "allocate_mem_block c p = (q, b)"
      "p' = set_occupied True b (q\<lparr>m_mem_cache := AList.update c (b # chain (m_mem_cache q) c) (m_mem_cache q)\<rparr>)"
  using assms by (auto simp: allocate_block_def Let_def split: option.splits list.splits prod.splits)

lemma allocate_block_inv:
  assumes inv: "pool_inv p" and al: "allocate_block sz p = Some (p', b)"
  shows "pool_inv p'"
  using al
proof (cases rule: allocate_block_cases)
  case (reuse c rest)
  from inv have free: "free_ok p" and cache: "cache_ok p" and lay: "layout_inv p"
    by (simp_all add: pool_inv_layout)
  have b: "b < length (m_blocks p)" "\<not> occupied (m_blocks p ! b)" "block_size (m_blocks p ! b) = c"
    using free reuse(2) by (auto simp: free_ok_def dest: spec[of _ c])
  have "free_ok p'"
    unfolding free_ok_def
  proof (intro allI conjI ballI)
    fix k
    have dk: "distinct (chain (m_free_blocks p) k)" and dc: "distinct (b # rest)"
      using free reuse(2) by (auto simp: free_ok_def dest: spec[of _ c])
    then show "distinct (chain (m_free_blocks p') k)" using reuse(3) by auto
    fix x assume x: "x \<in> set (chain (m_free_blocks p') k)"
    then have xk: "x \<in> set (chain (m_free_blocks p) k)" and neq: "k = c \<longrightarrow> x \<noteq> b"
      using reuse(2,3) dc by (auto split: if_splits)
    then have old: "x < length (m_blocks p)" "\<not> occupied (m_blocks p ! x)" "block_size (m_blocks p ! x) = k"
      using free by (auto simp: free_ok_def)
    with neq b(3) have "x \<noteq> b" by auto
    with old show "x < length (m_blocks p')" and "\<not> occupied (m_blocks p' ! x)"
      and "block_size (m_blocks p' ! x) = k"
      using reuse(3) by (simp_all add: set_occupied_nth)
  qed
  moreover have "cache_ok p'"
    using cache reuse(3) by (simp add: cache_ok_def)
  moreover have "layout_inv p'" using lay reuse(3) by simp
  ultimately show ?thesis by (simp add: pool_inv_layout)
next
  case (fresh c q)
  from inv have free: "free_ok p" and cache: "cache_ok p" and lay: "layout_inv p"
    by (simp_all add: pool_inv_layout)
  note fr = allocate_mem_block_frame[OF fresh(3)]
  from fr(4) obtain x where x: "m_blocks q = m_blocks p @ [x]" "block_size x = c" "\<not> occupied x" by blast
  note nb = NormalizeSize_bounds[OF fresh(1)]
  have "layout_inv q" by (rule allocate_mem_block_layout[OF lay nb(2,3) fresh(3)])
  then have "layout_inv p'" using fresh(4) by simp
  moreover have "free_ok p'"
    unfolding free_ok_def
  proof (intro allI conjI ballI)
    fix k
    show "distinct (chain (m_free_blocks p') k)" using free fresh(4) fr(2) by (simp add: free_ok_def)
    fix y assume "y \<in> set (chain (m_free_blocks p') k)"
    then have old: "y < length (m_blocks p)" "\<not> occupied (m_blocks p ! y)" "block_size (m_blocks p ! y) = k"
      using free fresh(4) fr(2) by (auto simp: free_ok_def)
    with fr(1) show "y < length (m_blocks p')" and "\<not> occupied (m_blocks p' ! y)"
      and "block_size (m_blocks p' ! y) = k"
      using fresh(4) x(1) by (simp_all add: set_occupied_nth nth_append)
  qed
  moreover have "cache_ok p'"
    unfolding cache_ok_def
  proof (intro allI impI)
    fix y assume y: "y < length (m_blocks p')"
    show "y \<in> set (chain (m_mem_cache p') (block_size (m_blocks p' ! y)))"
    proof (cases "y = length (m_blocks p)")
      case True
      with fr(1) x(1,2) fresh(4) show ?thesis by (simp add: nth_append)
    next
      case False
      with y have y': "y < length (m_blocks p)" using x(1) fresh(4) by simp
      with cache have "y \<in> set (chain (m_mem_cache p) (block_size (m_blocks p ! y)))"
        by (simp add: cache_ok_def)
      with y' show ?thesis using x(1) fresh(4) fr(3) by (auto simp: nth_append)
    qed
  qed
  ultimately show ?thesis by (simp add: pool_inv_layout)
qed

lemma release_block_inv:
  assumes inv: "pool_inv p"
  shows "pool_inv (release_block b p)"
proof (cases "b < length (m_blocks p) \<and> occupied (m_blocks p ! b)")
  case False
  with inv show ?thesis by (auto simp: release_block_def)
next
  case True
  let ?c = "block_size (m_blocks p ! b)"
  let ?p = "release_block b p"
  have p': "?p = (set_occupied False b p)\<lparr>m_free_blocks :=
      AList.update ?c (b # chain (m_free_blocks p) ?c) (m_free_blocks p)\<rparr>"
    using True by (simp add: release_block_def Let_def)
  from inv have free: "free_ok p" and cache: "cache_ok p" and lay: "layout_inv p"
    by (simp_all add: pool_inv_layout)
  have nb: "b \<notin> set (chain (m_free_blocks p) k)" for k
    using free True by (auto simp: free_ok_def)
  have "free_ok ?p"
    unfolding free_ok_def
  proof (intro allI conjI ballI)
    fix k
    show "distinct (chain (m_free_blocks ?p) k)" using free nb by (simp add: p' free_ok_def)
    fix y assume "y \<in> set (chain (m_free_blocks ?p) k)"
    then consider (b) "y = b" "k = ?c" | (old) "y \<in> set (chain (m_free_blocks p) k)"
      by (auto simp: p' split: if_splits)
    then have "y < length (m_blocks ?p) \<and> \<not> occupied (m_blocks ?p ! y) \<and> block_size (m_blocks ?p ! y) = k"
    proof cases
      case b
      with True show ?thesis by (simp add: p' set_occupied_nth)
    next
      case old
      with free have "y < length (m_blocks p)" "\<not> occupied (m_blocks p ! y)" "block_size (m_blocks p ! y) = k"
        by (auto simp: free_ok_def)
      with True show ?thesis by (auto simp: p' set_occupied_nth)
    qed
    then show "y < length (m_blocks ?p)" and "\<not> occupied (m_blocks ?p ! y)"
      and "block_size (m_blocks ?p ! y) = k" by auto
  qed
  moreover have "cache_ok ?p" using cache by (simp add: p' cache_ok_def)
  moreover have "layout_inv ?p" using lay by (simp add: p')
  ultimately show ?thesis by (simp add: pool_inv_layout)
qed

text \<open>\<open>deallocate_all\<close> succeeds exactly when no block is occupied.\<close>

lemma chain_in_set: "b \<in> set (chain m k) \<Longrightarrow> \<exists>e \<in> set m. b \<in> set (snd e)"
  by (cases "map_of m k") (auto simp: chain_def dest!: map_of_SomeD intro: bexI[rotated])

lemma deallocate_all_occupied:
  assumes "pool_inv p" and "b < length (m_blocks p)" and "occupied (m_blocks p ! b)"
  shows "deallocate_all p = None"
proof -
  from assms(1,2) have "b \<in> set (chain (m_mem_cache p) (block_size (m_blocks p ! b)))"
    by (simp add: pool_inv_def cache_ok_def)
  from chain_in_set[OF this] assms(3) show ?thesis by (auto simp: deallocate_all_def)
qed

lemma deallocate_all_inv:
  "deallocate_all p = Some p' \<Longrightarrow> pool_inv p'"
  by (auto simp: deallocate_all_def pool_inv_def chunks_ok_def blocks_disjoint_def free_ok_def
      cache_ok_def split: if_splits)

section \<open>The allocator interface\<close>

text \<open>
  What a client of an allocator relies on: a handle it is given was not outstanding,
  becomes outstanding, and no two outstanding handles name overlapping memory.  The
  client's lemmas are about any sequence of requests and releases.
\<close>

datatype pool_op = Allocate nat | Release nat

fun run_ops ::
  "(nat \<Rightarrow> 's \<Rightarrow> ('s \<times> nat) option) \<Rightarrow> (nat \<Rightarrow> 's \<Rightarrow> 's) \<Rightarrow> pool_op list \<Rightarrow> 's \<Rightarrow> 's option" where
  "run_ops alloc free [] s = Some s"
| "run_ops alloc free (Allocate n # ops) s =
     (case alloc n s of None \<Rightarrow> None | Some (s', b) \<Rightarrow> run_ops alloc free ops s')"
| "run_ops alloc free (Release b # ops) s = run_ops alloc free ops (free b s)"

locale disjoint_allocator =
  fixes alloc :: "nat \<Rightarrow> 's \<Rightarrow> ('s \<times> nat) option"
    and free :: "nat \<Rightarrow> 's \<Rightarrow> 's"
    and live :: "'s \<Rightarrow> nat \<Rightarrow> bool"
    and overlap :: "'s \<Rightarrow> nat \<Rightarrow> nat \<Rightarrow> bool"
    and inv :: "'s \<Rightarrow> bool"
  assumes alloc_inv: "inv s \<Longrightarrow> alloc n s = Some (s', b) \<Longrightarrow> inv s'"
    and free_inv: "inv s \<Longrightarrow> inv (free b s)"
    and alloc_live: "inv s \<Longrightarrow> alloc n s = Some (s', b) \<Longrightarrow>
          \<not> live s b \<and> (\<forall>c. live s' c \<longleftrightarrow> c = b \<or> live s c)"
    and free_live: "inv s \<Longrightarrow> live (free b s) c \<longleftrightarrow> live s c \<and> c \<noteq> b"
    and live_disjoint: "inv s \<Longrightarrow> live s a \<Longrightarrow> live s b \<Longrightarrow> a \<noteq> b \<Longrightarrow> \<not> overlap s a b"
begin

lemma run_inv: "inv s \<Longrightarrow> run_ops alloc free ops s = Some t \<Longrightarrow> inv t"
proof (induction ops arbitrary: s)
  case (Cons op ops)
  then show ?case
    by (cases op) (auto split: option.splits intro: alloc_inv free_inv)
qed simp

lemma run_disjoint:
  assumes "inv s" and "run_ops alloc free ops s = Some t"
    and "live t a" and "live t b" and "a \<noteq> b"
  shows "\<not> overlap t a b"
  using live_disjoint[OF run_inv[OF assms(1,2)] assms(3-5)] .

lemma run_kept:
  assumes "inv s" and "run_ops alloc free ops s = Some t" and "live s b" and "Release b \<notin> set ops"
  shows "live t b"
  using assms
proof (induction ops arbitrary: s)
  case (Cons op ops)
  show ?case
  proof (cases op)
    case (Allocate n)
    with Cons.prems(2) obtain s' c where
      al: "alloc n s = Some (s', c)" and rest: "run_ops alloc free ops s' = Some t"
      by (auto split: option.splits)
    from alloc_live[OF Cons.prems(1) al] Cons.prems(3) have "live s' b" by simp
    with Cons.IH[OF alloc_inv[OF Cons.prems(1) al] rest] Cons.prems(4) show ?thesis by simp
  next
    case (Release c)
    with Cons.prems have "live (free c s) b" by (auto simp: free_live)
    with Cons.IH[OF free_inv[OF Cons.prems(1)], of c] Cons.prems Release show ?thesis by simp
  qed
qed simp

end

definition live_block :: "BufferPool \<Rightarrow> nat \<Rightarrow> bool" where
  "live_block p b \<longleftrightarrow> b < length (m_blocks p) \<and> occupied (m_blocks p ! b)"

definition overlap_blocks :: "BufferPool \<Rightarrow> nat \<Rightarrow> nat \<Rightarrow> bool" where
  "overlap_blocks p a b = place_overlap (m_blocks p ! a) (m_blocks p ! b)"

lemma allocate_block_live:
  assumes inv: "pool_inv p" and al: "allocate_block sz p = Some (p', b)"
  shows "\<not> live_block p b \<and> (\<forall>c. live_block p' c \<longleftrightarrow> c = b \<or> live_block p c)"
  using al
proof (cases rule: allocate_block_cases)
  case (reuse c rest)
  with inv have "b < length (m_blocks p)" "\<not> occupied (m_blocks p ! b)"
    by (auto simp: pool_inv_def free_ok_def dest: spec[of _ c])
  with reuse(3) show ?thesis by (auto simp: live_block_def set_occupied_nth)
next
  case (fresh c q)
  from allocate_mem_block_frame[OF fresh(3)] obtain x where
    "b = length (m_blocks p)" "m_blocks q = m_blocks p @ [x]" by blast
  with fresh(4) show ?thesis
    by (auto simp: live_block_def set_occupied_nth nth_append less_Suc_eq split: if_splits)
qed

lemma release_block_live:
  "live_block (release_block b p) c \<longleftrightarrow> live_block p c \<and> c \<noteq> b"
  by (cases "c = b") (auto simp: release_block_def live_block_def Let_def set_occupied_nth)

interpretation pool: disjoint_allocator allocate_block release_block live_block overlap_blocks pool_inv
proof unfold_locales
  fix s s' :: BufferPool and n b
  assume "pool_inv s" and "allocate_block n s = Some (s', b)"
  then show "pool_inv s'" and "\<not> live_block s b \<and> (\<forall>c. live_block s' c \<longleftrightarrow> c = b \<or> live_block s c)"
    by (rule allocate_block_inv, rule allocate_block_live)
next
  fix s :: BufferPool and a b
  assume "pool_inv s" and "live_block s a" and "live_block s b" and "a \<noteq> b"
  then show "\<not> overlap_blocks s a b"
    by (simp add: live_block_def overlap_blocks_def pool_inv_def blocks_disjoint_def)
qed (rule release_block_inv release_block_live, assumption?)+

lemma allocate_block_size:
  assumes inv: "pool_inv p" and al: "allocate_block sz p = Some (p', b)"
  shows "\<exists>c. NormalizeSize sz = Some c \<and> block_size (m_blocks p' ! b) = c"
  using al
proof (cases rule: allocate_block_cases)
  case (reuse c rest)
  with inv have "b < length (m_blocks p)" "block_size (m_blocks p ! b) = c"
    by (auto simp: pool_inv_def free_ok_def dest: spec[of _ c])
  with reuse show ?thesis by simp
next
  case (fresh c q)
  from allocate_mem_block_frame[OF fresh(3)] obtain x where
    "b = length (m_blocks p)" "m_blocks q = m_blocks p @ [x]" "block_size x = c" by blast
  with fresh show ?thesis by simp
qed

section \<open>Properties\<close>

text \<open>
  C1: Starting from an empty pool, after any sequence of requests and releases (double
  releases and releases of unknown blocks included), two different blocks that are
  handed out never share a byte.
\<close>

theorem pool_live_blocks_disjoint:
  assumes "run_ops allocate_block release_block ops empty_pool = Some p"
    and "live_block p a" and "live_block p b" and "a \<noteq> b"
  shows "\<not> overlap_blocks p a b"
  using pool.run_disjoint[OF pool_inv_empty assms] .

lemma pool_live_blocks_disjoint_witness:
  "\<exists>p. run_ops allocate_block release_block [Allocate 100, Release 0, Allocate 70, Allocate 1] empty_pool = Some p \<and>
     live_block p 0 \<and> live_block p 1 \<and> \<not> overlap_blocks p 0 1"
proof -
  have "case run_ops allocate_block release_block
      [Allocate 100, Release 0, Allocate 70, Allocate 1] empty_pool
      of None \<Rightarrow> False | Some p \<Rightarrow> live_block p 0 \<and> live_block p 1"
    by (simp add: allocate_block_def release_block_def empty_pool_def NormalizeSize_def pool_consts
        allocate_mem_block_def Let_def set_occupied_def live_block_def double_until.simps
        allocate_mem_chunk_def bump_chunk_def ALIGN_UP_def chain_def sub64_def)
  from case_option_ex[OF this] obtain p where p: "run_ops allocate_block release_block
      [Allocate 100, Release 0, Allocate 70, Allocate 1] empty_pool = Some p"
    and l: "live_block p 0" "live_block p 1" by blast
  have "\<not> overlap_blocks p 0 1" by (rule pool_live_blocks_disjoint[OF p l]) simp
  with p l show ?thesis by blast
qed

text \<open>
  C2: A request is served with a block that nobody holds, that is at least as large as
  asked, that is marked occupied, and the blocks already handed out stay so.
\<close>

theorem pool_allocate_contract:
  assumes "pool_inv p" and "allocate_block sz p = Some (p', b)"
  shows "\<not> live_block p b \<and> live_block p' b \<and> sz \<le> block_size (m_blocks p' ! b) \<and>
         (\<forall>c. live_block p c = (live_block p' c \<and> c \<noteq> b)) \<and> pool_inv p'"
proof -
  from allocate_block_size[OF assms] obtain c where
    "NormalizeSize sz = Some c" "block_size (m_blocks p' ! b) = c" by blast
  with NormalizeSize_bounds(1) have "sz \<le> block_size (m_blocks p' ! b)" by blast
  with pool.alloc_live[OF assms] pool.alloc_inv[OF assms] show ?thesis by auto
qed

lemma pool_allocate_contract_witness:
  "\<exists>p' b. pool_inv empty_pool \<and> allocate_block 100 empty_pool = Some (p', b) \<and> 100 \<le> block_size (m_blocks p' ! b)"
proof -
  obtain p' b where al: "allocate_block 100 empty_pool = Some (p', b)"
    by (simp add: allocate_block_def empty_pool_def NormalizeSize_def pool_consts double_until.simps
        allocate_mem_block_def Let_def)
  from al pool_inv_empty pool_allocate_contract[OF pool_inv_empty al] show ?thesis by blast
qed

text \<open>
  The free lists are last-in first-out: a block just released is the one the next
  request of its size class gets, and the pool takes no new memory for it.
\<close>

theorem pool_release_reuses:
  assumes "pool_inv p" and "live_block p b" and "NormalizeSize sz = Some (block_size (m_blocks p ! b))"
  shows "\<exists>p'. allocate_block sz (release_block b p) = Some (p', b) \<and>
           m_chunks p' = m_chunks p \<and> m_heap p' = m_heap p \<and> length (m_blocks p') = length (m_blocks p)"
  using assms(2,3) by (simp add: allocate_block_def release_block_def live_block_def Let_def)

lemma pool_release_reuses_witness:
  "\<exists>p b p'. pool_inv p \<and> live_block p b \<and> NormalizeSize 120 = Some (block_size (m_blocks p ! b)) \<and>
      allocate_block 120 (release_block b p) = Some (p', b)"
proof -
  let ?p = "\<lparr>m_chunks = [\<lparr>chunk_offset = 128, chunk_size = 8192\<rparr>],
     m_blocks = [\<lparr>block_size = 128, block_data = InChunk 0 0, occupied = True\<rparr>],
     m_mem_cache = [(128, [0])], m_free_blocks = [], m_heap = 0\<rparr>"
  have inv: "pool_inv ?p"
    by (simp add: pool_inv_def chunks_ok_def block_placed_def blocks_disjoint_def free_ok_def
        cache_ok_def chain_def MAX_CHUNK_SIZE_def)
  have live: "live_block ?p 0" by (simp add: live_block_def)
  have cls: "NormalizeSize 120 = Some (block_size (m_blocks ?p ! 0))"
    by (simp add: NormalizeSize_def pool_consts double_until.simps)
  from pool_release_reuses[OF inv live cls] inv live cls show ?thesis by blast
qed

text \<open>
  Size classes: the class holds the request, is a multiple of 64, and the slack is
  bounded (less than the request itself up to one page).
\<close>

theorem NormalizeSize_class:
  assumes "NormalizeSize sz = Some c"
  shows "sz \<le> c \<and> 64 dvd c \<and> 64 \<le> c \<and> (64 \<le> sz \<longrightarrow> c < 2 * sz + 4096)"
  using NormalizeSize_bounds[OF assms] by auto

lemma NormalizeSize_class_witness:
  "NormalizeSize 9000 = Some 12288 \<and> (9000::nat) \<le> 12288"
proof -
  have c: "NormalizeSize 9000 = Some 12288"
    by (simp add: NormalizeSize_def pool_consts ALIGN_UP_def SIZE_MAX_def)
  from NormalizeSize_class[OF c] c show ?thesis by simp
qed

text \<open>
  A handle returns its block at most once: destroying it again changes nothing, so
  a block another client has received meanwhile is not taken from it.
\<close>

theorem buffer_deallocate_once:
  "buffer_deallocate (fst (buffer_deallocate buf p)) q =
     (fst (buffer_deallocate buf p), q)"
  by (auto simp: buffer_deallocate_def split: option.splits)

text \<open>
  The pool refuses to be torn down while a block is outstanding, whatever its class.
\<close>

theorem deallocate_all_refuses_live:
  assumes "run_ops allocate_block release_block ops empty_pool = Some p" and "live_block p b"
  shows "deallocate_all p = None"
  using deallocate_all_occupied[OF pool.run_inv[OF pool_inv_empty assms(1)], of b] assms(2)
  unfolding live_block_def by blast

lemma deallocate_all_refuses_live_witness:
  "\<exists>p. run_ops allocate_block release_block [Allocate 20000] empty_pool = Some p \<and> deallocate_all p = None"
proof -
  obtain p where p: "run_ops allocate_block release_block [Allocate 20000] empty_pool = Some p"
    and l: "live_block p 0"
    by (simp add: allocate_block_def empty_pool_def NormalizeSize_def pool_consts SIZE_MAX_def
        allocate_mem_block_def Let_def set_occupied_def live_block_def ALIGN_UP_def)
  from p deallocate_all_refuses_live[OF p l] show ?thesis by blast
qed

end
