(* ===== verification/Topo_Order.thy ===== *)
theory Topo_Order
  imports Prelude
begin

text \<open>
  The scheduling loop that four places of the program share: start from the nodes with no
  pending dependency, take one, decrement the counters of its users, make a user ready when its
  counter reaches zero.  \<open>ValidateAndOrderGraph\<close> (\<open>src/core/static_graph.cc\<close>) and
  \<open>CompiledGraph::Compile\<close> (\<open>src/core/execution_plan.cc\<close>) take the lowest ready index from a
  priority queue, \<open>RuntimeGraph::BuildDependencies\<close> (\<open>src/core/graph.cc\<close>) takes the oldest from
  a queue.  What the loop needs of its container is the locale \<open>ready_queue\<close>; both containers
  interpret it.  Each iteration retires a node, so as many iterations as nodes are enough fuel.
\<close>

section \<open>The loop\<close>

text \<open>
  \<open>for (user : users[i]) if (--pending[user] == 0) ready.push(user);\<close> with the wrap-around of
  the unsigned counter.
\<close>

fun release :: "(nat \<Rightarrow> 'q \<Rightarrow> 'q) \<Rightarrow> nat list \<Rightarrow> nat list \<times> 'q \<Rightarrow> nat list \<times> 'q" where
  "release push [] (pending, q) = (pending, q)"
| "release push (u # us) (pending, q) =
     (let pending' = pending[u := dec64 (pending ! u)]
      in release push us (pending', if pending' ! u = 0 then push u q else q))"

fun kahn ::
  "(nat \<Rightarrow> 'q \<Rightarrow> 'q) \<Rightarrow> ('q \<Rightarrow> (nat \<times> 'q) option) \<Rightarrow> nat list list \<Rightarrow>
   nat \<Rightarrow> nat list \<Rightarrow> 'q \<Rightarrow> nat list \<Rightarrow> nat list option" where
  "kahn push pop users 0 pending q order =
     (case pop q of None \<Rightarrow> Some order | Some _ \<Rightarrow> None)"
| "kahn push pop users (Suc fuel) pending q order =
     (case pop q of None \<Rightarrow> Some order
      | Some (i, q') \<Rightarrow>
          (let (pending', q'') = release push (users ! i) (pending, q')
           in kahn push pop users fuel pending' q'' (order @ [i])))"

text \<open>\<open>for (i = 0; i < n; ++i) if (pending[i] == 0) ready.push(i);\<close>\<close>

definition initial_ready :: "(nat \<Rightarrow> 'q \<Rightarrow> 'q) \<Rightarrow> 'q \<Rightarrow> nat list \<Rightarrow> 'q" where
  "initial_ready push q0 pending =
     foldl (\<lambda>q i. if pending ! i = 0 then push i q else q) q0 [0..<length pending]"

definition kahn_order ::
  "(nat \<Rightarrow> 'q \<Rightarrow> 'q) \<Rightarrow> ('q \<Rightarrow> (nat \<times> 'q) option) \<Rightarrow> 'q \<Rightarrow> nat list list \<Rightarrow> nat list \<Rightarrow>
   nat list option" where
  "kahn_order push pop q0 users pending =
     kahn push pop users (length pending) pending (initial_ready push q0 pending) []"

text \<open>The two containers: \<open>std::priority_queue<size_t, ..., std::greater>\<close> and \<open>std::queue\<close>.\<close>

definition pq_push :: "nat \<Rightarrow> nat list \<Rightarrow> nat list" where
  "pq_push x q = insort x q"

fun list_pop :: "nat list \<Rightarrow> (nat \<times> nat list) option" where
  "list_pop [] = None"
| "list_pop (x # q) = Some (x, q)"

definition fifo_push :: "nat \<Rightarrow> nat list \<Rightarrow> nat list" where
  "fifo_push x q = q @ [x]"

section \<open>Graphs as user lists and counters\<close>

text \<open>
  \<open>users ! p\<close> lists the users of node \<open>p\<close>, once per edge; \<open>pending ! i\<close> counts the edges into
  \<open>i\<close>.
\<close>

definition edges_into :: "nat list list \<Rightarrow> nat set \<Rightarrow> nat \<Rightarrow> nat" where
  "edges_into users P i = (\<Sum>p \<in> P. count_list (users ! p) i)"

definition graph_ok :: "nat list list \<Rightarrow> nat list \<Rightarrow> bool" where
  "graph_ok users pending \<longleftrightarrow> length pending = length users \<and>
     (\<forall>p < length users. set (users ! p) \<subseteq> {..<length users}) \<and>
     (\<forall>i < length users. pending ! i = edges_into users {..<length users} i)"

definition edge :: "nat list list \<Rightarrow> (nat \<times> nat) set" where
  "edge users = {(p, i). p < length users \<and> i \<in> set (users ! p)}"

definition topological :: "nat list list \<Rightarrow> nat list \<Rightarrow> bool" where
  "topological users order \<longleftrightarrow>
     (\<forall>k < length order. \<forall>p. (p, order ! k) \<in> edge users \<longrightarrow> p \<in> set (take k order))"

lemma edges_into_0:
  "finite P \<Longrightarrow> edges_into users P i = 0 \<longleftrightarrow> (\<forall>p \<in> P. i \<notin> set (users ! p))"
  by (simp add: edges_into_def count_list_0_iff)

lemma edges_into_remove:
  "finite P \<Longrightarrow> p \<in> P \<Longrightarrow>
     edges_into users P i = count_list (users ! p) i + edges_into users (P - {p}) i"
  by (simp add: edges_into_def sum.remove)

lemma topological_snoc:
  assumes "topological users order" and "\<And>p. (p, i) \<in> edge users \<Longrightarrow> p \<in> set order"
  shows "topological users (order @ [i])"
  using assms by (auto simp: topological_def nth_append less_Suc_eq)

lemma topological_pred:
  assumes "topological users order" and "x \<in> set order" and "(p, x) \<in> edge users"
  shows "p \<in> set order"
proof -
  obtain k where "k < length order" "order ! k = x" using assms(2) by (auto simp: in_set_conv_nth)
  then have "p \<in> set (take k order)" using assms(1,3) by (auto simp: topological_def)
  then show ?thesis by (rule in_set_takeD)
qed

lemma distinct_full:
  assumes "distinct xs" and "set xs \<subseteq> {..<n}" and "n \<le> length xs"
  shows "set xs = {..<n}"
  using assms by (intro card_subset_eq) (auto simp: distinct_card dest: card_mono[rotated])

lemma finite_edge: "\<forall>p < length users. set (users ! p) \<subseteq> {..<length users} \<Longrightarrow> finite (edge users)"
  by (rule finite_subset[of _ "{..<length users} \<times> {..<length users}"]) (fastforce simp: edge_def)+

lemma topological_acyclic:
  assumes topo: "topological users order" and d: "distinct order" and all: "set order = {..<length users}"
    and us: "\<forall>p < length users. set (users ! p) \<subseteq> {..<length users}"
  shows "acyclic (edge users)"
proof -
  define pos where "pos x = (THE k. k < length order \<and> order ! k = x)" for x
  have pos: "pos (order ! k) = k" if "k < length order" for k
    unfolding pos_def using that d by (auto simp: nth_eq_iff_index_eq intro!: the_equality)
  have "(p, i) \<in> measure pos" if e: "(p, i) \<in> edge users" for p i
  proof -
    have "i \<in> set order" using e us all by (auto simp: edge_def)
    then obtain k where k: "k < length order" "order ! k = i" by (auto simp: in_set_conv_nth)
    have "p \<in> set (take k order)" using topo e k by (auto simp: topological_def)
    then obtain l where "l < k" "order ! l = p" using k(1) by (auto simp: in_set_conv_nth)
    then show ?thesis using pos[of l] pos[of k] k by auto
  qed
  then have "edge users \<subseteq> measure pos" by auto
  then show ?thesis using wf_subset[OF wf_measure] wf_acyclic by blast
qed

section \<open>Collecting the edges\<close>

text \<open>\<open>++pending[i]; users[producer].push_back(i);\<close>\<close>

definition add_edge :: "nat \<times> nat \<Rightarrow> nat list \<times> nat list list \<Rightarrow> nat list \<times> nat list list" where
  "add_edge e s =
     ((fst s)[snd e := Suc (fst s ! snd e)], (snd s)[fst e := snd s ! fst e @ [snd e]])"

definition edge_tables :: "nat \<Rightarrow> (nat \<times> nat) list \<Rightarrow> nat list \<times> nat list list" where
  "edge_tables n es = foldl (\<lambda>s e. add_edge e s) (replicate n 0, replicate n []) es"

lemma edge_tables_values:
  assumes "set es \<subseteq> {..<n} \<times> {..<n}"
  shows "length (fst (edge_tables n es)) = n" and "length (snd (edge_tables n es)) = n"
    and "i < n \<Longrightarrow> fst (edge_tables n es) ! i = length (filter (\<lambda>e. snd e = i) es)"
    and "p < n \<Longrightarrow> snd (edge_tables n es) ! p = map snd (filter (\<lambda>e. fst e = p) es)"
  using assms
  by (induction es arbitrary: i p rule: rev_induct)
    (auto simp: edge_tables_def add_edge_def nth_list_update)

lemma count_list_users:
  "count_list (map snd (filter (\<lambda>e. fst e = p) es)) i = length (filter (\<lambda>e. e = (p, i)) es)"
  by (induction es) auto

lemma sum_filter_pairs:
  fixes n :: nat
  shows "set es \<subseteq> {..<n} \<times> {..<n} \<Longrightarrow>
     (\<Sum>p < n. length (filter (\<lambda>e. e = (p, i)) es)) = length (filter (\<lambda>e. snd e = i) es)"
proof (induction es)
  case Nil
  then show ?case by simp
next
  case (Cons e es)
  have "(\<Sum>p < n. length (filter (\<lambda>e. e = (p, i)) (e # es))) =
      (\<Sum>p < n. (if e = (p, i) then 1 else 0)) + (\<Sum>p < n. length (filter (\<lambda>e. e = (p, i)) es))"
    by (simp add: sum.distrib[symmetric] if_distrib cong: if_cong) (rule sum.cong, auto)
  also have "(\<Sum>p < n. (if e = (p, i) then 1 else 0)) = (if snd e = i then 1 else 0 :: nat)"
    using Cons.prems sum.delta'[of "{..<n}" "fst e" "\<lambda>_. 1 :: nat"] by (cases e) auto
  finally show ?case using Cons by simp
qed

lemma edge_tables_edge:
  assumes "set es \<subseteq> {..<n} \<times> {..<n}"
  shows "edge (snd (edge_tables n es)) = set es"
proof -
  have "i \<in> set (snd (edge_tables n es) ! p) \<longleftrightarrow> (p, i) \<in> set es" if "p < n" for p i
    using edge_tables_values(4)[OF assms that] by force
  then show ?thesis using assms edge_tables_values(2)[OF assms] by (auto simp: edge_def)
qed

lemma edge_tables_ok:
  assumes "set es \<subseteq> {..<n} \<times> {..<n}"
  shows "graph_ok (snd (edge_tables n es)) (fst (edge_tables n es))"
proof -
  have "set (snd (edge_tables n es) ! p) \<subseteq> {..<n}" if "p < n" for p
    using edge_tables_values(4)[OF assms that] assms by force
  then show ?thesis
    using edge_tables_values[OF assms] sum_filter_pairs[OF assms]
    by (simp add: graph_ok_def edges_into_def count_list_users)
qed

section \<open>The container's contract\<close>

locale ready_queue =
  fixes push :: "nat \<Rightarrow> 'q \<Rightarrow> 'q"
    and pop :: "'q \<Rightarrow> (nat \<times> 'q) option"
    and q0 :: 'q
    and contents :: "'q \<Rightarrow> nat multiset"
    and good :: "'q \<Rightarrow> bool"
  assumes good_empty: "good q0" and contents_empty: "contents q0 = {#}"
    and good_push: "good q \<Longrightarrow> good (push x q)"
    and contents_push: "good q \<Longrightarrow> contents (push x q) = add_mset x (contents q)"
    and pop_None: "good q \<Longrightarrow> pop q = None \<longleftrightarrow> contents q = {#}"
    and pop_Some: "good q \<Longrightarrow> pop q = Some (x, q') \<Longrightarrow> good q' \<and> contents q = add_mset x (contents q')"
begin

text \<open>Releasing the users of a node decrements each counter once per edge.\<close>

lemma release_effect:
  assumes "good q" and "set us \<subseteq> {..<length pending}"
    and "\<And>i. i < length pending \<Longrightarrow> count_list us i \<le> pending ! i"
    and "release push us (pending, q) = (pending', q')"
  shows "good q' \<and> length pending' = length pending \<and>
    (\<forall>i < length pending. pending' ! i = pending ! i - count_list us i) \<and>
    contents q' = contents q + mset (filter (\<lambda>i. pending ! i = count_list us i) (remdups us))"
  using assms
proof (induction us arbitrary: pending q)
  case Nil
  then show ?case by simp
next
  case (Cons u us)
  let ?p = "pending[u := dec64 (pending ! u)]"
  let ?q = "if ?p ! u = 0 then push u q else q"
  have u: "u < length pending" and us: "set us \<subseteq> {..<length pending}" using Cons.prems(2) by auto
  have pos: "0 < pending ! u" using Cons.prems(3)[OF u] by simp
  have run: "release push us (?p, ?q) = (pending', q')" using Cons.prems(4) by (simp add: Let_def)
  have cnt: "count_list us i \<le> ?p ! i" if "i < length ?p" for i
    using Cons.prems(3)[of i] that pos u by (auto simp: nth_list_update split: if_splits)
  have "good ?q" using Cons.prems(1) good_push by simp
  from Cons.IH[OF this _ cnt run] us
  have g: "good q'" and l: "length pending' = length pending"
    and v: "\<forall>i < length pending. pending' ! i = ?p ! i - count_list us i"
    and c: "contents q' = contents ?q + mset (filter (\<lambda>i. ?p ! i = count_list us i) (remdups us))"
    by auto
  have v': "pending' ! i = pending ! i - count_list (u # us) i" if "i < length pending" for i
    using v that pos by (auto simp: nth_list_update u)
  have up: "?p ! u = pending ! u - 1" using pos u by simp
  have rest: "filter (\<lambda>i. ?p ! i = count_list us i) (remdups us) =
      filter (\<lambda>i. pending ! i = count_list (u # us) i) (remdups us)"
    using pos u by (intro filter_cong) (auto simp: nth_list_update)
  have c': "contents q' = contents q + mset (filter (\<lambda>i. pending ! i = count_list (u # us) i) (remdups (u # us)))"
  proof (cases "u \<in> set us")
    case True
    then have "0 < count_list us u" by (simp add: count_list_0_iff neq0_conv[symmetric] del: neq0_conv)
    then have "?p ! u \<noteq> 0" using Cons.prems(3)[OF u] up by simp
    then show ?thesis using c rest True by simp
  next
    case False
    then have z: "count_list us u = 0" by (simp add: count_list_0_iff)
    have "?p ! u = 0 \<longleftrightarrow> pending ! u = count_list (u # us) u" using z up pos by auto
    then show ?thesis using c rest False contents_push[OF Cons.prems(1)] by auto
  qed
  show ?case using g l v' c' by blast
qed

text \<open>The loop invariant.\<close>

definition kahn_inv :: "nat list list \<Rightarrow> nat list \<Rightarrow> nat list \<Rightarrow> 'q \<Rightarrow> bool" where
  "kahn_inv users order pending q \<longleftrightarrow>
     good q \<and> length pending = length users \<and> distinct order \<and> set order \<subseteq> {..<length users} \<and>
     (\<forall>i < length users. pending ! i = edges_into users ({..<length users} - set order) i) \<and>
     contents q = mset_set {i. i < length users \<and> i \<notin> set order \<and> pending ! i = 0} \<and>
     topological users order"

text \<open>The node taken off the queue: it waits for nothing, and its users' counters cover its edges.\<close>

lemma kahn_inv_pop:
  assumes inv: "kahn_inv users order pending q" and pop: "pop q = Some (i, q1)"
  shows "i < length users" "i \<notin> set order" "pending ! i = 0" "good q1"
    "contents q1 = mset_set ({j. j < length users \<and> j \<notin> set order \<and> pending ! j = 0} - {i})"
    "\<And>j. j < length users \<Longrightarrow>
       pending ! j = count_list (users ! i) j + edges_into users ({..<length users} - set (order @ [i])) j"
proof -
  let ?n = "length users" let ?us = "users ! i"
  let ?R = "{j. j < ?n \<and> j \<notin> set order \<and> pending ! j = 0}"
  have g: "good q" and c: "contents q = mset_set ?R"
    and pd: "\<And>j. j < ?n \<Longrightarrow> pending ! j = edges_into users ({..<?n} - set order) j"
    using inv by (auto simp: kahn_inv_def)
  from pop_Some[OF g pop] have g1: "good q1" and c1: "contents q = add_mset i (contents q1)" by auto
  have "i \<in># contents q" using c1 by simp
  then show i: "i < ?n" "i \<notin> set order" "pending ! i = 0" using c by auto
  show "contents q1 = mset_set (?R - {i})"
    using c c1 mset_set.remove[of ?R i] i by simp
  show "good q1" by (rule g1)
  show "pending ! j = count_list ?us j + edges_into users ({..<?n} - set (order @ [i])) j" if "j < ?n" for j
    using pd[OF that] edges_into_remove[of "{..<?n} - set order" i users j] i
    by (simp add: Diff_insert[symmetric] Diff_insert2[symmetric] set_diff_eq insert_commute)
       (metis (no_types, lifting) Diff_insert Diff_insert2)
qed

lemma kahn_inv_step:
  assumes inv: "kahn_inv users order pending q" and ok: "\<forall>p < length users. set (users ! p) \<subseteq> {..<length users}"
    and pop: "pop q = Some (i, q1)" and rel: "release push (users ! i) (pending, q1) = (pending', q')"
  shows "kahn_inv users (order @ [i]) pending' q' \<and> i < length users \<and> i \<notin> set order"
proof -
  let ?n = "length users" let ?us = "users ! i"
  let ?R = "{j. j < ?n \<and> j \<notin> set order \<and> pending ! j = 0}"
  have len: "length pending = ?n" and d: "distinct order" "set order \<subseteq> {..<?n}"
    and pd: "\<And>j. j < ?n \<Longrightarrow> pending ! j = edges_into users ({..<?n} - set order) j"
    and topo: "topological users order"
    using inv by (auto simp: kahn_inv_def)
  note i = kahn_inv_pop(1-3)[OF inv pop]
  note g1 = kahn_inv_pop(4)[OF inv pop] and c1' = kahn_inv_pop(5)[OF inv pop] and dec = kahn_inv_pop(6)[OF inv pop]
  have us: "set ?us \<subseteq> {..<length pending}" using ok i(1) len by auto
  have cnt: "count_list ?us j \<le> pending ! j" if "j < length pending" for j using dec[of j] that len by simp
  from release_effect[OF g1 us cnt rel]
  have g': "good q'" and len': "length pending' = ?n"
    and pd': "\<And>j. j < ?n \<Longrightarrow> pending' ! j = pending ! j - count_list ?us j"
    and c': "contents q' = contents q1 + mset (filter (\<lambda>j. pending ! j = count_list ?us j) (remdups ?us))"
    using len by auto
  let ?A = "set (filter (\<lambda>j. pending ! j = count_list ?us j) (remdups ?us))"
  have pos: "0 < pending ! j" if "j \<in> set ?us" for j
  proof -
    have "count_list ?us j \<noteq> 0" using that by (simp add: count_list_0_iff)
    moreover have "j < length pending" using us that by auto
    ultimately show ?thesis using cnt[of j] by simp
  qed
  have done0: "pending ! j = 0" if "j \<in> set order" for j
  proof -
    have jn: "j < ?n" using that d(2) by auto
    have "\<forall>p \<in> {..<?n} - set order. j \<notin> set (users ! p)"
      using topological_pred[OF topo that] by (auto simp: edge_def)
    then show ?thesis using pd[OF jn] by (simp add: edges_into_0)
  qed
  have eq: "{j. j < ?n \<and> j \<notin> set (order @ [i]) \<and> pending' ! j = 0} = (?R - {i}) \<union> ?A" (is "?L = _")
  proof (rule set_eqI)
    fix j
    show "j \<in> ?L \<longleftrightarrow> j \<in> (?R - {i}) \<union> ?A"
    proof (cases "j \<in> set ?us")
      case True
      then have "j < ?n" "0 < pending ! j" using us len pos by auto
      moreover from this have "j \<notin> set order" "j \<noteq> i" using done0[of j] i(3) by auto
      moreover have "count_list ?us j \<le> pending ! j" using cnt[of j] \<open>j < ?n\<close> len by simp
      ultimately show ?thesis using True pd'[of j] by auto
    next
      case False
      then have "count_list ?us j = 0" by (simp add: count_list_0_iff)
      then show ?thesis using False pd'[of j] by auto
    qed
  qed
  have disj: "(?R - {i}) \<inter> ?A = {}"
  proof (rule ccontr)
    assume "(?R - {i}) \<inter> ?A \<noteq> {}"
    then obtain j where "pending ! j = 0" "j \<in> set ?us" by auto
    then show False using pos by force
  qed
  have "contents q' = mset_set (?R - {i}) + mset_set ?A"
    using c' c1' mset_set_set[of "filter (\<lambda>j. pending ! j = count_list ?us j) (remdups ?us)"] by simp
  also have "\<dots> = mset_set ((?R - {i}) \<union> ?A)"
    by (rule mset_set_Union[symmetric]) (use disj in auto)
  finally have con: "contents q' = mset_set {j. j < ?n \<and> j \<notin> set (order @ [i]) \<and> pending' ! j = 0}"
    unfolding eq .
  have preds: "p \<in> set order" if "(p, i) \<in> edge users" for p
  proof (rule ccontr)
    assume "p \<notin> set order"
    then have "0 < edges_into users ({..<?n} - set order) i"
      using that edges_into_0[of "{..<?n} - set order" users i] by (auto simp: edge_def)
    then show False using pd[OF i(1)] i(3) by simp
  qed
  have "\<And>j. j < ?n \<Longrightarrow> pending' ! j = edges_into users ({..<?n} - set (order @ [i])) j"
    using dec pd' by simp
  then show ?thesis
    using g' len' d i con topological_snoc[OF topo preds] by (auto simp: kahn_inv_def)
qed

lemma kahn_runs:
  assumes "kahn_inv users order pending q" and "\<forall>p < length users. set (users ! p) \<subseteq> {..<length users}"
    and "length users \<le> fuel + length order"
  shows "\<exists>final pending' q'. kahn push pop users fuel pending q order = Some final \<and>
           kahn_inv users final pending' q' \<and> contents q' = {#}"
  using assms(1,3)
proof (induction fuel arbitrary: order pending q)
  case 0
  have sub: "set order \<subseteq> {..<length users}" "distinct order" and g: "good q"
    using 0 by (auto simp: kahn_inv_def)
  have "set order = {..<length users}" using distinct_full[OF sub(2,1)] 0(2) by simp
  then have none: "{i. i < length users \<and> i \<notin> set order \<and> pending ! i = 0} = {}" by auto
  have "contents q = {#}" using 0(1) none by (simp only: kahn_inv_def mset_set.empty)
  then show ?case using 0(1) pop_None[OF g] by auto
next
  case (Suc fuel)
  have g: "good q" using Suc.prems(1) by (simp add: kahn_inv_def)
  show ?case
  proof (cases "pop q")
    case None
    then show ?thesis using Suc.prems(1) pop_None[OF g] by auto
  next
    case (Some iq)
    obtain i q1 where iq: "pop q = Some (i, q1)" using Some by (cases iq) simp
    obtain pending' q' where rel: "release push (users ! i) (pending, q1) = (pending', q')" by fastforce
    from kahn_inv_step[OF Suc.prems(1) assms(2) iq rel]
    have inv: "kahn_inv users (order @ [i]) pending' q'" by blast
    from Suc.IH[OF inv] Suc.prems(2) show ?thesis by (simp add: iq rel)
  qed
qed

lemma initial_inv:
  assumes "graph_ok users pending"
  shows "kahn_inv users [] pending (initial_ready push q0 pending)"
proof -
  let ?f = "\<lambda>q i. if pending ! i = 0 then push i q else q"
  have step: "good (foldl ?f q0 [0..<k]) \<and>
      contents (foldl ?f q0 [0..<k]) = mset_set {i. i < k \<and> pending ! i = 0}" for k
  proof (induction k)
    case 0
    then show ?case by (simp add: good_empty contents_empty)
  next
    case (Suc k)
    have "{i. i < Suc k \<and> pending ! i = 0} =
        (if pending ! k = 0 then insert k {i. i < k \<and> pending ! i = 0} else {i. i < k \<and> pending ! i = 0})"
      by (auto simp: less_Suc_eq)
    then show ?case using Suc good_push contents_push by simp
  qed
  show ?thesis
    using assms step[of "length pending"]
    by (simp add: kahn_inv_def graph_ok_def initial_ready_def topological_def)
qed

text \<open>An empty queue on an acyclic graph: every node was visited.\<close>

lemma kahn_inv_full:
  assumes inv: "kahn_inv users order pending q" and none: "contents q = {#}"
    and us: "\<forall>p < length users. set (users ! p) \<subseteq> {..<length users}" and ac: "acyclic (edge users)"
  shows "length order = length users"
proof (rule ccontr)
  let ?n = "length users"
  have d: "distinct order" "set order \<subseteq> {..<?n}"
    and pd: "\<And>i. i < ?n \<Longrightarrow> pending ! i = edges_into users ({..<?n} - set order) i"
    and c: "contents q = mset_set {i. i < ?n \<and> i \<notin> set order \<and> pending ! i = 0}"
    using inv by (auto simp: kahn_inv_def)
  assume "length order \<noteq> ?n"
  then have "set order \<noteq> {..<?n}" using distinct_card[OF d(1)] by (metis card_lessThan)
  then obtain j where j: "j \<in> {..<?n} - set order" using d(2) by blast
  have fin: "finite (edge users)" using finite_edge[OF us] .
  from finite_acyclic_wf[OF fin ac] j obtain m where m: "m \<in> {..<?n} - set order"
    and least: "\<And>p. (p, m) \<in> edge users \<Longrightarrow> p \<notin> {..<?n} - set order"
    by (metis wfE_min)
  have "edges_into users ({..<?n} - set order) m = 0"
    using least by (auto simp: edges_into_0 edge_def)
  then have "m \<in># contents q" using pd[of m] m c by simp
  then show False using none by simp
  qed

text \<open>
  What the loop delivers, whatever the container: it ends within as many iterations as there
  are nodes, no node twice, every node after all its producers; and it delivers all nodes exactly
  when the graph has no cycle.
\<close>

lemma kahn_order_correct:
  assumes ok: "graph_ok users pending"
  shows "\<exists>order. kahn_order push pop q0 users pending = Some order \<and> distinct order \<and>
           set order \<subseteq> {..<length users} \<and> topological users order \<and>
           (length order = length users \<longleftrightarrow> acyclic (edge users))"
proof -
  let ?n = "length users"
  have us: "\<forall>p < ?n. set (users ! p) \<subseteq> {..<?n}" and len: "length pending = ?n"
    using ok by (auto simp: graph_ok_def)
  from kahn_runs[OF initial_inv[OF ok] us, of "length pending"] len
  obtain order pending' q' where run: "kahn_order push pop q0 users pending = Some order"
    and inv: "kahn_inv users order pending' q'" and none: "contents q' = {#}"
    by (auto simp: kahn_order_def)
  have d: "distinct order" "set order \<subseteq> {..<?n}" and topo: "topological users order"
    using inv by (auto simp: kahn_inv_def)
  have "acyclic (edge users)" if full: "length order = ?n"
  proof -
    have "set order = {..<?n}" using distinct_full[OF d(1) d(2)] full by simp
    then show ?thesis using topological_acyclic[OF topo d(1) _ us] by blast
  qed
  moreover have "length order = ?n" if ac: "acyclic (edge users)"
    by (rule kahn_inv_full[OF inv none us ac])
  ultimately show ?thesis using run d topo by blast
qed

end

section \<open>The two containers meet the contract\<close>

interpretation pq: ready_queue pq_push list_pop "[]" mset sorted
proof
  show "list_pop q = None \<longleftrightarrow> mset q = {#}" for q by (cases q) auto
  show "sorted q' \<and> mset q = add_mset x (mset q')" if "sorted q" "list_pop q = Some (x, q')" for q x q'
    using that by (cases q) auto
qed (simp_all add: pq_push_def sorted_insort)

interpretation fifo: ready_queue fifo_push list_pop "[]" mset "\<lambda>_. True"
proof
  show "list_pop q = None \<longleftrightarrow> mset q = {#}" for q by (cases q) auto
  show "True \<and> mset q = add_mset x (mset q')" if "list_pop q = Some (x, q')" for q x q'
    using that by (cases q) auto
qed (simp_all add: fifo_push_def)

text \<open>
  A priority queue run on a graph whose edges all go up visits the nodes in index order.
\<close>

lemma pq_pop_least:
  assumes "pq.kahn_inv users [0..<k] pending q" and "k < length users"
    and up: "\<And>p i. (p, i) \<in> edge users \<Longrightarrow> p < i"
  shows "\<exists>q'. list_pop q = Some (k, q')"
proof -
  have s: "sorted q" and pd: "pending ! k = edges_into users ({..<length users} - set [0..<k]) k"
    and c: "mset q = mset_set {i. i < length users \<and> i \<notin> set [0..<k] \<and> pending ! i = 0}"
    using assms(1,2) by (simp_all add: pq.kahn_inv_def)
  have "\<forall>p \<in> {..<length users} - set [0..<k]. k \<notin> set (users ! p)"
    using up by (fastforce simp: edge_def)
  then have zero: "pending ! k = 0" using pd by (simp add: edges_into_0)
  have mem: "set q = {i. i < length users \<and> k \<le> i \<and> pending ! i = 0}"
    using arg_cong[OF c, of set_mset] by (auto simp: not_less)
  then have k: "k \<in> set q" using zero assms(2) by simp
  then obtain x q' where q: "q = x # q'" by (cases q) auto
  have "x \<in> set q" by (simp add: q)
  then have "k \<le> x" using mem by auto
  moreover have "x \<le> k" using k s by (auto simp: q)
  ultimately have "x = k" by simp
  then show ?thesis by (simp add: q)
qed

lemma pq_kahn_up:
  assumes "pq.kahn_inv users [0..<k] pending q" and "k \<le> length users" and "length users \<le> fuel + k"
    and us: "\<forall>p < length users. set (users ! p) \<subseteq> {..<length users}"
    and up: "\<And>p i. (p, i) \<in> edge users \<Longrightarrow> p < i"
  shows "kahn pq_push list_pop users fuel pending q [0..<k] = Some [0..<length users]"
  using assms(1,2,3)
proof (induction fuel arbitrary: k pending q)
  case 0
  then show ?case using pq.kahn_runs[OF 0(1) us, of 0] by (auto split: option.splits)
next
  case (Suc fuel)
  show ?case
  proof (cases "k = length users")
    case True
    have "mset q = mset_set {i. i < length users \<and> i \<notin> set [0..<k] \<and> pending ! i = 0}"
      using Suc.prems(1) by (simp add: pq.kahn_inv_def)
    also have "{i. i < length users \<and> i \<notin> set [0..<k] \<and> pending ! i = 0} = {}" using True by auto
    finally show ?thesis using True by simp
  next
    case False
    then have k: "k < length users" using Suc.prems(2) by simp
    from pq_pop_least[OF Suc.prems(1) k up] obtain q1 where pop: "list_pop q = Some (k, q1)" by blast
    obtain pending' q' where rel: "release pq_push (users ! k) (pending, q1) = (pending', q')" by fastforce
    from pq.kahn_inv_step[OF Suc.prems(1) us pop rel]
    have "pq.kahn_inv users [0..<Suc k] pending' q'" by simp
    from Suc.IH[OF this] Suc.prems k show ?thesis by (simp add: pop rel)
  qed
qed

lemma pq_order_up:
  assumes ok: "graph_ok users pending" and up: "\<And>p i. (p, i) \<in> edge users \<Longrightarrow> p < i"
  shows "kahn_order pq_push list_pop [] users pending = Some [0..<length users]"
  unfolding kahn_order_def
  using pq_kahn_up[of users 0 pending _ "length pending", OF _ _ _ _ up] pq.initial_inv[OF ok] ok
  by (auto simp: graph_ok_def)

end
