(* ===== verification/Memory_Plan.thy ===== *)
theory Memory_Plan
  imports Topo_Order "HOL-Library.AList" "HOL-Library.Product_Lexorder"
begin

text \<open>
  \<open>CompiledGraph::BuildMemoryPlan\<close> of \<open>src/core/execution_plan.cc\<close>: the lifetime of every
  storage group in node indices, the intervals of the groups that live in the arena, and the
  best-fit placement that lets groups with disjoint lifetimes share a slot.  The hash map of
  lifetimes is an association list; nothing depends on its order, because the intervals are
  sorted by a key that is unique.
\<close>

section \<open>Plans\<close>

record plan_value =
  v_name :: string
  v_group :: nat
  v_bytes :: nat
  v_offset :: nat
  v_seed :: bool

record plan_node =
  pn_name :: string
  pn_inputs :: "string list"
  pn_outputs :: "string list"

record Lifetime =
  l_bytes :: nat
  l_first :: nat
  l_last :: nat
  l_produced :: bool
  l_pinned :: bool
  l_used :: bool

record PlannedAllocation =
  a_group :: nat
  a_offset :: nat
  a_bytes :: nat
  a_first :: nat
  a_last :: nat

record MemoryPlan =
  arena_bytes :: nat
  unshared_bytes :: nat
  allocations :: "PlannedAllocation list"

record Slot =
  s_offset :: nat
  s_bytes :: nat
  s_last :: nat

type_synonym lifetimes = "(nat \<times> Lifetime) list"

definition BuildError :: "string \<Rightarrow> status" where
  "BuildError m = Error kBuildFailed m"

definition no_life :: Lifetime where
  "no_life = \<lparr>l_bytes = 0, l_first = 0, l_last = 0, l_produced = False, l_pinned = False, l_used = False\<rparr>"

definition life_of :: "lifetimes \<Rightarrow> nat \<Rightarrow> Lifetime" where
  "life_of lt g = (case map_of lt g of None \<Rightarrow> no_life | Some l \<Rightarrow> l)"

definition set_life :: "nat \<Rightarrow> Lifetime \<Rightarrow> lifetimes \<Rightarrow> lifetimes" where
  "set_life g l lt = AList.update g l lt"

definition value_named :: "plan_value list \<Rightarrow> string \<Rightarrow> plan_value option" where
  "value_named vs name = map_of (rev (map (\<lambda>v. (v_name v, v)) vs)) name"

section \<open>Lifetimes\<close>

definition note_value :: "plan_value \<Rightarrow> lifetimes \<Rightarrow> status + lifetimes" where
  "note_value v lt =
     (if v_offset v > SIZE_MAX - v_bytes v then Inl (BuildError ''storage range overflow'')
      else let life = life_of lt (v_group v)
           in Inr (set_life (v_group v)
                (life\<lparr>l_bytes := max (l_bytes life) (v_offset v + v_bytes v),
                      l_pinned := l_pinned life \<or> v_seed v\<rparr>) lt))"

definition note_output :: "plan_value list \<Rightarrow> nat \<Rightarrow> string \<Rightarrow> lifetimes \<Rightarrow> status + lifetimes" where
  "note_output vs i output lt =
     (case value_named vs output of
        None \<Rightarrow> Inl (BuildError (''missing output descriptor: '' @ output))
      | Some v \<Rightarrow>
          let life = life_of lt (v_group v)
          in Inr (set_life (v_group v)
               (life\<lparr>l_first := (if l_produced life then min (l_first life) i else i),
                     l_last := max (l_last life) i, l_produced := True, l_used := True\<rparr>) lt))"

definition note_input :: "plan_value list \<Rightarrow> nat \<Rightarrow> string \<Rightarrow> lifetimes \<Rightarrow> status + lifetimes" where
  "note_input vs i input lt =
     (if input = [] then Inr lt
      else case value_named vs input of
        None \<Rightarrow> Inl (BuildError (''missing input descriptor: '' @ input))
      | Some v \<Rightarrow>
          let life = life_of lt (v_group v)
          in Inr (set_life (v_group v) (life\<lparr>l_last := max (l_last life) i, l_used := True\<rparr>) lt))"

definition note_node :: "plan_value list \<Rightarrow> nat \<times> plan_node \<Rightarrow> lifetimes \<Rightarrow> status + lifetimes" where
  "note_node vs n lt =
     bindR (foldR (note_output vs (fst n)) (pn_outputs (snd n)) lt)
       (foldR (note_input vs (fst n)) (pn_inputs (snd n)))"

definition note_graph_output ::
  "plan_value list \<Rightarrow> nat \<Rightarrow> string \<Rightarrow> lifetimes \<Rightarrow> status + lifetimes" where
  "note_graph_output vs n name lt =
     (case value_named vs name of
        None \<Rightarrow> Inl (BuildError (''missing graph output: '' @ name))
      | Some v \<Rightarrow>
          Inr (set_life (v_group v) ((life_of lt (v_group v))\<lparr>l_last := n, l_used := True\<rparr>) lt))"

definition collect_lifetimes ::
  "plan_value list \<Rightarrow> plan_node list \<Rightarrow> string list \<Rightarrow> status + lifetimes" where
  "collect_lifetimes vs nodes outs =
     bindR (foldR note_value vs []) (\<lambda>lt1.
     bindR (foldR (note_node vs) (enumerate 0 nodes) lt1)
       (foldR (note_graph_output vs (length nodes)) outs))"

definition in_arena :: "Lifetime \<Rightarrow> bool" where
  "in_arena life \<longleftrightarrow> \<not> (\<not> l_used life \<or> l_pinned life \<or> \<not> l_produced life \<or> l_bytes life = 0)"

definition interval_of :: "nat \<Rightarrow> Lifetime \<Rightarrow> PlannedAllocation" where
  "interval_of g life =
     \<lparr>a_group = g, a_offset = 0, a_bytes = l_bytes life, a_first = l_first life, a_last = l_last life\<rparr>"

definition intervals :: "lifetimes \<Rightarrow> PlannedAllocation list" where
  "intervals lt =
     sort_key (\<lambda>a. (a_first a, a_group a))
       (map (\<lambda>e. interval_of (fst e) (snd e)) (filter (\<lambda>e. in_arena (snd e)) lt))"

section \<open>Placement\<close>

definition better_slot :: "Slot list \<Rightarrow> nat \<Rightarrow> nat \<Rightarrow> nat option \<Rightarrow> nat \<Rightarrow> nat option" where
  "better_slot slots first_node rounded best k =
     (if s_last (slots ! k) < first_node \<and> rounded \<le> s_bytes (slots ! k) \<and>
         (case best of None \<Rightarrow> True | Some b \<Rightarrow> s_bytes (slots ! k) < s_bytes (slots ! b))
      then Some k else best)"

definition best_slot :: "Slot list \<Rightarrow> nat \<Rightarrow> nat \<Rightarrow> nat option" where
  "best_slot slots first_node rounded =
     foldl (better_slot slots first_node rounded) None [0..<length slots]"

definition place_interval ::
  "PlannedAllocation \<Rightarrow> MemoryPlan \<times> Slot list \<Rightarrow> status + MemoryPlan \<times> Slot list" where
  "place_interval it st =
     (let (plan, slots) = st in
      if a_bytes it > SIZE_MAX - 63 then Inl (BuildError ''arena size overflow'')
      else
        (let rounded = (a_bytes it + 63) div 64 * 64;
             placed =
               (case best_slot slots (a_first it) rounded of
                  Some k \<Rightarrow>
                    Inr (it\<lparr>a_offset := s_offset (slots ! k)\<rparr>,
                         slots[k := (slots ! k)\<lparr>s_last := a_last it\<rparr>], arena_bytes plan)
                | None \<Rightarrow>
                    if arena_bytes plan > SIZE_MAX - rounded then Inl (BuildError ''arena size overflow'')
                    else Inr (it\<lparr>a_offset := arena_bytes plan\<rparr>,
                         slots @ [\<lparr>s_offset = arena_bytes plan, s_bytes = rounded, s_last = a_last it\<rparr>],
                         arena_bytes plan + rounded))
         in bindR placed (\<lambda>(it', slots', arena).
              if unshared_bytes plan > SIZE_MAX - rounded then Inl (BuildError ''arena size overflow'')
              else Inr (plan\<lparr>arena_bytes := arena, unshared_bytes := unshared_bytes plan + rounded,
                             allocations := allocations plan @ [it']\<rparr>, slots'))))"

definition empty_plan :: MemoryPlan where
  "empty_plan = \<lparr>arena_bytes = 0, unshared_bytes = 0, allocations = []\<rparr>"

definition BuildMemoryPlan ::
  "plan_value list \<Rightarrow> plan_node list \<Rightarrow> string list \<Rightarrow> status + MemoryPlan" where
  "BuildMemoryPlan vs nodes outs =
     bindR (collect_lifetimes vs nodes outs) (\<lambda>lt.
     bindR (foldR place_interval (intervals lt) (empty_plan, [])) (\<lambda>st. Inr (fst st)))"

section \<open>What placement guarantees\<close>

definition disjoint_ranges :: "nat \<Rightarrow> nat \<Rightarrow> nat \<Rightarrow> nat \<Rightarrow> bool" where
  "disjoint_ranges a m b n \<longleftrightarrow> a + m \<le> b \<or> b + n \<le> a"

definition lifetimes_meet :: "PlannedAllocation \<Rightarrow> PlannedAllocation \<Rightarrow> bool" where
  "lifetimes_meet a b \<longleftrightarrow> a_first a \<le> a_last b \<and> a_first b \<le> a_last a"

definition slots_ok :: "nat \<Rightarrow> Slot list \<Rightarrow> bool" where
  "slots_ok arena slots \<longleftrightarrow>
     (\<forall>k < length slots. s_offset (slots ! k) + s_bytes (slots ! k) \<le> arena \<and>
        64 dvd s_offset (slots ! k)) \<and>
     (\<forall>k < length slots. \<forall>l < length slots. k \<noteq> l \<longrightarrow>
        disjoint_ranges (s_offset (slots ! k)) (s_bytes (slots ! k)) (s_offset (slots ! l)) (s_bytes (slots ! l)))"

definition sits_in :: "Slot list \<Rightarrow> PlannedAllocation \<Rightarrow> nat \<Rightarrow> bool" where
  "sits_in slots a k \<longleftrightarrow> k < length slots \<and> a_offset a = s_offset (slots ! k) \<and>
     a_bytes a \<le> s_bytes (slots ! k) \<and> a_last a \<le> s_last (slots ! k)"

definition allocs_ok :: "PlannedAllocation list \<Rightarrow> Slot list \<Rightarrow> bool" where
  "allocs_ok as slots \<longleftrightarrow>
     (\<forall>a \<in> set as. \<exists>k. sits_in slots a k) \<and>
     (\<forall>i < length as. \<forall>j < length as. i \<noteq> j \<longrightarrow> lifetimes_meet (as ! i) (as ! j) \<longrightarrow>
        disjoint_ranges (a_offset (as ! i)) (a_bytes (as ! i)) (a_offset (as ! j)) (a_bytes (as ! j)))"

definition place_inv :: "MemoryPlan \<times> Slot list \<Rightarrow> bool" where
  "place_inv st \<longleftrightarrow> slots_ok (arena_bytes (fst st)) (snd st) \<and> 64 dvd arena_bytes (fst st) \<and>
     allocs_ok (allocations (fst st)) (snd st) \<and> arena_bytes (fst st) \<le> unshared_bytes (fst st) \<and>
     unshared_bytes (fst st) \<le> SIZE_MAX"

definition best_upto :: "Slot list \<Rightarrow> nat \<Rightarrow> nat \<Rightarrow> nat \<Rightarrow> nat option" where
  "best_upto slots first_node rounded n = foldl (better_slot slots first_node rounded) None [0..<n]"

lemma best_upto_simps [simp]:
  "best_upto slots first_node rounded 0 = None"
  "best_upto slots first_node rounded (Suc n) =
     better_slot slots first_node rounded (best_upto slots first_node rounded n) n"
  by (simp_all add: best_upto_def)

lemma best_slot_upto: "best_slot slots first_node rounded = best_upto slots first_node rounded (length slots)"
  by (simp add: best_slot_def best_upto_def)

lemma best_slot_SomeD:
  assumes "best_slot slots first_node rounded = Some k"
  shows "k < length slots \<and> s_last (slots ! k) < first_node \<and> rounded \<le> s_bytes (slots ! k)"
proof -
  have "best_upto slots first_node rounded n = Some k \<Longrightarrow>
      k < n \<and> s_last (slots ! k) < first_node \<and> rounded \<le> s_bytes (slots ! k)" for n
    by (induction n) (auto simp: better_slot_def split: if_splits)
  then show ?thesis using assms by (simp add: best_slot_upto)
qed

text \<open>Among the slots that fit, the one taken is a smallest; and one is taken if any fits.\<close>

lemma best_upto_least:
  assumes "l < n" and "s_last (slots ! l) < first_node" and "rounded \<le> s_bytes (slots ! l)"
  shows "\<exists>b. best_upto slots first_node rounded n = Some b \<and> s_bytes (slots ! b) \<le> s_bytes (slots ! l)"
  using assms(1)
proof (induction n)
  case 0
  then show ?case by simp
next
  case (Suc n)
  show ?case
  proof (cases "l = n")
    case True
    then show ?thesis using assms(2,3)
      by (cases "best_upto slots first_node rounded n") (auto simp: better_slot_def)
  next
    case False
    then obtain b where "best_upto slots first_node rounded n = Some b"
      "s_bytes (slots ! b) \<le> s_bytes (slots ! l)" using Suc by auto
    then show ?thesis by (auto simp: better_slot_def)
  qed
qed

lemma best_slot_least:
  assumes "l < length slots" and "s_last (slots ! l) < first_node" and "rounded \<le> s_bytes (slots ! l)"
  shows "\<exists>b. best_slot slots first_node rounded = Some b \<and> s_bytes (slots ! b) \<le> s_bytes (slots ! l)"
  using best_upto_least[OF assms] by (simp add: best_slot_upto)

text \<open>One placement keeps the invariant.\<close>

lemma rounded_bytes:
  fixes b :: nat
  shows "b \<le> (b + 63) div 64 * 64" and "64 dvd (b + 63) div 64 * 64"
  by (simp_all, arith?)

lemma disjoint_ranges_sym: "disjoint_ranges a m b n \<longleftrightarrow> disjoint_ranges b n a m"
  by (auto simp: disjoint_ranges_def)

lemma disjoint_ranges_mono:
  "disjoint_ranges a m b n \<Longrightarrow> m' \<le> m \<Longrightarrow> n' \<le> n \<Longrightarrow> disjoint_ranges a m' b n'"
  by (auto simp: disjoint_ranges_def)

lemma lifetimes_meet_sym: "lifetimes_meet a b \<longleftrightarrow> lifetimes_meet b a"
  by (auto simp: lifetimes_meet_def)

text \<open>
  Adding an allocation that sits in slot \<open>k\<close>, whose earlier tenants have all ended.
\<close>

lemma allocs_ok_snoc:
  assumes ok: "allocs_ok as slots" and slots: "slots_ok arena slots'"
    and grow: "\<And>a k. sits_in slots a k \<Longrightarrow> a_last a \<le> a_last it \<or> k \<noteq> k0 \<Longrightarrow> sits_in slots' a k"
    and fresh: "\<And>a. sits_in slots a k0 \<Longrightarrow> a_last a < a_first it \<and> a_last a \<le> a_last it"
    and sit: "sits_in slots' it k0"
  shows "allocs_ok (as @ [it]) slots'"
proof -
  have old: "sits_in slots' a k" if "sits_in slots a k" for a k
    using grow[OF that] fresh[of a] that by (cases "k = k0") auto
  have apart: "disjoint_ranges (a_offset a) (a_bytes a) (a_offset it) (a_bytes it)"
    if a: "a \<in> set as" and meet: "lifetimes_meet a it" for a
  proof -
    obtain k where k: "sits_in slots a k" using ok a by (auto simp: allocs_ok_def)
    have "k \<noteq> k0"
    proof
      assume "k = k0"
      then have "a_last a < a_first it" using fresh k by blast
      then show False using meet by (simp add: lifetimes_meet_def)
    qed
    then show ?thesis
      using old[OF k] sit slots unfolding slots_ok_def sits_in_def
      by (metis disjoint_ranges_mono)
  qed
  show ?thesis
    unfolding allocs_ok_def
  proof (intro conjI ballI allI impI)
    fix a assume "a \<in> set (as @ [it])"
    then have "(\<exists>k. sits_in slots a k) \<or> a = it" using ok by (auto simp: allocs_ok_def)
    then show "\<exists>k. sits_in slots' a k" using old sit by metis
  next
    fix i j
    assume ij: "i < length (as @ [it])" "j < length (as @ [it])" "i \<noteq> j"
      and meet: "lifetimes_meet ((as @ [it]) ! i) ((as @ [it]) ! j)"
    show "disjoint_ranges (a_offset ((as @ [it]) ! i)) (a_bytes ((as @ [it]) ! i))
        (a_offset ((as @ [it]) ! j)) (a_bytes ((as @ [it]) ! j))"
    proof (cases "i < length as"; cases "j < length as")
      assume "i < length as" "j < length as"
      then show ?thesis using ok meet ij(3) by (simp add: allocs_ok_def nth_append)
    next
      assume "i < length as" "\<not> j < length as"
      then show ?thesis using apart[of "as ! i"] meet ij by (simp add: nth_append less_Suc_eq)
    next
      assume "\<not> i < length as" "j < length as"
      then show ?thesis using apart[of "as ! j"] meet ij
        by (simp add: nth_append less_Suc_eq disjoint_ranges_sym lifetimes_meet_sym)
    next
      assume "\<not> i < length as" "\<not> j < length as"
      then show ?thesis using ij by (simp add: less_Suc_eq)
    qed
  qed
qed

lemma place_interval_cases:
  assumes "place_interval it (plan, slots) = Inr (plan', slots')"
  obtains rounded where "rounded = (a_bytes it + 63) div 64 * 64"
    and "unshared_bytes plan + rounded \<le> SIZE_MAX"
    and "(\<exists>k. best_slot slots (a_first it) rounded = Some k \<and>
            slots' = slots[k := (slots ! k)\<lparr>s_last := a_last it\<rparr>] \<and>
            plan' = plan\<lparr>unshared_bytes := unshared_bytes plan + rounded,
                         allocations := allocations plan @ [it\<lparr>a_offset := s_offset (slots ! k)\<rparr>]\<rparr>) \<or>
         (best_slot slots (a_first it) rounded = None \<and>
            slots' = slots @ [\<lparr>s_offset = arena_bytes plan, s_bytes = rounded, s_last = a_last it\<rparr>] \<and>
            plan' = plan\<lparr>arena_bytes := arena_bytes plan + rounded,
                         unshared_bytes := unshared_bytes plan + rounded,
                         allocations := allocations plan @ [it\<lparr>a_offset := arena_bytes plan\<rparr>]\<rparr>)"
proof (rule that[OF refl])
  let ?r = "(a_bytes it + 63) div 64 * 64"
  have le: "?r \<le> SIZE_MAX" if "a_bytes it \<le> SIZE_MAX - 63"
    using that div_times_less_eq_dividend[of "a_bytes it + 63" 64] by (simp add: SIZE_MAX_def)
  show "unshared_bytes plan + ?r \<le> SIZE_MAX"
    using assms le
    by (auto simp: place_interval_def Let_def bindR_eq_Inr split: option.splits if_splits)
  show "(\<exists>k. best_slot slots (a_first it) ?r = Some k \<and>
            slots' = slots[k := (slots ! k)\<lparr>s_last := a_last it\<rparr>] \<and>
            plan' = plan\<lparr>unshared_bytes := unshared_bytes plan + ?r,
                         allocations := allocations plan @ [it\<lparr>a_offset := s_offset (slots ! k)\<rparr>]\<rparr>) \<or>
         (best_slot slots (a_first it) ?r = None \<and>
            slots' = slots @ [\<lparr>s_offset = arena_bytes plan, s_bytes = ?r, s_last = a_last it\<rparr>] \<and>
            plan' = plan\<lparr>arena_bytes := arena_bytes plan + ?r,
                         unshared_bytes := unshared_bytes plan + ?r,
                         allocations := allocations plan @ [it\<lparr>a_offset := arena_bytes plan\<rparr>]\<rparr>)"
    using assms
    by (cases plan; cases "best_slot slots (a_first it) ?r")
      (auto simp: place_interval_def Let_def split: if_splits)
qed

lemma place_interval_keeps:
  assumes inv: "place_inv st" and fl: "a_first it \<le> a_last it"
    and run: "place_interval it st = Inr st'"
  shows "place_inv st'"
proof -
  obtain plan slots plan' slots' where st: "st = (plan, slots)" "st' = (plan', slots')"
    by (cases st; cases st')
  from run[unfolded st] obtain r where r: "r = (a_bytes it + 63) div 64 * 64"
    and bound: "unshared_bytes plan + r \<le> SIZE_MAX"
    and cases: "(\<exists>k. best_slot slots (a_first it) r = Some k \<and>
            slots' = slots[k := (slots ! k)\<lparr>s_last := a_last it\<rparr>] \<and>
            plan' = plan\<lparr>unshared_bytes := unshared_bytes plan + r,
                         allocations := allocations plan @ [it\<lparr>a_offset := s_offset (slots ! k)\<rparr>]\<rparr>) \<or>
         (best_slot slots (a_first it) r = None \<and>
            slots' = slots @ [\<lparr>s_offset = arena_bytes plan, s_bytes = r, s_last = a_last it\<rparr>] \<and>
            plan' = plan\<lparr>arena_bytes := arena_bytes plan + r,
                         unshared_bytes := unshared_bytes plan + r,
                         allocations := allocations plan @ [it\<lparr>a_offset := arena_bytes plan\<rparr>]\<rparr>)"
    by (rule place_interval_cases) blast
  have so: "slots_ok (arena_bytes plan) slots" and al: "64 dvd arena_bytes plan"
    and ao: "allocs_ok (allocations plan) slots" and le: "arena_bytes plan \<le> unshared_bytes plan"
    using inv by (auto simp: place_inv_def st)
  have rb: "a_bytes it \<le> r" "64 dvd r" using rounded_bytes[of "a_bytes it"] r by auto
  from cases show ?thesis
  proof (elim disjE exE conjE)
    fix k
    assume b: "best_slot slots (a_first it) r = Some k"
      and s': "slots' = slots[k := (slots ! k)\<lparr>s_last := a_last it\<rparr>]"
      and p': "plan' = plan\<lparr>unshared_bytes := unshared_bytes plan + r,
                 allocations := allocations plan @ [it\<lparr>a_offset := s_offset (slots ! k)\<rparr>]\<rparr>"
    from best_slot_SomeD[OF b] have k: "k < length slots" "s_last (slots ! k) < a_first it"
      "r \<le> s_bytes (slots ! k)" by auto
    have same: "s_offset (slots' ! l) = s_offset (slots ! l)" "s_bytes (slots' ! l) = s_bytes (slots ! l)"
      "length slots' = length slots" for l
      using k(1) by (simp_all add: s' nth_list_update)
    have so': "slots_ok (arena_bytes plan) slots'" using so by (simp add: slots_ok_def same)
    have "allocs_ok (allocations plan @ [it\<lparr>a_offset := s_offset (slots ! k)\<rparr>]) slots'"
    proof (rule allocs_ok_snoc[OF ao so', where ?k0.0 = k])
      fix a l
      assume "sits_in slots a l"
        and "a_last a \<le> a_last (it\<lparr>a_offset := s_offset (slots ! k)\<rparr>) \<or> l \<noteq> k"
      then show "sits_in slots' a l" using k(1) by (auto simp: sits_in_def same s' nth_list_update)
    next
      fix a
      assume "sits_in slots a k"
      then show "a_last a < a_first (it\<lparr>a_offset := s_offset (slots ! k)\<rparr>) \<and>
          a_last a \<le> a_last (it\<lparr>a_offset := s_offset (slots ! k)\<rparr>)"
        using k(2) fl by (auto simp: sits_in_def)
    next
      show "sits_in slots' (it\<lparr>a_offset := s_offset (slots ! k)\<rparr>) k"
        using k rb by (simp add: sits_in_def s')
    qed
    then show ?thesis using so' al le bound by (simp add: place_inv_def st p')
  next
    assume s': "slots' = slots @ [\<lparr>s_offset = arena_bytes plan, s_bytes = r, s_last = a_last it\<rparr>]"
      and p': "plan' = plan\<lparr>arena_bytes := arena_bytes plan + r,
                 unshared_bytes := unshared_bytes plan + r,
                 allocations := allocations plan @ [it\<lparr>a_offset := arena_bytes plan\<rparr>]\<rparr>"
    have so': "slots_ok (arena_bytes plan + r) slots'"
      unfolding slots_ok_def s'
    proof (intro conjI allI impI)
      fix k assume "k < length (slots @ [\<lparr>s_offset = arena_bytes plan, s_bytes = r, s_last = a_last it\<rparr>])"
      then show "s_offset ((slots @ [\<lparr>s_offset = arena_bytes plan, s_bytes = r, s_last = a_last it\<rparr>]) ! k) +
          s_bytes ((slots @ [\<lparr>s_offset = arena_bytes plan, s_bytes = r, s_last = a_last it\<rparr>]) ! k)
          \<le> arena_bytes plan + r"
        and "64 dvd s_offset ((slots @ [\<lparr>s_offset = arena_bytes plan, s_bytes = r, s_last = a_last it\<rparr>]) ! k)"
        using so al by (auto simp: slots_ok_def nth_append less_Suc_eq intro: trans_le_add1)
    next
      fix k l
      assume "k < length (slots @ [\<lparr>s_offset = arena_bytes plan, s_bytes = r, s_last = a_last it\<rparr>])"
        "l < length (slots @ [\<lparr>s_offset = arena_bytes plan, s_bytes = r, s_last = a_last it\<rparr>])" "k \<noteq> l"
      then show "disjoint_ranges
          (s_offset ((slots @ [\<lparr>s_offset = arena_bytes plan, s_bytes = r, s_last = a_last it\<rparr>]) ! k))
          (s_bytes ((slots @ [\<lparr>s_offset = arena_bytes plan, s_bytes = r, s_last = a_last it\<rparr>]) ! k))
          (s_offset ((slots @ [\<lparr>s_offset = arena_bytes plan, s_bytes = r, s_last = a_last it\<rparr>]) ! l))
          (s_bytes ((slots @ [\<lparr>s_offset = arena_bytes plan, s_bytes = r, s_last = a_last it\<rparr>]) ! l))"
        using so by (auto simp: slots_ok_def nth_append less_Suc_eq disjoint_ranges_def)
    qed
    have "allocs_ok (allocations plan @ [it\<lparr>a_offset := arena_bytes plan\<rparr>]) slots'"
      by (rule allocs_ok_snoc[OF ao so', where ?k0.0 = "length slots"])
        (use rb in \<open>auto simp: sits_in_def s' nth_append\<close>)
    then show ?thesis using so' al rb le bound by (simp add: place_inv_def st p')
  qed
qed

section \<open>What the lifetimes record\<close>

lemma life_of_set [simp]: "life_of (set_life g l lt) h = (if h = g then l else life_of lt h)"
  by (simp add: life_of_def set_life_def update_conv')

lemma distinct_set_life [simp]: "distinct (map fst lt) \<Longrightarrow> distinct (map fst (set_life g l lt))"
  by (simp add: set_life_def distinct_update)

lemma life_of_mem:
  "distinct (map fst lt) \<Longrightarrow> (g, l) \<in> set lt \<Longrightarrow> life_of lt g = l"
  by (simp add: life_of_def)

lemma life_of_used_mem: "l_used (life_of lt g) \<Longrightarrow> (g, life_of lt g) \<in> set lt"
  by (auto simp: life_of_def no_life_def dest: map_of_SomeD split: option.splits)

definition lives_ok :: "nat \<Rightarrow> lifetimes \<Rightarrow> bool" where
  "lives_ok n lt \<longleftrightarrow> distinct (map fst lt) \<and>
     (\<forall>g. l_last (life_of lt g) \<le> n \<and> (l_produced (life_of lt g) \<longrightarrow> l_first (life_of lt g) \<le> l_last (life_of lt g)))"

definition life_le :: "Lifetime \<Rightarrow> Lifetime \<Rightarrow> bool" where
  "life_le a b \<longleftrightarrow> l_bytes a \<le> l_bytes b \<and> (l_pinned a \<longrightarrow> l_pinned b) \<and> (l_used a \<longrightarrow> l_used b) \<and>
     (l_produced a \<longrightarrow> l_produced b \<and> l_first b \<le> l_first a) \<and> l_last a \<le> l_last b"

definition grows :: "lifetimes \<Rightarrow> lifetimes \<Rightarrow> bool" where
  "grows a b \<longleftrightarrow> (\<forall>g. life_le (life_of a g) (life_of b g))"

lemma grows_refl: "grows a a"
  by (simp add: grows_def life_le_def)

lemma grows_trans: "grows a b \<Longrightarrow> grows b c \<Longrightarrow> grows a c"
  unfolding grows_def life_le_def by (meson order_trans)

definition covers :: "plan_value \<Rightarrow> lifetimes \<Rightarrow> bool" where
  "covers v lt \<longleftrightarrow> v_offset v + v_bytes v \<le> l_bytes (life_of lt (v_group v)) \<and>
     (v_seed v \<longrightarrow> l_pinned (life_of lt (v_group v)))"

definition produced_at :: "plan_value list \<Rightarrow> nat \<Rightarrow> string \<Rightarrow> lifetimes \<Rightarrow> bool" where
  "produced_at vs i out lt \<longleftrightarrow> (\<exists>v. value_named vs out = Some v \<and>
     l_produced (life_of lt (v_group v)) \<and> l_used (life_of lt (v_group v)) \<and>
     l_first (life_of lt (v_group v)) \<le> i \<and> i \<le> l_last (life_of lt (v_group v)))"

definition used_at :: "plan_value list \<Rightarrow> nat \<Rightarrow> string \<Rightarrow> lifetimes \<Rightarrow> bool" where
  "used_at vs i inp lt \<longleftrightarrow> inp = [] \<or> (\<exists>v. value_named vs inp = Some v \<and>
     l_used (life_of lt (v_group v)) \<and> i \<le> l_last (life_of lt (v_group v)))"

lemma covers_grows: "covers v a \<Longrightarrow> grows a b \<Longrightarrow> covers v b"
  unfolding covers_def grows_def life_le_def by (meson order_trans)

lemma produced_at_grows: "produced_at vs i out a \<Longrightarrow> grows a b \<Longrightarrow> produced_at vs i out b"
  unfolding produced_at_def grows_def life_le_def by (meson order_trans)

lemma used_at_grows: "used_at vs i inp a \<Longrightarrow> grows a b \<Longrightarrow> used_at vs i inp b"
  unfolding used_at_def grows_def life_le_def by (meson order_trans)

lemma note_value_step:
  assumes "lives_ok n lt" and "note_value v lt = Inr lt'" and "v_bytes v \<le> SIZE_MAX"
  shows "lives_ok n lt' \<and> grows lt lt' \<and> covers v lt'"
  using assms by (auto simp: note_value_def lives_ok_def grows_def life_le_def covers_def Let_def
      split: if_splits)

lemma note_output_step:
  assumes "lives_ok n lt" and "note_output vs i out lt = Inr lt'" and "i < n"
  shows "lives_ok n lt' \<and> grows lt lt' \<and> produced_at vs i out lt'"
  using assms by (auto simp: note_output_def lives_ok_def grows_def life_le_def produced_at_def Let_def
      min_def split: option.splits)

lemma note_input_step:
  assumes "lives_ok n lt" and "note_input vs i inp lt = Inr lt'" and "i < n"
  shows "lives_ok n lt' \<and> grows lt lt' \<and> used_at vs i inp lt'"
  using assms by (auto simp: note_input_def lives_ok_def grows_def life_le_def used_at_def Let_def
      split: option.splits if_splits)

lemma note_graph_output_step:
  assumes "lives_ok n lt" and "note_graph_output vs n name lt = Inr lt'"
  shows "lives_ok n lt' \<and> grows lt lt' \<and> (name = [] \<or> used_at vs n name lt')"
proof -
  have "l_produced (life_of lt g) \<Longrightarrow> l_first (life_of lt g) \<le> n" for g
    using assms(1) by (meson lives_ok_def order_trans)
  then show ?thesis
    using assms by (auto simp: note_graph_output_def lives_ok_def grows_def life_le_def used_at_def
        split: option.splits)
qed

definition node_noted :: "plan_value list \<Rightarrow> nat \<times> plan_node \<Rightarrow> lifetimes \<Rightarrow> bool" where
  "node_noted vs x lt \<longleftrightarrow> (\<forall>out \<in> set (pn_outputs (snd x)). produced_at vs (fst x) out lt) \<and>
     (\<forall>inp \<in> set (pn_inputs (snd x)). used_at vs (fst x) inp lt)"

lemma note_node_step:
  assumes ok: "lives_ok n lt" and run: "note_node vs x lt = Inr lt'" and i: "fst x < n"
  shows "lives_ok n lt' \<and> grows lt lt' \<and> node_noted vs x lt'"
proof -
  from run obtain lt1 where outs: "foldR (note_output vs (fst x)) (pn_outputs (snd x)) lt = Inr lt1"
    and ins: "foldR (note_input vs (fst x)) (pn_inputs (snd x)) lt1 = Inr lt'"
    by (auto simp: note_node_def)
  have 1: "lives_ok n lt1 \<and> grows lt lt1 \<and> (\<forall>out \<in> set (pn_outputs (snd x)). produced_at vs (fst x) out lt1)"
    by (rule foldR_establish[where I = "lives_ok n" and R = grows and Q = "produced_at vs (fst x)", OF outs ok])
      (use note_output_step i grows_refl grows_trans produced_at_grows in blast)+
  have 2: "lives_ok n lt' \<and> grows lt1 lt' \<and> (\<forall>inp \<in> set (pn_inputs (snd x)). used_at vs (fst x) inp lt')"
    by (rule foldR_establish[where I = "lives_ok n" and R = grows and Q = "used_at vs (fst x)", OF ins])
      (use 1 note_input_step i grows_refl grows_trans used_at_grows in blast)+
  show ?thesis using 1 2 grows_trans produced_at_grows unfolding node_noted_def by blast
qed

lemma collect_lifetimes_facts:
  assumes run: "collect_lifetimes vs nodes outs = Inr lt" and small: "\<forall>v \<in> set vs. v_bytes v \<le> SIZE_MAX"
  shows "lives_ok (length nodes) lt \<and> (\<forall>v \<in> set vs. covers v lt) \<and>
     (\<forall>i < length nodes. node_noted vs (i, nodes ! i) lt) \<and>
     (\<forall>name \<in> set outs. name = [] \<or> used_at vs (length nodes) name lt)"
proof -
  let ?n = "length nodes"
  from run obtain lt1 lt2 where v: "foldR note_value vs [] = Inr lt1"
    and nn: "foldR (note_node vs) (enumerate 0 nodes) lt1 = Inr lt2"
    and go: "foldR (note_graph_output vs ?n) outs lt2 = Inr lt"
    by (auto simp: collect_lifetimes_def)
  have "lives_ok ?n []" by (simp add: lives_ok_def life_of_def no_life_def)
  have 1: "lives_ok ?n lt1 \<and> grows [] lt1 \<and> (\<forall>v \<in> set vs. covers v lt1)"
    by (rule foldR_establish[where I = "lives_ok ?n" and R = grows and Q = covers, OF v \<open>lives_ok ?n []\<close>])
      (use small note_value_step grows_refl grows_trans covers_grows in blast)+
  have lt: "fst x < ?n" if "x \<in> set (enumerate 0 nodes)" for x
    using that by (auto simp: in_set_enumerate_eq)
  have stable: "node_noted vs x b" if "node_noted vs x a" "grows a b" for x a b
    using that produced_at_grows used_at_grows unfolding node_noted_def by blast
  have 2: "lives_ok ?n lt2 \<and> grows lt1 lt2 \<and> (\<forall>x \<in> set (enumerate 0 nodes). node_noted vs x lt2)"
    by (rule foldR_establish[where I = "lives_ok ?n" and R = grows and Q = "node_noted vs", OF nn])
      (use 1 lt note_node_step grows_refl grows_trans stable in blast)+
  have 3: "lives_ok ?n lt \<and> grows lt2 lt \<and> (\<forall>name \<in> set outs. name = [] \<or> used_at vs ?n name lt)"
    by (rule foldR_establish[where I = "lives_ok ?n" and R = grows
          and Q = "\<lambda>name lt. name = [] \<or> used_at vs ?n name lt", OF go])
      (use 2 note_graph_output_step grows_refl grows_trans used_at_grows in blast)+
  have "(i, nodes ! i) \<in> set (enumerate 0 nodes)" if "i < ?n" for i
    using that by (simp add: in_set_enumerate_eq)
  then have "\<forall>i < ?n. node_noted vs (i, nodes ! i) lt" using 2 3 stable by blast
  moreover have "grows lt1 lt" using 2 3 grows_trans by blast
  then have "\<forall>v \<in> set vs. covers v lt" using 1 covers_grows by blast
  ultimately show ?thesis using 3 by blast
qed

text \<open>Conversely, nothing is recorded without a reason.\<close>

definition reasons :: "plan_value list \<Rightarrow> plan_node list \<Rightarrow> lifetimes \<Rightarrow> bool" where
  "reasons vs nodes lt \<longleftrightarrow> (\<forall>g.
     (l_pinned (life_of lt g) \<longrightarrow> (\<exists>v \<in> set vs. v_group v = g \<and> v_seed v)) \<and>
     (0 < l_bytes (life_of lt g) \<longrightarrow> (\<exists>v \<in> set vs. v_group v = g \<and> 0 < v_offset v + v_bytes v)) \<and>
     (l_produced (life_of lt g) \<longrightarrow>
        (\<exists>node \<in> set nodes. \<exists>x \<in> set (pn_outputs node). \<exists>v. value_named vs x = Some v \<and> v_group v = g)))"

lemma reasons_value:
  "reasons vs nodes lt \<Longrightarrow> v \<in> set vs \<Longrightarrow> note_value v lt = Inr lt' \<Longrightarrow> reasons vs nodes lt'"
  by (auto simp: note_value_def reasons_def Let_def less_max_iff_disj split: if_splits)

lemma reasons_output:
  "reasons vs nodes lt \<Longrightarrow> node \<in> set nodes \<Longrightarrow> x \<in> set (pn_outputs node) \<Longrightarrow>
     note_output vs i x lt = Inr lt' \<Longrightarrow> reasons vs nodes lt'"
  by (auto simp: note_output_def reasons_def Let_def split: option.splits if_splits) blast+

lemma reasons_input: "reasons vs nodes lt \<Longrightarrow> note_input vs i x lt = Inr lt' \<Longrightarrow> reasons vs nodes lt'"
  by (auto simp: note_input_def reasons_def Let_def split: option.splits if_splits)

lemma reasons_graph_output:
  "reasons vs nodes lt \<Longrightarrow> note_graph_output vs n x lt = Inr lt' \<Longrightarrow> reasons vs nodes lt'"
  by (auto simp: note_graph_output_def reasons_def split: option.splits if_splits)

lemma reasons_node:
  assumes "reasons vs nodes lt" and "x \<in> set (enumerate 0 nodes)" and "note_node vs x lt = Inr lt'"
  shows "reasons vs nodes lt'"
proof -
  from assms(3) obtain lt1 where outs: "foldR (note_output vs (fst x)) (pn_outputs (snd x)) lt = Inr lt1"
    and ins: "foldR (note_input vs (fst x)) (pn_inputs (snd x)) lt1 = Inr lt'"
    by (auto simp: note_node_def)
  have "fst x < length nodes" "snd x = nodes ! fst x" using assms(2) by (simp_all add: in_set_enumerate_eq)
  then have node: "snd x \<in> set nodes" by simp
  have "reasons vs nodes lt1"
    by (rule foldR_invariant[where P = "reasons vs nodes", OF outs assms(1)])
      (rule reasons_output[OF _ node])
  then show ?thesis
    by (rule foldR_invariant[where P = "reasons vs nodes", OF ins]) (rule reasons_input)
qed

lemma collect_lifetimes_reasons:
  assumes "collect_lifetimes vs nodes outs = Inr lt"
  shows "reasons vs nodes lt"
proof -
  from assms obtain lt1 lt2 where v: "foldR note_value vs [] = Inr lt1"
    and nn: "foldR (note_node vs) (enumerate 0 nodes) lt1 = Inr lt2"
    and go: "foldR (note_graph_output vs (length nodes)) outs lt2 = Inr lt"
    by (auto simp: collect_lifetimes_def)
  have "reasons vs nodes []" by (simp add: reasons_def life_of_def no_life_def)
  then have "reasons vs nodes lt1"
    by (rule foldR_invariant[where P = "reasons vs nodes", OF v]) (rule reasons_value)
  then have "reasons vs nodes lt2"
    by (rule foldR_invariant[where P = "reasons vs nodes", OF nn]) (rule reasons_node)
  then show ?thesis
    by (rule foldR_invariant[where P = "reasons vs nodes", OF go]) (rule reasons_graph_output)
qed

section \<open>The plan\<close>

definition unplaced :: "PlannedAllocation \<Rightarrow> PlannedAllocation" where
  "unplaced a = a\<lparr>a_offset := 0\<rparr>"

lemma place_all_unplaced:
  "foldR place_interval its (plan, slots) = Inr (plan', slots') \<Longrightarrow>
     map unplaced (allocations plan') = map unplaced (allocations plan) @ map unplaced its"
proof (induction its arbitrary: plan slots)
  case Nil
  then show ?case by simp
next
  case (Cons it its)
  from Cons.prems obtain st where step: "place_interval it (plan, slots) = Inr st"
    and rest: "foldR place_interval its st = Inr (plan', slots')" by (auto split: sum.splits)
  obtain p1 s1 where st: "st = (p1, s1)" by (cases st)
  from step[unfolded st] have "map unplaced (allocations p1) = map unplaced (allocations plan) @ [unplaced it]"
    by (rule place_interval_cases) (auto simp: unplaced_def)
  then show ?case using Cons.IH[OF rest[unfolded st]] by simp
qed

lemma BuildMemoryPlanE:
  assumes "BuildMemoryPlan vs nodes outs = Inr plan" and "\<forall>v \<in> set vs. v_bytes v \<le> SIZE_MAX"
  obtains lt slots where "collect_lifetimes vs nodes outs = Inr lt" and "place_inv (plan, slots)"
    and "map unplaced (allocations plan) = intervals lt"
proof -
  from assms(1) obtain lt slots where lt: "collect_lifetimes vs nodes outs = Inr lt"
    and run: "foldR place_interval (intervals lt) (empty_plan, []) = Inr (plan, slots)"
    by (auto simp: BuildMemoryPlan_def)
  have ok: "lives_ok (length nodes) lt" using collect_lifetimes_facts[OF lt assms(2)] by blast
  have "place_inv (empty_plan, [])"
    by (simp add: place_inv_def empty_plan_def slots_ok_def allocs_ok_def)
  moreover have "a_first it \<le> a_last it" if "it \<in> set (intervals lt)" for it
    using that ok life_of_mem[of lt]
    by (fastforce simp: intervals_def interval_of_def in_arena_def lives_ok_def)
  ultimately have inv: "place_inv (plan, slots)"
    by (intro foldR_invariant[where P = place_inv, OF run]) (auto intro: place_interval_keeps)
  have "map unplaced (intervals lt) = intervals lt"
    by (rule map_idI) (auto simp: intervals_def interval_of_def unplaced_def)
  then have "map unplaced (allocations plan) = intervals lt"
    using place_all_unplaced[OF run] by (simp add: empty_plan_def)
  with lt inv show thesis by (rule that)
qed

text \<open>The allocation of a group is the lifetime that was recorded for it.\<close>

lemma allocation_life:
  assumes "map unplaced (allocations plan) = intervals lt" and "distinct (map fst lt)"
    and "a \<in> set (allocations plan)"
  shows "in_arena (life_of lt (a_group a)) \<and> a_bytes a = l_bytes (life_of lt (a_group a)) \<and>
         a_first a = l_first (life_of lt (a_group a)) \<and> a_last a = l_last (life_of lt (a_group a))"
proof -
  have "unplaced a \<in> set (intervals lt)" using assms(1,3) by (metis imageI list.set_map)
  then obtain g l where "(g, l) \<in> set lt" "in_arena l" "unplaced a = interval_of g l"
    by (auto simp: intervals_def)
  then show ?thesis
    using life_of_mem[OF assms(2)]
    by (cases a) (auto simp: unplaced_def interval_of_def)
qed

lemma interval_groups:
  assumes "map unplaced (allocations plan) = intervals lt" and "distinct (map fst lt)"
  shows "distinct (map a_group (allocations plan))"
    and "set (map a_group (allocations plan)) = {g. in_arena (life_of lt g)}"
proof -
  have g: "map a_group (allocations plan) = map a_group (intervals lt)"
    unfolding assms(1)[symmetric] by (simp add: unplaced_def comp_def)
  have ms: "mset (map a_group (intervals lt)) = mset (map fst (filter (\<lambda>e. in_arena (snd e)) lt))"
    by (simp add: intervals_def interval_of_def multiset.map_comp comp_def)
  have "distinct (map fst (filter (\<lambda>e. in_arena (snd e)) lt))"
    using assms(2) by (simp add: distinct_map inj_on_def)
  then show "distinct (map a_group (allocations plan))" using g ms mset_eq_imp_distinct_iff by metis
  have "set (map a_group (intervals lt)) = set (map fst (filter (\<lambda>e. in_arena (snd e)) lt))"
    using ms mset_eq_setD by blast
  also have "\<dots> = {g. in_arena (life_of lt g)}"
  proof (intro set_eqI iffI)
    fix g assume "g \<in> set (map fst (filter (\<lambda>e. in_arena (snd e)) lt))"
    then obtain l where "(g, l) \<in> set lt" "in_arena l" by auto
    then show "g \<in> {g. in_arena (life_of lt g)}" using life_of_mem[OF assms(2)] by simp
  next
    fix g assume "g \<in> {g. in_arena (life_of lt g)}"
    then have "in_arena (life_of lt g)" "(g, life_of lt g) \<in> set lt"
      using life_of_used_mem by (auto simp: in_arena_def)
    then show "g \<in> set (map fst (filter (\<lambda>e. in_arena (snd e)) lt))" by (force simp: image_iff)
  qed
  finally show "set (map a_group (allocations plan)) = {g. in_arena (life_of lt g)}" using g by simp
qed

text \<open>A chain of three nodes, for the witnesses: the third value moves into the slot of the first.\<close>

definition demo_values :: "plan_value list" where
  "demo_values =
     [\<lparr>v_name = ''a'', v_group = 0, v_bytes = 100, v_offset = 0, v_seed = False\<rparr>,
      \<lparr>v_name = ''b'', v_group = 1, v_bytes = 64, v_offset = 0, v_seed = False\<rparr>,
      \<lparr>v_name = ''c'', v_group = 2, v_bytes = 70, v_offset = 8, v_seed = False\<rparr>,
      \<lparr>v_name = ''x'', v_group = 3, v_bytes = 16, v_offset = 0, v_seed = True\<rparr>]"

definition demo_nodes :: "plan_node list" where
  "demo_nodes =
     [\<lparr>pn_name = ''n0'', pn_inputs = [''x''], pn_outputs = [''a'']\<rparr>,
      \<lparr>pn_name = ''n1'', pn_inputs = [''a''], pn_outputs = [''b'']\<rparr>,
      \<lparr>pn_name = ''n2'', pn_inputs = [''b''], pn_outputs = [''c'']\<rparr>]"

lemma demo_named:
  "value_named demo_values ''a'' = Some \<lparr>v_name = ''a'', v_group = 0, v_bytes = 100, v_offset = 0, v_seed = False\<rparr>"
  "value_named demo_values ''b'' = Some \<lparr>v_name = ''b'', v_group = 1, v_bytes = 64, v_offset = 0, v_seed = False\<rparr>"
  "value_named demo_values ''c'' = Some \<lparr>v_name = ''c'', v_group = 2, v_bytes = 70, v_offset = 8, v_seed = False\<rparr>"
  "value_named demo_values ''x'' = Some \<lparr>v_name = ''x'', v_group = 3, v_bytes = 16, v_offset = 0, v_seed = True\<rparr>"
  by (simp_all add: value_named_def demo_values_def)

lemma demo_noted: "foldR note_value demo_values [] = Inr
  [(0, \<lparr>l_bytes = 100, l_first = 0, l_last = 0, l_produced = False, l_pinned = False, l_used = False\<rparr>),
   (1, \<lparr>l_bytes = 64, l_first = 0, l_last = 0, l_produced = False, l_pinned = False, l_used = False\<rparr>),
   (2, \<lparr>l_bytes = 78, l_first = 0, l_last = 0, l_produced = False, l_pinned = False, l_used = False\<rparr>),
   (3, \<lparr>l_bytes = 16, l_first = 0, l_last = 0, l_produced = False, l_pinned = True, l_used = False\<rparr>)]"
  by (simp add: demo_values_def note_value_def Let_def life_of_def no_life_def set_life_def SIZE_MAX_def)

lemma demo_lt: "collect_lifetimes demo_values demo_nodes [''c''] = Inr
  [(0, \<lparr>l_bytes = 100, l_first = 0, l_last = 1, l_produced = True, l_pinned = False, l_used = True\<rparr>),
   (1, \<lparr>l_bytes = 64, l_first = 1, l_last = 2, l_produced = True, l_pinned = False, l_used = True\<rparr>),
   (2, \<lparr>l_bytes = 78, l_first = 2, l_last = 3, l_produced = True, l_pinned = False, l_used = True\<rparr>),
   (3, \<lparr>l_bytes = 16, l_first = 0, l_last = 0, l_produced = False, l_pinned = True, l_used = True\<rparr>)]"
  by (simp add: collect_lifetimes_def demo_noted demo_nodes_def note_node_def note_output_def
      note_input_def note_graph_output_def demo_named Let_def life_of_def set_life_def cong: bindR_cong_weak)

lemma demo_plan: "BuildMemoryPlan demo_values demo_nodes [''c''] = Inr 
  \<lparr>arena_bytes = 192, unshared_bytes = 320, allocations =
   [\<lparr>a_group = 0, a_offset = 0, a_bytes = 100, a_first = 0, a_last = 1\<rparr>,
    \<lparr>a_group = 1, a_offset = 128, a_bytes = 64, a_first = 1, a_last = 2\<rparr>,
    \<lparr>a_group = 2, a_offset = 0, a_bytes = 78, a_first = 2, a_last = 3\<rparr>]\<rparr>"
  by (simp add: BuildMemoryPlan_def demo_lt intervals_def in_arena_def interval_of_def sort_key_def
      place_interval_def empty_plan_def best_slot_def better_slot_def SIZE_MAX_def Let_def
      cong: bindR_cong_weak)

lemma demo_small: "\<forall>v \<in> set demo_values. v_bytes v \<le> SIZE_MAX"
  by (simp add: demo_values_def SIZE_MAX_def)
section \<open>Properties\<close>

text \<open>
  C7: The memory plan is safe.  Two allocations whose lifetimes (in node indices) have a node in
  common occupy disjoint bytes of the arena.
\<close>

theorem memory_plan_disjoint:
  assumes "BuildMemoryPlan vs nodes outs = Inr plan" and "\<forall>v \<in> set vs. v_bytes v \<le> SIZE_MAX"
    and "i < length (allocations plan)" and "j < length (allocations plan)" and "i \<noteq> j"
    and "lifetimes_meet (allocations plan ! i) (allocations plan ! j)"
  shows "disjoint_ranges (a_offset (allocations plan ! i)) (a_bytes (allocations plan ! i))
           (a_offset (allocations plan ! j)) (a_bytes (allocations plan ! j))"
  using BuildMemoryPlanE[OF assms(1,2)] assms(3-6) unfolding place_inv_def allocs_ok_def
  by (metis fst_conv)

lemma memory_plan_disjoint_witness:
  "\<exists>plan. BuildMemoryPlan demo_values demo_nodes [''c''] = Inr plan \<and>
     disjoint_ranges (a_offset (allocations plan ! 0)) (a_bytes (allocations plan ! 0))
       (a_offset (allocations plan ! 1)) (a_bytes (allocations plan ! 1))"
  by (intro exI conjI, rule demo_plan, rule memory_plan_disjoint[OF demo_plan demo_small])
    (simp_all add: lifetimes_meet_def)

text \<open>
  The plan stays in bounds: every allocation is 64-byte aligned and ends inside the arena,
  sharing never needs more than giving every group its own slot, and nothing overflows.
\<close>

theorem memory_plan_bounds:
  assumes "BuildMemoryPlan vs nodes outs = Inr plan" and "\<forall>v \<in> set vs. v_bytes v \<le> SIZE_MAX"
  shows "(\<forall>a \<in> set (allocations plan). 64 dvd a_offset a \<and> a_offset a + a_bytes a \<le> arena_bytes plan) \<and>
         arena_bytes plan \<le> unshared_bytes plan \<and> unshared_bytes plan \<le> SIZE_MAX \<and>
         64 dvd arena_bytes plan"
proof -
  from BuildMemoryPlanE[OF assms] obtain slots where inv: "place_inv (plan, slots)" by metis
  have "64 dvd a_offset a \<and> a_offset a + a_bytes a \<le> arena_bytes plan" if a: "a \<in> set (allocations plan)" for a
  proof -
    obtain k where "sits_in slots a k" using inv a by (auto simp: place_inv_def allocs_ok_def)
    then show ?thesis using inv by (fastforce simp: place_inv_def slots_ok_def sits_in_def)
  qed
  then show ?thesis using inv by (simp add: place_inv_def)
qed

lemma memory_plan_bounds_witness:
  "\<exists>plan. BuildMemoryPlan demo_values demo_nodes [''c''] = Inr plan \<and> 64 dvd arena_bytes plan"
  using memory_plan_bounds[OF demo_plan demo_small] demo_plan by blast

text \<open>
  The plan is complete and unambiguous: exactly the storage groups that some node writes,
  that hold no seed value and that have at least one byte get an allocation, each exactly one,
  and it is large enough for every value of the group.
\<close>

theorem memory_plan_groups:
  assumes "BuildMemoryPlan vs nodes outs = Inr plan" and "\<forall>v \<in> set vs. v_bytes v \<le> SIZE_MAX"
  shows "distinct (map a_group (allocations plan)) \<and>
    (\<forall>g. g \<in> set (map a_group (allocations plan)) \<longleftrightarrow>
       (\<exists>node \<in> set nodes. \<exists>x \<in> set (pn_outputs node). \<exists>v. value_named vs x = Some v \<and> v_group v = g) \<and>
       \<not> (\<exists>v \<in> set vs. v_group v = g \<and> v_seed v) \<and>
       (\<exists>v \<in> set vs. v_group v = g \<and> 0 < v_offset v + v_bytes v)) \<and>
    (\<forall>v \<in> set vs. \<forall>a \<in> set (allocations plan). a_group a = v_group v \<longrightarrow> v_offset v + v_bytes v \<le> a_bytes a)"
proof -
  from BuildMemoryPlanE[OF assms] obtain lt where lt: "collect_lifetimes vs nodes outs = Inr lt"
    and al: "map unplaced (allocations plan) = intervals lt" by metis
  note facts = collect_lifetimes_facts[OF lt assms(2)]
  have d: "distinct (map fst lt)" and cov: "\<And>v. v \<in> set vs \<Longrightarrow> covers v lt" and
    noted: "\<And>i. i < length nodes \<Longrightarrow> node_noted vs (i, nodes ! i) lt"
    using facts by (auto simp: lives_ok_def)
  have why: "reasons vs nodes lt" by (rule collect_lifetimes_reasons[OF lt])
  have produced: "l_produced (life_of lt (v_group v)) \<and> l_used (life_of lt (v_group v))"
    if "node \<in> set nodes" "x \<in> set (pn_outputs node)" "value_named vs x = Some v" for node x v
  proof -
    obtain i where i: "i < length nodes" "nodes ! i = node" using \<open>node \<in> set nodes\<close> by (auto simp: in_set_conv_nth)
    have "produced_at vs i x lt" using noted[OF i(1)] i(2) \<open>x \<in> _\<close> by (auto simp: node_noted_def)
    then show ?thesis using \<open>value_named vs x = Some v\<close> by (simp add: produced_at_def)
  qed
  have "in_arena (life_of lt g) \<longleftrightarrow>
       (\<exists>node \<in> set nodes. \<exists>x \<in> set (pn_outputs node). \<exists>v. value_named vs x = Some v \<and> v_group v = g) \<and>
       \<not> (\<exists>v \<in> set vs. v_group v = g \<and> v_seed v) \<and>
       (\<exists>v \<in> set vs. v_group v = g \<and> 0 < v_offset v + v_bytes v)" (is "_ \<longleftrightarrow> ?P \<and> ?S \<and> ?B") for g
  proof
    assume a: "in_arena (life_of lt g)"
    then have "?P" "?B" using why by (auto simp: in_arena_def reasons_def)
    moreover have "?S" using a cov by (auto simp: in_arena_def covers_def)
    ultimately show "?P \<and> ?S \<and> ?B" by blast
  next
    assume r: "?P \<and> ?S \<and> ?B"
    have "0 < l_bytes (life_of lt g)" using r cov by (fastforce simp: covers_def)
    moreover have "\<not> l_pinned (life_of lt g)" using r why by (auto simp: reasons_def)
    ultimately show "in_arena (life_of lt g)" using r produced by (auto simp: in_arena_def)
  qed
  moreover have "v_offset v + v_bytes v \<le> a_bytes a"
    if "v \<in> set vs" "a \<in> set (allocations plan)" "a_group a = v_group v" for v a
    using allocation_life[OF al d that(2)] cov[OF that(1)] that(3) by (simp add: covers_def)
  ultimately show ?thesis using interval_groups[OF al d] by blast
qed

lemma memory_plan_groups_witness:
  "\<exists>plan. BuildMemoryPlan demo_values demo_nodes [''c''] = Inr plan \<and> distinct (map a_group (allocations plan))"
  using memory_plan_groups[OF demo_plan demo_small] demo_plan by blast

text \<open>
  A value survives until it is read.  Let node \<open>j\<close> write the value \<open>x\<close>, and let \<open>x\<close> be read
  by a later node \<open>i\<close>, or be a graph output (then \<open>i\<close> is the number of nodes).  Whatever another
  node \<open>k\<close> running from \<open>j\<close> up to \<open>i\<close> writes into the arena, as long as it belongs to another
  storage group, its bytes and the bytes of \<open>x\<close> do not overlap.
\<close>

lemma plan_preserves_values:
  assumes "BuildMemoryPlan vs nodes outs = Inr plan" and "\<forall>v \<in> set vs. v_bytes v \<le> SIZE_MAX"
    and "j < length nodes" and "x \<in> set (pn_outputs (nodes ! j))" and "x \<noteq> []"
    and "i < length nodes \<and> x \<in> set (pn_inputs (nodes ! i)) \<or> i = length nodes \<and> x \<in> set outs"
    and "k < length nodes" and "y \<in> set (pn_outputs (nodes ! k))" and "j \<le> k" and "k \<le> i"
    and "value_named vs x = Some v" and "value_named vs y = Some w" and "v_group v \<noteq> v_group w"
    and "a \<in> set (allocations plan)" and "a_group a = v_group v"
    and "b \<in> set (allocations plan)" and "a_group b = v_group w"
  shows "disjoint_ranges (a_offset a + v_offset v) (v_bytes v) (a_offset b + v_offset w) (v_bytes w)"
proof -
  from BuildMemoryPlanE[OF assms(1,2)] obtain lt where lt: "collect_lifetimes vs nodes outs = Inr lt"
    and al: "map unplaced (allocations plan) = intervals lt" by metis
  note facts = collect_lifetimes_facts[OF lt assms(2)]
  have d: "distinct (map fst lt)" using facts by (auto simp: lives_ok_def)
  note la = allocation_life[OF al d assms(14)] and lb = allocation_life[OF al d assms(16)]
  have "produced_at vs j x lt" using facts assms(3,4) by (auto simp: node_noted_def)
  then have first_a: "a_first a \<le> j" using la assms(11,15) by (auto simp: produced_at_def)
  have "used_at vs i x lt" using facts assms(5,6) by (auto simp: node_noted_def)
  then have last_a: "i \<le> a_last a" using la assms(5,11,15) by (auto simp: used_at_def)
  have "produced_at vs k y lt" using facts assms(7,8) by (auto simp: node_noted_def)
  then have "a_first b \<le> k \<and> k \<le> a_last b" using lb assms(12,17) by (auto simp: produced_at_def)
  then have meet: "lifetimes_meet a b" using first_a last_a assms(9,10) by (simp add: lifetimes_meet_def)
  obtain p where p: "p < length (allocations plan)" "allocations plan ! p = a"
    using assms(14) by (auto simp: in_set_conv_nth)
  obtain q where q: "q < length (allocations plan)" "allocations plan ! q = b"
    using assms(16) by (auto simp: in_set_conv_nth)
  from BuildMemoryPlanE[OF assms(1,2)] obtain slots where "allocs_ok (allocations plan) slots"
    by (metis fst_conv snd_conv place_inv_def)
  moreover have "p \<noteq> q" using p q assms(13,15,17) by auto
  ultimately have dis: "disjoint_ranges (a_offset a) (a_bytes a) (a_offset b) (a_bytes b)"
    using p q meet unfolding allocs_ok_def by blast
  have "v \<in> set vs" "w \<in> set vs" using assms(11,12) by (auto simp: value_named_def dest!: map_of_SomeD)
  then have "v_offset v + v_bytes v \<le> a_bytes a" "v_offset w + v_bytes w \<le> a_bytes b"
    using facts la lb assms(15,17) by (auto simp: covers_def)
  then show ?thesis using dis by (auto simp: disjoint_ranges_def)
qed

end
