(* ===== verification/Graph_Order.thy ===== *)
theory Graph_Order
  imports Shape Topo_Order
begin

text \<open>
  Model descriptions (\<open>include/model/model_format.h\<close>) and \<open>ValidateAndOrderGraph\<close> of
  \<open>src/core/static_graph.cc\<close>: the checks a model passes before it is built, the names given to
  anonymous nodes, and the execution order.  Sets the code only tests for membership are sets;
  the set of node names, which bounds the search for a fresh name, is a list.
\<close>

section \<open>Model descriptions\<close>

datatype AttributeValue =
    AttrInt i64 | AttrFloat f32 | AttrString string | AttrInts "i64 list" | AttrFloats "f32 list"

record TensorDesc =
  td_name :: string
  td_dims :: DDim
  td_data_type :: DataType
  td_layout :: DataLayout
  td_quantization :: QuantizationParams

record WeightLocation =
  wl_tensor_name :: string
  wl_shard_path :: string
  wl_offset :: nat
  wl_byte_size :: nat
  wl_checksum :: string

record ValueDesc =
  vd_tensor :: TensorDesc
  vd_constant :: bool
  vd_weight :: WeightLocation

record NodeDesc =
  nd_name :: string
  nd_op_type :: string
  nd_domain :: string
  nd_inputs :: "string list"
  nd_outputs :: "string list"
  nd_attributes :: "string \<rightharpoonup> AttributeValue"

record GraphDesc =
  gd_name :: string
  gd_inputs :: "string list"
  gd_outputs :: "string list"
  gd_values :: "ValueDesc list"
  gd_nodes :: "NodeDesc list"

record Variant =
  var_name :: string
  var_graph :: GraphDesc
  var_metadata :: "string \<rightharpoonup> AttributeValue"

record ModelDesc =
  md_name :: string
  md_version :: i64
  md_graph :: GraphDesc
  md_metadata :: "string \<rightharpoonup> AttributeValue"
  md_variants :: "Variant list"

abbreviation vd_name :: "ValueDesc \<Rightarrow> string" where
  "vd_name v \<equiv> td_name (vd_tensor v)"

definition graph_error :: "string \<Rightarrow> status" where
  "graph_error m = Error kBuildFailed m"

section \<open>The checks\<close>

definition check_value :: "ValueDesc \<Rightarrow> string set \<times> string set \<Rightarrow> status + string set \<times> string set" where
  "check_value value s =
     (if vd_name value = [] \<or> vd_name value \<in> fst s
      then Inl (graph_error (''empty or duplicate value name: '' @ vd_name value))
      else if CheckedElementCount (td_dims (vd_tensor value)) = None
      then Inl (graph_error (''invalid shape for value: '' @ vd_name value))
      else Inr (insert (vd_name value) (fst s),
                if vd_constant value then insert (vd_name value) (snd s) else snd s))"

definition check_input :: "string set \<Rightarrow> string \<Rightarrow> string set \<times> string set \<Rightarrow> status + string set \<times> string set" where
  "check_input vals input s =
     (if input \<notin> vals \<or> input \<in> fst s
      then Inl (graph_error (''unknown or duplicate graph input: '' @ input))
      else Inr (insert input (fst s), insert input (snd s)))"

definition check_name :: "NodeDesc \<Rightarrow> string list \<Rightarrow> status + string list" where
  "check_name node names =
     (if nd_name node = [] then Inr names
      else if nd_name node \<in> set names then Inl (graph_error (''duplicate node name: '' @ nd_name node))
      else Inr (nd_name node # names))"

text \<open>\<open>while (!names.insert(node.name).second) node.name += "_";\<close>\<close>

fun fresh_name :: "nat \<Rightarrow> string list \<Rightarrow> string \<Rightarrow> string option" where
  "fresh_name 0 names cand = None"
| "fresh_name (Suc fuel) names cand =
     (if cand \<in> set names then fresh_name fuel names (cand @ ''_'') else Some cand)"

record order_state =
  os_nodes :: "NodeDesc list"
  os_names :: "string list"
  os_producers :: "string \<rightharpoonup> nat"

definition name_node :: "nat \<Rightarrow> order_state \<Rightarrow> order_state" where
  "name_node i s =
     (if nd_name (os_nodes s ! i) \<noteq> [] then s
      else case fresh_name (Suc (length (os_names s))) (os_names s) (''__node_'' @ to_string i) of
             None \<Rightarrow> s
           | Some nm \<Rightarrow> s\<lparr>os_nodes := (os_nodes s)[i := (os_nodes s ! i)\<lparr>nd_name := nm\<rparr>],
                          os_names := nm # os_names s\<rparr>)"

definition bind_output ::
  "string set \<Rightarrow> string set \<Rightarrow> nat \<Rightarrow> string \<Rightarrow> (string \<rightharpoonup> nat) \<Rightarrow> status + (string \<rightharpoonup> nat)" where
  "bind_output vals sources i output producers =
     (if output \<notin> vals \<or> output \<in> sources \<or> producers output \<noteq> None
      then Inl (graph_error (''invalid or duplicate producer for value: '' @ output))
      else Inr (producers(output \<mapsto> i)))"

text \<open>An error leaves the nodes named so far, as the code does.\<close>

definition visit_node ::
  "string set \<Rightarrow> string set \<Rightarrow> nat \<Rightarrow> order_state \<Rightarrow> (status \<times> NodeDesc list) + order_state" where
  "visit_node vals sources i s0 =
     (let s = name_node i s0 in
      case foldR (bind_output vals sources i) (nd_outputs (os_nodes s ! i)) (os_producers s) of
        Inl e \<Rightarrow> Inl (e, os_nodes s)
      | Inr producers \<Rightarrow> Inr (s\<lparr>os_producers := producers\<rparr>))"

definition link_input ::
  "string set \<Rightarrow> (string \<rightharpoonup> nat) \<Rightarrow> nat \<times> string \<Rightarrow> nat list \<times> nat list list \<Rightarrow>
   status + nat list \<times> nat list list" where
  "link_input sources producers e tables =
     (if snd e = [] \<or> snd e \<in> sources then Inr tables
      else case producers (snd e) of
             None \<Rightarrow> Inl (graph_error (''value has no source: '' @ snd e))
           | Some p \<Rightarrow> Inr (add_edge (p, fst e) tables))"

definition node_inputs :: "NodeDesc list \<Rightarrow> (nat \<times> string) list" where
  "node_inputs nodes = concat (map (\<lambda>x. map (Pair (fst x)) (nd_inputs (snd x))) (enumerate 0 nodes))"

definition check_output ::
  "string set \<Rightarrow> (string \<rightharpoonup> nat) \<Rightarrow> string \<Rightarrow> string set \<Rightarrow> status + string set" where
  "check_output sources producers output seen =
     (if output \<in> seen \<or> (output \<notin> sources \<and> producers output = None)
      then Inl (graph_error (''unknown or duplicate graph output: '' @ output))
      else Inr (insert output seen))"

definition order_nodes ::
  "GraphDesc \<Rightarrow> string set \<Rightarrow> string set \<Rightarrow> string set \<Rightarrow> order_state \<Rightarrow> status + nat list" where
  "order_nodes graph bindings vals sources0 s =
     (let sources = sources0 \<union> {b \<in> bindings. b \<in> vals \<and> os_producers s b = None};
          n = length (os_nodes s) in
      bindR (foldR (link_input sources (os_producers s)) (node_inputs (os_nodes s))
               (replicate n 0, replicate n [])) (\<lambda>tables.
      bindR (foldR (check_output sources (os_producers s)) (gd_outputs graph) {}) (\<lambda>_.
        case kahn_order pq_push list_pop [] (snd tables) (fst tables) of
          None \<Rightarrow> Inl (graph_error ''graph contains a cycle'')
        | Some order \<Rightarrow> if length order = n then Inr order
                        else Inl (graph_error ''graph contains a cycle''))))"

definition check_descriptions :: "GraphDesc \<Rightarrow> status + string set \<times> string set \<times> string list" where
  "check_descriptions graph =
     bindR (foldR check_value (gd_values graph) ({}, {})) (\<lambda>(vals, consts).
     bindR (foldR (check_input vals) (gd_inputs graph) ({}, consts)) (\<lambda>(_, sources).
     bindR (foldR check_name (gd_nodes graph) []) (\<lambda>names.
       Inr (vals, sources, names))))"

definition set_nodes :: "NodeDesc list \<Rightarrow> ModelDesc \<Rightarrow> ModelDesc" where
  "set_nodes nodes m = m\<lparr>md_graph := (md_graph m)\<lparr>gd_nodes := nodes\<rparr>\<rparr>"

definition ValidateAndOrderGraph :: "ModelDesc \<Rightarrow> string set \<Rightarrow> ModelDesc \<times> (status + nat list)" where
  "ValidateAndOrderGraph model bindings =
     (let graph = md_graph model in
      case check_descriptions graph of
        Inl e \<Rightarrow> (model, Inl e)
      | Inr (vals, sources, names) \<Rightarrow>
          (case foldR (visit_node vals sources) [0..<length (gd_nodes graph)]
                  \<lparr>os_nodes = gd_nodes graph, os_names = names, os_producers = Map.empty\<rparr> of
             Inl (e, nodes) \<Rightarrow> (set_nodes nodes model, Inl e)
           | Inr s \<Rightarrow> (set_nodes (os_nodes s) model, order_nodes graph bindings vals sources s)))"

section \<open>What each loop establishes\<close>

lemma check_values_iff:
  "foldR check_value vs (V, S) = Inr (V', S') \<longleftrightarrow>
     distinct (map vd_name vs) \<and> [] \<notin> set (map vd_name vs) \<and> set (map vd_name vs) \<inter> V = {} \<and>
     (\<forall>v \<in> set vs. CheckedElementCount (td_dims (vd_tensor v)) \<noteq> None) \<and>
     V' = V \<union> set (map vd_name vs) \<and> S' = S \<union> set (map vd_name (filter vd_constant vs))"
  by (induction vs arbitrary: V S) (auto simp: check_value_def)

lemma check_inputs_iff:
  "foldR (check_input vals) xs (I, S) = Inr (I', S') \<longleftrightarrow>
     distinct xs \<and> set xs \<subseteq> vals \<and> set xs \<inter> I = {} \<and> I' = I \<union> set xs \<and> S' = S \<union> set xs"
  by (induction xs arbitrary: I S) (auto simp: check_input_def)

lemma check_names_iff:
  "foldR check_name nodes ns = Inr ns' \<longleftrightarrow>
     distinct (filter (\<lambda>x. x \<noteq> []) (map nd_name nodes)) \<and>
     set (filter (\<lambda>x. x \<noteq> []) (map nd_name nodes)) \<inter> set ns = {} \<and>
     ns' = rev (filter (\<lambda>x. x \<noteq> []) (map nd_name nodes)) @ ns"
  by (induction nodes arbitrary: ns) (auto simp: check_name_def)

lemma bind_outputs_iff:
  "foldR (bind_output vals src i) xs P = Inr P' \<longleftrightarrow>
     set xs \<subseteq> vals - src \<and> distinct xs \<and> (\<forall>x \<in> set xs. P x = None) \<and>
     P' = (\<lambda>x. if x \<in> set xs then Some i else P x)"
  by (induction xs arbitrary: P) (auto simp: bind_output_def fun_eq_iff)

lemma check_outputs_iff:
  "foldR (check_output src P) xs O1 = Inr O2 \<longleftrightarrow>
     distinct xs \<and> set xs \<inter> O1 = {} \<and> (\<forall>x \<in> set xs. x \<in> src \<or> P x \<noteq> None) \<and> O2 = O1 \<union> set xs"
  by (induction xs arbitrary: O1) (auto simp: check_output_def)

lemma link_inputs_iff:
  "foldR (link_input src P) es tables = Inr tables' \<longleftrightarrow>
     (\<forall>e \<in> set es. snd e = [] \<or> snd e \<in> src \<or> P (snd e) \<noteq> None) \<and>
     tables' = foldl (\<lambda>s e. add_edge e s) tables
       (map (\<lambda>e. (the (P (snd e)), fst e)) (filter (\<lambda>e. snd e \<noteq> [] \<and> snd e \<notin> src) es))"
  by (induction es arbitrary: tables) (auto simp: link_input_def split: option.splits)

text \<open>A fresh name is found: the candidates are pairwise different.\<close>

lemma fresh_name_fails:
  "fresh_name fuel names cand = None \<Longrightarrow> k < fuel \<Longrightarrow> cand @ replicate k CHR ''_'' \<in> set names"
proof (induction fuel arbitrary: cand k)
  case 0
  then show ?case by simp
next
  case (Suc fuel)
  then have in0: "cand \<in> set names" and rest: "fresh_name fuel names (cand @ ''_'') = None"
    by (auto split: if_splits)
  show ?case
  proof (cases k)
    case 0
    then show ?thesis using in0 by simp
  next
    case (Suc j)
    then show ?thesis using Suc.IH[OF rest, of j] Suc.prems(2) by simp
  qed
qed

lemma fresh_name_found: "\<exists>nm. fresh_name (Suc (length names)) names cand = Some nm"
proof (rule ccontr)
  assume "\<nexists>nm. fresh_name (Suc (length names)) names cand = Some nm"
  then have none: "fresh_name (Suc (length names)) names cand = None" by simp
  let ?f = "\<lambda>k. cand @ replicate k CHR ''_''"
  have "inj_on ?f {..<Suc (length names)}"
    by (rule inj_onI) (metis length_replicate same_append_eq)
  then have "Suc (length names) = card (?f ` {..<Suc (length names)})" by (simp add: card_image)
  also have "\<dots> \<le> card (set names)"
    by (rule card_mono) (use fresh_name_fails[OF none] in auto)
  also have "\<dots> \<le> length names" by (rule card_length)
  finally show False by simp
qed

lemma fresh_name_SomeD: "fresh_name fuel names cand = Some nm \<Longrightarrow> nm \<notin> set names"
  by (induction fuel arbitrary: cand) (auto split: if_splits)

lemma fresh_name_nonempty: "fresh_name fuel names cand = Some nm \<Longrightarrow> cand \<noteq> [] \<Longrightarrow> nm \<noteq> []"
  by (induction fuel arbitrary: cand) (auto split: if_splits)

definition unnamed :: "NodeDesc \<Rightarrow> NodeDesc" where
  "unnamed node = node\<lparr>nd_name := []\<rparr>"

definition visited :: "string set \<Rightarrow> string set \<Rightarrow> NodeDesc list \<Rightarrow> nat \<Rightarrow> order_state \<Rightarrow> bool" where
  "visited vals src N k s \<longleftrightarrow>
     map unnamed (os_nodes s) = map unnamed N \<and>
     (\<forall>j < length N. (nd_name (N ! j) \<noteq> [] \<longrightarrow> os_nodes s ! j = N ! j) \<and>
        (if j < k then nd_name (os_nodes s ! j) \<noteq> [] else os_nodes s ! j = N ! j)) \<and>
     distinct (filter (\<lambda>x. x \<noteq> []) (map nd_name (os_nodes s))) \<and>
     set (os_names s) = set (filter (\<lambda>x. x \<noteq> []) (map nd_name (os_nodes s))) \<and>
     distinct (concat (map nd_outputs (take k N))) \<and>
     set (concat (map nd_outputs (take k N))) \<subseteq> vals - src \<and>
     (\<forall>x p. os_producers s x = Some p \<longleftrightarrow> p < k \<and> x \<in> set (nd_outputs (N ! p)))"

lemma unnamed_same:
  "map unnamed xs = map unnamed ys \<Longrightarrow> length xs = length ys"
  "map unnamed xs = map unnamed ys \<Longrightarrow> j < length ys \<Longrightarrow>
     nd_outputs (xs ! j) = nd_outputs (ys ! j) \<and> nd_inputs (xs ! j) = nd_inputs (ys ! j)"
proof -
  show "map unnamed xs = map unnamed ys \<Longrightarrow> length xs = length ys" by (rule map_eq_imp_length_eq)
  assume eq: "map unnamed xs = map unnamed ys" and j: "j < length ys"
  have "unnamed (xs ! j) = unnamed (ys ! j)"
    using eq j map_eq_imp_length_eq[OF eq] by (metis nth_map)
  then show "nd_outputs (xs ! j) = nd_outputs (ys ! j) \<and> nd_inputs (xs ! j) = nd_inputs (ys ! j)"
    by (cases "xs ! j"; cases "ys ! j") (simp add: unnamed_def)
qed

lemma distinct_names_update:
  assumes "distinct (filter (\<lambda>x. x \<noteq> []) ns)" and "i < length ns" and "ns ! i = []"
    and "nm \<noteq> []" and "nm \<notin> set ns"
  shows "distinct (filter (\<lambda>x. x \<noteq> []) (ns[i := nm]))"
    and "set (filter (\<lambda>x. x \<noteq> []) (ns[i := nm])) = insert nm (set (filter (\<lambda>x. x \<noteq> []) ns))"
proof -
  have split: "ns = take i ns @ [] # drop (Suc i) ns" using assms(2,3) by (metis id_take_nth_drop)
  have upd: "ns[i := nm] = take i ns @ nm # drop (Suc i) ns" using assms(2) by (simp add: upd_conv_take_nth_drop)
  have f: "filter (\<lambda>x. x \<noteq> []) ns = filter (\<lambda>x. x \<noteq> []) (take i ns) @ filter (\<lambda>x. x \<noteq> []) (drop (Suc i) ns)"
    by (subst split) simp
  have nin: "nm \<notin> set (take i ns)" "nm \<notin> set (drop (Suc i) ns)"
    using assms(5) by (auto dest: in_set_takeD in_set_dropD)
  show "distinct (filter (\<lambda>x. x \<noteq> []) (ns[i := nm]))"
    using assms(1,4) nin unfolding upd f by auto
  show "set (filter (\<lambda>x. x \<noteq> []) (ns[i := nm])) = insert nm (set (filter (\<lambda>x. x \<noteq> []) ns))"
    using assms(4) unfolding upd f by auto
qed

lemma name_node_visited:
  assumes v: "visited vals src N k s" and k: "k < length N"
  defines "s' \<equiv> name_node k s"
  shows "map unnamed (os_nodes s') = map unnamed N \<and>
     (\<forall>j < length N. (nd_name (N ! j) \<noteq> [] \<longrightarrow> os_nodes s' ! j = N ! j) \<and>
        (if j < Suc k then nd_name (os_nodes s' ! j) \<noteq> [] else os_nodes s' ! j = N ! j)) \<and>
     distinct (filter (\<lambda>x. x \<noteq> []) (map nd_name (os_nodes s'))) \<and>
     set (os_names s') = set (filter (\<lambda>x. x \<noteq> []) (map nd_name (os_nodes s'))) \<and>
     os_producers s' = os_producers s"
proof (cases "nd_name (os_nodes s ! k) = []")
  case False
  then show ?thesis using v by (auto simp: s'_def name_node_def visited_def less_Suc_eq)
next
  case True
  have len: "length (os_nodes s) = length N" using v unnamed_same(1) unfolding visited_def by blast
  obtain nm where nm: "fresh_name (Suc (length (os_names s))) (os_names s) (''__node_'' @ to_string k) = Some nm"
    using fresh_name_found by blast
  have ne: "nm \<noteq> []" using fresh_name_nonempty[OF nm] by simp
  have "nm \<notin> set (os_names s)" using fresh_name_SomeD[OF nm] .
  then have nin: "nm \<notin> set (map nd_name (os_nodes s))" using v ne by (auto simp: visited_def)
  have s': "s' = s\<lparr>os_nodes := (os_nodes s)[k := (os_nodes s ! k)\<lparr>nd_name := nm\<rparr>], os_names := nm # os_names s\<rparr>"
    using True nm by (simp add: s'_def name_node_def)
  have un: "map unnamed (os_nodes s') = map unnamed (os_nodes s)"
    unfolding s' using k len by (intro nth_equalityI) (auto simp: nth_list_update unnamed_def)
  have names: "map nd_name (os_nodes s') = (map nd_name (os_nodes s))[k := nm]"
    by (simp add: s' map_update)
  have "nd_name (N ! k) = []" using v True k by (auto simp: visited_def)
  moreover have v': "map unnamed (os_nodes s) = map unnamed N"
    "\<And>j. j < length N \<Longrightarrow> (nd_name (N ! j) \<noteq> [] \<longrightarrow> os_nodes s ! j = N ! j) \<and>
        (if j < k then nd_name (os_nodes s ! j) \<noteq> [] else os_nodes s ! j = N ! j)"
    "distinct (filter (\<lambda>x. x \<noteq> []) (map nd_name (os_nodes s)))"
    "set (os_names s) = set (filter (\<lambda>x. x \<noteq> []) (map nd_name (os_nodes s)))"
    using v unfolding visited_def by blast+
  moreover have "os_nodes s' ! j = (if j = k then (os_nodes s ! k)\<lparr>nd_name := nm\<rparr> else os_nodes s ! j)"
    if "j < length N" for j using that len by (simp add: s' nth_list_update)
  ultimately have nodes: "(nd_name (N ! j) \<noteq> [] \<longrightarrow> os_nodes s' ! j = N ! j) \<and>
      (if j < Suc k then nd_name (os_nodes s' ! j) \<noteq> [] else os_nodes s' ! j = N ! j)"
    if "j < length N" for j using that ne by (auto simp: less_Suc_eq)
  have ks: "k < length (map nd_name (os_nodes s))" "map nd_name (os_nodes s) ! k = []"
    using k len True by simp_all
  note upd = distinct_names_update[OF v'(3) ks ne nin]
  have "set (os_names s') = insert nm (set (os_names s))" by (simp add: s')
  then have "set (os_names s') = set (filter (\<lambda>x. x \<noteq> []) (map nd_name (os_nodes s')))"
    unfolding names upd(2) v'(4) .
  moreover have "os_producers s' = os_producers s" by (simp add: s')
  ultimately show ?thesis using un v'(1) nodes upd(1) unfolding names by simp
qed

lemma take_Suc_outputs:
  "k < length N \<Longrightarrow>
     concat (map nd_outputs (take (Suc k) N)) = concat (map nd_outputs (take k N)) @ nd_outputs (N ! k)"
  by (simp add: take_Suc_conv_app_nth)

lemma outputs_before:
  "k \<le> length N \<Longrightarrow>
     x \<in> set (concat (map nd_outputs (take k N))) \<longleftrightarrow> (\<exists>p < k. x \<in> set (nd_outputs (N ! p)))"
  by (force simp: in_set_conv_nth[of _ "take k N"])

lemma visit_node_iff:
  assumes v: "visited vals src N k s" and k: "k < length N"
  shows "(\<exists>s'. visit_node vals src k s = Inr s') \<longleftrightarrow>
     set (nd_outputs (N ! k)) \<subseteq> vals - src \<and> distinct (concat (map nd_outputs (take (Suc k) N)))"
    and "visit_node vals src k s = Inr s' \<Longrightarrow> visited vals src N (Suc k) s'"
proof -
  let ?s = "name_node k s"
  note named = name_node_visited[OF v k]
  have outs: "nd_outputs (os_nodes ?s ! k) = nd_outputs (N ! k)"
    using named unnamed_same(2)[of "os_nodes ?s" N k] k by blast
  have prod: "os_producers ?s x = None \<longleftrightarrow> x \<notin> set (concat (map nd_outputs (take k N)))" for x
  proof -
    have "os_producers ?s x = Some p \<longleftrightarrow> p < k \<and> x \<in> set (nd_outputs (N ! p))" for p
      using named v unfolding visited_def by metis
    then show ?thesis using outputs_before[of k N x] k
      by (cases "os_producers ?s x") auto
  qed
  have d: "distinct (concat (map nd_outputs (take k N)))" using v by (simp add: visited_def)
  have run: "foldR (bind_output vals src k) (nd_outputs (os_nodes ?s ! k)) (os_producers ?s) = Inr P \<longleftrightarrow>
      set (nd_outputs (N ! k)) \<subseteq> vals - src \<and> distinct (nd_outputs (N ! k)) \<and>
      (\<forall>x \<in> set (nd_outputs (N ! k)). os_producers ?s x = None) \<and>
      P = (\<lambda>x. if x \<in> set (nd_outputs (N ! k)) then Some k else os_producers ?s x)" for P
    unfolding outs by (rule bind_outputs_iff)
  have "(\<exists>P. foldR (bind_output vals src k) (nd_outputs (os_nodes ?s ! k)) (os_producers ?s) = Inr P) \<longleftrightarrow>
     set (nd_outputs (N ! k)) \<subseteq> vals - src \<and> distinct (concat (map nd_outputs (take (Suc k) N)))"
    unfolding run take_Suc_outputs[OF k] distinct_append using prod d by blast
  then show "(\<exists>s'. visit_node vals src k s = Inr s') \<longleftrightarrow>
     set (nd_outputs (N ! k)) \<subseteq> vals - src \<and> distinct (concat (map nd_outputs (take (Suc k) N)))"
    by (cases "foldR (bind_output vals src k) (nd_outputs (os_nodes ?s ! k)) (os_producers ?s)")
      (auto simp: visit_node_def Let_def)
  assume "visit_node vals src k s = Inr s'"
  then obtain P where P: "foldR (bind_output vals src k) (nd_outputs (os_nodes ?s ! k)) (os_producers ?s) = Inr P"
    and s': "s' = ?s\<lparr>os_producers := P\<rparr>" by (auto simp: visit_node_def Let_def split: sum.splits)
  from P run have sub: "set (nd_outputs (N ! k)) \<subseteq> vals - src" "distinct (nd_outputs (N ! k))"
    and new: "\<forall>x \<in> set (nd_outputs (N ! k)). os_producers ?s x = None"
    and P': "P = (\<lambda>x. if x \<in> set (nd_outputs (N ! k)) then Some k else os_producers ?s x)" by blast+
  have "distinct (concat (map nd_outputs (take (Suc k) N)))"
    unfolding take_Suc_outputs[OF k] distinct_append using d sub(2) new prod by blast
  moreover have "set (concat (map nd_outputs (take (Suc k) N))) \<subseteq> vals - src"
    using v sub(1) unfolding take_Suc_outputs[OF k] set_append visited_def by blast
  moreover have "P x = Some p \<longleftrightarrow> p < Suc k \<and> x \<in> set (nd_outputs (N ! p))" for x p
  proof -
    have old: "os_producers ?s x = Some p \<longleftrightarrow> p < k \<and> x \<in> set (nd_outputs (N ! p))"
      using named v unfolding visited_def by metis
    show ?thesis
    proof (cases "x \<in> set (nd_outputs (N ! k))")
      case True
      then have "\<not> (p < k \<and> x \<in> set (nd_outputs (N ! p)))" using new old by simp
      then show ?thesis using True P' by (auto simp: less_Suc_eq)
    next
      case False
      then show ?thesis using P' old by (auto simp: less_Suc_eq)
    qed
  qed
  ultimately show "visited vals src N (Suc k) s'" using named unfolding visited_def s' by simp
qed

definition start_state :: "NodeDesc list \<Rightarrow> order_state" where
  "start_state N = \<lparr>os_nodes = N, os_names = rev (filter (\<lambda>x. x \<noteq> []) (map nd_name N)), os_producers = Map.empty\<rparr>"

lemma visit_all:
  assumes "distinct (filter (\<lambda>x. x \<noteq> []) (map nd_name N))" and "k \<le> length N"
  shows "((\<exists>s. foldR (visit_node vals src) [0..<k] (start_state N) = Inr s) \<longleftrightarrow>
      set (concat (map nd_outputs (take k N))) \<subseteq> vals - src \<and> distinct (concat (map nd_outputs (take k N)))) \<and>
    (\<forall>s. foldR (visit_node vals src) [0..<k] (start_state N) = Inr s \<longrightarrow> visited vals src N k s)"
  using assms(2)
proof (induction k)
  case 0
  show ?case using assms(1) by (auto simp: visited_def start_state_def)
next
  case (Suc k)
  have k: "k < length N" using Suc.prems by simp
  have vis: "\<And>s. foldR (visit_node vals src) [0..<k] (start_state N) = Inr s \<Longrightarrow> visited vals src N k s"
    and ex: "(\<exists>s. foldR (visit_node vals src) [0..<k] (start_state N) = Inr s) \<longleftrightarrow>
      set (concat (map nd_outputs (take k N))) \<subseteq> vals - src \<and> distinct (concat (map nd_outputs (take k N)))"
    using Suc by auto
  have split: "foldR (visit_node vals src) [0..<Suc k] (start_state N) = Inr t \<longleftrightarrow>
      (\<exists>u. foldR (visit_node vals src) [0..<k] (start_state N) = Inr u \<and> visit_node vals src k u = Inr t)" for t
    by (simp add: foldR_snoc)
  have "(\<exists>s. foldR (visit_node vals src) [0..<Suc k] (start_state N) = Inr s) \<longleftrightarrow>
      (\<exists>u. foldR (visit_node vals src) [0..<k] (start_state N) = Inr u) \<and>
      set (nd_outputs (N ! k)) \<subseteq> vals - src \<and> distinct (concat (map nd_outputs (take (Suc k) N)))"
    unfolding split using visit_node_iff(1)[OF vis k] by blast
  also have "\<dots> \<longleftrightarrow> set (concat (map nd_outputs (take (Suc k) N))) \<subseteq> vals - src \<and>
      distinct (concat (map nd_outputs (take (Suc k) N)))"
    unfolding ex take_Suc_outputs[OF k] set_append distinct_append by blast
  finally show ?case unfolding split using visit_node_iff(2)[OF vis k] by blast
qed

section \<open>Well-formed graphs\<close>

text \<open>What the checks amount to, stated without the loops.\<close>

definition sources_of :: "GraphDesc \<Rightarrow> string set \<Rightarrow> string set" where
  "sources_of g bindings =
     set (map vd_name (filter vd_constant (gd_values g))) \<union> set (gd_inputs g) \<union>
     {b \<in> bindings. b \<in> set (map vd_name (gd_values g)) \<and> b \<notin> set (concat (map nd_outputs (gd_nodes g)))}"

definition depends :: "NodeDesc list \<Rightarrow> string set \<Rightarrow> (nat \<times> nat) set" where
  "depends nodes srcs = {(p, i). p < length nodes \<and> i < length nodes \<and>
     (\<exists>x \<in> set (nd_inputs (nodes ! i)). x \<noteq> [] \<and> x \<notin> srcs \<and> x \<in> set (nd_outputs (nodes ! p)))}"

definition well_formed_graph :: "GraphDesc \<Rightarrow> string set \<Rightarrow> bool" where
  "well_formed_graph g bindings \<longleftrightarrow>
     (let vals = set (map vd_name (gd_values g));
          produced = set (concat (map nd_outputs (gd_nodes g)));
          srcs = sources_of g bindings in
      distinct (map vd_name (gd_values g)) \<and> [] \<notin> vals \<and>
      (\<forall>v \<in> set (gd_values g). CheckedElementCount (td_dims (vd_tensor v)) \<noteq> None) \<and>
      distinct (gd_inputs g) \<and> set (gd_inputs g) \<subseteq> vals \<and>
      distinct (filter (\<lambda>x. x \<noteq> []) (map nd_name (gd_nodes g))) \<and>
      distinct (concat (map nd_outputs (gd_nodes g))) \<and>
      produced \<subseteq> vals - (set (map vd_name (filter vd_constant (gd_values g))) \<union> set (gd_inputs g)) \<and>
      (\<forall>node \<in> set (gd_nodes g). \<forall>x \<in> set (nd_inputs node). x = [] \<or> x \<in> srcs \<or> x \<in> produced) \<and>
      distinct (gd_outputs g) \<and> set (gd_outputs g) \<subseteq> srcs \<union> produced \<and>
      acyclic (depends (gd_nodes g) srcs))"

lemma check_descriptions_iff:
  "check_descriptions g = Inr (vals, src, names) \<longleftrightarrow>
     distinct (map vd_name (gd_values g)) \<and> [] \<notin> set (map vd_name (gd_values g)) \<and>
     (\<forall>v \<in> set (gd_values g). CheckedElementCount (td_dims (vd_tensor v)) \<noteq> None) \<and>
     distinct (gd_inputs g) \<and> set (gd_inputs g) \<subseteq> set (map vd_name (gd_values g)) \<and>
     distinct (filter (\<lambda>x. x \<noteq> []) (map nd_name (gd_nodes g))) \<and>
     vals = set (map vd_name (gd_values g)) \<and>
     src = set (map vd_name (filter vd_constant (gd_values g))) \<union> set (gd_inputs g) \<and>
     names = rev (filter (\<lambda>x. x \<noteq> []) (map nd_name (gd_nodes g)))"
  by (simp add: check_descriptions_def bindR_eq_Inr check_values_iff check_inputs_iff check_names_iff
      del: set_map set_filter) blast

lemma node_inputs_mem:
  "(i, x) \<in> set (node_inputs nodes) \<longleftrightarrow> i < length nodes \<and> x \<in> set (nd_inputs (nodes ! i))"
proof -
  have "(i, x) \<in> set (node_inputs nodes) \<longleftrightarrow>
      (\<exists>e \<in> set (enumerate 0 nodes). fst e = i \<and> x \<in> set (nd_inputs (snd e)))"
    by (auto simp: node_inputs_def)
  also have "\<dots> \<longleftrightarrow> i < length nodes \<and> x \<in> set (nd_inputs (nodes ! i))"
    by (auto simp: in_set_enumerate_eq Bex_def)
  finally show ?thesis .
qed

definition edge_list :: "NodeDesc list \<Rightarrow> (string \<rightharpoonup> nat) \<Rightarrow> string set \<Rightarrow> (nat \<times> nat) list" where
  "edge_list nodes P srcs =
     map (\<lambda>e. (the (P (snd e)), fst e)) (filter (\<lambda>e. snd e \<noteq> [] \<and> snd e \<notin> srcs) (node_inputs nodes))"

definition resolved :: "NodeDesc list \<Rightarrow> string set \<Rightarrow> bool" where
  "resolved nodes srcs \<longleftrightarrow> (\<forall>node \<in> set nodes. \<forall>x \<in> set (nd_inputs node).
     x = [] \<or> x \<in> srcs \<or> x \<in> set (concat (map nd_outputs nodes)))"

lemma produced_iff:
  assumes "\<forall>x p. P x = Some p \<longleftrightarrow> p < length N \<and> x \<in> set (nd_outputs (N ! p))"
  shows "P x = None \<longleftrightarrow> x \<notin> set (concat (map nd_outputs N))"
proof -
  have "(\<exists>p. P x = Some p) \<longleftrightarrow> x \<in> set (concat (map nd_outputs N))"
    using assms outputs_before[of "length N" N x] by simp
  then show ?thesis by (cases "P x") auto
qed

lemma edge_list_depends:
  assumes P: "\<forall>x p. P x = Some p \<longleftrightarrow> p < length N \<and> x \<in> set (nd_outputs (N ! p))"
    and res: "resolved N srcs" and same: "node_inputs nodes = node_inputs N"
  shows "set (edge_list nodes P srcs) = depends N srcs"
proof (intro set_eqI iffI)
  fix e assume "e \<in> set (edge_list nodes P srcs)"
  then obtain i x where e: "e = (the (P x), i)" and x: "(i, x) \<in> set (node_inputs N)" "x \<noteq> []" "x \<notin> srcs"
    by (auto simp: edge_list_def same)
  then have i: "i < length N" "x \<in> set (nd_inputs (N ! i))" by (simp_all add: node_inputs_mem)
  then have "x \<in> set (concat (map nd_outputs N))" using res x(2,3) nth_mem[OF i(1)] unfolding resolved_def by blast
  then obtain p where p: "P x = Some p" using produced_iff[OF P] by (cases "P x") auto
  have "e = (p, i)" using e p by simp
  moreover have "p < length N" "x \<in> set (nd_outputs (N ! p))" using p P by blast+
  ultimately show "e \<in> depends N srcs" using i x unfolding depends_def by blast
next
  fix e assume "e \<in> depends N srcs"
  then obtain p i x where e: "e = (p, i)" "p < length N" "i < length N" "x \<in> set (nd_inputs (N ! i))" "x \<noteq> []"
    "x \<notin> srcs" "x \<in> set (nd_outputs (N ! p))" by (auto simp: depends_def)
  then have "P x = Some p" "(i, x) \<in> set (node_inputs N)" using P by (simp_all add: node_inputs_mem)
  then show "e \<in> set (edge_list nodes P srcs)" using e by (force simp: edge_list_def same)
qed

lemma node_inputs_same:
  assumes "map unnamed nodes = map unnamed N"
  shows "node_inputs nodes = node_inputs N"
proof -
  have "map nd_inputs nodes = map nd_inputs N"
    using unnamed_same[OF assms] by (intro nth_equalityI) auto
  moreover have "node_inputs ns = concat (map (\<lambda>x. map (Pair (fst x)) (snd x)) (enumerate 0 (map nd_inputs ns)))" for ns
    by (simp add: node_inputs_def enumerate_map_upt map_of_zip_map enumerate_eq_zip zip_map2 comp_def case_prod_beta)
  ultimately show ?thesis by simp
qed

lemma order_nodes_iff:
  assumes v: "visited vals src N (length N) s"
    and srcs_def: "srcs = src \<union> {b \<in> bindings. b \<in> vals \<and> b \<notin> set (concat (map nd_outputs N))}"
    and es_def: "es = edge_list N (os_producers s) srcs"
  shows "order_nodes g bindings vals src s = Inr order \<longleftrightarrow>
     resolved N srcs \<and> distinct (gd_outputs g) \<and>
     set (gd_outputs g) \<subseteq> srcs \<union> set (concat (map nd_outputs N)) \<and>
     kahn_order pq_push list_pop [] (snd (edge_tables (length N) es)) (fst (edge_tables (length N) es)) = Some order \<and>
     length order = length N"
proof -
  have P: "\<forall>x p. os_producers s x = Some p \<longleftrightarrow> p < length N \<and> x \<in> set (nd_outputs (N ! p))"
    and un: "map unnamed (os_nodes s) = map unnamed N" using v by (auto simp: visited_def)
  have len: "length (os_nodes s) = length N" using unnamed_same(1)[OF un] .
  have none: "os_producers s x = None \<longleftrightarrow> x \<notin> set (concat (map nd_outputs N))" for x
    by (rule produced_iff[OF P])
  have src: "src \<union> {b \<in> bindings. b \<in> vals \<and> os_producers s b = None} = srcs"
    unfolding none srcs_def ..
  have link: "foldR (link_input srcs (os_producers s)) (node_inputs (os_nodes s))
        (replicate (length N) 0, replicate (length N) []) = Inr tables \<longleftrightarrow>
      resolved N srcs \<and> tables = edge_tables (length N) es" for tables
  proof -
    have "(\<forall>e \<in> set (node_inputs N). snd e = [] \<or> snd e \<in> srcs \<or> os_producers s (snd e) \<noteq> None) \<longleftrightarrow> resolved N srcs"
    proof -
      have "(\<forall>e \<in> set (node_inputs N). Q (snd e)) \<longleftrightarrow> (\<forall>node \<in> set N. \<forall>x \<in> set (nd_inputs node). Q x)" for Q
      proof -
        have "(\<forall>e \<in> set (node_inputs N). Q (snd e)) \<longleftrightarrow> (\<forall>i x. (i, x) \<in> set (node_inputs N) \<longrightarrow> Q x)"
          by (simp add: Ball_def split_paired_All)
        then show ?thesis unfolding node_inputs_mem all_set_conv_all_nth[of N] by blast
      qed
      from this[of "\<lambda>x. x = [] \<or> x \<in> srcs \<or> os_producers s x \<noteq> None"]
      show ?thesis unfolding resolved_def none by simp
    qed
    then show ?thesis
      unfolding link_inputs_iff node_inputs_same[OF un] edge_tables_def es_def edge_list_def by simp
  qed
  show ?thesis
    unfolding order_nodes_def Let_def src len
    by (auto simp: bindR_eq_Inr link check_outputs_iff none split: option.splits if_splits)
qed

text \<open>One characterisation serves both properties below.\<close>

lemma validate_iff:
  fixes m b
  defines "g \<equiv> md_graph m"
  defines "N \<equiv> gd_nodes g" and "vals \<equiv> set (map vd_name (gd_values g))"
    and "src \<equiv> set (map vd_name (filter vd_constant (gd_values g))) \<union> set (gd_inputs g)"
    and "srcs \<equiv> sources_of g b"
  shows "ValidateAndOrderGraph m b = (m', Inr order) \<longleftrightarrow>
    (\<exists>names. check_descriptions g = Inr (vals, src, names)) \<and>
    (\<exists>s. visited vals src N (length N) s \<and>
         foldR (visit_node vals src) [0..<length N] (start_state N) = Inr s \<and>
         m' = set_nodes (os_nodes s) m \<and> resolved N srcs \<and> distinct (gd_outputs g) \<and>
         set (gd_outputs g) \<subseteq> srcs \<union> set (concat (map nd_outputs N)) \<and>
         (let es = edge_list N (os_producers s) srcs in
           set es = depends N srcs \<and>
           kahn_order pq_push list_pop [] (snd (edge_tables (length N) es)) (fst (edge_tables (length N) es)) =
             Some order \<and> length order = length N))"
proof -
  have srcs: "srcs = src \<union> {x \<in> b. x \<in> vals \<and> x \<notin> set (concat (map nd_outputs N))}"
    by (simp add: srcs_def sources_of_def src_def vals_def N_def)
  have cd: "check_descriptions g = Inr (V, S, names) \<Longrightarrow> V = vals \<and> S = src \<and>
      names = rev (filter (\<lambda>x. x \<noteq> []) (map nd_name N)) \<and> distinct (filter (\<lambda>x. x \<noteq> []) (map nd_name N))" for V S names
    unfolding check_descriptions_iff vals_def src_def N_def by blast
  show ?thesis
  proof (cases "\<exists>names. check_descriptions g = Inr (vals, src, names)")
    case False
    then have "check_descriptions g \<noteq> Inr (V, S, names)" for V S names using cd by blast
    then obtain e where "check_descriptions g = Inl e" by (cases "check_descriptions g") auto
    then show ?thesis using False by (simp add: ValidateAndOrderGraph_def g_def[symmetric])
  next
    case True
    then obtain names where d: "check_descriptions g = Inr (vals, src, names)" by blast
    from cd[OF d] have st: "\<lparr>os_nodes = N, os_names = names, os_producers = Map.empty\<rparr> = start_state N"
      and dn: "distinct (filter (\<lambda>x. x \<noteq> []) (map nd_name N))" by (simp_all add: start_state_def)
    have run: "ValidateAndOrderGraph m b = (m', Inr order) \<longleftrightarrow>
        (\<exists>s. foldR (visit_node vals src) [0..<length N] (start_state N) = Inr s \<and>
           m' = set_nodes (os_nodes s) m \<and> order_nodes g b vals src s = Inr order)"
      by (cases "foldR (visit_node vals src) [0..<length N] (start_state N)")
        (auto simp: ValidateAndOrderGraph_def g_def[symmetric] d st N_def[symmetric] Let_def)
    have vis: "visited vals src N (length N) s"
      if "foldR (visit_node vals src) [0..<length N] (start_state N) = Inr s" for s
      using visit_all[OF dn, of "length N"] that by blast
    have dep: "set (edge_list N (os_producers s) srcs) = depends N srcs"
      if "visited vals src N (length N) s" "resolved N srcs" for s
      by (rule edge_list_depends) (use that in \<open>auto simp: visited_def\<close>)
    show ?thesis
      unfolding run using True vis dep order_nodes_iff[OF _ srcs refl]
      by (simp only: Let_def) blast
  qed
qed

lemma depends_bounded: "depends N srcs \<subseteq> {..<length N} \<times> {..<length N}"
  by (auto simp: depends_def)

lemma kahn_full:
  assumes "set es \<subseteq> {..<n} \<times> {..<n}"
  shows "\<exists>order. kahn_order pq_push list_pop [] (snd (edge_tables n es)) (fst (edge_tables n es)) = Some order \<and>
     distinct order \<and> set order \<subseteq> {..<n} \<and> topological (snd (edge_tables n es)) order \<and>
     (length order = n \<longleftrightarrow> acyclic (set es))"
  using pq.kahn_order_correct[OF edge_tables_ok[OF assms]] edge_tables_values(2)[OF assms]
    edge_tables_edge[OF assms] by simp

lemma accepts_well_formed:
  "(\<exists>m' order. ValidateAndOrderGraph m bindings = (m', Inr order)) = well_formed_graph (md_graph m) bindings"
proof -
  let ?g = "md_graph m" let ?N = "gd_nodes ?g"
  let ?vals = "set (map vd_name (gd_values ?g))" let ?srcs = "sources_of ?g bindings"
  let ?src = "set (map vd_name (filter vd_constant (gd_values ?g))) \<union> set (gd_inputs ?g)"
  have visit: "(\<exists>s. foldR (visit_node ?vals ?src) [0..<length ?N] (start_state ?N) = Inr s) \<longleftrightarrow>
      set (concat (map nd_outputs ?N)) \<subseteq> ?vals - ?src \<and> distinct (concat (map nd_outputs ?N))"
    if "distinct (filter (\<lambda>x. x \<noteq> []) (map nd_name ?N))"
    using visit_all[OF that, of "length ?N" ?vals ?src] by simp
  have vis: "visited ?vals ?src ?N (length ?N) s"
    if "distinct (filter (\<lambda>x. x \<noteq> []) (map nd_name ?N))"
      "foldR (visit_node ?vals ?src) [0..<length ?N] (start_state ?N) = Inr s" for s
    using visit_all[OF that(1), of "length ?N" ?vals ?src] that(2) by simp
  have kahn: "(\<exists>order. kahn_order pq_push list_pop [] (snd (edge_tables (length ?N) es)) (fst (edge_tables (length ?N) es)) =
      Some order \<and> length order = length ?N) \<longleftrightarrow> acyclic (depends ?N ?srcs)"
    if "set es = depends ?N ?srcs" for es
    using kahn_full[of es "length ?N"] that depends_bounded by fastforce
  show ?thesis
  proof
    assume "\<exists>m' order. ValidateAndOrderGraph m bindings = (m', Inr order)"
    then obtain names s order where cd: "check_descriptions ?g = Inr (?vals, ?src, names)"
      and s: "foldR (visit_node ?vals ?src) [0..<length ?N] (start_state ?N) = Inr s"
      and res: "resolved ?N ?srcs" and outs: "distinct (gd_outputs ?g)"
        "set (gd_outputs ?g) \<subseteq> ?srcs \<union> set (concat (map nd_outputs ?N))"
      and es: "set (edge_list ?N (os_producers s) ?srcs) = depends ?N ?srcs"
      and k: "kahn_order pq_push list_pop []
        (snd (edge_tables (length ?N) (edge_list ?N (os_producers s) ?srcs)))
        (fst (edge_tables (length ?N) (edge_list ?N (os_producers s) ?srcs))) = Some order"
        "length order = length ?N"
      unfolding validate_iff Let_def by blast
    have d: "distinct (filter (\<lambda>x. x \<noteq> []) (map nd_name ?N))" using cd unfolding check_descriptions_iff by blast
    have "acyclic (depends ?N ?srcs)" using kahn[OF es] k by blast
    then show "well_formed_graph ?g bindings"
      using cd visit[OF d] s res outs unfolding check_descriptions_iff well_formed_graph_def Let_def resolved_def
      by blast
  next
    assume wf: "well_formed_graph ?g bindings"
    have cd: "check_descriptions ?g = Inr (?vals, ?src, rev (filter (\<lambda>x. x \<noteq> []) (map nd_name ?N)))"
      using wf unfolding check_descriptions_iff well_formed_graph_def Let_def by blast
    have d: "distinct (filter (\<lambda>x. x \<noteq> []) (map nd_name ?N))" using wf unfolding well_formed_graph_def Let_def by blast
    obtain s where s: "foldR (visit_node ?vals ?src) [0..<length ?N] (start_state ?N) = Inr s"
      using visit[OF d] wf unfolding well_formed_graph_def Let_def by blast
    have res: "resolved ?N ?srcs" using wf unfolding well_formed_graph_def Let_def resolved_def by blast
    have es: "set (edge_list ?N (os_producers s) ?srcs) = depends ?N ?srcs"
      by (rule edge_list_depends) (use vis[OF d s] res in \<open>auto simp: visited_def\<close>)
    obtain order where "kahn_order pq_push list_pop []
        (snd (edge_tables (length ?N) (edge_list ?N (os_producers s) ?srcs)))
        (fst (edge_tables (length ?N) (edge_list ?N (os_producers s) ?srcs))) = Some order"
      "length order = length ?N"
      using kahn[OF es] wf unfolding well_formed_graph_def Let_def by blast
    then show "\<exists>m' order. ValidateAndOrderGraph m bindings = (m', Inr order)"
      using cd s vis[OF d s] res es wf unfolding validate_iff well_formed_graph_def Let_def by blast
  qed
qed

text \<open>The order and the names that an accepted graph gets.\<close>

lemma validated_order:
  assumes "ValidateAndOrderGraph m bindings = (m', Inr order)"
  shows "distinct order \<and> set order = {..<length (gd_nodes (md_graph m))} \<and>
    (\<forall>k < length order. \<forall>x \<in> set (nd_inputs (gd_nodes (md_graph m) ! (order ! k))).
       x = [] \<or> x \<in> sources_of (md_graph m) bindings \<or>
       (\<exists>l < k. x \<in> set (nd_outputs (gd_nodes (md_graph m) ! (order ! l))))) \<and>
    distinct (map nd_name (gd_nodes (md_graph m'))) \<and> [] \<notin> set (map nd_name (gd_nodes (md_graph m'))) \<and>
    map unnamed (gd_nodes (md_graph m')) = map unnamed (gd_nodes (md_graph m)) \<and>
    (\<forall>j < length (gd_nodes (md_graph m)). nd_name (gd_nodes (md_graph m) ! j) \<noteq> [] \<longrightarrow>
       gd_nodes (md_graph m') ! j = gd_nodes (md_graph m) ! j)"
proof -
  let ?g = "md_graph m" let ?N = "gd_nodes ?g"
  let ?vals = "set (map vd_name (gd_values ?g))" let ?srcs = "sources_of ?g bindings"
  let ?src = "set (map vd_name (filter vd_constant (gd_values ?g))) \<union> set (gd_inputs ?g)"
  from assms obtain s es where vis: "visited ?vals ?src ?N (length ?N) s"
    and m': "m' = set_nodes (os_nodes s) m" and res: "resolved ?N ?srcs"
    and es: "set es = depends ?N ?srcs"
    and k: "kahn_order pq_push list_pop [] (snd (edge_tables (length ?N) es)) (fst (edge_tables (length ?N) es)) = Some order"
      "length order = length ?N"
    unfolding validate_iff Let_def by blast
  have bound: "set es \<subseteq> {..<length ?N} \<times> {..<length ?N}" using es depends_bounded by simp
  from kahn_full[OF bound] k have d: "distinct order" "set order \<subseteq> {..<length ?N}"
    and topo: "topological (snd (edge_tables (length ?N) es)) order" by auto
  have all: "set order = {..<length ?N}" using distinct_full[OF d] k(2) by simp
  have ready: "x = [] \<or> x \<in> ?srcs \<or> (\<exists>l < k. x \<in> set (nd_outputs (?N ! (order ! l))))"
    if kk: "k < length order" and x: "x \<in> set (nd_inputs (?N ! (order ! k)))" for k x
  proof -
    have ok: "order ! k < length ?N" using all kk nth_mem[OF kk] by auto
    show ?thesis
    proof (cases "x = [] \<or> x \<in> ?srcs")
      case False
      then have "x \<in> set (concat (map nd_outputs ?N))" using res x nth_mem[OF ok] unfolding resolved_def by blast
      then obtain p where p: "p < length ?N" "x \<in> set (nd_outputs (?N ! p))"
        using outputs_before[of "length ?N" ?N x] by auto
      have "(p, order ! k) \<in> depends ?N ?srcs" using p ok x False by (auto simp: depends_def)
      then have "p \<in> set (take k order)"
        using topo kk es edge_tables_edge[OF bound] by (auto simp: topological_def)
      then obtain l where "l < k" "order ! l = p" using kk by (auto simp: in_set_conv_nth)
      then show ?thesis using p(2) by blast
    qed blast
  qed
  have nodes: "gd_nodes (md_graph m') = os_nodes s" by (simp add: m' set_nodes_def)
  have un: "map unnamed (os_nodes s) = map unnamed ?N" using vis by (simp add: visited_def)
  have "length (os_nodes s) = length ?N" using unnamed_same(1)[OF un] .
  moreover have "\<forall>j < length ?N. nd_name (os_nodes s ! j) \<noteq> []"
    using vis unfolding visited_def by presburger
  ultimately have ne: "[] \<notin> set (map nd_name (os_nodes s))"
    by (metis imageE in_set_conv_nth set_map)
  then have "filter (\<lambda>x. x \<noteq> []) (map nd_name (os_nodes s)) = map nd_name (os_nodes s)"
    by (intro filter_True ballI) metis
  then have dist: "distinct (map nd_name (os_nodes s))" using vis by (simp add: visited_def)
  have keep: "\<forall>j < length ?N. nd_name (?N ! j) \<noteq> [] \<longrightarrow> os_nodes s ! j = ?N ! j"
    using vis unfolding visited_def by blast
  show ?thesis unfolding nodes using d(1) all ready dist ne un keep by blast
qed

text \<open>A model of two anonymous nodes, for the witnesses.\<close>

definition demo_value :: "string \<Rightarrow> ValueDesc" where
  "demo_value x = \<lparr>vd_tensor = \<lparr>td_name = x, td_dims = [2], td_data_type = FP32, td_layout = ND,
       td_quantization = default_quantization\<rparr>, vd_constant = False,
     vd_weight = \<lparr>wl_tensor_name = [], wl_shard_path = [], wl_offset = 0, wl_byte_size = 0, wl_checksum = []\<rparr>\<rparr>"

definition demo_node :: "string \<Rightarrow> string \<Rightarrow> NodeDesc" where
  "demo_node x y = \<lparr>nd_name = [], nd_op_type = ''Relu'', nd_domain = [], nd_inputs = [x], nd_outputs = [y],
     nd_attributes = Map.empty\<rparr>"

definition demo_model :: ModelDesc where
  "demo_model = \<lparr>md_name = ''m'', md_version = 1,
     md_graph = \<lparr>gd_name = ''g'', gd_inputs = [''x''], gd_outputs = [''z''],
       gd_values = [demo_value ''x'', demo_value ''y'', demo_value ''z''], gd_nodes = [demo_node ''x'' ''y'', demo_node ''y'' ''z'']\<rparr>,
     md_metadata = Map.empty, md_variants = []\<rparr>"

lemma demo_depends:
  "\<forall>(p, i) \<in> depends (gd_nodes (md_graph demo_model)) (sources_of (md_graph demo_model) {}). p < i"
  by (auto simp: depends_def demo_model_def demo_node_def less_Suc_eq sources_of_def)

lemma demo_accepted: "\<exists>m' order. ValidateAndOrderGraph demo_model {} = (m', Inr order)"
proof -
  have "depends (gd_nodes (md_graph demo_model)) (sources_of (md_graph demo_model) {}) \<subseteq> less_than"
    using demo_depends by auto
  then have "acyclic (depends (gd_nodes (md_graph demo_model)) (sources_of (md_graph demo_model) {}))"
    using wf_acyclic[OF wf_subset[OF wf_less_than]] by blast
  moreover have "CheckedElementCount [2] = Some 2"
    by (simp add: CheckedElementCount_def INT64_MAX_def mul64_def SIZE_MAX_def)
  ultimately have "well_formed_graph (md_graph demo_model) {}"
    by (simp add: well_formed_graph_def demo_model_def demo_node_def demo_value_def sources_of_def Let_def)
  then show ?thesis unfolding accepts_well_formed .
qed

section \<open>Properties\<close>

text \<open>
  C4: A model is accepted exactly when it is well formed: value names distinct and non-empty with
  countable shapes, graph inputs and explicit node names distinct, every value written at most
  once and never a constant or input, every node input and graph output available, and the
  dependencies between nodes free of cycles.
\<close>

theorem ValidateAndOrderGraph_accepts:
  "(\<exists>m' order. ValidateAndOrderGraph m bindings = (m', Inr order)) = well_formed_graph (md_graph m) bindings"
  by (rule accepts_well_formed)

text \<open>
  C5: The execution order is right.  It lists every node once, and when a node's turn comes each
  of its inputs is omitted, a source, or written by a node that came before.  All nodes have
  different, non-empty names afterwards; names the model gave are kept and nothing else of a
  node changes.
\<close>

theorem ValidateAndOrderGraph_order:
  assumes "ValidateAndOrderGraph m bindings = (m', Inr order)"
  shows "distinct order \<and> set order = {..<length (gd_nodes (md_graph m))} \<and>
    (\<forall>k < length order. \<forall>x \<in> set (nd_inputs (gd_nodes (md_graph m) ! (order ! k))).
       x = [] \<or> x \<in> sources_of (md_graph m) bindings \<or>
       (\<exists>l < k. x \<in> set (nd_outputs (gd_nodes (md_graph m) ! (order ! l))))) \<and>
    distinct (map nd_name (gd_nodes (md_graph m'))) \<and> [] \<notin> set (map nd_name (gd_nodes (md_graph m'))) \<and>
    map unnamed (gd_nodes (md_graph m')) = map unnamed (gd_nodes (md_graph m)) \<and>
    (\<forall>j < length (gd_nodes (md_graph m)). nd_name (gd_nodes (md_graph m) ! j) \<noteq> [] \<longrightarrow>
       gd_nodes (md_graph m') ! j = gd_nodes (md_graph m) ! j)"
  by (rule validated_order[OF assms])

lemma ValidateAndOrderGraph_order_witness:
  "\<exists>m' order. ValidateAndOrderGraph demo_model {} = (m', Inr order) \<and> set order = {..<2} \<and>
     distinct (map nd_name (gd_nodes (md_graph m')))"
proof -
  obtain m' order where run: "ValidateAndOrderGraph demo_model {} = (m', Inr order)"
    using demo_accepted by blast
  from ValidateAndOrderGraph_order[OF run] run show ?thesis
    by (auto simp: demo_model_def numeral_2_eq_2 simp del: set_map)
qed

text \<open>
  If the model lists its nodes so that every node comes after the nodes it reads from, the
  execution order is the order of the list.
\<close>

theorem ValidateAndOrderGraph_keeps_order:
  assumes "ValidateAndOrderGraph m bindings = (m', Inr order)"
    and "\<forall>(p, i) \<in> depends (gd_nodes (md_graph m)) (sources_of (md_graph m) bindings). p < i"
  shows "order = [0..<length (gd_nodes (md_graph m))]"
proof -
  let ?g = "md_graph m" let ?N = "gd_nodes ?g" let ?srcs = "sources_of ?g bindings"
  from assms(1) obtain es where es: "set es = depends ?N ?srcs"
    and k: "kahn_order pq_push list_pop [] (snd (edge_tables (length ?N) es)) (fst (edge_tables (length ?N) es)) = Some order"
    unfolding validate_iff Let_def by blast
  have bound: "set es \<subseteq> {..<length ?N} \<times> {..<length ?N}" using es depends_bounded by simp
  have "kahn_order pq_push list_pop [] (snd (edge_tables (length ?N) es)) (fst (edge_tables (length ?N) es)) =
      Some [0..<length (snd (edge_tables (length ?N) es))]"
    by (rule pq_order_up[OF edge_tables_ok[OF bound]])
      (use assms(2) es edge_tables_edge[OF bound] in auto)
  then show ?thesis using k edge_tables_values(2)[OF bound] by simp
qed

lemma ValidateAndOrderGraph_keeps_order_witness:
  "\<exists>m'. ValidateAndOrderGraph demo_model {} = (m', Inr [0..<2])"
proof -
  obtain m' order where run: "ValidateAndOrderGraph demo_model {} = (m', Inr order)"
    using demo_accepted by blast
  have "length (gd_nodes (md_graph demo_model)) = 2" by (simp add: demo_model_def)
  with ValidateAndOrderGraph_keeps_order[OF run demo_depends] run show ?thesis by metis
qed

end
