(* ===== verification/Tensor_Storage.thy ===== *)
theory Tensor_Storage
  imports Size_Class
begin

text \<open>
  Shared storage and tensors: \<open>include/core/storage.h\<close>, \<open>include/core/tensor.h\<close> and
  \<open>src/core/tensor.cc\<close>.  The heap is a byte memory with a bump pointer; a buffer is a
  window of it, a storage the shared identity of an allocation (deferred or backed by a
  buffer), a tensor a view into a storage.  \<open>shared_ptr\<close>s are indices.  A failed
  \<open>CHECK\<close> throws, which is \<open>None\<close>.  Buffers taken from the pool are fresh windows of the
  size class of the request: the pool theory shows that an outstanding block overlaps no other.
\<close>

section \<open>Memory, buffers, storages\<close>

record view =
  b_data :: nat
  b_size :: nat
  b_read_only :: bool

record Storage =
  st_buffer :: "nat option"
  st_capacity :: nat
  st_deferred :: bool
  st_device :: DeviceType
  st_device_index :: int
  st_materialized :: bool
  st_version :: nat

record world =
  mem :: "nat \<Rightarrow> u8"
  brk :: nat
  buffers :: "view list"
  storages :: "Storage list"
  next_version :: nat
  deferred_scope :: bool

definition mem_read :: "(nat \<Rightarrow> u8) \<Rightarrow> nat \<Rightarrow> nat \<Rightarrow> u8 list" where
  "mem_read m a n = map m [a..<a + n]"

definition mem_write :: "(nat \<Rightarrow> u8) \<Rightarrow> nat \<Rightarrow> u8 list \<Rightarrow> nat \<Rightarrow> u8" where
  "mem_write m a bs = (\<lambda>x. if a \<le> x \<and> x < a + length bs then bs ! (x - a) else m x)"

text \<open>\<open>Buffer(size)\<close>: a new array; its bytes are whatever memory holds.\<close>

definition new_buffer :: "nat \<Rightarrow> world \<Rightarrow> world \<times> nat" where
  "new_buffer n w =
     (w\<lparr>brk := brk w + max 1 n,
        buffers := buffers w @ [\<lparr>b_data = brk w, b_size = n, b_read_only = False\<rparr>]\<rparr>,
      length (buffers w))"

text \<open>\<open>Buffer(data, size, owner, read_only)\<close>: a window on memory somebody else owns.\<close>

definition wrap_buffer :: "nat \<Rightarrow> nat \<Rightarrow> bool \<Rightarrow> world \<Rightarrow> world \<times> nat" where
  "wrap_buffer a n ro w =
     (w\<lparr>buffers := buffers w @ [\<lparr>b_data = a, b_size = n, b_read_only = ro\<rparr>]\<rparr>, length (buffers w))"

definition MarkMutated :: "nat \<Rightarrow> world \<Rightarrow> world" where
  "MarkMutated s w =
     w\<lparr>storages := (storages w)[s := (storages w ! s)\<lparr>st_version := next_version w\<rparr>],
       next_version := Suc (next_version w)\<rparr>"

definition new_Storage :: "nat option \<Rightarrow> DeviceType \<Rightarrow> int \<Rightarrow> world \<Rightarrow> world \<times> nat" where
  "new_Storage buf dev idx w =
     (let s = length (storages w);
          st = \<lparr>st_buffer = buf,
                st_capacity = (case buf of None \<Rightarrow> 0 | Some b \<Rightarrow> b_size (buffers w ! b)),
                st_deferred = False, st_device = dev, st_device_index = idx, st_materialized = True,
                st_version = 0\<rparr>
      in (MarkMutated s (w\<lparr>storages := storages w @ [st]\<rparr>), s))"

definition new_deferred_Storage :: "nat \<Rightarrow> world \<Rightarrow> world \<times> nat" where
  "new_deferred_Storage bytes w =
     (let s = length (storages w);
          st = \<lparr>st_buffer = None, st_capacity = bytes, st_deferred = True, st_device = COMMON,
                st_device_index = 0, st_materialized = False, st_version = 0\<rparr>
      in (MarkMutated s (w\<lparr>storages := storages w @ [st]\<rparr>), s))"

text \<open>
  \<open>Storage::data\<close>: the first access of a deferred storage allocates (\<open>call_once\<close>).
\<close>

definition materialize :: "nat \<Rightarrow> world \<Rightarrow> world" where
  "materialize s w =
     (let st = storages w ! s in
      if st_deferred st \<and> \<not> st_materialized st
      then let (w', b) = new_buffer (st_capacity st) w
           in w'\<lparr>storages := (storages w')[s := st\<lparr>st_buffer := Some b, st_materialized := True\<rparr>]\<rparr>
      else w)"

definition storage_data :: "nat \<Rightarrow> world \<Rightarrow> world \<times> nat option" where
  "storage_data s w =
     (let w' = materialize s w
      in (w', map_option (\<lambda>b. b_data (buffers w' ! b)) (st_buffer (storages w' ! s))))"

definition available :: "nat \<Rightarrow> world \<Rightarrow> bool" where
  "available s w \<longleftrightarrow> st_deferred (storages w ! s) \<or>
     (case st_buffer (storages w ! s) of None \<Rightarrow> False | Some b \<Rightarrow> b_data (buffers w ! b) \<noteq> 0)"

definition storage_size :: "nat \<Rightarrow> world \<Rightarrow> nat" where
  "storage_size s w = st_capacity (storages w ! s)"

definition storage_read_only :: "nat \<Rightarrow> world \<Rightarrow> bool" where
  "storage_read_only s w \<longleftrightarrow> st_materialized (storages w ! s) \<and>
     (case st_buffer (storages w ! s) of None \<Rightarrow> False | Some b \<Rightarrow> b_read_only (buffers w ! b))"

text \<open>\<open>Storage::MakeWritable\<close>: copy a read-only buffer into a new one, once.\<close>

definition MakeWritable :: "nat \<Rightarrow> world \<Rightarrow> world" where
  "MakeWritable s w0 =
     (let w = materialize s w0; st = storages w ! s in
      case st_buffer st of None \<Rightarrow> w
      | Some b \<Rightarrow>
          if \<not> b_read_only (buffers w ! b) then w
          else let (w', c) = new_buffer (st_capacity st) w;
                   bytes = mem_read (mem w) (b_data (buffers w ! b)) (st_capacity st);
                   w'' = w'\<lparr>mem := mem_write (mem w') (b_data (buffers w' ! c)) bytes,
                            storages := (storages w')[s := st\<lparr>st_buffer := Some c\<rparr>]\<rparr>
               in MarkMutated s w'')"

section \<open>Tensors\<close>

record Tensor =
  m_dims :: DDim
  m_data_type :: DataType
  m_layout :: DataLayout
  m_storage :: "nat option"
  m_memory_size :: nat
  m_offset :: nat
  m_immutable :: bool
  m_quantization :: QuantizationParams

definition empty_Tensor :: Tensor where
  "empty_Tensor = \<lparr>m_dims = [], m_data_type = UNKNOWN, m_layout = ND, m_storage = None,
     m_memory_size = 0, m_offset = 0, m_immutable = False, m_quantization = default_quantization\<rparr>"

text \<open>
  \<open>BufferPool::getInstance()->allocate(size)\<close>: the handle's size is that of its block, which is
  the size class of the request.
\<close>

definition pool_buffer :: "nat \<Rightarrow> world \<Rightarrow> (world \<times> nat) option" where
  "pool_buffer n w = map_option (\<lambda>class_size. new_buffer class_size w) (NormalizeSize n)"

text \<open>\<open>Tensor(data_size)\<close> and \<open>Tensor(shape)\<close>, whose element size is that of \<open>float\<close>.\<close>

definition Tensor_bytes :: "nat \<Rightarrow> world \<Rightarrow> (world \<times> Tensor) option" where
  "Tensor_bytes data_size w =
     map_option (\<lambda>(w', s). (w', empty_Tensor\<lparr>m_storage := Some s, m_memory_size := data_size\<rparr>))
       (if deferred_scope w then Some (new_deferred_Storage data_size w)
        else map_option (\<lambda>(v, b). new_Storage (Some b) COMMON 0 v) (pool_buffer data_size w))"

definition Tensor_shape :: "DDim \<Rightarrow> world \<Rightarrow> (world \<times> Tensor) option" where
  "Tensor_shape shape w =
     (case CheckedByteCount shape 4 of None \<Rightarrow> None
      | Some data_size \<Rightarrow>
          map_option (\<lambda>(w', t). (w', t\<lparr>m_dims := shape\<rparr>)) (Tensor_bytes data_size w))"

definition HasCapacity :: "world \<Rightarrow> Tensor \<Rightarrow> nat \<Rightarrow> bool" where
  "HasCapacity w t bytes \<longleftrightarrow>
     (case m_storage t of None \<Rightarrow> False
      | Some s \<Rightarrow> m_offset t \<le> storage_size s w \<and> bytes \<le> storage_size s w - m_offset t)"

definition IsInitialized :: "world \<Rightarrow> Tensor \<Rightarrow> bool" where
  "IsInitialized w t \<longleftrightarrow> (case m_storage t of None \<Rightarrow> False | Some s \<Rightarrow> available s w)"

definition numel :: "Tensor \<Rightarrow> nat option" where
  "numel t = CheckedElementCount (m_dims t)"

definition mutation_version :: "world \<Rightarrow> Tensor \<Rightarrow> nat" where
  "mutation_version w t = (case m_storage t of None \<Rightarrow> 0 | Some s \<Rightarrow> st_version (storages w ! s))"

definition MarkStorageMutated :: "Tensor \<Rightarrow> world \<Rightarrow> world" where
  "MarkStorageMutated t w = (case m_storage t of None \<Rightarrow> w | Some s \<Rightarrow> MarkMutated s w)"

definition EnsureWritable :: "Tensor \<Rightarrow> world \<Rightarrow> (world \<times> Tensor) option" where
  "EnsureWritable t w =
     (case m_storage t of
        None \<Rightarrow> Some (w, t)
      | Some s \<Rightarrow>
          if storage_read_only s w
          then if HasCapacity w t (m_memory_size t)
               then Some (MakeWritable s w, t\<lparr>m_immutable := False\<rparr>) else None
          else Some (w, t))"

text \<open>
  \<open>mutable_data(memory_size)\<close> returns the address the caller writes through (\<open>m_storage\<close>
  is not null after the capacity test).
\<close>

definition mutable_data :: "nat \<Rightarrow> Tensor \<Rightarrow> world \<Rightarrow> (world \<times> Tensor \<times> nat option) option" where
  "mutable_data memory_size t w =
     (if \<not> HasCapacity w t memory_size then None
      else case EnsureWritable t w of None \<Rightarrow> None
           | Some (w1, t1) \<Rightarrow>
               (let t2 = t1\<lparr>m_memory_size := memory_size\<rparr>;
                    w2 = MarkStorageMutated t2 w1;
                    (w3, p) = storage_data (the (m_storage t)) w2
                in Some (w3, t2, map_option (\<lambda>a. a + m_offset t) p)))"

text \<open>\<open>mutable_data<T>()\<close> for an element type of \<open>eb\<close> bytes.\<close>

definition mutable_data_typed ::
  "DataType \<Rightarrow> nat \<Rightarrow> Tensor \<Rightarrow> world \<Rightarrow> (world \<times> Tensor \<times> nat option) option" where
  "mutable_data_typed dt eb t w =
     (let t' = t\<lparr>m_data_type := dt\<rparr> in
      case CheckedByteCount (m_dims t') eb of None \<Rightarrow> None
      | Some bytes \<Rightarrow> mutable_data bytes t' w)"

definition raw_data :: "Tensor \<Rightarrow> world \<Rightarrow> world \<times> nat option" where
  "raw_data t w =
     (case m_storage t of None \<Rightarrow> (w, None)
      | Some s \<Rightarrow> (let (w', p) = storage_data s w in (w', map_option (\<lambda>a. a + m_offset t) p)))"

text \<open>\<open>memcmp\<close> reads the bytes through \<open>raw_data\<close>, which may materialise the storage.\<close>

definition read_bytes :: "Tensor \<Rightarrow> nat \<Rightarrow> world \<Rightarrow> world \<times> u8 list" where
  "read_bytes t n w =
     (let (w', p) = raw_data t w in (w', mem_read (mem w') (case p of None \<Rightarrow> m_offset t | Some a \<Rightarrow> a) n))"

definition ResetStorage :: "nat \<Rightarrow> nat \<Rightarrow> nat \<Rightarrow> Tensor \<Rightarrow> world \<Rightarrow> Tensor option" where
  "ResetStorage s memory_size offset t w =
     (if offset \<le> storage_size s w \<and> memory_size \<le> storage_size s w - offset
      then Some (t\<lparr>m_storage := Some s, m_memory_size := memory_size, m_offset := offset\<rparr>)
      else None)"

definition ResetBuffer :: "nat \<Rightarrow> nat \<Rightarrow> nat \<Rightarrow> Tensor \<Rightarrow> world \<Rightarrow> (world \<times> Tensor) option" where
  "ResetBuffer b memory_size offset t w =
     (if offset \<le> b_size (buffers w ! b) \<and> memory_size \<le> b_size (buffers w ! b) - offset
      then (let (w', s) = new_Storage (Some b) COMMON 0 w
            in map_option (\<lambda>t'. (w', t')) (ResetStorage s memory_size offset t w'))
      else None)"

definition ShareDataWith :: "Tensor \<Rightarrow> Tensor \<Rightarrow> Tensor" where
  "ShareDataWith other t =
     t\<lparr>m_storage := m_storage other, m_dims := m_dims other, m_data_type := m_data_type other,
       m_layout := m_layout other, m_quantization := m_quantization other,
       m_memory_size := m_memory_size other, m_immutable := m_immutable other,
       m_offset := m_offset other\<rparr>"

definition SwapStorage :: "Tensor \<Rightarrow> Tensor \<Rightarrow> world \<Rightarrow> world \<times> Tensor \<times> Tensor" where
  "SwapStorage t other w =
     (let t' = t\<lparr>m_storage := m_storage other, m_memory_size := m_memory_size other,
                  m_offset := m_offset other\<rparr>;
          other' = other\<lparr>m_storage := m_storage t, m_memory_size := m_memory_size t,
                         m_offset := m_offset t\<rparr>
      in (MarkStorageMutated other' (MarkStorageMutated t' w), t', other'))"

definition clear_tensor :: "Tensor \<Rightarrow> Tensor" where
  "clear_tensor t = t\<lparr>m_storage := None, m_offset := 0, m_memory_size := 0\<rparr>"

text \<open>
  \<open>set_quantization\<close>: the scalar fields and the heads of the two vectors are made to
  agree, and a scale that is not a positive finite number becomes 1.
\<close>

definition set_quantization :: "QuantizationParams \<Rightarrow> Tensor \<Rightarrow> Tensor" where
  "set_quantization q t =
     (let q1 = (if q_scales q \<noteq> [] then q\<lparr>q_scale := hd (q_scales q)\<rparr> else q);
          q2 = (if \<not> f32_positive (q_scale q1) \<or> \<not> f32_is_finite (q_scale q1)
                then q1\<lparr>q_scale := f32_one\<rparr> else q1);
          q3 = (if q_scales q2 = [] then q2\<lparr>q_scales := [q_scale q2]\<rparr>
                else q2\<lparr>q_scales := (q_scales q2)[0 := q_scale q2]\<rparr>);
          q4 = (if q_zero_points q3 \<noteq> [] then q3\<lparr>q_zero_point := hd (q_zero_points q3)\<rparr> else q3);
          q5 = (if q_zero_points q4 = [] then q4\<lparr>q_zero_points := [q_zero_point q4]\<rparr>
                else q4\<lparr>q_zero_points := (q_zero_points q4)[0 := q_zero_point q4]\<rparr>)
      in t\<lparr>m_quantization := q5\<rparr>)"

text \<open>
  \<open>Assign<T>(data, shape)\<close> with the values as bytes, \<open>eb\<close> of them per element.
\<close>

definition Assign :: "DataType \<Rightarrow> nat \<Rightarrow> u8 list \<Rightarrow> DDim \<Rightarrow> Tensor \<Rightarrow> world \<Rightarrow> (world \<times> Tensor) option" where
  "Assign dt eb data shape t0 w0 =
     (let t1 = t0\<lparr>m_dims := shape\<rparr>; data_size = length data in
      case CheckedElementCount shape of None \<Rightarrow> None
      | Some n \<Rightarrow>
          if data_size \<noteq> n * eb then None
          else
            (let reset = (if \<not> HasCapacity w0 t1 data_size
                          then (let (w', b) = new_buffer data_size w0 in ResetBuffer b data_size 0 t1 w')
                          else Some (w0, t1))
             in case reset of None \<Rightarrow> None
                | Some (w1, t2) \<Rightarrow>
                    (case mutable_data_typed dt eb t2 w1 of None \<Rightarrow> None
                     | Some (w2, t3, p) \<Rightarrow>
                         (case p of None \<Rightarrow> Some (w2, t3)
                          | Some a \<Rightarrow> Some (w2\<lparr>mem := mem_write (mem w2) a data\<rparr>, t3)))))"

text \<open>The bytes a tensor shows: what a reader of \<open>raw_data\<close> finds, if anything is there.\<close>

definition tensor_bytes :: "world \<Rightarrow> Tensor \<Rightarrow> nat \<Rightarrow> u8 list option" where
  "tensor_bytes w t n =
     (case m_storage t of None \<Rightarrow> None
      | Some s \<Rightarrow>
          map_option (\<lambda>b. mem_read (mem w) (b_data (buffers w ! b) + m_offset t) n)
            (st_buffer (storages w ! s)))"

section \<open>Well-formed heaps\<close>

definition storage_ok :: "world \<Rightarrow> Storage \<Rightarrow> bool" where
  "storage_ok w st =
     ((case st_buffer st of
         None \<Rightarrow> True
       | Some b \<Rightarrow> b < length (buffers w) \<and> b_size (buffers w ! b) = st_capacity st) \<and>
      (\<not> st_materialized st \<longrightarrow> st_deferred st \<and> st_buffer st = None) \<and>
      (st_deferred st \<and> st_materialized st \<longrightarrow> st_buffer st \<noteq> None) \<and>
      (\<not> st_deferred st \<and> st_buffer st = None \<longrightarrow> st_capacity st = 0) \<and>
      st_version st < next_version w)"

definition world_ok :: "world \<Rightarrow> bool" where
  "world_ok w \<longleftrightarrow> (\<forall>v \<in> set (buffers w). b_data v + b_size v \<le> brk w) \<and>
     (\<forall>st \<in> set (storages w). storage_ok w st) \<and> 0 < brk w \<and> 0 < next_version w"

definition tensor_ok :: "world \<Rightarrow> Tensor \<Rightarrow> bool" where
  "tensor_ok w t = (case m_storage t of None \<Rightarrow> True | Some s \<Rightarrow> s < length (storages w))"

lemma mem_read_nth [simp]: "i < n \<Longrightarrow> mem_read m a n ! i = m (a + i)"
  by (simp add: mem_read_def)

lemma length_mem_read [simp]: "length (mem_read m a n) = n"
  by (simp add: mem_read_def)

lemma mem_read_write_same: "mem_read (mem_write m a bs) a (length bs) = bs"
  by (rule nth_equalityI) (simp_all add: mem_write_def)

lemma mem_read_copied:
  "off + n \<le> c \<Longrightarrow> mem_read (mem_write m a (mem_read m d c)) (a + off) n = mem_read m (d + off) n"
  by (rule nth_equalityI) (simp_all add: mem_write_def add.assoc)

lemma mem_write_other: "x < a \<or> a + length bs \<le> x \<Longrightarrow> mem_write m a bs x = m x"
  by (auto simp: mem_write_def)

lemma mem_read_cong:
  "(\<And>x. a \<le> x \<Longrightarrow> x < a + n \<Longrightarrow> m x = m' x) \<Longrightarrow> mem_read m a n = mem_read m' a n"
  by (rule nth_equalityI) simp_all

lemma world_ok_buffer:
  "world_ok w \<Longrightarrow> b < length (buffers w) \<Longrightarrow> b_data (buffers w ! b) + b_size (buffers w ! b) \<le> brk w"
  by (simp add: world_ok_def)

lemma world_ok_storage: "world_ok w \<Longrightarrow> s < length (storages w) \<Longrightarrow> storage_ok w (storages w ! s)"
  by (simp add: world_ok_def)


section \<open>Every operation keeps the heap well formed\<close>

lemma storage_ok_cong:
  assumes "storage_ok w st" and "length (buffers w) \<le> length (buffers w')"
    and "\<And>b. b < length (buffers w) \<Longrightarrow> buffers w' ! b = buffers w ! b"
    and "next_version w \<le> next_version w'"
  shows "storage_ok w' st"
  using assms by (auto simp: storage_ok_def split: option.splits)

lemma world_ok_new_buffer:
  assumes "world_ok w"
  shows "world_ok (fst (new_buffer n w))"
  using assms
  by (auto simp: world_ok_def new_buffer_def ball_Un intro: storage_ok_cong simp: nth_append)

lemma storage_ok_mem [simp]: "storage_ok (w\<lparr>mem := m\<rparr>) st = storage_ok w st"
  by (simp add: storage_ok_def split: option.splits)

lemma storage_ok_storages [simp]: "storage_ok (w\<lparr>storages := ss\<rparr>) st = storage_ok w st"
  by (simp add: storage_ok_def split: option.splits)

lemma world_ok_mem [simp]: "world_ok (w\<lparr>mem := m\<rparr>) = world_ok w"
  by (simp add: world_ok_def)

lemma world_ok_set_storage:
  assumes "world_ok w" and "storage_ok w st"
  shows "world_ok (w\<lparr>storages := (storages w)[s := st]\<rparr>)"
proof -
  have "storage_ok w st'" if "st' \<in> set ((storages w)[s := st])" for st'
    using that assms set_update_subset_insert[of "storages w" s st] by (auto simp: world_ok_def)
  then show ?thesis using assms(1) by (simp add: world_ok_def)
qed

lemma world_ok_MarkMutated:
  assumes "world_ok w"
  shows "world_ok (MarkMutated s w)"
proof -
  have up: "storage_ok (MarkMutated s w) st" if "storage_ok w st" for st
    using that by (rule storage_ok_cong) (simp_all add: MarkMutated_def)
  have "storage_ok (MarkMutated s w) st" if st: "st \<in> set (storages (MarkMutated s w))" for st
  proof (cases "s < length (storages w)")
    case False
    then have "st \<in> set (storages w)" using st by (simp add: MarkMutated_def list_update_beyond)
    then show ?thesis using up assms by (simp add: world_ok_def)
  next
    case True
    have "st = (storages w ! s)\<lparr>st_version := next_version w\<rparr> \<or> st \<in> set (storages w)"
      using st set_update_subset_insert[of "storages w" s] by (auto simp: MarkMutated_def)
    then show ?thesis
    proof
      assume "st = (storages w ! s)\<lparr>st_version := next_version w\<rparr>"
      then show ?thesis using world_ok_storage[OF assms True]
        by (auto simp: storage_ok_def MarkMutated_def split: option.splits)
    next
      assume "st \<in> set (storages w)"
      then show ?thesis using up assms by (simp add: world_ok_def)
    qed
  qed
  then show ?thesis using assms by (simp add: world_ok_def MarkMutated_def)
qed

lemma world_ok_add_storage:
  assumes "world_ok w" and "storage_ok w st"
  shows "world_ok (w\<lparr>storages := storages w @ [st]\<rparr>)"
  using assms by (auto simp: world_ok_def)

lemma MarkMutated_sel [simp]:
  "mem (MarkMutated s w) = mem w" "brk (MarkMutated s w) = brk w"
  "buffers (MarkMutated s w) = buffers w" "deferred_scope (MarkMutated s w) = deferred_scope w"
  "length (storages (MarkMutated s w)) = length (storages w)"
  "next_version (MarkMutated s w) = Suc (next_version w)"
  by (simp_all add: MarkMutated_def)

lemma MarkMutated_nth:
  "storages (MarkMutated s w) ! r =
     (if r = s \<and> s < length (storages w) then (storages w ! s)\<lparr>st_version := next_version w\<rparr>
      else storages w ! r)"
  by (cases "s < length (storages w)") (simp_all add: MarkMutated_def nth_list_update list_update_beyond)

lemma MarkMutated_st [simp]:
  "st_buffer (storages (MarkMutated s w) ! r) = st_buffer (storages w ! r)"
  "st_capacity (storages (MarkMutated s w) ! r) = st_capacity (storages w ! r)"
  "st_deferred (storages (MarkMutated s w) ! r) = st_deferred (storages w ! r)"
  "st_materialized (storages (MarkMutated s w) ! r) = st_materialized (storages w ! r)"
  by (simp_all add: MarkMutated_nth)

lemma world_ok_materialize:
  assumes "world_ok w" and "s < length (storages w)"
  shows "world_ok (materialize s w)"
proof (cases "st_deferred (storages w ! s) \<and> \<not> st_materialized (storages w ! s)")
  case True
  let ?w = "fst (new_buffer (st_capacity (storages w ! s)) w)"
  let ?st = "(storages w ! s)\<lparr>st_buffer := Some (length (buffers w)), st_materialized := True\<rparr>"
  have "storage_ok ?w ?st"
    using world_ok_storage[OF assms] True by (auto simp: storage_ok_def new_buffer_def)
  from world_ok_set_storage[OF world_ok_new_buffer[OF assms(1)] this, of s] True
  show ?thesis by (simp add: materialize_def new_buffer_def Let_def)
qed (auto simp: materialize_def assms Let_def)

lemma materialize_nth:
  assumes "s < length (storages w)"
  shows "storages (materialize s w) ! r =
     (if r = s \<and> st_deferred (storages w ! s) \<and> \<not> st_materialized (storages w ! s)
      then (storages w ! s)\<lparr>st_buffer := Some (length (buffers w)), st_materialized := True\<rparr>
      else storages w ! r)"
  using assms by (simp add: materialize_def new_buffer_def Let_def nth_list_update)

lemma materialize_sel [simp]:
  "mem (materialize s w) = mem w"
  "length (storages (materialize s w)) = length (storages w)"
  "next_version (materialize s w) = next_version w"
  by (simp_all add: materialize_def new_buffer_def Let_def)

lemma materialize_st [simp]:
  assumes "s < length (storages w)"
  shows "r \<noteq> s \<Longrightarrow> storages (materialize s w) ! r = storages w ! r"
    and "st_capacity (storages (materialize s w) ! r) = st_capacity (storages w ! r)"
    and "st_version (storages (materialize s w) ! r) = st_version (storages w ! r)"
    and "st_deferred (storages (materialize s w) ! r) = st_deferred (storages w ! r)"
  using assms by (simp_all add: materialize_nth)

lemma materialize_brk: "brk w \<le> brk (materialize s w)"
  by (simp add: materialize_def new_buffer_def Let_def)

lemma materialize_old_buffer:
  "b < length (buffers w) \<Longrightarrow> buffers (materialize s w) ! b = buffers w ! b"
  by (simp add: materialize_def new_buffer_def Let_def nth_append)

text \<open>What materialising does to the storage's buffer: nothing if it has one, a fresh window
  at the old end of memory if it was deferred.\<close>

lemma materialize_buffer_cases:
  assumes "world_ok w" and "s < length (storages w)"
  shows "(st_materialized (storages w ! s) \<and> materialize s w = w) \<or>
    (\<not> st_materialized (storages w ! s) \<and> st_buffer (storages w ! s) = None \<and>
     (\<exists>b. st_buffer (storages (materialize s w) ! s) = Some b \<and> b = length (buffers w) \<and>
       buffers (materialize s w) ! b =
         \<lparr>b_data = brk w, b_size = st_capacity (storages w ! s), b_read_only = False\<rparr> \<and>
       length (buffers (materialize s w)) = Suc b))"
  using world_ok_storage[OF assms] assms(2)
  by (auto simp: materialize_def new_buffer_def Let_def storage_ok_def)

lemma st_materialized_materialize:
  assumes "world_ok w" and "s < length (storages w)"
  shows "st_materialized (storages (materialize s w) ! s)"
  using world_ok_storage[OF assms] assms(2)
  by (auto simp: materialize_def new_buffer_def Let_def storage_ok_def)

lemma materialize_idem:
  "s < length (storages w) \<Longrightarrow> materialize s (materialize s w) = materialize s w"
  by (auto simp: materialize_def new_buffer_def Let_def)

section \<open>Writing through a tensor\<close>

text \<open>
  What a storage's buffer is after \<open>MakeWritable\<close>: the old one if it could be written, a
  private copy at the old end of memory otherwise.  Bytes below the old end do not change.
\<close>

lemma MakeWritable_world_ok:
  assumes "world_ok w" and "s < length (storages w)"
  shows "world_ok (MakeWritable s w)"
proof -
  let ?w = "materialize s w"
  let ?c = "fst (new_buffer (st_capacity (storages ?w ! s)) ?w)"
  let ?st = "(storages ?w ! s)\<lparr>st_buffer := Some (length (buffers ?w))\<rparr>"
  note ok = world_ok_materialize[OF assms]
  have "storage_ok ?c ?st" if "st_buffer (storages ?w ! s) \<noteq> None"
    using world_ok_storage[OF ok, of s] that assms(2)
    by (auto simp: storage_ok_def new_buffer_def)
  then have "world_ok (MarkMutated s (?c\<lparr>mem := m, storages := (storages (?c\<lparr>mem := m\<rparr>))[s := ?st]\<rparr>))"
    if "st_buffer (storages ?w ! s) \<noteq> None" for m
    using that world_ok_new_buffer[OF ok]
    by (intro world_ok_MarkMutated world_ok_set_storage) auto
  then show ?thesis
    using ok by (auto simp: MakeWritable_def Let_def new_buffer_def split: option.splits)
qed

lemma MakeWritable_effect:
  assumes "world_ok w" and "s < length (storages w)" and "storage_read_only s w"
  obtains b where "st_buffer (storages w ! s) = Some b" and "b < length (buffers w)"
    and "st_buffer (storages (MakeWritable s w) ! s) = Some (length (buffers w))"
    and "buffers (MakeWritable s w) ! length (buffers w) =
           \<lparr>b_data = brk w, b_size = st_capacity (storages w ! s), b_read_only = False\<rparr>"
    and "mem (MakeWritable s w) =
           mem_write (mem w) (brk w) (mem_read (mem w) (b_data (buffers w ! b)) (st_capacity (storages w ! s)))"
    and "\<And>r. r \<noteq> s \<Longrightarrow> storages (MakeWritable s w) ! r = storages w ! r"
    and "st_materialized (storages (MakeWritable s w) ! s)"
    and "length (storages (MakeWritable s w)) = length (storages w)"
    and "st_capacity (storages (MakeWritable s w) ! s) = st_capacity (storages w ! s)"
    and "next_version w < next_version (MakeWritable s w)"
    and "\<And>c. c < length (buffers w) \<Longrightarrow> buffers (MakeWritable s w) ! c = buffers w ! c"
proof -
  from assms(3) obtain b where m: "st_materialized (storages w ! s)"
    and b: "st_buffer (storages w ! s) = Some b" and ro: "b_read_only (buffers w ! b)"
    by (auto simp: storage_read_only_def split: option.splits)
  have w: "materialize s w = w" using m by (simp add: materialize_def Let_def)
  have "b < length (buffers w)"
    using world_ok_storage[OF assms(1,2)] b by (simp add: storage_ok_def)
  then show thesis
    using b ro m w assms(2)
    by (intro that[of b]) (auto simp: MakeWritable_def Let_def new_buffer_def nth_append
        MarkMutated_nth)
qed

text \<open>What \<open>mutable_data\<close> leaves behind, and the window its result points into.\<close>

definition grants ::
  "world \<Rightarrow> world \<Rightarrow> nat \<Rightarrow> nat \<Rightarrow> bool" where
  "grants w w' s b \<longleftrightarrow>
     st_buffer (storages w' ! s) = Some b \<and> \<not> b_read_only (buffers w' ! b) \<and>
     b_size (buffers w' ! b) = st_capacity (storages w ! s) \<and>
     (st_buffer (storages w ! s) = Some b \<and> buffers w' ! b = buffers w ! b \<and> mem w' = mem w \<or>
      b_data (buffers w' ! b) = brk w)"

definition same_outside :: "world \<Rightarrow> world \<Rightarrow> nat \<Rightarrow> bool" where
  "same_outside w w' s \<longleftrightarrow>
     (\<forall>x < brk w. mem w' x = mem w x) \<and>
     (\<forall>r. r \<noteq> s \<longrightarrow> storages w' ! r = storages w ! r) \<and>
     (\<forall>c < length (buffers w). buffers w' ! c = buffers w ! c) \<and>
     length (storages w') = length (storages w) \<and>
     st_capacity (storages w' ! s) = st_capacity (storages w ! s) \<and>
     next_version w \<le> st_version (storages w' ! s)"

lemma mark_writable:
  assumes ok: "world_ok w" "s < length (storages w)" and ro: "\<not> storage_read_only s w"
  defines "w' \<equiv> materialize s (MarkMutated s w)"
  shows "world_ok w'" and "same_outside w w' s"
    and "st_buffer (storages w' ! s) = Some b \<Longrightarrow> grants w w' s b"
proof -
  let ?m = "MarkMutated s w"
  have okm: "world_ok ?m" and sm: "s < length (storages ?m)"
    using world_ok_MarkMutated[OF ok(1)] ok(2) by simp_all
  show "world_ok w'" unfolding w'_def by (rule world_ok_materialize[OF okm sm])
  show "same_outside w w' s"
    using sm unfolding w'_def same_outside_def
    by (simp add: materialize_old_buffer MarkMutated_nth)
  show "grants w w' s b" if b: "st_buffer (storages w' ! s) = Some b"
  proof (cases "st_materialized (storages w ! s)")
    case True
    have w': "w' = ?m"
      using materialize_buffer_cases[OF okm sm] True by (simp add: w'_def)
    then have sb: "st_buffer (storages w ! s) = Some b" using b by simp
    then show ?thesis
      using ro True world_ok_storage[OF ok] w'
      by (simp add: grants_def storage_read_only_def storage_ok_def)
  next
    case False
    then show ?thesis
      using materialize_buffer_cases[OF okm sm] b by (auto simp: grants_def w'_def)
  qed
qed

lemma mark_read_only:
  assumes ok: "world_ok w" "s < length (storages w)" and ro: "storage_read_only s w"
  defines "w' \<equiv> materialize s (MarkMutated s (MakeWritable s w))"
  shows "world_ok w'" and "same_outside w w' s"
    and "st_buffer (storages w' ! s) = Some b \<Longrightarrow> grants w w' s b"
    and "tensor_bytes w' t n = tensor_bytes w t n
           \<or> m_storage t \<noteq> Some s \<or> m_offset t + n > st_capacity (storages w ! s)"
proof -
  let ?c = "MakeWritable s w" let ?m = "MarkMutated s ?c"
  from MakeWritable_effect[OF ok ro] obtain d where
    d: "st_buffer (storages w ! s) = Some d" "d < length (buffers w)"
    and nb: "st_buffer (storages ?c ! s) = Some (length (buffers w))"
    and nv: "buffers ?c ! length (buffers w) =
           \<lparr>b_data = brk w, b_size = st_capacity (storages w ! s), b_read_only = False\<rparr>"
    and nm: "mem ?c =
           mem_write (mem w) (brk w) (mem_read (mem w) (b_data (buffers w ! d)) (st_capacity (storages w ! s)))"
    and oth: "\<And>r. r \<noteq> s \<Longrightarrow> storages ?c ! r = storages w ! r"
    and mat: "st_materialized (storages ?c ! s)" and len: "length (storages ?c) = length (storages w)"
    and cap: "st_capacity (storages ?c ! s) = st_capacity (storages w ! s)"
    and ver: "next_version w < next_version ?c"
    and ob: "\<And>c. c < length (buffers w) \<Longrightarrow> buffers ?c ! c = buffers w ! c" by metis
  have sc: "s < length (storages ?c)" using len ok(2) by simp
  have w': "w' = ?m" using mat by (simp add: w'_def materialize_def Let_def)
  show "world_ok w'"
    unfolding w' by (rule world_ok_MarkMutated[OF MakeWritable_world_ok[OF ok]])
  show "same_outside w w' s"
    using oth ob cap ver len sc by (simp add: w' same_outside_def nm mem_write_other MarkMutated_nth)
  show "grants w w' s b" if "st_buffer (storages w' ! s) = Some b"
    using that nb nv by (simp add: w' grants_def)
  show "tensor_bytes w' t n = tensor_bytes w t n
          \<or> m_storage t \<noteq> Some s \<or> m_offset t + n > st_capacity (storages w ! s)"
    using nb nv d by (cases "m_offset t + n \<le> st_capacity (storages w ! s)")
        (auto simp: tensor_bytes_def w' nm mem_read_copied)
qed

lemma mutable_dataE:
  assumes "mutable_data n t w = Some (w', t', p)" and "world_ok w" and "tensor_ok w t"
  obtains s where "m_storage t = Some s" and "s < length (storages w)"
    and "m_offset t + n \<le> st_capacity (storages w ! s)"
    and "w' = materialize s (MarkMutated s (if storage_read_only s w then MakeWritable s w else w))"
    and "p = map_option (\<lambda>b. b_data (buffers w' ! b) + m_offset t) (st_buffer (storages w' ! s))"
    and "t' = t\<lparr>m_memory_size := n, m_immutable := m_immutable t \<and> \<not> storage_read_only s w\<rparr>"
proof -
  from assms(1) obtain s where s: "m_storage t = Some s"
    and cap: "m_offset t \<le> st_capacity (storages w ! s)" "n \<le> st_capacity (storages w ! s) - m_offset t"
    by (auto simp: mutable_data_def HasCapacity_def storage_size_def split: option.splits if_splits)
  have "s < length (storages w)" using assms(3) s by (simp add: tensor_ok_def)
  moreover have "w' = materialize s (MarkMutated s (if storage_read_only s w then MakeWritable s w else w)) \<and>
    p = map_option (\<lambda>b. b_data (buffers w' ! b) + m_offset t) (st_buffer (storages w' ! s)) \<and>
    t' = t\<lparr>m_memory_size := n, m_immutable := m_immutable t \<and> \<not> storage_read_only s w\<rparr>"
    using assms(1) s
    by (cases t) (auto simp: mutable_data_def EnsureWritable_def MarkStorageMutated_def
        storage_data_def Let_def option.map_comp comp_def split: if_splits option.splits)
  ultimately show thesis using that s cap by auto
qed

lemma mutable_data_facts:
  assumes "mutable_data n t w = Some (w', t', p)" and "world_ok w" and "tensor_ok w t"
  obtains s where "m_storage t = Some s" and "s < length (storages w)"
    and "m_offset t + n \<le> st_capacity (storages w ! s)"
    and "world_ok w'" and "same_outside w w' s" and "m_storage t' = Some s" and "m_offset t' = m_offset t"
    and "\<And>a. p = Some a \<Longrightarrow> \<exists>b. grants w w' s b \<and> a = b_data (buffers w' ! b) + m_offset t"
proof -
  from mutable_dataE[OF assms] obtain s where s: "m_storage t = Some s" "s < length (storages w)"
    "m_offset t + n \<le> st_capacity (storages w ! s)"
    and w': "w' = materialize s (MarkMutated s (if storage_read_only s w then MakeWritable s w else w))"
    and p: "p = map_option (\<lambda>b. b_data (buffers w' ! b) + m_offset t) (st_buffer (storages w' ! s))"
    and t': "t' = t\<lparr>m_memory_size := n, m_immutable := m_immutable t \<and> \<not> storage_read_only s w\<rparr>" by metis
  have "world_ok w'" and "same_outside w w' s"
    and gr: "\<And>b. st_buffer (storages w' ! s) = Some b \<Longrightarrow> grants w w' s b"
    using mark_writable[OF assms(2) s(2)] mark_read_only(1-3)[OF assms(2) s(2)] unfolding w'
    by (cases "storage_read_only s w"; simp)+
  moreover have "\<exists>b. grants w w' s b \<and> a = b_data (buffers w' ! b) + m_offset t" if "p = Some a" for a
    using that p gr by (cases "st_buffer (storages w' ! s)") auto
  ultimately show thesis using s t' by (intro that[of s]) auto
qed

lemma grants_window:
  assumes "grants w w' s b" and "world_ok w'" and "s < length (storages w')" and "n \<le> st_capacity (storages w ! s)"
  shows "b_data (buffers w' ! b) + n \<le> brk w'"
  using assms world_ok_storage[of w' s] world_ok_buffer[of w' b]
  by (auto simp: grants_def storage_ok_def)

text \<open>
  The capacity a tensor made with \<open>Tensor(data_size)\<close> has: a deferred storage is exactly as large
  as asked for, a pool buffer as large as its size class.
\<close>

definition granted_capacity :: "world \<Rightarrow> nat \<Rightarrow> nat option" where
  "granted_capacity w n = (if deferred_scope w then Some n else NormalizeSize n)"

lemma granted_capacity_ge: "granted_capacity w n = Some c \<Longrightarrow> n \<le> c"
  using NormalizeSize_bounds(1)[of n c] by (auto simp: granted_capacity_def split: if_splits)

lemma granted_capacity_total: "n \<le> SIZE_MAX - 4095 \<Longrightarrow> \<exists>c. granted_capacity w n = Some c"
  using NormalizeSize_total[of n] by (auto simp: granted_capacity_def)

lemma Tensor_bytes_facts:
  "Tensor_bytes n w = Some (w', t) \<longleftrightarrow>
     (\<exists>c. granted_capacity w n = Some c \<and>
        t = empty_Tensor\<lparr>m_storage := Some (length (storages w)), m_memory_size := n\<rparr> \<and>
        w' = fst (if deferred_scope w then new_deferred_Storage n w
                  else new_Storage (Some (length (buffers w))) COMMON 0 (fst (new_buffer c w))))"
  by (auto simp: Tensor_bytes_def granted_capacity_def pool_buffer_def new_buffer_def new_Storage_def
      new_deferred_Storage_def Let_def)

lemma Tensor_bytes_size:
  assumes "Tensor_bytes n w = Some (w', t)"
  shows "granted_capacity w n = Some (storage_size (length (storages w)) w')"
  using assms
  by (auto simp: Tensor_bytes_facts granted_capacity_def storage_size_def new_buffer_def new_Storage_def
      new_deferred_Storage_def Let_def)

text \<open>A heap with one buffer of eight bytes and a tensor on its upper half, for the witnesses.\<close>

definition one_buffer_heap :: "bool \<Rightarrow> world" where
  "one_buffer_heap ro =
     \<lparr>mem = (\<lambda>x. 0), brk = 9, buffers = [\<lparr>b_data = 1, b_size = 8, b_read_only = ro\<rparr>],
      storages = [\<lparr>st_buffer = Some 0, st_capacity = 8, st_deferred = False, st_device = COMMON,
                   st_device_index = 0, st_materialized = True, st_version = 1\<rparr>],
      next_version = 2, deferred_scope = False\<rparr>"

definition window_tensor :: Tensor where
  "window_tensor = empty_Tensor\<lparr>m_storage := Some 0, m_offset := 4, m_memory_size := 4\<rparr>"

lemma one_buffer_heap_ok: "world_ok (one_buffer_heap ro)" "tensor_ok (one_buffer_heap ro) window_tensor"
  by (simp_all add: world_ok_def storage_ok_def tensor_ok_def empty_Tensor_def one_buffer_heap_def
      window_tensor_def)

lemmas heap_simps = HasCapacity_def storage_size_def EnsureWritable_def Let_def
  storage_read_only_def MarkStorageMutated_def storage_data_def materialize_def MarkMutated_def
  empty_Tensor_def one_buffer_heap_def window_tensor_def

text \<open>
  Who sees a write.  A tensor on the written storage sees it where its window meets the written
  one; \<open>overlay\<close> is the old bytes with the written ones laid over them, both placed by
  their offsets into the storage.  A tensor on another storage is \<open>apart\<close> from the write
  unless the written storage has a buffer that may be written and whose window meets the
  tensor's: two storages may have been made over the same memory.
\<close>

definition overlay :: "nat \<Rightarrow> u8 list \<Rightarrow> nat \<Rightarrow> u8 list \<Rightarrow> u8 list" where
  "overlay off old at new =
     map (\<lambda>i. if at \<le> off + i \<and> off + i < at + length new then new ! (off + i - at) else old ! i)
       [0..<length old]"

definition window_of :: "world \<Rightarrow> Tensor \<Rightarrow> view option" where
  "window_of w t =
     (case m_storage t of None \<Rightarrow> None
      | Some s \<Rightarrow> map_option (\<lambda>b. (buffers w ! b)\<lparr>b_data := b_data (buffers w ! b) + m_offset t\<rparr>)
                   (st_buffer (storages w ! s)))"

definition apart :: "world \<Rightarrow> Tensor \<Rightarrow> nat \<Rightarrow> Tensor \<Rightarrow> nat \<Rightarrow> bool" where
  "apart w t n u k \<longleftrightarrow>
     (case (window_of w t, window_of w u) of
        (Some x, Some y) \<Rightarrow>
          b_read_only x \<or> b_data x + n \<le> b_data y \<or> b_data y + k \<le> b_data x
      | _ \<Rightarrow> True)"

lemma mem_read_overlay:
  "mem_read (mem_write m (d + at) new) (d + off) k = overlay off (mem_read m (d + off) k) at new"
  by (rule nth_equalityI) (auto simp: overlay_def mem_write_def)

lemma mem_read_write_other:
  "d + k \<le> a \<or> a + length bs \<le> d \<Longrightarrow> mem_read (mem_write m a bs) d k = mem_read m d k"
  by (rule mem_read_cong) (auto simp: mem_write_other)

lemma mutable_data_keeps_bytes:
  assumes "world_ok w" and "tensor_ok w t" and "mutable_data n t w = Some (w', t', p)"
    and "m_storage u = Some r" and "r < length (storages w)" and "st_materialized (storages w ! r)"
    and "m_offset u + k \<le> st_capacity (storages w ! r)"
  shows "tensor_bytes w' u k = tensor_bytes w u k"
proof -
  from mutable_dataE[OF assms(3,1,2)] obtain s where s: "s < length (storages w)"
    and w': "w' = materialize s (MarkMutated s (if storage_read_only s w then MakeWritable s w else w))"
    by metis
  have out: "same_outside w w' s"
    using mark_writable(2)[OF assms(1) s] mark_read_only(2)[OF assms(1) s] unfolding w' by simp
  show ?thesis
  proof (cases "r = s")
    case False
    have "b_data (buffers w ! b) + b_size (buffers w ! b) \<le> brk w \<and> b < length (buffers w) \<and>
        b_size (buffers w ! b) = st_capacity (storages w ! r)"
      if "st_buffer (storages w ! r) = Some b" for b
      using that world_ok_storage[OF assms(1,5)] world_ok_buffer[OF assms(1), of b]
      by (simp add: storage_ok_def)
    then show ?thesis
      using False out assms(4,7)
      by (cases "st_buffer (storages w ! r)")
        (auto simp: tensor_bytes_def same_outside_def intro!: mem_read_cong)
  next
    case True
    show ?thesis
    proof (cases "storage_read_only s w")
      case ro: True
      show ?thesis
        using mark_read_only(4)[OF assms(1) s ro, of u k] True ro assms(4,7) unfolding w' by simp
    next
      case ro: False
      have "materialize s (MarkMutated s w) = MarkMutated s w"
        using assms(6) True by (simp add: materialize_def Let_def)
      then show ?thesis using True ro assms(4) unfolding w' by (simp add: tensor_bytes_def)
    qed
  qed
qed

lemma write_elsewhere:
  assumes ok: "world_ok w" and gr: "grants w w' s b" and out: "same_outside w w' s" and "length bs \<le> n"
    and u: "m_storage u = Some r" "r \<noteq> s" "r < length (storages w)" "m_offset u + k \<le> st_capacity (storages w ! r)"
    and t: "m_storage t = Some s" and ap: "apart w t n u k"
  shows "tensor_bytes (w'\<lparr>mem := mem_write (mem w') (b_data (buffers w' ! b) + m_offset t) bs\<rparr>) u k =
    tensor_bytes w' u k"
proof (cases "st_buffer (storages w ! r)")
  case None
  then show ?thesis using out u by (simp add: tensor_bytes_def same_outside_def)
next
  case (Some c)
  note st = world_ok_storage[OF ok u(3)]
  have c: "c < length (buffers w)" "b_size (buffers w ! c) = st_capacity (storages w ! r)"
    using st Some by (simp_all add: storage_ok_def)
  have top: "b_data (buffers w ! c) + m_offset u + k \<le> brk w"
    using world_ok_buffer[OF ok c(1)] c(2) u(4) by simp
  have same: "st_buffer (storages w' ! r) = Some c" "buffers w' ! c = buffers w ! c"
    using out u(2) Some c(1) by (simp_all add: same_outside_def)
  have "b_data (buffers w ! c) + m_offset u + k \<le> b_data (buffers w' ! b) + m_offset t \<or>
      b_data (buffers w' ! b) + m_offset t + length bs \<le> b_data (buffers w ! c) + m_offset u"
  proof (cases "b_data (buffers w' ! b) = brk w")
    case True
    then show ?thesis using top by simp
  next
    case False
    then have "st_buffer (storages w ! s) = Some b" "buffers w' ! b = buffers w ! b"
      "\<not> b_read_only (buffers w ! b)" using gr by (auto simp: grants_def)
    then show ?thesis using ap u(1) t Some assms(4) by (auto simp: apart_def window_of_def)
  qed
  then show ?thesis using same u(1) by (simp add: tensor_bytes_def mem_read_write_other)
qed

text \<open>Three tensors on two storages over one mapped file of eight bytes, for the witness.\<close>

definition mapped_heap :: world where
  "mapped_heap = (one_buffer_heap True)\<lparr>storages := storages (one_buffer_heap True) @ storages (one_buffer_heap True)\<rparr>"

lemma mapped_heap_ok: "world_ok mapped_heap" "tensor_ok mapped_heap window_tensor"
  by (simp_all add: world_ok_def storage_ok_def tensor_ok_def empty_Tensor_def one_buffer_heap_def
      window_tensor_def mapped_heap_def)

text \<open>
  C3: Copy on write isolates.  A caller asks a tensor for a mutable pointer and writes at most
  the bytes it asked for through it.  What every other tensor then shows is determined: a tensor
  on the same storage shows its old bytes with the written ones laid over them where the two
  windows meet; a tensor on another storage shows its old bytes, provided its window does not
  meet the written one in memory that could already be written (two storages may have been made
  over the same writable buffer).  If the written tensor was on a read-only buffer, such as a
  mapped model file, that proviso is void, and no byte of existing memory changes.
\<close>

theorem mutable_data_isolation:
  assumes "world_ok w" and "tensor_ok w t" and "mutable_data n t w = Some (w', t', Some a)"
    and "length bs \<le> n" and "m_storage u = Some r" and "r < length (storages w)"
    and "st_materialized (storages w ! r)" and "m_offset u + k \<le> st_capacity (storages w ! r)"
    and "m_storage u \<noteq> m_storage t \<Longrightarrow> apart w t n u k"
  shows "tensor_bytes (w'\<lparr>mem := mem_write (mem w') a bs\<rparr>) u k =
           map_option (\<lambda>old. if m_storage u = m_storage t then overlay (m_offset u) old (m_offset t) bs else old)
             (tensor_bytes w u k) \<and>
         (storage_read_only (the (m_storage t)) w \<longrightarrow> (\<forall>x < brk w. mem_write (mem w') a bs x = mem w x))"
proof -
  from mutable_data_facts[OF assms(3,1,2)] obtain s b where
    s: "m_storage t = Some s" "s < length (storages w)" and out: "same_outside w w' s"
    and gr: "grants w w' s b" and a: "a = b_data (buffers w' ! b) + m_offset t" by metis
  have old: "tensor_bytes w' u k = tensor_bytes w u k"
    by (rule mutable_data_keeps_bytes[OF assms(1-3,5-8)])
  have "tensor_bytes (w'\<lparr>mem := mem_write (mem w') a bs\<rparr>) u k =
      map_option (\<lambda>old. if m_storage u = m_storage t then overlay (m_offset u) old (m_offset t) bs else old)
        (tensor_bytes w' u k)"
  proof (cases "r = s")
    case True
    have "st_buffer (storages w' ! s) = Some b" using gr by (simp add: grants_def)
    then show ?thesis using True assms(5) s(1) by (simp add: a tensor_bytes_def mem_read_overlay)
  next
    case False
    then show ?thesis
      using write_elsewhere[OF assms(1) gr out assms(4,5) False assms(6,8) s(1)] assms(5,9) s(1)
      by (simp add: a option.map_ident)
  qed
  moreover have "mem_write (mem w') a bs x = mem w x" if ro: "storage_read_only s w" and x: "x < brk w" for x
  proof -
    have "b_data (buffers w' ! b) = brk w"
      using ro gr by (auto simp: grants_def storage_read_only_def split: option.splits)
    then show ?thesis using out x by (simp add: a mem_write_other same_outside_def)
  qed
  ultimately show ?thesis using old s(1) by simp
qed

lemma mutable_data_isolation_witness:
  "\<exists>w' t'. mutable_data 4 window_tensor mapped_heap = Some (w', t', Some 13) \<and>
     tensor_bytes (w'\<lparr>mem := mem_write (mem w') 13 [7]\<rparr>) (window_tensor\<lparr>m_offset := 2\<rparr>) 4 = Some [0, 0, 7, 0] \<and>
     tensor_bytes (w'\<lparr>mem := mem_write (mem w') 13 [7]\<rparr>) (window_tensor\<lparr>m_storage := Some 1\<rparr>) 4 = Some [0, 0, 0, 0]"
proof -
  obtain w' t' where run: "mutable_data 4 window_tensor mapped_heap = Some (w', t', Some 13)"
    by (simp add: mutable_data_def MakeWritable_def new_buffer_def mapped_heap_def heap_simps)
  have old: "tensor_bytes mapped_heap (window_tensor\<lparr>m_offset := 2\<rparr>) 4 = Some [0, 0, 0, 0]"
    "tensor_bytes mapped_heap (window_tensor\<lparr>m_storage := Some 1\<rparr>) 4 = Some [0, 0, 0, 0]"
    by (simp_all add: tensor_bytes_def mem_read_def mapped_heap_def heap_simps upt_rec)
  have ap: "apart mapped_heap window_tensor 4 (window_tensor\<lparr>m_storage := Some 1\<rparr>) 4"
    by (simp add: apart_def window_of_def mapped_heap_def heap_simps)
  have "tensor_bytes (w'\<lparr>mem := mem_write (mem w') 13 [7]\<rparr>) (window_tensor\<lparr>m_offset := 2\<rparr>) 4 = Some [0, 0, 7, 0]"
    using mutable_data_isolation[OF mapped_heap_ok run, of "[7]" "window_tensor\<lparr>m_offset := 2\<rparr>" 0 4] old(1)
    by (simp add: mapped_heap_def heap_simps overlay_def upt_rec)
  moreover have "tensor_bytes (w'\<lparr>mem := mem_write (mem w') 13 [7]\<rparr>) (window_tensor\<lparr>m_storage := Some 1\<rparr>) 4 = Some [0, 0, 0, 0]"
    using mutable_data_isolation[OF mapped_heap_ok run, of "[7]" "window_tensor\<lparr>m_storage := Some 1\<rparr>" 1 4] old(2) ap
    by (simp add: mapped_heap_def heap_simps)
  ultimately show ?thesis using run by blast
qed

text \<open>
  Asking for a mutable pointer is invisible to every tensor until something is written: any
  tensor whose storage has memory, sharing the storage or not, shows the same bytes before and
  after, although a read-only buffer may have been replaced by a private copy meanwhile.
\<close>

theorem mutable_data_preserves_views:
  assumes "world_ok w" and "tensor_ok w t" and "mutable_data n t w = Some (w', t', p)"
    and "m_storage u = Some r" and "r < length (storages w)" and "st_materialized (storages w ! r)"
    and "m_offset u + k \<le> st_capacity (storages w ! r)"
  shows "tensor_bytes w' u k = tensor_bytes w u k"
  using assms by (rule mutable_data_keeps_bytes)

lemma mutable_data_preserves_views_witness:
  "\<exists>w' t'. mutable_data 4 window_tensor (one_buffer_heap True) = Some (w', t', Some 13) \<and>
     tensor_bytes w' window_tensor 4 = tensor_bytes (one_buffer_heap True) window_tensor 4"
proof -
  obtain w' t' where run: "mutable_data 4 window_tensor (one_buffer_heap True) = Some (w', t', Some 13)"
    by (simp add: mutable_data_def MakeWritable_def new_buffer_def heap_simps)
  have "tensor_bytes w' window_tensor 4 = tensor_bytes (one_buffer_heap True) window_tensor 4"
    by (rule mutable_data_preserves_views[OF one_buffer_heap_ok run, of window_tensor 0 4])
      (simp_all add: heap_simps)
  with run show ?thesis by blast
qed

text \<open>
  The mutation version tells who was written.  After a mutable pointer was handed out the
  version of a tensor differs from what it was exactly when the tensor views the written
  storage, and it is then larger than every version seen before.
\<close>

theorem mutable_data_version:
  assumes "world_ok w" and "tensor_ok w t" and "mutable_data n t w = Some (w', t', p)"
    and "m_storage u = Some r" and "r < length (storages w)"
  shows "(mutation_version w' u \<noteq> mutation_version w u) = (m_storage u = m_storage t) \<and>
         (m_storage u = m_storage t \<longrightarrow>
            (\<forall>v. tensor_ok w v \<and> m_storage v \<noteq> None \<longrightarrow> mutation_version w v < mutation_version w' u))"
proof -
  from mutable_data_facts[OF assms(3,1,2)] obtain s where
    s: "m_storage t = Some s" and out: "same_outside w w' s" by metis
  have lt: "st_version (storages w ! q) < st_version (storages w' ! s)" if "q < length (storages w)" for q
    using out world_ok_storage[OF assms(1) that] by (simp add: same_outside_def storage_ok_def)
  show ?thesis
  proof (cases "r = s")
    case True
    then have "st_version (storages w' ! s) \<noteq> st_version (storages w ! s)" using lt assms(5) by force
    then show ?thesis using lt s assms(4,5) True by (auto simp: mutation_version_def tensor_ok_def)
  next
    case False
    then show ?thesis using out s assms(4) by (simp add: mutation_version_def same_outside_def)
  qed
qed

lemma mutable_data_version_witness:
  "\<exists>w' t'. mutable_data 4 window_tensor (one_buffer_heap True) = Some (w', t', Some 13) \<and>
     mutation_version w' window_tensor \<noteq> mutation_version (one_buffer_heap True) window_tensor"
proof -
  obtain w' t' where run: "mutable_data 4 window_tensor (one_buffer_heap True) = Some (w', t', Some 13)"
    by (simp add: mutable_data_def MakeWritable_def new_buffer_def heap_simps)
  have "mutation_version w' window_tensor \<noteq> mutation_version (one_buffer_heap True) window_tensor"
    using mutable_data_version[OF one_buffer_heap_ok run, of window_tensor 0] by (simp add: heap_simps)
  with run show ?thesis by blast
qed

lemma world_ok_new_Storage:
  assumes "world_ok w" and "b < length (buffers w)"
  shows "world_ok (fst (new_Storage (Some b) d i w))"
  using assms unfolding new_Storage_def Let_def fst_conv
  by (intro world_ok_MarkMutated world_ok_add_storage) (auto simp: storage_ok_def world_ok_def)

lemma Assign_facts:
  assumes "Assign dt eb data shape t w = Some (w', t')" and "world_ok w" and "tensor_ok w t"
  obtains w1 t2 w2 p where "world_ok w1" and "tensor_ok w1 t2" and "m_dims t2 = shape"
    and "mutable_data (length data) (t2\<lparr>m_data_type := dt\<rparr>) w1 = Some (w2, t', p)"
    and "w' = (case p of None \<Rightarrow> w2 | Some a \<Rightarrow> w2\<lparr>mem := mem_write (mem w2) a data\<rparr>)"
proof -
  from assms(1) obtain n w1 t2 where n: "CheckedElementCount shape = Some n" "length data = n * eb"
    and reset: "(if \<not> HasCapacity w (t\<lparr>m_dims := shape\<rparr>) (length data)
        then (let (w', b) = new_buffer (length data) w in ResetBuffer b (length data) 0 (t\<lparr>m_dims := shape\<rparr>) w')
        else Some (w, t\<lparr>m_dims := shape\<rparr>)) = Some (w1, t2)"
    by (auto simp: Assign_def Let_def split: option.splits if_splits)
  have "Assign dt eb data shape t w =
      (case mutable_data_typed dt eb t2 w1 of None \<Rightarrow> None
       | Some (w2, t3, p) \<Rightarrow>
           (case p of None \<Rightarrow> Some (w2, t3)
            | Some a \<Rightarrow> Some (w2\<lparr>mem := mem_write (mem w2) a data\<rparr>, t3)))"
    unfolding Assign_def Let_def n(1) option.case reset[unfolded Let_def] using n(2) by simp
  with assms(1) obtain w2 p where
    md: "mutable_data_typed dt eb t2 w1 = Some (w2, t', p)"
    and w': "w' = (case p of None \<Rightarrow> w2 | Some a \<Rightarrow> w2\<lparr>mem := mem_write (mem w2) a data\<rparr>)"
    by (auto split: option.splits)
  from reset have "(w1, t2) = (w, t\<lparr>m_dims := shape\<rparr>) \<or>
      (w1 = fst (new_Storage (Some (length (buffers w))) COMMON 0 (fst (new_buffer (length data) w))) \<and>
       t2 = t\<lparr>m_dims := shape, m_storage := Some (length (storages w)), m_memory_size := length data,
              m_offset := 0\<rparr>)"
    by (auto simp: ResetBuffer_def ResetStorage_def new_buffer_def new_Storage_def Let_def
        split: if_splits)
  then have shape: "m_dims t2 = shape" and ok: "world_ok w1" "tensor_ok w1 t2"
    using world_ok_new_Storage[OF world_ok_new_buffer[OF assms(2)], of "length (buffers w)" "length data" COMMON 0]
      assms(2,3)
    by (auto simp: tensor_ok_def new_buffer_def new_Storage_def Let_def)
  from md n shape have "mutable_data (length data) (t2\<lparr>m_data_type := dt\<rparr>) w1 = Some (w2, t', p)"
    by (auto simp: mutable_data_typed_def CheckedByteCount_spec Let_def split: option.splits if_splits)
  then show thesis using that ok shape w' by blast
qed

lemma storage_has_buffer:
  assumes "world_ok w" and "s < length (storages w)" and "st_materialized (storages w ! s)"
    and "0 < st_capacity (storages w ! s)"
  shows "st_buffer (storages w ! s) \<noteq> None"
  using world_ok_storage[OF assms(1,2)] assms(3,4) by (auto simp: storage_ok_def)

text \<open>
  \<open>Assign\<close> is a round trip, and it is seen through every alias.  After values are assigned
  the tensor has the given shape and element type and reads back exactly the values, and so does
  every tensor that views the same storage at the same offset; the heap stays well formed.
\<close>

theorem Assign_round_trip:
  assumes "world_ok w" and "tensor_ok w t" and "Assign dt eb data shape t w = Some (w', t')"
    and "data \<noteq> []"
  shows "world_ok w' \<and> m_dims t' = shape \<and> m_data_type t' = dt \<and> m_memory_size t' = length data \<and>
         (\<forall>u. m_storage u = m_storage t' \<and> m_offset u = m_offset t' \<longrightarrow>
            tensor_bytes w' u (length data) = Some data)"
proof -
  from Assign_facts[OF assms(3,1,2)] obtain w1 t2 w2 p where ok: "world_ok w1" "tensor_ok w1 t2"
    and sh: "m_dims t2 = shape"
    and md: "mutable_data (length data) (t2\<lparr>m_data_type := dt\<rparr>) w1 = Some (w2, t', p)"
    and w': "w' = (case p of None \<Rightarrow> w2 | Some a \<Rightarrow> w2\<lparr>mem := mem_write (mem w2) a data\<rparr>)" by metis
  have ok': "tensor_ok w1 (t2\<lparr>m_data_type := dt\<rparr>)" using ok(2) by (simp add: tensor_ok_def)
  from mutable_dataE[OF md ok(1) ok'] obtain s where s: "m_storage t2 = Some s" "s < length (storages w1)"
    and cap: "m_offset t2 + length data \<le> st_capacity (storages w1 ! s)"
    and w2: "w2 = materialize s (MarkMutated s (if storage_read_only s w1 then MakeWritable s w1 else w1))"
    and p: "p = map_option (\<lambda>b. b_data (buffers w2 ! b) + m_offset t2) (st_buffer (storages w2 ! s))"
    and t': "t' = t2\<lparr>m_data_type := dt, m_memory_size := length data,
               m_immutable := m_immutable t2 \<and> \<not> storage_read_only s w1\<rparr>" by (auto simp: Let_def)
  from mutable_data_facts[OF md ok(1) ok'] s have ok2: "world_ok w2" and out: "same_outside w1 w2 s"
    by auto
  have len: "s < length (storages w2)" using out s(2) by (simp add: same_outside_def)
  have mat: "st_materialized (storages w2 ! s)"
    unfolding w2 by (rule st_materialized_materialize)
      (use ok(1) s(2) world_ok_MarkMutated MakeWritable_world_ok len in \<open>auto simp: w2\<close>)
  have "0 < st_capacity (storages w2 ! s)"
    using out cap assms(4) by (cases data) (simp_all add: same_outside_def)
  from storage_has_buffer[OF ok2 len mat this] obtain b where b: "st_buffer (storages w2 ! s) = Some b"
    by blast
  have w'': "w' = w2\<lparr>mem := mem_write (mem w2) (b_data (buffers w2 ! b) + m_offset t2) data\<rparr>"
    using w' p b by simp
  show ?thesis using sh t' s b ok2 by (auto simp: w'' tensor_bytes_def mem_read_write_same)
qed

lemma Assign_round_trip_witness:
  "\<exists>w' t'. Assign INT8 1 [1, 2, 3] [3] empty_Tensor (one_buffer_heap False) = Some (w', t') \<and>
     tensor_bytes w' t' 3 = Some [1, 2, 3]"
proof -
  have "case Assign INT8 1 [1, 2, 3] [3] empty_Tensor (one_buffer_heap False) of
      None \<Rightarrow> False | Some (w', t') \<Rightarrow> True"
    by (simp add: Assign_def CheckedElementCount_def CheckedByteCount_def mul64_def SIZE_MAX_def INT64_MAX_def
        ResetBuffer_def ResetStorage_def new_buffer_def new_Storage_def mutable_data_typed_def
        mutable_data_def heap_simps)
  then obtain w' t' where run:
    "Assign INT8 1 [1, 2, 3] [3] empty_Tensor (one_buffer_heap False) = Some (w', t')"
    by (auto split: option.splits)
  have "tensor_ok (one_buffer_heap False) empty_Tensor" by (simp add: tensor_ok_def empty_Tensor_def)
  from Assign_round_trip[OF one_buffer_heap_ok(1) this run] run show ?thesis
    by (auto simp: eval_nat_numeral)
qed

definition positive_or_one :: "f32 \<Rightarrow> f32" where
  "positive_or_one x = (if \<not> f32_positive x \<or> \<not> f32_is_finite x then f32_one else x)"

lemma positive_or_one_facts:
  "f32_positive (positive_or_one x)" "f32_is_finite (positive_or_one x)"
  "positive_or_one (positive_or_one x) = positive_or_one x"
  by (auto simp: positive_or_one_def)

lemma set_quantization_form:
  "set_quantization q t = t\<lparr>m_quantization := q
     \<lparr>q_scale := positive_or_one (if q_scales q = [] then q_scale q else hd (q_scales q)),
      q_scales := positive_or_one (if q_scales q = [] then q_scale q else hd (q_scales q)) # tl (q_scales q),
      q_zero_point := (if q_zero_points q = [] then q_zero_point q else hd (q_zero_points q)),
      q_zero_points := (if q_zero_points q = [] then q_zero_point q else hd (q_zero_points q))
        # tl (q_zero_points q)\<rparr>\<rparr>"
  by (cases q; cases "q_scales q"; cases "q_zero_points q")
    (simp_all add: set_quantization_def positive_or_one_def Let_def)

text \<open>
  Quantization parameters stored in a tensor are in normal form, whatever was passed: the
  scale is a positive finite number and is the head of the scale vector, the zero point is the
  head of its vector; normalising again changes nothing.
\<close>

theorem set_quantization_normal:
  "let q' = m_quantization (set_quantization q t) in
     f32_positive (q_scale q') \<and> f32_is_finite (q_scale q') \<and>
     q_scales q' \<noteq> [] \<and> hd (q_scales q') = q_scale q' \<and>
     q_zero_points q' \<noteq> [] \<and> hd (q_zero_points q') = q_zero_point q' \<and>
     tl (q_scales q') = tl (q_scales q) \<and> set_quantization q' t = set_quantization q t"
  by (simp add: set_quantization_form Let_def positive_or_one_facts)

end
