(* ===== verification/Op_Semantics.thy ===== *)
theory Op_Semantics
  imports Tensor_Storage
begin

text \<open>
  Operator effects: \<open>include/core/operator_semantics.h\<close> and \<open>src/core/operator_semantics.cc\<close>,
  with \<open>TensorRangesOverlap\<close> of \<open>src/core/execution_plan.cc\<close>.  An operator declares which
  inputs decide shapes, which it writes in place, which must come from outside or have a single
  consumer; the two validators check those declarations against a graph and its tensors.
  Tensors are indices into a heap of \<open>Tensor\<close> records; addresses are those of the flat memory.
  The validators return a status; inside they are loops with early return.
\<close>

section \<open>Checks\<close>

definition checkR :: "bool \<Rightarrow> status \<Rightarrow> status + unit" where
  "checkR bad e = (if bad then Inl e else Inr ())"

definition forR :: "('a \<Rightarrow> 'e + unit) \<Rightarrow> 'a list \<Rightarrow> 'e + unit" where
  "forR f xs = foldR (\<lambda>x _. f x) xs ()"

definition thenR :: "'e + unit \<Rightarrow> 'e + unit \<Rightarrow> 'e + unit" where
  "thenR a b = bindR a (\<lambda>_. b)"

definition as_status :: "status + unit \<Rightarrow> status" where
  "as_status r = (case r of Inl e \<Rightarrow> e | Inr _ \<Rightarrow> Ok)"

lemma checkR_ok [simp]: "checkR bad e = Inr () \<longleftrightarrow> \<not> bad"
  by (simp add: checkR_def)

lemma forR_ok [simp]: "forR f xs = Inr () \<longleftrightarrow> (\<forall>x \<in> set xs. f x = Inr ())"
  unfolding forR_def by (induction xs) (auto split: sum.splits)

lemma thenR_ok [simp]: "thenR a b = Inr () \<longleftrightarrow> a = Inr () \<and> b = Inr ()"
  by (cases a) (auto simp: thenR_def)

lemma checkR_error: "checkR bad e = Inl e' \<longleftrightarrow> bad \<and> e' = e"
  by (auto simp: checkR_def)

lemma forR_error: "forR f xs = Inl e \<Longrightarrow> \<exists>x \<in> set xs. f x = Inl e"
  unfolding forR_def by (induction xs) (auto split: sum.splits)

lemma thenR_error: "thenR a b = Inl e \<Longrightarrow> a = Inl e \<or> b = Inl e"
  by (cases a) (auto simp: thenR_def)

section \<open>Declared semantics\<close>

record OutputAlias =
  oa_output :: nat
  oa_input :: nat
  oa_whole_tensor :: bool

record OperatorSemantics =
  shape_value_inputs :: "nat list"
  build_time_evaluable :: bool
  descriptor_only_evaluation :: bool
  mutable_inputs :: "nat list"
  external_inputs :: "nat list"
  exclusive_inputs :: "nat list"
  aliases :: "OutputAlias list"
  bounded_outputs :: "nat list"
  terminal_outputs :: bool
  serial_execution :: bool
  input_count :: "nat option"
  validate_runtime :: "(world \<Rightarrow> Tensor option list \<Rightarrow> status) option"

definition default_semantics :: OperatorSemantics where
  "default_semantics = \<lparr>shape_value_inputs = [], build_time_evaluable = False,
     descriptor_only_evaluation = False, mutable_inputs = [], external_inputs = [],
     exclusive_inputs = [], aliases = [], bounded_outputs = [], terminal_outputs = False,
     serial_execution = False, input_count = None, validate_runtime = None\<rparr>"

type_synonym semantics_registry = "string \<rightharpoonup> OperatorSemantics"

text \<open>\<open>result[type]\<close> creates the entry it updates.\<close>

definition upd_semantics ::
  "(OperatorSemantics \<Rightarrow> OperatorSemantics) \<Rightarrow> string \<Rightarrow> semantics_registry \<Rightarrow> semantics_registry" where
  "upd_semantics f type r =
     r(type \<mapsto> f (case r type of None \<Rightarrow> default_semantics | Some s \<Rightarrow> s))"

definition Builtins :: semantics_registry where
  "Builtins =
     (let r1 = fold (upd_semantics (\<lambda>s. s\<lparr>shape_value_inputs := [1]\<rparr>))
                 [''Reshape'', ''Expand'', ''Unsqueeze'', ''Squeeze'', ''Split'', ''ReduceMax'', ''TopK''] Map.empty;
          r2 = upd_semantics (\<lambda>s. s\<lparr>shape_value_inputs := [1, 2, 3, 4]\<rparr>) ''Slice'' r1;
          r3 = upd_semantics (\<lambda>s. s\<lparr>shape_value_inputs := [2, 3]\<rparr>) ''Resize'' r2;
          r4 = upd_semantics (\<lambda>s. s\<lparr>shape_value_inputs := [0]\<rparr>) ''ConstantOfShape'' r3;
          r5 = fold (upd_semantics (\<lambda>s. s\<lparr>build_time_evaluable := True\<rparr>))
                 [''Shape'', ''Unsqueeze'', ''Squeeze'', ''Concat'', ''Cast'', ''ConstantOfShape'', ''Slice'',
                  ''Mul'', ''Equal'', ''Where''] r4;
          r6 = upd_semantics (\<lambda>s. s\<lparr>descriptor_only_evaluation := True\<rparr>) ''Shape'' r5;
          r7 = upd_semantics (\<lambda>s. s\<lparr>aliases := [\<lparr>oa_output = 0, oa_input = 0, oa_whole_tensor = True\<rparr>]\<rparr>)
                 ''Identity'' r6;
          r8 = fold (upd_semantics (\<lambda>s. s\<lparr>aliases := [\<lparr>oa_output = 0, oa_input = 0, oa_whole_tensor = False\<rparr>]\<rparr>))
                 [''Reshape'', ''Flatten'', ''Squeeze'', ''Unsqueeze'', ''Slice''] r7;
          r9 = upd_semantics (\<lambda>s. s\<lparr>bounded_outputs := [0]\<rparr>) ''NonMaxSuppression'' r8
      in upd_semantics (\<lambda>s. s\<lparr>terminal_outputs := True\<rparr>) ''NonMaxSuppression'' r9)"

definition GetOperatorSemantics :: "semantics_registry \<Rightarrow> string \<Rightarrow> OperatorSemantics" where
  "GetOperatorSemantics entries type =
     (case entries type of None \<Rightarrow> default_semantics | Some s \<Rightarrow> s)"

definition RegisterOperatorSemantics ::
  "string \<Rightarrow> OperatorSemantics \<Rightarrow> semantics_registry \<Rightarrow> semantics_registry" where
  "RegisterOperatorSemantics type s entries = entries(type \<mapsto> s)"

record OperatorEffectNode =
  en_name :: string
  en_inputs :: "string list"
  en_outputs :: "string list"
  en_semantics :: OperatorSemantics

definition alias_matches :: "string list \<Rightarrow> string list \<Rightarrow> string \<Rightarrow> OutputAlias \<Rightarrow> bool" where
  "alias_matches inputs outputs output al \<longleftrightarrow> oa_whole_tensor al \<and> oa_input al < length inputs \<and>
     oa_output al < length outputs \<and> outputs ! oa_output al = output"

definition WholeTensorAliasSource ::
  "OperatorSemantics \<Rightarrow> string list \<Rightarrow> string list \<Rightarrow> string \<Rightarrow> string" where
  "WholeTensorAliasSource s inputs outputs output =
     (case filter (alias_matches inputs outputs output) (aliases s) of
        [] \<Rightarrow> [] | al # _ \<Rightarrow> inputs ! oa_input al)"

section \<open>Overlap\<close>

definition tensor_byte_count :: "Tensor \<Rightarrow> nat option" where
  "tensor_byte_count t = CheckedTensorBytes (m_dims t) (m_data_type t)"

definition distance_within :: "nat \<Rightarrow> nat \<Rightarrow> nat \<Rightarrow> nat \<Rightarrow> bool" where
  "distance_within a ab b bb \<longleftrightarrow> (if a \<le> b then b - a < ab else a - b < bb)"

definition storage_materialized :: "world \<Rightarrow> Tensor \<Rightarrow> bool" where
  "storage_materialized w t \<longleftrightarrow>
     (case m_storage t of None \<Rightarrow> False | Some s \<Rightarrow> st_materialized (storages w ! s))"

text \<open>The integer value of \<open>raw_data()\<close>, for a storage that has its memory (or a null buffer).\<close>

definition raw_address :: "world \<Rightarrow> Tensor \<Rightarrow> nat" where
  "raw_address w t =
     (case m_storage t of None \<Rightarrow> m_offset t
      | Some s \<Rightarrow> (case st_buffer (storages w ! s) of None \<Rightarrow> 0 | Some b \<Rightarrow> b_data (buffers w ! b)) + m_offset t)"

type_synonym tensor_map = "string \<rightharpoonup> nat"

definition Overlaps :: "world \<Rightarrow> Tensor list \<Rightarrow> nat \<Rightarrow> nat \<Rightarrow> bool" where
  "Overlaps w heap a b \<longleftrightarrow>
     (if a = b then True
      else case (tensor_byte_count (heap ! a), tensor_byte_count (heap ! b)) of
        (Some ab, Some bb) \<Rightarrow>
          if ab = 0 \<or> bb = 0 then False
          else if m_storage (heap ! a) \<noteq> None \<and> m_storage (heap ! a) = m_storage (heap ! b)
          then distance_within (m_offset (heap ! a)) ab (m_offset (heap ! b)) bb
          else if \<not> storage_materialized w (heap ! a) \<or> \<not> storage_materialized w (heap ! b) then False
          else distance_within (raw_address w (heap ! a)) ab (raw_address w (heap ! b)) bb
      | _ \<Rightarrow> True)"

definition TensorRangesOverlap :: "world \<Rightarrow> Tensor list \<Rightarrow> nat \<Rightarrow> nat \<Rightarrow> bool" where
  "TensorRangesOverlap w heap a b \<longleftrightarrow>
     (if a = b then True
      else case (tensor_byte_count (heap ! a), tensor_byte_count (heap ! b)) of
        (Some ab, Some bb) \<Rightarrow>
          if ab = 0 \<or> bb = 0 then False
          else if m_storage (heap ! a) \<noteq> None \<and> m_storage (heap ! a) = m_storage (heap ! b)
          then distance_within (m_offset (heap ! a)) ab (m_offset (heap ! b)) bb
          else if \<not> storage_materialized w (heap ! a) \<or> \<not> storage_materialized w (heap ! b) \<or>
                  \<not> IsInitialized w (heap ! a) \<or> \<not> IsInitialized w (heap ! b) then False
          else distance_within (raw_address w (heap ! a)) ab (raw_address w (heap ! b)) bb
      | _ \<Rightarrow> True)"

section \<open>The validators\<close>

definition bindings_error :: "string \<Rightarrow> status" where
  "bindings_error m = Error kInvalidArgument m"

definition effects_error :: "string \<Rightarrow> status" where
  "effects_error m = Error kBuildFailed m"

definition overlaps_value ::
  "world \<Rightarrow> Tensor list \<Rightarrow> tensor_map \<Rightarrow> nat \<Rightarrow> string \<Rightarrow> bool" where
  "overlaps_value w heap tensors written name =
     (case tensors name of None \<Rightarrow> False | Some other \<Rightarrow> Overlaps w heap written other)"

definition check_mutable_slot ::
  "world \<Rightarrow> Tensor list \<Rightarrow> tensor_map \<Rightarrow> string list option \<Rightarrow> OperatorEffectNode \<Rightarrow> nat \<Rightarrow> status + unit" where
  "check_mutable_slot w heap tensors graph_inputs node slot =
     (if slot \<ge> length (en_inputs node)
      then Inl (bindings_error (''missing mutable input: '' @ en_name node))
      else case tensors (en_inputs node ! slot) of
        None \<Rightarrow> Inl (bindings_error (''state must be mutable: '' @ en_inputs node ! slot))
      | Some written \<Rightarrow>
          if m_immutable (heap ! written)
          then Inl (bindings_error (''state must be mutable: '' @ en_inputs node ! slot))
          else thenR
            (forR (\<lambda>i. checkR (i \<noteq> slot \<and> overlaps_value w heap tensors written (en_inputs node ! i))
                         (bindings_error (''mutable input aliases another input: '' @ en_name node)))
               [0..<length (en_inputs node)])
            (case graph_inputs of None \<Rightarrow> Inr ()
             | Some ins \<Rightarrow>
                 forR (\<lambda>input. checkR (input \<noteq> en_inputs node ! slot \<and> overlaps_value w heap tensors written input)
                                 (bindings_error (''mutable input aliases graph input: '' @ en_name node)))
                   ins))"

definition ValidateOperatorBindings ::
  "world \<Rightarrow> Tensor list \<Rightarrow> OperatorEffectNode list \<Rightarrow> tensor_map \<Rightarrow> string list option \<Rightarrow> status" where
  "ValidateOperatorBindings w heap nodes tensors graph_inputs =
     as_status (forR (\<lambda>node. forR (check_mutable_slot w heap tensors graph_inputs node)
                                (mutable_inputs (en_semantics node))) nodes)"

definition check_external_slot ::
  "OperatorEffectNode list \<Rightarrow> string list option \<Rightarrow> OperatorEffectNode \<Rightarrow> nat \<Rightarrow> status + unit" where
  "check_external_slot nodes graph_inputs node slot =
     (if slot \<ge> length (en_inputs node) \<or> en_inputs node ! slot = []
      then Inl (effects_error (''missing external input: '' @ en_name node))
      else let name = en_inputs node ! slot in
        thenR
          (checkR (case graph_inputs of None \<Rightarrow> False | Some ins \<Rightarrow> name \<notin> set ins)
             (effects_error (''state must be a graph input: '' @ name)))
          (forR (\<lambda>other. checkR (name \<in> set (en_outputs other))
                           (effects_error (''state must be external: '' @ name))) nodes))"

definition check_exclusive_slot ::
  "OperatorEffectNode list \<Rightarrow> OperatorEffectNode \<Rightarrow> nat \<Rightarrow> status + unit" where
  "check_exclusive_slot nodes node slot =
     (if slot \<ge> length (en_inputs node)
      then Inl (effects_error (''missing exclusive input: '' @ en_name node))
      else forR (\<lambda>other. checkR (en_name other \<noteq> en_name node \<and> en_inputs node ! slot \<in> set (en_inputs other))
                  (effects_error (''state requires an exclusive consumer: '' @ en_inputs node ! slot))) nodes)"

definition check_terminal_output ::
  "OperatorEffectNode list \<Rightarrow> string list \<Rightarrow> string \<Rightarrow> status + unit" where
  "check_terminal_output nodes graph_outputs output =
     thenR
       (checkR (output \<notin> set graph_outputs)
          (effects_error (''bounded selection must be a graph output: '' @ output)))
       (forR (\<lambda>other. checkR (output \<in> set (en_inputs other))
                        (effects_error (''data-dependent output consumers are unsupported: '' @ en_name other)))
          nodes)"

definition check_effects ::
  "OperatorEffectNode list \<Rightarrow> string list option \<Rightarrow> string list \<Rightarrow> bool \<Rightarrow> OperatorEffectNode \<Rightarrow> status + unit" where
  "check_effects nodes graph_inputs graph_outputs serial node =
     (let s = en_semantics node in
      thenR (checkR (case input_count s of None \<Rightarrow> False | Some c \<Rightarrow> c \<noteq> length (en_inputs node))
               (effects_error (''input count mismatch: '' @ en_name node)))
     (thenR (checkR (serial_execution s \<and> \<not> serial)
               (effects_error (''operator requires serial execution: '' @ en_name node)))
     (thenR (forR (check_external_slot nodes graph_inputs node) (external_inputs s))
     (thenR (forR (check_exclusive_slot nodes node) (exclusive_inputs s))
     (thenR (forR (\<lambda>al. checkR (oa_input al \<ge> length (en_inputs node) \<or> oa_output al \<ge> length (en_outputs node))
                          (effects_error (''invalid alias declaration: '' @ en_name node))) (aliases s))
     (thenR (forR (\<lambda>slot. checkR (slot \<ge> length (en_outputs node))
                            (effects_error (''invalid bounded output: '' @ en_name node))) (bounded_outputs s))
            (if terminal_outputs s
             then forR (check_terminal_output nodes graph_outputs) (en_outputs node) else Inr ())))))))"

definition ValidateOperatorEffects ::
  "world \<Rightarrow> Tensor list \<Rightarrow> OperatorEffectNode list \<Rightarrow> tensor_map \<Rightarrow> string list option \<Rightarrow>
   string list \<Rightarrow> bool \<Rightarrow> status" where
  "ValidateOperatorEffects w heap nodes tensors graph_inputs graph_outputs serial =
     (let bindings = ValidateOperatorBindings w heap nodes tensors graph_inputs in
      if \<not> ok bindings then bindings
      else as_status (forR (check_effects nodes graph_inputs graph_outputs serial) nodes))"

section \<open>What acceptance means\<close>

definition rejecting :: "status + unit \<Rightarrow> bool" where
  "rejecting r \<longleftrightarrow> (\<forall>e. r = Inl e \<longrightarrow> \<not> ok e)"

lemma rejecting_checkR [intro!]: "\<not> ok e \<Longrightarrow> rejecting (checkR bad e)"
  by (simp add: rejecting_def checkR_error)

lemma rejecting_forR [intro!]: "(\<And>x. rejecting (f x)) \<Longrightarrow> rejecting (forR f xs)"
  unfolding rejecting_def using forR_error by metis

lemma rejecting_thenR [intro!]: "rejecting a \<Longrightarrow> rejecting b \<Longrightarrow> rejecting (thenR a b)"
  unfolding rejecting_def using thenR_error by metis

lemma rejecting_Inr [simp]: "rejecting (Inr ())" and rejecting_Inl [simp]: "rejecting (Inl e) \<longleftrightarrow> \<not> ok e"
  by (simp_all add: rejecting_def)

lemma as_status_ok: "rejecting r \<Longrightarrow> ok (as_status r) \<longleftrightarrow> r = Inr ()"
  by (cases r) (auto simp: as_status_def)

lemma errors_not_ok [simp]: "\<not> ok (bindings_error m)" "\<not> ok (effects_error m)"
  by (simp_all add: bindings_error_def effects_error_def)

lemma rejecting_mutable: "rejecting (check_mutable_slot w heap tensors gi node slot)"
  unfolding check_mutable_slot_def by (auto split: option.split)

lemma rejecting_effects: "rejecting (check_effects nodes gi outs serial node)"
  unfolding check_effects_def Let_def check_external_slot_def check_exclusive_slot_def
    check_terminal_output_def
  by (auto split: if_split)

definition mutable_slot_ok ::
  "world \<Rightarrow> Tensor list \<Rightarrow> tensor_map \<Rightarrow> string list option \<Rightarrow> OperatorEffectNode \<Rightarrow> nat \<Rightarrow> bool" where
  "mutable_slot_ok w heap tensors graph_inputs node slot \<longleftrightarrow>
     slot < length (en_inputs node) \<and>
     (\<exists>written. tensors (en_inputs node ! slot) = Some written \<and> \<not> m_immutable (heap ! written) \<and>
        (\<forall>i < length (en_inputs node). i \<noteq> slot \<longrightarrow> \<not> overlaps_value w heap tensors written (en_inputs node ! i)) \<and>
        (\<forall>ins. graph_inputs = Some ins \<longrightarrow> (\<forall>input \<in> set ins. input \<noteq> en_inputs node ! slot \<longrightarrow>
           \<not> overlaps_value w heap tensors written input)))"

definition effects_ok ::
  "OperatorEffectNode list \<Rightarrow> string list option \<Rightarrow> string list \<Rightarrow> bool \<Rightarrow> OperatorEffectNode \<Rightarrow> bool" where
  "effects_ok nodes graph_inputs graph_outputs serial node \<longleftrightarrow>
     (let s = en_semantics node in
      (\<forall>c. input_count s = Some c \<longrightarrow> c = length (en_inputs node)) \<and>
      (serial_execution s \<longrightarrow> serial) \<and>
      (\<forall>slot \<in> set (external_inputs s). slot < length (en_inputs node) \<and> en_inputs node ! slot \<noteq> [] \<and>
         (\<forall>ins. graph_inputs = Some ins \<longrightarrow> en_inputs node ! slot \<in> set ins) \<and>
         (\<forall>other \<in> set nodes. en_inputs node ! slot \<notin> set (en_outputs other))) \<and>
      (\<forall>slot \<in> set (exclusive_inputs s). slot < length (en_inputs node) \<and>
         (\<forall>other \<in> set nodes. en_name other \<noteq> en_name node \<longrightarrow> en_inputs node ! slot \<notin> set (en_inputs other))) \<and>
      (\<forall>al \<in> set (aliases s). oa_input al < length (en_inputs node) \<and> oa_output al < length (en_outputs node)) \<and>
      (\<forall>slot \<in> set (bounded_outputs s). slot < length (en_outputs node)) \<and>
      (terminal_outputs s \<longrightarrow> (\<forall>output \<in> set (en_outputs node). output \<in> set graph_outputs \<and>
         (\<forall>other \<in> set nodes. output \<notin> set (en_inputs other)))))"

lemma check_mutable_slot_ok:
  "check_mutable_slot w heap tensors gi node slot = Inr () \<longleftrightarrow> mutable_slot_ok w heap tensors gi node slot"
  by (cases gi) (auto simp: check_mutable_slot_def mutable_slot_ok_def split: option.splits)

lemma check_effects_ok:
  "check_effects nodes gi outs serial node = Inr () \<longleftrightarrow> effects_ok nodes gi outs serial node"
  unfolding check_effects_def effects_ok_def Let_def check_external_slot_def check_exclusive_slot_def
    check_terminal_output_def
  by (auto split: option.splits if_splits simp: not_le)

lemma ValidateOperatorBindings_iff:
  "ok (ValidateOperatorBindings w heap nodes tensors gi) \<longleftrightarrow>
     (\<forall>node \<in> set nodes. \<forall>slot \<in> set (mutable_inputs (en_semantics node)).
        mutable_slot_ok w heap tensors gi node slot)"
proof -
  have "rejecting (forR (\<lambda>node. forR (check_mutable_slot w heap tensors gi node)
      (mutable_inputs (en_semantics node))) nodes)"
    using rejecting_mutable by blast
  then show ?thesis by (simp add: ValidateOperatorBindings_def as_status_ok check_mutable_slot_ok)
qed

lemma ValidateOperatorEffects_iff:
  "ok (ValidateOperatorEffects w heap nodes tensors gi outs serial) \<longleftrightarrow>
     (\<forall>node \<in> set nodes. \<forall>slot \<in> set (mutable_inputs (en_semantics node)).
        mutable_slot_ok w heap tensors gi node slot) \<and>
     (\<forall>node \<in> set nodes. effects_ok nodes gi outs serial node)"
proof -
  have "rejecting (forR (check_effects nodes gi outs serial) nodes)"
    using rejecting_effects by blast
  then show ?thesis
    by (simp add: ValidateOperatorEffects_def Let_def ValidateOperatorBindings_iff[symmetric] as_status_ok
        check_effects_ok)
qed

section \<open>Overlap means shared bytes\<close>

lemma distance_within_iff:
  "0 < ab \<Longrightarrow> 0 < bb \<Longrightarrow>
     distance_within a ab b bb \<longleftrightarrow> (\<exists>x. a \<le> x \<and> x < a + ab \<and> b \<le> x \<and> x < b + bb)"
proof (cases "a \<le> b")
  assume pos: "0 < ab" "0 < bb"
  case True
  then show ?thesis using pos by (auto simp: distance_within_def intro!: exI[of _ b])
next
  assume pos: "0 < ab" "0 < bb"
  case False
  then show ?thesis using pos by (auto simp: distance_within_def intro!: exI[of _ a])
qed

text \<open>The byte addresses a tensor covers.\<close>

definition byte_range :: "world \<Rightarrow> Tensor \<Rightarrow> nat \<Rightarrow> nat set" where
  "byte_range w t n = {raw_address w t..<raw_address w t + n}"

lemma Overlaps_bytes:
  assumes "a \<noteq> b" and "tensor_byte_count (heap ! a) = Some ab" and "tensor_byte_count (heap ! b) = Some bb"
    and "storage_materialized w (heap ! a)" and "storage_materialized w (heap ! b)"
  shows "Overlaps w heap a b \<longleftrightarrow> byte_range w (heap ! a) ab \<inter> byte_range w (heap ! b) bb \<noteq> {}"
proof (cases "ab = 0 \<or> bb = 0")
  case True
  then show ?thesis using assms by (auto simp: Overlaps_def byte_range_def)
next
  case False
  have shift: "distance_within (m_offset (heap ! a)) ab (m_offset (heap ! b)) bb \<longleftrightarrow>
      distance_within (raw_address w (heap ! a)) ab (raw_address w (heap ! b)) bb"
    if "m_storage (heap ! a) = m_storage (heap ! b)"
    using that by (auto simp: raw_address_def distance_within_def split: option.splits)
  have "Overlaps w heap a b \<longleftrightarrow> distance_within (raw_address w (heap ! a)) ab (raw_address w (heap ! b)) bb"
    using assms False shift by (auto simp: Overlaps_def)
  moreover have "byte_range w (heap ! a) ab \<inter> byte_range w (heap ! b) bb \<noteq> {} \<longleftrightarrow>
      (\<exists>x. raw_address w (heap ! a) \<le> x \<and> x < raw_address w (heap ! a) + ab \<and>
           raw_address w (heap ! b) \<le> x \<and> x < raw_address w (heap ! b) + bb)"
    unfolding byte_range_def disjoint_iff atLeastLessThan_iff by blast
  ultimately show ?thesis using False distance_within_iff by simp
qed

section \<open>Properties\<close>

text \<open>A heap with two tensors on the two halves of one buffer, for the witnesses.\<close>

definition half_tensor :: "nat \<Rightarrow> Tensor" where
  "half_tensor off = empty_Tensor\<lparr>m_dims := [4], m_data_type := INT8, m_storage := Some 0,
     m_memory_size := 4, m_offset := off\<rparr>"

definition demo_effects :: "OperatorEffectNode list" where
  "demo_effects = [\<lparr>en_name = ''n'', en_inputs = [''s'', ''x''], en_outputs = [''y''],
     en_semantics = default_semantics\<lparr>mutable_inputs := [0], external_inputs := [0], input_count := Some 2\<rparr>\<rparr>]"

definition demo_tensors :: tensor_map where
  "demo_tensors = [''s'' \<mapsto> 0, ''x'' \<mapsto> 1]"

lemma demo_byte_count: "tensor_byte_count (half_tensor off) = Some 4"
  by (simp add: tensor_byte_count_def half_tensor_def CheckedTensorBytes_def CheckedElementCount_def
      CheckedByteCount_def mul64_def SIZE_MAX_def INT64_MAX_def)

lemma demo_effects_ok:
  "ok (ValidateOperatorEffects (one_buffer_heap False) [half_tensor 0, half_tensor 4] demo_effects
     demo_tensors (Some [''s'', ''x'']) [''y''] True)"
  unfolding ValidateOperatorEffects_iff
  by (simp add: demo_effects_def mutable_slot_ok_def effects_ok_def demo_tensors_def default_semantics_def
      overlaps_value_def Overlaps_def demo_byte_count distance_within_def less_Suc_eq all_conj_distrib Let_def)
    (simp add: half_tensor_def empty_Tensor_def distance_within_def)

text \<open>
  The overlap test is exact.  For two different tensors with valid descriptors whose storages
  have their memory, it answers yes exactly when some byte address belongs to both, whether they
  view the same storage or not.
\<close>

theorem Overlaps_exact:
  assumes "a \<noteq> b" and "tensor_byte_count (heap ! a) = Some ab" and "tensor_byte_count (heap ! b) = Some bb"
    and "storage_materialized w (heap ! a)" and "storage_materialized w (heap ! b)"
  shows "Overlaps w heap a b = (\<exists>x. x \<in> byte_range w (heap ! a) ab \<and> x \<in> byte_range w (heap ! b) bb)"
  using Overlaps_bytes[OF assms] by blast

lemma Overlaps_exact_witness:
  "Overlaps (one_buffer_heap False) [half_tensor 0, half_tensor 2] 0 1 \<and>
   (\<exists>x. x \<in> byte_range (one_buffer_heap False) (half_tensor 0) 4 \<and>
        x \<in> byte_range (one_buffer_heap False) (half_tensor 2) 4)"
proof -
  have "storage_materialized (one_buffer_heap False) (half_tensor off)" for off
    by (simp add: storage_materialized_def half_tensor_def one_buffer_heap_def)
  then have "Overlaps (one_buffer_heap False) [half_tensor 0, half_tensor 2] 0 1 =
    (\<exists>x. x \<in> byte_range (one_buffer_heap False) (half_tensor 0) 4 \<and>
         x \<in> byte_range (one_buffer_heap False) (half_tensor 2) 4)"
    using Overlaps_exact[of 0 1 "[half_tensor 0, half_tensor 2]" 4 4 "one_buffer_heap False"]
    by (simp add: demo_byte_count)
  moreover have "3 \<in> byte_range (one_buffer_heap False) (half_tensor 0) 4 \<and>
      3 \<in> byte_range (one_buffer_heap False) (half_tensor 2) 4"
    by (simp add: byte_range_def raw_address_def half_tensor_def one_buffer_heap_def)
  ultimately show ?thesis by blast
qed

text \<open>
  A graph's effects are accepted exactly when every declaration holds: each input written in
  place exists, is mutable and overlaps no other input of its node nor another graph input; input
  counts and serial requirements fit; external inputs are graph inputs nobody writes; exclusive
  inputs have one consumer; aliases and bounded outputs name existing slots; and terminal outputs
  are graph outputs without consumers.
\<close>

theorem ValidateOperatorEffects_accepts:
  "ok (ValidateOperatorEffects w heap nodes tensors gi outs serial) =
     (\<forall>node \<in> set nodes. effects_ok nodes gi outs serial node \<and>
        (\<forall>slot \<in> set (mutable_inputs (en_semantics node)). mutable_slot_ok w heap tensors gi node slot))"
  unfolding ValidateOperatorEffects_iff by blast

lemma ValidateOperatorEffects_accepts_witness:
  "effects_ok demo_effects (Some [''s'', ''x'']) [''y''] True (hd demo_effects) \<and>
   mutable_slot_ok (one_buffer_heap False) [half_tensor 0, half_tensor 4] demo_tensors
     (Some [''s'', ''x'']) (hd demo_effects) 0"
  using demo_effects_ok unfolding ValidateOperatorEffects_accepts by (simp add: demo_effects_def)

text \<open>
  C6: In-place writes are safe in an accepted graph.  When a node writes an input it declared
  mutable, within the tensor's own bytes, every other input of the node whose memory exists
  reads back the bytes it had before.
\<close>

theorem in_place_write_isolated:
  assumes "ok (ValidateOperatorEffects w heap nodes tensors gi outs serial)"
    and "node \<in> set nodes" and "slot \<in> set (mutable_inputs (en_semantics node))"
    and "i < length (en_inputs node)" and "i \<noteq> slot"
    and "tensors (en_inputs node ! slot) = Some a" and "tensors (en_inputs node ! i) = Some b"
    and "tensor_byte_count (heap ! a) = Some ab" and "tensor_byte_count (heap ! b) = Some bb"
    and "storage_materialized w (heap ! a)" and "storage_materialized w (heap ! b)"
    and "length bs \<le> ab"
  shows "mem_read (mem_write (mem w) (raw_address w (heap ! a)) bs) (raw_address w (heap ! b)) bb =
         mem_read (mem w) (raw_address w (heap ! b)) bb"
proof -
  have "mutable_slot_ok w heap tensors gi node slot"
    using assms(1-3) unfolding ValidateOperatorEffects_iff by blast
  then have no: "\<not> Overlaps w heap a b"
    using assms(4-7) by (auto simp: mutable_slot_ok_def overlaps_value_def)
  have "a \<noteq> b" using no by (auto simp: Overlaps_def)
  from Overlaps_bytes[OF this assms(8-11)] no
  have dis: "byte_range w (heap ! a) ab \<inter> byte_range w (heap ! b) bb = {}" by simp
  show ?thesis
  proof (rule mem_read_cong)
    fix x assume "raw_address w (heap ! b) \<le> x" "x < raw_address w (heap ! b) + bb"
    then have "x \<in> byte_range w (heap ! b) bb" by (simp add: byte_range_def)
    then have "x \<notin> byte_range w (heap ! a) ab" using dis by blast
    then show "mem_write (mem w) (raw_address w (heap ! a)) bs x = mem w x"
      using assms(12) by (intro mem_write_other) (auto simp: byte_range_def)
  qed
qed

lemma in_place_write_isolated_witness:
  "mem_read (mem_write (mem (one_buffer_heap False)) 1 [7, 8, 9, 10]) 5 4 =
   mem_read (mem (one_buffer_heap False)) 5 4"
proof -
  have "storage_materialized (one_buffer_heap False) (half_tensor off)"
    and adr: "raw_address (one_buffer_heap False) (half_tensor off) = Suc off" for off
    by (simp_all add: storage_materialized_def raw_address_def half_tensor_def one_buffer_heap_def)
  then show ?thesis
    using in_place_write_isolated[OF demo_effects_ok, of "hd demo_effects" 0 1 0 1 4 4 "[7, 8, 9, 10]"]
    by (simp add: demo_effects_def demo_tensors_def demo_byte_count)
qed

end
