(* ===== verification/Static_Graph.thy ===== *)
theory Static_Graph
  imports Graph_Order Op_Semantics "HOL-Library.AList"
begin

text \<open>
  The static graph: \<open>include/core/static_graph.h\<close>, \<open>src/core/static_graph.cc\<close> and
  \<open>OperatorRegistry::Create\<close> of \<open>src/core/operator_registry.cc\<close>.  The graph keeps its nodes with
  two indices over their edges, the producer and the users of every value, and the rewriting
  passes change nodes only through the methods modelled here.  Tensors are shared pointers:
  indices into the heap of \<open>Tensor\<close> records.  Operator builders are registered by callers and
  kernels come from a dispatcher; both are arguments of the model.  Hash maps that the code
  iterates are association lists, the others functions.
\<close>

section \<open>State\<close>

record OpBase =
  op_out :: "nat option list"
  op_kernel :: "nat option"

record op_env =
  e_heap :: "Tensor list"
  e_world :: world
  e_tensors :: "(string \<times> nat) list"

text \<open>A builder answers an operator or null, and the dispatcher's selection status.\<close>

type_synonym builder = "NodeDesc \<Rightarrow> op_env \<Rightarrow> (OpBase option \<times> status) \<times> op_env"

record OperatorRegistry =
  r_builders :: "string \<rightharpoonup> builder"
  r_finalize :: "nat \<Rightarrow> status \<times> nat option"
  r_control_kernel :: "OpBase \<Rightarrow> nat option"
  r_run :: "OpBase \<Rightarrow> op_env \<Rightarrow> int \<times> op_env"
  r_semantics :: semantics_registry

record StaticNode =
  sn_name :: string
  sn_op_type :: string
  sn_inputs :: "string list"
  sn_outputs :: "string list"
  sn_op :: "OpBase option"
  sn_semantics :: OperatorSemantics
  sn_removed :: bool

record BuildDescriptor =
  bd_descriptor :: TensorDesc
  bd_tensor :: nat

record StaticGraph =
  g_model :: ModelDesc
  g_env :: op_env
  g_bound :: "string set"
  g_nodes :: "StaticNode list"
  g_index :: "string \<rightharpoonup> nat"
  g_producer :: "string \<rightharpoonup> string"
  g_users :: "string \<rightharpoonup> string list"
  g_aliases :: "string \<rightharpoonup> string"
  g_build_time :: "string set"
  g_control :: "(string \<times> u8 list) list"
  g_descriptors :: "(string \<times> BuildDescriptor) list"
  g_built :: bool
  g_device :: DeviceType

definition env_tensor :: "op_env \<Rightarrow> string \<Rightarrow> nat option" where
  "env_tensor e name = map_of (e_tensors e) name"

definition GetTensor :: "StaticGraph \<Rightarrow> string \<Rightarrow> nat option" where
  "GetTensor g name = env_tensor (g_env g) name"

definition tensor_at :: "StaticGraph \<Rightarrow> nat \<Rightarrow> Tensor" where
  "tensor_at g p = e_heap (g_env g) ! p"

definition put_tensor :: "string \<Rightarrow> nat \<Rightarrow> op_env \<Rightarrow> op_env" where
  "put_tensor name p e = e\<lparr>e_tensors := AList.update name p (e_tensors e)\<rparr>"

definition map_heap :: "(Tensor \<Rightarrow> Tensor) \<Rightarrow> nat \<Rightarrow> op_env \<Rightarrow> op_env" where
  "map_heap f p e = e\<lparr>e_heap := (e_heap e)[p := f (e_heap e ! p)]\<rparr>"

definition SetModel :: "ModelDesc \<Rightarrow> StaticGraph \<Rightarrow> StaticGraph" where
  "SetModel model g = g\<lparr>g_model := model, g_built := False, g_build_time := {}, g_control := [],
     g_descriptors := [], g_nodes := [], g_index := Map.empty, g_producer := Map.empty,
     g_users := Map.empty, g_aliases := Map.empty, g_env := (g_env g)\<lparr>e_tensors := []\<rparr>, g_bound := {}\<rparr>"

definition SetTensor :: "string \<Rightarrow> nat option \<Rightarrow> StaticGraph \<Rightarrow> int \<times> StaticGraph" where
  "SetTensor name tensor g =
     (if name = [] then (-1, g)
      else case tensor of None \<Rightarrow> (-1, g)
           | Some p \<Rightarrow> (0, g\<lparr>g_env := put_tensor name p (g_env g), g_bound := insert name (g_bound g)\<rparr>))"

fun set_value_dtype :: "string \<Rightarrow> DataType \<Rightarrow> ValueDesc list \<Rightarrow> bool \<times> ValueDesc list" where
  "set_value_dtype name dt [] = (False, [])"
| "set_value_dtype name dt (v # vs) =
     (if vd_name v = name then (True, v\<lparr>vd_tensor := (vd_tensor v)\<lparr>td_data_type := dt\<rparr>\<rparr> # vs)
      else let (found, vs') = set_value_dtype name dt vs in (found, v # vs'))"

definition SetValueDataType :: "string \<Rightarrow> DataType \<Rightarrow> StaticGraph \<Rightarrow> bool \<times> StaticGraph" where
  "SetValueDataType name dt g =
     (if name = [] \<or> dt = UNKNOWN then (False, g)
      else
        (let (found, vs) = set_value_dtype name dt (gd_values (md_graph (g_model g)));
             g1 = g\<lparr>g_model := (g_model g)\<lparr>md_graph := (md_graph (g_model g))\<lparr>gd_values := vs\<rparr>\<rparr>\<rparr>
         in case GetTensor g1 name of None \<Rightarrow> (found, g1)
            | Some p \<Rightarrow> (True, g1\<lparr>g_env := map_heap (\<lambda>t. t\<lparr>m_data_type := dt\<rparr>) p (g_env g1)\<rparr>)))"

definition ClearGraphState :: "StaticGraph \<Rightarrow> StaticGraph" where
  "ClearGraphState g = g\<lparr>g_built := False, g_build_time := {}, g_control := [], g_descriptors := [],
     g_nodes := [], g_index := Map.empty, g_producer := Map.empty, g_users := Map.empty,
     g_aliases := Map.empty\<rparr>"

section \<open>The edge indices\<close>

definition RegisterValueUse :: "string \<Rightarrow> string \<Rightarrow> StaticGraph \<Rightarrow> StaticGraph" where
  "RegisterValueUse v n g =
     (let users = (case g_users g v of None \<Rightarrow> [] | Some us \<Rightarrow> us) in
      g\<lparr>g_users := (g_users g)(v \<mapsto> (if n \<in> set users then users else users @ [n]))\<rparr>)"

definition UnregisterValueUse :: "string \<Rightarrow> string \<Rightarrow> StaticGraph \<Rightarrow> StaticGraph" where
  "UnregisterValueUse v n g =
     (case g_users g v of None \<Rightarrow> g
      | Some us \<Rightarrow>
          (let us' = filter (\<lambda>x. x \<noteq> n) us in
           g\<lparr>g_users := (if us' = [] then (g_users g)(v := None) else (g_users g)(v \<mapsto> us'))\<rparr>))"

definition GetNodeIndex :: "StaticGraph \<Rightarrow> string \<Rightarrow> nat option" where
  "GetNodeIndex g name =
     (case g_index g name of None \<Rightarrow> None
      | Some i \<Rightarrow> if sn_removed (g_nodes g ! i) then None else Some i)"

definition GetNode :: "StaticGraph \<Rightarrow> string \<Rightarrow> StaticNode option" where
  "GetNode g name = map_option (\<lambda>i. g_nodes g ! i) (GetNodeIndex g name)"

definition GetProducer :: "StaticGraph \<Rightarrow> string \<Rightarrow> string" where
  "GetProducer g v = (case g_producer g v of None \<Rightarrow> [] | Some n \<Rightarrow> n)"

definition GetUsers :: "StaticGraph \<Rightarrow> string \<Rightarrow> string list" where
  "GetUsers g v = (case g_users g v of None \<Rightarrow> [] | Some us \<Rightarrow> us)"

definition NodeSize :: "StaticGraph \<Rightarrow> nat" where
  "NodeSize g = length (filter (\<lambda>n. \<not> sn_removed n) (g_nodes g))"

definition OperatorSize :: "StaticGraph \<Rightarrow> nat" where
  "OperatorSize g = length (filter (\<lambda>n. \<not> sn_removed n \<and> sn_op n \<noteq> None) (g_nodes g))"

text \<open>
  The walk along output aliases stops at a name seen before; a walk that is not stopped takes
  each alias at most once, so the number of nodes, which bounds the number of aliases, bounds it.
\<close>

fun alias_walk :: "nat \<Rightarrow> (string \<rightharpoonup> string) \<Rightarrow> string set \<Rightarrow> string \<Rightarrow> string \<Rightarrow> bool" where
  "alias_walk 0 al seen target cur = False"
| "alias_walk (Suc fuel) al seen target cur =
     (if cur \<in> seen then False
      else if cur = target then True
      else case al cur of None \<Rightarrow> False | Some next \<Rightarrow> alias_walk fuel al (insert cur seen) target next)"

definition walk_fuel :: "StaticGraph \<Rightarrow> nat" where
  "walk_fuel g = Suc (Suc (length (g_nodes g)))"

definition IsGraphOutputValue :: "StaticGraph \<Rightarrow> string \<Rightarrow> bool" where
  "IsGraphOutputValue g v =
     (\<exists>output \<in> set (gd_outputs (md_graph (g_model g))).
        alias_walk (walk_fuel g) (g_aliases g) {} v output)"

section \<open>Metadata and descriptors\<close>

definition FindValueDesc :: "ModelDesc \<Rightarrow> string \<Rightarrow> ValueDesc option" where
  "FindValueDesc model name = find (\<lambda>v. vd_name v = name) (gd_values (md_graph model))"

definition RestoreDeclaredTensorMetadata ::
  "ModelDesc \<Rightarrow> string \<Rightarrow> nat \<Rightarrow> op_env \<Rightarrow> status \<times> op_env" where
  "RestoreDeclaredTensorMetadata model name p e =
     (case FindValueDesc model name of
        None \<Rightarrow> (Ok, e)
      | Some value \<Rightarrow>
          (let d = vd_tensor value; t = e_heap e ! p in
           if td_data_type d \<noteq> UNKNOWN \<and> m_data_type t \<noteq> UNKNOWN \<and> m_data_type t \<noteq> td_data_type d
           then (Error kInvalidArgument (''declared output dtype conflicts with inference: '' @ name), e)
           else
             (let t1 = (if td_data_type d \<noteq> UNKNOWN then t\<lparr>m_data_type := td_data_type d\<rparr> else t);
                  t2 = (if td_layout d \<noteq> ND then t1\<lparr>m_layout := td_layout d\<rparr> else t1)
              in (Ok, map_heap (\<lambda>_. set_quantization (td_quantization d) t2) p e))))"

definition descriptor_of :: "string \<Rightarrow> Tensor \<Rightarrow> TensorDesc" where
  "descriptor_of name t = \<lparr>td_name = name, td_dims = m_dims t, td_data_type = m_data_type t,
     td_layout = m_layout t, td_quantization = m_quantization t\<rparr>"

definition RecordBuildDescriptor :: "string \<Rightarrow> StaticGraph \<Rightarrow> StaticGraph" where
  "RecordBuildDescriptor name g =
     (case GetTensor g name of None \<Rightarrow> g
      | Some p \<Rightarrow> g\<lparr>g_descriptors := AList.update name
           \<lparr>bd_descriptor = descriptor_of name (tensor_at g p), bd_tensor = p\<rparr> (g_descriptors g)\<rparr>)"

definition RecordBuildDescriptors :: "StaticGraph \<Rightarrow> StaticGraph" where
  "RecordBuildDescriptors g =
     foldl (\<lambda>g item. RecordBuildDescriptor (fst item) g) (g\<lparr>g_descriptors := []\<rparr>) (e_tensors (g_env g))"

definition descriptor_matches :: "StaticGraph \<Rightarrow> string \<times> BuildDescriptor \<Rightarrow> bool" where
  "descriptor_matches g item =
     (case GetTensor g (fst item) of None \<Rightarrow> False
      | Some p \<Rightarrow>
          (let t = tensor_at g p; d = bd_descriptor (snd item) in
           p = bd_tensor (snd item) \<and> m_dims t = td_dims d \<and> m_data_type t = td_data_type d \<and>
           m_layout t = td_layout d \<and> HasSameQuantization (m_quantization t) (td_quantization d)))"

definition ValidateBuildDescriptorsStatus :: "StaticGraph \<Rightarrow> status" where
  "ValidateBuildDescriptorsStatus g =
     (if \<not> g_built g \<or> length (g_descriptors g) \<noteq> length (e_tensors (g_env g))
      then Error kBuildFailed ''static graph descriptors require rebuilding''
      else case find (\<lambda>item. \<not> descriptor_matches g item) (g_descriptors g) of
             None \<Rightarrow> Ok
           | Some item \<Rightarrow> Error kInvalidArgument (''tensor descriptor changed since build: '' @ fst item))"

definition broken_node :: "StaticNode \<Rightarrow> bool" where
  "broken_node n \<longleftrightarrow> \<not> sn_removed n \<and> (case sn_op n of None \<Rightarrow> True | Some oper \<Rightarrow> op_kernel oper = None)"

definition CheckStatus :: "StaticGraph \<Rightarrow> status" where
  "CheckStatus g =
     (if \<not> g_built g then Error kBuildFailed ''static graph has not been built successfully''
      else case find broken_node (g_nodes g) of
             None \<Rightarrow> Ok
           | Some n \<Rightarrow> Error kBuildFailed (''invalid static node: '' @ sn_name n))"

section \<open>Rewriting\<close>

definition Create :: "OperatorRegistry \<Rightarrow> NodeDesc \<Rightarrow> op_env \<Rightarrow> (OpBase option \<times> status) \<times> op_env" where
  "Create reg node e =
     (case r_builders reg (nd_op_type node) of
        None \<Rightarrow> ((None, Error kNotFound (''unregistered operator: '' @ nd_op_type node)), e)
      | Some builder \<Rightarrow>
          (let ((oper, selection), e') = builder node e in
           case oper of
             None \<Rightarrow> ((None, if ok selection
                              then Error kBuildFailed (''operator construction failed: '' @ nd_op_type node)
                              else selection), e')
           | Some ob \<Rightarrow>
               (case op_kernel ob of
                  None \<Rightarrow> ((Some ob, Ok), e')
                | Some k \<Rightarrow>
                    (let (st, k') = r_finalize reg k in
                     if \<not> ok st then ((None, st), e')
                     else ((Some (ob\<lparr>op_kernel := k'\<rparr>), st), e')))))"

definition set_node :: "nat \<Rightarrow> StaticNode \<Rightarrow> StaticGraph \<Rightarrow> StaticGraph" where
  "set_node i n g = g\<lparr>g_nodes := (g_nodes g)[i := n]\<rparr>"

definition drop_node :: "nat \<Rightarrow> StaticGraph \<Rightarrow> StaticGraph" where
  "drop_node i g = set_node i ((g_nodes g ! i)\<lparr>sn_removed := True, sn_op := None\<rparr>) g"

definition unregister_all :: "string list \<Rightarrow> string \<Rightarrow> StaticGraph \<Rightarrow> StaticGraph" where
  "unregister_all vs n g = foldl (\<lambda>g v. UnregisterValueUse v n g) g vs"

definition register_all :: "string list \<Rightarrow> string \<Rightarrow> StaticGraph \<Rightarrow> StaticGraph" where
  "register_all vs n g = foldl (\<lambda>g v. RegisterValueUse v n g) g vs"

text \<open>\<open>if (producer_it->second == node_name) erase; users_by_value_.erase(output);\<close>\<close>

definition forget_output :: "string \<Rightarrow> string \<Rightarrow> StaticGraph \<Rightarrow> StaticGraph" where
  "forget_output n v g =
     g\<lparr>g_producer := (if g_producer g v = Some n then (g_producer g)(v := None) else g_producer g),
       g_users := (g_users g)(v := None)\<rparr>"

definition RemoveNode :: "string \<Rightarrow> StaticGraph \<Rightarrow> bool \<times> StaticGraph" where
  "RemoveNode node_name g =
     (case GetNodeIndex g node_name of None \<Rightarrow> (False, g)
      | Some i \<Rightarrow>
          (let node = g_nodes g ! i in
           if \<exists>v \<in> set (sn_outputs node). IsGraphOutputValue g v \<or> GetUsers g v \<noteq> [] then (False, g)
           else
             (let g1 = unregister_all (sn_inputs node) node_name g;
                  g2 = foldl (\<lambda>g v. forget_output node_name v g) g1 (sn_outputs node)
              in (True, drop_node i g2))))"

definition same_descriptor :: "Tensor \<Rightarrow> Tensor \<Rightarrow> bool" where
  "same_descriptor a b \<longleftrightarrow> m_dims a = m_dims b \<and> m_data_type a = m_data_type b \<and> m_layout a = m_layout b"

definition RemoveNodeWithOutputAlias :: "string \<Rightarrow> StaticGraph \<Rightarrow> bool \<times> StaticGraph" where
  "RemoveNodeWithOutputAlias node_name g =
     (case GetNodeIndex g node_name of None \<Rightarrow> (False, g)
      | Some i \<Rightarrow>
          (let node = g_nodes g ! i in
           if length (sn_inputs node) \<noteq> 1 \<or> length (sn_outputs node) \<noteq> 1 then (False, g)
           else
             (let input_name = sn_inputs node ! 0; output_name = sn_outputs node ! 0 in
              if output_name \<notin> set (gd_outputs (md_graph (g_model g))) \<or> GetUsers g output_name \<noteq> []
              then (False, g)
              else case (GetTensor g input_name, GetTensor g output_name) of
                (Some inp, Some out) \<Rightarrow>
                  if \<not> same_descriptor (tensor_at g inp) (tensor_at g out) then (False, g)
                  else
                    (let g1 = g\<lparr>g_env := put_tensor output_name inp (g_env g),
                                g_aliases := (g_aliases g)(output_name \<mapsto> input_name)\<rparr>;
                         g2 = UnregisterValueUse input_name node_name g1;
                         g3 = forget_output node_name output_name g2
                     in (True, RecordBuildDescriptor output_name (drop_node i g3)))
              | _ \<Rightarrow> (False, g))))"

definition model_node :: "StaticGraph \<Rightarrow> string \<Rightarrow> NodeDesc option" where
  "model_node g name = find (\<lambda>n. nd_name n = name) (gd_nodes (md_graph (g_model g)))"

text \<open>
  Installing an operator's outputs, which stops at the first metadata conflict:
  \<open>RestoreDeclaredTensorMetadata\<close>, then the tensor and the producer of every output.
\<close>

fun install_outputs ::
  "string \<Rightarrow> (string \<times> nat option) list \<Rightarrow> StaticGraph \<Rightarrow> bool \<times> StaticGraph" where
  "install_outputs n [] g = (True, g)"
| "install_outputs n ((v, None) # rest) g = (False, g)"
| "install_outputs n ((v, Some p) # rest) g =
     (let (st, e) = RestoreDeclaredTensorMetadata (g_model g) v p (g_env g) in
      if \<not> ok st then (False, g\<lparr>g_env := e\<rparr>)
      else install_outputs n rest
             (g\<lparr>g_env := put_tensor v p e, g_producer := (g_producer g)(v \<mapsto> n)\<rparr>))"

definition record_descriptors :: "string list \<Rightarrow> StaticGraph \<Rightarrow> StaticGraph" where
  "record_descriptors vs g = foldl (\<lambda>g v. RecordBuildDescriptor v g) g vs"

text \<open>Outputs missing from the operator's list count as null.\<close>

definition node_outputs_of :: "string list \<Rightarrow> OpBase \<Rightarrow> (string \<times> nat option) list" where
  "node_outputs_of vs oper =
     map (\<lambda>i. (vs ! i, if i < length (op_out oper) then op_out oper ! i else None)) [0..<length vs]"

definition RebuildNode :: "OperatorRegistry \<Rightarrow> nat \<Rightarrow> StaticGraph \<Rightarrow> bool \<times> StaticGraph" where
  "RebuildNode reg i g =
     (if i \<ge> length (g_nodes g) \<or> sn_removed (g_nodes g ! i) then (False, g)
      else
        (let node = g_nodes g ! i;
             desc = \<lparr>nd_name = sn_name node, nd_op_type = sn_op_type node,
                     nd_domain = (case model_node g (sn_name node) of None \<Rightarrow> [] | Some d \<Rightarrow> nd_domain d),
                     nd_inputs = sn_inputs node, nd_outputs = sn_outputs node,
                     nd_attributes = (case model_node g (sn_name node) of None \<Rightarrow> Map.empty
                                      | Some d \<Rightarrow> nd_attributes d)\<rparr>;
             ((oper, _), e) = Create reg desc (g_env g); g1 = g\<lparr>g_env := e\<rparr> in
         case oper of None \<Rightarrow> (False, g1)
         | Some ob \<Rightarrow>
             (let g2 = set_node i (node\<lparr>sn_op := Some ob,
                         sn_semantics := GetOperatorSemantics (r_semantics reg) (sn_op_type node)\<rparr>) g1;
                  (done, g3) = install_outputs (sn_name node) (node_outputs_of (sn_outputs node) ob) g2
              in if done then (True, record_descriptors (sn_outputs node) g3) else (False, g3))))"

definition replace_input_at :: "string \<Rightarrow> string \<Rightarrow> string \<Rightarrow> nat \<Rightarrow> nat \<Rightarrow> StaticGraph \<Rightarrow> StaticGraph" where
  "replace_input_at node_name v_from v_to i k g =
     (if sn_inputs (g_nodes g ! i) ! k \<noteq> v_from then g
      else
        (let g1 = UnregisterValueUse v_from node_name g;
             n = g_nodes g1 ! i;
             g2 = set_node i (n\<lparr>sn_inputs := (sn_inputs n)[k := v_to]\<rparr>) g1
         in RegisterValueUse v_to node_name g2))"

definition ReplaceInputValue ::
  "OperatorRegistry \<Rightarrow> string \<Rightarrow> string \<Rightarrow> string \<Rightarrow> StaticGraph \<Rightarrow> bool \<times> StaticGraph" where
  "ReplaceInputValue reg node_name v_from v_to g =
     (case GetNodeIndex g node_name of None \<Rightarrow> (False, g)
      | Some i \<Rightarrow>
          if v_from \<notin> set (sn_inputs (g_nodes g ! i)) then (False, g)
          else RebuildNode reg i
                 (foldl (\<lambda>g k. replace_input_at node_name v_from v_to i k g) g
                    [0..<length (sn_inputs (g_nodes g ! i))]))"

definition replace_model_node :: "NodeDesc \<Rightarrow> StaticGraph \<Rightarrow> StaticGraph" where
  "replace_model_node desc g =
     (let nodes = gd_nodes (md_graph (g_model g));
          k = length (takeWhile (\<lambda>n. nd_name n \<noteq> nd_name desc) nodes)
      in g\<lparr>g_model := set_nodes (nodes[k := desc]) (g_model g)\<rparr>)"

definition ReplaceNodeDesc :: "OperatorRegistry \<Rightarrow> NodeDesc \<Rightarrow> StaticGraph \<Rightarrow> bool \<times> StaticGraph" where
  "ReplaceNodeDesc reg desc g =
     (case g_index g (nd_name desc) of None \<Rightarrow> (False, g)
      | Some i \<Rightarrow>
          (let node = g_nodes g ! i in
           if nd_name desc = [] \<or> nd_op_type desc = [] \<or> sn_removed node \<or> nd_outputs desc \<noteq> sn_outputs node \<or>
              (\<exists>v \<in> set (nd_inputs desc). GetTensor g v = None)
           then (False, g)
           else
             (let ((oper, _), e) = Create reg desc (g_env g); g1 = g\<lparr>g_env := e\<rparr> in
              case oper of None \<Rightarrow> (False, g1)
              | Some ob \<Rightarrow>
                  if length (op_out ob) \<noteq> length (sn_outputs node) \<or> None \<in> set (op_out ob) then (False, g1)
                  else
                    (let g2 = unregister_all (sn_inputs node) (nd_name desc) g1;
                         g3 = set_node i (node\<lparr>sn_op_type := nd_op_type desc, sn_inputs := nd_inputs desc,
                                sn_op := Some ob,
                                sn_semantics := GetOperatorSemantics (r_semantics reg) (nd_op_type desc)\<rparr>) g2;
                         g4 = register_all (nd_inputs desc) (nd_name desc) g3;
                         (done, g5) = install_outputs (sn_name node) (node_outputs_of (sn_outputs node) ob) g4
                     in if \<not> done then (False, g5)
                        else (True, record_descriptors (sn_outputs node) (replace_model_node desc g5))))))"

definition ReplaceNodeOp ::
  "OperatorRegistry \<Rightarrow> string \<Rightarrow> string \<Rightarrow> string list \<Rightarrow> StaticGraph \<Rightarrow> bool \<times> StaticGraph" where
  "ReplaceNodeOp reg node_name op_type inputs g =
     ReplaceNodeDesc reg
       (case model_node g node_name of
          None \<Rightarrow> \<lparr>nd_name = node_name, nd_op_type = op_type, nd_domain = [], nd_inputs = inputs,
                   nd_outputs = [], nd_attributes = Map.empty\<rparr>
        | Some d \<Rightarrow> \<lparr>nd_name = node_name, nd_op_type = op_type, nd_domain = nd_domain d,
                     nd_inputs = inputs, nd_outputs = nd_outputs d, nd_attributes = nd_attributes d\<rparr>) g"

definition absorb_allowed :: "StaticGraph \<Rightarrow> NodeDesc \<Rightarrow> string \<Rightarrow> StaticNode \<Rightarrow> StaticNode \<Rightarrow> bool" where
  "absorb_allowed g desc absorbed_name target absorbed \<longleftrightarrow>
     \<not> sn_removed target \<and> \<not> sn_removed absorbed \<and>
     length (sn_outputs target) < length (nd_outputs desc) \<and>
     take (length (sn_outputs target)) (nd_outputs desc) = sn_outputs target \<and>
     drop (length (sn_outputs target)) (nd_outputs desc) = sn_outputs absorbed \<and>
     (\<forall>v \<in> set (sn_outputs absorbed). GetProducer g v = absorbed_name) \<and>
     (\<forall>v \<in> set (nd_inputs desc). GetTensor g v \<noteq> None) \<and> model_node g (nd_name desc) \<noteq> None"

definition ReplaceNodeDescAndAbsorbNode ::
  "OperatorRegistry \<Rightarrow> NodeDesc \<Rightarrow> string \<Rightarrow> StaticGraph \<Rightarrow> bool \<times> StaticGraph" where
  "ReplaceNodeDescAndAbsorbNode reg desc absorbed_name g =
     (case (g_index g (nd_name desc), g_index g absorbed_name) of
        (Some i, Some j) \<Rightarrow>
          (let target = g_nodes g ! i; absorbed = g_nodes g ! j in
           if nd_name desc = [] \<or> nd_op_type desc = [] \<or> nd_name desc = absorbed_name \<or>
              \<not> absorb_allowed g desc absorbed_name target absorbed
           then (False, g)
           else
             (let ((oper, _), e) = Create reg desc (g_env g); g1 = g\<lparr>g_env := e\<rparr> in
              case oper of None \<Rightarrow> (False, g1)
              | Some ob \<Rightarrow>
                  if length (op_out ob) \<noteq> length (nd_outputs desc) \<or> None \<in> set (op_out ob) then (False, g1)
                  else
                    (let g2 = unregister_all (sn_inputs target) (nd_name desc) g1;
                         g3 = set_node i (target\<lparr>sn_op_type := nd_op_type desc, sn_inputs := nd_inputs desc,
                                sn_outputs := nd_outputs desc, sn_op := Some ob,
                                sn_semantics := GetOperatorSemantics (r_semantics reg) (nd_op_type desc)\<rparr>) g2;
                         g4 = register_all (nd_inputs desc) (nd_name desc) g3;
                         (done, g5) = install_outputs (sn_name target) (node_outputs_of (nd_outputs desc) ob) g4
                     in if \<not> done then (False, g5)
                        else
                          (let g6 = unregister_all (sn_inputs absorbed) absorbed_name (replace_model_node desc g5);
                               g7 = drop_node j g6
                           in (True, record_descriptors (nd_outputs desc) g7)))))
      | _ \<Rightarrow> (False, g))"

section \<open>The invariant of the indices\<close>

definition live :: "StaticNode list \<Rightarrow> nat \<Rightarrow> bool" where
  "live ns i \<longleftrightarrow> i < length ns \<and> \<not> sn_removed (ns ! i)"

definition index_match :: "StaticNode list \<Rightarrow> (string \<rightharpoonup> nat) \<Rightarrow> bool" where
  "index_match ns ix \<longleftrightarrow>
     (\<forall>name i. ix name = Some i \<longrightarrow> i < length ns \<and> sn_name (ns ! i) = name) \<and>
     (\<forall>i < length ns. ix (sn_name (ns ! i)) = Some i \<and> sn_name (ns ! i) \<noteq> [])"

definition users_match :: "StaticNode list \<Rightarrow> (string \<Rightarrow> string set) \<Rightarrow> bool" where
  "users_match ns U \<longleftrightarrow>
     (\<forall>v. v \<noteq> [] \<longrightarrow> U v = {sn_name (ns ! i) |i. live ns i \<and> v \<in> set (sn_inputs (ns ! i))})"

definition producers_match :: "StaticNode list \<Rightarrow> (string \<rightharpoonup> string) \<Rightarrow> bool" where
  "producers_match ns P \<longleftrightarrow>
     (\<forall>v n. P v = Some n \<longleftrightarrow> (\<exists>i. live ns i \<and> sn_name (ns ! i) = n \<and> v \<in> set (sn_outputs (ns ! i))))"

definition users_wf :: "(string \<rightharpoonup> string list) \<Rightarrow> bool" where
  "users_wf u \<longleftrightarrow> (\<forall>v us. u v = Some us \<longrightarrow> us \<noteq> [] \<and> distinct us)"

definition aliases_wf :: "StaticNode list \<Rightarrow> (string \<rightharpoonup> string) \<Rightarrow> bool" where
  "aliases_wf ns al \<longleftrightarrow> finite (dom al) \<and> card (dom al) \<le> length (filter sn_removed ns)"

definition user_set :: "StaticGraph \<Rightarrow> string \<Rightarrow> string set" where
  "user_set g v = set (GetUsers g v)"

definition graph_inv :: "StaticGraph \<Rightarrow> bool" where
  "graph_inv g \<longleftrightarrow> index_match (g_nodes g) (g_index g) \<and> users_match (g_nodes g) (user_set g) \<and>
     producers_match (g_nodes g) (g_producer g) \<and> users_wf (g_users g) \<and> aliases_wf (g_nodes g) (g_aliases g)"

lemma index_match_inj:
  "index_match ns ix \<Longrightarrow> i < length ns \<Longrightarrow> j < length ns \<Longrightarrow> sn_name (ns ! i) = sn_name (ns ! j) \<Longrightarrow> i = j"
  by (metis index_match_def option.inject)

lemma index_match_update:
  "index_match ns ix \<Longrightarrow> sn_name n = sn_name (ns ! i) \<Longrightarrow> index_match (ns[i := n]) ix"
  by (cases "i < length ns") (auto simp: index_match_def nth_list_update list_update_beyond)

lemma live_update: "i < length ns \<Longrightarrow> live (ns[i := n]) j \<longleftrightarrow> (if j = i then \<not> sn_removed n else live ns j)"
  by (auto simp: live_def nth_list_update)

text \<open>Changing one node: what becomes of its edges.\<close>

lemma users_match_update:
  assumes ix: "index_match ns ix" and u: "users_match ns U" and i: "live ns i"
    and name: "sn_name n = sn_name (ns ! i)"
  shows "users_match (ns[i := n])
    (\<lambda>v. (U v - (if v \<in> set (sn_inputs (ns ! i)) then {sn_name (ns ! i)} else {})) \<union>
         (if \<not> sn_removed n \<and> v \<in> set (sn_inputs n) then {sn_name (ns ! i)} else {}))"
proof -
  have il: "i < length ns" using i by (simp add: live_def)
  have other: "sn_name (ns ! j) \<noteq> sn_name (ns ! i)" if "live ns j" "j \<noteq> i" for j
    using index_match_inj[OF ix, of j i] that il by (auto simp: live_def)
  show ?thesis
    unfolding users_match_def
  proof (intro allI impI)
    fix v :: string assume "v \<noteq> []"
    then have U: "U v = {sn_name (ns ! j) |j. live ns j \<and> v \<in> set (sn_inputs (ns ! j))}"
      using u by (simp add: users_match_def)
    have "{sn_name (ns[i := n] ! j) |j. live (ns[i := n]) j \<and> v \<in> set (sn_inputs (ns[i := n] ! j))} =
        {sn_name (ns ! j) |j. j \<noteq> i \<and> live ns j \<and> v \<in> set (sn_inputs (ns ! j))} \<union>
        (if \<not> sn_removed n \<and> v \<in> set (sn_inputs n) then {sn_name (ns ! i)} else {})"
      using il name by (auto simp: live_update nth_list_update split: if_splits)
    moreover have "U v - (if v \<in> set (sn_inputs (ns ! i)) then {sn_name (ns ! i)} else {}) =
        {sn_name (ns ! j) |j. j \<noteq> i \<and> live ns j \<and> v \<in> set (sn_inputs (ns ! j))}"
      unfolding U using other i by auto
    ultimately show "(U v - (if v \<in> set (sn_inputs (ns ! i)) then {sn_name (ns ! i)} else {})) \<union>
         (if \<not> sn_removed n \<and> v \<in> set (sn_inputs n) then {sn_name (ns ! i)} else {}) =
        {sn_name (ns[i := n] ! j) |j. live (ns[i := n]) j \<and> v \<in> set (sn_inputs (ns[i := n] ! j))}"
      by simp
  qed
qed

lemma users_match_changed:
  assumes "index_match ns ix" and "users_match ns U" and "live ns i"
    and "sn_name n = sn_name (ns ! i)" and "\<not> sn_removed n"
    and "\<And>v. v \<noteq> [] \<Longrightarrow> U' v = (U v - (if v \<in> set (sn_inputs (ns ! i)) then {sn_name (ns ! i)} else {})) \<union>
           (if v \<in> set (sn_inputs n) then {sn_name (ns ! i)} else {})"
  shows "users_match (ns[i := n]) U'"
  unfolding users_match_def
proof (intro allI impI)
  fix v :: string assume v: "v \<noteq> []"
  note up = users_match_update[OF assms(1,2,3,4), unfolded users_match_def, rule_format, OF v]
  show "U' v = {sn_name (ns[i := n] ! j) |j. live (ns[i := n]) j \<and> v \<in> set (sn_inputs (ns[i := n] ! j))}"
    unfolding up[symmetric] assms(6)[OF v] by (simp add: assms(5))
qed

lemma producers_match_drop:
  assumes ix: "index_match ns ix" and p: "producers_match ns P" and i: "live ns i"
    and n: "sn_removed n"
  shows "producers_match (ns[i := n]) (\<lambda>v. if v \<in> set (sn_outputs (ns ! i)) \<and> P v = Some (sn_name (ns ! i)) then None else P v)"
proof -
  have il: "i < length ns" using i by (simp add: live_def)
  have "(if v \<in> set (sn_outputs (ns ! i)) \<and> P v = Some (sn_name (ns ! i)) then None else P v) = Some m \<longleftrightarrow>
      (\<exists>j. live (ns[i := n]) j \<and> sn_name (ns[i := n] ! j) = m \<and> v \<in> set (sn_outputs (ns[i := n] ! j)))" for v m
  proof -
    have "(\<exists>j. live (ns[i := n]) j \<and> sn_name (ns[i := n] ! j) = m \<and> v \<in> set (sn_outputs (ns[i := n] ! j))) \<longleftrightarrow>
        (\<exists>j. j \<noteq> i \<and> live ns j \<and> sn_name (ns ! j) = m \<and> v \<in> set (sn_outputs (ns ! j)))"
      using il n by (auto simp: live_update nth_list_update split: if_splits)
    moreover have "v \<in> set (sn_outputs (ns ! i)) \<Longrightarrow> P v = Some (sn_name (ns ! i))"
      using p i by (auto simp: producers_match_def)
    moreover have "P v = Some m \<longleftrightarrow> (\<exists>j. live ns j \<and> sn_name (ns ! j) = m \<and> v \<in> set (sn_outputs (ns ! j)))"
      using p by (simp add: producers_match_def)
    moreover have "j = i" if "live ns j" "sn_name (ns ! j) = sn_name (ns ! i)" for j
      using index_match_inj[OF ix] that il by (auto simp: live_def)
    ultimately show ?thesis by (cases "v \<in> set (sn_outputs (ns ! i))") auto
  qed
  then show ?thesis unfolding producers_match_def by blast
qed

lemma producers_match_same:
  assumes "producers_match ns P" and "i < length ns" and "sn_removed n = sn_removed (ns ! i)"
    and "sn_name n = sn_name (ns ! i)" and "sn_outputs n = sn_outputs (ns ! i)"
  shows "producers_match (ns[i := n]) P"
proof -
  have "live (ns[i := n]) j \<longleftrightarrow> live ns j" for j using assms(2,3) by (cases "j = i") (auto simp: live_def)
  moreover have "sn_name (ns[i := n] ! j) = sn_name (ns ! j)" "sn_outputs (ns[i := n] ! j) = sn_outputs (ns ! j)" for j
    using assms(2,4,5) by (auto simp: nth_list_update)
  ultimately show ?thesis using assms(1) by (simp add: producers_match_def)
qed

lemma users_match_same:
  assumes "users_match ns U" and "i < length ns" and "sn_removed n = sn_removed (ns ! i)"
    and "sn_name n = sn_name (ns ! i)" and "sn_inputs n = sn_inputs (ns ! i)"
  shows "users_match (ns[i := n]) U"
proof -
  have "live (ns[i := n]) j \<longleftrightarrow> live ns j" for j using assms(2,3) by (cases "j = i") (auto simp: live_def)
  moreover have "sn_name (ns[i := n] ! j) = sn_name (ns ! j)" "sn_inputs (ns[i := n] ! j) = sn_inputs (ns ! j)" for j
    using assms(2,4,5) by (auto simp: nth_list_update)
  ultimately show ?thesis using assms(1) by (simp add: users_match_def)
qed

lemma aliases_wf_update:
  assumes "aliases_wf ns al" and "i < length ns" and "sn_removed (ns ! i) \<longrightarrow> sn_removed n"
  shows "aliases_wf (ns[i := n]) al"
proof -
  have ns: "ns = take i ns @ ns ! i # drop (Suc i) ns" using assms(2) by (rule id_take_nth_drop)
  have "length (filter sn_removed ns) = length (filter sn_removed (take i ns)) +
      (if sn_removed (ns ! i) then 1 else 0) + length (filter sn_removed (drop (Suc i) ns))"
    by (subst ns) simp
  moreover have "length (filter sn_removed (ns[i := n])) = length (filter sn_removed (take i ns)) +
      (if sn_removed n then 1 else 0) + length (filter sn_removed (drop (Suc i) ns))"
    using assms(2) by (simp add: upd_conv_take_nth_drop)
  ultimately show ?thesis using assms(1,3) by (auto simp: aliases_wf_def split: if_splits)
qed

text \<open>The edge operations change nothing but their index, and that as sets.\<close>

lemma RegisterValueUse_sel [simp]:
  "g_nodes (RegisterValueUse v n g) = g_nodes g" "g_index (RegisterValueUse v n g) = g_index g"
  "g_producer (RegisterValueUse v n g) = g_producer g" "g_aliases (RegisterValueUse v n g) = g_aliases g"
  "g_env (RegisterValueUse v n g) = g_env g" "g_model (RegisterValueUse v n g) = g_model g"
  "g_built (RegisterValueUse v n g) = g_built g" "g_bound (RegisterValueUse v n g) = g_bound g"
  by (simp_all add: RegisterValueUse_def Let_def)

lemma UnregisterValueUse_sel [simp]:
  "g_nodes (UnregisterValueUse v n g) = g_nodes g" "g_index (UnregisterValueUse v n g) = g_index g"
  "g_producer (UnregisterValueUse v n g) = g_producer g" "g_aliases (UnregisterValueUse v n g) = g_aliases g"
  "g_env (UnregisterValueUse v n g) = g_env g" "g_model (UnregisterValueUse v n g) = g_model g"
  "g_built (UnregisterValueUse v n g) = g_built g" "g_bound (UnregisterValueUse v n g) = g_bound g"
  by (simp_all add: UnregisterValueUse_def Let_def split: option.split)

lemma user_set_Register: "user_set (RegisterValueUse v n g) u = user_set g u \<union> (if u = v then {n} else {})"
  by (auto simp: RegisterValueUse_def user_set_def GetUsers_def Let_def split: option.splits)

lemma user_set_Unregister: "user_set (UnregisterValueUse v n g) u = user_set g u - (if u = v then {n} else {})"
  by (auto simp: UnregisterValueUse_def user_set_def GetUsers_def Let_def filter_empty_conv
      split: option.splits if_splits)

lemma users_wf_Register: "users_wf (g_users g) \<Longrightarrow> users_wf (g_users (RegisterValueUse v n g))"
  by (auto simp: RegisterValueUse_def users_wf_def Let_def split: option.splits)

lemma users_wf_Unregister: "users_wf (g_users g) \<Longrightarrow> users_wf (g_users (UnregisterValueUse v n g))"
  by (auto simp: UnregisterValueUse_def users_wf_def Let_def split: option.splits if_splits)

lemma unregister_all_sel [simp]:
  "g_nodes (unregister_all vs n g) = g_nodes g" "g_index (unregister_all vs n g) = g_index g"
  "g_producer (unregister_all vs n g) = g_producer g" "g_aliases (unregister_all vs n g) = g_aliases g"
  "g_env (unregister_all vs n g) = g_env g" "g_model (unregister_all vs n g) = g_model g"
  "g_built (unregister_all vs n g) = g_built g" "g_bound (unregister_all vs n g) = g_bound g"
  by (induction vs arbitrary: g) (simp_all add: unregister_all_def)

lemma register_all_sel [simp]:
  "g_nodes (register_all vs n g) = g_nodes g" "g_index (register_all vs n g) = g_index g"
  "g_producer (register_all vs n g) = g_producer g" "g_aliases (register_all vs n g) = g_aliases g"
  "g_env (register_all vs n g) = g_env g" "g_model (register_all vs n g) = g_model g"
  "g_built (register_all vs n g) = g_built g" "g_bound (register_all vs n g) = g_bound g"
  by (induction vs arbitrary: g) (simp_all add: register_all_def)

lemma user_set_unregister_all:
  "user_set (unregister_all vs n g) u = user_set g u - (if u \<in> set vs then {n} else {})"
  by (induction vs arbitrary: g) (auto simp: unregister_all_def user_set_Unregister split: if_splits)

lemma user_set_register_all:
  "user_set (register_all vs n g) u = user_set g u \<union> (if u \<in> set vs then {n} else {})"
  by (induction vs arbitrary: g) (auto simp: register_all_def user_set_Register)

lemma users_wf_unregister_all: "users_wf (g_users g) \<Longrightarrow> users_wf (g_users (unregister_all vs n g))"
  by (induction vs arbitrary: g) (auto simp: unregister_all_def users_wf_Unregister)

lemma users_wf_register_all: "users_wf (g_users g) \<Longrightarrow> users_wf (g_users (register_all vs n g))"
  by (induction vs arbitrary: g) (auto simp: register_all_def users_wf_Register)

lemma set_node_sel [simp]:
  "g_nodes (set_node i n g) = (g_nodes g)[i := n]" "g_index (set_node i n g) = g_index g"
  "g_producer (set_node i n g) = g_producer g" "g_aliases (set_node i n g) = g_aliases g"
  "g_users (set_node i n g) = g_users g" "user_set (set_node i n g) = user_set g"
  "g_env (set_node i n g) = g_env g" "g_model (set_node i n g) = g_model g"
  by (simp_all add: set_node_def user_set_def GetUsers_def fun_eq_iff)

lemma forget_outputs:
  defines "f \<equiv> \<lambda>n vs g. foldl (\<lambda>g v. forget_output n v g) g vs"
  shows "g_nodes (f n vs g) = g_nodes g" and "g_index (f n vs g) = g_index g"
    and "g_aliases (f n vs g) = g_aliases g" and "g_model (f n vs g) = g_model g"
    and "g_env (f n vs g) = g_env g"
    and "g_producer (f n vs g) = (\<lambda>v. if v \<in> set vs \<and> g_producer g v = Some n then None else g_producer g v)"
    and "g_users (f n vs g) = (\<lambda>v. if v \<in> set vs then None else g_users g v)"
  unfolding f_def
  by (induction vs arbitrary: g) (auto simp: forget_output_def fun_eq_iff split: if_splits)

lemma RecordBuildDescriptor_sel [simp]:
  "g_nodes (RecordBuildDescriptor v g) = g_nodes g" "g_index (RecordBuildDescriptor v g) = g_index g"
  "g_producer (RecordBuildDescriptor v g) = g_producer g" "g_aliases (RecordBuildDescriptor v g) = g_aliases g"
  "g_users (RecordBuildDescriptor v g) = g_users g" "user_set (RecordBuildDescriptor v g) = user_set g"
  "g_env (RecordBuildDescriptor v g) = g_env g" "g_model (RecordBuildDescriptor v g) = g_model g"
  by (simp_all add: RecordBuildDescriptor_def user_set_def GetUsers_def fun_eq_iff split: option.split)

lemma record_descriptors_sel [simp]:
  "g_nodes (record_descriptors vs g) = g_nodes g" "g_index (record_descriptors vs g) = g_index g"
  "g_producer (record_descriptors vs g) = g_producer g" "g_aliases (record_descriptors vs g) = g_aliases g"
  "g_users (record_descriptors vs g) = g_users g" "user_set (record_descriptors vs g) = user_set g"
  by (induction vs arbitrary: g) (simp_all add: record_descriptors_def)

lemma graph_inv_cong:
  assumes "graph_inv g" and "g_nodes g' = g_nodes g" and "g_index g' = g_index g"
    and "g_users g' = g_users g" and "g_producer g' = g_producer g" and "g_aliases g' = g_aliases g"
  shows "graph_inv g'"
proof -
  have "user_set g' = user_set g" using assms(4) by (simp add: user_set_def GetUsers_def fun_eq_iff)
  then show ?thesis using assms by (simp add: graph_inv_def)
qed

text \<open>Dropping a node whose outputs nobody reads.\<close>

lemma graph_inv_drop:
  assumes inv: "graph_inv g" and i: "live (g_nodes g) i"
    and nodes: "g_nodes g' = (g_nodes g)[i := (g_nodes g ! i)\<lparr>sn_removed := True, sn_op := None\<rparr>]"
    and index: "g_index g' = g_index g"
    and prod: "g_producer g' = (\<lambda>v. if v \<in> set (sn_outputs (g_nodes g ! i)) \<and>
                  g_producer g v = Some (sn_name (g_nodes g ! i)) then None else g_producer g v)"
    and users: "\<And>v. user_set g' v = user_set g v -
                  (if v \<in> set (sn_inputs (g_nodes g ! i)) then {sn_name (g_nodes g ! i)} else {})"
    and wf: "users_wf (g_users g')" and al: "aliases_wf (g_nodes g') (g_aliases g')"
  shows "graph_inv g'"
proof -
  let ?n = "(g_nodes g ! i)\<lparr>sn_removed := True, sn_op := None\<rparr>"
  have ix: "index_match (g_nodes g) (g_index g)" using inv by (simp add: graph_inv_def)
  have "index_match (g_nodes g') (g_index g')"
    unfolding nodes index by (rule index_match_update[OF ix]) simp
  moreover have "users_match (g_nodes g') (user_set g')"
  proof -
    have "users_match (g_nodes g) (user_set g)" using inv by (simp add: graph_inv_def)
    from users_match_update[OF ix this i, of ?n] show ?thesis
      unfolding nodes using users by (simp add: users_match_def)
  qed
  moreover have "producers_match (g_nodes g') (g_producer g')"
    unfolding nodes prod by (rule producers_match_drop[OF ix _ i]) (use inv in \<open>simp_all add: graph_inv_def\<close>)
  ultimately show ?thesis using wf al by (simp add: graph_inv_def)
qed

lemma GetNodeIndex_live:
  assumes "graph_inv g" and "GetNodeIndex g name = Some i"
  shows "live (g_nodes g) i \<and> sn_name (g_nodes g ! i) = name"
  using assms by (auto simp: GetNodeIndex_def graph_inv_def index_match_def live_def split: option.splits if_splits)

lemma graph_inv_RemoveNode:
  assumes inv: "graph_inv g"
  shows "graph_inv (snd (RemoveNode name g))"
proof (cases "fst (RemoveNode name g)")
  case False
  then have "snd (RemoveNode name g) = g"
    by (auto simp: RemoveNode_def Let_def split: option.splits if_splits)
  then show ?thesis using inv by simp
next
  case True
  then obtain i where gi: "GetNodeIndex g name = Some i"
    and none: "\<And>v. v \<in> set (sn_outputs (g_nodes g ! i)) \<Longrightarrow> GetUsers g v = []"
    and r: "snd (RemoveNode name g) = drop_node i (foldl (\<lambda>g v. forget_output name v g)
        (unregister_all (sn_inputs (g_nodes g ! i)) name g) (sn_outputs (g_nodes g ! i)))"
    by (auto simp: RemoveNode_def Let_def split: option.splits if_splits)
  from GetNodeIndex_live[OF inv gi] have i: "live (g_nodes g) i" "sn_name (g_nodes g ! i) = name" by auto
  let ?u = "unregister_all (sn_inputs (g_nodes g ! i)) name g"
  have uw: "users_wf (g_users ?u)" using inv by (simp add: graph_inv_def users_wf_unregister_all)
  show ?thesis
  proof (rule graph_inv_drop[OF inv i(1)])
    show "g_nodes (snd (RemoveNode name g)) = (g_nodes g)[i := (g_nodes g ! i)\<lparr>sn_removed := True, sn_op := None\<rparr>]"
      "g_index (snd (RemoveNode name g)) = g_index g"
      unfolding r by (simp_all add: drop_node_def forget_outputs)
    show "g_producer (snd (RemoveNode name g)) = (\<lambda>v. if v \<in> set (sn_outputs (g_nodes g ! i)) \<and>
        g_producer g v = Some (sn_name (g_nodes g ! i)) then None else g_producer g v)"
      unfolding r using i(2) by (intro ext) (simp add: drop_node_def forget_outputs)
    show "users_wf (g_users (snd (RemoveNode name g)))"
      unfolding r using uw by (auto simp: drop_node_def forget_outputs users_wf_def)
    have "aliases_wf (g_nodes g) (g_aliases g)" using inv by (simp add: graph_inv_def)
    then show "aliases_wf (g_nodes (snd (RemoveNode name g))) (g_aliases (snd (RemoveNode name g)))"
      unfolding r using i(1) by (auto simp: drop_node_def forget_outputs live_def intro: aliases_wf_update)
    fix v
    have "user_set (snd (RemoveNode name g)) v = (if v \<in> set (sn_outputs (g_nodes g ! i)) then {} else user_set ?u v)"
      unfolding r by (simp add: drop_node_def user_set_def GetUsers_def forget_outputs)
    moreover have "v \<in> set (sn_outputs (g_nodes g ! i)) \<Longrightarrow> user_set g v = {}"
      using none by (simp add: user_set_def)
    ultimately show "user_set (snd (RemoveNode name g)) v = user_set g v -
        (if v \<in> set (sn_inputs (g_nodes g ! i)) then {sn_name (g_nodes g ! i)} else {})"
      using i(2) by (auto simp: user_set_unregister_all)
  qed
qed

lemma aliases_wf_drop_insert:
  assumes "aliases_wf ns al" and "live ns i" and "sn_removed n"
  shows "aliases_wf (ns[i := n]) (al(x \<mapsto> y))"
proof -
  have i: "i < length ns" "\<not> sn_removed (ns ! i)" using assms(2) by (auto simp: live_def)
  have ns: "ns = take i ns @ ns ! i # drop (Suc i) ns" using i(1) by (rule id_take_nth_drop)
  have "length (filter sn_removed ns) = length (filter sn_removed (take i ns)) +
      length (filter sn_removed (drop (Suc i) ns))"
    using i(2) by (subst ns) simp
  moreover have "length (filter sn_removed (ns[i := n])) = Suc (length (filter sn_removed (take i ns)) +
      length (filter sn_removed (drop (Suc i) ns)))"
    using i(1) assms(3) by (simp add: upd_conv_take_nth_drop)
  moreover have "card (insert x (dom al)) \<le> Suc (card (dom al))" by (rule card_insert_le_m1) auto
  ultimately show ?thesis using assms(1) by (auto simp: aliases_wf_def)
qed

lemma RemoveNodeWithOutputAliasE:
  assumes "fst (RemoveNodeWithOutputAlias name g)"
  obtains i inp out p q where "GetNodeIndex g name = Some i"
    and "sn_inputs (g_nodes g ! i) = [inp]" and "sn_outputs (g_nodes g ! i) = [out]"
    and "out \<in> set (gd_outputs (md_graph (g_model g)))" and "GetUsers g out = []"
    and "GetTensor g inp = Some p" and "GetTensor g out = Some q"
    and "same_descriptor (tensor_at g p) (tensor_at g q)"
    and "snd (RemoveNodeWithOutputAlias name g) =
      RecordBuildDescriptor out (drop_node i (forget_output name out (UnregisterValueUse inp name
        (g\<lparr>g_env := put_tensor out p (g_env g), g_aliases := (g_aliases g)(out \<mapsto> inp)\<rparr>))))"
proof -
  from assms obtain i where i: "GetNodeIndex g name = Some i"
    by (auto simp: RemoveNodeWithOutputAlias_def split: option.splits)
  from assms i have "length (sn_inputs (g_nodes g ! i)) = 1" "length (sn_outputs (g_nodes g ! i)) = 1"
    by (auto simp: RemoveNodeWithOutputAlias_def Let_def split: if_splits)
  then obtain inp out where io: "sn_inputs (g_nodes g ! i) = [inp]" "sn_outputs (g_nodes g ! i) = [out]"
    by (auto simp: length_Suc_conv)
  from assms i io obtain p q where pq: "GetTensor g inp = Some p" "GetTensor g out = Some q"
    by (auto simp: RemoveNodeWithOutputAlias_def Let_def split: if_splits option.splits)
  have "out \<in> set (gd_outputs (md_graph (g_model g)))" "GetUsers g out = []"
    "same_descriptor (tensor_at g p) (tensor_at g q)"
    using assms i io pq by (auto simp: RemoveNodeWithOutputAlias_def Let_def split: if_splits)
  then show thesis
    using assms i io pq
    by (intro that[OF i io _ _ pq]) (auto simp: RemoveNodeWithOutputAlias_def Let_def)
qed

lemma graph_inv_RemoveNodeWithOutputAlias:
  assumes inv: "graph_inv g"
  shows "graph_inv (snd (RemoveNodeWithOutputAlias name g))"
proof (cases "fst (RemoveNodeWithOutputAlias name g)")
  case False
  then have "snd (RemoveNodeWithOutputAlias name g) = g"
    by (auto simp: RemoveNodeWithOutputAlias_def Let_def split: option.splits if_splits)
  then show ?thesis using inv by simp
next
  case True
  then obtain i inp out p where gi: "GetNodeIndex g name = Some i"
    and io: "sn_inputs (g_nodes g ! i) = [inp]" "sn_outputs (g_nodes g ! i) = [out]"
    and none: "GetUsers g out = []"
    and r: "snd (RemoveNodeWithOutputAlias name g) =
      RecordBuildDescriptor out (drop_node i (forget_output name out (UnregisterValueUse inp name
        (g\<lparr>g_env := put_tensor out p (g_env g), g_aliases := (g_aliases g)(out \<mapsto> inp)\<rparr>))))"
    by (rule RemoveNodeWithOutputAliasE) blast
  let ?g0 = "g\<lparr>g_env := put_tensor out p (g_env g), g_aliases := (g_aliases g)(out \<mapsto> inp)\<rparr>"
  let ?u = "UnregisterValueUse inp name ?g0"
  from GetNodeIndex_live[OF inv gi] have i: "live (g_nodes g) i" "sn_name (g_nodes g ! i) = name" by auto
  have u0: "user_set ?g0 = user_set g" by (simp add: user_set_def GetUsers_def fun_eq_iff)
  have uw: "users_wf (g_users ?u)" by (rule users_wf_Unregister) (use inv in \<open>simp add: graph_inv_def\<close>)
  show ?thesis
  proof (rule graph_inv_drop[OF inv i(1)])
    show "g_nodes (snd (RemoveNodeWithOutputAlias name g)) =
        (g_nodes g)[i := (g_nodes g ! i)\<lparr>sn_removed := True, sn_op := None\<rparr>]"
      "g_index (snd (RemoveNodeWithOutputAlias name g)) = g_index g"
      unfolding r by (simp_all add: drop_node_def forget_output_def)
    show "g_producer (snd (RemoveNodeWithOutputAlias name g)) = (\<lambda>v. if v \<in> set (sn_outputs (g_nodes g ! i)) \<and>
        g_producer g v = Some (sn_name (g_nodes g ! i)) then None else g_producer g v)"
      unfolding r using i(2) io by (intro ext) (auto simp: drop_node_def forget_output_def)
    show "users_wf (g_users (snd (RemoveNodeWithOutputAlias name g)))"
      unfolding r using uw by (auto simp: drop_node_def forget_output_def users_wf_def)
    have "aliases_wf (g_nodes g) (g_aliases g)" using inv by (simp add: graph_inv_def)
    then show "aliases_wf (g_nodes (snd (RemoveNodeWithOutputAlias name g))) (g_aliases (snd (RemoveNodeWithOutputAlias name g)))"
      unfolding r using i(1) aliases_wf_drop_insert by (simp add: drop_node_def forget_output_def)
    fix v
    have "user_set (snd (RemoveNodeWithOutputAlias name g)) v = (if v = out then {} else user_set ?u v)"
      unfolding r by (simp add: drop_node_def user_set_def GetUsers_def forget_output_def)
    moreover have "user_set g out = {}" using none by (simp add: user_set_def)
    ultimately show "user_set (snd (RemoveNodeWithOutputAlias name g)) v = user_set g v -
        (if v \<in> set (sn_inputs (g_nodes g ! i)) then {sn_name (g_nodes g ! i)} else {})"
      using i(2) io by (auto simp: user_set_Unregister u0)
  qed
qed

text \<open>Installing outputs: the producer of each is the node, and nothing else of the indices moves.\<close>

lemma install_outputs_sel:
  "g_nodes (snd (install_outputs n outs g)) = g_nodes g \<and> g_index (snd (install_outputs n outs g)) = g_index g \<and>
   g_users (snd (install_outputs n outs g)) = g_users g \<and> g_aliases (snd (install_outputs n outs g)) = g_aliases g \<and>
   g_model (snd (install_outputs n outs g)) = g_model g"
  by (induction n outs g rule: install_outputs.induct) (auto simp: Let_def split: prod.splits)

lemma install_outputs_producer:
  "\<exists>S \<subseteq> set (map fst outs). g_producer (snd (install_outputs n outs g)) =
     (\<lambda>v. if v \<in> S then Some n else g_producer g v) \<and> (fst (install_outputs n outs g) \<longrightarrow> S = set (map fst outs))"
proof (induction n outs g rule: install_outputs.induct)
  case (1 n g)
  then show ?case by auto
next
  case (2 n v rest g)
  then show ?case by (intro exI[of _ "{}"]) auto
next
  case (3 n v p rest g)
  obtain st e where r: "RestoreDeclaredTensorMetadata (g_model g) v p (g_env g) = (st, e)" by fastforce
  show ?case
  proof (cases "ok st")
    case False
    then show ?thesis using r by (intro exI[of _ "{}"]) auto
  next
    case True
    let ?g = "g\<lparr>g_env := put_tensor v p e, g_producer := (g_producer g)(v \<mapsto> n)\<rparr>"
    from 3[OF r[symmetric] refl] True obtain S where S: "S \<subseteq> set (map fst rest)"
      "g_producer (snd (install_outputs n rest ?g)) = (\<lambda>v. if v \<in> S then Some n else g_producer ?g v)"
      "fst (install_outputs n rest ?g) \<longrightarrow> S = set (map fst rest)" by auto
    show ?thesis
      by (rule exI[of _ "insert v S"]) (use S r True in \<open>auto simp: fun_eq_iff\<close>)
  qed
qed

lemma user_set_install: "user_set (snd (install_outputs n outs g)) = user_set g"
  using install_outputs_sel[of n outs g] by (simp add: user_set_def GetUsers_def fun_eq_iff)

lemma node_outputs_names [simp]: "map fst (node_outputs_of vs oper) = vs"
  by (simp add: node_outputs_of_def comp_def map_nth)

lemma producers_install_same:
  assumes "producers_match ns P" and "live ns i" and "S \<subseteq> set (sn_outputs (ns ! i))"
  shows "(\<lambda>v. if v \<in> S then Some (sn_name (ns ! i)) else P v) = P"
proof
  fix v
  have "v \<in> S \<Longrightarrow> P v = Some (sn_name (ns ! i))" using assms by (auto simp: producers_match_def)
  then show "(if v \<in> S then Some (sn_name (ns ! i)) else P v) = P v" by simp
qed

lemma graph_inv_RebuildNode:
  assumes inv: "graph_inv g"
  shows "graph_inv (snd (RebuildNode reg i g))"
proof (cases "i \<ge> length (g_nodes g) \<or> sn_removed (g_nodes g ! i)")
  case True
  then show ?thesis using inv by (simp add: RebuildNode_def)
next
  case False
  then have i: "live (g_nodes g) i" by (simp add: live_def)
  let ?node = "g_nodes g ! i"
  let ?desc = "\<lparr>nd_name = sn_name ?node, nd_op_type = sn_op_type ?node,
      nd_domain = (case model_node g (sn_name ?node) of None \<Rightarrow> [] | Some d \<Rightarrow> nd_domain d),
      nd_inputs = sn_inputs ?node, nd_outputs = sn_outputs ?node,
      nd_attributes = (case model_node g (sn_name ?node) of None \<Rightarrow> Map.empty | Some d \<Rightarrow> nd_attributes d)\<rparr>"
  obtain oper st e where c: "Create reg ?desc (g_env g) = ((oper, st), e)" by (metis surj_pair)
  show ?thesis
  proof (cases oper)
    case None
    then have "snd (RebuildNode reg i g) = g\<lparr>g_env := e\<rparr>"
      using False c by (simp add: RebuildNode_def Let_def)
    then show ?thesis using inv by (auto intro: graph_inv_cong)
  next
    case (Some ob)
    let ?n = "?node\<lparr>sn_op := Some ob, sn_semantics := GetOperatorSemantics (r_semantics reg) (sn_op_type ?node)\<rparr>"
    let ?g2 = "set_node i ?n (g\<lparr>g_env := e\<rparr>)"
    have len: "i < length (g_nodes g)" using i by (simp add: live_def)
    have ix: "index_match (g_nodes g) (g_index g)" using inv by (simp add: graph_inv_def)
    have inv2: "graph_inv ?g2"
      unfolding graph_inv_def
    proof (intro conjI)
      show "index_match (g_nodes ?g2) (g_index ?g2)" using index_match_update[OF ix, of ?n i] by simp
      have us: "user_set ?g2 = user_set g" by (simp add: user_set_def GetUsers_def fun_eq_iff set_node_def)
      have "users_match (g_nodes g) (user_set g)" using inv by (simp add: graph_inv_def)
      then show "users_match (g_nodes ?g2) (user_set ?g2)"
        unfolding us using users_match_same[of "g_nodes g" "user_set g" i ?n] len by simp
      show "producers_match (g_nodes ?g2) (g_producer ?g2)"
        using producers_match_same[of "g_nodes g" "g_producer g" i ?n] inv len by (simp add: graph_inv_def)
      show "users_wf (g_users ?g2)" using inv by (simp add: graph_inv_def)
      show "aliases_wf (g_nodes ?g2) (g_aliases ?g2)"
        using aliases_wf_update[of "g_nodes g" "g_aliases g" i ?n] inv len by (simp add: graph_inv_def)
    qed
    let ?g3 = "snd (install_outputs (sn_name ?node) (node_outputs_of (sn_outputs ?node) ob) ?g2)"
    obtain S where S: "S \<subseteq> set (sn_outputs ?node)"
      "g_producer ?g3 = (\<lambda>v. if v \<in> S then Some (sn_name ?node) else g_producer ?g2 v)"
      using install_outputs_producer[of "node_outputs_of (sn_outputs ?node) ob" "sn_name ?node" ?g2] by auto
    have g2p: "g_producer ?g2 = g_producer g" by simp
    have pm: "producers_match (g_nodes g) (g_producer g)" using inv by (simp add: graph_inv_def)
    have "g_producer ?g3 = g_producer ?g2"
      unfolding S(2) g2p by (rule producers_install_same[OF pm i S(1)])
    then have inv3: "graph_inv ?g3"
      using graph_inv_cong[OF inv2] install_outputs_sel[of "sn_name ?node" "node_outputs_of (sn_outputs ?node) ob" ?g2]
      by simp
    have "snd (RebuildNode reg i g) = ?g3 \<or> snd (RebuildNode reg i g) = record_descriptors (sn_outputs ?node) ?g3"
      using False c Some by (auto simp: RebuildNode_def Let_def split: prod.splits)
    then show ?thesis
    proof
      assume "snd (RebuildNode reg i g) = record_descriptors (sn_outputs ?node) ?g3"
      then show ?thesis using graph_inv_cong[OF inv3, of "record_descriptors (sn_outputs ?node) ?g3"] by simp
    qed (use inv3 in simp)
  qed
qed

text \<open>One step of \<open>ReplaceInputValue\<close>: the node loses one use of the old value.\<close>

definition replaced_upto :: "string \<Rightarrow> string \<Rightarrow> nat \<Rightarrow> string list \<Rightarrow> string list" where
  "replaced_upto v_from v_to k xs = map (\<lambda>x. if x = v_from then v_to else x) (take k xs) @ drop k xs"

lemma replaced_upto_Suc:
  assumes "k < length xs"
  shows "replaced_upto v_from v_to k xs ! k = xs ! k"
    and "replaced_upto v_from v_to (Suc k) xs =
      (replaced_upto v_from v_to k xs)[k := if xs ! k = v_from then v_to else xs ! k]"
proof -
  have drop: "drop k xs = xs ! k # drop (Suc k) xs" using assms by (simp add: Cons_nth_drop_Suc)
  show "replaced_upto v_from v_to k xs ! k = xs ! k" using assms by (simp add: replaced_upto_def nth_append)
  show "replaced_upto v_from v_to (Suc k) xs =
      (replaced_upto v_from v_to k xs)[k := if xs ! k = v_from then v_to else xs ! k]"
    using assms unfolding replaced_upto_def drop
    by (simp add: take_Suc_conv_app_nth list_update_append)
qed

definition input_replaced ::
  "string \<Rightarrow> string \<Rightarrow> string \<Rightarrow> nat \<Rightarrow> nat \<Rightarrow> StaticGraph \<Rightarrow> StaticGraph \<Rightarrow> bool" where
  "input_replaced n v_from v_to i k g g' \<longleftrightarrow>
     g_nodes g' = (g_nodes g)[i := (g_nodes g ! i)\<lparr>sn_inputs := replaced_upto v_from v_to k (sn_inputs (g_nodes g ! i))\<rparr>] \<and>
     g_index g' = g_index g \<and> g_producer g' = g_producer g \<and> g_aliases g' = g_aliases g \<and>
     g_model g' = g_model g \<and> g_env g' = g_env g \<and> users_wf (g_users g') \<and>
     (\<forall>v. user_set g' v =
        (if v_from \<in> set (take k (sn_inputs (g_nodes g ! i)))
         then (user_set g v - (if v = v_from then {n} else {})) \<union> (if v = v_to then {n} else {})
         else user_set g v))"

lemma replace_inputs_state:
  assumes wf: "users_wf (g_users g)" and i: "i < length (g_nodes g)"
    and k: "k \<le> length (sn_inputs (g_nodes g ! i))"
  shows "input_replaced n v_from v_to i k g (foldl (\<lambda>g k. replace_input_at n v_from v_to i k g) g [0..<k])"
  using k
proof (induction k)
  case 0
  then show ?case using wf by (simp add: input_replaced_def replaced_upto_def)
next
  case (Suc k)
  let ?xs = "sn_inputs (g_nodes g ! i)" let ?h = "foldl (\<lambda>g k. replace_input_at n v_from v_to i k g) g [0..<k]"
  have k: "k < length ?xs" using Suc.prems by simp
  have IH: "input_replaced n v_from v_to i k g ?h" using Suc by simp
  have node: "g_nodes ?h ! i = (g_nodes g ! i)\<lparr>sn_inputs := replaced_upto v_from v_to k ?xs\<rparr>"
    using IH i by (simp add: input_replaced_def)
  have step: "foldl (\<lambda>g k. replace_input_at n v_from v_to i k g) g [0..<Suc k] = replace_input_at n v_from v_to i k ?h"
    by simp
  have kth: "sn_inputs (g_nodes ?h ! i) ! k = ?xs ! k" using node replaced_upto_Suc(1)[OF k] by simp
  have tk: "set (take (Suc k) ?xs) = insert (?xs ! k) (set (take k ?xs))"
    using k by (simp add: take_Suc_conv_app_nth)
  show ?case
  proof (cases "?xs ! k = v_from")
    case False
    have "replaced_upto v_from v_to (Suc k) ?xs = replaced_upto v_from v_to k ?xs"
      using replaced_upto_Suc[OF k, of v_from v_to] False by (metis list_update_id)
    moreover have "replace_input_at n v_from v_to i k ?h = ?h" using kth False by (simp add: replace_input_at_def)
    ultimately show ?thesis using IH False unfolding step input_replaced_def tk by auto
  next
    case True
    let ?g1 = "UnregisterValueUse v_from n ?h"
    let ?g2 = "set_node i ((g_nodes ?h ! i)\<lparr>sn_inputs := (sn_inputs (g_nodes ?h ! i))[k := v_to]\<rparr>) ?g1"
    have r: "replace_input_at n v_from v_to i k ?h = RegisterValueUse v_to n ?g2"
      using kth True by (simp add: replace_input_at_def Let_def)
    have up: "replaced_upto v_from v_to (Suc k) ?xs = (replaced_upto v_from v_to k ?xs)[k := v_to]"
      using replaced_upto_Suc(2)[OF k] True by simp
    have nodes: "g_nodes (RegisterValueUse v_to n ?g2) =
        (g_nodes g)[i := (g_nodes g ! i)\<lparr>sn_inputs := replaced_upto v_from v_to (Suc k) ?xs\<rparr>]"
      using IH node up by (simp add: input_replaced_def)
    have us: "user_set (RegisterValueUse v_to n ?g2) v =
        (user_set ?h v - (if v = v_from then {n} else {})) \<union> (if v = v_to then {n} else {})" for v
      by (simp add: user_set_Register user_set_Unregister)
    have "user_set (RegisterValueUse v_to n ?g2) v =
        (user_set g v - (if v = v_from then {n} else {})) \<union> (if v = v_to then {n} else {})" for v
      unfolding us using IH by (auto simp: input_replaced_def)
    moreover have "users_wf (g_users (RegisterValueUse v_to n ?g2))"
      by (rule users_wf_Register) (use IH in \<open>simp add: input_replaced_def users_wf_Unregister\<close>)
    ultimately show ?thesis
      using IH nodes True unfolding step r input_replaced_def tk by simp
  qed
qed

lemma graph_inv_inputs_replaced:
  assumes inv: "graph_inv g" and i: "live (g_nodes g) i" "sn_name (g_nodes g ! i) = n"
    and r: "input_replaced n v_from v_to i (length (sn_inputs (g_nodes g ! i))) g g'"
    and m: "v_from \<in> set (sn_inputs (g_nodes g ! i))"
  shows "graph_inv g'"
proof -
  let ?xs = "sn_inputs (g_nodes g ! i)"
  let ?ys = "map (\<lambda>x. if x = v_from then v_to else x) ?xs"
  let ?n = "(g_nodes g ! i)\<lparr>sn_inputs := ?ys\<rparr>"
  have sel: "sn_inputs ?n = ?ys" by simp
  have len: "i < length (g_nodes g)" using i by (simp add: live_def)
  have nodes: "g_nodes g' = (g_nodes g)[i := ?n]" using r by (simp add: input_replaced_def replaced_upto_def)
  have ix: "index_match (g_nodes g) (g_index g)" using inv by (simp add: graph_inv_def)
  have um: "users_match (g_nodes g) (user_set g)" using inv by (simp add: graph_inv_def)
  have us: "user_set g' v = (user_set g v - (if v = v_from then {n} else {})) \<union> (if v = v_to then {n} else {})" for v
    using r m by (simp add: input_replaced_def)
  have mem: "v \<noteq> [] \<Longrightarrow> v \<in> set ?xs \<Longrightarrow> n \<in> user_set g v" for v
    using um i by (auto simp: users_match_def)
  have ys: "v \<in> set ?ys \<longleftrightarrow> v \<in> set ?xs \<and> v \<noteq> v_from \<or> v = v_to" for v using m by auto
  have "users_match (g_nodes g') (user_set g')"
    unfolding nodes
  proof (rule users_match_changed[OF ix um i(1)])
    fix v :: string assume v: "v \<noteq> []"
    have "user_set g' v = (user_set g v - (if v \<in> set ?xs then {n} else {})) \<union> (if v \<in> set ?ys then {n} else {})"
      unfolding us ys using mem[OF v] m by auto
    then show "user_set g' v = (user_set g v - (if v \<in> set ?xs then {sn_name (g_nodes g ! i)} else {})) \<union>
        (if v \<in> set (sn_inputs ?n) then {sn_name (g_nodes g ! i)} else {})"
      unfolding i(2) sel .
  qed (use i in \<open>simp_all add: live_def\<close>)
  moreover have "index_match (g_nodes g') (g_index g')"
    using index_match_update[OF ix, of ?n i] r nodes by (simp add: input_replaced_def)
  moreover have "producers_match (g_nodes g') (g_producer g')"
    using producers_match_same[of "g_nodes g" "g_producer g" i ?n] inv len r nodes
    by (simp add: graph_inv_def input_replaced_def)
  moreover have "aliases_wf (g_nodes g') (g_aliases g')"
    using aliases_wf_update[of "g_nodes g" "g_aliases g" i ?n] inv len r nodes
    by (simp add: graph_inv_def input_replaced_def)
  ultimately show ?thesis using r by (simp add: graph_inv_def input_replaced_def)
qed

lemma graph_inv_ReplaceInputValue:
  assumes inv: "graph_inv g"
  shows "graph_inv (snd (ReplaceInputValue reg name v_from v_to g))"
proof (cases "GetNodeIndex g name")
  case None
  then show ?thesis using inv by (simp add: ReplaceInputValue_def)
next
  case (Some i)
  from GetNodeIndex_live[OF inv Some] have i: "live (g_nodes g) i" "sn_name (g_nodes g ! i) = name" by auto
  show ?thesis
  proof (cases "v_from \<in> set (sn_inputs (g_nodes g ! i))")
    case False
    then show ?thesis using inv Some by (simp add: ReplaceInputValue_def)
  next
    case True
    have "input_replaced name v_from v_to i (length (sn_inputs (g_nodes g ! i))) g
        (foldl (\<lambda>g k. replace_input_at name v_from v_to i k g) g [0..<length (sn_inputs (g_nodes g ! i))])"
      by (rule replace_inputs_state) (use inv i in \<open>simp_all add: graph_inv_def live_def\<close>)
    from graph_inv_RebuildNode[OF graph_inv_inputs_replaced[OF inv i this True], of reg i]
    show ?thesis using Some True by (simp add: ReplaceInputValue_def)
  qed
qed


text \<open>A node rewritten in place keeps its outputs; its inputs are unregistered and registered again.\<close>

definition rewired :: "nat \<Rightarrow> StaticNode \<Rightarrow> StaticGraph \<Rightarrow> StaticGraph" where
  "rewired i n g = register_all (sn_inputs n) (sn_name n)
     (set_node i n (unregister_all (sn_inputs (g_nodes g ! i)) (sn_name n) g))"

lemma rewired_sel:
  "g_nodes (rewired i n g) = (g_nodes g)[i := n]" "g_index (rewired i n g) = g_index g"
  "g_producer (rewired i n g) = g_producer g" "g_aliases (rewired i n g) = g_aliases g"
  "user_set (rewired i n g) v = (user_set g v - (if v \<in> set (sn_inputs (g_nodes g ! i)) then {sn_name n} else {})) \<union>
     (if v \<in> set (sn_inputs n) then {sn_name n} else {})"
  "users_wf (g_users g) \<Longrightarrow> users_wf (g_users (rewired i n g))"
  by (simp_all add: rewired_def user_set_register_all user_set_unregister_all users_wf_register_all
      users_wf_unregister_all)

lemma graph_inv_rewired:
  assumes inv: "graph_inv g" and i: "live (g_nodes g) i" and n: "sn_name n = sn_name (g_nodes g ! i)" "\<not> sn_removed n"
  shows "index_match (g_nodes (rewired i n g)) (g_index (rewired i n g))"
    and "users_match (g_nodes (rewired i n g)) (user_set (rewired i n g))"
    and "users_wf (g_users (rewired i n g))"
    and "aliases_wf (g_nodes (rewired i n g)) (g_aliases (rewired i n g))"
proof -
  have len: "i < length (g_nodes g)" "\<not> sn_removed (g_nodes g ! i)" using i by (simp_all add: live_def)
  have ix: "index_match (g_nodes g) (g_index g)" using inv by (simp add: graph_inv_def)
  have um: "users_match (g_nodes g) (user_set g)" using inv by (simp add: graph_inv_def)
  show "index_match (g_nodes (rewired i n g)) (g_index (rewired i n g))"
    unfolding rewired_sel by (rule index_match_update[OF ix n(1)])
  show "users_match (g_nodes (rewired i n g)) (user_set (rewired i n g))"
    unfolding rewired_sel(1)
    by (rule users_match_changed[OF ix um i n]) (use inv in \<open>simp_all add: graph_inv_def rewired_sel n(1)\<close>)
  show "users_wf (g_users (rewired i n g))" by (rule rewired_sel) (use inv in \<open>simp add: graph_inv_def\<close>)
  show "aliases_wf (g_nodes (rewired i n g)) (g_aliases (rewired i n g))"
    unfolding rewired_sel by (rule aliases_wf_update) (use inv len in \<open>simp_all add: graph_inv_def\<close>)
qed

lemma replace_model_node_sel [simp]:
  "g_nodes (replace_model_node d g) = g_nodes g" "g_index (replace_model_node d g) = g_index g"
  "g_producer (replace_model_node d g) = g_producer g" "g_aliases (replace_model_node d g) = g_aliases g"
  "g_users (replace_model_node d g) = g_users g" "user_set (replace_model_node d g) = user_set g"
  by (simp_all add: replace_model_node_def user_set_def GetUsers_def Let_def fun_eq_iff)

lemma graph_inv_ReplaceNodeDesc:
  assumes inv: "graph_inv g"
  shows "graph_inv (snd (ReplaceNodeDesc reg desc g))"
proof (cases "snd (ReplaceNodeDesc reg desc g) = g \<or> (\<exists>e. snd (ReplaceNodeDesc reg desc g) = g\<lparr>g_env := e\<rparr>)")
  case True
  then show ?thesis using inv by (auto intro: graph_inv_cong)
next
  case False
  then obtain i where ix: "g_index g (nd_name desc) = Some i" and live: "\<not> sn_removed (g_nodes g ! i)"
    by (auto simp: ReplaceNodeDesc_def Let_def split: option.splits if_splits)
  obtain oper st e where c: "Create reg desc (g_env g) = ((oper, st), e)" by (metis surj_pair)
  from False ix c obtain ob where ob: "oper = Some ob"
    by (cases oper) (auto simp: ReplaceNodeDesc_def Let_def split: if_splits)
  have i: "live (g_nodes g) i" "sn_name (g_nodes g ! i) = nd_name desc"
    using inv ix live by (auto simp: graph_inv_def index_match_def live_def)
  let ?n = "(g_nodes g ! i)\<lparr>sn_op_type := nd_op_type desc, sn_inputs := nd_inputs desc, sn_op := Some ob,
     sn_semantics := GetOperatorSemantics (r_semantics reg) (nd_op_type desc)\<rparr>"
  let ?h = "rewired i ?n (g\<lparr>g_env := e\<rparr>)"
  let ?outs = "node_outputs_of (sn_outputs (g_nodes g ! i)) ob"
  let ?k = "snd (install_outputs (nd_name desc) ?outs ?h)"
  have inv1: "graph_inv (g\<lparr>g_env := e\<rparr>)" using inv by (auto intro: graph_inv_cong)
  have h: "graph_inv ?h"
    unfolding graph_inv_def
  proof (intro conjI)
    have pm: "producers_match (g_nodes g) (g_producer g)" using inv by (simp add: graph_inv_def)
    show "producers_match (g_nodes ?h) (g_producer ?h)"
      unfolding rewired_sel using producers_match_same[OF pm, of i ?n] i by (simp add: live_def)
  qed (rule graph_inv_rewired[OF inv1]; use i live in simp)+
  obtain S where S: "S \<subseteq> set (sn_outputs (g_nodes g ! i))"
    "g_producer ?k = (\<lambda>v. if v \<in> S then Some (nd_name desc) else g_producer ?h v)"
    using install_outputs_producer[of ?outs "nd_name desc" ?h] by auto
  have pm: "producers_match (g_nodes ?h) (g_producer ?h)" using h by (simp add: graph_inv_def)
  have nth: "g_nodes ?h ! i = ?n" "live (g_nodes ?h) i"
    using i live by (simp_all add: rewired_sel live_def)
  have Sh: "S \<subseteq> set (sn_outputs (g_nodes ?h ! i))" unfolding nth using S(1) by simp
  have nm: "sn_name (g_nodes ?h ! i) = nd_name desc" unfolding nth using i by simp
  have "g_producer ?k = g_producer ?h"
    unfolding S(2) using producers_install_same[OF pm nth(2) Sh] unfolding nm .
  then have k: "graph_inv ?k"
    using graph_inv_cong[OF h] install_outputs_sel[of "nd_name desc" ?outs ?h] by simp
  have "snd (ReplaceNodeDesc reg desc g) = ?k \<or>
      snd (ReplaceNodeDesc reg desc g) = record_descriptors (sn_outputs (g_nodes g ! i)) (replace_model_node desc ?k)"
    using False ix c ob i(2) unfolding ReplaceNodeDesc_def
    by (auto simp: Let_def rewired_def split: prod.splits if_splits)
  then show ?thesis
  proof
    assume r: "snd (ReplaceNodeDesc reg desc g) =
      record_descriptors (sn_outputs (g_nodes g ! i)) (replace_model_node desc ?k)"
    show ?thesis unfolding r by (rule graph_inv_cong[OF k]) simp_all
  qed (use k in simp)
qed

lemma graph_inv_ReplaceNodeOp:
  "graph_inv g \<Longrightarrow> graph_inv (snd (ReplaceNodeOp reg name op_type inputs g))"
  unfolding ReplaceNodeOp_def by (rule graph_inv_ReplaceNodeDesc)


lemma producers_match_absorb:
  assumes ix: "index_match ns ix" and p: "producers_match ns P" and i: "live ns i" and j: "live ns j" "j \<noteq> i"
    and n: "sn_name n = sn_name (ns ! i)" "\<not> sn_removed n"
    and outs: "set (sn_outputs n) = set (sn_outputs (ns ! i)) \<union> set (sn_outputs (ns ! j))"
    and m: "sn_removed m"
  shows "producers_match (ns[i := n, j := m])
    (\<lambda>v. if v \<in> set (sn_outputs n) then Some (sn_name (ns ! i)) else P v)"
proof -
  let ?ns = "ns[i := n, j := m]"
  have il: "i < length ns" and jl: "j < length ns" using i j by (simp_all add: live_def)
  have inj: "a = b" if "live ns a" "live ns b" "sn_name (ns ! a) = sn_name (ns ! b)" for a b
    using index_match_inj[OF ix] that by (auto simp: live_def)
  have one: "a = b" if "live ns a" "live ns b" "v \<in> set (sn_outputs (ns ! a))" "v \<in> set (sn_outputs (ns ! b))" for a b v
    using p that inj unfolding producers_match_def by (metis option.inject)
  have lv: "live ?ns k \<longleftrightarrow> k = i \<or> (k \<noteq> i \<and> k \<noteq> j \<and> live ns k)" for k
    using il jl n(2) m j(2) by (auto simp: live_def nth_list_update)
  have nth: "k \<noteq> i \<Longrightarrow> k \<noteq> j \<Longrightarrow> ?ns ! k = ns ! k" "?ns ! i = n" for k
    using il jl j(2) by (auto simp: nth_list_update)
  have "(if v \<in> set (sn_outputs n) then Some (sn_name (ns ! i)) else P v) = Some nm \<longleftrightarrow>
      (\<exists>k. live ?ns k \<and> sn_name (?ns ! k) = nm \<and> v \<in> set (sn_outputs (?ns ! k)))" for v nm
  proof (cases "v \<in> set (sn_outputs n)")
    case True
    have "k = i" if "live ?ns k" "v \<in> set (sn_outputs (?ns ! k))" for k
    proof (rule ccontr)
      assume k: "k \<noteq> i"
      then have "k \<noteq> j" "live ns k" using that(1) lv by auto
      then show False using that(2) k True outs one[of k i v] one[of k j v] i j by (auto simp: nth(1))
    qed
    then have "(\<exists>k. live ?ns k \<and> sn_name (?ns ! k) = nm \<and> v \<in> set (sn_outputs (?ns ! k))) \<longleftrightarrow>
        live ?ns i \<and> sn_name (?ns ! i) = nm \<and> v \<in> set (sn_outputs (?ns ! i))" by blast
    then show ?thesis unfolding nth(2) using True lv[of i] n(1) by simp
  next
    case False
    then have v: "v \<notin> set (sn_outputs (ns ! i))" "v \<notin> set (sn_outputs (ns ! j))" using outs by auto
    have "P v = Some nm \<longleftrightarrow> (\<exists>k. live ns k \<and> sn_name (ns ! k) = nm \<and> v \<in> set (sn_outputs (ns ! k)))"
      using p by (simp add: producers_match_def)
    also have "\<dots> \<longleftrightarrow> (\<exists>k. live ?ns k \<and> sn_name (?ns ! k) = nm \<and> v \<in> set (sn_outputs (?ns ! k)))"
      using v False nth lv by metis
    finally show ?thesis using False by simp
  qed
  then show ?thesis unfolding producers_match_def by blast
qed

lemma AbsorbE:
  assumes inv: "graph_inv g" and succ: "fst (ReplaceNodeDescAndAbsorbNode reg desc absorbed g)"
  obtains i j ob e h where "live (g_nodes g) i" and "sn_name (g_nodes g ! i) = nd_name desc"
    and "live (g_nodes g) j" and "sn_name (g_nodes g ! j) = absorbed" and "j \<noteq> i"
    and "set (nd_outputs desc) = set (sn_outputs (g_nodes g ! i)) \<union> set (sn_outputs (g_nodes g ! j))"
    and "h = rewired i ((g_nodes g ! i)\<lparr>sn_op_type := nd_op_type desc, sn_inputs := nd_inputs desc,
            sn_outputs := nd_outputs desc, sn_op := Some ob,
            sn_semantics := GetOperatorSemantics (r_semantics reg) (nd_op_type desc)\<rparr>) (g\<lparr>g_env := e\<rparr>)"
    and "fst (install_outputs (nd_name desc) (node_outputs_of (nd_outputs desc) ob) h)"
    and "snd (ReplaceNodeDescAndAbsorbNode reg desc absorbed g) = record_descriptors (nd_outputs desc)
       (drop_node j (unregister_all (sn_inputs (g_nodes g ! j)) absorbed (replace_model_node desc
          (snd (install_outputs (nd_name desc) (node_outputs_of (nd_outputs desc) ob) h)))))"
proof -
  from succ obtain i j where ij: "g_index g (nd_name desc) = Some i" "g_index g absorbed = Some j"
    by (auto simp: ReplaceNodeDescAndAbsorbNode_def split: option.splits)
  from succ ij have al: "nd_name desc \<noteq> absorbed" "absorb_allowed g desc absorbed (g_nodes g ! i) (g_nodes g ! j)"
    by (auto simp: ReplaceNodeDescAndAbsorbNode_def Let_def split: if_splits)
  obtain oper st e where c: "Create reg desc (g_env g) = ((oper, st), e)" by (metis surj_pair)
  from succ ij c obtain ob where ob: "oper = Some ob"
    by (cases oper) (auto simp: ReplaceNodeDescAndAbsorbNode_def Let_def split: if_splits)
  have len: "i < length (g_nodes g)" "j < length (g_nodes g)"
    and nm: "sn_name (g_nodes g ! i) = nd_name desc" "sn_name (g_nodes g ! j) = absorbed"
    using inv ij by (auto simp: graph_inv_def index_match_def)
  have lv: "live (g_nodes g) i" "live (g_nodes g) j" using len al(2) by (simp_all add: live_def absorb_allowed_def)
  have "set (nd_outputs desc) = set (take (length (sn_outputs (g_nodes g ! i))) (nd_outputs desc)) \<union>
      set (drop (length (sn_outputs (g_nodes g ! i))) (nd_outputs desc))"
    by (metis append_take_drop_id set_append)
  then have outs: "set (nd_outputs desc) = set (sn_outputs (g_nodes g ! i)) \<union> set (sn_outputs (g_nodes g ! j))"
    using al(2) by (simp add: absorb_allowed_def)
  let ?h = "rewired i ((g_nodes g ! i)\<lparr>sn_op_type := nd_op_type desc, sn_inputs := nd_inputs desc,
            sn_outputs := nd_outputs desc, sn_op := Some ob,
            sn_semantics := GetOperatorSemantics (r_semantics reg) (nd_op_type desc)\<rparr>) (g\<lparr>g_env := e\<rparr>)"
  obtain d k where dk: "install_outputs (nd_name desc) (node_outputs_of (nd_outputs desc) ob) ?h = (d, k)"
    by fastforce
  have "d" "snd (ReplaceNodeDescAndAbsorbNode reg desc absorbed g) = record_descriptors (nd_outputs desc)
       (drop_node j (unregister_all (sn_inputs (g_nodes g ! j)) absorbed (replace_model_node desc k)))"
    using succ ij al c ob nm dk
    by (auto simp: ReplaceNodeDescAndAbsorbNode_def Let_def rewired_def split: if_splits)
  moreover have "j \<noteq> i" using al(1) nm by auto
  ultimately show thesis
    using that[OF lv(1) nm(1) lv(2) nm(2) _ outs refl, of ob e] dk by simp
qed

lemma graph_inv_Absorb:
  assumes inv: "graph_inv g" and succ: "fst (ReplaceNodeDescAndAbsorbNode reg desc absorbed g)"
  shows "graph_inv (snd (ReplaceNodeDescAndAbsorbNode reg desc absorbed g))"
proof -
  from AbsorbE[OF inv succ] obtain i j ob e h where i: "live (g_nodes g) i" "sn_name (g_nodes g ! i) = nd_name desc"
    and j: "live (g_nodes g) j" "sn_name (g_nodes g ! j) = absorbed" "j \<noteq> i"
    and outs: "set (nd_outputs desc) = set (sn_outputs (g_nodes g ! i)) \<union> set (sn_outputs (g_nodes g ! j))"
    and h: "h = rewired i ((g_nodes g ! i)\<lparr>sn_op_type := nd_op_type desc, sn_inputs := nd_inputs desc,
            sn_outputs := nd_outputs desc, sn_op := Some ob,
            sn_semantics := GetOperatorSemantics (r_semantics reg) (nd_op_type desc)\<rparr>) (g\<lparr>g_env := e\<rparr>)"
    and d: "fst (install_outputs (nd_name desc) (node_outputs_of (nd_outputs desc) ob) h)"
    and r: "snd (ReplaceNodeDescAndAbsorbNode reg desc absorbed g) = record_descriptors (nd_outputs desc)
       (drop_node j (unregister_all (sn_inputs (g_nodes g ! j)) absorbed (replace_model_node desc
          (snd (install_outputs (nd_name desc) (node_outputs_of (nd_outputs desc) ob) h)))))"
    .
  let ?n = "(g_nodes g ! i)\<lparr>sn_op_type := nd_op_type desc, sn_inputs := nd_inputs desc,
            sn_outputs := nd_outputs desc, sn_op := Some ob,
            sn_semantics := GetOperatorSemantics (r_semantics reg) (nd_op_type desc)\<rparr>"
  let ?k = "snd (install_outputs (nd_name desc) (node_outputs_of (nd_outputs desc) ob) h)"
  let ?m = "(g_nodes g ! j)\<lparr>sn_removed := True, sn_op := None\<rparr>"
  let ?r = "snd (ReplaceNodeDescAndAbsorbNode reg desc absorbed g)"
  have il: "i < length (g_nodes g)" "\<not> sn_removed (g_nodes g ! i)" using i by (simp_all add: live_def)
  have ix: "index_match (g_nodes g) (g_index g)" using inv by (simp add: graph_inv_def)
  have inv1: "graph_inv (g\<lparr>g_env := e\<rparr>)" using inv by (auto intro: graph_inv_cong)
  have g0: "g_nodes (g\<lparr>g_env := e\<rparr>) = g_nodes g" by simp
  note hw = graph_inv_rewired[OF inv1, of i ?n, folded h, unfolded g0, OF i(1)]
  have hix: "index_match (g_nodes h) (g_index h)" and hum: "users_match (g_nodes h) (user_set h)"
    and huw: "users_wf (g_users h)" and hal: "aliases_wf (g_nodes h) (g_aliases h)"
    by (rule hw; use il in simp)+
  note k = install_outputs_sel[of "nd_name desc" "node_outputs_of (nd_outputs desc) ob" h]
  have hn: "g_nodes h = (g_nodes g)[i := ?n]" and hp: "g_producer h = g_producer g"
    unfolding h by (simp_all add: rewired_sel)
  have hj: "g_nodes h ! j = g_nodes g ! j" "live (g_nodes h) j"
    unfolding hn using j il by (simp_all add: live_def)
  obtain S where S: "g_producer ?k = (\<lambda>v. if v \<in> S then Some (nd_name desc) else g_producer h v)"
    "S = set (nd_outputs desc)"
    using install_outputs_producer[of "node_outputs_of (nd_outputs desc) ob" "nd_name desc" h] d by auto
  have nodes: "g_nodes ?r = (g_nodes h)[j := ?m]" unfolding r using k hj by (simp add: drop_node_def)
  have us: "user_set ?r v = user_set h v - (if v \<in> set (sn_inputs (g_nodes h ! j)) then {sn_name (g_nodes h ! j)} else {})" for v
    unfolding r hj(1) j(2)
    by (simp add: drop_node_def user_set_unregister_all user_set_install)
  have "index_match (g_nodes ?r) (g_index ?r)"
    unfolding nodes using index_match_update[OF hix, of ?m j] hj(1) k by (simp add: r drop_node_def)
  moreover have "users_match (g_nodes ?r) (user_set ?r)"
  proof -
    have nm: "sn_name ?m = sn_name (g_nodes h ! j)" using hj(1) by simp
    have "user_set ?r = (\<lambda>v. (user_set h v - (if v \<in> set (sn_inputs (g_nodes h ! j)) then {sn_name (g_nodes h ! j)} else {})) \<union>
         (if \<not> sn_removed ?m \<and> v \<in> set (sn_inputs ?m) then {sn_name (g_nodes h ! j)} else {}))"
      unfolding us by (rule ext) simp
    then show ?thesis unfolding nodes using users_match_update[OF hix hum hj(2) nm] by simp
  qed
  moreover have "producers_match (g_nodes ?r) (g_producer ?r)"
  proof -
    have "g_producer ?r = (\<lambda>v. if v \<in> set (sn_outputs ?n) then Some (sn_name (g_nodes g ! i)) else g_producer g v)"
      unfolding r using S hp i(2) by (simp add: drop_node_def fun_eq_iff)
    moreover have "producers_match ((g_nodes g)[i := ?n, j := ?m])
      (\<lambda>v. if v \<in> set (sn_outputs ?n) then Some (sn_name (g_nodes g ! i)) else g_producer g v)"
      by (rule producers_match_absorb[OF ix _ i(1) j(1,3)]) (use inv outs il in \<open>simp_all add: graph_inv_def\<close>)
    ultimately show ?thesis unfolding nodes hn by simp
  qed
  moreover have "users_wf (g_users ?r)"
    unfolding r using huw k by (simp add: drop_node_def users_wf_unregister_all)
  moreover have "aliases_wf (g_nodes ?r) (g_aliases ?r)"
    unfolding nodes using aliases_wf_update[OF hal, of j ?m] hj k by (simp add: r drop_node_def live_def)
  ultimately show ?thesis by (simp add: graph_inv_def)
qed


section \<open>Following output aliases\<close>

fun alias_step :: "nat \<Rightarrow> (string \<rightharpoonup> string) \<Rightarrow> string \<Rightarrow> string option" where
  "alias_step 0 al cur = Some cur"
| "alias_step (Suc k) al cur = (case al cur of None \<Rightarrow> None | Some n \<Rightarrow> alias_step k al n)"

definition alias_rel :: "(string \<rightharpoonup> string) \<Rightarrow> (string \<times> string) set" where
  "alias_rel al = {(a, b). al a = Some b}"

lemma alias_step_Suc: "alias_step (Suc k) al cur = Option.bind (alias_step k al cur) al"
proof (induction k arbitrary: cur)
  case 0
  then show ?case by (simp split: option.split)
next
  case (Suc k)
  show ?case
  proof (cases "al cur")
    case None
    then show ?thesis by simp
  next
    case (Some n)
    have "alias_step (Suc (Suc k)) al cur = alias_step (Suc k) al n"
      using Some by (subst alias_step.simps(2)) simp
    also have "\<dots> = Option.bind (alias_step k al n) al" by (rule Suc.IH)
    also have "alias_step k al n = alias_step (Suc k) al cur" using Some by simp
    finally show ?thesis .
  qed
qed

lemma alias_step_add: "alias_step i al c = alias_step j al c \<Longrightarrow> alias_step (i + d) al c = alias_step (j + d) al c"
  by (induction d) (simp_all add: alias_step_Suc del: alias_step.simps)

lemma alias_step_rtrancl: "(c, v) \<in> (alias_rel al)\<^sup>* \<longleftrightarrow> (\<exists>k. alias_step k al c = Some v)"
proof
  assume "(c, v) \<in> (alias_rel al)\<^sup>*"
  then show "\<exists>k. alias_step k al c = Some v"
  proof (induction rule: rtrancl_induct)
    case base
    then show ?case using alias_step.simps(1) by blast
  next
    case (step y z)
    then obtain k where "alias_step k al c = Some y" by auto
    then have "alias_step (Suc k) al c = Some z"
      unfolding alias_step_Suc using step(2) by (simp add: alias_rel_def)
    then show ?case by blast
  qed
next
  assume "\<exists>k. alias_step k al c = Some v"
  then obtain k where "alias_step k al c = Some v" ..
  then show "(c, v) \<in> (alias_rel al)\<^sup>*"
  proof (induction k arbitrary: c)
    case (Suc k)
    then show ?case
      by (auto simp: alias_rel_def split: option.splits intro: converse_rtrancl_into_rtrancl)
  qed simp
qed

lemma alias_walk_sound: "alias_walk fuel al seen v c \<Longrightarrow> (c, v) \<in> (alias_rel al)\<^sup>*"
  by (induction fuel arbitrary: seen c)
    (auto simp: alias_rel_def split: if_splits option.splits intro: converse_rtrancl_into_rtrancl)

lemma alias_walk_steps:
  assumes "alias_step k al c = Some v" and "k < fuel"
    and "inj_on (\<lambda>i. alias_step i al c) {..k}" and "\<forall>i \<le> k. \<forall>x \<in> seen. alias_step i al c \<noteq> Some x"
  shows "alias_walk fuel al seen v c"
  using assms
proof (induction fuel arbitrary: k c seen)
  case (Suc fuel)
  have c: "c \<notin> seen" using Suc.prems(4) by (metis alias_step.simps(1) le0)
  show ?case
  proof (cases "c = v")
    case True
    then show ?thesis using c by simp
  next
    case False
    then obtain k' where k: "k = Suc k'" using Suc.prems(1) by (cases k) auto
    then obtain n where n: "al c = Some n" "alias_step k' al n = Some v"
      using Suc.prems(1) by (auto split: option.splits)
    have st: "alias_step (Suc i) al c = alias_step i al n" for i using n by simp
    have "alias_walk fuel al (insert c seen) v n"
    proof (rule Suc.IH[OF n(2)])
      show "k' < fuel" using Suc.prems(2) k by simp
      show "inj_on (\<lambda>i. alias_step i al n) {..k'}"
      proof (rule inj_onI)
        fix i j assume "i \<in> {..k'}" "j \<in> {..k'}" "alias_step i al n = alias_step j al n"
        then show "i = j" using inj_onD[OF Suc.prems(3), of "Suc i" "Suc j"] k st by simp
      qed
      show "\<forall>i\<le>k'. \<forall>x\<in>insert c seen. alias_step i al n \<noteq> Some x"
      proof (intro allI impI ballI)
        fix i x assume i: "i \<le> k'" and x: "x \<in> insert c seen"
        have "alias_step (Suc i) al c \<noteq> Some c"
          using inj_onD[OF Suc.prems(3), of "Suc i" 0] i k by auto
        moreover have "x \<in> seen \<Longrightarrow> alias_step (Suc i) al c \<noteq> Some x"
          using Suc.prems(4) i k by (metis Suc_le_mono)
        ultimately show "alias_step i al n \<noteq> Some x" using x st by auto
      qed
    qed
    then show ?thesis using c False n by simp
  qed
qed simp

lemma alias_walk_complete:
  assumes "(c, v) \<in> (alias_rel al)\<^sup>*" and fin: "finite (dom al)" and fuel: "card (dom al) < fuel"
  shows "alias_walk fuel al {} v c"
proof -
  let ?P = "\<lambda>k. alias_step k al c = Some v"
  define k where "k = (LEAST k. ?P k)"
  have k: "?P k" using assms(1) unfolding alias_step_rtrancl k_def by (rule LeastI_ex)
  have least: "?P i \<Longrightarrow> k \<le> i" for i unfolding k_def by (rule Least_le)
  have "False" if "i < j" "j \<le> k" "alias_step i al c = alias_step j al c" for i j
  proof -
    have "alias_step (i + (k - j)) al c = alias_step (j + (k - j)) al c" by (rule alias_step_add[OF that(3)])
    then have "?P (i + (k - j))" using k that(2) by simp
    then show False using least that by fastforce
  qed
  then have inj: "inj_on (\<lambda>i. alias_step i al c) {..k}" by (intro inj_onI) (metis atMost_iff nat_neq_iff)
  have "alias_step i al c \<in> Some ` dom al" if "i < k" for i
  proof -
    have "alias_step (Suc i) al c \<noteq> None"
    proof
      assume "alias_step (Suc i) al c = None"
      then have "alias_step (Suc i + d) al c = None" for d
        by (induction d) (simp_all add: alias_step_Suc del: alias_step.simps)
      from this[of "k - Suc i"] show False using k that by simp
    qed
    then show ?thesis unfolding alias_step_Suc by (cases "alias_step i al c") auto
  qed
  then have "(\<lambda>i. alias_step i al c) ` {..<k} \<subseteq> Some ` dom al" by auto
  then have "card ((\<lambda>i. alias_step i al c) ` {..<k}) \<le> card (Some ` dom al)" using fin by (intro card_mono) auto
  moreover have "inj_on (\<lambda>i. alias_step i al c) {..<k}" using inj by (rule inj_on_subset) auto
  ultimately have "k \<le> card (dom al)" by (simp add: card_image)
  then show ?thesis using alias_walk_steps[OF k _ inj, of fuel "{}"] fuel by simp
qed

text \<open>Under the invariant the walk finds exactly the values an output stands for.\<close>

definition output_values :: "StaticGraph \<Rightarrow> string set" where
  "output_values g = {v. \<exists>output \<in> set (gd_outputs (md_graph (g_model g))). (output, v) \<in> (alias_rel (g_aliases g))\<^sup>*}"

lemma IsGraphOutputValue_iff:
  assumes "graph_inv g"
  shows "IsGraphOutputValue g v \<longleftrightarrow> v \<in> output_values g"
proof -
  have wf: "finite (dom (g_aliases g))" "card (dom (g_aliases g)) \<le> length (filter sn_removed (g_nodes g))"
    using assms by (auto simp: graph_inv_def aliases_wf_def)
  have "length (filter sn_removed (g_nodes g)) \<le> length (g_nodes g)" by (rule length_filter_le)
  then have fuel: "card (dom (g_aliases g)) < walk_fuel g" using wf(2) unfolding walk_fuel_def by linarith
  have "alias_walk (walk_fuel g) (g_aliases g) {} v c \<longleftrightarrow> (c, v) \<in> (alias_rel (g_aliases g))\<^sup>*" for c
    using alias_walk_sound alias_walk_complete[OF _ wf(1) fuel] by blast
  then show ?thesis by (auto simp: IsGraphOutputValue_def output_values_def)
qed

section \<open>Properties\<close>

text \<open>
  \<open>ReplaceNodeDescAndAbsorbNode\<close> has two ways to refuse.  Before it touches a node it leaves the
  graph as it is, up to what building the operator did to the tensors.  But a conflict of declared
  and inferred types is found while the outputs are installed, after the target has taken over the
  outputs of the node it absorbs, and then it stops half way: both nodes are live and write the
  same values.
\<close>

definition half_absorbed :: "OperatorRegistry \<Rightarrow> NodeDesc \<Rightarrow> string \<Rightarrow> StaticGraph \<Rightarrow> bool" where
  "half_absorbed reg desc absorbed g \<longleftrightarrow>
     (let (absorbs, g') = ReplaceNodeDescAndAbsorbNode reg desc absorbed g
      in \<not> absorbs \<and> map sn_outputs (g_nodes g') \<noteq> map sn_outputs (g_nodes g))"

lemma Absorb_refused:
  assumes inv: "graph_inv g" and no: "\<not> fst (ReplaceNodeDescAndAbsorbNode reg desc absorbed g)"
  shows "(\<exists>e. snd (ReplaceNodeDescAndAbsorbNode reg desc absorbed g) = g\<lparr>g_env := e\<rparr>) \<or>
    (\<exists>i j n. live (g_nodes g) i \<and> live (g_nodes g) j \<and> j \<noteq> i \<and>
       g_nodes (snd (ReplaceNodeDescAndAbsorbNode reg desc absorbed g)) = (g_nodes g)[i := n] \<and>
       \<not> sn_removed n \<and> sn_name n = sn_name (g_nodes g ! i) \<and>
       set (sn_outputs n) \<inter> set (sn_outputs (g_nodes g ! j)) \<noteq> {})"
proof (cases "g_index g (nd_name desc)"; cases "g_index g absorbed")
  fix i j assume ij: "g_index g (nd_name desc) = Some i" "g_index g absorbed = Some j"
  have len: "i < length (g_nodes g)" "j < length (g_nodes g)"
    and nm: "sn_name (g_nodes g ! i) = nd_name desc" "sn_name (g_nodes g ! j) = absorbed"
    using inv ij by (auto simp: graph_inv_def index_match_def)
  have same: "\<exists>e. g = g\<lparr>g_env := e\<rparr>" by (rule exI[of _ "g_env g"]) simp
  obtain oper st e where c: "Create reg desc (g_env g) = ((oper, st), e)" by (metis surj_pair)
  define refuses where "refuses \<longleftrightarrow> nd_name desc = [] \<or> nd_op_type desc = [] \<or> nd_name desc = absorbed \<or>
      \<not> absorb_allowed g desc absorbed (g_nodes g ! i) (g_nodes g ! j)"
  note run = ReplaceNodeDescAndAbsorbNode_def[of reg desc absorbed g, unfolded ij, simplified, unfolded Let_def,
      folded refuses_def, unfolded c, simplified]
  consider "refuses" | "\<not> refuses" "oper = None"
    | ob where "\<not> refuses" "oper = Some ob" "length (op_out ob) \<noteq> length (nd_outputs desc) \<or> None \<in> set (op_out ob)"
    | ob where "\<not> refuses" "oper = Some ob" "length (op_out ob) = length (nd_outputs desc)" "None \<notin> set (op_out ob)"
    by blast
  then show ?thesis
  proof cases
    case 1
    then show ?thesis using same by (simp add: run)
  next
    case 2
    then show ?thesis by (intro disjI1 exI[of _ e]) (simp add: run)
  next
    case (3 ob)
    then show ?thesis by (intro disjI1 exI[of _ e]) (simp add: run)
  next
    case (4 ob)
    then have al: "absorb_allowed g desc absorbed (g_nodes g ! i) (g_nodes g ! j)" "nd_name desc \<noteq> absorbed"
      by (simp_all add: refuses_def)
    let ?n = "(g_nodes g ! i)\<lparr>sn_op_type := nd_op_type desc, sn_inputs := nd_inputs desc,
        sn_outputs := nd_outputs desc, sn_op := Some ob,
        sn_semantics := GetOperatorSemantics (r_semantics reg) (nd_op_type desc)\<rparr>"
    obtain d k where dk: "install_outputs (sn_name (g_nodes g ! i)) (node_outputs_of (nd_outputs desc) ob)
        (register_all (nd_inputs desc) (nd_name desc) (set_node i ?n
          (unregister_all (sn_inputs (g_nodes g ! i)) (nd_name desc) (g\<lparr>g_env := e\<rparr>)))) = (d, k)" by fastforce
    have "g_nodes k = (g_nodes g)[i := ?n]"
      using install_outputs_sel[of "sn_name (g_nodes g ! i)" "node_outputs_of (nd_outputs desc) ob"] dk
      by (metis (no_types, lifting) set_node_def register_all_sel(1) unregister_all_sel(1) snd_conv
          StaticGraph.select_convs(4) StaticGraph.surjective StaticGraph.update_convs(2,4))
    moreover have "snd (ReplaceNodeDescAndAbsorbNode reg desc absorbed g) = k"
      using no 4 dk by (simp add: run split: if_splits)
    moreover have "live (g_nodes g) i" "live (g_nodes g) j" using len al(1) by (simp_all add: live_def absorb_allowed_def)
    moreover have "j \<noteq> i" using al(2) nm by auto
    moreover have "set (nd_outputs desc) \<inter> set (sn_outputs (g_nodes g ! j)) \<noteq> {}"
    proof -
      have d: "drop (length (sn_outputs (g_nodes g ! i))) (nd_outputs desc) = sn_outputs (g_nodes g ! j)"
        "length (sn_outputs (g_nodes g ! i)) < length (nd_outputs desc)"
        using al(1) by (simp_all add: absorb_allowed_def)
      then have "set (sn_outputs (g_nodes g ! j)) \<noteq> {}" by (metis drop_eq_Nil leD set_empty)
      then show ?thesis using set_drop_subset[of "length (sn_outputs (g_nodes g ! i))" "nd_outputs desc"] d(1) by (metis inf.absorb2)
    qed
    ultimately show ?thesis using \<open>live (g_nodes g) i\<close>
      by (intro disjI2 exI[of _ i] exI[of _ j] exI[of _ ?n]) (simp add: live_def)
  qed
qed (auto simp: ReplaceNodeDescAndAbsorbNode_def intro!: disjI1 exI[of _ "g_env g"])

text \<open>A call of it keeps the indices exactly if it does not stop half way.\<close>

lemma graph_inv_any_Absorb:
  assumes inv: "graph_inv g"
  shows "graph_inv (snd (ReplaceNodeDescAndAbsorbNode reg desc absorbed g)) \<longleftrightarrow> \<not> half_absorbed reg desc absorbed g"
proof (cases "fst (ReplaceNodeDescAndAbsorbNode reg desc absorbed g)")
  case True
  then show ?thesis using graph_inv_Absorb[OF inv] by (simp add: half_absorbed_def case_prod_beta)
next
  case False
  let ?r = "snd (ReplaceNodeDescAndAbsorbNode reg desc absorbed g)"
  from Absorb_refused[OF inv False] show ?thesis
  proof (elim disjE exE conjE)
    fix e assume "?r = g\<lparr>g_env := e\<rparr>"
    then have "graph_inv ?r" "g_nodes ?r = g_nodes g" using graph_inv_cong[OF inv] by simp_all
    then show ?thesis by (simp add: half_absorbed_def case_prod_beta)
  next
    fix i j n
    assume ij: "live (g_nodes g) i" "live (g_nodes g) j" "j \<noteq> i" and nodes: "g_nodes ?r = (g_nodes g)[i := n]"
      and n: "\<not> sn_removed n" "sn_name n = sn_name (g_nodes g ! i)"
      and "set (sn_outputs n) \<inter> set (sn_outputs (g_nodes g ! j)) \<noteq> {}"
    then obtain v where v: "v \<in> set (sn_outputs n)" "v \<in> set (sn_outputs (g_nodes g ! j))" by blast
    have lens: "i < length (g_nodes g)" "j < length (g_nodes g)" using ij by (simp_all add: live_def)
    have names: "sn_name (g_nodes g ! i) \<noteq> sn_name (g_nodes g ! j)"
      using index_match_inj[of "g_nodes g" "g_index g" i j] inv lens ij(3) by (auto simp: graph_inv_def)
    have lv: "live (g_nodes ?r) i" "live (g_nodes ?r) j"
      using ij n lens unfolding nodes by (simp_all add: live_update)
    have "\<not> producers_match (g_nodes ?r) (g_producer ?r)"
    proof
      assume P: "producers_match (g_nodes ?r) (g_producer ?r)"
      then have "g_producer ?r v = Some (sn_name (g_nodes ?r ! i))" "g_producer ?r v = Some (sn_name (g_nodes ?r ! j))"
        using lv v lens ij(3) unfolding producers_match_def nodes by (metis nth_list_update_eq nth_list_update_neq)+
      then show False using names n(2) lens ij(3) by (simp add: nodes)
    qed
    moreover have "map sn_outputs (g_nodes ?r) \<noteq> map sn_outputs (g_nodes g)"
    proof
      assume "map sn_outputs (g_nodes ?r) = map sn_outputs (g_nodes g)"
      then have "map sn_outputs (g_nodes ?r) ! i = map sn_outputs (g_nodes g) ! i" by simp
      then have "sn_outputs n = sn_outputs (g_nodes g ! i)" using lens by (simp add: nodes)
      moreover have "producers_match (g_nodes g) (g_producer g)" using inv by (simp add: graph_inv_def)
      ultimately show False using v names ij unfolding producers_match_def by (metis option.inject)
    qed
    ultimately show ?thesis using False by (auto simp: graph_inv_def half_absorbed_def case_prod_beta)
  qed
qed

text \<open>
  The rewriting operations a pass applies, whether they succeed or refuse; absorbing a node only
  if it does not stop half way.
\<close>

inductive graph_rewrite :: "OperatorRegistry \<Rightarrow> StaticGraph \<Rightarrow> StaticGraph \<Rightarrow> bool" for reg where
  "graph_rewrite reg g (snd (RemoveNode name g))"
| "graph_rewrite reg g (snd (RemoveNodeWithOutputAlias name g))"
| "graph_rewrite reg g (snd (ReplaceInputValue reg name v_from v_to g))"
| "graph_rewrite reg g (snd (ReplaceNodeDesc reg desc g))"
| "graph_rewrite reg g (snd (ReplaceNodeOp reg name op_type inputs g))"
| "\<not> half_absorbed reg desc absorbed g \<Longrightarrow>
   graph_rewrite reg g (snd (ReplaceNodeDescAndAbsorbNode reg desc absorbed g))"

definition demo_static_node :: "string \<Rightarrow> string \<Rightarrow> string \<Rightarrow> StaticNode" where
  "demo_static_node name inp out = \<lparr>sn_name = name, sn_op_type = ''Identity'', sn_inputs = [inp],
     sn_outputs = [out], sn_op = None, sn_semantics = default_semantics, sn_removed = False\<rparr>"

definition demo_heap :: world where
  "demo_heap = \<lparr>mem = \<lambda>_. 0, brk = 1, buffers = [], storages = [], next_version = 1, deferred_scope = False\<rparr>"

text \<open>\<open>x \<rightarrow> a \<rightarrow> y \<rightarrow> b \<rightarrow> z\<close>, and a node \<open>c\<close> that reads \<open>x\<close> for nobody; \<open>z\<close> is the output.\<close>

definition demo_graph :: StaticGraph where
  "demo_graph = \<lparr>g_model = \<lparr>md_name = ''m'', md_version = 1,
       md_graph = \<lparr>gd_name = ''g'', gd_inputs = [''x''], gd_outputs = [''z''], gd_values = [], gd_nodes = []\<rparr>,
       md_metadata = Map.empty, md_variants = []\<rparr>,
     g_env = \<lparr>e_heap = [empty_Tensor, empty_Tensor, empty_Tensor, empty_Tensor], e_world = demo_heap,
       e_tensors = [(''x'', 0), (''y'', 1), (''z'', 2), (''w'', 3)]\<rparr>,
     g_bound = {''x''},
     g_nodes = [demo_static_node ''a'' ''x'' ''y'', demo_static_node ''b'' ''y'' ''z'', demo_static_node ''c'' ''x'' ''w''],
     g_index = [''a'' \<mapsto> 0, ''b'' \<mapsto> 1, ''c'' \<mapsto> 2],
     g_producer = [''y'' \<mapsto> ''a'', ''z'' \<mapsto> ''b'', ''w'' \<mapsto> ''c''],
     g_users = [''x'' \<mapsto> [''a'', ''c''], ''y'' \<mapsto> [''b'']],
     g_aliases = Map.empty, g_build_time = {}, g_control = [], g_descriptors = [], g_built = True,
     g_device = COMMON\<rparr>"

text \<open>A registry whose builder answers the tensor already bound to the node's output.\<close>

definition demo_registry :: OperatorRegistry where
  "demo_registry = \<lparr>r_builders = [''Identity'' \<mapsto> (\<lambda>n e.
       ((Some \<lparr>op_out = map (env_tensor e) (nd_outputs n), op_kernel = Some 7\<rparr>, Ok), e))],
     r_finalize = (\<lambda>k. (Ok, Some k)), r_control_kernel = (\<lambda>_. None), r_run = (\<lambda>_ e. (0, e)),
     r_semantics = Builtins\<rparr>"

lemma demo_live: "live (g_nodes demo_graph) i \<longleftrightarrow> i < 3"
  by (auto simp: live_def demo_graph_def demo_static_node_def less_Suc_eq numeral_3_eq_3)

lemma less_3: "i < 3 \<longleftrightarrow> i = 0 \<or> i = 1 \<or> i = (2 :: nat)"
  by auto

lemma demo_graph_inv: "graph_inv demo_graph"
  unfolding graph_inv_def
proof (intro conjI)
  show "index_match (g_nodes demo_graph) (g_index demo_graph)"
    by (auto simp: index_match_def demo_graph_def demo_static_node_def less_Suc_eq)
  have ex3: "(\<exists>i. live (g_nodes demo_graph) i \<and> Q i) \<longleftrightarrow> Q 0 \<or> Q 1 \<or> Q 2" for Q
    by (auto simp: demo_live less_3)
  have set3: "{f i |i. live (g_nodes demo_graph) i \<and> Q i} = {x. x = f 0 \<and> Q 0 \<or> x = f 1 \<and> Q 1 \<or> x = f 2 \<and> Q 2}"
    for f :: "nat \<Rightarrow> string" and Q
  proof -
    have "{f i |i. live (g_nodes demo_graph) i \<and> Q i} = {x. \<exists>i. live (g_nodes demo_graph) i \<and> x = f i \<and> Q i}" by blast
    then show ?thesis unfolding ex3 .
  qed
  show "users_match (g_nodes demo_graph) (user_set demo_graph)"
    unfolding users_match_def set3
    by (auto simp: user_set_def GetUsers_def demo_graph_def demo_static_node_def)
  show "producers_match (g_nodes demo_graph) (g_producer demo_graph)"
    unfolding producers_match_def ex3
    by (auto simp: demo_graph_def demo_static_node_def)
  show "users_wf (g_users demo_graph)" by (auto simp: users_wf_def demo_graph_def)
  show "aliases_wf (g_nodes demo_graph) (g_aliases demo_graph)" by (simp add: aliases_wf_def demo_graph_def)
qed

lemma graph_inv_rewrite: "graph_rewrite reg g g' \<Longrightarrow> graph_inv g \<Longrightarrow> graph_inv g'"
  by (induction rule: graph_rewrite.induct)
    (simp_all add: graph_inv_RemoveNode graph_inv_RemoveNodeWithOutputAlias graph_inv_ReplaceInputValue
      graph_inv_ReplaceNodeDesc graph_inv_ReplaceNodeOp graph_inv_any_Absorb)

lemma graph_inv_graph_rewrite: "(graph_rewrite reg)\<^sup>*\<^sup>* g g' \<Longrightarrow> graph_inv g \<Longrightarrow> graph_inv g'"
  by (induction rule: rtranclp_induct) (auto intro: graph_inv_rewrite)

lemma user_set_live:
  assumes "graph_inv g" and "v \<noteq> []"
  shows "GetUsers g v = [] \<longleftrightarrow> (\<forall>j. live (g_nodes g) j \<longrightarrow> v \<notin> set (sn_inputs (g_nodes g ! j)))"
proof -
  have "users_match (g_nodes g) (user_set g)" using assms(1) by (simp add: graph_inv_def)
  then have "set (GetUsers g v) = {sn_name (g_nodes g ! i) |i. live (g_nodes g) i \<and> v \<in> set (sn_inputs (g_nodes g ! i))}"
    using assms(2) by (simp add: users_match_def user_set_def)
  then show ?thesis by (auto simp flip: set_empty)
qed

lemma RemoveNode_facts:
  assumes inv: "graph_inv g" and i: "live (g_nodes g) i" and ne: "[] \<notin> set (sn_outputs (g_nodes g ! i))"
  shows "fst (RemoveNode (sn_name (g_nodes g ! i)) g) \<longleftrightarrow>
      (\<forall>v \<in> set (sn_outputs (g_nodes g ! i)). v \<notin> output_values g \<and>
         (\<forall>j. live (g_nodes g) j \<longrightarrow> v \<notin> set (sn_inputs (g_nodes g ! j))))"
    and "fst (RemoveNode (sn_name (g_nodes g ! i)) g) \<Longrightarrow> g_nodes (snd (RemoveNode (sn_name (g_nodes g ! i)) g)) =
      (g_nodes g)[i := (g_nodes g ! i)\<lparr>sn_removed := True, sn_op := None\<rparr>]"
proof -
  have ix: "GetNodeIndex g (sn_name (g_nodes g ! i)) = Some i"
    using inv i by (auto simp: GetNodeIndex_def graph_inv_def index_match_def live_def)
  have "fst (RemoveNode (sn_name (g_nodes g ! i)) g) \<longleftrightarrow>
      (\<forall>v \<in> set (sn_outputs (g_nodes g ! i)). v \<notin> output_values g \<and> GetUsers g v = [])"
    unfolding RemoveNode_def ix IsGraphOutputValue_iff[OF inv] by (auto simp: Let_def)
  also have "\<dots> \<longleftrightarrow> (\<forall>v \<in> set (sn_outputs (g_nodes g ! i)). v \<notin> output_values g \<and>
         (\<forall>j. live (g_nodes g) j \<longrightarrow> v \<notin> set (sn_inputs (g_nodes g ! j))))"
    using user_set_live[OF inv] ne by metis
  finally show "fst (RemoveNode (sn_name (g_nodes g ! i)) g) \<longleftrightarrow>
      (\<forall>v \<in> set (sn_outputs (g_nodes g ! i)). v \<notin> output_values g \<and>
         (\<forall>j. live (g_nodes g) j \<longrightarrow> v \<notin> set (sn_inputs (g_nodes g ! j))))" .
  show "fst (RemoveNode (sn_name (g_nodes g ! i)) g) \<Longrightarrow> g_nodes (snd (RemoveNode (sn_name (g_nodes g ! i)) g)) =
      (g_nodes g)[i := (g_nodes g ! i)\<lparr>sn_removed := True, sn_op := None\<rparr>]"
    unfolding RemoveNode_def ix by (auto simp: Let_def drop_node_def forget_outputs split: if_splits)
qed

text \<open>
  \<open>a\<close> is to absorb \<open>c\<close>, whose output \<open>w\<close> is declared INT64 while the operator infers FP32: the call
  answers false, and both nodes now write \<open>w\<close>.
\<close>

definition half_desc :: NodeDesc where
  "half_desc = \<lparr>nd_name = ''a'', nd_op_type = ''Identity'', nd_domain = [], nd_inputs = [''x''],
     nd_outputs = [''y'', ''w''], nd_attributes = Map.empty\<rparr>"

definition half_graph :: StaticGraph where
  "half_graph = demo_graph
     \<lparr>g_model := (g_model demo_graph)\<lparr>md_graph := (md_graph (g_model demo_graph))
        \<lparr>gd_values := [\<lparr>vd_tensor = \<lparr>td_name = ''w'', td_dims = [], td_data_type = INT64, td_layout = ND,
             td_quantization = default_quantization\<rparr>, vd_constant = False,
             vd_weight = \<lparr>wl_tensor_name = [], wl_shard_path = [], wl_offset = 0, wl_byte_size = 0, wl_checksum = []\<rparr>\<rparr>],
         gd_nodes := [half_desc]\<rparr>\<rparr>,
      g_env := (g_env demo_graph)\<lparr>e_heap := (e_heap (g_env demo_graph))[3 := empty_Tensor\<lparr>m_data_type := FP32\<rparr>]\<rparr>\<rparr>"

lemma absorb_stops_half_way:
  "graph_inv half_graph" "half_absorbed demo_registry half_desc ''c'' half_graph"
proof -
  show "graph_inv half_graph" by (rule graph_inv_cong[OF demo_graph_inv]) (simp_all add: half_graph_def)
  show "half_absorbed demo_registry half_desc ''c'' half_graph" by code_simp
qed

text \<open>
  C8: The graph's indices never go stale, with one exception.  Whatever sequence of rewriting
  operations is applied, successful or refused, but for calls of \<open>ReplaceNodeDescAndAbsorbNode\<close>
  that stop half way: the name index finds every node, the users of a value are exactly the live
  nodes that read it, its recorded producer is exactly the live node that writes it, user lists
  have no duplicates, and there are never more output aliases than removed nodes.  The exception
  is exact: on such a graph a call of it that changes a node and then refuses always breaks this,
  and no other call of it does.
\<close>

theorem rewriting_keeps_indices:
  assumes "graph_inv g" and "(graph_rewrite reg)\<^sup>*\<^sup>* g g'"
  shows "graph_inv g' \<and>
    (\<forall>desc absorbed. graph_inv (snd (ReplaceNodeDescAndAbsorbNode reg desc absorbed g')) \<longleftrightarrow>
       \<not> half_absorbed reg desc absorbed g')"
  using graph_inv_graph_rewrite[OF assms(2,1)] graph_inv_any_Absorb by blast

lemma rewriting_keeps_indices_witness:
  "\<exists>g'. (graph_rewrite demo_registry)\<^sup>*\<^sup>* demo_graph g' \<and> graph_inv g' \<and> NodeSize g' = 2 \<and>
     graph_inv half_graph \<and> \<not> graph_inv (snd (ReplaceNodeDescAndAbsorbNode demo_registry half_desc ''c'' half_graph))"
proof -
  let ?g = "snd (RemoveNode ''c'' demo_graph)"
  have "(graph_rewrite demo_registry)\<^sup>*\<^sup>* demo_graph ?g" by (rule r_into_rtranclp) (rule graph_rewrite.intros(1))
  moreover have "graph_inv ?g" using rewriting_keeps_indices[OF demo_graph_inv calculation] by blast
  moreover have "NodeSize ?g = 2"
    by (simp add: NodeSize_def RemoveNode_def GetNodeIndex_def demo_graph_def demo_static_node_def IsGraphOutputValue_def
        walk_fuel_def GetUsers_def Let_def unregister_all_def UnregisterValueUse_def forget_output_def drop_node_def
        set_node_def)
  moreover have "\<not> graph_inv (snd (ReplaceNodeDescAndAbsorbNode demo_registry half_desc ''c'' half_graph))"
    using rewriting_keeps_indices[OF absorb_stops_half_way(1) rtranclp.rtrancl_refl] absorb_stops_half_way(2) by blast
  ultimately show ?thesis using absorb_stops_half_way(1) by blast
qed

text \<open>
  A live node is removed exactly when nothing depends on it: none of its outputs is read by a
  live node or is, through the output aliases, a result of the graph.  Removal marks that node and
  touches no other.
\<close>

theorem RemoveNode_exact:
  assumes "graph_inv g" and "live (g_nodes g) i" and "[] \<notin> set (sn_outputs (g_nodes g ! i))"
  shows "(fst (RemoveNode (sn_name (g_nodes g ! i)) g) =
      (\<forall>v \<in> set (sn_outputs (g_nodes g ! i)). v \<notin> output_values g \<and>
         (\<forall>j. live (g_nodes g) j \<longrightarrow> v \<notin> set (sn_inputs (g_nodes g ! j))))) \<and>
    (fst (RemoveNode (sn_name (g_nodes g ! i)) g) \<longrightarrow> g_nodes (snd (RemoveNode (sn_name (g_nodes g ! i)) g)) =
      (g_nodes g)[i := (g_nodes g ! i)\<lparr>sn_removed := True, sn_op := None\<rparr>])"
  using RemoveNode_facts[OF assms] by blast

lemma RemoveNode_exact_witness:
  "\<not> fst (RemoveNode ''a'' demo_graph) \<and> fst (RemoveNode ''c'' demo_graph)"
proof -
  have ne: "[] \<notin> set (sn_outputs (g_nodes demo_graph ! i))" if "i < 3" for i
    using that unfolding less_3 by (auto simp: demo_graph_def demo_static_node_def)
  have nm: "sn_name (g_nodes demo_graph ! 0) = ''a''" "sn_name (g_nodes demo_graph ! 2) = ''c''"
    by (simp_all add: demo_graph_def demo_static_node_def)
  have a: "live (g_nodes demo_graph) 0" "live (g_nodes demo_graph) 1" "live (g_nodes demo_graph) 2"
    by (simp_all add: demo_live)
  have rd: "''y'' \<in> set (sn_outputs (g_nodes demo_graph ! 0))" "''y'' \<in> set (sn_inputs (g_nodes demo_graph ! 1))"
    by (simp_all add: demo_graph_def demo_static_node_def)
  have "\<not> fst (RemoveNode ''a'' demo_graph)"
    unfolding RemoveNode_exact[OF demo_graph_inv a(1) ne[of 0, simplified], THEN conjunct1, unfolded nm]
    using rd a(2) by blast
  moreover have "alias_rel (g_aliases demo_graph) = {}" by (simp add: alias_rel_def demo_graph_def)
  then have z: "output_values demo_graph = {''z''}" by (auto simp: output_values_def demo_graph_def)
  have outs: "sn_outputs (g_nodes demo_graph ! 2) = [''w'']" by (simp add: demo_graph_def demo_static_node_def)
  have "''w'' \<notin> set (sn_inputs (g_nodes demo_graph ! j))" if "live (g_nodes demo_graph) j" for j
    using that unfolding demo_live less_3 by (auto simp: demo_graph_def demo_static_node_def)
  then have "fst (RemoveNode ''c'' demo_graph)"
    unfolding RemoveNode_exact[OF demo_graph_inv a(3) ne[of 2, simplified], THEN conjunct1, unfolded nm] outs z by simp
  ultimately show ?thesis by blast
qed

end
