(* ===== verification/Graph_Build.thy ===== *)
theory Graph_Build
  imports Static_Graph "HOL-Library.List_Lexorder" "HOL-Library.Char_ord"
begin

text \<open>
  Building the static graph: \<open>BuildStatus\<close>, the evaluation and recording of build-time control
  values, \<open>ValidateStructureStatus\<close> and \<open>ApplyPassesStatus\<close> of \<open>src/core/static_graph.cc\<close>.  A build
  answers a status and leaves the graph in whatever state it reached.  The worklist of
  \<open>RecordControlValues\<close> is run with fuel; \<open>None\<close> would say it was not enough.
\<close>

section \<open>Values\<close>

text \<open>
  A build runs in a deferred allocation scope, where \<open>Tensor(bytes)\<close> asks no pool and cannot throw
  (\<open>CreateTensorFromValue_deferred\<close>); the branch for a size without a class is there for other
  callers only.
\<close>

definition CreateTensorFromValue :: "ValueDesc \<Rightarrow> op_env \<Rightarrow> nat option \<times> op_env" where
  "CreateTensorFromValue value e =
     (let d = vd_tensor value in
      case CheckedTensorBytes (td_dims d) (td_data_type d) of None \<Rightarrow> (None, e)
      | Some bytes \<Rightarrow>
          (case Tensor_bytes bytes (e_world e) of None \<Rightarrow> (None, e)
           | Some (w, t) \<Rightarrow>
               (let t' = set_quantization (td_quantization d)
                           (t\<lparr>m_dims := td_dims d, m_data_type := td_data_type d, m_layout := td_layout d\<rparr>)
                in (Some (length (e_heap e)), e\<lparr>e_heap := e_heap e @ [t'], e_world := w\<rparr>))))"

lemma CreateTensorFromValue_deferred:
  "deferred_scope (e_world e) \<Longrightarrow>
     (fst (CreateTensorFromValue value e) = None) =
       (CheckedTensorBytes (td_dims (vd_tensor value)) (td_data_type (vd_tensor value)) = None)"
  by (simp add: CreateTensorFromValue_def Tensor_bytes_def Let_def split: option.split prod.split)

definition build_error :: "string \<Rightarrow> status" where
  "build_error text = Error kBuildFailed text"

lemma build_error_bad [simp]: "\<not> ok (build_error text)"
  by (simp add: build_error_def)

text \<open>The loop over the declared values: a tensor for each, and the set of constant names.\<close>

definition create_value :: "ValueDesc \<Rightarrow> string set \<times> op_env \<Rightarrow> status \<times> string set \<times> op_env" where
  "create_value value s =
     (let (static_values, e) = s; name = vd_name value;
          static' = (if vd_constant value then insert name static_values else static_values) in
      case env_tensor e name of
        Some p \<Rightarrow> (Ok, static', map_heap (\<lambda>t. t\<lparr>m_immutable := vd_constant value\<rparr>) p e)
      | None \<Rightarrow>
          if vd_constant value then (build_error (''missing constant tensor: '' @ name), s)
          else (case CreateTensorFromValue value e of
                  (None, e') \<Rightarrow> (build_error (''failed to create tensor: '' @ name), static_values, e')
                | (Some p, e') \<Rightarrow> (Ok, static', put_tensor name p e')))"

fun create_values :: "ValueDesc list \<Rightarrow> string set \<times> op_env \<Rightarrow> status \<times> string set \<times> op_env" where
  "create_values [] s = (Ok, s)"
| "create_values (v # vs) s =
     (let (st, s') = create_value v s in if ok st then create_values vs s' else (st, s'))"

section \<open>Nodes\<close>

definition HasOnlyStaticInputs :: "NodeDesc \<Rightarrow> string set \<Rightarrow> bool" where
  "HasOnlyStaticInputs node static_values \<longleftrightarrow>
     nd_inputs node \<noteq> [] \<and> (\<forall>input \<in> set (nd_inputs node). input \<noteq> [] \<and> input \<in> static_values)"

text \<open>
  The operator runs once with a control kernel from the dispatcher in place of its own, which it
  gets back whatever happens.
\<close>

definition EvaluateBuildTimeControlOp :: "OperatorRegistry \<Rightarrow> OpBase \<Rightarrow> op_env \<Rightarrow> int \<times> op_env" where
  "EvaluateBuildTimeControlOp reg oper e =
     (case op_kernel oper of None \<Rightarrow> (-1, e)
      | Some runtime_kernel \<Rightarrow>
          (case r_control_kernel reg oper of None \<Rightarrow> (-1, e)
           | Some control_kernel \<Rightarrow>
               (let (selection, bound) = r_finalize reg control_kernel in
                if \<not> ok selection then (-1, e) else r_run reg (oper\<lparr>op_kernel := bound\<rparr>) e)))"

text \<open>The outputs of one operator, with the same installation as a rebuilt node's.\<close>

fun build_outputs ::
  "string \<Rightarrow> (string \<times> nat option) list \<Rightarrow> StaticGraph \<Rightarrow> status \<times> StaticGraph" where
  "build_outputs n [] g = (Ok, g)"
| "build_outputs n ((v, None) # rest) g = (build_error (''null operator output for node: '' @ n), g)"
| "build_outputs n ((v, Some p) # rest) g =
     (let (st, e) = RestoreDeclaredTensorMetadata (g_model g) v p (g_env g) in
      if \<not> ok st then (WithContext st (''build node='' @ n), g\<lparr>g_env := e\<rparr>)
      else build_outputs n rest
             (g\<lparr>g_env := put_tensor v p e, g_producer := (g_producer g)(v \<mapsto> n)\<rparr>))"

definition evaluated_at_build :: "OperatorRegistry \<Rightarrow> NodeDesc \<Rightarrow> string set \<Rightarrow> bool" where
  "evaluated_at_build reg node static_values \<longleftrightarrow>
     (let semantics = GetOperatorSemantics (r_semantics reg) (nd_op_type node) in
      descriptor_only_evaluation semantics \<or>
      (build_time_evaluable semantics \<and> HasOnlyStaticInputs node static_values))"

definition add_node :: "OperatorRegistry \<Rightarrow> NodeDesc \<Rightarrow> OpBase \<Rightarrow> StaticGraph \<Rightarrow> StaticGraph" where
  "add_node reg node oper g =
     (let g1 = register_all (filter (\<lambda>v. v \<noteq> []) (nd_inputs node)) (nd_name node) g in
      g1\<lparr>g_index := (g_index g1)(nd_name node \<mapsto> length (g_nodes g1)),
         g_nodes := g_nodes g1 @ [\<lparr>sn_name = nd_name node, sn_op_type = nd_op_type node,
           sn_inputs = nd_inputs node, sn_outputs = nd_outputs node, sn_op = Some oper,
           sn_semantics = GetOperatorSemantics (r_semantics reg) (nd_op_type node), sn_removed = False\<rparr>]\<rparr>)"

definition build_node ::
  "OperatorRegistry \<Rightarrow> NodeDesc \<Rightarrow> string set \<times> StaticGraph \<Rightarrow> status \<times> string set \<times> StaticGraph" where
  "build_node reg node s =
     (let (static_values, g) = s; ((created, st), e) = Create reg node (g_env g); g1 = g\<lparr>g_env := e\<rparr> in
      case created of
        None \<Rightarrow> (if ok st
                 then build_error (''failed to create operator '' @ nd_op_type node @ '' for node '' @ nd_name node)
                 else WithContext st (''build node='' @ nd_name node), static_values, g1)
      | Some oper \<Rightarrow>
          (let evaluate = evaluated_at_build reg node static_values;
               (result, e2) = (if evaluate then EvaluateBuildTimeControlOp reg oper e else (0, e));
               g2 = g1\<lparr>g_env := e2\<rparr> in
           if result \<noteq> 0 then (build_error (''failed to evaluate control node: '' @ nd_name node), static_values, g2)
           else if length (nd_outputs node) \<noteq> length (op_out oper)
           then (build_error (''operator output count mismatch for node: '' @ nd_name node), static_values, g2)
           else (let (installed, g3) = build_outputs (nd_name node) (zip (nd_outputs node) (op_out oper)) g2 in
                 if \<not> ok installed then (installed, static_values, g3)
                 else (Ok, if evaluate then static_values \<union> set (nd_outputs node) else static_values,
                       add_node reg node oper g3))))"

fun build_nodes ::
  "OperatorRegistry \<Rightarrow> NodeDesc list \<Rightarrow> string set \<times> StaticGraph \<Rightarrow> status \<times> string set \<times> StaticGraph" where
  "build_nodes reg [] s = (Ok, s)"
| "build_nodes reg (n # ns) s =
     (let (st, s') = build_node reg n s in if ok st then build_nodes reg ns s' else (st, s'))"

section \<open>Control values\<close>

text \<open>One value of the worklist: its bytes must be those recorded before, or are recorded now.\<close>

definition record_value :: "string \<Rightarrow> StaticGraph \<Rightarrow> status \<times> StaticGraph" where
  "record_value name g =
     (let unavailable = (build_error (''unavailable build control: '' @ name), g) in
      case GetTensor g name of None \<Rightarrow> unavailable
      | Some p \<Rightarrow>
          (let t = tensor_at g p; e = g_env g in
           case CheckedTensorBytes (m_dims t) (m_data_type t) of None \<Rightarrow> unavailable
           | Some bytes \<Rightarrow>
               if \<not> IsInitialized (e_world e) t \<or> m_memory_size t < bytes then unavailable
               else
                 (let (w, values) = (if bytes = 0 then (e_world e, []) else read_bytes t bytes (e_world e));
                      g' = g\<lparr>g_env := e\<lparr>e_world := w\<rparr>\<rparr> in
                  case map_of (g_control g) name of
                    Some frozen \<Rightarrow>
                      if length frozen \<noteq> bytes
                      then (build_error (''build control values changed: '' @ name), g)
                      else if frozen \<noteq> values
                      then (build_error (''build control values changed: '' @ name), g')
                      else (Ok, g')
                  | None \<Rightarrow> (Ok, g'\<lparr>g_control := g_control g @ [(name, values)]\<rparr>))))"

definition push_dependency :: "string \<Rightarrow> string set \<times> string list \<Rightarrow> string set \<times> string list" where
  "push_dependency name s =
     (if name \<in> fst s then s else (insert name (fst s), name # snd s))"

text \<open>The inputs of the node that produced a control value at build time.\<close>

definition control_inputs :: "StaticGraph \<Rightarrow> string \<Rightarrow> string list" where
  "control_inputs g name =
     (case GetNode g (GetProducer g name) of None \<Rightarrow> []
      | Some producer \<Rightarrow>
          if descriptor_only_evaluation (sn_semantics producer) \<or> name \<notin> g_build_time g then []
          else filter (\<lambda>v. v \<noteq> []) (sn_inputs producer))"

fun record_controls ::
  "nat \<Rightarrow> string set \<times> string list \<Rightarrow> StaticGraph \<Rightarrow> (status \<times> StaticGraph) option" where
  "record_controls fuel (deps, []) g = Some (Ok, g)"
| "record_controls 0 (deps, name # pending) g = None"
| "record_controls (Suc fuel) (deps, name # pending) g =
     (let (st, g') = record_value name g in
      if \<not> ok st then Some (st, g')
      else record_controls fuel (fold push_dependency (control_inputs g' name) (deps, pending)) g')"

definition shape_inputs :: "StaticNode \<Rightarrow> string list" where
  "shape_inputs n =
     filter (\<lambda>v. v \<noteq> [])
       (map (\<lambda>slot. sn_inputs n ! slot) (filter (\<lambda>slot. slot < length (sn_inputs n)) (shape_value_inputs (sn_semantics n))))"

definition control_seeds :: "StaticGraph \<Rightarrow> string list" where
  "control_seeds g =
     map fst (g_control g) @ concat (map shape_inputs (filter (\<lambda>n. \<not> sn_removed n) (g_nodes g)))"

definition control_fuel :: "StaticGraph \<Rightarrow> nat" where
  "control_fuel g = length (g_control g) + length (concat (map sn_inputs (g_nodes g)))"

definition RecordControlValues :: "StaticGraph \<Rightarrow> (status \<times> StaticGraph) option" where
  "RecordControlValues g = record_controls (control_fuel g) (fold push_dependency (control_seeds g) ({}, [])) g"

section \<open>The build\<close>

definition in_deferred_scope ::
  "(StaticGraph \<Rightarrow> ('a \<times> StaticGraph) option) \<Rightarrow> StaticGraph \<Rightarrow> ('a \<times> StaticGraph) option" where
  "in_deferred_scope body g =
     (let scope = (\<lambda>b g. g\<lparr>g_env := (g_env g)\<lparr>e_world := (e_world (g_env g))\<lparr>deferred_scope := b\<rparr>\<rparr>\<rparr>);
          before = deferred_scope (e_world (g_env g))
      in map_option (\<lambda>(r, g'). (r, scope before g')) (body (scope True g)))"

definition build_body :: "OperatorRegistry \<Rightarrow> StaticGraph \<Rightarrow> (status \<times> StaticGraph) option" where
  "build_body reg g =
     (let g0 = ClearGraphState g; (model, validation) = ValidateAndOrderGraph (g_model g0) (g_bound g0);
          g1 = g0\<lparr>g_model := model\<rparr> in
      case validation of
        Inl st \<Rightarrow> Some (st, g1)
      | Inr order \<Rightarrow>
          (case find (\<lambda>v. GetTensor g1 v = None) (gd_inputs (md_graph model)) of
             Some input_name \<Rightarrow> Some (build_error (''missing graph input tensor: '' @ input_name), g1)
           | None \<Rightarrow>
               (let (st, static_values, e) = create_values (gd_values (md_graph model)) ({}, g_env g1);
                    g2 = g1\<lparr>g_env := e\<rparr> in
                if \<not> ok st then Some (st, g2)
                else
                  (let (st, static_values, g3) =
                         build_nodes reg (map (\<lambda>i. gd_nodes (md_graph model) ! i) order) (static_values, g2) in
                   if \<not> ok st then Some (st, g3)
                   else
                     (case RecordControlValues (g3\<lparr>g_build_time := static_values\<rparr>) of
                        None \<Rightarrow> None
                      | Some (controls, g4) \<Rightarrow>
                          if \<not> ok controls then Some (controls, g4)
                          else (let g5 = RecordBuildDescriptors (g4\<lparr>g_built := True\<rparr>)
                                in Some (CheckStatus g5, g5)))))))"

definition BuildStatus :: "OperatorRegistry \<Rightarrow> StaticGraph \<Rightarrow> (status \<times> StaticGraph) option" where
  "BuildStatus reg = in_deferred_scope (build_body reg)"

section \<open>Checking a rewritten graph and applying passes\<close>

fun resolve_output :: "nat \<Rightarrow> (string \<rightharpoonup> string) \<Rightarrow> string set \<Rightarrow> string \<Rightarrow> string option" where
  "resolve_output 0 al seen output = None"
| "resolve_output (Suc fuel) al seen output =
     (case al output of None \<Rightarrow> Some output
      | Some next \<Rightarrow> if output \<in> seen then None else resolve_output fuel al (insert output seen) next)"

definition active_node :: "StaticNode \<Rightarrow> NodeDesc" where
  "active_node n = \<lparr>nd_name = sn_name n, nd_op_type = sn_op_type n, nd_domain = [], nd_inputs = sn_inputs n,
     nd_outputs = sn_outputs n, nd_attributes = Map.empty\<rparr>"

definition active_model :: "StaticGraph \<Rightarrow> ModelDesc option" where
  "active_model g =
     (let graph = md_graph (g_model g);
          outputs = map (resolve_output (walk_fuel g) (g_aliases g) {}) (gd_outputs graph) in
      if None \<in> set outputs then None
      else Some ((g_model g)\<lparr>md_graph := graph\<lparr>gd_nodes := map active_node (filter (\<lambda>n. \<not> sn_removed n) (g_nodes g)),
             gd_outputs := remdups (sort (map the outputs))\<rparr>\<rparr>))"

definition ValidateStructureStatus :: "StaticGraph \<Rightarrow> status" where
  "ValidateStructureStatus g =
     (let st = CheckStatus g in
      if \<not> ok st then st
      else case active_model g of None \<Rightarrow> build_error ''cycle in output aliases''
      | Some active \<Rightarrow>
          (case snd (ValidateAndOrderGraph active (g_bound g)) of Inl e \<Rightarrow> e | Inr _ \<Rightarrow> Ok))"

definition ApplyPassesStatus ::
  "(StaticGraph \<Rightarrow> (status \<times> StaticGraph) option) option \<Rightarrow> StaticGraph \<Rightarrow> (status \<times> StaticGraph) option" where
  "ApplyPassesStatus pass_manager g =
     (let descriptors = ValidateBuildDescriptorsStatus g in
      if \<not> ok descriptors then Some (descriptors, g)
      else in_deferred_scope (\<lambda>g.
        (case (case pass_manager of None \<Rightarrow> Some (CheckStatus g, g) | Some run \<Rightarrow> run g) of
           None \<Rightarrow> None
         | Some (st, g1) \<Rightarrow>
             if \<not> ok st then Some (st, g1)
             else (case RecordControlValues g1 of None \<Rightarrow> None
                   | Some (controls, g2) \<Rightarrow>
                       Some (controls, if ok controls then RecordBuildDescriptors g2 else g2)))) g)"


section \<open>The worklist of control values\<close>

lemma push_dependency_step:
  assumes "finite U" and "v \<in> U"
  shows "fst (push_dependency v s) = insert v (fst s)"
    and "set (snd (push_dependency v s)) = set (snd s) \<union> ({v} - fst s)"
    and "length (snd (push_dependency v s)) + card (U - fst (push_dependency v s)) = length (snd s) + card (U - fst s)"
proof -
  show "fst (push_dependency v s) = insert v (fst s)" "set (snd (push_dependency v s)) = set (snd s) \<union> ({v} - fst s)"
    by (auto simp: push_dependency_def)
  show "length (snd (push_dependency v s)) + card (U - fst (push_dependency v s)) = length (snd s) + card (U - fst s)"
  proof (cases "v \<in> fst s")
    case True
    then show ?thesis by (simp add: push_dependency_def)
  next
    case False
    have "v \<in> U - fst s" using assms(2) False by simp
    then have "card (U - fst s) = Suc (card (U - fst s - {v}))"
      using assms(1) by (intro card.remove) auto
    moreover have "U - fst s - {v} = U - insert v (fst s)" by auto
    ultimately show ?thesis using False by (simp add: push_dependency_def)
  qed
qed

lemma push_dependencies:
  assumes "finite U" and "set vs \<subseteq> U"
  shows "fst (fold push_dependency vs s) = fst s \<union> set vs \<and>
    set (snd (fold push_dependency vs s)) = set (snd s) \<union> (set vs - fst s) \<and>
    length (snd (fold push_dependency vs s)) + card (U - fst (fold push_dependency vs s)) =
      length (snd s) + card (U - fst s)"
  using assms(2)
proof (induction vs arbitrary: s)
  case Nil
  then show ?case by simp
next
  case (Cons v vs)
  have "v \<in> U" and vs: "set vs \<subseteq> U" using Cons.prems by auto
  note st = push_dependency_step[OF assms(1) this(1), of s]
  have "set (snd s) \<union> ({v} - fst s) \<union> (set vs - insert v (fst s)) = set (snd s) \<union> (set (v # vs) - fst s)" by auto
  moreover have "fst s \<union> set (v # vs) = insert v (fst s) \<union> set vs" by auto
  ultimately show ?case using Cons.IH[OF vs, of "push_dependency v s"] unfolding st(1,2) fold_simps(2) using st(3)[unfolded st(1)] by metis
qed

lemma map_of_key: "map_of xs k = Some v \<Longrightarrow> k \<in> fst ` set xs"
  by (metis domI dom_map_of_conv_image_fst)

lemma record_value_keeps:
  "record_value name g = (st, g') \<Longrightarrow> g_nodes g' = g_nodes g \<and> g_index g' = g_index g \<and> g_producer g' = g_producer g \<and>
     g_users g' = g_users g \<and> g_aliases g' = g_aliases g \<and> g_build_time g' = g_build_time g \<and> g_model g' = g_model g \<and>
     g_built g' = g_built g \<and>
     (\<exists>ext. g_control g' = g_control g @ ext \<and> set (map fst ext) \<subseteq> {name}) \<and>
     (ok st \<longrightarrow> name \<in> set (map fst (g_control g')))"
  by (auto simp: record_value_def Let_def build_error_def map_of_eq_None_iff
      split: option.splits if_splits prod.splits dest: map_of_key)

lemma control_inputs_same:
  "g_nodes g' = g_nodes g \<Longrightarrow> g_index g' = g_index g \<Longrightarrow> g_producer g' = g_producer g \<Longrightarrow>
   g_build_time g' = g_build_time g \<Longrightarrow> control_inputs g' = control_inputs g"
  by (rule ext) (simp add: control_inputs_def GetNode_def GetNodeIndex_def GetProducer_def cong: option.case_cong if_cong)

lemma control_inputs_known: 
  assumes "\<And>n i. g_index g n = Some i \<Longrightarrow> i < length (g_nodes g)"
  shows "set (control_inputs g name) \<subseteq> set (concat (map sn_inputs (g_nodes g)))"
  using assms
  by (auto simp: control_inputs_def GetNode_def GetNodeIndex_def intro!: bexI[OF _ nth_mem] split: option.splits if_splits)

lemma record_controls_run:
  assumes "finite U" and "\<And>x. set (control_inputs g x) \<subseteq> U"
    and "set pending \<subseteq> deps" and "deps \<subseteq> U" and "length pending + card (U - deps) \<le> fuel"
    and "\<And>x. x \<in> deps \<Longrightarrow> x \<notin> set pending \<Longrightarrow>
           x \<in> set (map fst (g_control g)) \<and> set (control_inputs g x) \<subseteq> deps"
  shows "\<exists>st g'. record_controls fuel (deps, pending) g = Some (st, g') \<and>
    g_nodes g' = g_nodes g \<and> g_index g' = g_index g \<and> g_producer g' = g_producer g \<and> g_users g' = g_users g \<and>
    g_aliases g' = g_aliases g \<and> g_model g' = g_model g \<and> g_built g' = g_built g \<and>
    (\<exists>ext. g_control g' = g_control g @ ext) \<and>
    (ok st \<longrightarrow> (\<exists>D. deps \<subseteq> D \<and> D \<subseteq> set (map fst (g_control g')) \<and> (\<forall>x \<in> D. set (control_inputs g x) \<subseteq> D)))"
  using assms(2-6)
proof (induction fuel arbitrary: deps pending g)
  case 0
  then have "pending = []" by simp
  then show ?case using 0(5) by (intro exI[of _ Ok] exI[of _ g]) auto
next
  case (Suc fuel)
  show ?case
  proof (cases pending)
    case Nil
    then show ?thesis using Suc.prems(5) by (intro exI[of _ Ok] exI[of _ g]) auto
  next
    case (Cons name rest)
    obtain st g1 where r: "record_value name g = (st, g1)" by fastforce
    note k = record_value_keeps[OF r]
    show ?thesis
    proof (cases "ok st")
      case False
      then show ?thesis using k by (auto simp: Cons r)
    next
      case True
      have ci: "control_inputs g1 = control_inputs g" using k by (intro control_inputs_same) auto
      let ?vs = "control_inputs g name"
      let ?s = "fold push_dependency ?vs (deps, rest)"
      have vs: "set ?vs \<subseteq> U" by (rule Suc.prems(1))
      note p = conjunct1[OF push_dependencies[OF assms(1) vs, of "(deps, rest)"]]
        conjunct1[OF conjunct2[OF push_dependencies[OF assms(1) vs, of "(deps, rest)"]]]
        conjunct2[OF conjunct2[OF push_dependencies[OF assms(1) vs, of "(deps, rest)"]]]
      have run: "record_controls (Suc fuel) (deps, pending) g = record_controls fuel (fst ?s, snd ?s) g1"
        using True by (simp add: Cons r ci)
      obtain ext where ext: "g_control g1 = g_control g @ ext" using k by blast
      have "\<exists>st g'. record_controls fuel (fst ?s, snd ?s) g1 = Some (st, g') \<and>
        g_nodes g' = g_nodes g1 \<and> g_index g' = g_index g1 \<and> g_producer g' = g_producer g1 \<and> g_users g' = g_users g1 \<and>
        g_aliases g' = g_aliases g1 \<and> g_model g' = g_model g1 \<and> g_built g' = g_built g1 \<and>
        (\<exists>ext. g_control g' = g_control g1 @ ext) \<and>
        (ok st \<longrightarrow> (\<exists>D. fst ?s \<subseteq> D \<and> D \<subseteq> set (map fst (g_control g')) \<and> (\<forall>x \<in> D. set (control_inputs g1 x) \<subseteq> D)))"
      proof (rule Suc.IH)
        show "set (control_inputs g1 x) \<subseteq> U" for x unfolding ci by (rule Suc.prems(1))
        show "set (snd ?s) \<subseteq> fst ?s" using p(1,2) Suc.prems(2) Cons by auto
        show "fst ?s \<subseteq> U" using p(1) vs Suc.prems(3) by simp
        show "length (snd ?s) + card (U - fst ?s) \<le> fuel" using p(3) Suc.prems(4) Cons by simp
        show "x \<in> set (map fst (g_control g1)) \<and> set (control_inputs g1 x) \<subseteq> fst ?s"
          if x: "x \<in> fst ?s" "x \<notin> set (snd ?s)" for x
        proof (cases "x = name")
          case True
          then show ?thesis using k \<open>ok st\<close> p(1) by (auto simp: ci)
        next
          case False
          then have "x \<in> deps" "x \<notin> set pending" using x p(1,2) Cons by auto
          then show ?thesis using Suc.prems(5)[of x] p(1) ext by (auto simp: ci)
        qed
      qed
      then obtain st' g' where R: "record_controls fuel (fst ?s, snd ?s) g1 = Some (st', g')"
        "g_nodes g' = g_nodes g1 \<and> g_index g' = g_index g1 \<and> g_producer g' = g_producer g1 \<and> g_users g' = g_users g1 \<and>
         g_aliases g' = g_aliases g1 \<and> g_model g' = g_model g1 \<and> g_built g' = g_built g1"
        "\<exists>ext. g_control g' = g_control g1 @ ext"
        "ok st' \<longrightarrow> (\<exists>D. fst ?s \<subseteq> D \<and> D \<subseteq> set (map fst (g_control g')) \<and> (\<forall>x \<in> D. set (control_inputs g1 x) \<subseteq> D))"
        by blast
      have sub: "deps \<subseteq> fst ?s" using p(1) by simp
      have ctl: "\<exists>e. g_control g' = g_control g @ e" using R(3) ext by auto
      have cl: "ok st' \<longrightarrow> (\<exists>D. deps \<subseteq> D \<and> D \<subseteq> set (map fst (g_control g')) \<and> (\<forall>x \<in> D. set (control_inputs g x) \<subseteq> D))"
        using R(4) subset_trans[OF sub] unfolding ci by meson
      have same: "g_nodes g' = g_nodes g \<and> g_index g' = g_index g \<and> g_producer g' = g_producer g \<and> g_users g' = g_users g \<and>
          g_aliases g' = g_aliases g \<and> g_model g' = g_model g \<and> g_built g' = g_built g"
        using R(2) k by simp
      show ?thesis unfolding run R(1) using same ctl cl by blast
    qed
  qed
qed

lemma shape_inputs_sub: "set (shape_inputs n) \<subseteq> set (sn_inputs n)"
  by (auto simp: shape_inputs_def)

lemma RecordControlValues_run:
  assumes "graph_inv g"
  shows "\<exists>st g'. RecordControlValues g = Some (st, g') \<and>
    g_nodes g' = g_nodes g \<and> g_index g' = g_index g \<and> g_producer g' = g_producer g \<and> g_users g' = g_users g \<and>
    g_aliases g' = g_aliases g \<and> g_model g' = g_model g \<and> g_built g' = g_built g \<and>
    (\<exists>ext. g_control g' = g_control g @ ext) \<and>
    (ok st \<longrightarrow> (\<exists>D. set (control_seeds g) \<subseteq> D \<and> D \<subseteq> set (map fst (g_control g')) \<and>
       (\<forall>x \<in> D. set (control_inputs g x) \<subseteq> D)))"
proof -
  let ?U = "set (map fst (g_control g)) \<union> set (concat (map sn_inputs (g_nodes g)))"
  let ?s = "fold push_dependency (control_seeds g) ({}, [])"
  have fin: "finite ?U" by simp
  have ci: "set (control_inputs g x) \<subseteq> ?U" for x
    using control_inputs_known[of g x] assms unfolding graph_inv_def index_match_def by blast
  have seeds: "set (control_seeds g) \<subseteq> ?U"
    using shape_inputs_sub by (fastforce simp: control_seeds_def)
  note p = conjunct1[OF push_dependencies[OF fin seeds, of "({}, [])"]]
    conjunct1[OF conjunct2[OF push_dependencies[OF fin seeds, of "({}, [])"]]]
    conjunct2[OF conjunct2[OF push_dependencies[OF fin seeds, of "({}, [])"]]]
  have "card ?U \<le> card (set (map fst (g_control g))) + card (set (concat (map sn_inputs (g_nodes g))))"
    by (rule card_Un_le)
  also have "\<dots> \<le> control_fuel g"
    unfolding control_fuel_def by (rule add_mono) (metis card_length length_map, rule card_length)
  finally have f: "length (snd ?s) + card (?U - fst ?s) \<le> control_fuel g" using p(3) by simp
  have st: "set (snd ?s) \<subseteq> fst ?s" "fst ?s \<subseteq> ?U" "\<And>x. x \<in> fst ?s \<Longrightarrow> x \<notin> set (snd ?s) \<Longrightarrow> False"
    using p(1,2) seeds by auto
  have pr: "x \<in> set (map fst (g_control g)) \<and> set (control_inputs g x) \<subseteq> fst ?s" if "x \<in> fst ?s" "x \<notin> set (snd ?s)" for x
    using st(3)[OF that] by blast
  have run: "record_controls (control_fuel g) (fst ?s, snd ?s) g = RecordControlValues g"
    by (simp add: RecordControlValues_def)
  have sub: "set (control_seeds g) = fst ?s" using p(1) by simp
  show ?thesis using record_controls_run[OF fin ci st(1,2) f pr] unfolding run sub .
qed

section \<open>Which values are recorded\<close>










section \<open>The build establishes the invariant of the graph\<close>

lemma live_append: "live (ns @ [n]) i \<longleftrightarrow> live ns i \<or> (i = length ns \<and> \<not> sn_removed n)"
  by (auto simp: live_def nth_append less_Suc_eq)

lemma index_match_append:
  assumes "index_match ns ix" and "ix (sn_name n) = None" and "sn_name n \<noteq> []"
  shows "index_match (ns @ [n]) (ix(sn_name n \<mapsto> length ns))"
  unfolding index_match_def
proof (intro conjI allI impI)
  fix name i assume n: "(ix(sn_name n \<mapsto> length ns)) name = Some i"
  have "name \<noteq> sn_name n \<Longrightarrow> i < length ns \<and> sn_name (ns ! i) = name"
    using assms(1) n unfolding index_match_def by simp
  then show "i < length (ns @ [n])" "sn_name ((ns @ [n]) ! i) = name"
    using n by (cases "name = sn_name n"; simp add: nth_append)+
next
  fix i assume i: "i < length (ns @ [n])"
  have old: "ix (sn_name (ns ! i)) = Some i \<and> sn_name (ns ! i) \<noteq> []" if "i < length ns"
    using assms(1) that unfolding index_match_def by blast
  show "(ix(sn_name n \<mapsto> length ns)) (sn_name ((ns @ [n]) ! i)) = Some i" "sn_name ((ns @ [n]) ! i) \<noteq> []"
    using old assms(2,3) i by (cases "i = length ns"; fastforce simp: nth_append less_Suc_eq)+
qed

lemma users_match_append:
  assumes "users_match ns U" and "\<not> sn_removed n"
  shows "users_match (ns @ [n]) (\<lambda>v. U v \<union> (if v \<in> set (sn_inputs n) then {sn_name n} else {}))"
  unfolding users_match_def
proof (intro allI impI)
  fix v :: string assume "v \<noteq> []"
  then have U: "U v = {sn_name (ns ! i) |i. live ns i \<and> v \<in> set (sn_inputs (ns ! i))}"
    using assms(1) by (simp add: users_match_def)
  have "i < length ns" if "live ns i" for i using that by (simp add: live_def)
  then show "U v \<union> (if v \<in> set (sn_inputs n) then {sn_name n} else {}) =
      {sn_name ((ns @ [n]) ! i) |i. live (ns @ [n]) i \<and> v \<in> set (sn_inputs ((ns @ [n]) ! i))}"
    unfolding U live_append using assms(2) by (auto simp: nth_append)
qed

lemma users_match_cong:
  "users_match ns U \<Longrightarrow> (\<And>v. v \<noteq> [] \<Longrightarrow> U' v = U v) \<Longrightarrow> users_match ns U'"
  by (simp add: users_match_def)

lemma producers_match_append:
  assumes "producers_match ns P" and "\<not> sn_removed n" and "\<forall>v \<in> set (sn_outputs n). P v = None"
  shows "producers_match (ns @ [n]) (\<lambda>v. if v \<in> set (sn_outputs n) then Some (sn_name n) else P v)"
  unfolding producers_match_def
proof (intro allI)
  fix v m
  have P: "P v = Some m \<longleftrightarrow> (\<exists>i. live ns i \<and> sn_name (ns ! i) = m \<and> v \<in> set (sn_outputs (ns ! i)))"
    using assms(1) by (simp add: producers_match_def)
  have lt: "i < length ns" if "live ns i" for i using that by (simp add: live_def)
  have none: "\<not> (live ns i \<and> v \<in> set (sn_outputs (ns ! i)))" if "v \<in> set (sn_outputs n)" for i
  proof
    assume "live ns i \<and> v \<in> set (sn_outputs (ns ! i))"
    then have "P v = Some (sn_name (ns ! i))" using assms(1) unfolding producers_match_def by blast
    then show False using assms(3) that by simp
  qed
  have "(\<exists>i. live (ns @ [n]) i \<and> sn_name ((ns @ [n]) ! i) = m \<and> v \<in> set (sn_outputs ((ns @ [n]) ! i))) \<longleftrightarrow>
      (\<exists>i. live ns i \<and> sn_name (ns ! i) = m \<and> v \<in> set (sn_outputs (ns ! i))) \<or> (sn_name n = m \<and> v \<in> set (sn_outputs n))"
    unfolding live_append using lt assms(2) by (auto simp: nth_append)
  then show "(if v \<in> set (sn_outputs n) then Some (sn_name n) else P v) = Some m \<longleftrightarrow>
      (\<exists>i. live (ns @ [n]) i \<and> sn_name ((ns @ [n]) ! i) = m \<and> v \<in> set (sn_outputs ((ns @ [n]) ! i)))"
    using P none by auto
qed

lemma build_outputs_effect:
  assumes "build_outputs n vps g = (st, g')" and "ok st"
  shows "g_nodes g' = g_nodes g \<and> g_index g' = g_index g \<and> g_users g' = g_users g \<and> g_aliases g' = g_aliases g \<and>
    g_model g' = g_model g \<and> g_control g' = g_control g \<and>
    g_producer g' = (\<lambda>v. if v \<in> set (map fst vps) then Some n else g_producer g v)"
  using assms(1)
proof (induction n vps g rule: build_outputs.induct)
  case (1 n g)
  then show ?case by simp
next
  case (2 n v rest g)
  then show ?case using assms(2) by (auto simp: build_error_def)
next
  case (3 n v p rest g)
  obtain s e where r: "RestoreDeclaredTensorMetadata (g_model g) v p (g_env g) = (s, e)" by fastforce
  show ?case
  proof (cases "ok s")
    case True
    let ?g = "g\<lparr>g_env := put_tensor v p e, g_producer := (g_producer g)(v \<mapsto> n)\<rparr>"
    have "build_outputs n rest ?g = (st, g')" using 3(2) r True by simp
    from 3(1)[OF r[symmetric] refl _ this] True show ?thesis by (auto simp: fun_eq_iff)
  next
    case False
    then show ?thesis using 3(2) r assms(2) by (auto simp: Let_def)
  qed
qed

text \<open>What a node of the description becomes.\<close>

definition built_from :: "NodeDesc \<Rightarrow> StaticNode \<Rightarrow> bool" where
  "built_from d n \<longleftrightarrow> sn_name n = nd_name d \<and> sn_op_type n = nd_op_type d \<and> sn_inputs n = nd_inputs d \<and>
     sn_outputs n = nd_outputs d \<and> \<not> sn_removed n \<and> sn_op n \<noteq> None"

lemma build_node_inv:
  assumes run: "build_node reg d (sv, g) = (st, sv', g')" and ok: "ok st" and inv: "graph_inv g"
    and fresh: "g_index g (nd_name d) = None" "nd_name d \<noteq> []" "\<forall>v \<in> set (nd_outputs d). g_producer g v = None"
  shows "graph_inv g' \<and> g_model g' = g_model g \<and> g_control g' = g_control g \<and> g_aliases g' = g_aliases g \<and>
    g_index g' = (g_index g)(nd_name d \<mapsto> length (g_nodes g)) \<and>
    g_producer g' = (\<lambda>v. if v \<in> set (nd_outputs d) then Some (nd_name d) else g_producer g v) \<and>
    (\<exists>n. g_nodes g' = g_nodes g @ [n] \<and> built_from d n)"
proof -
  obtain created s e where c: "Create reg d (g_env g) = ((created, s), e)" by (metis surj_pair)
  obtain oper where o: "created = Some oper"
    using run ok c by (cases created) (auto simp: build_node_def split: if_splits)
  let ?ev = "evaluated_at_build reg d sv"
  obtain result e2 where ev: "(if ?ev then EvaluateBuildTimeControlOp reg oper e else (0, e)) = (result, e2)" by fastforce
  let ?g2 = "g\<lparr>g_env := e, g_env := e2\<rparr>"
  obtain ins g3 where b: "build_outputs (nd_name d) (zip (nd_outputs d) (op_out oper)) ?g2 = (ins, g3)" by fastforce
  have facts: "result = 0 \<and> length (nd_outputs d) = length (op_out oper) \<and> ok ins \<and> g' = add_node reg d oper g3"
    using run ok unfolding build_node_def Let_def prod.case c o option.case ev b
    by (auto simp: build_error_def split: if_splits)
  have len: "length (nd_outputs d) = length (op_out oper)" and okI: "ok ins" and g': "g' = add_node reg d oper g3"
    using facts by auto
  have e3: "g_nodes g3 = g_nodes g" "g_index g3 = g_index g" "g_users g3 = g_users g" "g_aliases g3 = g_aliases g"
    "g_model g3 = g_model g" "g_control g3 = g_control g"
    "g_producer g3 = (\<lambda>v. if v \<in> set (nd_outputs d) then Some (nd_name d) else g_producer g v)"
    using build_outputs_effect[OF b okI, unfolded map_fst_zip[OF len]] by (simp_all cong: if_cong)
  have us: "user_set g3 = user_set g" using e3(3) by (simp add: user_set_def GetUsers_def fun_eq_iff)
  let ?n = "\<lparr>sn_name = nd_name d, sn_op_type = nd_op_type d, sn_inputs = nd_inputs d, sn_outputs = nd_outputs d,
      sn_op = Some oper, sn_semantics = GetOperatorSemantics (r_semantics reg) (nd_op_type d), sn_removed = False\<rparr>"
  let ?reg = "register_all (filter (\<lambda>v. v \<noteq> []) (nd_inputs d)) (nd_name d) g3"
  have a: "g_nodes g' = g_nodes g @ [?n]" "g_index g' = (g_index g)(nd_name d \<mapsto> length (g_nodes g))"
    "g_producer g' = g_producer g3" "g_aliases g' = g_aliases g" "g_model g' = g_model g" "g_users g' = g_users ?reg"
    by (simp_all add: g' add_node_def Let_def e3)
  have ctl: "g_control (register_all vs nm h) = g_control h" for vs nm h
    by (induction vs arbitrary: h) (simp_all add: register_all_def RegisterValueUse_def Let_def)
  have ctl': "g_control g' = g_control g" by (simp add: g' add_node_def Let_def ctl e3)
  have usr: "user_set g' v = user_set g v \<union> (if v \<in> set (nd_inputs d) \<and> v \<noteq> [] then {nd_name d} else {})" for v
  proof -
    have "user_set g' v = user_set ?reg v" using a(6) by (simp add: user_set_def GetUsers_def)
    then show ?thesis by (auto simp: user_set_register_all us)
  qed
  have ix: "index_match (g_nodes g) (g_index g)" and um: "users_match (g_nodes g) (user_set g)"
    and pm: "producers_match (g_nodes g) (g_producer g)" and uw: "users_wf (g_users g)"
    and al: "aliases_wf (g_nodes g) (g_aliases g)" using inv by (simp_all add: graph_inv_def)
  have "index_match (g_nodes g') (g_index g')"
    unfolding a using index_match_append[OF ix, of ?n] fresh by simp
  moreover have "users_match (g_nodes g') (user_set g')"
    unfolding a(1)
  proof (rule users_match_cong)
    show "users_match (g_nodes g @ [?n]) (\<lambda>v. user_set g v \<union> (if v \<in> set (nd_inputs d) then {nd_name d} else {}))"
      using users_match_append[OF um, of ?n] by (simp cong: if_cong)
  qed (simp add: usr)
  moreover have "producers_match (g_nodes g') (g_producer g')"
    unfolding a(1,3) e3(7) using producers_match_append[OF pm, of ?n] fresh(3) by (simp cong: if_cong)
  moreover have "users_wf (g_users g')" unfolding a(6) by (rule users_wf_register_all) (simp add: e3 uw)
  moreover have "aliases_wf (g_nodes g') (g_aliases g')" using al by (simp add: a aliases_wf_def)
  ultimately have "graph_inv g'" by (simp add: graph_inv_def)
  then show ?thesis using a ctl' e3(7) by (simp add: built_from_def)
qed

lemma build_nodes_inv:
  assumes "build_nodes reg ds (sv, g) = (st, sv', g')" and "ok st" and "graph_inv g"
    and "distinct (map nd_name ds)" and "[] \<notin> set (map nd_name ds)" and "\<forall>d \<in> set ds. g_index g (nd_name d) = None"
    and "distinct (concat (map nd_outputs ds))" and "\<forall>v \<in> set (concat (map nd_outputs ds)). g_producer g v = None"
  shows "graph_inv g' \<and> g_model g' = g_model g \<and> g_control g' = g_control g \<and> g_aliases g' = g_aliases g \<and>
    (\<exists>ns. g_nodes g' = g_nodes g @ ns \<and> list_all2 built_from ds ns)"
  using assms
proof (induction ds arbitrary: sv g)
  case Nil
  then show ?case by simp
next
  case (Cons d ds)
  obtain s1 sv1 g1 where b: "build_node reg d (sv, g) = (s1, sv1, g1)" by (metis surj_pair)
  have ok1: "ok s1" and rest: "build_nodes reg ds (sv1, g1) = (st, sv', g')"
    using Cons.prems(1,2) by (auto simp: b split: if_splits)
  have fresh: "g_index g (nd_name d) = None" "nd_name d \<noteq> []" "\<forall>v \<in> set (nd_outputs d). g_producer g v = None"
    using Cons.prems(5,6,8) by auto
  note n = build_node_inv[OF b ok1 Cons.prems(3) fresh]
  have R: "graph_inv g' \<and> g_model g' = g_model g1 \<and> g_control g' = g_control g1 \<and> g_aliases g' = g_aliases g1 \<and>
    (\<exists>ns. g_nodes g' = g_nodes g1 @ ns \<and> list_all2 built_from ds ns)"
  proof (rule Cons.IH[OF rest Cons.prems(2)])
    show "graph_inv g1" using n by blast
    show "distinct (map nd_name ds)" "[] \<notin> set (map nd_name ds)" "distinct (concat (map nd_outputs ds))"
      using Cons.prems(4,5,7) by auto
    show "\<forall>d \<in> set ds. g_index g1 (nd_name d) = None" using n Cons.prems(4,6) by (auto simp: image_iff)
    show "\<forall>v \<in> set (concat (map nd_outputs ds)). g_producer g1 v = None" using n Cons.prems(7,8) by auto
  qed
  then obtain ns where ns: "g_nodes g' = g_nodes g1 @ ns" "list_all2 built_from ds ns" by blast
  obtain m where m: "g_nodes g1 = g_nodes g @ [m]" "built_from d m" using n by blast
  have "g_nodes g' = g_nodes g @ m # ns \<and> list_all2 built_from (d # ds) (m # ns)" using ns m by simp
  then show ?case using n R by metis
qed


lemma graph_inv_cleared: "graph_inv (ClearGraphState g)"
  by (auto simp: graph_inv_def ClearGraphState_def index_match_def users_match_def producers_match_def users_wf_def
      aliases_wf_def live_def user_set_def GetUsers_def)

lemma RecordBuildDescriptors_sel [simp]:
  "g_nodes (RecordBuildDescriptors g) = g_nodes g" "g_index (RecordBuildDescriptors g) = g_index g"
  "g_producer (RecordBuildDescriptors g) = g_producer g" "g_aliases (RecordBuildDescriptors g) = g_aliases g"
  "g_users (RecordBuildDescriptors g) = g_users g" "g_model (RecordBuildDescriptors g) = g_model g"
  "g_built (RecordBuildDescriptors g) = g_built g" "g_control (RecordBuildDescriptors g) = g_control g"
  "g_build_time (RecordBuildDescriptors g) = g_build_time g"
proof -
  have L: "g_nodes (foldl (\<lambda>g item. RecordBuildDescriptor (fst item) g) h xs) = g_nodes h \<and>
    g_index (foldl (\<lambda>g item. RecordBuildDescriptor (fst item) g) h xs) = g_index h \<and>
    g_producer (foldl (\<lambda>g item. RecordBuildDescriptor (fst item) g) h xs) = g_producer h \<and>
    g_aliases (foldl (\<lambda>g item. RecordBuildDescriptor (fst item) g) h xs) = g_aliases h \<and>
    g_users (foldl (\<lambda>g item. RecordBuildDescriptor (fst item) g) h xs) = g_users h \<and>
    g_model (foldl (\<lambda>g item. RecordBuildDescriptor (fst item) g) h xs) = g_model h \<and>
    g_built (foldl (\<lambda>g item. RecordBuildDescriptor (fst item) g) h xs) = g_built h \<and>
    g_control (foldl (\<lambda>g item. RecordBuildDescriptor (fst item) g) h xs) = g_control h \<and>
    g_build_time (foldl (\<lambda>g item. RecordBuildDescriptor (fst item) g) h xs) = g_build_time h" for xs h
  proof (induction xs arbitrary: h)
    case Nil
    then show ?case by simp
  next
    case (Cons x xs)
    then show ?case by (simp add: RecordBuildDescriptor_def split: option.split)
  qed
  show "g_nodes (RecordBuildDescriptors g) = g_nodes g" "g_index (RecordBuildDescriptors g) = g_index g"
    "g_producer (RecordBuildDescriptors g) = g_producer g" "g_aliases (RecordBuildDescriptors g) = g_aliases g"
    "g_users (RecordBuildDescriptors g) = g_users g" "g_model (RecordBuildDescriptors g) = g_model g"
    "g_built (RecordBuildDescriptors g) = g_built g" "g_control (RecordBuildDescriptors g) = g_control g"
    "g_build_time (RecordBuildDescriptors g) = g_build_time g"
    using L[of "g\<lparr>g_descriptors := []\<rparr>" "e_tensors (g_env g)"] by (simp_all add: RecordBuildDescriptors_def)
qed

lemma distinct_concat_perm:
  assumes "mset xs = mset ys"
  shows "distinct (concat (map f xs)) = distinct (concat (map f ys))"
proof -
  have "mset (concat (map f zs)) = sum_mset (image_mset (mset \<circ> f) (mset zs))" for zs
    by (simp add: mset_concat sum_mset_sum_list[symmetric] image_mset.comp[symmetric] comp_def)
  then show ?thesis using assms by (intro mset_eq_imp_distinct_iff) simp
qed

lemma validate_rejects:
  assumes "ValidateAndOrderGraph m bindings = (m', Inl e)"
  shows "\<not> ok e"
proof -
  have g: "\<not> ok (graph_error t)" for t by (simp add: graph_error_def)
  have vals: "foldR check_value xs s = Inl e \<Longrightarrow> \<not> ok e" for xs s e
    by (erule foldR_error) (auto simp: check_value_def g split: if_splits)
  have ins: "foldR (check_input vs) xs s = Inl e \<Longrightarrow> \<not> ok e" for vs xs s e
    by (erule foldR_error) (auto simp: check_input_def g split: if_splits)
  have nms: "foldR check_name xs s = Inl e \<Longrightarrow> \<not> ok e" for xs s e
    by (erule foldR_error) (auto simp: check_name_def g split: if_splits)
  have binds: "foldR (bind_output vals src i) xs s = Inl e \<Longrightarrow> \<not> ok e" for vals src i xs s e
    by (erule foldR_error) (auto simp: bind_output_def g split: if_splits)
  have links: "foldR (link_input src P) xs s = Inl e \<Longrightarrow> \<not> ok e" for src P xs s e
    by (erule foldR_error) (auto simp: link_input_def g split: if_splits option.splits)
  have outputs: "foldR (check_output src P) xs s = Inl e \<Longrightarrow> \<not> ok e" for src P xs s e
    by (erule foldR_error) (auto simp: check_output_def g split: if_splits)
  have v: "check_descriptions graph = Inl e \<Longrightarrow> \<not> ok e" for graph e
    using vals ins nms by (fastforce simp: check_descriptions_def bindR_def split: sum.splits)
  have o: "order_nodes graph b vals src s = Inl e \<Longrightarrow> \<not> ok e" for graph b vals src s e
    using links outputs g by (fastforce simp: order_nodes_def Let_def bindR_def split: sum.splits if_splits option.splits)
  have n: "foldR (visit_node vals src) is s = Inl e \<Longrightarrow> \<not> ok (fst e)" for vals src "is" s e
    by (erule foldR_error) (use binds in \<open>fastforce simp: visit_node_def Let_def split: sum.splits\<close>)
  show ?thesis
    using assms v o n by (fastforce simp: ValidateAndOrderGraph_def Let_def split: sum.splits prod.splits)
qed

text \<open>What a successful build has built, in terms of the validated model.\<close>

definition built_graph :: "ModelDesc \<Rightarrow> nat list \<Rightarrow> StaticGraph \<Rightarrow> bool" where
  "built_graph model order g \<longleftrightarrow> graph_inv g \<and> g_built g \<and> g_model g = model \<and> g_aliases g = Map.empty \<and>
     list_all2 built_from (map (\<lambda>i. gd_nodes (md_graph model) ! i) order) (g_nodes g) \<and>
     CheckStatus g = Ok"

lemma CheckStatus_ok: "ok (CheckStatus g) \<Longrightarrow> CheckStatus g = Ok"
  by (cases "find broken_node (g_nodes g)") (auto simp: CheckStatus_def split: if_splits)

lemma build_body_run:
  obtains st g' where "build_body reg g = Some (st, g')"
    "ok st \<longrightarrow> (\<exists>model order. ValidateAndOrderGraph (g_model g) (g_bound g) = (model, Inr order) \<and> built_graph model order g')"
proof -
  let ?g0 = "ClearGraphState g"
  have m0: "g_model ?g0 = g_model g" "g_bound ?g0 = g_bound g" by (simp_all add: ClearGraphState_def)
  obtain model validation where v: "ValidateAndOrderGraph (g_model g) (g_bound g) = (model, validation)" by fastforce
  let ?g1 = "?g0\<lparr>g_model := model\<rparr>"
  show thesis
  proof (cases validation)
    case (Inl e)
    have bad: "\<not> ok e" using validate_rejects[of "g_model g" "g_bound g" model e] v Inl by simp
    show thesis by (rule that[of e ?g1]) (use bad in \<open>simp_all add: build_body_def m0 v Inl Let_def\<close>)
  next
    case (Inr order)
    show thesis
    proof (cases "find (\<lambda>v. GetTensor ?g1 v = None) (gd_inputs (md_graph model))")
      case (Some input_name)
      show thesis by (rule that[of "build_error (''missing graph input tensor: '' @ input_name)" ?g1])
        (simp_all add: build_body_def m0 v Inr Some Let_def)
    next
      case None
      obtain s1 sv e where c: "create_values (gd_values (md_graph model)) ({}, g_env ?g0) = (s1, sv, e)" by (metis surj_pair)
      let ?g2 = "?g1\<lparr>g_env := e\<rparr>"
      let ?ds = "map (\<lambda>i. gd_nodes (md_graph model) ! i) order"
      obtain s2 sv2 g3 where b: "build_nodes reg ?ds (sv, ?g2) = (s2, sv2, g3)" by (metis surj_pair)
      have start: "graph_inv ?g2" "g_index ?g2 = Map.empty" "g_producer ?g2 = Map.empty" "g_aliases ?g2 = Map.empty"
        "g_model ?g2 = model" "g_nodes ?g2 = []"
        by (rule graph_inv_cong[OF graph_inv_cleared[of g]]) (simp_all add: ClearGraphState_def)
      note val = validated_order[OF v[unfolded Inr]]
      have un: "map unnamed (gd_nodes (md_graph model)) = map unnamed (gd_nodes (md_graph (g_model g)))"
        and d: "distinct order" "set order = {..<length (gd_nodes (md_graph (g_model g)))}" using val by blast+
      have len: "length (gd_nodes (md_graph model)) = length (gd_nodes (md_graph (g_model g)))"
        by (rule unnamed_same(1)[OF un])
      have perm: "mset order = mset [0..<length (gd_nodes (md_graph model))]"
        using d set_eq_iff_mset_eq_distinct[of order "[0..<length (gd_nodes (md_graph model))]"]
        by (simp add: len atLeast_upt)
      have ds: "mset ?ds = mset (gd_nodes (md_graph model))"
        using arg_cong[OF perm, of "image_mset (\<lambda>i. gd_nodes (md_graph model) ! i)"] map_nth[of "gd_nodes (md_graph model)"]
        by (metis mset_map)
      have names: "distinct (map nd_name ?ds)" "[] \<notin> set (map nd_name ?ds)"
      proof -
        have "mset (map nd_name ?ds) = mset (map nd_name (gd_nodes (md_graph model)))" using arg_cong[OF ds, of "image_mset nd_name"] by (simp only: mset_map)
        note e = mset_eq_imp_distinct_iff[OF this] mset_eq_setD[OF this]
        show "distinct (map nd_name ?ds)" unfolding e(1) using val by blast
        show "[] \<notin> set (map nd_name ?ds)" unfolding e(2) using val by blast
      qed
      have outs: "distinct (concat (map nd_outputs ?ds))"
      proof -
        have "well_formed_graph (md_graph (g_model g)) (g_bound g)" using accepts_well_formed v Inr by blast
        then have "distinct (concat (map nd_outputs (gd_nodes (md_graph (g_model g)))))"
          unfolding well_formed_graph_def Let_def by blast
        moreover have "map nd_outputs (gd_nodes (md_graph model)) = map nd_outputs (gd_nodes (md_graph (g_model g)))"
          by (rule nth_equalityI) (simp_all add: len unnamed_same(2)[OF un])
        ultimately show ?thesis using distinct_concat_perm[OF ds, of nd_outputs] by simp
      qed
      show thesis
      proof (cases "ok s1 \<and> ok s2")
        case False
        then show thesis
          by (intro that[of "if ok s1 then s2 else s1" "if ok s1 then g3 else ?g2"])
            (auto simp: build_body_def m0 v Inr None c b Let_def)
      next
        case True
        have B: "graph_inv g3 \<and> g_model g3 = model \<and> g_aliases g3 = Map.empty \<and> list_all2 built_from ?ds (g_nodes g3)"
          using build_nodes_inv[OF b _ start(1) names _ outs] True start by auto
        let ?g3 = "g3\<lparr>g_build_time := sv2\<rparr>"
        have inv3: "graph_inv ?g3" by (rule graph_inv_cong[of g3]) (use B in simp_all)
        obtain s4 g4 where r: "RecordControlValues ?g3 = Some (s4, g4)"
          "g_nodes g4 = g_nodes ?g3" "g_index g4 = g_index ?g3" "g_producer g4 = g_producer ?g3"
          "g_users g4 = g_users ?g3" "g_aliases g4 = g_aliases ?g3" "g_model g4 = g_model ?g3"
          using RecordControlValues_run[OF inv3] by blast
        let ?g5 = "RecordBuildDescriptors (g4\<lparr>g_built := True\<rparr>)"
        have run: "build_body reg g = Some (if ok s4 then (CheckStatus ?g5, ?g5) else (s4, g4))"
          using True by (simp add: build_body_def m0 v Inr None c b Let_def r(1))
        have "built_graph model order ?g5" if "ok (CheckStatus ?g5)"
          using B r CheckStatus_ok[OF that] graph_inv_cong[OF inv3, of ?g5] by (simp add: built_graph_def)
        then show thesis
          by (intro that[of "if ok s4 then CheckStatus ?g5 else s4" "if ok s4 then ?g5 else g4"])
            (use run v Inr in \<open>auto split: if_splits\<close>)
      qed
    qed
  qed
qed


lemma BuildStatus_run:
  obtains st g' where "BuildStatus reg g = Some (st, g')"
    "ok st \<longrightarrow> (\<exists>model order. ValidateAndOrderGraph (g_model g) (g_bound g) = (model, Inr order) \<and> built_graph model order g')"
proof -
  let ?s = "g\<lparr>g_env := (g_env g)\<lparr>e_world := (e_world (g_env g))\<lparr>deferred_scope := True\<rparr>\<rparr>\<rparr>"
  obtain st h where r: "build_body reg ?s = Some (st, h)"
      "ok st \<longrightarrow> (\<exists>model order. ValidateAndOrderGraph (g_model ?s) (g_bound ?s) = (model, Inr order) \<and> built_graph model order h)"
    by (rule build_body_run[of reg ?s]) blast
  let ?h = "h\<lparr>g_env := (g_env h)\<lparr>e_world := (e_world (g_env h))\<lparr>deferred_scope := deferred_scope (e_world (g_env g))\<rparr>\<rparr>\<rparr>"
  have "BuildStatus reg g = Some (st, ?h)" by (simp add: BuildStatus_def in_deferred_scope_def Let_def r(1))
  moreover have cs: "CheckStatus ?h = CheckStatus h" unfolding CheckStatus_def by simp
  moreover have "built_graph model order ?h" if "built_graph model order h" for model order
    using that graph_inv_cong[of h ?h] cs by (simp add: built_graph_def)
  ultimately show thesis using that[of st ?h] r(2) by auto
qed

section \<open>Properties\<close>

definition demo_build_registry :: OperatorRegistry where
  "demo_build_registry = demo_registry\<lparr>r_builders := [''Relu'' \<mapsto> (\<lambda>n e.
     ((Some \<lparr>op_out = map (env_tensor e) (nd_outputs n), op_kernel = Some 7\<rparr>, Ok), e))],
     r_semantics := Map.empty\<rparr>"

definition demo_sink_model :: ModelDesc where
  "demo_sink_model = \<lparr>md_name = ''m'', md_version = 1,
     md_graph = \<lparr>gd_name = ''g'', gd_inputs = [''x''], gd_outputs = [''x''], gd_values = [demo_value ''x''],
       gd_nodes = [\<lparr>nd_name = ''a'', nd_op_type = ''Relu'', nd_domain = [], nd_inputs = [''x''], nd_outputs = [],
         nd_attributes = Map.empty\<rparr>]\<rparr>,
     md_metadata = Map.empty, md_variants = []\<rparr>"
definition demo_start :: StaticGraph where
  "demo_start = \<lparr>g_model = demo_sink_model,
     g_env = \<lparr>e_heap = [empty_Tensor], e_world = demo_heap, e_tensors = [(''x'', 0)]\<rparr>,
     g_bound = {''x''}, g_nodes = [], g_index = Map.empty, g_producer = Map.empty, g_users = Map.empty,
     g_aliases = Map.empty, g_build_time = {}, g_control = [], g_descriptors = [], g_built = False, g_device = COMMON\<rparr>"

lemma demo_count: "CheckedElementCount [2] = Some 2"
  by (simp add: CheckedElementCount_def mul64_def SIZE_MAX_def INT64_MAX_def)

lemma demo_order: "ValidateAndOrderGraph demo_sink_model {''x''} = (demo_sink_model, Inr [0])"
  by (simp add: ValidateAndOrderGraph_def demo_sink_model_def check_descriptions_def demo_value_def check_value_def
      demo_count Let_def bindR_def check_input_def check_name_def visit_node_def name_node_def order_nodes_def
      node_inputs_def link_input_def check_output_def kahn_order_def initial_ready_def set_nodes_def pq_push_def)

lemma demo_built_ok: "\<exists>g. BuildStatus demo_build_registry demo_start = Some (Ok, g)"
  unfolding BuildStatus_def in_deferred_scope_def build_body_def demo_start_def ClearGraphState_def
  by (simp add: demo_order Let_def)
    (simp add: demo_sink_model_def demo_value_def create_value_def env_tensor_def GetTensor_def Let_def build_node_def Create_def
      demo_build_registry_def demo_registry_def evaluated_at_build_def
      GetOperatorSemantics_def default_semantics_def add_node_def register_all_def RegisterValueUse_def RecordControlValues_def control_seeds_def shape_inputs_def
      RecordBuildDescriptors_def RecordBuildDescriptor_def CheckStatus_def broken_node_def map_heap_def)







text \<open>
  C16: Building always ends.  A build that succeeds has accepted and ordered the model; its nodes
  are those of the model in execution order, each with an operator that has a kernel, and the
  indices over names, producers and users agree with them.
\<close>

theorem BuildStatus_establishes_indices:
  "\<exists>st g'. BuildStatus reg g = Some (st, g') \<and>
    (ok st \<longrightarrow> (\<exists>model order. ValidateAndOrderGraph (g_model g) (g_bound g) = (model, Inr order) \<and> built_graph model order g'))"
proof (rule BuildStatus_run[of reg g])
  fix st g'
  assume "BuildStatus reg g = Some (st, g')"
    and "ok st \<longrightarrow> (\<exists>model order. ValidateAndOrderGraph (g_model g) (g_bound g) = (model, Inr order) \<and> built_graph model order g')"
  then show ?thesis by (intro exI conjI)
qed

lemma BuildStatus_establishes_indices_witness:
  "\<exists>g'. BuildStatus demo_build_registry demo_start = Some (Ok, g') \<and> graph_inv g'"
proof -
  let ?P = "\<lambda>h. \<exists>model order. ValidateAndOrderGraph (g_model demo_start) (g_bound demo_start) = (model, Inr order) \<and>
      built_graph model order h"
  obtain g' where g: "BuildStatus demo_build_registry demo_start = Some (Ok, g')"
    using demo_built_ok by blast
  obtain st h where r: "BuildStatus demo_build_registry demo_start = Some (st, h)" "ok st \<longrightarrow> ?P h"
    using BuildStatus_establishes_indices[of demo_build_registry demo_start] by (elim exE conjE) (rule that)
  have "st = Ok" "h = g'" using r(1) g by simp_all
  then have "?P g'" using r(2) by simp
  then obtain model order where "built_graph model order g'" by (elim exE conjE) (rule that)
  then have "graph_inv g'" unfolding built_graph_def by (rule conjunct1)
  then show ?thesis using g by (intro exI conjI)
qed

end
