(* ===== verification/Graph_Passes.thy ===== *)
theory Graph_Passes
  imports Graph_Build
begin

text \<open>
  Rewriting passes: \<open>include/pass/graph_pass.h\<close>, \<open>src/pass/graph_pass.cc\<close> and the passes of the
  default pipeline under \<open>src/pass/\<close>.  A pass answers what its \<open>Run\<close> returns, or the text of the
  exception it throws, with the graph it leaves; \<open>None\<close> would say the fuel of a loop was not
  enough.  The graph argument is never null.
\<close>

section \<open>The pass manager\<close>

type_synonym pass_result = "((string + int) \<times> StaticGraph) option"

record graph_pass =
  gp_name :: string
  gp_run :: "StaticGraph \<Rightarrow> pass_result"
  gp_requires :: "string list"
  gp_supports :: "DeviceType \<Rightarrow> bool"

definition Returned :: "int \<times> StaticGraph \<Rightarrow> pass_result" where
  "Returned r = Some (Inr (fst r), snd r)"

text \<open>A pass that requires no other and supports every device, as most do.\<close>

definition plain_pass :: "string \<Rightarrow> (StaticGraph \<Rightarrow> pass_result) \<Rightarrow> graph_pass" where
  "plain_pass name run = \<lparr>gp_name = name, gp_run = run, gp_requires = [], gp_supports = (\<lambda>_. True)\<rparr>"

definition KernelDevice :: "StaticGraph \<Rightarrow> DeviceType" where
  "KernelDevice g = g_device g"

fun run_passes :: "graph_pass list \<Rightarrow> string set \<Rightarrow> StaticGraph \<Rightarrow> (status \<times> StaticGraph) option" where
  "run_passes [] completed g = Some (Ok, g)"
| "run_passes (pass # passes) completed g =
     (if \<not> gp_supports pass (KernelDevice g) then run_passes passes completed g
      else case find (\<lambda>requirement. requirement \<notin> completed) (gp_requires pass) of
        Some requirement \<Rightarrow>
          Some (build_error (''pass='' @ gp_name pass @ '' requires prior pass='' @ requirement), g)
      | None \<Rightarrow>
          (case gp_run pass g of
             None \<Rightarrow> None
           | Some (Inl what, g') \<Rightarrow> Some (build_error (''pass='' @ gp_name pass @ '': '' @ what), g')
           | Some (Inr result, g') \<Rightarrow>
               if result \<noteq> 0 then Some (build_error (''pass failed: '' @ gp_name pass), g')
               else
                 (let st = ValidateStructureStatus g' in
                  if \<not> ok st then Some (WithContext st (''after pass='' @ gp_name pass), g')
                  else run_passes passes (insert (gp_name pass) completed) g')))"

definition PassManager_RunStatus :: "graph_pass list \<Rightarrow> StaticGraph \<Rightarrow> (status \<times> StaticGraph) option" where
  "PassManager_RunStatus passes g =
     (let st = ValidateStructureStatus g in if \<not> ok st then Some (st, g) else run_passes passes {} g)"

section \<open>Shared loops\<close>

text \<open>
  Passes collect the names of the nodes they consider, then take one step per name; a step that
  answers \<open>False\<close> makes the pass return \<open>-1\<close>.
\<close>

definition live_names :: "(StaticNode \<Rightarrow> bool) \<Rightarrow> StaticGraph \<Rightarrow> string list" where
  "live_names P g = map sn_name (filter (\<lambda>n. \<not> sn_removed n \<and> P n) (g_nodes g))"

fun each_node ::
  "(string \<Rightarrow> StaticGraph \<Rightarrow> bool \<times> StaticGraph) \<Rightarrow> string list \<Rightarrow> StaticGraph \<Rightarrow> int \<times> StaticGraph" where
  "each_node step [] g = (0, g)"
| "each_node step (n # ns) g =
     (let (fine, g') = step n g in if fine then each_node step ns g' else (-1, g'))"

definition is_op :: "string \<Rightarrow> StaticNode \<Rightarrow> bool" where
  "is_op t n \<longleftrightarrow> sn_op_type n = t"

fun replace_users ::
  "OperatorRegistry \<Rightarrow> string list \<Rightarrow> string \<Rightarrow> string \<Rightarrow> StaticGraph \<Rightarrow> bool \<times> StaticGraph" where
  "replace_users reg [] v_from v_to g = (True, g)"
| "replace_users reg (u # us) v_from v_to g =
     (let (replaced, g') = ReplaceInputValue reg u v_from v_to g in
      if replaced then replace_users reg us v_from v_to g' else (False, g'))"

definition ReplaceAllUsers :: "OperatorRegistry \<Rightarrow> string \<Rightarrow> string \<Rightarrow> StaticGraph \<Rightarrow> bool \<times> StaticGraph" where
  "ReplaceAllUsers reg v_from v_to g = replace_users reg (GetUsers g v_from) v_from v_to g"

text \<open>The users of a node's output read its input instead, and the node goes.\<close>

definition bypass :: "OperatorRegistry \<Rightarrow> string \<Rightarrow> string \<Rightarrow> string \<Rightarrow> StaticGraph \<Rightarrow> bool \<times> StaticGraph" where
  "bypass reg node_name output input g =
     (let (replaced, g') = ReplaceAllUsers reg output input g in
      if replaced then RemoveNode node_name g' else (False, g'))"

section \<open>Identity, no-op and reshape-chain elimination\<close>

definition identity_step :: "OperatorRegistry \<Rightarrow> string \<Rightarrow> StaticGraph \<Rightarrow> bool \<times> StaticGraph" where
  "identity_step reg node_name g =
     (case GetNode g node_name of None \<Rightarrow> (True, g)
      | Some node \<Rightarrow>
          if length (sn_inputs node) \<noteq> 1 \<or> length (sn_outputs node) \<noteq> 1 \<or>
             IsGraphOutputValue g (sn_outputs node ! 0)
          then (True, g)
          else bypass reg node_name (sn_outputs node ! 0) (sn_inputs node ! 0) g)"

definition IdentityElimination :: "OperatorRegistry \<Rightarrow> StaticGraph \<Rightarrow> pass_result" where
  "IdentityElimination reg g = Returned (each_node (identity_step reg) (live_names (is_op ''Identity'') g) g)"

definition GetVectorAttribute :: "NodeDesc \<Rightarrow> string \<Rightarrow> i64 list" where
  "GetVectorAttribute node key =
     (case nd_attributes node key of Some (AttrInts value) \<Rightarrow> value | _ \<Rightarrow> [])"

definition IsIdentityPermutation :: "i64 list \<Rightarrow> bool" where
  "IsIdentityPermutation perm \<longleftrightarrow> perm \<noteq> [] \<and> (\<forall>i < length perm. perm ! i = int i)"

definition no_op_removable :: "StaticGraph \<Rightarrow> StaticNode \<Rightarrow> bool" where
  "no_op_removable g node \<longleftrightarrow>
     length (sn_inputs node) = 1 \<and> length (sn_outputs node) = 1 \<and>
     \<not> IsGraphOutputValue g (sn_outputs node ! 0) \<and>
     (case (GetTensor g (sn_inputs node ! 0), GetTensor g (sn_outputs node ! 0)) of
        (Some inp, Some out) \<Rightarrow>
          if sn_op_type node = ''Reshape'' then m_dims (tensor_at g inp) = m_dims (tensor_at g out)
          else if sn_op_type node = ''Transpose''
          then (case model_node g (sn_name node) of None \<Rightarrow> False
                | Some d \<Rightarrow> IsIdentityPermutation (GetVectorAttribute d ''perm''))
          else False
      | _ \<Rightarrow> False)"

definition no_op_step :: "OperatorRegistry \<Rightarrow> string \<Rightarrow> StaticGraph \<Rightarrow> bool \<times> StaticGraph" where
  "no_op_step reg node_name g =
     (case GetNode g node_name of None \<Rightarrow> (True, g)
      | Some node \<Rightarrow> bypass reg node_name (sn_outputs node ! 0) (sn_inputs node ! 0) g)"

definition NoOpElimination :: "OperatorRegistry \<Rightarrow> StaticGraph \<Rightarrow> pass_result" where
  "NoOpElimination reg g = Returned (each_node (no_op_step reg) (live_names (no_op_removable g) g) g)"

definition reshape_chain_step :: "OperatorRegistry \<Rightarrow> string \<Rightarrow> StaticGraph \<Rightarrow> bool \<times> StaticGraph" where
  "reshape_chain_step reg node_name g =
     (case GetNode g node_name of None \<Rightarrow> (True, g)
      | Some outer \<Rightarrow>
          if length (sn_inputs outer) \<noteq> 1 \<or> length (sn_outputs outer) \<noteq> 1 then (True, g)
          else
            (let inner_output = sn_inputs outer ! 0; producer_name = GetProducer g inner_output in
             if IsGraphOutputValue g inner_output \<or> producer_name = [] then (True, g)
             else case GetNode g producer_name of None \<Rightarrow> (True, g)
             | Some inner \<Rightarrow>
                 if sn_op_type inner \<noteq> ''Reshape'' \<or> length (sn_inputs inner) \<noteq> 1 \<or> length (sn_outputs inner) \<noteq> 1 \<or>
                    GetUsers g inner_output \<noteq> [sn_name outer]
                 then (True, g)
                 else
                   (let (replaced, g') = ReplaceInputValue reg (sn_name outer) inner_output (sn_inputs inner ! 0) g in
                    if replaced then RemoveNode (sn_name inner) g' else (False, g'))))"

definition ReshapeChainElimination :: "OperatorRegistry \<Rightarrow> StaticGraph \<Rightarrow> pass_result" where
  "ReshapeChainElimination reg g =
     Returned (each_node (reshape_chain_step reg) (live_names (is_op ''Reshape'') g) g)"

section \<open>Fusions of the default pipeline\<close>

text \<open>\<open>MatchSiluPattern\<close>: the sigmoid node and the activation it shares with the product.\<close>

definition silu_at :: "StaticGraph \<Rightarrow> StaticNode \<Rightarrow> nat \<Rightarrow> (string \<times> string) option" where
  "silu_at g mul_node k =
     (let sigmoid_output = sn_inputs mul_node ! k; passthrough = sn_inputs mul_node ! (1 - k);
          producer_name = GetProducer g sigmoid_output in
      if producer_name = [] then None
      else case GetNode g producer_name of None \<Rightarrow> None
      | Some sigmoid \<Rightarrow>
          if sn_op_type sigmoid \<noteq> ''Sigmoid'' \<or> length (sn_inputs sigmoid) \<noteq> 1 \<or> length (sn_outputs sigmoid) \<noteq> 1 \<or>
             sn_outputs sigmoid ! 0 \<noteq> sigmoid_output \<or> sn_inputs sigmoid ! 0 \<noteq> passthrough \<or>
             IsGraphOutputValue g sigmoid_output \<or> GetUsers g sigmoid_output \<noteq> [sn_name mul_node]
          then None else Some (sn_name sigmoid, passthrough))"

definition MatchSiluPattern :: "StaticGraph \<Rightarrow> StaticNode \<Rightarrow> (string \<times> string) option" where
  "MatchSiluPattern g mul_node =
     (if sn_removed mul_node \<or> sn_op_type mul_node \<noteq> ''Mul'' \<or> length (sn_inputs mul_node) \<noteq> 2 \<or>
         length (sn_outputs mul_node) \<noteq> 1
      then None
      else case silu_at g mul_node 0 of Some m \<Rightarrow> Some m | None \<Rightarrow> silu_at g mul_node 1)"

text \<open>\<open>ReplaceNodeOp\<close> on the node that stays, then \<open>RemoveNode\<close> on the one it swallows.\<close>

definition fuse_nodes ::
  "OperatorRegistry \<Rightarrow> string \<Rightarrow> string \<Rightarrow> string list \<Rightarrow> string \<Rightarrow> StaticGraph \<Rightarrow> bool \<times> StaticGraph" where
  "fuse_nodes reg keep op_type inputs swallow g =
     (let (replaced, g') = ReplaceNodeOp reg keep op_type inputs g in
      if replaced then RemoveNode swallow g' else (False, g'))"

definition silu_step :: "OperatorRegistry \<Rightarrow> string \<Rightarrow> StaticGraph \<Rightarrow> bool \<times> StaticGraph" where
  "silu_step reg mul_name g =
     (case GetNode g mul_name of None \<Rightarrow> (True, g)
      | Some mul_node \<Rightarrow>
          (case MatchSiluPattern g mul_node of None \<Rightarrow> (True, g)
           | Some (sigmoid_name, activation) \<Rightarrow> fuse_nodes reg mul_name ''SiLU'' [activation] sigmoid_name g))"

definition SigmoidMulFusion :: "OperatorRegistry \<Rightarrow> StaticGraph \<Rightarrow> pass_result" where
  "SigmoidMulFusion reg g = Returned (each_node (silu_step reg) (live_names (is_op ''Mul'') g) g)"

definition IsValidGemmBias :: "StaticGraph \<Rightarrow> nat \<Rightarrow> i64 \<Rightarrow> i64 \<Rightarrow> bool" where
  "IsValidGemmBias g bias m n \<longleftrightarrow>
     IsInitialized (e_world (g_env g)) (tensor_at g bias) \<and>
     (m_dims (tensor_at g bias) = [n] \<or> m_dims (tensor_at g bias) = [m, n])"

definition matmul_at :: "StaticGraph \<Rightarrow> StaticNode \<Rightarrow> nat \<Rightarrow> (string \<times> string \<times> string \<times> string) option" where
  "matmul_at g add k =
     (let matmul_output = sn_inputs add ! k; candidate_bias = sn_inputs add ! (1 - k);
          producer_name = GetProducer g matmul_output in
      if producer_name = [] then None
      else case GetNode g producer_name of None \<Rightarrow> None
      | Some matmul \<Rightarrow>
          if sn_op_type matmul \<noteq> ''MatMul'' \<or> length (sn_inputs matmul) \<noteq> 2 \<or> length (sn_outputs matmul) \<noteq> 1 \<or>
             IsGraphOutputValue g matmul_output \<or> GetUsers g matmul_output \<noteq> [sn_name add]
          then None
          else case (GetTensor g (sn_inputs matmul ! 0), GetTensor g (sn_inputs matmul ! 1), GetTensor g candidate_bias) of
            (Some a, Some b, Some bias) \<Rightarrow>
              (case (m_dims (tensor_at g a), m_dims (tensor_at g b)) of
                 ([m, k1], [k2, n]) \<Rightarrow>
                   if k1 = k2 \<and> IsValidGemmBias g bias m n
                   then Some (sn_name matmul, sn_inputs matmul ! 0, sn_inputs matmul ! 1, candidate_bias) else None
               | _ \<Rightarrow> None)
          | _ \<Rightarrow> None)"

definition MatchMatMulAddPattern ::
  "StaticGraph \<Rightarrow> StaticNode \<Rightarrow> (string \<times> string \<times> string \<times> string) option" where
  "MatchMatMulAddPattern g add =
     (if sn_removed add \<or> sn_op_type add \<noteq> ''Add'' \<or> length (sn_inputs add) \<noteq> 2 \<or> length (sn_outputs add) \<noteq> 1
      then None
      else case matmul_at g add 0 of Some m \<Rightarrow> Some m | None \<Rightarrow> matmul_at g add 1)"

definition matmul_add_step :: "OperatorRegistry \<Rightarrow> string \<Rightarrow> StaticGraph \<Rightarrow> bool \<times> StaticGraph" where
  "matmul_add_step reg add_name g =
     (case GetNode g add_name of None \<Rightarrow> (True, g)
      | Some add \<Rightarrow>
          (case MatchMatMulAddPattern g add of None \<Rightarrow> (True, g)
           | Some (matmul_name, a_name, b_name, bias_name) \<Rightarrow>
               fuse_nodes reg add_name ''Gemm'' [a_name, b_name, bias_name] matmul_name g))"

definition MatMulAddFusion :: "OperatorRegistry \<Rightarrow> StaticGraph \<Rightarrow> pass_result" where
  "MatMulAddFusion reg g = Returned (each_node (matmul_add_step reg) (live_names (is_op ''Add'') g) g)"

section \<open>Dead-node elimination\<close>

definition has_live_output :: "StaticGraph \<Rightarrow> StaticNode \<Rightarrow> bool" where
  "has_live_output g node \<longleftrightarrow> (\<exists>v \<in> set (sn_outputs node). IsGraphOutputValue g v \<or> GetUsers g v \<noteq> [])"

fun remove_nodes :: "string list \<Rightarrow> bool \<Rightarrow> StaticGraph \<Rightarrow> bool \<times> StaticGraph" where
  "remove_nodes [] changed g = (changed, g)"
| "remove_nodes (n # ns) changed g =
     (let (removed, g') = RemoveNode n g in remove_nodes ns (changed \<or> removed) g')"

text \<open>Every round but the last removes a node, so one round more than there are nodes suffices.\<close>

fun dead_rounds :: "nat \<Rightarrow> StaticGraph \<Rightarrow> StaticGraph option" where
  "dead_rounds 0 g = None"
| "dead_rounds (Suc fuel) g =
     (let (changed, g') = remove_nodes (live_names (\<lambda>n. \<not> has_live_output g n) g) False g in
      if changed then dead_rounds fuel g' else Some g')"

definition DeadNodeElimination :: "StaticGraph \<Rightarrow> pass_result" where
  "DeadNodeElimination g = map_option (\<lambda>g'. (Inr 0, g')) (dead_rounds (Suc (NodeSize g)) g)"

section \<open>The default pipeline\<close>

definition CreateDefaultPassManager :: "OperatorRegistry \<Rightarrow> graph_pass list" where
  "CreateDefaultPassManager reg =
     [plain_pass ''SigmoidMulFusionPass'' (SigmoidMulFusion reg),
      plain_pass ''MatMulAddFusionPass'' (MatMulAddFusion reg),
      plain_pass ''IdentityEliminationPass'' (IdentityElimination reg),
      plain_pass ''ReshapeChainEliminationPass'' (ReshapeChainElimination reg),
      plain_pass ''NoOpEliminationPass'' (NoOpElimination reg),
      plain_pass ''DeadNodeEliminationPass'' DeadNodeElimination]"


section \<open>What the rewriting operations do to the nodes\<close>

lemma GetNode_live:
  assumes "graph_inv g" and "GetNode g name = Some n"
  obtains i where "live (g_nodes g) i" and "g_nodes g ! i = n" and "sn_name n = name" and "GetNodeIndex g name = Some i"
  using assms GetNodeIndex_live[of g name] by (auto simp: GetNode_def)

lemma live_GetNode:
  "graph_inv g \<Longrightarrow> live (g_nodes g) i \<Longrightarrow> GetNodeIndex g (sn_name (g_nodes g ! i)) = Some i"
  by (auto simp: GetNodeIndex_def graph_inv_def index_match_def live_def)

lemma same_name_live:
  "graph_inv g \<Longrightarrow> live (g_nodes g) i \<Longrightarrow> live (g_nodes g) j \<Longrightarrow> sn_name (g_nodes g ! i) = sn_name (g_nodes g ! j) \<Longrightarrow> i = j"
  unfolding graph_inv_def live_def using index_match_inj by blast

lemma producer_node:
  assumes inv: "graph_inv g" and p: "GetProducer g v \<noteq> []" and n: "GetNode g (GetProducer g v) = Some n"
  obtains j where "live (g_nodes g) j" and "g_nodes g ! j = n" and "v \<in> set (sn_outputs n)"
proof -
  obtain j where j: "live (g_nodes g) j" "g_nodes g ! j = n" "sn_name n = GetProducer g v"
    using GetNode_live[OF inv n] by metis
  from p obtain m where m: "g_producer g v = Some m" "GetProducer g v = m"
    by (auto simp: GetProducer_def split: option.splits)
  then obtain k where k: "live (g_nodes g) k" "sn_name (g_nodes g ! k) = m" "v \<in> set (sn_outputs (g_nodes g ! k))"
    using inv by (auto simp: graph_inv_def producers_match_def)
  have "k = j" using same_name_live[OF inv k(1) j(1)] j m k by simp
  then show thesis using that j k by auto
qed

lemma record_descriptors_kept [simp]:
  "g_model (record_descriptors vs g) = g_model g" "g_env (record_descriptors vs g) = g_env g"
  by (induction vs arbitrary: g) (simp_all add: record_descriptors_def)

lemma replace_model_node_env [simp]: "g_env (replace_model_node d g) = g_env g"
  by (simp add: replace_model_node_def Let_def)

lemma RemoveNode_effect:
  assumes "graph_inv g" and "RemoveNode name g = (True, h)"
  obtains i where "live (g_nodes g) i" and "sn_name (g_nodes g ! i) = name"
    and "g_nodes h = (g_nodes g)[i := (g_nodes g ! i)\<lparr>sn_removed := True, sn_op := None\<rparr>]"
    and "g_model h = g_model g" and "g_env h = g_env g" and "g_aliases h = g_aliases g"
proof -
  from assms(2) obtain i where i: "GetNodeIndex g name = Some i"
    and h: "h = drop_node i (foldl (\<lambda>g v. forget_output name v g)
        (unregister_all (sn_inputs (g_nodes g ! i)) name g) (sn_outputs (g_nodes g ! i)))"
    by (auto simp: RemoveNode_def Let_def split: option.splits if_splits)
  from GetNodeIndex_live[OF assms(1) i] show thesis
    by (intro that[of i]) (simp_all add: h drop_node_def forget_outputs)
qed

definition node_attrs :: "StaticGraph \<Rightarrow> string \<Rightarrow> string \<rightharpoonup> AttributeValue" where
  "node_attrs g name = (case model_node g name of None \<Rightarrow> Map.empty | Some d \<Rightarrow> nd_attributes d)"

lemma RebuildNode_effect:
  assumes "RebuildNode reg i g = (True, h)"
  obtains domain ob st e where "live (g_nodes g) i"
    and "Create reg \<lparr>nd_name = sn_name (g_nodes g ! i), nd_op_type = sn_op_type (g_nodes g ! i), nd_domain = domain,
           nd_inputs = sn_inputs (g_nodes g ! i), nd_outputs = sn_outputs (g_nodes g ! i),
           nd_attributes = node_attrs g (sn_name (g_nodes g ! i))\<rparr> (g_env g) = ((Some ob, st), e)"
    and "g_nodes h = (g_nodes g)[i := (g_nodes g ! i)\<lparr>sn_op := Some ob,
           sn_semantics := GetOperatorSemantics (r_semantics reg) (sn_op_type (g_nodes g ! i))\<rparr>]"
    and "g_model h = g_model g" and "g_aliases h = g_aliases g"
    and "\<exists>g2. g_env g2 = e \<and> g_env h = g_env (snd (install_outputs (sn_name (g_nodes g ! i))
           (node_outputs_of (sn_outputs (g_nodes g ! i)) ob) g2))"
proof -
  let ?node = "g_nodes g ! i"
  define desc where "desc = \<lparr>nd_name = sn_name ?node, nd_op_type = sn_op_type ?node,
      nd_domain = (case model_node g (sn_name ?node) of None \<Rightarrow> [] | Some d \<Rightarrow> nd_domain d),
      nd_inputs = sn_inputs ?node, nd_outputs = sn_outputs ?node,
      nd_attributes = node_attrs g (sn_name ?node)\<rparr>"
  obtain oper st e where c: "Create reg desc (g_env g) = ((oper, st), e)" by (metis surj_pair)
  from assms have i: "live (g_nodes g) i" by (auto simp: RebuildNode_def live_def split: if_splits)
  from assms c i obtain ob where ob: "oper = Some ob"
    by (cases oper) (auto simp: RebuildNode_def live_def Let_def desc_def node_attrs_def split: if_splits)
  let ?g2 = "set_node i (?node\<lparr>sn_op := Some ob,
      sn_semantics := GetOperatorSemantics (r_semantics reg) (sn_op_type ?node)\<rparr>) (g\<lparr>g_env := e\<rparr>)"
  let ?r = "install_outputs (sn_name ?node) (node_outputs_of (sn_outputs ?node) ob) ?g2"
  have h: "h = record_descriptors (sn_outputs ?node) (snd ?r)"
    using assms c i ob by (auto simp: RebuildNode_def live_def Let_def desc_def node_attrs_def split: prod.splits if_splits)
  show thesis
  proof (rule that[OF i c[unfolded ob desc_def]])
    show "\<exists>g2. g_env g2 = e \<and> g_env h = g_env (snd (install_outputs (sn_name ?node)
           (node_outputs_of (sn_outputs ?node) ob) g2))"
      by (rule exI[of _ ?g2]) (simp add: h)
  qed (simp_all add: h install_outputs_sel)
qed

lemma ReplaceInputValue_effect:
  assumes inv: "graph_inv g" and run: "ReplaceInputValue reg name v_from v_to g = (True, h)"
  obtains i g1 where "live (g_nodes g) i" and "sn_name (g_nodes g ! i) = name" and "GetNodeIndex g name = Some i"
    and "v_from \<in> set (sn_inputs (g_nodes g ! i))"
    and "g_nodes g1 = (g_nodes g)[i := (g_nodes g ! i)\<lparr>sn_inputs :=
           map (\<lambda>x. if x = v_from then v_to else x) (sn_inputs (g_nodes g ! i))\<rparr>]"
    and "g_model g1 = g_model g" and "g_env g1 = g_env g" and "g_aliases g1 = g_aliases g"
    and "RebuildNode reg i g1 = (True, h)"
proof -
  from run obtain i where i: "GetNodeIndex g name = Some i" "v_from \<in> set (sn_inputs (g_nodes g ! i))"
    by (auto simp: ReplaceInputValue_def split: option.splits if_splits)
  note l = GetNodeIndex_live[OF inv i(1)]
  let ?g1 = "foldl (\<lambda>g k. replace_input_at name v_from v_to i k g) g [0..<length (sn_inputs (g_nodes g ! i))]"
  have "input_replaced name v_from v_to i (length (sn_inputs (g_nodes g ! i))) g ?g1"
    by (rule replace_inputs_state) (use inv l in \<open>simp_all add: graph_inv_def live_def\<close>)
  then show thesis
    using l i run by (intro that[of i ?g1]) (auto simp: ReplaceInputValue_def input_replaced_def replaced_upto_def)
qed

lemma find_replaced:
  assumes "List.find (\<lambda>n. nd_name n = name) ns = Some d0" and "nd_name d = name"
  defines "k \<equiv> length (takeWhile (\<lambda>n. nd_name n \<noteq> name) ns)"
  shows "List.find (\<lambda>n. nd_name n = m) (ns[k := d]) = (if m = name then Some d else List.find (\<lambda>n. nd_name n = m) ns)"
  using assms(1,2) unfolding k_def by (induction ns) auto

lemma ReplaceNodeDesc_effect:
  assumes inv: "graph_inv g" and run: "ReplaceNodeDesc reg desc g = (True, h)"
  obtains i ob st e where "live (g_nodes g) i" and "sn_name (g_nodes g ! i) = nd_name desc"
    and "nd_outputs desc = sn_outputs (g_nodes g ! i)"
    and "Create reg desc (g_env g) = ((Some ob, st), e)"
    and "g_nodes h = (g_nodes g)[i := (g_nodes g ! i)\<lparr>sn_op_type := nd_op_type desc, sn_inputs := nd_inputs desc,
           sn_op := Some ob, sn_semantics := GetOperatorSemantics (r_semantics reg) (nd_op_type desc)\<rparr>]"
    and "\<And>m. model_node g (nd_name desc) \<noteq> None \<Longrightarrow>
           node_attrs h m = (if m = nd_name desc then nd_attributes desc else node_attrs g m)"
    and "g_aliases h = g_aliases g"
    and "gd_outputs (md_graph (g_model h)) = gd_outputs (md_graph (g_model g))"
    and "\<exists>g2. g_env g2 = e \<and> g_env h = g_env (snd (install_outputs (nd_name desc)
           (node_outputs_of (nd_outputs desc) ob) g2))"
proof -
  from run obtain i where i: "g_index g (nd_name desc) = Some i"
    by (auto simp: ReplaceNodeDesc_def split: option.splits)
  have nm: "i < length (g_nodes g)" "sn_name (g_nodes g ! i) = nd_name desc"
    using inv i by (auto simp: graph_inv_def index_match_def)
  from run i have live: "\<not> sn_removed (g_nodes g ! i)" and outs: "nd_outputs desc = sn_outputs (g_nodes g ! i)"
    by (auto simp: ReplaceNodeDesc_def Let_def split: if_splits)
  obtain oper st e where c: "Create reg desc (g_env g) = ((oper, st), e)" by (metis surj_pair)
  from run i c obtain ob where ob: "oper = Some ob"
    by (cases oper) (auto simp: ReplaceNodeDesc_def Let_def split: if_splits)
  let ?n = "(g_nodes g ! i)\<lparr>sn_op_type := nd_op_type desc, sn_inputs := nd_inputs desc, sn_op := Some ob,
     sn_semantics := GetOperatorSemantics (r_semantics reg) (nd_op_type desc)\<rparr>"
  let ?r = "rewired i ?n (g\<lparr>g_env := e\<rparr>)"
  let ?k = "snd (install_outputs (nd_name desc) (node_outputs_of (nd_outputs desc) ob) ?r)"
  have h: "h = record_descriptors (nd_outputs desc) (replace_model_node desc ?k)"
    using run i c ob nm outs unfolding ReplaceNodeDesc_def
    by (auto simp: Let_def rewired_def split: prod.splits if_splits)
  have m: "g_model ?k = g_model g"
    using install_outputs_sel[of "nd_name desc" "node_outputs_of (nd_outputs desc) ob" ?r] by (simp add: rewired_def)
  have attrs: "node_attrs h m' = (if m' = nd_name desc then nd_attributes desc else node_attrs g m')"
    if d: "model_node g (nd_name desc) \<noteq> None" for m'
  proof -
    from d obtain d0 where "List.find (\<lambda>n. nd_name n = nd_name desc) (gd_nodes (md_graph (g_model g))) = Some d0"
      by (auto simp: model_node_def)
    from find_replaced[OF this refl, of m'] show ?thesis
      unfolding node_attrs_def model_node_def h
      by (simp add: replace_model_node_def m Let_def set_nodes_def)
  qed
  show thesis
  proof (rule that[OF _ nm(2) outs c[unfolded ob] _ attrs])
    show "\<exists>g2. g_env g2 = e \<and> g_env h = g_env (snd (install_outputs (nd_name desc)
           (node_outputs_of (nd_outputs desc) ob) g2))"
      by (rule exI[of _ ?r]) (simp add: h rewired_def)
    show "live (g_nodes g) i" using live nm by (simp add: live_def)
  qed (use install_outputs_sel[of "nd_name desc" "node_outputs_of (nd_outputs desc) ob" ?r] m in
      \<open>simp_all add: h rewired_sel replace_model_node_def Let_def set_nodes_def\<close>)
qed

lemma ReplaceNodeOp_desc:
  assumes "graph_inv g" and "ReplaceNodeOp reg name op_type inputs g = (True, h)"
    and "live (g_nodes g) i" and "sn_name (g_nodes g ! i) = name" and "sn_outputs (g_nodes g ! i) \<noteq> []"
  obtains d where "model_node g name = Some d" and "nd_outputs d = sn_outputs (g_nodes g ! i)"
    and "ReplaceNodeDesc reg \<lparr>nd_name = name, nd_op_type = op_type, nd_domain = nd_domain d, nd_inputs = inputs,
           nd_outputs = nd_outputs d, nd_attributes = nd_attributes d\<rparr> g = (True, h)"
proof -
  have ix: "g_index g name = Some i"
    using assms(1,3,4) by (auto simp: graph_inv_def index_match_def live_def)
  show thesis
  proof (cases "model_node g name")
    case None
    then show thesis using assms(2,5) ix by (auto simp: ReplaceNodeOp_def ReplaceNodeDesc_def Let_def split: if_splits)
  next
    case (Some d)
    then show thesis using assms(2) ix
      by (intro that[OF Some]) (auto simp: ReplaceNodeOp_def ReplaceNodeDesc_def Let_def split: if_splits)
  qed
qed


section \<open>What the nodes compute\<close>

text \<open>
  \<open>I op attributes inputs\<close> is what an operator computes from the values of its inputs; kernels
  are chosen elsewhere, so it is an argument.  An assignment of values to names solves the graph
  when every live node's outputs carry what the node computes.
\<close>

type_synonym 'v interp = "string \<Rightarrow> (string \<rightharpoonup> AttributeValue) \<Rightarrow> 'v list \<Rightarrow> 'v list"

definition solves :: "'v interp \<Rightarrow> (string \<Rightarrow> 'v) \<Rightarrow> StaticGraph \<Rightarrow> bool" where
  "solves I val g \<longleftrightarrow>
     (\<forall>i. live (g_nodes g) i \<longrightarrow> (let n = g_nodes g ! i in
        map val (sn_outputs n) = I (sn_op_type n) (node_attrs g (sn_name n)) (map val (sn_inputs n))))"

text \<open>The tensors bound to names have the dimensions of the values they stand for.\<close>

definition shaped_env :: "('v \<Rightarrow> i64 list) \<Rightarrow> (string \<Rightarrow> 'v) \<Rightarrow> op_env \<Rightarrow> bool" where
  "shaped_env dims_of val e \<longleftrightarrow> (\<forall>v p. env_tensor e v = Some p \<longrightarrow> m_dims (e_heap e ! p) = dims_of (val v))"

text \<open>
  What the passes rely on of the operators.  A \<open>Reshape\<close> has the elements of its input in the
  dimensions its attribute names, where \<open>0\<close> copies the input's dimension; \<open>Gemm\<close> without
  attributes adds a row or a full matrix to a product of matrices.
\<close>

definition copies_dims :: "(string \<rightharpoonup> AttributeValue) \<Rightarrow> bool" where
  "copies_dims a \<longleftrightarrow> (\<exists>ds. a ''shape'' = Some (AttrInts ds) \<and> 0 \<in> set ds)"

definition gemm_default :: "(string \<rightharpoonup> AttributeValue) \<Rightarrow> bool" where
  "gemm_default a \<longleftrightarrow> (\<forall>key \<in> {''transA'', ''transB'', ''alpha'', ''beta''}. a key = None)"

definition op_laws :: "'v interp \<Rightarrow> ('v \<Rightarrow> i64 list) \<Rightarrow> bool" where
  "op_laws I dims_of \<longleftrightarrow>
     (\<forall>a x. I ''Identity'' a [x] = [x]) \<and>
     (\<forall>a perm x. a ''perm'' = Some (AttrInts perm) \<longrightarrow> IsIdentityPermutation perm \<longrightarrow> I ''Transpose'' a [x] = [x]) \<and>
     (\<forall>a x y. I ''Reshape'' a [x] = [y] \<longrightarrow> dims_of y = dims_of x \<longrightarrow> y = x) \<and>
     (\<forall>a b x y. \<not> copies_dims b \<longrightarrow> I ''Reshape'' a [x] = [y] \<longrightarrow> I ''Reshape'' b [x] = I ''Reshape'' b [y]) \<and>
     (\<forall>a b x s. I ''Sigmoid'' a [x] = [s] \<longrightarrow>
        I ''SiLU'' b [x] = I ''Mul'' b [s, x] \<and> I ''SiLU'' b [x] = I ''Mul'' b [x, s]) \<and>
     (\<forall>a b x y p c m k n. gemm_default b \<longrightarrow> I ''MatMul'' a [x, y] = [p] \<longrightarrow>
        dims_of x = [m, k] \<longrightarrow> dims_of y = [k, n] \<longrightarrow> dims_of c = [n] \<or> dims_of c = [m, n] \<longrightarrow>
        I ''Gemm'' b [x, y, c] = I ''Add'' b [p, c] \<and> I ''Gemm'' b [x, y, c] = I ''Add'' b [c, p])"

text \<open>
  And of the builders: a builder that answers an operator keeps the dimensions of the tensors it
  was given, and gives every output the dimensions of the value the node computes.
\<close>

definition builder_law ::
  "OperatorRegistry \<Rightarrow> 'v interp \<Rightarrow> ('v \<Rightarrow> i64 list) \<Rightarrow> (string \<Rightarrow> 'v) \<Rightarrow> bool" where
  "builder_law reg I dims_of val \<longleftrightarrow>
     (\<forall>d e ob st e'. Create reg d e = ((Some ob, st), e') \<longrightarrow> shaped_env dims_of val e \<longrightarrow>
        map val (nd_outputs d) = I (nd_op_type d) (nd_attributes d) (map val (nd_inputs d)) \<longrightarrow>
        shaped_env dims_of val e' \<and>
        (\<forall>k p. k < length (nd_outputs d) \<longrightarrow> k < length (op_out ob) \<longrightarrow> op_out ob ! k = Some p \<longrightarrow>
           m_dims (e_heap e' ! p) = dims_of (val (nd_outputs d ! k))))"

text \<open>
  The graphs the fusions are meant for: no reshape copies a dimension, and no addition has an
  attribute that \<open>Gemm\<close> would take for its own.
\<close>

definition fusible_node :: "string \<Rightarrow> (string \<rightharpoonup> AttributeValue) \<Rightarrow> bool" where
  "fusible_node op_type a \<longleftrightarrow>
     (op_type = ''Add'' \<longrightarrow> gemm_default a) \<and> (op_type = ''Reshape'' \<longrightarrow> \<not> copies_dims a)"

definition fusible :: "StaticGraph \<Rightarrow> bool" where
  "fusible g \<longleftrightarrow> (\<forall>i. live (g_nodes g) i \<longrightarrow>
     fusible_node (sn_op_type (g_nodes g ! i)) (node_attrs g (sn_name (g_nodes g ! i))))"

definition sound_state :: "'v interp \<Rightarrow> ('v \<Rightarrow> i64 list) \<Rightarrow> (string \<Rightarrow> 'v) \<Rightarrow> StaticGraph \<Rightarrow> bool" where
  "sound_state I dims_of val g \<longleftrightarrow>
     graph_inv g \<and> solves I val g \<and> shaped_env dims_of val (g_env g) \<and> fusible g"

lemma solvesD:
  "solves I val g \<Longrightarrow> live (g_nodes g) i \<Longrightarrow> map val (sn_outputs (g_nodes g ! i)) =
     I (sn_op_type (g_nodes g ! i)) (node_attrs g (sn_name (g_nodes g ! i))) (map val (sn_inputs (g_nodes g ! i)))"
  by (simp add: solves_def Let_def)

lemma shaped_map_heap:
  "(\<And>t. m_dims (f t) = m_dims t) \<Longrightarrow> shaped_env dims_of val (map_heap f p e) = shaped_env dims_of val e"
  by (cases "p < length (e_heap e)") (auto simp: shaped_env_def map_heap_def env_tensor_def nth_list_update list_update_beyond)

lemma heap_dims_map_heap:
  "(\<And>t. m_dims (f t) = m_dims t) \<Longrightarrow> m_dims (e_heap (map_heap f p e) ! q) = m_dims (e_heap e ! q)"
  by (cases "p < length (e_heap e)") (auto simp: map_heap_def nth_list_update list_update_beyond)

lemma set_quantization_dims [simp]: "m_dims (set_quantization q t) = m_dims t"
  by (simp add: set_quantization_def Let_def)

lemma Restore_dims:
  "m_dims (e_heap (snd (RestoreDeclaredTensorMetadata m v p e)) ! q) = m_dims (e_heap e ! q) \<and>
   e_tensors (snd (RestoreDeclaredTensorMetadata m v p e)) = e_tensors e"
proof -
  have "m_dims (e_heap (map_heap (\<lambda>_. t) p e) ! q) = m_dims (e_heap e ! q)" if "m_dims t = m_dims (e_heap e ! p)" for t
    using that by (cases "p < length (e_heap e)") (auto simp: map_heap_def nth_list_update list_update_beyond)
  then show ?thesis
    by (auto simp: RestoreDeclaredTensorMetadata_def Let_def map_heap_def split: option.split)
qed

lemma env_tensor_put: "env_tensor (put_tensor v p e) u = (if u = v then Some p else env_tensor e u)"
  by (simp add: env_tensor_def put_tensor_def update_conv')

lemma heap_put [simp]: "e_heap (put_tensor v p e) = e_heap e"
  by (simp add: put_tensor_def)

lemma shaped_install:
  assumes "shaped_env dims_of val (g_env g)"
    and "\<forall>(v, t) \<in> set outs. \<forall>p. t = Some p \<longrightarrow> m_dims (e_heap (g_env g) ! p) = dims_of (val v)"
  shows "shaped_env dims_of val (g_env (snd (install_outputs n outs g)))"
  using assms
proof (induction n outs g rule: install_outputs.induct)
  case (3 n v p rest g)
  obtain st e where r: "RestoreDeclaredTensorMetadata (g_model g) v p (g_env g) = (st, e)" by fastforce
  have e: "m_dims (e_heap e ! q) = m_dims (e_heap (g_env g) ! q)" "e_tensors e = e_tensors (g_env g)" for q
    using Restore_dims[of "g_model g" v p "g_env g" q] r by simp_all
  have s: "shaped_env dims_of val e" using "3.prems"(1) e by (simp add: shaped_env_def env_tensor_def)
  show ?case
  proof (cases "ok st")
    case False
    then show ?thesis using r s by simp
  next
    case True
    have "shaped_env dims_of val (put_tensor v p e)"
      using s "3.prems"(2) e(1) by (auto simp: shaped_env_def env_tensor_put)
    then show ?thesis using "3.IH"[OF r[symmetric] refl] True r "3.prems"(2) e(1) by auto
  qed
qed simp_all

lemma shaped_created:
  assumes law: "builder_law reg I dims_of val" and c: "Create reg d e = ((Some ob, st), e')"
    and s: "shaped_env dims_of val e"
    and v: "map val (nd_outputs d) = I (nd_op_type d) (nd_attributes d) (map val (nd_inputs d))"
    and g: "g_env g2 = e'"
  shows "shaped_env dims_of val (g_env (snd (install_outputs n (node_outputs_of (nd_outputs d) ob) g2)))"
proof (rule shaped_install)
  show "shaped_env dims_of val (g_env g2)" using law c s v g unfolding builder_law_def by metis
  have "m_dims (e_heap e' ! p) = dims_of (val (nd_outputs d ! k))"
    if "k < length (nd_outputs d)" "k < length (op_out ob)" "op_out ob ! k = Some p" for k p
    using law c s v that unfolding builder_law_def by metis
  then show "\<forall>(v, t) \<in> set (node_outputs_of (nd_outputs d) ob). \<forall>p. t = Some p \<longrightarrow> m_dims (e_heap (g_env g2) ! p) = dims_of (val v)"
    by (auto simp: node_outputs_of_def g split: if_splits)
qed


section \<open>Each step keeps the values\<close>

lemma sound_update:
  assumes sound: "sound_state I dims_of val g" and i: "live (g_nodes g) i"
    and nodes: "g_nodes h = (g_nodes g)[i := n]" and inv: "graph_inv h"
    and n: "sn_name n = sn_name (g_nodes g ! i)" "sn_outputs n = sn_outputs (g_nodes g ! i)" "\<not> sn_removed n"
    and shaped: "shaped_env dims_of val (g_env h)"
    and attrs: "\<And>m. node_attrs h m = node_attrs g m"
    and comp: "map val (sn_outputs n) = I (sn_op_type n) (node_attrs g (sn_name n)) (map val (sn_inputs n))"
    and fus: "sn_op_type n = sn_op_type (g_nodes g ! i) \<or> sn_op_type n \<notin> {''Add'', ''Reshape''}"
  shows "sound_state I dims_of val h"
proof -
  have l: "i < length (g_nodes g)" using i by (simp add: live_def)
  have "solves I val h"
    using sound comp l n unfolding solves_def sound_state_def nodes
    by (auto simp: live_update nth_list_update attrs Let_def)
  moreover have "fusible_node (sn_op_type n) (node_attrs g (sn_name n))"
    using fus sound i n(1) by (auto simp: sound_state_def fusible_def fusible_node_def)
  then have "fusible h"
    using sound l unfolding fusible_def sound_state_def nodes
    by (auto simp: live_update nth_list_update attrs)
  ultimately show ?thesis using inv shaped by (simp add: sound_state_def)
qed

lemma model_attrs: "g_model h = g_model g \<Longrightarrow> node_attrs h = node_attrs g"
  by (simp add: node_attrs_def model_node_def fun_eq_iff)

lemma sound_RemoveNode:
  assumes sound: "sound_state I dims_of val g" and run: "RemoveNode name g = (True, h)"
  shows "sound_state I dims_of val h"
proof -
  have inv: "graph_inv g" using sound by (simp add: sound_state_def)
  obtain i where h: "g_nodes h = (g_nodes g)[i := (g_nodes g ! i)\<lparr>sn_removed := True, sn_op := None\<rparr>]"
    "g_model h = g_model g" "g_env h = g_env g" "live (g_nodes g) i"
    using RemoveNode_effect[OF inv run] by metis
  have keep: "live (g_nodes g) j \<and> g_nodes h ! j = g_nodes g ! j" if "live (g_nodes h) j" for j
    using h(1,4) that by (auto simp: live_def nth_list_update split: if_splits)
  note a = model_attrs[OF h(2)]
  have "solves I val h"
    unfolding solves_def a Let_def
  proof (intro allI impI)
    fix j assume j: "live (g_nodes h) j"
    have "solves I val g" using sound by (simp add: sound_state_def)
    from solvesD[OF this conjunct1[OF keep[OF j]]]
    show "map val (sn_outputs (g_nodes h ! j)) = I (sn_op_type (g_nodes h ! j)) (node_attrs g (sn_name (g_nodes h ! j)))
        (map val (sn_inputs (g_nodes h ! j)))"
      unfolding conjunct2[OF keep[OF j]] .
  qed
  moreover have "fusible h"
    unfolding fusible_def a
  proof (intro allI impI)
    fix j assume j: "live (g_nodes h) j"
    show "fusible_node (sn_op_type (g_nodes h ! j)) (node_attrs g (sn_name (g_nodes h ! j)))"
      unfolding conjunct2[OF keep[OF j]] using sound conjunct1[OF keep[OF j]]
      unfolding sound_state_def fusible_def by blast
  qed
  moreover have "shaped_env dims_of val (g_env h)" using sound unfolding h(3) sound_state_def by blast
  moreover have "graph_inv h" using graph_inv_RemoveNode[OF inv, of name] unfolding run by simp
  ultimately show ?thesis unfolding sound_state_def by blast
qed

lemma sound_ReplaceInputValue:
  assumes law: "builder_law reg I dims_of val" and sound: "sound_state I dims_of val g"
    and run: "ReplaceInputValue reg name v_from v_to g = (True, h)"
    and comp: "\<And>i. live (g_nodes g) i \<Longrightarrow> sn_name (g_nodes g ! i) = name \<Longrightarrow> v_from \<in> set (sn_inputs (g_nodes g ! i)) \<Longrightarrow>
      I (sn_op_type (g_nodes g ! i)) (node_attrs g name) (map val (sn_inputs (g_nodes g ! i))) =
      I (sn_op_type (g_nodes g ! i)) (node_attrs g name)
        (map val (map (\<lambda>x. if x = v_from then v_to else x) (sn_inputs (g_nodes g ! i))))"
  shows "sound_state I dims_of val h"
proof -
  have inv: "graph_inv g" using sound by (simp add: sound_state_def)
  obtain i g1 where i: "live (g_nodes g) i" "sn_name (g_nodes g ! i) = name"
    and m: "v_from \<in> set (sn_inputs (g_nodes g ! i))"
    and g1: "g_nodes g1 = (g_nodes g)[i := (g_nodes g ! i)\<lparr>sn_inputs :=
           map (\<lambda>x. if x = v_from then v_to else x) (sn_inputs (g_nodes g ! i))\<rparr>]"
      "g_model g1 = g_model g" "g_env g1 = g_env g" "RebuildNode reg i g1 = (True, h)"
    by (rule ReplaceInputValue_effect[OF inv run]) (rule that; assumption)
  have l: "i < length (g_nodes g)" using i by (simp add: live_def)
  note eq = comp[OF i m]
  have sol: "map val (sn_outputs (g_nodes g ! i)) =
      I (sn_op_type (g_nodes g ! i)) (node_attrs g name) (map val (sn_inputs (g_nodes g ! i)))"
    using solvesD[of I val g i] sound i by (simp add: sound_state_def)
  obtain domain ob st e where c: "Create reg \<lparr>nd_name = sn_name (g_nodes g1 ! i), nd_op_type = sn_op_type (g_nodes g1 ! i),
        nd_domain = domain, nd_inputs = sn_inputs (g_nodes g1 ! i), nd_outputs = sn_outputs (g_nodes g1 ! i),
        nd_attributes = node_attrs g1 (sn_name (g_nodes g1 ! i))\<rparr> (g_env g1) = ((Some ob, st), e)"
    and h: "g_nodes h = (g_nodes g1)[i := (g_nodes g1 ! i)\<lparr>sn_op := Some ob,
           sn_semantics := GetOperatorSemantics (r_semantics reg) (sn_op_type (g_nodes g1 ! i))\<rparr>]"
      "g_model h = g_model g1"
    and env: "\<exists>g2. g_env g2 = e \<and> g_env h = g_env (snd (install_outputs (sn_name (g_nodes g1 ! i))
           (node_outputs_of (sn_outputs (g_nodes g1 ! i)) ob) g2))"
    by (rule RebuildNode_effect[OF g1(4)]) (rule that; assumption)
  have n1: "g_nodes g1 ! i = (g_nodes g ! i)\<lparr>sn_inputs :=
           map (\<lambda>x. if x = v_from then v_to else x) (sn_inputs (g_nodes g ! i))\<rparr>" using g1(1) l by simp
  have a: "node_attrs g1 = node_attrs g" "node_attrs h = node_attrs g"
    using model_attrs[of g1 g] model_attrs[of h g] g1(2) h(2) by simp_all
  have "shaped_env dims_of val (g_env h)"
  proof -
    from env obtain g2 where g2: "g_env g2 = e" "g_env h = g_env (snd (install_outputs (sn_name (g_nodes g1 ! i))
           (node_outputs_of (sn_outputs (g_nodes g1 ! i)) ob) g2))" by blast
    have s1: "shaped_env dims_of val (g_env g1)" using sound g1(3) by (simp add: sound_state_def)
    show ?thesis
      unfolding g2(2) using shaped_created[OF law c s1 _ g2(1)] sol eq i(2) n1 a(1) by simp
  qed
  moreover have "graph_inv h" using graph_inv_ReplaceInputValue[OF inv, of reg name v_from v_to] run by simp
  moreover have nodes: "g_nodes h = (g_nodes g)[i := (g_nodes g1 ! i)\<lparr>sn_op := Some ob,
           sn_semantics := GetOperatorSemantics (r_semantics reg) (sn_op_type (g_nodes g1 ! i))\<rparr>]"
    using h(1) g1(1) by simp
  moreover have "\<not> sn_removed (g_nodes g ! i)" using i(1) by (simp add: live_def)
  ultimately show ?thesis
    using i(2) n1 sol eq a by (intro sound_update[OF sound i(1) nodes]) simp_all
qed

lemma sound_ReplaceNodeOp:
  assumes law: "builder_law reg I dims_of val" and sound: "sound_state I dims_of val g"
    and run: "ReplaceNodeOp reg name op_type inputs g = (True, h)"
    and i: "live (g_nodes g) i" "sn_name (g_nodes g ! i) = name" "sn_outputs (g_nodes g ! i) \<noteq> []"
    and comp: "map val (sn_outputs (g_nodes g ! i)) = I op_type (node_attrs g name) (map val inputs)"
    and new: "op_type \<notin> {''Add'', ''Reshape''}"
  shows "sound_state I dims_of val h"
proof -
  have inv: "graph_inv g" using sound by (simp add: sound_state_def)
  obtain d where d: "model_node g name = Some d" "nd_outputs d = sn_outputs (g_nodes g ! i)"
    and run': "ReplaceNodeDesc reg \<lparr>nd_name = name, nd_op_type = op_type, nd_domain = nd_domain d, nd_inputs = inputs,
           nd_outputs = nd_outputs d, nd_attributes = nd_attributes d\<rparr> g = (True, h)"
    by (rule ReplaceNodeOp_desc[OF inv run i])
  let ?d = "\<lparr>nd_name = name, nd_op_type = op_type, nd_domain = nd_domain d, nd_inputs = inputs,
           nd_outputs = nd_outputs d, nd_attributes = nd_attributes d\<rparr>"
  obtain j ob st e where j: "live (g_nodes g) j" "sn_name (g_nodes g ! j) = nd_name ?d"
    and c: "Create reg ?d (g_env g) = ((Some ob, st), e)"
    and h: "g_nodes h = (g_nodes g)[j := (g_nodes g ! j)\<lparr>sn_op_type := nd_op_type ?d, sn_inputs := nd_inputs ?d,
           sn_op := Some ob, sn_semantics := GetOperatorSemantics (r_semantics reg) (nd_op_type ?d)\<rparr>]"
    and attrs: "\<And>m. model_node g (nd_name ?d) \<noteq> None \<Longrightarrow>
           node_attrs h m = (if m = nd_name ?d then nd_attributes ?d else node_attrs g m)"
    and env: "\<exists>g2. g_env g2 = e \<and> g_env h = g_env (snd (install_outputs (nd_name ?d)
           (node_outputs_of (nd_outputs ?d) ob) g2))"
    by (rule ReplaceNodeDesc_effect[OF inv run']) (rule that; assumption)
  have ji: "j = i" using same_name_live[OF inv j(1) i(1)] j(2) i(2) by simp
  have an: "node_attrs g name = nd_attributes d" using d(1) by (simp add: node_attrs_def)
  have sg: "shaped_env dims_of val (g_env g)" using sound by (simp add: sound_state_def)
  have "shaped_env dims_of val (g_env h)"
  proof -
    from env obtain g2 where g2: "g_env g2 = e" "g_env h = g_env (snd (install_outputs (nd_name ?d)
           (node_outputs_of (nd_outputs ?d) ob) g2))" by blast
    show ?thesis unfolding g2(2) using shaped_created[OF law c sg _ g2(1)] comp d(2) an by simp
  qed
  moreover have "graph_inv h" using graph_inv_ReplaceNodeOp[OF inv, of reg name op_type inputs] run by simp
  moreover have "node_attrs h m = node_attrs g m" for m using attrs[of m] d(1) an by simp
  moreover have "\<not> sn_removed (g_nodes g ! i)" using i(1) by (simp add: live_def)
  ultimately show ?thesis
    using i(2) comp new by (intro sound_update[OF sound i(1) h[unfolded ji]]) simp_all
qed


section \<open>Contracts of passes and pipelines\<close>

lemma each_node_keeps:
  assumes "each_node step ns g = (0, h)" and "P g"
    and "\<And>n g h. n \<in> set ns \<Longrightarrow> P g \<Longrightarrow> step n g = (True, h) \<Longrightarrow> P h"
  shows "P h"
  using assms
proof (induction ns arbitrary: g)
  case (Cons n ns)
  obtain fine g' where s: "step n g = (fine, g')" by fastforce
  then have fine: "fine" using Cons.prems(1) by (auto split: if_splits)
  have "P g'" using Cons.prems(3)[of n g g'] Cons.prems(2) s fine by simp
  moreover have "each_node step ns g' = (0, h)" using Cons.prems(1) s fine by simp
  ultimately show ?case using Cons.prems(3) by (intro Cons.IH[of g']) auto
qed simp

text \<open>A pass that always returns, and keeps an invariant of the graph whenever it returns \<open>0\<close>.\<close>

locale pass_contract =
  fixes P :: "StaticGraph \<Rightarrow> bool" and run :: "StaticGraph \<Rightarrow> pass_result"
  assumes returns: "P g \<Longrightarrow> run g \<noteq> None"
    and keeps: "P g \<Longrightarrow> run g = Some (Inr 0, h) \<Longrightarrow> P h"

text \<open>A pass made of one step per collected node.\<close>

locale node_pass =
  fixes P :: "StaticGraph \<Rightarrow> bool" and step :: "string \<Rightarrow> StaticGraph \<Rightarrow> bool \<times> StaticGraph"
    and names :: "StaticGraph \<Rightarrow> string list"
  assumes step_keeps: "P g \<Longrightarrow> step n g = (True, h) \<Longrightarrow> P h"

sublocale node_pass \<subseteq> pass_contract P "\<lambda>g. Returned (each_node step (names g) g)"
proof
  show "Returned (each_node step (names g) g) \<noteq> None" for g by (simp add: Returned_def)
  fix g h assume g: "P g" and run: "Returned (each_node step (names g) g) = Some (Inr 0, h)"
  have "each_node step (names g) g = (0, h)" using run by (simp add: Returned_def prod_eq_iff)
  from each_node_keeps[OF this, of P] show "P h" using g step_keeps by blast
qed

context node_pass
begin

lemma as_pass: "pass_contract P (\<lambda>g. Returned (each_node step (names g) g))"
  by (rule pass_contract_axioms)

end

text \<open>A pipeline of such passes.\<close>

locale pipeline =
  fixes P :: "StaticGraph \<Rightarrow> bool" and passes :: "graph_pass list"
  assumes each: "p \<in> set passes \<Longrightarrow> pass_contract P (gp_run p)"
begin

lemma run_passes_keep:
  assumes "set ps \<subseteq> set passes" and "P g" and "ok (ValidateStructureStatus g)"
  shows "\<exists>st h. run_passes ps completed g = Some (st, h) \<and> (ok st \<longrightarrow> P h \<and> ok (ValidateStructureStatus h))"
  using assms
proof (induction ps arbitrary: completed g)
  case (Cons p ps)
  have c: "pass_contract P (gp_run p)" using each Cons.prems(1) by simp
  obtain r h where run: "gp_run p g = Some (r, h)"
    using pass_contract.returns[OF c Cons.prems(2)] by (metis not_Some_eq surj_pair)
  show ?case
  proof (cases r)
    case (Inl what)
    then show ?thesis using Cons run by (auto split: option.split)
  next
    case (Inr result)
    have "P h" if "result = 0" using pass_contract.keeps[OF c Cons.prems(2)] run Inr that by simp
    then show ?thesis using Cons run Inr by (auto simp: Let_def split: option.split)
  qed
qed simp

lemma manager_keeps:
  assumes "P g"
  shows "\<exists>st h. PassManager_RunStatus passes g = Some (st, h) \<and> (ok st \<longrightarrow> P h \<and> ok (ValidateStructureStatus h))"
  using run_passes_keep[of passes g "{}"] assms by (auto simp: PassManager_RunStatus_def Let_def)

end

section \<open>The default passes keep the indices\<close>

lemma graph_inv_ReplaceAllUsers:
  assumes "graph_inv g"
  shows "graph_inv (snd (ReplaceAllUsers reg a b g))"
proof -
  have "graph_inv g \<Longrightarrow> graph_inv (snd (replace_users reg us a b g))" for us g
  proof (induction us arbitrary: g)
    case (Cons u us)
    show ?case using Cons.IH graph_inv_ReplaceInputValue[OF Cons.prems, of reg u a b]
      by (auto simp: Let_def split: prod.split)
  qed simp
  then show ?thesis using assms by (simp add: ReplaceAllUsers_def)
qed

lemma graph_inv_bypass: "graph_inv g \<Longrightarrow> graph_inv (snd (bypass reg n a b g))"
  using graph_inv_ReplaceAllUsers[of g reg a b] graph_inv_RemoveNode
  by (auto simp: bypass_def split: prod.split)

lemma graph_inv_fuse: "graph_inv g \<Longrightarrow> graph_inv (snd (fuse_nodes reg n t inputs m g))"
  using graph_inv_ReplaceNodeOp[of g reg n t inputs] graph_inv_RemoveNode
  by (auto simp: fuse_nodes_def split: prod.split)

interpretation identity_index: node_pass graph_inv "identity_step reg" "live_names (is_op ''Identity'')" for reg
proof
  fix g n h assume "graph_inv g" "identity_step reg n g = (True, h)"
  then show "graph_inv h"
    using graph_inv_bypass[of g reg n] by (auto simp: identity_step_def dest: sndI split: option.splits if_splits)
qed

interpretation no_op_index: node_pass graph_inv "no_op_step reg" "\<lambda>g. live_names (no_op_removable g) g" for reg
proof
  fix g n h assume "graph_inv g" "no_op_step reg n g = (True, h)"
  then show "graph_inv h"
    using graph_inv_bypass[of g reg n] by (auto simp: no_op_step_def dest: sndI split: option.splits)
qed

lemma reshape_chain_stepE:
  assumes "reshape_chain_step reg n g = (True, h)" and "h \<noteq> g"
  obtains outer inner v g' where "GetNode g n = Some outer" and "length (sn_inputs outer) = 1"
    and "v = sn_inputs outer ! 0" and "GetProducer g v \<noteq> []" and "GetNode g (GetProducer g v) = Some inner"
    and "sn_op_type inner = ''Reshape''" and "length (sn_inputs inner) = 1" and "length (sn_outputs inner) = 1"
    and "ReplaceInputValue reg (sn_name outer) v (sn_inputs inner ! 0) g = (True, g')"
    and "RemoveNode (sn_name inner) g' = (True, h)"
proof -
  from assms obtain outer where o: "GetNode g n = Some outer" "length (sn_inputs outer) = 1"
    by (auto simp: reshape_chain_step_def split: option.splits if_splits)
  let ?v = "sn_inputs outer ! 0"
  from assms o obtain inner where i: "GetNode g (GetProducer g ?v) = Some inner" "GetProducer g ?v \<noteq> []"
      "sn_op_type inner = ''Reshape''" "length (sn_inputs inner) = 1" "length (sn_outputs inner) = 1"
    by (auto simp: reshape_chain_step_def Let_def split: option.splits if_splits)
  obtain fine g' where r: "ReplaceInputValue reg (sn_name outer) ?v (sn_inputs inner ! 0) g = (fine, g')" by fastforce
  have "fine" and "RemoveNode (sn_name inner) g' = (True, h)"
    using assms o i r by (auto simp: reshape_chain_step_def Let_def split: if_splits)
  then show thesis using that[OF o refl i(2,1,3,4,5)] r by simp
qed

interpretation reshape_chain_index: node_pass graph_inv "reshape_chain_step reg" "live_names (is_op ''Reshape'')" for reg
proof
  fix g n h assume inv: "graph_inv g" and run: "reshape_chain_step reg n g = (True, h)"
  show "graph_inv h"
  proof (cases "h = g")
    case False
    obtain a v b g' m where "ReplaceInputValue reg a v b g = (True, g')" "RemoveNode m g' = (True, h)"
      by (rule reshape_chain_stepE[OF run False]) (rule that)
    then show ?thesis
      using graph_inv_ReplaceInputValue[OF inv, of reg a v b] graph_inv_RemoveNode[of g' m] by simp
  qed (use inv in simp)
qed

interpretation silu_index: node_pass graph_inv "silu_step reg" "live_names (is_op ''Mul'')" for reg
proof
  fix g n h assume "graph_inv g" "silu_step reg n g = (True, h)"
  then show "graph_inv h"
    using graph_inv_fuse[of g reg n] by (auto simp: silu_step_def dest: sndI split: option.splits)
qed

interpretation matmul_add_index: node_pass graph_inv "matmul_add_step reg" "live_names (is_op ''Add'')" for reg
proof
  fix g n h assume "graph_inv g" "matmul_add_step reg n g = (True, h)"
  then show "graph_inv h"
    using graph_inv_fuse[of g reg n] by (auto simp: matmul_add_step_def dest: sndI split: option.splits)
qed


section \<open>Dead-node elimination\<close>

lemma NodeSize_remove:
  assumes "i < length ns" and "\<not> sn_removed (ns ! i)" and "sn_removed n"
  shows "length (filter (\<lambda>n. \<not> sn_removed n) (ns[i := n])) < length (filter (\<lambda>n. \<not> sn_removed n) ns)"
proof -
  have "ns = take i ns @ ns ! i # drop (Suc i) ns" using assms(1) by (rule id_take_nth_drop)
  then have "length (filter (\<lambda>n. \<not> sn_removed n) ns) =
      length (filter (\<lambda>n. \<not> sn_removed n) (take i ns @ ns ! i # drop (Suc i) ns))" by simp
  then show ?thesis using assms by (simp add: upd_conv_take_nth_drop)
qed

lemma remove_nodes_run:
  assumes "graph_inv g" and "remove_nodes ns c g = (c', h)"
  shows "graph_inv h \<and> NodeSize h \<le> NodeSize g \<and> (c' \<and> \<not> c \<longrightarrow> NodeSize h < NodeSize g) \<and>
    (\<not> c' \<longrightarrow> h = g \<and> \<not> c \<and> (\<forall>n \<in> set ns. \<not> fst (RemoveNode n g)))"
  using assms
proof (induction ns arbitrary: c g)
  case (Cons n ns)
  obtain r g' where r: "RemoveNode n g = (r, g')" by fastforce
  have inv: "graph_inv g'" using graph_inv_RemoveNode[OF Cons.prems(1), of n] r by simp
  have rest: "remove_nodes ns (c \<or> r) g' = (c', h)" using Cons.prems(2) r by simp
  note IH = Cons.IH[OF inv rest]
  show ?case
  proof (cases r)
    case False
    then have "g' = g" using r by (auto simp: RemoveNode_def Let_def split: option.splits if_splits)
    then show ?thesis using IH False r by auto
  next
    case True
    obtain i where i: "live (g_nodes g) i"
      "g_nodes g' = (g_nodes g)[i := (g_nodes g ! i)\<lparr>sn_removed := True, sn_op := None\<rparr>]"
      using RemoveNode_effect[OF Cons.prems(1), of n g'] r True by metis
    have "NodeSize g' < NodeSize g"
      unfolding NodeSize_def i(2) using i(1) by (intro NodeSize_remove) (auto simp: live_def)
    then show ?thesis using IH True by auto
  qed
qed simp

lemma RemoveNode_iff:
  assumes "graph_inv g" and "live (g_nodes g) i"
  shows "fst (RemoveNode (sn_name (g_nodes g ! i)) g) \<longleftrightarrow> \<not> has_live_output g (g_nodes g ! i)"
  using live_GetNode[OF assms] by (auto simp: RemoveNode_def has_live_output_def Let_def)

definition all_outputs_live :: "StaticGraph \<Rightarrow> bool" where
  "all_outputs_live g \<longleftrightarrow> (\<forall>i. live (g_nodes g) i \<longrightarrow> has_live_output g (g_nodes g ! i))"

text \<open>The rounds end within their fuel, and only removals happen on the way.\<close>

lemma dead_rounds_run:
  assumes inv: "graph_inv g" and fuel: "NodeSize g < fuel"
    and P: "P g" and step: "\<And>g n h. P g \<Longrightarrow> graph_inv g \<Longrightarrow> RemoveNode n g = (True, h) \<Longrightarrow> P h"
  obtains h where "dead_rounds fuel g = Some h" and "graph_inv h" and "all_outputs_live h" and "P h"
  using inv fuel P
proof (induction fuel arbitrary: g thesis)
  case (Suc fuel)
  let ?dead = "live_names (\<lambda>n. \<not> has_live_output g n) g"
  obtain c g' where r: "remove_nodes ?dead False g = (c, g')" by fastforce
  note run = remove_nodes_run[OF Suc.prems(2) r]
  have Ps: "P g \<Longrightarrow> graph_inv g \<Longrightarrow> remove_nodes ns c g = (c', h) \<Longrightarrow> P h" for ns c g c' h
  proof (induction ns arbitrary: c g)
    case (Cons n ns)
    obtain r g' where r: "RemoveNode n g = (r, g')" by fastforce
    have "graph_inv g'" using graph_inv_RemoveNode[OF Cons.prems(2), of n] r by simp
    moreover have "P g'"
    proof (cases r)
      case False
      then have "g' = g" using r by (auto simp: RemoveNode_def Let_def split: option.splits if_splits)
      then show ?thesis using Cons.prems by simp
    qed (use step[OF Cons.prems(1,2)] r in simp)
    moreover have "remove_nodes ns (c \<or> r) g' = (c', h)" using Cons.prems(3) r by simp
    ultimately show ?case using Cons.IH by blast
  qed simp
  have P': "P g'" by (rule Ps[OF Suc.prems(4,2) r])
  show ?case
  proof (cases c)
    case True
    obtain h where "dead_rounds fuel g' = Some h" "graph_inv h" "all_outputs_live h" "P h"
      by (rule Suc.IH[of g']) (use run True Suc.prems(3) P' in auto)
    then show ?thesis using Suc.prems(1) r True by simp
  next
    case False
    have "has_live_output g (g_nodes g ! i)" if i: "live (g_nodes g) i" for i
    proof (rule ccontr)
      assume d: "\<not> has_live_output g (g_nodes g ! i)"
      then have "sn_name (g_nodes g ! i) \<in> set ?dead"
        using i by (auto simp: live_names_def live_def)
      then show False using run False RemoveNode_iff[OF Suc.prems(2) i] d by auto
    qed
    then show ?thesis
      using Suc.prems r run False by (intro Suc.prems(1)[of g]) (auto simp: all_outputs_live_def)
  qed
qed simp

lemma DeadNodeElimination_run:
  assumes "graph_inv g" and "P g" and "\<And>g n h. P g \<Longrightarrow> graph_inv g \<Longrightarrow> RemoveNode n g = (True, h) \<Longrightarrow> P h"
  obtains h where "DeadNodeElimination g = Some (Inr 0, h)" and "graph_inv h" and "all_outputs_live h" and "P h"
proof -
  obtain h where "dead_rounds (Suc (NodeSize g)) g = Some h" "graph_inv h" "all_outputs_live h" "P h"
    by (rule dead_rounds_run[where P = P and g = g and fuel = "Suc (NodeSize g)"]) (use assms in auto)
  then show thesis using that by (simp add: DeadNodeElimination_def)
qed

interpretation dead_index: pass_contract graph_inv DeadNodeElimination
proof
  fix g h assume "graph_inv g"
  then obtain k where k: "DeadNodeElimination g = Some (Inr 0, k)" "graph_inv k"
    by (rule DeadNodeElimination_run[of g "\<lambda>_. True"]) auto
  then show "DeadNodeElimination g \<noteq> None" by simp
  show "DeadNodeElimination g = Some (Inr 0, h) \<Longrightarrow> graph_inv h" using k by simp
qed

text \<open>A node is needed when its outputs reach a result of the graph along the readers of values.\<close>

inductive needed :: "StaticGraph \<Rightarrow> nat \<Rightarrow> bool" for g where
  needed_output: "live (g_nodes g) i \<Longrightarrow> v \<in> set (sn_outputs (g_nodes g ! i)) \<Longrightarrow> v \<in> output_values g \<Longrightarrow> needed g i"
| needed_reader: "live (g_nodes g) i \<Longrightarrow> v \<in> set (sn_outputs (g_nodes g ! i)) \<Longrightarrow> needed g j \<Longrightarrow>
    v \<in> set (sn_inputs (g_nodes g ! j)) \<Longrightarrow> needed g i"

definition acyclic_graph :: "StaticGraph \<Rightarrow> bool" where
  "acyclic_graph g \<longleftrightarrow> (\<exists>r :: nat \<Rightarrow> nat. \<forall>i j v. live (g_nodes g) i \<longrightarrow> live (g_nodes g) j \<longrightarrow>
     v \<in> set (sn_outputs (g_nodes g ! i)) \<longrightarrow> v \<in> set (sn_inputs (g_nodes g ! j)) \<longrightarrow> r i < r j)"

definition named_outputs :: "StaticGraph \<Rightarrow> bool" where
  "named_outputs g \<longleftrightarrow> (\<forall>i. live (g_nodes g) i \<longrightarrow> [] \<notin> set (sn_outputs (g_nodes g ! i)))"

text \<open>What removals leave: fewer live nodes, the rest as they were, and every needed node.\<close>

definition thinned :: "StaticGraph \<Rightarrow> StaticGraph \<Rightarrow> bool" where
  "thinned g h \<longleftrightarrow> length (g_nodes h) = length (g_nodes g) \<and> output_values h = output_values g \<and>
     (\<forall>i. live (g_nodes h) i \<longrightarrow> live (g_nodes g) i \<and> g_nodes h ! i = g_nodes g ! i) \<and>
     (\<forall>i. needed g i \<longrightarrow> live (g_nodes h) i)"

lemma thinned_RemoveNode:
  assumes ne: "named_outputs g" and t: "thinned g h" and inv: "graph_inv h" and run: "RemoveNode n h = (True, k)"
  shows "thinned g k"
proof -
  obtain i where i: "live (g_nodes h) i" "sn_name (g_nodes h ! i) = n"
    and k: "g_nodes k = (g_nodes h)[i := (g_nodes h ! i)\<lparr>sn_removed := True, sn_op := None\<rparr>]"
      "g_model k = g_model h" "g_aliases k = g_aliases h"
    using RemoveNode_effect[OF inv run] by metis
  have t1: "live (g_nodes h) j \<Longrightarrow> live (g_nodes g) j \<and> g_nodes h ! j = g_nodes g ! j" for j
    using t by (simp add: thinned_def)
  have ov: "output_values h = output_values g" using t by (simp add: thinned_def)
  have nei: "[] \<notin> set (sn_outputs (g_nodes h ! i))" using ne t1[OF i(1)] by (simp add: named_outputs_def)
  have dead: "\<And>v. v \<in> set (sn_outputs (g_nodes g ! i)) \<Longrightarrow> v \<notin> output_values g \<and>
      (\<forall>j. live (g_nodes h) j \<longrightarrow> v \<notin> set (sn_inputs (g_nodes h ! j)))"
    using RemoveNode_facts(1)[OF inv i(1) nei] run i(2) ov t1[OF i(1)] by simp
  have "\<not> needed g i"
  proof
    assume "needed g i"
    then show False
    proof cases
      case (needed_reader v j)
      have l: "live (g_nodes h) j" using needed_reader(3) t by (simp add: thinned_def)
      have "v \<in> set (sn_inputs (g_nodes h ! j))" using needed_reader(4) t1[OF l] by (simp only:)
      then show False using dead[OF needed_reader(2)] l by blast
    qed (use dead in blast)
  qed
  moreover have "live (g_nodes k) j \<longleftrightarrow> j \<noteq> i \<and> live (g_nodes h) j" for j
    using k(1) i(1) by (auto simp: live_def nth_list_update split: if_splits)
  moreover have "output_values k = output_values h" unfolding output_values_def k(2,3) by simp
  ultimately show ?thesis using t k(1) unfolding thinned_def by auto
qed

lemma live_output_cases:
  assumes "graph_inv g" and "named_outputs g" and "live (g_nodes g) i" and "has_live_output g (g_nodes g ! i)"
  obtains v where "v \<in> set (sn_outputs (g_nodes g ! i))" and "v \<in> output_values g"
  | v j where "v \<in> set (sn_outputs (g_nodes g ! i))" and "live (g_nodes g) j" and "v \<in> set (sn_inputs (g_nodes g ! j))"
proof -
  from assms(4) obtain v where v: "v \<in> set (sn_outputs (g_nodes g ! i))" "IsGraphOutputValue g v \<or> GetUsers g v \<noteq> []"
    by (auto simp: has_live_output_def)
  have "v \<noteq> []" using assms(2,3) v(1) by (auto simp: named_outputs_def)
  then show thesis
    using v that IsGraphOutputValue_iff[OF assms(1)] user_set_live[OF assms(1)] by blast
qed

lemma dead_exact:
  assumes inv: "graph_inv g" and ne: "named_outputs g" and ac: "acyclic_graph g"
  obtains h where "DeadNodeElimination g = Some (Inr 0, h)" and "graph_inv h"
    and "\<And>i. live (g_nodes h) i \<longleftrightarrow> needed g i" and "\<And>i. live (g_nodes h) i \<Longrightarrow> g_nodes h ! i = g_nodes g ! i"
proof -
  have start: "thinned g g" by (auto simp: thinned_def elim: needed.cases)
  obtain h where h: "DeadNodeElimination g = Some (Inr 0, h)" "graph_inv h" "all_outputs_live h" "thinned g h"
    by (rule DeadNodeElimination_run[OF inv, of "thinned g"]) (use start thinned_RemoveNode[OF ne] in blast)+
  have t1: "live (g_nodes h) j \<Longrightarrow> live (g_nodes g) j \<and> g_nodes h ! j = g_nodes g ! j" for j
    using h(4) by (simp add: thinned_def)
  obtain r :: "nat \<Rightarrow> nat" where r: "\<And>i j v. live (g_nodes g) i \<Longrightarrow> live (g_nodes g) j \<Longrightarrow>
     v \<in> set (sn_outputs (g_nodes g ! i)) \<Longrightarrow> v \<in> set (sn_inputs (g_nodes g ! j)) \<Longrightarrow> r i < r j"
    using ac by (auto simp: acyclic_graph_def)
  define N where "N = Max (r ` {..< length (g_nodes g)})"
  have neh: "named_outputs h" using ne t1 by (auto simp: named_outputs_def)
  have ov: "output_values h = output_values g" using h(4) by (simp add: thinned_def)
  have "live (g_nodes h) i \<Longrightarrow> needed g i" for i
  proof (induction "N - r i" arbitrary: i rule: less_induct)
    case less
    note li = t1[OF less.prems]
    have live_out: "has_live_output h (g_nodes h ! i)" using h(3) less.prems by (simp add: all_outputs_live_def)
    from h(2) neh less.prems live_out show ?case
    proof (cases rule: live_output_cases)
      case (1 v)
      then show ?thesis using li ov by (auto intro: needed_output)
    next
      case (2 v j)
      note lj = t1[OF 2(2)]
      have lt: "r i < r j" using r[of i j v] 2 li lj by simp
      have "r j \<le> N" unfolding N_def using lj by (intro Max_ge) (auto simp: live_def)
      then have "needed g j" using less.hyps[of j] lt 2(2) by simp
      then show ?thesis using 2 li lj by (auto intro: needed_reader)
    qed
  qed
  then show thesis using that[OF h(1,2)] h(4) t1 by (auto simp: thinned_def)
qed

interpretation default_index: pipeline graph_inv "CreateDefaultPassManager reg" for reg
proof (rule pipeline.intro)
  fix p assume "p \<in> set (CreateDefaultPassManager reg)"
  then show "pass_contract graph_inv (gp_run p)"
    unfolding CreateDefaultPassManager_def plain_pass_def
    using silu_index.pass_contract_axioms matmul_add_index.pass_contract_axioms identity_index.pass_contract_axioms
      reshape_chain_index.pass_contract_axioms no_op_index.pass_contract_axioms dead_index.pass_contract_axioms
    by (auto simp: SigmoidMulFusion_def[abs_def] MatMulAddFusion_def[abs_def] IdentityElimination_def[abs_def]
        ReshapeChainElimination_def[abs_def] NoOpElimination_def[abs_def])
qed


section \<open>The default passes keep the values\<close>

text \<open>Nodes a pass may bypass: their output has the value of their input.\<close>

definition passthrough :: "(string \<Rightarrow> 'v) \<Rightarrow> string set \<Rightarrow> string set \<Rightarrow> StaticGraph \<Rightarrow> bool" where
  "passthrough val R U g \<longleftrightarrow> (\<forall>i. live (g_nodes g) i \<longrightarrow>
     (sn_name (g_nodes g ! i) \<in> R \<longrightarrow> (\<forall>x y. sn_inputs (g_nodes g ! i) = [x] \<longrightarrow> sn_outputs (g_nodes g ! i) = [y] \<longrightarrow> val y = val x)) \<and>
     (sn_name (g_nodes g ! i) \<in> U \<longrightarrow> length (sn_inputs (g_nodes g ! i)) = 1 \<and> length (sn_outputs (g_nodes g ! i)) = 1))"

lemma passthrough_later:
  assumes "passthrough val R U g"
    and "\<And>i. live (g_nodes h) i \<Longrightarrow> live (g_nodes g) i \<and> sn_name (g_nodes h ! i) = sn_name (g_nodes g ! i) \<and>
      sn_outputs (g_nodes h ! i) = sn_outputs (g_nodes g ! i) \<and>
      map val (sn_inputs (g_nodes h ! i)) = map val (sn_inputs (g_nodes g ! i))"
  shows "passthrough val R U h"
  unfolding passthrough_def
proof (intro allI impI conjI)
  fix i assume l: "live (g_nodes h) i"
  note e = assms(2)[OF l]
  note g = assms(1)[unfolded passthrough_def, rule_format, OF conjunct1[OF e]]
  have len: "length (sn_inputs (g_nodes h ! i)) = length (sn_inputs (g_nodes g ! i))"
    using arg_cong[OF conjunct2[OF conjunct2[OF conjunct2[OF e]]], of length] by simp
  show "val y = val x" if "sn_name (g_nodes h ! i) \<in> R" "sn_inputs (g_nodes h ! i) = [x]" "sn_outputs (g_nodes h ! i) = [y]" for x y
  proof -
    from len that(2) obtain x' where "sn_inputs (g_nodes g ! i) = [x']"
      by (cases "sn_inputs (g_nodes g ! i)") auto
    then show ?thesis using g e that by auto
  qed
  show "length (sn_inputs (g_nodes h ! i)) = 1" "length (sn_outputs (g_nodes h ! i)) = 1"
    if "sn_name (g_nodes h ! i) \<in> U" using g e len that by simp_all
qed

lemma ReplaceInputValue_revalues:
  assumes inv: "graph_inv g" and run: "ReplaceInputValue reg name a b g = (True, h)" and eq: "val b = val a"
    and l: "live (g_nodes h) j"
  shows "live (g_nodes g) j \<and> sn_name (g_nodes h ! j) = sn_name (g_nodes g ! j) \<and>
      sn_outputs (g_nodes h ! j) = sn_outputs (g_nodes g ! j) \<and>
      map val (sn_inputs (g_nodes h ! j)) = map val (sn_inputs (g_nodes g ! j))"
proof -
  obtain i g1 where i: "live (g_nodes g) i"
    and g1: "g_nodes g1 = (g_nodes g)[i := (g_nodes g ! i)\<lparr>sn_inputs :=
           map (\<lambda>x. if x = a then b else x) (sn_inputs (g_nodes g ! i))\<rparr>]"
    and r: "RebuildNode reg i g1 = (True, h)"
    by (rule ReplaceInputValue_effect[OF inv run]) (rule that; assumption)
  have e: "map val (map (\<lambda>x. if x = a then b else x) xs) = map val xs" for xs using eq by (induction xs) auto
  obtain ob where h: "g_nodes h = (g_nodes g1)[i := (g_nodes g1 ! i)\<lparr>sn_op := Some ob,
           sn_semantics := GetOperatorSemantics (r_semantics reg) (sn_op_type (g_nodes g1 ! i))\<rparr>]"
    by (rule RebuildNode_effect[OF r]) (rule that; assumption)
  have len: "i < length (g_nodes g)" "\<not> sn_removed (g_nodes g ! i)" using i by (simp_all add: live_def)
  show ?thesis
  proof (cases "j = i")
    case True
    have "g_nodes h ! i = (g_nodes g ! i)\<lparr>sn_inputs := map (\<lambda>x. if x = a then b else x) (sn_inputs (g_nodes g ! i)),
        sn_op := Some ob, sn_semantics := GetOperatorSemantics (r_semantics reg) (sn_op_type (g_nodes g1 ! i))\<rparr>"
      using h g1 len by simp
    then show ?thesis using True i e[of "sn_inputs (g_nodes g ! i)"] by simp
  next
    case False
    then show ?thesis using h g1 l by (simp add: live_def)
  qed
qed

lemma RemoveNode_keeps_nodes:
  assumes "graph_inv g" and "RemoveNode name g = (True, h)" and "live (g_nodes h) j"
  shows "live (g_nodes g) j \<and> g_nodes h ! j = g_nodes g ! j"
proof -
  obtain i where i: "live (g_nodes g) i" "g_nodes h = (g_nodes g)[i := (g_nodes g ! i)\<lparr>sn_removed := True, sn_op := None\<rparr>]"
    by (rule RemoveNode_effect[OF assms(1,2)]) (rule that; assumption)
  then show ?thesis using assms(3) by (auto simp: live_def nth_list_update split: if_splits)
qed

lemma sound_inv: "sound_state I dims_of val g \<Longrightarrow> graph_inv g"
  by (simp add: sound_state_def)

lemma sound_bypass:
  assumes law: "builder_law reg I dims_of val" and sound: "sound_state I dims_of val g"
    and thru: "passthrough val R U g" and eq: "val b = val a" and run: "bypass reg n a b g = (True, h)"
  shows "sound_state I dims_of val h \<and> passthrough val R U h"
proof -
  have e: "map val (map (\<lambda>x. if x = a then b else x) xs) = map val xs" for xs using eq by (induction xs) auto
  have all: "sound_state I dims_of val g' \<and> passthrough val R U g'"
    if "replace_users reg us a b g = (True, g')" "sound_state I dims_of val g" "passthrough val R U g" for us g g'
    using that
  proof (induction us arbitrary: g)
    case (Cons u us)
    obtain r k where k: "ReplaceInputValue reg u a b g = (r, k)" by fastforce
    have r: "r" using Cons.prems(1) k by (auto split: if_splits)
    have run: "ReplaceInputValue reg u a b g = (True, k)" using k r by simp
    have "sound_state I dims_of val k"
      by (rule sound_ReplaceInputValue[OF law Cons.prems(2) run]) (simp only: e)
    moreover have "passthrough val R U k"
      by (rule passthrough_later[OF Cons.prems(3)])
        (rule ReplaceInputValue_revalues[OF sound_inv[OF Cons.prems(2)] run eq])
    ultimately show ?case using Cons.IH[of k] Cons.prems(1) run by simp
  qed simp
  obtain r g' where g': "ReplaceAllUsers reg a b g = (r, g')" by fastforce
  have r: "ReplaceAllUsers reg a b g = (True, g')" "RemoveNode n g' = (True, h)"
    using run g' by (auto simp: bypass_def split: if_splits)
  have s': "sound_state I dims_of val g'" "passthrough val R U g'"
    using all[of "GetUsers g a" g g'] r(1) sound thru by (simp_all add: ReplaceAllUsers_def)
  have "passthrough val R U h"
    by (rule passthrough_later[OF s'(2)]) (use RemoveNode_keeps_nodes[OF sound_inv[OF s'(1)] r(2)] in simp)
  then show ?thesis using sound_RemoveNode[OF s'(1) r(2)] by simp
qed

text \<open>The three eliminations.\<close>

lemma named_live:
  assumes "graph_inv g" and "n \<in> set (live_names P g)" and "live (g_nodes g) i" and "sn_name (g_nodes g ! i) = n"
  shows "P (g_nodes g ! i)"
proof -
  obtain j where j: "j < length (g_nodes g)" "\<not> sn_removed (g_nodes g ! j)" "P (g_nodes g ! j)" "sn_name (g_nodes g ! j) = n"
    using assms(2) by (auto simp: live_names_def in_set_conv_nth)
  then have "j = i" using same_name_live[OF assms(1) _ assms(3), of j] assms(4) by (simp add: live_def)
  then show ?thesis using j by simp
qed

lemma sound_identity_step:
  assumes law: "builder_law reg I dims_of val" and sound: "sound_state I dims_of val g" "passthrough val R U g"
    and n: "n \<in> R" and run: "identity_step reg n g = (True, h)"
  shows "sound_state I dims_of val h \<and> passthrough val R U h"
proof (cases "GetNode g n")
  case None
  then show ?thesis using run sound by (simp add: identity_step_def)
next
  case (Some node)
  obtain i where i: "live (g_nodes g) i" "g_nodes g ! i = node" "sn_name node = n"
    by (rule GetNode_live[OF sound_inv[OF sound(1)] Some]) (rule that; assumption)
  show ?thesis
  proof (cases "length (sn_inputs node) \<noteq> 1 \<or> length (sn_outputs node) \<noteq> 1 \<or> IsGraphOutputValue g (sn_outputs node ! 0)")
    case True
    then show ?thesis using run sound Some by (auto simp: identity_step_def)
  next
    case False
    then obtain x y where xy: "sn_inputs node = [x]" "sn_outputs node = [y]" by (auto simp: length_Suc_conv)
    then have "val y = val x" using sound(2) i n by (auto simp: passthrough_def)
    then show ?thesis using sound_bypass[OF law sound, of x y n h] run Some False xy by (simp add: identity_step_def)
  qed
qed

lemma sound_IdentityElimination:
  assumes laws: "op_laws I dims_of" "builder_law reg I dims_of val"
  shows "pass_contract (sound_state I dims_of val) (IdentityElimination reg)"
proof
  show "IdentityElimination reg g \<noteq> None" for g by (simp add: IdentityElimination_def Returned_def)
  fix g h assume sound: "sound_state I dims_of val g" and run: "IdentityElimination reg g = Some (Inr 0, h)"
  let ?ns = "live_names (is_op ''Identity'') g"
  have "val y = val x" if "live (g_nodes g) i" "sn_name (g_nodes g ! i) \<in> set ?ns"
    "sn_inputs (g_nodes g ! i) = [x]" "sn_outputs (g_nodes g ! i) = [y]" for i x y
  proof -
    have "is_op ''Identity'' (g_nodes g ! i)" by (rule named_live[OF sound_inv[OF sound] that(2,1) refl])
    moreover have "\<And>a x. I ''Identity'' a [x] = [x]" using laws(1) by (simp add: op_laws_def)
    ultimately show ?thesis
      using solvesD[of I val g i] sound that by (simp add: is_op_def sound_state_def)
  qed
  then have "passthrough val (set ?ns) {} g" by (simp add: passthrough_def)
  moreover have "each_node (identity_step reg) ?ns g = (0, h)"
    using run by (simp add: IdentityElimination_def Returned_def prod_eq_iff)
  ultimately show "sound_state I dims_of val h"
    using each_node_keeps[of "identity_step reg" ?ns g h "\<lambda>g. sound_state I dims_of val g \<and> passthrough val (set ?ns) {} g"]
      sound sound_identity_step[OF laws(2)] by blast
qed

lemma no_op_value:
  assumes laws: "op_laws I dims_of" and sound: "sound_state I dims_of val g" and i: "live (g_nodes g) i"
    and r: "no_op_removable g (g_nodes g ! i)"
    and xy: "sn_inputs (g_nodes g ! i) = [x]" "sn_outputs (g_nodes g ! i) = [y]"
  shows "val y = val x"
proof -
  from r xy obtain p q where pq: "GetTensor g x = Some p" "GetTensor g y = Some q"
    by (auto simp: no_op_removable_def split: option.splits)
  have sol: "[val y] = I (sn_op_type (g_nodes g ! i)) (node_attrs g (sn_name (g_nodes g ! i))) [val x]"
    using solvesD[of I val g i] sound i xy by (simp add: sound_state_def)
  have dims: "m_dims (tensor_at g p) = dims_of (val x)" "m_dims (tensor_at g q) = dims_of (val y)"
    using sound pq by (auto simp: sound_state_def shaped_env_def GetTensor_def tensor_at_def)
  show ?thesis
  proof (cases "sn_op_type (g_nodes g ! i) = ''Reshape''")
    case True
    then have "dims_of (val y) = dims_of (val x)" using r xy pq dims by (simp add: no_op_removable_def)
    then show ?thesis using laws True sol unfolding op_laws_def by metis
  next
    case False
    then obtain d where d: "sn_op_type (g_nodes g ! i) = ''Transpose''" "model_node g (sn_name (g_nodes g ! i)) = Some d"
      "IsIdentityPermutation (GetVectorAttribute d ''perm'')"
      using r xy pq by (auto simp: no_op_removable_def split: if_splits option.splits)
    then obtain perm where "nd_attributes d ''perm'' = Some (AttrInts perm)" "IsIdentityPermutation perm"
      by (auto simp: GetVectorAttribute_def IsIdentityPermutation_def split: option.splits AttributeValue.splits)
    moreover have "node_attrs g (sn_name (g_nodes g ! i)) = nd_attributes d" using d(2) by (simp add: node_attrs_def)
    ultimately have "I ''Transpose'' (node_attrs g (sn_name (g_nodes g ! i))) [val x] = [val x]"
      using laws unfolding op_laws_def by metis
    then show ?thesis using sol d(1) by simp
  qed
qed

lemma sound_NoOpElimination:
  assumes laws: "op_laws I dims_of" "builder_law reg I dims_of val"
  shows "pass_contract (sound_state I dims_of val) (NoOpElimination reg)"
proof
  show "NoOpElimination reg g \<noteq> None" for g by (simp add: NoOpElimination_def Returned_def)
  fix g h assume sound: "sound_state I dims_of val g" and run: "NoOpElimination reg g = Some (Inr 0, h)"
  let ?ns = "live_names (no_op_removable g) g"
  let ?P = "\<lambda>g. sound_state I dims_of val g \<and> passthrough val (set ?ns) (set ?ns) g"
  have nl: "n \<in> set ?ns \<Longrightarrow> live (g_nodes g) i \<Longrightarrow> sn_name (g_nodes g ! i) = n \<Longrightarrow> no_op_removable g (g_nodes g ! i)" for n i
    by (rule named_live[OF sound_inv[OF sound]])
  have "passthrough val (set ?ns) (set ?ns) g"
    unfolding passthrough_def
  proof (intro allI impI conjI)
    fix i assume i: "live (g_nodes g) i" "sn_name (g_nodes g ! i) \<in> set ?ns"
    note r = nl[OF i(2,1) refl]
    show "length (sn_inputs (g_nodes g ! i)) = 1" "length (sn_outputs (g_nodes g ! i)) = 1"
      using r by (simp_all add: no_op_removable_def)
    show "sn_inputs (g_nodes g ! i) = [x] \<Longrightarrow> sn_outputs (g_nodes g ! i) = [y] \<Longrightarrow> val y = val x" for x y
      by (rule no_op_value[OF laws(1) sound i(1) r])
  qed
  moreover have "each_node (no_op_step reg) ?ns g = (0, h)"
    using run by (simp add: NoOpElimination_def Returned_def prod_eq_iff)
  moreover have "?P h" if n: "n \<in> set ?ns" and P: "?P g" and run: "no_op_step reg n g = (True, h)" for n g h
  proof (cases "GetNode g n")
    case None
    then show ?thesis using run P by (simp add: no_op_step_def)
  next
    case (Some node)
    obtain i where i: "live (g_nodes g) i" "g_nodes g ! i = node" "sn_name node = n"
      by (rule GetNode_live[OF sound_inv[OF conjunct1[OF P]] Some]) (rule that; assumption)
    have "length (sn_inputs node) = 1 \<and> length (sn_outputs node) = 1"
      using P n i unfolding passthrough_def by blast
    then obtain x y where xy: "sn_inputs node = [x]" "sn_outputs node = [y]" by (auto simp: length_Suc_conv)
    then have "val y = val x" using P i n unfolding passthrough_def by blast
    then show ?thesis using sound_bypass[OF laws(2) conjunct1[OF P] conjunct2[OF P], of x y n h] run Some xy
      by (simp add: no_op_step_def)
  qed
  ultimately show "sound_state I dims_of val h"
    using each_node_keeps[of "no_op_step reg" ?ns g h ?P] sound by blast
qed

lemma sound_reshape_chain_step:
  assumes laws: "op_laws I dims_of" "builder_law reg I dims_of val"
    and P: "sound_state I dims_of val g \<and> (\<forall>i. live (g_nodes g) i \<longrightarrow> sn_name (g_nodes g ! i) \<in> R \<longrightarrow> sn_op_type (g_nodes g ! i) = ''Reshape'')"
    and n: "n \<in> R" and run: "reshape_chain_step reg n g = (True, h)"
  shows "sound_state I dims_of val h \<and> (\<forall>i. live (g_nodes h) i \<longrightarrow> sn_name (g_nodes h ! i) \<in> R \<longrightarrow> sn_op_type (g_nodes h ! i) = ''Reshape'')"
proof (cases "h = g")
  case False
  have sound: "sound_state I dims_of val g" and types: "\<And>i. live (g_nodes g) i \<Longrightarrow> sn_name (g_nodes g ! i) \<in> R \<Longrightarrow> sn_op_type (g_nodes g ! i) = ''Reshape''"
    using P by blast+
  note inv = sound_inv[OF sound]
  obtain outer inner v g' where o: "GetNode g n = Some outer" "length (sn_inputs outer) = 1" "v = sn_inputs outer ! 0"
    and pr: "GetProducer g v \<noteq> []" "GetNode g (GetProducer g v) = Some inner"
    and inn: "sn_op_type inner = ''Reshape''" "length (sn_inputs inner) = 1" "length (sn_outputs inner) = 1"
    and r: "ReplaceInputValue reg (sn_name outer) v (sn_inputs inner ! 0) g = (True, g')"
      "RemoveNode (sn_name inner) g' = (True, h)"
    by (rule reshape_chain_stepE[OF run False]) (rule that; assumption)
  obtain i where i: "live (g_nodes g) i" "g_nodes g ! i = outer" "sn_name outer = n"
    by (rule GetNode_live[OF inv o(1)]) (rule that; assumption)
  obtain j where j: "live (g_nodes g) j" "g_nodes g ! j = inner" "v \<in> set (sn_outputs inner)"
    by (rule producer_node[OF inv pr]) (rule that; assumption)
  obtain x where x: "sn_inputs inner = [x]" using inn(2) by (auto simp: length_Suc_conv)
  have out: "sn_outputs inner = [v]" using inn(3) j(3) by (auto simp: length_Suc_conv)
  have oi: "sn_inputs outer = [v]" using o(2,3) by (auto simp: length_Suc_conv)
  have ro: "sn_op_type outer = ''Reshape''" using types[OF i(1)] i n by simp
  have sol: "[val v] = I ''Reshape'' (node_attrs g (sn_name inner)) [val x]"
    using solvesD[of I val g j] sound j(1) x out inn(1) by (simp add: sound_state_def j(2))
  have nc: "\<not> copies_dims (node_attrs g n)"
    using sound i ro by (auto simp: sound_state_def fusible_def fusible_node_def)
  have law: "I ''Reshape'' (node_attrs g n) [val x] = I ''Reshape'' (node_attrs g n) [val v]"
    using laws(1) nc sol[symmetric] unfolding op_laws_def by metis
  have s': "sound_state I dims_of val g'"
  proof (rule sound_ReplaceInputValue[OF laws(2) sound r(1)])
    fix k assume k: "live (g_nodes g) k" "sn_name (g_nodes g ! k) = sn_name outer"
    have "k = i" using same_name_live[OF inv k(1) i(1)] k(2) i(2) by simp
    then show "I (sn_op_type (g_nodes g ! k)) (node_attrs g (sn_name outer)) (map val (sn_inputs (g_nodes g ! k))) =
        I (sn_op_type (g_nodes g ! k)) (node_attrs g (sn_name outer))
        (map val (map (\<lambda>xa. if xa = v then sn_inputs inner ! 0 else xa) (sn_inputs (g_nodes g ! k))))"
      using i ro oi x law by simp
  qed
  have types': "sn_op_type (g_nodes g' ! k) = sn_op_type (g_nodes g ! k) \<and> sn_name (g_nodes g' ! k) = sn_name (g_nodes g ! k) \<and>
      live (g_nodes g) k" if "live (g_nodes g') k" for k
  proof -
    obtain l g1 where l: "live (g_nodes g) l" and g1: "g_nodes g1 = (g_nodes g)[l := (g_nodes g ! l)\<lparr>sn_inputs :=
           map (\<lambda>xa. if xa = v then sn_inputs inner ! 0 else xa) (sn_inputs (g_nodes g ! l))\<rparr>]"
      and rb: "RebuildNode reg l g1 = (True, g')"
      by (rule ReplaceInputValue_effect[OF inv r(1)]) (rule that; assumption)
    obtain ob where "g_nodes g' = (g_nodes g1)[l := (g_nodes g1 ! l)\<lparr>sn_op := Some ob,
           sn_semantics := GetOperatorSemantics (r_semantics reg) (sn_op_type (g_nodes g1 ! l))\<rparr>]"
      by (rule RebuildNode_effect[OF rb]) (rule that; assumption)
    then show ?thesis using g1 l that by (cases "k = l") (auto simp: live_def)
  qed
  show ?thesis
    using sound_RemoveNode[OF s' r(2)] RemoveNode_keeps_nodes[OF sound_inv[OF s'] r(2)] types types' by simp
qed (use P in simp)

lemma sound_ReshapeChainElimination:
  assumes laws: "op_laws I dims_of" "builder_law reg I dims_of val"
  shows "pass_contract (sound_state I dims_of val) (ReshapeChainElimination reg)"
proof
  show "ReshapeChainElimination reg g \<noteq> None" for g by (simp add: ReshapeChainElimination_def Returned_def)
  fix g h assume sound: "sound_state I dims_of val g" and run: "ReshapeChainElimination reg g = Some (Inr 0, h)"
  let ?ns = "live_names (is_op ''Reshape'') g"
  let ?P = "\<lambda>g. sound_state I dims_of val g \<and>
     (\<forall>i. live (g_nodes g) i \<longrightarrow> sn_name (g_nodes g ! i) \<in> set ?ns \<longrightarrow> sn_op_type (g_nodes g ! i) = ''Reshape'')"
  have "?P g" using sound named_live[OF sound_inv[OF sound], of _ "is_op ''Reshape''"] by (auto simp: is_op_def)
  moreover have "each_node (reshape_chain_step reg) ?ns g = (0, h)"
    using run by (simp add: ReshapeChainElimination_def Returned_def prod_eq_iff)
  ultimately show "sound_state I dims_of val h"
    using each_node_keeps[of "reshape_chain_step reg" ?ns g h ?P] sound_reshape_chain_step[OF laws] by blast
qed


text \<open>The two fusions.\<close>

lemma sound_fuse:
  assumes law: "builder_law reg I dims_of val" and sound: "sound_state I dims_of val g"
    and i: "live (g_nodes g) i" "sn_name (g_nodes g ! i) = n" "length (sn_outputs (g_nodes g ! i)) = 1"
    and comp: "map val (sn_outputs (g_nodes g ! i)) = I t (node_attrs g n) (map val inputs)"
    and new: "t \<notin> {''Add'', ''Reshape''}" and run: "fuse_nodes reg n t inputs m g = (True, h)"
  shows "sound_state I dims_of val h"
proof -
  obtain r g' where g': "ReplaceNodeOp reg n t inputs g = (r, g')" by fastforce
  have r: "ReplaceNodeOp reg n t inputs g = (True, g')" "RemoveNode m g' = (True, h)"
    using run g' by (auto simp: fuse_nodes_def split: if_splits)
  have ne: "sn_outputs (g_nodes g ! i) \<noteq> []" using i(3) by auto
  show ?thesis
    by (rule sound_RemoveNode[OF sound_ReplaceNodeOp[where g = g and i = i, OF law sound r(1) i(1,2) ne comp new] r(2)])
qed

lemma silu_at_facts:
  assumes sound: "sound_state I dims_of val g" and i: "live (g_nodes g) i"
    and m: "silu_at g (g_nodes g ! i) k = Some (s, x)"
  shows "x = sn_inputs (g_nodes g ! i) ! (1 - k) \<and> (\<exists>a. I ''Sigmoid'' a [val x] = [val (sn_inputs (g_nodes g ! i) ! k)])"
proof -
  let ?v = "sn_inputs (g_nodes g ! i) ! k"
  from m obtain sg where pr: "GetProducer g ?v \<noteq> []" "GetNode g (GetProducer g ?v) = Some sg"
    by (auto simp: silu_at_def Let_def split: if_splits option.splits)
  have sg: "sn_op_type sg = ''Sigmoid''" "length (sn_inputs sg) = 1" "length (sn_outputs sg) = 1"
      "sn_outputs sg ! 0 = ?v" "sn_inputs sg ! 0 = x" "x = sn_inputs (g_nodes g ! i) ! (1 - k)"
    using m[unfolded silu_at_def Let_def, simplified pr option.case if_False] by (simp_all split: if_splits)
  obtain j where j: "live (g_nodes g) j" "g_nodes g ! j = sg"
    by (rule producer_node[OF sound_inv[OF sound] pr]) (rule that; assumption)
  have io: "sn_inputs sg = [x]" "sn_outputs sg = [?v]" using sg(2-5) by (auto simp: length_Suc_conv)
  have "[val ?v] = I ''Sigmoid'' (node_attrs g (sn_name sg)) [val x]"
    using solvesD[of I val g j] sound j(1) io sg(1) by (simp add: sound_state_def j(2))
  then show ?thesis using sg(6) by metis
qed

lemma sound_SigmoidMulFusion:
  assumes laws: "op_laws I dims_of" "builder_law reg I dims_of val"
  shows "pass_contract (sound_state I dims_of val) (SigmoidMulFusion reg)"
proof -
  have "node_pass (sound_state I dims_of val) (silu_step reg)"
  proof (rule node_pass.intro)
    fix g n h assume sound: "sound_state I dims_of val g" and run: "silu_step reg n g = (True, h)"
    show "sound_state I dims_of val h"
    proof (cases "h = g")
      case False
      then obtain node s x where node: "GetNode g n = Some node" "MatchSiluPattern g node = Some (s, x)"
        and f: "fuse_nodes reg n ''SiLU'' [x] s g = (True, h)"
        using run by (auto simp: silu_step_def split: option.splits)
      obtain i where i: "live (g_nodes g) i" "g_nodes g ! i = node" "sn_name node = n"
        by (rule GetNode_live[OF sound_inv[OF sound] node(1)]) (rule that; assumption)
      from node(2) have mul: "sn_op_type node = ''Mul''" "length (sn_inputs node) = 2" "length (sn_outputs node) = 1"
        and at: "silu_at g node 0 = Some (s, x) \<or> silu_at g node 1 = Some (s, x)"
        by (auto simp: MatchSiluPattern_def split: if_splits option.splits)
      obtain u w where uw: "sn_inputs node = [u, w]" using mul(2) by (auto simp: length_Suc_conv numeral_2_eq_2)
      have silu: "I ''Sigmoid'' a [v] = [s'] \<Longrightarrow> I ''SiLU'' b [v] = I ''Mul'' b [s', v] \<and> I ''SiLU'' b [v] = I ''Mul'' b [v, s']"
        for a b v s' using laws(1) unfolding op_laws_def by metis
      have "I ''Mul'' b [val u, val w] = I ''SiLU'' b [val x]" for b
        using at
      proof
        assume m: "silu_at g node 0 = Some (s, x)"
        obtain a where "x = w" "I ''Sigmoid'' a [val x] = [val u]"
          using silu_at_facts[OF sound i(1), unfolded i(2), OF m] unfolding uw by auto
        then show ?thesis using silu[of a "val x" "val u" b] by metis
      next
        assume m: "silu_at g node 1 = Some (s, x)"
        obtain a where "x = u" "I ''Sigmoid'' a [val x] = [val w]"
          using silu_at_facts[OF sound i(1), unfolded i(2), OF m] unfolding uw by auto
        then show ?thesis using silu[of a "val x" "val w" b] by metis
      qed
      then have "map val (sn_outputs node) = I ''SiLU'' (node_attrs g n) (map val [x])"
        using solvesD[of I val g i] sound i(1) mul uw i(3) by (simp add: sound_state_def i(2))
      then show ?thesis
        by (intro sound_fuse[where g = g and i = i, OF laws(2) sound i(1) _ _ _ _ f]) (use i mul in simp_all)
    qed (use sound in simp)
  qed
  from node_pass.as_pass[OF this, of "live_names (is_op ''Mul'')"] show ?thesis
    by (simp add: SigmoidMulFusion_def[abs_def])
qed

lemma matmul_at_facts:
  assumes sound: "sound_state I dims_of val g" and i: "live (g_nodes g) i"
    and m: "matmul_at g (g_nodes g ! i) k = Some (s, x, y, c)"
  shows "c = sn_inputs (g_nodes g ! i) ! (1 - k) \<and>
    (\<exists>a. I ''MatMul'' a [val x, val y] = [val (sn_inputs (g_nodes g ! i) ! k)]) \<and>
    (\<exists>m k n. dims_of (val x) = [m, k] \<and> dims_of (val y) = [k, n] \<and> (dims_of (val c) = [n] \<or> dims_of (val c) = [m, n]))"
proof -
  let ?v = "sn_inputs (g_nodes g ! i) ! k"
  from m obtain mm where mm: "GetProducer g ?v \<noteq> []" "GetNode g (GetProducer g ?v) = Some mm"
    by (auto simp: matmul_at_def Let_def split: if_splits option.splits)
  note m1 = m[unfolded matmul_at_def Let_def, simplified mm option.case if_False]
  from m1 have t: "sn_op_type mm = ''MatMul''" "length (sn_inputs mm) = 2" "length (sn_outputs mm) = 1"
    by (auto split: if_splits)
  from m1 obtain p q r where t3: "GetTensor g (sn_inputs mm ! 0) = Some p" "GetTensor g (sn_inputs mm ! 1) = Some q"
      "GetTensor g (sn_inputs (g_nodes g ! i) ! (1 - k)) = Some r"
    by (auto split: if_splits option.splits)
  note m2 = m1[unfolded t3]
  from m2 obtain M K N where d: "m_dims (tensor_at g p) = [M, K]" "m_dims (tensor_at g q) = [K, N]"
      "m_dims (tensor_at g r) = [N] \<or> m_dims (tensor_at g r) = [M, N]"
      and xyc: "x = sn_inputs mm ! 0" "y = sn_inputs mm ! 1" "c = sn_inputs (g_nodes g ! i) ! (1 - k)"
    by (auto simp: IsValidGemmBias_def split: if_splits list.splits)
  have dims: "GetTensor g v = Some p \<Longrightarrow> m_dims (tensor_at g p) = dims_of (val v)" for v p
    using sound by (simp add: sound_state_def shaped_env_def GetTensor_def tensor_at_def)
  obtain j where j: "live (g_nodes g) j" "g_nodes g ! j = mm" "?v \<in> set (sn_outputs mm)"
    by (rule producer_node[OF sound_inv[OF sound] mm]) (rule that; assumption)
  have io: "sn_inputs mm = [x, y]" "sn_outputs mm = [?v]"
    using t xyc j(3) by (auto simp: length_Suc_conv numeral_2_eq_2)
  have "[val ?v] = I ''MatMul'' (node_attrs g (sn_name mm)) [val x, val y]"
    using solvesD[of I val g j] sound j(1) io t(1) by (simp add: sound_state_def j(2))
  moreover have "dims_of (val x) = [M, K]" "dims_of (val y) = [K, N]" "dims_of (val c) = [N] \<or> dims_of (val c) = [M, N]"
    using dims[OF t3(1)] dims[OF t3(2)] dims[OF t3(3)] d xyc by simp_all
  ultimately show ?thesis using xyc(3) by metis
qed

lemma sound_MatMulAddFusion:
  assumes laws: "op_laws I dims_of" "builder_law reg I dims_of val"
  shows "pass_contract (sound_state I dims_of val) (MatMulAddFusion reg)"
proof -
  have "node_pass (sound_state I dims_of val) (matmul_add_step reg)"
  proof (rule node_pass.intro)
    fix g n h assume sound: "sound_state I dims_of val g" and run: "matmul_add_step reg n g = (True, h)"
    show "sound_state I dims_of val h"
    proof (cases "h = g")
      case False
      then obtain node s x y c where node: "GetNode g n = Some node" "MatchMatMulAddPattern g node = Some (s, x, y, c)"
        and f: "fuse_nodes reg n ''Gemm'' [x, y, c] s g = (True, h)"
        using run by (auto simp: matmul_add_step_def split: option.splits)
      obtain i where i: "live (g_nodes g) i" "g_nodes g ! i = node" "sn_name node = n"
        by (rule GetNode_live[OF sound_inv[OF sound] node(1)]) (rule that; assumption)
      from node(2) have add: "sn_op_type node = ''Add''" "length (sn_inputs node) = 2" "length (sn_outputs node) = 1"
        and at: "matmul_at g node 0 = Some (s, x, y, c) \<or> matmul_at g node 1 = Some (s, x, y, c)"
        by (auto simp: MatchMatMulAddPattern_def split: if_splits option.splits)
      obtain u w where uw: "sn_inputs node = [u, w]" using add(2) by (auto simp: length_Suc_conv numeral_2_eq_2)
      have gd: "gemm_default (node_attrs g n)"
        using sound i add(1) by (auto simp: sound_state_def fusible_def fusible_node_def)
      have gemm: "gemm_default b \<Longrightarrow> I ''MatMul'' a [x, y] = [p] \<Longrightarrow> dims_of x = [m, k] \<Longrightarrow> dims_of y = [k, n] \<Longrightarrow>
          dims_of c = [n] \<or> dims_of c = [m, n] \<Longrightarrow> I ''Gemm'' b [x, y, c] = I ''Add'' b [p, c] \<and> I ''Gemm'' b [x, y, c] = I ''Add'' b [c, p]"
        for a b x y p c m k n using laws(1) unfolding op_laws_def by metis
      have "I ''Add'' (node_attrs g n) [val u, val w] = I ''Gemm'' (node_attrs g n) [val x, val y, val c]"
        using at
      proof
        assume m: "matmul_at g node 0 = Some (s, x, y, c)"
        show ?thesis using matmul_at_facts[OF sound i(1), unfolded i(2), OF m] gemm[OF gd] uw by fastforce
      next
        assume m: "matmul_at g node 1 = Some (s, x, y, c)"
        show ?thesis using matmul_at_facts[OF sound i(1), unfolded i(2), OF m] gemm[OF gd] uw by fastforce
      qed
      then have "map val (sn_outputs node) = I ''Gemm'' (node_attrs g n) (map val [x, y, c])"
        using solvesD[of I val g i] sound i(1) add uw i(3) by (simp add: sound_state_def i(2))
      then show ?thesis
        by (intro sound_fuse[where g = g and i = i, OF laws(2) sound i(1) _ _ _ _ f]) (use i add in simp_all)
    qed (use sound in simp)
  qed
  from node_pass.as_pass[OF this, of "live_names (is_op ''Add'')"] show ?thesis
    by (simp add: MatMulAddFusion_def[abs_def])
qed

lemma sound_DeadNodeElimination: "pass_contract (sound_state I dims_of val) DeadNodeElimination"
proof (rule pass_contract.intro)
  fix g h assume s: "sound_state I dims_of val g"
  obtain k where k: "DeadNodeElimination g = Some (Inr 0, k)" "sound_state I dims_of val k"
    by (rule DeadNodeElimination_run[OF sound_inv[OF s], of "sound_state I dims_of val"])
      (use s sound_RemoveNode in blast)+
  then show "DeadNodeElimination g \<noteq> None" by simp
  show "DeadNodeElimination g = Some (Inr 0, h) \<Longrightarrow> sound_state I dims_of val h" using k by simp
qed

lemma sound_default_pipeline:
  assumes laws: "op_laws I dims_of" "builder_law reg I dims_of val"
  shows "pipeline (sound_state I dims_of val) (CreateDefaultPassManager reg)"
proof (rule pipeline.intro)
  fix p assume "p \<in> set (CreateDefaultPassManager reg)"
  then show "pass_contract (sound_state I dims_of val) (gp_run p)"
    using sound_SigmoidMulFusion[OF laws] sound_MatMulAddFusion[OF laws] sound_IdentityElimination[OF laws]
      sound_ReshapeChainElimination[OF laws] sound_NoOpElimination[OF laws] sound_DeadNodeElimination
    by (auto simp: CreateDefaultPassManager_def plain_pass_def)
qed

section \<open>Properties\<close>

text \<open>A sigmoid and a product of the same value, behind an identity.\<close>

definition demo_scalar :: "string \<Rightarrow> ValueDesc" where
  "demo_scalar x = (demo_value x)\<lparr>vd_tensor := (vd_tensor (demo_value x))\<lparr>td_dims := []\<rparr>\<rparr>"

definition demo_op :: "string \<Rightarrow> string \<Rightarrow> string list \<Rightarrow> string \<Rightarrow> NodeDesc" where
  "demo_op name t ins out = \<lparr>nd_name = name, nd_op_type = t, nd_domain = [], nd_inputs = ins, nd_outputs = [out],
     nd_attributes = Map.empty\<rparr>"

definition demo_silu_model :: ModelDesc where
  "demo_silu_model = \<lparr>md_name = ''m'', md_version = 1,
     md_graph = \<lparr>gd_name = ''g'', gd_inputs = [''x''], gd_outputs = [''y''],
       gd_values = map demo_scalar [''x'', ''t'', ''s'', ''y''],
       gd_nodes = [demo_op ''i'' ''Identity'' [''x''] ''t'', demo_op ''s'' ''Sigmoid'' [''t''] ''s'',
         demo_op ''m'' ''Mul'' [''t'', ''s''] ''y'']\<rparr>,
     md_metadata = Map.empty, md_variants = []\<rparr>"

definition demo_silu_registry :: OperatorRegistry where
  "demo_silu_registry = demo_registry\<lparr>r_builders := (\<lambda>_. Some (\<lambda>n e.
     ((Some \<lparr>op_out = map (env_tensor e) (nd_outputs n), op_kernel = Some 7\<rparr>, Ok), e))),
     r_semantics := Map.empty\<rparr>"

definition demo_built_node :: "NodeDesc \<Rightarrow> StaticNode" where
  "demo_built_node d = \<lparr>sn_name = nd_name d, sn_op_type = nd_op_type d, sn_inputs = nd_inputs d,
     sn_outputs = nd_outputs d, sn_op = Some \<lparr>op_out = [], op_kernel = Some 7\<rparr>, sn_semantics = default_semantics, sn_removed = False\<rparr>"

definition demo_silu :: StaticGraph where
  "demo_silu = \<lparr>g_model = demo_silu_model,
     g_env = \<lparr>e_heap = replicate 4 empty_Tensor, e_world = demo_heap, e_tensors = [(''x'', 0), (''t'', 1), (''s'', 2), (''y'', 3)]\<rparr>,
     g_bound = {}, g_nodes = map demo_built_node (gd_nodes (md_graph demo_silu_model)),
     g_index = [''i'' \<mapsto> 0, ''s'' \<mapsto> 1, ''m'' \<mapsto> 2],
     g_producer = [''t'' \<mapsto> ''i'', ''s'' \<mapsto> ''s'', ''y'' \<mapsto> ''m''],
     g_users = [''x'' \<mapsto> [''i''], ''t'' \<mapsto> [''s'', ''m''], ''s'' \<mapsto> [''m'']],
     g_aliases = Map.empty, g_build_time = {}, g_control = [], g_descriptors = [], g_built = True, g_device = COMMON\<rparr>"

text \<open>Values are integers, and every tensor is a scalar.\<close>

definition demo_interp :: "int interp" where
  "demo_interp t a xs =
     (if t = ''Mul'' then [xs ! 0 * xs ! 1] else if t = ''Add'' then [xs ! 0 + xs ! 1]
      else if t = ''MatMul'' then [xs ! 0 * xs ! 1] else if t = ''SiLU'' then [xs ! 0 * xs ! 0]
      else if t = ''Gemm'' then [xs ! 0 * xs ! 1 + xs ! 2] else [xs ! 0])"

definition demo_val :: "string \<Rightarrow> int" where
  "demo_val v = (if v = ''y'' then 9 else 3)"

lemma demo_op_laws: "op_laws demo_interp (\<lambda>_. [])"
  by (auto simp: op_laws_def demo_interp_def)

lemma demo_builder_law: "builder_law demo_silu_registry demo_interp (\<lambda>_. []) demo_val"
  unfolding builder_law_def
proof (intro allI impI)
  fix d e ob st e'
  assume c: "Create demo_silu_registry d e = ((Some ob, st), e')" and s: "shaped_env (\<lambda>_. []) demo_val e"
  have e: "e' = e" "op_out ob = map (env_tensor e) (nd_outputs d)"
    using c by (auto simp: Create_def demo_silu_registry_def demo_registry_def Let_def)
  then show "shaped_env (\<lambda>_. []) demo_val e' \<and> (\<forall>k p. k < length (nd_outputs d) \<longrightarrow> k < length (op_out ob) \<longrightarrow>
      op_out ob ! k = Some p \<longrightarrow> m_dims (e_heap e' ! p) = [])"
    using s by (auto simp: shaped_env_def)
qed

lemma demo_silu_nodes: "g_nodes demo_silu =
   [demo_built_node (demo_op ''i'' ''Identity'' [''x''] ''t''), demo_built_node (demo_op ''s'' ''Sigmoid'' [''t''] ''s''),
    demo_built_node (demo_op ''m'' ''Mul'' [''t'', ''s''] ''y'')]"
  by (simp add: demo_silu_def demo_silu_model_def)

lemma demo_silu_live: "live (g_nodes demo_silu) i \<longleftrightarrow> i = 0 \<or> i = 1 \<or> i = 2"
  by (auto simp: live_def demo_silu_nodes demo_built_node_def less_Suc_eq numeral_2_eq_2 nth_Cons')

lemma demo_silu_inv: "graph_inv demo_silu"
proof -
  have ex3: "(\<exists>i. live (g_nodes demo_silu) i \<and> Q i) \<longleftrightarrow> Q 0 \<or> Q 1 \<or> Q 2" for Q
    by (auto simp: demo_silu_live)
  have set3: "{f i |i. live (g_nodes demo_silu) i \<and> Q i} = {x. x = f 0 \<and> Q 0 \<or> x = f 1 \<and> Q 1 \<or> x = f 2 \<and> Q 2}"
    for f :: "nat \<Rightarrow> string" and Q
    by (auto simp: demo_silu_live)
  show ?thesis
    unfolding graph_inv_def
  proof (intro conjI)
    show "index_match (g_nodes demo_silu) (g_index demo_silu)"
      unfolding demo_silu_nodes by (auto simp: index_match_def demo_silu_def demo_built_node_def demo_op_def less_Suc_eq)
    show "users_match (g_nodes demo_silu) (user_set demo_silu)"
      unfolding users_match_def set3 unfolding demo_silu_nodes
      by (auto simp: user_set_def GetUsers_def demo_silu_def demo_built_node_def demo_op_def)
    show "producers_match (g_nodes demo_silu) (g_producer demo_silu)"
      unfolding producers_match_def ex3 unfolding demo_silu_nodes
      by (auto simp: demo_silu_def demo_built_node_def demo_op_def)
    show "users_wf (g_users demo_silu)" by (auto simp: users_wf_def demo_silu_def)
    show "aliases_wf (g_nodes demo_silu) (g_aliases demo_silu)" by (simp add: aliases_wf_def demo_silu_def)
  qed
qed

lemma demo_silu_sound:
  "solves demo_interp demo_val demo_silu" "shaped_env (\<lambda>_. []) demo_val (g_env demo_silu)" "fusible demo_silu"
  unfolding solves_def fusible_def demo_silu_live unfolding demo_silu_nodes
  by (auto simp: demo_built_node_def demo_op_def demo_interp_def demo_val_def fusible_node_def shaped_env_def demo_silu_def
      env_tensor_def empty_Tensor_def split: if_splits)

lemma demo_silu_run:
  "case PassManager_RunStatus (CreateDefaultPassManager demo_silu_registry) demo_silu of None \<Rightarrow> False
   | Some (st, h) \<Rightarrow> ok st \<and> map (\<lambda>n. (sn_name n, sn_op_type n, sn_inputs n)) (filter (\<lambda>n. \<not> sn_removed n) (g_nodes h)) =
       [(''m'', ''SiLU'', [''x''])]"
  by code_simp

text \<open>
  C20: The default pass pipeline always ends, and when it succeeds the rewritten graph is a valid
  graph whose indices over names, producers and users agree with its nodes.
\<close>

theorem default_passes_keep_indices:
  assumes "graph_inv g"
  shows "\<exists>st h. PassManager_RunStatus (CreateDefaultPassManager reg) g = Some (st, h) \<and>
    (ok st \<longrightarrow> graph_inv h \<and> ok (ValidateStructureStatus h))"
  by (rule default_index.manager_keeps[OF assms])

lemma default_passes_keep_indices_witness:
  "\<exists>st h. PassManager_RunStatus (CreateDefaultPassManager demo_registry) demo_graph = Some (st, h)"
  using default_passes_keep_indices[OF demo_graph_inv] by blast

text \<open>
  C18: On the graphs the fusions are meant for, the default pass pipeline does not change what the
  graph computes.  These are the graphs in which no live \<open>Reshape\<close> copies a dimension (its
  \<open>shape\<close> attribute has no 0) and no live \<open>Add\<close> carries an attribute a \<open>Gemm\<close> would read
  (\<open>transA\<close>, \<open>transB\<close>, \<open>alpha\<close>, \<open>beta\<close>).  If moreover the operators obey the algebraic laws the
  passes rely on (\<open>op_laws\<close>) and builders give outputs the dimensions of their values
  (\<open>builder_law\<close>), then every assignment of values to names that solves the graph still solves the
  graph the pipeline leaves, whatever it fused, bypassed and removed.  The first restriction is
  needed: with a 0 the pass that merges two reshapes changes the result, as the theory of operator
  shapes shows (\<open>reshape_chain_copied_dim\<close>).
\<close>

theorem default_passes_preserve_values:
  assumes "op_laws I dims_of" and "builder_law reg I dims_of val" and "graph_inv g" and "solves I val g"
    and "shaped_env dims_of val (g_env g)" and "fusible g"
    and "PassManager_RunStatus (CreateDefaultPassManager reg) g = Some (st, h)" and "ok st"
  shows "solves I val h"
proof -
  have "sound_state I dims_of val g" using assms(3-6) by (simp add: sound_state_def)
  from pipeline.manager_keeps[OF sound_default_pipeline[OF assms(1,2)] this] assms(7,8)
  show ?thesis by (auto simp: sound_state_def)
qed

lemma default_passes_preserve_values_witness:
  "\<exists>st h. PassManager_RunStatus (CreateDefaultPassManager demo_silu_registry) demo_silu = Some (st, h) \<and> ok st \<and>
     solves demo_interp demo_val h \<and>
     map (\<lambda>n. (sn_name n, sn_op_type n, sn_inputs n)) (filter (\<lambda>n. \<not> sn_removed n) (g_nodes h)) = [(''m'', ''SiLU'', [''x''])]"
proof -
  obtain st h where run: "PassManager_RunStatus (CreateDefaultPassManager demo_silu_registry) demo_silu = Some (st, h)"
    and st: "ok st" and h: "map (\<lambda>n. (sn_name n, sn_op_type n, sn_inputs n)) (filter (\<lambda>n. \<not> sn_removed n) (g_nodes h)) =
       [(''m'', ''SiLU'', [''x''])]"
    using demo_silu_run by (auto split: option.splits prod.splits)
  have "solves demo_interp demo_val h"
    by (rule default_passes_preserve_values[OF demo_op_laws demo_builder_law demo_silu_inv demo_silu_sound run st])
  then show ?thesis using run st h by (intro exI conjI)
qed

text \<open>
  C19: Dead-node elimination ends and is exact: in an acyclic graph the nodes that stay are those
  whose outputs reach a result of the graph through the readers of values, and they are unchanged.
\<close>

theorem DeadNodeElimination_exact:
  assumes "graph_inv g" and "named_outputs g" and "acyclic_graph g"
  shows "\<exists>h. DeadNodeElimination g = Some (Inr 0, h) \<and> (\<forall>i. live (g_nodes h) i = needed g i) \<and>
    (\<forall>i. live (g_nodes h) i \<longrightarrow> g_nodes h ! i = g_nodes g ! i)"
  by (rule dead_exact[OF assms]) blast

lemma DeadNodeElimination_exact_witness:
  "\<exists>h. DeadNodeElimination demo_graph = Some (Inr 0, h) \<and> live (g_nodes h) 0 \<and> \<not> live (g_nodes h) 2"
proof -
  have outs: "output_values demo_graph = {''z''}"
    by (auto simp: output_values_def demo_graph_def alias_rel_def)
  have ne: "named_outputs demo_graph"
    unfolding named_outputs_def demo_live less_3 by (auto simp: demo_graph_def demo_static_node_def)
  have ac: "acyclic_graph demo_graph"
    unfolding acyclic_graph_def demo_live
    by (rule exI[of _ id]) (auto simp: less_3 demo_graph_def demo_static_node_def)
  have demo_outs: "sn_outputs (g_nodes demo_graph ! 0) = [''y'']" "sn_outputs (g_nodes demo_graph ! Suc 0) = [''z'']"
      "sn_outputs (g_nodes demo_graph ! 2) = [''w'']" "sn_inputs (g_nodes demo_graph ! 0) = [''x'']"
      "sn_inputs (g_nodes demo_graph ! Suc 0) = [''y'']" "sn_inputs (g_nodes demo_graph ! 2) = [''x'']"
    by (simp_all add: demo_graph_def demo_static_node_def)
  have n1: "needed demo_graph (Suc 0)"
    by (rule needed_output[where v = "''z''"]) (simp_all add: demo_live outs demo_outs)
  have n0: "needed demo_graph 0"
    by (rule needed_reader[where v = "''y''" and j = "Suc 0"]) (simp_all add: demo_live n1 demo_outs)
  have "\<not> needed demo_graph 2"
  proof
    assume "needed demo_graph 2"
    then show False
    proof cases
      case (needed_output v)
      then show False by (simp add: outs demo_outs)
    next
      case (needed_reader v j)
      have "j < 3" using needed_reader(3) by cases (simp_all add: demo_live)
      then show False using needed_reader(2,4) by (auto simp: less_3 demo_outs)
    qed
  qed
  then show ?thesis using DeadNodeElimination_exact[OF demo_graph_inv ne ac] n0 by metis
qed

end
