(* ===== verification/Runtime_Graph.thy ===== *)
theory Runtime_Graph
  imports Op_Semantics Topo_Order "HOL-Library.AList"
begin

text \<open>
  The runtime graph: \<open>include/core/graph.h\<close> and \<open>src/core/graph.cc\<close>, with the backend
  interface of \<open>include/core/backend.h\<close>.  It holds the executable nodes with their dependency
  lists, the tensors they are bound to and the contracts those must keep, and it runs the nodes.
  The backend and the kernels are virtual interfaces: records of functions over the execution
  environment, which consists of the heap of tensors, the memory and the backend's own state.
  A member function that throws answers \<open>None\<close> (or an exception text, where the caller catches it).
  Times are values of an abstract type with the arithmetic of \<open>double\<close> as a parameter.
\<close>

section \<open>Interfaces\<close>

record 'b rt_env =
  x_heap :: "Tensor list"
  x_world :: world
  x_dev :: 'b

record BackendCapabilities =
  cap_supported :: bool
  cap_host_memory :: bool
  cap_parallel_nodes :: bool
  cap_activation_reuse :: bool

record 'b BackendContext =
  Capabilities :: "DeviceType \<Rightarrow> BackendCapabilities"
  Synchronize :: "'b rt_env \<Rightarrow> status \<times> 'b rt_env"
  ReadHost :: "nat \<Rightarrow> 'b rt_env \<Rightarrow> status \<times> 'b rt_env"
  HostWritten :: "nat \<Rightarrow> 'b rt_env \<Rightarrow> 'b rt_env"
  MarkPersistent :: "nat \<Rightarrow> bool \<Rightarrow> 'b rt_env \<Rightarrow> 'b rt_env"
  IsPersistent :: "nat \<Rightarrow> 'b rt_env \<Rightarrow> bool"
  Release :: "nat \<Rightarrow> 'b rt_env \<Rightarrow> 'b rt_env"
  RegisterTensor :: "nat \<Rightarrow> 'b rt_env \<Rightarrow> 'b rt_env"
  ClearBackend :: "'b rt_env \<Rightarrow> 'b rt_env"

text \<open>The base class, which is the host backend: nothing to transfer.\<close>

definition host_capabilities :: "DeviceType \<Rightarrow> BackendCapabilities" where
  "host_capabilities device =
     (if device \<in> {UNKNOWN_DEVICE, COMMON, X86, ARM32, ARM64}
      then \<lparr>cap_supported = True, cap_host_memory = True, cap_parallel_nodes = True, cap_activation_reuse = True\<rparr>
      else \<lparr>cap_supported = False, cap_host_memory = False, cap_parallel_nodes = False, cap_activation_reuse = False\<rparr>)"

definition host_backend :: "'b BackendContext" where
  "host_backend = \<lparr>Capabilities = host_capabilities, Synchronize = (\<lambda>e. (Ok, e)), ReadHost = (\<lambda>_ e. (Ok, e)),
     HostWritten = (\<lambda>_ e. e), MarkPersistent = (\<lambda>_ _ e. e), IsPersistent = (\<lambda>_ _. False), Release = (\<lambda>_ e. e),
     RegisterTensor = (\<lambda>_ e. e), ClearBackend = (\<lambda>e. e)\<rparr>"

text \<open>A kernel; \<open>Supports\<close> and \<open>compute\<close> may throw, which is the left of their results.\<close>

record 'b KernelBase =
  k_owns_param :: bool
  k_prepare :: "'b rt_env \<Rightarrow> int \<times> 'b rt_env"
  k_supports :: "'b rt_env \<Rightarrow> string + status"
  k_compute :: "'b rt_env \<Rightarrow> (string + int) \<times> 'b rt_env"

section \<open>State\<close>

datatype RuntimeThreadMode = kSerialGraph | kParallelGraph

record 'b RuntimeNode =
  rn_name :: string
  rn_op_type :: string
  rn_inputs :: "string list"
  rn_outputs :: "string list"
  rn_input_ids :: "nat list"
  rn_output_ids :: "nat list"
  rn_kernel :: "'b KernelBase option"
  rn_device :: DeviceType
  rn_preds :: "nat list"
  rn_succs :: "nat list"
  rn_pending :: nat
  rn_semantics :: "OperatorSemantics option"

record TensorContract =
  tc_name :: string
  tc_tensor :: nat
  tc_descriptor :: Tensor
  tc_bytes :: nat
  tc_fixed_quantization :: bool
  tc_bounded :: bool
  tc_fixed_values :: "u8 list option"

record TensorBindingContract =
  tb_tensor :: nat
  tb_storage_id :: "nat option"
  tb_offset :: nat

record 'd RuntimeProfileSummary =
  ps_node :: string
  ps_op :: string
  ps_count :: int
  ps_total :: 'd
  ps_avg :: 'd
  ps_min :: 'd
  ps_max :: 'd

record 'd double_ops =
  d_add :: "'d \<Rightarrow> 'd \<Rightarrow> 'd"
  d_div :: "'d \<Rightarrow> 'd \<Rightarrow> 'd"
  d_min :: "'d \<Rightarrow> 'd \<Rightarrow> 'd"
  d_max :: "'d \<Rightarrow> 'd \<Rightarrow> 'd"
  d_of_int :: "int \<Rightarrow> 'd"

record ('b, 'd) RuntimeGraph =
  rg_env :: "'b rt_env"
  rg_tensors :: "(string \<times> nat) list"
  rg_nodes :: "'b RuntimeNode list"
  rg_index :: "string \<rightharpoonup> nat"
  rg_ids :: "string \<rightharpoonup> nat"
  rg_value_names :: "string list"
  rg_uses :: "nat \<rightharpoonup> nat"
  rg_output_names :: "string list"
  rg_output_ptrs :: "nat set"
  rg_worker_count :: nat
  rg_pool :: bool
  rg_profiling :: bool
  rg_profiles :: "'d RuntimeProfileSummary list"
  rg_profile_index :: "string \<rightharpoonup> nat"
  rg_mode :: RuntimeThreadMode
  rg_threads :: nat
  rg_finalized :: bool
  rg_bindings_installed :: bool
  rg_uses_memory_plan :: bool
  rg_locked :: bool
  rg_contracts :: "TensorContract list"
  rg_binding_contracts :: "(string \<times> TensorBindingContract) list"
  rg_effect_nodes :: "OperatorEffectNode list"
  rg_effect_inputs :: "string list"
  rg_effect_outputs :: "string list"
  rg_status :: status

definition rg_tensor :: "('b, 'd) RuntimeGraph \<Rightarrow> string \<Rightarrow> nat option" where
  "rg_tensor g name = map_of (rg_tensors g) name"

definition tensor_of :: "('b, 'd) RuntimeGraph \<Rightarrow> nat \<Rightarrow> Tensor" where
  "tensor_of g p = x_heap (rg_env g) ! p"

text \<open>The storage of a tensor as an identity; a tensor without storage has the identity 0 of the code.\<close>

definition storage_id :: "Tensor \<Rightarrow> nat option" where
  "storage_id t = m_storage t"

definition map_env :: "('b rt_env \<Rightarrow> 'b rt_env) \<Rightarrow> ('b, 'd) RuntimeGraph \<Rightarrow> ('b, 'd) RuntimeGraph" where
  "map_env f g = g\<lparr>rg_env := f (rg_env g)\<rparr>"

section \<open>Tensors and their contracts\<close>

definition RefreshOutputTensorPointers :: "('b, 'd) RuntimeGraph \<Rightarrow> ('b, 'd) RuntimeGraph" where
  "RefreshOutputTensorPointers g =
     g\<lparr>rg_output_ptrs := {p. \<exists>name \<in> set (rg_output_names g). rg_tensor g name = Some p}\<rparr>"

definition binding_matches :: "('b, 'd) RuntimeGraph \<Rightarrow> string \<times> TensorBindingContract \<Rightarrow> bool" where
  "binding_matches g item =
     (let expected = snd item in
      rg_tensor g (fst item) = Some (tb_tensor expected) \<and>
      storage_id (tensor_of g (tb_tensor expected)) = tb_storage_id expected \<and>
      m_offset (tensor_of g (tb_tensor expected)) = tb_offset expected)"

definition CheckTensorBindings :: "('b, 'd) RuntimeGraph \<Rightarrow> status" where
  "CheckTensorBindings g =
     (case find (\<lambda>item. \<not> binding_matches g item) (rg_binding_contracts g) of
        None \<Rightarrow> Ok
      | Some item \<Rightarrow> Error kInvalidArgument (''runtime storage view changed: '' @ fst item))"

text \<open>\<open>try_emplace\<close> keeps a contract captured before.\<close>

definition capture_binding :: "('b, 'd) RuntimeGraph \<Rightarrow> string \<times> nat \<Rightarrow>
    (string \<times> TensorBindingContract) list \<Rightarrow> (string \<times> TensorBindingContract) list" where
  "capture_binding g item cs =
     (if map_of cs (fst item) \<noteq> None then cs
      else cs @ [(fst item, \<lparr>tb_tensor = snd item, tb_storage_id = storage_id (tensor_of g (snd item)),
                              tb_offset = m_offset (tensor_of g (snd item))\<rparr>)])"

definition CaptureTensorBindings :: "('b, 'd) RuntimeGraph \<Rightarrow> ('b, 'd) RuntimeGraph" where
  "CaptureTensorBindings g =
     g\<lparr>rg_binding_contracts := fold (capture_binding g) (rg_tensors g) (rg_binding_contracts g),
       rg_bindings_installed := True\<rparr>"

definition RecordStateStorageSwap :: "nat \<Rightarrow> nat \<Rightarrow> ('b, 'd) RuntimeGraph \<Rightarrow> ('b, 'd) RuntimeGraph" where
  "RecordStateStorageSwap first second g =
     g\<lparr>rg_binding_contracts := map (\<lambda>item.
         if tb_tensor (snd item) \<noteq> first \<and> tb_tensor (snd item) \<noteq> second then item
         else (fst item, (snd item)\<lparr>tb_storage_id := storage_id (tensor_of g (tb_tensor (snd item))),
                                     tb_offset := m_offset (tensor_of g (tb_tensor (snd item)))\<rparr>))
       (rg_binding_contracts g)\<rparr>"

definition shape_kept :: "TensorContract \<Rightarrow> Tensor \<Rightarrow> bool" where
  "shape_kept c t =
     (let actual = m_dims t; capacity = m_dims (tc_descriptor c) in
      if tc_bounded c
      then length actual = length capacity \<and> actual \<noteq> [] \<and> 0 \<le> hd actual \<and> hd actual \<le> hd capacity \<and>
           tl actual = tl capacity
      else actual = capacity)"

definition capacity_kept :: "world \<Rightarrow> TensorContract \<Rightarrow> Tensor \<Rightarrow> bool" where
  "capacity_kept w c t = (if tc_bounded c then HasCapacity w t (tc_bytes c) else tc_bytes c \<le> m_memory_size t)"

definition contract_kept :: "world \<Rightarrow> TensorContract \<Rightarrow> Tensor \<Rightarrow> bool" where
  "contract_kept w c t \<longleftrightarrow> shape_kept c t \<and> m_data_type t = m_data_type (tc_descriptor c) \<and>
     m_layout t = m_layout (tc_descriptor c) \<and> IsInitialized w t \<and> capacity_kept w c t \<and>
     (tc_fixed_quantization c \<longrightarrow> HasSameQuantization (m_quantization t) (m_quantization (tc_descriptor c)))"

text \<open>One contract; comparing the fixed values reads the tensor.\<close>

definition check_contract :: "TensorContract \<Rightarrow> ('b, 'd) RuntimeGraph \<Rightarrow> status \<times> ('b, 'd) RuntimeGraph" where
  "check_contract c g =
     (let t = tensor_of g (tc_tensor c); w = x_world (rg_env g) in
      if rg_tensor g (tc_name c) \<noteq> Some (tc_tensor c)
      then (Error kInvalidArgument (''compiled tensor binding changed: '' @ tc_name c), g)
      else if \<not> contract_kept w c t
      then (Error kInvalidArgument (''compiled tensor contract changed: '' @ tc_name c), g)
      else case tc_fixed_values c of
             None \<Rightarrow> (Ok, g)
           | Some fixed \<Rightarrow>
               if tc_bytes c = 0 then (Ok, g)
               else (let (w', bytes) = read_bytes t (tc_bytes c) w;
                         g' = map_env (x_world_update (\<lambda>_. w')) g
                     in (if bytes \<noteq> take (tc_bytes c) fixed
                         then Error kInvalidArgument (''compiled control values changed: '' @ tc_name c) else Ok, g')))"

fun check_contracts :: "TensorContract list \<Rightarrow> ('b, 'd) RuntimeGraph \<Rightarrow> status \<times> ('b, 'd) RuntimeGraph" where
  "check_contracts [] g = (Ok, g)"
| "check_contracts (c # cs) g =
     (let (st, g') = check_contract c g in if ok st then check_contracts cs g' else (st, g'))"

definition node_ready :: "'b RuntimeNode \<Rightarrow> bool" where
  "node_ready n = (case rn_kernel n of None \<Rightarrow> False | Some k \<Rightarrow> k_owns_param k)"

definition CheckRuntimeStatus :: "('b, 'd) RuntimeGraph \<Rightarrow> status \<times> ('b, 'd) RuntimeGraph" where
  "CheckRuntimeStatus g =
     (let bindings = CheckTensorBindings g in
      if \<not> ok bindings then (bindings, g)
      else (let (st, g1) = check_contracts (rg_contracts g) g in
            if \<not> ok st then (st, g1)
            else (case find (\<lambda>n. \<not> node_ready n) (rg_nodes g1) of
                    None \<Rightarrow> (Ok, g1)
                  | Some n \<Rightarrow> (Error kBuildFailed (''runtime node has no kernel: '' @ rn_name n), g1))))"


definition produces :: "'b RuntimeNode \<Rightarrow> string \<Rightarrow> bool" where
  "produces n v \<longleftrightarrow> v \<in> set (rn_outputs n)"

definition GetProducerNode :: "('b, 'd) RuntimeGraph \<Rightarrow> string \<Rightarrow> 'b RuntimeNode option" where
  "GetProducerNode g v = find (\<lambda>n. produces n v) (rg_nodes g)"

definition GetRuntimeNode :: "('b, 'd) RuntimeGraph \<Rightarrow> string \<Rightarrow> 'b RuntimeNode option" where
  "GetRuntimeNode g name = map_option (\<lambda>i. rg_nodes g ! i) (rg_index g name)"

definition rebindable :: "world \<Rightarrow> Tensor \<Rightarrow> Tensor \<Rightarrow> bool" where
  "rebindable w current t \<longleftrightarrow> \<not> m_immutable current \<and> m_dims current = m_dims t \<and>
     m_data_type current = m_data_type t \<and> m_layout current = m_layout t \<and>
     HasSameQuantization (m_quantization current) (m_quantization t) \<and> IsInitialized w t \<and>
     m_memory_size current \<le> m_memory_size t"

text \<open>
  \<open>SetTensor\<close>: the copy of a rebound input goes through \<open>mutable_data\<close>, whose failed capacity
  test aborts (\<open>None\<close>); before the bindings are installed the tensor itself is taken.
\<close>

definition copy_into :: "nat \<Rightarrow> nat \<Rightarrow> ('b, 'd) RuntimeGraph \<Rightarrow> ('b, 'd) RuntimeGraph option" where
  "copy_into current p g =
     (let n = m_memory_size (tensor_of g current) in
      if n = 0 then Some g
      else case mutable_data n (tensor_of g current) (x_world (rg_env g)) of
             None \<Rightarrow> None
           | Some (w1, t', None) \<Rightarrow> None
           | Some (w1, t', Some a) \<Rightarrow>
               (let (w2, bytes) = read_bytes (tensor_of g p) n w1 in
                Some (map_env (\<lambda>e. e\<lparr>x_heap := (x_heap e)[current := t'],
                                     x_world := w2\<lparr>mem := mem_write (mem w2) a bytes\<rparr>\<rparr>) g)))"

definition RuntimeSetTensor ::
  "'b BackendContext \<Rightarrow> string \<Rightarrow> nat option \<Rightarrow> ('b, 'd) RuntimeGraph \<Rightarrow> (int \<times> ('b, 'd) RuntimeGraph) option" where
  "RuntimeSetTensor backend name tensor g =
     (if rg_locked g \<or> name = [] then Some (-1, g)
      else case tensor of None \<Rightarrow> Some (-1, g)
      | Some p \<Rightarrow>
          (case rg_tensor g name of
             Some current \<Rightarrow>
               if rg_bindings_installed g
               then if \<not> ok (CheckTensorBindings g) \<or> (\<exists>n \<in> set (rg_nodes g). produces n name) \<or>
                       \<not> rebindable (x_world (rg_env g)) (tensor_of g current) (tensor_of g p)
                    then Some (-1, g)
                    else if current = p then Some (0, RefreshOutputTensorPointers g)
                    else map_option (\<lambda>g'. (0, RefreshOutputTensorPointers (map_env (HostWritten backend current) g')))
                           (copy_into current p g)
               else if rg_finalized g then Some (-1, g)
               else Some (0, RefreshOutputTensorPointers
                      (map_env (RegisterTensor backend p) g\<lparr>rg_tensors := AList.update name p (rg_tensors g)\<rparr>))
           | None \<Rightarrow>
               if rg_finalized g then Some (-1, g)
               else Some (0, RefreshOutputTensorPointers
                      (map_env (RegisterTensor backend p) g\<lparr>rg_tensors := AList.update name p (rg_tensors g)\<rparr>))))"

section \<open>Configuration\<close>

definition SetProfilingEnabled :: "bool \<Rightarrow> ('b, 'd) RuntimeGraph \<Rightarrow> ('b, 'd) RuntimeGraph" where
  "SetProfilingEnabled enabled g =
     (let g1 = g\<lparr>rg_profiling := enabled\<rparr> in
      if \<not> enabled then g1\<lparr>rg_profiles := [], rg_profile_index := Map.empty\<rparr> else g1)"

definition RecordNodeProfile ::
  "'d double_ops \<Rightarrow> string \<Rightarrow> string \<Rightarrow> 'd \<Rightarrow> ('b, 'd) RuntimeGraph \<Rightarrow> ('b, 'd) RuntimeGraph" where
  "RecordNodeProfile D node_name op_type elapsed g =
     (if \<not> rg_profiling g then g
      else case rg_profile_index g node_name of
        None \<Rightarrow> g\<lparr>rg_profile_index := (rg_profile_index g)(node_name \<mapsto> length (rg_profiles g)),
                  rg_profiles := rg_profiles g @ [\<lparr>ps_node = node_name, ps_op = op_type, ps_count = 1,
                    ps_total = elapsed, ps_avg = elapsed, ps_min = elapsed, ps_max = elapsed\<rparr>]\<rparr>
      | Some i \<Rightarrow>
          (let s = rg_profiles g ! i; total = d_add D (ps_total s) elapsed
           in g\<lparr>rg_profiles := (rg_profiles g)[i := s\<lparr>ps_count := ps_count s + 1, ps_total := total,
                  ps_avg := d_div D total (d_of_int D (ps_count s + 1)),
                  ps_min := d_min D (ps_min s) elapsed, ps_max := d_max D (ps_max s) elapsed\<rparr>]\<rparr>))"

definition SetThreadMode :: "RuntimeThreadMode \<Rightarrow> ('b, 'd) RuntimeGraph \<Rightarrow> ('b, 'd) RuntimeGraph option" where
  "SetThreadMode mode g =
     (if rg_locked g \<and> mode \<noteq> rg_mode g then None
      else if rg_uses_memory_plan g \<and> mode \<noteq> kSerialGraph then None
      else Some (g\<lparr>rg_finalized := (if rg_mode g \<noteq> mode then False else rg_finalized g), rg_mode := mode\<rparr>))"

definition SetThreadCount :: "nat \<Rightarrow> ('b, 'd) RuntimeGraph \<Rightarrow> ('b, 'd) RuntimeGraph option" where
  "SetThreadCount c g =
     (if rg_locked g \<and> max 1 c \<noteq> rg_threads g then None
      else Some (g\<lparr>rg_finalized := (if rg_threads g \<noteq> max 1 c then False else rg_finalized g),
                   rg_threads := max 1 c\<rparr>))"

definition SetOutputNames :: "string list \<Rightarrow> ('b, 'd) RuntimeGraph \<Rightarrow> ('b, 'd) RuntimeGraph option" where
  "SetOutputNames names g =
     (if rg_locked g then None
      else Some (RefreshOutputTensorPointers (g\<lparr>rg_output_names := remdups names\<rparr>)))"

definition RuntimeClear :: "'b BackendContext \<Rightarrow> ('b, 'd) RuntimeGraph \<Rightarrow> ('b, 'd) RuntimeGraph option" where
  "RuntimeClear backend g =
     (if rg_locked g then None
      else Some ((map_env (ClearBackend backend) g)\<lparr>rg_finalized := False, rg_bindings_installed := False,
        rg_uses_memory_plan := False, rg_nodes := [], rg_contracts := [], rg_binding_contracts := [],
        rg_effect_nodes := [], rg_effect_inputs := [], rg_effect_outputs := [], rg_tensors := [],
        rg_index := Map.empty, rg_ids := Map.empty, rg_value_names := [], rg_uses := Map.empty,
        rg_output_names := [], rg_output_ptrs := {}, rg_pool := False, rg_worker_count := 1,
        rg_profiling := False, rg_profiles := [], rg_profile_index := Map.empty\<rparr>))"

section \<open>Building the graph\<close>

text \<open>Value identifiers are 32-bit: \<open>static_cast<ValueId>(value_name_by_id_.size())\<close>.\<close>

definition GetOrCreateValueId ::
  "string \<Rightarrow> ('b, 'd) RuntimeGraph \<Rightarrow> (nat \<times> ('b, 'd) RuntimeGraph) option" where
  "GetOrCreateValueId name g =
     (case rg_ids g name of
        Some i \<Rightarrow> Some (i, g)
      | None \<Rightarrow>
          if rg_locked g then None
          else (let i = length (rg_value_names g) mod 4294967296
                in Some (i, g\<lparr>rg_ids := (rg_ids g)(name \<mapsto> i), rg_value_names := rg_value_names g @ [name]\<rparr>)))"

definition kInvalidValueId :: nat where "kInvalidValueId = 4294967295"

definition GetValueId :: "('b, 'd) RuntimeGraph \<Rightarrow> string \<Rightarrow> nat" where
  "GetValueId g name = (case rg_ids g name of None \<Rightarrow> kInvalidValueId | Some i \<Rightarrow> i)"

fun value_ids :: "string list \<Rightarrow> ('b, 'd) RuntimeGraph \<Rightarrow> (nat list \<times> ('b, 'd) RuntimeGraph) option" where
  "value_ids [] g = Some ([], g)"
| "value_ids (v # vs) g =
     (case GetOrCreateValueId v g of None \<Rightarrow> None
      | Some (i, g1) \<Rightarrow> (case value_ids vs g1 of None \<Rightarrow> None | Some (is, g2) \<Rightarrow> Some (i # is, g2)))"

definition AddNode ::
  "semantics_registry \<Rightarrow> 'b RuntimeNode \<Rightarrow> ('b, 'd) RuntimeGraph \<Rightarrow> ('b, 'd) RuntimeGraph option" where
  "AddNode registry node g =
     (if rg_locked g then None
      else
        (let g1 = g\<lparr>rg_finalized := False,
                    rg_bindings_installed := (if rn_kernel node \<noteq> None then True else rg_bindings_installed g)\<rparr>;
             n1 = (if rn_semantics node = None
                   then node\<lparr>rn_semantics := Some (GetOperatorSemantics registry (rn_op_type node))\<rparr> else node)
         in case (if rn_input_ids n1 = [] then value_ids (filter (\<lambda>v. v \<noteq> []) (rn_inputs n1)) g1
                  else Some (rn_input_ids n1, g1)) of
              None \<Rightarrow> None
            | Some (is, g2) \<Rightarrow>
                (case (if rn_output_ids n1 = [] then value_ids (rn_outputs n1) g2
                       else Some (rn_output_ids n1, g2)) of
                   None \<Rightarrow> None
                 | Some (os, g3) \<Rightarrow>
                     Some (g3\<lparr>rg_index := (rg_index g3)(rn_name n1 \<mapsto> length (rg_nodes g3)),
                              rg_nodes := rg_nodes g3 @ [n1\<lparr>rn_input_ids := is, rn_output_ids := os\<rparr>]\<rparr>))))"

section \<open>Dependencies\<close>

text \<open>
  First loop of \<open>BuildDependencies\<close>: the edges of the node are dropped, then its name and its
  output values are noted.  An early return leaves the nodes as they are by then.
\<close>

definition clear_edges :: "'b RuntimeNode \<Rightarrow> 'b RuntimeNode" where
  "clear_edges n = n\<lparr>rn_preds := [], rn_succs := [], rn_pending := 0\<rparr>"

definition note_producer :: "nat \<Rightarrow> nat \<Rightarrow> (nat \<rightharpoonup> nat) \<Rightarrow> unit + (nat \<rightharpoonup> nat)" where
  "note_producer i v P = (if P v \<noteq> None then Inl () else Inr (P(v \<mapsto> i)))"

definition note_rt_node ::
  "nat \<Rightarrow> string set \<times> (nat \<rightharpoonup> nat) \<times> 'b RuntimeNode list \<Rightarrow>
   'b RuntimeNode list + string set \<times> (nat \<rightharpoonup> nat) \<times> 'b RuntimeNode list" where
  "note_rt_node i s =
     (let (names, P, nodes0) = s; nodes = nodes0[i := clear_edges (nodes0 ! i)]; n = nodes ! i in
      if rn_name n = [] \<or> rn_name n \<in> names then Inl nodes
      else case foldR (note_producer i) (rn_output_ids n) P of
             Inl _ \<Rightarrow> Inl nodes
           | Inr P' \<Rightarrow> Inr (insert (rn_name n) names, P', nodes))"

text \<open>Second loop: the edges, as pairs of producer and consumer, in the order they are found.\<close>

definition rt_inputs :: "'b RuntimeNode list \<Rightarrow> (nat \<times> nat) list" where
  "rt_inputs nodes = concat (map (\<lambda>x. map (Pair (fst x)) (rn_input_ids (snd x))) (enumerate 0 nodes))"

definition link_value ::
  "('b, 'd) RuntimeGraph \<Rightarrow> (nat \<rightharpoonup> nat) \<Rightarrow> nat \<times> nat \<Rightarrow> (nat \<times> nat) list \<Rightarrow>
   (nat \<times> nat) list + (nat \<times> nat) list" where
  "link_value g P e es =
     (if snd e \<ge> length (rg_value_names g) then Inl es
      else case P (snd e) of
             None \<Rightarrow> if rg_tensor g (rg_value_names g ! snd e) = None then Inl es else Inr es
           | Some p \<Rightarrow> if p = fst e then Inl es else Inr (es @ [(p, fst e)]))"

definition with_edges :: "(nat \<times> nat) list \<Rightarrow> 'b RuntimeNode list \<Rightarrow> 'b RuntimeNode list" where
  "with_edges es nodes =
     map (\<lambda>x. (snd x)\<lparr>rn_preds := map fst (filter (\<lambda>e. snd e = fst x) es),
                      rn_succs := map snd (filter (\<lambda>e. fst e = fst x) es)\<rparr>) (enumerate 0 nodes)"

definition set_pending :: "'b RuntimeNode list \<Rightarrow> 'b RuntimeNode list" where
  "set_pending nodes = map (\<lambda>n. n\<lparr>rn_pending := length (rn_preds n)\<rparr>) nodes"

definition BuildDependencies :: "('b, 'd) RuntimeGraph \<Rightarrow> int \<times> ('b, 'd) RuntimeGraph" where
  "BuildDependencies g =
     (case foldR note_rt_node [0..<length (rg_nodes g)] ({}, Map.empty, rg_nodes g) of
        Inl nodes \<Rightarrow> (-1, g\<lparr>rg_nodes := nodes\<rparr>)
      | Inr (_, P, nodes0) \<Rightarrow>
          (case foldR (link_value g P) (rt_inputs nodes0) [] of
             Inl es \<Rightarrow> (-1, g\<lparr>rg_nodes := with_edges es nodes0\<rparr>)
           | Inr es \<Rightarrow>
               (let nodes = set_pending (with_edges es nodes0); g' = g\<lparr>rg_nodes := nodes\<rparr> in
                case kahn_order fifo_push list_pop [] (map rn_succs nodes) (map rn_pending nodes) of
                  None \<Rightarrow> (-1, g')
                | Some order \<Rightarrow> (if length order = length nodes then 0 else -1, g'))))"

definition ResetPendingDependencies :: "('b, 'd) RuntimeGraph \<Rightarrow> ('b, 'd) RuntimeGraph" where
  "ResetPendingDependencies g = g\<lparr>rg_nodes := set_pending (rg_nodes g)\<rparr>"

definition bump_use :: "nat \<Rightarrow> (nat \<rightharpoonup> nat) \<Rightarrow> (nat \<rightharpoonup> nat)" where
  "bump_use v u = u(v \<mapsto> Suc (case u v of None \<Rightarrow> 0 | Some n \<Rightarrow> n))"

definition ResetRemainingUses :: "('b, 'd) RuntimeGraph \<Rightarrow> ('b, 'd) RuntimeGraph" where
  "ResetRemainingUses g = g\<lparr>rg_uses := fold bump_use (concat (map rn_input_ids (rg_nodes g))) Map.empty\<rparr>"


section \<open>Finalizing\<close>

definition effect_node :: "'b RuntimeNode \<Rightarrow> OperatorEffectNode" where
  "effect_node n = \<lparr>en_name = rn_name n, en_inputs = rn_inputs n, en_outputs = rn_outputs n,
     en_semantics = (case rn_semantics n of None \<Rightarrow> default_semantics | Some s \<Rightarrow> s)\<rparr>"

definition collect_effects :: "('b, 'd) RuntimeGraph \<Rightarrow> ('b, 'd) RuntimeGraph" where
  "collect_effects g =
     g\<lparr>rg_effect_nodes := map effect_node (filter (\<lambda>n. rn_kernel n \<noteq> None) (rg_nodes g)),
       rg_effect_inputs := filter (\<lambda>v. \<forall>n \<in> set (rg_nodes g). \<not> produces n v) (map fst (rg_tensors g)),
       rg_effect_outputs := rg_output_names g\<rparr>"

definition mutable_slots :: "'b RuntimeNode \<Rightarrow> nat list" where
  "mutable_slots n = (case rn_semantics n of None \<Rightarrow> [] | Some s \<Rightarrow> mutable_inputs s)"

text \<open>The tensors bound to the inputs a node writes in place (the effects were validated before).\<close>

definition written_tensors :: "('b, 'd) RuntimeGraph \<Rightarrow> 'b RuntimeNode \<Rightarrow> nat list" where
  "written_tensors g n = List.map_filter (\<lambda>slot. rg_tensor g (rn_inputs n ! slot)) (mutable_slots n)"

definition mark_states :: "'b BackendContext \<Rightarrow> ('b, 'd) RuntimeGraph \<Rightarrow> ('b, 'd) RuntimeGraph" where
  "mark_states backend g =
     fold (\<lambda>p. map_env (MarkPersistent backend p True))
       (concat (map (written_tensors g) (filter (\<lambda>n. rn_kernel n \<noteq> None) (rg_nodes g)))) g"

definition no_pool :: "('b, 'd) RuntimeGraph \<Rightarrow> ('b, 'd) RuntimeGraph" where
  "no_pool g = g\<lparr>rg_pool := False, rg_worker_count := 1\<rparr>"

fun prepare_nodes ::
  "'b BackendContext \<Rightarrow> 'b RuntimeNode list \<Rightarrow> ('b, 'd) RuntimeGraph \<Rightarrow> status \<times> ('b, 'd) RuntimeGraph" where
  "prepare_nodes backend [] g = (Ok, g)"
| "prepare_nodes backend (n # ns) g =
     (let caps = Capabilities backend (rn_device n) in
      if \<not> cap_supported caps \<or> (\<not> cap_parallel_nodes caps \<and> rg_mode g \<noteq> kSerialGraph)
      then (Error kUnsupported (''backend execution mode unavailable: '' @ rn_name n), g)
      else case rn_kernel n of
             None \<Rightarrow> prepare_nodes backend ns g
           | Some k \<Rightarrow>
               (let (st, e) = k_prepare k (rg_env g); g1 = g\<lparr>rg_env := e\<rparr> in
                if st \<noteq> 0 then (Error kBuildFailed ''runtime kernel preparation failed'', no_pool g1)
                else prepare_nodes backend ns g1))"

definition choose_workers :: "('b, 'd) RuntimeGraph \<Rightarrow> ('b, 'd) RuntimeGraph" where
  "choose_workers g =
     (if rg_mode g = kSerialGraph then no_pool g
      else (let workers = min (max 1 (rg_threads g)) (length (rg_nodes g)) in
            if workers \<le> 1 then no_pool g else g\<lparr>rg_worker_count := workers, rg_pool := True\<rparr>))"

definition FinalizeStatus :: "'b BackendContext \<Rightarrow> ('b, 'd) RuntimeGraph \<Rightarrow> status \<times> ('b, 'd) RuntimeGraph" where
  "FinalizeStatus backend g =
     (if rg_locked g then (Error kInvalidArgument ''session graph is already finalized'', g)
      else
        (let g0 = g\<lparr>rg_finalized := False\<rparr>; bindings = CheckTensorBindings g0 in
         if \<not> ok bindings then (bindings, g0)
         else
           (let (built, g1) = BuildDependencies g0 in
            if built \<noteq> 0
            then (Error kBuildFailed ''runtime graph dependency construction failed'', no_pool g1)
            else
              (let g2 = collect_effects g1;
                   effects = ValidateOperatorEffects (x_world (rg_env g2)) (x_heap (rg_env g2)) (rg_effect_nodes g2)
                     (rg_tensor g2) (Some (rg_effect_inputs g2)) (rg_effect_outputs g2) (rg_mode g2 = kSerialGraph)
               in if \<not> ok effects then (effects, g2)
                  else
                    (let (prepared, g3) = prepare_nodes backend (rg_nodes g2) (mark_states backend g2) in
                     if \<not> ok prepared then (prepared, g3)
                     else (Ok, choose_workers ((CaptureTensorBindings g3)\<lparr>rg_finalized := True\<rparr>)))))))"

section \<open>Running one node\<close>

definition ShouldKeepTensorDevice ::
  "'b BackendContext \<Rightarrow> ('b, 'd) RuntimeGraph \<Rightarrow> string \<Rightarrow> nat option \<Rightarrow> bool" where
  "ShouldKeepTensorDevice backend g value_name tensor =
     (case tensor of None \<Rightarrow> True
      | Some p \<Rightarrow> value_name \<in> set (rg_output_names g) \<or> p \<in> rg_output_ptrs g \<or> IsPersistent backend p (rg_env g))"

definition release_value :: "'b BackendContext \<Rightarrow> nat \<Rightarrow> ('b, 'd) RuntimeGraph \<Rightarrow> ('b, 'd) RuntimeGraph" where
  "release_value backend v g =
     (case rg_uses g v of None \<Rightarrow> g
      | Some n \<Rightarrow>
          if n = 0 then g
          else
            (let g1 = g\<lparr>rg_uses := (rg_uses g)(v \<mapsto> n - 1)\<rparr> in
             if n - 1 \<noteq> 0 \<or> v \<ge> length (rg_value_names g1) then g1
             else (let name = rg_value_names g1 ! v; tensor = rg_tensor g1 name in
                   if ShouldKeepTensorDevice backend g1 name tensor then g1
                   else case tensor of None \<Rightarrow> g1 | Some p \<Rightarrow> map_env (Release backend p) g1)))"

definition ReleaseUnusedInputs :: "'b BackendContext \<Rightarrow> 'b RuntimeNode \<Rightarrow> ('b, 'd) RuntimeGraph \<Rightarrow> ('b, 'd) RuntimeGraph" where
  "ReleaseUnusedInputs backend node g = fold (release_value backend) (rn_input_ids node) g"

fun prepare_inputs ::
  "'b BackendContext \<Rightarrow> string \<Rightarrow> string list \<Rightarrow> ('b, 'd) RuntimeGraph \<Rightarrow> int \<times> ('b, 'd) RuntimeGraph" where
  "prepare_inputs backend node_name [] g = (0, g)"
| "prepare_inputs backend node_name (v # vs) g =
     (case rg_tensor g v of
        None \<Rightarrow> prepare_inputs backend node_name vs g
      | Some p \<Rightarrow>
          if \<not> IsInitialized (x_world (rg_env g)) (tensor_of g p) then prepare_inputs backend node_name vs g
          else (let (st, e) = ReadHost backend p (rg_env g); g1 = g\<lparr>rg_env := e\<rparr> in
                if \<not> ok st
                then (-1, g1\<lparr>rg_status := WithContext st (''prepare node='' @ node_name @ '' input='' @ v)\<rparr>)
                else prepare_inputs backend node_name vs g1))"

definition PrepareNodeForRun ::
  "'b BackendContext \<Rightarrow> 'b RuntimeNode \<Rightarrow> ('b, 'd) RuntimeGraph \<Rightarrow> int \<times> ('b, 'd) RuntimeGraph" where
  "PrepareNodeForRun backend node g =
     (if \<not> cap_host_memory (Capabilities backend (rn_device node)) then (0, g)
      else prepare_inputs backend (rn_name node) (rn_inputs node) g)"

definition FinalizeNodeRun ::
  "'b BackendContext \<Rightarrow> 'b RuntimeNode \<Rightarrow> int \<Rightarrow> ('b, 'd) RuntimeGraph \<Rightarrow> int \<times> ('b, 'd) RuntimeGraph" where
  "FinalizeNodeRun backend node status g =
     (if status \<noteq> 0 \<or> \<not> cap_host_memory (Capabilities backend (rn_device node)) then (status, g)
      else (status, fold (\<lambda>p. map_env (HostWritten backend p))
              (List.map_filter (rg_tensor g) (rn_outputs node) @ written_tensors g node) g))"

text \<open>\<open>RuntimeNode::Run\<close> with the support test before it; a throw is caught and becomes a status.\<close>

definition execute_kernel :: "'b RuntimeNode \<Rightarrow> ('b, 'd) RuntimeGraph \<Rightarrow> int \<times> ('b, 'd) RuntimeGraph" where
  "execute_kernel node g =
     (let fail = (\<lambda>e msg. (-1, g\<lparr>rg_env := e,
                    rg_status := Error kExecutionFailed (''node='' @ rn_name node @ '' op='' @ rn_op_type node @ '': '' @ msg)\<rparr>)) in
      case rn_kernel node of None \<Rightarrow> (-1, g)
      | Some k \<Rightarrow>
          (case k_supports k (rg_env g) of
             Inl msg \<Rightarrow> fail (rg_env g) msg
           | Inr supported \<Rightarrow>
               if \<not> ok supported
               then (-1, g\<lparr>rg_status := WithContext supported (''node='' @ rn_name node @ '' op='' @ rn_op_type node)\<rparr>)
               else if \<not> k_owns_param k then (-1, g)
               else (case k_compute k (rg_env g) of
                       (Inl msg, e) \<Rightarrow> fail e msg
                     | (Inr st, e) \<Rightarrow> (st, g\<lparr>rg_env := e\<rparr>))))"

definition note_failure :: "string \<Rightarrow> ('b, 'd) RuntimeGraph \<Rightarrow> ('b, 'd) RuntimeGraph" where
  "note_failure msg g = (if ok (rg_status g) then g\<lparr>rg_status := Error kExecutionFailed msg\<rparr> else g)"

definition device_number :: "DeviceType \<Rightarrow> nat" where
  "device_number d = (case d of UNKNOWN_DEVICE \<Rightarrow> 0 | COMMON \<Rightarrow> 1 | X86 \<Rightarrow> 2 | ARM32 \<Rightarrow> 3 | ARM64 \<Rightarrow> 4 | CUDA \<Rightarrow> 5 | ASCEND \<Rightarrow> 6)"

definition RunNode ::
  "'d double_ops \<Rightarrow> (nat \<Rightarrow> 'd) \<Rightarrow> 'b BackendContext \<Rightarrow> nat \<Rightarrow> ('b, 'd) RuntimeGraph \<Rightarrow> int \<times> ('b, 'd) RuntimeGraph" where
  "RunNode D elapsed backend i g =
     (if i \<ge> length (rg_nodes g) then (-1, g)
      else
        (let node = rg_nodes g ! i;
             (st1, g1) = PrepareNodeForRun backend node g;
             (st2, g2) = (if st1 = 0 then execute_kernel node g1 else (st1, g1));
             (st3, g3) = FinalizeNodeRun backend node st2 g2;
             (st4, g4) = (if rg_profiling g3 \<and> st3 = 0
                          then if \<not> cap_host_memory (Capabilities backend (rn_device node))
                               then (let (s, e) = Synchronize backend (rg_env g3)
                                     in (if ok s then 0 else -1, g3\<lparr>rg_env := e\<rparr>))
                               else (0, g3)
                          else (st3, g3));
             g5 = (if st4 = 0 then ReleaseUnusedInputs backend node g4
                   else note_failure (''node='' @ rn_name node @ '' op='' @ rn_op_type node @ '' device='' @
                          to_string (device_number (rn_device node))) g4)
         in (st4, RecordNodeProfile D (rn_name node) (rn_op_type node) (elapsed i) g5)))"

section \<open>Running the graph serially\<close>

text \<open>
  After a node has run its successors count one dependency less; a counter already at zero ends
  the run with an error (the left result), with the counters as they are by then.
\<close>

definition count_down :: "nat \<Rightarrow> ('b, 'd) RuntimeGraph \<Rightarrow> ('b, 'd) RuntimeGraph" where
  "count_down u g = g\<lparr>rg_nodes := (rg_nodes g)[u := (rg_nodes g ! u)\<lparr>rn_pending := rn_pending (rg_nodes g ! u) - 1\<rparr>]\<rparr>"

fun finish_node ::
  "nat list \<Rightarrow> ('b, 'd) RuntimeGraph \<times> nat list \<Rightarrow> ('b, 'd) RuntimeGraph + ('b, 'd) RuntimeGraph \<times> nat list" where
  "finish_node [] s = Inr s"
| "finish_node (u # us) (g, ready) =
     (if rn_pending (rg_nodes g ! u) = 0 then Inl g
      else (let g' = count_down u g
            in finish_node us (g', if rn_pending (rg_nodes g' ! u) = 0 then pq_push u ready else ready)))"

text \<open>
  The loop of the serial branch, over the function that runs a node; every iteration takes a
  node off the queue, and the counters let a node in at most once, so the number of nodes bounds
  the iterations.  \<open>None\<close> says that the bound was not enough.
\<close>

fun serial_loop ::
  "(nat \<Rightarrow> ('b, 'd) RuntimeGraph \<Rightarrow> int \<times> ('b, 'd) RuntimeGraph) \<Rightarrow> nat \<Rightarrow> nat list \<Rightarrow> nat \<Rightarrow>
   ('b, 'd) RuntimeGraph \<Rightarrow> (int \<times> ('b, 'd) RuntimeGraph) option" where
  "serial_loop run fuel [] completed g = Some (if completed = length (rg_nodes g) then 0 else -1, g)"
| "serial_loop run 0 (i # ready) completed g = None"
| "serial_loop run (Suc fuel) (i # ready) completed g =
     (let (st, g1) = run i g in
      if st \<noteq> 0 then Some (st, g1)
      else case finish_node (rn_succs (rg_nodes g1 ! i)) (g1, ready) of
             Inl g2 \<Rightarrow> Some (-1, g2)
           | Inr (g2, ready') \<Rightarrow> serial_loop run fuel ready' (Suc completed) g2)"

definition ready_nodes :: "'b RuntimeNode list \<Rightarrow> nat list" where
  "ready_nodes nodes = initial_ready pq_push [] (map rn_pending nodes)"

text \<open>
  \<open>RunSerial\<close> chooses its branch by the worker pool.  The outcome of the parallel branch depends
  on the interleaving of the workers, so it is an argument here; its scheduler is a step relation
  below.
\<close>

definition RunSerial ::
  "(('b, 'd) RuntimeGraph \<Rightarrow> (int \<times> ('b, 'd) RuntimeGraph) option) \<Rightarrow>
   (nat \<Rightarrow> ('b, 'd) RuntimeGraph \<Rightarrow> int \<times> ('b, 'd) RuntimeGraph) \<Rightarrow> ('b, 'd) RuntimeGraph \<Rightarrow>
   (int \<times> ('b, 'd) RuntimeGraph) option" where
  "RunSerial parallel run g =
     (if length (rg_nodes g) < 2 \<or> rg_worker_count g = 1 \<or> \<not> rg_pool g
      then serial_loop run (length (rg_nodes g)) (ready_nodes (rg_nodes g)) 0 g
      else parallel g)"

definition runtime_refusal :: "('b, 'd) RuntimeGraph \<Rightarrow> 'b RuntimeNode \<Rightarrow> status" where
  "runtime_refusal g n =
     (case rn_semantics n of None \<Rightarrow> Ok
      | Some s \<Rightarrow> (case validate_runtime s of None \<Rightarrow> Ok
          | Some f \<Rightarrow> WithContext (f (x_world (rg_env g)) (map (\<lambda>v. map_option (tensor_of g) (rg_tensor g v)) (rn_inputs n)))
                       (''preflight node='' @ rn_name n)))"

definition RunStatus ::
  "'d double_ops \<Rightarrow> (nat \<Rightarrow> 'd) \<Rightarrow> 'b BackendContext \<Rightarrow> (('b, 'd) RuntimeGraph \<Rightarrow> (int \<times> ('b, 'd) RuntimeGraph) option) \<Rightarrow>
   ('b, 'd) RuntimeGraph \<Rightarrow> (status \<times> ('b, 'd) RuntimeGraph) option" where
  "RunStatus D elapsed backend parallel g =
     (if \<not> rg_finalized g
      then Some (Error kBuildFailed ''runtime graph must be finalized before execution'', g)
      else
        (let (checked, g1) = CheckRuntimeStatus g in
         if \<not> ok checked then Some (checked, g1)
         else
           (let effects = ValidateOperatorBindings (x_world (rg_env g1)) (x_heap (rg_env g1)) (rg_effect_nodes g1)
                            (rg_tensor g1) (Some (rg_effect_inputs g1)) in
            if \<not> ok effects then Some (WithContext effects ''execution preflight'', g1)
            else case find (\<lambda>n. \<not> ok (runtime_refusal g1 n)) (rg_nodes g1) of
                   Some n \<Rightarrow> Some (runtime_refusal g1 n, g1)
                 | None \<Rightarrow>
                     (let g2 = (ResetRemainingUses (ResetPendingDependencies g1))\<lparr>rg_status := Ok\<rparr> in
                      map_option (\<lambda>(st, g3).
                          (if st = 0 then Ok
                           else if ok (rg_status g3) then Error kExecutionFailed ''runtime graph execution failed''
                           else rg_status g3, g3))
                        (RunSerial parallel (RunNode D elapsed backend) g2)))))"

section \<open>Running the graph on a worker pool\<close>

text \<open>
  The parallel branch: the calling thread launches ready nodes while a worker is free, then waits
  for the launched batch; a worker that has run its node takes the lock, counts it and releases its
  successors.  A failing node, or a successor already at zero, sets \<open>error_status\<close>.  The outcome
  of a node is arbitrary; what a run with an underflowing counter does to the counters is too.  \<open>par_done\<close> lists the completed nodes in the order of their completion,
  \<open>par_log\<close> each start with what was completed then.
\<close>

record par_state =
  par_pending :: "nat list"
  par_ready :: "nat list"
  par_flight :: "nat list"
  par_done :: "nat list"
  par_error :: bool
  par_waiting :: bool
  par_log :: "(nat \<times> nat set) list"

definition par_start :: "nat list \<Rightarrow> par_state" where
  "par_start pending = \<lparr>par_pending = pending, par_ready = initial_ready fifo_push [] pending, par_flight = [],
     par_done = [], par_error = False, par_waiting = False, par_log = []\<rparr>"

inductive par_step :: "nat list list \<Rightarrow> nat \<Rightarrow> par_state \<Rightarrow> par_state \<Rightarrow> bool" for users workers where
  launch: "\<not> par_waiting s \<Longrightarrow> \<not> par_error s \<Longrightarrow> par_ready s = i # q \<Longrightarrow> length (par_flight s) < workers \<Longrightarrow>
     par_step users workers s (s\<lparr>par_ready := q, par_flight := par_flight s @ [i],
                                 par_log := par_log s @ [(i, set (par_done s))]\<rparr>)"
| wait: "\<not> par_waiting s \<Longrightarrow> \<not> par_error s \<Longrightarrow> par_ready s = [] \<or> workers \<le> length (par_flight s) \<Longrightarrow>
     par_flight s \<noteq> [] \<Longrightarrow> par_step users workers s (s\<lparr>par_waiting := True\<rparr>)"
| finish: "par_waiting s \<Longrightarrow> i \<in> set (par_flight s) \<Longrightarrow>
     (\<And>u. count_list (users ! i) u \<le> par_pending s ! u) \<Longrightarrow>
     release fifo_push (users ! i) (par_pending s, par_ready s) = (pending', ready') \<Longrightarrow>
     par_step users workers s (s\<lparr>par_flight := remove1 i (par_flight s), par_done := par_done s @ [i],
                                 par_pending := pending', par_ready := ready'\<rparr>)"
| underflow: "par_waiting s \<Longrightarrow> i \<in> set (par_flight s) \<Longrightarrow>
     par_pending s ! u < count_list (users ! i) u \<Longrightarrow>
     par_step users workers s (s\<lparr>par_flight := remove1 i (par_flight s), par_done := par_done s @ [i],
                                 par_pending := pending', par_ready := ready', par_error := True\<rparr>)"
| fail: "par_waiting s \<Longrightarrow> i \<in> set (par_flight s) \<Longrightarrow>
     par_step users workers s (s\<lparr>par_flight := remove1 i (par_flight s), par_error := True\<rparr>)"
| resume: "par_waiting s \<Longrightarrow> par_flight s = [] \<Longrightarrow> par_step users workers s (s\<lparr>par_waiting := False\<rparr>)"


section \<open>The dependency tables\<close>

lemma note_producers_iff:
  "foldR (note_producer i) xs P = Inr P' \<longleftrightarrow>
     distinct xs \<and> (\<forall>x \<in> set xs. P x = None) \<and> P' = (\<lambda>x. if x \<in> set xs then Some i else P x)"
  by (induction xs arbitrary: P) (auto simp: note_producer_def fun_eq_iff)

definition noted :: "'b RuntimeNode list \<Rightarrow> nat \<Rightarrow> string set \<times> (nat \<rightharpoonup> nat) \<times> 'b RuntimeNode list \<Rightarrow> bool" where
  "noted N k s \<longleftrightarrow>
     distinct (map rn_name (take k N)) \<and> [] \<notin> set (map rn_name (take k N)) \<and>
     distinct (concat (map rn_output_ids (take k N))) \<and>
     fst s = set (map rn_name (take k N)) \<and> snd (snd s) = map clear_edges (take k N) @ drop k N \<and>
     (\<forall>v p. fst (snd s) v = Some p \<longleftrightarrow> p < k \<and> v \<in> set (rn_output_ids (N ! p)))"

lemma clear_edges_sel [simp]:
  "rn_name (clear_edges n) = rn_name n" "rn_output_ids (clear_edges n) = rn_output_ids n"
  "rn_input_ids (clear_edges n) = rn_input_ids n" "rn_inputs (clear_edges n) = rn_inputs n"
  "rn_outputs (clear_edges n) = rn_outputs n" "rn_kernel (clear_edges n) = rn_kernel n"
  by (simp_all add: clear_edges_def)

lemma outputs_taken:
  assumes "k \<le> length N"
  shows "v \<in> set (concat (map rn_output_ids (take k N))) \<longleftrightarrow> (\<exists>p < k. v \<in> set (rn_output_ids (N ! p)))"
proof -
  have "set (take k N) = (\<lambda>p. N ! p) ` {0..<k}" using nth_image[OF assms] by simp
  then show ?thesis by auto
qed

lemma note_rt_node_iff:
  assumes k: "k < length N" and n: "noted N k s"
  shows "(\<exists>t. note_rt_node k s = Inr t \<and> noted N (Suc k) t) \<longleftrightarrow>
     distinct (map rn_name (take (Suc k) N)) \<and> [] \<notin> set (map rn_name (take (Suc k) N)) \<and>
     distinct (concat (map rn_output_ids (take (Suc k) N)))"
    and "note_rt_node k s = Inr t \<Longrightarrow> noted N (Suc k) t"
proof -
  obtain S P M where s: "s = (S, P, M)" by (cases s) auto
  have S: "S = set (map rn_name (take k N))" and M: "M = map clear_edges (take k N) @ drop k N"
    and P: "\<And>v p. P v = Some p \<longleftrightarrow> p < k \<and> v \<in> set (rn_output_ids (N ! p))"
    and d: "distinct (map rn_name (take k N))" "[] \<notin> set (map rn_name (take k N))"
      "distinct (concat (map rn_output_ids (take k N)))"
    using n by (auto simp: noted_def s)
  let ?M = "M[k := clear_edges (M ! k)]"
  have Mk: "M ! k = N ! k" using k by (simp add: M nth_append)
  have M': "?M = map clear_edges (take (Suc k) N) @ drop (Suc k) N"
    using k unfolding Mk unfolding M
    by (simp add: take_Suc_conv_app_nth list_update_append Cons_nth_drop_Suc[symmetric])
  have "k < length M" using k by (simp add: M)
  then have "?M ! k = clear_edges (M ! k)" by (rule nth_list_update_eq)
  then have nth: "?M ! k = clear_edges (N ! k)" unfolding Mk .
  have tk: "take (Suc k) N = take k N @ [N ! k]" using k by (rule take_Suc_conv_app_nth)
  have none: "P v = None \<longleftrightarrow> v \<notin> set (concat (map rn_output_ids (take k N)))" for v
  proof -
    have "(\<exists>p. P v = Some p) \<longleftrightarrow> v \<in> set (concat (map rn_output_ids (take k N)))"
      using P outputs_taken[of k N v] k by simp
    then show ?thesis by (cases "P v") auto
  qed
  have P': "(if v \<in> set (rn_output_ids (N ! k)) then Some k else P v) = Some p \<longleftrightarrow>
      p < Suc k \<and> v \<in> set (rn_output_ids (N ! p))" if "\<forall>x \<in> set (rn_output_ids (N ! k)). P x = None" for v p
    using P[of v p] that by (auto simp: less_Suc_eq)
  have fresh: "(\<forall>x \<in> set (rn_output_ids (N ! k)). P x = None) \<longleftrightarrow>
      set (concat (map rn_output_ids (take k N))) \<inter> set (rn_output_ids (N ! k)) = {}"
    using none by blast
  have run: "note_rt_node k s = Inr t \<longleftrightarrow> rn_name (N ! k) \<noteq> [] \<and> rn_name (N ! k) \<notin> S \<and>
      distinct (rn_output_ids (N ! k)) \<and> (\<forall>x \<in> set (rn_output_ids (N ! k)). P x = None) \<and>
      t = (insert (rn_name (N ! k)) S, \<lambda>v. if v \<in> set (rn_output_ids (N ! k)) then Some k else P v, ?M)" for t
  proof (cases "foldR (note_producer k) (rn_output_ids (N ! k)) P")
    case (Inl a)
    have "\<not> (distinct (rn_output_ids (N ! k)) \<and> (\<forall>x \<in> set (rn_output_ids (N ! k)). P x = None))"
      using note_producers_iff[of k "rn_output_ids (N ! k)" P] unfolding Inl by blast
    then show ?thesis unfolding s note_rt_node_def Let_def prod.case nth clear_edges_sel Inl sum.case by auto
  next
    case (Inr P')
    have "distinct (rn_output_ids (N ! k)) \<and> (\<forall>x \<in> set (rn_output_ids (N ! k)). P x = None) \<and>
        P' = (\<lambda>x. if x \<in> set (rn_output_ids (N ! k)) then Some k else P x)"
      using note_producers_iff[of k "rn_output_ids (N ! k)" P P'] unfolding Inr by blast
    then show ?thesis unfolding s note_rt_node_def Let_def prod.case nth clear_edges_sel Inr sum.case by auto
  qed
  have step: "noted N (Suc k) t" if r: "note_rt_node k s = Inr t" for t
  proof -
    from r have c: "rn_name (N ! k) \<noteq> []" "rn_name (N ! k) \<notin> S" "distinct (rn_output_ids (N ! k))"
      "\<forall>x \<in> set (rn_output_ids (N ! k)). P x = None"
      "t = (insert (rn_name (N ! k)) S, \<lambda>v. if v \<in> set (rn_output_ids (N ! k)) then Some k else P v, ?M)"
      unfolding run by auto
    show ?thesis
      unfolding noted_def c(5) fst_conv snd_conv M' P'[OF c(4)]
      using c(1-3) d S fresh c(4) by (auto simp: tk)
  qed
  then show "note_rt_node k s = Inr t \<Longrightarrow> noted N (Suc k) t" for t by blast
  show "(\<exists>t. note_rt_node k s = Inr t \<and> noted N (Suc k) t) \<longleftrightarrow>
     distinct (map rn_name (take (Suc k) N)) \<and> [] \<notin> set (map rn_name (take (Suc k) N)) \<and>
     distinct (concat (map rn_output_ids (take (Suc k) N)))" (is "?L \<longleftrightarrow> ?R")
  proof
    assume ?L
    then show ?R unfolding noted_def by blast
  next
    assume ?R
    then have "rn_name (N ! k) \<noteq> []" "rn_name (N ! k) \<notin> S" "distinct (rn_output_ids (N ! k))"
      "\<forall>x \<in> set (rn_output_ids (N ! k)). P x = None"
      unfolding fresh by (auto simp: tk S)
    then show ?L using run step by blast
  qed
qed


lemma note_nodes:
  assumes "k \<le> length N"
  shows "(\<exists>t. foldR note_rt_node [0..<k] ({}, Map.empty, N) = Inr t) \<longleftrightarrow>
     distinct (map rn_name (take k N)) \<and> [] \<notin> set (map rn_name (take k N)) \<and>
     distinct (concat (map rn_output_ids (take k N)))"
    and "foldR note_rt_node [0..<k] ({}, Map.empty, N) = Inr t \<Longrightarrow> noted N k t"
  using assms
proof (induction k arbitrary: t)
  case 0
  {
    case 1
    then show ?case by simp
  next
    case 2
    then show ?case by (auto simp: noted_def)
  }
next
  case (Suc k)
  {
    case 2
    from 2(1) obtain u where u: "foldR note_rt_node [0..<k] ({}, Map.empty, N) = Inr u" "note_rt_node k u = Inr t"
      unfolding upt_Suc_append[OF le0] foldR_snoc by (cases "foldR note_rt_node [0..<k] ({}, Map.empty, N)") auto
    have "noted N k u" using Suc.IH(2)[OF u(1)] 2(2) by simp
    then show ?case using note_rt_node_iff(2)[OF _ _ u(2)] 2(2) by simp
  next
    case 1
    have tk: "take (Suc k) N = take k N @ [N ! k]" using 1 by (intro take_Suc_conv_app_nth) simp
    show ?case (is "?L \<longleftrightarrow> ?R")
    proof
      assume ?L
      then obtain t where "foldR note_rt_node [0..<Suc k] ({}, Map.empty, N) = Inr t" ..
      then obtain u where u: "foldR note_rt_node [0..<k] ({}, Map.empty, N) = Inr u" "note_rt_node k u = Inr t"
        unfolding upt_Suc_append[OF le0] foldR_snoc by (cases "foldR note_rt_node [0..<k] ({}, Map.empty, N)") auto
      have "noted N k u" using Suc.IH(2)[OF u(1)] 1 by simp
      then have "noted N (Suc k) t" using note_rt_node_iff(2)[OF _ _ u(2)] 1 by simp
      then show ?R unfolding noted_def by blast
    next
      assume R: ?R
      then have "distinct (map rn_name (take k N)) \<and> [] \<notin> set (map rn_name (take k N)) \<and>
          distinct (concat (map rn_output_ids (take k N)))" by (auto simp: tk)
      then obtain u where u: "foldR note_rt_node [0..<k] ({}, Map.empty, N) = Inr u" using Suc.IH(1) 1 by auto
      have "noted N k u" using Suc.IH(2)[OF u] 1 by simp
      then obtain t where "note_rt_node k u = Inr t" using note_rt_node_iff(1)[of k N u] R 1 by auto
      then show ?L using u unfolding upt_Suc_append[OF le0] foldR_snoc by blast
    qed
  }
qed

lemma link_values_iff:
  "foldR (link_value g P) xs es = Inr es' \<longleftrightarrow>
     (\<forall>e \<in> set xs. snd e < length (rg_value_names g) \<and>
        (case P (snd e) of None \<Rightarrow> rg_tensor g (rg_value_names g ! snd e) \<noteq> None | Some p \<Rightarrow> p \<noteq> fst e)) \<and>
     es' = es @ map (\<lambda>e. (the (P (snd e)), fst e)) (filter (\<lambda>e. P (snd e) \<noteq> None) xs)"
  by (induction xs arbitrary: es) (auto simp: link_value_def split: option.splits)

lemma rt_inputs_mem:
  "(i, v) \<in> set (rt_inputs nodes) \<longleftrightarrow> i < length nodes \<and> v \<in> set (rn_input_ids (nodes ! i))"
proof -
  have "(i, v) \<in> set (rt_inputs nodes) \<longleftrightarrow>
      (\<exists>e \<in> set (enumerate 0 nodes). fst e = i \<and> v \<in> set (rn_input_ids (snd e)))"
    by (auto simp: rt_inputs_def)
  also have "\<dots> \<longleftrightarrow> i < length nodes \<and> v \<in> set (rn_input_ids (nodes ! i))"
    by (auto simp: in_set_enumerate_eq Bex_def)
  finally show ?thesis .
qed

lemma with_edges_tables:
  assumes "set es \<subseteq> {..<length nodes} \<times> {..<length nodes}"
  defines "m \<equiv> set_pending (with_edges es nodes)"
  shows "map rn_succs m = snd (edge_tables (length nodes) es)"
    and "map rn_pending m = fst (edge_tables (length nodes) es)"
proof -
  have nth: "i < length nodes \<Longrightarrow> m ! i = (nodes ! i)\<lparr>rn_preds := map fst (filter (\<lambda>e. snd e = i) es),
      rn_succs := map snd (filter (\<lambda>e. fst e = i) es), rn_pending := length (filter (\<lambda>e. snd e = i) es)\<rparr>" for i
    by (simp add: m_def set_pending_def with_edges_def nth_enumerate_eq)
  have len: "length m = length nodes" by (simp add: m_def set_pending_def with_edges_def)
  show "map rn_succs m = snd (edge_tables (length nodes) es)"
    by (rule nth_equalityI) (use len nth edge_tables_values[OF assms(1)] in simp_all)
  show "map rn_pending m = fst (edge_tables (length nodes) es)"
    by (rule nth_equalityI) (use len nth edge_tables_values[OF assms(1)] in simp_all)
qed

text \<open>The dependency relation: a consumer after the producer of each value it reads.\<close>

definition rt_depends :: "'b RuntimeNode list \<Rightarrow> (nat \<times> nat) set" where
  "rt_depends nodes = {(p, i). p < length nodes \<and> i < length nodes \<and>
     (\<exists>v. v \<in> set (rn_output_ids (nodes ! p)) \<and> v \<in> set (rn_input_ids (nodes ! i)))}"

definition runnable_graph :: "('b, 'd) RuntimeGraph \<Rightarrow> bool" where
  "runnable_graph g \<longleftrightarrow>
     distinct (map rn_name (rg_nodes g)) \<and> [] \<notin> set (map rn_name (rg_nodes g)) \<and>
     distinct (concat (map rn_output_ids (rg_nodes g))) \<and>
     (\<forall>n \<in> set (rg_nodes g). \<forall>v \<in> set (rn_input_ids n). v < length (rg_value_names g) \<and>
        (v \<notin> set (concat (map rn_output_ids (rg_nodes g))) \<longrightarrow> rg_tensor g (rg_value_names g ! v) \<noteq> None)) \<and>
     acyclic (rt_depends (rg_nodes g))"

definition tables_ok :: "('b, 'd) RuntimeGraph \<Rightarrow> bool" where
  "tables_ok g \<longleftrightarrow> graph_ok (map rn_succs (rg_nodes g)) (map (\<lambda>n. length (rn_preds n)) (rg_nodes g)) \<and>
     edge (map rn_succs (rg_nodes g)) = rt_depends (rg_nodes g)"


lemma set_pending_counts: "map rn_pending (set_pending N) = map (\<lambda>n. length (rn_preds n)) (set_pending N)"
  by (simp add: set_pending_def)

lemma linked_edges:
  assumes n: "noted N (length N) (S, P, map clear_edges N)"
    and l: "foldR (link_value g P) (rt_inputs (map clear_edges N)) [] = Inr es"
  shows "set es = rt_depends N"
proof -
  have P: "P v = Some p \<longleftrightarrow> p < length N \<and> v \<in> set (rn_output_ids (N ! p))" for v p
    using n by (simp add: noted_def)
  have es: "es = map (\<lambda>e. (the (P (snd e)), fst e)) (filter (\<lambda>e. P (snd e) \<noteq> None) (rt_inputs (map clear_edges N)))"
    using l unfolding link_values_iff by simp
  have mem: "(i, v) \<in> set (rt_inputs (map clear_edges N)) \<longleftrightarrow> i < length N \<and> v \<in> set (rn_input_ids (N ! i))" for i v
    using rt_inputs_mem[of i v "map clear_edges N"] by auto
  have "(p, i) \<in> set es \<longleftrightarrow> (p, i) \<in> rt_depends N" for p i
  proof -
    have "(p, i) \<in> set es \<longleftrightarrow> (\<exists>v. (i, v) \<in> set (rt_inputs (map clear_edges N)) \<and> P v = Some p)"
      unfolding es by force
    also have "\<dots> \<longleftrightarrow> (p, i) \<in> rt_depends N" unfolding mem P rt_depends_def by auto
    finally show ?thesis .
  qed
  then show ?thesis by (auto simp: set_eq_iff)
qed

lemma links_succeed:
  assumes n: "noted N (length N) (S, P, map clear_edges N)"
  shows "(\<exists>es. foldR (link_value g P) (rt_inputs (map clear_edges N)) [] = Inr es) \<longleftrightarrow>
    (\<forall>m \<in> set N. \<forall>v \<in> set (rn_input_ids m). v < length (rg_value_names g) \<and>
        (v \<notin> set (concat (map rn_output_ids N)) \<longrightarrow> rg_tensor g (rg_value_names g ! v) \<noteq> None)) \<and>
    (\<forall>i. (i, i) \<notin> rt_depends N)" (is "?L \<longleftrightarrow> ?A \<and> ?B")
proof -
  have P: "P v = Some p \<longleftrightarrow> p < length N \<and> v \<in> set (rn_output_ids (N ! p))" for v p
    using n by (simp add: noted_def)
  have none: "P v = None \<longleftrightarrow> v \<notin> set (concat (map rn_output_ids N))" for v
    using P[of v] outputs_taken[of "length N" N v] by (cases "P v") auto
  have mem: "(i, v) \<in> set (rt_inputs (map clear_edges N)) \<longleftrightarrow> i < length N \<and> v \<in> set (rn_input_ids (N ! i))" for i v
    using rt_inputs_mem[of i v "map clear_edges N"] by auto
  let ?ok = "\<lambda>i v. v < length (rg_value_names g) \<and>
      (case P v of None \<Rightarrow> rg_tensor g (rg_value_names g ! v) \<noteq> None | Some p \<Rightarrow> p \<noteq> i)"
  have "?L \<longleftrightarrow> (\<forall>e \<in> set (rt_inputs (map clear_edges N)). ?ok (fst e) (snd e))"
    unfolding link_values_iff by blast
  also have "\<dots> \<longleftrightarrow> (\<forall>i v. i < length N \<and> v \<in> set (rn_input_ids (N ! i)) \<longrightarrow> ?ok i v)"
    by (simp only: Ball_def split_paired_All fst_conv snd_conv mem)
  also have "\<dots> \<longleftrightarrow> ?A \<and> ?B"
  proof
    assume L: "\<forall>i v. i < length N \<and> v \<in> set (rn_input_ids (N ! i)) \<longrightarrow> ?ok i v"
    have ?A
    proof (intro ballI)
      fix m v assume m: "m \<in> set N" "v \<in> set (rn_input_ids m)"
      then obtain i where "i < length N" "m = N ! i" by (auto simp: in_set_conv_nth)
      then have "?ok i v" using L m(2) by blast
      then show "v < length (rg_value_names g) \<and>
          (v \<notin> set (concat (map rn_output_ids N)) \<longrightarrow> rg_tensor g (rg_value_names g ! v) \<noteq> None)"
        unfolding none[symmetric] by auto
    qed
    moreover have ?B
    proof (intro allI notI)
      fix i assume "(i, i) \<in> rt_depends N"
      then obtain v where v: "i < length N" "v \<in> set (rn_output_ids (N ! i))" "v \<in> set (rn_input_ids (N ! i))"
        by (auto simp: rt_depends_def)
      then have "P v = Some i" unfolding P by simp
      moreover have "?ok i v" using L v by blast
      ultimately show False by simp
    qed
    ultimately show "?A \<and> ?B" ..
  next
    assume AB: "?A \<and> ?B"
    show "\<forall>i v. i < length N \<and> v \<in> set (rn_input_ids (N ! i)) \<longrightarrow> ?ok i v"
    proof (intro allI impI)
      fix i v assume iv: "i < length N \<and> v \<in> set (rn_input_ids (N ! i))"
      then have a: "v < length (rg_value_names g) \<and> (P v = None \<longrightarrow> rg_tensor g (rg_value_names g ! v) \<noteq> None)"
        unfolding none using AB nth_mem by blast
      have "p \<noteq> i" if "P v = Some p" for p
        using AB iv that unfolding P rt_depends_def by blast
      then show "?ok i v" using a by (cases "P v") auto
    qed
  qed
  finally show ?thesis .
qed

lemma rt_depends_bounded: "rt_depends N \<subseteq> {..<length N} \<times> {..<length N}"
  by (auto simp: rt_depends_def)

lemma rt_depends_same:
  assumes "map clear_edges M = map clear_edges N"
  shows "rt_depends M = rt_depends N"
proof -
  have len: "length M = length N" using map_eq_imp_length_eq[OF assms] .
  have "clear_edges (M ! i) = clear_edges (N ! i)" if "i < length N" for i
    using arg_cong[OF assms, of "\<lambda>xs. xs ! i"] that len by simp
  then have eq: "rn_output_ids (M ! i) = rn_output_ids (N ! i) \<and> rn_input_ids (M ! i) = rn_input_ids (N ! i)"
    if "i < length N" for i
    using that clear_edges_sel(2,3)[of "M ! i"] clear_edges_sel(2,3)[of "N ! i"] by metis
  show ?thesis unfolding rt_depends_def len by (auto simp: eq)
qed

lemma clear_edges_tables: "map clear_edges (set_pending (with_edges es (map clear_edges N))) = map clear_edges N"
  by (rule nth_equalityI) (auto simp: set_pending_def with_edges_def nth_enumerate_eq clear_edges_def)

text \<open>What \<open>BuildDependencies\<close> accepts and what it leaves behind.\<close>

lemma BuildDependencies_result:
  shows "fst (BuildDependencies g) = 0 \<longleftrightarrow> runnable_graph g"
    and "fst (BuildDependencies g) = 0 \<Longrightarrow> tables_ok (snd (BuildDependencies g)) \<and>
      snd (BuildDependencies g) = g\<lparr>rg_nodes := rg_nodes (snd (BuildDependencies g))\<rparr> \<and>
      map clear_edges (rg_nodes (snd (BuildDependencies g))) = map clear_edges (rg_nodes g)"
proof -
  let ?N = "rg_nodes g"
  let ?n = "length ?N"
  let ?names = "distinct (map rn_name ?N) \<and> [] \<notin> set (map rn_name ?N) \<and> distinct (concat (map rn_output_ids ?N))"
  let ?res = "fst (BuildDependencies g) = 0" and ?g = "snd (BuildDependencies g)"
  let ?C = "tables_ok ?g \<and> ?g = g\<lparr>rg_nodes := rg_nodes ?g\<rparr> \<and> map clear_edges (rg_nodes ?g) = map clear_edges ?N"
  have "(?res \<longleftrightarrow> runnable_graph g) \<and> (?res \<longrightarrow> ?C)"
  proof (cases "foldR note_rt_node [0..<?n] ({}, Map.empty, ?N)")
    case (Inl M)
    have "\<not> ?names" using note_nodes(1)[of ?n ?N] unfolding Inl by simp
    moreover have "\<not> ?res" unfolding BuildDependencies_def Inl sum.case by simp
    ultimately show ?thesis unfolding runnable_graph_def by blast
  next
    case (Inr t)
    obtain S P N0 where t: "t = (S, P, N0)" by (cases t) auto
    have names: ?names using iffD1[OF note_nodes(1)[OF order_refl, of ?N] exI[of "\<lambda>t. _ = Inr t", OF Inr]] by simp
    have nt0: "noted ?N ?n (S, P, N0)" using note_nodes(2)[OF order_refl Inr] unfolding t .
    then have N0: "N0 = map clear_edges ?N" by (simp add: noted_def)
    note nt = nt0[unfolded N0]
    show ?thesis
    proof (cases "foldR (link_value g P) (rt_inputs (map clear_edges ?N)) []")
      case (Inl es)
      have "\<not> ?res" unfolding BuildDependencies_def Inr t N0 sum.case prod.case Inl by simp
      moreover have "\<not> runnable_graph g"
        using links_succeed[OF nt, of g] unfolding Inl runnable_graph_def acyclic_def by blast
      ultimately show ?thesis by blast
    next
      case (Inr es)
      note link = this
      have es: "set es = rt_depends ?N" by (rule linked_edges[OF nt Inr])
      let ?M = "set_pending (with_edges es (map clear_edges ?N))"
      have b: "set es \<subseteq> {..<length (map clear_edges ?N)} \<times> {..<length (map clear_edges ?N)}"
        unfolding es using rt_depends_bounded by simp
      have tb: "map rn_succs ?M = snd (edge_tables ?n es)" "map rn_pending ?M = fst (edge_tables ?n es)"
        using with_edges_tables[OF b] by simp_all
      have ok: "graph_ok (map rn_succs ?M) (map rn_pending ?M)"
        unfolding tb using edge_tables_ok[of es ?n] b by simp
      have ed: "edge (map rn_succs ?M) = rt_depends ?N"
        unfolding tb using edge_tables_edge[of es ?n] b es by simp
      have len: "length ?M = ?n" by (simp add: set_pending_def with_edges_def)
      obtain order where order: "kahn_order fifo_push list_pop [] (map rn_succs ?M) (map rn_pending ?M) = Some order"
          "length order = length (map rn_succs ?M) \<longleftrightarrow> acyclic (edge (map rn_succs ?M))"
        using fifo.kahn_order_correct[OF ok] by blast
      have run: "BuildDependencies g = (if length order = length ?M then 0 else -1, g\<lparr>rg_nodes := ?M\<rparr>)"
        unfolding BuildDependencies_def \<open>foldR note_rt_node _ _ = _\<close> t N0 sum.case prod.case link Let_def order(1) option.case ..
      have "?res \<longleftrightarrow> acyclic (rt_depends ?N)" using order(2) len unfolding run ed by simp
      moreover have "runnable_graph g \<longleftrightarrow> acyclic (rt_depends ?N)"
        using links_succeed[OF nt, of g] names unfolding link runnable_graph_def acyclic_def by blast
      moreover have ?C
        unfolding run snd_conv
        using ok[unfolded set_pending_counts] ed rt_depends_same[OF clear_edges_tables[of es ?N]]
          clear_edges_tables[of es ?N]
        by (simp add: tables_ok_def)
      ultimately show ?thesis by blast
    qed
  qed
  then show "?res \<longleftrightarrow> runnable_graph g" "?res \<Longrightarrow> ?C" by blast+
qed

end
