(* ===== verification/Runtime_Schedule.thy ===== *)
theory Runtime_Schedule
  imports Runtime_Graph
begin

text \<open>
  What the runtime graph's runs deliver: the serial loop is the sequential execution of the nodes
  in a topological order; the worker pool starts a node only after everything it reads was
  produced, runs each node at most once, never underflows a counter and never gets stuck.
\<close>

section \<open>Serial execution\<close>

fun run_in_order ::
  "(nat \<Rightarrow> ('b, 'd) RuntimeGraph \<Rightarrow> int \<times> ('b, 'd) RuntimeGraph) \<Rightarrow> nat list \<Rightarrow>
   ('b, 'd) RuntimeGraph \<Rightarrow> int \<times> ('b, 'd) RuntimeGraph" where
  "run_in_order run [] g = (0, g)"
| "run_in_order run (i # is) g =
     (let (st, g1) = run i g in
      if st \<noteq> 0 then (st, g1)
      else run_in_order run is (fold count_down (rn_succs (rg_nodes g1 ! i)) g1))"

definition succs_of :: "('b, 'd) RuntimeGraph \<Rightarrow> nat list list" where
  "succs_of g = map rn_succs (rg_nodes g)"

definition pending_of :: "('b, 'd) RuntimeGraph \<Rightarrow> nat list" where
  "pending_of g = map rn_pending (rg_nodes g)"

lemma count_down_tables:
  "succs_of (count_down u g) = succs_of g"
  "pending_of (count_down u g) = (pending_of g)[u := pending_of g ! u - 1]" if "u < length (rg_nodes g)"
  using that
  by (auto simp: succs_of_def pending_of_def count_down_def intro!: nth_equalityI simp: nth_list_update)

lemma finish_node_release:
  assumes "set us \<subseteq> {..<length (rg_nodes g)}" and "\<And>u. u < length (rg_nodes g) \<Longrightarrow> count_list us u \<le> pending_of g ! u"
    and "release pq_push us (pending_of g, q) = (pending', q')"
  shows "finish_node us (g, q) = Inr (fold count_down us g, q') \<and>
    pending_of (fold count_down us g) = pending' \<and> succs_of (fold count_down us g) = succs_of g"
  using assms
proof (induction us arbitrary: g q)
  case Nil
  then show ?case by simp
next
  case (Cons u us)
  let ?n = "length (rg_nodes g)" let ?g = "count_down u g"
  have u: "u < ?n" and us: "set us \<subseteq> {..<?n}" using Cons.prems(1) by auto
  have nth: "pending_of g ! u = rn_pending (rg_nodes g ! u)" using u by (simp add: pending_of_def)
  have pos: "0 < pending_of g ! u" using Cons.prems(2)[OF u] by simp
  have tb: "succs_of ?g = succs_of g" "pending_of ?g = (pending_of g)[u := pending_of g ! u - 1]"
    using count_down_tables[OF u] u by auto
  have len: "length (rg_nodes ?g) = ?n" by (simp add: count_down_def)
  have nth': "rn_pending (rg_nodes ?g ! u) = pending_of g ! u - 1" using u nth by (simp add: count_down_def)
  have dec: "(pending_of g)[u := dec64 (pending_of g ! u)] = pending_of ?g" unfolding tb(2) using pos by simp
  have at: "pending_of ?g ! u = pending_of g ! u - 1" unfolding tb(2) using u by (simp add: pending_of_def)
  have run: "release pq_push us (pending_of ?g, if rn_pending (rg_nodes ?g ! u) = 0 then pq_push u q else q) = (pending', q')"
    using Cons.prems(3) unfolding release.simps dec Let_def at nth' .
  have cnt: "count_list us v \<le> pending_of ?g ! v" if "v < length (rg_nodes ?g)" for v
    using Cons.prems(2)[of v] that len u unfolding tb(2) by (auto simp: nth_list_update pending_of_def split: if_splits)
  have us': "set us \<subseteq> {..<length (rg_nodes ?g)}" unfolding len by (rule us)
  from Cons.IH[OF us' cnt run] pos
  show ?case unfolding finish_node.simps nth[symmetric] Let_def tb(1) by simp
qed

lemma kahn_extends: "kahn push pop users fuel pending q order = Some final \<Longrightarrow> \<exists>rest. final = order @ rest"
proof (induction push pop users fuel pending q order rule: kahn.induct)
  case 1
  then show ?case by (simp split: option.splits)
next
  case (2 push pop users fuel pending q order)
  show ?case
  proof (cases "pop q")
    case None
    then show ?thesis using 2(2) by simp
  next
    case (Some iq)
    obtain i q' where iq: "iq = (i, q')" by (cases iq)
    obtain p' q'' where r: "release push (users ! i) (pending, q') = (p', q'')" by fastforce
    have k: "kahn push pop users fuel p' q'' (order @ [i]) = Some final" using 2(2) Some iq r by simp
    from 2(1)[OF Some iq[symmetric] r[symmetric] refl k] show ?thesis by auto
  qed
qed

lemma serial_loop_order:
  assumes keeps: "\<And>i h. rg_nodes (snd (run i h)) = rg_nodes h"
    and "pq.kahn_inv (succs_of g) order (pending_of g) q"
    and "\<forall>p < length (succs_of g). set (succs_of g ! p) \<subseteq> {..<length (succs_of g)}"
    and "kahn pq_push list_pop (succs_of g) fuel (pending_of g) q order = Some final"
    and "length final = length (succs_of g)"
  shows "\<exists>rest. final = order @ rest \<and> serial_loop run fuel q (length order) g = Some (run_in_order run rest g)"
  using assms(2-5)
proof (induction fuel arbitrary: order q g)
  case 0
  then have q: "q = []" and f: "final = order" by (cases q; simp)+
  then show ?case using 0(4) by (simp add: succs_of_def)
next
  case (Suc fuel)
  show ?case
  proof (cases q)
    case Nil
    then have f: "final = order" using Suc.prems(3) by simp
    then show ?thesis using Suc.prems(4) Nil by (simp add: succs_of_def)
  next
    case (Cons i q1)
    have pop: "list_pop q = Some (i, q1)" using Cons by simp
    obtain st g1 where r: "run i g = (st, g1)" by fastforce
    have g1: "rg_nodes g1 = rg_nodes g" using keeps[of i g] unfolding r by simp
    then have t1: "succs_of g1 = succs_of g" "pending_of g1 = pending_of g" by (simp_all add: succs_of_def pending_of_def)
    let ?n = "length (rg_nodes g)"
    have n: "length (succs_of g) = ?n" "length (pending_of g) = ?n" by (simp_all add: succs_of_def pending_of_def)
    note i = pq.kahn_inv_pop[OF Suc.prems(1) pop]
    obtain pending' q' where rel: "release pq_push (succs_of g ! i) (pending_of g, q1) = (pending', q')" by fastforce
    have kahn: "kahn pq_push list_pop (succs_of g) fuel pending' q' (order @ [i]) = Some final"
      using Suc.prems(3) pop rel by simp
    obtain rest where rest: "final = (order @ [i]) @ rest" using kahn_extends[OF kahn] by blast
    show ?thesis
    proof (cases "st = 0")
      case False
      then show ?thesis using r rest Cons by (intro exI[of _ "i # rest"]) (simp add: Let_def)
    next
      case True
      have us: "set (succs_of g1 ! i) \<subseteq> {..<length (rg_nodes g1)}"
        using Suc.prems(2) i(1) n unfolding t1 g1 by simp
      have cnt: "count_list (succs_of g1 ! i) u \<le> pending_of g1 ! u" if "u < length (rg_nodes g1)" for u
        using i(6)[of u] that n unfolding t1 g1 by simp
      have nth: "rn_succs (rg_nodes g1 ! i) = succs_of g1 ! i" using i(1) n g1 by (simp add: succs_of_def)
      let ?g2 = "fold count_down (succs_of g1 ! i) g1"
      have fin: "finish_node (succs_of g1 ! i) (g1, q1) = Inr (?g2, q')" "pending_of ?g2 = pending'" "succs_of ?g2 = succs_of g"
        using finish_node_release[OF us cnt, of q1 pending' q'] rel unfolding t1 by auto
      have inv: "pq.kahn_inv (succs_of ?g2) (order @ [i]) (pending_of ?g2) q'"
        unfolding fin(2,3) using pq.kahn_inv_step[OF Suc.prems(1,2) pop rel] by blast
      obtain rest' where "final = (order @ [i]) @ rest'"
          "serial_loop run fuel q' (length (order @ [i])) ?g2 = Some (run_in_order run rest' ?g2)"
        using Suc.IH[OF inv] Suc.prems(2,4) kahn unfolding fin(2,3) by blast
      then show ?thesis using r Cons True fin(1) nth by (intro exI[of _ "i # rest'"]) (simp add: Let_def)
    qed
  qed
qed


text \<open>Running a node changes neither the nodes nor the names and bindings of the graph.\<close>

lemma map_env_sel [simp]:
  "rg_nodes (map_env f g) = rg_nodes g" "rg_uses (map_env f g) = rg_uses g"
  "rg_value_names (map_env f g) = rg_value_names g" "rg_tensors (map_env f g) = rg_tensors g"
  "rg_output_names (map_env f g) = rg_output_names g" "rg_output_ptrs (map_env f g) = rg_output_ptrs g"
  "rg_env (map_env f g) = f (rg_env g)" "rg_tensor (map_env f g) = rg_tensor g"
  by (simp_all add: map_env_def rg_tensor_def fun_eq_iff)

lemma fold_map_env: "fold (\<lambda>p. map_env (f p)) ps g = map_env (fold f ps) g"
  by (induction ps arbitrary: g) (simp_all add: map_env_def comp_def)

lemma release_value_nodes [simp]: "rg_nodes (release_value backend v g) = rg_nodes g"
  by (simp add: release_value_def Let_def split: option.splits)

lemma ReleaseUnusedInputs_nodes [simp]: "rg_nodes (ReleaseUnusedInputs backend node g) = rg_nodes g"
proof -
  have "rg_nodes (fold (release_value backend) vs g) = rg_nodes g" for vs
    by (induction vs arbitrary: g) simp_all
  then show ?thesis by (simp add: ReleaseUnusedInputs_def)
qed

lemma prepare_inputs_nodes: "rg_nodes (snd (prepare_inputs backend nm vs g)) = rg_nodes g"
proof (induction vs arbitrary: g)
  case Nil
  then show ?case by simp
next
  case (Cons v vs)
  show ?case
  proof (cases "rg_tensor g v")
    case None
    then show ?thesis using Cons by simp
  next
    case (Some p)
    obtain st e where r: "ReadHost backend p (rg_env g) = (st, e)" by fastforce
    show ?thesis using Cons[of g] Cons[of "g\<lparr>rg_env := e\<rparr>"] by (simp add: Some r Let_def)
  qed
qed

lemma RecordNodeProfile_nodes [simp]: "rg_nodes (RecordNodeProfile D nm ty el h) = rg_nodes h"
  by (simp add: RecordNodeProfile_def Let_def split: option.split)

lemma note_failure_nodes [simp]: "rg_nodes (note_failure m h) = rg_nodes h"
  by (simp add: note_failure_def)

lemma execute_kernel_nodes: "rg_nodes (snd (execute_kernel m h)) = rg_nodes h"
proof (cases "rn_kernel m")
  case None
  then show ?thesis by (simp add: execute_kernel_def)
next
  case (Some k)
  obtain r e where c: "k_compute k (rg_env h) = (r, e)" by fastforce
  show ?thesis
    by (cases "k_supports k (rg_env h)"; cases r) (simp_all add: execute_kernel_def Some c Let_def)
qed

lemma RunNode_nodes: "rg_nodes (snd (RunNode D elapsed backend i g)) = rg_nodes g"
proof (cases "i \<ge> length (rg_nodes g)")
  case True
  then show ?thesis by (simp add: RunNode_def)
next
  case False
  let ?n = "rg_nodes g ! i"
  obtain st1 g1 where 1: "PrepareNodeForRun backend ?n g = (st1, g1)" by fastforce
  obtain st2 g2 where 2: "(if st1 = 0 then execute_kernel ?n g1 else (st1, g1)) = (st2, g2)" by fastforce
  obtain st3 g3 where 3: "FinalizeNodeRun backend ?n st2 g2 = (st3, g3)" by fastforce
  obtain st4 g4 where 4: "(if rg_profiling g3 \<and> st3 = 0
      then if \<not> cap_host_memory (Capabilities backend (rn_device ?n))
           then (let (s, e) = Synchronize backend (rg_env g3) in (if ok s then 0 else -1, g3\<lparr>rg_env := e\<rparr>))
           else (0, g3)
      else (st3, g3)) = (st4, g4)" by fastforce
  have n1: "rg_nodes g1 = rg_nodes g"
    using 1 prepare_inputs_nodes[of backend "rn_name ?n" "rn_inputs ?n" g]
    by (auto simp: PrepareNodeForRun_def split: if_splits)
  have n2: "rg_nodes g2 = rg_nodes g"
    using 2 n1 execute_kernel_nodes[of ?n g1] by (cases "st1 = 0") auto
  have n3: "rg_nodes g3 = rg_nodes g"
    using 3 n2 by (auto simp: FinalizeNodeRun_def fold_map_env split: if_splits)
  have n4: "rg_nodes g4 = rg_nodes g"
    using 4 n3 by (auto simp: Let_def split: if_splits prod.splits)
  show ?thesis using False unfolding RunNode_def Let_def 1 prod.case 2 3 4[unfolded Let_def]
    by (simp add: n4)
qed

text \<open>Finalizing.\<close>

lemma prepare_nodes_only:
  "prepare_nodes backend ns g = (st, g') \<Longrightarrow>
     rg_nodes g' = rg_nodes g \<and> (ok st \<longrightarrow> (\<forall>n \<in> set ns. cap_supported (Capabilities backend (rn_device n)) \<and>
       (cap_parallel_nodes (Capabilities backend (rn_device n)) \<or> rg_mode g = kSerialGraph)) \<and> rg_mode g' = rg_mode g)"
proof (induction backend ns g arbitrary: st g' rule: prepare_nodes.induct)
  case (1 backend g)
  then show ?case by simp
next
  case (2 backend n ns g)
  let ?caps = "Capabilities backend (rn_device n)"
  show ?case
  proof (cases "\<not> cap_supported ?caps \<or> (\<not> cap_parallel_nodes ?caps \<and> rg_mode g \<noteq> kSerialGraph)")
    case True
    then show ?thesis using 2(3) by (auto simp: Let_def)
  next
    case False
    show ?thesis
    proof (cases "rn_kernel n")
      case None
      then show ?thesis using 2(1)[OF refl False None] 2(3) False by (auto simp: Let_def)
    next
      case (Some k)
      obtain s e where k: "k_prepare k (rg_env g) = (s, e)" by fastforce
      show ?thesis
      proof (cases "s = 0")
        case True
        then show ?thesis using 2(2)[OF refl False Some k[symmetric] refl] 2(3) Some k False
          by (auto simp: Let_def)
      next
        case s: False
        then show ?thesis using 2(3) Some k False by (auto simp: Let_def no_pool_def)
      qed
    qed
  qed
qed


lemma FinalizeStatusE:
  assumes "FinalizeStatus backend g = (st, g')" and "ok st"
  obtains "\<not> rg_locked g" "runnable_graph g" "tables_ok g'"
    "map clear_edges (rg_nodes g') = map clear_edges (rg_nodes g)" "rg_finalized g'"
    "\<And>n. n \<in> set (rg_nodes g') \<Longrightarrow> cap_supported (Capabilities backend (rn_device n)) \<and>
       (cap_parallel_nodes (Capabilities backend (rn_device n)) \<or> rg_mode g' = kSerialGraph)"
    "rg_mode g' = rg_mode g" "rg_mode g = kSerialGraph \<longrightarrow> rg_worker_count g' = 1 \<and> \<not> rg_pool g'"
    "rg_bindings_installed g'"
proof -
  let ?g0 = "g\<lparr>rg_finalized := False\<rparr>"
  have l: "\<not> rg_locked g" using assms by (auto simp: FinalizeStatus_def Let_def)
  have b: "ok (CheckTensorBindings ?g0)" using assms l by (auto simp: FinalizeStatus_def Let_def split: if_splits)
  obtain r g1 where B: "BuildDependencies ?g0 = (r, g1)" by fastforce
  have r: "r = 0" using assms l b B by (auto simp: FinalizeStatus_def Let_def split: if_splits)
  let ?g2 = "collect_effects g1"
  have e: "ok (ValidateOperatorEffects (x_world (rg_env ?g2)) (x_heap (rg_env ?g2)) (rg_effect_nodes ?g2)
      (rg_tensor ?g2) (Some (rg_effect_inputs ?g2)) (rg_effect_outputs ?g2) (rg_mode ?g2 = kSerialGraph))"
    using assms l b B r by (auto simp: FinalizeStatus_def Let_def split: if_splits)
  obtain pr g3 where P: "prepare_nodes backend (rg_nodes ?g2) (mark_states backend ?g2) = (pr, g3)" by fastforce
  have pr: "ok pr" and g': "g' = choose_workers ((CaptureTensorBindings g3)\<lparr>rg_finalized := True\<rparr>)"
    using assms l b B r e P by (auto simp: FinalizeStatus_def Let_def split: if_splits)
  from BuildDependencies_result[of ?g0] B r
  have run: "runnable_graph ?g0" and tb: "tables_ok g1" and g1: "g1 = ?g0\<lparr>rg_nodes := rg_nodes g1\<rparr>"
    and ce: "map clear_edges (rg_nodes g1) = map clear_edges (rg_nodes ?g0)"
    by auto
  have g1m: "rg_mode g1 = rg_mode g" using arg_cong[OF g1, of rg_mode] by simp
  have ms: "rg_nodes (mark_states backend ?g2) = rg_nodes g1" "rg_mode (mark_states backend ?g2) = rg_mode g"
    by (simp_all add: mark_states_def fold_map_env collect_effects_def g1m map_env_def)
  have g2n: "rg_nodes ?g2 = rg_nodes g1" by (simp add: collect_effects_def)
  note pn = prepare_nodes_only[OF P, unfolded ms g2n]
  have g3: "rg_nodes g3 = rg_nodes g1" "rg_mode g3 = rg_mode g" using pn pr by auto
  have nodes: "rg_nodes g' = rg_nodes g1" and mode: "rg_mode g' = rg_mode g" and final: "rg_finalized g'"
    and bi: "rg_bindings_installed g'"
    and wk: "rg_mode g = kSerialGraph \<longrightarrow> rg_worker_count g' = 1 \<and> \<not> rg_pool g'"
    using g3 by (auto simp: g' choose_workers_def no_pool_def CaptureTensorBindings_def Let_def)
  show thesis
  proof (rule that)
    show "runnable_graph g" using run by (simp add: runnable_graph_def rg_tensor_def)
    show "tables_ok g'" using tb by (simp add: tables_ok_def nodes)
    show "map clear_edges (rg_nodes g') = map clear_edges (rg_nodes g)" using ce by (simp add: nodes)
    show "cap_supported (Capabilities backend (rn_device n)) \<and>
        (cap_parallel_nodes (Capabilities backend (rn_device n)) \<or> rg_mode g' = kSerialGraph)" if "n \<in> set (rg_nodes g')" for n
      using pn pr that by (auto simp: nodes mode)
  qed (use l mode final wk bi in auto)
qed

lemma acyclic_same_edges:
  assumes "runnable_graph g" and "map clear_edges M = map clear_edges (rg_nodes g)"
  shows "acyclic (rt_depends M)"
  using assms rt_depends_same[OF assms(2)] by (simp add: runnable_graph_def)

lemma serial_run:
  assumes tb: "tables_ok g" and ac: "acyclic (rt_depends (rg_nodes g))"
    and h: "rg_nodes h = set_pending (rg_nodes g)"
    and serial: "rg_worker_count h = 1" and keeps: "\<And>i h. rg_nodes (snd (run i h)) = rg_nodes h"
  obtains order where "distinct order" "set order = {..<length (rg_nodes g)}"
    "\<And>k p. k < length order \<Longrightarrow> (p, order ! k) \<in> rt_depends (rg_nodes g) \<Longrightarrow> p \<in> set (take k order)"
    "kahn_order pq_push list_pop [] (map rn_succs (rg_nodes g)) (map (\<lambda>n. length (rn_preds n)) (rg_nodes g)) = Some order"
    "RunSerial parallel run h = Some (run_in_order run order h)"
proof -
  let ?n = "length (rg_nodes g)" let ?pend = "map (\<lambda>n. length (rn_preds n)) (rg_nodes g)"
  have su: "succs_of h = map rn_succs (rg_nodes g)" by (simp add: succs_of_def h set_pending_def)
  have pe: "pending_of h = ?pend" by (simp add: pending_of_def h set_pending_def)
  have ok: "graph_ok (map rn_succs (rg_nodes g)) ?pend" and ed: "edge (map rn_succs (rg_nodes g)) = rt_depends (rg_nodes g)"
    using tb by (simp_all add: tables_ok_def)
  have us: "\<forall>p < length (succs_of h). set (succs_of h ! p) \<subseteq> {..<length (succs_of h)}"
    using ok unfolding su graph_ok_def by simp
  obtain order where o: "kahn_order pq_push list_pop [] (map rn_succs (rg_nodes g)) ?pend = Some order"
      "distinct order" "set order \<subseteq> {..<?n}" "topological (map rn_succs (rg_nodes g)) order" "length order = ?n"
    using pq.kahn_order_correct[OF ok] ac ed by auto
  have kahn: "kahn pq_push list_pop (succs_of h) ?n (pending_of h) (ready_nodes (rg_nodes h)) [] = Some order"
    using o(1) unfolding kahn_order_def su pe ready_nodes_def h set_pending_counts by (simp add: set_pending_def comp_def)
  have inv: "pq.kahn_inv (succs_of h) [] (pending_of h) (ready_nodes (rg_nodes h))"
    using pq.initial_inv[OF ok] unfolding su pe ready_nodes_def h set_pending_counts by (simp add: set_pending_def comp_def)
  have "serial_loop run ?n (ready_nodes (rg_nodes h)) 0 h = Some (run_in_order run order h)"
    using serial_loop_order[OF keeps inv us kahn] o(5) by (auto simp: su)
  then have "RunSerial parallel run h = Some (run_in_order run order h)"
    using serial by (simp add: RunSerial_def h set_pending_def)
  moreover have "set order = {..<?n}" using o(2,3,5) by (intro distinct_full) auto
  ultimately show thesis using that o(1,2,4) ed unfolding topological_def by blast
qed


lemma check_contract_static:
  "rg_nodes (snd (check_contract c g)) = rg_nodes g \<and> rg_worker_count (snd (check_contract c g)) = rg_worker_count g"
  by (simp add: check_contract_def Let_def map_env_def split: option.split prod.split)

lemma check_contracts_static:
  "rg_nodes (snd (check_contracts cs g)) = rg_nodes g \<and> rg_worker_count (snd (check_contracts cs g)) = rg_worker_count g"
proof (induction cs arbitrary: g)
  case Nil
  then show ?case by simp
next
  case (Cons c cs)
  obtain st g' where c: "check_contract c g = (st, g')" by fastforce
  show ?case using Cons[of g'] check_contract_static[of c g] by (simp add: c)
qed

lemma CheckRuntimeStatus_static:
  "rg_nodes (snd (CheckRuntimeStatus g)) = rg_nodes g"
  "rg_worker_count (snd (CheckRuntimeStatus g)) = rg_worker_count g"
proof -
  obtain st g1 where c: "check_contracts (rg_contracts g) g = (st, g1)" by fastforce
  show "rg_nodes (snd (CheckRuntimeStatus g)) = rg_nodes g"
    "rg_worker_count (snd (CheckRuntimeStatus g)) = rg_worker_count g"
    using check_contracts_static[of "rg_contracts g" g]
    by (simp_all add: CheckRuntimeStatus_def c Let_def split: option.split)
qed

text \<open>The checks of \<open>RunStatus\<close> before it executes, and the state it starts from.\<close>

definition preflight_ok :: "('b, 'd) RuntimeGraph \<Rightarrow> bool" where
  "preflight_ok g \<longleftrightarrow>
     (let (checked, g1) = CheckRuntimeStatus g in
      ok checked \<and> ok (ValidateOperatorBindings (x_world (rg_env g1)) (x_heap (rg_env g1)) (rg_effect_nodes g1)
        (rg_tensor g1) (Some (rg_effect_inputs g1))) \<and>
      (\<forall>n \<in> set (rg_nodes g1). ok (runtime_refusal g1 n)))"

definition run_start :: "('b, 'd) RuntimeGraph \<Rightarrow> ('b, 'd) RuntimeGraph" where
  "run_start g = (ResetRemainingUses (ResetPendingDependencies (snd (CheckRuntimeStatus g))))\<lparr>rg_status := Ok\<rparr>"

section \<open>The worker pool\<close>

lemma release_fifo_prefix:
  "release fifo_push us (p, a @ q) = (fst (release fifo_push us (p, q)), a @ snd (release fifo_push us (p, q)))"
proof (induction us arbitrary: p q)
  case Nil
  then show ?case by simp
next
  case (Cons u us)
  show ?case
    using Cons[of "p[u := dec64 (p ! u)]" q] Cons[of "p[u := dec64 (p ! u)]" "q @ [u]"]
    by (simp add: Let_def fifo_push_def)
qed

definition started :: "par_state \<Rightarrow> nat list" where
  "started s = map fst (par_log s)"

definition par_inv :: "nat list list \<Rightarrow> nat \<Rightarrow> par_state \<Rightarrow> bool" where
  "par_inv users workers s \<longleftrightarrow>
     length (par_flight s) \<le> workers \<and> distinct (started s) \<and> set (started s) \<subseteq> {..<length users} \<and>
     set (par_flight s) \<subseteq> set (started s) \<and> set (par_done s) \<subseteq> set (started s) \<and>
     (\<forall>(i, finished) \<in> set (par_log s). \<forall>p. (p, i) \<in> edge users \<longrightarrow> p \<in> finished) \<and>
     (\<not> par_error s \<longrightarrow> mset (started s) = mset (par_done s) + mset (par_flight s) \<and>
        fifo.kahn_inv users (par_done s) (par_pending s) (par_flight s @ par_ready s))"

lemma kahn_inv_permuted:
  assumes "fifo.kahn_inv users order pending q" and "mset q = mset q'"
  shows "fifo.kahn_inv users order pending q'"
  using assms by (simp add: fifo.kahn_inv_def)

text \<open>Taking any node in flight as the next one of the queue.\<close>

lemma in_flight:
  assumes inv: "fifo.kahn_inv users fin pending (flight @ ready)" and i: "i \<in> set (flight @ ready)"
    and us: "\<forall>p < length users. set (users ! p) \<subseteq> {..<length users}"
  shows "i < length users" "i \<notin> set fin" "\<And>p. (p, i) \<in> edge users \<Longrightarrow> p \<in> set fin"
    "\<And>u. u < length users \<Longrightarrow> count_list (users ! i) u \<le> pending ! u" "count_list (flight @ ready) i = 1"
    "release fifo_push (users ! i) (pending, remove1 i (flight @ ready)) = (pending', q') \<Longrightarrow>
       fifo.kahn_inv users (fin @ [i]) pending' q'"
proof -
  let ?q = "i # remove1 i (flight @ ready)"
  have inv': "fifo.kahn_inv users fin pending ?q" by (rule kahn_inv_permuted[OF inv]) (use i in simp)
  have pop: "list_pop ?q = Some (i, remove1 i (flight @ ready))" by simp
  note p = fifo.kahn_inv_pop[OF inv' pop]
  show "i < length users" "i \<notin> set fin" by (rule p)+
  show "count_list (users ! i) u \<le> pending ! u" if "u < length users" for u using p(6)[OF that] by simp
  obtain p1 q1 where r: "release fifo_push (users ! i) (pending, remove1 i (flight @ ready)) = (p1, q1)" by fastforce
  have step: "fifo.kahn_inv users (fin @ [i]) p1 q1" using fifo.kahn_inv_step[OF inv' us pop r] by blast
  then have "topological users (fin @ [i])" by (simp add: fifo.kahn_inv_def)
  then show "p \<in> set fin" if "(p, i) \<in> edge users" for p
    using that unfolding topological_def by (metis append_eq_conv_conj length_append_singleton lessI nth_append_length)
  show "fifo.kahn_inv users (fin @ [i]) pending' q'"
    if "release fifo_push (users ! i) (pending, remove1 i (flight @ ready)) = (pending', q')"
    using step that r by simp
  have "mset (flight @ ready) = mset_set {j. j < length users \<and> j \<notin> set fin \<and> pending ! j = 0}"
    using inv by (simp add: fifo.kahn_inv_def)
  then have "count (mset (flight @ ready)) i = 1" using p(1-3) by simp
  then show "count_list (flight @ ready) i = 1" by (simp add: count_mset)
qed

lemma par_start_inv:
  assumes "graph_ok users pending"
  shows "par_inv users workers (par_start pending)"
  using fifo.initial_inv[OF assms] by (simp add: par_inv_def par_start_def started_def)

lemma par_step_inv:
  assumes "par_step users workers s s'" and inv: "par_inv users workers s"
    and us: "\<forall>p < length users. set (users ! p) \<subseteq> {..<length users}"
  shows "par_inv users workers s'"
  using assms(1)
proof cases
  case (launch i q)
  have k: "fifo.kahn_inv users (par_done s) (par_pending s) (par_flight s @ par_ready s)"
    and m: "mset (started s) = mset (par_done s) + mset (par_flight s)"
    using inv launch(3) by (auto simp: par_inv_def)
  have mem: "i \<in> set (par_flight s @ par_ready s)" using launch(4) by simp
  note f = in_flight[OF k mem us]
  have "i \<notin> set (par_flight s)" using f(5) launch(4) by (auto simp: count_list_0_iff[symmetric])
  then have "i \<notin> set (started s)" using f(2) mset_eq_setD[OF m[folded mset_append]] by simp
  then show ?thesis
    using inv launch(3-5) f(1) m f(3)
      kahn_inv_permuted[OF k, of "(par_flight s @ [i]) @ q"]
    unfolding launch(1) by (auto simp: par_inv_def started_def)
next
  case wait
  then show ?thesis using inv by (simp add: par_inv_def started_def)
next
  case (finish i pending' ready')
  have sub: "set (remove1 i (par_flight s)) \<subseteq> set (par_flight s)" by (rule set_remove1_subset)
  have len: "length (remove1 i (par_flight s)) \<le> workers"
    using inv by (auto simp: par_inv_def length_remove1)
  show ?thesis
  proof (cases "par_error s")
    case True
    then show ?thesis using inv finish(3) sub len unfolding finish(1) by (auto simp: par_inv_def started_def)
  next
    case False
    have k: "fifo.kahn_inv users (par_done s) (par_pending s) (par_flight s @ par_ready s)"
      and m: "mset (started s) = mset (par_done s) + mset (par_flight s)"
      using inv False by (auto simp: par_inv_def)
    have mem: "i \<in> set (par_flight s @ par_ready s)" using finish(3) by simp
    have rel: "release fifo_push (users ! i) (par_pending s, remove1 i (par_flight s @ par_ready s)) =
        (pending', remove1 i (par_flight s) @ ready')"
      using finish(3,5) release_fifo_prefix[of "users ! i" "par_pending s" "remove1 i (par_flight s)" "par_ready s"]
      by (simp add: remove1_append)
    have k': "fifo.kahn_inv users (par_done s @ [i]) pending' (remove1 i (par_flight s) @ ready')"
      by (rule in_flight(6)[OF k mem us rel])
    show ?thesis using inv finish(3) sub len k' m False unfolding finish(1) by (auto simp: par_inv_def started_def)
  qed
next
  case (underflow i u pending' ready')
  have sub: "set (remove1 i (par_flight s)) \<subseteq> set (par_flight s)" by (rule set_remove1_subset)
  have len: "length (remove1 i (par_flight s)) \<le> workers"
    using inv by (auto simp: par_inv_def length_remove1)
  then show ?thesis using inv underflow(3) sub unfolding underflow(1) by (auto simp: par_inv_def started_def)
next
  case (fail i)
  have sub: "set (remove1 i (par_flight s)) \<subseteq> set (par_flight s)" by (rule set_remove1_subset)
  have len: "length (remove1 i (par_flight s)) \<le> workers"
    using inv by (auto simp: par_inv_def length_remove1)
  then show ?thesis using inv sub unfolding fail(1) by (auto simp: par_inv_def started_def)
next
  case resume
  then show ?thesis using inv by (simp add: par_inv_def started_def)
qed

lemma par_reachable_inv:
  assumes "(par_step users workers)\<^sup>*\<^sup>* (par_start pending) s" and ok: "graph_ok users pending"
  shows "par_inv users workers s"
  using assms(1)
proof (induction rule: rtranclp_induct)
  case base
  show ?case by (rule par_start_inv[OF ok])
next
  case (step y z)
  show ?case by (rule par_step_inv[OF step(2,3)]) (use ok in \<open>simp add: graph_ok_def\<close>)
qed


lemma par_progress:
  assumes inv: "par_inv users workers s" and err: "\<not> par_error s" and w: "0 < workers"
    and us: "\<forall>p < length users. set (users ! p) \<subseteq> {..<length users}" and ac: "acyclic (edge users)"
  shows "(\<exists>s'. par_step users workers s s' \<and> \<not> par_error s') \<or>
    (par_flight s = [] \<and> distinct (par_done s) \<and> set (par_done s) = {..<length users})"
proof -
  have k: "fifo.kahn_inv users (par_done s) (par_pending s) (par_flight s @ par_ready s)"
    using inv err by (simp add: par_inv_def)
  have d: "distinct (par_done s)" "set (par_done s) \<subseteq> {..<length users}" using k by (simp_all add: fifo.kahn_inv_def)
  consider "par_waiting s" "par_flight s = []" | i where "par_waiting s" "i \<in> set (par_flight s)"
    | i q where "\<not> par_waiting s" "par_ready s = i # q" "length (par_flight s) < workers"
    | "\<not> par_waiting s" "par_flight s \<noteq> []" "par_ready s = [] \<or> workers \<le> length (par_flight s)"
    | "\<not> par_waiting s" "par_flight s = []" "par_ready s = []"
    using w by (cases "par_ready s"; cases "par_flight s"; cases "par_waiting s"; cases "length (par_flight s) < workers")
      auto
  then show ?thesis
  proof cases
    case 1
    then show ?thesis using par_step.resume[OF 1] err by fastforce
  next
    case (2 i)
    obtain p' q' where r: "release fifo_push (users ! i) (par_pending s, par_ready s) = (p', q')" by fastforce
    have mem: "i \<in> set (par_flight s @ par_ready s)" using 2(2) by simp
    note f = in_flight[OF k mem us]
    have out: "u \<notin> set (users ! i)" if "\<not> u < length users" for u using us f(1) that by auto
    have "count_list (users ! i) u \<le> par_pending s ! u" for u
      using f(4)[of u] out[of u] by (cases "u < length users") (simp_all add: count_notin)
    from par_step.finish[OF 2 this r] err show ?thesis by fastforce
  next
    case (3 i q)
    then show ?thesis using par_step.launch[OF 3(1) err 3(2,3)] err by fastforce
  next
    case 4
    then show ?thesis using par_step.wait[OF 4(1) err 4(3,2)] err by fastforce
  next
    case 5
    have "mset (par_flight s @ par_ready s) = {#}" using 5 by simp
    from fifo.kahn_inv_full[OF k this us ac] have "set (par_done s) = {..<length users}"
      using distinct_full[OF d] by simp
    then show ?thesis using 5 d by simp
  qed
qed

definition par_measure :: "nat \<Rightarrow> par_state \<Rightarrow> nat" where
  "par_measure n s = 4 * (n - length (par_log s)) +
     (if par_waiting s then length (par_flight s) + 1
      else if par_flight s = [] then 0 else length (par_flight s) + 2)"

lemma par_step_measure:
  assumes st: "par_step users workers s s'" and inv: "par_inv users workers s'"
  shows "par_measure (length users) s' < par_measure (length users) s"
  using st
proof cases
  case (launch i q)
  have "length (started s') \<le> length users"
    using inv card_mono[of "{..<length users}" "set (started s')"] by (simp add: par_inv_def distinct_card)
  then have "length (par_log s) < length users" unfolding launch(1) by (simp add: started_def)
  then show ?thesis unfolding launch(1) using launch(2) by (simp add: par_measure_def) linarith
next
  case wait
  then show ?thesis by (simp add: par_measure_def)
next
  case (finish i)
  then have "0 < length (par_flight s)" by auto
  then show ?thesis unfolding finish(1) using finish(2,3) by (simp add: par_measure_def length_remove1)
next
  case (underflow i)
  then have "0 < length (par_flight s)" by auto
  then show ?thesis unfolding underflow(1) using underflow(2,3) by (simp add: par_measure_def length_remove1)
next
  case (fail i)
  then have "0 < length (par_flight s)" by auto
  then show ?thesis unfolding fail(1) using fail(2,3) by (simp add: par_measure_def length_remove1)
next
  case resume
  then show ?thesis by (simp add: par_measure_def)
qed

lemma par_run_measure:
  assumes "(par_step users workers ^^ k) (par_start pending) s" and ok: "graph_ok users pending"
  shows "k + par_measure (length users) s \<le> 4 * length users"
  using assms(1)
proof (induction k arbitrary: s)
  case 0
  then have "s = par_start pending" by simp
  then show ?case by (simp add: par_measure_def par_start_def)
next
  case (Suc k)
  then obtain u where u: "(par_step users workers ^^ k) (par_start pending) u" "par_step users workers u s" by auto
  have "(par_step users workers)\<^sup>*\<^sup>* (par_start pending) s"
    using Suc.prems by (rule relpowp_imp_rtranclp)
  then have "par_inv users workers s" by (rule par_reachable_inv[OF _ ok])
  from par_step_measure[OF u(2) this] Suc.IH[OF u(1)] show ?case by simp
qed


text \<open>
  A run goes in rounds: the scheduler starts as many nodes as it may, waits until all of them have
  finished, and starts again.  While nothing failed, the number of steps is determined by the
  nodes started and completed and the rounds closed, and a round starts at most as many nodes as
  there are workers.
\<close>

definition in_round :: "nat \<Rightarrow> nat \<Rightarrow> nat \<Rightarrow> par_state \<Rightarrow> bool" where
  "in_round workers k rounds s \<longleftrightarrow>
     k = length (par_log s) + length (par_done s) + 2 * rounds + (if par_waiting s then 1 else 0) \<and>
     length (par_log s) \<le> workers * rounds + (if par_waiting s then workers else length (par_flight s))"

lemma par_step_round:
  assumes st: "par_step users workers s s'" and "par_inv users workers s"
    and "\<not> par_error s \<Longrightarrow> \<exists>rounds. in_round workers k rounds s" and err: "\<not> par_error s'"
  shows "\<exists>rounds. in_round workers (Suc k) rounds s'"
proof -
  have "\<not> par_error s" using st err by cases auto
  then obtain rounds where R: "in_round workers k rounds s" using assms(3) by blast
  have f: "length (par_flight s) \<le> workers" using assms(2) by (simp add: par_inv_def)
  show ?thesis using st
  proof cases
    case (launch i q)
    then show ?thesis using R by (auto simp: in_round_def intro!: exI[of _ rounds])
  next
    case wait
    then show ?thesis using R f by (auto simp: in_round_def intro!: exI[of _ rounds])
  next
    case (finish i pending' ready')
    then show ?thesis using R by (auto simp: in_round_def intro!: exI[of _ rounds])
  next
    case resume
    then show ?thesis using R by (auto simp: in_round_def intro!: exI[of _ "Suc rounds"])
  qed (use err in auto)
qed

lemma par_run_rounds:
  assumes "(par_step users workers ^^ k) (par_start pending) s" and ok: "graph_ok users pending"
    and "\<not> par_error s"
  shows "\<exists>rounds. in_round workers k rounds s"
  using assms(1,3)
proof (induction k arbitrary: s)
  case 0
  then have "s = par_start pending" by simp
  then show ?case by (auto simp: in_round_def par_start_def intro!: exI[of _ 0])
next
  case (Suc k)
  then obtain u where u: "(par_step users workers ^^ k) (par_start pending) u" "par_step users workers u s" by auto
  have "par_inv users workers u" by (rule par_reachable_inv[OF relpowp_imp_rtranclp[OF u(1)] ok])
  from par_step_round[OF u(2) this Suc.IH[OF u(1)] Suc.prems(2)] show ?case .
qed

text \<open>After a failure no node is started, and what is in flight is waited for.\<close>

lemma par_failed_settles:
  assumes "(par_step users workers)\<^sup>*\<^sup>* (par_start pending) s"
  shows "par_error s \<and> \<not> par_waiting s \<longrightarrow> par_flight s = []"
  using assms
proof (induction rule: rtranclp_induct)
  case base
  show ?case by (simp add: par_start_def)
next
  case (step y z)
  from step(2,3) show ?case by cases auto
qed

lemma par_stuck_settled:
  assumes "(par_step users workers)\<^sup>*\<^sup>* (par_start pending) s" and "\<not> (\<exists>s'. par_step users workers s s')"
    and err: "par_error s"
  shows "par_flight s = []"
proof (cases "par_waiting s")
  case True
  then have "i \<notin> set (par_flight s)" for i using assms(2) par_step.fail by blast
  then show ?thesis by (cases "par_flight s") auto
next
  case False
  then show ?thesis using par_failed_settles[OF assms(1)] err by simp
qed

section \<open>Releasing inputs\<close>

text \<open>How often a value is still to be read when the nodes of \<open>rest\<close> are still to run.\<close>

definition reads_left :: "'b RuntimeNode list \<Rightarrow> nat list \<Rightarrow> nat \<Rightarrow> nat" where
  "reads_left nodes rest v = (\<Sum>i \<leftarrow> rest. count_list (rn_input_ids (nodes ! i)) v)"

definition uses_match :: "('b, 'd) RuntimeGraph \<Rightarrow> (nat \<Rightarrow> nat) \<Rightarrow> bool" where
  "uses_match g left \<longleftrightarrow> (\<forall>v. (case rg_uses g v of None \<Rightarrow> 0 | Some n \<Rightarrow> n) = left v)"

lemma release_value_uses:
  "uses_match g left \<Longrightarrow> uses_match (release_value backend v g) (left(v := left v - 1))"
proof (cases "rg_uses g v")
  case None
  assume m: "uses_match g left"
  then have "left v = 0" using None unfolding uses_match_def by (metis option.simps(4))
  then show ?thesis using m None by (simp add: release_value_def fun_upd_idem)
next
  case (Some n)
  assume m: "uses_match g left"
  then have "left v = n" using Some unfolding uses_match_def by (metis option.simps(5))
  moreover have "rg_uses (release_value backend v g) = (if n = 0 then rg_uses g else (rg_uses g)(v \<mapsto> n - 1))"
    using Some by (simp add: release_value_def Let_def split: option.split)
  ultimately show ?thesis using m Some by (auto simp: uses_match_def)
qed

lemma release_value_static [simp]:
  "rg_value_names (release_value backend v g) = rg_value_names g" "rg_tensor (release_value backend v g) = rg_tensor g"
  "rg_output_names (release_value backend v g) = rg_output_names g"
  "rg_output_ptrs (release_value backend v g) = rg_output_ptrs g"
  by (auto simp: release_value_def Let_def rg_tensor_def fun_eq_iff split: option.split)

text \<open>
  The tensor of a value that may be given back: it is bound, and it is neither an output by name
  nor the tensor of an output.
\<close>

definition releasable :: "('b, 'd) RuntimeGraph \<Rightarrow> nat \<Rightarrow> nat option" where
  "releasable g v =
     (if v < length (rg_value_names g)
      then (case rg_tensor g (rg_value_names g ! v) of None \<Rightarrow> None
            | Some p \<Rightarrow> if rg_value_names g ! v \<notin> set (rg_output_names g) \<and> p \<notin> rg_output_ptrs g then Some p else None)
      else None)"

definition release_transient :: "'b BackendContext \<Rightarrow> nat \<Rightarrow> 'b rt_env \<Rightarrow> 'b rt_env" where
  "release_transient backend p e = (if IsPersistent backend p e then e else Release backend p e)"

text \<open>The tensors of the values among \<open>vs\<close> with no read left, in the order of their last occurrence.\<close>

definition last_reads :: "('b, 'd) RuntimeGraph \<Rightarrow> nat list \<Rightarrow> (nat \<Rightarrow> nat) \<Rightarrow> nat list" where
  "last_reads g vs left = List.map_filter (releasable g) (filter (\<lambda>v. left v = 0) (remdups vs))"

lemma release_value_env:
  assumes "uses_match g left" and "0 < left v"
  shows "rg_env (release_value backend v g) =
    (if left v = 1 then (case releasable g v of None \<Rightarrow> rg_env g | Some p \<Rightarrow> release_transient backend p (rg_env g))
     else rg_env g)"
proof -
  have "rg_uses g v = Some (left v)"
    using assms unfolding uses_match_def by (metis less_numeral_extra(3) option.case_eq_if option.exhaust_sel)
  then show ?thesis using assms(2)
    by (auto simp: release_value_def Let_def ShouldKeepTensorDevice_def releasable_def rg_tensor_def map_env_def
        release_transient_def split: option.splits)
qed

text \<open>
  The releases after a node: one for each value whose last read it was, unless the tensor is an
  output of the graph or persistent.
\<close>

lemma releases:
  assumes "uses_match g (\<lambda>v. count_list vs v + left v)"
  shows "uses_match (fold (release_value backend) vs g) left \<and>
    rg_env (fold (release_value backend) vs g) = fold (release_transient backend) (last_reads g vs left) (rg_env g)"
  using assms
proof (induction vs arbitrary: g)
  case Nil
  then show ?case by (simp add: last_reads_def)
next
  case (Cons v vs)
  let ?g = "release_value backend v g" let ?l = "\<lambda>x. count_list (v # vs) x + left x"
  have "?l(v := ?l v - 1) = (\<lambda>x. count_list vs x + left x)" by auto
  then have u: "uses_match ?g (\<lambda>x. count_list vs x + left x)"
    using release_value_uses[OF Cons.prems, of backend v] by simp
  have "releasable ?g = releasable g" by (simp add: releasable_def fun_eq_iff cong: option.case_cong)
  then have same: "last_reads ?g vs left = last_reads g vs left" by (simp add: last_reads_def)
  have last: "?l v = 1 \<longleftrightarrow> v \<notin> set vs \<and> left v = 0"
    using count_list_0_iff[of vs v] by auto
  have "rg_env ?g = (if ?l v = 1 then (case releasable g v of None \<Rightarrow> rg_env g
        | Some p \<Rightarrow> release_transient backend p (rg_env g)) else rg_env g)"
    by (rule release_value_env[OF Cons.prems]) simp
  then have "rg_env ?g = fold (release_transient backend)
      (if v \<notin> set vs \<and> left v = 0 then (case releasable g v of None \<Rightarrow> [] | Some p \<Rightarrow> [p]) else []) (rg_env g)"
    unfolding last by (auto split: option.split)
  moreover have "last_reads g (v # vs) left =
      (if v \<notin> set vs \<and> left v = 0 then (case releasable g v of None \<Rightarrow> [] | Some p \<Rightarrow> [p]) else []) @ last_reads g vs left"
    by (auto simp: last_reads_def map_filter_simps split: option.split)
  ultimately show ?case using Cons.IH[OF u] unfolding same by simp
qed

lemma ResetRemainingUses_match:
  assumes "distinct order" and "set order = {..<length (rg_nodes g)}"
  shows "uses_match (ResetRemainingUses g) (reads_left (rg_nodes g) order)"
proof -
  have bump: "(case fold bump_use vs u v of None \<Rightarrow> 0 | Some n \<Rightarrow> n) =
      count_list vs v + (case u v of None \<Rightarrow> 0 | Some n \<Rightarrow> n)" for vs v u
    by (induction vs arbitrary: u) (auto simp: bump_use_def)
  have cnt: "count_list (concat (map rn_input_ids ns)) v = (\<Sum>n \<leftarrow> ns. count_list (rn_input_ids n) v)"
    for ns :: "'a RuntimeNode list" and v
    by (induction ns) (simp_all add: count_list_append)
  have "reads_left (rg_nodes g) order v = (\<Sum>n \<leftarrow> rg_nodes g. count_list (rn_input_ids n) v)" for v
  proof -
    have "mset order = mset [0..<length (rg_nodes g)]"
      using assms set_eq_iff_mset_eq_distinct[of order "[0..<length (rg_nodes g)]"] by (simp add: atLeast_upt)
    then have "mset (map f order) = mset (map f [0..<length (rg_nodes g)])" for f :: "nat \<Rightarrow> nat"
      by (simp only: mset_map)
    then have "reads_left (rg_nodes g) order v = reads_left (rg_nodes g) [0..<length (rg_nodes g)] v"
      unfolding reads_left_def sum_mset_sum_list[symmetric] by simp
    also have "\<dots> = (\<Sum>n \<leftarrow> map ((!) (rg_nodes g)) [0..<length (rg_nodes g)]. count_list (rn_input_ids n) v)"
      by (simp add: reads_left_def comp_def)
    finally show ?thesis by (simp add: map_nth)
  qed
  then show ?thesis by (simp add: uses_match_def ResetRemainingUses_def bump cnt)
qed

section \<open>A small graph\<close>

definition demo_kernel :: "unit KernelBase" where
  "demo_kernel = \<lparr>k_owns_param = True, k_prepare = (\<lambda>e. (0, e)), k_supports = (\<lambda>_. Inr Ok), k_compute = (\<lambda>e. (Inr 0, e))\<rparr>"

definition demo_ops :: "nat double_ops" where
  "demo_ops = \<lparr>d_add = (+), d_div = (div), d_min = min, d_max = max, d_of_int = nat\<rparr>"

definition demo_rt_node :: "string \<Rightarrow> nat list \<Rightarrow> nat list \<Rightarrow> unit RuntimeNode" where
  "demo_rt_node name ins outs = \<lparr>rn_name = name, rn_op_type = ''Op'', rn_inputs = [], rn_outputs = [],
     rn_input_ids = ins, rn_output_ids = outs, rn_kernel = Some demo_kernel, rn_device = X86,
     rn_preds = [], rn_succs = [], rn_pending = 0, rn_semantics = Some default_semantics\<rparr>"

text \<open>The first node reads what the second produces.\<close>

definition demo_rt :: "(unit, nat) RuntimeGraph" where
  "demo_rt = \<lparr>rg_env = \<lparr>x_heap = [], x_world = one_buffer_heap False, x_dev = ()\<rparr>, rg_tensors = [],
     rg_nodes = [demo_rt_node ''b'' [0] [1], demo_rt_node ''a'' [] [0]], rg_index = Map.empty, rg_ids = Map.empty,
     rg_value_names = [''x'', ''y''], rg_uses = Map.empty, rg_output_names = [], rg_output_ptrs = {},
     rg_worker_count = 1, rg_pool = False, rg_profiling = False, rg_profiles = [], rg_profile_index = Map.empty,
     rg_mode = kSerialGraph, rg_threads = 1, rg_finalized = False, rg_bindings_installed = False,
     rg_uses_memory_plan = False, rg_locked = False, rg_contracts = [], rg_binding_contracts = [],
     rg_effect_nodes = [], rg_effect_inputs = [], rg_effect_outputs = [], rg_status = Ok\<rparr>"

definition demo_final :: "(unit, nat) RuntimeGraph" where
  "demo_final = snd (FinalizeStatus host_backend demo_rt)"

lemma demo_finalized: "fst (FinalizeStatus host_backend demo_rt) = Ok" "fst (CheckRuntimeStatus demo_final) = Ok"
  by code_simp+

lemma demo_preflight: "preflight_ok demo_final"
  by code_simp

section \<open>Properties\<close>

definition demo_par :: par_state where
  "demo_par = \<lparr>par_pending = [1, 0], par_ready = [], par_flight = [1], par_done = [], par_error = False,
     par_waiting = False, par_log = [(1, {})]\<rparr>"

lemma demo_edges: "rt_depends (rg_nodes demo_rt) = {(1, 0)}"
  by (auto simp: rt_depends_def demo_rt_def demo_rt_node_def less_Suc_eq nth_Cons')

lemma demo_tables: "tables_ok demo_final" "acyclic (rt_depends (rg_nodes demo_final))"
    "length (rg_nodes demo_final) = 2"
proof -
  obtain g where g: "FinalizeStatus host_backend demo_rt = (Ok, g)" and d: "g = demo_final"
    using demo_finalized(1) unfolding demo_final_def by (cases "FinalizeStatus host_backend demo_rt") auto
  from FinalizeStatusE[OF g] show "tables_ok demo_final" "acyclic (rt_depends (rg_nodes demo_final))"
    unfolding d using acyclic_same_edges by auto
  show "length (rg_nodes demo_final) = 2" by code_simp
qed

lemma demo_run: "(par_step (succs_of demo_final) 2)\<^sup>*\<^sup>* (par_start (map (\<lambda>n. length (rn_preds n)) (rg_nodes demo_final))) demo_par"
proof -
  have p: "map (\<lambda>n. length (rn_preds n)) (rg_nodes demo_final) = [1, 0]" by code_simp
  have s: "par_start [1, 0] = \<lparr>par_pending = [1, 0], par_ready = [1], par_flight = [],
      par_done = [], par_error = False, par_waiting = False, par_log = []\<rparr>"
    by (simp add: par_start_def initial_ready_def fifo_push_def)
  have "par_step (succs_of demo_final) 2 (par_start [1, 0]) demo_par"
    using par_step.launch[of "par_start [1, 0]" 1 "[]" 2 "succs_of demo_final"]
    unfolding s by (simp add: demo_par_def)
  then show ?thesis unfolding p by blast
qed

text \<open>
  C13: \<open>BuildDependencies\<close> accepts a graph exactly when its node names are present and unique,
  no value has two producers, every input value is known and either produced or bound to a
  tensor, and the dependencies have no cycle.
\<close>

theorem BuildDependencies_accepts: "fst (BuildDependencies g) = 0 \<longleftrightarrow> runnable_graph g"
  by (rule BuildDependencies_result(1))

text \<open>
  C14: A graph that was finalized is runnable, its dependency tables list exactly the edges from
  the producer of a value to its readers with one count per edge, its nodes are those of the
  graph given, and each node's device is supported by the backend, and able to run nodes in
  parallel unless the graph runs serially.
\<close>

theorem FinalizeStatus_sound:
  assumes "FinalizeStatus backend g = (st, g')" and "ok st"
  shows "runnable_graph g \<and> tables_ok g' \<and> rg_finalized g' \<and>
    map clear_edges (rg_nodes g') = map clear_edges (rg_nodes g) \<and>
    (\<forall>n \<in> set (rg_nodes g'). cap_supported (Capabilities backend (rn_device n)) \<and>
       (cap_parallel_nodes (Capabilities backend (rn_device n)) \<or> rg_mode g' = kSerialGraph))"
  using FinalizeStatusE[OF assms] by blast

lemma FinalizeStatus_sound_witness:
  "runnable_graph demo_rt \<and> rg_finalized demo_final"
  using FinalizeStatus_sound[of host_backend demo_rt Ok demo_final] demo_finalized(1)
  unfolding demo_final_def by (cases "FinalizeStatus host_backend demo_rt") auto

text \<open>
  C9: Serial runs.  Once the checks before execution pass, running a finalized serial graph is
  running its nodes one after the other in an order that has each node once and after the
  producers of everything it reads, up to the first node that fails; the run always ends.
\<close>

theorem RunStatus_serial:
  assumes "FinalizeStatus backend g0 = (st, g)" and "ok st" and "rg_mode g0 = kSerialGraph" and "preflight_ok g"
  shows "\<exists>order. distinct order \<and> set order = {..<length (rg_nodes g)} \<and>
    (\<forall>k < length order. \<forall>p. (p, order ! k) \<in> rt_depends (rg_nodes g) \<longrightarrow> p \<in> set (take k order)) \<and>
    RunStatus D elapsed backend parallel g =
      Some (case run_in_order (RunNode D elapsed backend) order (run_start g) of (result, g3) \<Rightarrow>
        (if result = 0 then Ok
         else if ok (rg_status g3) then Error kExecutionFailed ''runtime graph execution failed''
         else rg_status g3, g3))"
proof -
  let ?run = "RunNode D elapsed backend"
  from FinalizeStatusE[OF assms(1,2)] have fin: "rg_finalized g" and tb: "tables_ok g" and r: "runnable_graph g0"
    and ce: "map clear_edges (rg_nodes g) = map clear_edges (rg_nodes g0)" and wk: "rg_worker_count g = 1"
    using assms(3) by blast+
  obtain c g1 where c: "CheckRuntimeStatus g = (c, g1)" by fastforce
  have same: "rg_nodes g1 = rg_nodes g" "rg_worker_count g1 = rg_worker_count g"
    using CheckRuntimeStatus_static[of g] unfolding c by simp_all
  have start: "rg_nodes (run_start g) = set_pending (rg_nodes g)" "rg_worker_count (run_start g) = 1"
    unfolding run_start_def c snd_conv
    by (simp_all add: ResetRemainingUses_def ResetPendingDependencies_def same wk)
  obtain order where o: "distinct order" "set order = {..<length (rg_nodes g)}"
      "\<And>k p. k < length order \<Longrightarrow> (p, order ! k) \<in> rt_depends (rg_nodes g) \<Longrightarrow> p \<in> set (take k order)"
      "RunSerial parallel ?run (run_start g) = Some (run_in_order ?run order (run_start g))"
    by (rule serial_run[OF tb acyclic_same_edges[OF r ce] start, where run = ?run and parallel = parallel])
      (simp add: RunNode_nodes, blast)
  have pre: "ok c" "ok (ValidateOperatorBindings (x_world (rg_env g1)) (x_heap (rg_env g1)) (rg_effect_nodes g1)
       (rg_tensor g1) (Some (rg_effect_inputs g1)))" "find (\<lambda>n. \<not> ok (runtime_refusal g1 n)) (rg_nodes g1) = None"
    using assms(4) unfolding preflight_ok_def c by (auto simp: find_None_iff)
  have "RunStatus D elapsed backend parallel g = map_option (\<lambda>(result, g3).
      (if result = 0 then Ok else if ok (rg_status g3) then Error kExecutionFailed ''runtime graph execution failed''
       else rg_status g3, g3)) (RunSerial parallel ?run (run_start g))"
    unfolding RunStatus_def c prod.case Let_def pre(3) option.case run_start_def snd_conv using fin pre(1,2) by simp
  then show ?thesis using o unfolding o(4) by (auto split: prod.split)
qed

lemma RunStatus_serial_witness:
  "\<exists>order. set order = {..<2} \<and> RunStatus demo_ops (\<lambda>_. 0) host_backend (\<lambda>_. None) demo_final =
      Some (case run_in_order (RunNode demo_ops (\<lambda>_. 0) host_backend) order (run_start demo_final) of (result, g3) \<Rightarrow>
        (if result = 0 then Ok
         else if ok (rg_status g3) then Error kExecutionFailed ''runtime graph execution failed''
         else rg_status g3, g3))"
proof -
  have f: "FinalizeStatus host_backend demo_rt = (Ok, demo_final)"
    using demo_finalized(1) unfolding demo_final_def by (cases "FinalizeStatus host_backend demo_rt") auto
  have m: "rg_mode demo_rt = kSerialGraph" by (simp add: demo_rt_def)
  from RunStatus_serial[OF f _ m demo_preflight, of demo_ops "\<lambda>_. 0" "\<lambda>_. None"] demo_tables(3)
  show ?thesis by auto
qed

text \<open>
  C15: Releases.  Let the remaining-use counters hold how often each value is still to be read when
  node \<open>i\<close> and then \<open>rest\<close> run.  After node \<open>i\<close> they hold the reads of \<open>rest\<close>, and what was
  released is determined: every value node \<open>i\<close> read and no node of \<open>rest\<close> reads has its tensor
  released, once, in the order of the last reads, unless the tensor is an output of the graph (by
  name or by identity) or the backend holds it persistent when its turn comes; nothing else is.
\<close>

theorem ReleaseUnusedInputs_last_use:
  assumes "uses_match g (reads_left (rg_nodes g) (i # rest))"
  shows "uses_match (ReleaseUnusedInputs backend (rg_nodes g ! i) g) (reads_left (rg_nodes g) rest) \<and>
    rg_env (ReleaseUnusedInputs backend (rg_nodes g ! i) g) =
      fold (\<lambda>p e. if IsPersistent backend p e then e else Release backend p e)
        (last_reads g (rn_input_ids (rg_nodes g ! i)) (reads_left (rg_nodes g) rest)) (rg_env g)"
proof -
  have "reads_left (rg_nodes g) (i # rest) =
      (\<lambda>v. count_list (rn_input_ids (rg_nodes g ! i)) v + reads_left (rg_nodes g) rest v)"
    by (simp add: reads_left_def fun_eq_iff)
  from releases[OF assms[unfolded this], of backend] show ?thesis
    unfolding ReleaseUnusedInputs_def release_transient_def[abs_def] .
qed

text \<open>
  A device that keeps a list of what it was told to release, and holds the tensor 2 persistent.
  The first node reads four values, one of them twice; the second reads one of them again.
\<close>

definition listing_backend :: "nat list BackendContext" where
  "listing_backend = host_backend\<lparr>IsPersistent := (\<lambda>p e. p = 2), Release := (\<lambda>p e. e\<lparr>x_dev := x_dev e @ [p]\<rparr>)\<rparr>"

definition reading_node :: "nat list \<Rightarrow> nat list RuntimeNode" where
  "reading_node ins = \<lparr>rn_name = [], rn_op_type = ''Op'', rn_inputs = [], rn_outputs = [],
     rn_input_ids = ins, rn_output_ids = [], rn_kernel = None, rn_device = X86,
     rn_preds = [], rn_succs = [], rn_pending = 0, rn_semantics = None\<rparr>"

definition reading_graph :: "(nat list, nat) RuntimeGraph" where
  "reading_graph = \<lparr>rg_env = \<lparr>x_heap = [], x_world = one_buffer_heap False, x_dev = []\<rparr>,
     rg_tensors = [(''a'', 0), (''b'', 1), (''c'', 2), (''d'', 3)],
     rg_nodes = [reading_node [0, 1, 3, 0, 2], reading_node [1]], rg_index = Map.empty, rg_ids = Map.empty,
     rg_value_names = [''a'', ''b'', ''c'', ''d''], rg_uses = [0 \<mapsto> 2, 1 \<mapsto> 2, 2 \<mapsto> 1, 3 \<mapsto> 1],
     rg_output_names = [], rg_output_ptrs = {},
     rg_worker_count = 1, rg_pool = False, rg_profiling = False, rg_profiles = [], rg_profile_index = Map.empty,
     rg_mode = kSerialGraph, rg_threads = 1, rg_finalized = False, rg_bindings_installed = False,
     rg_uses_memory_plan = False, rg_locked = False, rg_contracts = [], rg_binding_contracts = [],
     rg_effect_nodes = [], rg_effect_inputs = [], rg_effect_outputs = [], rg_status = Ok\<rparr>"

lemma reading_uses: "uses_match reading_graph (reads_left (rg_nodes reading_graph) [0, 1])"
  by (simp add: uses_match_def reading_graph_def reads_left_def reading_node_def)

lemma ReleaseUnusedInputs_last_use_witness:
  "x_dev (rg_env (ReleaseUnusedInputs listing_backend (rg_nodes reading_graph ! 0) reading_graph)) = [3, 0]"
  using ReleaseUnusedInputs_last_use[OF reading_uses, of listing_backend]
  by (simp add: last_reads_def releasable_def reads_left_def reading_graph_def reading_node_def rg_tensor_def
      listing_backend_def map_filter_simps)

text \<open>
  C10: Worker pool, safety.  In every reachable state of a run of a finalized graph on the pool, at
  most as many nodes run at a time as there are workers, no node was started twice, and each was
  started after all producers of what it reads had completed.
\<close>

theorem parallel_dependencies:
  assumes "tables_ok g"
    and "(par_step (succs_of g) workers)\<^sup>*\<^sup>* (par_start (map (\<lambda>n. length (rn_preds n)) (rg_nodes g))) s"
  shows "length (par_flight s) \<le> workers \<and> distinct (started s) \<and>
    (\<forall>(i, completed) \<in> set (par_log s). \<forall>p. (p, i) \<in> rt_depends (rg_nodes g) \<longrightarrow> p \<in> completed)"
proof -
  have "par_inv (succs_of g) workers s"
    by (rule par_reachable_inv[OF assms(2)]) (use assms(1) in \<open>simp add: tables_ok_def succs_of_def\<close>)
  then show ?thesis using assms(1) by (simp add: par_inv_def tables_ok_def succs_of_def)
qed

lemma parallel_dependencies_witness: "length (par_flight demo_par) \<le> 2 \<and> distinct (started demo_par)"
  using parallel_dependencies[OF demo_tables(1) demo_run] by blast

text \<open>
  C11: Worker pool, progress.  A run without a failing node is never stuck: in every reachable state
  some step keeps it free of errors (so no counter is below its edges), or no node is in flight
  and every node has completed exactly once.
\<close>

theorem parallel_progress:
  assumes "tables_ok g" and "acyclic (rt_depends (rg_nodes g))" and "0 < workers"
    and "(par_step (succs_of g) workers)\<^sup>*\<^sup>* (par_start (map (\<lambda>n. length (rn_preds n)) (rg_nodes g))) s"
    and "\<not> par_error s"
  shows "(\<exists>s'. par_step (succs_of g) workers s s' \<and> \<not> par_error s') \<or>
    (par_flight s = [] \<and> distinct (par_done s) \<and> set (par_done s) = {..<length (rg_nodes g)})"
proof -
  have ok: "graph_ok (succs_of g) (map (\<lambda>n. length (rn_preds n)) (rg_nodes g))"
    and ed: "edge (succs_of g) = rt_depends (rg_nodes g)" and len: "length (succs_of g) = length (rg_nodes g)"
    using assms(1) by (simp_all add: tables_ok_def succs_of_def)
  have us: "\<forall>p < length (succs_of g). set (succs_of g ! p) \<subseteq> {..<length (succs_of g)}"
    using ok unfolding graph_ok_def by blast
  show ?thesis
    using par_progress[OF par_reachable_inv[OF assms(4) ok] assms(5,3) us] assms(2) unfolding ed len by blast
qed

lemma parallel_progress_witness: "\<exists>s'. par_step (succs_of demo_final) 2 demo_par s' \<and> \<not> par_error s'"
  using parallel_progress[OF demo_tables(1,2) _ demo_run] by (simp add: demo_par_def)

text \<open>
  C12: Worker pool, termination.  Whatever the interleaving and whatever fails, a run of \<open>n\<close>
  nodes has at most \<open>4 n\<close> scheduler steps, and where it ends no node is in flight.  If no node
  failed, it ends with every node completed exactly once, and it took exactly two steps per node
  and two per round, in at least as many rounds as the worker limit needs for \<open>n\<close> nodes.
\<close>

theorem parallel_terminates:
  assumes "tables_ok g" and "acyclic (rt_depends (rg_nodes g))" and "0 < workers"
    and "(par_step (succs_of g) workers ^^ k) (par_start (map (\<lambda>n. length (rn_preds n)) (rg_nodes g))) s"
  shows "k \<le> 4 * length (rg_nodes g) \<and>
    (\<not> (\<exists>s'. par_step (succs_of g) workers s s') \<longrightarrow> par_flight s = [] \<and>
       (\<not> par_error s \<longrightarrow> distinct (par_done s) \<and> set (par_done s) = {..<length (rg_nodes g)} \<and>
          (\<exists>rounds. length (rg_nodes g) \<le> workers * rounds \<and> k = 2 * length (rg_nodes g) + 2 * rounds)))"
proof -
  let ?n = "length (rg_nodes g)"
  have ok: "graph_ok (succs_of g) (map (\<lambda>n. length (rn_preds n)) (rg_nodes g))"
    and ed: "edge (succs_of g) = rt_depends (rg_nodes g)" and len: "length (succs_of g) = ?n"
    using assms(1) by (simp_all add: tables_ok_def succs_of_def)
  have us: "\<forall>p < length (succs_of g). set (succs_of g ! p) \<subseteq> {..<length (succs_of g)}"
    using ok unfolding graph_ok_def by blast
  note run = relpowp_imp_rtranclp[OF assms(4)]
  have inv: "par_inv (succs_of g) workers s" by (rule par_reachable_inv[OF run ok])
  have "k \<le> 4 * ?n" using par_run_measure[OF assms(4) ok] len by simp
  moreover have "par_flight s = []" if stuck: "\<not> (\<exists>s'. par_step (succs_of g) workers s s')"
    using par_stuck_settled[OF run stuck] par_progress[OF inv _ assms(3) us] stuck assms(2) ed
    by (cases "par_error s") auto
  moreover have "distinct (par_done s) \<and> set (par_done s) = {..<?n} \<and>
      (\<exists>rounds. ?n \<le> workers * rounds \<and> k = 2 * ?n + 2 * rounds)"
    if stuck: "\<not> (\<exists>s'. par_step (succs_of g) workers s s')" and err: "\<not> par_error s"
  proof -
    have fin: "par_flight s = []" "distinct (par_done s)" "set (par_done s) = {..<?n}"
      using par_progress[OF inv err assms(3) us] stuck assms(2) ed len by auto
    have nw: "\<not> par_waiting s" using par_step.resume[OF _ fin(1)] stuck by blast
    have "length (par_done s) = ?n" using distinct_card[OF fin(2)] fin(3) by simp
    moreover have "length (par_log s) = length (par_done s)"
      using inv err fin(1) mset_eq_length[of "started s" "par_done s"] by (simp add: par_inv_def started_def)
    ultimately show ?thesis
      using par_run_rounds[OF assms(4) ok err] fin nw by (auto simp: in_round_def)
  qed
  ultimately show ?thesis by blast
qed

text \<open>The whole run of the two nodes, each in a round of its own: the first waits for the second.\<close>

definition demo_end :: par_state where
  "demo_end = \<lparr>par_pending = [0, 0], par_ready = [], par_flight = [], par_done = [1, 0], par_error = False,
     par_waiting = False, par_log = [(1, {}), (0, {1})]\<rparr>"

lemma demo_round:
  assumes "u = \<lparr>par_pending = pending, par_ready = [i], par_flight = [], par_done = fin, par_error = False,
      par_waiting = False, par_log = log\<rparr>"
    and "\<And>v. count_list (users ! i) v \<le> pending ! v"
    and "release fifo_push (users ! i) (pending, []) = (pending', ready')"
  shows "(par_step users 2 ^^ 4) u \<lparr>par_pending = pending', par_ready = ready', par_flight = [],
      par_done = fin @ [i], par_error = False, par_waiting = False, par_log = log @ [(i, set fin)]\<rparr>"
proof -
  let ?a = "u\<lparr>par_ready := [], par_flight := [i], par_log := log @ [(i, set fin)]\<rparr>"
  let ?b = "?a\<lparr>par_waiting := True\<rparr>"
  let ?c = "?b\<lparr>par_flight := [], par_done := fin @ [i], par_pending := pending', par_ready := ready'\<rparr>"
  have "par_step users 2 u ?a" using par_step.launch[of u i "[]" 2 users] by (simp add: assms(1))
  moreover have "par_step users 2 ?a ?b" using par_step.wait[of ?a 2 users] by (simp add: assms(1))
  moreover have "par_step users 2 ?b ?c"
    using par_step.finish[of ?b i users pending' ready' 2] assms(2,3) by (simp add: assms(1))
  moreover have "par_step users 2 ?c (?c\<lparr>par_waiting := False\<rparr>)"
    using par_step.resume[of ?c users 2] by (simp add: assms(1))
  ultimately have "(par_step users 2 ^^ 4) u (?c\<lparr>par_waiting := False\<rparr>)"
    by (auto simp: eval_nat_numeral OO_def)
  then show ?thesis by (simp add: assms(1))
qed

lemma demo_whole_run:
  "(par_step (succs_of demo_final) 2 ^^ 8) (par_start (map (\<lambda>n. length (rn_preds n)) (rg_nodes demo_final))) demo_end"
proof -
  have p: "map (\<lambda>n. length (rn_preds n)) (rg_nodes demo_final) = [1, 0]" and u: "succs_of demo_final = [[], [0]]"
    by code_simp+
  let ?m = "\<lparr>par_pending = [0, 0], par_ready = [0], par_flight = [], par_done = [1], par_error = False,
     par_waiting = False, par_log = [(1, {})]\<rparr>"
  have "(par_step [[], [0]] 2 ^^ 4) (par_start [1, 0]) ?m"
    using demo_round[of "par_start [1, 0]" "[1, 0]" 1 "[]" "[]" "[[], [0]]" "[0, 0]" "[0]"]
    by (simp add: par_start_def initial_ready_def fifo_push_def dec64_def nth_Cons' split: if_splits)
  moreover have "(par_step [[], [0]] 2 ^^ 4) ?m demo_end"
    using demo_round[of ?m "[0, 0]" 0 "[1]" "[(1, {})]" "[[], [0]]" "[0, 0]" "[]"] by (simp add: demo_end_def)
  ultimately have "(par_step [[], [0]] 2 ^^ (4 + 4)) (par_start [1, 0]) demo_end"
    unfolding relpowp_add by blast
  then show ?thesis unfolding p u by simp
qed

lemma demo_end_stuck: "\<not> (\<exists>s'. par_step users workers demo_end s')"
  by (auto simp: demo_end_def elim: par_step.cases)

lemma parallel_terminates_witness:
  "set (par_done demo_end) = {..<2} \<and> (\<exists>rounds. 2 \<le> 2 * rounds \<and> (8::nat) = 2 * 2 + 2 * rounds)"
  using parallel_terminates[OF demo_tables(1,2) _ demo_whole_run] demo_end_stuck demo_tables(3)
  by (simp add: demo_end_def)

end
