(* ===== verification/Nd_Index.thy ===== *)
theory Nd_Index
  imports Shape
begin

text \<open>
  Row-major indexing as the common kernels do it: strides, linear offsets and coordinates
  (\<open>src/kernel/common/tensor_op_utils.h\<close>, \<open>elementwise_broadcast.h\<close>), and what they mean: within
  the dimensions, offsets and coordinates are inverse to each other.  A tensor's contents are a
  list of elements in row-major order beside its dimensions.
\<close>

section \<open>Strides, offsets, coordinates\<close>

text \<open>The loop from the last axis down: \<open>strides[i] = strides[i + 1] * dims[i + 1]\<close>.\<close>

fun ComputeStrides :: "i64 list \<Rightarrow> i64 list" where
  "ComputeStrides [] = []"
| "ComputeStrides [d] = [1]"
| "ComputeStrides (d # e # ds) = hd (ComputeStrides (e # ds)) * e # ComputeStrides (e # ds)"

text \<open>\<open>coords[axis] = linear / strides[axis]; linear %= strides[axis];\<close>\<close>

fun LinearToCoords :: "i64 \<Rightarrow> i64 list \<Rightarrow> i64 list" where
  "LinearToCoords linear [] = []"
| "LinearToCoords linear (s # ss) = linear div s # LinearToCoords (linear mod s) ss"

text \<open>\<open>offset += coords[axis] * strides[axis];\<close>\<close>

fun offset_of :: "i64 list \<Rightarrow> i64 list \<Rightarrow> i64" where
  "offset_of (c # cs) (s # ss) = c * s + offset_of cs ss"
| "offset_of _ _ = 0"

definition BroadcastOffset :: "i64 list \<Rightarrow> i64 list \<Rightarrow> i64 list \<Rightarrow> i64" where
  "BroadcastOffset output_coordinates input_dims input_strides =
     (let rank_gap = length output_coordinates - length input_dims in
      offset_of (map (\<lambda>axis. if input_dims ! axis = 1 then 0 else output_coordinates ! (axis + rank_gap))
                     [0..<length input_dims]) input_strides)"

lemma upt_split: "j < n \<Longrightarrow> [0..<n] = [0..<j] @ j # [Suc j..<n]"
  using upt_add_eq_append[of 0 j "n - j"] by (simp add: upt_conv_Cons)

section \<open>Coordinates within dimensions\<close>

definition in_dims :: "i64 list \<Rightarrow> i64 list \<Rightarrow> bool" where
  "in_dims dims cs \<longleftrightarrow> list_all2 (\<lambda>c d. 0 \<le> c \<and> c < d) cs dims"

abbreviation offset_in :: "i64 list \<Rightarrow> i64 list \<Rightarrow> i64" where
  "offset_in dims cs \<equiv> offset_of cs (ComputeStrides dims)"

abbreviation coords_in :: "i64 list \<Rightarrow> i64 \<Rightarrow> i64 list" where
  "coords_in dims l \<equiv> LinearToCoords l (ComputeStrides dims)"

lemma strides_Cons: "ComputeStrides (d # ds) = prod_list ds # ComputeStrides ds"
proof (induction ds arbitrary: d)
  case (Cons e ds)
  then show ?case by (simp add: mult.commute)
qed simp

declare ComputeStrides.simps(2,3) [simp del]
declare strides_Cons [simp]

lemma length_strides [simp]: "length (ComputeStrides ds) = length ds"
  by (induction ds) simp_all

lemma length_coords [simp]: "length (LinearToCoords l ss) = length ss"
  by (induction ss arbitrary: l) simp_all

lemma in_dims_simps [simp]:
  "in_dims [] cs \<longleftrightarrow> cs = []" "in_dims dims [] \<longleftrightarrow> dims = []"
  "in_dims (d # ds) (c # cs) \<longleftrightarrow> 0 \<le> c \<and> c < d \<and> in_dims ds cs"
  by (simp_all add: in_dims_def)

lemma in_dims_length: "in_dims dims cs \<Longrightarrow> length cs = length dims"
  by (auto simp: in_dims_def dest: list_all2_lengthD)

lemma in_dims_nth: "in_dims dims cs \<longleftrightarrow> length cs = length dims \<and> (\<forall>i < length dims. 0 \<le> cs ! i \<and> cs ! i < dims ! i)"
  by (auto simp: in_dims_def list_all2_conv_all_nth)

lemma in_dims_append:
  "length as = length cs \<Longrightarrow> in_dims (as @ bs) (cs @ ds) \<longleftrightarrow> in_dims as cs \<and> in_dims bs ds"
  unfolding in_dims_def by (rule list_all2_append) simp

lemma in_dims_pos: "in_dims dims cs \<Longrightarrow> d \<in> set dims \<Longrightarrow> 0 < d"
  by (fastforce simp: in_dims_nth in_set_conv_nth)

lemma offset_bounds:
  "in_dims dims cs \<Longrightarrow> 0 \<le> offset_in dims cs \<and> offset_in dims cs < prod_list dims"
proof (induction dims arbitrary: cs)
  case (Cons d ds)
  then obtain c cs' where cs: "cs = c # cs'" "0 \<le> c" "c < d" "in_dims ds cs'" by (cases cs) auto
  have IH: "0 \<le> offset_in ds cs'" "offset_in ds cs' < prod_list ds" using Cons.IH[OF cs(4)] by auto
  have "c * prod_list ds + prod_list ds = (c + 1) * prod_list ds" by (simp add: distrib_right)
  also have "\<dots> \<le> d * prod_list ds" using cs(3) IH by (intro mult_right_mono) auto
  finally show ?case using cs IH by simp
qed simp

lemma coords_of_offset:
  "in_dims dims cs \<Longrightarrow> coords_in dims (offset_in dims cs) = cs"
proof (induction dims arbitrary: cs)
  case (Cons d ds)
  then obtain c cs' where cs: "cs = c # cs'" "in_dims ds cs'" by (cases cs) auto
  have b: "0 \<le> offset_in ds cs'" "offset_in ds cs' < prod_list ds" using offset_bounds[OF cs(2)] by auto
  then have "(c * prod_list ds + offset_in ds cs') div prod_list ds = c"
    "(c * prod_list ds + offset_in ds cs') mod prod_list ds = offset_in ds cs'" by simp_all
  then show ?case using cs Cons.IH[OF cs(2)] by simp
qed simp

lemma coords_within:
  assumes "\<forall>d \<in> set dims. 0 < d" and "0 \<le> l" and "l < prod_list dims"
  shows "in_dims dims (coords_in dims l) \<and> offset_in dims (coords_in dims l) = l"
  using assms
proof (induction dims arbitrary: l)
  case (Cons d ds)
  have p: "0 < prod_list ds" using Cons.prems(1) by (intro prod_list_pos) simp
  have "in_dims ds (coords_in ds (l mod prod_list ds)) \<and>
      offset_in ds (coords_in ds (l mod prod_list ds)) = l mod prod_list ds"
    using Cons.IH[of "l mod prod_list ds"] Cons.prems(1) p by simp
  moreover have "l div prod_list ds < d"
  proof (rule ccontr)
    assume "\<not> l div prod_list ds < d"
    then have "d * prod_list ds \<le> l div prod_list ds * prod_list ds" using p by simp
    also have "\<dots> \<le> l" using p by (simp add: minus_mod_eq_div_mult[symmetric])
    finally show False using Cons.prems(3) by simp
  qed
  moreover have "0 \<le> l div prod_list ds" using Cons.prems(2) p by (simp add: pos_imp_zdiv_nonneg_iff)
  ultimately show ?case by simp
qed simp

lemma offset_inj:
  "in_dims dims cs \<Longrightarrow> in_dims dims cs' \<Longrightarrow> offset_in dims cs = offset_in dims cs' \<Longrightarrow> cs = cs'"
  using coords_of_offset by metis

lemma offset_append:
  "length cs = length as \<Longrightarrow>
   offset_in (as @ bs) (cs @ es) = offset_in as cs * prod_list bs + offset_in bs es"
proof (induction as arbitrary: cs)
  case (Cons a as)
  then obtain c cs' where "cs = c # cs'" "length cs' = length as" by (cases cs) auto
  then show ?case using Cons.IH[of cs'] by (simp add: prod_list_append distrib_right)
qed simp

section \<open>Tensors as arrays\<close>

text \<open>
  A tensor as a kernel sees it: its dimensions, the elements of its buffer as the type reads them,
  and its element type.
\<close>

record 'a nd =
  nd_dims :: "i64 list"
  nd_data :: "'a list"
  nd_type :: DataType

definition nd_ok :: "'a nd \<Rightarrow> bool" where
  "nd_ok t \<longleftrightarrow> (\<forall>d \<in> set (nd_dims t). 0 \<le> d) \<and> int (length (nd_data t)) = prod_list (nd_dims t)"

definition nd_at :: "'a nd \<Rightarrow> i64 list \<Rightarrow> 'a" where
  "nd_at t cs = nd_data t ! nat (offset_in (nd_dims t) cs)"

text \<open>The loop of a kernel that writes every element of its output, in order.\<close>

definition write_all :: "i64 \<Rightarrow> (i64 \<Rightarrow> 'a) \<Rightarrow> 'a list \<Rightarrow> 'a list" where
  "write_all n f out = fold (\<lambda>linear out. out[linear := f (int linear)]) [0..<nat n] out"

lemma write_all_upto:
  "k \<le> length out \<Longrightarrow> fold (\<lambda>linear out. out[linear := f (int linear)]) [0..<k] out =
     map (\<lambda>i. f (int i)) [0..<k] @ drop k out"
proof (induction k)
  case (Suc k)
  have "drop k out = out ! k # drop (Suc k) out" using Suc.prems by (simp add: Cons_nth_drop_Suc)
  then show ?case using Suc by (simp add: list_update_append)
qed simp

lemma write_all_eq:
  "nat n \<le> length out \<Longrightarrow> write_all n f out = map (\<lambda>i. f (int i)) [0..<nat n] @ drop (nat n) out"
  unfolding write_all_def by (simp add: write_all_upto)

text \<open>
  What such a loop computes, by coordinates: if \<open>f\<close> at a linear index is \<open>g\<close> of its coordinates,
  then the element of the output at any coordinates is \<open>g\<close> of them.
\<close>

lemma write_all_at:
  assumes "nat (prod_list dims) \<le> length out" and cs: "in_dims dims cs"
    and "\<And>l. 0 \<le> l \<Longrightarrow> l < prod_list dims \<Longrightarrow> f l = g (coords_in dims l)"
    and t: "nd_dims t = dims" "nd_data t = write_all (prod_list dims) f out"
  shows "nd_at t cs = g cs"
proof -
  let ?l = "offset_in dims cs"
  have l: "0 \<le> ?l" "?l < prod_list dims" using offset_bounds[OF cs] by auto
  then have "nat ?l < nat (prod_list dims)" by simp
  then have "write_all (prod_list dims) f out ! nat ?l = f ?l" using l(1) by (simp add: write_all_eq[OF assms(1)] nth_append)
  also have "\<dots> = g cs" using assms(3)[OF l] coords_of_offset[OF cs] by simp
  finally show ?thesis by (simp add: nd_at_def t)
qed

lemma length_fold_update: "length (fold (\<lambda>x out. out[p x := v x]) xs out) = length out"
  by (induction xs arbitrary: out) simp_all

lemma length_write_all [simp]: "length (write_all n f out) = length out"
  by (simp add: write_all_def length_fold_update)

section \<open>Broadcasting\<close>

text \<open>The input coordinates an output coordinate stands for.\<close>

definition project :: "i64 list \<Rightarrow> i64 list \<Rightarrow> i64 list" where
  "project dims cs = map2 (\<lambda>d c. if d = 1 then 0 else c) dims (drop (length cs - length dims) cs)"

lemma BroadcastOffset_project:
  assumes "length dims \<le> length cs"
  shows "BroadcastOffset cs dims (ComputeStrides dims) = offset_in dims (project dims cs)"
proof -
  let ?gap = "length cs - length dims"
  have "map (\<lambda>axis. if dims ! axis = 1 then 0 else cs ! (axis + ?gap)) [0..<length dims] = project dims cs"
    unfolding project_def using assms by (intro nth_equalityI) (auto simp: add.commute)
  then show ?thesis by (simp add: BroadcastOffset_def Let_def)
qed

end
