(* ===== verification/Op_Shapes.thy ===== *)
theory Op_Shapes
  imports Nd_Index Tensor_Storage Graph_Order "HOL-Library.Signed_Division"
begin

text \<open>
  Shape inference of the operators under \<open>src/operator/\<close>: the shared helpers of
  \<open>tensor_op_utils.h\<close> and \<open>elementwise_utils.h\<close>, and for each operator the check of its inputs'
  dimensions and the dimensions of its outputs; \<open>None\<close> is the code's \<open>-1\<close> or \<open>false\<close>.  A
  dimension \<open>0\<close> stands for one that is not known before the run.  The values of control tensors
  are arguments: \<open>None\<close> where \<open>ReadIntegerTensor\<close> fails.
\<close>

section \<open>Attributes\<close>

definition GetIntVectorAttribute :: "(string \<rightharpoonup> AttributeValue) \<Rightarrow> string \<Rightarrow> i64 list" where
  "GetIntVectorAttribute attributes key = (case attributes key of Some (AttrInts value) \<Rightarrow> value | _ \<Rightarrow> [])"

definition GetIntAttribute :: "(string \<rightharpoonup> AttributeValue) \<Rightarrow> string \<Rightarrow> i64 \<Rightarrow> i64" where
  "GetIntAttribute attributes key default_value =
     (case attributes key of Some (AttrInt value) \<Rightarrow> value | _ \<Rightarrow> default_value)"

text \<open>\<open>static_cast<int32_t>\<close>: the low 32 bits, as a signed number.\<close>

definition to_int32 :: "i64 \<Rightarrow> int" where
  "to_int32 x = (x + 2147483648) mod 4294967296 - 2147483648"

definition GetInt32Attribute :: "(string \<rightharpoonup> AttributeValue) \<Rightarrow> string \<Rightarrow> int \<Rightarrow> int" where
  "GetInt32Attribute attributes key default_value =
     (case attributes key of Some (AttrInt value) \<Rightarrow> to_int32 value | _ \<Rightarrow> default_value)"

definition IsFloatingPointDataType :: "DataType \<Rightarrow> bool" where
  "IsFloatingPointDataType data_type \<longleftrightarrow> data_type \<in> {FP16, BF16, FP32, FP8E4M3, FP8E5M2}"

definition NormalizeAxes :: "i64 list \<Rightarrow> i64 \<Rightarrow> bool \<Rightarrow> i64 list" where
  "NormalizeAxes axes rank for_unsqueeze =
     (let target_rank = (if for_unsqueeze then rank + int (length axes) else rank) in
      sort (map (\<lambda>axis. if axis < 0 then axis + target_rank else axis) axes))"

section \<open>Broadcasting\<close>

text \<open>\<open>i < out_rank - dims.size() ? 1 : dims[i - (out_rank - dims.size())]\<close>\<close>

definition aligned_dim :: "nat \<Rightarrow> i64 list \<Rightarrow> nat \<Rightarrow> i64" where
  "aligned_dim out_rank dims i = (if i < out_rank - length dims then 1 else dims ! (i - (out_rank - length dims)))"

text \<open>A loop over the axes that fills in one dimension each or fails.\<close>

definition for_axes :: "nat \<Rightarrow> (nat \<Rightarrow> i64 option) \<Rightarrow> i64 list option" where
  "for_axes rank f = (if \<exists>i \<in> set [0..<rank]. f i = None then None else Some (map (\<lambda>i. the (f i)) [0..<rank]))"

definition broadcast_dim :: "i64 \<Rightarrow> i64 \<Rightarrow> i64 option" where
  "broadcast_dim l r = (if l \<noteq> r \<and> l \<noteq> 1 \<and> r \<noteq> 1 then None else Some (max l r))"

text \<open>\<open>elementwise_detail::InferBroadcastShape\<close>, which the common kernels repeat.\<close>

definition InferBroadcastShape :: "i64 list \<Rightarrow> i64 list \<Rightarrow> i64 list option" where
  "InferBroadcastShape lhs_dims rhs_dims =
     (let out_rank = max (length lhs_dims) (length rhs_dims) in
      for_axes out_rank (\<lambda>i. broadcast_dim (aligned_dim out_rank lhs_dims i) (aligned_dim out_rank rhs_dims i)))"

text \<open>\<open>tensor_op_detail::InferBroadcastShape\<close>, which keeps unknown dimensions unknown.\<close>

definition broadcast_unknown :: "i64 \<Rightarrow> i64 \<Rightarrow> i64 option" where
  "broadcast_unknown l r =
     (if l < 0 \<or> r < 0 then None else if l = 0 \<or> r = 0 then Some 0
      else if l \<noteq> r \<and> l \<noteq> 1 \<and> r \<noteq> 1 then None else Some (max l r))"

definition InferBroadcastShapeUnknown :: "i64 list \<Rightarrow> i64 list \<Rightarrow> i64 list option" where
  "InferBroadcastShapeUnknown lhs_dims rhs_dims =
     (let out_rank = max (length lhs_dims) (length rhs_dims) in
      for_axes out_rank (\<lambda>i. broadcast_unknown (aligned_dim out_rank lhs_dims i) (aligned_dim out_rank rhs_dims i)))"

section \<open>Allocating outputs\<close>

text \<open>The product of a shape in \<open>size_t\<close>, which wraps; \<open>0\<close> when a dimension is negative.\<close>

fun numel_from :: "size_t \<Rightarrow> i64 list \<Rightarrow> size_t" where
  "numel_from n [] = n"
| "numel_from n (d # ds) = (if d < 0 then 0 else numel_from (mul64 n (nat d)) ds)"

definition NumelForShape :: "i64 list \<Rightarrow> size_t" where
  "NumelForShape shape = numel_from 1 shape"

text \<open>The outer option is an exception of \<open>ResetBuffer\<close>, the inner one a null answer.\<close>

definition AllocateOutput ::
  "Tensor option \<Rightarrow> i64 list \<Rightarrow> DataType \<Rightarrow> world \<Rightarrow> (world \<times> Tensor option) option" where
  "AllocateOutput output shape data_type w =
     (let elements = NumelForShape shape; element_bytes = DataTypeBytes data_type in
      if element_bytes = 0 then Some (w, None)
      else
        (let bytes = mul64 elements element_bytes;
             quantization = (case output of None \<Rightarrow> default_quantization | Some t \<Rightarrow> m_quantization t);
             layout = (case output of None \<Rightarrow> ND | Some t \<Rightarrow> m_layout t);
             result = (case output of None \<Rightarrow> empty_Tensor | Some t \<Rightarrow> t);
             describe = (\<lambda>t. (set_quantization quantization (t\<lparr>m_dims := shape, m_data_type := data_type\<rparr>))\<lparr>m_layout := layout\<rparr>)
         in if elements = 0 then Some (w, Some (describe result))
            else if \<not> IsInitialized w result \<or> m_memory_size result < bytes
            then (let (w1, b) = new_buffer bytes w in
                  map_option (\<lambda>(w2, t). (w2, Some (describe t))) (ResetBuffer b bytes 0 result w1))
            else Some (w, Some (describe result))))"

definition InferSameTypeOutput ::
  "Tensor \<Rightarrow> Tensor option \<Rightarrow> i64 list \<Rightarrow> world \<Rightarrow> (world \<times> Tensor option) option" where
  "InferSameTypeOutput input output shape w =
     (let output_data_type = (if m_data_type input = UNKNOWN then FP32 else m_data_type input);
          output_quantization = (case output of
             Some t \<Rightarrow> if q_enabled (m_quantization t) then m_quantization t else m_quantization input
           | None \<Rightarrow> m_quantization input);
          output_layout = (case output of
             Some t \<Rightarrow> if m_layout t \<noteq> ND then m_layout t else m_layout input | None \<Rightarrow> m_layout input)
      in map_option (\<lambda>(w', result).
           (w', map_option (\<lambda>t. (set_quantization output_quantization t)\<lparr>m_layout := output_layout\<rparr>) result))
         (AllocateOutput output shape output_data_type w))"

section \<open>Reshape\<close>

text \<open>The element count of the input and whether all its dimensions are known; overflow fails.\<close>

fun known_count :: "i64 list \<Rightarrow> i64 \<Rightarrow> (bool \<times> i64) option" where
  "known_count [] n = Some (True, n)"
| "known_count (d # ds) n =
     (if d \<le> 0 then Some (False, n) else if n > INT64_MAX div d then None else known_count ds (n * d))"

text \<open>The loop over the requested shape: the product of its known dimensions, the axis to infer (\<open>-1\<close> for none), the target.\<close>

fun resolve_dims :: "i64 list \<Rightarrow> i64 list \<Rightarrow> i64 \<times> i64 \<times> i64 list \<Rightarrow> (i64 \<times> i64 \<times> i64 list) option" where
  "resolve_dims input_dims [] s = Some s"
| "resolve_dims input_dims (raw # raws) (known, infer_axis, target) =
     (if raw = -1
      then (if 0 \<le> infer_axis then None
            else resolve_dims input_dims raws (known, int (length target), target @ [0]))
      else if raw < 0 then None
      else if raw = 0 \<and> (length input_dims \<le> length target \<or> input_dims ! length target < 0) then None
      else
        (let dim = (if raw = 0 then input_dims ! length target else raw) in
         if dim = 0 then resolve_dims input_dims raws (known, infer_axis, target @ [0])
         else if known > INT64_MAX div dim then None
         else resolve_dims input_dims raws (known * dim, infer_axis, target @ [dim])))"

fun checked_product :: "i64 list \<Rightarrow> i64 \<Rightarrow> i64 option" where
  "checked_product [] n = Some n"
| "checked_product (d # ds) n = (if d \<le> 0 \<or> n > INT64_MAX div d then None else checked_product ds (n * d))"

definition infer_dim :: "i64 \<Rightarrow> i64 \<times> i64 \<times> i64 list \<Rightarrow> i64 list option" where
  "infer_dim input_numel s =
     (let (known, infer_axis, target) = s in
      if infer_axis < 0 then Some target
      else if known = 0 \<or> input_numel mod known \<noteq> 0 \<or> input_numel div known \<le> 0 then None
      else Some (target[nat infer_axis := input_numel div known]))"

definition ResolveTargetShape :: "i64 list \<Rightarrow> i64 list \<Rightarrow> i64 list option" where
  "ResolveTargetShape input_dims raw_shape =
     (if raw_shape = [] then None
      else case known_count input_dims 1 of None \<Rightarrow> None
      | Some (input_shape_known, input_numel) \<Rightarrow>
          (case resolve_dims input_dims raw_shape (1, -1, []) of None \<Rightarrow> None
           | Some (known, infer_axis, target) \<Rightarrow>
               if \<not> input_shape_known then Some target
               else case infer_dim input_numel (known, infer_axis, target) of None \<Rightarrow> None
               | Some target' \<Rightarrow>
                   if checked_product target' 1 = Some input_numel then Some target' else None))"

section \<open>Squeeze and unsqueeze\<close>

definition insert_at :: "nat \<Rightarrow> 'a \<Rightarrow> 'a list \<Rightarrow> 'a list" where
  "insert_at i x xs = take i xs @ x # drop i xs"

fun insert_ones :: "i64 list \<Rightarrow> i64 list \<Rightarrow> i64 list option" where
  "insert_ones [] shape = Some shape"
| "insert_ones (axis # axes) shape =
     (if axis < 0 \<or> int (length shape) < axis then None
      else insert_ones axes (insert_at (nat axis) 1 shape))"

definition UnsqueezeShape :: "i64 list \<Rightarrow> i64 list \<Rightarrow> i64 list option" where
  "UnsqueezeShape axes shape =
     (if axes = [] then None
      else let normalized = NormalizeAxes axes (int (length shape)) True in
        if \<not> distinct normalized then None else insert_ones normalized shape)"

definition SqueezeShape :: "i64 list \<Rightarrow> i64 list \<Rightarrow> i64 list option" where
  "SqueezeShape axes shape =
     (if axes = [] then None
      else let normalized = NormalizeAxes axes (int (length shape)) False in
        if \<not> distinct normalized \<or> (\<exists>axis \<in> set normalized. axis < 0 \<or> int (length shape) \<le> axis) \<or>
           (\<exists>axis \<in> set normalized. shape ! nat axis \<noteq> 1)
        then None
        else let squeezed = map (\<lambda>i. shape ! i) (filter (\<lambda>i. int i \<notin> set normalized) [0..<length shape])
             in Some (if squeezed = [] then [1] else squeezed))"

section \<open>Transpose\<close>

fun mark_axes :: "nat \<Rightarrow> i64 list \<Rightarrow> bool list \<Rightarrow> bool" where
  "mark_axes rank [] seen = True"
| "mark_axes rank (axis # perm) seen =
     (if axis < 0 \<or> int rank \<le> axis \<or> seen ! nat axis then False
      else mark_axes rank perm (seen[nat axis := True]))"

definition IsValidPermutation :: "i64 list \<Rightarrow> nat \<Rightarrow> bool" where
  "IsValidPermutation perm rank \<longleftrightarrow> length perm = rank \<and> mark_axes rank perm (replicate rank False)"

text \<open>\<open>while (next < rank && input_dims[next] == 1) ++next;\<close>\<close>

function skip_singletons :: "i64 list \<Rightarrow> nat \<Rightarrow> nat" where
  "skip_singletons dims k = (if k < length dims \<and> dims ! k = 1 then skip_singletons dims (Suc k) else k)"
  by auto
termination by (relation "measure (\<lambda>(dims, k). length dims - k)") auto

declare skip_singletons.simps [simp del]

fun keeps_order :: "i64 list \<Rightarrow> i64 list \<Rightarrow> nat \<Rightarrow> bool" where
  "keeps_order dims [] k = True"
| "keeps_order dims (source_axis # perm) k =
     (let axis = nat source_axis in
      if dims ! axis = 1 then keeps_order dims perm k
      else let k' = skip_singletons dims k in
        if k' = length dims \<or> axis \<noteq> k' then False else keeps_order dims perm (Suc k'))"

definition IsContiguousViewPermutation :: "i64 list \<Rightarrow> i64 list \<Rightarrow> bool" where
  "IsContiguousViewPermutation dims perm \<longleftrightarrow> IsValidPermutation perm (length dims) \<and> keeps_order dims perm 0"

definition TransposeShape :: "i64 list \<Rightarrow> i64 list \<Rightarrow> i64 list option" where
  "TransposeShape perm dims =
     (if dims = [] \<or> \<not> IsValidPermutation perm (length dims) then None
      else Some (map (\<lambda>axis. dims ! nat axis) perm))"

section \<open>Concat, split and slice\<close>

definition resolve_axis :: "int \<Rightarrow> nat \<Rightarrow> int" where
  "resolve_axis axis rank = (if axis < 0 then axis + int rank else axis)"

definition CheckConcatShape :: "int \<Rightarrow> i64 list list \<Rightarrow> bool" where
  "CheckConcatShape axis_attr inputs \<longleftrightarrow>
     2 \<le> length inputs \<and> hd inputs \<noteq> [] \<and>
     (let base = hd inputs; axis = resolve_axis axis_attr (length base) in
      0 \<le> axis \<and> axis < int (length base) \<and>
      (\<forall>dims \<in> set inputs. length dims = length base \<and>
         (\<forall>i \<in> set [0..<length base]. int i \<noteq> axis \<longrightarrow> dims ! i = base ! i)))"

definition InferConcatOutputShape :: "int \<Rightarrow> i64 list list \<Rightarrow> i64 list" where
  "InferConcatOutputShape axis_attr inputs =
     (let axis = nat (resolve_axis axis_attr (length (hd inputs))) in
      (hd inputs)[axis := foldl (\<lambda>n dims. n + dims ! axis) 0 inputs])"

definition CheckSplitShape :: "int \<Rightarrow> i64 list \<Rightarrow> nat \<Rightarrow> i64 list \<Rightarrow> bool" where
  "CheckSplitShape axis_attr split_sizes outputs dims \<longleftrightarrow>
     outputs \<noteq> 0 \<and> dims \<noteq> [] \<and> outputs = length split_sizes \<and>
     (let axis = resolve_axis axis_attr (length dims) in
      0 \<le> axis \<and> axis < int (length dims) \<and> (\<forall>n \<in> set split_sizes. 0 < n) \<and>
      foldl (+) 0 split_sizes = dims ! nat axis)"

definition InferSplitOutputShape :: "int \<Rightarrow> i64 list \<Rightarrow> i64 list \<Rightarrow> nat \<Rightarrow> i64 list" where
  "InferSplitOutputShape axis_attr split_sizes dims i =
     dims[nat (resolve_axis axis_attr (length dims)) := split_sizes ! i]"

text \<open>The window \<open>[start, end)\<close> of a slice, clipped to the dimension.\<close>

definition slice_window :: "i64 \<Rightarrow> int \<Rightarrow> int \<Rightarrow> i64 \<times> i64" where
  "slice_window dim start stop =
     (max 0 (if start < 0 then start + dim else start), min dim (if stop < 0 then stop + dim else stop))"

text \<open>Axis, start and end from the attributes, or from one-element control tensors with step one.\<close>

record SliceParam =
  sl_axis :: int
  sl_start :: int
  sl_end :: int
  sl_controls :: "(i64 list option \<times> i64 list option \<times> i64 list option \<times> i64 list option option) option"

definition slice_bounds :: "SliceParam \<Rightarrow> (int \<times> int \<times> int) option" where
  "slice_bounds p =
     (case sl_controls p of
        None \<Rightarrow> Some (sl_axis p, sl_start p, sl_end p)
      | Some (Some [start], Some [stop], Some [axis], steps) \<Rightarrow>
          if steps = None \<or> steps = Some (Some [1])
          then Some (to_int32 axis, to_int32 start, to_int32 stop) else None
      | _ \<Rightarrow> None)"

definition SliceShape :: "SliceParam \<Rightarrow> i64 list \<Rightarrow> i64 list option" where
  "SliceShape p dims =
     (case slice_bounds p of None \<Rightarrow> None
      | Some (axis_attr, start_attr, end_attr) \<Rightarrow>
          (let axis = resolve_axis axis_attr (length dims) in
           if dims = [] \<or> axis < 0 \<or> int (length dims) \<le> axis then None
           else (let (start, stop) = slice_window (dims ! nat axis) start_attr end_attr in
                 if start < stop then Some (dims[nat axis := stop - start]) else None)))"

section \<open>Flatten, expand, gather, where, reductions\<close>

definition FlattenShape :: "int \<Rightarrow> i64 list \<Rightarrow> i64 list option" where
  "FlattenShape axis dims =
     (if 0 \<le> axis \<and> axis \<le> int (length dims)
      then Some [DDim_count dims 0 axis, DDim_count dims axis (int (length dims))] else None)"

definition InferExpandedShape :: "i64 list \<Rightarrow> i64 list \<Rightarrow> i64 list option" where
  "InferExpandedShape input_shape target_shape =
     (if length target_shape < length input_shape then None
      else for_axes (length target_shape) (\<lambda>i.
        (let input_dim = aligned_dim (length target_shape) input_shape i; target_dim = target_shape ! i in
         if input_dim < 0 \<or> target_dim < 0 \<or> (input_dim \<noteq> target_dim \<and> input_dim \<noteq> 1 \<and> target_dim \<noteq> 1)
         then None else Some (max input_dim target_dim))))"

text \<open>A target with a dimension not known yet is taken as it is.\<close>

definition ExpandShape :: "i64 list \<Rightarrow> i64 list option \<Rightarrow> i64 list option" where
  "ExpandShape input_shape target =
     (case target of None \<Rightarrow> None
      | Some target_shape \<Rightarrow>
          if target_shape = [] then None
          else if 0 \<in> set target_shape then Some target_shape
          else InferExpandedShape input_shape target_shape)"

definition GatherShape :: "int \<Rightarrow> i64 list \<Rightarrow> i64 list \<Rightarrow> i64 list option" where
  "GatherShape axis_attr data_shape indices_shape =
     (let axis = resolve_axis axis_attr (length data_shape) in
      if axis < 0 \<or> int (length data_shape) \<le> axis then None
      else (let out = take (nat axis) data_shape @ indices_shape @ drop (nat axis + 1) data_shape
            in Some (if out = [] then [1] else out)))"

definition WhereShape :: "i64 list \<Rightarrow> i64 list \<Rightarrow> i64 list \<Rightarrow> i64 list option" where
  "WhereShape condition_dims x_dims y_dims =
     Option.bind (InferBroadcastShapeUnknown condition_dims x_dims) (\<lambda>shape. InferBroadcastShapeUnknown shape y_dims)"

definition ResolveReduceAxes :: "i64 list \<Rightarrow> nat \<Rightarrow> i64 list" where
  "ResolveReduceAxes axes rank =
     (let normalized = NormalizeAxes axes (int rank) False in
      if normalized = [] then map int [0..<rank] else normalized)"

definition ReduceShape :: "i64 list \<Rightarrow> bool \<Rightarrow> i64 list \<Rightarrow> i64 list option" where
  "ReduceShape axes_attr keepdims input_shape =
     (let axes = ResolveReduceAxes axes_attr (length input_shape) in
      if (\<exists>axis \<in> set axes. axis < 0 \<or> int (length input_shape) \<le> axis) \<or> \<not> distinct axes then None
      else (let out = concat (map (\<lambda>i. if int i \<in> set axes then (if keepdims then [1] else []) else [input_shape ! i])
                             [0..<length input_shape])
            in Some (if out = [] then [1] else out)))"

section \<open>Matrix products, convolution and pooling\<close>

definition matmul_batch_dim :: "i64 \<Rightarrow> i64 \<Rightarrow> i64 option" where
  "matmul_batch_dim a b =
     (if a < 0 \<or> b < 0 then None
      else if a \<noteq> b \<and> a \<noteq> 0 \<and> b \<noteq> 0 \<and> a \<noteq> 1 \<and> b \<noteq> 1 then None
      else Some (if a = 0 \<or> b = 0 then 0 else max a b))"

fun matmul_numel :: "i64 list \<Rightarrow> i64 \<Rightarrow> i64 option" where
  "matmul_numel [] n = Some n"
| "matmul_numel (d # ds) n =
     (if d < 0 then None else if d = 0 then matmul_numel ds 0
      else if n \<noteq> 0 \<and> n > INT64_MAX div d then None else matmul_numel ds (n * d))"

definition MatMulShape :: "i64 list \<Rightarrow> i64 list \<Rightarrow> i64 list option" where
  "MatMulShape a_dims b_dims =
     (if length a_dims < 2 \<or> length b_dims < 2 then None
      else
        (let a_k = last a_dims; b_k = b_dims ! (length b_dims - 2);
             batch_rank = max (length a_dims) (length b_dims) - 2 in
         if \<not> (a_k < 0 \<or> b_k < 0 \<or> a_k = 0 \<or> b_k = 0 \<or> a_k = b_k) then None
         else case for_axes batch_rank (\<lambda>i.
                matmul_batch_dim (aligned_dim batch_rank (take (length a_dims - 2) a_dims) i)
                                 (aligned_dim batch_rank (take (length b_dims - 2) b_dims) i)) of
           None \<Rightarrow> None
         | Some batch \<Rightarrow>
             (let out = batch @ [a_dims ! (length a_dims - 2), last b_dims] in
              if matmul_numel out 1 = None then None else Some out)))"

text \<open>\<open>(in + 2 * pad - dilation * (kernel - 1) - 1) / stride + 1\<close> with the division of C++, which truncates.\<close>

definition conv_out :: "i64 \<Rightarrow> int \<Rightarrow> int \<Rightarrow> i64 \<Rightarrow> int \<Rightarrow> i64" where
  "conv_out inp pad dilation ksize stride = (inp + 2 * pad - dilation * (ksize - 1) - 1) sdiv stride + 1"

record Conv2dParam =
  cv_stride_h :: int
  cv_stride_w :: int
  cv_pad_h :: int
  cv_pad_w :: int
  cv_dilation_h :: int
  cv_dilation_w :: int
  cv_group :: int

definition conv_attributes_ok :: "Conv2dParam \<Rightarrow> bool" where
  "conv_attributes_ok p \<longleftrightarrow> 0 < cv_stride_h p \<and> 0 < cv_stride_w p \<and> 0 \<le> cv_pad_h p \<and> 0 \<le> cv_pad_w p \<and>
     0 < cv_dilation_h p \<and> 0 < cv_dilation_w p \<and> 0 < cv_group p"

text \<open>The bias, when given and initialized, by its dimensions.\<close>

definition Conv2dShape ::
  "Conv2dParam \<Rightarrow> i64 list \<Rightarrow> DataLayout \<Rightarrow> i64 list \<Rightarrow> i64 list option \<Rightarrow> i64 list option" where
  "Conv2dShape p input_dims layout w_dims bias =
     (if \<not> conv_attributes_ok p then None
      else if length input_dims = 2 \<and> length w_dims = 2 then
        (let out_h = conv_out (input_dims ! 0) (cv_pad_h p) (cv_dilation_h p) (w_dims ! 0) (cv_stride_h p);
             out_w = conv_out (input_dims ! 1) (cv_pad_w p) (cv_dilation_w p) (w_dims ! 1) (cv_stride_w p) in
         if out_h \<le> 0 \<or> out_w \<le> 0 \<or> (case bias of Some dims \<Rightarrow> dims \<noteq> [out_h, out_w] | None \<Rightarrow> False) then None
         else Some [out_h, out_w])
      else if length input_dims \<noteq> 4 \<or> length w_dims \<noteq> 4 then None
      else case DecodeImageShape4D input_dims layout of None \<Rightarrow> None
      | Some s \<Rightarrow>
          (let out_h = conv_out (shape_h s) (cv_pad_h p) (cv_dilation_h p) (w_dims ! 2) (cv_stride_h p);
               out_w = conv_out (shape_w s) (cv_pad_w p) (cv_dilation_w p) (w_dims ! 3) (cv_stride_w p) in
           if shape_c s smod cv_group p \<noteq> 0 \<or> w_dims ! 1 * cv_group p \<noteq> shape_c s \<or> out_h \<le> 0 \<or> out_w \<le> 0 \<or>
              (case bias of Some dims \<Rightarrow> map_option int (CheckedElementCount dims) \<noteq> Some (w_dims ! 0) | None \<Rightarrow> False)
           then None
           else Some (EncodeImageShape4D \<lparr>shape_n = input_dims ! 0, shape_c = w_dims ! 0, shape_h = out_h, shape_w = out_w\<rparr>
                        (NormalizeDataLayout layout))))"

record PoolParam =
  pl_kernel_h :: int
  pl_kernel_w :: int
  pl_stride_h :: int
  pl_stride_w :: int
  pl_pad_h :: int
  pl_pad_w :: int

definition pool_out :: "i64 \<Rightarrow> int \<Rightarrow> int \<Rightarrow> int \<Rightarrow> i64" where
  "pool_out inp ksize pad stride = (inp - ksize + 2 * pad) sdiv stride + 1"

definition CheckPoolShape :: "PoolParam \<Rightarrow> i64 list \<Rightarrow> DataLayout \<Rightarrow> bool" where
  "CheckPoolShape p dims layout \<longleftrightarrow>
     (length dims = 2 \<or> length dims = 4) \<and>
     0 < pl_kernel_h p \<and> 0 < pl_kernel_w p \<and> 0 < pl_stride_h p \<and> 0 < pl_stride_w p \<and> 0 \<le> pl_pad_h p \<and> 0 \<le> pl_pad_w p \<and>
     (let height_axis = (if length dims = 2 then 0 else HeightAxisForLayout layout);
          width_axis = (if length dims = 2 then 1 else WidthAxisForLayout layout) in
      0 < pool_out (dims ! height_axis) (pl_kernel_h p) (pl_pad_h p) (pl_stride_h p) \<and>
      0 < pool_out (dims ! width_axis) (pl_kernel_w p) (pl_pad_w p) (pl_stride_w p))"

definition InferPoolOutputShape :: "PoolParam \<Rightarrow> i64 list \<Rightarrow> DataLayout \<Rightarrow> i64 list" where
  "InferPoolOutputShape p dims layout =
     (if length dims = 2
      then [pool_out (dims ! 0) (pl_kernel_h p) (pl_pad_h p) (pl_stride_h p),
            pool_out (dims ! 1) (pl_kernel_w p) (pl_pad_w p) (pl_stride_w p)]
      else case DecodeImageShape4D dims layout of None \<Rightarrow> []
      | Some s \<Rightarrow> EncodeImageShape4D
          \<lparr>shape_n = shape_n s, shape_c = shape_c s,
           shape_h = pool_out (shape_h s) (pl_kernel_h p) (pl_pad_h p) (pl_stride_h p),
           shape_w = pool_out (shape_w s) (pl_kernel_w p) (pl_pad_w p) (pl_stride_w p)\<rparr>
          (NormalizeDataLayout layout))"

definition GlobalAveragePoolShape :: "i64 list \<Rightarrow> i64 list option" where
  "GlobalAveragePoolShape dims = (if length dims \<noteq> 4 then None else Some [dims ! 0, dims ! 1, 1, 1])"

section \<open>Reshape: the abstract contract\<close>

text \<open>
  The contract of \<open>ResolveTargetShape\<close>, without its accumulators: position by position a positive
  request is taken, a \<open>0\<close> copies the input's dimension, and at most one \<open>-1\<close> is free, so that all
  dimensions are positive and the number of elements stays the same.
\<close>

fun matches :: "i64 list \<Rightarrow> nat \<Rightarrow> i64 list \<Rightarrow> i64 list \<Rightarrow> bool" where
  "matches ds i [] out \<longleftrightarrow> out = []"
| "matches ds i (r # rs) [] \<longleftrightarrow> False"
| "matches ds i (r # rs) (d # out) \<longleftrightarrow>
     (r = -1 \<or> r = 0 \<and> i < length ds \<and> d = ds ! i \<or> 0 < r \<and> d = r) \<and> matches ds (Suc i) rs out"

definition reshapes :: "i64 list \<Rightarrow> i64 list \<Rightarrow> i64 list \<Rightarrow> bool" where
  "reshapes ds raw out \<longleftrightarrow> raw \<noteq> [] \<and> matches ds 0 raw out \<and> count_list raw (-1) \<le> 1 \<and>
     (\<forall>d \<in> set out. 0 < d) \<and> prod_list out = prod_list ds"

lemma matches_length: "matches ds i raw out \<Longrightarrow> length out = length raw"
  by (induction ds i raw out rule: matches.induct) auto

lemma matches_append:
  "matches ds i (r1 @ r2) out \<longleftrightarrow>
     matches ds i r1 (take (length r1) out) \<and> matches ds (i + length r1) r2 (drop (length r1) out)"
proof (induction r1 arbitrary: i out)
  case (Cons r r1)
  then show ?case by (cases out) simp_all
qed simp

lemma matches_pos:
  "matches ds i raw out \<Longrightarrow> \<forall>d \<in> set ds. 0 < d \<Longrightarrow> -1 \<notin> set raw \<Longrightarrow> \<forall>d \<in> set out. 0 < d"
  by (induction ds i raw out rule: matches.induct) auto

lemma matches_other: "0 \<notin> set raw \<Longrightarrow> matches ds i raw out \<longleftrightarrow> matches ds' i raw out"
  by (induction ds i raw out rule: matches.induct) auto

lemma mul_bound: "0 < (d::int) \<Longrightarrow> n > INT64_MAX div d \<longleftrightarrow> INT64_MAX < n * d"
proof (rule iffI)
  assume d: "0 < d" and "INT64_MAX div d < n"
  then have "(INT64_MAX div d + 1) * d \<le> n * d" by (intro mult_right_mono) auto
  moreover have "INT64_MAX < (INT64_MAX div d + 1) * d"
    using pos_mod_bound[OF d, of INT64_MAX] div_mult_mod_eq[of INT64_MAX d] unfolding distrib_right by linarith
  ultimately show "INT64_MAX < n * d" by simp
next
  assume d: "0 < d" and lt: "INT64_MAX < n * d"
  show "INT64_MAX div d < n"
  proof (rule ccontr)
    assume "\<not> INT64_MAX div d < n"
    then have "n * d \<le> INT64_MAX div d * d" using d by (intro mult_right_mono) auto
    also have "\<dots> \<le> INT64_MAX" using pos_mod_sign[OF d, of INT64_MAX] div_mult_mod_eq[of INT64_MAX d] by linarith
    finally show False using lt by simp
  qed
qed

lemma mul_grows: "0 < (a::int) \<Longrightarrow> 0 < b \<Longrightarrow> 0 < p \<Longrightarrow> a * b \<le> a * b * p"
  using mult_left_mono[of 1 p "a * b"] by simp

lemma known_count_pos:
  assumes "\<forall>d \<in> set ds. 0 < d" and "0 < n" and "n \<le> INT64_MAX"
  shows "known_count ds n = (if n * prod_list ds \<le> INT64_MAX then Some (True, n * prod_list ds) else None)"
  using assms
proof (induction ds arbitrary: n)
  case (Cons d ds)
  have d: "0 < d" and p: "0 < prod_list ds" using Cons.prems(1) by (auto intro: prod_list_pos)
  show ?case
  proof (cases "INT64_MAX < n * d")
    case True
    have "n * d \<le> n * d * prod_list ds" using mul_grows[OF Cons.prems(2) d p] .
    then show ?thesis using True d by (simp add: mul_bound mult.assoc)
  next
    case False
    then show ?thesis using Cons d by (simp add: mul_bound mult.assoc)
  qed
qed simp

lemma resolve_dims_append:
  "resolve_dims ds (r1 @ r2) s = Option.bind (resolve_dims ds r1 s) (resolve_dims ds r2)"
proof (induction r1 arbitrary: s)
  case (Cons r r1)
  obtain known axis target where s: "s = (known, axis, target)" by (cases s)
  show ?case unfolding s append_Cons resolve_dims.simps Let_def Cons by (simp split: if_split)
qed simp

lemma checked_product_pos:
  assumes "0 < n" and "n \<le> INT64_MAX"
  shows "checked_product ds n = Some m \<longleftrightarrow> (\<forall>d \<in> set ds. 0 < d) \<and> m = n * prod_list ds \<and> m \<le> INT64_MAX"
  using assms
proof (induction ds arbitrary: n)
  case (Cons d ds)
  show ?case
  proof (cases "0 < d")
    case d: True
    show ?thesis
    proof (cases "INT64_MAX < n * d")
      case True
      have "INT64_MAX < n * (d * prod_list ds)" if "\<forall>d \<in> set ds. 0 < d"
      proof -
        have "0 < prod_list ds" using that by (intro prod_list_pos) simp
        then have "n * d \<le> n * d * prod_list ds" using Cons.prems(1) d by (intro mul_grows)
        then show ?thesis using True by (simp add: mult.assoc)
      qed
      then show ?thesis using True d by (auto simp: mul_bound)
    next
      case False
      then show ?thesis using Cons.IH[of "n * d"] Cons.prems d by (simp add: mul_bound mult.assoc)
    qed
  qed simp
qed auto

text \<open>A run of requests without \<open>-1\<close>.\<close>

lemma resolve_dims_fixed:
  assumes "\<forall>d \<in> set ds. 0 < d" and "-1 \<notin> set raws" and "0 < k" and "k \<le> INT64_MAX"
  shows "resolve_dims ds raws (k, axis, target) = Some s \<longleftrightarrow>
    (\<exists>out. matches ds (length target) raws out \<and> k * prod_list out \<le> INT64_MAX \<and>
           s = (k * prod_list out, axis, target @ out))"
  using assms(2-)
proof (induction raws arbitrary: k target)
  case (Cons r raws)
  define d where "d = (if r = 0 then ds ! length target else r)"
  show ?case
  proof (cases "r < 0 \<or> r = 0 \<and> length ds \<le> length target")
    case True
    then have "\<not> matches ds (length target) (r # raws) out" for out using Cons.prems(1) by (cases out) auto
    moreover have "resolve_dims ds (r # raws) (k, axis, target) = None" using True Cons.prems(1) by auto
    ultimately show ?thesis by auto
  next
    case False
    then have d: "0 < d" using assms(1) by (auto simp: d_def)
    have step: "resolve_dims ds (r # raws) (k, axis, target) =
        (if INT64_MAX < k * d then None else resolve_dims ds raws (k * d, axis, target @ [d]))"
      using False d assms(1) Cons.prems(1) by (auto simp: d_def mul_bound Let_def)
    have M: "matches ds (length target) (r # raws) out \<longleftrightarrow>
        (\<exists>rest. out = d # rest \<and> matches ds (Suc (length target)) raws rest)" for out
      using False Cons.prems(1) by (cases out) (auto simp: d_def)
    show ?thesis
    proof (cases "INT64_MAX < k * d")
      case True
      have "INT64_MAX < k * (d * prod_list rest)" if "matches ds (Suc (length target)) raws rest" for rest
      proof -
        have "0 < prod_list rest" using matches_pos[OF that assms(1)] Cons.prems(1) by (intro prod_list_pos) simp
        then have "k * d \<le> k * d * prod_list rest" using d Cons.prems by (intro mul_grows)
        then show ?thesis using True by (simp add: mult.assoc)
      qed
      then show ?thesis using True unfolding step M by fastforce
    next
      case False
      have IH: "resolve_dims ds raws (k * d, axis, target @ [d]) = Some s \<longleftrightarrow>
        (\<exists>out. matches ds (length (target @ [d])) raws out \<and> k * d * prod_list out \<le> INT64_MAX \<and>
           s = (k * d * prod_list out, axis, (target @ [d]) @ out))"
        using Cons.IH[of "k * d" "target @ [d]"] Cons.prems d False by simp
      show ?thesis using False unfolding step M by (auto simp: IH mult.assoc)
    qed
  qed
qed auto

text \<open>The requested shapes of \<open>reshapes\<close>, with at most one \<open>-1\<close>, split at it.\<close>

lemma count_list_split:
  "count_list raw (-1::int) \<le> 1 \<longleftrightarrow>
     -1 \<notin> set raw \<or> (\<exists>a b. raw = a @ -1 # b \<and> -1 \<notin> set a \<and> -1 \<notin> set b)"
proof
  assume c: "count_list raw (-1::int) \<le> 1"
  show "-1 \<notin> set raw \<or> (\<exists>a b. raw = a @ -1 # b \<and> -1 \<notin> set a \<and> -1 \<notin> set b)"
  proof (cases "-1 \<in> set raw")
    case True
    then obtain a b where "raw = a @ -1 # b" "-1 \<notin> set a" by (auto dest: split_list_first)
    moreover from this have "-1 \<notin> set b" using c by (auto simp: count_list_0_iff)
    ultimately show ?thesis by blast
  qed simp
next
  assume "-1 \<notin> set raw \<or> (\<exists>a b. raw = a @ -1 # b \<and> -1 \<notin> set a \<and> -1 \<notin> set b)"
  then show "count_list raw (-1::int) \<le> 1" by (auto simp: count_list_0_iff[symmetric])
qed

lemma resolve_dims_twice:
  assumes "0 \<le> axis" and "-1 \<in> set raws"
  shows "resolve_dims ds raws (k, axis, target) = None"
  using assms(2)
proof (induction raws arbitrary: k target)
  case (Cons r raws)
  then show ?case using assms(1) by (auto simp: Let_def)
qed simp

lemma resolve_dims_free:
  assumes ds: "\<forall>d \<in> set ds. 0 < d" and a: "-1 \<notin> set a" and b: "-1 \<notin> set b"
  shows "resolve_dims ds (a @ -1 # b) (1, -1, []) = Some s \<longleftrightarrow>
    (\<exists>oa ob. matches ds 0 a oa \<and> matches ds (Suc (length a)) b ob \<and> prod_list oa * prod_list ob \<le> INT64_MAX \<and>
       s = (prod_list oa * prod_list ob, int (length a), oa @ 0 # ob))"
  (is "?l \<longleftrightarrow> ?r")
proof
  have one: "(1::int) \<le> INT64_MAX" by (simp add: INT64_MAX_def)
  assume ?l
  then obtain s1 where s1: "resolve_dims ds a (1, -1, []) = Some s1" and s2: "resolve_dims ds (-1 # b) s1 = Some s"
    by (auto simp: resolve_dims_append bind_eq_Some_conv)
  from s1 obtain oa where oa: "matches ds 0 a oa" "prod_list oa \<le> INT64_MAX" "s1 = (prod_list oa, -1, oa)"
    using resolve_dims_fixed[OF ds a, of 1] one by auto
  have p: "0 < prod_list oa" using matches_pos[OF oa(1) ds a] by (intro prod_list_pos) simp
  from s2 oa(3) have "resolve_dims ds b (prod_list oa, int (length oa), oa @ [0]) = Some s" by simp
  then show ?r using resolve_dims_fixed[OF ds b p oa(2)] oa(1) matches_length[OF oa(1)] by auto
next
  have one: "(1::int) \<le> INT64_MAX" by (simp add: INT64_MAX_def)
  assume ?r
  then obtain oa ob where oa: "matches ds 0 a oa" and ob: "matches ds (Suc (length a)) b ob"
    and le: "prod_list oa * prod_list ob \<le> INT64_MAX"
    and s: "s = (prod_list oa * prod_list ob, int (length a), oa @ 0 # ob)" by blast
  have p: "0 < prod_list oa" "0 < prod_list ob"
    using matches_pos[OF oa ds a] matches_pos[OF ob ds b] by (auto intro: prod_list_pos)
  have le_a: "prod_list oa \<le> INT64_MAX" using mul_grows[of 1 "prod_list oa" "prod_list ob"] p le by linarith
  have "resolve_dims ds a (1, -1, []) = Some (prod_list oa, -1, oa)"
    using resolve_dims_fixed[OF ds a, of 1] one oa le_a by auto
  moreover have "resolve_dims ds b (prod_list oa, int (length oa), oa @ [0]) = Some s"
    using resolve_dims_fixed[OF ds b p(1) le_a] ob le s matches_length[OF oa] by auto
  ultimately show ?l by (simp add: resolve_dims_append)
qed

lemma ResolveTargetShape_known:
  assumes ds: "\<forall>d \<in> set ds. 0 < d" and fits: "prod_list ds \<le> INT64_MAX" and "raw \<noteq> []"
  shows "ResolveTargetShape ds raw = Some out \<longleftrightarrow>
    (\<exists>s. resolve_dims ds raw (1, -1, []) = Some s \<and> infer_dim (prod_list ds) s = Some out \<and>
         (\<forall>d \<in> set out. 0 < d) \<and> prod_list out = prod_list ds)"
proof -
  have one: "(1::int) \<le> INT64_MAX" by (simp add: INT64_MAX_def)
  show ?thesis unfolding ResolveTargetShape_def
    using known_count_pos[OF ds, of 1] checked_product_pos[of 1 _ "prod_list ds"] one fits assms(3)
    by (auto split: option.splits)
qed

lemma ResolveTargetShape_spec:
  assumes ds: "\<forall>d \<in> set ds. 0 < d" and fits: "prod_list ds \<le> INT64_MAX"
  shows "ResolveTargetShape ds raw = Some out \<longleftrightarrow> reshapes ds raw out"
proof -
  have one: "(1::int) \<le> INT64_MAX" by (simp add: INT64_MAX_def)
  consider (nil) "raw = []" | (fixed) "raw \<noteq> []" "-1 \<notin> set raw"
    | (free) a b where "raw = a @ -1 # b" "-1 \<notin> set a" "-1 \<notin> set b"
    | (many) "raw \<noteq> []" "\<not> count_list raw (-1) \<le> 1"
    using count_list_split[of raw] by blast
  then show ?thesis
  proof cases
    case nil
    then show ?thesis by (simp add: ResolveTargetShape_def reshapes_def)
  next
    case fixed
    show ?thesis unfolding ResolveTargetShape_known[OF ds fits fixed(1)] reshapes_def
      using fixed one fits resolve_dims_fixed[OF ds fixed(2), of 1 "-1" "[]"] count_list_split[of raw]
      by (auto simp: infer_dim_def)
  next
    case free
    have raw: "raw \<noteq> []" "count_list raw (-1) \<le> 1" using free count_list_split by auto
    have K: "resolve_dims ds raw (1, -1, []) = Some s \<longleftrightarrow>
      (\<exists>oa ob. matches ds 0 a oa \<and> matches ds (Suc (length a)) b ob \<and> prod_list oa * prod_list ob \<le> INT64_MAX \<and>
         s = (prod_list oa * prod_list ob, int (length a), oa @ 0 # ob))" for s
      unfolding free(1) by (rule resolve_dims_free[OF ds free(2,3)])
    show ?thesis
    proof
      assume "ResolveTargetShape ds raw = Some out"
      then obtain oa ob where o: "matches ds 0 a oa" "matches ds (Suc (length a)) b ob"
        and inf: "infer_dim (prod_list ds) (prod_list oa * prod_list ob, int (length a), oa @ 0 # ob) = Some out"
        and out: "\<forall>d \<in> set out. 0 < d" "prod_list out = prod_list ds"
        unfolding ResolveTargetShape_known[OF ds fits raw(1)] K by blast
      have len: "length oa = length a" using matches_length[OF o(1)] .
      have "out = oa @ (prod_list ds div (prod_list oa * prod_list ob)) # ob"
        using inf len by (auto simp: infer_dim_def Let_def list_update_append split: if_splits)
      then show "reshapes ds raw out" using o out raw free(1) len by (simp add: reshapes_def matches_append)
    next
      assume r: "reshapes ds raw out"
      then have m: "matches ds 0 a (take (length a) out)" "matches ds (length a) (-1 # b) (drop (length a) out)"
        and out: "\<forall>d \<in> set out. 0 < d" "prod_list out = prod_list ds"
        using free(1) by (auto simp: reshapes_def matches_append)
      define oa where "oa = take (length a) out"
      obtain d ob where dob: "drop (length a) out = d # ob" using m(2) by (cases "drop (length a) out") auto
      have out_eq: "out = oa @ d # ob" using append_take_drop_id[of "length a" out] dob by (simp add: oa_def)
      have o: "matches ds 0 a oa" "matches ds (Suc (length a)) b ob" using m dob by (simp_all add: oa_def)
      have len: "length oa = length a" using matches_length[OF o(1)] .
      have pos: "0 < prod_list oa" "0 < prod_list ob" "0 < d"
        using out(1) out_eq by (auto intro!: prod_list_pos)
      have N: "prod_list ds = d * (prod_list oa * prod_list ob)" using out(2) out_eq by (simp add: algebra_simps)
      have le: "prod_list oa * prod_list ob \<le> INT64_MAX"
        using mul_grows[OF pos] fits unfolding N by (simp only: mult.commute)
      have "infer_dim (prod_list ds) (prod_list oa * prod_list ob, int (length a), oa @ 0 # ob) = Some out"
        using pos N len out_eq by (simp add: infer_dim_def list_update_append)
      then show "ResolveTargetShape ds raw = Some out"
        using o le out unfolding ResolveTargetShape_known[OF ds fits raw(1)] K by blast
    qed
  next
    case many
    then have "-1 \<in> set raw" using count_list_split by blast
    then obtain a b where ab: "raw = a @ -1 # b" "-1 \<notin> set a" by (auto dest: split_list_first)
    then have "-1 \<in> set b" using many(2) by (auto simp: count_list_0_iff)
    then have "resolve_dims ds raw (1, -1, []) = None"
      using resolve_dims_twice unfolding ab(1) resolve_dims_append
      by (cases "resolve_dims ds a (1, -1, [])") (auto simp: split_paired_all)
    then show ?thesis using many ResolveTargetShape_known[OF ds fits many(1)] by (simp add: reshapes_def)
  qed
qed

text \<open>The middle shape of two reshapes does not matter when the second copies no dimension.\<close>

lemma reshapes_trans:
  "reshapes ds s1 mid \<Longrightarrow> 0 \<notin> set s2 \<Longrightarrow> reshapes mid s2 out \<longleftrightarrow> reshapes ds s2 out"
  unfolding reshapes_def using matches_other by metis

section \<open>Permutations\<close>

lemma mark_axes_eq:
  "length seen = rank \<Longrightarrow> mark_axes rank perm seen \<longleftrightarrow>
     (\<forall>axis \<in> set perm. 0 \<le> axis \<and> axis < int rank \<and> \<not> seen ! nat axis) \<and> distinct perm"
proof (induction rank perm seen rule: mark_axes.induct)
  case (2 rank axis perm seen)
  show ?case
  proof (cases "axis < 0 \<or> int rank \<le> axis \<or> seen ! nat axis")
    case False
    have "seen[nat axis := True] ! nat b \<longleftrightarrow> b = axis \<or> seen ! nat b" if "0 \<le> b" "b < int rank" for b
      using that False 2(2) by (auto simp: nth_list_update eq_nat_nat_iff split: if_splits)
    then show ?thesis using False 2 by auto
  qed auto
qed simp

lemma IsValidPermutation_eq:
  "IsValidPermutation perm rank \<longleftrightarrow> length perm = rank \<and> set perm = {0..<int rank}"
proof -
  have "distinct perm \<longleftrightarrow> set perm = {0..<int rank}"
    if "set perm \<subseteq> {0..<int rank}" "length perm = rank"
  proof
    assume "distinct perm"
    then have "card (set perm) = rank" using that(2) by (simp add: distinct_card)
    then show "set perm = {0..<int rank}" using that(1) by (intro card_subset_eq) simp_all
  next
    assume "set perm = {0..<int rank}"
    then have "card (set perm) = rank" by simp
    then show "distinct perm" using that(2) by (simp add: card_distinct)
  qed
  then show ?thesis unfolding IsValidPermutation_def by (fastforce simp: mark_axes_eq)
qed

lemma TransposeShape_Some:
  "TransposeShape perm dims = Some out \<longleftrightarrow>
     dims \<noteq> [] \<and> length perm = length dims \<and> set perm = {0..<int (length dims)} \<and>
     out = map (\<lambda>axis. dims ! nat axis) perm"
  by (auto simp: TransposeShape_def IsValidPermutation_eq)

lemma perm_mset:
  assumes "length perm = n" and "set perm = {0..<int n}"
  shows "mset (map nat perm) = mset [0..<n]"
proof -
  have d: "distinct perm" using assms by (intro card_distinct) simp
  have "inj_on nat (set perm)" using assms(2) by (auto simp: inj_on_def)
  then have dn: "distinct (map nat perm)" using d by (simp add: distinct_map)
  have "nat ` {0..<int n} = {0..<n}"
    by (auto simp: image_iff nat_less_iff intro!: bexI[of _ "int x" for x])
  then have "set (map nat perm) = set [0..<n]" using assms(2) by simp
  then show ?thesis using dn by (intro iffD1[OF set_eq_iff_mset_eq_distinct]) simp_all
qed

lemma permute_mset:
  assumes "length perm = length xs" and "set perm = {0..<int (length xs)}"
  shows "mset (map (\<lambda>axis. xs ! nat axis) perm) = mset xs"
proof -
  have "mset (map (\<lambda>i. xs ! i) (map nat perm)) = mset (map (\<lambda>i. xs ! i) [0..<length xs])"
    using perm_mset[OF assms] by (metis mset_map)
  then show ?thesis by (simp add: comp_def map_nth)
qed

lemma permute_prod:
  fixes xs :: "i64 list"
  assumes "length perm = length xs" and "set perm = {0..<int (length xs)}"
  shows "prod_list (map (\<lambda>axis. xs ! nat axis) perm) = prod_list xs"
  using permute_mset[OF assms] by (metis prod_mset_prod_list)

section \<open>Squeeze after unsqueeze\<close>

lemma map_filter_nths: "map (\<lambda>i. xs ! i) (filter (\<lambda>i. i \<in> A) [0..<length xs]) = nths xs A"
proof -
  have "zip xs [0..<length xs] = map (\<lambda>i. (xs ! i, i)) [0..<length xs]"
    by (intro nth_equalityI) simp_all
  then show ?thesis by (simp add: nths_def filter_map comp_def)
qed

lemma nths_all: "(\<And>i. i < length xs \<Longrightarrow> i \<in> A) \<Longrightarrow> nths xs A = xs"
  unfolding map_filter_nths[symmetric] by (subst filter_True) (auto simp: map_nth)

lemma insert_ones_prefix:
  "insert_ones axes shape = Some out \<Longrightarrow> \<forall>axis \<in> set axes. int k \<le> axis \<Longrightarrow> k \<le> length shape \<Longrightarrow>
   take k out = take k shape \<and> length out = length shape + length axes"
proof (induction axes arbitrary: shape)
  case (Cons axis axes)
  then have "0 \<le> axis" "axis \<le> int (length shape)" "insert_ones axes (insert_at (nat axis) 1 shape) = Some out"
    by (auto split: if_splits)
  moreover have "take k (insert_at (nat axis) 1 shape) = take k shape" "length (insert_at (nat axis) 1 shape) = Suc (length shape)"
    using Cons.prems calculation by (auto simp: insert_at_def min_def)
  ultimately show ?case using Cons.IH[of "insert_at (nat axis) 1 shape"] Cons.prems by auto
qed simp

lemma insert_ones_removed:
  assumes "insert_ones axes shape = Some out" and "sorted axes" and "distinct axes"
  shows "nths out {i. int i \<notin> set axes} = shape \<and> (\<forall>axis \<in> set axes. 0 \<le> axis \<and> axis < int (length out) \<and> out ! nat axis = 1)"
  using assms
proof (induction axes arbitrary: shape)
  case Nil
  then show ?case by (auto intro: nths_all)
next
  case (Cons axis axes)
  let ?k = "nat axis" and ?shape = "insert_at (nat axis) 1 shape"
  have ax: "0 \<le> axis" "?k \<le> length shape" and ins: "insert_ones axes ?shape = Some out"
    using Cons.prems(1) by (auto split: if_splits)
  have above: "\<forall>b \<in> set axes. int (Suc ?k) \<le> b"
  proof
    fix b assume "b \<in> set axes"
    then have "axis \<le> b" "axis \<noteq> b" using Cons.prems(2,3) by auto
    then show "int (Suc ?k) \<le> b" using ax(1) by simp
  qed
  have lens: "length ?shape = Suc (length shape)" using ax by (simp add: insert_at_def)
  have take_shape: "take (Suc ?k) ?shape = take ?k shape @ [1]" using ax by (simp add: insert_at_def)
  have pre: "take (Suc ?k) out = take ?k shape @ [1]" "length out = Suc (length shape) + length axes"
    using insert_ones_prefix[OF ins above] ax(2) lens take_shape by auto
  define rest where "rest = drop (Suc ?k) out"
  have out: "out = (take ?k shape @ [1]) @ rest" using append_take_drop_id[of "Suc ?k" out] pre(1) by (simp add: rest_def)
  have k: "length (take ?k shape) = ?k" using ax(2) by simp
  have IH: "nths out {i. int i \<notin> set axes} = ?shape"
    "\<forall>axis \<in> set axes. 0 \<le> axis \<and> axis < int (length out) \<and> out ! nat axis = 1"
    using Cons.IH[OF ins] Cons.prems(2,3) by auto
  have keep: "nths (take ?k shape) {i. int i \<notin> set (axis # axes)} = take ?k shape"
    "nths (take ?k shape @ [1]) {i. int i \<notin> set axes} = take ?k shape @ [1]"
    using above k ax(1) by (auto intro!: nths_all)
  have "{j. j + Suc ?k \<in> {i. int i \<notin> set (axis # axes)}} = {j. j + Suc ?k \<in> {i. int i \<notin> set axes}}"
    using ax(1) by auto
  moreover have "nths rest {j. j + Suc ?k \<in> {i. int i \<notin> set axes}} = drop ?k shape"
  proof -
    have "(take ?k shape @ [1]) @ nths rest {j. j + Suc ?k \<in> {i. int i \<notin> set axes}} = ?shape"
      using IH(1) k unfolding out nths_append[of "take ?k shape @ [1]" rest] keep(2) by simp
    then show ?thesis by (simp add: insert_at_def)
  qed
  ultimately have "nths rest {j. j + Suc ?k \<in> {i. int i \<notin> set (axis # axes)}} = drop ?k shape" by (simp only:)
  moreover have "nths [1] {j. j + ?k \<in> {i. int i \<notin> set (axis # axes)}} = []" using ax(1) by (simp add: nths_singleton)
  ultimately have "nths out {i. int i \<notin> set (axis # axes)} = take ?k shape @ drop ?k shape"
    unfolding out nths_append keep(1) using k ax(1) by simp
  moreover have "out ! ?k = 1" unfolding out using k by (simp add: nth_append)
  ultimately show ?case using IH(2) ax pre(2) by auto
qed

lemma SqueezeShape_nths:
  "SqueezeShape axes shape =
     (if axes = [] then None
      else let normalized = NormalizeAxes axes (int (length shape)) False in
        if \<not> distinct normalized \<or> (\<exists>axis \<in> set normalized. axis < 0 \<or> int (length shape) \<le> axis) \<or>
           (\<exists>axis \<in> set normalized. shape ! nat axis \<noteq> 1)
        then None
        else let squeezed = nths shape {i. int i \<notin> set normalized}
             in Some (if squeezed = [] then [1] else squeezed))"
  unfolding SqueezeShape_def map_filter_nths[symmetric] mem_Collect_eq by (rule refl)

lemma Unsqueeze_removed:
  assumes "UnsqueezeShape axes shape = Some out"
  shows "SqueezeShape axes out = Some (if shape = [] then [1] else shape)"
proof -
  let ?n = "NormalizeAxes axes (int (length shape)) True"
  have d: "axes \<noteq> []" "distinct ?n" and ins: "insert_ones ?n shape = Some out"
    using assms by (auto simp: UnsqueezeShape_def Let_def split: if_splits)
  have n: "sorted ?n" "length ?n = length axes" by (simp_all add: NormalizeAxes_def Let_def)
  have "length out = length shape + length axes" using insert_ones_prefix[OF ins, of 0] insert_ones_removed[OF ins n(1) d(2)] n(2)
    by auto
  then have same: "NormalizeAxes axes (int (length out)) False = ?n" by (simp add: NormalizeAxes_def)
  show ?thesis unfolding SqueezeShape_nths same
    using insert_ones_removed[OF ins n(1) d(2)] d by (auto simp: Let_def)
qed

section \<open>Properties of the operators' shapes\<close>

text \<open>
  C21: \<open>ResolveTargetShape\<close> of \<open>reshape_op.cc\<close> refines its contract: on an input whose dimensions are
  all positive and whose element count fits, it answers a shape exactly when that shape has the
  requested dimensions at their positions (\<open>0\<close> copying the input's, one \<open>-1\<close> free), is positive, and
  holds the same number of elements; every other request, and every overflow, is refused.
\<close>

theorem ResolveTargetShape_refines:
  assumes "\<forall>d \<in> set input_dims. 0 < d" and "prod_list input_dims \<le> INT64_MAX"
  shows "ResolveTargetShape input_dims raw_shape = Some out \<longleftrightarrow> reshapes input_dims raw_shape out"
  using ResolveTargetShape_spec[OF assms] .

theorem ResolveTargetShape_refines_witness:
  "ResolveTargetShape [2, 3, 4] [0, -1] = Some [2, 12]"
proof -
  have "reshapes [2, 3, 4] [0, -1] [2, 12]" by (simp add: reshapes_def)
  then show ?thesis using ResolveTargetShape_refines[of "[2, 3, 4]" "[0, -1]" "[2, 12]"] by (simp add: INT64_MAX_def)
qed

text \<open>
  Two reshapes in a row are one reshape to the second shape, when the second shape copies no
  dimension: the first shape, once accepted, changes neither whether the second is accepted nor its
  result.  (With a \<open>0\<close> in the second shape they are not: see \<open>reshape_chain_copied_dim\<close>.)
\<close>

theorem ResolveTargetShape_chain:
  assumes "\<forall>d \<in> set input_dims. 0 < d" and "prod_list input_dims \<le> INT64_MAX"
    and "ResolveTargetShape input_dims first_shape = Some middle" and "0 \<notin> set second_shape"
  shows "ResolveTargetShape middle second_shape = ResolveTargetShape input_dims second_shape"
proof -
  have r: "reshapes input_dims first_shape middle" using ResolveTargetShape_spec[OF assms(1,2)] assms(3) by blast
  then have m: "\<forall>d \<in> set middle. 0 < d" "prod_list middle \<le> INT64_MAX" using assms(2) by (simp_all add: reshapes_def)
  have "ResolveTargetShape middle second_shape = Some out \<longleftrightarrow> ResolveTargetShape input_dims second_shape = Some out" for out
    unfolding ResolveTargetShape_spec[OF m] ResolveTargetShape_spec[OF assms(1,2)]
    by (rule reshapes_trans[OF r assms(4)])
  then show ?thesis by (metis option.exhaust)
qed

theorem ResolveTargetShape_chain_witness:
  "ResolveTargetShape [3, 4] [2, -1] = ResolveTargetShape [2, 2, 3] [2, -1]"
  by (rule ResolveTargetShape_chain[of _ "[3, -1]"]) (simp_all, code_simp+)

lemma reshape_chain_copied_dim:
  "ResolveTargetShape [2, 2, 3] [3, 4] = Some [3, 4] \<and> ResolveTargetShape [3, 4] [0, -1] = Some [3, 4] \<and>
   ResolveTargetShape [2, 2, 3] [0, -1] = Some [2, 6]"
  by code_simp

text \<open>
  \<open>Squeeze\<close> undoes \<open>Unsqueeze\<close>: whatever axes an unsqueeze accepts, in any order and with
  negative ones counted from the end, the squeeze with the same axes gives back the shape (a scalar
  comes back as one dimension of one, since squeeze never answers an empty shape).
\<close>

theorem squeeze_unsqueeze:
  assumes "UnsqueezeShape axes shape = Some out"
  shows "SqueezeShape axes out = Some (if shape = [] then [1] else shape)"
  using Unsqueeze_removed[OF assms] .

theorem squeeze_unsqueeze_witness: "SqueezeShape [-1, 0] [1, 5, 7, 1] = Some [5, 7]"
proof -
  have "UnsqueezeShape [-1, 0] [5, 7] = Some [1, 5, 7, 1]" by code_simp
  from squeeze_unsqueeze[OF this] show ?thesis by simp
qed

text \<open>
  The division of C++ rounds to zero: a window one element larger than its padded input still has an
  output of size one when the stride is at least two.  A slice end beyond 32 bits is truncated.
\<close>

lemma conv_window_larger_than_input: "conv_out 2 0 1 3 2 = 1 \<and> pool_out 2 3 0 2 = 1"
  by code_simp

lemma slice_end_truncated:
  "to_int32 INT64_MAX = -1 \<and>
   SliceShape \<lparr>sl_axis = 0, sl_start = 0, sl_end = 0,
     sl_controls = Some (Some [0], Some [INT64_MAX], Some [0], None)\<rparr> [4] = Some [3]"
  by code_simp

lemma broadcast_unknown_dim: "InferBroadcastShape [0] [1] = Some [1] \<and> InferBroadcastShapeUnknown [0] [1] = Some [0]"
  by code_simp

end
