(* ===== verification/Op_Outputs.thy ===== *)
theory Op_Outputs
  imports Op_Shapes
begin

text \<open>
  \<open>InferOutputShapes\<close> of the operators (\<open>src/operator/\<close>) on tensors and their storage: the
  dimensions of theory \<open>Op_Shapes\<close>, the output's type, quantization and layout, and the buffer the
  kernel then writes.  An operator's input and output tensors exist (its builder refuses a missing
  one); a null tensor an operation itself tests for is \<open>None\<close>.  The outer option of a result is an
  exception, the inner one the code's \<open>-1\<close>; \<open>Some (w, Some t)\<close> is success with \<open>t\<close> the output.
\<close>

type_synonym infer_result = "(world \<times> Tensor option) option"

abbreviation then_set :: "(Tensor \<Rightarrow> Tensor) \<Rightarrow> infer_result \<Rightarrow> infer_result" where
  "then_set f r \<equiv> map_option (\<lambda>(w, t). (w, map_option f t)) r"

definition layout_or :: "DataLayout \<Rightarrow> DataLayout \<Rightarrow> DataLayout" where
  "layout_or layout fallback = (if layout \<noteq> ND then layout else fallback)"

definition quantization_or :: "Tensor \<Rightarrow> QuantizationParams \<Rightarrow> QuantizationParams" where
  "quantization_or t fallback = (if q_enabled (m_quantization t) then m_quantization t else fallback)"

fun ResolveExecutionDataType :: "Tensor option list \<Rightarrow> DataType \<Rightarrow> DataType" where
  "ResolveExecutionDataType [] fallback = fallback"
| "ResolveExecutionDataType (None # tensors) fallback = ResolveExecutionDataType tensors fallback"
| "ResolveExecutionDataType (Some t # tensors) fallback =
     (if m_data_type t \<noteq> UNKNOWN then m_data_type t else ResolveExecutionDataType tensors fallback)"

section \<open>Elementwise operators\<close>

text \<open>\<open>max(1, product) * DataTypeBytes(dtype)\<close> in \<open>size_t\<close>.\<close>

definition required_bytes :: "i64 list \<Rightarrow> DataType \<Rightarrow> size_t" where
  "required_bytes shape dtype = mul64 (nat (max 1 (production shape))) (DataTypeBytes dtype)"

text \<open>A tensor that is too small is replaced by \<open>Tensor(shape)\<close>, otherwise resized.\<close>

definition fresh_or_resized :: "Tensor \<Rightarrow> i64 list \<Rightarrow> DataType \<Rightarrow> world \<Rightarrow> (world \<times> Tensor) option" where
  "fresh_or_resized t shape dtype w =
     (if \<not> IsInitialized w t \<or> m_memory_size t < required_bytes shape dtype
      then Tensor_shape shape w else Some (w, t\<lparr>m_dims := shape\<rparr>))"

definition InferBinaryOutput :: "Tensor option \<Rightarrow> Tensor option \<Rightarrow> Tensor option \<Rightarrow> world \<Rightarrow> infer_result" where
  "InferBinaryOutput lhs rhs output w =
     (case (lhs, rhs, output) of
        (Some l, Some r, Some out) \<Rightarrow>
          (case InferBroadcastShape (m_dims l) (m_dims r) of
             None \<Rightarrow> Some (w, None)
           | Some out_shape \<Rightarrow>
               (let dtype = ResolveExecutionDataType [Some l, Some r, Some out] FP32;
                    output_quantization = quantization_or out (quantization_or l (m_quantization r));
                    output_layout = layout_or (m_layout out) (layout_or (m_layout l) (m_layout r))
                in map_option (\<lambda>(w', t). (w', Some ((set_quantization output_quantization (t\<lparr>m_data_type := dtype\<rparr>))
                                             \<lparr>m_layout := output_layout\<rparr>)))
                     (fresh_or_resized out out_shape dtype w)))
      | _ \<Rightarrow> Some (w, None))"

definition InferUnaryOutput :: "Tensor option \<Rightarrow> Tensor option \<Rightarrow> world \<Rightarrow> infer_result" where
  "InferUnaryOutput input output w =
     (case (input, output) of
        (Some inp, Some out) \<Rightarrow>
          (case numel inp of None \<Rightarrow> None
           | Some _ \<Rightarrow>
               (let dtype = ResolveExecutionDataType [Some inp, Some out] FP32;
                    output_quantization = quantization_or out (m_quantization inp)
                in map_option (\<lambda>(w', t). (w', Some ((set_quantization output_quantization (t\<lparr>m_data_type := dtype\<rparr>))
                                             \<lparr>m_layout := layout_or (m_layout out) (m_layout inp)\<rparr>)))
                     (fresh_or_resized out (m_dims inp) dtype w)))
      | _ \<Rightarrow> Some (w, None))"

section \<open>Operators that keep the type of their input\<close>

definition InferAxesOutputShape ::
  "bool \<Rightarrow> i64 list \<Rightarrow> i64 list option option \<Rightarrow> Tensor option \<Rightarrow> Tensor option \<Rightarrow> world \<Rightarrow> infer_result" where
  "InferAxesOutputShape unsqueeze attribute axes_tensor input output w =
     (case (input, output) of
        (Some inp, Some out) \<Rightarrow>
          (case (case axes_tensor of None \<Rightarrow> Some attribute | Some read \<Rightarrow> read) of
             None \<Rightarrow> Some (w, None)
           | Some axes \<Rightarrow>
               (case (if unsqueeze then UnsqueezeShape axes (m_dims inp) else SqueezeShape axes (m_dims inp)) of
                  None \<Rightarrow> Some (w, None)
                | Some out_shape \<Rightarrow>
                    then_set (\<lambda>t. (set_quantization (quantization_or out (m_quantization inp))
                                     (t\<lparr>m_dims := out_shape, m_data_type := m_data_type inp\<rparr>))
                                  \<lparr>m_layout := layout_or (m_layout out) (m_layout inp)\<rparr>)
                      (AllocateOutput (Some out) out_shape (m_data_type inp) w)))
      | _ \<Rightarrow> Some (w, None))"

text \<open>An operator whose shape is \<open>shape\<close> (\<open>None\<close>: refused) and whose output is typed like the input.\<close>

definition same_type :: "Tensor \<Rightarrow> Tensor \<Rightarrow> i64 list option \<Rightarrow> world \<Rightarrow> infer_result" where
  "same_type inp out shape w =
     (case shape of None \<Rightarrow> Some (w, None) | Some out_shape \<Rightarrow> InferSameTypeOutput inp (Some out) out_shape w)"

definition SliceInfer :: "SliceParam \<Rightarrow> Tensor \<Rightarrow> Tensor \<Rightarrow> world \<Rightarrow> infer_result" where
  "SliceInfer p inp out w = same_type inp out (SliceShape p (m_dims inp)) w"

definition FlattenInfer :: "int \<Rightarrow> Tensor \<Rightarrow> Tensor \<Rightarrow> world \<Rightarrow> infer_result" where
  "FlattenInfer axis inp out w = same_type inp out (FlattenShape axis (m_dims inp)) w"

definition GlobalAveragePoolInfer :: "Tensor \<Rightarrow> Tensor \<Rightarrow> world \<Rightarrow> infer_result" where
  "GlobalAveragePoolInfer inp out w = same_type inp out (GlobalAveragePoolShape (m_dims inp)) w"

definition PoolInfer :: "PoolParam \<Rightarrow> Tensor \<Rightarrow> Tensor \<Rightarrow> world \<Rightarrow> infer_result" where
  "PoolInfer p inp out w =
     (if \<not> CheckPoolShape p (m_dims inp) (m_layout inp) then Some (w, None)
      else then_set (\<lambda>t. t\<lparr>m_layout := (if length (m_dims inp) = 4 then NormalizeDataLayout (m_layout inp) else ND)\<rparr>)
             (InferSameTypeOutput inp (Some out) (InferPoolOutputShape p (m_dims inp) (m_layout inp)) w))"

definition ConcatInfer :: "int \<Rightarrow> Tensor list \<Rightarrow> Tensor \<Rightarrow> world \<Rightarrow> infer_result" where
  "ConcatInfer axis inputs out w =
     (if \<not> CheckConcatShape axis (map m_dims inputs) then Some (w, None)
      else then_set (\<lambda>t. t\<lparr>m_layout := m_layout (hd inputs)\<rparr>)
             (InferSameTypeOutput (hd inputs) (Some out) (InferConcatOutputShape axis (map m_dims inputs)) w))"

fun split_infer_outputs ::
  "int \<Rightarrow> i64 list \<Rightarrow> Tensor \<Rightarrow> nat \<Rightarrow> Tensor list \<Rightarrow> world \<Rightarrow> (world \<times> Tensor list option) option" where
  "split_infer_outputs axis sizes inp i [] w = Some (w, Some [])"
| "split_infer_outputs axis sizes inp i (out # outs) w =
     (case InferSameTypeOutput inp (Some out) (InferSplitOutputShape axis sizes (m_dims inp) i) w of
        None \<Rightarrow> None
      | Some (w1, None) \<Rightarrow> Some (w1, None)
      | Some (w1, Some t) \<Rightarrow>
          map_option (\<lambda>(w2, ts). (w2, map_option ((#) t) ts)) (split_infer_outputs axis sizes inp (Suc i) outs w1))"

definition SplitInfer ::
  "int \<Rightarrow> i64 list option \<Rightarrow> Tensor \<Rightarrow> Tensor list \<Rightarrow> world \<Rightarrow> (world \<times> Tensor list option) option" where
  "SplitInfer axis sizes inp outs w =
     (case sizes of None \<Rightarrow> Some (w, None)
      | Some split_sizes \<Rightarrow>
          if \<not> CheckSplitShape axis split_sizes (length outs) (m_dims inp) then Some (w, None)
          else split_infer_outputs axis split_sizes inp 0 outs w)"

text \<open>Off CUDA, and except for quantized tensors, a reshape is a view of its input.\<close>

definition shares_input :: "DeviceType \<Rightarrow> Tensor \<Rightarrow> bool" where
  "shares_input device inp \<longleftrightarrow> device \<noteq> CUDA \<and> m_data_type inp \<noteq> INT8"

definition view_of :: "Tensor \<Rightarrow> i64 list \<Rightarrow> Tensor \<Rightarrow> Tensor" where
  "view_of inp shape out = (ShareDataWith inp out)\<lparr>m_dims := shape, m_data_type := m_data_type inp, m_layout := m_layout inp\<rparr>"

definition ReshapeInfer :: "DeviceType \<Rightarrow> i64 list option \<Rightarrow> Tensor \<Rightarrow> Tensor \<Rightarrow> world \<Rightarrow> infer_result" where
  "ReshapeInfer device raw_shape inp out w =
     (case Option.bind raw_shape (ResolveTargetShape (m_dims inp)) of None \<Rightarrow> Some (w, None)
      | Some target_shape \<Rightarrow>
          if shares_input device inp then Some (w, Some (view_of inp target_shape out))
          else InferSameTypeOutput inp (Some out) target_shape w)"

definition TransposeInfer :: "DeviceType \<Rightarrow> i64 list \<Rightarrow> Tensor \<Rightarrow> Tensor \<Rightarrow> world \<Rightarrow> infer_result" where
  "TransposeInfer device perm inp out w =
     (case TransposeShape perm (m_dims inp) of None \<Rightarrow> Some (w, None)
      | Some out_shape \<Rightarrow>
          if shares_input device inp \<and> IsContiguousViewPermutation (m_dims inp) perm
          then Some (w, Some (view_of inp out_shape out))
          else InferSameTypeOutput inp (Some out) out_shape w)"

section \<open>Operators that allocate their output directly\<close>

definition GatherInfer :: "int \<Rightarrow> Tensor \<Rightarrow> Tensor \<Rightarrow> Tensor \<Rightarrow> world \<Rightarrow> infer_result" where
  "GatherInfer axis data indices out w =
     (if \<not> (IsFloatingPointDataType (m_data_type data) \<or> m_data_type data = INT8) \<or>
         m_data_type indices \<noteq> INT32 \<and> m_data_type indices \<noteq> INT64 then Some (w, None)
      else case GatherShape axis (m_dims data) (m_dims indices) of None \<Rightarrow> Some (w, None)
      | Some out_shape \<Rightarrow>
          then_set (\<lambda>t. t\<lparr>m_layout := layout_or (m_layout t) (m_layout data)\<rparr>)
            (AllocateOutput (Some out) out_shape (m_data_type data) w))"

definition WhereInfer :: "Tensor \<Rightarrow> Tensor \<Rightarrow> Tensor \<Rightarrow> Tensor \<Rightarrow> world \<Rightarrow> infer_result" where
  "WhereInfer condition x y out w =
     (if m_data_type condition \<noteq> BOOL \<or> m_data_type x \<noteq> m_data_type y then Some (w, None)
      else case WhereShape (m_dims condition) (m_dims x) (m_dims y) of None \<Rightarrow> Some (w, None)
      | Some shape \<Rightarrow>
          then_set (\<lambda>t. t\<lparr>m_layout := layout_or (m_layout t) (m_layout x)\<rparr>)
            (AllocateOutput (Some out) shape (m_data_type x) w))"

definition ReduceSumInfer :: "i64 list \<Rightarrow> bool \<Rightarrow> Tensor \<Rightarrow> Tensor \<Rightarrow> world \<Rightarrow> infer_result" where
  "ReduceSumInfer axes keepdims inp out w =
     (if \<not> (IsFloatingPointDataType (m_data_type inp) \<or> m_data_type inp = INT8) then Some (w, None)
      else case ReduceShape axes keepdims (m_dims inp) of None \<Rightarrow> Some (w, None)
      | Some output_shape \<Rightarrow>
          then_set (\<lambda>t. t\<lparr>m_layout := m_layout inp\<rparr>) (AllocateOutput (Some out) output_shape (m_data_type inp) w))"

definition ExpandInfer :: "i64 list option \<Rightarrow> Tensor \<Rightarrow> Tensor \<Rightarrow> world \<Rightarrow> infer_result" where
  "ExpandInfer target inp out w =
     (case target of None \<Rightarrow> Some (w, None)
      | Some target_shape \<Rightarrow>
          if target_shape = [] then Some (w, None)
          else if 0 \<in> set target_shape then
            Some (w, Some ((set_quantization (quantization_or out (m_quantization inp))
                              (out\<lparr>m_dims := target_shape, m_data_type := m_data_type inp\<rparr>))
                           \<lparr>m_layout := layout_or (m_layout out) (m_layout inp)\<rparr>))
          else case InferExpandedShape (m_dims inp) target_shape of None \<Rightarrow> Some (w, None)
          | Some output_shape \<Rightarrow>
              then_set (\<lambda>t. t\<lparr>m_layout := layout_or (m_layout t) (m_layout inp)\<rparr>)
                (AllocateOutput (Some out) output_shape (m_data_type inp) w))"

definition MatMulInfer :: "Tensor \<Rightarrow> Tensor \<Rightarrow> Tensor \<Rightarrow> world \<Rightarrow> infer_result" where
  "MatMulInfer a b out w =
     (case MatMulShape (m_dims a) (m_dims b) of None \<Rightarrow> Some (w, None)
      | Some out_shape \<Rightarrow>
          (let output_data_type = (if m_data_type out \<noteq> UNKNOWN then m_data_type out
                                   else ResolveExecutionDataType [Some a, Some b] FP32);
               output_quantization = quantization_or out (m_quantization a)
           in then_set (\<lambda>t. ((if q_enabled output_quantization then set_quantization output_quantization else id)
                               (t\<lparr>m_data_type := output_data_type\<rparr>))
                             \<lparr>m_layout := layout_or (m_layout out) (m_layout a)\<rparr>)
                (AllocateOutput (Some out) out_shape output_data_type w)))"

text \<open>The convolution replaces the storage of its output when it is too small.\<close>

definition Conv2dInfer :: "Conv2dParam \<Rightarrow> Tensor \<Rightarrow> Tensor \<Rightarrow> Tensor option \<Rightarrow> Tensor \<Rightarrow> world \<Rightarrow> infer_result" where
  "Conv2dInfer p inp weight bias out w =
     (let ready_bias = (case bias of Some b \<Rightarrow> if IsInitialized w b then Some (m_dims b) else None | None \<Rightarrow> None) in
      case Conv2dShape p (m_dims inp) (m_layout inp) (m_dims weight) ready_bias of None \<Rightarrow> Some (w, None)
      | Some out_shape \<Rightarrow>
          (let declared = m_data_type out;
               dtype = (if declared \<noteq> UNKNOWN then declared
                        else ResolveExecutionDataType [Some inp, Some weight, bias, Some out] FP32);
               bytes = required_bytes out_shape dtype;
               layout = (if length (m_dims inp) = 4
                         then NormalizeDataLayout (if m_layout out = ND then m_layout inp else m_layout out) else ND);
               finish = (\<lambda>t. t\<lparr>m_dims := out_shape, m_data_type := dtype, m_layout := layout\<rparr>)
           in if \<not> IsInitialized w out \<or> m_memory_size out < bytes
              then (let (w1, b) = new_buffer bytes w
                    in map_option (\<lambda>(w2, t). (w2, Some (finish t))) (ResetBuffer b bytes 0 out w1))
              else Some (w, Some (finish out))))"

section \<open>What the kernel finds\<close>

text \<open>
  A kernel asks its output for a typed pointer, \<open>mutable_data<T>()\<close>, which checks the capacity.  An
  output is ready when that request succeeds.
\<close>

definition kernel_ready :: "world \<Rightarrow> Tensor \<Rightarrow> bool" where
  "kernel_ready w t \<longleftrightarrow> mutable_data_typed (m_data_type t) (DataTypeBytes (m_data_type t)) t w \<noteq> None"

text \<open>A tensor with storage has at least the memory it says it has.\<close>

definition tensor_fits :: "world \<Rightarrow> Tensor \<Rightarrow> bool" where
  "tensor_fits w t \<longleftrightarrow> (m_storage t \<noteq> None \<longrightarrow> HasCapacity w t (m_memory_size t))"

lemma HasCapacity_less: "HasCapacity w t n \<Longrightarrow> m \<le> n \<Longrightarrow> HasCapacity w t m"
  by (auto simp: HasCapacity_def split: option.splits)

lemma HasCapacity_cong:
  "m_storage t = m_storage t' \<Longrightarrow> m_offset t = m_offset t' \<Longrightarrow> HasCapacity w t n \<longleftrightarrow> HasCapacity w t' n"
  by (simp add: HasCapacity_def split: option.split)

lemma kernel_readyI:
  assumes "CheckedByteCount (m_dims t) (DataTypeBytes (m_data_type t)) = Some bytes" and "bytes \<le> n"
    and "HasCapacity w t n" and "n \<le> m_memory_size t \<and> tensor_fits w t \<or> m_memory_size t \<le> n"
  shows "kernel_ready w t"
proof -
  have cap: "HasCapacity w t bytes" using HasCapacity_less[OF assms(3,2)] .
  have mem: "HasCapacity w t (m_memory_size t)"
    using assms(3,4) HasCapacity_less by (auto simp: tensor_fits_def HasCapacity_def split: option.splits)
  have "EnsureWritable t w \<noteq> None" using mem by (auto simp: EnsureWritable_def split: option.splits)
  then show ?thesis using cap assms(1) by (auto simp: kernel_ready_def mutable_data_typed_def mutable_data_def Let_def split: prod.splits)
qed

lemma kernel_readyD:
  "kernel_ready w t \<Longrightarrow> CheckedByteCount (m_dims t) (DataTypeBytes (m_data_type t)) = Some bytes \<Longrightarrow> HasCapacity w t bytes"
  by (auto simp: kernel_ready_def mutable_data_typed_def mutable_data_def Let_def split: if_splits)

lemma new_Storage_facts:
  assumes "new_Storage (Some b) dev idx w = (w', s)"
  shows "storage_size s w' = b_size (buffers w ! b)" and "buffers w' = buffers w"
  using assms by (auto simp: new_Storage_def Let_def storage_size_def)

text \<open>A buffer of its own gives a tensor exactly the capacity asked for.\<close>

lemma ResetBuffer_new:
  assumes "new_buffer n w = (w1, b)" and "ResetBuffer b n 0 t w1 = Some (w2, t')"
  shows "HasCapacity w2 t' n" and "m_memory_size t' = n"
    and "m_dims t' = m_dims t" "m_data_type t' = m_data_type t" "m_layout t' = m_layout t" "m_quantization t' = m_quantization t"
proof -
  have b: "b_size (buffers w1 ! b) = n" using assms(1) by (auto simp: new_buffer_def nth_append)
  obtain s where s: "new_Storage (Some b) COMMON 0 w1 = (w2, s)" "ResetStorage s n 0 t w2 = Some t'"
    using assms(2) by (auto simp: ResetBuffer_def split: if_splits prod.splits)
  then show "HasCapacity w2 t' n" "m_memory_size t' = n" "m_dims t' = m_dims t" "m_data_type t' = m_data_type t"
    "m_layout t' = m_layout t" "m_quantization t' = m_quantization t"
    using new_Storage_facts(1)[OF s(1)] b by (auto simp: ResetStorage_def HasCapacity_def split: if_splits)
qed

lemma ResetBuffer_new_total: "new_buffer n w = (w1, b) \<Longrightarrow> \<exists>w2 t'. ResetBuffer b n 0 t w1 = Some (w2, t')"
proof -
  assume n: "new_buffer n w = (w1, b)"
  then have b: "b_size (buffers w1 ! b) = n" by (auto simp: new_buffer_def nth_append)
  obtain w2 s where s: "new_Storage (Some b) COMMON 0 w1 = (w2, s)" by (cases "new_Storage (Some b) COMMON 0 w1")
  then show ?thesis using new_Storage_facts(1)[OF s] b by (auto simp: ResetBuffer_def ResetStorage_def)
qed

lemma set_quantization_sel [simp]:
  "m_dims (set_quantization q t) = m_dims t" "m_data_type (set_quantization q t) = m_data_type t"
  "m_layout (set_quantization q t) = m_layout t" "m_storage (set_quantization q t) = m_storage t"
  "m_memory_size (set_quantization q t) = m_memory_size t" "m_offset (set_quantization q t) = m_offset t"
  by (simp_all add: set_quantization_def Let_def)

lemma HasCapacity_updates [simp]:
  "HasCapacity w (set_quantization q t) n = HasCapacity w t n" "HasCapacity w (t\<lparr>m_layout := l\<rparr>) n = HasCapacity w t n"
  "HasCapacity w (t\<lparr>m_data_type := dt\<rparr>) n = HasCapacity w t n" "HasCapacity w (t\<lparr>m_dims := ds\<rparr>) n = HasCapacity w t n"
  by (rule HasCapacity_cong; simp)+

lemma numel_from_eq:
  "\<forall>d \<in> set ds. 0 \<le> d \<Longrightarrow> numel_from n ds mod 18446744073709551616 = n * nat (prod_list ds) mod 18446744073709551616"
proof (induction ds arbitrary: n)
  case (Cons d ds)
  have p: "0 \<le> prod_list ds" using Cons.prems by (intro prod_list_nonneg) simp
  have "numel_from n (d # ds) mod 18446744073709551616 = mul64 n (nat d) * nat (prod_list ds) mod 18446744073709551616"
    using Cons by simp
  also have "\<dots> = n * nat d * nat (prod_list ds) mod 18446744073709551616" by (simp add: mul64_def mod_mult_left_eq)
  finally show ?case using Cons.prems p by (simp add: nat_mult_distrib mult.assoc)
qed simp

lemma numel_from_less: "n < 18446744073709551616 \<Longrightarrow> numel_from n ds < 18446744073709551616"
  by (induction ds arbitrary: n) (simp_all add: mul64_def)

lemma NumelForShape_count:
  assumes "CheckedElementCount shape = Some c"
  shows "NumelForShape shape = c"
proof -
  have c: "\<forall>d \<in> set shape. 0 \<le> d" "int c = prod_list shape" "int c \<le> INT64_MAX"
    using CheckedElementCount_SomeD[OF assms] by auto
  then have "numel_from 1 shape mod 18446744073709551616 = c mod 18446744073709551616"
    using numel_from_eq[of shape 1] by (metis nat_int mult_1)
  then show ?thesis using numel_from_less[of 1 shape] c(3) by (simp add: NumelForShape_def INT64_MAX_def)
qed

lemma CheckedByteCount_SomeD:
  assumes "CheckedByteCount shape eb = Some bytes"
  shows "\<exists>c. CheckedElementCount shape = Some c \<and> bytes = c * eb \<and> bytes \<le> SIZE_MAX \<and> 0 < eb"
  using assms by (auto simp: CheckedByteCount_spec split: option.splits if_splits)

lemma AllocateOutput_cases:
  assumes bytes: "CheckedByteCount shape (DataTypeBytes data_type) = Some bytes" and "0 < bytes"
    and fits: "\<And>t. output = Some t \<Longrightarrow> tensor_fits w t"
  shows "\<exists>w' t. AllocateOutput output shape data_type w = Some (w', Some t) \<and> m_dims t = shape \<and> m_data_type t = data_type \<and>
    m_layout t = (case output of None \<Rightarrow> ND | Some t0 \<Rightarrow> m_layout t0) \<and>
    HasCapacity w' t bytes \<and> bytes \<le> m_memory_size t \<and> tensor_fits w' t"
proof -
  obtain c where c: "CheckedElementCount shape = Some c" "bytes = c * DataTypeBytes data_type" "bytes \<le> SIZE_MAX"
    "0 < DataTypeBytes data_type"
    using CheckedByteCount_SomeD[OF bytes] by blast
  have n: "NumelForShape shape = c" "mul64 c (DataTypeBytes data_type) = bytes"
    using NumelForShape_count[OF c(1)] c(2,3) by (simp_all add: mul64_exact)
  have nz: "c \<noteq> 0" "DataTypeBytes data_type \<noteq> 0" using c assms(2) by auto
  define t0 where "t0 = (case output of None \<Rightarrow> empty_Tensor | Some t \<Rightarrow> t)"
  have t0: "tensor_fits w t0" "m_layout t0 = (case output of None \<Rightarrow> ND | Some t0 \<Rightarrow> m_layout t0)"
    using fits by (auto simp: t0_def tensor_fits_def empty_Tensor_def split: option.splits)
  show ?thesis
  proof (cases "\<not> IsInitialized w t0 \<or> m_memory_size t0 < bytes")
    case True
    obtain w1 b where nb: "new_buffer bytes w = (w1, b)" by (cases "new_buffer bytes w")
    obtain w2 t' where rb: "ResetBuffer b bytes 0 t0 w1 = Some (w2, t')" using ResetBuffer_new_total[OF nb] by blast
    note f = ResetBuffer_new[OF nb rb]
    have "tensor_fits w2 t'" using f(1,2) by (simp add: tensor_fits_def)
    then show ?thesis using True f rb t0(2) unfolding AllocateOutput_def Let_def n t0_def[symmetric]
      by (simp add: nz n nb tensor_fits_def split: option.splits)
  next
    case False
    then have "m_storage t0 \<noteq> None" by (auto simp: IsInitialized_def split: option.splits)
    then have "HasCapacity w t0 bytes" using t0(1) False HasCapacity_less by (auto simp: tensor_fits_def)
    then show ?thesis using False t0 unfolding AllocateOutput_def Let_def n t0_def[symmetric]
      by (simp add: nz n tensor_fits_def split: option.splits)
  qed
qed

lemma same_type_ready:
  assumes bytes: "CheckedByteCount shape (DataTypeBytes dt) = Some bytes" and "0 < bytes"
    and dt: "dt = (if m_data_type inp = UNKNOWN then FP32 else m_data_type inp)"
    and fits: "\<And>t. output = Some t \<Longrightarrow> tensor_fits w t"
  shows "\<exists>w' t. InferSameTypeOutput inp output shape w = Some (w', Some t) \<and> m_dims t = shape \<and> m_data_type t = dt \<and>
    kernel_ready w' t"
proof -
  obtain w' t where a: "AllocateOutput output shape dt w = Some (w', Some t)" "m_dims t = shape" "m_data_type t = dt"
    "HasCapacity w' t bytes" "bytes \<le> m_memory_size t" "tensor_fits w' t"
    using AllocateOutput_cases[OF assms(1,2) fits] by blast
  have ready: "kernel_ready w' ((set_quantization q t)\<lparr>m_layout := l\<rparr>)" for q l
    by (rule kernel_readyI[where bytes = bytes and n = bytes]) (use a bytes in \<open>simp_all add: tensor_fits_def\<close>)
  show ?thesis unfolding InferSameTypeOutput_def dt[symmetric] Let_def using a ready by simp
qed

text \<open>\<open>Tensor(shape)\<close> asks for four bytes per element and has the capacity it is granted.\<close>

lemma Tensor_shape_facts:
  assumes "Tensor_shape shape w = Some (w', t)" and "CheckedByteCount shape 4 = Some bytes"
    and "granted_capacity w bytes = Some c"
  shows "m_dims t = shape" and "HasCapacity w' t n \<longleftrightarrow> n \<le> c" and "m_memory_size t = bytes"
proof -
  obtain s where s: "Tensor_bytes bytes w = Some (w', s)" "t = s\<lparr>m_dims := shape\<rparr>"
    using assms(1,2) by (auto simp: Tensor_shape_def)
  have "s = empty_Tensor\<lparr>m_storage := Some (length (storages w)), m_memory_size := bytes\<rparr>"
    using s(1) by (auto simp: Tensor_bytes_facts)
  moreover have "storage_size (length (storages w)) w' = c"
    using Tensor_bytes_size[OF s(1)] assms(3) by simp
  ultimately show "m_dims t = shape" "HasCapacity w' t n \<longleftrightarrow> n \<le> c" "m_memory_size t = bytes"
    by (auto simp: s(2) HasCapacity_def empty_Tensor_def)
qed

lemma required_bytes_count:
  assumes "CheckedByteCount shape (DataTypeBytes dt) = Some bytes" and "0 < bytes"
  shows "required_bytes shape dt = bytes"
proof -
  obtain c where c: "CheckedElementCount shape = Some c" "bytes = c * DataTypeBytes dt" "bytes \<le> SIZE_MAX"
    using CheckedByteCount_SomeD[OF assms(1)] by blast
  have "production shape = int c" using CheckedElementCount_SomeD(4)[OF c(1)] by (simp add: production_prod_list)
  moreover have "0 < c" using c(2) assms(2) by (cases c) auto
  ultimately have "nat (max 1 (production shape)) = c" by simp
  then show ?thesis using c by (simp add: required_bytes_def mul64_exact)
qed

lemma fresh_output_ready:
  assumes t: "Tensor_shape shape w = Some (w', t)" and "CheckedByteCount shape 4 = Some four"
    and "granted_capacity w four = Some c" and bytes: "CheckedByteCount shape (DataTypeBytes dt) = Some bytes"
  shows "kernel_ready w' ((set_quantization q (t\<lparr>m_data_type := dt\<rparr>))\<lparr>m_layout := lay\<rparr>) \<longleftrightarrow> bytes \<le> c"
    (is "kernel_ready w' ?t \<longleftrightarrow> _")
proof -
  note f = Tensor_shape_facts[OF assms(1-3)]
  have cap: "HasCapacity w' ?t n \<longleftrightarrow> n \<le> c" for n
    using f(2)[of n] HasCapacity_cong[of ?t t w' n] by simp
  show ?thesis
  proof
    assume "kernel_ready w' ?t"
    then have "HasCapacity w' ?t bytes" by (rule kernel_readyD) (use f(1) bytes in simp)
    then show "bytes \<le> c" using cap by simp
  next
    assume "bytes \<le> c"
    then show "kernel_ready w' ?t"
      by (intro kernel_readyI[where bytes = bytes and n = c])
        (use f bytes cap granted_capacity_ge[OF assms(3)] in simp_all)
  qed
qed

lemma binary_output:
  assumes shape: "InferBroadcastShape (m_dims l) (m_dims r) = Some shape"
    and dt: "dt = ResolveExecutionDataType [Some l, Some r, Some out] FP32"
    and bytes: "CheckedByteCount shape (DataTypeBytes dt) = Some bytes" "0 < bytes"
    and four: "CheckedByteCount shape 4 = Some four" "granted_capacity w four = Some c" and fits: "tensor_fits w out"
  shows "\<exists>w' t. InferBinaryOutput (Some l) (Some r) (Some out) w = Some (w', Some t) \<and> m_dims t = shape \<and> m_data_type t = dt \<and>
    (kernel_ready w' t \<longleftrightarrow> IsInitialized w out \<and> bytes \<le> m_memory_size out \<or> bytes \<le> c)"
proof -
  have req: "required_bytes shape dt = bytes" using required_bytes_count[OF bytes] .
  let ?done = "\<lambda>t. (set_quantization (quantization_or out (quantization_or l (m_quantization r))) (t\<lparr>m_data_type := dt\<rparr>))
    \<lparr>m_layout := layout_or (m_layout out) (layout_or (m_layout l) (m_layout r))\<rparr>"
  have run: "InferBinaryOutput (Some l) (Some r) (Some out) w =
      map_option (\<lambda>(w', t). (w', Some (?done t))) (fresh_or_resized out shape dt w)"
    by (simp add: InferBinaryOutput_def Let_def shape dt del: ResolveExecutionDataType.simps)
  show ?thesis
  proof (cases "\<not> IsInitialized w out \<or> m_memory_size out < bytes")
    case True
    obtain w' t where t: "Tensor_shape shape w = Some (w', t)"
      using four by (auto simp: Tensor_shape_def Tensor_bytes_facts)
    have "m_dims t = shape" by (rule Tensor_shape_facts(1)[OF t four])
    moreover have "fresh_or_resized out shape dt w = Some (w', t)" using True t by (simp add: fresh_or_resized_def req)
    moreover have "\<not> (IsInitialized w out \<and> bytes \<le> m_memory_size out)" using True by auto
    ultimately show ?thesis using fresh_output_ready[OF t four bytes(1)] by (simp add: run) blast
  next
    case False
    then have cap: "HasCapacity w out bytes" using fits HasCapacity_less
      by (auto simp: tensor_fits_def IsInitialized_def split: option.splits)
    have "kernel_ready w ((set_quantization q (out\<lparr>m_dims := shape, m_data_type := dt\<rparr>))\<lparr>m_layout := lay\<rparr>)" for q lay
      by (rule kernel_readyI[where bytes = bytes and n = bytes])
        (use False bytes cap fits in \<open>simp_all add: tensor_fits_def\<close>)
    moreover have "fresh_or_resized out shape dt w = Some (w, out\<lparr>m_dims := shape\<rparr>)"
      using False by (simp add: fresh_or_resized_def req)
    ultimately show ?thesis using False by (simp add: run)
  qed
qed

section \<open>Properties\<close>

text \<open>
  The outputs of the operators that keep their input's type are ready for their kernels: for a
  shape whose byte count fits and is not zero, \<open>InferSameTypeOutput\<close> succeeds, whatever tensor it is
  given (none, too small, large enough), and the typed pointer the kernel then asks for is granted,
  with the requested dimensions and type.
\<close>

theorem InferSameTypeOutput_ready:
  assumes "CheckedByteCount shape (DataTypeBytes dt) = Some bytes" and "0 < bytes"
    and "dt = (if m_data_type inp = UNKNOWN then FP32 else m_data_type inp)"
    and "\<And>t. output = Some t \<Longrightarrow> tensor_fits w t"
  shows "\<exists>w' t. InferSameTypeOutput inp output shape w = Some (w', Some t) \<and> m_dims t = shape \<and> m_data_type t = dt \<and>
    kernel_ready w' t"
  by (rule same_type_ready[OF assms])

theorem InferSameTypeOutput_ready_witness:
  "\<exists>w' t. InferSameTypeOutput (empty_Tensor\<lparr>m_data_type := INT64\<rparr>) (Some window_tensor) [2, 3] (one_buffer_heap False) = Some (w', Some t) \<and>
    m_dims t = [2, 3] \<and> m_data_type t = INT64 \<and> kernel_ready w' t"
proof (rule InferSameTypeOutput_ready)
  show "CheckedByteCount [2, 3] (DataTypeBytes INT64) = Some 48"
    by (simp add: CheckedByteCount_spec CheckedElementCount_spec INT64_MAX_def SIZE_MAX_def)
  show "tensor_fits (one_buffer_heap False) t" if "Some window_tensor = Some t" for t
    using that by (auto simp: tensor_fits_def HasCapacity_def window_tensor_def one_buffer_heap_def storage_size_def)
qed simp_all

text \<open>
  The output of an elementwise operator is ready for its kernel exactly when the given tensor
  was already large enough or the bytes fit the capacity granted for four-byte elements: a tensor
  that is too small is replaced by one sized for four-byte elements, whatever the type.  In a
  deferred scope that capacity is exact, so with 64-bit elements the replaced output always
  refuses the pointer its kernel asks for; elsewhere it is the size class, and the output refuses
  as soon as the elements outgrow the class.
\<close>

theorem InferBinaryOutput_ready_iff:
  assumes "InferBroadcastShape (m_dims l) (m_dims r) = Some shape"
    and "dt = ResolveExecutionDataType [Some l, Some r, Some out] FP32"
    and "CheckedByteCount shape (DataTypeBytes dt) = Some bytes" and "0 < bytes"
    and "CheckedByteCount shape 4 = Some four" and "granted_capacity w four = Some c" and "tensor_fits w out"
  shows "\<exists>w' t. InferBinaryOutput (Some l) (Some r) (Some out) w = Some (w', Some t) \<and> m_dims t = shape \<and> m_data_type t = dt \<and>
    (kernel_ready w' t \<longleftrightarrow> IsInitialized w out \<and> bytes \<le> m_memory_size out \<or> bytes \<le> c)"
  by (rule binary_output[OF assms])

theorem InferBinaryOutput_ready_iff_witness:
  "\<exists>w' t. InferBinaryOutput (Some (empty_Tensor\<lparr>m_dims := [9], m_data_type := INT64\<rparr>))
      (Some (empty_Tensor\<lparr>m_dims := [1], m_data_type := INT64\<rparr>)) (Some empty_Tensor) (one_buffer_heap False) = Some (w', Some t) \<and>
    m_dims t = [9] \<and> m_data_type t = INT64 \<and> \<not> kernel_ready w' t"
proof -
  have e: "CheckedByteCount [9] (DataTypeBytes INT64) = Some 72" "CheckedByteCount [9] 4 = Some 36"
    by (simp_all add: CheckedByteCount_spec CheckedElementCount_spec INT64_MAX_def SIZE_MAX_def)
  have b: "InferBroadcastShape [9] [1] = Some [9]" by code_simp
  have c: "granted_capacity (one_buffer_heap False) 36 = Some 64"
    by (simp add: granted_capacity_def one_buffer_heap_def NormalizeSize_def pool_consts double_until.simps)
  have "\<exists>w' t. InferBinaryOutput (Some (empty_Tensor\<lparr>m_dims := [9], m_data_type := INT64\<rparr>))
      (Some (empty_Tensor\<lparr>m_dims := [1], m_data_type := INT64\<rparr>)) (Some empty_Tensor) (one_buffer_heap False) = Some (w', Some t) \<and>
    m_dims t = [9] \<and> m_data_type t = INT64 \<and>
    (kernel_ready w' t \<longleftrightarrow> IsInitialized (one_buffer_heap False) empty_Tensor \<and> 72 \<le> m_memory_size empty_Tensor \<or> (72::nat) \<le> 64)"
    by (rule InferBinaryOutput_ready_iff) (use e b c in \<open>simp_all add: tensor_fits_def empty_Tensor_def\<close>)
  then show ?thesis by (simp add: IsInitialized_def empty_Tensor_def)
qed

text \<open>The dimensions of a convolution follow the input's layout, its layout attribute the output's.\<close>

lemma conv_output_layout_differs:
  "\<exists>w t. Conv2dInfer \<lparr>cv_stride_h = 1, cv_stride_w = 1, cv_pad_h = 0, cv_pad_w = 0, cv_dilation_h = 1, cv_dilation_w = 1, cv_group = 1\<rparr>
      (empty_Tensor\<lparr>m_dims := [1, 2, 5, 7], m_layout := NCHW\<rparr>) (empty_Tensor\<lparr>m_dims := [3, 2, 1, 1]\<rparr>) None
      (empty_Tensor\<lparr>m_layout := NHWC\<rparr>) (one_buffer_heap False) = Some (w, Some t) \<and> m_dims t = [1, 3, 5, 7] \<and> m_layout t = NHWC"
proof -
  let ?p = "\<lparr>cv_stride_h = 1, cv_stride_w = 1, cv_pad_h = 0, cv_pad_w = 0, cv_dilation_h = 1, cv_dilation_w = 1, cv_group = 1\<rparr>"
  let ?out = "empty_Tensor\<lparr>m_layout := NHWC\<rparr>"
  have shape: "Conv2dShape ?p [1, 2, 5, 7] NCHW [3, 2, 1, 1] None = Some [1, 3, 5, 7]" by code_simp
  obtain w1 b where nb: "new_buffer (required_bytes [1, 3, 5, 7] FP32) (one_buffer_heap False) = (w1, b)"
    by (cases "new_buffer (required_bytes [1, 3, 5, 7] FP32) (one_buffer_heap False)")
  obtain w2 t where rb: "ResetBuffer b (required_bytes [1, 3, 5, 7] FP32) 0 ?out w1 = Some (w2, t)"
    using ResetBuffer_new_total[OF nb] by blast
  show ?thesis
    using shape nb rb by (simp add: Conv2dInfer_def Let_def IsInitialized_def empty_Tensor_def NormalizeDataLayout_def IsImageLayout_def)
qed

end
