(* ===== verification/Layout_Kernels.thy ===== *)
theory Layout_Kernels
  imports Op_Shapes
begin

text \<open>
  The common kernels that move or combine elements (\<open>src/kernel/common/\<close>): broadcasting binary and
  unary loops, transpose, slice, gather, expand, where and plain copies.  \<open>rd\<close> and \<open>wr\<close> are
  \<open>TensorIO::Read\<close> of the input tensor and \<open>TensorIO::Write\<close> of the output tensor: the stored bits of
  one element to the computed value and back, with the quantization scale of that tensor for FP8.  A
  kernel with two inputs has a reader for each.  \<open>fn\<close>, \<open>add\<close>, \<open>mul\<close> are the arithmetic on values, so
  nothing here depends on rounding.  The buffers are values: an output that shares memory with an
  input is not modelled, save for the test of \<open>ComputeTransposeKernel\<close>.  A pointer that may be null is an
  option.  A kernel answers its status, \<open>0\<close> or \<open>-1\<close>, and the output as it left it.  \<open>numel()\<close> is the
  product of the dimensions: tensors whose count does not fit are refused when they are allocated.
\<close>

section \<open>Elementwise kernels\<close>

abbreviation data_at :: "'a nd \<Rightarrow> i64 \<Rightarrow> 'a" where
  "data_at t offset \<equiv> nd_data t ! nat offset"

abbreviation nd_numel :: "'a nd \<Rightarrow> i64" where
  "nd_numel t \<equiv> production (nd_dims t)"

definition RunBinary ::
  "DataType \<Rightarrow> ('s \<Rightarrow> 'v) \<Rightarrow> ('s \<Rightarrow> 'v) \<Rightarrow> ('v \<Rightarrow> 's) \<Rightarrow> ('v \<Rightarrow> 'v \<Rightarrow> 'v) \<Rightarrow>
   's nd option \<Rightarrow> 's nd option \<Rightarrow> 's nd option \<Rightarrow> int \<times> 's nd option" where
  "RunBinary dtype rd_lhs rd_rhs wr fn output lhs rhs =
     (case (output, lhs, rhs) of
        (Some out, Some l, Some r) \<Rightarrow>
          if nd_type l \<noteq> dtype \<or> nd_type r \<noteq> dtype \<or> nd_type out \<noteq> dtype then (-1, output)
          else (case InferBroadcastShape (nd_dims l) (nd_dims r) of
              None \<Rightarrow> (-1, output)
            | Some output_dims \<Rightarrow>
                if nd_dims out \<noteq> output_dims then (-1, output)
                else (let output_strides = ComputeStrides output_dims;
                          lhs_strides = ComputeStrides (nd_dims l); rhs_strides = ComputeStrides (nd_dims r);
                          value = (\<lambda>linear.
                            let coords = LinearToCoords linear output_strides in
                            wr (fn (rd_lhs (data_at l (BroadcastOffset coords (nd_dims l) lhs_strides)))
                                   (rd_rhs (data_at r (BroadcastOffset coords (nd_dims r) rhs_strides)))))
                      in (0, Some (out\<lparr>nd_data := write_all (nd_numel out) value (nd_data out)\<rparr>))))
      | _ \<Rightarrow> (-1, output))"

definition RunUnary ::
  "DataType \<Rightarrow> ('s \<Rightarrow> 'v) \<Rightarrow> ('v \<Rightarrow> 's) \<Rightarrow> ('v \<Rightarrow> 'v) \<Rightarrow>
   's nd option \<Rightarrow> 's nd option \<Rightarrow> int \<times> 's nd option" where
  "RunUnary dtype rd wr fn output input =
     (case (output, input) of
        (Some out, Some inp) \<Rightarrow>
          if nd_type inp \<noteq> dtype \<or> nd_type out \<noteq> dtype \<or> nd_dims inp \<noteq> nd_dims out then (-1, output)
          else (0, Some (out\<lparr>nd_data := write_all (nd_numel inp) (\<lambda>i. wr (fn (rd (data_at inp i)))) (nd_data out)\<rparr>))
      | _ \<Rightarrow> (-1, output))"

section \<open>Transpose\<close>

fun no_op_loop :: "i64 list \<Rightarrow> i64 list \<Rightarrow> bool list \<Rightarrow> nat \<Rightarrow> bool" where
  "no_op_loop input_dims [] seen k = True"
| "no_op_loop input_dims (axis # perm) seen k =
     (if axis < 0 \<or> int (length input_dims) \<le> axis then False
      else if seen ! nat axis then False
      else (let seen' = seen[nat axis := True] in
        if input_dims ! nat axis = 1 then no_op_loop input_dims perm seen' k
        else (let k' = skip_singletons input_dims k in
          if k' = length input_dims \<or> nat axis \<noteq> k' then False
          else no_op_loop input_dims perm seen' (Suc k'))))"

definition IsPhysicalNoOpPermutation :: "i64 list \<Rightarrow> i64 list \<Rightarrow> bool" where
  "IsPhysicalNoOpPermutation perm input_dims \<longleftrightarrow>
     length perm = length input_dims \<and> no_op_loop input_dims perm (replicate (length input_dims) False) 0"

text \<open>\<open>in_coords[perm[axis]] = out_coords[axis]\<close> for every axis, on coordinates that start at zero.\<close>

definition scatter_coords :: "i64 list \<Rightarrow> nat \<Rightarrow> i64 list \<Rightarrow> i64 list" where
  "scatter_coords perm rank out_coords =
     fold (\<lambda>axis in_coords. in_coords[nat (perm ! axis) := out_coords ! axis]) [0..<length perm] (replicate rank 0)"

text \<open>
  \<open>same_buffer\<close>: both tensors are initialized and share their raw data.  Then nothing is moved when
  the permutation moves only dimensions of one, and otherwise the loop reads what it has written.
\<close>

definition ComputeTransposeKernel ::
  "DataType \<Rightarrow> ('s \<Rightarrow> 'v) \<Rightarrow> ('v \<Rightarrow> 's) \<Rightarrow> i64 list \<Rightarrow> bool \<Rightarrow> 's nd option \<Rightarrow> 's nd option \<Rightarrow> int \<times> 's nd option" where
  "ComputeTransposeKernel dtype rd wr perm same_buffer input output =
     (case (input, output) of
        (Some inp, Some out) \<Rightarrow>
          (let in_dims = nd_dims inp; out_dims = nd_dims out; out' = out\<lparr>nd_type := dtype\<rparr> in
           if IsPhysicalNoOpPermutation perm in_dims \<and> same_buffer then (0, Some out')
           else (let out_strides = ComputeStrides out_dims; in_strides = ComputeStrides in_dims;
                     source = (\<lambda>linear. offset_of (scatter_coords perm (length in_dims) (LinearToCoords linear out_strides)) in_strides);
                     write = (\<lambda>linear data. data[linear :=
                       wr (rd ((if same_buffer then data else nd_data inp) ! nat (source (int linear))))])
                 in (0, Some (out'\<lparr>nd_data := fold write [0..<nat (nd_numel out)] (nd_data out)\<rparr>))))
      | _ \<Rightarrow> (-1, output))"

section \<open>Slice\<close>

definition ComputeSliceCommon ::
  "DataType \<Rightarrow> ('s \<Rightarrow> 'v) \<Rightarrow> ('v \<Rightarrow> 's) \<Rightarrow> int \<Rightarrow> int \<Rightarrow> 's nd option \<Rightarrow> 's nd option \<Rightarrow> int \<times> 's nd option" where
  "ComputeSliceCommon dtype rd wr axis_attr start_attr input output =
     (case (input, output) of
        (Some inp, Some out) \<Rightarrow>
          (let in_dims = nd_dims inp; rank = length in_dims; axis = resolve_axis axis_attr rank in
           if axis < 0 \<or> int rank \<le> axis then (-1, output)
           else (let dim = in_dims ! nat axis;
                     start = max 0 (if start_attr < 0 then start_attr + dim else start_attr);
                     out_strides = ComputeStrides (nd_dims out); in_strides = ComputeStrides in_dims;
                     source = (\<lambda>linear.
                       let in_coords = take rank (LinearToCoords linear out_strides)
                       in offset_of (in_coords[nat axis := in_coords ! nat axis + start]) in_strides)
                 in (0, Some (out\<lparr>nd_type := dtype,
                       nd_data := write_all (nd_numel out) (\<lambda>linear. wr (rd (data_at inp (source linear)))) (nd_data out)\<rparr>))))
      | _ \<Rightarrow> (-1, output))"

section \<open>Gather, expand, where\<close>

text \<open>
  The loop of \<open>Gather\<close>: it stops with \<open>-1\<close> at the first index out of range, after the elements
  before it were written.  \<open>index_at\<close> is \<open>ReadIndex\<close> on the index tensor.
\<close>

definition gather_offset :: "i64 list \<Rightarrow> i64 list \<Rightarrow> nat \<Rightarrow> nat \<Rightarrow> i64 \<Rightarrow> i64 list \<Rightarrow> i64" where
  "gather_offset data_dims data_strides indices_rank axis index out_coords =
     (\<Sum>data_axis\<leftarrow>[0..<axis]. out_coords ! data_axis * data_strides ! data_axis) + index * data_strides ! axis +
     (\<Sum>data_axis\<leftarrow>[axis + 1..<length data_dims]. out_coords ! (data_axis - 1 + indices_rank) * data_strides ! data_axis)"

fun gather_loop ::
  "('s \<Rightarrow> 's) \<Rightarrow> nat \<Rightarrow> 's nd \<Rightarrow> i64 nd \<Rightarrow> i64 list \<Rightarrow> nat list \<Rightarrow> 's list \<Rightarrow> bool \<times> 's list" where
  "gather_loop convert axis data indices out_strides [] out = (True, out)"
| "gather_loop convert axis data indices out_strides (linear # rest) out =
     (let data_dims = nd_dims data; indices_dims = nd_dims indices;
          out_coords = LinearToCoords (int linear) out_strides;
          indices_offset = (\<Sum>index_axis\<leftarrow>[0..<length indices_dims].
            out_coords ! (axis + index_axis) * ComputeStrides indices_dims ! index_axis);
          read = data_at indices indices_offset;
          index = (if read < 0 then read + data_dims ! axis else read)
      in if index < 0 \<or> data_dims ! axis \<le> index then (False, out)
         else gather_loop convert axis data indices out_strides rest
                (out[linear := convert (data_at data
                   (gather_offset data_dims (ComputeStrides data_dims) (length indices_dims) axis index out_coords))]))"

definition ComputeGather ::
  "DataType \<Rightarrow> ('s \<Rightarrow> 'v) \<Rightarrow> ('v \<Rightarrow> 's) \<Rightarrow> int \<Rightarrow> 's nd option \<Rightarrow> i64 nd option \<Rightarrow> 's nd option \<Rightarrow> int \<times> 's nd option" where
  "ComputeGather dtype rd wr axis_attr source positions output =
     (case (source, positions, output) of
        (Some data, Some indices, Some out) \<Rightarrow>
          if nd_type data \<noteq> dtype \<or> nd_type indices \<noteq> INT32 \<and> nd_type indices \<noteq> INT64 then (-1, output)
          else
            (let axis = resolve_axis axis_attr (length (nd_dims data)) in
             if axis < 0 \<or> int (length (nd_dims data)) \<le> axis then (-1, output)
             else (case gather_loop (wr \<circ> rd) (nat axis) data indices (ComputeStrides (nd_dims out))
                          [0..<nat (nd_numel out)] (nd_data out) of
                 (True, d) \<Rightarrow> (0, Some (out\<lparr>nd_data := d, nd_type := dtype\<rparr>))
               | (False, d) \<Rightarrow> (-1, Some (out\<lparr>nd_data := d\<rparr>))))
      | _ \<Rightarrow> (-1, output))"

text \<open>
  \<open>Expand\<close> and \<open>Where\<close> copy the bytes of an element as they are.  An uninitialized buffer is an
  empty one here; \<open>memory_size\<close> bounds the elements.
\<close>

definition expand_axis_ok :: "i64 \<Rightarrow> i64 \<Rightarrow> i64 \<Rightarrow> bool" where
  "expand_axis_ok input_dim target_dim output_dim \<longleftrightarrow>
     \<not> (input_dim \<le> 0 \<or> target_dim \<le> 0 \<or> (input_dim \<noteq> target_dim \<and> input_dim \<noteq> 1 \<and> target_dim \<noteq> 1) \<or>
        output_dim \<noteq> max input_dim target_dim)"

definition ComputeExpand ::
  "DataType \<Rightarrow> 's nd option \<Rightarrow> (i64 list \<times> DataType) option \<Rightarrow> 's nd option \<Rightarrow> bool \<Rightarrow> bool \<Rightarrow> int \<times> 's nd option" where
  "ComputeExpand dtype input shape output input_ready output_ready =
     (case (input, shape, output) of
        (Some inp, Some (target_shape, shape_type), Some out) \<Rightarrow>
          (let input_dims = nd_dims inp; output_dims = nd_dims out in
           if nd_type inp \<noteq> dtype \<or> \<not> input_ready \<or> \<not> output_ready \<or> shape_type \<noteq> INT64 \<and> shape_type \<noteq> INT32 then (-1, output)
           else if length target_shape < length input_dims \<or> length target_shape \<noteq> length output_dims then (-1, output)
           else if \<exists>axis \<in> set [0..<length target_shape].
               \<not> expand_axis_ok (aligned_dim (length target_shape) input_dims axis) (target_shape ! axis) (output_dims ! axis)
           then (-1, output)
           else if DataTypeBytes dtype = 0 \<or> length (nd_data out) < nat (nd_numel out) then (-1, output)
           else (let output_strides = ComputeStrides output_dims; input_strides = ComputeStrides input_dims
                 in (0, Some (out\<lparr>nd_type := dtype, nd_data := write_all (nd_numel out) (\<lambda>linear.
                       data_at inp (BroadcastOffset (LinearToCoords linear output_strides) input_dims input_strides)) (nd_data out)\<rparr>))))
      | _ \<Rightarrow> (-1, output))"

definition ComputeWhere ::
  "DataType \<Rightarrow> bool nd option \<Rightarrow> 's nd option \<Rightarrow> 's nd option \<Rightarrow> 's nd option \<Rightarrow> bool \<Rightarrow> int \<times> 's nd option" where
  "ComputeWhere dtype c a b output all_ready =
     (case (c, a, b, output) of
        (Some condition, Some x, Some y, Some out) \<Rightarrow>
          if nd_type condition \<noteq> BOOL \<or> nd_type x \<noteq> dtype \<or> nd_type y \<noteq> dtype \<or> \<not> all_ready then (-1, output)
          else if DataTypeBytes dtype = 0 \<or> length (nd_data out) < nat (nd_numel out) then (-1, output)
          else
            (let output_strides = ComputeStrides (nd_dims out);
                 at = (\<lambda>t coords. BroadcastOffset coords (nd_dims t) (ComputeStrides (nd_dims t)));
                 value = (\<lambda>linear.
                   let coordinates = LinearToCoords linear output_strides in
                   if data_at condition (BroadcastOffset coordinates (nd_dims condition) (ComputeStrides (nd_dims condition)))
                   then data_at x (at x coordinates) else data_at y (at y coordinates))
             in (0, Some (out\<lparr>nd_type := dtype, nd_data := write_all (nd_numel out) value (nd_data out)\<rparr>)))
      | _ \<Rightarrow> (-1, output))"

text \<open>\<open>CopyTensor\<close>, which squeeze, unsqueeze, flatten and reshape use: the elements in their order.\<close>

definition CopyTensor :: "'s nd option \<Rightarrow> 's nd option \<Rightarrow> bool \<Rightarrow> int \<times> 's nd option" where
  "CopyTensor input output both_ready =
     (case (input, output) of
        (Some inp, Some out) \<Rightarrow>
          if \<not> both_ready \<or> nd_numel inp \<noteq> nd_numel out then (-1, output)
          else if DataTypeBytes (nd_type inp) = 0 \<or> length (nd_data out) < nat (nd_numel inp) then (-1, output)
          else (let count = nat (nd_numel inp)
                in (0, Some (out\<lparr>nd_data := take count (nd_data inp) @ drop count (nd_data out), nd_type := nd_type inp\<rparr>)))
      | _ \<Rightarrow> (-1, output))"

section \<open>Broadcasting\<close>

lemma for_axes_Some: "for_axes n f = Some xs \<longleftrightarrow> length xs = n \<and> (\<forall>i < n. f i = Some (xs ! i))"
proof
  assume "for_axes n f = Some xs"
  then have "\<forall>i < n. f i \<noteq> None" "xs = map (\<lambda>i. the (f i)) [0..<n]" by (auto simp: for_axes_def split: if_splits)
  then show "length xs = n \<and> (\<forall>i < n. f i = Some (xs ! i))" by auto
next
  assume r: "length xs = n \<and> (\<forall>i < n. f i = Some (xs ! i))"
  then have "map (\<lambda>i. the (f i)) [0..<n] = xs" by (intro nth_equalityI) auto
  then show "for_axes n f = Some xs" using r by (auto simp: for_axes_def)
qed

text \<open>The dimensions \<open>dims\<close> are one or those of \<open>out\<close>, aligned at the last axis.\<close>

definition fits :: "i64 list \<Rightarrow> i64 list \<Rightarrow> bool" where
  "fits dims out \<longleftrightarrow> length dims \<le> length out \<and>
     (\<forall>i < length dims. dims ! i = 1 \<or> dims ! i = out ! (i + (length out - length dims)))"

lemma fits_project:
  assumes "fits dims out" and "in_dims out cs"
  shows "in_dims dims (project dims cs)"
proof -
  have l: "length cs = length out" "length dims \<le> length cs" using assms by (auto simp: fits_def in_dims_nth)
  then show ?thesis using assms unfolding in_dims_nth project_def fits_def
    by (auto simp: add.commute)
qed

lemma broadcast_fits:
  assumes "InferBroadcastShape ls rs = Some out" and "\<forall>d \<in> set ls \<union> set rs. 0 < d"
  shows "fits ls out \<and> fits rs out"
proof -
  let ?n = "max (length ls) (length rs)"
  have out: "length out = ?n" "\<And>i. i < ?n \<Longrightarrow> broadcast_dim (aligned_dim ?n ls i) (aligned_dim ?n rs i) = Some (out ! i)"
    using assms(1) by (auto simp: InferBroadcastShape_def Let_def for_axes_Some)
  have pos: "0 < aligned_dim ?n ds i" if "ds = ls \<or> ds = rs" "i < ?n" for ds i
    using that assms(2) by (auto simp: aligned_dim_def intro!: assms(2)[rule_format] nth_mem)
  have each: "fits ds out" if ds: "ds = ls \<or> ds = rs" for ds
    unfolding fits_def
  proof (intro conjI allI impI)
    show len: "length ds \<le> length out" using ds out(1) by auto
    fix i assume i: "i < length ds"
    let ?j = "i + (length out - length ds)"
    have j: "?j < ?n" "aligned_dim ?n ds ?j = ds ! i" using i len out(1) by (auto simp: aligned_dim_def)
    have "ds ! i = 1 \<or> ds ! i = out ! ?j"
      using out(2)[OF j(1)] pos[OF _ j(1), of ls] pos[OF _ j(1), of rs] ds j(2)
      by (auto simp: broadcast_dim_def split: if_splits)
    then show "ds ! i = 1 \<or> ds ! i = out ! ?j" .
  qed
  then show ?thesis by blast
qed

lemma read_broadcast:
  assumes "fits (nd_dims t) dims" and "length cs = length dims"
  shows "data_at t (BroadcastOffset cs (nd_dims t) (ComputeStrides (nd_dims t))) = nd_at t (project (nd_dims t) cs)"
proof -
  have "length (nd_dims t) \<le> length cs" using assms by (auto simp: fits_def)
  then show ?thesis by (simp add: nd_at_def BroadcastOffset_project)
qed

lemma RunBinary_ok:
  "RunBinary dtype rd_lhs rd_rhs wr fn output lhs rhs = (0, result) \<longleftrightarrow>
     (\<exists>out l r. output = Some out \<and> lhs = Some l \<and> rhs = Some r \<and>
        nd_type l = dtype \<and> nd_type r = dtype \<and> nd_type out = dtype \<and>
        InferBroadcastShape (nd_dims l) (nd_dims r) = Some (nd_dims out) \<and>
        result = Some (out\<lparr>nd_data := write_all (nd_numel out) (\<lambda>linear.
          let coords = LinearToCoords linear (ComputeStrides (nd_dims out)) in
          wr (fn (rd_lhs (data_at l (BroadcastOffset coords (nd_dims l) (ComputeStrides (nd_dims l)))))
                 (rd_rhs (data_at r (BroadcastOffset coords (nd_dims r) (ComputeStrides (nd_dims r)))))))
          (nd_data out)\<rparr>))"
  by (auto simp: RunBinary_def Let_def split: option.splits)

lemma broadcast_values:
  assumes "fits (nd_dims l) dims" and "fits (nd_dims r) dims" and "nat (prod_list dims) \<le> length data"
    and cs: "in_dims dims cs"
    and t: "nd_dims t = dims" "nd_data t = write_all (prod_list dims) (\<lambda>linear.
          let coords = LinearToCoords linear (ComputeStrides dims) in
          f (data_at l (BroadcastOffset coords (nd_dims l) (ComputeStrides (nd_dims l))))
            (data_at r (BroadcastOffset coords (nd_dims r) (ComputeStrides (nd_dims r))))) data"
  shows "nd_at t cs = f (nd_at l (project (nd_dims l) cs)) (nd_at r (project (nd_dims r) cs))"
  by (rule write_all_at[OF assms(3) cs _ t]) (simp add: Let_def read_broadcast[OF assms(1)] read_broadcast[OF assms(2)])

section \<open>Transpose\<close>

abbreviation permute :: "i64 list \<Rightarrow> 'a list \<Rightarrow> 'a list" where
  "permute perm xs \<equiv> map (\<lambda>axis. xs ! nat axis) perm"

lemma length_scatter: "length (scatter_coords perm rank oc) = rank"
  by (simp add: scatter_coords_def length_fold_update)

lemma scatter_upto:
  assumes "distinct perm" and "\<forall>a \<in> set perm. 0 \<le> a \<and> a < int rank" and "k \<le> length perm" and "axis < k"
  shows "fold (\<lambda>axis ics. ics[nat (perm ! axis) := oc ! axis]) [0..<k] (replicate rank 0) ! nat (perm ! axis) = oc ! axis"
  using assms(3,4)
proof (induction k)
  case (Suc k)
  let ?r = "fold (\<lambda>axis ics. ics[nat (perm ! axis) := oc ! axis]) [0..<k] (replicate rank 0)"
  have bounds: "0 \<le> perm ! j" "perm ! j < int rank" if "j \<le> k" for j using that assms(2) Suc.prems(1) by simp_all
  have len: "length ?r = rank" by (simp add: length_fold_update)
  show ?case
  proof (cases "axis = k")
    case True
    then show ?thesis using bounds[of k] len by simp
  next
    case False
    then have "axis < k" using Suc.prems by simp
    moreover have "nat (perm ! axis) \<noteq> nat (perm ! k)"
      using bounds[of axis] bounds[of k] nth_eq_iff_index_eq[OF assms(1), of axis k] Suc.prems \<open>axis < k\<close>
      by (simp add: eq_nat_nat_iff)
    ultimately show ?thesis using Suc by simp
  qed
qed simp

lemma valid_perm_distinct:
  assumes "IsValidPermutation perm rank"
  shows "distinct perm" and "\<forall>a \<in> set perm. 0 \<le> a \<and> a < int rank" and "length perm = rank"
  using assms by (auto simp: IsValidPermutation_eq intro!: card_distinct)

lemma scatter_permute:
  assumes p: "IsValidPermutation perm rank" and cs: "length cs = rank"
  shows "scatter_coords perm rank (permute perm cs) = cs"
proof (rule nth_equalityI)
  fix j assume "j < length (scatter_coords perm rank (permute perm cs))"
  then have "j < rank" by (simp add: length_scatter)
  then have "int j \<in> set perm" using p by (simp add: IsValidPermutation_eq)
  then obtain axis where a: "axis < length perm" "perm ! axis = int j" by (auto simp: in_set_conv_nth)
  show "scatter_coords perm rank (permute perm cs) ! j = cs ! j"
    using scatter_upto[OF valid_perm_distinct(1,2)[OF p], of "length perm" axis "permute perm cs"] a
    by (simp add: scatter_coords_def)
qed (simp add: length_scatter cs)

lemma in_dims_permute:
  "IsValidPermutation perm (length dims) \<Longrightarrow> in_dims dims cs \<Longrightarrow> in_dims (permute perm dims) (permute perm cs)"
  using valid_perm_distinct(2)[of perm "length dims"] by (auto simp: in_dims_nth dest!: nth_mem)

lemma write_fold:
  "fold (\<lambda>linear data. data[linear := f (int linear)]) [0..<nat n] out = write_all n f out"
  by (simp add: write_all_def)

lemma transpose_values:
  assumes p: "IsValidPermutation perm (length (nd_dims inp))" and dims: "nd_dims out = permute perm (nd_dims inp)"
    and room: "nat (nd_numel out) \<le> length (nd_data out)" and cs: "in_dims (nd_dims inp) cs"
    and run: "ComputeTransposeKernel dtype rd wr perm False (Some inp) (Some out) = (0, Some result)"
  shows "nd_at result (permute perm cs) = wr (rd (nd_at inp cs))"
proof -
  let ?f = "\<lambda>linear. wr (rd (data_at inp (offset_of (scatter_coords perm (length (nd_dims inp))
      (LinearToCoords linear (ComputeStrides (nd_dims out)))) (ComputeStrides (nd_dims inp)))))"
  have result: "nd_data result = write_all (prod_list (nd_dims out)) ?f (nd_data out)" "nd_dims result = nd_dims out"
    using run by (auto simp: ComputeTransposeKernel_def Let_def write_fold[symmetric] production_prod_list)
  have "nd_at result (permute perm cs) =
      (\<lambda>oc. wr (rd (nd_at inp (scatter_coords perm (length (nd_dims inp)) oc)))) (permute perm cs)"
    by (rule write_all_at[OF _ _ _ result(2) result(1)])
      (use room in_dims_permute[OF p cs] dims in \<open>simp_all add: production_prod_list nd_at_def\<close>)
  then show ?thesis using scatter_permute[OF p in_dims_length[OF cs]] by simp
qed

text \<open>The test of the kernel is the one of the operator's shape inference.\<close>

lemma no_op_loop_eq:
  "length seen = length dims \<Longrightarrow>
   no_op_loop dims perm seen k \<longleftrightarrow> mark_axes (length dims) perm seen \<and> keeps_order dims perm k"
proof (induction dims perm seen k rule: no_op_loop.induct)
  case (2 dims axis perm seen k)
  then show ?case by (simp add: Let_def)
qed simp

lemma IsPhysicalNoOp_eq: "IsPhysicalNoOpPermutation perm dims \<longleftrightarrow> IsContiguousViewPermutation dims perm"
  by (auto simp: IsPhysicalNoOpPermutation_def IsContiguousViewPermutation_def IsValidPermutation_def no_op_loop_eq)

text \<open>
  Dimensions of one do not count: the offset over the dimension/coordinate pairs is that over the
  pairs whose dimension is not one.
\<close>

fun pair_offset :: "(i64 \<times> i64) list \<Rightarrow> i64" where
  "pair_offset [] = 0"
| "pair_offset ((d, c) # ps) = c * prod_list (map fst ps) + pair_offset ps"

lemma pair_offset_zip: "length cs = length ds \<Longrightarrow> pair_offset (zip ds cs) = offset_in ds cs"
  by (induction cs ds rule: list_induct2) simp_all

lemma pair_offset_filter:
  assumes "\<forall>(d, c) \<in> set ps. d = 1 \<longrightarrow> c = 0"
  shows "pair_offset (filter (\<lambda>p. fst p \<noteq> 1) ps) = pair_offset ps \<and>
         prod_list (map fst (filter (\<lambda>p. fst p \<noteq> 1) ps)) = prod_list (map fst ps)"
  using assms by (induction ps) auto

lemma skip_singletons_filter:
  assumes "k \<le> length dims"
  shows "k \<le> skip_singletons dims k \<and> skip_singletons dims k \<le> length dims \<and>
         (skip_singletons dims k < length dims \<longrightarrow> dims ! skip_singletons dims k \<noteq> 1) \<and>
         filter (\<lambda>i. dims ! i \<noteq> 1) [k..<length dims] = filter (\<lambda>i. dims ! i \<noteq> 1) [skip_singletons dims k..<length dims]"
  using assms
proof (induction dims k rule: skip_singletons.induct)
  case (1 dims k)
  show ?case
  proof (cases "k < length dims \<and> dims ! k = 1")
    case True
    then have "filter (\<lambda>i. dims ! i \<noteq> 1) [k..<length dims] = filter (\<lambda>i. dims ! i \<noteq> 1) [Suc k..<length dims]"
      by (simp add: upt_conv_Cons)
    moreover have "skip_singletons dims k = skip_singletons dims (Suc k)"
      using True by (simp add: skip_singletons.simps[of dims k])
    ultimately show ?thesis using 1(1)[OF True] True by auto
  next
    case False
    then show ?thesis using 1(2) by (auto simp: skip_singletons.simps[of dims k])
  qed
qed

lemma keeps_order_prefix:
  assumes "keeps_order dims perm k" and "\<forall>a \<in> set perm. 0 \<le> a \<and> a < int (length dims)" and "k \<le> length dims"
  shows "\<exists>rest. filter (\<lambda>i. dims ! i \<noteq> 1) (map nat perm) @ rest = filter (\<lambda>i. dims ! i \<noteq> 1) [k..<length dims]"
  using assms
proof (induction dims perm k rule: keeps_order.induct)
  case (2 dims axis perm k)
  show ?case
  proof (cases "dims ! nat axis = 1")
    case True
    then show ?thesis using 2 by simp
  next
    case False
    let ?k = "skip_singletons dims k"
    have k: "nat axis = ?k" "?k < length dims" "keeps_order dims perm (Suc ?k)"
      using 2(3) False skip_singletons_filter[OF 2(5)] by (auto simp: Let_def split: if_splits)
    have "\<exists>rest. filter (\<lambda>i. dims ! i \<noteq> 1) (map nat perm) @ rest = filter (\<lambda>i. dims ! i \<noteq> 1) [Suc ?k..<length dims]"
      using 2(2)[OF refl False refl _ k(3)] k 2(4) by auto
    moreover have "filter (\<lambda>i. dims ! i \<noteq> 1) [?k..<length dims] = ?k # filter (\<lambda>i. dims ! i \<noteq> 1) [Suc ?k..<length dims]"
      using k False by (simp add: upt_conv_Cons)
    ultimately show ?thesis using skip_singletons_filter[OF 2(5)] k(1) False by auto
  qed
qed simp

lemma view_keeps_axes:
  assumes "IsContiguousViewPermutation dims perm"
  shows "filter (\<lambda>i. dims ! i \<noteq> 1) (map nat perm) = filter (\<lambda>i. dims ! i \<noteq> 1) [0..<length dims]"
proof -
  have p: "IsValidPermutation perm (length dims)" and k: "keeps_order dims perm 0"
    using assms by (auto simp: IsContiguousViewPermutation_def)
  obtain rest where r: "filter (\<lambda>i. dims ! i \<noteq> 1) (map nat perm) @ rest = filter (\<lambda>i. dims ! i \<noteq> 1) [0..<length dims]"
    using keeps_order_prefix[OF k valid_perm_distinct(2)[OF p]] by auto
  have "mset (map nat perm) = mset [0..<length dims]"
    using perm_mset[of perm "length dims"] p by (simp add: IsValidPermutation_eq)
  then have "mset (filter (\<lambda>i. dims ! i \<noteq> 1) (map nat perm)) = mset (filter (\<lambda>i. dims ! i \<noteq> 1) [0..<length dims])"
    by (simp only: mset_filter)
  then have "length rest = 0" using arg_cong[OF r, of length] by (metis mset_eq_length length_append add_cancel_left_right)
  then show ?thesis using r by simp
qed

lemma view_offset:
  assumes "IsContiguousViewPermutation dims perm" and cs: "in_dims dims cs"
  shows "offset_in (permute perm dims) (permute perm cs) = offset_in dims cs"
proof -
  have len: "length cs = length dims" using cs by (rule in_dims_length)
  have p: "\<forall>a \<in> set perm. 0 \<le> a \<and> a < int (length dims)"
    using assms(1) valid_perm_distinct(2) by (auto simp: IsContiguousViewPermutation_def)
  let ?ps = "zip dims cs"
  have zip_p: "zip (permute perm dims) (permute perm cs) = map (\<lambda>i. ?ps ! i) (map nat perm)"
  proof (rule nth_equalityI)
    fix i assume "i < length (zip (permute perm dims) (permute perm cs))"
    then have i: "i < length perm" by simp
    then have "0 \<le> perm ! i \<and> perm ! i < int (length dims)" using p nth_mem by blast
    then have "nat (perm ! i) < length dims" by linarith
    with i show "zip (permute perm dims) (permute perm cs) ! i = map (\<lambda>i. ?ps ! i) (map nat perm) ! i" using len by simp
  qed simp
  have zero: "\<forall>(d, c) \<in> set ?ps. d = 1 \<longrightarrow> c = 0" using cs by (auto simp: in_dims_nth set_zip)
  have zero_p: "\<forall>(d, c) \<in> set (map (\<lambda>i. ?ps ! i) (map nat perm)). d = 1 \<longrightarrow> c = 0"
  proof -
    have "?ps ! nat a \<in> set ?ps" if "a \<in> set perm" for a
    proof (rule nth_mem)
      show "nat a < length ?ps" using p[rule_format, OF that] len by auto
    qed
    then have "set (map (\<lambda>i. ?ps ! i) (map nat perm)) \<subseteq> set ?ps" by auto
    then show ?thesis using zero by blast
  qed
  have fst_ps: "filter (\<lambda>q. fst q \<noteq> 1) (map (\<lambda>i. ?ps ! i) is) = map (\<lambda>i. ?ps ! i) (filter (\<lambda>i. dims ! i \<noteq> 1) is)"
    if "\<forall>i \<in> set is. i < length dims" for "is"
    using that len by (induction "is") simp_all
  have "pair_offset (map (\<lambda>i. ?ps ! i) (map nat perm)) =
      pair_offset (map (\<lambda>i. ?ps ! i) (filter (\<lambda>i. dims ! i \<noteq> 1) (map nat perm)))"
    using pair_offset_filter[OF zero_p] fst_ps[of "map nat perm"] p by (simp add: nat_less_iff)
  also have "\<dots> = pair_offset (filter (\<lambda>q. fst q \<noteq> 1) (map (\<lambda>i. ?ps ! i) [0..<length dims]))"
    unfolding view_keeps_axes[OF assms(1)] by (subst fst_ps) auto
  also have "map (\<lambda>i. ?ps ! i) [0..<length dims] = ?ps" using map_nth[of ?ps] len by simp
  also have "pair_offset (filter (\<lambda>q. fst q \<noteq> 1) ?ps) = pair_offset ?ps" using pair_offset_filter[OF zero] by blast
  finally show ?thesis
    using pair_offset_zip[of "permute perm cs" "permute perm dims"] pair_offset_zip[OF len] zip_p by simp
qed

text \<open>Transposing by such a permutation leaves the elements where they are.\<close>

lemma view_transpose_data:
  assumes view: "IsContiguousViewPermutation (nd_dims inp) perm" and dims: "nd_dims out = permute perm (nd_dims inp)"
    and pos: "\<forall>d \<in> set (nd_dims inp). 0 < d"
    and room: "length (nd_data inp) = nat (nd_numel inp)" "length (nd_data out) = nat (nd_numel inp)"
    and run: "ComputeTransposeKernel dtype rd wr perm False (Some inp) (Some out) = (0, Some result)"
  shows "nd_data result = map (wr \<circ> rd) (nd_data inp)"
proof (rule nth_equalityI)
  have p: "IsValidPermutation perm (length (nd_dims inp))" using view by (simp add: IsContiguousViewPermutation_def)
  have same: "nd_numel out = nd_numel inp"
    unfolding dims production_prod_list by (rule permute_prod) (use p in \<open>simp_all add: IsValidPermutation_eq\<close>)
  have len: "length (nd_data result) = length (nd_data out)" and rdims: "nd_dims result = nd_dims out"
    using run by (auto simp: ComputeTransposeKernel_def Let_def length_fold_update)
  then show "length (nd_data result) = length (map (wr \<circ> rd) (nd_data inp))" using room by simp
  fix i assume "i < length (nd_data result)"
  then have i: "0 \<le> int i" "int i < prod_list (nd_dims inp)" using len room by (auto simp: production_prod_list)
  let ?cs = "coords_in (nd_dims inp) (int i)"
  have cs: "in_dims (nd_dims inp) ?cs" "offset_in (nd_dims inp) ?cs = int i" using coords_within[OF pos i] by auto
  have "nd_at result (permute perm ?cs) = wr (rd (nd_at inp ?cs))"
    using transpose_values[OF p dims _ cs(1) run] room same by simp
  then show "nd_data result ! i = map (wr \<circ> rd) (nd_data inp) ! i"
    using cs(2) view_offset[OF view cs(1)] i room unfolding nd_at_def rdims dims by (simp add: production_prod_list)
qed

section \<open>Slice\<close>

lemma slice_values:
  assumes axis: "axis = resolve_axis axis_attr (length (nd_dims inp))" "0 \<le> axis" "axis < int (length (nd_dims inp))"
    and win: "slice_window (nd_dims inp ! nat axis) start_attr end_attr = (start, stop)"
    and dims: "nd_dims out = (nd_dims inp)[nat axis := stop - start]"
    and room: "nat (nd_numel out) \<le> length (nd_data out)" and cs: "in_dims (nd_dims out) cs"
    and run: "ComputeSliceCommon dtype rd wr axis_attr start_attr (Some inp) (Some out) = (0, Some result)"
  shows "in_dims (nd_dims inp) (cs[nat axis := cs ! nat axis + start]) \<and>
         nd_at result cs = wr (rd (nd_at inp (cs[nat axis := cs ! nat axis + start])))"
proof -
  let ?in = "\<lambda>oc. oc[nat axis := oc ! nat axis + start]"
  have s: "start = max 0 (if start_attr < 0 then start_attr + nd_dims inp ! nat axis else start_attr)"
    "stop \<le> nd_dims inp ! nat axis"
    using win by (auto simp: slice_window_def)
  have ax: "\<not> axis < 0" "\<not> int (length (nd_dims inp)) \<le> axis" using axis by auto
  let ?f = "\<lambda>linear. wr (rd (data_at inp (offset_in (nd_dims inp) (?in (take (length (nd_dims inp)) (coords_in (nd_dims out) linear))))))"
  have result: "nd_data result = write_all (prod_list (nd_dims out)) ?f (nd_data out)" "nd_dims result = nd_dims out"
    using run ax unfolding ComputeSliceCommon_def by (auto simp: Let_def axis(1)[symmetric] s(1)[symmetric] production_prod_list)
  have len: "length (nd_dims out) = length (nd_dims inp)" by (simp add: dims)
  have "nd_at result cs = (\<lambda>oc. wr (rd (nd_at inp (?in oc)))) cs"
    by (rule write_all_at[OF _ cs _ result(2) result(1)]) (use room len in \<open>simp_all add: production_prod_list nd_at_def\<close>)
  moreover have "in_dims (nd_dims inp) (?in cs)"
    using cs s axis(2,3) unfolding in_dims_nth dims by (auto simp: nth_list_update)
  ultimately show ?thesis by simp
qed

section \<open>Gather\<close>

lemma offset_of_sum:
  "length cs = length ss \<Longrightarrow> offset_of cs ss = (\<Sum>i\<leftarrow>[0..<length ss]. cs ! i * ss ! i)"
proof (induction cs ss rule: list_induct2)
  case (Cons c cs s ss)
  have "(\<Sum>i\<leftarrow>[0..<length (s # ss)]. (c # cs) ! i * (s # ss) ! i) = c * s + (\<Sum>i\<leftarrow>map Suc [0..<length ss]. (c # cs) ! i * (s # ss) ! i)"
    by (simp only: length_Cons upt_conv_Cons zero_less_Suc map_Suc_upt list.map sum_list.Cons nth_Cons_0)
  then show ?case using Cons.IH by (simp add: comp_def)
qed simp

text \<open>The index the loop uses at the coordinates \<open>mid\<close> of the index tensor.\<close>

definition wrapped :: "i64 \<Rightarrow> i64 \<Rightarrow> i64" where
  "wrapped d index = (if index < 0 then index + d else index)"

lemma gather_reads:
  assumes "axis = length pre" and "length mid = length idims"
  shows "(\<Sum>index_axis\<leftarrow>[0..<length idims]. (pre @ mid @ post) ! (axis + index_axis) * ComputeStrides idims ! index_axis) =
    offset_in idims mid"
proof -
  have "(\<Sum>index_axis\<leftarrow>[0..<length idims]. (pre @ mid @ post) ! (axis + index_axis) * ComputeStrides idims ! index_axis) =
      (\<Sum>i\<leftarrow>[0..<length idims]. mid ! i * ComputeStrides idims ! i)"
    using assms by (intro arg_cong[where f = sum_list] map_cong) (auto simp: nth_append)
  then show ?thesis using offset_of_sum[of mid "ComputeStrides idims"] assms by simp
qed

lemma gather_offset_eq:
  assumes "axis = length pre" and "length mid = m" and len: "length dims = length pre + 1 + length post"
  shows "gather_offset dims (ComputeStrides dims) m axis index (pre @ mid @ post) = offset_in dims (pre @ index # post)"
proof -
  let ?s = "ComputeStrides dims" and ?c = "pre @ index # post"
  have split: "[0..<length dims] = [0..<axis] @ axis # [axis + 1..<length dims]"
    using len assms(1) upt_split[of axis "length dims"] by simp
  have "offset_in dims ?c = (\<Sum>i\<leftarrow>[0..<length dims]. ?c ! i * ?s ! i)"
    using len by (simp add: offset_of_sum)
  also have "\<dots> = (\<Sum>i\<leftarrow>[0..<axis]. ?c ! i * ?s ! i) + index * ?s ! axis + (\<Sum>i\<leftarrow>[axis + 1..<length dims]. ?c ! i * ?s ! i)"
    unfolding split by (simp add: assms(1))
  also have "(\<Sum>i\<leftarrow>[0..<axis]. ?c ! i * ?s ! i) = (\<Sum>i\<leftarrow>[0..<axis]. (pre @ mid @ post) ! i * ?s ! i)"
    using assms(1) by (intro arg_cong[where f = sum_list] map_cong) (auto simp: nth_append)
  also have "(\<Sum>i\<leftarrow>[axis + 1..<length dims]. ?c ! i * ?s ! i) =
      (\<Sum>i\<leftarrow>[axis + 1..<length dims]. (pre @ mid @ post) ! (i - 1 + m) * ?s ! i)"
  proof (intro arg_cong[where f = sum_list] map_cong refl)
    fix i assume "i \<in> set [axis + 1..<length dims]"
    then obtain k where "i = axis + Suc k" by (auto dest: less_imp_Suc_add simp: Suc_le_eq)
    then show "?c ! i * ?s ! i = (pre @ mid @ post) ! (i - 1 + m) * ?s ! i"
      using assms(1,2) by (simp add: nth_append)
  qed
  finally show ?thesis by (simp add: gather_offset_def)
qed

definition gather_index :: "nat \<Rightarrow> 's nd \<Rightarrow> i64 nd \<Rightarrow> i64 list \<Rightarrow> i64" where
  "gather_index axis data indices oc =
     wrapped (nd_dims data ! axis) (data_at indices (\<Sum>index_axis\<leftarrow>[0..<length (nd_dims indices)].
        oc ! (axis + index_axis) * ComputeStrides (nd_dims indices) ! index_axis))"

definition gather_good :: "nat \<Rightarrow> 's nd \<Rightarrow> i64 nd \<Rightarrow> i64 list \<Rightarrow> bool" where
  "gather_good axis data indices oc \<longleftrightarrow>
     0 \<le> gather_index axis data indices oc \<and> gather_index axis data indices oc < nd_dims data ! axis"

definition gather_value :: "('s \<Rightarrow> 's) \<Rightarrow> nat \<Rightarrow> 's nd \<Rightarrow> i64 nd \<Rightarrow> i64 list \<Rightarrow> 's" where
  "gather_value convert axis data indices oc = convert (data_at data
     (gather_offset (nd_dims data) (ComputeStrides (nd_dims data)) (length (nd_dims indices)) axis (gather_index axis data indices oc) oc))"

lemma gather_loop_step:
  "gather_loop convert axis data indices strides (l # ls) out =
     (if \<not> gather_good axis data indices (LinearToCoords (int l) strides) then (False, out)
      else gather_loop convert axis data indices strides ls
             (out[l := gather_value convert axis data indices (LinearToCoords (int l) strides)]))"
proof -
  have "\<not> gather_good axis data indices oc \<longleftrightarrow>
      gather_index axis data indices oc < 0 \<or> nd_dims data ! axis \<le> gather_index axis data indices oc" for oc
    by (auto simp: gather_good_def)
  then show ?thesis
    unfolding gather_loop.simps Let_def gather_value_def gather_index_def wrapped_def by (simp only:)
qed

declare gather_loop.simps(2) [simp del]

lemma gather_loop_ok:
  "fst (gather_loop convert axis data indices strides ls out) \<longleftrightarrow>
     (\<forall>l \<in> set ls. gather_good axis data indices (LinearToCoords (int l) strides))"
  by (induction ls arbitrary: out) (simp_all add: gather_loop_step)

lemma gather_loop_data:
  "fst (gather_loop convert axis data indices strides ls out) \<Longrightarrow>
   snd (gather_loop convert axis data indices strides ls out) =
     fold (\<lambda>l out. out[l := gather_value convert axis data indices (LinearToCoords (int l) strides)]) ls out"
  by (induction ls arbitrary: out) (simp_all add: gather_loop_step split: if_splits)

lemma gather_index_at:
  assumes "axis = length pre" and "in_dims (nd_dims indices) mid"
  shows "gather_index axis data indices (pre @ mid @ post) = wrapped (nd_dims data ! axis) (nd_at indices mid)"
  using gather_reads[of axis pre mid "nd_dims indices" post] assms in_dims_length[OF assms(2)]
  by (simp add: gather_index_def nd_at_def)

lemma wrapped_range: "0 \<le> wrapped d i \<and> wrapped d i < d \<longleftrightarrow> - d \<le> i \<and> i < d"
  by (auto simp: wrapped_def)

lemma ComputeGather_answers:
  "\<exists>status result. ComputeGather dtype rd wr axis_attr (Some data) (Some indices) (Some out) = (status, Some result) \<and>
     (status = 0 \<or> status = -1)"
  by (simp add: ComputeGather_def Let_def split: prod.split bool.split)

lemma gather_values:
  assumes type: "nd_type data = dtype" "nd_type indices = INT32 \<or> nd_type indices = INT64"
    and axis: "resolve_axis axis_attr (length (nd_dims data)) = int axis" "axis < length (nd_dims data)"
    and dims: "nd_dims out = take axis (nd_dims data) @ nd_dims indices @ drop (axis + 1) (nd_dims data)"
    and pos: "\<forall>d \<in> set (nd_dims data). 0 < d" "\<forall>d \<in> set (nd_dims indices). 0 < d"
    and room: "nat (nd_numel out) \<le> length (nd_data out)"
    and run: "ComputeGather dtype rd wr axis_attr (Some data) (Some indices) (Some out) = (status, Some result)"
  shows "status = 0 \<longleftrightarrow> (\<forall>mid. in_dims (nd_dims indices) mid \<longrightarrow>
           - (nd_dims data ! axis) \<le> nd_at indices mid \<and> nd_at indices mid < nd_dims data ! axis)"
    and "status = 0 \<Longrightarrow> in_dims (take axis (nd_dims data)) pre \<Longrightarrow> in_dims (nd_dims indices) mid \<Longrightarrow>
         in_dims (drop (axis + 1) (nd_dims data)) post \<Longrightarrow>
         nd_at result (pre @ mid @ post) = wr (rd (nd_at data (pre @ wrapped (nd_dims data ! axis) (nd_at indices mid) # post)))"
proof -
  let ?s = "ComputeStrides (nd_dims out)"
  let ?loop = "gather_loop (wr \<circ> rd) axis data indices ?s [0..<nat (nd_numel out)] (nd_data out)"
  have run': "(if fst ?loop then (0, Some (out\<lparr>nd_data := snd ?loop, nd_type := dtype\<rparr>))
      else (-1, Some (out\<lparr>nd_data := snd ?loop\<rparr>))) = (status, Some result)"
    using run type axis unfolding ComputeGather_def
    by (cases ?loop) (auto simp: Let_def split: if_splits bool.splits)
  have numel: "nd_numel out = prod_list (nd_dims out)" by (simp add: production_prod_list)
  have good_at: "gather_good axis data indices (pre @ mid @ post) \<longleftrightarrow>
      - (nd_dims data ! axis) \<le> nd_at indices mid \<and> nd_at indices mid < nd_dims data ! axis"
    if "length pre = axis" "in_dims (nd_dims indices) mid" for pre mid post
    using gather_index_at[of axis pre indices mid data post] that wrapped_range by (simp add: gather_good_def)
  have split_cs: "\<exists>pre mid post. cs = pre @ mid @ post \<and> length pre = axis \<and> in_dims (nd_dims indices) mid"
    if "in_dims (nd_dims out) cs" for cs
  proof (intro exI conjI)
    let ?pre = "take axis cs" and ?mid = "take (length (nd_dims indices)) (drop axis cs)"
      and ?post = "drop (length (nd_dims indices)) (drop axis cs)"
    show cs: "cs = ?pre @ ?mid @ ?post" by (simp only: append_take_drop_id)
    have len: "length cs = length (nd_dims out)" using that by (rule in_dims_length)
    then show "length ?pre = axis" using axis(2) dims by simp
    have "in_dims (take axis (nd_dims data) @ (nd_dims indices @ drop (axis + 1) (nd_dims data))) (?pre @ (?mid @ ?post))"
      using that dims cs by simp
    then have "in_dims (nd_dims indices @ drop (axis + 1) (nd_dims data)) (?mid @ ?post)"
      using in_dims_append[of ?pre "take axis (nd_dims data)"] len dims axis(2) by (simp add: in_dims_def list_all2_append)
    then show "in_dims (nd_dims indices) ?mid"
      using len dims axis(2) by (simp add: in_dims_def list_all2_append)
  qed
  have outpos: "\<forall>d \<in> set (nd_dims out). 0 < d" using pos dims by (auto dest: in_set_takeD in_set_dropD)
  have all_good: "fst ?loop \<longleftrightarrow> (\<forall>cs. in_dims (nd_dims out) cs \<longrightarrow> gather_good axis data indices cs)"
  proof
    assume f: "fst ?loop"
    show "\<forall>cs. in_dims (nd_dims out) cs \<longrightarrow> gather_good axis data indices cs"
    proof (intro allI impI)
      fix cs assume cs: "in_dims (nd_dims out) cs"
      let ?l = "offset_in (nd_dims out) cs"
      have "0 \<le> ?l" "?l < prod_list (nd_dims out)" using offset_bounds[OF cs] by auto
      then have "nat ?l \<in> set [0..<nat (nd_numel out)]" by (simp add: numel)
      then have "gather_good axis data indices (LinearToCoords (int (nat ?l)) ?s)" using f gather_loop_ok by blast
      then show "gather_good axis data indices cs" using coords_of_offset[OF cs] \<open>0 \<le> ?l\<close> by simp
    qed
  next
    assume g: "\<forall>cs. in_dims (nd_dims out) cs \<longrightarrow> gather_good axis data indices cs"
    show "fst ?loop" unfolding gather_loop_ok
    proof
      fix l assume "l \<in> set [0..<nat (nd_numel out)]"
      then have "int l < prod_list (nd_dims out)" by (auto simp: numel)
      then show "gather_good axis data indices (LinearToCoords (int l) ?s)"
        using coords_within[OF outpos, of "int l"] g by simp
    qed
  qed
  have exists: "\<exists>pre post. in_dims (nd_dims out) (pre @ mid @ post) \<and> length pre = axis" if "in_dims (nd_dims indices) mid" for mid
  proof -
    have z: "in_dims ds (map (\<lambda>_. 0) ds)" if "\<forall>d \<in> set ds. 0 < d" for ds :: "i64 list"
      using that by (simp add: in_dims_nth)
    have "in_dims (nd_dims out) (map (\<lambda>_. 0) (take axis (nd_dims data)) @ mid @ map (\<lambda>_. 0) (drop (axis + 1) (nd_dims data)))"
      unfolding dims using z[of "take axis (nd_dims data)"] z[of "drop (axis + 1) (nd_dims data)"] pos(1) that
      by (auto simp: in_dims_def intro!: list_all2_appendI dest: in_set_takeD in_set_dropD)
    then show ?thesis using axis(2) by (intro exI conjI) (assumption, simp)
  qed
  have status: "status = 0 \<longleftrightarrow> fst ?loop" using run' by (auto split: if_splits)
  show "status = 0 \<longleftrightarrow> (\<forall>mid. in_dims (nd_dims indices) mid \<longrightarrow>
           - (nd_dims data ! axis) \<le> nd_at indices mid \<and> nd_at indices mid < nd_dims data ! axis)"
    unfolding status all_good using split_cs exists good_at by metis
  assume ok: "status = 0" and pre: "in_dims (take axis (nd_dims data)) pre" and mid: "in_dims (nd_dims indices) mid"
    and post: "in_dims (drop (axis + 1) (nd_dims data)) post"
  have f: "fst ?loop" using ok status by simp
  have result: "nd_dims result = nd_dims out"
    "nd_data result = write_all (prod_list (nd_dims out)) (\<lambda>l. gather_value (wr \<circ> rd) axis data indices (LinearToCoords l ?s)) (nd_data out)"
    using run' f gather_loop_data[OF f] by (auto simp: write_all_def numel)
  have lens: "length pre = axis" "length post = length (nd_dims data) - (axis + 1)" "length mid = length (nd_dims indices)"
    using pre post mid axis(2) by (auto dest: in_dims_length)
  have cs: "in_dims (nd_dims out) (pre @ mid @ post)"
    unfolding dims using pre mid post by (simp add: in_dims_def list_all2_appendI)
  have "nd_at result (pre @ mid @ post) = gather_value (wr \<circ> rd) axis data indices (pre @ mid @ post)"
    by (rule write_all_at[OF _ cs _ result]) (use room numel in \<open>simp_all add: comp_def\<close>)
  also have "\<dots> = wr (rd (nd_at data (pre @ wrapped (nd_dims data ! axis) (nd_at indices mid) # post)))"
    using gather_index_at[of axis pre indices mid data post] mid lens axis(2)
      gather_offset_eq[of axis pre mid "length (nd_dims indices)" "nd_dims data" post]
    by (simp add: gather_value_def nd_at_def)
  finally show "nd_at result (pre @ mid @ post) = wr (rd (nd_at data (pre @ wrapped (nd_dims data ! axis) (nd_at indices mid) # post)))" .
qed

section \<open>Exact element access\<close>

text \<open>
  The contract a layout kernel needs of \<open>TensorIO\<close>: writing back a value just read restores the
  stored bits, for the elements that are \<open>good\<close> (for the narrow float types, the ones that are not
  NaN).  The formats provide it in theory \<open>Float_Formats\<close>.
\<close>

locale exact_io =
  fixes rd :: "'s \<Rightarrow> 'v" and wr :: "'v \<Rightarrow> 's" and good :: "'s \<Rightarrow> bool"
  assumes write_read: "good x \<Longrightarrow> wr (rd x) = x"
begin

lemma map_exact: "\<forall>x \<in> set xs. good x \<Longrightarrow> map (wr \<circ> rd) xs = xs"
  by (rule map_idI) (simp add: write_read)

lemma transpose_exact:
  assumes "IsValidPermutation perm (length (nd_dims inp))" and "nd_dims out = permute perm (nd_dims inp)"
    and "nat (nd_numel out) \<le> length (nd_data out)" and "in_dims (nd_dims inp) cs"
    and "ComputeTransposeKernel dtype rd wr perm False (Some inp) (Some out) = (0, Some result)"
    and "good (nd_at inp cs)"
  shows "nd_at result (permute perm cs) = nd_at inp cs"
  using transpose_values[OF assms(1-5)] write_read[OF assms(6)] by simp

lemma view_exact:
  assumes "IsContiguousViewPermutation (nd_dims inp) perm" and "nd_dims out = permute perm (nd_dims inp)"
    and "\<forall>d \<in> set (nd_dims inp). 0 < d"
    and "length (nd_data inp) = nat (nd_numel inp)" and "length (nd_data out) = nat (nd_numel inp)"
    and "ComputeTransposeKernel dtype rd wr perm False (Some inp) (Some out) = (0, Some result)"
    and "\<forall>x \<in> set (nd_data inp). good x"
  shows "nd_data result = nd_data inp"
  using view_transpose_data[OF assms(1-6)] map_exact[OF assms(7)] by simp

end

section \<open>Properties\<close>

text \<open>
  C22: The broadcasting loop of the binary kernels refines the pointwise function on index spaces.
  On inputs without empty dimensions whose shapes broadcast to the output's, the run succeeds, every
  element it reads lies inside its input, and the element of the result at any output coordinates is
  \<open>fn\<close> of the two input elements those coordinates stand for (\<open>project\<close>: the trailing coordinates,
  \<open>0\<close> along a dimension of one), each read with its own tensor's reader and stored with the output's
  writer.  The output shares no memory with the inputs.
\<close>

theorem RunBinary_broadcasts:
  assumes "nd_type l = dtype" and "nd_type r = dtype" and "nd_type out = dtype"
    and shape: "InferBroadcastShape (nd_dims l) (nd_dims r) = Some (nd_dims out)"
    and pos: "\<forall>d \<in> set (nd_dims l) \<union> set (nd_dims r). 0 < d"
    and room: "nat (nd_numel out) \<le> length (nd_data out)"
    and cs: "in_dims (nd_dims out) cs"
  shows "\<exists>result. RunBinary dtype rd_lhs rd_rhs wr fn (Some out) (Some l) (Some r) = (0, Some result) \<and>
    nd_dims result = nd_dims out \<and>
    in_dims (nd_dims l) (project (nd_dims l) cs) \<and> in_dims (nd_dims r) (project (nd_dims r) cs) \<and>
    nd_at result cs = wr (fn (rd_lhs (nd_at l (project (nd_dims l) cs))) (rd_rhs (nd_at r (project (nd_dims r) cs))))"
proof -
  have f: "fits (nd_dims l) (nd_dims out)" "fits (nd_dims r) (nd_dims out)" using broadcast_fits[OF shape pos] by auto
  obtain result where run: "RunBinary dtype rd_lhs rd_rhs wr fn (Some out) (Some l) (Some r) = (0, Some result)"
    using RunBinary_ok[of dtype rd_lhs rd_rhs wr fn "Some out" "Some l" "Some r"] assms(1-4) by auto
  then have result: "nd_dims result = nd_dims out" "nd_data result = write_all (prod_list (nd_dims out)) (\<lambda>linear.
        let coords = LinearToCoords linear (ComputeStrides (nd_dims out)) in
        (\<lambda>x y. wr (fn (rd_lhs x) (rd_rhs y))) (data_at l (BroadcastOffset coords (nd_dims l) (ComputeStrides (nd_dims l))))
              (data_at r (BroadcastOffset coords (nd_dims r) (ComputeStrides (nd_dims r))))) (nd_data out)"
    by (auto simp: RunBinary_ok production_prod_list)
  have "nd_at result cs = (\<lambda>x y. wr (fn (rd_lhs x) (rd_rhs y))) (nd_at l (project (nd_dims l) cs)) (nd_at r (project (nd_dims r) cs))"
    by (rule broadcast_values[OF f _ cs result]) (use room in \<open>simp add: production_prod_list\<close>)
  then show ?thesis using run result(1) fits_project[OF f(1) cs] fits_project[OF f(2) cs] by blast
qed

theorem RunBinary_broadcasts_witness:
  "\<exists>result. RunBinary FP32 (\<lambda>x. x) (\<lambda>x. 2 * x) (\<lambda>x. x) (+) (Some \<lparr>nd_dims = [2, 2], nd_data = [0, 0, 0, 0], nd_type = FP32\<rparr>)
      (Some \<lparr>nd_dims = [2, 2], nd_data = [1, 2, 3, 4::int], nd_type = FP32\<rparr>)
      (Some \<lparr>nd_dims = [2], nd_data = [10, 20], nd_type = FP32\<rparr>) = (0, Some result) \<and> nd_at result [1, 0] = 23"
proof -
  let ?l = "\<lparr>nd_dims = [2, 2], nd_data = [1, 2, 3, 4::int], nd_type = FP32\<rparr>"
  let ?r = "\<lparr>nd_dims = [2], nd_data = [10, 20::int], nd_type = FP32\<rparr>"
  let ?out = "\<lparr>nd_dims = [2, 2], nd_data = [0, 0, 0, 0::int], nd_type = FP32\<rparr>"
  have shape: "InferBroadcastShape [2, 2] [2] = Some [2, 2]" by code_simp
  obtain result where r: "RunBinary FP32 (\<lambda>x. x) (\<lambda>x. 2 * x) (\<lambda>x. x) (+) (Some ?out) (Some ?l) (Some ?r) = (0, Some result)"
    "nd_at result [1, 0] = nd_at ?l (project [2, 2] [1, 0]) + 2 * nd_at ?r (project [2] [1, 0])"
    using RunBinary_broadcasts[of ?l FP32 ?r ?out "[1, 0]" "\<lambda>x. x" "\<lambda>x. 2 * x" "\<lambda>x. x" "(+)"] shape
    by (auto simp: production_prod_list)
  moreover have "nd_at ?l (project [2, 2] [1, 0]) + 2 * nd_at ?r (project [2] [1, 0]) = 23"
    by (simp add: nd_at_def project_def)
  ultimately show ?thesis by auto
qed

text \<open>With an empty dimension against a dimension of one the output has one element, and the loop reads one that is not there.\<close>

lemma empty_broadcast_reads_outside:
  "InferBroadcastShape [0] [1] = Some [1] \<and> in_dims [1] [0] \<and> BroadcastOffset [0] [0] (ComputeStrides [0]) = 0 \<and> prod_list [0::i64] = 0"
  by code_simp

text \<open>
  C23: The transpose kernel permutes the index space: for a valid permutation, whatever the element
  conversion, the element of the output at the permuted coordinates is the input's element at the
  coordinates.
\<close>

theorem transpose_permutes:
  assumes "IsValidPermutation perm (length (nd_dims inp))" and "nd_dims out = permute perm (nd_dims inp)"
    and "nat (nd_numel out) \<le> length (nd_data out)" and "in_dims (nd_dims inp) cs"
    and "ComputeTransposeKernel dtype rd wr perm False (Some inp) (Some out) = (0, Some result)"
  shows "nd_at result (permute perm cs) = wr (rd (nd_at inp cs))"
  by (rule transpose_values[OF assms])

theorem transpose_permutes_witness:
  "\<exists>result. ComputeTransposeKernel FP32 (\<lambda>x. x) (\<lambda>x. x) [1, 0] False
      (Some \<lparr>nd_dims = [2, 3], nd_data = [1, 2, 3, 4, 5, 6::int], nd_type = FP32\<rparr>)
      (Some \<lparr>nd_dims = [3, 2], nd_data = [0, 0, 0, 0, 0, 0], nd_type = FP32\<rparr>) = (0, Some result) \<and>
    nd_at result [2, 0] = 3"
proof -
  let ?in = "\<lparr>nd_dims = [2, 3], nd_data = [1, 2, 3, 4, 5, 6::int], nd_type = FP32\<rparr>"
  let ?out = "\<lparr>nd_dims = [3, 2], nd_data = [0, 0, 0, 0, 0, 0::int], nd_type = FP32\<rparr>"
  have p: "IsValidPermutation [1, 0] 2" by code_simp
  obtain result where run: "ComputeTransposeKernel FP32 (\<lambda>x. x) (\<lambda>x. x) [1, 0] False (Some ?in) (Some ?out) = (0, Some result)"
    by (auto simp: ComputeTransposeKernel_def Let_def)
  have "nd_at result (permute [1, 0] [0, 2]) = nd_at ?in [0, 2]"
    by (rule transpose_permutes[OF _ _ _ _ run]) (simp_all add: p[unfolded numeral_2_eq_2] production_prod_list)
  then show ?thesis using run by (simp add: nd_at_def)
qed

text \<open>
  The permutations the transpose operator treats as views of the same buffer are those that
  leave every element where it is: the kernel's own test accepts exactly them, and running the full
  loop for such a permutation would copy the buffer in order.
\<close>

theorem contiguous_view_is_identity:
  assumes "IsPhysicalNoOpPermutation perm (nd_dims inp)" and "nd_dims out = permute perm (nd_dims inp)"
    and "\<forall>d \<in> set (nd_dims inp). 0 < d"
    and "length (nd_data inp) = nat (nd_numel inp)" and "length (nd_data out) = nat (nd_numel inp)"
    and "ComputeTransposeKernel dtype rd wr perm False (Some inp) (Some out) = (0, Some result)"
  shows "IsContiguousViewPermutation (nd_dims inp) perm \<and> nd_data result = map (wr \<circ> rd) (nd_data inp)"
  using assms(1) view_transpose_data[OF _ assms(2-6)] by (simp add: IsPhysicalNoOp_eq)

theorem contiguous_view_is_identity_witness:
  "IsContiguousViewPermutation [2, 1, 3] [1, 0, 2] \<and>
   (\<exists>result. ComputeTransposeKernel FP32 (\<lambda>x. x) (\<lambda>x. x) [1, 0, 2] False
      (Some \<lparr>nd_dims = [2, 1, 3], nd_data = [1, 2, 3, 4, 5, 6::int], nd_type = FP32\<rparr>)
      (Some \<lparr>nd_dims = [1, 2, 3], nd_data = [0, 0, 0, 0, 0, 0], nd_type = FP32\<rparr>) = (0, Some result) \<and>
    nd_data result = [1, 2, 3, 4, 5, 6])"
proof -
  let ?in = "\<lparr>nd_dims = [2, 1, 3], nd_data = [1, 2, 3, 4, 5, 6::int], nd_type = FP32\<rparr>"
  let ?out = "\<lparr>nd_dims = [1, 2, 3], nd_data = [0, 0, 0, 0, 0, 0::int], nd_type = FP32\<rparr>"
  have p: "IsPhysicalNoOpPermutation [1, 0, 2] [2, 1, 3]" by code_simp
  obtain result where run: "ComputeTransposeKernel FP32 (\<lambda>x. x) (\<lambda>x. x) [1, 0, 2] False (Some ?in) (Some ?out) = (0, Some result)"
    by (auto simp: ComputeTransposeKernel_def Let_def)
  have "IsContiguousViewPermutation (nd_dims ?in) [1, 0, 2] \<and> nd_data result = map ((\<lambda>x. x) \<circ> (\<lambda>x. x)) (nd_data ?in)"
    by (rule contiguous_view_is_identity[OF _ _ _ _ _ run]) (simp_all add: p production_prod_list)
  then show ?thesis using run by simp
qed

text \<open>
  C24: \<open>Gather\<close> fails exactly when some index is outside \<open>[-d, d)\<close> for the gathered dimension \<open>d\<close>,
  and otherwise the element at \<open>(pre, mid, post)\<close> is the data's element at \<open>pre\<close>, the index found at
  \<open>mid\<close> (a negative one counted from the end), \<open>post\<close>.
\<close>

theorem ComputeGather_exact:
  assumes "nd_type data = dtype" and "nd_type indices = INT32 \<or> nd_type indices = INT64"
    and "resolve_axis axis_attr (length (nd_dims data)) = int axis" and "axis < length (nd_dims data)"
    and "nd_dims out = take axis (nd_dims data) @ nd_dims indices @ drop (axis + 1) (nd_dims data)"
    and "\<forall>d \<in> set (nd_dims data). 0 < d" and "\<forall>d \<in> set (nd_dims indices). 0 < d"
    and "nat (nd_numel out) \<le> length (nd_data out)"
    and "ComputeGather dtype rd wr axis_attr (Some data) (Some indices) (Some out) = (status, Some result)"
  shows "(status = 0 \<longleftrightarrow> (\<forall>mid. in_dims (nd_dims indices) mid \<longrightarrow>
           - (nd_dims data ! axis) \<le> nd_at indices mid \<and> nd_at indices mid < nd_dims data ! axis)) \<and>
         (status = 0 \<longrightarrow> (\<forall>pre mid post. in_dims (take axis (nd_dims data)) pre \<longrightarrow> in_dims (nd_dims indices) mid \<longrightarrow>
           in_dims (drop (axis + 1) (nd_dims data)) post \<longrightarrow>
           nd_at result (pre @ mid @ post) = wr (rd (nd_at data (pre @ wrapped (nd_dims data ! axis) (nd_at indices mid) # post)))))"
  using gather_values[OF assms] by blast

theorem ComputeGather_exact_witness:
  "\<exists>result. ComputeGather FP32 (\<lambda>x. x) (\<lambda>x. x) 0 (Some \<lparr>nd_dims = [3], nd_data = [7, 8, 9::int], nd_type = FP32\<rparr>)
      (Some \<lparr>nd_dims = [2], nd_data = [-1, 3], nd_type = INT64\<rparr>)
      (Some \<lparr>nd_dims = [2], nd_data = [0, 0], nd_type = FP32\<rparr>) = (-1, Some result)"
proof -
  let ?d = "\<lparr>nd_dims = [3], nd_data = [7, 8, 9::int], nd_type = FP32\<rparr>"
  let ?i = "\<lparr>nd_dims = [2], nd_data = [-1, 3::int], nd_type = INT64\<rparr>"
  let ?o = "\<lparr>nd_dims = [2], nd_data = [0, 0::int], nd_type = FP32\<rparr>"
  obtain status result where run: "ComputeGather FP32 (\<lambda>x. x) (\<lambda>x. x) 0 (Some ?d) (Some ?i) (Some ?o) = (status, Some result)"
    and s: "status = 0 \<or> status = -1"
    using ComputeGather_answers by blast
  have "status = 0 \<longleftrightarrow> (\<forall>mid. in_dims [2] mid \<longrightarrow> - 3 \<le> nd_at ?i mid \<and> nd_at ?i mid < 3)"
    using ComputeGather_exact[of ?d FP32 ?i 0 0 ?o, OF _ _ _ _ _ _ _ _ run] by (simp add: resolve_axis_def production_prod_list)
  moreover have "in_dims [2] [1] \<and> nd_at ?i [1] = 3" by (simp add: nd_at_def)
  ultimately have "status \<noteq> 0" by (metis less_irrefl)
  then show ?thesis using run s by auto
qed

end
