(* ===== verification/Concat_Split.thy ===== *)
theory Concat_Split
  imports Layout_Kernels
begin

text \<open>
  The common concat and split kernels (\<open>src/kernel/common/concat.cc\<close>, \<open>split.cc\<close>), which copy blocks
  of elements along one axis, and the round trip of one after the other.
\<close>

section \<open>Concat and split\<close>

definition ComputeProduct :: "i64 list \<Rightarrow> nat \<Rightarrow> nat \<Rightarrow> i64" where
  "ComputeProduct dims first limit = fold (\<lambda>i product. product * dims ! i) [first..<limit] 1"

text \<open>\<open>for (i = 0; i < count; ++i) Write(output, output_base + i, Read(input, input_base + i));\<close>\<close>

definition copy_block :: "('s \<Rightarrow> 's) \<Rightarrow> i64 \<Rightarrow> i64 \<Rightarrow> i64 \<Rightarrow> 's list \<Rightarrow> 's list \<Rightarrow> 's list" where
  "copy_block convert copy_count input_base output_base source out =
     fold (\<lambda>i out. out[nat (output_base + int i) := convert (source ! nat (input_base + int i))]) [0..<nat copy_count] out"

text \<open>The inputs at one outer index; a null input ends the kernel with what is written so far.\<close>

fun concat_inputs ::
  "('s \<Rightarrow> 's) \<Rightarrow> nat \<Rightarrow> i64 \<Rightarrow> i64 \<Rightarrow> i64 \<Rightarrow> 's nd option list \<Rightarrow> i64 \<Rightarrow> 's list \<Rightarrow> bool \<times> 's list" where
  "concat_inputs convert axis inner out_axis outer_idx [] axis_offset out = (True, out)"
| "concat_inputs convert axis inner out_axis outer_idx (None # inputs) axis_offset out = (False, out)"
| "concat_inputs convert axis inner out_axis outer_idx (Some inp # inputs) axis_offset out =
     (let input_axis = nd_dims inp ! axis
      in concat_inputs convert axis inner out_axis outer_idx inputs (axis_offset + input_axis)
           (copy_block convert (input_axis * inner) (outer_idx * input_axis * inner)
              ((outer_idx * out_axis + axis_offset) * inner) (nd_data inp) out))"

fun concat_outer ::
  "('s \<Rightarrow> 's) \<Rightarrow> nat \<Rightarrow> i64 \<Rightarrow> i64 \<Rightarrow> 's nd option list \<Rightarrow> nat list \<Rightarrow> 's list \<Rightarrow> bool \<times> 's list" where
  "concat_outer convert axis inner out_axis inputs [] out = (True, out)"
| "concat_outer convert axis inner out_axis inputs (outer_idx # rest) out =
     (case concat_inputs convert axis inner out_axis (int outer_idx) inputs 0 out of
        (False, out') \<Rightarrow> (False, out')
      | (True, out') \<Rightarrow> concat_outer convert axis inner out_axis inputs rest out')"

definition ComputeConcatKernel ::
  "DataType \<Rightarrow> ('s \<Rightarrow> 'v) \<Rightarrow> ('v \<Rightarrow> 's) \<Rightarrow> int \<Rightarrow> 's nd option list \<Rightarrow> 's nd option \<Rightarrow> int \<times> 's nd option" where
  "ComputeConcatKernel dtype rd wr axis_attr inputs output =
     (case output of None \<Rightarrow> (-1, output)
      | Some out \<Rightarrow>
          if length inputs < 2 then (-1, output)
          else
            (let out_dims = nd_dims out; axis = resolve_axis axis_attr (length out_dims) in
             if axis < 0 \<or> int (length out_dims) \<le> axis then (-1, output)
             else
               (let outer = ComputeProduct out_dims 0 (nat axis);
                    inner = ComputeProduct out_dims (nat axis + 1) (length out_dims);
                    (complete, data) = concat_outer (wr \<circ> rd) (nat axis) inner (out_dims ! nat axis) inputs
                                         [0..<nat outer] (nd_data out)
                in (if complete then 0 else -1, Some (out\<lparr>nd_type := dtype, nd_data := data\<rparr>)))))"

text \<open>The loop over the outputs at one outer index.\<close>

fun split_outputs ::
  "('s \<Rightarrow> 's) \<Rightarrow> nat \<Rightarrow> i64 \<Rightarrow> i64 \<Rightarrow> i64 \<Rightarrow> 's list \<Rightarrow> 's nd list \<Rightarrow> i64 \<Rightarrow> 's nd list" where
  "split_outputs convert axis inner input_axis outer_idx source [] axis_offset = []"
| "split_outputs convert axis inner input_axis outer_idx source (out # outs) axis_offset =
     (let output_axis = nd_dims out ! axis; copy_count = output_axis * inner
      in out\<lparr>nd_data := copy_block convert copy_count ((outer_idx * input_axis + axis_offset) * inner)
               (outer_idx * copy_count) source (nd_data out)\<rparr>
         # split_outputs convert axis inner input_axis outer_idx source outs (axis_offset + output_axis))"

text \<open>\<open>set_data_type\<close> on the outputs before the first null one.\<close>

fun retype_until_null :: "DataType \<Rightarrow> 's nd option list \<Rightarrow> 's nd option list" where
  "retype_until_null dtype [] = []"
| "retype_until_null dtype (None # outs) = None # outs"
| "retype_until_null dtype (Some out # outs) = Some (out\<lparr>nd_type := dtype\<rparr>) # retype_until_null dtype outs"

definition ComputeSplitKernel ::
  "DataType \<Rightarrow> ('s \<Rightarrow> 'v) \<Rightarrow> ('v \<Rightarrow> 's) \<Rightarrow> int \<Rightarrow> 's nd option \<Rightarrow> 's nd option list \<Rightarrow> int \<times> 's nd option list" where
  "ComputeSplitKernel dtype rd wr axis_attr input outputs =
     (case input of None \<Rightarrow> (-1, outputs)
      | Some inp \<Rightarrow>
          if outputs = [] then (-1, outputs)
          else
            (let in_dims = nd_dims inp; axis = resolve_axis axis_attr (length in_dims) in
             if axis < 0 \<or> int (length in_dims) \<le> axis then (-1, outputs)
             else if None \<in> set outputs then (-1, retype_until_null dtype outputs)
             else
               (let outer = ComputeProduct in_dims 0 (nat axis);
                    inner = ComputeProduct in_dims (nat axis + 1) (length in_dims);
                    step = (\<lambda>outer_idx outs. split_outputs (wr \<circ> rd) (nat axis) inner (in_dims ! nat axis)
                                               (int outer_idx) (nd_data inp) outs 0)
                in (0, map Some (fold step [0..<nat outer] (map the (retype_until_null dtype outputs)))))))"

section \<open>Concat and split: blocks\<close>

lemma fold_block:
  "b + k \<le> length out \<Longrightarrow> fold (\<lambda>i out. out[b + i := f i]) [0..<k] out = take b out @ map f [0..<k] @ drop (b + k) out"
proof (induction k)
  case (Suc k)
  have "drop (b + k) out = out ! (b + k) # drop (Suc (b + k)) out" using Suc.prems by (simp add: Cons_nth_drop_Suc)
  then show ?case using Suc by (simp add: list_update_append)
qed simp

lemma copy_block_nat:
  assumes "b + k \<le> length out" and "s + k \<le> length source"
  shows "copy_block convert (int k) (int s) (int b) source out =
    take b out @ map convert (take k (drop s source)) @ drop (b + k) out"
proof -
  have "map (\<lambda>i. convert (source ! (s + i))) [0..<k] = map convert (take k (drop s source))"
    using assms(2) by (intro nth_equalityI) simp_all
  then show ?thesis using fold_block[OF assms(1)]
    by (simp add: copy_block_def nat_add_distrib flip: of_nat_add)
qed

text \<open>Row \<open>j\<close> of a tensor whose rows have \<open>w\<close> elements.\<close>

definition row_of :: "nat \<Rightarrow> nat \<Rightarrow> 'a list \<Rightarrow> 'a list" where
  "row_of w j xs = take w (drop (j * w) xs)"

lemma length_row: "(j + 1) * w \<le> length xs \<Longrightarrow> length (row_of w j xs) = w"
  by (simp add: row_of_def)

lemma rows_concat: "length xs = n * w \<Longrightarrow> concat (map (\<lambda>j. row_of w j xs) [0..<n]) = xs"
proof -
  have "concat (map (\<lambda>j. row_of w j xs) [0..<m]) = take (m * w) xs" if "m * w \<le> length xs" for m
    using that
  proof (induction m)
    case (Suc m)
    then show ?case by (simp add: row_of_def add.commute[of w] take_add)
  qed simp
  then show "length xs = n * w \<Longrightarrow> ?thesis" by simp
qed

lemma row_of_concat:
  assumes "\<And>j. j < n \<Longrightarrow> length (f j) = w" and "j < n"
  shows "row_of w j (concat (map f [0..<n])) = f j"
proof -
  have len: "length (concat (map f [0..<m])) = m * w" if "m \<le> n" for m
    using that by (induction m) (simp_all add: assms(1))
  have "[0..<n] = [0..<j] @ j # [Suc j..<n]" using assms(2) by (rule upt_split)
  then have "concat (map f [0..<n]) = concat (map f [0..<j]) @ f j @ concat (map f [Suc j..<n])" by simp
  then show ?thesis using len[of j] assms by (simp add: row_of_def)
qed

section \<open>Concat\<close>

definition widths :: "nat \<Rightarrow> 's nd list \<Rightarrow> nat list" where
  "widths axis ts = map (\<lambda>t. nat (nd_dims t ! axis)) ts"

text \<open>Row \<open>j\<close> of a concatenation: row \<open>j\<close> of every input, one after the other.\<close>

definition joined_row :: "nat \<Rightarrow> nat \<Rightarrow> 's nd list \<Rightarrow> nat \<Rightarrow> 's list" where
  "joined_row axis inner ts j = concat (map (\<lambda>t. row_of (nat (nd_dims t ! axis) * inner) j (nd_data t)) ts)"

definition rows_ok :: "nat \<Rightarrow> nat \<Rightarrow> nat \<Rightarrow> 's nd list \<Rightarrow> bool" where
  "rows_ok axis inner n ts \<longleftrightarrow> (\<forall>t \<in> set ts. 0 \<le> nd_dims t ! axis \<and> length (nd_data t) = n * (nat (nd_dims t ! axis) * inner))"

lemma length_joined_row:
  "rows_ok axis inner n ts \<Longrightarrow> j < n \<Longrightarrow> length (joined_row axis inner ts j) = sum_list (widths axis ts) * inner"
proof (induction ts)
  case (Cons t ts)
  let ?w = "nat (nd_dims t ! axis) * inner"
  have "(j + 1) * ?w \<le> n * ?w" using Cons.prems(2) by (intro mult_right_mono) auto
  then have "length (row_of ?w j (nd_data t)) = ?w" using Cons.prems(1) by (intro length_row) (simp add: rows_ok_def)
  moreover have "rows_ok axis inner n ts" using Cons.prems(1) by (simp add: rows_ok_def)
  ultimately show ?case using Cons by (simp add: joined_row_def widths_def add_mult_distrib)
qed (simp add: joined_row_def widths_def)

lemma concat_inputs_row:
  assumes "rows_ok axis inner n ts" and "j < n"
    and "(j * tot + off + sum_list (widths axis ts)) * inner \<le> length out"
  shows "concat_inputs convert axis (int inner) (int tot) (int j) (map Some ts) (int off) out =
    (True, take ((j * tot + off) * inner) out @ map convert (joined_row axis inner ts j) @
           drop ((j * tot + off + sum_list (widths axis ts)) * inner) out)"
  using assms(1,3)
proof (induction ts arbitrary: off out)
  case (Cons t ts)
  define w where "w = nat (nd_dims t ! axis)"
  have t: "nd_dims t ! axis = int w" "length (nd_data t) = n * (w * inner)" and rest: "rows_ok axis inner n ts"
    using Cons.prems(1) by (auto simp: rows_ok_def w_def)
  have sum: "sum_list (widths axis (t # ts)) = w + sum_list (widths axis ts)" by (simp add: widths_def w_def)
  have room: "(j * tot + off) * inner + w * inner \<le> length out"
    using Cons.prems(2) unfolding sum by (simp add: add_mult_distrib)
  have "(j + 1) * (w * inner) \<le> n * (w * inner)" using assms(2) by (intro mult_right_mono) auto
  then have src: "j * (w * inner) + w * inner \<le> length (nd_data t)" using t(2) by simp
  let ?out = "take ((j * tot + off) * inner) out @ map convert (row_of (w * inner) j (nd_data t)) @
    drop ((j * tot + off) * inner + w * inner) out"
  have block: "copy_block convert (int w * int inner) (int j * int w * int inner)
      ((int j * int tot + int off) * int inner) (nd_data t) out = ?out"
    using copy_block_nat[OF room src, of convert] by (simp add: row_of_def mult.assoc)
  have row: "length (row_of (w * inner) j (nd_data t)) = w * inner" using src by (intro length_row) simp
  have len: "length ?out = length out" using room row by simp
  have front: "take ((j * tot + (off + w)) * inner) ?out =
      take ((j * tot + off) * inner) out @ map convert (row_of (w * inner) j (nd_data t))"
    using room row by (simp add: add_mult_distrib)
  have behind: "drop ((j * tot + (off + w) + sum_list (widths axis ts)) * inner) ?out =
      drop ((j * tot + off + sum_list (widths axis (t # ts))) * inner) out"
    using room row by (simp add: sum algebra_simps)
  have "concat_inputs convert axis (int inner) (int tot) (int j) (map Some (t # ts)) (int off) out =
      concat_inputs convert axis (int inner) (int tot) (int j) (map Some ts) (int (off + w)) ?out"
    by (simp add: t(1) block)
  also have "\<dots> = (True, take ((j * tot + (off + w)) * inner) ?out @ map convert (joined_row axis inner ts j) @
           drop ((j * tot + (off + w) + sum_list (widths axis ts)) * inner) ?out)"
    using Cons.prems(2) by (intro Cons.IH[OF rest]) (simp only: len sum add.assoc)
  finally show ?case unfolding front behind by (simp add: joined_row_def w_def)
qed (simp add: joined_row_def widths_def)

lemma concat_outer_rows:
  assumes ok: "rows_ok axis inner n ts" and tot: "sum_list (widths axis ts) = tot" and "k \<le> n"
    and "length out = n * (tot * inner)"
  shows "concat_outer convert axis (int inner) (int tot) (map Some ts) [k..<n] out =
    (True, take (k * (tot * inner)) out @ concat (map (\<lambda>j. map convert (joined_row axis inner ts j)) [k..<n]))"
  using assms(3,4)
proof (induction "n - k" arbitrary: k out)
  case (Suc m)
  let ?w = "tot * inner"
  have k: "k < n" "[k..<n] = k # [Suc k..<n]" using Suc.hyps(2) by (simp_all add: upt_conv_Cons)
  have "(k + 1) * ?w \<le> n * ?w" using k(1) by (intro mult_right_mono) auto
  then have room: "k * ?w + ?w \<le> length out" using Suc.prems(2) by simp
  let ?out = "take (k * ?w) out @ map convert (joined_row axis inner ts k) @ drop (k * ?w + ?w) out"
  have row: "length (joined_row axis inner ts k) = ?w" using length_joined_row[OF ok k(1)] tot by simp
  have step: "concat_inputs convert axis (int inner) (int tot) (int k) (map Some ts) 0 out = (True, ?out)"
    using concat_inputs_row[OF ok k(1), of tot 0 out convert] room tot
    by (simp add: add_mult_distrib mult.assoc)
  have "length ?out = n * ?w" using room row Suc.prems(2) by simp
  then have IH: "concat_outer convert axis (int inner) (int tot) (map Some ts) [Suc k..<n] ?out =
    (True, take (Suc k * ?w) ?out @ concat (map (\<lambda>j. map convert (joined_row axis inner ts j)) [Suc k..<n]))"
    using Suc.hyps k(1) by (intro Suc.hyps(1)) simp_all
  have "take (Suc k * ?w) ?out = take (k * ?w) out @ map convert (joined_row axis inner ts k)"
    using room row by (simp add: add.commute)
  then show ?case unfolding k(2) by (simp add: step IH)
qed simp

section \<open>Split\<close>

abbreviation split_step where
  "split_step convert axis inner input_axis source off outer_idx outs \<equiv>
     split_outputs convert axis inner input_axis (int outer_idx) source outs off"

definition split_one ::
  "('s \<Rightarrow> 's) \<Rightarrow> nat \<Rightarrow> i64 \<Rightarrow> i64 \<Rightarrow> 's list \<Rightarrow> i64 \<Rightarrow> nat \<Rightarrow> 's nd \<Rightarrow> 's nd" where
  "split_one convert axis inner input_axis source off outer_idx t =
     t\<lparr>nd_data := copy_block convert (nd_dims t ! axis * inner) ((int outer_idx * input_axis + off) * inner)
        (int outer_idx * (nd_dims t ! axis * inner)) source (nd_data t)\<rparr>"

text \<open>The outputs do not interfere: each one is written as if it were alone, at its own offset.\<close>

lemma fold_split_Cons:
  "fold (split_step convert axis inner input_axis source off) is (t # ts) =
     fold (split_one convert axis inner input_axis source off) is t #
     fold (split_step convert axis inner input_axis source (off + nd_dims t ! axis)) is ts"
  by (induction "is" arbitrary: t ts) (simp_all add: split_one_def Let_def)

lemma fold_split_Nil: "fold (split_step convert axis inner input_axis source off) is [] = []"
  by (induction "is") simp_all

lemma fold_split_one:
  assumes w: "nd_dims t ! axis = int w" and "length (nd_data t) = n * (w * inner)"
    and "\<And>j. j < n \<Longrightarrow> (j * tot + off + w) * inner \<le> length source"
  shows "k \<le> n \<Longrightarrow> fold (split_one convert axis (int inner) (int tot) source (int off)) [0..<k] t =
    t\<lparr>nd_data := concat (map (\<lambda>j. map convert (take (w * inner) (drop ((j * tot + off) * inner) source))) [0..<k]) @
                drop (k * (w * inner)) (nd_data t)\<rparr>"
proof (induction k)
  case (Suc k)
  let ?b = "\<lambda>j. map convert (take (w * inner) (drop ((j * tot + off) * inner) source))"
  have blocks: "length (concat (map ?b [0..<m])) = m * (w * inner)" if "m \<le> n" for m
    using that
  proof (induction m)
    case (Suc m)
    have "w * inner \<le> length source - (m * tot + off) * inner"
      using assms(3)[of m] Suc.prems by (simp add: add_mult_distrib)
    then show ?case using Suc by simp
  qed simp
  let ?data = "concat (map ?b [0..<k]) @ drop (k * (w * inner)) (nd_data t)"
  have "(k + 1) * (w * inner) \<le> n * (w * inner)" using Suc.prems by (intro mult_right_mono) auto
  then have room: "k * (w * inner) + w * inner \<le> length ?data" using blocks[of k] Suc.prems assms(2) by simp
  have src: "(k * tot + off) * inner + w * inner \<le> length source"
    using assms(3)[of k] Suc.prems by (simp add: add_mult_distrib)
  have block: "copy_block convert (int w * int inner) ((int k * int tot + int off) * int inner)
      (int k * (int w * int inner)) source ?data = take (k * (w * inner)) ?data @ ?b k @ drop (k * (w * inner) + w * inner) ?data"
    using copy_block_nat[OF room src, of convert] by simp
  have front: "take (k * (w * inner)) ?data = concat (map ?b [0..<k])" using blocks[of k] Suc.prems by simp
  have behind: "drop (k * (w * inner) + w * inner) ?data = drop (Suc k * (w * inner)) (nd_data t)"
    using blocks[of k] Suc.prems by (simp add: add.commute)
  have "fold (split_one convert axis (int inner) (int tot) source (int off)) [0..<Suc k] t =
      split_one convert axis (int inner) (int tot) source (int off) k (t\<lparr>nd_data := ?data\<rparr>)"
    using Suc by simp
  then show ?case unfolding split_one_def using w by (simp add: block[unfolded front behind] del: mult_Suc)
qed simp

lemma split_joined:
  assumes "rows_ok axis inner n (pre @ ts)" and tot: "sum_list (widths axis (pre @ ts)) = tot"
    and source: "source = concat (map (\<lambda>j. map g (joined_row axis inner (pre @ ts) j)) [0..<n])"
    and outs: "list_all2 (\<lambda>t u. nd_dims u = nd_dims t \<and> length (nd_data u) = length (nd_data t)) ts us"
  shows "map nd_data (fold (split_step convert axis (int inner) (int tot) source (int (sum_list (widths axis pre)))) [0..<n] us) =
    map (\<lambda>t. map (convert \<circ> g) (nd_data t)) ts"
  using assms
proof (induction ts arbitrary: pre us)
  case Nil
  then show ?case by (simp add: fold_split_Nil)
next
  case (Cons t ts)
  obtain u us' where us: "us = u # us'" "nd_dims u = nd_dims t" "length (nd_data u) = length (nd_data t)"
    and rest: "list_all2 (\<lambda>t u. nd_dims u = nd_dims t \<and> length (nd_data u) = length (nd_data t)) ts us'"
    using Cons.prems(4) by (cases us) auto
  define w off where "w = nat (nd_dims t ! axis)" and "off = sum_list (widths axis pre)"
  have t: "nd_dims t ! axis = int w" "length (nd_data t) = n * (w * inner)"
    using Cons.prems(1) by (auto simp: rows_ok_def w_def)
  have le: "off * inner + w * inner \<le> tot * inner" using Cons.prems(2)
    by (simp add: off_def w_def widths_def flip: add_mult_distrib)
  have rows: "length (map g (joined_row axis inner (pre @ t # ts) j)) = tot * inner" if "j < n" for j
    using length_joined_row[OF Cons.prems(1) that] Cons.prems(2) by simp
  have src_len: "length source = n * (tot * inner)"
  proof -
    have "length (concat (map (\<lambda>j. map g (joined_row axis inner (pre @ t # ts) j)) [0..<m])) = m * (tot * inner)" if "m \<le> n" for m
      using that by (induction m) (simp_all add: rows[simplified])
    then show ?thesis by (simp add: Cons.prems(3))
  qed
  have room: "(j * tot + off + w) * inner \<le> length source" if "j < n" for j
  proof -
    have "(j * tot + off + w) * inner \<le> (j + 1) * (tot * inner)" using le by (simp add: add_mult_distrib)
    also have "\<dots> \<le> n * (tot * inner)" using that by (intro mult_right_mono) auto
    finally show ?thesis using src_len by simp
  qed
  have block: "take (w * inner) (drop ((j * tot + off) * inner) source) = map g (row_of (w * inner) j (nd_data t))" if j: "j < n" for j
  proof -
    have "row_of (tot * inner) j source = map g (joined_row axis inner (pre @ t # ts) j)"
      unfolding Cons.prems(3) by (rule row_of_concat[OF rows j])
    then have "take (w * inner) (drop (off * inner) (map g (joined_row axis inner (pre @ t # ts) j))) =
        take (w * inner) (drop (off * inner) (row_of (tot * inner) j source))" by simp
    also have "\<dots> = take (w * inner) (drop ((j * tot + off) * inner) source)"
      using le by (simp add: row_of_def drop_take add_mult_distrib add.commute mult.assoc)
    finally have eq: "take (w * inner) (drop ((j * tot + off) * inner) source) =
        take (w * inner) (drop (off * inner) (map g (joined_row axis inner (pre @ t # ts) j)))" by simp
    have pre: "length (joined_row axis inner pre j) = off * inner"
      unfolding off_def using Cons.prems(1) j by (intro length_joined_row[of _ _ n]) (simp_all add: rows_ok_def)
    have "(j + 1) * (w * inner) \<le> n * (w * inner)" using j by (intro mult_right_mono) auto
    then have "length (row_of (w * inner) j (nd_data t)) = w * inner" using t(2) by (intro length_row) simp
    moreover have "joined_row axis inner (pre @ t # ts) j =
        joined_row axis inner pre j @ row_of (w * inner) j (nd_data t) @ joined_row axis inner ts j"
      by (simp add: joined_row_def w_def)
    ultimately show ?thesis using pre by (simp add: eq)
  qed
  have "nd_data (fold (split_one convert axis (int inner) (int tot) source (int off)) [0..<n] u) =
      concat (map (\<lambda>j. map convert (take (w * inner) (drop ((j * tot + off) * inner) source))) [0..<n])"
    using fold_split_one[of u axis w n inner tot off source n convert] t us room by simp
  also have "\<dots> = concat (map (\<lambda>j. map (convert \<circ> g) (row_of (w * inner) j (nd_data t))) [0..<n])"
    by (intro arg_cong[where f = concat] map_cong) (auto simp: block)
  also have "\<dots> = map (convert \<circ> g) (nd_data t)"
    using arg_cong[OF rows_concat[OF t(2)], of "map (convert \<circ> g)"] by (simp add: map_concat comp_def)
  finally have head: "nd_data (fold (split_one convert axis (int inner) (int tot) source (int off)) [0..<n] u) =
      map (convert \<circ> g) (nd_data t)" .
  have off': "int off + nd_dims u ! axis = int (sum_list (widths axis (pre @ [t])))"
    using t(1) us(2) by (simp add: off_def widths_def)
  have IH: "map nd_data (fold (split_step convert axis (int inner) (int tot) source (int (sum_list (widths axis (pre @ [t]))))) [0..<n] us') =
      map (\<lambda>t. map (convert \<circ> g) (nd_data t)) ts"
    by (rule Cons.IH[of "pre @ [t]"]) (use Cons.prems rest in simp_all)
  show ?case unfolding us(1) fold_split_Cons off_def[symmetric] off' by (simp add: head IH)
qed

section \<open>Concat and split: the kernels\<close>

lemma ComputeProduct_eq: "b \<le> length dims \<Longrightarrow> a \<le> b \<Longrightarrow> ComputeProduct dims a b = prod_list (take (b - a) (drop a dims))"
proof -
  have "fold (\<lambda>i product. product * dims ! i) [a..<a + k] p = p * prod_list (take k (drop a dims))"
    if "a + k \<le> length dims" for k p
    using that
  proof (induction k arbitrary: p)
    case (Suc k)
    have "take (Suc k) (drop a dims) = take k (drop a dims) @ [dims ! (a + k)]"
      using Suc.prems by (simp add: take_Suc_conv_app_nth)
    then show ?case using Suc by (simp add: prod_list_append)
  qed simp
  from this[of "b - a" 1] show "b \<le> length dims \<Longrightarrow> a \<le> b \<Longrightarrow> ?thesis" by (simp add: ComputeProduct_def)
qed

text \<open>What the kernels multiply out on both sides of the axis.\<close>

definition outer_of :: "nat \<Rightarrow> i64 list \<Rightarrow> nat" where
  "outer_of axis dims = nat (prod_list (take axis dims))"

definition inner_of :: "nat \<Rightarrow> i64 list \<Rightarrow> nat" where
  "inner_of axis dims = nat (prod_list (drop (axis + 1) dims))"

lemma axis_products:
  assumes "axis < length dims" and "\<forall>d \<in> set dims. 0 \<le> d"
  shows "ComputeProduct dims 0 axis = int (outer_of axis dims)"
    and "ComputeProduct dims (axis + 1) (length dims) = int (inner_of axis dims)"
    and "prod_list dims = int (outer_of axis dims * (nat (dims ! axis) * inner_of axis dims))"
proof -
  have nonneg: "0 \<le> prod_list (take axis dims)" "0 \<le> prod_list (drop (axis + 1) dims)"
    using assms(2) by (auto intro!: prod_list_nonneg dest: in_set_takeD in_set_dropD)
  show "ComputeProduct dims 0 axis = int (outer_of axis dims)"
    and "ComputeProduct dims (axis + 1) (length dims) = int (inner_of axis dims)"
    using assms(1) nonneg by (simp_all add: ComputeProduct_eq outer_of_def inner_of_def)
  have "dims = take axis dims @ dims ! axis # drop (axis + 1) dims" using assms(1) by (simp add: id_take_nth_drop)
  then have "prod_list dims = prod_list (take axis dims) * (dims ! axis * prod_list (drop (axis + 1) dims))"
    by (metis prod_list.Cons prod_list_append)
  then show "prod_list dims = int (outer_of axis dims * (nat (dims ! axis) * inner_of axis dims))"
    using nonneg assms by (simp add: outer_of_def inner_of_def)
qed

lemma foldl_axis_sum:
  assumes "\<forall>t \<in> set ts. 0 \<le> nd_dims t ! axis"
  shows "foldl (\<lambda>n dims. n + dims ! axis) (m::i64) (map nd_dims ts) = m + int (sum_list (widths axis ts))"
  using assms by (induction ts arbitrary: m) (simp_all add: widths_def)

text \<open>Inputs a concat accepts have the same number of rows, and rows of their own width.\<close>

lemma concat_rows_ok:
  assumes check: "CheckConcatShape axis_attr (map nd_dims inputs)"
    and axis: "axis = nat (resolve_axis axis_attr (length (nd_dims (hd inputs))))"
    and ok: "\<forall>t \<in> set inputs. nd_ok t"
    and out: "nd_dims out = InferConcatOutputShape axis_attr (map nd_dims inputs)" "nd_ok out"
  defines "inner \<equiv> inner_of axis (nd_dims out)" and "n \<equiv> outer_of axis (nd_dims out)"
    and "tot \<equiv> sum_list (widths axis inputs)"
  shows "axis < length (nd_dims out)" and "resolve_axis axis_attr (length (nd_dims out)) = int axis"
    and "nd_dims out ! axis = int tot" and "rows_ok axis inner n inputs"
    and "length (nd_data out) = n * (tot * inner)"
    and "\<forall>d \<in> set (nd_dims out). 0 \<le> d"
proof -
  have ne: "inputs \<noteq> []" using check by (auto simp: CheckConcatShape_def)
  let ?base = "nd_dims (hd inputs)"
  have base: "hd (map nd_dims inputs) = ?base" using ne by (simp add: hd_map)
  have ax: "resolve_axis axis_attr (length ?base) = int axis" "axis < length ?base"
    and same: "\<And>t. t \<in> set inputs \<Longrightarrow> length (nd_dims t) = length ?base \<and>
                   (\<forall>i < length ?base. int i \<noteq> int axis \<longrightarrow> nd_dims t ! i = ?base ! i)"
    using check unfolding CheckConcatShape_def base Let_def axis by auto
  have nonneg: "0 \<le> nd_dims t ! axis" if "t \<in> set inputs" for t
    using ok same[OF that] that ax(2) by (auto simp: nd_ok_def)
  have "foldl (\<lambda>n dims. n + dims ! axis) 0 (map nd_dims inputs) = int tot"
    using foldl_axis_sum[of inputs axis 0] nonneg by (simp add: tot_def)
  then have od: "nd_dims out = ?base[axis := int tot]"
    unfolding out(1) InferConcatOutputShape_def base Let_def axis[symmetric] by simp
  show A: "axis < length (nd_dims out)" "resolve_axis axis_attr (length (nd_dims out)) = int axis"
    "nd_dims out ! axis = int tot"
    using ax by (simp_all add: od)
  show pos: "\<forall>d \<in> set (nd_dims out). 0 \<le> d" using out(2) by (simp add: nd_ok_def)
  have "int (length (nd_data out)) = int (n * (tot * inner))"
    using axis_products(3)[OF A(1) pos] out(2) A(3) by (simp add: nd_ok_def n_def inner_def)
  then show "length (nd_data out) = n * (tot * inner)" by (simp only: of_nat_eq_iff)
  show "rows_ok axis inner n inputs"
    unfolding rows_ok_def
  proof (intro ballI conjI)
    fix t assume t: "t \<in> set inputs"
    then show "0 \<le> nd_dims t ! axis" by (rule nonneg)
    have len: "length (nd_dims t) = length ?base" and eq: "\<And>i. i < length ?base \<Longrightarrow> i \<noteq> axis \<Longrightarrow> nd_dims t ! i = ?base ! i"
      using same[OF t] by auto
    have tdims: "\<forall>d \<in> set (nd_dims t). 0 \<le> d" and ax_t: "axis < length (nd_dims t)" using ok t len ax(2) by (auto simp: nd_ok_def)
    have "take axis (nd_dims t) = take axis (nd_dims out)"
      unfolding od using len ax(2) by (intro nth_equalityI) (auto simp: eq)
    moreover have "drop (axis + 1) (nd_dims t) = drop (axis + 1) (nd_dims out)"
      unfolding od using len ax(2) by (intro nth_equalityI) (auto simp: eq)
    ultimately have "outer_of axis (nd_dims t) = n" "inner_of axis (nd_dims t) = inner"
      by (simp_all add: outer_of_def inner_of_def n_def inner_def)
    then have "int (length (nd_data t)) = int (n * (nat (nd_dims t ! axis) * inner))"
      using axis_products(3)[OF ax_t tdims] ok t by (simp add: nd_ok_def)
    then show "length (nd_data t) = n * (nat (nd_dims t ! axis) * inner)" by (simp only: of_nat_eq_iff)
  qed
qed

lemma concat_kernel_data:
  assumes check: "CheckConcatShape axis_attr (map nd_dims inputs)"
    and axis: "axis = nat (resolve_axis axis_attr (length (nd_dims (hd inputs))))"
    and ok: "\<forall>t \<in> set inputs. nd_ok t"
    and out: "nd_dims out = InferConcatOutputShape axis_attr (map nd_dims inputs)" "nd_ok out"
  shows "ComputeConcatKernel dtype rd wr axis_attr (map Some inputs) (Some out) =
    (0, Some (out\<lparr>nd_type := dtype, nd_data := concat (map (\<lambda>j. map (wr \<circ> rd)
        (joined_row axis (inner_of axis (nd_dims out)) inputs j)) [0..<outer_of axis (nd_dims out)])\<rparr>))"
proof -
  note r = concat_rows_ok[OF assms]
  have two: "\<not> length inputs < 2" using check by (simp add: CheckConcatShape_def)
  note pr = axis_products(1,2)[OF r(1,6)]
  have "concat_outer (wr \<circ> rd) axis (int (inner_of axis (nd_dims out))) (int (sum_list (widths axis inputs)))
      (map Some inputs) [0..<outer_of axis (nd_dims out)] (nd_data out) =
    (True, concat (map (\<lambda>j. map (wr \<circ> rd) (joined_row axis (inner_of axis (nd_dims out)) inputs j)) [0..<outer_of axis (nd_dims out)]))"
    using concat_outer_rows[OF r(4) refl _ r(5), of 0 "wr \<circ> rd"] by simp
  then show ?thesis using two r(1) pr unfolding ComputeConcatKernel_def by (simp add: Let_def r(2,3))
qed

lemma split_undoes_concat:
  assumes check: "CheckConcatShape axis_attr (map nd_dims inputs)"
    and ok: "\<forall>t \<in> set inputs. nd_ok t"
    and out: "nd_dims out = InferConcatOutputShape axis_attr (map nd_dims inputs)" "nd_ok out"
    and run: "ComputeConcatKernel dtype rd wr axis_attr (map Some inputs) (Some out) = (0, Some joined)"
    and parts: "list_all2 (\<lambda>t u. nd_dims u = nd_dims t \<and> length (nd_data u) = length (nd_data t)) inputs parts"
    and split: "ComputeSplitKernel dtype rd wr axis_attr (Some joined) (map Some parts) = (status, results)"
  shows "status = 0 \<and> map (map_option nd_data) results = map (\<lambda>t. Some (map (wr \<circ> rd \<circ> (wr \<circ> rd)) (nd_data t))) inputs"
proof -
  define axis where "axis = nat (resolve_axis axis_attr (length (nd_dims (hd inputs))))"
  let ?inner = "inner_of axis (nd_dims out)" and ?n = "outer_of axis (nd_dims out)" and ?tot = "sum_list (widths axis inputs)"
  note r = concat_rows_ok[OF check axis_def ok out]
  have joined: "nd_dims joined = nd_dims out"
    "nd_data joined = concat (map (\<lambda>j. map (wr \<circ> rd) (joined_row axis ?inner inputs j)) [0..<?n])"
    using run concat_kernel_data[OF check axis_def ok out, of dtype rd wr] by auto
  have retype: "retype_until_null dtype (map Some ps) = map Some (map (nd_type_update (\<lambda>_. dtype)) ps)" for ps :: "'a nd list"
    by (induction ps) simp_all
  let ?parts = "map (nd_type_update (\<lambda>_. dtype)) parts"
  have ne: "parts \<noteq> []" using parts check by (auto simp: CheckConcatShape_def)
  have parts': "list_all2 (\<lambda>t u. nd_dims u = nd_dims t \<and> length (nd_data u) = length (nd_data t)) inputs ?parts"
    using parts by (simp add: list_all2_conv_all_nth)
  note pr = axis_products(1,2)[OF r(1,6)]
  have results: "status = 0" "results = map Some (fold (split_step (wr \<circ> rd) axis (int ?inner) (int ?tot) (nd_data joined) 0) [0..<?n] ?parts)"
    using split ne r(1) unfolding ComputeSplitKernel_def
    by (auto simp: Let_def joined(1) r(2,3) pr[simplified] retype comp_def)
  have data: "map nd_data (fold (split_step (wr \<circ> rd) axis (int ?inner) (int ?tot) (nd_data joined) 0) [0..<?n] ?parts) =
      map (\<lambda>t. map (wr \<circ> rd \<circ> (wr \<circ> rd)) (nd_data t)) inputs"
    using split_joined[of axis ?inner ?n "[]" inputs ?tot "nd_data joined" "wr \<circ> rd" ?parts "wr \<circ> rd"] r(4) joined(2) parts'
    by (simp add: widths_def)
  have "map (map_option nd_data) results = map Some (map nd_data
      (fold (split_step (wr \<circ> rd) axis (int ?inner) (int ?tot) (nd_data joined) 0) [0..<?n] ?parts))"
    unfolding results(2) by simp
  also have "\<dots> = map (\<lambda>t. Some (map (wr \<circ> rd \<circ> (wr \<circ> rd)) (nd_data t))) inputs" unfolding data by simp
  finally show ?thesis using results(1) by simp
qed

context exact_io
begin

lemma split_concat_exact:
  assumes "CheckConcatShape axis_attr (map nd_dims inputs)" and "\<forall>t \<in> set inputs. nd_ok t"
    and "nd_dims out = InferConcatOutputShape axis_attr (map nd_dims inputs)" and "nd_ok out"
    and "ComputeConcatKernel dtype rd wr axis_attr (map Some inputs) (Some out) = (0, Some joined)"
    and "list_all2 (\<lambda>t u. nd_dims u = nd_dims t \<and> length (nd_data u) = length (nd_data t)) inputs parts"
    and "ComputeSplitKernel dtype rd wr axis_attr (Some joined) (map Some parts) = (status, results)"
    and good: "\<forall>t \<in> set inputs. \<forall>x \<in> set (nd_data t). good x"
  shows "map (map_option nd_data) results = map (Some \<circ> nd_data) inputs"
proof -
  have "map (\<lambda>t. Some (map (wr \<circ> rd \<circ> (wr \<circ> rd)) (nd_data t))) inputs = map (Some \<circ> nd_data) inputs"
  proof (rule map_cong[OF refl])
    fix t assume "t \<in> set inputs"
    then have "map (wr \<circ> rd) (nd_data t) = nd_data t" using good by (intro map_exact) blast
    then show "Some (map (wr \<circ> rd \<circ> (wr \<circ> rd)) (nd_data t)) = (Some \<circ> nd_data) t"
      by (simp only: map_map[symmetric] comp_apply)
  qed
  then show ?thesis using split_undoes_concat[OF assms(1-7)] by simp
qed

end

section \<open>Properties\<close>

text \<open>
  C25: Split undoes concat: when concat accepts the shapes of its inputs, joins them, and split cuts
  the joined tensor along the same axis into parts of the inputs' dimensions, both succeed and every
  part holds the elements of its input in order, each read and written twice.
\<close>

theorem split_concat_roundtrip:
  assumes "CheckConcatShape axis_attr (map nd_dims inputs)"
    and "\<forall>t \<in> set inputs. nd_ok t"
    and "nd_dims out = InferConcatOutputShape axis_attr (map nd_dims inputs)" and "nd_ok out"
    and "list_all2 (\<lambda>t u. nd_dims u = nd_dims t \<and> length (nd_data u) = length (nd_data t)) inputs parts"
  shows "\<exists>joined results. ComputeConcatKernel dtype rd wr axis_attr (map Some inputs) (Some out) = (0, Some joined) \<and>
    ComputeSplitKernel dtype rd wr axis_attr (Some joined) (map Some parts) = (0, results) \<and>
    map (map_option nd_data) results = map (\<lambda>t. Some (map (wr \<circ> rd \<circ> (wr \<circ> rd)) (nd_data t))) inputs"
proof -
  obtain joined where join: "ComputeConcatKernel dtype rd wr axis_attr (map Some inputs) (Some out) = (0, Some joined)"
    using concat_kernel_data[OF assms(1) refl assms(2-4), of dtype rd wr] by blast
  obtain status results where split: "ComputeSplitKernel dtype rd wr axis_attr (Some joined) (map Some parts) = (status, results)"
    by fastforce
  show ?thesis using split_undoes_concat[OF assms(1-4) join assms(5) split] join split by blast
qed

theorem split_concat_roundtrip_witness:
  "\<exists>joined results. ComputeConcatKernel FP32 (\<lambda>x. x) (\<lambda>x. x) (-1)
      (map Some [\<lparr>nd_dims = [2, 1], nd_data = [1, 4::int], nd_type = FP32\<rparr>, \<lparr>nd_dims = [2, 2], nd_data = [2, 3, 5, 6], nd_type = FP32\<rparr>])
      (Some \<lparr>nd_dims = [2, 3], nd_data = [0, 0, 0, 0, 0, 0], nd_type = FP32\<rparr>) = (0, Some joined) \<and>
    ComputeSplitKernel FP32 (\<lambda>x. x) (\<lambda>x. x) (-1) (Some joined)
      (map Some [\<lparr>nd_dims = [2, 1], nd_data = [0, 0::int], nd_type = FP32\<rparr>, \<lparr>nd_dims = [2, 2], nd_data = [0, 0, 0, 0], nd_type = FP32\<rparr>])
        = (0, results) \<and>
    map (map_option nd_data) results = [Some [1, 4], Some [2, 3, 5, 6]]"
  (is "\<exists>joined results. ComputeConcatKernel _ _ _ _ (map Some ?ins) (Some ?out) = _ \<and> ComputeSplitKernel _ _ _ _ _ (map Some ?parts) = _ \<and> _")
proof -
  have check: "CheckConcatShape (-1) [[2, 1], [2, 2]]" "InferConcatOutputShape (-1) [[2, 1], [2, 2]] = [2, 3]"
    by (auto simp: CheckConcatShape_def InferConcatOutputShape_def resolve_axis_def less_Suc_eq)
  have data: "map (\<lambda>t. Some (map ((\<lambda>x. x) \<circ> (\<lambda>x. x) \<circ> ((\<lambda>x. x) \<circ> (\<lambda>x. x))) (nd_data t))) ?ins = [Some [1, 4], Some [2, 3, 5, 6]]"
    by simp
  show ?thesis unfolding data[symmetric]
    by (rule split_concat_roundtrip) (simp_all add: check nd_ok_def)
qed

end
