(* ===== verification/Float16_Formats.thy ===== *)
theory Float16_Formats
  imports Concat_Split "HOL-Library.While_Combinator"
begin

text \<open>
  The 16-bit float formats (\<open>include/util/fp16.h\<close>, \<open>include/util/bf16.h\<close>): their conversions to and
  from single precision, on bit patterns as the code computes them, and their round trips.  These
  are \<open>TensorIO::Read\<close> and \<open>Write\<close> of the two types, and provide the contract \<open>exact_io\<close>.
\<close>

unbundle bit_operations_syntax

section \<open>Half precision\<close>

text \<open>\<open>while ((mantissa & 0x0400u) == 0) { mantissa <<= 1; --exp; }\<close> on unsigned 32-bit values, which wrap.\<close>

definition half_normalize :: "32 word \<times> 32 word \<Rightarrow> (32 word \<times> 32 word) option" where
  "half_normalize = while_option (\<lambda>(mantissa, exp). mantissa AND 0x0400 = 0) (\<lambda>(mantissa, exp). (push_bit 1 mantissa, exp - 1))"

definition HalfToFloat :: "16 word \<Rightarrow> f32 option" where
  "HalfToFloat bits =
     (let b = ucast bits :: 32 word;
          sign = push_bit 16 (b AND 0x8000); exp = drop_bit 10 b AND 0x1f; mantissa = b AND 0x03ff in
      if exp = 0 then
        (if mantissa = 0 then Some sign
         else map_option (\<lambda>(mantissa, exp). sign OR push_bit 23 (exp + (127 - 15)) OR push_bit 13 (mantissa AND 0x03ff))
                (half_normalize (mantissa, 1)))
      else if exp = 0x1f then Some (sign OR 0x7f800000 OR push_bit 13 mantissa)
      else Some (sign OR push_bit 23 (exp + (127 - 15)) OR push_bit 13 mantissa))"

definition FloatToHalf :: "f32 \<Rightarrow> 16 word" where
  "FloatToHalf bits =
     (let sign = drop_bit 16 bits AND 0x8000; exp = drop_bit 23 bits AND 0xff; mantissa = bits AND 0x007fffff in
      if exp = 0xff then
        (if mantissa = 0 then ucast (sign OR 0x7c00) else ucast (sign OR 0x7c00 OR drop_bit 13 mantissa OR 1))
      else
        (let unbiased_exp = int (unat exp) - 127 in
         if 15 < unbiased_exp then ucast (sign OR 0x7c00)
         else if unbiased_exp < -14 then
           (if unbiased_exp < -24 then ucast sign
            else (let subnormal = mantissa OR 0x00800000; shift = nat (- unbiased_exp - 14);
                      rounded = subnormal + push_bit (shift + 12) 1
                  in ucast (sign OR drop_bit (shift + 13) rounded)))
         else
           (let rounded_mantissa = mantissa + 0x00001000; half_exp = word_of_int (unbiased_exp + 15) :: 16 word in
            if rounded_mantissa AND 0x00800000 \<noteq> 0 then
              (if 0x1f \<le> half_exp + 1 then ucast (sign OR 0x7c00)
               else ucast (sign OR push_bit 10 (ucast (half_exp + 1)) OR drop_bit 13 0))
            else ucast (sign OR push_bit 10 (ucast half_exp) OR drop_bit 13 rounded_mantissa))))"

section \<open>Brain float\<close>

definition BFloat16ToFloat :: "16 word \<Rightarrow> f32" where
  "BFloat16ToFloat bits = push_bit 16 (ucast bits)"

definition FloatToBFloat16 :: "f32 \<Rightarrow> 16 word" where
  "FloatToBFloat16 float_bits =
     (let exponent = float_bits AND 0x7f800000; mantissa = float_bits AND 0x007fffff in
      if exponent = 0x7f800000 \<and> mantissa \<noteq> 0 then ucast (drop_bit 16 float_bits OR 0x0040)
      else (let round_bias = 0x7fff + (drop_bit 16 float_bits AND 1) in ucast (drop_bit 16 (float_bits + round_bias))))"

section \<open>Bit fields as numbers\<close>

lemma nat_and_mask: "x AND (2 ^ n - 1) = x mod 2 ^ n" for x :: nat
  by (simp only: take_bit_eq_mask mask_eq_exp_minus_1 flip: take_bit_eq_mod)

lemma nat_or_add: "y < 2 ^ n \<Longrightarrow> x * 2 ^ n OR y = x * 2 ^ n + y" for x y :: nat
proof -
  assume y: "y < 2 ^ n"
  then have "take_bit n y = y" by (simp add: take_bit_nat_eq_self)
  then have "\<not> bit y i" if "n \<le> i" for i using that by (metis bit_take_bit_iff not_less)
  then have "push_bit n x AND y = 0" by (intro bit_eqI) (auto simp: bit_simps)
  then show ?thesis using disjunctive_add_eq_or[of "push_bit n x" y] by (simp add: push_bit_eq_mult)
qed

lemma nat_and_exp: "x AND 2 ^ n = (x div 2 ^ n mod 2) * 2 ^ n" for x :: nat
proof -
  have "bit x n \<longleftrightarrow> odd (drop_bit n x)" by (simp add: bit_iff_odd drop_bit_eq_div)
  then have "x AND 2 ^ n = push_bit n (take_bit 1 (drop_bit n x))"
    by (intro bit_eqI) (auto simp: bit_simps)
  then show ?thesis by (simp add: push_bit_eq_mult drop_bit_eq_div take_bit_eq_mod)
qed

lemmas unat_bits = unsigned_and_eq unsigned_or_eq unsigned_push_bit_eq unat_drop_bit_eq unsigned_ucast_eq
  push_bit_eq_mult[where 'a = nat] drop_bit_eq_div[where 'a = nat] take_bit_eq_mod[where 'a = nat]

lemmas nat_masks = nat_and_mask[of _ 5, simplified] nat_and_mask[of _ 8, simplified] nat_and_mask[of _ 10, simplified]
  nat_and_mask[of _ 23, simplified] nat_and_exp[of _ 15, simplified] nat_and_exp[of _ 10, simplified] nat_and_exp[of _ 23, simplified]

text \<open>Words by their numbers, and patterns by their fields.\<close>

definition w32 :: "nat \<Rightarrow> 32 word" where "w32 n = word_of_nat n"

lemma unat_w32: "n < 4294967296 \<Longrightarrow> unat (w32 n) = n"
  by (simp add: w32_def unat_of_nat take_bit_eq_mod)

lemma w32_eqI: "unat x = n \<Longrightarrow> x = w32 n"
  by (auto simp: w32_def)

definition f32_fields :: "nat \<Rightarrow> nat \<Rightarrow> nat \<Rightarrow> f32" where
  "f32_fields s e m = w32 (s * 2147483648 + e * 8388608 + m)"

definition f16_fields :: "nat \<Rightarrow> nat \<Rightarrow> nat \<Rightarrow> 16 word" where
  "f16_fields s e m = ucast (w32 (s * 32768 + e * 1024 + m))"

lemma digits3:
  fixes s e m :: nat
  assumes "m < k" and "e < j"
  shows "(s * (j * k) + e * k + m) div (j * k) = s" "(s * (j * k) + e * k + m) div k mod j = e"
    "(s * (j * k) + e * k + m) mod k = m"
proof -
  have eq: "s * (j * k) + e * k + m = (s * j + e) * k + m" by (simp add: add_mult_distrib)
  have d: "((s * j + e) * k + m) div k = s * j + e" using assms(1) by simp
  have "(s * (j * k) + e * k + m) div (k * j) = s" unfolding eq div_mult2_eq d using assms(2) by simp
  then show "(s * (j * k) + e * k + m) div (j * k) = s" by (simp add: mult.commute)
  show "(s * (j * k) + e * k + m) div k mod j = e" unfolding eq d using assms(2) by simp
  show "(s * (j * k) + e * k + m) mod k = m" unfolding eq using assms(1) by simp
qed

lemmas digits16 = digits3[of _ 1024 _ 32, simplified] and digits32 = digits3[of _ 8388608 _ 256, simplified]

lemma bound3: "s < 2 \<Longrightarrow> e < j \<Longrightarrow> m < k \<Longrightarrow> s * (j * k) + e * k + m < 2 * (j * k)" for s :: nat
proof -
  assume a: "s < 2" "e < j" "m < k"
  have "s * (j * k) \<le> 1 * (j * k)" using a by (intro mult_right_mono) auto
  moreover have "(e + 1) * k \<le> j * k" using a by (intro mult_right_mono) auto
  ultimately have "s * (j * k) + (e * k + m) < 1 * (j * k) + j * k" using a by (intro add_le_less_mono) simp_all
  then show ?thesis by simp
qed

lemma unat_f32_fields: "s < 2 \<Longrightarrow> e < 256 \<Longrightarrow> m < 8388608 \<Longrightarrow> unat (f32_fields s e m) = s * 2147483648 + e * 8388608 + m"
  unfolding f32_fields_def using bound3[of s e 256 m 8388608] by (intro unat_w32) simp

lemma unat_f16_fields: "s < 2 \<Longrightarrow> e < 32 \<Longrightarrow> m < 1024 \<Longrightarrow> unat (f16_fields s e m) = s * 32768 + e * 1024 + m"
  unfolding f16_fields_def using bound3[of s e 32 m 1024] unat_w32[of "s * 32768 + e * 1024 + m"]
  by (simp add: unsigned_ucast_eq take_bit_eq_mod)

lemma f16_fields_exist: "\<exists>s e m. s < 2 \<and> e < 32 \<and> m < 1024 \<and> bits = f16_fields s e m"
proof (intro exI conjI)
  let ?n = "unat bits"
  have n: "?n < 65536" using unsigned_less[of bits] by simp
  show "?n div 32768 < 2" "?n div 1024 mod 32 < 32" "?n mod 1024 < 1024" using n by auto
  have "?n = ?n div 1024 * 1024 + ?n mod 1024" by simp
  also have "?n div 1024 = ?n div 1024 div 32 * 32 + ?n div 1024 mod 32" by simp
  finally have eq: "?n div 32768 * 32768 + ?n div 1024 mod 32 * 1024 + ?n mod 1024 = ?n"
    by (simp add: div_mult2_eq[symmetric] add_mult_distrib)
  show "bits = f16_fields (?n div 32768) (?n div 1024 mod 32) (?n mod 1024)"
  proof -
    have "unat bits = unat (ucast (w32 ?n) :: 16 word)" using n by (simp add: unsigned_ucast_eq unat_w32 take_bit_eq_mod)
    then show ?thesis unfolding f16_fields_def eq by (rule unsigned_word_eqI)
  qed
qed

lemma or3: "e < 256 \<Longrightarrow> m < 8388608 \<Longrightarrow> s * 2147483648 OR e * 8388608 OR m = s * 2147483648 + e * 8388608 + m" for s :: nat
  using nat_or_add[of m 23 e] nat_or_add[of "e * 8388608 + m" 31 s] by simp

lemma or3_half: "e < 32 \<Longrightarrow> m < 1024 \<Longrightarrow> s * 32768 OR e * 1024 OR m = s * 32768 + e * 1024 + m" for s :: nat
  using nat_or_add[of m 10 e] nat_or_add[of "e * 1024 + m" 15 s] by simp

text \<open>The fields the code extracts.\<close>

lemma half_extract:
  assumes "s < 2" and "e < 32" and "m < 1024"
  defines "b \<equiv> ucast (f16_fields s e m) :: 32 word"
  shows "push_bit 16 (b AND 0x8000) = w32 (s * 2147483648)" and "drop_bit 10 b AND 0x1f = w32 e"
    and "b AND 0x03ff = w32 m"
proof -
  have b: "unat b = s * 32768 + e * 1024 + m"
    using unat_f16_fields[OF assms(1-3)] bound3[OF assms(1-3)]  by (simp add: b_def unsigned_ucast_eq take_bit_eq_mod)
  note s = digits16[OF assms(3,2)]
  have "b AND 0x8000 = w32 (s * 32768)"
    using assms(1) by (intro w32_eqI) (simp add: unat_bits b nat_masks s)
  moreover have "push_bit 16 (w32 (s * 32768)) = w32 (s * 2147483648)"
    using assms(1) by (intro w32_eqI) (simp add: unat_bits unat_w32)
  ultimately show "push_bit 16 (b AND 0x8000) = w32 (s * 2147483648)" by simp
  show "drop_bit 10 b AND 0x1f = w32 e"
    by (intro w32_eqI) (simp add: unat_bits b nat_masks s)
  show "b AND 0x03ff = w32 m"
    by (intro w32_eqI) (simp add: unat_bits b nat_masks s)
qed

lemma float_extract:
  assumes "s < 2" and "e < 256" and "m < 8388608"
  shows "drop_bit 16 (f32_fields s e m) AND 0x8000 = w32 (s * 32768)"
    and "drop_bit 23 (f32_fields s e m) AND 0xff = w32 e"
    and "f32_fields s e m AND 0x007fffff = w32 m"
proof -
  note b = unat_f32_fields[OF assms]
  note s = digits32[OF assms(3,2)]
  have "(s * 2147483648 + e * 8388608 + m) div 65536 div 32768 mod 2 = s"
    using s(1)[of s] assms(1) by (simp add: div_mult2_eq[symmetric])
  then show "drop_bit 16 (f32_fields s e m) AND 0x8000 = w32 (s * 32768)"
    by (intro w32_eqI) (simp add: unat_bits b nat_masks)
  show "drop_bit 23 (f32_fields s e m) AND 0xff = w32 e"
    by (intro w32_eqI) (simp add: unat_bits b nat_masks s)
  show "f32_fields s e m AND 0x007fffff = w32 m"
    by (intro w32_eqI) (simp add: unat_bits b nat_masks s)
qed

lemma f32_or_fields:
  assumes "s < 2" and "e < 256" and "m < 8388608"
  shows "w32 (s * 2147483648) OR w32 (e * 8388608) OR w32 m = f32_fields s e m"
  unfolding f32_fields_def
  using assms by (intro w32_eqI) (simp add: unsigned_or_eq unat_w32 or3)

lemma f16_or_fields:
  assumes "s < 2" and "e < 32" and "m < 1024"
  shows "ucast (w32 (s * 32768) OR w32 (e * 1024) OR w32 m) = f16_fields s e m"
proof -
  have "w32 (s * 32768) OR w32 (e * 1024) OR w32 m = w32 (s * 32768 + e * 1024 + m)"
    using assms by (intro w32_eqI) (simp add: unsigned_or_eq unat_w32 or3_half)
  then show ?thesis by (simp add: f16_fields_def)
qed

section \<open>From half to single precision\<close>

lemma w32_add: "w32 a + w32 b = w32 (a + b)"
  by (simp add: w32_def)

lemma w32_eq_0: "n < 4294967296 \<Longrightarrow> w32 n = 0 \<longleftrightarrow> n = 0"
  using unat_w32[of n] by (auto simp: w32_def)

lemma w32_numeral: "numeral n = w32 (numeral n)" "0 = w32 0" "1 = w32 1"
  by (simp_all add: w32_def)

lemma w32_push: "n * 2 ^ k < 4294967296 \<Longrightarrow> push_bit k (w32 n) = w32 (n * 2 ^ k)"
proof (rule w32_eqI)
  assume n: "n * 2 ^ k < 4294967296"
  have "n * 1 \<le> n * 2 ^ k" by (rule mult_left_mono) simp_all
  then have "unat (w32 n) = n" using n by (intro unat_w32) linarith
  then show "unat (push_bit k (w32 n)) = n * 2 ^ k" using n by (simp add: unat_bits)
qed

lemma w32_drop: "n < 4294967296 \<Longrightarrow> drop_bit k (w32 n) = w32 (n div 2 ^ k)"
  by (rule w32_eqI) (simp add: unat_bits unat_w32)

lemma w32_test: "n < 2 ^ Suc k \<Longrightarrow> k < 32 \<Longrightarrow> w32 n AND w32 (2 ^ k) = 0 \<longleftrightarrow> n < 2 ^ k"
proof -
  assume n: "n < 2 ^ Suc k" "k < 32"
  have "(2::nat) ^ k < 2 ^ 32" "(2::nat) ^ Suc k \<le> 2 ^ 32" using n(2) by (intro power_strict_increasing power_increasing; simp)+
  then have "unat (w32 n AND w32 (2 ^ k)) = (n div 2 ^ k mod 2) * 2 ^ k"
    using n by (simp add: unsigned_and_eq unat_w32 nat_and_exp)
  moreover have "n div 2 ^ k = (if n < 2 ^ k then 0 else 1)"
    using n by (auto intro: div_nat_eqI)
  ultimately show ?thesis by (auto simp: unat_eq_0[symmetric] split: if_splits)
qed

lemma half_normalize_steps:
  "n < 2 ^ (11 - d) \<Longrightarrow> 2 ^ (10 - d) \<le> n \<Longrightarrow> d \<le> 10 \<Longrightarrow>
   half_normalize (w32 n, e) = Some (w32 (n * 2 ^ d), e - of_nat d)"
proof (induction d arbitrary: n e)
  case 0
  then have "w32 n AND 0x400 \<noteq> 0" using w32_test[of n 10] by (simp add: w32_numeral)
  then show ?case by (simp add: half_normalize_def while_option_unfold)
next
  case (Suc d)
  have n: "n < 2 ^ (10 - d)" "2 ^ (9 - d) \<le> n" "d < 10" using Suc.prems by (simp_all add: numeral_eq_Suc)
  have "(2::nat) ^ (10 - d) \<le> 2 ^ 10" by (rule power_increasing) simp_all
  then have n1024: "n < 1024" using n(1) by simp
  then have test: "w32 n AND 0x400 = 0" using w32_test[of n 10] by (simp add: w32_numeral)
  have "push_bit 1 (w32 n) = w32 (n * 2)" using w32_push[of n 1] n1024 by simp
  moreover have "11 - d = Suc (10 - d)" "10 - d = Suc (9 - d)" using n(3) by simp_all
  then have "half_normalize (w32 (n * 2), e - 1) = Some (w32 (n * 2 * 2 ^ d), e - 1 - of_nat d)"
    using n by (intro Suc.IH) simp_all
  ultimately show ?case
    using test by (subst half_normalize_def, subst while_option_unfold) (simp add: half_normalize_def diff_diff_eq2 mult.assoc algebra_simps)
qed

lemma half_extract':
  assumes "s < 2" and "e < 32" and "m < 1024"
  shows "HalfToFloat (f16_fields s e m) =
    (let sign = w32 (s * 2147483648) in
      if e = 0 then
        (if m = 0 then Some sign
         else map_option (\<lambda>(mantissa, exp). sign OR push_bit 23 (exp + (127 - 15)) OR push_bit 13 (mantissa AND 0x03ff))
                (half_normalize (w32 m, 1)))
      else if e = 31 then Some (sign OR 0x7f800000 OR push_bit 13 (w32 m))
      else Some (sign OR push_bit 23 (w32 e + (127 - 15)) OR push_bit 13 (w32 m)))"
proof -
  have "w32 e = 0x1f \<longleftrightarrow> e = 31" using unat_w32[of e] unat_w32[of 31] assms(2) by (auto simp: w32_numeral)
  then show ?thesis unfolding HalfToFloat_def Let_def half_extract[OF assms] using assms by (simp add: w32_eq_0)
qed

lemma HalfToFloat_zero: "s < 2 \<Longrightarrow> HalfToFloat (f16_fields s 0 0) = Some (f32_fields s 0 0)"
  by (simp add: half_extract' f32_fields_def)

lemma HalfToFloat_normal:
  assumes "s < 2" and "0 < e" and "e < 31" and "m < 1024"
  shows "HalfToFloat (f16_fields s e m) = Some (f32_fields s (e + 112) (m * 8192))"
proof -
  have "push_bit 23 (w32 e + (127 - 15)) = w32 ((e + 112) * 8388608)" "push_bit 13 (w32 m) = w32 (m * 8192)"
  proof -
    have "w32 e + (127 - 15) = w32 (e + 112)" by (simp add: w32_def)
    then show "push_bit 23 (w32 e + (127 - 15)) = w32 ((e + 112) * 8388608)" using assms w32_push[of "e + 112" 23] by simp
    show "push_bit 13 (w32 m) = w32 (m * 8192)" using assms w32_push[of m 13] by simp
  qed
  then show ?thesis using assms f32_or_fields[of s "e + 112" "m * 8192"] by (simp add: half_extract' Let_def)
qed

lemma HalfToFloat_special:
  assumes "s < 2" and "m < 1024"
  shows "HalfToFloat (f16_fields s 31 m) = Some (f32_fields s 255 (m * 8192))"
proof -
  have "push_bit 13 (w32 m) = w32 (m * 8192)" using assms w32_push[of m 13] by simp
  then show ?thesis using assms f32_or_fields[of s 255 "m * 8192"] by (simp add: half_extract' Let_def w32_numeral)
qed

lemma HalfToFloat_subnormal:
  assumes "s < 2" and d: "2 ^ (10 - d) \<le> m" "m < 2 ^ (11 - d)" "0 < d" "d \<le> 10"
  shows "HalfToFloat (f16_fields s 0 m) = Some (f32_fields s (113 - d) ((m * 2 ^ d - 1024) * 8192))"
proof -
  have "(2::nat) ^ (11 - d) \<le> 2 ^ 10" using d(3) by (intro power_increasing) auto
  moreover have "(0::nat) < 2 ^ (10 - d)" by simp
  ultimately have "m < 2 ^ 10" "m \<noteq> 0" using d by linarith+
  then have m: "m < 1024" "m \<noteq> 0" by simp_all
  have "m * 2 ^ d < 2 ^ (11 - d) * 2 ^ d" "2 ^ (10 - d) * 2 ^ d \<le> m * 2 ^ d" using d by simp_all
  then have md: "m * 2 ^ d < 2048" "1024 \<le> m * 2 ^ d" using d(4) by (simp_all flip: power_add)
  have norm: "half_normalize (w32 m, 1) = Some (w32 (m * 2 ^ d), 1 - of_nat d)"
    using d by (intro half_normalize_steps) auto
  have "w32 (m * 2 ^ d) AND 0x3ff = w32 (m * 2 ^ d - 1024)"
    using md by (intro w32_eqI) (simp add: unat_bits unat_w32 nat_masks mod_if)
  moreover have "(1 - of_nat d + (127 - 15) :: 32 word) = w32 (113 - d)"
    using d(4) by (simp add: w32_def of_nat_diff)
  ultimately have "HalfToFloat (f16_fields s 0 m) =
      Some (w32 (s * 2147483648) OR push_bit 23 (w32 (113 - d)) OR push_bit 13 (w32 (m * 2 ^ d - 1024)))"
    using assms(1) m by (simp add: half_extract' norm del: push_bit_and)
  also have "push_bit 23 (w32 (113 - d)) = w32 ((113 - d) * 8388608)" using w32_push[of "113 - d" 23] by simp
  also have "push_bit 13 (w32 (m * 2 ^ d - 1024)) = w32 ((m * 2 ^ d - 1024) * 8192)"
    using w32_push[of "m * 2 ^ d - 1024" 13] md by simp
  finally show ?thesis using f32_or_fields[of s "113 - d" "(m * 2 ^ d - 1024) * 8192"] assms(1) md by simp
qed

section \<open>From single to half precision\<close>

lemma FloatToHalf_fields:
  assumes "s < 2" and "x < 256" and "y < 8388608"
  shows "FloatToHalf (f32_fields s x y) =
    (let sign = w32 (s * 32768) in
      if x = 255 then
        (if y = 0 then ucast (sign OR 0x7c00) else ucast (sign OR 0x7c00 OR drop_bit 13 (w32 y) OR 1))
      else
        (let unbiased_exp = int x - 127 in
         if 15 < unbiased_exp then ucast (sign OR 0x7c00)
         else if unbiased_exp < -14 then
           (if unbiased_exp < -24 then ucast sign
            else (let subnormal = w32 y OR 0x00800000; shift = nat (- unbiased_exp - 14);
                      rounded = subnormal + push_bit (shift + 12) 1
                  in ucast (sign OR drop_bit (shift + 13) rounded)))
         else
           (let rounded_mantissa = w32 y + 0x00001000; half_exp = word_of_int (unbiased_exp + 15) :: 16 word in
            if rounded_mantissa AND 0x00800000 \<noteq> 0 then
              (if 0x1f \<le> half_exp + 1 then ucast (sign OR 0x7c00)
               else ucast (sign OR push_bit 10 (ucast (half_exp + 1)) OR drop_bit 13 0))
            else ucast (sign OR push_bit 10 (ucast half_exp) OR drop_bit 13 rounded_mantissa))))"
proof -
  have "w32 x = 0xff \<longleftrightarrow> x = 255" using unat_w32[of x] unat_w32[of 255] assms(2) by (auto simp: w32_numeral)
  then show ?thesis unfolding FloatToHalf_def Let_def float_extract[OF assms]
    using assms by (simp add: w32_eq_0 unat_w32)
qed

lemma FloatToHalf_normal:
  assumes "s < 2" and "0 < e" and "e < 31" and "m < 1024"
  shows "FloatToHalf (f32_fields s (e + 112) (m * 8192)) = f16_fields s e m"
proof -
  have r: "w32 (m * 8192) + 0x1000 = w32 (m * 8192 + 4096)" by (simp add: w32_def)
  have "w32 (m * 8192 + 4096) AND 0x00800000 = 0" using w32_test[of "m * 8192 + 4096" 23] assms by (simp add: w32_numeral)
  moreover have "drop_bit 13 (w32 (m * 8192 + 4096)) = w32 m" using w32_drop[of "m * 8192 + 4096" 13] assms(4) by simp
  moreover have "push_bit 10 (ucast (word_of_int (int e) :: 16 word)) = w32 (e * 1024)"
  proof -
    have "ucast (word_of_int (int e) :: 16 word) = w32 e"
      using assms by (intro w32_eqI) (simp add: unsigned_ucast_eq unsigned_of_nat take_bit_eq_mod)
    then show ?thesis using w32_push[of e 10] assms by simp
  qed
  moreover have "int (e + 112) - 127 + 15 = int e" by simp
  ultimately show ?thesis
    using assms f16_or_fields[of s e m] by (simp add: FloatToHalf_fields Let_def r)
qed

lemma FloatToHalf_zero: "s < 2 \<Longrightarrow> FloatToHalf (f32_fields s 0 0) = f16_fields s 0 0"
  by (simp add: FloatToHalf_fields Let_def f16_fields_def)

lemma FloatToHalf_special:
  assumes "s < 2" and "m < 1024"
  shows "FloatToHalf (f32_fields s 255 (m * 8192)) = (if m = 0 then f16_fields s 31 0 else f16_fields s 31 m OR 1)"
proof -
  have "drop_bit 13 (w32 (m * 8192)) = w32 m" using w32_drop[of "m * 8192" 13] assms(2) by simp
  moreover have "ucast (w32 (s * 32768) OR 0x7c00 OR w32 m OR 1) = (f16_fields s 31 m OR 1)"
  proof -
    have "w32 (s * 32768) OR 0x7c00 OR w32 m OR 1 = (w32 (s * 32768) OR w32 (31 * 1024) OR w32 m) OR 1"
      by (simp add: w32_numeral or.assoc)
    also have "ucast \<dots> = (ucast (w32 (s * 32768) OR w32 (31 * 1024) OR w32 m) :: 16 word) OR 1"
      by (simp add: unsigned_or_eq)
    finally show ?thesis using f16_or_fields[of s 31 m] assms by simp
  qed
  moreover have "ucast (w32 (s * 32768) OR 0x7c00) = f16_fields s 31 0"
    using f16_or_fields[of s 31 0] assms by (simp add: w32_numeral(1) flip: w32_numeral(2))
  ultimately show ?thesis using assms by (simp add: FloatToHalf_fields Let_def)
qed

lemma FloatToHalf_subnormal:
  assumes "s < 2" and d: "2 ^ (10 - d) \<le> m" "m < 2 ^ (11 - d)" "0 < d" "d \<le> 10"
  shows "FloatToHalf (f32_fields s (113 - d) ((m * 2 ^ d - 1024) * 8192)) = f16_fields s 0 m"
proof -
  let ?y = "(m * 2 ^ d - 1024) * 8192"
  have "(2::nat) ^ (11 - d) \<le> 2 ^ 10" using d(3) by (intro power_increasing) auto
  then have m: "m < 1024" using d(2) by simp
  have "m * 2 ^ d < 2 ^ (11 - d) * 2 ^ d" "2 ^ (10 - d) * 2 ^ d \<le> m * 2 ^ d" using d by simp_all
  then have md: "m * 2 ^ d < 2048" "1024 \<le> m * 2 ^ d" using d(4) by (simp_all flip: power_add)
  have y: "?y < 8388608" "?y + 8388608 = m * 2 ^ (d + 13)" using md by (simp_all add: diff_mult_distrib power_add)
  have "w32 ?y OR 0x00800000 = w32 (m * 2 ^ (d + 13))"
  proof (rule w32_eqI)
    have "unat (w32 ?y OR w32 8388608) = 1 * 2 ^ 23 OR ?y"
      using y(1) by (simp add: unsigned_or_eq unat_w32 or.commute)
    also have "\<dots> = m * 2 ^ (d + 13)" using nat_or_add[of ?y 23 1] y by simp
    finally show "unat (w32 ?y OR 0x00800000) = m * 2 ^ (d + 13)" by (simp add: w32_numeral)
  qed
  moreover have p: "(2::nat) ^ (d + 12) < 2 ^ 23" using d(4) by (intro power_strict_increasing) auto
  have "push_bit (d + 12) (1 :: 32 word) = w32 (2 ^ (d + 12))"
    using w32_push[of 1 "d + 12"] p by (simp add: w32_numeral)
  moreover have "w32 (m * 2 ^ (d + 13)) + w32 (2 ^ (d + 12)) = w32 (m * 2 ^ (d + 13) + 2 ^ (d + 12))" by (simp add: w32_add)
  moreover have "drop_bit (d + 13) (w32 (m * 2 ^ (d + 13) + 2 ^ (d + 12))) = w32 m"
  proof -
    have "m * 2 ^ (d + 13) + 2 ^ (d + 12) < 4294967296" using y p by simp
    moreover have "(m * 2 ^ (d + 13) + 2 ^ (d + 12)) div 2 ^ (d + 13) = m"
      by (intro div_nat_eqI) (simp_all add: power_add)
    ultimately show ?thesis using w32_drop by simp
  qed
  moreover have "nat (- (int (113 - d) - 127) - 14) = d" "int (113 - d) - 127 < - 14" "\<not> int (113 - d) - 127 < - 24"
    "\<not> 15 < int (113 - d) - 127" "113 - d \<noteq> 255" using d(3,4) by auto
  ultimately have "FloatToHalf (f32_fields s (113 - d) ?y) = ucast (w32 (s * 32768) OR w32 m)"
    using assms(1) y(1) d(4) by (simp add: FloatToHalf_fields Let_def)
  then show ?thesis using f16_or_fields[of s 0 m] assms(1) m by (simp add: w32_numeral(2)[symmetric])
qed

text \<open>The position of the leading bit of a subnormal significand.\<close>

lemma leading_bit:
  fixes m :: nat
  assumes "m < 1024" and "m \<noteq> 0"
  obtains d where "2 ^ (10 - d) \<le> m" "m < 2 ^ (11 - d)" "0 < d" "d \<le> (10::nat)"
proof -
  obtain k where k: "2 ^ k \<le> m" "m < 2 ^ (k + 1)" using ex_power_ivl1[of 2 m] assms(2) by (auto simp: Suc_le_eq)
  moreover have "(1024::nat) = 2 ^ 10" by simp
  ultimately have "2 ^ k < (2::nat) ^ 10" using assms(1) by linarith
  then have "k < 10" using power_strict_increasing_iff[of "2::nat" k 10] by simp
  then have "10 - (10 - k) = k" "11 - (10 - k) = k + 1" "0 < 10 - k" "10 - k \<le> 10" by simp_all
  then show ?thesis using that[of "10 - k"] k by (simp only:)
qed

lemma half_roundtrip:
  assumes "s < 2" and "e < 32" and "m < 1024"
  shows "\<exists>f. HalfToFloat (f16_fields s e m) = Some f \<and>
    FloatToHalf f = (if e = 31 \<and> m \<noteq> 0 then f16_fields s e m OR 1 else f16_fields s e m)"
proof -
  consider "e = 0" "m = 0" | "e = 0" "m \<noteq> 0" | "0 < e" "e < 31" | "e = 31" using assms(2) by linarith
  then show ?thesis
  proof cases
    case 1 then show ?thesis using HalfToFloat_zero FloatToHalf_zero assms(1) by auto
  next
    case 2
    obtain d where "2 ^ (10 - d) \<le> m" "m < 2 ^ (11 - d)" "0 < d" "d \<le> 10" using leading_bit[OF assms(3) 2(2)] .
    then show ?thesis using HalfToFloat_subnormal FloatToHalf_subnormal assms(1) 2(1) by auto
  next
    case 3 then show ?thesis using HalfToFloat_normal FloatToHalf_normal assms by auto
  next
    case 4 then show ?thesis using HalfToFloat_special FloatToHalf_special assms by auto
  qed
qed

section \<open>Brain float: the round trip\<close>

lemma f32_fields_exist: "\<exists>s e m. s < 2 \<and> e < 256 \<and> m < 8388608 \<and> f = f32_fields s e m"
proof (intro exI conjI)
  let ?n = "unat f"
  have n: "?n < 4294967296" using unsigned_less[of f] by simp
  show "?n div 2147483648 < 2" "?n div 8388608 mod 256 < 256" "?n mod 8388608 < 8388608" using n by auto
  have "?n = ?n div 8388608 * 8388608 + ?n mod 8388608" by simp
  also have "?n div 8388608 = ?n div 8388608 div 256 * 256 + ?n div 8388608 mod 256" by simp
  finally have eq: "?n div 2147483648 * 2147483648 + ?n div 8388608 mod 256 * 8388608 + ?n mod 8388608 = ?n"
    by (simp add: div_mult2_eq[symmetric] add_mult_distrib)
  show "f = f32_fields (?n div 2147483648) (?n div 8388608 mod 256) (?n mod 8388608)"
    unfolding f32_fields_def eq by (rule w32_eqI) simp
qed

lemma exponent_bits: "f AND 0x7f800000 = 0x7f800000 \<longleftrightarrow> drop_bit 23 f AND 0xff = 0xff" for f :: f32
proof -
  have m: "(0xff :: 32 word) = mask 8" "(0x7f800000 :: 32 word) = push_bit 23 (mask 8)"
    by (simp_all add: mask_eq_exp_minus_1)
  have "f AND push_bit 23 (mask 8) = push_bit 23 (drop_bit 23 f AND mask 8)"
    by (rule bit_eqI) (auto simp: bit_simps)
  moreover have "push_bit 23 (x AND mask 8) = push_bit 23 (mask 8) \<longleftrightarrow> x AND mask 8 = mask 8" for x :: f32
  proof
    assume eq: "push_bit 23 (x AND mask 8) = push_bit 23 (mask 8)"
    show "x AND mask 8 = mask 8"
    proof (rule bit_eqI)
      fix i assume "possible_bit TYPE(32 word) i"
      show "bit (x AND mask 8) i = bit (mask 8 :: 32 word) i"
        using arg_cong[OF eq, of "\<lambda>w. bit w (i + 23)"] by (auto simp: bit_simps)
    qed
  qed simp
  ultimately show ?thesis unfolding m by simp
qed

lemma nan_test: "f AND 0x7f800000 = 0x7f800000 \<and> f AND 0x007fffff \<noteq> 0 \<longleftrightarrow> f32_is_nan f"
proof -
  obtain s e m where f: "s < 2" "e < 256" "m < 8388608" "f = f32_fields s e m" using f32_fields_exist by blast
  have "w32 e = 0xff \<longleftrightarrow> e = 255" using unat_w32[of e] unat_w32[of 255] f(2) by (auto simp: w32_numeral)
  then show ?thesis unfolding exponent_bits f32_is_nan_def f32_exponent_def f32_mantissa_def f(4) float_extract[OF f(1-3)]
    using unat_f32_fields[OF f(1-3)] digits32[OF f(3,2)] f(3) by (simp add: w32_eq_0)
qed

lemma bf16_roundtrip:
  "FloatToBFloat16 (BFloat16ToFloat bits) = (if f32_is_nan (BFloat16ToFloat bits) then bits OR 0x0040 else bits)"
proof -
  let ?b = "unat bits" and ?f = "BFloat16ToFloat bits"
  have b: "?b < 65536" using unsigned_less[of bits] by simp
  have f: "unat ?f = ?b * 65536" using b by (simp add: BFloat16ToFloat_def unat_bits)
  have high: "drop_bit 16 ?f = w32 ?b" using f by (intro w32_eqI) (simp add: unat_bits)
  have whole: "ucast (w32 ?b) = bits"
  proof (rule unsigned_word_eqI)
    show "unat (ucast (w32 ?b) :: 16 word) = ?b" using b by (simp add: unsigned_ucast_eq unat_w32 take_bit_eq_mod)
  qed
  show ?thesis
  proof (cases "f32_is_nan ?f")
    case True
    then show ?thesis using nan_test[of ?f] whole by (simp add: FloatToBFloat16_def Let_def high unsigned_or_eq)
  next
    case False
    define r where "r = ?b mod 2"
    have "w32 ?b AND 1 = w32 r" using b nat_and_mask[of ?b 1] by (intro w32_eqI) (simp add: unat_bits unat_w32 r_def)
    then have bias: "0x7fff + (drop_bit 16 ?f AND 1) = w32 (32767 + r)" by (simp add: high w32_def)
    have "?f + (0x7fff + (drop_bit 16 ?f AND 1)) = w32 (?b * 65536 + (32767 + r))"
      unfolding bias w32_add[symmetric] using w32_eqI[OF f] by simp
    moreover have "r < 2" by (simp add: r_def)
    then have "(?b * 65536 + (32767 + r)) div 65536 = ?b" "?b * 65536 + (32767 + r) < 4294967296" using b by simp_all
    ultimately have "drop_bit 16 (?f + (0x7fff + (drop_bit 16 ?f AND 1))) = w32 ?b" using w32_drop by simp
    then show ?thesis using False nan_test[of ?f] whole unfolding FloatToBFloat16_def Let_def by metis
  qed
qed

section \<open>The formats as element access\<close>

definition half_is_nan :: "16 word \<Rightarrow> bool" where
  "half_is_nan bits \<longleftrightarrow> drop_bit 10 (ucast bits :: 32 word) AND 0x1f = 0x1f \<and> (ucast bits :: 32 word) AND 0x03ff \<noteq> 0"

lemma half_roundtrip_bits:
  "\<exists>f. HalfToFloat bits = Some f \<and> FloatToHalf f = (if half_is_nan bits then bits OR 1 else bits)"
proof -
  obtain s e m where f: "s < 2" "e < 32" "m < 1024" "bits = f16_fields s e m" using f16_fields_exist by blast
  have "w32 e = 0x1f \<longleftrightarrow> e = 31" using unat_w32[of e] unat_w32[of 31] f(2) by (auto simp: w32_numeral)
  then have nan: "half_is_nan (f16_fields s e m) \<longleftrightarrow> e = 31 \<and> m \<noteq> 0"
    unfolding half_is_nan_def half_extract[OF f(1-3)] using f(3) by (simp add: w32_eq_0)
  show ?thesis unfolding f(4) nan by (rule half_roundtrip[OF f(1-3)])
qed

interpretation fp32: exact_io "\<lambda>bits :: f32. bits" "\<lambda>value. value" "\<lambda>_. True"
  by unfold_locales simp

interpretation fp16: exact_io HalfToFloat "\<lambda>value. FloatToHalf (the value)" "\<lambda>bits. \<not> half_is_nan bits"
proof unfold_locales
  fix bits assume "\<not> half_is_nan bits"
  then show "FloatToHalf (the (HalfToFloat bits)) = bits" using half_roundtrip_bits[of bits] by auto
qed

interpretation bf16: exact_io BFloat16ToFloat FloatToBFloat16 "\<lambda>bits. \<not> f32_is_nan (BFloat16ToFloat bits)"
  by unfold_locales (simp add: bf16_roundtrip)

section \<open>Properties\<close>

text \<open>
  C26: The 16-bit float formats round trip.  Widening a half-precision pattern always ends (the loop
  that normalizes a subnormal stops), and narrowing the result gives the same bits, for both formats
  and every pattern, subnormals, zeros and infinities included; of a NaN it also sets one bit of the
  payload, so it stays a NaN.
\<close>

theorem float16_roundtrip:
  "(\<exists>f. HalfToFloat bits = Some f \<and> FloatToHalf f = (if half_is_nan bits then bits OR 1 else bits)) \<and>
   FloatToBFloat16 (BFloat16ToFloat bits) = (if f32_is_nan (BFloat16ToFloat bits) then bits OR 0x0040 else bits)"
  using half_roundtrip_bits bf16_roundtrip by blast

end
