(* ===== verification/Device_Replica.thy ===== *)
theory Device_Replica
  imports Prelude
begin

text \<open>
  The replica index of \<open>include/core/device_replica.h\<close>: a backend keeps one state (a device
  copy) for each byte range of a storage that some tensor handle uses.  Four tables are kept in
  step: the states by view, the views of a storage, the view of a handle and the handles of a
  view.  A \<open>std::unordered_map\<close> is a map, an \<open>unordered_set\<close> a set, and an access that throws or
  dereferences \<open>end()\<close> is \<open>None\<close>.  The callback \<open>on_orphan\<close> is the list of states it is called on.
  The second half states what the index promises, as a machine over two maps only, and shows that
  the four tables implement it, through a locale for refinement of machines.
\<close>

section \<open>Views\<close>

record DeviceViewIdentity =
  v_storage :: nat
  v_offset :: nat
  v_bytes :: nat

definition ViewOverlaps :: "DeviceViewIdentity \<Rightarrow> DeviceViewIdentity \<Rightarrow> bool" where
  "ViewOverlaps v w \<longleftrightarrow> v_storage v = v_storage w \<and> v_bytes v \<noteq> 0 \<and> v_bytes w \<noteq> 0 \<and>
     (if v_offset v \<le> v_offset w then v_offset w - v_offset v < v_bytes v
      else v_offset v - v_offset w < v_bytes w)"

definition ViewContains :: "DeviceViewIdentity \<Rightarrow> DeviceViewIdentity \<Rightarrow> bool" where
  "ViewContains v w \<longleftrightarrow> v_storage v = v_storage w \<and> v_offset v \<le> v_offset w \<and>
     v_offset w - v_offset v \<le> v_bytes v \<and> v_bytes w \<le> v_bytes v - (v_offset w - v_offset v)"

definition view_range :: "DeviceViewIdentity \<Rightarrow> nat set" where
  "view_range v = {v_offset v ..< v_offset v + v_bytes v}"

lemma ViewOverlaps_exact:
  "ViewOverlaps v w \<longleftrightarrow> v_storage v = v_storage w \<and> view_range v \<inter> view_range w \<noteq> {}"
proof -
  have "view_range v \<inter> view_range w =
      {max (v_offset v) (v_offset w) ..< min (v_offset v + v_bytes v) (v_offset w + v_bytes w)}"
    by (auto simp: view_range_def)
  then show ?thesis by (auto simp: ViewOverlaps_def)
qed

lemma ViewContains_range: "ViewContains v w \<Longrightarrow> view_range w \<subseteq> view_range v"
  by (auto simp: ViewContains_def view_range_def)

lemma ViewContains_exact:
  "v_bytes w \<noteq> 0 \<Longrightarrow>
     ViewContains v w \<longleftrightarrow> v_storage v = v_storage w \<and> view_range w \<subseteq> view_range v"
  by (auto simp: ViewContains_def view_range_def atLeastLessThan_subset_iff)

section \<open>The index\<close>

record 'st DeviceReplicaIndex =
  replicas :: "DeviceViewIdentity \<rightharpoonup> 'st"
  storage_views :: "nat \<rightharpoonup> DeviceViewIdentity set"
  handles :: "nat \<rightharpoonup> DeviceViewIdentity"
  view_handles :: "DeviceViewIdentity \<rightharpoonup> nat set"

definition empty_index :: "'st DeviceReplicaIndex" where
  "empty_index = \<lparr>replicas = Map.empty, storage_views = Map.empty, handles = Map.empty,
     view_handles = Map.empty\<rparr>"

text \<open>\<open>operator[]\<close> of a table of sets creates the empty set.\<close>

definition set_at :: "('k \<rightharpoonup> 'v set) \<Rightarrow> 'k \<Rightarrow> 'v set" where
  "set_at m k = (case m k of None \<Rightarrow> {} | Some s \<Rightarrow> s)"

definition drop_view :: "DeviceViewIdentity \<Rightarrow> 'st DeviceReplicaIndex \<Rightarrow>
    ('st DeviceReplicaIndex \<times> 'st list) option" where
  "drop_view view ix =
     (case replicas ix view of None \<Rightarrow> None
      | Some state \<Rightarrow>
          (let ix1 = ix\<lparr>replicas := (replicas ix)(view := None),
                        view_handles := (view_handles ix)(view := None)\<rparr>
           in case storage_views ix1 (v_storage view) of None \<Rightarrow> None
              | Some views \<Rightarrow>
                  (let aliases = views - {view}
                   in Some (ix1\<lparr>storage_views := (storage_views ix1)
                              (v_storage view := (if aliases = {} then None else Some aliases))\<rparr>,
                            [state]))))"

definition EraseHandle :: "nat \<Rightarrow> 'st DeviceReplicaIndex \<Rightarrow>
    ('st DeviceReplicaIndex \<times> 'st list) option" where
  "EraseHandle handle ix =
     (case handles ix handle of None \<Rightarrow> Some (ix, [])
      | Some view \<Rightarrow>
          (case view_handles ix view of None \<Rightarrow> None
           | Some old \<Rightarrow>
               (let users = old - {handle};
                    ix1 = ix\<lparr>view_handles := (view_handles ix)(view \<mapsto> users),
                             handles := (handles ix)(handle := None)\<rparr>
                in if users \<noteq> {} then Some (ix1, []) else drop_view view ix1)))"

text \<open>
  \<open>Bind\<close> returns a reference to the state of the view: the entry \<open>replicas\<close> holds for it.  A new
  entry has the default state, the argument \<open>init\<close>.
\<close>

definition Bind :: "'st \<Rightarrow> nat \<Rightarrow> DeviceViewIdentity \<Rightarrow> 'st DeviceReplicaIndex \<Rightarrow>
    ('st DeviceReplicaIndex \<times> 'st list) option" where
  "Bind init handle view ix =
     (let erased = (case handles ix handle of None \<Rightarrow> Some (ix, [])
                    | Some previous \<Rightarrow>
                        if previous \<noteq> view then EraseHandle handle ix else Some (ix, []))
      in case erased of None \<Rightarrow> None
         | Some (ix1, orphans) \<Rightarrow>
             (let sid = v_storage view;
                  ix2 = (if replicas ix1 view = None
                         then ix1\<lparr>replicas := (replicas ix1)(view \<mapsto> init),
                                  storage_views := (storage_views ix1)
                                    (sid \<mapsto> insert view (set_at (storage_views ix1) sid))\<rparr>
                         else ix1)
              in Some (ix2\<lparr>handles := (handles ix2)(handle \<mapsto> view),
                           view_handles := (view_handles ix2)
                             (view \<mapsto> insert handle (set_at (view_handles ix2) view))\<rparr>,
                       orphans)))"

definition find_view :: "DeviceViewIdentity \<Rightarrow> 'st DeviceReplicaIndex \<Rightarrow> 'st option" where
  "find_view view ix = replicas ix view"

definition FindHandle :: "nat \<Rightarrow> 'st DeviceReplicaIndex \<Rightarrow> 'st option" where
  "FindHandle handle ix = (case handles ix handle of None \<Rightarrow> None | Some view \<Rightarrow> find_view view ix)"

definition StorageViews :: "nat \<Rightarrow> 'st DeviceReplicaIndex \<Rightarrow> DeviceViewIdentity set" where
  "StorageViews sid ix = (case storage_views ix sid of None \<Rightarrow> {} | Some views \<Rightarrow> views)"

definition Handles :: "DeviceViewIdentity \<Rightarrow> 'st DeviceReplicaIndex \<Rightarrow> nat set option" where
  "Handles view ix = view_handles ix view"

definition clear_index :: "'st DeviceReplicaIndex \<Rightarrow> 'st DeviceReplicaIndex" where
  "clear_index ix = ix\<lparr>replicas := Map.empty, storage_views := Map.empty, handles := Map.empty,
     view_handles := Map.empty\<rparr>"

definition swap_index :: "'st DeviceReplicaIndex \<Rightarrow> 'st DeviceReplicaIndex \<Rightarrow>
    'st DeviceReplicaIndex \<times> 'st DeviceReplicaIndex" where
  "swap_index ix other = (other, ix)"

text \<open>A client writes a state through the iterator or the reference it was given.\<close>

definition store_state :: "DeviceViewIdentity \<Rightarrow> 'st \<Rightarrow> 'st DeviceReplicaIndex \<Rightarrow>
    'st DeviceReplicaIndex" where
  "store_state view state ix =
     (if replicas ix view = None then ix else ix\<lparr>replicas := (replicas ix)(view \<mapsto> state)\<rparr>)"

section \<open>Refinement of machines\<close>

text \<open>A machine whose steps may fail, against a total specification with the same outputs.\<close>

fun run_machine :: "('op \<Rightarrow> 'c \<Rightarrow> ('c \<times> 'out) option) \<Rightarrow> 'op list \<Rightarrow> 'c \<Rightarrow> ('c \<times> 'out list) option" where
  "run_machine step [] c = Some (c, [])"
| "run_machine step (a # ops) c =
     (case step a c of None \<Rightarrow> None
      | Some (c', out) \<Rightarrow>
          map_option (\<lambda>(c'', outs). (c'', out # outs)) (run_machine step ops c'))"

fun run_spec :: "('op \<Rightarrow> 'a \<Rightarrow> 'a \<times> 'out) \<Rightarrow> 'op list \<Rightarrow> 'a \<Rightarrow> 'a \<times> 'out list" where
  "run_spec step [] s = (s, [])"
| "run_spec step (a # ops) s =
     (let (s', out) = step a s; (s'', outs) = run_spec step ops s' in (s'', out # outs))"

locale machine_refinement =
  fixes concrete :: "'op \<Rightarrow> 'c \<Rightarrow> ('c \<times> 'out) option"
    and spec :: "'op \<Rightarrow> 'a \<Rightarrow> 'a \<times> 'out"
    and abstraction :: "'c \<Rightarrow> 'a"
    and invariant :: "'c \<Rightarrow> bool"
  assumes step_refines: "invariant c \<Longrightarrow>
    \<exists>c' out. concrete a c = Some (c', out) \<and> invariant c' \<and> spec a (abstraction c) = (abstraction c', out)"
begin

lemma run_refines:
  "invariant c \<Longrightarrow> \<exists>c' outs. run_machine concrete ops c = Some (c', outs) \<and> invariant c' \<and>
     run_spec spec ops (abstraction c) = (abstraction c', outs)"
proof (induction ops arbitrary: c)
  case Nil
  then show ?case by simp
next
  case (Cons a ops)
  obtain c1 out where step: "concrete a c = Some (c1, out)" "invariant c1"
      "spec a (abstraction c) = (abstraction c1, out)"
    using step_refines[OF Cons.prems] by blast
  obtain c2 outs where rest: "run_machine concrete ops c1 = Some (c2, outs)" "invariant c2"
      "run_spec spec ops (abstraction c1) = (abstraction c2, outs)"
    using Cons.IH[OF step(2)] by blast
  show ?case by (simp add: step rest)
qed

end

section \<open>What the index promises\<close>

text \<open>
  The specification knows the view of every handle and the state of every view in use: states
  are kept exactly for the views some handle has, and a view that loses its last handle gives
  its state back once.
\<close>

datatype 'st index_op =
    BindOp nat DeviceViewIdentity
  | EraseOp nat
  | StoreOp DeviceViewIdentity 'st
  | ClearOp

type_synonym 'st index_spec = "(nat \<rightharpoonup> DeviceViewIdentity) \<times> (DeviceViewIdentity \<rightharpoonup> 'st)"

definition index_step :: "'st \<Rightarrow> 'st index_op \<Rightarrow> 'st DeviceReplicaIndex \<Rightarrow>
    ('st DeviceReplicaIndex \<times> 'st list) option" where
  "index_step init a ix =
     (case a of BindOp handle view \<Rightarrow> Bind init handle view ix
      | EraseOp handle \<Rightarrow> EraseHandle handle ix
      | StoreOp view state \<Rightarrow> Some (store_state view state ix, [])
      | ClearOp \<Rightarrow> Some (clear_index ix, []))"

definition live_states :: "'st \<Rightarrow> (nat \<rightharpoonup> DeviceViewIdentity) \<Rightarrow> (DeviceViewIdentity \<rightharpoonup> 'st) \<Rightarrow>
    DeviceViewIdentity \<rightharpoonup> 'st" where
  "live_states init views states v =
     (if v \<notin> ran views then None
      else case states v of None \<Rightarrow> Some init | Some state \<Rightarrow> Some state)"

definition retarget :: "'st \<Rightarrow> nat \<Rightarrow> DeviceViewIdentity option \<Rightarrow> 'st index_spec \<Rightarrow>
    'st index_spec \<times> 'st list" where
  "retarget init handle target s =
     (let views = (fst s)(handle := target);
          states = live_states init views (snd s);
          orphans = (case fst s handle of None \<Rightarrow> []
                     | Some v \<Rightarrow> if v \<in> ran views then [] else [the (snd s v)])
      in ((views, states), orphans))"

definition index_spec_step :: "'st \<Rightarrow> 'st index_op \<Rightarrow> 'st index_spec \<Rightarrow> 'st index_spec \<times> 'st list" where
  "index_spec_step init a s =
     (case a of BindOp handle view \<Rightarrow> retarget init handle (Some view) s
      | EraseOp handle \<Rightarrow> retarget init handle None s
      | StoreOp view state \<Rightarrow>
          ((fst s, if snd s view = None then snd s else (snd s)(view \<mapsto> state)), [])
      | ClearOp \<Rightarrow> ((Map.empty, Map.empty), []))"

definition index_abs :: "'st DeviceReplicaIndex \<Rightarrow> 'st index_spec" where
  "index_abs ix = (handles ix, replicas ix)"

definition users_of :: "(nat \<rightharpoonup> DeviceViewIdentity) \<Rightarrow> DeviceViewIdentity \<Rightarrow> nat set" where
  "users_of hs v = {h. hs h = Some v}"

definition views_of :: "(nat \<rightharpoonup> DeviceViewIdentity) \<Rightarrow> nat \<Rightarrow> DeviceViewIdentity set" where
  "views_of hs sid = {v \<in> ran hs. v_storage v = sid}"

definition nonempty :: "'a set \<Rightarrow> 'a set option" where
  "nonempty A = (if A = {} then None else Some A)"

definition index_ok :: "'st DeviceReplicaIndex \<Rightarrow> bool" where
  "index_ok ix \<longleftrightarrow> dom (replicas ix) = ran (handles ix) \<and>
     (\<forall>v. view_handles ix v = nonempty (users_of (handles ix) v)) \<and>
     (\<forall>sid. storage_views ix sid = nonempty (views_of (handles ix) sid))"


lemma mem_ran_iff: "v \<in> ran hs \<longleftrightarrow> users_of hs v \<noteq> {}"
  by (auto simp: ran_def users_of_def)

lemma users_of_update:
  "users_of (hs(h := t)) v = (if t = Some v then insert h (users_of hs v) else users_of hs v - {h})"
  by (auto simp: users_of_def)

lemma mem_users_of: "h \<in> users_of hs v \<longleftrightarrow> hs h = Some v"
  by (simp add: users_of_def)

lemma nonempty_simps [simp]:
  "nonempty A = None \<longleftrightarrow> A = {}" "nonempty A = Some B \<longleftrightarrow> A \<noteq> {} \<and> B = A"
  by (auto simp: nonempty_def)

lemma set_at_nonempty: "m k = nonempty A \<Longrightarrow> set_at m k = A"
  by (auto simp: set_at_def nonempty_def)

lemma users_of_other: "hs h = Some v \<Longrightarrow> u \<noteq> v \<Longrightarrow> users_of hs u - {h} = users_of hs u"
  by (auto simp: users_of_def)

text \<open>When a handle loses its view and another one keeps it, or none does.\<close>

lemma ran_unset_kept:
  assumes "hs h = Some v" and "users_of hs v - {h} \<noteq> {}"
  shows "ran (hs(h := None)) = ran hs"
proof (rule set_eqI)
  fix u
  have "users_of hs v \<noteq> {}" using assms(2) by blast
  then show "u \<in> ran (hs(h := None)) \<longleftrightarrow> u \<in> ran hs"
    using users_of_other[of hs h v u] assms(1) assms(2)
    by (cases "u = v") (simp_all add: mem_ran_iff users_of_update)
qed

lemma ran_unset_dropped:
  assumes "hs h = Some v" and "users_of hs v - {h} = {}"
  shows "ran (hs(h := None)) = ran hs - {v}"
proof (rule set_eqI)
  fix u
  show "u \<in> ran (hs(h := None)) \<longleftrightarrow> u \<in> ran hs - {v}"
    using users_of_other[of hs h v u] assms(1) assms(2)
    by (cases "u = v") (simp_all add: mem_ran_iff users_of_update)
qed

lemma index_ok_handle:
  assumes "index_ok ix" and "handles ix h = Some v"
  shows "view_handles ix v = Some (users_of (handles ix) v)"
    and "\<exists>st. replicas ix v = Some st"
    and "storage_views ix (v_storage v) = Some (views_of (handles ix) (v_storage v))"
proof -
  have "v \<in> ran (handles ix)" using assms(2) by (rule ranI)
  moreover from this have "users_of (handles ix) v \<noteq> {}" by (simp add: mem_ran_iff)
  moreover have "v \<in> views_of (handles ix) (v_storage v)"
    using calculation(1) by (simp add: views_of_def)
  ultimately show "view_handles ix v = Some (users_of (handles ix) v)"
    and "\<exists>st. replicas ix v = Some st"
    and "storage_views ix (v_storage v) = Some (views_of (handles ix) (v_storage v))"
    using assms(1) by (auto simp: index_ok_def nonempty_def)
qed

lemma EraseHandle_refines:
  assumes "index_ok ix"
  shows "\<exists>ix' out. EraseHandle h ix = Some (ix', out) \<and> index_ok ix' \<and>
     retarget init h None (index_abs ix) = (index_abs ix', out)"
proof (cases "handles ix h")
  case None
  then have same: "(handles ix)(h := None) = handles ix" by auto
  have "live_states init (handles ix) (replicas ix) = replicas ix"
    using assms by (auto simp: live_states_def index_ok_def fun_eq_iff split: option.split)
  then show ?thesis
    using assms None by (simp add: EraseHandle_def retarget_def index_abs_def same Let_def)
next
  case (Some v)
  note hv = index_ok_handle[OF assms Some]
  obtain st where st: "replicas ix v = Some st" using hv(2) by blast
  let ?H = "(handles ix)(h := None)"
  have dom: "dom (replicas ix) = ran (handles ix)" using assms by (simp add: index_ok_def)
  show ?thesis
  proof (cases "users_of (handles ix) v - {h} = {}")
    case False
    note ran = ran_unset_kept[OF Some False]
    have "live_states init ?H (replicas ix) = replicas ix"
      using dom by (auto simp: live_states_def ran fun_eq_iff split: option.split)
    moreover have "v \<in> ran ?H" using Some by (simp add: ran ranI)
    moreover have "index_ok (ix\<lparr>view_handles := (view_handles ix)(v \<mapsto> users_of (handles ix) v - {h}),
        handles := ?H\<rparr>)"
      using assms False Some
      by (auto simp: index_ok_def ran views_of_def users_of_update nonempty_def mem_users_of)
    ultimately show ?thesis
      using False Some by (simp add: EraseHandle_def retarget_def index_abs_def hv(1) Let_def)
  next
    case True
    note ran = ran_unset_dropped[OF Some True]
    let ?A = "views_of (handles ix) (v_storage v) - {v}"
    let ?ix = "ix\<lparr>view_handles := (view_handles ix)(v := None), handles := ?H,
        replicas := (replicas ix)(v := None),
        storage_views := (storage_views ix)(v_storage v := nonempty ?A)\<rparr>"
    have run: "EraseHandle h ix = Some (?ix, [st])"
      using True Some by (simp add: EraseHandle_def drop_view_def hv(1,3) st nonempty_def)
    have "live_states init ?H (replicas ix) = (replicas ix)(v := None)"
      using dom by (auto simp: live_states_def ran fun_eq_iff split: option.split)
    moreover have "v \<notin> ran ?H" by (simp add: ran)
    ultimately have spec: "retarget init h None (index_abs ix) = (index_abs ?ix, [st])"
      using Some st by (simp add: retarget_def index_abs_def)
    have views: "views_of ?H sid = (if sid = v_storage v then ?A else views_of (handles ix) sid)" for sid
      by (auto simp: views_of_def ran)
    have users: "users_of ?H u = (if u = v then {} else users_of (handles ix) u)" for u
      using Some True by (auto simp: users_of_update mem_users_of)
    have "index_ok ?ix"
      using assms by (auto simp: index_ok_def ran views users nonempty_def)
    then show ?thesis using run spec by blast
  qed
qed

text \<open>Binding a handle that has no view.\<close>

definition bind_fresh :: "'st \<Rightarrow> nat \<Rightarrow> DeviceViewIdentity \<Rightarrow> 'st DeviceReplicaIndex \<Rightarrow>
    'st DeviceReplicaIndex" where
  "bind_fresh init h view ix =
     (let ix2 = (if replicas ix view = None
                 then ix\<lparr>replicas := (replicas ix)(view \<mapsto> init),
                         storage_views := (storage_views ix)
                           (v_storage view \<mapsto> insert view (set_at (storage_views ix) (v_storage view)))\<rparr>
                 else ix)
      in ix2\<lparr>handles := (handles ix2)(h \<mapsto> view),
             view_handles := (view_handles ix2)(view \<mapsto> insert h (set_at (view_handles ix2) view))\<rparr>)"

lemma bind_fresh_refines:
  assumes "index_ok ix" and free: "handles ix h = None \<or> handles ix h = Some view"
  shows "index_ok (bind_fresh init h view ix)"
    and "retarget init h (Some view) (index_abs ix) = (index_abs (bind_fresh init h view ix), [])"
proof -
  let ?H = "(handles ix)(h \<mapsto> view)"
  have dom: "dom (replicas ix) = ran (handles ix)" using assms by (simp add: index_ok_def)
  have users: "users_of ?H v = (if v = view then insert h (users_of (handles ix) view) else users_of (handles ix) v)" for v
    using free by (auto simp: users_of_update mem_users_of)
  have ran: "ran ?H = insert view (ran (handles ix))"
  proof (rule set_eqI)
    fix u
    show "u \<in> ran ?H \<longleftrightarrow> u \<in> insert view (ran (handles ix))"
      by (cases "u = view") (simp_all add: mem_ran_iff users)
  qed
  have views: "views_of ?H sid = (if sid = v_storage view then insert view (views_of (handles ix) sid)
      else views_of (handles ix) sid)" for sid
    by (auto simp: views_of_def ran)
  have vh: "set_at (view_handles ix) view = users_of (handles ix) view"
    and sv: "set_at (storage_views ix) (v_storage view) = views_of (handles ix) (v_storage view)"
    using assms(1) by (auto intro!: set_at_nonempty simp: index_ok_def)
  have known: "replicas ix view \<noteq> None \<longleftrightarrow> view \<in> ran (handles ix)" using dom by auto
  show "index_ok (bind_fresh init h view ix)"
  proof (cases "view \<in> ran (handles ix)")
    case True
    have run: "bind_fresh init h view ix = ix\<lparr>handles := ?H,
        view_handles := (view_handles ix)(view \<mapsto> insert h (users_of (handles ix) view))\<rparr>"
      using True known by (auto simp: bind_fresh_def Let_def vh)
    have "ran ?H = ran (handles ix)" using True by (auto simp: ran)
    moreover from this have "views_of ?H = views_of (handles ix)" by (simp add: views_of_def fun_eq_iff)
    ultimately show ?thesis using assms(1) unfolding run index_ok_def
      by (simp add: users nonempty_def)
  next
    case False
    have run: "bind_fresh init h view ix = ix\<lparr>handles := ?H, replicas := (replicas ix)(view \<mapsto> init),
        storage_views := (storage_views ix)
          (v_storage view \<mapsto> insert view (views_of (handles ix) (v_storage view))),
        view_handles := (view_handles ix)(view \<mapsto> insert h (users_of (handles ix) view))\<rparr>"
      using False known by (simp add: bind_fresh_def Let_def vh sv)
    show ?thesis using assms(1) unfolding run index_ok_def
      by (simp add: users ran views nonempty_def)
  qed
  have "live_states init ?H (replicas ix) =
        (if replicas ix view = None then (replicas ix)(view \<mapsto> init) else replicas ix)"
    using dom by (auto simp: live_states_def ran fun_eq_iff split: option.split)
  then show "retarget init h (Some view) (index_abs ix) = (index_abs (bind_fresh init h view ix), [])"
    using free by (auto simp: retarget_def index_abs_def bind_fresh_def Let_def ran)
qed

lemma retarget_twice:
  assumes "dom (snd s) = ran (fst s)" and "fst s h = Some v" and "v \<noteq> view"
    and "retarget init h None s = (s1, out)" and "retarget init h (Some view) s1 = (s2, [])"
  shows "retarget init h (Some view) s = (s2, out)"
proof -
  let ?H = "fst s"
  have s1: "s1 = (?H(h := None), live_states init (?H(h := None)) (snd s))"
    and out: "out = (if v \<in> ran (?H(h := None)) then [] else [the (snd s v)])"
    using assms(2,4) by (auto simp: retarget_def Let_def)
  have ran1: "u \<in> ran (?H(h \<mapsto> view)) \<longleftrightarrow> u = view \<or> u \<in> ran (?H(h := None))" for u
    by (auto simp: mem_ran_iff users_of_update)
  have known: "snd s u = None \<longleftrightarrow> u \<notin> ran ?H" for u
    using assms(1) by auto
  have same: "view \<in> ran ?H \<longleftrightarrow> view \<in> ran (?H(h := None))"
    using users_of_other[of "fst s" h v view] assms(2) assms(3) by (simp add: mem_ran_iff users_of_update)
  have "live_states init (?H(h \<mapsto> view)) (live_states init (?H(h := None)) (snd s)) =
      live_states init (?H(h \<mapsto> view)) (snd s)"
    using known[of view] same by (auto simp: live_states_def ran1 fun_eq_iff split: option.splits)
  then have s2: "s2 = (?H(h \<mapsto> view), live_states init (?H(h \<mapsto> view)) (snd s))"
    using assms(5) unfolding s1 by (simp add: retarget_def Let_def)
  have "v \<in> ran (?H(h \<mapsto> view)) \<longleftrightarrow> v \<in> ran (?H(h := None))"
    using assms(3) by (simp add: ran1)
  then show ?thesis
    unfolding s2 out using assms(2) by (simp add: retarget_def Let_def)
qed

lemma Bind_refines:
  assumes "index_ok ix"
  shows "\<exists>ix' out. Bind init h view ix = Some (ix', out) \<and> index_ok ix' \<and>
     retarget init h (Some view) (index_abs ix) = (index_abs ix', out)"
proof (cases "handles ix h = None \<or> handles ix h = Some view")
  case True
  then have "Bind init h view ix = Some (bind_fresh init h view ix, [])"
    by (auto simp: Bind_def bind_fresh_def Let_def)
  then show ?thesis using bind_fresh_refines[OF assms True] by blast
next
  case False
  then obtain v where v: "handles ix h = Some v" "v \<noteq> view" by auto
  obtain ix1 out where erase: "EraseHandle h ix = Some (ix1, out)" "index_ok ix1"
      "retarget init h None (index_abs ix) = (index_abs ix1, out)"
    using EraseHandle_refines[OF assms] by blast
  have h1: "handles ix1 h = None"
    using erase(3) by (auto simp: retarget_def index_abs_def Let_def dest!: fun_cong[where x = h])
  then have "handles ix1 h = None \<or> handles ix1 h = Some view" by simp
  note fresh = bind_fresh_refines[OF erase(2) this, of init]
  have "retarget init h (Some view) (index_abs ix) = (index_abs (bind_fresh init h view ix1), out)"
    using assms v by (intro retarget_twice[OF _ _ _ erase(3) fresh(2)]) (auto simp: index_abs_def index_ok_def)
  moreover have "Bind init h view ix = Some (bind_fresh init h view ix1, out)"
    using v erase(1) by (simp add: Bind_def bind_fresh_def Let_def)
  ultimately show ?thesis using fresh(1) by blast
qed

lemma index_step_refines:
  assumes "index_ok ix"
  shows "\<exists>ix' out. index_step init a ix = Some (ix', out) \<and> index_ok ix' \<and>
     index_spec_step init a (index_abs ix) = (index_abs ix', out)"
proof (cases a)
  case (BindOp h view)
  then show ?thesis using Bind_refines[OF assms] by (simp add: index_step_def index_spec_step_def)
next
  case (EraseOp h)
  then show ?thesis using EraseHandle_refines[OF assms] by (simp add: index_step_def index_spec_step_def)
next
  case (StoreOp view st)
  have "dom ((replicas ix)(view \<mapsto> st)) = dom (replicas ix)" if "replicas ix view \<noteq> None"
    using that by auto
  then show ?thesis using assms StoreOp
    by (auto simp: index_step_def index_spec_step_def index_abs_def store_state_def index_ok_def)
next
  case ClearOp
  then show ?thesis
    by (simp add: index_step_def index_spec_step_def index_abs_def clear_index_def index_ok_def
        users_of_def views_of_def nonempty_def)
qed

interpretation replica: machine_refinement "index_step init" "index_spec_step init" index_abs index_ok for init
  by unfold_locales (rule index_step_refines)

lemma index_ok_empty: "index_ok empty_index"
  by (simp add: index_ok_def empty_index_def users_of_def views_of_def nonempty_def)

text \<open>
  C27: Any sequence of binding, erasing, storing and clearing runs without a throw and without a
  dereference of \<open>end()\<close>, calls \<open>on_orphan\<close> on exactly the states the specification gives back
  and in that order, keeps a state for exactly the views some handle has, and answers for every
  storage exactly the views in use in it and for every view exactly its handles.
\<close>

theorem DeviceReplicaIndex_refines:
  fixes init :: 'st
  shows "\<exists>ix orphans. run_machine (index_step init) ops empty_index = Some (ix, orphans) \<and>
     run_spec (index_spec_step init) ops (Map.empty, Map.empty) = ((handles ix, replicas ix), orphans) \<and>
     dom (replicas ix) = ran (handles ix) \<and>
     (\<forall>sid. StorageViews sid ix = {v \<in> ran (handles ix). v_storage v = sid}) \<and>
     (\<forall>v. Handles v ix = (if v \<in> ran (handles ix) then Some {h. handles ix h = Some v} else None))"
proof -
  obtain ix outs where run: "run_machine (index_step init) ops empty_index = Some (ix, outs)" "index_ok ix"
      "run_spec (index_spec_step init) ops (index_abs empty_index) = (index_abs ix, outs)"
    using replica.run_refines[OF index_ok_empty, of init ops] by (elim exE conjE)
  have "index_abs (empty_index :: 'st DeviceReplicaIndex) = (Map.empty, Map.empty)" by (simp add: index_abs_def empty_index_def)
  with run(3) have "run_spec (index_spec_step init) ops (Map.empty, Map.empty) =
      ((handles ix, replicas ix), outs)"
    by (simp add: index_abs_def)
  moreover have "StorageViews sid ix = {v \<in> ran (handles ix). v_storage v = sid}" for sid
    using run(2) by (auto simp: StorageViews_def index_ok_def nonempty_def views_of_def)
  moreover have "Handles v ix = (if v \<in> ran (handles ix) then Some {h. handles ix h = Some v} else None)" for v
    using run(2) by (auto simp: Handles_def index_ok_def nonempty_def mem_ran_iff users_of_def)
  moreover have "dom (replicas ix) = ran (handles ix)" using run(2) by (simp add: index_ok_def)
  ultimately show ?thesis using run(1) by simp
qed

text \<open>A state is given back when the last handle leaves its view, and not before.\<close>

lemma replica_orphan_example:
  "map_option snd (run_machine (index_step (0 :: nat))
     [BindOp 1 \<lparr>v_storage = 7, v_offset = 0, v_bytes = 4\<rparr>,
      BindOp 2 \<lparr>v_storage = 7, v_offset = 0, v_bytes = 4\<rparr>,
      StoreOp \<lparr>v_storage = 7, v_offset = 0, v_bytes = 4\<rparr> 9,
      EraseOp 1,
      BindOp 2 \<lparr>v_storage = 7, v_offset = 4, v_bytes = 4\<rparr>] empty_index) = Some [[], [], [], [], [9]]"
  by (simp add: index_step_def Bind_def EraseHandle_def drop_view_def store_state_def empty_index_def
      set_at_def Let_def insert_Diff_if)

end
