(* ===== verification/Stateful_Session.thy ===== *)
theory Stateful_Session
  imports Runtime_Graph
begin

text \<open>
  Recurrent state between runs: \<open>src/core/stateful_session.cc\<close>.  A session binds outputs of the
  graph to inputs; \<open>Advance\<close> makes the outputs of one run the inputs of the next, either whole
  tensors (by copying or by exchanging storages) or by appending one slice to a cache along an
  axis.  The whole batch is validated before anything is written.  The backend operations on
  state are an extension of the backend interface of \<open>Runtime_Graph\<close>.  A member function that
  throws answers \<open>None\<close>; a pointer is the index of its tensor in the heap.
\<close>

section \<open>State and interface\<close>

record StateBinding =
  sb_input :: string
  sb_output :: string
  sb_axis :: int
  sb_stable :: bool

record 'b StateBackend = "'b BackendContext" +
  DeviceStorage :: "nat \<Rightarrow> 'b rt_env \<Rightarrow> nat option"
  CopyState :: "nat \<Rightarrow> nat \<Rightarrow> 'b rt_env \<Rightarrow> (status \<times> 'b rt_env) option"
  SwapState :: "nat \<Rightarrow> nat \<Rightarrow> 'b rt_env \<Rightarrow> (status \<times> 'b rt_env) option"
  AppendState :: "nat \<Rightarrow> nat \<Rightarrow> int \<Rightarrow> 'b rt_env \<Rightarrow> (status \<times> 'b rt_env) option"

record StatefulSession =
  ss_device :: DeviceType
  ss_bindings :: "StateBinding list"

record Update =
  up_binding :: StateBinding
  up_input :: nat
  up_output :: nat
  up_snapshot :: bool

section \<open>Validation\<close>

definition state_bytes :: "Tensor \<Rightarrow> nat" where
  "state_bytes t = (case CheckedTensorBytes (m_dims t) (m_data_type t) of None \<Rightarrow> 0 | Some n \<Rightarrow> n)"

definition append_dims_ok :: "nat \<Rightarrow> DDim \<Rightarrow> DDim \<Rightarrow> bool" where
  "append_dims_ok axis a b \<longleftrightarrow> (\<forall>i \<in> set [0..<length a]. i \<noteq> axis \<longrightarrow> a ! i = b ! i)"

definition ValidateTensors :: "world \<Rightarrow> StateBinding \<Rightarrow> Tensor option \<Rightarrow> Tensor option \<Rightarrow> status" where
  "ValidateTensors w b input output =
     (case (input, output) of
        (Some x, Some y) \<Rightarrow>
          (let da = m_dims x; db = m_dims y; axis = nat (sb_axis b) in
           if \<not> IsInitialized w x \<or> \<not> IsInitialized w y \<or> m_immutable x \<or> m_data_type x \<noteq> m_data_type y \<or>
              NormalizeDataLayout (m_layout x) \<noteq> NormalizeDataLayout (m_layout y)
           then Error kInvalidArgument (''unavailable or incompatible state: '' @ sb_input b)
           else if \<not> HasSameQuantization (m_quantization x) (m_quantization y)
           then Error kInvalidArgument (''state quantization mismatch: '' @ sb_input b)
           else if length da \<noteq> length db
           then Error kShapeMismatch (''state rank mismatch: '' @ sb_input b)
           else if sb_axis b < 0 \<and> da \<noteq> db
           then Error kShapeMismatch (''state shape mismatch: '' @ sb_input b)
           else if \<not> sb_axis b < 0 \<and> (length da \<le> axis \<or> da ! axis \<le> 1 \<or> db ! axis \<noteq> 1)
           then Error kShapeMismatch (''invalid state append axis: '' @ sb_input b)
           else if \<not> sb_axis b < 0 \<and> \<not> append_dims_ok axis da db
           then Error kShapeMismatch (''state append shape mismatch: '' @ sb_input b)
           else case (CheckedTensorBytes da (m_data_type x), CheckedTensorBytes db (m_data_type y)) of
                  (Some n, Some k) \<Rightarrow>
                    if m_memory_size x < n \<or> m_memory_size y < k
                    then Error kInvalidArgument (''undersized state storage: '' @ sb_input b) else Ok
                | _ \<Rightarrow> Error kInvalidArgument (''undersized state storage: '' @ sb_input b))
      | _ \<Rightarrow> Error kInvalidArgument (''unavailable or incompatible state: '' @ sb_input b))"

definition ValidateState :: "('b, 'd) RuntimeGraph \<Rightarrow> StateBinding \<Rightarrow> status + nat \<times> nat" where
  "ValidateState g b =
     (let input = rg_tensor g (sb_input b); output = rg_tensor g (sb_output b);
          st = ValidateTensors (x_world (rg_env g)) b (map_option (tensor_of g) input)
                 (map_option (tensor_of g) output)
      in if \<not> ok st then Inl st else Inr (the input, the output))"

definition StateOutput :: "('b, 'd) RuntimeGraph \<Rightarrow> StateBinding \<Rightarrow> nat \<Rightarrow> nat \<Rightarrow> nat" where
  "StateOutput g b input output =
     (if sb_axis b < 0 \<and> \<not> sb_stable b
      then case GetProducerNode g (sb_output b) of None \<Rightarrow> output
           | Some producer \<Rightarrow>
               (case rn_semantics producer of None \<Rightarrow> output
                | Some s \<Rightarrow>
                    (case rg_tensor g (WholeTensorAliasSource s (rn_inputs producer) (rn_outputs producer)
                            (sb_output b)) of None \<Rightarrow> output
                     | Some source \<Rightarrow>
                         if m_dims (tensor_of g source) = m_dims (tensor_of g input) \<and>
                            m_data_type (tensor_of g source) = m_data_type (tensor_of g input)
                         then source else output))
      else output)"

text \<open>One binding of the batch, validated; constants are copied, never exchanged.\<close>

definition make_update :: "('b, 'd) RuntimeGraph \<Rightarrow> StateBinding \<Rightarrow> status + Update" where
  "make_update g b =
     bindR (ValidateState g b) (\<lambda>(input, output0).
       (let output = StateOutput g b input output0;
            st = ValidateTensors (x_world (rg_env g)) b (Some (tensor_of g input)) (Some (tensor_of g output))
        in if \<not> ok st then Inl st
           else Inr \<lparr>up_binding = (if m_immutable (tensor_of g output) then b\<lparr>sb_stable := True\<rparr> else b),
                     up_input = input, up_output = output, up_snapshot = False\<rparr>))"

definition make_updates :: "('b, 'd) RuntimeGraph \<Rightarrow> StateBinding list \<Rightarrow> status + Update list" where
  "make_updates g bindings = foldR (\<lambda>b us. bindR (make_update g b) (\<lambda>u. Inr (us @ [u]))) bindings []"

section \<open>Overlap\<close>

text \<open>Two storages are compared by address, which allocates the deferred ones.\<close>

definition StateOverlaps :: "Tensor \<Rightarrow> Tensor \<Rightarrow> world \<Rightarrow> world \<times> bool" where
  "StateOverlaps a b w =
     (let ab = state_bytes a; bb = state_bytes b in
      if ab = 0 \<or> bb = 0 then (w, False)
      else if m_storage a = m_storage b then (w, distance_within (m_offset a) ab (m_offset b) bb)
      else (let (w1, _) = raw_data a w; (w2, _) = raw_data b w1
            in (w2, distance_within (raw_address w2 a) ab (raw_address w2 b) bb)))"

definition overlaps :: "Tensor list \<Rightarrow> bool \<Rightarrow> (nat \<Rightarrow> nat option) \<Rightarrow> nat \<Rightarrow> nat \<Rightarrow> world \<Rightarrow> world \<times> bool" where
  "overlaps heap host device_storage p q w =
     (let (w', found) = StateOverlaps (heap ! p) (heap ! q) w in
      (w', found \<or> (\<not> host \<and> device_storage p \<noteq> None \<and> device_storage p = device_storage q)))"

definition keep_stable :: "Update \<Rightarrow> Update" where
  "keep_stable u = u\<lparr>up_binding := (up_binding u)\<lparr>sb_stable := True\<rparr>\<rparr>"

definition take_snapshot :: "Update \<Rightarrow> Update" where
  "take_snapshot u = keep_stable u\<lparr>up_snapshot := True\<rparr>"

type_synonym overlap_test = "nat \<Rightarrow> nat \<Rightarrow> world \<Rightarrow> world \<times> bool"

text \<open>The inner loop over \<open>j\<close> and the outer loop over \<open>i\<close>.\<close>

fun compare_updates :: "overlap_test \<Rightarrow> nat \<Rightarrow> nat list \<Rightarrow> Update list \<times> world \<Rightarrow> (status + Update list) \<times> world" where
  "compare_updates test i [] (us, w) = (Inr us, w)"
| "compare_updates test i (j # js) (us, w) =
     (if i = j then compare_updates test i js (us, w)
      else let (w1, clash) = test (up_input (us ! i)) (up_input (us ! j)) w in
        if clash
        then (Inl (Error kInvalidArgument (''overlapping state destinations: '' @ sb_input (up_binding (us ! i)))), w1)
        else let (w2, reads) = test (up_output (us ! i)) (up_input (us ! j)) w1;
                 (w3, shared) = (if reads then (w2, True) else test (up_output (us ! i)) (up_output (us ! j)) w2)
             in compare_updates test i js
                  (if shared then (us[i := take_snapshot (us ! i)])[j := keep_stable (us ! j)] else us, w3))"

fun scan_updates :: "overlap_test \<Rightarrow> bool \<Rightarrow> nat list \<Rightarrow> Update list \<times> world \<Rightarrow> (status + Update list) \<times> world" where
  "scan_updates test host [] (us, w) = (Inr us, w)"
| "scan_updates test host (i # is) (us, w) =
     (let (w1, self) = test (up_input (us ! i)) (up_output (us ! i)) w;
          us1 = (if self \<and> (host \<or> 0 \<le> sb_axis (up_binding (us ! i))) then us[i := take_snapshot (us ! i)] else us)
      in case compare_updates test i [0..<length us] (us1, w1) of
           (Inl e, w2) \<Rightarrow> (Inl e, w2)
         | (Inr us2, w2) \<Rightarrow> scan_updates test host is (us2, w2))"

section \<open>Applying an update\<close>

definition with_context :: "string \<Rightarrow> (status \<times> 'b rt_env) option \<Rightarrow> ('b, 'd) RuntimeGraph \<Rightarrow>
    (status \<times> ('b, 'd) RuntimeGraph) option" where
  "with_context context r g =
     map_option (\<lambda>(st, e). (WithContext st context, g\<lparr>rg_env := e\<rparr>)) r"

text \<open>\<open>memmove(input->mutable_data(input->memory_size()), output->raw_data(), bytes)\<close>.\<close>

definition move_bytes :: "nat \<Rightarrow> nat \<Rightarrow> nat \<Rightarrow> 'b rt_env \<Rightarrow> 'b rt_env option" where
  "move_bytes p q n e =
     (case mutable_data (m_memory_size (x_heap e ! p)) (x_heap e ! p) (x_world e) of
        Some (w1, t', Some a) \<Rightarrow>
          (let heap = (x_heap e)[p := t']; (w2, bytes) = read_bytes (heap ! q) n w1
           in Some (e\<lparr>x_heap := heap, x_world := w2\<lparr>mem := mem_write (mem w2) a bytes\<rparr>\<rparr>))
      | _ \<Rightarrow> None)"

text \<open>One iteration of the append: shift the cache by one slot and put the new slice last.\<close>

definition append_slot :: "nat \<Rightarrow> nat \<Rightarrow> nat \<Rightarrow> ((nat \<Rightarrow> u8) \<Rightarrow> nat \<Rightarrow> u8 list) \<Rightarrow> nat \<Rightarrow> (nat \<Rightarrow> u8) \<Rightarrow> (nat \<Rightarrow> u8)" where
  "append_slot destination slots block source i m =
     (let cache = destination + i * slots * block;
          m1 = mem_write m cache (mem_read m (cache + block) ((slots - 1) * block))
      in mem_write m1 (cache + (slots - 1) * block) (source m1 i))"

definition append_state :: "nat \<Rightarrow> nat \<Rightarrow> nat \<Rightarrow> 'b rt_env \<Rightarrow> (status \<times> 'b rt_env) option" where
  "append_state p q axis e =
     (let x = x_heap e ! p; dims = m_dims x;
          outer = fold (\<lambda>d acc. mul64 acc (nat d)) (take axis dims) 1;
          inner = fold (\<lambda>d acc. mul64 acc (nat d)) (drop (axis + 1) dims) 1;
          element = DataTypeBytes (m_data_type x)
      in if element = 0 then Some (Error kUnsupported ''packed state append is unsupported'', e)
         else
           (let block = mul64 inner element; slots = nat (dims ! axis) in
            case mutable_data (m_memory_size x) x (x_world e) of
              Some (w1, x', Some destination) \<Rightarrow>
                (let heap = (x_heap e)[p := x']; y = heap ! q; (w2, _) = raw_data y w1;
                     from_memory = (\<lambda>m i. mem_read m (raw_address w2 y + i * block) block);
                     saved = mem_read (mem w2) (raw_address w2 y) (m_memory_size y);
                     source = (if m_storage x' = m_storage y
                               then (\<lambda>_ i. take block (drop (i * block) saved)) else from_memory)
                 in Some (Ok, e\<lparr>x_heap := heap,
                      x_world := w2\<lparr>mem := fold (append_slot destination slots block source) [0..<outer] (mem w2)\<rparr>\<rparr>))
            | _ \<Rightarrow> None))"

definition ApplyValidatedState :: "'b StateBackend \<Rightarrow> StateBinding \<Rightarrow> DeviceType \<Rightarrow> nat \<Rightarrow> nat \<Rightarrow>
    ('b, 'd) RuntimeGraph \<Rightarrow> (status \<times> ('b, 'd) RuntimeGraph) option" where
  "ApplyValidatedState backend b device p q g =
     (let x = tensor_of g p; y = tensor_of g q;
          host = cap_host_memory (Capabilities backend device)
      in if sb_axis b < 0
         then if p = q \<or> (m_storage x = m_storage y \<and> m_offset x = m_offset y) then Some (Ok, g)
              else if \<not> host
              then with_context (sb_input b)
                     ((if sb_stable b then CopyState backend else SwapState backend) p q (rg_env g)) g
              else if rg_uses_memory_plan g \<or> sb_stable b
              then (let n = state_bytes x in
                    map_option (\<lambda>e. (Ok, g\<lparr>rg_env := HostWritten backend p e\<rparr>))
                      (if n = 0 then Some (rg_env g) else move_bytes p q n (rg_env g)))
              else (let (w, x', y') = SwapStorage x y (x_world (rg_env g));
                        g1 = map_env (\<lambda>e. e\<lparr>x_heap := (x_heap e)[p := x', q := y'], x_world := w\<rparr>) g;
                        g2 = RecordStateStorageSwap p q g1
                    in Some (Ok, map_env (\<lambda>e. HostWritten backend p (HostWritten backend q e)) g2))
         else if \<not> host
         then with_context (sb_input b) (AppendState backend p q (sb_axis b) (rg_env g)) g
         else map_option (\<lambda>(st, e). (st, g\<lparr>rg_env := if ok st then HostWritten backend p e else e\<rparr>))
                (append_state p q (nat (sb_axis b)) (rg_env g)))"

section \<open>The batch\<close>

text \<open>A snapshot is a new tensor with the bytes and the description of the output.\<close>

definition snapshot_output :: "Update \<Rightarrow> 'b rt_env \<Rightarrow> (Update \<times> 'b rt_env) option" where
  "snapshot_output u e =
     (let y = x_heap e ! up_output u; n = state_bytes y in
      case Tensor_bytes n (x_world e) of None \<Rightarrow> None
      | Some (w1, s0) \<Rightarrow>
          (let s1 = set_quantization (m_quantization y)
                      (s0\<lparr>m_dims := m_dims y, m_data_type := m_data_type y, m_layout := m_layout y\<rparr>);
               r = length (x_heap e); e1 = e\<lparr>x_heap := x_heap e @ [s1], x_world := w1\<rparr>
           in map_option (\<lambda>e2. (u\<lparr>up_output := r\<rparr>, e2))
                (if n = 0 then Some e1
                 else case mutable_data n s1 w1 of
                        Some (w2, s2, Some a) \<Rightarrow>
                          (let (w3, bytes) = read_bytes y n w2
                           in Some (e1\<lparr>x_heap := x_heap e @ [s2], x_world := w3\<lparr>mem := mem_write (mem w3) a bytes\<rparr>\<rparr>))
                      | _ \<Rightarrow> None)))"

fun snapshot_outputs :: "Update list \<Rightarrow> 'b rt_env \<Rightarrow> (Update list \<times> 'b rt_env) option" where
  "snapshot_outputs [] e = Some ([], e)"
| "snapshot_outputs (u # us) e =
     (case (if up_snapshot u then snapshot_output u e else Some (u, e)) of None \<Rightarrow> None
      | Some (u', e1) \<Rightarrow> map_option (\<lambda>(us', e2). (u' # us', e2)) (snapshot_outputs us e1))"

fun apply_updates :: "'b StateBackend \<Rightarrow> DeviceType \<Rightarrow> Update list \<Rightarrow> ('b, 'd) RuntimeGraph \<Rightarrow>
    (status \<times> ('b, 'd) RuntimeGraph) option" where
  "apply_updates backend device [] g = Some (Ok, g)"
| "apply_updates backend device (u # us) g =
     (case ApplyValidatedState backend (up_binding u) device (up_input u) (up_output u) g of None \<Rightarrow> None
      | Some (st, g') \<Rightarrow> if ok st then apply_updates backend device us g' else Some (st, g'))"

definition whole_alias :: "Tensor list \<Rightarrow> Update \<Rightarrow> bool" where
  "whole_alias heap u \<longleftrightarrow> sb_axis (up_binding u) < 0 \<and>
     m_storage (heap ! up_input u) = m_storage (heap ! up_output u) \<and>
     m_offset (heap ! up_input u) = m_offset (heap ! up_output u)"

text \<open>What happens once every binding is valid and the overlaps are known.\<close>

definition commit_updates :: "'b StateBackend \<Rightarrow> DeviceType \<Rightarrow> Update list \<Rightarrow> ('b, 'd) RuntimeGraph \<Rightarrow>
    (status \<times> ('b, 'd) RuntimeGraph) option" where
  "commit_updates backend device us g =
     (let host = cap_host_memory (Capabilities backend device); heap = x_heap (rg_env g) in
      if \<not> host
      then case find (\<lambda>u. up_snapshot u \<and> \<not> whole_alias heap u) us of
             Some u \<Rightarrow> Some (Error kUnsupported (''overlapping device state updates: '' @ sb_input (up_binding u)), g)
           | None \<Rightarrow> apply_updates backend device us g
      else case snapshot_outputs us (rg_env g) of None \<Rightarrow> None
           | Some (us', e) \<Rightarrow> apply_updates backend device us' (g\<lparr>rg_env := e\<rparr>))"

definition packed_append :: "Tensor list \<Rightarrow> Update list \<Rightarrow> bool" where
  "packed_append heap us \<longleftrightarrow> (\<exists>u \<in> set us. 0 \<le> sb_axis (up_binding u) \<and>
     DataTypeBytes (m_data_type (heap ! up_input u)) = 0)"

definition ApplyStateBindings :: "'b StateBackend \<Rightarrow> StateBinding list \<Rightarrow> DeviceType \<Rightarrow>
    ('b, 'd) RuntimeGraph \<Rightarrow> (status \<times> ('b, 'd) RuntimeGraph) option" where
  "ApplyStateBindings backend bindings device g =
     (let contract = CheckTensorBindings g; caps = Capabilities backend device;
          host = cap_host_memory caps; heap = x_heap (rg_env g)
      in if \<not> ok contract then Some (contract, g)
         else case make_updates g bindings of
                Inl e \<Rightarrow> Some (e, g)
              | Inr us \<Rightarrow>
                  if us = [] then Some (Ok, g)
                  else if \<not> cap_supported caps then Some (Error kUnsupported ''state backend unavailable'', g)
                  else if host \<and> packed_append heap us
                  then Some (Error kUnsupported ''packed state append is unsupported'', g)
                  else
                    (let device_storage = (\<lambda>p. if host then None else DeviceStorage backend p (rg_env g));
                         test = overlaps heap host device_storage;
                         (scanned, w) = scan_updates test host [0..<length us] (us, x_world (rg_env g));
                         g1 = map_env (x_world_update (\<lambda>_. w)) g
                     in case scanned of Inl e \<Rightarrow> Some (e, g1)
                        | Inr us' \<Rightarrow> commit_updates backend device us' g1))"

definition ApplyStateBinding :: "'b StateBackend \<Rightarrow> StateBinding \<Rightarrow> DeviceType \<Rightarrow>
    ('b, 'd) RuntimeGraph \<Rightarrow> (status \<times> ('b, 'd) RuntimeGraph) option" where
  "ApplyStateBinding backend b device g = ApplyStateBindings backend [b] device g"

section \<open>The session\<close>

definition StatefulSession_Bind :: "'b StateBackend \<Rightarrow> StateBinding \<Rightarrow> StatefulSession \<Rightarrow> ('b, 'd) RuntimeGraph \<Rightarrow>
    status \<times> StatefulSession \<times> ('b, 'd) RuntimeGraph" where
  "StatefulSession_Bind backend b session g =
     (case ValidateState g b of Inl st \<Rightarrow> (st, session, g)
      | Inr (input, output) \<Rightarrow>
          if \<exists>old \<in> set (ss_bindings session). sb_input old = sb_input b
          then (Error kInvalidArgument (''duplicate state binding: '' @ sb_input b), session, g)
          else
            (let g1 = map_env (\<lambda>e. MarkPersistent backend output True (MarkPersistent backend input True e)) g;
                 source = (case GetProducerNode g (sb_output b) of None \<Rightarrow> None
                   | Some producer \<Rightarrow>
                       (case rn_semantics producer of None \<Rightarrow> None
                        | Some s \<Rightarrow> rg_tensor g (WholeTensorAliasSource s (rn_inputs producer)
                                     (rn_outputs producer) (sb_output b))));
                 g2 = (case source of None \<Rightarrow> g1 | Some p \<Rightarrow> map_env (MarkPersistent backend p True) g1)
             in (Ok, session\<lparr>ss_bindings := ss_bindings session @ [b]\<rparr>, g2)))"

definition Advance :: "'b StateBackend \<Rightarrow> StatefulSession \<Rightarrow> ('b, 'd) RuntimeGraph \<Rightarrow>
    (status \<times> ('b, 'd) RuntimeGraph) option" where
  "Advance backend session g = ApplyStateBindings backend (ss_bindings session) (ss_device session) g"

definition clear_state :: "nat \<Rightarrow> 'b rt_env \<Rightarrow> 'b rt_env option" where
  "clear_state p e =
     (let n = m_memory_size (x_heap e ! p) in
      case mutable_data n (x_heap e ! p) (x_world e) of
        None \<Rightarrow> None
      | Some (w, t', a) \<Rightarrow>
          (case a of None \<Rightarrow> None
           | Some a \<Rightarrow> Some (e\<lparr>x_heap := (x_heap e)[p := t'],
               x_world := w\<lparr>mem := mem_write (mem w) a (replicate n 0)\<rparr>\<rparr>)))"

fun reset_bindings :: "'b StateBackend \<Rightarrow> StateBinding list \<Rightarrow> ('b, 'd) RuntimeGraph \<Rightarrow>
    (status \<times> ('b, 'd) RuntimeGraph) option" where
  "reset_bindings backend [] g = Some (Ok, g)"
| "reset_bindings backend (b # bs) g =
     (case rg_tensor g (sb_input b) of
        None \<Rightarrow> Some (Error kNotFound (''missing state: '' @ sb_input b), g)
      | Some p \<Rightarrow>
          (case clear_state p (rg_env g) of None \<Rightarrow> None
           | Some e \<Rightarrow> reset_bindings backend bs (g\<lparr>rg_env := HostWritten backend p e\<rparr>)))"

definition Reset :: "'b StateBackend \<Rightarrow> StatefulSession \<Rightarrow> ('b, 'd) RuntimeGraph \<Rightarrow>
    (status \<times> ('b, 'd) RuntimeGraph) option" where
  "Reset backend session g =
     (let contract = CheckTensorBindings g in
      if \<not> ok contract then Some (contract, g) else reset_bindings backend (ss_bindings session) g)"

end
