(* ===== verification/State_Memory.thy ===== *)
theory State_Memory
  imports Stateful_Session
begin

text \<open>
  One update of a stateful session in the memory model of \<open>Tensor_Storage\<close>: which bytes a write
  through a tensor changes, where windows move when a read-only buffer is copied, what an append
  to a cache leaves in it, and that exchanging storages exchanges values.
\<close>

section \<open>Windows of memory\<close>

definition placed :: "world \<Rightarrow> Tensor \<Rightarrow> nat \<Rightarrow> bool" where
  "placed w t k \<longleftrightarrow> (\<exists>s b. m_storage t = Some s \<and> s < length (storages w) \<and>
     st_materialized (storages w ! s) \<and> st_buffer (storages w ! s) = Some b \<and>
     m_offset t + k \<le> st_capacity (storages w ! s))"

lemma placedE:
  assumes "placed w t k"
  obtains s b where "m_storage t = Some s" "s < length (storages w)" "st_materialized (storages w ! s)"
    "st_buffer (storages w ! s) = Some b" "m_offset t + k \<le> st_capacity (storages w ! s)"
  using assms unfolding placed_def by blast

lemma placed_mono: "placed w t k \<Longrightarrow> j \<le> k \<Longrightarrow> placed w t j"
  by (auto simp: placed_def)

lemma placed_below_brk:
  assumes "placed w t k" and "world_ok w"
  shows "raw_address w t + k \<le> brk w"
proof -
  obtain s b where sb: "m_storage t = Some s" "s < length (storages w)"
    "st_buffer (storages w ! s) = Some b" "m_offset t + k \<le> st_capacity (storages w ! s)"
    using assms(1) by (rule placedE)
  have "b < length (buffers w)" "b_size (buffers w ! b) = st_capacity (storages w ! s)"
    using world_ok_storage[OF assms(2) sb(2)] sb(3) by (simp_all add: storage_ok_def)
  then show ?thesis using world_ok_buffer[OF assms(2), of b] sb by (simp add: raw_address_def)
qed

lemma tensor_bytes_placed:
  "placed w t k \<Longrightarrow> tensor_bytes w t k = Some (mem_read (mem w) (raw_address w t) k)"
  by (auto simp: placed_def tensor_bytes_def raw_address_def)

lemma raw_data_placed:
  assumes "placed w t k"
  shows "raw_data t w = (w, Some (raw_address w t))"
  using assms by (auto simp: placed_def raw_data_def storage_data_def materialize_def raw_address_def Let_def)

lemma read_bytes_placed:
  "placed w t k \<Longrightarrow> read_bytes t n w = (w, mem_read (mem w) (raw_address w t) n)"
  by (simp add: read_bytes_def raw_data_placed)

text \<open>
  \<open>w'\<close> is a later world in which the storage \<open>s\<close> may have been moved to fresh memory, and
  everything a placed window shows is kept.
\<close>

definition settled :: "world \<Rightarrow> world \<Rightarrow> nat \<Rightarrow> bool" where
  "settled w w' s \<longleftrightarrow> world_ok w' \<and>
     (\<forall>t k. placed w t k \<longrightarrow> placed w' t k \<and>
        mem_read (mem w') (raw_address w' t) k = mem_read (mem w) (raw_address w t) k) \<and>
     ((\<forall>t k. placed w t k \<longrightarrow> raw_address w' t = raw_address w t) \<or>
      (\<forall>t k. placed w t k \<longrightarrow>
         raw_address w' t = (if m_storage t = Some s then brk w + m_offset t else raw_address w t)))"

lemma resettled:
  assumes ok: "world_ok w" "world_ok w'" and s: "s < length (storages w)"
    and out: "same_outside w w' s" and gr: "grants w w' s b" and mat: "st_materialized (storages w' ! s)"
    and bytes: "\<And>u r k. m_storage u = Some r \<Longrightarrow> r < length (storages w) \<Longrightarrow>
      st_materialized (storages w ! r) \<Longrightarrow> m_offset u + k \<le> st_capacity (storages w ! r) \<Longrightarrow>
      tensor_bytes w' u k = tensor_bytes w u k"
  shows "settled w w' s"
proof -
  have kept: "storages w' ! r = storages w ! r" if "r \<noteq> s" for r
    using out that by (simp add: same_outside_def)
  have bs: "st_buffer (storages w' ! s) = Some b" using gr by (simp add: grants_def)
  have placed: "placed w' t k" if "placed w t k" for t k
  proof -
    from that obtain r c where r: "m_storage t = Some r" "r < length (storages w)"
      "st_materialized (storages w ! r)" "st_buffer (storages w ! r) = Some c"
      "m_offset t + k \<le> st_capacity (storages w ! r)" by (rule placedE)
    then show ?thesis using kept[of r] mat bs out
      by (cases "r = s") (auto simp: placed_def same_outside_def)
  qed
  have same: "mem_read (mem w') (raw_address w' t) k = mem_read (mem w) (raw_address w t) k"
    if p: "placed w t k" for t k
  proof -
    from p have "tensor_bytes w' t k = tensor_bytes w t k" by (elim placedE) (rule bytes)
    then show ?thesis using tensor_bytes_placed[OF p] tensor_bytes_placed[OF placed[OF p]] by simp
  qed
  have other: "raw_address w' t = raw_address w t" if "placed w t k" "m_storage t \<noteq> Some s" for t k
  proof -
    from that(1) obtain r c where r: "m_storage t = Some r" "r < length (storages w)"
      "st_buffer (storages w ! r) = Some c" by (rule placedE)
    have "c < length (buffers w)" using world_ok_storage[OF ok(1) r(2)] r(3) by (simp add: storage_ok_def)
    then show ?thesis using r kept[of r] that(2) out by (simp add: raw_address_def same_outside_def)
  qed
  have "(\<forall>t k. placed w t k \<longrightarrow> raw_address w' t = raw_address w t) \<or>
      (\<forall>t k. placed w t k \<longrightarrow>
         raw_address w' t = (if m_storage t = Some s then brk w + m_offset t else raw_address w t))"
  proof (cases "b_data (buffers w' ! b) = brk w")
    case True
    then show ?thesis using other bs by (auto simp: raw_address_def)
  next
    case False
    then have "st_buffer (storages w ! s) = Some b" "buffers w' ! b = buffers w ! b"
      using gr by (auto simp: grants_def)
    then have "raw_address w' t = raw_address w t" if "m_storage t = Some s" for t
      using that bs by (simp add: raw_address_def)
    then show ?thesis using other by blast
  qed
  then show ?thesis unfolding settled_def using ok(2) placed same by blast
qed

lemma open_window:
  assumes ok: "world_ok w" and x: "placed w x n" and n: "m_memory_size x = n"
  obtains w' x' s i where "mutable_data n x w = Some (w', x', Some (raw_address w' x))"
    and "x' = x\<lparr>m_immutable := i\<rparr>" and "m_storage x = Some s" and "settled w w' s"
proof -
  obtain s c where s: "m_storage x = Some s" "s < length (storages w)" "st_materialized (storages w ! s)"
    "st_buffer (storages w ! s) = Some c" "m_offset x + n \<le> st_capacity (storages w ! s)"
    using x by (rule placedE)
  have cap: "HasCapacity w x n" using s by (simp add: HasCapacity_def storage_size_def)
  have tok: "tensor_ok w x" using s by (simp add: tensor_ok_def)
  have "mutable_data n x w \<noteq> None"
    using s cap n by (auto simp: mutable_data_def EnsureWritable_def Let_def split: prod.splits)
  then obtain w' x' p where run: "mutable_data n x w = Some (w', x', p)" by auto
  from mutable_dataE[OF run ok tok] obtain s' where
    s': "m_storage x = Some s'"
    and w': "w' = materialize s' (MarkMutated s' (if storage_read_only s' w then MakeWritable s' w else w))"
    and p: "p = map_option (\<lambda>b. b_data (buffers w' ! b) + m_offset x) (st_buffer (storages w' ! s'))"
    and x': "x' = x\<lparr>m_memory_size := n, m_immutable := m_immutable x \<and> \<not> storage_read_only s' w\<rparr>"
    by metis
  have eq: "s' = s" using s s' by simp
  note w' = w'[unfolded eq] and p = p[unfolded eq] and x' = x'[unfolded eq]
  let ?v = "MarkMutated s (if storage_read_only s w then MakeWritable s w else w)"
  have okv: "world_ok ?v"
    using MakeWritable_world_ok[OF ok s(2)] ok by (simp add: world_ok_MarkMutated)
  have out: "same_outside w w' s" and okw: "world_ok w'"
    and gr: "\<And>b. st_buffer (storages w' ! s) = Some b \<Longrightarrow> grants w w' s b"
    using mark_writable[OF ok s(2)] mark_read_only(1-3)[OF ok s(2)] unfolding w'
    by (cases "storage_read_only s w"; simp)+
  have len: "s < length (storages w')" using out s(2) by (simp add: same_outside_def)
  have sv: "s < length (storages ?v)" using len unfolding w' by simp
  have mat: "st_materialized (storages w' ! s)"
    unfolding w' by (rule st_materialized_materialize[OF okv sv])
  have "st_buffer (storages w' ! s) \<noteq> None"
  proof
    assume none: "st_buffer (storages w' ! s) = None"
    have "st_buffer (storages ?v ! s) = None"
      using none materialize_buffer_cases[OF okv sv] unfolding w' by auto
    moreover have "st_buffer (storages (MakeWritable s w) ! s) \<noteq> None" if "storage_read_only s w"
      using MakeWritable_effect[OF ok s(2) that] by (metis option.simps(3))
    ultimately show False using s(4) by (auto split: if_splits)
  qed
  then obtain b where b: "st_buffer (storages w' ! s) = Some b" by blast
  have st: "settled w w' s"
  proof (rule resettled[OF ok okw s(2) out gr[OF b] mat])
    fix u :: Tensor and r k
    assume "m_storage u = Some r" "r < length (storages w)" "st_materialized (storages w ! r)"
      "m_offset u + k \<le> st_capacity (storages w ! r)"
    then show "tensor_bytes w' u k = tensor_bytes w u k"
      by (rule mutable_data_keeps_bytes[OF ok tok run])
  qed
  have "p = Some (raw_address w' x)" using p b s(1) by (simp add: raw_address_def)
  moreover have "x' = x\<lparr>m_immutable := m_immutable x \<and> \<not> storage_read_only s w\<rparr>"
    using x' n by (cases x) simp
  ultimately show thesis using that run s(1) st by simp
qed

lemma settled_disjoint:
  assumes "settled w w' s" and "world_ok w" and "placed w t n" and "placed w u k"
    and "byte_range w t n \<inter> byte_range w u k = {}"
  shows "byte_range w' t n \<inter> byte_range w' u k = {}"
proof -
  have below: "raw_address w t + n \<le> brk w" "raw_address w u + k \<le> brk w"
    using placed_below_brk assms(2-4) by blast+
  consider (stay) "raw_address w' t = raw_address w t" "raw_address w' u = raw_address w u"
    | (move) "\<And>v j. placed w v j \<Longrightarrow>
        raw_address w' v = (if m_storage v = Some s then brk w + m_offset v else raw_address w v)"
    using assms(1,3,4) unfolding settled_def by blast
  then show ?thesis
  proof cases
    case stay
    then show ?thesis using assms(5) by (simp add: byte_range_def)
  next
    case move
    obtain a where "raw_address w v = a + m_offset v" if "m_storage v = Some s" for v
      by (simp add: raw_address_def)
    then have "raw_address w' t = raw_address w t \<and> raw_address w' u = raw_address w u \<or>
        raw_address w' t = raw_address w t \<and> brk w \<le> raw_address w' u \<or>
        brk w \<le> raw_address w' t \<and> raw_address w' u = raw_address w u \<or>
        (\<exists>d. raw_address w' t + a = raw_address w t + brk w \<and> raw_address w' u + a = raw_address w u + brk w)"
      using move[OF assms(3)] move[OF assms(4)] by auto
    then show ?thesis using assms(5) below unfolding byte_range_def
      by (auto simp: Int_atLeastLessThan max_def min_def split: if_splits)
  qed
qed

section \<open>The tensors of a batch\<close>

definition state_value :: "'b rt_env \<Rightarrow> nat \<Rightarrow> u8 list" where
  "state_value e p =
     mem_read (mem (x_world e)) (raw_address (x_world e) (x_heap e ! p)) (state_bytes (x_heap e ! p))"

definition state_range :: "'b rt_env \<Rightarrow> nat \<Rightarrow> nat set" where
  "state_range e p = byte_range (x_world e) (x_heap e ! p) (state_bytes (x_heap e ! p))"

text \<open>A tensor whose memory is there, large enough for its shape and inside its storage.\<close>

definition state_ready :: "'b rt_env \<Rightarrow> nat \<Rightarrow> bool" where
  "state_ready e p \<longleftrightarrow> p < length (x_heap e) \<and>
     placed (x_world e) (x_heap e ! p) (m_memory_size (x_heap e ! p)) \<and>
     state_bytes (x_heap e ! p) \<le> m_memory_size (x_heap e ! p)"

definition disjoint_states :: "nat set \<Rightarrow> 'b rt_env \<Rightarrow> bool" where
  "disjoint_states X e \<longleftrightarrow> world_ok (x_world e) \<and> (\<forall>p \<in> X. state_ready e p) \<and>
     (\<forall>p \<in> X. \<forall>q \<in> X. p \<noteq> q \<longrightarrow> state_range e p \<inter> state_range e q = {})"

text \<open>The descriptions of the tensors are kept.\<close>

definition same_shapes :: "'b rt_env \<Rightarrow> 'b rt_env \<Rightarrow> bool" where
  "same_shapes e e' \<longleftrightarrow> length (x_heap e) \<le> length (x_heap e') \<and>
     (\<forall>r < length (x_heap e). m_dims (x_heap e' ! r) = m_dims (x_heap e ! r) \<and>
        m_data_type (x_heap e' ! r) = m_data_type (x_heap e ! r))"

definition same_views :: "'b rt_env \<Rightarrow> 'b rt_env \<Rightarrow> bool" where
  "same_views e e' \<longleftrightarrow> (\<forall>r < length (x_heap e). m_storage (x_heap e' ! r) = m_storage (x_heap e ! r) \<and>
     m_offset (x_heap e' ! r) = m_offset (x_heap e ! r))"

lemma same_shapes_refl: "same_shapes e e"
  by (simp add: same_shapes_def)

lemma same_shapes_trans: "same_shapes a b \<Longrightarrow> same_shapes b c \<Longrightarrow> same_shapes a c"
  by (auto simp: same_shapes_def)

lemma state_bytes_shape:
  "same_shapes e e' \<Longrightarrow> p < length (x_heap e) \<Longrightarrow> state_bytes (x_heap e' ! p) = state_bytes (x_heap e ! p)"
  by (simp add: same_shapes_def state_bytes_def)

lemma same_window:
  "m_storage t = m_storage u \<Longrightarrow> m_offset t = m_offset u \<Longrightarrow> raw_address w t = raw_address w u"
  "m_storage t = m_storage u \<Longrightarrow> m_offset t = m_offset u \<Longrightarrow> placed w t k = placed w u k"
  by (auto simp: raw_address_def placed_def split: option.split)

lemma immutable_update [simp]:
  "raw_address w (x\<lparr>m_immutable := i\<rparr>) = raw_address w x"
  "placed w (x\<lparr>m_immutable := i\<rparr>) k = placed w x k"
  "state_bytes (x\<lparr>m_immutable := i\<rparr>) = state_bytes x"
  by (auto simp: state_bytes_def placed_def intro: same_window(1))

lemma mem_update [simp]:
  "raw_address (w\<lparr>mem := m\<rparr>) x = raw_address w x"
  "placed (w\<lparr>mem := m\<rparr>) x k = placed w x k"
  by (auto simp: raw_address_def placed_def split: option.split)

lemma disjoint_states_mono: "disjoint_states X e \<Longrightarrow> Y \<subseteq> X \<Longrightarrow> disjoint_states Y e"
  unfolding disjoint_states_def by blast

lemma length_state_value [simp]: "length (state_value e p) = state_bytes (x_heap e ! p)"
  by (simp add: state_value_def)

lemma state_value_empty: "state_bytes (x_heap e ! p) = 0 \<Longrightarrow> state_value e p = []"
  by (simp add: state_value_def mem_read_def)

text \<open>Writing the window of one tensor of the batch.\<close>

lemma write_state:
  assumes D: "disjoint_states X e" and p: "p \<in> X"
    and x: "x = x_heap e ! p" and x': "x' = x\<lparr>m_immutable := i\<rparr>" and st: "settled (x_world e) w1 s"
    and a: "a = raw_address w1 x"
    and m: "\<And>z. z < a \<or> a + state_bytes x \<le> z \<Longrightarrow> m z = mem w1 z"
    and e': "e' = e\<lparr>x_heap := (x_heap e)[p := x'], x_world := w1\<lparr>mem := m\<rparr>\<rparr>"
  shows "disjoint_states X e'" and "state_value e' p = mem_read m a (state_bytes x)"
    and "\<And>q. q \<in> X \<Longrightarrow> q \<noteq> p \<Longrightarrow> state_value e' q = state_value e q"
    and "same_shapes e e'" and "same_views e e'"
proof -
  let ?w = "x_world e"
  have ok: "world_ok ?w" using D by (simp add: disjoint_states_def)
  have lt: "q < length (x_heap e)" if "q \<in> X" for q
    using D that by (simp add: disjoint_states_def state_ready_def)
  have heap: "x_heap e' ! q = (if q = p then x' else x_heap e ! q)" if "q \<in> X" for q
    using lt[OF that] lt[OF p] by (simp add: e' nth_list_update)
  have bytes: "state_bytes (x_heap e' ! q) = state_bytes (x_heap e ! q)" if "q \<in> X" for q
    using heap[OF that] by (simp add: x' x)
  have addr: "raw_address (x_world e') (x_heap e' ! q) = raw_address w1 (x_heap e ! q)" if "q \<in> X" for q
    using heap[OF that] by (simp add: e' x' x)
  have pl: "placed ?w (x_heap e ! q) (m_memory_size (x_heap e ! q))" if "q \<in> X" for q
    using D that by (simp add: disjoint_states_def state_ready_def)
  have pls: "placed ?w (x_heap e ! q) (state_bytes (x_heap e ! q))" if "q \<in> X" for q
    using D that placed_mono by (auto simp: disjoint_states_def state_ready_def)
  have ready: "state_ready e' q" if "q \<in> X" for q
  proof -
    have "placed w1 (x_heap e ! q) (m_memory_size (x_heap e ! q))"
      using st pl[OF that] by (simp add: settled_def)
    moreover have "state_bytes (x_heap e ! q) \<le> m_memory_size (x_heap e ! q)"
      using D that by (simp add: disjoint_states_def state_ready_def)
    ultimately show ?thesis
      using heap[OF that] lt[OF that] by (cases "q = p") (simp_all add: state_ready_def e' x' x)
  qed
  have apart: "byte_range w1 (x_heap e ! q) (state_bytes (x_heap e ! q)) \<inter>
      byte_range w1 (x_heap e ! r) (state_bytes (x_heap e ! r)) = {}"
    if "q \<in> X" "r \<in> X" "q \<noteq> r" for q r
    using that D by (intro settled_disjoint[OF st ok pls[OF that(1)] pls[OF that(2)]])
      (simp add: disjoint_states_def state_range_def)
  have ranges: "state_range e' q = byte_range w1 (x_heap e ! q) (state_bytes (x_heap e ! q))" if "q \<in> X" for q
    unfolding state_range_def byte_range_def by (simp only: addr[OF that] bytes[OF that])
  show "disjoint_states X e'"
    unfolding disjoint_states_def using ready apart ranges st
    by (simp add: e' settled_def)
  show "state_value e' p = mem_read m a (state_bytes x)"
    unfolding state_value_def using addr[OF p] bytes[OF p] by (simp add: a x e')
  show "state_value e' q = state_value e q" if q: "q \<in> X" "q \<noteq> p" for q
  proof -
    let ?n = "state_bytes (x_heap e ! q)" and ?b = "raw_address w1 (x_heap e ! q)"
    have "mem_read m ?b ?n = mem_read (mem w1) ?b ?n"
    proof (rule mem_read_cong)
      fix z assume z: "?b \<le> z" "z < ?b + ?n"
      then have "z \<notin> byte_range w1 x (state_bytes x)"
        using apart[OF q(1) p q(2)] by (auto simp: byte_range_def x)
      then show "m z = mem w1 z" using m by (auto simp: byte_range_def a)
    qed
    then show ?thesis
      unfolding state_value_def addr[OF q(1)] bytes[OF q(1)]
      using st pls[OF q(1)] by (simp add: e' settled_def)
  qed
  show "same_shapes e e'" "same_views e e'"
    using lt[OF p] by (auto simp: same_shapes_def same_views_def e' nth_list_update x' x)
qed

lemma read_settled:
  assumes "disjoint_states X e" and "q \<in> X" and "settled (x_world e) w1 s"
  shows "read_bytes (x_heap e ! q) (state_bytes (x_heap e ! q)) w1 = (w1, state_value e q)"
    and "raw_data (x_heap e ! q) w1 = (w1, Some (raw_address w1 (x_heap e ! q)))"
proof -
  have "placed (x_world e) (x_heap e ! q) (state_bytes (x_heap e ! q))"
    using assms(1,2) placed_mono by (auto simp: disjoint_states_def state_ready_def)
  then have p: "placed w1 (x_heap e ! q) (state_bytes (x_heap e ! q))"
    and eq: "mem_read (mem w1) (raw_address w1 (x_heap e ! q)) (state_bytes (x_heap e ! q)) = state_value e q"
    using assms(3) by (simp_all add: settled_def state_value_def)
  show "read_bytes (x_heap e ! q) (state_bytes (x_heap e ! q)) w1 = (w1, state_value e q)"
    by (simp add: read_bytes_placed[OF p] eq)
  show "raw_data (x_heap e ! q) w1 = (w1, Some (raw_address w1 (x_heap e ! q)))"
    by (rule raw_data_placed[OF p])
qed

text \<open>Copying: \<open>move_bytes\<close>.\<close>

lemma move_bytes_state:
  assumes D: "disjoint_states X e" and pq: "p \<in> X" "q \<in> X" "p \<noteq> q"
    and n: "state_bytes (x_heap e ! p) = n" "state_bytes (x_heap e ! q) = n"
  shows "\<exists>e'. move_bytes p q n e = Some e' \<and> disjoint_states X e' \<and> state_value e' p = state_value e q \<and>
     (\<forall>r \<in> X. r \<noteq> p \<longrightarrow> state_value e' r = state_value e r) \<and> same_shapes e e' \<and> same_views e e'"
proof -
  let ?x = "x_heap e ! p"
  have ok: "world_ok (x_world e)" and pl: "placed (x_world e) ?x (m_memory_size ?x)"
    using D pq(1) by (auto simp: disjoint_states_def state_ready_def)
  obtain w1 x' s i where run: "mutable_data (m_memory_size ?x) ?x (x_world e) = Some (w1, x', Some (raw_address w1 ?x))"
    and x': "x' = ?x\<lparr>m_immutable := i\<rparr>" and st: "settled (x_world e) w1 s"
    using open_window[OF ok pl refl] by metis
  let ?m = "mem_write (mem w1) (raw_address w1 ?x) (state_value e q)"
  let ?e = "e\<lparr>x_heap := (x_heap e)[p := x'], x_world := w1\<lparr>mem := ?m\<rparr>\<rparr>"
  have "move_bytes p q n e = Some ?e"
    using run read_settled(1)[OF D pq(2) st] pq(3) n by (simp add: move_bytes_def Let_def)
  moreover have "mem_read ?m (raw_address w1 ?x) n = state_value e q"
    using mem_read_write_same[of "mem w1" "raw_address w1 ?x" "state_value e q"] n by simp
  moreover note write_state[OF D pq(1) refl x' st refl, of ?m ?e]
  ultimately show ?thesis using n by (simp add: mem_write_other)
qed

text \<open>Exchanging: \<open>SwapStorage\<close>.\<close>

lemma MarkStorageMutated_sel [simp]:
  "mem (MarkStorageMutated t w) = mem w" "buffers (MarkStorageMutated t w) = buffers w"
  "raw_address (MarkStorageMutated t w) x = raw_address w x"
  "placed (MarkStorageMutated t w) x k = placed w x k"
  by (auto simp: MarkStorageMutated_def raw_address_def placed_def split: option.splits)

lemma world_ok_MarkStorageMutated: "world_ok w \<Longrightarrow> world_ok (MarkStorageMutated t w)"
  by (simp add: MarkStorageMutated_def world_ok_MarkMutated split: option.split)

lemma swap_state:
  assumes D: "disjoint_states X e" and pq: "p \<in> X" "q \<in> X" "p \<noteq> q"
    and n: "state_bytes (x_heap e ! p) = n" "state_bytes (x_heap e ! q) = n"
    and sw: "SwapStorage (x_heap e ! p) (x_heap e ! q) (x_world e) = (w, x', y')"
    and e': "e' = e\<lparr>x_heap := (x_heap e)[p := x', q := y'], x_world := w\<rparr>"
  shows "disjoint_states X e'" and "state_value e' p = state_value e q"
    and "\<And>r. r \<in> X \<Longrightarrow> r \<noteq> p \<Longrightarrow> r \<noteq> q \<Longrightarrow> state_value e' r = state_value e r"
    and "same_shapes e e'"
    and "\<And>r. r < length (x_heap e) \<Longrightarrow> r \<noteq> p \<Longrightarrow> r \<noteq> q \<Longrightarrow> x_heap e' ! r = x_heap e ! r"
proof -
  let ?x = "x_heap e ! p" and ?y = "x_heap e ! q"
  have lt: "r < length (x_heap e)" if "r \<in> X" for r
    using D that by (simp add: disjoint_states_def state_ready_def)
  have w: "mem w = mem (x_world e)" "raw_address w t = raw_address (x_world e) t"
    "placed w t k = placed (x_world e) t k" "world_ok w" for t k
    using sw D by (auto simp: SwapStorage_def Let_def disjoint_states_def intro!: world_ok_MarkStorageMutated)
  define f where "f r = (if r = p then q else if r = q then p else r)" for r
  have inX: "f r \<in> X" if "r \<in> X" for r using that pq by (simp add: f_def)
  have heap: "x_heap e' ! r = (if r = p then x' else if r = q then y' else x_heap e ! r)" if "r < length (x_heap e)" for r
    using that lt pq by (simp add: e' nth_list_update)
  have xy: "x' = ?x\<lparr>m_storage := m_storage ?y, m_memory_size := m_memory_size ?y, m_offset := m_offset ?y\<rparr>"
    "y' = ?y\<lparr>m_storage := m_storage ?x, m_memory_size := m_memory_size ?x, m_offset := m_offset ?x\<rparr>"
    using sw by (auto simp: SwapStorage_def Let_def)
  have bytes: "state_bytes (x_heap e' ! r) = state_bytes (x_heap e ! f r)" if "r \<in> X" for r
    using heap[OF lt[OF that]] n by (auto simp: xy state_bytes_def f_def)
  have addr: "raw_address w (x_heap e' ! r) = raw_address (x_world e) (x_heap e ! f r)"
    "placed w (x_heap e' ! r) k = placed (x_world e) (x_heap e ! f r) k"
    "m_memory_size (x_heap e' ! r) = m_memory_size (x_heap e ! f r)" if "r \<in> X" for r k
  proof -
    have win: "m_storage (x_heap e' ! r) = m_storage (x_heap e ! f r)"
      "m_offset (x_heap e' ! r) = m_offset (x_heap e ! f r)"
      using heap[OF lt[OF that]] by (simp_all add: xy f_def)
    show "raw_address w (x_heap e' ! r) = raw_address (x_world e) (x_heap e ! f r)"
      "placed w (x_heap e' ! r) k = placed (x_world e) (x_heap e ! f r) k"
      using same_window[OF win] w by simp_all
    show "m_memory_size (x_heap e' ! r) = m_memory_size (x_heap e ! f r)"
      using heap[OF lt[OF that]] by (simp add: xy f_def)
  qed
  have shown: "state_value e' r = state_value e (f r)" if "r \<in> X" for r
    using addr(1)[OF that] bytes[OF that] w(1) by (simp add: state_value_def e')
  have range: "state_range e' r = state_range e (f r)" if "r \<in> X" for r
    using addr(1)[OF that] bytes[OF that] by (simp add: state_range_def byte_range_def e')
  have "state_ready e' r" if "r \<in> X" for r
  proof -
    have "state_ready e (f r)" using D inX[OF that] by (simp add: disjoint_states_def)
    then show ?thesis using addr[OF that] bytes[OF that] lt[OF that] by (simp add: state_ready_def e')
  qed
  moreover have "state_range e' r \<inter> state_range e' t = {}" if "r \<in> X" "t \<in> X" "r \<noteq> t" for r t
  proof -
    have "f r \<noteq> f t" using that(3) by (auto simp: f_def split: if_splits)
    then show ?thesis using D inX that by (simp add: range disjoint_states_def)
  qed
  ultimately show "disjoint_states X e'" using w(4) by (simp add: disjoint_states_def e')
  show "state_value e' p = state_value e q" using shown[OF pq(1)] by (simp add: f_def)
  show "state_value e' r = state_value e r" if "r \<in> X" "r \<noteq> p" "r \<noteq> q" for r
    using shown[OF that(1)] that by (simp add: f_def)
  have "m_dims (x_heap e' ! r) = m_dims (x_heap e ! r) \<and> m_data_type (x_heap e' ! r) = m_data_type (x_heap e ! r)"
    if "r < length (x_heap e)" for r
    using heap[OF that] by (simp add: xy)
  moreover have "length (x_heap e') = length (x_heap e)" by (simp add: e')
  ultimately show "same_shapes e e'" by (simp add: same_shapes_def)
  show "x_heap e' ! r = x_heap e ! r" if "r < length (x_heap e)" "r \<noteq> p" "r \<noteq> q" for r
    using heap[OF that(1)] that by simp
qed

section \<open>Appending to a cache\<close>

text \<open>
  The cache after an append, on the bytes: \<open>outer\<close> rows of \<open>slots\<close> blocks each move one block
  down and take the next block of the output as their last.
\<close>

definition append_bytes :: "nat \<Rightarrow> nat \<Rightarrow> nat \<Rightarrow> u8 list \<Rightarrow> u8 list \<Rightarrow> u8 list" where
  "append_bytes outer slots block xs ys =
     map (\<lambda>k. let row = k div (slots * block); pos = k mod (slots * block) in
            if pos + block < slots * block then xs ! (k + block)
            else ys ! (row * block + (pos + block - slots * block)))
       [0..<outer * (slots * block)]"

lemma length_append_bytes [simp]: "length (append_bytes outer slots block xs ys) = outer * (slots * block)"
  by (simp add: append_bytes_def)

lemma append_loop:
  assumes source: "\<And>m' i. i < outer \<Longrightarrow> (\<And>z. z < D \<or> D + outer * S \<le> z \<Longrightarrow> m' z = m z) \<Longrightarrow> source m' i = ys i"
    and len: "\<And>i. i < outer \<Longrightarrow> length (ys i) = block" and S: "S = slots * block" and slots: "1 \<le> slots"
    and k: "k \<le> outer"
  shows "fold (append_slot D slots block source) [0..<k] m =
    (\<lambda>z. if D \<le> z \<and> z < D + k * S
         then (let r = (z - D) mod S in if r + block < S then m (z + block) else ys ((z - D) div S) ! (r + block - S))
         else m z)"
  using k
proof (induction k)
  case 0
  then show ?case by (auto simp: fun_eq_iff)
next
  case (Suc k)
  let ?m = "fold (append_slot D slots block source) [0..<k] m"
  let ?C = "D + k * S"
  have SB: "(slots - 1) * block = S - block" "block \<le> S"
    using slots by (simp_all add: S diff_mult_distrib)
  have IH: "?m z = (if D \<le> z \<and> z < ?C
      then (let r = (z - D) mod S in if r + block < S then m (z + block) else ys ((z - D) div S) ! (r + block - S))
      else m z)" for z
    using Suc by simp
  have C: "D + k * slots * block = ?C" by (simp add: S mult.assoc)
  let ?m1 = "mem_write ?m ?C (mem_read ?m (?C + block) (S - block))"
  have step: "append_slot D slots block source k ?m = mem_write ?m1 (?C + (S - block)) (source ?m1 k)"
    by (simp only: append_slot_def Let_def SB(1) C)
  have next_le: "k * S + S \<le> outer * S" using Suc.prems by (metis Suc_le_eq mult_Suc mult_le_mono1 add.commute Suc_leI)
  have src: "source ?m1 k = ys k"
  proof (rule source)
    show "k < outer" using Suc.prems by simp
    fix z assume z: "z < D \<or> D + outer * S \<le> z"
    then have "?m1 z = ?m z" using next_le SB(2) by (intro mem_write_other) auto
    also have "\<dots> = m z"
    proof -
      have "\<not> (D \<le> z \<and> z < ?C)" using z next_le by linarith
      then show ?thesis by (simp only: IH if_False)
    qed
    finally show "?m1 z = m z" .
  qed
  have lk: "length (ys k) = block" using len Suc.prems by simp
  have unseen: "?m z = m z" if "?C \<le> z" for z using that by (simp add: IH)
  have row: "(z - D) div S = k" "(z - D) mod S = z - ?C" if "?C \<le> z" "z < ?C + S" for z
  proof -
    have e: "z - D = k * S + (z - ?C)" and l: "z - ?C < S" using that by simp_all
    show "(z - D) div S = k" by (subst e) (use l in simp)
    show "(z - D) mod S = z - ?C" by (subst e) (use l in simp)
  qed
  have "mem_write ?m1 (?C + (S - block)) (ys k) z =
      (if D \<le> z \<and> z < D + Suc k * S
       then (let r = (z - D) mod S in if r + block < S then m (z + block) else ys ((z - D) div S) ! (r + block - S))
       else m z)" for z
  proof -
    consider (out) "z < ?C" | (high) "?C + S \<le> z" | (shift) "?C \<le> z" "z + block < ?C + S"
      | (new) "?C \<le> z" "z < ?C + S" "?C + S \<le> z + block" by linarith
    then show ?thesis
    proof cases
      case out
      then have "mem_write ?m1 (?C + (S - block)) (ys k) z = ?m z"
        by (simp add: mem_write_def)
      then show ?thesis using out IH[of z] by auto
    next
      case high
      then have "mem_write ?m1 (?C + (S - block)) (ys k) z = ?m1 z"
        using SB(2) lk by (intro mem_write_other) auto
      also have "\<dots> = ?m z" using high SB(2) by (intro mem_write_other) auto
      finally show ?thesis using high unseen[of z] by simp
    next
      case shift
      then have lt: "z < ?C + (S - block)" using SB(2) by linarith
      then have "mem_write ?m1 (?C + (S - block)) (ys k) z = ?m1 z"
        by (intro mem_write_other) simp
      also have "\<dots> = ?m (z + block)"
        using lt shift SB(2) by (simp add: mem_write_def add.commute)
      finally have "mem_write ?m1 (?C + (S - block)) (ys k) z = ?m (z + block)" .
      moreover have "z + block - ?C < S" using shift by linarith
      ultimately show ?thesis using shift unseen[of "z + block"] row[of z] by simp
    next
      case new
      then have "?C + (S - block) \<le> z \<and> z < ?C + (S - block) + length (ys k)"
        using SB(2) lk by linarith
      then have "mem_write ?m1 (?C + (S - block)) (ys k) z = ys k ! (z - (?C + (S - block)))"
        by (simp only: mem_write_def if_True simp_thms)
      moreover have "z - (?C + (S - block)) = z - ?C + block - S" using new SB(2) by simp
      moreover have "\<not> z + block - ?C < S" using new by linarith
      ultimately show ?thesis using new row[of z] by simp
    qed
  qed
  then show ?case using step src by (auto simp: fun_eq_iff)
qed

lemma append_loop_bytes:
  assumes source: "\<And>m' i. i < outer \<Longrightarrow> (\<And>z. z < D \<or> D + outer * S \<le> z \<Longrightarrow> m' z = m z) \<Longrightarrow>
      source m' i = take block (drop (i * block) ys)"
    and len: "length ys = outer * block" and S: "S = slots * block" and slots: "1 \<le> slots"
    and m': "m' = fold (append_slot D slots block source) [0..<outer] m"
  shows "mem_read m' D (outer * S) = append_bytes outer slots block (mem_read m D (outer * S)) ys"
    and "z < D \<or> D + outer * S \<le> z \<Longrightarrow> m' z = m z"
proof -
  have piece: "length (take block (drop (i * block) ys)) = block" if "i < outer" for i
  proof -
    have "i * block + block \<le> outer * block" using that by (metis Suc_leI mult_Suc add.commute mult_le_mono1)
    then show ?thesis by (simp add: len)
  qed
  have loop: "m' = (\<lambda>z. if D \<le> z \<and> z < D + outer * S
      then (let r = (z - D) mod S in if r + block < S then m (z + block)
            else take block (drop ((z - D) div S * block) ys) ! (r + block - S))
      else m z)"
    unfolding m' by (rule append_loop[OF source piece S slots order_refl])
  show "m' z = m z" if "z < D \<or> D + outer * S \<le> z"
    using that by (auto simp: loop)
  show "mem_read m' D (outer * S) = append_bytes outer slots block (mem_read m D (outer * S)) ys"
  proof (rule nth_equalityI)
    show "length (mem_read m' D (outer * S)) = length (append_bytes outer slots block (mem_read m D (outer * S)) ys)"
      by (simp add: S)
    fix k assume "k < length (mem_read m' D (outer * S))"
    then have k: "k < outer * S" by simp
    then have Spos: "0 < S" by (cases S) auto
    have row: "k div S < outer" using k Spos by (simp add: less_mult_imp_div_less)
    have split: "k = k div S * S + k mod S" by simp
    have up: "k div S * S + S \<le> outer * S" using row by (metis Suc_leI mult_Suc add.commute mult_le_mono1)
    have "block \<le> S" using slots by (simp add: S)
    have at: "m' (D + k) = (if k mod S + block < S then m (D + k + block)
        else take block (drop (k div S * block) ys) ! (k mod S + block - S))"
      using k by (simp add: loop Let_def)
    have "k + block < outer * S" if "k mod S + block < S"
      using that up split by linarith
    moreover have "take block (drop (k div S * block) ys) ! (k mod S + block - S) =
        ys ! (k div S * block + (k mod S + block - S))" if "\<not> k mod S + block < S"
    proof -
      have "k mod S + block - S < block" using Spos S mod_less_divisor[OF Spos, of k] \<open>block \<le> S\<close>
        by (cases "block = 0") (simp, linarith)
      moreover have "k div S * block + block \<le> length ys"
        using row len by (metis Suc_leI mult_Suc add.commute mult_le_mono1)
      ultimately show ?thesis by simp
    qed
    ultimately show "mem_read m' D (outer * S) ! k =
        append_bytes outer slots block (mem_read m D (outer * S)) ys ! k"
      using k at by (simp add: append_bytes_def Let_def add.assoc flip: S)
  qed
qed

lemma fold_mul64:
  "r < 18446744073709551616 \<Longrightarrow> (\<And>d. d \<in> set ds \<Longrightarrow> 0 \<le> d) \<Longrightarrow>
     fold (\<lambda>d acc. mul64 acc (nat d)) ds r = (r * nat (prod_list ds)) mod 18446744073709551616"
proof (induction ds arbitrary: r)
  case (Cons d ds)
  have "fold (\<lambda>d acc. mul64 acc (nat d)) (d # ds) r = (mul64 r (nat d) * nat (prod_list ds)) mod 18446744073709551616"
    using Cons by (simp add: mul64_def)
  also have "\<dots> = (r * nat d * nat (prod_list ds)) mod 18446744073709551616"
    by (simp add: mul64_def mod_mult_left_eq)
  finally show ?case using Cons.prems(2) by (simp add: nat_mult_distrib mult.assoc)
qed simp

text \<open>The sizes the append computes, where neither product wraps, or the state is empty.\<close>

lemma append_sizes:
  assumes a: "CheckedTensorBytes a dt = Some n" and b: "CheckedTensorBytes b dt = Some k"
    and el: "DataTypeBytes dt \<noteq> 0" and axis: "axis < length a" "length b = length a" "b ! axis = 1"
    and rest: "append_dims_ok axis a b"
  defines "outer \<equiv> nat (prod_list (take axis a))"
    and "block \<equiv> nat (prod_list (drop (axis + 1) a)) * DataTypeBytes dt"
  shows "n = outer * (nat (a ! axis) * block)" and "k = outer * block"
    and "n \<noteq> 0 \<Longrightarrow> fold (\<lambda>d acc. mul64 acc (nat d)) (take axis a) 1 = outer"
    and "n \<noteq> 0 \<Longrightarrow> mul64 (fold (\<lambda>d acc. mul64 acc (nat d)) (drop (axis + 1) a) 1) (DataTypeBytes dt) = block"
    and "n = 0 \<Longrightarrow> 1 < a ! axis \<Longrightarrow> fold (\<lambda>d acc. mul64 acc (nat d)) (take axis a) 1 = 0 \<or>
      mul64 (fold (\<lambda>d acc. mul64 acc (nat d)) (drop (axis + 1) a) 1) (DataTypeBytes dt) = 0"
proof -
  let ?e = "DataTypeBytes dt" and ?o = "prod_list (take axis a)" and ?i = "prod_list (drop (axis + 1) a)"
  have dt: "dt \<noteq> INT4" using el by auto
  have nonneg: "\<forall>d \<in> set a. 0 \<le> d" and n: "n = nat (prod_list a) * ?e"
    and k: "k = nat (prod_list b) * ?e" and le: "n \<le> SIZE_MAX"
    using a b dt CheckedTensorBytes_bound[OF a] unfolding CheckedTensorBytes_def CheckedByteCount_spec CheckedElementCount_spec
    by (auto split: if_splits)
  have na: "\<forall>d \<in> set (take axis a). 0 \<le> d" "\<forall>d \<in> set (drop (axis + 1) a). 0 \<le> d" "0 \<le> a ! axis"
    using nonneg axis(1) by (auto dest: in_set_takeD in_set_dropD)
  have pos: "0 \<le> ?o" "0 \<le> ?i" using na by (induction a) (auto simp: prod_list_nonneg)
  have split_a: "prod_list a = ?o * (a ! axis * ?i)"
    using id_take_nth_drop[OF axis(1)] by (metis Suc_eq_plus1 prod_list.Cons prod_list.append)
  have tb: "take axis b = take axis a" "drop (axis + 1) b = drop (axis + 1) a"
    using rest axis by (auto intro!: nth_equalityI simp: append_dims_ok_def)
  have "prod_list b = ?o * (b ! axis * ?i)"
    using id_take_nth_drop[of axis b] axis tb by (metis Suc_eq_plus1 prod_list.Cons prod_list.append)
  then have split_b: "prod_list b = ?o * ?i" using axis(3) by simp
  show nn: "n = outer * (nat (a ! axis) * block)"
    unfolding n split_a outer_def block_def using pos na(3) by (simp add: nat_mult_distrib mult.assoc)
  show "k = outer * block"
    unfolding k split_b outer_def block_def using pos by (simp add: nat_mult_distrib mult.assoc)
  have fo: "fold (\<lambda>d acc. mul64 acc (nat d)) (take axis a) 1 = outer mod 18446744073709551616"
    using fold_mul64[of 1 "take axis a"] na(1) by (simp add: outer_def)
  have fi: "mul64 (fold (\<lambda>d acc. mul64 acc (nat d)) (drop (axis + 1) a) 1) ?e = block mod 18446744073709551616"
    using fold_mul64[of 1 "drop (axis + 1) a"] na(2) by (simp add: block_def mul64_def mod_mult_left_eq)
  have "outer \<le> n \<and> block \<le> n" if "n \<noteq> 0"
    using that unfolding nn by (simp add: Suc_leI)
  then show "n \<noteq> 0 \<Longrightarrow> fold (\<lambda>d acc. mul64 acc (nat d)) (take axis a) 1 = outer"
    and "n \<noteq> 0 \<Longrightarrow> mul64 (fold (\<lambda>d acc. mul64 acc (nat d)) (drop (axis + 1) a) 1) ?e = block"
    using le unfolding fo fi SIZE_MAX_def by auto
  show "n = 0 \<Longrightarrow> 1 < a ! axis \<Longrightarrow> fold (\<lambda>d acc. mul64 acc (nat d)) (take axis a) 1 = 0 \<or>
      mul64 (fold (\<lambda>d acc. mul64 acc (nat d)) (drop (axis + 1) a) 1) ?e = 0"
    unfolding fo fi nn by auto
qed

lemma mem_read_slice: "c + j \<le> n \<Longrightarrow> take c (drop j (mem_read m a n)) = mem_read m (a + j) c"
  by (rule nth_equalityI) (simp_all add: add.assoc)

lemma append_slot_nothing:
  assumes "outer = 0 \<or> block = 0" and "\<And>m i. block = 0 \<Longrightarrow> source m i = []"
  shows "fold (append_slot D slots block source) [0..<outer] m = m"
proof -
  have "append_slot D slots block source i m' = m'" if "block = 0" for i m'
    using that assms(2) by (auto simp: append_slot_def Let_def mem_write_def mem_read_def fun_eq_iff)
  then have "fold (append_slot D slots block source) is m = m" if "block = 0" for "is" using that
    by (induction "is") simp_all
  then show ?thesis using assms(1) by auto
qed

text \<open>The tensors of an update have compatible shapes.\<close>

definition state_pair :: "StateBinding \<Rightarrow> Tensor \<Rightarrow> Tensor \<Rightarrow> bool" where
  "state_pair b x y \<longleftrightarrow> m_data_type x = m_data_type y \<and>
     CheckedTensorBytes (m_dims x) (m_data_type x) \<noteq> None \<and> CheckedTensorBytes (m_dims y) (m_data_type y) \<noteq> None \<and>
     (if sb_axis b < 0 then m_dims x = m_dims y
      else DataTypeBytes (m_data_type x) \<noteq> 0 \<and> nat (sb_axis b) < length (m_dims x) \<and>
           length (m_dims y) = length (m_dims x) \<and> 1 < m_dims x ! nat (sb_axis b) \<and>
           m_dims y ! nat (sb_axis b) = 1 \<and> append_dims_ok (nat (sb_axis b)) (m_dims x) (m_dims y))"

definition next_state :: "StateBinding \<Rightarrow> Tensor \<Rightarrow> u8 list \<Rightarrow> u8 list \<Rightarrow> u8 list" where
  "next_state b x xs ys =
     (if sb_axis b < 0 then ys
      else append_bytes (nat (prod_list (take (nat (sb_axis b)) (m_dims x)))) (nat (m_dims x ! nat (sb_axis b)))
             (nat (prod_list (drop (nat (sb_axis b) + 1) (m_dims x))) * DataTypeBytes (m_data_type x)) xs ys)"

lemma append_state_step:
  assumes D: "disjoint_states X e" and pq: "p \<in> X" "q \<in> X" and axis: "\<not> sb_axis b < 0"
    and pair: "state_pair b (x_heap e ! p) (x_heap e ! q)"
  shows "\<exists>e'. append_state p q (nat (sb_axis b)) e = Some (Ok, e') \<and> disjoint_states X e' \<and>
     state_value e' p = next_state b (x_heap e ! p) (state_value e p) (state_value e q) \<and>
     (\<forall>r \<in> X. r \<noteq> p \<longrightarrow> state_value e' r = state_value e r) \<and> same_shapes e e' \<and> same_views e e'"
proof -
  let ?x = "x_heap e ! p" and ?y = "x_heap e ! q" and ?ax = "nat (sb_axis b)"
  define outer where "outer = nat (prod_list (take ?ax (m_dims ?x)))"
  define block where "block = nat (prod_list (drop (?ax + 1) (m_dims ?x))) * DataTypeBytes (m_data_type ?x)"
  define slots where "slots = nat (m_dims ?x ! ?ax)"
  define o' where "o' = fold (\<lambda>d acc. mul64 acc (nat d)) (take ?ax (m_dims ?x)) 1"
  define b' where "b' = mul64 (fold (\<lambda>d acc. mul64 acc (nat d)) (drop (?ax + 1) (m_dims ?x)) 1)
      (DataTypeBytes (m_data_type ?x))"
  have sh: "DataTypeBytes (m_data_type ?x) \<noteq> 0" "?ax < length (m_dims ?x)"
    "length (m_dims ?y) = length (m_dims ?x)" "1 < m_dims ?x ! ?ax" "m_dims ?y ! ?ax = 1"
    "append_dims_ok ?ax (m_dims ?x) (m_dims ?y)" and dt: "m_data_type ?y = m_data_type ?x"
    using pair axis by (auto simp: state_pair_def)
  obtain n k where nk: "CheckedTensorBytes (m_dims ?x) (m_data_type ?x) = Some n"
    "CheckedTensorBytes (m_dims ?y) (m_data_type ?x) = Some k"
    using pair dt by (auto simp: state_pair_def)
  have bn: "state_bytes ?x = n" and bk: "state_bytes ?y = k" using nk dt by (simp_all add: state_bytes_def)
  note sizes = append_sizes[OF nk sh(1-3,5,6), folded outer_def block_def slots_def o'_def b'_def]
  have pqn: "p \<noteq> q" using sh(4,5) by auto
  have ok: "world_ok (x_world e)" and pl: "placed (x_world e) ?x (m_memory_size ?x)"
    and kle: "k \<le> m_memory_size ?y"
    using D pq bk by (auto simp: disjoint_states_def state_ready_def)
  obtain w1 x' s i where run: "mutable_data (m_memory_size ?x) ?x (x_world e) = Some (w1, x', Some (raw_address w1 ?x))"
    and x': "x' = ?x\<lparr>m_immutable := i\<rparr>" and st: "settled (x_world e) w1 s"
    using open_window[OF ok pl refl] by metis
  let ?a = "raw_address w1 ?x" and ?c = "raw_address w1 ?y"
  define source where "source = (if m_storage x' = m_storage ?y
      then (\<lambda>_ i. take b' (drop (i * b') (mem_read (mem w1) ?c (m_memory_size ?y))))
      else (\<lambda>m i. mem_read m (?c + i * b') b'))"
  let ?m = "fold (append_slot ?a slots b' source) [0..<o'] (mem w1)"
  let ?e = "e\<lparr>x_heap := (x_heap e)[p := x'], x_world := w1\<lparr>mem := ?m\<rparr>\<rparr>"
  have result: "append_state p q ?ax e = Some (Ok, ?e)"
    using run read_settled(2)[OF D pq(2) st] pqn sh(1)
    by (simp add: append_state_def Let_def source_def o'_def b'_def slots_def)
  have placed_x: "placed (x_world e) ?x n" and placed_y: "placed (x_world e) ?y k"
    using D pq bn bk placed_mono by (auto simp: disjoint_states_def state_ready_def)
  have xs: "mem_read (mem w1) ?a n = state_value e p" and ys: "mem_read (mem w1) ?c k = state_value e q"
    using st placed_x placed_y bn bk by (simp_all add: settled_def state_value_def)
  have apart: "byte_range w1 ?x n \<inter> byte_range w1 ?y k = {}"
    using D pq pqn bn bk
    by (intro settled_disjoint[OF st ok placed_x placed_y]) (auto simp: disjoint_states_def state_range_def)
  have effect: "mem_read ?m ?a n = append_bytes outer slots block (state_value e p) (state_value e q) \<and>
      (\<forall>z. z < ?a \<or> ?a + n \<le> z \<longrightarrow> ?m z = mem w1 z)"
  proof (cases "n = 0")
    case True
    have "o' = 0 \<or> b' = 0" using sizes(5)[OF True sh(4)] .
    moreover have "source m i = []" if "b' = 0" for m i
      using that by (simp add: source_def mem_read_def)
    ultimately have "?m = mem w1" by (intro append_slot_nothing) auto
    moreover have "append_bytes outer slots block (state_value e p) (state_value e q) = []"
      using sizes(1) True by (simp add: append_bytes_def slots_def)
    ultimately show ?thesis using True by (simp add: mem_read_def)
  next
    case False
    have o': "o' = outer" and b': "b' = block" using sizes(3,4)[OF False] by simp_all
    have n: "n = outer * (slots * block)" and k: "k = outer * block"
      using sizes(1,2) by (simp_all add: slots_def)
    have source: "source m' i = take block (drop (i * block) (state_value e q))"
      if "i < outer" and out: "\<And>z. z < ?a \<or> ?a + outer * (slots * block) \<le> z \<Longrightarrow> m' z = mem w1 z" for m' i
    proof -
      have fit: "block + i * block \<le> k"
        using that(1) unfolding k by (metis Suc_leI mult_Suc mult_le_mono1)
      have piece: "take block (drop (i * block) (state_value e q)) = mem_read (mem w1) (?c + i * block) block"
        unfolding ys[symmetric] by (rule mem_read_slice[OF fit])
      show ?thesis
      proof (cases "m_storage x' = m_storage ?y")
        case True
        then show ?thesis
          unfolding piece source_def b' using mem_read_slice[of block "i * block"] fit kle by simp
      next
        case other: False
        have "mem_read m' (?c + i * block) block = mem_read (mem w1) (?c + i * block) block"
        proof (rule mem_read_cong)
          fix z assume z: "?c + i * block \<le> z" "z < ?c + i * block + block"
          then have "z \<in> byte_range w1 ?y k" using fit by (simp add: byte_range_def)
          then have "z \<notin> byte_range w1 ?x n" using apart by blast
          then show "m' z = mem w1 z" by (intro out) (auto simp: byte_range_def n)
        qed
        then show ?thesis using other unfolding piece source_def b' by simp
      qed
    qed
    have len: "length (state_value e q) = outer * block" using bk k by simp
    have slots: "1 \<le> slots" using sh(4) by (simp add: slots_def)
    have loop: "?m = fold (append_slot ?a slots block source) [0..<outer] (mem w1)"
      by (simp only: o' b')
    have bytes: "mem_read ?m ?a (outer * (slots * block)) = append_bytes outer slots block
        (mem_read (mem w1) ?a (outer * (slots * block))) (state_value e q)"
      by (rule append_loop_bytes(1)[OF source len refl slots loop])
    have "?m z = mem w1 z" if "z < ?a \<or> ?a + outer * (slots * block) \<le> z" for z
      by (rule append_loop_bytes(2)[OF source len refl slots loop that])
    then show ?thesis using bytes unfolding n[symmetric] xs by blast
  qed
  have nx: "next_state b ?x (state_value e p) (state_value e q) =
      append_bytes outer slots block (state_value e p) (state_value e q)"
    using axis by (simp add: next_state_def outer_def slots_def block_def)
  have frame: "\<And>z. z < ?a \<or> ?a + state_bytes ?x \<le> z \<Longrightarrow> ?m z = mem w1 z"
    using effect unfolding bn by blast
  note wrote = write_state[OF D pq(1) refl x' st refl frame refl]
  have "state_value ?e p = mem_read ?m ?a (state_bytes ?x)" by (rule wrote(2))
  then have "state_value ?e p = next_state b ?x (state_value e p) (state_value e q)"
    using effect unfolding nx bn by (elim conjE) (rule trans)
  then show ?thesis using result wrote(1,3-5) by blast
qed

section \<open>One update\<close>

text \<open>A backend on host memory: telling it of a write moves no_bytes.\<close>

definition host_state_backend :: "'b StateBackend \<Rightarrow> DeviceType \<Rightarrow> bool" where
  "host_state_backend backend device \<longleftrightarrow> cap_host_memory (Capabilities backend device) \<and>
     cap_supported (Capabilities backend device) \<and>
     (\<forall>p e. x_heap (HostWritten backend p e) = x_heap e \<and> x_world (HostWritten backend p e) = x_world e)"

lemma env_cong:
  assumes "x_heap e' = x_heap e" and "x_world e' = x_world e"
  shows "disjoint_states X e' = disjoint_states X e" and "state_value e' p = state_value e p"
    and "same_shapes e' f = same_shapes e f" and "same_views e' f = same_views e f"
    and "same_shapes f e' = same_shapes f e" and "same_views f e' = same_views f e"
  using assms by (simp_all add: disjoint_states_def state_value_def same_shapes_def same_views_def
      state_ready_def state_range_def)

text \<open>The compiled bindings still describe the tensors.\<close>

definition contracts_hold :: "('b, 'd) RuntimeGraph \<Rightarrow> bool" where
  "contracts_hold g \<longleftrightarrow> (\<forall>item \<in> set (rg_binding_contracts g).
     tb_tensor (snd item) < length (x_heap (rg_env g)) \<and> binding_matches g item)"

lemma contracts_hold_Check: "contracts_hold g \<Longrightarrow> CheckTensorBindings g = Ok"
proof -
  assume "contracts_hold g"
  then have "find (\<lambda>item. \<not> binding_matches g item) (rg_binding_contracts g) = None"
    by (auto simp: contracts_hold_def find_None_iff)
  then show "CheckTensorBindings g = Ok" by (simp add: CheckTensorBindings_def)
qed

lemma Check_contracts_hold:
  assumes "ok (CheckTensorBindings g)" and "\<And>name p. rg_tensor g name = Some p \<Longrightarrow> p < length (x_heap (rg_env g))"
  shows "contracts_hold g"
proof -
  have "find (\<lambda>item. \<not> binding_matches g item) (rg_binding_contracts g) = None"
    using assms(1) by (auto simp: CheckTensorBindings_def split: option.splits)
  then have "binding_matches g item" if "item \<in> set (rg_binding_contracts g)" for item
    using that by (cases item) (auto simp: find_None_iff)
  then show ?thesis using assms(2) by (fastforce simp: contracts_hold_def binding_matches_def Let_def)
qed

lemma contracts_hold_views:
  assumes "contracts_hold g" and "same_views (rg_env g) e" and "same_shapes (rg_env g) e"
  shows "contracts_hold (g\<lparr>rg_env := e\<rparr>)"
  using assms unfolding contracts_hold_def same_views_def same_shapes_def
  by (auto simp: binding_matches_def Let_def tensor_of_def storage_id_def rg_tensor_def)

lemma contracts_hold_swap:
  assumes "contracts_hold g" and len: "length (x_heap e) = length (x_heap (rg_env g))"
    and same: "\<And>r. r < length (x_heap e) \<Longrightarrow> r \<noteq> p \<Longrightarrow> r \<noteq> q \<Longrightarrow> x_heap e ! r = x_heap (rg_env g) ! r"
  shows "contracts_hold (RecordStateStorageSwap p q (g\<lparr>rg_env := e\<rparr>))"
  using assms unfolding contracts_hold_def
  by (auto simp: RecordStateStorageSwap_def binding_matches_def Let_def tensor_of_def storage_id_def rg_tensor_def)

lemma contracts_hold_env:
  "x_heap e = x_heap (rg_env g) \<Longrightarrow> contracts_hold (g\<lparr>rg_env := e\<rparr>) = contracts_hold g"
  by (simp add: contracts_hold_def binding_matches_def Let_def tensor_of_def rg_tensor_def)

lemma state_pair_bytes: "state_pair b x y \<Longrightarrow> sb_axis b < 0 \<Longrightarrow> state_bytes x = state_bytes y"
  by (simp add: state_pair_def state_bytes_def)

text \<open>One update of a batch of disjoint tensors succeeds and changes the state it is for.\<close>

lemma apply_state_step:
  assumes hb: "host_state_backend backend device" and D: "disjoint_states X (rg_env g)"
    and pq: "p \<in> X" "q \<in> X" and con: "contracts_hold g"
    and pair: "state_pair b (tensor_of g p) (tensor_of g q)"
  shows "\<exists>g'. ApplyValidatedState backend b device p q g = Some (Ok, g') \<and> disjoint_states X (rg_env g') \<and>
     state_value (rg_env g') p = next_state b (tensor_of g p) (state_value (rg_env g) p) (state_value (rg_env g) q) \<and>
     (\<forall>r \<in> X. r \<noteq> p \<longrightarrow> r \<noteq> q \<longrightarrow> state_value (rg_env g') r = state_value (rg_env g) r) \<and>
     same_shapes (rg_env g) (rg_env g') \<and> contracts_hold g'"
proof -
  let ?e = "rg_env g" and ?x = "tensor_of g p" and ?y = "tensor_of g q"
  have host: "cap_host_memory (Capabilities backend device)"
    and hw: "\<And>p e. x_heap (HostWritten backend p e) = x_heap e" "\<And>p e. x_world (HostWritten backend p e) = x_world e"
    using hb by (simp_all add: host_state_backend_def)
  note keep = env_cong[OF hw(1) hw(2)]
  consider (append) "\<not> sb_axis b < 0"
    | (same) "sb_axis b < 0" "p = q \<or> (m_storage ?x = m_storage ?y \<and> m_offset ?x = m_offset ?y)"
    | (copy) "sb_axis b < 0" "\<not> (p = q \<or> (m_storage ?x = m_storage ?y \<and> m_offset ?x = m_offset ?y))"
        "rg_uses_memory_plan g \<or> sb_stable b"
    | (swap) "sb_axis b < 0" "\<not> (p = q \<or> (m_storage ?x = m_storage ?y \<and> m_offset ?x = m_offset ?y))"
        "\<not> (rg_uses_memory_plan g \<or> sb_stable b)"
    by blast
  then show ?thesis
  proof cases
    case append
    obtain e' where e': "append_state p q (nat (sb_axis b)) ?e = Some (Ok, e')" "disjoint_states X e'"
      "state_value e' p = next_state b ?x (state_value ?e p) (state_value ?e q)"
      "\<forall>r \<in> X. r \<noteq> p \<longrightarrow> state_value e' r = state_value ?e r" "same_shapes ?e e'" "same_views ?e e'"
      using append_state_step[OF D pq append] pair unfolding tensor_of_def by blast
    have "ApplyValidatedState backend b device p q g = Some (Ok, g\<lparr>rg_env := HostWritten backend p e'\<rparr>)"
      using append host e'(1) by (simp add: ApplyValidatedState_def Let_def)
    moreover have "contracts_hold (g\<lparr>rg_env := HostWritten backend p e'\<rparr>)"
      by (rule contracts_hold_views[OF con]) (simp_all add: keep e')
    ultimately show ?thesis using e' by (intro exI[of _ "g\<lparr>rg_env := HostWritten backend p e'\<rparr>"]) (simp add: keep)
  next
    case same
    have "state_value ?e p = state_value ?e q"
      using same(2) state_pair_bytes[OF pair same(1)] same_window(1)[of ?x ?y "x_world ?e"]
      by (auto simp: state_value_def tensor_of_def)
    then show ?thesis using same D con
      by (intro exI[of _ g]) (auto simp: ApplyValidatedState_def Let_def next_state_def same_shapes_refl)
  next
    case copy
    let ?n = "state_bytes ?x"
    have "\<exists>e'. (if ?n = 0 then Some ?e else move_bytes p q ?n ?e) = Some e' \<and> disjoint_states X e' \<and>
        state_value e' p = state_value ?e q \<and> (\<forall>r \<in> X. r \<noteq> p \<longrightarrow> state_value e' r = state_value ?e r) \<and>
        same_shapes ?e e' \<and> same_views ?e e'"
    proof (cases "?n = 0")
      case True
      then have "state_value ?e p = state_value ?e q"
        using state_pair_bytes[OF pair copy(1)] by (simp add: state_value_empty tensor_of_def)
      then show ?thesis using True D by (auto simp: same_shapes_refl same_views_def)
    next
      case False
      have pqn: "p \<noteq> q" using copy(2) by blast
      have n: "state_bytes (x_heap ?e ! p) = ?n" "state_bytes (x_heap ?e ! q) = ?n"
        using state_pair_bytes[OF pair copy(1)] by (simp_all add: tensor_of_def)
      from False move_bytes_state[OF D pq pqn n] show ?thesis by (simp only: if_False)
    qed
    then obtain e' where e': "(if ?n = 0 then Some ?e else move_bytes p q ?n ?e) = Some e'" "disjoint_states X e'"
      "state_value e' p = state_value ?e q" "\<forall>r \<in> X. r \<noteq> p \<longrightarrow> state_value e' r = state_value ?e r"
      "same_shapes ?e e'" "same_views ?e e'" by blast
    have "ApplyValidatedState backend b device p q g = Some (Ok, g\<lparr>rg_env := HostWritten backend p e'\<rparr>)"
      unfolding ApplyValidatedState_def Let_def if_P[OF copy(1)] if_not_P[OF copy(2)] if_P[OF copy(3)] e'(1)
      using host by simp
    moreover have "contracts_hold (g\<lparr>rg_env := HostWritten backend p e'\<rparr>)"
      by (rule contracts_hold_views[OF con]) (simp_all add: keep e')
    ultimately show ?thesis using e' copy(1)
      by (intro exI[of _ "g\<lparr>rg_env := HostWritten backend p e'\<rparr>"]) (simp add: keep next_state_def)
  next
    case swap
    obtain w x' y' where sw: "SwapStorage ?x ?y (x_world ?e) = (w, x', y')" by (cases "SwapStorage ?x ?y (x_world ?e)") auto
    define e1 where "e1 = ?e\<lparr>x_heap := (x_heap ?e)[p := x', q := y'], x_world := w\<rparr>"
    define g2 where "g2 = RecordStateStorageSwap p q (g\<lparr>rg_env := e1\<rparr>)"
    define e' where "e' = HostWritten backend p (HostWritten backend q e1)"
    have pqn: "p \<noteq> q" using swap(2) by blast
    note s = swap_state[OF D pq pqn _ _ sw[unfolded tensor_of_def] e1_def[unfolded tensor_of_def],
        of "state_bytes ?x", unfolded tensor_of_def, OF refl state_pair_bytes[OF pair swap(1), unfolded tensor_of_def, symmetric]]
    have env: "rg_env g2 = e1" by (simp add: g2_def RecordStateStorageSwap_def)
    have "ApplyValidatedState backend b device p q g = Some (Ok, g2\<lparr>rg_env := e'\<rparr>)"
      unfolding ApplyValidatedState_def Let_def if_P[OF swap(1)] if_not_P[OF swap(2)] if_not_P[OF swap(3)] sw
      using host env by (simp add: map_env_def g2_def e1_def e'_def)
    moreover have "contracts_hold g2"
      unfolding g2_def by (rule contracts_hold_swap[OF con]) (use s(5) in \<open>auto simp: e1_def\<close>)
    then have "contracts_hold (g2\<lparr>rg_env := e'\<rparr>)"
      by (simp add: contracts_hold_env env e'_def hw)
    moreover have "disjoint_states X e'" "state_value e' r = state_value e1 r" "same_shapes ?e e'" for r
      using s(1,4) by (simp_all add: e'_def keep)
    ultimately show ?thesis using s(2,3) swap(1)
      by (intro exI[of _ "g2\<lparr>rg_env := e'\<rparr>"]) (simp add: next_state_def)
  qed
qed

end
