(* ===== verification/State_Advance.thy ===== *)
theory State_Advance
  imports State_Memory
begin

text \<open>
  What \<open>Advance\<close> of a stateful session does on a backend with host memory: the overlap scan and
  the snapshots leave a batch whose tensors are pairwise disjoint, applying such a batch is a
  simultaneous assignment, and a batch that is refused changes nothing.
\<close>

section \<open>A batch of disjoint updates\<close>

lemma next_state_shape:
  "m_dims x = m_dims x' \<Longrightarrow> m_data_type x = m_data_type x' \<Longrightarrow> next_state b x = next_state b x'"
  by (simp add: next_state_def fun_eq_iff)

lemma state_pair_shape:
  "m_dims x = m_dims x' \<Longrightarrow> m_data_type x = m_data_type x' \<Longrightarrow> m_dims y = m_dims y' \<Longrightarrow>
   m_data_type y = m_data_type y' \<Longrightarrow> state_pair b x y = state_pair b x' y'"
  by (simp add: state_pair_def)

text \<open>No tensor with bytes takes part in two updates.\<close>

definition separate :: "Tensor list \<Rightarrow> Update \<Rightarrow> Update \<Rightarrow> bool" where
  "separate heap u v \<longleftrightarrow>
     (state_bytes (heap ! up_input u) \<noteq> 0 \<longrightarrow> up_input u \<noteq> up_input v \<and> up_input u \<noteq> up_output v) \<and>
     (state_bytes (heap ! up_output u) \<noteq> 0 \<longrightarrow> up_output u \<noteq> up_input v \<and> up_output u \<noteq> up_output v)"

definition update_ok :: "nat set \<Rightarrow> Tensor list \<Rightarrow> Update \<Rightarrow> bool" where
  "update_ok X heap u \<longleftrightarrow> up_input u \<in> X \<and> up_output u \<in> X \<and>
     state_pair (up_binding u) (heap ! up_input u) (heap ! up_output u)"

definition update_done :: "'b rt_env \<Rightarrow> 'b rt_env \<Rightarrow> Update \<Rightarrow> bool" where
  "update_done e e' u \<longleftrightarrow> state_value e' (up_input u) =
     next_state (up_binding u) (x_heap e ! up_input u) (state_value e (up_input u)) (state_value e (up_output u))"

lemma apply_updates_simultaneous:
  assumes "host_state_backend backend device" and "disjoint_states X (rg_env g)" and "contracts_hold g"
    and "\<And>u. u \<in> set us \<Longrightarrow> update_ok X (x_heap (rg_env g)) u"
    and "sorted_wrt (separate (x_heap (rg_env g))) us"
  shows "\<exists>g'. apply_updates backend device us g = Some (Ok, g') \<and> disjoint_states X (rg_env g') \<and>
     contracts_hold g' \<and> same_shapes (rg_env g) (rg_env g') \<and>
     (\<forall>u \<in> set us. update_done (rg_env g) (rg_env g') u) \<and>
     (\<forall>r \<in> X. r \<notin> up_input ` set us \<and> r \<notin> up_output ` set us \<longrightarrow>
        state_value (rg_env g') r = state_value (rg_env g) r)"
  using assms(2-)
proof (induction us arbitrary: g)
  case Nil
  then show ?case by (simp add: same_shapes_refl)
next
  case (Cons u us)
  let ?e = "rg_env g" and ?p = "up_input u" and ?q = "up_output u"
  have u: "update_ok X (x_heap ?e) u" using Cons.prems(3) by simp
  then have pq: "?p \<in> X" "?q \<in> X" and pair: "state_pair (up_binding u) (tensor_of g ?p) (tensor_of g ?q)"
    by (simp_all add: update_ok_def tensor_of_def)
  obtain g1 where g1: "ApplyValidatedState backend (up_binding u) device ?p ?q g = Some (Ok, g1)"
    and D1: "disjoint_states X (rg_env g1)" and con1: "contracts_hold g1" and sh1: "same_shapes ?e (rg_env g1)"
    and v1: "state_value (rg_env g1) ?p = next_state (up_binding u) (tensor_of g ?p) (state_value ?e ?p) (state_value ?e ?q)"
    and o1: "\<And>r. r \<in> X \<Longrightarrow> r \<noteq> ?p \<Longrightarrow> r \<noteq> ?q \<Longrightarrow> state_value (rg_env g1) r = state_value ?e r"
    using apply_state_step[OF assms(1) Cons.prems(1) pq Cons.prems(2) pair] by blast
  have lt: "r < length (x_heap ?e)" if "r \<in> X" for r
    using Cons.prems(1) that by (simp add: disjoint_states_def state_ready_def)
  have shape: "m_dims (x_heap (rg_env g1) ! r) = m_dims (x_heap ?e ! r)"
    "m_data_type (x_heap (rg_env g1) ! r) = m_data_type (x_heap ?e ! r)" if "r \<in> X" for r
    using sh1 lt[OF that] by (simp_all add: same_shapes_def)
  have bytes: "state_bytes (x_heap (rg_env g1) ! r) = state_bytes (x_heap ?e ! r)" if "r \<in> X" for r
    using shape[OF that] by (simp add: state_bytes_def)
  have memX: "up_input v \<in> X" "up_output v \<in> X" if "v \<in> set us" for v
    using Cons.prems(3)[of v] that by (simp_all add: update_ok_def)
  have ok1: "update_ok X (x_heap (rg_env g1)) v" if "v \<in> set us" for v
    using Cons.prems(3)[of v] that memX[OF that]
      state_pair_shape[OF shape[OF memX(1)[OF that]] shape[OF memX(2)[OF that]]]
    by (simp add: update_ok_def)
  have "sorted_wrt (separate (x_heap ?e)) us" using Cons.prems(4) by simp
  then have sep1: "sorted_wrt (separate (x_heap (rg_env g1))) us"
    by (rule sorted_wrt_mono_rel[rotated]) (simp add: separate_def bytes memX)
  obtain g' where g': "apply_updates backend device us g1 = Some (Ok, g')" "disjoint_states X (rg_env g')"
    "contracts_hold g'" and sh': "same_shapes (rg_env g1) (rg_env g')"
    and d': "\<And>v. v \<in> set us \<Longrightarrow> update_done (rg_env g1) (rg_env g') v"
    and o': "\<And>r. r \<in> X \<Longrightarrow> r \<notin> up_input ` set us \<Longrightarrow> r \<notin> up_output ` set us \<Longrightarrow>
        state_value (rg_env g') r = state_value (rg_env g1) r"
    using Cons.IH[OF D1 con1 ok1 sep1] by blast
  have sep: "separate (x_heap ?e) u v" if "v \<in> set us" for v
    using Cons.prems(4) that by simp
  have unread: "state_value (rg_env g1) r = state_value ?e r"
    if "r \<in> X" "v \<in> set us" "r = up_input v \<or> r = up_output v" for r v
  proof (cases "state_bytes (x_heap ?e ! r) = 0")
    case True
    then show ?thesis using state_value_empty[of ?e r] state_value_empty[of "rg_env g1" r] bytes[OF that(1)] by simp
  next
    case False
    then have "r \<noteq> ?p \<and> r \<noteq> ?q" using sep[OF that(2)] that(3) by (auto simp: separate_def)
    then show ?thesis using o1[OF that(1)] by blast
  qed
  have later: "update_done ?e (rg_env g') v" if "v \<in> set us" for v
  proof -
    have "next_state (up_binding v) (x_heap (rg_env g1) ! up_input v) = next_state (up_binding v) (x_heap ?e ! up_input v)"
      by (rule next_state_shape[OF shape[OF memX(1)[OF that]]])
    then show ?thesis
      using d'[OF that] unread[OF memX(1)[OF that] that] unread[OF memX(2)[OF that] that]
      by (simp add: update_done_def)
  qed
  have first: "update_done ?e (rg_env g') u"
  proof (cases "state_bytes (x_heap ?e ! ?p) = 0")
    case True
    have b1: "state_bytes (x_heap (rg_env g1) ! ?p) = 0" using bytes[OF pq(1)] True by simp
    have l1: "?p < length (x_heap (rg_env g1))" using D1 pq(1) by (simp add: disjoint_states_def state_ready_def)
    have "state_bytes (x_heap (rg_env g') ! ?p) = 0" using state_bytes_shape[OF sh' l1] b1 by simp
    then show ?thesis using v1 state_value_empty[of "rg_env g'" ?p] state_value_empty[OF b1]
      by (simp add: update_done_def tensor_of_def)
  next
    case False
    then have "?p \<notin> up_input ` set us" "?p \<notin> up_output ` set us" using sep by (auto simp: separate_def)
    then show ?thesis using o'[OF pq(1)] v1 by (simp add: update_done_def tensor_of_def)
  qed
  have "apply_updates backend device (u # us) g = Some (Ok, g')" using g1 g'(1) by simp
  moreover have "same_shapes ?e (rg_env g')" by (rule same_shapes_trans[OF sh1 sh'])
  moreover have "state_value (rg_env g') r = state_value ?e r"
    if "r \<in> X" "r \<notin> up_input ` set (u # us)" "r \<notin> up_output ` set (u # us)" for r
    using o'[of r] o1[of r] that by simp
  ultimately show ?case using g'(2,3) first later by (intro exI[of _ g']) auto
qed

section \<open>Snapshots\<close>

text \<open>A world that only got new memory and new storages.\<close>

definition grows :: "world \<Rightarrow> world \<Rightarrow> bool" where
  "grows w w' \<longleftrightarrow> world_ok w' \<and> brk w \<le> brk w' \<and> (\<forall>x < brk w. mem w' x = mem w x) \<and>
     (\<forall>t k. placed w t k \<longrightarrow> placed w' t k \<and> raw_address w' t = raw_address w t)"

lemma growsD:
  assumes "grows w w'"
  shows "world_ok w'" and "brk w \<le> brk w'" and "x < brk w \<Longrightarrow> mem w' x = mem w x"
    and "placed w t k \<Longrightarrow> placed w' t k" and "placed w t k \<Longrightarrow> raw_address w' t = raw_address w t"
  using assms unfolding grows_def by blast+

lemma state_grows_refl: "world_ok w \<Longrightarrow> grows w w"
  by (simp add: grows_def)

lemma state_grows_trans: "grows a b \<Longrightarrow> grows b c \<Longrightarrow> grows a c"
  unfolding grows_def by (metis order.strict_trans2 order_trans)

lemma grows_new_buffer: "world_ok w \<Longrightarrow> grows w (fst (new_buffer n w))"
proof -
  assume ok: "world_ok w"
  have "b < length (buffers w)" if "s < length (storages w)" "st_buffer (storages w ! s) = Some b" for s b
    using world_ok_storage[OF ok that(1)] that(2) by (simp add: storage_ok_def)
  then show ?thesis using world_ok_new_buffer[OF ok]
    by (auto simp: grows_def placed_def raw_address_def new_buffer_def nth_append)
qed

lemma grows_add_storage: "world_ok w \<Longrightarrow> storage_ok w st \<Longrightarrow> grows w (w\<lparr>storages := storages w @ [st]\<rparr>)"
  using world_ok_add_storage[of w st]
  by (auto simp: grows_def placed_def raw_address_def nth_append)

lemma grows_MarkMutated: "world_ok w \<Longrightarrow> grows w (MarkMutated s w)"
  using world_ok_MarkMutated[of w s]
  by (auto simp: grows_def placed_def raw_address_def split: option.split)

lemma grows_materialize:
  assumes "world_ok w" and "s < length (storages w)"
  shows "grows w (materialize s w)"
proof -
  have b: "b < length (buffers w)" if "r < length (storages w)" "st_buffer (storages w ! r) = Some b" for r b
    using world_ok_storage[OF assms(1) that(1)] that(2) by (simp add: storage_ok_def)
  have "placed (materialize s w) t k \<and> raw_address (materialize s w) t = raw_address w t" if pl: "placed w t k" for t k
  proof -
    obtain r c where r: "m_storage t = Some r" "r < length (storages w)" "st_materialized (storages w ! r)"
      "st_buffer (storages w ! r) = Some c" "m_offset t + k \<le> st_capacity (storages w ! r)"
      using pl by (rule placedE)
    have same: "storages (materialize s w) ! r = storages w ! r"
      using r(3) materialize_nth[OF assms(2), of r] by auto
    show ?thesis using r same b[OF r(2,4)]
      by (simp add: placed_def raw_address_def materialize_old_buffer)
  qed
  then show ?thesis
    using world_ok_materialize[OF assms] materialize_brk[of w s] by (simp add: grows_def)
qed

lemma fresh_tensor:
  assumes ok: "world_ok w" and run: "Tensor_bytes n w = Some (w1, t)"
  shows "grows w w1" and "m_storage t = Some (length (storages w))" and "m_offset t = 0"
    and "m_memory_size t = n" and "length (storages w) < length (storages w1)"
    and "n \<le> st_capacity (storages w1 ! length (storages w))"
    and "\<not> storage_read_only (length (storages w)) w1"
    and "st_buffer (storages w1 ! length (storages w)) = Some b \<Longrightarrow> brk w \<le> b_data (buffers w1 ! b)"
    and "st_materialized (storages w1 ! length (storages w)) \<Longrightarrow> st_buffer (storages w1 ! length (storages w)) \<noteq> None"
proof -
  let ?s = "length (storages w)"
  from run obtain c where c: "granted_capacity w n = Some c"
    and t: "t = empty_Tensor\<lparr>m_storage := Some ?s, m_memory_size := n\<rparr>"
    and w1: "w1 = fst (if deferred_scope w then new_deferred_Storage n w
                  else new_Storage (Some (length (buffers w))) COMMON 0 (fst (new_buffer c w)))"
    unfolding Tensor_bytes_facts by blast
  have le: "n \<le> c" by (rule granted_capacity_ge[OF c])
  have all: "grows w w1 \<and> ?s < length (storages w1) \<and> n \<le> st_capacity (storages w1 ! ?s) \<and>
      \<not> storage_read_only ?s w1 \<and> (st_materialized (storages w1 ! ?s) \<longrightarrow> st_buffer (storages w1 ! ?s) \<noteq> None) \<and>
      (st_buffer (storages w1 ! ?s) = Some b \<longrightarrow> brk w \<le> b_data (buffers w1 ! b))"
  proof (cases "deferred_scope w")
    case True
    let ?st = "\<lparr>st_buffer = None, st_capacity = n, st_deferred = True, st_device = COMMON, st_device_index = 0,
        st_materialized = False, st_version = 0\<rparr>"
    have st: "storage_ok w ?st" using ok by (simp add: storage_ok_def world_ok_def)
    have w1: "w1 = MarkMutated ?s (w\<lparr>storages := storages w @ [?st]\<rparr>)"
      using w1 True by (simp add: new_deferred_Storage_def Let_def)
    have "grows w w1"
      unfolding w1 using state_grows_trans[OF grows_add_storage[OF ok st]
          grows_MarkMutated[OF world_ok_add_storage[OF ok st]]] .
    then show ?thesis by (simp add: w1 storage_read_only_def)
  next
    case False
    let ?v = "fst (new_buffer c w)"
    let ?st = "\<lparr>st_buffer = Some (length (buffers w)), st_capacity = b_size (buffers ?v ! length (buffers w)),
        st_deferred = False, st_device = COMMON, st_device_index = 0, st_materialized = True, st_version = 0\<rparr>"
    have okv: "world_ok ?v" by (rule world_ok_new_buffer[OF ok])
    have st: "storage_ok ?v ?st" using okv by (auto simp: storage_ok_def world_ok_def new_buffer_def)
    have w1: "w1 = MarkMutated ?s (?v\<lparr>storages := storages ?v @ [?st]\<rparr>)"
      using w1 False by (simp add: new_Storage_def new_buffer_def Let_def)
    have "grows w w1"
      unfolding w1 using state_grows_trans[OF grows_new_buffer[OF ok] state_grows_trans[OF grows_add_storage[OF okv st]
          grows_MarkMutated[OF world_ok_add_storage[OF okv st]]]] .
    then show ?thesis using le by (auto simp: w1 storage_read_only_def new_buffer_def)
  qed
  then show "grows w w1" "?s < length (storages w1)" "n \<le> st_capacity (storages w1 ! ?s)"
    "\<not> storage_read_only ?s w1" "st_buffer (storages w1 ! ?s) = Some b \<Longrightarrow> brk w \<le> b_data (buffers w1 ! b)"
    "st_materialized (storages w1 ! ?s) \<Longrightarrow> st_buffer (storages w1 ! ?s) \<noteq> None"
    by blast+
  show "m_storage t = Some ?s" "m_offset t = 0" "m_memory_size t = n" by (simp_all add: t empty_Tensor_def)
qed

lemma fresh_window:
  assumes ok: "world_ok w" and run: "Tensor_bytes n w = Some (w1, t0)"
    and t: "m_storage t = m_storage t0" "m_offset t = m_offset t0" "m_memory_size t = n"
  shows "\<exists>w2. mutable_data n t w1 = Some (w2, t, Some (raw_address w2 t)) \<and> grows w w2 \<and> placed w2 t n \<and>
     brk w \<le> raw_address w2 t"
proof -
  let ?s = "length (storages w)"
  note f = fresh_tensor[OF ok run]
  have ts: "m_storage t = Some ?s" "m_offset t = 0" using t f(2,3) by simp_all
  have ok1: "world_ok w1" by (rule growsD(1)[OF f(1)])
  let ?v = "MarkMutated ?s w1" let ?w = "materialize ?s ?v"
  have okv: "world_ok ?v" by (rule world_ok_MarkMutated[OF ok1])
  have lv: "?s < length (storages ?v)" using f(5) by simp
  have run2: "mutable_data n t w1 = Some (?w, t, map_option (\<lambda>b. b_data (buffers ?w ! b)) (st_buffer (storages ?w ! ?s)))"
    using ts t(3) f(5,6,7)
    by (cases t) (simp add: mutable_data_def HasCapacity_def EnsureWritable_def storage_size_def Let_def
        MarkStorageMutated_def storage_data_def option.map_comp comp_def option.map_ident)
  have mat: "st_materialized (storages ?w ! ?s)" by (rule st_materialized_materialize[OF okv lv])
  have cap: "n \<le> st_capacity (storages ?w ! ?s)" using lv f(6) by simp
  have "\<exists>b. st_buffer (storages ?w ! ?s) = Some b \<and> brk w \<le> b_data (buffers ?w ! b)"
  proof (cases "st_materialized (storages ?v ! ?s)")
    case True
    then have w: "?w = ?v" using materialize_buffer_cases[OF okv lv] by simp
    have "st_buffer (storages w1 ! ?s) \<noteq> None" using f(9) True by simp
    then show ?thesis using f(8) unfolding w by auto
  next
    case False
    then show ?thesis using materialize_buffer_cases[OF okv lv] growsD(2)[OF f(1)] by auto
  qed
  then obtain b where b: "st_buffer (storages ?w ! ?s) = Some b" "brk w \<le> b_data (buffers ?w ! b)" by blast
  have addr: "raw_address ?w t = b_data (buffers ?w ! b)" using ts b by (simp add: raw_address_def)
  have "grows w ?w"
    by (rule state_grows_trans[OF f(1) state_grows_trans[OF grows_MarkMutated[OF ok1] grows_materialize[OF okv lv]]])
  moreover have "placed ?w t n" using ts lv mat b(1) cap by (simp add: placed_def)
  ultimately show ?thesis using run2 b addr by (intro exI[of _ ?w]) simp
qed

text \<open>
  All tensors of the batch have their memory; they may still overlap.  Each has a size an
  allocation can have: the last page of the address space is no size class.
\<close>

definition ready_states :: "nat set \<Rightarrow> 'b rt_env \<Rightarrow> bool" where
  "ready_states X e \<longleftrightarrow> world_ok (x_world e) \<and>
     (\<forall>p \<in> X. state_ready e p \<and> state_bytes (x_heap e ! p) \<le> SIZE_MAX - 4095)"

lemma ready_placed:
  assumes "ready_states X e" and "p \<in> X"
  shows "placed (x_world e) (x_heap e ! p) (state_bytes (x_heap e ! p))"
  using assms placed_mono by (auto simp: ready_states_def state_ready_def)

text \<open>What a longer heap in a grown world keeps.\<close>

lemma grown_state:
  assumes R: "ready_states X e" and g: "grows (x_world e) (x_world e')"
    and heap: "x_heap e' = x_heap e @ hs" and p: "p \<in> X"
  shows "state_ready e' p" and "state_value e' p = state_value e p" and "state_range e' p = state_range e p"
    and "state_range e p \<subseteq> {..<brk (x_world e)}" and "x_heap e' ! p = x_heap e ! p"
proof -
  have lt: "p < length (x_heap e)" using R p by (simp add: ready_states_def state_ready_def)
  then show same: "x_heap e' ! p = x_heap e ! p" by (simp add: heap nth_append)
  have pl: "placed (x_world e) (x_heap e ! p) (state_bytes (x_heap e ! p))" by (rule ready_placed[OF R p])
  have addr: "raw_address (x_world e') (x_heap e ! p) = raw_address (x_world e) (x_heap e ! p)"
    by (rule growsD(5)[OF g pl])
  have below: "raw_address (x_world e) (x_heap e ! p) + state_bytes (x_heap e ! p) \<le> brk (x_world e)"
    using placed_below_brk[OF pl] R by (simp add: ready_states_def)
  show "state_ready e' p"
    using R p growsD(4)[OF g] lt by (auto simp: ready_states_def state_ready_def heap nth_append)
  show "state_value e' p = state_value e p"
    unfolding state_value_def same addr by (rule mem_read_cong) (use growsD(3)[OF g] below in simp)
  show "state_range e' p = state_range e p"
    by (simp add: state_range_def same byte_range_def addr)
  show "state_range e p \<subseteq> {..<brk (x_world e)}"
    using below by (auto simp: state_range_def byte_range_def)
qed

lemma snapshot_output_step:
  assumes R: "ready_states X e" and q: "up_output u \<in> X" and n: "state_bytes (x_heap e ! up_output u) \<noteq> 0"
  shows "\<exists>e' s. snapshot_output u e = Some (u\<lparr>up_output := length (x_heap e)\<rparr>, e') \<and>
     x_heap e' = x_heap e @ [s] \<and> m_dims s = m_dims (x_heap e ! up_output u) \<and>
     m_data_type s = m_data_type (x_heap e ! up_output u) \<and> grows (x_world e) (x_world e') \<and>
     state_ready e' (length (x_heap e)) \<and>
     state_value e' (length (x_heap e)) = state_value e (up_output u) \<and>
     brk (x_world e) \<le> raw_address (x_world e') s"
proof -
  let ?y = "x_heap e ! up_output u" and ?w = "x_world e"
  let ?n = "state_bytes ?y"
  have ok: "world_ok ?w" using R by (simp add: ready_states_def)
  have "?n \<le> SIZE_MAX - 4095" using R q by (simp add: ready_states_def)
  then obtain w1 s0 where t: "Tensor_bytes ?n ?w = Some (w1, s0)"
    using granted_capacity_total[of ?n ?w] by (auto simp: Tensor_bytes_facts)
  define s where "s = set_quantization (m_quantization ?y)
      (s0\<lparr>m_dims := m_dims ?y, m_data_type := m_data_type ?y, m_layout := m_layout ?y\<rparr>)"
  have s: "m_storage s = m_storage s0" "m_offset s = m_offset s0" "m_memory_size s = ?n"
    "m_dims s = m_dims ?y" "m_data_type s = m_data_type ?y"
    using fresh_tensor(4)[OF ok t] by (simp_all add: s_def set_quantization_form)
  obtain w2 where w2: "mutable_data ?n s w1 = Some (w2, s, Some (raw_address w2 s))" "grows ?w w2"
    "placed w2 s ?n" "brk ?w \<le> raw_address w2 s"
    using fresh_window[OF ok t s(1-3)] by blast
  have py: "placed ?w ?y ?n" by (rule ready_placed[OF R q])
  have "mem_read (mem w2) (raw_address w2 ?y) ?n = state_value e (up_output u)"
    unfolding state_value_def growsD(5)[OF w2(2) py]
    by (rule mem_read_cong) (use growsD(3)[OF w2(2)] placed_below_brk[OF py ok] in simp)
  then have read: "read_bytes ?y ?n w2 = (w2, state_value e (up_output u))"
    by (simp add: read_bytes_placed[OF growsD(4)[OF w2(2) py]])
  let ?m = "mem_write (mem w2) (raw_address w2 s) (state_value e (up_output u))"
  let ?e = "e\<lparr>x_heap := x_heap e @ [s], x_world := w2\<lparr>mem := ?m\<rparr>\<rparr>"
  have "snapshot_output u e = Some (u\<lparr>up_output := length (x_heap e)\<rparr>, ?e)"
    using n t w2(1) read by (simp add: snapshot_output_def Let_def s_def[symmetric])
  moreover have "grows ?w (w2\<lparr>mem := ?m\<rparr>)"
    using w2(2,4) by (auto simp: grows_def mem_write_other)
  moreover have sb: "state_bytes s = ?n" using s(4,5) by (simp add: state_bytes_def)
  moreover have "state_ready ?e (length (x_heap e))"
    using w2(3) s(3) sb by (simp add: state_ready_def)
  moreover have "state_value ?e (length (x_heap e)) = state_value e (up_output u)"
    using mem_read_write_same[of "mem w2" "raw_address w2 s" "state_value e (up_output u)"] sb
    by (simp add: state_value_def)
  ultimately show ?thesis using s(4,5) w2(4)
    by (intro exI[of _ ?e] exI[of _ s]) simp
qed

text \<open>How an update is changed: its source is the snapshot, where one was taken.\<close>

definition snapshotted :: "'b rt_env \<Rightarrow> 'b rt_env \<Rightarrow> Update \<Rightarrow> Update \<Rightarrow> bool" where
  "snapshotted e e' u v \<longleftrightarrow> up_binding v = up_binding u \<and> up_input v = up_input u \<and>
     (if up_snapshot u
      then length (x_heap e) \<le> up_output v \<and> up_output v < length (x_heap e') \<and>
           m_dims (x_heap e' ! up_output v) = m_dims (x_heap e ! up_output u) \<and>
           m_data_type (x_heap e' ! up_output v) = m_data_type (x_heap e ! up_output u) \<and>
           state_value e' (up_output v) = state_value e (up_output u)
      else up_output v = up_output u)"

definition fresh_states :: "'b rt_env \<Rightarrow> 'b rt_env \<Rightarrow> bool" where
  "fresh_states e e' \<longleftrightarrow> (\<forall>r. length (x_heap e) \<le> r \<longrightarrow> r < length (x_heap e') \<longrightarrow>
     state_ready e' r \<and> state_range e' r \<inter> {..<brk (x_world e)} = {} \<and>
     (\<forall>q. length (x_heap e) \<le> q \<longrightarrow> q < length (x_heap e') \<longrightarrow> q \<noteq> r \<longrightarrow> state_range e' q \<inter> state_range e' r = {}))"

lemma snapshot_outputs_ok:
  assumes "ready_states X e" and "\<And>u. u \<in> set us \<Longrightarrow> up_output u \<in> X \<and>
      (up_snapshot u \<longrightarrow> state_bytes (x_heap e ! up_output u) \<noteq> 0)"
  shows "\<exists>us' e' hs. snapshot_outputs us e = Some (us', e') \<and> x_heap e' = x_heap e @ hs \<and>
     grows (x_world e) (x_world e') \<and> fresh_states e e' \<and> list_all2 (snapshotted e e') us us' \<and>
     sorted_wrt (\<lambda>u v. length (x_heap e) \<le> up_output u \<longrightarrow> up_output u \<noteq> up_output v) us'"
  using assms
proof (induction us arbitrary: e X)
  case Nil
  then show ?case
    by (intro exI[of _ "[]"] exI[of _ e]) (simp add: ready_states_def state_grows_refl fresh_states_def)
next
  case (Cons u us)
  let ?N = "length (x_heap e)"
  have lt: "r < ?N" if "r \<in> X" for r
    using Cons.prems(1) that by (simp add: ready_states_def state_ready_def)
  show ?case
  proof (cases "up_snapshot u")
    case False
    have "\<And>v. v \<in> set us \<Longrightarrow> up_output v \<in> X \<and> (up_snapshot v \<longrightarrow> state_bytes (x_heap e ! up_output v) \<noteq> 0)"
      using Cons.prems(2) by simp
    from Cons.IH[OF Cons.prems(1) this] obtain us' e' hs where
      IH: "snapshot_outputs us e = Some (us', e')" "x_heap e' = x_heap e @ hs"
        "grows (x_world e) (x_world e')" "fresh_states e e'" "list_all2 (snapshotted e e') us us'"
        "sorted_wrt (\<lambda>u v. ?N \<le> up_output u \<longrightarrow> up_output u \<noteq> up_output v) us'" by blast
    have "snapshotted e e' u u" using False by (simp add: snapshotted_def)
    moreover have "\<not> ?N \<le> up_output u" using lt[of "up_output u"] Cons.prems(2)[of u] by simp
    ultimately show ?thesis using False IH
      by (intro exI[of _ "u # us'"] exI[of _ e'] exI[of _ hs]) simp
  next
    case True
    have u: "up_output u \<in> X" "state_bytes (x_heap e ! up_output u) \<noteq> 0" using Cons.prems(2)[of u] True by simp_all
    obtain e1 s where S: "snapshot_output u e = Some (u\<lparr>up_output := ?N\<rparr>, e1)" "x_heap e1 = x_heap e @ [s]"
      "m_dims s = m_dims (x_heap e ! up_output u)" "m_data_type s = m_data_type (x_heap e ! up_output u)"
      "grows (x_world e) (x_world e1)" "state_ready e1 ?N" "state_value e1 ?N = state_value e (up_output u)"
      "brk (x_world e) \<le> raw_address (x_world e1) s"
      using snapshot_output_step[OF Cons.prems(1) u] by blast
    note old = grown_state[OF Cons.prems(1) S(5,2)]
    have R1: "ready_states (insert ?N X) e1"
      using old(1,5) S(2-4,6) growsD(1)[OF S(5)] Cons.prems(1) u(1) by (simp add: ready_states_def state_bytes_def)
    have "\<And>v. v \<in> set us \<Longrightarrow> up_output v \<in> insert ?N X \<and>
        (up_snapshot v \<longrightarrow> state_bytes (x_heap e1 ! up_output v) \<noteq> 0)"
      using Cons.prems(2) old(5) by simp
    from Cons.IH[OF R1 this] obtain us' e' hs where
      IH: "snapshot_outputs us e1 = Some (us', e')" "x_heap e' = x_heap e1 @ hs"
        "grows (x_world e1) (x_world e')" "fresh_states e1 e'" "list_all2 (snapshotted e1 e') us us'"
        "sorted_wrt (\<lambda>u v. length (x_heap e1) \<le> up_output u \<longrightarrow> up_output u \<noteq> up_output v) us'" by blast
    note new = grown_state[OF R1 IH(3,2), of ?N, simplified]
    have N1: "length (x_heap e1) = Suc ?N" by (simp add: S(2))
    have range_new: "state_range e' ?N \<inter> {..<brk (x_world e)} = {}"
      unfolding new(3) using S(8) by (auto simp: state_range_def byte_range_def S(2))
    have brk1: "brk (x_world e) \<le> brk (x_world e1)" by (rule growsD(2)[OF S(5)])
    have fresh: "fresh_states e e'"
      unfolding fresh_states_def
    proof (intro allI impI conjI)
      fix r assume r: "?N \<le> r" "r < length (x_heap e')"
      show "state_ready e' r"
        using new(1) IH(4) r by (cases "r = ?N") (auto simp: fresh_states_def N1)
      show "state_range e' r \<inter> {..<brk (x_world e)} = {}"
      proof (cases "r = ?N")
        case False
        then have "state_range e' r \<inter> {..<brk (x_world e1)} = {}" using IH(4) r by (simp add: fresh_states_def N1)
        then show ?thesis using brk1 by fastforce
      qed (use range_new in simp)
      fix q assume q: "?N \<le> q" "q < length (x_heap e')" "q \<noteq> r"
      have low: "state_range e' ?N \<subseteq> {..<brk (x_world e1)}" using new(3,4) by simp
      show "state_range e' q \<inter> state_range e' r = {}"
      proof (cases "q = ?N \<or> r = ?N")
        case True
        then show ?thesis
        proof
          assume "q = ?N"
          then have "state_range e' r \<inter> {..<brk (x_world e1)} = {}" using IH(4) r q(3) by (simp add: fresh_states_def N1)
          then show ?thesis using low \<open>q = ?N\<close> by blast
        next
          assume "r = ?N"
          then have "state_range e' q \<inter> {..<brk (x_world e1)} = {}" using IH(4) q by (simp add: fresh_states_def N1)
          then show ?thesis using low \<open>r = ?N\<close> by blast
        qed
      qed (use IH(4) r q in \<open>simp add: fresh_states_def N1\<close>)
    qed
    have first: "snapshotted e e' u (u\<lparr>up_output := ?N\<rparr>)"
      using True S(3,4,7) new(2,5) IH(2) by (simp add: snapshotted_def S(2) nth_append)
    have rel: "snapshotted e e' v v'" if "v \<in> set us" "snapshotted e1 e' v v'" for v v'
      using that(2) Cons.prems(2)[of v] that(1) old(2,5)[of "up_output v"]
      by (auto simp: snapshotted_def N1 split: if_splits)
    have "list_all2 (snapshotted e e') us us'"
      by (rule list.rel_mono_strong[OF IH(5)]) (use rel in blast)
    moreover have "?N \<noteq> up_output v" if v: "v \<in> set us'" for v
    proof -
      obtain i where i: "i < length us'" "v = us' ! i" using v by (auto simp: in_set_conv_nth)
      then have l: "i < length us" and sn: "snapshotted e1 e' (us ! i) v"
        using IH(5) by (auto simp: list_all2_conv_all_nth)
      have "up_output (us ! i) < ?N" using Cons.prems(2)[of "us ! i"] l lt by simp
      then show ?thesis using sn by (auto simp: snapshotted_def N1 split: if_splits)
    qed
    moreover have "sorted_wrt (\<lambda>u v. ?N \<le> up_output u \<longrightarrow> up_output u \<noteq> up_output v) us'"
      by (rule sorted_wrt_mono_rel[OF _ IH(6)]) (use calculation(2) in \<open>auto simp: N1 Suc_le_eq le_less\<close>)
    ultimately show ?thesis
      using True S(1,2,5) IH(1,2,3) fresh first state_grows_trans[OF S(5) IH(3)]
      by (intro exI[of _ "u\<lparr>up_output := ?N\<rparr> # us'"] exI[of _ e'] exI[of _ "s # hs"]) simp
  qed
qed

section \<open>The overlap scan\<close>

text \<open>Once every tensor has its memory the test reads addresses only, and is exact.\<close>

lemma overlaps_exact:
  assumes R: "ready_states X e" and pq: "p \<in> X" "q \<in> X"
  shows "overlaps (x_heap e) True device_storage p q (x_world e) =
    (x_world e, state_range e p \<inter> state_range e q \<noteq> {})"
proof -
  let ?x = "x_heap e ! p" and ?y = "x_heap e ! q" and ?w = "x_world e"
  note placed = ready_placed[OF R pq(1)] ready_placed[OF R pq(2)]
  have near: "distance_within (raw_address ?w ?x) (state_bytes ?x) (raw_address ?w ?y) (state_bytes ?y) \<longleftrightarrow>
      state_range e p \<inter> state_range e q \<noteq> {}" if "state_bytes ?x \<noteq> 0" "state_bytes ?y \<noteq> 0"
    unfolding state_range_def byte_range_def disjoint_iff atLeastLessThan_iff using that
    by (subst distance_within_iff) auto
  have same: "distance_within (m_offset ?x) n (m_offset ?y) k = distance_within (raw_address ?w ?x) n (raw_address ?w ?y) k"
    if "m_storage ?x = m_storage ?y" for n k
    using that placed(1) by (auto simp: placed_def raw_address_def distance_within_def)
  have no_bytes: "state_range e p \<inter> state_range e q = {}" if "state_bytes ?x = 0 \<or> state_bytes ?y = 0"
    using that by (auto simp: state_range_def byte_range_def)
  show ?thesis
  proof (cases "state_bytes ?x = 0 \<or> state_bytes ?y = 0")
    case True
    have "StateOverlaps ?x ?y ?w = (?w, False)"
      unfolding StateOverlaps_def Let_def if_P[OF True] by (rule refl)
    then show ?thesis unfolding overlaps_def no_bytes[OF True] by simp
  next
    case False
    then show ?thesis
      using near same raw_data_placed[OF placed(1)] raw_data_placed[OF placed(2)]
      by (simp add: overlaps_def StateOverlaps_def Let_def)
  qed
qed

definition pure_test :: "nat set \<Rightarrow> overlap_test \<Rightarrow> world \<Rightarrow> (nat \<Rightarrow> nat \<Rightarrow> bool) \<Rightarrow> bool" where
  "pure_test X test w T \<longleftrightarrow> (\<forall>p \<in> X. \<forall>q \<in> X. test p q w = (w, T p q))"

text \<open>
  Flags are only added, a snapshot only for an output that overlaps something; the tensors of an
  update and its kind stay.
\<close>

definition touched :: "(nat \<Rightarrow> nat \<Rightarrow> bool) \<Rightarrow> nat \<Rightarrow> bool" where
  "touched T q \<longleftrightarrow> (\<exists>p. T p q \<or> T q p)"

definition flagged :: "(nat \<Rightarrow> nat \<Rightarrow> bool) \<Rightarrow> Update list \<Rightarrow> Update list \<Rightarrow> bool" where
  "flagged T us us' \<longleftrightarrow> length us' = length us \<and> (\<forall>i < length us. up_input (us' ! i) = up_input (us ! i) \<and>
     up_output (us' ! i) = up_output (us ! i) \<and>
     sb_axis (up_binding (us' ! i)) = sb_axis (up_binding (us ! i)) \<and>
     (up_snapshot (us ! i) \<longrightarrow> up_snapshot (us' ! i)) \<and>
     (up_snapshot (us' ! i) \<longrightarrow> up_snapshot (us ! i) \<or> touched T (up_output (us ! i))))"

lemma flagged_refl: "flagged T us us"
  by (simp add: flagged_def)

lemma flagged_trans: "flagged T a b \<Longrightarrow> flagged T b c \<Longrightarrow> flagged T a c"
  by (auto simp: flagged_def)

lemma flagged_snapshot: "touched T (up_output (us ! i)) \<Longrightarrow> flagged T us (us[i := take_snapshot (us ! i)])"
  by (cases "i < length us") (auto simp: flagged_def nth_list_update take_snapshot_def keep_stable_def list_update_beyond)

lemma flagged_stable: "flagged T us (us[i := keep_stable (us ! i)])"
  by (cases "i < length us") (auto simp: flagged_def nth_list_update keep_stable_def list_update_beyond)

lemma flagged_both: "i \<noteq> j \<Longrightarrow> touched T (up_output (us ! i)) \<Longrightarrow>
    flagged T us ((us[i := take_snapshot (us ! i)])[j := keep_stable (us ! j)])"
  using flagged_trans[OF flagged_snapshot[of T us i] flagged_stable[of T "us[i := take_snapshot (us ! i)]" j]]
  by (simp add: nth_list_update_neq)

definition in_batch :: "nat set \<Rightarrow> Update list \<Rightarrow> bool" where
  "in_batch X us \<longleftrightarrow> (\<forall>u \<in> set us. up_input u \<in> X \<and> up_output u \<in> X)"

lemma in_batch_flagged: "in_batch X us \<Longrightarrow> flagged T us us' \<Longrightarrow> in_batch X us'"
  by (simp add: in_batch_def flagged_def all_set_conv_all_nth)

lemma in_batch_nth: "in_batch X us \<Longrightarrow> i < length us \<Longrightarrow> up_input (us ! i) \<in> X \<and> up_output (us ! i) \<in> X"
  by (simp add: in_batch_def)

lemma compare_updates_facts:
  assumes "pure_test X test w T" and "in_batch X us" and "i < length us" and "\<And>j. j \<in> set js \<Longrightarrow> j < length us"
  shows "case compare_updates test i js (us, w) of
      (Inl e, w') \<Rightarrow> w' = w \<and> \<not> ok e \<and> (\<exists>j \<in> set js. j \<noteq> i \<and> T (up_input (us ! i)) (up_input (us ! j)))
    | (Inr us', w') \<Rightarrow> w' = w \<and> flagged T us us' \<and>
        (\<forall>j \<in> set js. j \<noteq> i \<longrightarrow> \<not> T (up_input (us ! i)) (up_input (us ! j)) \<and>
           (T (up_output (us ! i)) (up_input (us ! j)) \<or> T (up_output (us ! i)) (up_output (us ! j)) \<longrightarrow>
              up_snapshot (us' ! i)))"
  using assms
proof (induction js arbitrary: us)
  case Nil
  then show ?case by (simp add: flagged_refl)
next
  case (Cons j js)
  let ?in = "\<lambda>k. up_input (us ! k)" and ?out = "\<lambda>k. up_output (us ! k)"
  have T: "test p q w = (w, T p q)" if "p \<in> X" "q \<in> X" for p q
    using Cons.prems(1) that by (simp add: pure_test_def)
  have mem: "?in k \<in> X" "?out k \<in> X" if "k < length us" for k
    using in_batch_nth[OF Cons.prems(2) that] by simp_all
  have j: "j < length us" using Cons.prems(4) by simp
  show ?case
  proof (cases "i = j")
    case True
    then show ?thesis
      using Cons.IH[OF Cons.prems(1,2,3)] Cons.prems(4) by (auto split: prod.splits sum.splits)
  next
    case False
    show ?thesis
    proof (cases "T (?in i) (?in j)")
      case True
      then show ?thesis using False T[OF mem(1)[OF Cons.prems(3)] mem(1)[OF j]] by simp
    next
      case free: False
      let ?shared = "T (?out i) (?in j) \<or> T (?out i) (?out j)"
      define us1 where "us1 = (if ?shared then (us[i := take_snapshot (us ! i)])[j := keep_stable (us ! j)] else us)"
      have fl: "flagged T us us1" 
        unfolding us1_def using flagged_both[OF False, of T us] flagged_refl by (auto simp: touched_def)
      have len: "length us1 = length us" using fl by (simp add: flagged_def)
      have step: "compare_updates test i (j # js) (us, w) = compare_updates test i js (us1, w)"
        using False free T mem Cons.prems(3) j by (simp add: us1_def)
      have snap: "up_snapshot (us1 ! i)" if ?shared
        using that False Cons.prems(3) by (simp add: us1_def take_snapshot_def keep_stable_def)
      have io: "up_input (us1 ! k) = ?in k" "up_output (us1 ! k) = ?out k" if "k < length us" for k
        using fl that by (simp_all add: flagged_def)
      have js: "\<And>k. k \<in> set js \<Longrightarrow> k < length us1" using Cons.prems(4) len by simp
      note IH = Cons.IH[OF Cons.prems(1) in_batch_flagged[OF Cons.prems(2) fl] Cons.prems(3)[folded len] js]
      show ?thesis
      proof (cases "compare_updates test i js (us1, w)")
        case (Pair r w')
        show ?thesis
        proof (cases r)
          case (Inl e)
          then have e: "w' = w \<and> \<not> ok e" "\<exists>k \<in> set js. k \<noteq> i \<and> T (up_input (us1 ! i)) (up_input (us1 ! k))"
            using IH Pair by simp_all
          then have "\<exists>k \<in> set js. k \<noteq> i \<and> T (?in i) (?in k)"
            using io Cons.prems(3,4) by auto
          then show ?thesis using e(1) Inl Pair step by auto
        next
          case (Inr us')
          have "w' = w" and fl2: "flagged T us1 us'" and f: "\<And>k. k \<in> set js \<Longrightarrow> k \<noteq> i \<Longrightarrow>
              \<not> T (?in i) (?in k) \<and> (T (?out i) (?in k) \<or> T (?out i) (?out k) \<longrightarrow> up_snapshot (us' ! i))"
            using IH Pair Inr io Cons.prems(3,4) by auto
          moreover have "up_snapshot (us' ! i)" if ?shared
            using snap[OF that] fl2 Cons.prems(3) len by (simp add: flagged_def)
          ultimately show ?thesis
            using Pair Inr step free flagged_trans[OF fl fl2] by auto
        qed
      qed
    qed
  qed
qed

lemma scan_updates_facts:
  assumes "pure_test X test w T" and "in_batch X us" and "\<And>i. i \<in> set is \<Longrightarrow> i < length us"
  shows "case scan_updates test True is (us, w) of
      (Inl e, w') \<Rightarrow> w' = w \<and> \<not> ok e \<and> (\<exists>i \<in> set is. \<exists>j < length us. j \<noteq> i \<and>
         T (up_input (us ! i)) (up_input (us ! j)))
    | (Inr us', w') \<Rightarrow> w' = w \<and> flagged T us us' \<and>
        (\<forall>i \<in> set is. (T (up_input (us ! i)) (up_output (us ! i)) \<longrightarrow> up_snapshot (us' ! i)) \<and>
          (\<forall>j < length us. j \<noteq> i \<longrightarrow> \<not> T (up_input (us ! i)) (up_input (us ! j)) \<and>
             (T (up_output (us ! i)) (up_input (us ! j)) \<or> T (up_output (us ! i)) (up_output (us ! j)) \<longrightarrow>
                up_snapshot (us' ! i))))"
  using assms
proof (induction "is" arbitrary: us)
  case Nil
  then show ?case by (simp add: flagged_refl)
next
  case (Cons i "is")
  let ?in = "\<lambda>k. up_input (us ! k)" and ?out = "\<lambda>k. up_output (us ! k)"
  have i: "i < length us" using Cons.prems(3) by simp
  have T: "test (?in i) (?out i) w = (w, T (?in i) (?out i))"
    using Cons.prems(1) in_batch_nth[OF Cons.prems(2) i] by (simp add: pure_test_def)
  define us1 where "us1 = (if T (?in i) (?out i) then us[i := take_snapshot (us ! i)] else us)"
  have fl1: "flagged T us us1" 
    unfolding us1_def using flagged_snapshot[of T us i] flagged_refl by (auto simp: touched_def)
  have len: "length us1 = length us" using fl1 by (simp add: flagged_def)
  have io: "up_input (us1 ! k) = ?in k" "up_output (us1 ! k) = ?out k" if "k < length us" for k
    using fl1 that by (simp_all add: flagged_def)
  have snap1: "up_snapshot (us1 ! i)" if "T (?in i) (?out i)"
    using that i by (simp add: us1_def take_snapshot_def)
  have step: "scan_updates test True (i # is) (us, w) =
      (case compare_updates test i [0..<length us1] (us1, w) of
         (Inl e, w2) \<Rightarrow> (Inl e, w2) | (Inr us2, w2) \<Rightarrow> scan_updates test True is (us2, w2))"
    using T len by (simp add: us1_def)
  have all: "\<And>j. j \<in> set [0..<length us1] \<Longrightarrow> j < length us1" by simp
  have b1: "in_batch X us1" by (rule in_batch_flagged[OF Cons.prems(2) fl1])
  note row = compare_updates_facts[of X test w T us1 i "[0..<length us1]", OF Cons.prems(1) b1 i[folded len] all]
  obtain r w1 where run: "compare_updates test i [0..<length us1] (us1, w) = (r, w1)"
    by (cases "compare_updates test i [0..<length us1] (us1, w)")
  show ?case
  proof (cases r)
    case (Inl e)
    then have e: "w1 = w \<and> \<not> ok e" "\<exists>j < length us. j \<noteq> i \<and> T (up_input (us1 ! i)) (up_input (us1 ! j))"
      using row run len by auto
    then have "\<exists>j < length us. j \<noteq> i \<and> T (?in i) (?in j)"
      using io i by auto
    then show ?thesis using e(1) Inl run step by simp
  next
    case (Inr us2)
    have w1: "w1 = w" and fl2: "flagged T us1 us2" and f: "\<And>j. j < length us \<Longrightarrow> j \<noteq> i \<Longrightarrow>
        \<not> T (?in i) (?in j) \<and> (T (?out i) (?in j) \<or> T (?out i) (?out j) \<longrightarrow> up_snapshot (us2 ! i))"
      using row run Inr io i len by auto
    have fl: "flagged T us us2" by (rule flagged_trans[OF fl1 fl2])
    have len2: "length us2 = length us" using fl by (simp add: flagged_def)
    have io2: "up_input (us2 ! k) = ?in k" "up_output (us2 ! k) = ?out k" if "k < length us" for k
      using fl that by (simp_all add: flagged_def)
    have snap2: "up_snapshot (us2 ! i)" if "T (?in i) (?out i)"
      using snap1[OF that] fl2 i len by (simp add: flagged_def)
    have is_lt: "\<And>k. k \<in> set is \<Longrightarrow> k < length us2" using Cons.prems(3) len2 by simp
    note IH = Cons.IH[OF Cons.prems(1) in_batch_flagged[OF Cons.prems(2) fl] is_lt]
    have next_run: "scan_updates test True (i # is) (us, w) = scan_updates test True is (us2, w)"
      using step run Inr w1 by simp
    obtain r' w' where run': "scan_updates test True is (us2, w) = (r', w')"
      by (cases "scan_updates test True is (us2, w)")
    show ?thesis
    proof (cases r')
      case (Inl e)
      then have e: "w' = w \<and> \<not> ok e"
          "\<exists>k \<in> set is. \<exists>j < length us2. j \<noteq> k \<and> T (up_input (us2 ! k)) (up_input (us2 ! j))"
        using IH run' by simp_all
      then obtain k j where kj: "k \<in> set is" "j < length us" "j \<noteq> k" "T (up_input (us2 ! k)) (up_input (us2 ! j))"
        using len2 by auto
      have "k < length us" using Cons.prems(3) kj(1) by simp
      then have "\<exists>k \<in> set is. \<exists>j < length us. j \<noteq> k \<and> T (?in k) (?in j)"
        using kj io2(1)[of k] io2(1)[OF kj(2)] by (intro bexI[OF _ kj(1)] exI[of _ j]) simp
      then show ?thesis using e(1) Inl run' next_run by auto
    next
      case r': (Inr us')
      have w': "w' = w" and fl3: "flagged T us2 us'"
        and g: "\<And>k. k \<in> set is \<Longrightarrow> (T (?in k) (?out k) \<longrightarrow> up_snapshot (us' ! k)) \<and>
          (\<forall>j < length us. j \<noteq> k \<longrightarrow> \<not> T (?in k) (?in j) \<and>
             (T (?out k) (?in j) \<or> T (?out k) (?out j) \<longrightarrow> up_snapshot (us' ! k)))"
        using IH run' r' io2 is_lt len2 by auto
      have "up_snapshot (us' ! i)" if "up_snapshot (us2 ! i)"
        using that fl3 i len2 by (simp add: flagged_def)
      then have "(T (?in i) (?out i) \<longrightarrow> up_snapshot (us' ! i)) \<and>
          (\<forall>j < length us. j \<noteq> i \<longrightarrow> \<not> T (?in i) (?in j) \<and>
             (T (?out i) (?in j) \<or> T (?out i) (?out j) \<longrightarrow> up_snapshot (us' ! i)))"
        using snap2 f by blast
      then show ?thesis
        using run' r' next_run w' flagged_trans[OF fl fl3] g by simp
    qed
  qed
qed

section \<open>The commit\<close>

definition range_overlap :: "'b rt_env \<Rightarrow> nat \<Rightarrow> nat \<Rightarrow> bool" where
  "range_overlap e p q \<longleftrightarrow> state_range e p \<inter> state_range e q \<noteq> {}"

definition scanned :: "'b rt_env \<Rightarrow> Update list \<Rightarrow> bool" where
  "scanned e us \<longleftrightarrow> (\<forall>i < length us.
     (range_overlap e (up_input (us ! i)) (up_output (us ! i)) \<longrightarrow> up_snapshot (us ! i)) \<and>
     (up_snapshot (us ! i) \<longrightarrow> touched (range_overlap e) (up_output (us ! i))) \<and>
     (\<forall>j < length us. j \<noteq> i \<longrightarrow> \<not> range_overlap e (up_input (us ! i)) (up_input (us ! j)) \<and>
        (range_overlap e (up_output (us ! i)) (up_input (us ! j)) \<or>
         range_overlap e (up_output (us ! i)) (up_output (us ! j)) \<longrightarrow> up_snapshot (us ! i))))"

lemma range_overlap_self: "range_overlap e p p \<longleftrightarrow> state_bytes (x_heap e ! p) \<noteq> 0"
  by (auto simp: range_overlap_def state_range_def byte_range_def)

lemma touched_bytes: "touched (range_overlap e) q \<Longrightarrow> state_bytes (x_heap e ! q) \<noteq> 0"
  by (auto simp: touched_def range_overlap_def state_range_def byte_range_def)

lemma range_overlap_sym: "range_overlap e p q = range_overlap e q p"
  by (auto simp: range_overlap_def)

lemma commit_disjoint:
  assumes hb: "host_state_backend backend device" and R: "ready_states X (rg_env g)" and B: "in_batch X us"
    and sc: "scanned (rg_env g) us" and con: "contracts_hold g"
    and pair: "\<And>u. u \<in> set us \<Longrightarrow>
      state_pair (up_binding u) (x_heap (rg_env g) ! up_input u) (x_heap (rg_env g) ! up_output u)"
  shows "\<exists>g'. commit_updates backend device us g = Some (Ok, g') \<and> contracts_hold g' \<and>
     (\<forall>u \<in> set us. update_done (rg_env g) (rg_env g') u)"
proof -
  let ?e = "rg_env g" and ?N = "length (x_heap (rg_env g))"
  have host: "cap_host_memory (Capabilities backend device)" using hb by (simp add: host_state_backend_def)
  have lt: "p < ?N" if "p \<in> X" for p using R that by (simp add: ready_states_def state_ready_def)
  have "up_output u \<in> X \<and> (up_snapshot u \<longrightarrow> state_bytes (x_heap ?e ! up_output u) \<noteq> 0)" if u: "u \<in> set us" for u
  proof -
    obtain i where i: "i < length us" "u = us ! i" using u by (auto simp: in_set_conv_nth)
    have "up_snapshot (us ! i) \<longrightarrow> touched (range_overlap ?e) (up_output (us ! i))"
      using sc i(1) unfolding scanned_def by blast
    then show ?thesis using B u i(2) touched_bytes[of ?e "up_output u"] by (simp add: in_batch_def)
  qed
  from snapshot_outputs_ok[OF R this] obtain vs e hs where
    run: "snapshot_outputs us ?e = Some (vs, e)" and heap: "x_heap e = x_heap ?e @ hs"
    and gr: "grows (x_world ?e) (x_world e)" and fr: "fresh_states ?e e"
    and rel: "list_all2 (snapshotted ?e e) us vs"
    and dist: "sorted_wrt (\<lambda>u v. ?N \<le> up_output u \<longrightarrow> up_output u \<noteq> up_output v) vs" by blast
  note old = grown_state[OF R gr heap]
  have len: "length vs = length us" using rel by (simp add: list_all2_lengthD)
  have nth: "snapshotted ?e e (us ! i) (vs ! i)" if "i < length us" for i
    using rel that by (simp add: list_all2_conv_all_nth)
  have inX: "up_input (us ! i) \<in> X" "up_output (us ! i) \<in> X" if "i < length us" for i
    using in_batch_nth[OF B that] by simp_all
  have vin: "up_input (vs ! i) = up_input (us ! i)" "up_binding (vs ! i) = up_binding (us ! i)" if "i < length us" for i
    using nth[OF that] by (simp_all add: snapshotted_def)
  have vout: "if up_snapshot (us ! i) then ?N \<le> up_output (vs ! i) \<and> up_output (vs ! i) < length (x_heap e)
      else up_output (vs ! i) = up_output (us ! i)" if "i < length us" for i
    using nth[OF that] by (simp add: snapshotted_def split: if_splits)
  define F where "F = {r. ?N \<le> r \<and> r < length (x_heap e)}"
  define P where "P = up_input ` set us \<union> up_output ` {u \<in> set us. \<not> up_snapshot u}"
  have PX: "P \<subseteq> X" using B by (auto simp: P_def in_batch_def)
  have Pdis: "\<not> range_overlap ?e p q" if pq: "p \<in> P" "q \<in> P" "p \<noteq> q" for p q
  proof -
    obtain i where i: "i < length us" "p = up_input (us ! i) \<or> p = up_output (us ! i) \<and> \<not> up_snapshot (us ! i)"
      using pq(1) unfolding P_def in_set_conv_nth by (auto simp: in_set_conv_nth)
    obtain j where j: "j < length us" "q = up_input (us ! j) \<or> q = up_output (us ! j) \<and> \<not> up_snapshot (us ! j)"
      using pq(2) unfolding P_def in_set_conv_nth by (auto simp: in_set_conv_nth)
    have si: "range_overlap ?e (up_input (us ! i)) (up_output (us ! i)) \<longrightarrow> up_snapshot (us ! i)"
      "j \<noteq> i \<Longrightarrow> \<not> range_overlap ?e (up_input (us ! i)) (up_input (us ! j)) \<and>
        (range_overlap ?e (up_output (us ! i)) (up_input (us ! j)) \<or>
         range_overlap ?e (up_output (us ! i)) (up_output (us ! j)) \<longrightarrow> up_snapshot (us ! i))"
      using sc i(1) j(1) unfolding scanned_def by blast+
    have sj: "i \<noteq> j \<Longrightarrow> range_overlap ?e (up_output (us ! j)) (up_input (us ! i)) \<longrightarrow> up_snapshot (us ! j)"
      using sc i(1) j(1) unfolding scanned_def by blast
    show ?thesis
    proof (cases "i = j")
      case True
      then show ?thesis using i(2) j(2) pq(3) si(1) range_overlap_sym by metis
    next
      case False
      then show ?thesis using i(2) j(2) si(2) sj range_overlap_sym by metis
    qed
  qed
  have low: "state_range e p \<subseteq> {..<brk (x_world ?e)}" "state_range e p = state_range ?e p" if "p \<in> P" for p
    using old(3,4)[of p] that PX by auto
  have high: "state_range e r \<inter> {..<brk (x_world ?e)} = {}" "state_ready e r" if "r \<in> F" for r
    using fr that by (simp_all add: fresh_states_def F_def)
  have FF: "state_range e q \<inter> state_range e r = {}" if "q \<in> F" "r \<in> F" "q \<noteq> r" for q r
    using fr that by (simp add: fresh_states_def F_def)
  have D: "disjoint_states (P \<union> F) e"
    unfolding disjoint_states_def
  proof (intro conjI ballI impI)
    show "world_ok (x_world e)" by (rule growsD(1)[OF gr])
    show "state_ready e p" if "p \<in> P \<union> F" for p
      using that old(1)[of p] PX high(2) by auto
    fix p q assume pq: "p \<in> P \<union> F" "q \<in> P \<union> F" "p \<noteq> q"
    show "state_range e p \<inter> state_range e q = {}"
    proof (cases "p \<in> P"; cases "q \<in> P")
      assume "p \<in> P" "q \<in> P"
      then show ?thesis using Pdis pq(3) low(2) by (simp add: range_overlap_def)
    next
      assume "p \<in> P" "q \<notin> P"
      then show ?thesis using low(1)[of p] high(1)[of q] pq(2) by blast
    next
      assume "p \<notin> P" "q \<in> P"
      then show ?thesis using low(1)[of q] high(1)[of p] pq(1) by blast
    next
      assume "p \<notin> P" "q \<notin> P"
      then show ?thesis using FF pq by blast
    qed
  qed
  have vX: "up_input (vs ! i) \<in> P" "up_output (vs ! i) \<in> P \<union> F" if "i < length us" for i
    using that vin[OF that] vout[OF that] by (auto simp: P_def F_def split: if_splits)
  have shape_in: "x_heap e ! up_input (vs ! i) = x_heap ?e ! up_input (us ! i)" if "i < length us" for i
    using old(5)[OF inX(1)[OF that]] vin(1)[OF that] by simp
  have shape_out: "m_dims (x_heap e ! up_output (vs ! i)) = m_dims (x_heap ?e ! up_output (us ! i)) \<and>
      m_data_type (x_heap e ! up_output (vs ! i)) = m_data_type (x_heap ?e ! up_output (us ! i)) \<and>
      state_value e (up_output (vs ! i)) = state_value ?e (up_output (us ! i))" if "i < length us" for i
    using nth[OF that] old(2,5)[OF inX(2)[OF that]] by (auto simp: snapshotted_def split: if_splits)
  have okv: "update_ok (P \<union> F) (x_heap e) v" if "v \<in> set vs" for v
  proof -
    obtain i where i: "i < length us" "v = vs ! i" using \<open>v \<in> set vs\<close> len by (auto simp: in_set_conv_nth)
    have "state_pair (up_binding v) (x_heap e ! up_input v) (x_heap e ! up_output v)"
      unfolding i(2) vin(2)[OF i(1)] shape_in[OF i(1)]
      using pair[OF nth_mem[OF i(1)]] shape_out[OF i(1)] by (subst state_pair_shape[OF refl refl]) auto
    then show ?thesis using vX[OF i(1)] i(2) by (simp add: update_ok_def)
  qed
  have self: "state_bytes (x_heap e ! p) = 0 \<or> \<not> (p = q)" if "\<not> range_overlap e p q" for p q
    using that range_overlap_self[of e p] by auto
  have sep: "separate (x_heap e) (vs ! i) (vs ! j)" if ij: "i < j" "j < length us" for i j
  proof -
    have i: "i < length us" and ne: "i \<noteq> j" using ij by simp_all
    have oe: "range_overlap e p q = range_overlap ?e p q" if "p \<in> P" "q \<in> P" for p q
      using low(2) that by (simp add: range_overlap_def)
    have s: "\<not> range_overlap ?e (up_input (us ! i)) (up_input (us ! j))"
      "range_overlap ?e (up_output (us ! i)) (up_input (us ! j)) \<or>
         range_overlap ?e (up_output (us ! i)) (up_output (us ! j)) \<longrightarrow> up_snapshot (us ! i)"
      "range_overlap ?e (up_output (us ! j)) (up_input (us ! i)) \<longrightarrow> up_snapshot (us ! j)"
      using sc i ij(2) ne unfolding scanned_def by blast+
    have ii: "state_bytes (x_heap e ! up_input (vs ! i)) \<noteq> 0 \<longrightarrow> up_input (vs ! i) \<noteq> up_input (vs ! j)"
      using s(1) range_overlap_self[of ?e] shape_in[OF i] vin(1)[OF i] vin(1)[OF ij(2)] by auto
    have io: "state_bytes (x_heap e ! up_input (vs ! i)) \<noteq> 0 \<longrightarrow> up_input (vs ! i) \<noteq> up_output (vs ! j)"
      using s(3) range_overlap_self[of ?e] shape_in[OF i] vin(1)[OF i] vout[OF ij(2)] lt[OF inX(1)[OF i]]
      by (auto split: if_splits)
    have oi: "state_bytes (x_heap e ! up_output (vs ! i)) \<noteq> 0 \<longrightarrow> up_output (vs ! i) \<noteq> up_input (vs ! j)"
      using s(2) range_overlap_self[of ?e] old(5)[OF inX(2)[OF i]] vin(1)[OF ij(2)] vout[OF i] lt[OF inX(1)[OF ij(2)]]
      by (auto split: if_splits)
    have oo: "state_bytes (x_heap e ! up_output (vs ! i)) \<noteq> 0 \<longrightarrow> up_output (vs ! i) \<noteq> up_output (vs ! j)"
    proof (cases "up_snapshot (us ! i)")
      case True
      then show ?thesis using dist ij len vout[OF i] by (simp add: sorted_wrt_iff_nth_less)
    next
      case False
      then show ?thesis
        using s(2) range_overlap_self[of ?e] old(5)[OF inX(2)[OF i]] vout[OF i] vout[OF ij(2)] lt[OF inX(2)[OF i]]
        by (auto split: if_splits)
    qed
    show ?thesis using ii io oi oo by (simp add: separate_def)
  qed
  have sepw: "sorted_wrt (separate (x_heap e)) vs"
    using sep len by (simp add: sorted_wrt_iff_nth_less)
  have views: "same_views ?e e" "same_shapes ?e e" by (auto simp: same_views_def same_shapes_def heap nth_append)
  obtain g' where g': "apply_updates backend device vs (g\<lparr>rg_env := e\<rparr>) = Some (Ok, g')" "contracts_hold g'"
    "\<And>v. v \<in> set vs \<Longrightarrow> update_done e (rg_env g') v"
    using apply_updates_simultaneous[OF hb, of "P \<union> F" "g\<lparr>rg_env := e\<rparr>" vs] D okv sepw
      contracts_hold_views[OF con views] by auto
  have "update_done ?e (rg_env g') u" if u: "u \<in> set us" for u
  proof -
    obtain i where i: "i < length us" "u = us ! i" using u by (auto simp: in_set_conv_nth)
    have "update_done e (rg_env g') (vs ! i)" using g'(3) i len by simp
    then show ?thesis
      using i(2) vin[OF i(1)] shape_in[OF i(1)] shape_out[OF i(1)] old(2)[OF inX(1)[OF i(1)]]
      by (simp add: update_done_def)
  qed
  then show ?thesis
    using run g' host by (simp add: commit_updates_def Let_def)
qed

section \<open>Advance\<close>

lemma ValidateTensors_facts:
  assumes "ok (ValidateTensors w b (Some x) (Some y))"
  shows "m_data_type x = m_data_type y" and "sb_axis b < 0 \<Longrightarrow> m_dims x = m_dims y"
    and "\<not> sb_axis b < 0 \<Longrightarrow> nat (sb_axis b) < length (m_dims x) \<and> length (m_dims y) = length (m_dims x) \<and>
      1 < m_dims x ! nat (sb_axis b) \<and> m_dims y ! nat (sb_axis b) = 1 \<and>
      append_dims_ok (nat (sb_axis b)) (m_dims x) (m_dims y)"
    and "CheckedTensorBytes (m_dims x) (m_data_type x) \<noteq> None" "CheckedTensorBytes (m_dims y) (m_data_type y) \<noteq> None"
    and "state_bytes x \<le> m_memory_size x" "state_bytes y \<le> m_memory_size y"
  using assms by (auto simp: ValidateTensors_def Let_def state_bytes_def not_less split: if_splits option.splits)

lemma ValidateTensors_missing: "x = None \<or> y = None \<Longrightarrow> \<not> ok (ValidateTensors w b x y)"
  by (auto simp: ValidateTensors_def split: option.splits)

lemma make_update_facts:
  assumes "make_update g b = Inr u"
  shows "\<exists>i j. rg_tensor g (sb_input b) = Some i \<and> rg_tensor g (sb_output b) = Some j \<and> up_input u = i \<and>
    up_output u = StateOutput g b i j \<and> sb_axis (up_binding u) = sb_axis b \<and> \<not> up_snapshot u \<and>
    ok (ValidateTensors (x_world (rg_env g)) b (Some (tensor_of g i)) (Some (tensor_of g (up_output u))))"
proof -
  let ?st = "\<lambda>i j. ValidateTensors (x_world (rg_env g)) b (Some (tensor_of g i)) (Some (tensor_of g (StateOutput g b i j)))"
  obtain i j where v: "ValidateState g b = Inr (i, j)"
    using assms by (cases "ValidateState g b") (auto simp: make_update_def)
  have ok: "ok (?st i j)" and u: "u = \<lparr>up_binding = (if m_immutable (tensor_of g (StateOutput g b i j)) then b\<lparr>sb_stable := True\<rparr> else b),
      up_input = i, up_output = StateOutput g b i j, up_snapshot = False\<rparr>"
    using assms by (simp_all add: make_update_def v Let_def split: if_splits)
  have first: "ok (ValidateTensors (x_world (rg_env g)) b (map_option (tensor_of g) (rg_tensor g (sb_input b)))
      (map_option (tensor_of g) (rg_tensor g (sb_output b))))"
    and ij: "i = the (rg_tensor g (sb_input b))" "j = the (rg_tensor g (sb_output b))"
    using v by (simp_all add: ValidateState_def Let_def split: if_splits)
  obtain i' where i': "rg_tensor g (sb_input b) = Some i'"
    using first ValidateTensors_missing by (cases "rg_tensor g (sb_input b)") simp_all
  obtain j' where j': "rg_tensor g (sb_output b) = Some j'"
    using first ValidateTensors_missing by (cases "rg_tensor g (sb_output b)") simp_all
  show ?thesis using i' j' ij ok by (simp add: u)
qed

lemma make_update_error: "make_update g b = Inl e \<Longrightarrow> \<not> ok e"
  by (auto simp: make_update_def ValidateState_def Let_def bindR_def split: sum.splits if_splits)

lemma make_updates_from:
  "foldR (\<lambda>b us. bindR (make_update g b) (\<lambda>u. Inr (us @ [u]))) bs acc = Inr us \<Longrightarrow>
     \<exists>vs. us = acc @ vs \<and> list_all2 (\<lambda>b v. make_update g b = Inr v) bs vs"
proof (induction bs arbitrary: acc)
  case (Cons b bs)
  then obtain v where v: "make_update g b = Inr v"
    "foldR (\<lambda>b us. bindR (make_update g b) (\<lambda>u. Inr (us @ [u]))) bs (acc @ [v]) = Inr us"
    by (auto simp: bindR_def split: sum.splits)
  obtain vs where "us = (acc @ [v]) @ vs" "list_all2 (\<lambda>b v. make_update g b = Inr v) bs vs"
    using Cons.IH[OF v(2)] by blast
  then show ?case using v(1) by (intro exI[of _ "v # vs"]) simp
qed simp

lemma make_updates_error:
  "foldR (\<lambda>b us. bindR (make_update g b) (\<lambda>u. Inr (us @ [u]))) bs acc = Inl e \<Longrightarrow> \<not> ok e"
  by (induction bs arbitrary: acc) (auto simp: bindR_def dest: make_update_error split: sum.splits)

text \<open>The tensors a session moves: its inputs, and the outputs as \<open>StateOutput\<close> resolves them.\<close>

definition state_tensors :: "('b, 'd) RuntimeGraph \<Rightarrow> StateBinding list \<Rightarrow> nat set" where
  "state_tensors g bindings = {p. \<exists>b \<in> set bindings. \<exists>i j. rg_tensor g (sb_input b) = Some i \<and>
     rg_tensor g (sb_output b) = Some j \<and> (p = i \<or> p = StateOutput g b i j)}"

text \<open>
  They have been written before, so their memory exists and has a size that can be allocated, and
  every name is a tensor of the heap.
\<close>

definition states_in_memory :: "('b, 'd) RuntimeGraph \<Rightarrow> StateBinding list \<Rightarrow> bool" where
  "states_in_memory g bindings \<longleftrightarrow> world_ok (x_world (rg_env g)) \<and>
     (\<forall>name p. rg_tensor g name = Some p \<longrightarrow> p < length (x_heap (rg_env g))) \<and>
     (\<forall>p \<in> state_tensors g bindings. placed (x_world (rg_env g)) (tensor_of g p) (m_memory_size (tensor_of g p)) \<and>
        m_memory_size (tensor_of g p) \<le> SIZE_MAX - 4095)"

lemma StateOutput_in_heap:
  assumes "\<And>name p. rg_tensor g name = Some p \<Longrightarrow> p < n" and "rg_tensor g name = Some j"
  shows "StateOutput g b i j < n"
  using assms by (auto simp: StateOutput_def split: option.splits)

lemma state_pair_axis: "sb_axis b = sb_axis c \<Longrightarrow> state_pair b = state_pair c"
  by (simp add: state_pair_def fun_eq_iff)

definition simultaneous :: "('b, 'd) RuntimeGraph \<Rightarrow> ('b, 'd) RuntimeGraph \<Rightarrow> StateBinding \<Rightarrow> bool" where
  "simultaneous g g' b \<longleftrightarrow> (\<exists>p q. rg_tensor g (sb_input b) = Some p \<and> rg_tensor g (sb_output b) = Some q \<and>
     state_value (rg_env g') p = next_state b (tensor_of g p) (state_value (rg_env g) p)
       (state_value (rg_env g) (StateOutput g b p q)))"

lemma next_state_axis: "sb_axis b = sb_axis c \<Longrightarrow> next_state b = next_state c"
  by (simp add: next_state_def fun_eq_iff)

text \<open>
  When a batch is accepted: the compiled bindings hold, every binding is valid, no cache of packed
  elements is appended to, and no two inputs share a byte.
\<close>

definition state_batch_ok :: "('b, 'd) RuntimeGraph \<Rightarrow> StateBinding list \<Rightarrow> bool" where
  "state_batch_ok g bindings \<longleftrightarrow> ok (CheckTensorBindings g) \<and>
     (case make_updates g bindings of Inl _ \<Rightarrow> False
      | Inr us \<Rightarrow> \<not> packed_append (x_heap (rg_env g)) us \<and>
          (\<forall>i < length us. \<forall>j < length us. j \<noteq> i \<longrightarrow>
             \<not> range_overlap (rg_env g) (up_input (us ! i)) (up_input (us ! j))))"

lemma ApplyStateBindings_batch:
  assumes hb: "host_state_backend backend device" and mem: "states_in_memory g bindings"
  shows "\<exists>st g'. ApplyStateBindings backend bindings device g = Some (st, g') \<and>
     (if state_batch_ok g bindings
      then ok st \<and> contracts_hold g' \<and> (\<forall>b \<in> set bindings. simultaneous g g' b)
      else \<not> ok st \<and> g' = g)"
proof -
  let ?e = "rg_env g"
  have host: "cap_host_memory (Capabilities backend device)" "cap_supported (Capabilities backend device)"
    using hb by (simp_all add: host_state_backend_def)
  have names: "\<And>name p. rg_tensor g name = Some p \<Longrightarrow> p < length (x_heap ?e)"
    using mem by (simp add: states_in_memory_def)
  show ?thesis
  proof (cases "ok (CheckTensorBindings g)")
    case False
    then show ?thesis by (simp add: ApplyStateBindings_def state_batch_ok_def)
  next
    case check: True
    have con: "contracts_hold g" by (rule Check_contracts_hold[OF check]) (rule names)
    show ?thesis
    proof (cases "make_updates g bindings")
      case (Inl e)
      then have "\<not> ok e" unfolding make_updates_def by (rule make_updates_error)
      then show ?thesis using Inl check by (simp add: ApplyStateBindings_def state_batch_ok_def)
    next
      case (Inr us)
      then have rel: "list_all2 (\<lambda>b u. make_update g b = Inr u) bindings us"
        unfolding make_updates_def using make_updates_from by fastforce
      have from_binding: "\<exists>b \<in> set bindings. make_update g b = Inr u" if "u \<in> set us" for u
        using rel that by (auto simp: list_all2_conv_all_nth in_set_conv_nth intro!: bexI[OF _ nth_mem])
      show ?thesis
      proof (cases "us = [] \<or> packed_append (x_heap ?e) us")
        case True
        then show ?thesis
        proof
          assume "us = []"
          then show ?thesis using Inr check rel con
            by (simp add: ApplyStateBindings_def state_batch_ok_def packed_append_def)
        next
          assume packed: "packed_append (x_heap ?e) us"
          then have "us \<noteq> []" by (auto simp: packed_append_def)
          then show ?thesis using Inr check packed host
            by (simp add: ApplyStateBindings_def Let_def state_batch_ok_def)
        qed
      next
        case False
        then have ne: "us \<noteq> []" and packed: "\<not> packed_append (x_heap ?e) us" by simp_all
        have unpacked: "DataTypeBytes (m_data_type (x_heap ?e ! up_input u)) \<noteq> 0"
          if "u \<in> set us" "0 \<le> sb_axis (up_binding u)" for u
          using packed that by (auto simp: packed_append_def)
        let ?X = "state_tensors g bindings" and ?w = "x_world ?e"
        have upd: "up_input u \<in> ?X \<and> up_output u \<in> ?X \<and> \<not> up_snapshot u \<and>
            state_pair (up_binding u) (x_heap ?e ! up_input u) (x_heap ?e ! up_output u) \<and>
            state_ready ?e (up_input u) \<and> state_ready ?e (up_output u)" if u: "u \<in> set us" for u
        proof -
          obtain b where b: "b \<in> set bindings" "make_update g b = Inr u" using from_binding[OF u] by blast
          obtain i j where ij: "rg_tensor g (sb_input b) = Some i" "rg_tensor g (sb_output b) = Some j"
            "up_input u = i" "up_output u = StateOutput g b i j" "sb_axis (up_binding u) = sb_axis b"
            "\<not> up_snapshot u"
            and v: "ok (ValidateTensors ?w b (Some (tensor_of g i)) (Some (tensor_of g (up_output u))))"
            using make_update_facts[OF b(2)] by blast
          have X: "up_input u \<in> ?X" "up_output u \<in> ?X" using b(1) ij unfolding state_tensors_def by auto
          have lt: "i < length (x_heap ?e)" "up_output u < length (x_heap ?e)"
            using names[OF ij(1)] StateOutput_in_heap[OF names ij(2)] ij(4) by simp_all
          have "placed ?w (tensor_of g p) (m_memory_size (tensor_of g p)) \<and>
              m_memory_size (tensor_of g p) \<le> SIZE_MAX - 4095" if "p \<in> ?X" for p
            using mem that by (simp add: states_in_memory_def)
          then have m: "placed ?w (tensor_of g p) (m_memory_size (tensor_of g p))" if "p \<in> ?X" for p using that by blast
          have "state_ready ?e (up_input u)" "state_ready ?e (up_output u)"
            using m X lt ij(3) ValidateTensors_facts(6,7)[OF v] by (simp_all add: state_ready_def tensor_of_def)
          moreover have "state_pair (up_binding u) (x_heap ?e ! up_input u) (x_heap ?e ! up_output u)"
            using ValidateTensors_facts(1-5)[OF v] unpacked[OF u] ij(3,5)
            by (auto simp: state_pair_def tensor_of_def)
          ultimately show ?thesis using X ij(6) by blast
        qed
        define X where "X = up_input ` set us \<union> up_output ` set us"
        have R: "ready_states X ?e"
        proof -
          have m: "m_memory_size (x_heap ?e ! p) \<le> SIZE_MAX - 4095" if "p \<in> ?X" for p
            using mem that by (simp add: states_in_memory_def tensor_of_def)
          have "state_ready ?e p \<and> state_bytes (x_heap ?e ! p) \<le> SIZE_MAX - 4095" if "p \<in> X" for p
          proof -
            have "p \<in> ?X" "state_ready ?e p" using that upd by (auto simp: X_def)
            then show ?thesis using m order_trans by (auto simp: state_ready_def)
          qed
          then show ?thesis using mem by (simp add: ready_states_def states_in_memory_def)
        qed
        have B: "in_batch X us" by (auto simp: in_batch_def X_def)
        let ?T = "range_overlap ?e"
        have pure: "pure_test X (overlaps (x_heap ?e) True (\<lambda>p. None)) ?w ?T"
          unfolding pure_test_def range_overlap_def using overlaps_exact[OF R] by blast
        obtain r w where run: "scan_updates (overlaps (x_heap ?e) True (\<lambda>p. None)) True [0..<length us] (us, ?w) = (r, w)"
          by (cases "scan_updates (overlaps (x_heap ?e) True (\<lambda>p. None)) True [0..<length us] (us, ?w)")
        have all: "\<And>i. i \<in> set [0..<length us] \<Longrightarrow> i < length us" by simp
        note scan = scan_updates_facts[of X "overlaps (x_heap ?e) True (\<lambda>p. None)" ?w ?T us "[0..<length us]",
            OF pure B all, unfolded run]
        have w: "w = ?w" using scan by (cases r) simp_all
        have same_g: "map_env (x_world_update (\<lambda>_. w)) g = g" by (simp add: map_env_def w)
        have step: "ApplyStateBindings backend bindings device g =
            (case r of Inl e \<Rightarrow> Some (e, g) | Inr us' \<Rightarrow> commit_updates backend device us' g)"
          using Inr check ne packed host run same_g
          by (cases r) (simp_all add: ApplyStateBindings_def Let_def)
        show ?thesis
        proof (cases r)
          case (Inl e)
          then have "\<not> state_batch_ok g bindings" and "\<not> ok e"
            using scan Inr by (auto simp: state_batch_ok_def)
          then show ?thesis using Inl step by simp
        next
          case r: (Inr us')
          have fl: "flagged ?T us us'"
            and facts: "\<And>i. i < length us \<Longrightarrow> (?T (up_input (us ! i)) (up_output (us ! i)) \<longrightarrow> up_snapshot (us' ! i)) \<and>
              (\<forall>j < length us. j \<noteq> i \<longrightarrow> \<not> ?T (up_input (us ! i)) (up_input (us ! j)) \<and>
                 (?T (up_output (us ! i)) (up_input (us ! j)) \<or> ?T (up_output (us ! i)) (up_output (us ! j)) \<longrightarrow>
                    up_snapshot (us' ! i)))"
            using scan r by simp_all
          have len: "length us' = length us" using fl by (simp add: flagged_def)
          have io: "up_input (us' ! i) = up_input (us ! i)" "up_output (us' ! i) = up_output (us ! i)"
            "sb_axis (up_binding (us' ! i)) = sb_axis (up_binding (us ! i))" if "i < length us" for i
            using fl that by (simp_all add: flagged_def)
          have snap: "touched ?T (up_output (us ! i))" if "i < length us" "up_snapshot (us' ! i)" for i
          proof -
            have "\<not> up_snapshot (us ! i)" using upd[of "us ! i"] that(1) by simp
            then show ?thesis using fl that unfolding flagged_def by blast
          qed
          have sc: "scanned ?e us'"
            unfolding scanned_def using facts snap by (simp add: len io)
          have pair: "state_pair (up_binding u) (x_heap ?e ! up_input u) (x_heap ?e ! up_output u)" if u: "u \<in> set us'" for u
          proof -
            obtain i where i: "i < length us" "u = us' ! i" using u len by (auto simp: in_set_conv_nth)
            then show ?thesis using upd[of "us ! i"] io[OF i(1)] state_pair_axis[OF io(3)[OF i(1)]] by simp
          qed
          obtain g' where g': "commit_updates backend device us' g = Some (Ok, g')" "contracts_hold g'"
            "\<And>u. u \<in> set us' \<Longrightarrow> update_done ?e (rg_env g') u"
            using commit_disjoint[OF hb R in_batch_flagged[OF B fl] sc con] pair by blast
          have "simultaneous g g' b" if b: "b \<in> set bindings" for b
          proof -
            obtain i where i: "i < length bindings" "b = bindings ! i" using b by (auto simp: in_set_conv_nth)
            have li: "i < length us" and m: "make_update g b = Inr (us ! i)"
              using rel i by (auto simp: list_all2_conv_all_nth)
            have "update_done ?e (rg_env g') (us' ! i)" using g'(3) li len by simp
            then show ?thesis
              using make_update_facts[OF m] io[OF li] next_state_axis[of "up_binding (us' ! i)" b]
              by (auto simp: simultaneous_def update_done_def tensor_of_def)
          qed
          moreover have "state_batch_ok g bindings"
            using check Inr packed facts by (simp add: state_batch_ok_def)
          ultimately show ?thesis using step r g'(1,2) by simp
        qed
      qed
    qed
  qed
qed

text \<open>
  C28: On a backend with host memory, and with the memory of the state tensors in place and of sizes
  the pool can round up to a page (at most \<open>SIZE_MAX - 4095\<close>; a snapshot is taken from it),
  \<open>Advance\<close> always answers, and all or nothing.  It fails exactly if the compiled bindings were
  changed, a binding is invalid, a cache of packed elements would be appended to, or two inputs
  share a byte, and then no byte and no record has changed.  Otherwise it is a simultaneous
  assignment: each input holds what its output held before the call, or, for a cache, its own
  slots of before moved by one with the output as the last, although the tensors of the batch may
  be views of the same storages, read-only, or overlap as outputs, and although some bindings
  exchange storages; and the compiled bindings of the graph still describe its tensors.
\<close>

theorem Advance_simultaneous:
  assumes "host_state_backend backend (ss_device session)" and "states_in_memory g (ss_bindings session)"
  shows "\<exists>st g'. Advance backend session g = Some (st, g') \<and>
     (if state_batch_ok g (ss_bindings session)
      then ok st \<and> CheckTensorBindings g' = Ok \<and> list_all (simultaneous g g') (ss_bindings session)
      else \<not> ok st \<and> g' = g)"
proof -
  obtain st g' where "Advance backend session g = Some (st, g')"
    "if state_batch_ok g (ss_bindings session)
     then ok st \<and> contracts_hold g' \<and> (\<forall>b \<in> set (ss_bindings session). simultaneous g g' b)
     else \<not> ok st \<and> g' = g"
    using ApplyStateBindings_batch[OF assms] unfolding Advance_def by blast
  then show ?thesis using contracts_hold_Check by (auto simp: list_all_iff split: if_splits)
qed

text \<open>Two states of one storage that exchange their values, the output of one being the input of the other.\<close>

definition state_example :: "(unit, unit) RuntimeGraph" where
  "state_example =
     \<lparr>rg_env = \<lparr>x_heap = [half_tensor 0, half_tensor 4],
                x_world = \<lparr>mem = (\<lambda>x. of_nat x), brk = 9, buffers = [\<lparr>b_data = 1, b_size = 8, b_read_only = False\<rparr>],
                  storages = [\<lparr>st_buffer = Some 0, st_capacity = 8, st_deferred = False, st_device = COMMON,
                    st_device_index = 0, st_materialized = True, st_version = 1\<rparr>],
                  next_version = 2, deferred_scope = False\<rparr>, x_dev = ()\<rparr>,
      rg_tensors = [(''x'', 0), (''y'', 1)], rg_nodes = [], rg_index = Map.empty, rg_ids = Map.empty,
      rg_value_names = [], rg_uses = Map.empty, rg_output_names = [], rg_output_ptrs = {}, rg_worker_count = 1,
      rg_pool = False, rg_profiling = False, rg_profiles = [], rg_profile_index = Map.empty, rg_mode = kSerialGraph,
      rg_threads = 1, rg_finalized = True, rg_bindings_installed = True, rg_uses_memory_plan = False,
      rg_locked = True, rg_contracts = [],
      rg_binding_contracts = [(''x'', \<lparr>tb_tensor = 0, tb_storage_id = Some 0, tb_offset = 0\<rparr>),
                              (''y'', \<lparr>tb_tensor = 1, tb_storage_id = Some 0, tb_offset = 4\<rparr>)],
      rg_effect_nodes = [], rg_effect_inputs = [], rg_effect_outputs = [], rg_status = Ok\<rparr>"

definition host_state :: "unit StateBackend" where
  "host_state = BackendContext.extend host_backend
     \<lparr>DeviceStorage = (\<lambda>_ _. None), CopyState = (\<lambda>_ _ _. None), SwapState = (\<lambda>_ _ _. None), AppendState = (\<lambda>_ _ _ _. None)\<rparr>"

definition exchange_session :: StatefulSession where
  "exchange_session = \<lparr>ss_device = COMMON, ss_bindings =
     [\<lparr>sb_input = ''x'', sb_output = ''y'', sb_axis = -1, sb_stable = False\<rparr>,
      \<lparr>sb_input = ''y'', sb_output = ''x'', sb_axis = -1, sb_stable = False\<rparr>]\<rparr>"

lemma half_state:
  "CheckedTensorBytes (m_dims (half_tensor k)) (m_data_type (half_tensor k)) = Some 4"
  "state_bytes (half_tensor k) = 4"
  using demo_byte_count[of k] by (simp_all add: tensor_byte_count_def state_bytes_def)

lemma half_fields:
  "m_storage (half_tensor k) = Some 0" "m_offset (half_tensor k) = k" "m_memory_size (half_tensor k) = 4"
  "m_dims (half_tensor k) = [4]" "m_data_type (half_tensor k) = INT8" "m_layout (half_tensor k) = ND"
  "\<not> m_immutable (half_tensor k)" "m_quantization (half_tensor k) = default_quantization"
  by (simp_all add: half_tensor_def empty_Tensor_def)

lemma exchange_ready:
  "host_state_backend host_state (ss_device exchange_session)"
  "states_in_memory state_example (ss_bindings exchange_session)"
  "state_batch_ok state_example (ss_bindings exchange_session)"
proof -
  show "host_state_backend host_state (ss_device exchange_session)"
    by (simp add: host_state_backend_def host_state_def host_backend_def host_capabilities_def exchange_session_def
        BackendContext.extend_def)
  show "states_in_memory state_example (ss_bindings exchange_session)"
    by (auto simp: states_in_memory_def state_example_def world_ok_def storage_ok_def rg_tensor_def
        state_tensors_def exchange_session_def placed_def tensor_of_def half_fields StateOutput_def
        GetProducerNode_def SIZE_MAX_def)
  have init: "IsInitialized (x_world (rg_env state_example)) (half_tensor k)" for k
    by (simp add: IsInitialized_def half_fields available_def state_example_def)
  have valid: "ValidateTensors (x_world (rg_env state_example)) b (Some (half_tensor i)) (Some (half_tensor j)) = Ok"
    if "sb_axis b = -1" for b i j
    using that half_state(1)[of i] half_state(1)[of j] init
    by (simp add: ValidateTensors_def Let_def half_fields HasSameQuantization_def
        default_quantization_def)
  have tensors: "tensor_of state_example 0 = half_tensor 0" "tensor_of state_example (Suc 0) = half_tensor 4"
    "rg_tensor state_example ''x'' = Some 0" "rg_tensor state_example ''y'' = Some 1"
    by (simp_all add: tensor_of_def state_example_def rg_tensor_def)
  have out: "StateOutput state_example b i j = j" for b i j
    by (simp add: StateOutput_def GetProducerNode_def state_example_def)
  have us: "make_updates state_example (ss_bindings exchange_session) =
      Inr [\<lparr>up_binding = \<lparr>sb_input = ''x'', sb_output = ''y'', sb_axis = -1, sb_stable = False\<rparr>,
             up_input = 0, up_output = 1, up_snapshot = False\<rparr>,
           \<lparr>up_binding = \<lparr>sb_input = ''y'', sb_output = ''x'', sb_axis = -1, sb_stable = False\<rparr>,
             up_input = 1, up_output = 0, up_snapshot = False\<rparr>]"
    by (simp add: make_updates_def make_update_def ValidateState_def exchange_session_def tensors valid out
        half_fields)
  have bindings: "ok (CheckTensorBindings state_example)"
    by (simp add: CheckTensorBindings_def state_example_def binding_matches_def rg_tensor_def tensor_of_def
        storage_id_def half_fields)
  have heap: "x_heap (rg_env state_example) = [half_tensor 0, half_tensor 4]"
    and addr: "raw_address (x_world (rg_env state_example)) (half_tensor k) = 1 + k" for k
    by (simp_all add: state_example_def raw_address_def half_fields)
  have "\<not> range_overlap (rg_env state_example) 0 1" "\<not> range_overlap (rg_env state_example) 1 0"
    by (auto simp: range_overlap_def state_range_def byte_range_def heap addr half_state)
  then show "state_batch_ok state_example (ss_bindings exchange_session)"
    using bindings by (auto simp: state_batch_ok_def us packed_append_def less_Suc_eq)
qed

lemma Advance_simultaneous_witness:
  "\<exists>st g'. Advance host_state exchange_session state_example = Some (st, g') \<and> ok st \<and>
     state_value (rg_env g') 0 = state_value (rg_env state_example) 1 \<and>
     state_value (rg_env g') 1 = state_value (rg_env state_example) 0"
proof -
  obtain st g' where run: "Advance host_state exchange_session state_example = Some (st, g')"
    "ok st" "list_all (simultaneous state_example g') (ss_bindings exchange_session)"
    using Advance_simultaneous[OF exchange_ready(1,2)] exchange_ready(3) by auto
  moreover have "StateOutput state_example b i j = j" for b i j
    by (simp add: StateOutput_def GetProducerNode_def state_example_def)
  ultimately show ?thesis
    by (auto simp: simultaneous_def exchange_session_def next_state_def rg_tensor_def state_example_def)
qed

end
