(* ===== verification/Model_Format.thy ===== *)
theory Model_Format
  imports Graph_Order "HOL-Library.List_Lexorder" "HOL-Library.Char_ord"
begin

text \<open>
  The binary model format of \<open>src/model/model_io.cc\<close>: \<open>BinaryWriter\<close>, \<open>BinaryReader\<close> and
  the functions that write and read a model description.  A writer is the byte list it appends; a
  reader is a function of the bytes that are left, and the pair of a data pointer and an offset
  is the suffix it points to.  Multi-byte values are little endian, as on the hosts the engine
  runs on.  The order in which an \<open>unordered_map\<close> is traversed is a parameter, \<open>ord\<close>.

  A reader accepts with a value and the bytes left, rejects (the code returns false), or meets
  an enumerator value the enumeration does not name: C++ keeps such a number in the enumeration
  type, the model's datatypes have no room for it, and \<open>Foreign\<close> says so.
\<close>

section \<open>Readers\<close>

datatype 'a read = Accept 'a "u8 list" | Reject | Foreign

type_synonym 'a reader = "u8 list \<Rightarrow> 'a read"

definition then_read :: "'a reader \<Rightarrow> ('a \<Rightarrow> 'b reader) \<Rightarrow> 'b reader" where
  "then_read r f bs = (case r bs of Accept a rest \<Rightarrow> f a rest | Reject \<Rightarrow> Reject | Foreign \<Rightarrow> Foreign)"

definition give :: "'a \<Rightarrow> 'a reader" where
  "give a bs = Accept a bs"

definition refuse :: "'a reader" where
  "refuse bs = Reject"

definition foreign :: "'a reader" where
  "foreign bs = Foreign"

text \<open>\<open>CanReadCollection\<close> and the bound of \<open>ReadVector\<close> look at the bytes that are left.\<close>

definition kMaxCollectionSize :: nat where
  "kMaxCollectionSize = 1024 * 1024"

definition CanReadCollection :: "nat \<Rightarrow> nat \<Rightarrow> u8 list \<Rightarrow> bool" where
  "CanReadCollection n min_item_bytes bs \<longleftrightarrow> n \<le> kMaxCollectionSize \<and> n \<le> length bs div min_item_bytes"

definition when_collection :: "nat \<Rightarrow> nat \<Rightarrow> 'a reader \<Rightarrow> 'a reader" where
  "when_collection n min_item_bytes r bs = (if CanReadCollection n min_item_bytes bs then r bs else Reject)"

definition when_fits :: "nat \<Rightarrow> nat \<Rightarrow> 'a reader \<Rightarrow> 'a reader" where
  "when_fits n item_bytes r bs = (if n > length bs div item_bytes then Reject else r bs)"

primrec read_items :: "nat \<Rightarrow> 'a reader \<Rightarrow> 'a list reader" where
  "read_items 0 r = give []"
| "read_items (Suc n) r = then_read r (\<lambda>x. then_read (read_items n r) (\<lambda>xs. give (x # xs)))"

section \<open>Plain values\<close>

primrec le_bytes :: "nat \<Rightarrow> int \<Rightarrow> u8 list" where
  "le_bytes 0 x = []"
| "le_bytes (Suc n) x = word_of_int x # le_bytes n (x div 256)"

primrec le_value :: "u8 list \<Rightarrow> int" where
  "le_value [] = 0"
| "le_value (b # bs) = uint b + 256 * le_value bs"

definition ReadPod :: "nat \<Rightarrow> int reader" where
  "ReadPod n bs = (if n > length bs then Reject else Accept (le_value (take n bs)) (drop n bs))"

definition write_u64 :: "nat \<Rightarrow> u8 list" where "write_u64 n = le_bytes 8 (int n)"
definition write_u32 :: "nat \<Rightarrow> u8 list" where "write_u32 n = le_bytes 4 (int n)"
definition write_i64 :: "int \<Rightarrow> u8 list" where "write_i64 x = le_bytes 8 x"
definition write_i32 :: "int \<Rightarrow> u8 list" where "write_i32 x = le_bytes 4 x"
definition write_f32 :: "f32 \<Rightarrow> u8 list" where "write_f32 x = le_bytes 4 (uint x)"
definition write_bool :: "bool \<Rightarrow> u8 list" where "write_bool b = [if b then 1 else 0]"

definition read_u64 :: "nat reader" where "read_u64 = then_read (ReadPod 8) (\<lambda>x. give (nat x))"
definition read_u32 :: "nat reader" where "read_u32 = then_read (ReadPod 4) (\<lambda>x. give (nat x))"
definition read_i64 :: "int reader" where
  "read_i64 = then_read (ReadPod 8) (\<lambda>x. give (signed_take_bit 63 x))"
definition read_i32 :: "int reader" where
  "read_i32 = then_read (ReadPod 4) (\<lambda>x. give (signed_take_bit 31 x))"
definition read_f32 :: "f32 reader" where
  "read_f32 = then_read (ReadPod 4) (\<lambda>x. give (word_of_int x))"
definition read_bool :: "bool reader" where
  "read_bool = then_read (ReadPod 1) (\<lambda>x. give (x \<noteq> 0))"

section \<open>Strings and vectors\<close>

definition WriteString :: "string \<Rightarrow> u8 list" where
  "WriteString s = write_u64 (length s) @ map of_char s"

definition read_chars :: "nat \<Rightarrow> string reader" where
  "read_chars n bs = (if n > length bs then Reject else Accept (map (\<lambda>b. char_of (unat b)) (take n bs)) (drop n bs))"

definition ReadString :: "string reader" where
  "ReadString = then_read read_u64 (\<lambda>n. if n > SIZE_MAX then refuse else read_chars n)"

definition WriteVector :: "('a \<Rightarrow> u8 list) \<Rightarrow> 'a list \<Rightarrow> u8 list" where
  "WriteVector put xs = write_u64 (length xs) @ concat (map put xs)"

definition ReadVector :: "nat \<Rightarrow> 'a reader \<Rightarrow> 'a list reader" where
  "ReadVector item_bytes r = then_read read_u64 (\<lambda>n. when_fits n item_bytes (read_items n r))"

definition WriteStringVector :: "string list \<Rightarrow> u8 list" where
  "WriteStringVector = WriteVector WriteString"

definition read_collection :: "nat \<Rightarrow> 'a reader \<Rightarrow> 'a list reader" where
  "read_collection min_item_bytes r =
     then_read read_u64 (\<lambda>n. when_collection n min_item_bytes (read_items n r))"

definition ReadStringVector :: "string list reader" where
  "ReadStringVector = read_collection 8 ReadString"

section \<open>Attributes\<close>

fun attr_index :: "AttributeValue \<Rightarrow> nat" where
  "attr_index (AttrInt x) = 0" | "attr_index (AttrFloat x) = 1" | "attr_index (AttrString x) = 2"
| "attr_index (AttrInts x) = 3" | "attr_index (AttrFloats x) = 4"

definition WriteAttribute :: "AttributeValue \<Rightarrow> u8 list" where
  "WriteAttribute attr = write_u32 (attr_index attr) @
     (case attr of AttrInt x \<Rightarrow> write_i64 x | AttrFloat x \<Rightarrow> write_f32 x | AttrString s \<Rightarrow> WriteString s
      | AttrInts xs \<Rightarrow> WriteVector write_i64 xs | AttrFloats xs \<Rightarrow> WriteVector write_f32 xs)"

definition read_attribute_body :: "nat \<Rightarrow> AttributeValue reader" where
  "read_attribute_body tag =
     (if tag = 0 then then_read read_i64 (\<lambda>x. give (AttrInt x))
      else if tag = 1 then then_read read_f32 (\<lambda>x. give (AttrFloat x))
      else if tag = 2 then then_read ReadString (\<lambda>x. give (AttrString x))
      else if tag = 3 then then_read (ReadVector 8 read_i64) (\<lambda>x. give (AttrInts x))
      else if tag = 4 then then_read (ReadVector 4 read_f32) (\<lambda>x. give (AttrFloats x))
      else refuse)"

definition ReadAttribute :: "AttributeValue reader" where
  "ReadAttribute = then_read read_u32 read_attribute_body"

section \<open>Tensor descriptions\<close>

text \<open>Writing an enumeration casts it to \<open>int32_t\<close>; reading casts back.\<close>

fun layout_value :: "DataLayout \<Rightarrow> nat" where
  "layout_value NCHW = 0" | "layout_value NHWC = 1" | "layout_value ND = 2"

fun granularity_value :: "QuantizationGranularity \<Rightarrow> nat" where
  "granularity_value kPerTensor = 0" | "granularity_value kPerChannel = 1"
| "granularity_value kPerGroup = 2" | "granularity_value kPerBlock = 3"

definition dtypes :: "DataType list" where
  "dtypes = [INT4, INT8, UINT8, FP16, FP32, INT32, INT64, STRING, TENSOR, BOOL, UNKNOWN, BF16,
     FP8E4M3, FP8E5M2]"

definition read_enum :: "('a \<Rightarrow> nat) \<Rightarrow> 'a list \<Rightarrow> 'a reader" where
  "read_enum code_of enumerators = then_read read_i32 (\<lambda>x.
     case find (\<lambda>e. int (code_of e) = x) enumerators of None \<Rightarrow> foreign | Some e \<Rightarrow> give e)"

definition WriteQuantization :: "bool \<Rightarrow> QuantizationParams \<Rightarrow> u8 list" where
  "WriteQuantization include_vector q =
     write_bool (q_enabled q) @ write_f32 (q_scale q) @
     write_i32 (int (granularity_value (q_granularity q))) @
     write_i64 (q_axis q) @ write_i64 (q_block_size q) @
     (if include_vector
      then write_i32 (q_zero_point q) @ WriteVector write_f32 (q_scales q) @
           WriteVector write_i32 (q_zero_points q)
      else [])"

definition WriteTensorDesc :: "bool \<Rightarrow> bool \<Rightarrow> TensorDesc \<Rightarrow> u8 list" where
  "WriteTensorDesc include_quantization include_vector desc =
     WriteString (td_name desc) @ WriteVector write_i64 (td_dims desc) @
     write_i32 (int (dtype_value (td_data_type desc))) @
     write_i32 (int (layout_value (td_layout desc))) @
     (if include_quantization then WriteQuantization include_vector (td_quantization desc) else [])"

text \<open>The vectors are made non-empty and their heads win over the scalar fields.\<close>

definition complete_quantization :: "QuantizationParams \<Rightarrow> QuantizationParams" where
  "complete_quantization q =
     (let scales = (if q_scales q = [] then [q_scale q] else q_scales q);
          zero_points = (if q_zero_points q = [] then [q_zero_point q] else q_zero_points q)
      in q\<lparr>q_scales := scales, q_zero_points := zero_points,
           q_scale := hd scales, q_zero_point := hd zero_points\<rparr>)"

definition read_quantization_vectors :: "bool \<Rightarrow> QuantizationParams \<Rightarrow> QuantizationParams reader" where
  "read_quantization_vectors include_vector q =
     (if include_vector
      then then_read read_i32 (\<lambda>zero_point.
           then_read (ReadVector 4 read_f32) (\<lambda>scales.
           then_read (ReadVector 4 read_i32) (\<lambda>zero_points.
             give (q\<lparr>q_zero_point := zero_point, q_scales := scales, q_zero_points := zero_points\<rparr>))))
      else give q)"

definition ReadQuantization :: "bool \<Rightarrow> QuantizationParams reader" where
  "ReadQuantization include_vector =
     then_read read_bool (\<lambda>enabled.
     then_read read_f32 (\<lambda>scale.
     then_read (read_enum granularity_value [kPerTensor, kPerChannel, kPerGroup, kPerBlock]) (\<lambda>granularity.
     then_read read_i64 (\<lambda>axis.
     then_read read_i64 (\<lambda>block_size.
     then_read (read_quantization_vectors include_vector
       \<lparr>q_enabled = enabled, q_scale = scale, q_granularity = granularity, q_axis = axis,
        q_block_size = block_size, q_zero_point = 0, q_scales = [scale], q_zero_points = [0]\<rparr>)
       (\<lambda>q. give (complete_quantization q)))))))"

definition ReadTensorDesc :: "bool \<Rightarrow> bool \<Rightarrow> TensorDesc reader" where
  "ReadTensorDesc include_quantization include_vector =
     then_read ReadString (\<lambda>name.
     then_read (ReadVector 8 read_i64) (\<lambda>dims.
     then_read (read_enum dtype_value dtypes) (\<lambda>dtype.
     then_read (read_enum layout_value [NCHW, NHWC, ND]) (\<lambda>layout.
     then_read (if include_quantization then ReadQuantization include_vector else give default_quantization)
       (\<lambda>q. give \<lparr>td_name = name, td_dims = dims, td_data_type = dtype, td_layout = layout,
                   td_quantization = q\<rparr>)))))"

section \<open>Values, nodes and graphs\<close>

definition WriteWeightLocation :: "WeightLocation \<Rightarrow> u8 list" where
  "WriteWeightLocation location =
     WriteString (wl_tensor_name location) @ WriteString (wl_shard_path location) @
     write_u64 (wl_offset location) @ write_u64 (wl_byte_size location) @
     WriteString (wl_checksum location)"

definition ReadWeightLocation :: "WeightLocation reader" where
  "ReadWeightLocation =
     then_read ReadString (\<lambda>tensor_name.
     then_read ReadString (\<lambda>shard_path.
     then_read read_u64 (\<lambda>offset.
     then_read read_u64 (\<lambda>byte_size.
     then_read ReadString (\<lambda>checksum.
       give \<lparr>wl_tensor_name = tensor_name, wl_shard_path = shard_path, wl_offset = offset,
             wl_byte_size = byte_size, wl_checksum = checksum\<rparr>)))))"

definition WriteValueDesc :: "bool \<Rightarrow> bool \<Rightarrow> ValueDesc \<Rightarrow> u8 list" where
  "WriteValueDesc include_quantization include_vector v =
     WriteTensorDesc include_quantization include_vector (vd_tensor v) @
     write_bool (vd_constant v) @ WriteWeightLocation (vd_weight v)"

definition ReadValueDesc :: "bool \<Rightarrow> bool \<Rightarrow> ValueDesc reader" where
  "ReadValueDesc include_quantization include_vector =
     then_read (ReadTensorDesc include_quantization include_vector) (\<lambda>tensor.
     then_read read_bool (\<lambda>is_constant.
     then_read ReadWeightLocation (\<lambda>weight.
       give \<lparr>vd_tensor = tensor, vd_constant = is_constant, vd_weight = weight\<rparr>)))"

type_synonym attributes = "string \<rightharpoonup> AttributeValue"

definition write_entry :: "attributes \<Rightarrow> string \<Rightarrow> u8 list" where
  "write_entry attrs key = WriteString key @ WriteAttribute (the (attrs key))"

definition WriteNodeDesc :: "(attributes \<Rightarrow> string list) \<Rightarrow> NodeDesc \<Rightarrow> u8 list" where
  "WriteNodeDesc ord node =
     WriteString (nd_name node) @ WriteString (nd_op_type node) @ WriteString (nd_domain node) @
     WriteStringVector (nd_inputs node) @ WriteStringVector (nd_outputs node) @
     WriteVector (write_entry (nd_attributes node)) (ord (nd_attributes node))"

text \<open>\<open>emplace\<close> keeps the entry that is there.\<close>

definition emplace :: "string \<Rightarrow> AttributeValue \<Rightarrow> attributes \<Rightarrow> attributes" where
  "emplace key v attrs = (if attrs key = None then attrs(key \<mapsto> v) else attrs)"

primrec read_attributes :: "nat \<Rightarrow> attributes \<Rightarrow> attributes reader" where
  "read_attributes 0 attrs = give attrs"
| "read_attributes (Suc n) attrs =
     then_read ReadString (\<lambda>key. then_read ReadAttribute (\<lambda>v. read_attributes n (emplace key v attrs)))"

definition ReadNodeDesc :: "NodeDesc reader" where
  "ReadNodeDesc =
     then_read ReadString (\<lambda>name.
     then_read ReadString (\<lambda>op_type.
     then_read ReadString (\<lambda>domain.
     then_read ReadStringVector (\<lambda>inputs.
     then_read ReadStringVector (\<lambda>outputs.
     then_read read_u64 (\<lambda>n. when_collection n 12 (then_read (read_attributes n Map.empty) (\<lambda>attrs.
       give \<lparr>nd_name = name, nd_op_type = op_type, nd_domain = domain, nd_inputs = inputs,
             nd_outputs = outputs, nd_attributes = attrs\<rparr>))))))))"

definition WriteGraphDesc :: "(attributes \<Rightarrow> string list) \<Rightarrow> bool \<Rightarrow> bool \<Rightarrow> GraphDesc \<Rightarrow> u8 list" where
  "WriteGraphDesc ord include_quantization include_vector graph =
     WriteString (gd_name graph) @ WriteStringVector (gd_inputs graph) @
     WriteStringVector (gd_outputs graph) @
     WriteVector (WriteValueDesc include_quantization include_vector) (gd_values graph) @
     WriteVector (WriteNodeDesc ord) (gd_nodes graph)"

definition ReadGraphDesc :: "bool \<Rightarrow> bool \<Rightarrow> GraphDesc reader" where
  "ReadGraphDesc include_quantization include_vector =
     then_read ReadString (\<lambda>name.
     then_read ReadStringVector (\<lambda>inputs.
     then_read ReadStringVector (\<lambda>outputs.
     then_read (read_collection 65 (ReadValueDesc include_quantization include_vector)) (\<lambda>vals.
     then_read (read_collection 48 ReadNodeDesc) (\<lambda>nodes.
       give \<lparr>gd_name = name, gd_inputs = inputs, gd_outputs = outputs, gd_values = vals,
             gd_nodes = nodes\<rparr>)))))"

section \<open>Models\<close>

definition WriteMetadata :: "(attributes \<Rightarrow> string list) \<Rightarrow> attributes \<Rightarrow> u8 list" where
  "WriteMetadata ord metadata =
     write_u64 (length (ord metadata)) @ concat (map (write_entry metadata) (sort (ord metadata)))"

primrec read_metadata :: "nat \<Rightarrow> attributes \<Rightarrow> attributes reader" where
  "read_metadata 0 metadata = give metadata"
| "read_metadata (Suc n) metadata =
     then_read ReadString (\<lambda>key. then_read ReadAttribute (\<lambda>v.
       if metadata key \<noteq> None then refuse else read_metadata n (emplace key v metadata)))"

definition ReadMetadata :: "attributes reader" where
  "ReadMetadata = then_read read_u64 (\<lambda>n. when_collection n 12 (read_metadata n Map.empty))"

definition write_variant :: "(attributes \<Rightarrow> string list) \<Rightarrow> bool \<Rightarrow> bool \<Rightarrow> Variant \<Rightarrow> u8 list" where
  "write_variant ord include_quantization include_vector variant =
     WriteString (var_name variant) @
     WriteGraphDesc ord include_quantization include_vector (var_graph variant) @
     WriteMetadata ord (var_metadata variant)"

definition SerializeModel :: "(attributes \<Rightarrow> string list) \<Rightarrow> bool \<Rightarrow> bool \<Rightarrow> ModelDesc \<Rightarrow> u8 list" where
  "SerializeModel ord include_quantization include_vector model =
     WriteString (md_name model) @ write_i64 (md_version model) @
     WriteGraphDesc ord include_quantization include_vector (md_graph model) @
     WriteMetadata ord (md_metadata model) @
     WriteVector (write_variant ord include_quantization include_vector) (md_variants model)"

definition read_variant :: "bool \<Rightarrow> bool \<Rightarrow> string list \<Rightarrow> Variant reader" where
  "read_variant include_quantization include_vector names =
     then_read ReadString (\<lambda>name.
     if name = [] \<or> name \<in> set names then refuse
     else then_read (ReadGraphDesc include_quantization include_vector) (\<lambda>graph.
          then_read ReadMetadata (\<lambda>metadata.
            give \<lparr>var_name = name, var_graph = graph, var_metadata = metadata\<rparr>)))"

primrec read_variants :: "bool \<Rightarrow> bool \<Rightarrow> nat \<Rightarrow> string list \<Rightarrow> Variant list reader" where
  "read_variants include_quantization include_vector 0 names = give []"
| "read_variants include_quantization include_vector (Suc n) names =
     then_read (read_variant include_quantization include_vector names) (\<lambda>variant.
     then_read (read_variants include_quantization include_vector n (var_name variant # names)) (\<lambda>variants.
       give (variant # variants)))"

definition read_model :: "bool \<Rightarrow> bool \<Rightarrow> bool \<Rightarrow> bool \<Rightarrow> ModelDesc reader" where
  "read_model include_quantization include_vector include_metadata include_variants =
     then_read ReadString (\<lambda>name.
     then_read read_i64 (\<lambda>version.
     then_read (ReadGraphDesc include_quantization include_vector) (\<lambda>graph.
     then_read (if include_metadata then ReadMetadata else give Map.empty) (\<lambda>metadata.
     then_read (if include_variants
        then then_read read_u64 (\<lambda>n. when_collection n 48
               (read_variants include_quantization include_vector n []))
        else give []) (\<lambda>variants.
       give \<lparr>md_name = name, md_version = version, md_graph = graph, md_metadata = metadata,
             md_variants = variants\<rparr>)))))"

text \<open>\<open>return reader.Finished();\<close>\<close>

definition DeserializeModel :: "bool \<Rightarrow> bool \<Rightarrow> bool \<Rightarrow> bool \<Rightarrow> u8 list \<Rightarrow> ModelDesc read" where
  "DeserializeModel include_quantization include_vector include_metadata include_variants data =
     (case read_model include_quantization include_vector include_metadata include_variants data of
        Accept model rest \<Rightarrow> if rest = [] then Accept model [] else Reject
      | Reject \<Rightarrow> Reject | Foreign \<Rightarrow> Foreign)"

end
