(* ===== verification/Model_Codec.thy ===== *)
theory Model_Codec
  imports Model_Format
begin

text \<open>
  The model format as a family of codecs.  A codec is a writer and a reader that undo each other on
  the values the format can hold, up to a normal form, with a reader whose verdict does not depend
  on bytes it has not reached.  Plain values, strings, vectors, attributes, descriptions, graphs
  and whole models are codecs; the round trip and the rejection of truncated data follow once.
\<close>

section \<open>Readers do not look ahead\<close>

definition extensible :: "'a reader \<Rightarrow> bool" where
  "extensible r \<longleftrightarrow> (\<forall>bs ys.
     (\<forall>a rest. r bs = Accept a rest \<longrightarrow> r (bs @ ys) = Accept a (rest @ ys)) \<and>
     (r bs = Foreign \<longrightarrow> r (bs @ ys) = Foreign))"

lemma extensibleI:
  "(\<And>a bs ys rest. r bs = Accept a rest \<Longrightarrow> r (bs @ ys) = Accept a (rest @ ys)) \<Longrightarrow>
   (\<And>bs ys. r bs = Foreign \<Longrightarrow> r (bs @ ys) = Foreign) \<Longrightarrow> extensible r"
  by (simp add: extensible_def)

lemma extensible_accept: "extensible r \<Longrightarrow> r bs = Accept a rest \<Longrightarrow> r (bs @ ys) = Accept a (rest @ ys)"
  by (simp add: extensible_def)

lemma extensible_foreign: "extensible r \<Longrightarrow> r bs = Foreign \<Longrightarrow> r (bs @ ys) = Foreign"
  by (simp add: extensible_def)

lemma then_read_Accept:
  "then_read r f bs = Accept b rest \<longleftrightarrow> (\<exists>a mid. r bs = Accept a mid \<and> f a mid = Accept b rest)"
  by (simp add: then_read_def split: read.split)

lemma then_read_Foreign:
  "then_read r f bs = Foreign \<longleftrightarrow> r bs = Foreign \<or> (\<exists>a mid. r bs = Accept a mid \<and> f a mid = Foreign)"
  by (simp add: then_read_def split: read.split)

lemma then_read_assoc: "then_read (then_read r f) g = then_read r (\<lambda>a. then_read (f a) g)"
  by (simp add: then_read_def fun_eq_iff split: read.split)

lemma then_read_give: "then_read (give a) f = f a"
  by (simp add: then_read_def give_def fun_eq_iff)

lemma extensible_then_read:
  assumes "extensible r" "\<And>a. extensible (f a)"
  shows "extensible (then_read r f)"
proof (rule extensibleI)
  fix b bs ys rest
  assume "then_read r f bs = Accept b rest"
  then obtain a mid where "r bs = Accept a mid" "f a mid = Accept b rest"
    by (auto simp: then_read_Accept)
  then show "then_read r f (bs @ ys) = Accept b (rest @ ys)"
    using assms by (simp add: then_read_def extensible_accept)
next
  fix bs ys
  assume "then_read r f bs = Foreign"
  then consider "r bs = Foreign" | a mid where "r bs = Accept a mid" "f a mid = Foreign"
    by (auto simp: then_read_Foreign)
  then show "then_read r f (bs @ ys) = Foreign"
    using assms by cases (simp_all add: then_read_def extensible_accept extensible_foreign)
qed

lemma extensible_give: "extensible (give a)" by (simp add: extensible_def give_def)
lemma extensible_refuse: "extensible refuse" by (simp add: extensible_def refuse_def)
lemma extensible_foreign_reader: "extensible foreign" by (simp add: extensible_def foreign_def)

lemma extensible_if: "extensible r \<Longrightarrow> extensible s \<Longrightarrow> extensible (if b then r else s)"
  by simp

lemma extensible_option: "extensible r \<Longrightarrow> (\<And>x. extensible (s x)) \<Longrightarrow> extensible (case opt of None \<Rightarrow> r | Some x \<Rightarrow> s x)"
  by (cases opt) simp_all

lemma div_grows: "n \<le> length bs div k \<Longrightarrow> n \<le> length (bs @ ys) div k" for n k :: nat
  by (erule order_trans) (simp add: div_le_mono)

lemma extensible_when:
  assumes "extensible r" "\<And>bs ys. b bs \<Longrightarrow> b (bs @ ys)"
  shows "extensible (\<lambda>bs. if b bs then r bs else Reject)"
  using assms by (intro extensibleI) (auto simp: extensible_accept extensible_foreign split: if_splits)

lemma extensible_when_collection: "extensible r \<Longrightarrow> extensible (when_collection n k r)"
  unfolding when_collection_def
  by (erule extensible_when) (auto simp: CanReadCollection_def dest: div_grows)

lemma extensible_when_fits:
  assumes "extensible r"
  shows "extensible (when_fits n k r)"
proof -
  have "when_fits n k r = (\<lambda>bs. if n \<le> length bs div k then r bs else Reject)"
    by (auto simp: when_fits_def fun_eq_iff)
  then show ?thesis using extensible_when[OF assms, of "\<lambda>bs. n \<le> length bs div k"] div_grows by metis
qed

lemma extensible_read_items: "extensible r \<Longrightarrow> extensible (read_items n r)"
  by (induction n) (simp_all add: extensible_give extensible_then_read)

lemma extensible_ReadPod: "extensible (ReadPod n)"
  by (rule extensibleI) (auto simp: ReadPod_def split: if_splits)

lemma extensible_read_chars: "extensible (read_chars n)"
  by (rule extensibleI) (auto simp: read_chars_def split: if_splits)

lemmas extensible_rules = extensible_then_read extensible_give extensible_refuse
  extensible_foreign_reader extensible_if extensible_option extensible_when_collection
  extensible_when_fits extensible_read_items extensible_ReadPod extensible_read_chars

lemma extensible_pods:
  "extensible read_u64" "extensible read_u32" "extensible read_i64" "extensible read_i32"
  "extensible read_f32" "extensible read_bool"
  by (simp_all add: read_u64_def read_u32_def read_i64_def read_i32_def read_f32_def read_bool_def
    extensible_rules)

lemma extensible_ReadString: "extensible ReadString"
  unfolding ReadString_def by (intro extensible_rules extensible_pods)

lemma extensible_ReadVector: "extensible r \<Longrightarrow> extensible (ReadVector k r)"
  unfolding ReadVector_def by (intro extensible_rules extensible_pods)

lemma extensible_read_collection: "extensible r \<Longrightarrow> extensible (read_collection k r)"
  unfolding read_collection_def by (intro extensible_rules extensible_pods)

lemma extensible_read_enum: "extensible (read_enum c es)"
  unfolding read_enum_def by (intro extensible_rules extensible_pods)

section \<open>The contract\<close>

locale codec =
  fixes put :: "'a \<Rightarrow> u8 list"
    and get :: "'a reader"
    and norm :: "'a \<Rightarrow> 'a"
    and good :: "'a \<Rightarrow> bool"
    and least :: nat
  assumes no_lookahead: "extensible get"
    and get_put: "good a \<Longrightarrow> get (put a @ rest) = Accept (norm a) rest"
    and put_length: "good a \<Longrightarrow> least \<le> length (put a)"
begin

lemma step: "good a \<Longrightarrow> then_read get f (put a @ rest) = f (norm a) rest"
  by (simp add: then_read_def get_put)

lemma whole: "good a \<Longrightarrow> get (put a) = Accept (norm a) []"
  using get_put[of a "[]"] by simp

lemma items:
  "(\<forall>a \<in> set xs. good a) \<Longrightarrow>
   read_items (length xs) get (concat (map put xs) @ rest) = Accept (map norm xs) rest"
  by (induction xs) (simp_all add: give_def step then_read_def[of "read_items _ _"])

lemma items_length: "(\<forall>a \<in> set xs. good a) \<Longrightarrow> least * length xs \<le> length (concat (map put xs))"
proof (induction xs)
  case (Cons x xs)
  then have "least \<le> length (put x)" "least * length xs \<le> length (concat (map put xs))"
    using put_length[of x] by simp_all
  then show ?case by simp
qed simp

lemma items_fit:
  assumes "\<forall>a \<in> set xs. good a" "0 < k" "k \<le> least"
  shows "length xs \<le> length (concat (map put xs) @ rest) div k"
proof -
  have "length xs * k \<le> least * length xs" using assms by (simp add: mult.commute)
  also have "\<dots> \<le> length (concat (map put xs) @ rest)"
    using items_length[OF assms(1)] by simp
  finally show ?thesis using assms(2) by (simp add: less_eq_div_iff_mult_less_eq)
qed

text \<open>A proper prefix of written data is refused.\<close>

lemma truncated:
  assumes "good a" "put a = p @ ys" "ys \<noteq> []"
  shows "get p = Reject"
proof (cases "get p")
  case (Accept b rest)
  from extensible_accept[OF no_lookahead this, of ys] show ?thesis using whole[OF assms(1)] assms(2,3) by simp
next
  case Foreign
  from extensible_foreign[OF no_lookahead this, of ys] show ?thesis using whole[OF assms(1)] assms(2) by simp
qed

end

section \<open>Plain values\<close>

lemma length_le_bytes [simp]: "length (le_bytes n x) = n"
  by (induction n arbitrary: x) simp_all

lemma le_bytes_eq_Nil [simp]: "le_bytes n x = [] \<longleftrightarrow> n = 0"
  by (cases n) simp_all

lemma le_value_le_bytes: "le_value (le_bytes n x) = x mod 256 ^ n"
proof (induction n arbitrary: x)
  case (Suc n)
  have "uint (word_of_int x :: u8) = x mod 256" by (simp add: uint_word_of_int)
  then have "le_value (le_bytes (Suc n) x) = x mod 256 + 256 * (x div 256 mod 256 ^ n)"
    by (simp add: Suc)
  also have "\<dots> = x mod (256 * 256 ^ n)" by (simp add: mod_mult2_eq' zmod_zmult2_eq)
  finally show ?case by simp
qed simp

lemma ReadPod_le_bytes: "ReadPod n (le_bytes n x @ rest) = Accept (x mod 256 ^ n) rest"
  by (simp add: ReadPod_def le_value_le_bytes)

lemma ReadPod_step: "then_read (ReadPod n) f (le_bytes n x @ rest) = f (x mod 256 ^ n) rest"
  by (simp add: then_read_def ReadPod_le_bytes)

definition good_u64 :: "nat \<Rightarrow> bool" where "good_u64 n \<longleftrightarrow> n < 2 ^ 64"
definition good_i64 :: "int \<Rightarrow> bool" where "good_i64 x \<longleftrightarrow> INT64_MIN \<le> x \<and> x \<le> INT64_MAX"
definition good_i32 :: "int \<Rightarrow> bool" where "good_i32 x \<longleftrightarrow> - (2 ^ 31) \<le> x \<and> x < 2 ^ 31"

lemma signed_take_bit_mod:
  fixes x :: int
  assumes "- (2 ^ n) \<le> x" "x < 2 ^ n"
  shows "signed_take_bit n (x mod 2 ^ Suc n) = x"
proof -
  have "signed_take_bit n (take_bit (Suc n) x) = x"
    using assms by (simp add: signed_take_bit_take_bit signed_take_bit_int_eq_self_iff)
  then show ?thesis by (simp only: take_bit_eq_mod)
qed

interpretation u64: codec write_u64 read_u64 id good_u64 8
  by unfold_locales
    (rule extensible_pods, simp_all add: read_u64_def write_u64_def ReadPod_step give_def good_u64_def)

interpretation u32: codec write_u32 read_u32 id "\<lambda>n. n < 2 ^ 32" 4
  by unfold_locales (rule extensible_pods, simp_all add: read_u32_def write_u32_def ReadPod_step give_def)

interpretation i64: codec write_i64 read_i64 id good_i64 8
proof unfold_locales
  fix a rest
  assume "good_i64 a"
  then have "signed_take_bit 63 (a mod 2 ^ Suc 63) = a"
    by (intro signed_take_bit_mod) (simp_all add: good_i64_def INT64_MIN_def INT64_MAX_def)
  then show "read_i64 (write_i64 a @ rest) = Accept (id a) rest"
    by (simp add: read_i64_def write_i64_def ReadPod_step give_def)
qed (simp_all add: extensible_pods write_i64_def)

interpretation i32: codec write_i32 read_i32 id good_i32 4
proof unfold_locales
  fix a rest
  assume "good_i32 a"
  then have "signed_take_bit 31 (a mod 2 ^ Suc 31) = a"
    by (intro signed_take_bit_mod) (simp_all add: good_i32_def)
  then show "read_i32 (write_i32 a @ rest) = Accept (id a) rest"
    by (simp add: read_i32_def write_i32_def ReadPod_step give_def)
qed (simp_all add: extensible_pods write_i32_def)

interpretation f32: codec write_f32 read_f32 id "\<lambda>_. True" 4
proof unfold_locales
  fix a :: f32 and rest
  have "uint a mod 256 ^ 4 = uint a" using uint_lt2p[of a] by (simp add: uint_ge_0)
  then show "read_f32 (write_f32 a @ rest) = Accept (id a) rest"
    by (simp add: read_f32_def write_f32_def ReadPod_step give_def)
qed (simp_all add: extensible_pods write_f32_def)

interpretation bool: codec write_bool read_bool id "\<lambda>_. True" 1
  by unfold_locales
    (rule extensible_pods, auto simp: write_bool_def read_bool_def then_read_def ReadPod_def give_def)

lemma read_enum_step:
  assumes "find (\<lambda>x. int (c x) = int (c e)) es = Some e" "c e < 2 ^ 31"
  shows "then_read (read_enum c es) f (write_i32 (int (c e)) @ rest) = f e rest"
proof -
  have "good_i32 (int (c e))" using assms(2) by (simp add: good_i32_def)
  then have "read_i32 (write_i32 (int (c e)) @ rest) = Accept (int (c e)) rest" by (simp add: i32.get_put)
  then show ?thesis
    using assms(1) by (simp add: read_enum_def then_read_def give_def)
qed

lemma read_dtype_step: "then_read (read_enum dtype_value dtypes) f (write_i32 (int (dtype_value d)) @ rest) = f d rest"
  by (rule read_enum_step) (cases d; simp add: dtypes_def)+

lemma read_layout_step:
  "then_read (read_enum layout_value [NCHW, NHWC, ND]) f (write_i32 (int (layout_value l)) @ rest) = f l rest"
  by (rule read_enum_step) (cases l; simp)+

lemma read_granularity_step:
  "then_read (read_enum granularity_value [kPerTensor, kPerChannel, kPerGroup, kPerBlock]) f
     (write_i32 (int (granularity_value g)) @ rest) = f g rest"
  by (rule read_enum_step) (cases g; simp)+

section \<open>Strings and vectors\<close>

definition good_string :: "string \<Rightarrow> bool" where
  "good_string s \<longleftrightarrow> length s \<le> SIZE_MAX"

lemma char_of_unat_of_char: "char_of (unat (of_char c :: u8)) = c"
proof -
  have "(of_char c :: u8) = of_nat (of_char c)" by (simp only: of_nat_of_char)
  then have "unat (of_char c :: u8) = of_char c mod 256" by (simp only: unat_of_nat) simp
  then show ?thesis by simp
qed

interpretation str: codec WriteString ReadString id good_string 8
proof unfold_locales
  fix a rest
  assume g: "good_string a"
  then have "good_u64 (length a)" by (simp add: good_u64_def good_string_def SIZE_MAX_def)
  then show "ReadString (WriteString a @ rest) = Accept (id a) rest"
    using g by (simp add: ReadString_def WriteString_def u64.step read_chars_def good_string_def
      char_of_unat_of_char comp_def)
qed (simp_all add: extensible_ReadString WriteString_def write_u64_def)

definition good_list :: "('a \<Rightarrow> bool) \<Rightarrow> nat \<Rightarrow> 'a list \<Rightarrow> bool" where
  "good_list good n xs \<longleftrightarrow> length xs \<le> n \<and> (\<forall>x \<in> set xs. good x)"

context codec begin

lemma vector_codec:
  assumes "0 < k" "k \<le> least"
  shows "codec (WriteVector put) (ReadVector k get) (map norm) (good_list good SIZE_MAX) 8"
proof unfold_locales
  fix xs rest
  assume g: "good_list good SIZE_MAX xs"
  then have "good_u64 (length xs)" by (simp add: good_u64_def good_list_def SIZE_MAX_def)
  then show "ReadVector k get (WriteVector put xs @ rest) = Accept (map norm xs) rest"
    using g items_fit[OF _ assms, of xs rest]
    by (simp add: ReadVector_def WriteVector_def u64.step when_fits_def items good_list_def)
qed (simp_all add: extensible_ReadVector no_lookahead WriteVector_def write_u64_def)

lemma collection_codec:
  assumes "0 < k" "k \<le> least"
  shows "codec (WriteVector put) (read_collection k get) (map norm) (good_list good kMaxCollectionSize) 8"
proof unfold_locales
  fix xs rest
  assume g: "good_list good kMaxCollectionSize xs"
  then have "good_u64 (length xs)" by (simp add: good_u64_def good_list_def kMaxCollectionSize_def)
  then show "read_collection k get (WriteVector put xs @ rest) = Accept (map norm xs) rest"
    using g items_fit[OF _ assms, of xs rest]
    by (simp add: read_collection_def WriteVector_def u64.step when_collection_def CanReadCollection_def
      items good_list_def)
qed (simp_all add: extensible_read_collection no_lookahead WriteVector_def write_u64_def)

end

interpretation i64s: codec "WriteVector write_i64" "ReadVector 8 read_i64" "map id" "good_list good_i64 SIZE_MAX" 8
  by (rule i64.vector_codec) simp_all

interpretation i32s: codec "WriteVector write_i32" "ReadVector 4 read_i32" "map id" "good_list good_i32 SIZE_MAX" 8
  by (rule i32.vector_codec) simp_all

interpretation f32s: codec "WriteVector write_f32" "ReadVector 4 read_f32" "map id" "good_list (\<lambda>_. True) SIZE_MAX" 8
  by (rule f32.vector_codec) simp_all

interpretation strs: codec WriteStringVector ReadStringVector "map id" "good_list good_string kMaxCollectionSize" 8
  unfolding WriteStringVector_def ReadStringVector_def by (rule str.collection_codec) simp_all

end
