(* ===== verification/Model_Roundtrip.thy ===== *)
theory Model_Roundtrip
  imports Model_Codec
begin

text \<open>
  Attributes, descriptions, graphs and whole models as codecs: what \<open>SerializeModel\<close> writes,
  \<open>DeserializeModel\<close> reads back, and no proper prefix of it is accepted.
\<close>

section \<open>Attributes\<close>

fun good_attribute :: "AttributeValue \<Rightarrow> bool" where
  "good_attribute (AttrInt x) = good_i64 x"
| "good_attribute (AttrFloat x) = True"
| "good_attribute (AttrString s) = good_string s"
| "good_attribute (AttrInts xs) = good_list good_i64 SIZE_MAX xs"
| "good_attribute (AttrFloats xs) = (length xs \<le> SIZE_MAX)"

lemma good_list_True [simp]: "good_list (\<lambda>_. True) n xs \<longleftrightarrow> length xs \<le> n"
  by (simp add: good_list_def)

lemmas read_steps = u64.step u32.step i64.step i32.step f32.step bool.step str.step strs.step
  i64s.step i32s.step f32s.step read_dtype_step read_layout_step read_granularity_step

lemma give_apply [simp]: "give a bs = Accept a bs"
  by (simp add: give_def)

lemma extensible_read_attribute_body: "extensible (read_attribute_body tag)"
  unfolding read_attribute_body_def
  by (intro extensible_rules extensible_pods extensible_ReadString extensible_ReadVector)

interpretation attribute: codec WriteAttribute ReadAttribute id good_attribute 4
proof unfold_locales
  show "extensible ReadAttribute"
    unfolding ReadAttribute_def by (intro extensible_rules extensible_pods extensible_read_attribute_body)
  fix a rest
  assume "good_attribute a"
  then show "ReadAttribute (WriteAttribute a @ rest) = Accept (id a) rest"
    by (cases a) (simp_all add: ReadAttribute_def WriteAttribute_def read_attribute_body_def read_steps)
qed (simp add: WriteAttribute_def write_u32_def)

text \<open>The traversal of a hash map visits every key once.\<close>

definition traverses :: "(attributes \<Rightarrow> string list) \<Rightarrow> bool" where
  "traverses ord \<longleftrightarrow> (\<forall>attrs. finite (dom attrs) \<longrightarrow> distinct (ord attrs) \<and> set (ord attrs) = dom attrs)"

definition good_entry :: "attributes \<Rightarrow> string \<Rightarrow> bool" where
  "good_entry attrs key \<longleftrightarrow> good_string key \<and> (\<exists>v. attrs key = Some v \<and> good_attribute v)"

definition good_attributes :: "attributes \<Rightarrow> bool" where
  "good_attributes attrs \<longleftrightarrow> finite (dom attrs) \<and> card (dom attrs) \<le> kMaxCollectionSize \<and>
     (\<forall>key \<in> dom attrs. good_entry attrs key)"

lemma read_entry:
  assumes "good_entry attrs key"
  shows "then_read ReadString (\<lambda>k. then_read ReadAttribute (f k)) (write_entry attrs key @ rest) =
    f key (the (attrs key)) rest"
  using assms by (auto simp: good_entry_def write_entry_def read_steps attribute.step)

lemma entry_length: "12 \<le> length (write_entry attrs key)"
  by (simp add: write_entry_def WriteString_def write_u64_def WriteAttribute_def write_u32_def)

lemma entries_length: "12 * length keys \<le> length (concat (map (write_entry attrs) keys))"
proof (induction keys)
  case (Cons k keys)
  then show ?case using entry_length[of attrs k] by simp
qed simp

lemma entries_fit:
  "length keys \<le> kMaxCollectionSize \<Longrightarrow>
   CanReadCollection (length keys) 12 (concat (map (write_entry attrs) keys) @ rest)"
  using entries_length[of keys attrs]
  by (simp add: CanReadCollection_def less_eq_div_iff_mult_less_eq mult.commute trans_le_add1)

lemma read_attributes_entries:
  assumes "\<forall>key \<in> set keys. good_entry attrs key" "distinct keys" "set keys \<inter> dom acc = {}"
  shows "read_attributes (length keys) acc (concat (map (write_entry attrs) keys) @ rest) =
      Accept (acc ++ attrs |` set keys) rest"
    and "read_metadata (length keys) acc (concat (map (write_entry attrs) keys) @ rest) =
      Accept (acc ++ attrs |` set keys) rest"
  using assms
proof (induction keys arbitrary: acc)
  case (Cons key keys)
  { case 1
    then obtain v where v: "attrs key = Some v" by (auto simp: good_entry_def)
    have e: "emplace key (the (attrs key)) acc = acc(key \<mapsto> v)" using 1 v by (auto simp: emplace_def dom_def)
    have "acc(key \<mapsto> v) ++ attrs |` set keys = acc ++ attrs |` set (key # keys)"
      using 1 v by (auto simp: map_add_def restrict_map_def fun_eq_iff split: option.splits)
    moreover have "set keys \<inter> dom (acc(key \<mapsto> v)) = {}" using 1 by auto
    ultimately show ?case
      using 1 Cons.IH(1)[of "acc(key \<mapsto> v)"] by (simp add: read_entry e del: fun_upd_apply)
  next
    case 2
    then obtain v where v: "attrs key = Some v" by (auto simp: good_entry_def)
    have e: "emplace key (the (attrs key)) acc = acc(key \<mapsto> v)" using 2 v by (auto simp: emplace_def dom_def)
    have n: "acc key = None" using 2 by (auto simp: dom_def)
    have "acc(key \<mapsto> v) ++ attrs |` set keys = acc ++ attrs |` set (key # keys)"
      using 2 v by (auto simp: map_add_def restrict_map_def fun_eq_iff split: option.splits)
    moreover have "set keys \<inter> dom (acc(key \<mapsto> v)) = {}" using 2 by auto
    ultimately show ?case
      using 2 n Cons.IH(2)[of "acc(key \<mapsto> v)"] by (simp add: read_entry e del: fun_upd_apply) }
qed simp_all

lemma restrict_dom [simp]: "attrs |` dom attrs = attrs"
  by (auto simp: restrict_map_def fun_eq_iff domIff)

lemma traversed:
  assumes "traverses ord" "good_attributes attrs"
  shows "distinct (ord attrs)" "set (ord attrs) = dom attrs" "length (ord attrs) \<le> kMaxCollectionSize"
    "\<forall>key \<in> set (ord attrs). good_entry attrs key"
  using assms distinct_card[of "ord attrs"] by (auto simp: traverses_def good_attributes_def)

lemma extensible_read_attributes: "extensible (read_attributes n acc)"
  by (induction n arbitrary: acc)
    (auto intro!: extensible_rules extensible_ReadString attribute.no_lookahead)

lemma extensible_read_metadata: "extensible (read_metadata n acc)"
proof (induction n arbitrary: acc)
  case (Suc n)
  then show ?case
    unfolding read_metadata.simps by (intro extensible_rules extensible_ReadString attribute.no_lookahead)
qed (simp add: extensible_give)

lemma WriteMetadata_codec:
  assumes "traverses ord"
  shows "codec (WriteMetadata ord) ReadMetadata id good_attributes 8"
proof unfold_locales
  show "extensible ReadMetadata"
    unfolding ReadMetadata_def by (intro extensible_rules extensible_pods extensible_read_metadata)
  fix attrs rest
  assume g: "good_attributes attrs"
  note t = traversed[OF assms g]
  have "good_u64 (length (ord attrs))" using t(3) by (simp add: good_u64_def kMaxCollectionSize_def)
  then show "ReadMetadata (WriteMetadata ord attrs @ rest) = Accept (id attrs) rest"
    using t read_attributes_entries(2)[of "sort (ord attrs)" attrs Map.empty rest]
      entries_fit[of "sort (ord attrs)" attrs rest]
    by (simp add: ReadMetadata_def WriteMetadata_def u64.step when_collection_def)
qed (simp add: WriteMetadata_def write_u64_def)

section \<open>Tensor and value descriptions\<close>

definition good_quantization :: "QuantizationParams \<Rightarrow> bool" where
  "good_quantization q \<longleftrightarrow> good_i64 (q_axis q) \<and> good_i64 (q_block_size q) \<and> good_i32 (q_zero_point q) \<and>
     length (q_scales q) \<le> SIZE_MAX \<and> good_list good_i32 SIZE_MAX (q_zero_points q)"

definition good_tensor :: "TensorDesc \<Rightarrow> bool" where
  "good_tensor t \<longleftrightarrow> good_string (td_name t) \<and> good_list good_i64 SIZE_MAX (td_dims t) \<and>
     good_quantization (td_quantization t)"

text \<open>What a format version keeps of the quantization metadata.\<close>

definition kept_quantization :: "bool \<Rightarrow> bool \<Rightarrow> QuantizationParams \<Rightarrow> QuantizationParams" where
  "kept_quantization include_quantization include_vector q =
     (if \<not> include_quantization then default_quantization
      else if include_vector then complete_quantization q
      else q\<lparr>q_zero_point := 0, q_scales := [q_scale q], q_zero_points := [0]\<rparr>)"

definition kept_tensor :: "bool \<Rightarrow> bool \<Rightarrow> TensorDesc \<Rightarrow> TensorDesc" where
  "kept_tensor iq iv t = t\<lparr>td_quantization := kept_quantization iq iv (td_quantization t)\<rparr>"

lemma extensible_ReadQuantization: "extensible (ReadQuantization iv)"
  unfolding ReadQuantization_def read_quantization_vectors_def
  by (intro extensible_rules extensible_pods extensible_ReadVector extensible_read_enum)

lemma ReadQuantization_step:
  assumes "good_quantization q"
  shows "ReadQuantization iv (WriteQuantization iv q @ rest) = Accept (kept_quantization True iv q) rest"
  using assms
  by (cases q; cases iv) (simp_all add: ReadQuantization_def WriteQuantization_def good_quantization_def read_steps
    read_quantization_vectors_def kept_quantization_def then_read_assoc then_read_give
    complete_quantization_def)

lemma tensor_codec: "codec (WriteTensorDesc iq iv) (ReadTensorDesc iq iv) (kept_tensor iq iv) good_tensor 24"
proof unfold_locales
  show "extensible (ReadTensorDesc iq iv)"
    unfolding ReadTensorDesc_def
    by (intro extensible_rules extensible_pods extensible_ReadString extensible_ReadVector
      extensible_read_enum extensible_ReadQuantization)
  fix t rest
  assume "good_tensor t"
  then show "ReadTensorDesc iq iv (WriteTensorDesc iq iv t @ rest) = Accept (kept_tensor iq iv t) rest"
    by (cases iq) (simp_all add: ReadTensorDesc_def WriteTensorDesc_def good_tensor_def read_steps
      then_read_def[of "ReadQuantization _"] then_read_give ReadQuantization_step
      kept_tensor_def kept_quantization_def[of False])
qed (simp add: WriteTensorDesc_def WriteString_def WriteVector_def write_u64_def write_i32_def)

lemma tensor_length:
  "24 \<le> length (WriteTensorDesc iq iv t)" "length (write_bool b) = 1" "40 \<le> length (WriteWeightLocation l)"
  by (simp_all add: WriteTensorDesc_def WriteString_def WriteVector_def write_u64_def write_i32_def
    write_bool_def WriteWeightLocation_def)

definition good_location :: "WeightLocation \<Rightarrow> bool" where
  "good_location l \<longleftrightarrow> good_string (wl_tensor_name l) \<and> good_string (wl_shard_path l) \<and>
     good_u64 (wl_offset l) \<and> good_u64 (wl_byte_size l) \<and> good_string (wl_checksum l)"

interpretation location: codec WriteWeightLocation ReadWeightLocation id good_location 40
proof unfold_locales
  show "extensible ReadWeightLocation"
    unfolding ReadWeightLocation_def by (intro extensible_rules extensible_pods extensible_ReadString)
  show "40 \<le> length (WriteWeightLocation l)" for l by (rule tensor_length(3))
qed (simp add: ReadWeightLocation_def WriteWeightLocation_def good_location_def read_steps)

definition good_value :: "ValueDesc \<Rightarrow> bool" where
  "good_value v \<longleftrightarrow> good_tensor (vd_tensor v) \<and> good_location (vd_weight v)"

definition kept_value :: "bool \<Rightarrow> bool \<Rightarrow> ValueDesc \<Rightarrow> ValueDesc" where
  "kept_value iq iv v = v\<lparr>vd_tensor := kept_tensor iq iv (vd_tensor v)\<rparr>"

lemma value_codec: "codec (WriteValueDesc iq iv) (ReadValueDesc iq iv) (kept_value iq iv) good_value 65"
proof unfold_locales
  show "extensible (ReadValueDesc iq iv)"
    unfolding ReadValueDesc_def
    by (intro extensible_rules extensible_pods location.no_lookahead codec.no_lookahead[OF tensor_codec])
  show "65 \<le> length (WriteValueDesc iq iv v)" for v
    using tensor_length(1)[of iq iv "vd_tensor v"] tensor_length(3)[of "vd_weight v"]
    by (simp add: WriteValueDesc_def tensor_length(2))
qed (simp add: ReadValueDesc_def WriteValueDesc_def good_value_def read_steps location.step
  codec.step[OF tensor_codec] kept_value_def)

section \<open>Nodes and graphs\<close>

definition good_node :: "NodeDesc \<Rightarrow> bool" where
  "good_node n \<longleftrightarrow> good_string (nd_name n) \<and> good_string (nd_op_type n) \<and> good_string (nd_domain n) \<and>
     good_list good_string kMaxCollectionSize (nd_inputs n) \<and>
     good_list good_string kMaxCollectionSize (nd_outputs n) \<and> good_attributes (nd_attributes n)"

lemma node_codec:
  assumes "traverses ord"
  shows "codec (WriteNodeDesc ord) ReadNodeDesc id good_node 48"
proof unfold_locales
  show "extensible ReadNodeDesc"
    unfolding ReadNodeDesc_def
    by (intro extensible_rules extensible_pods extensible_ReadString strs.no_lookahead
      extensible_read_attributes)
  show "48 \<le> length (WriteNodeDesc ord n)" for n
    by (simp add: WriteNodeDesc_def WriteString_def WriteStringVector_def WriteVector_def write_u64_def)
  fix n rest
  assume g: "good_node n"
  then have a: "good_attributes (nd_attributes n)" by (simp add: good_node_def)
  note t = traversed[OF assms a]
  have "good_u64 (length (ord (nd_attributes n)))" using t(3) by (simp add: good_u64_def kMaxCollectionSize_def)
  then show "ReadNodeDesc (WriteNodeDesc ord n @ rest) = Accept (id n) rest"
    using g t(1,2) read_attributes_entries(1)[OF t(4,1), of Map.empty rest] entries_fit[OF t(3)]
    by (simp add: ReadNodeDesc_def WriteNodeDesc_def WriteVector_def[of "write_entry _"] good_node_def
      read_steps when_collection_def then_read_def[of "read_attributes _ _"])
qed

definition good_graph :: "GraphDesc \<Rightarrow> bool" where
  "good_graph g \<longleftrightarrow> good_string (gd_name g) \<and>
     good_list good_string kMaxCollectionSize (gd_inputs g) \<and>
     good_list good_string kMaxCollectionSize (gd_outputs g) \<and>
     good_list good_value kMaxCollectionSize (gd_values g) \<and>
     good_list good_node kMaxCollectionSize (gd_nodes g)"

definition kept_graph :: "bool \<Rightarrow> bool \<Rightarrow> GraphDesc \<Rightarrow> GraphDesc" where
  "kept_graph iq iv g = g\<lparr>gd_values := map (kept_value iq iv) (gd_values g)\<rparr>"

lemma graph_codec:
  assumes "traverses ord"
  shows "codec (WriteGraphDesc ord iq iv) (ReadGraphDesc iq iv) (kept_graph iq iv) good_graph 40"
proof -
  have v: "codec (WriteVector (WriteValueDesc iq iv)) (read_collection 65 (ReadValueDesc iq iv))
      (map (kept_value iq iv)) (good_list good_value kMaxCollectionSize) 8"
    by (rule codec.collection_codec[OF value_codec]) simp_all
  have n: "codec (WriteVector (WriteNodeDesc ord)) (read_collection 48 ReadNodeDesc)
      (map id) (good_list good_node kMaxCollectionSize) 8"
    by (rule codec.collection_codec[OF node_codec[OF assms]]) simp_all
  show ?thesis
  proof unfold_locales
    show "extensible (ReadGraphDesc iq iv)"
      unfolding ReadGraphDesc_def
      by (intro extensible_rules extensible_ReadString strs.no_lookahead codec.no_lookahead[OF v]
        codec.no_lookahead[OF n])
    show "40 \<le> length (WriteGraphDesc ord iq iv g)" for g
      by (simp add: WriteGraphDesc_def WriteString_def WriteStringVector_def WriteVector_def write_u64_def)
  qed (simp add: ReadGraphDesc_def WriteGraphDesc_def good_graph_def read_steps codec.step[OF v]
    codec.step[OF n] kept_graph_def)
qed

section \<open>Models\<close>

definition good_variant :: "Variant \<Rightarrow> bool" where
  "good_variant v \<longleftrightarrow> var_name v \<noteq> [] \<and> good_string (var_name v) \<and> good_graph (var_graph v) \<and>
     good_attributes (var_metadata v)"

definition kept_variant :: "bool \<Rightarrow> bool \<Rightarrow> Variant \<Rightarrow> Variant" where
  "kept_variant iq iv v = v\<lparr>var_graph := kept_graph iq iv (var_graph v)\<rparr>"

lemma read_variant_step:
  assumes "traverses ord" "good_variant v" "var_name v \<notin> set names"
  shows "then_read (read_variant iq iv names) f (write_variant ord iq iv v @ rest) = f (kept_variant iq iv v) rest"
proof -
  note g = codec.step[OF graph_codec[OF assms(1)]] and m = codec.step[OF WriteMetadata_codec[OF assms(1)]]
  show ?thesis
    using assms(2,3)
    by (cases v) (simp add: read_variant_def write_variant_def then_read_assoc good_variant_def read_steps g m
      then_read_give kept_variant_def)
qed

lemma read_variants_written:
  assumes "traverses ord" "\<forall>v \<in> set vs. good_variant v" "distinct (map var_name vs)"
    "set (map var_name vs) \<inter> set names = {}"
  shows "read_variants iq iv (length vs) names (concat (map (write_variant ord iq iv) vs) @ rest) =
    Accept (map (kept_variant iq iv) vs) rest"
  using assms(2-)
proof (induction vs arbitrary: names)
  case (Cons v vs)
  have "var_name (kept_variant iq iv v) = var_name v" by (simp add: kept_variant_def)
  then show ?case
    using Cons.prems Cons.IH[of "var_name v # names"]
    by (auto simp: read_variant_step[OF assms(1)] then_read_def[of "read_variants _ _ _ _"])
qed simp

lemma extensible_read_variants:
  assumes "traverses ord"
  shows "extensible (read_variants iq iv n names)"
proof (induction n arbitrary: names)
  case (Suc n)
  have "extensible (read_variant iq iv ns)" for ns
    unfolding read_variant_def
    by (intro extensible_rules extensible_ReadString codec.no_lookahead[OF graph_codec[OF assms]]
      codec.no_lookahead[OF WriteMetadata_codec[OF assms]])
  then show ?case unfolding read_variants.simps by (intro extensible_rules Suc)
qed (simp add: extensible_give)

text \<open>The models the format can hold.\<close>

definition good_model :: "ModelDesc \<Rightarrow> bool" where
  "good_model m \<longleftrightarrow> good_string (md_name m) \<and> good_i64 (md_version m) \<and> good_graph (md_graph m) \<and>
     good_attributes (md_metadata m) \<and> good_list good_variant kMaxCollectionSize (md_variants m) \<and>
     distinct (map var_name (md_variants m))"

definition kept_model :: "bool \<Rightarrow> bool \<Rightarrow> ModelDesc \<Rightarrow> ModelDesc" where
  "kept_model iq iv m = m\<lparr>md_graph := kept_graph iq iv (md_graph m),
     md_variants := map (kept_variant iq iv) (md_variants m)\<rparr>"

lemma variant_length: "48 \<le> length (write_variant ord iq iv v)"
  by (simp add: write_variant_def WriteGraphDesc_def WriteString_def WriteStringVector_def WriteVector_def
    write_u64_def WriteMetadata_def)

lemma variants_length: "48 * length vs \<le> length (concat (map (write_variant ord iq iv) vs))"
proof (induction vs)
  case (Cons v vs)
  then show ?case using variant_length[of ord iq iv v] by simp
qed simp

lemma model_codec:
  assumes "traverses ord"
  shows "codec (SerializeModel ord iq iv) (read_model iq iv True True) (kept_model iq iv) good_model 0"
proof unfold_locales
  note g = graph_codec[OF assms] and m = WriteMetadata_codec[OF assms]
  show "extensible (read_model iq iv True True)"
    unfolding read_model_def
    by (intro extensible_rules extensible_pods extensible_ReadString extensible_read_variants[OF assms]
      codec.no_lookahead[OF g] codec.no_lookahead[OF m])
  fix a rest
  assume a: "good_model a"
  let ?n = "length (md_variants a)"
  have n: "good_u64 ?n" "?n \<le> kMaxCollectionSize"
    using a by (simp_all add: good_model_def good_list_def good_u64_def kMaxCollectionSize_def)
  have "CanReadCollection ?n 48 (concat (map (write_variant ord iq iv) (md_variants a)) @ rest)"
    using n(2) variants_length[of "md_variants a" ord iq iv]
    by (simp add: CanReadCollection_def less_eq_div_iff_mult_less_eq mult.commute trans_le_add1)
  then show "read_model iq iv True True (SerializeModel ord iq iv a @ rest) = Accept (kept_model iq iv a) rest"
    using a n(1) read_variants_written[OF assms, of "md_variants a" "[]" iq iv rest]
    by (simp add: read_model_def SerializeModel_def good_model_def good_list_def read_steps
      codec.step[OF g] codec.step[OF m] then_read_assoc when_collection_def
      WriteVector_def[of "write_variant _ _ _"] then_read_def[of "when_collection _ _ _"] kept_model_def)
qed simp

section \<open>The round trip and truncated data\<close>

lemma DeserializeModel_Accept:
  "DeserializeModel iq iv im ivs data = Accept m r \<longleftrightarrow> r = [] \<and> read_model iq iv im ivs data = Accept m []"
  by (auto simp: DeserializeModel_def split: read.split)

text \<open>
  C29: The model format loses nothing but what an older version has no field for.  A model whose
  numbers fit their types and whose collections stay within the limit of the reader is read back
  from its serialization, whatever order the hash maps are traversed in, with the quantization
  metadata completed as \<open>kept_model\<close> says.
\<close>

theorem SerializeModel_roundtrip:
  assumes "traverses ord" "good_model m"
  shows "DeserializeModel iq iv True True (SerializeModel ord iq iv m) = Accept (kept_model iq iv m) []"
  using codec.whole[OF model_codec[OF assms(1)] assms(2), of iq iv] by (simp add: DeserializeModel_Accept)

definition sorted_keys :: "attributes \<Rightarrow> string list" where
  "sorted_keys attrs = sorted_list_of_set (dom attrs)"

lemma traverses_sorted_keys: "traverses sorted_keys"
  by (simp add: traverses_def sorted_keys_def)

definition demo_model :: ModelDesc where
  "demo_model =
     (let x = \<lparr>td_name = ''x'', td_dims = [2, 3], td_data_type = INT8, td_layout = ND,
            td_quantization = default_quantization\<lparr>q_enabled := True, q_scales := [f32_one], q_zero_points := [-5]\<rparr>\<rparr>;
          w = \<lparr>wl_tensor_name = [], wl_shard_path = [], wl_offset = 0, wl_byte_size = 0, wl_checksum = []\<rparr>;
          n = \<lparr>nd_name = ''n'', nd_op_type = ''Relu'', nd_domain = [], nd_inputs = [''x''], nd_outputs = [''y''],
            nd_attributes = [''axis'' \<mapsto> AttrInt (-1)]\<rparr>;
          g = \<lparr>gd_name = ''g'', gd_inputs = [''x''], gd_outputs = [''y''],
            gd_values = [\<lparr>vd_tensor = x, vd_constant = False, vd_weight = w\<rparr>], gd_nodes = [n]\<rparr>
      in \<lparr>md_name = ''m'', md_version = 7, md_graph = g, md_metadata = Map.empty,
          md_variants = [\<lparr>var_name = ''small'', var_graph = g, var_metadata = [''k'' \<mapsto> AttrString ''v'']\<rparr>]\<rparr>)"

lemma good_demo_model: "good_model demo_model"
  by (simp add: demo_model_def Let_def good_model_def good_graph_def good_list_def good_variant_def
    good_attributes_def good_entry_def good_node_def good_value_def good_tensor_def good_location_def
    good_quantization_def default_quantization_def good_string_def good_i64_def good_i32_def good_u64_def
    SIZE_MAX_def kMaxCollectionSize_def INT64_MIN_def INT64_MAX_def)

theorem SerializeModel_roundtrip_witness:
  "DeserializeModel True True True True (SerializeModel sorted_keys True True demo_model) =
     Accept (kept_model True True demo_model) []"
  by (rule SerializeModel_roundtrip[OF traverses_sorted_keys good_demo_model])

text \<open>
  C30: Only the whole of a serialized model is accepted: no proper prefix of it is, in any version of
  the format, and neither is the model with bytes behind it.
\<close>

theorem damaged_model_refused:
  assumes "traverses ord" "good_model m" "ys \<noteq> []"
  shows "(SerializeModel ord iq iv m = p @ ys \<longrightarrow> DeserializeModel iq iv True True p = Reject) \<and>
    DeserializeModel iq iv True True (SerializeModel ord iq iv m @ ys) = Reject"
proof (intro conjI impI)
  assume "SerializeModel ord iq iv m = p @ ys"
  then show "DeserializeModel iq iv True True p = Reject"
    using codec.truncated[OF model_codec[OF assms(1)] assms(2) _ assms(3), of iq iv p] by (simp add: DeserializeModel_def)
next
  show "DeserializeModel iq iv True True (SerializeModel ord iq iv m @ ys) = Reject"
    using codec.get_put[OF model_codec[OF assms(1)] assms(2), of iq iv ys] assms(3) by (simp add: DeserializeModel_def)
qed

theorem damaged_model_refused_witness:
  "DeserializeModel True True True True (SerializeModel sorted_keys True True demo_model @ [0]) = Reject \<and>
   DeserializeModel True True True True (butlast (SerializeModel sorted_keys True True demo_model)) = Reject"
proof -
  let ?s = "SerializeModel sorted_keys True True demo_model"
  have "?s \<noteq> []" by (simp add: SerializeModel_def WriteString_def write_u64_def)
  then have "?s = butlast ?s @ [last ?s]" by simp
  then show ?thesis
    using damaged_model_refused[OF traverses_sorted_keys good_demo_model, of "[0]"]
      damaged_model_refused[OF traverses_sorted_keys good_demo_model, of "[last ?s]" True True "butlast ?s"] by simp
qed

end
