(* ===== verification/Model_File.thy ===== *)
theory Model_File
  imports Model_Roundtrip Tensor_Storage
begin

text \<open>
  Model files: \<open>ModelWriter\<close>, \<open>ModelLoader\<close> and \<open>WeightStore\<close> of \<open>src/model\<close>.  A file is a
  header, the serialized description and the weights, each aligned to 64 bytes; weights that are
  the same memory are stored once.  A file system maps paths to bytes, and \<open>mmap\<close> is a parameter
  that gives the address and the size of a mapped file.  A pointer into the description becomes
  the position of the constant value in it.  Exhausted memory is not modelled.
\<close>

section \<open>The layout of a file\<close>

definition kMagic :: "u8 list" where
  "kMagic = map of_char ''FTHMODL'' @ [0]"

definition kFormatVersion :: nat where "kFormatVersion = 5"
definition kWeightAlignment :: nat where "kWeightAlignment = 64"
definition kMaxMetadataBytes :: nat where "kMaxMetadataBytes = 256 * 1024 * 1024"

record FileHeader =
  fh_magic :: "u8 list"
  fh_version :: nat
  fh_reserved :: nat
  fh_metadata_size :: nat

definition header_bytes :: "FileHeader \<Rightarrow> u8 list" where
  "header_bytes h = fh_magic h @ write_u32 (fh_version h) @ write_u32 (fh_reserved h) @ write_u64 (fh_metadata_size h)"

definition header_size :: nat where "header_size = 24"

definition parse_header :: "u8 list \<Rightarrow> FileHeader" where
  "parse_header bs = \<lparr>fh_magic = take 8 bs, fh_version = nat (le_value (take 4 (drop 8 bs))),
     fh_reserved = nat (le_value (take 4 (drop 12 bs))), fh_metadata_size = nat (le_value (take 8 (drop 16 bs)))\<rparr>"

definition AlignUp :: "nat \<Rightarrow> nat \<Rightarrow> nat" where
  "AlignUp n align = (n + align - 1) mod 2 ^ 64 div align * align"

section \<open>Collecting the weights\<close>

type_synonym weight_table = "string \<rightharpoonup> Tensor option"

definition lookup_weight :: "weight_table \<Rightarrow> string \<Rightarrow> string \<Rightarrow> Tensor option option" where
  "lookup_weight weights prefix name =
     (case weights (prefix @ name) of
        None \<Rightarrow> if prefix \<noteq> [] then weights name else None
      | Some t \<Rightarrow> Some t)"

definition accept_weight :: "world \<Rightarrow> TensorDesc \<Rightarrow> Tensor option option \<Rightarrow> Tensor option" where
  "accept_weight w desc found =
     (case found of None \<Rightarrow> None | Some None \<Rightarrow> None
      | Some (Some t) \<Rightarrow>
          if \<not> IsInitialized w t then None
          else case CheckedTensorBytes (td_dims desc) (td_data_type desc) of None \<Rightarrow> None
               | Some bytes \<Rightarrow>
                   if m_memory_size t \<noteq> bytes \<or> m_dims t \<noteq> td_dims desc \<or> m_data_type t \<noteq> td_data_type desc
                   then None else Some t)"

fun collect_values :: "world \<Rightarrow> weight_table \<Rightarrow> string \<Rightarrow> ValueDesc list \<Rightarrow> Tensor list option" where
  "collect_values w weights prefix [] = Some []"
| "collect_values w weights prefix (v # vs) =
     (if vd_constant v
      then case accept_weight w (vd_tensor v) (lookup_weight weights prefix (vd_name v)) of None \<Rightarrow> None
           | Some t \<Rightarrow> map_option (\<lambda>ts. t # ts) (collect_values w weights prefix vs)
      else collect_values w weights prefix vs)"

fun collect_variants :: "world \<Rightarrow> weight_table \<Rightarrow> string list \<Rightarrow> Variant list \<Rightarrow> Tensor list option" where
  "collect_variants w weights names [] = Some []"
| "collect_variants w weights names (v # vs) =
     (if var_name v = [] \<or> var_name v \<in> set names then None
      else case collect_values w weights (var_name v @ ''::'') (gd_values (var_graph v)) of None \<Rightarrow> None
           | Some ts \<Rightarrow> map_option (\<lambda>ts'. ts @ ts') (collect_variants w weights (var_name v # names) vs))"

definition collect :: "world \<Rightarrow> weight_table \<Rightarrow> ModelDesc \<Rightarrow> Tensor list option" where
  "collect w weights m =
     (case collect_values w weights [] (gd_values (md_graph m)) of None \<Rightarrow> None
      | Some ts \<Rightarrow> map_option (\<lambda>ts'. ts @ ts') (collect_variants w weights [] (md_variants m)))"

text \<open>The constant values of a description, in the order they are collected, and their update.\<close>

definition constants :: "ModelDesc \<Rightarrow> ValueDesc list" where
  "constants m = filter vd_constant (gd_values (md_graph m)) @
     concat (map (\<lambda>v. filter vd_constant (gd_values (var_graph v))) (md_variants m))"

fun put_values :: "WeightLocation list \<Rightarrow> ValueDesc list \<Rightarrow> ValueDesc list \<times> WeightLocation list" where
  "put_values ls [] = ([], ls)"
| "put_values ls (v # vs) =
     (if vd_constant v
      then (let (vs', ls') = put_values (tl ls) vs in (v\<lparr>vd_weight := hd ls\<rparr> # vs', ls'))
      else (let (vs', ls') = put_values ls vs in (v # vs', ls')))"

definition put_graph :: "WeightLocation list \<Rightarrow> GraphDesc \<Rightarrow> GraphDesc \<times> WeightLocation list" where
  "put_graph ls g = (let (vs, ls') = put_values ls (gd_values g) in (g\<lparr>gd_values := vs\<rparr>, ls'))"

fun put_variants :: "WeightLocation list \<Rightarrow> Variant list \<Rightarrow> Variant list" where
  "put_variants ls [] = []"
| "put_variants ls (v # vs) =
     (let (g, ls') = put_graph ls (var_graph v) in v\<lparr>var_graph := g\<rparr> # put_variants ls' vs)"

definition put_locations :: "WeightLocation list \<Rightarrow> ModelDesc \<Rightarrow> ModelDesc" where
  "put_locations ls m =
     (let (g, ls') = put_graph ls (md_graph m)
      in m\<lparr>md_graph := g, md_variants := put_variants ls' (md_variants m)\<rparr>)"

section \<open>Placing the weights\<close>

text \<open>
  \<open>raw_data\<close> of a deferred storage allocates it; the first pass touches every payload, so that
  the addresses are fixed from then on.
\<close>

definition touch :: "Tensor list \<Rightarrow> world \<Rightarrow> world" where
  "touch ts w = fold (\<lambda>t w. fst (raw_data t w)) ts w"

definition weight_address :: "world \<Rightarrow> Tensor \<Rightarrow> nat" where
  "weight_address w t = (case snd (raw_data t w) of None \<Rightarrow> m_offset t | Some a \<Rightarrow> a)"

definition weight_key :: "world \<Rightarrow> Tensor \<Rightarrow> nat \<times> nat" where
  "weight_key w t = (weight_address w t, m_memory_size t)"

definition location_of :: "string \<Rightarrow> ValueDesc \<Rightarrow> nat \<Rightarrow> nat \<Rightarrow> WeightLocation" where
  "location_of path v offset bytes =
     (vd_weight v)\<lparr>wl_tensor_name := vd_name v, wl_shard_path := path, wl_byte_size := bytes, wl_offset := offset\<rparr>"

definition overflows :: "nat \<Rightarrow> nat \<Rightarrow> bool" where
  "overflows offset bytes \<longleftrightarrow>
     offset > SIZE_MAX - kWeightAlignment \<or> bytes > SIZE_MAX - offset - kWeightAlignment"

fun place :: "world \<Rightarrow> string \<Rightarrow> (ValueDesc \<times> Tensor) list \<Rightarrow> nat \<Rightarrow> (nat \<times> nat \<rightharpoonup> nat) \<Rightarrow> WeightLocation list option" where
  "place w path [] offset locations = Some []"
| "place w path ((v, t) # ps) offset locations =
     (let key = weight_key w t; bytes = m_memory_size t in
      case locations key of
        Some found \<Rightarrow> map_option (\<lambda>ls. location_of path v found bytes # ls) (place w path ps offset locations)
      | None \<Rightarrow>
          if overflows offset bytes then None
          else map_option (\<lambda>ls. location_of path v offset bytes # ls)
                 (place w path ps (AlignUp (offset + bytes) kWeightAlignment) (locations(key \<mapsto> offset))))"

definition save_pass :: "(attributes \<Rightarrow> string list) \<Rightarrow> world \<Rightarrow> string \<Rightarrow> Tensor list \<Rightarrow> ModelDesc \<Rightarrow> ModelDesc option" where
  "save_pass ord w path ts m =
     (let metadata = SerializeModel ord True True m;
          offset = AlignUp (header_size + length metadata) kWeightAlignment
      in map_option (\<lambda>ls. put_locations ls m) (place w path (zip (constants m) ts) offset Map.empty))"

primrec save_passes :: "(attributes \<Rightarrow> string list) \<Rightarrow> world \<Rightarrow> string \<Rightarrow> Tensor list \<Rightarrow> nat \<Rightarrow> ModelDesc \<Rightarrow> ModelDesc option" where
  "save_passes ord w path ts 0 m = Some m"
| "save_passes ord w path ts (Suc n) m =
     (case save_pass ord w path ts m of None \<Rightarrow> None | Some m' \<Rightarrow> save_passes ord w path ts n m')"

section \<open>Writing\<close>

definition weight_bytes :: "world \<Rightarrow> Tensor \<Rightarrow> u8 list" where
  "weight_bytes w t = mem_read (mem w) (weight_address w t) (m_memory_size t)"

text \<open>
  The loop over the payloads: \<open>current\<close> bytes are in the file, \<open>written\<close> are the offsets done.
  A false result leaves the file as far as it was written.
\<close>

fun write_payloads :: "world \<Rightarrow> (WeightLocation \<times> Tensor) list \<Rightarrow> nat \<Rightarrow> nat set \<Rightarrow> u8 list \<Rightarrow> u8 list \<times> bool" where
  "write_payloads w [] current written out = (out, True)"
| "write_payloads w ((l, t) # ps) current written out =
     (if wl_byte_size l = 0 \<and> wl_offset l \<le> current then write_payloads w ps current written out
      else if wl_byte_size l \<noteq> 0 \<and> wl_offset l \<in> written then write_payloads w ps current written out
      else if wl_offset l < current then (out, False)
      else write_payloads w ps (wl_offset l + wl_byte_size l)
             (if wl_byte_size l \<noteq> 0 then insert (wl_offset l) written else written)
             (out @ replicate (wl_offset l - current) 0 @ mem_read (mem w) (weight_address w t) (wl_byte_size l)))"

definition file_bytes :: "world \<Rightarrow> u8 list \<Rightarrow> (WeightLocation \<times> Tensor) list \<Rightarrow> u8 list \<times> bool" where
  "file_bytes w metadata ps =
     (let header = \<lparr>fh_magic = kMagic, fh_version = kFormatVersion, fh_reserved = 0, fh_metadata_size = length metadata\<rparr>
      in write_payloads w ps (header_size + length metadata) {} (header_bytes header @ metadata))"

type_synonym file_system = "string \<rightharpoonup> u8 list"

text \<open>
  \<open>ModelWriter::Save\<close>.  Whether the stream opens, and whether its writes succeed, is up to the
  environment; a stream that fails leaves \<open>torn\<close> in the file.
\<close>

record disk =
  dk_opens :: "string \<Rightarrow> bool"
  dk_writes :: "string \<Rightarrow> bool"
  dk_torn :: "u8 list"

definition Save :: "(attributes \<Rightarrow> string list) \<Rightarrow> disk \<Rightarrow> string \<Rightarrow> ModelDesc \<Rightarrow> weight_table \<Rightarrow> world \<Rightarrow> file_system \<Rightarrow> world \<times> file_system \<times> bool" where
  "Save ord dk path m weights w fs =
     (case collect w weights m of None \<Rightarrow> (w, fs, False)
      | Some ts \<Rightarrow>
          let w' = touch ts w in
          case save_passes ord w' path ts 4 m of None \<Rightarrow> (w', fs, False)
          | Some saved \<Rightarrow>
              let metadata = SerializeModel ord True True saved;
                  (out, fine) = file_bytes w' metadata (zip (map vd_weight (constants saved)) ts)
              in if \<not> dk_opens dk path then (w', fs, False)
                 else if \<not> dk_writes dk path then (w', fs(path \<mapsto> dk_torn dk), False)
                 else (w', fs(path \<mapsto> out), fine))"

section \<open>The weight store\<close>

text \<open>\<open>MappedFile\<close>: \<open>mmap\<close> gives the address and size of the file, or fails; an empty file is refused.\<close>

type_synonym mapper = "string \<rightharpoonup> nat \<times> nat"
type_synonym WeightStore = "string \<rightharpoonup> nat \<times> nat"

definition Open :: "mapper \<Rightarrow> string \<Rightarrow> (nat \<times> nat) option" where
  "Open os path = (case os path of None \<Rightarrow> None | Some (base, n) \<Rightarrow> if n = 0 then None else Some (base, n))"

definition GetOrOpenShard :: "mapper \<Rightarrow> string \<Rightarrow> WeightStore \<Rightarrow> (WeightStore \<times> nat \<times> nat) option" where
  "GetOrOpenShard os path shards =
     (case shards path of Some shard \<Rightarrow> Some (shards, shard)
      | None \<Rightarrow> map_option (\<lambda>shard. (shards(path \<mapsto> shard), shard)) (Open os path))"

definition view_tensor :: "TensorDesc \<Rightarrow> Tensor" where
  "view_tensor desc =
     set_quantization (td_quantization desc)
       (empty_Tensor\<lparr>m_dims := td_dims desc, m_data_type := td_data_type desc, m_layout := td_layout desc\<rparr>)"

definition CreateTensorView :: "mapper \<Rightarrow> TensorDesc \<Rightarrow> WeightLocation \<Rightarrow> WeightStore \<Rightarrow> world \<Rightarrow> WeightStore \<times> (world \<times> Tensor) option" where
  "CreateTensorView os desc location shards w =
     (case CheckedTensorBytes (td_dims desc) (td_data_type desc) of None \<Rightarrow> (shards, None)
      | Some required_bytes \<Rightarrow>
          if wl_byte_size location \<noteq> required_bytes then (shards, None)
          else case GetOrOpenShard os (wl_shard_path location) shards of None \<Rightarrow> (shards, None)
          | Some (shards', base, n) \<Rightarrow>
              if wl_offset location > SIZE_MAX \<or> wl_byte_size location > SIZE_MAX then (shards', None)
              else if wl_offset location > n \<or> wl_byte_size location > n - wl_offset location then (shards', None)
              else let (w', b) = wrap_buffer (base + wl_offset location) (wl_byte_size location) True w
                   in (shards', map_option (\<lambda>(w'', t). (w'', t\<lparr>m_immutable := True\<rparr>))
                        (ResetBuffer b (wl_byte_size location) 0 (view_tensor desc) w')))"

section \<open>Loading\<close>

record ModelLoader =
  ml_path :: string
  ml_model :: ModelDesc
  ml_weight_store :: WeightStore

fun validate_values :: "mapper \<Rightarrow> string \<Rightarrow> nat \<Rightarrow> ValueDesc list \<Rightarrow> WeightStore \<Rightarrow> world \<Rightarrow> world \<times> (ValueDesc list \<times> WeightStore) option" where
  "validate_values os path start [] st w = (w, Some ([], st))"
| "validate_values os path start (v # vs) st w =
     (if vd_constant v
      then (let v' = v\<lparr>vd_weight := (vd_weight v)\<lparr>wl_shard_path := path\<rparr>\<rparr> in
            if wl_offset (vd_weight v') < start then (w, None)
            else case CreateTensorView os (vd_tensor v') (vd_weight v') st w of
                   (st', None) \<Rightarrow> (w, None)
                 | (st', Some (w', t)) \<Rightarrow>
                     (let (w'', r) = validate_values os path start vs st' w'
                      in (w'', map_option (\<lambda>(vs', s). (v' # vs', s)) r)))
      else (let (w'', r) = validate_values os path start vs st w
            in (w'', map_option (\<lambda>(vs', s). (v # vs', s)) r)))"

definition validate_graph :: "mapper \<Rightarrow> string \<Rightarrow> nat \<Rightarrow> GraphDesc \<Rightarrow> WeightStore \<Rightarrow> world \<Rightarrow> world \<times> (GraphDesc \<times> WeightStore) option" where
  "validate_graph os path start g st w =
     (let (w', r) = validate_values os path start (gd_values g) st w
      in (w', map_option (\<lambda>(vs, s). (g\<lparr>gd_values := vs\<rparr>, s)) r))"

fun validate_variants :: "mapper \<Rightarrow> string \<Rightarrow> nat \<Rightarrow> Variant list \<Rightarrow> WeightStore \<Rightarrow> world \<Rightarrow> world \<times> (Variant list \<times> WeightStore) option" where
  "validate_variants os path start [] st w = (w, Some ([], st))"
| "validate_variants os path start (v # vs) st w =
     (case validate_graph os path start (var_graph v) st w of
        (w', None) \<Rightarrow> (w', None)
      | (w', Some (g, st')) \<Rightarrow>
          (let (w'', r) = validate_variants os path start vs st' w'
           in (w'', map_option (\<lambda>(vs', s). (v\<lparr>var_graph := g\<rparr> # vs', s)) r)))"

definition header_accepted :: "FileHeader \<Rightarrow> nat \<Rightarrow> bool" where
  "header_accepted h file_length \<longleftrightarrow> fh_magic h = kMagic \<and> 1 \<le> fh_version h \<and> fh_version h \<le> kFormatVersion \<and>
     fh_metadata_size h \<le> kMaxMetadataBytes \<and> fh_metadata_size h \<le> file_length - header_size"

text \<open>
  \<open>ModelLoader::Load\<close>: the loader is replaced only when everything succeeded.  \<open>None\<close> is a file
  with an enumerator value outside its enumeration.
\<close>

definition Load :: "mapper \<Rightarrow> file_system \<Rightarrow> string \<Rightarrow> ModelLoader \<Rightarrow> world \<Rightarrow> (world \<times> ModelLoader \<times> bool) option" where
  "Load os fs path loader w =
     (case fs path of None \<Rightarrow> Some (w, loader, False)
      | Some bs \<Rightarrow>
          if length bs < header_size then Some (w, loader, False)
          else let h = parse_header bs in
          if \<not> header_accepted h (length bs) then Some (w, loader, False)
          else case DeserializeModel (fh_version h \<ge> 2) (fh_version h \<ge> 3) (fh_version h \<ge> 4) (fh_version h \<ge> 5)
                 (take (fh_metadata_size h) (drop header_size bs)) of
            Foreign \<Rightarrow> None | Reject \<Rightarrow> Some (w, loader, False)
          | Accept parsed rest \<Rightarrow>
              (case GetOrOpenShard os path Map.empty of None \<Rightarrow> Some (w, loader, False)
               | Some (new_store, shard) \<Rightarrow>
                   let start = header_size + fh_metadata_size h in
                   (case validate_graph os path start (md_graph parsed) new_store w of
                      (w1, None) \<Rightarrow> Some (w1, loader, False)
                    | (w1, Some (g, st1)) \<Rightarrow>
                        (case validate_variants os path start (md_variants parsed) st1 w1 of
                           (w2, None) \<Rightarrow> Some (w2, loader, False)
                         | (w2, Some (vs, st2)) \<Rightarrow>
                             Some (w2, \<lparr>ml_path = path, ml_model = parsed\<lparr>md_graph := g, md_variants := vs\<rparr>,
                                        ml_weight_store = st2\<rparr>, True)))))"

text \<open>The destination is another loader; a null pointer or the loader itself is refused.\<close>

definition SelectVariant :: "ModelLoader \<Rightarrow> string \<Rightarrow> bool \<Rightarrow> ModelLoader option" where
  "SelectVariant loader name other_destination =
     (if \<not> other_destination then None else
      case find (\<lambda>v. var_name v = name) (md_variants (ml_model loader)) of None \<Rightarrow> None
      | Some v \<Rightarrow> Some (loader\<lparr>ml_model := \<lparr>md_name = md_name (ml_model loader) @ '':'' @ name,
           md_version = md_version (ml_model loader), md_graph = var_graph v, md_metadata = var_metadata v,
           md_variants = []\<rparr>\<rparr>))"

definition FindValue :: "ModelDesc \<Rightarrow> string \<Rightarrow> ValueDesc option" where
  "FindValue m name = find (\<lambda>v. vd_name v = name) (gd_values (md_graph m))"

definition CreateWeightTensor :: "mapper \<Rightarrow> string \<Rightarrow> ModelLoader \<Rightarrow> world \<Rightarrow> ModelLoader \<times> (world \<times> Tensor) option" where
  "CreateWeightTensor os name loader w =
     (case FindValue (ml_model loader) name of None \<Rightarrow> (loader, None)
      | Some v \<Rightarrow>
          if \<not> vd_constant v then (loader, None)
          else let (st, r) = CreateTensorView os (vd_tensor v) (vd_weight v) (ml_weight_store loader) w
               in (loader\<lparr>ml_weight_store := st\<rparr>, r))"

end
