(* ===== verification/Model_Save.thy ===== *)
theory Model_Save
  imports Model_File
begin

text \<open>
  What a saved file holds: the passes of \<open>Save\<close> settle, every weight lies aligned behind the
  metadata with its bytes, and \<open>Load\<close> gives back the description and read-only views of the
  weights.
\<close>

section \<open>Alignment and the header\<close>

lemma AlignUp_64:
  assumes "n + 63 < 2 ^ 64"
  shows "n \<le> AlignUp n 64" "AlignUp n 64 \<le> n + 63" "64 dvd AlignUp n 64"
proof -
  have a: "AlignUp n 64 = (n + 63) div 64 * 64" using assms by (simp add: AlignUp_def)
  then show "64 dvd AlignUp n 64" by simp
  have "(n + 63) div 64 * 64 + (n + 63) mod 64 = n + 63" by (rule div_mult_mod_eq)
  then show "n \<le> AlignUp n 64" "AlignUp n 64 \<le> n + 63"
    using mod_less_divisor[of 64 "n + 63"] unfolding a by linarith+
qed

lemma length_kMagic [simp]: "length kMagic = 8"
  by (simp add: kMagic_def)

lemma length_header_bytes [simp]: "length (fh_magic h) = 8 \<Longrightarrow> length (header_bytes h) = header_size"
  by (simp add: header_bytes_def header_size_def write_u32_def write_u64_def)

lemma le_value_written: "n < 256 ^ k \<Longrightarrow> nat (le_value (le_bytes k (int n))) = n"
  by (simp add: le_value_le_bytes flip: of_nat_power of_nat_mod)

lemma parse_header_bytes:
  assumes "length (fh_magic h) = 8" "fh_version h < 2 ^ 32" "fh_reserved h < 2 ^ 32" "fh_metadata_size h < 2 ^ 64"
  shows "parse_header (header_bytes h @ rest) = h"
  using assms
  by (cases h) (simp add: parse_header_def header_bytes_def write_u32_def write_u64_def le_value_written)

section \<open>Updating the locations\<close>

abbreviation with_weight :: "ValueDesc \<Rightarrow> WeightLocation \<Rightarrow> ValueDesc" where
  "with_weight v l \<equiv> v\<lparr>vd_weight := l\<rparr>"

lemma put_values_spec:
  assumes "length (filter vd_constant vs) \<le> length ls"
  shows "snd (put_values ls vs) = drop (length (filter vd_constant vs)) ls"
    and "filter vd_constant (fst (put_values ls vs)) =
      map2 with_weight (filter vd_constant vs) (take (length (filter vd_constant vs)) ls)"
  using assms
proof (induction vs arbitrary: ls)
  case (Cons v vs)
  { case 1 then show ?case
      using Cons.IH(1)[of ls] Cons.IH(1)[of "tl ls"] by (cases ls) (auto simp: split_beta Let_def split: if_splits)
  next
    case 2 then show ?case
      using Cons.IH(2)[of ls] Cons.IH(2)[of "tl ls"] by (cases ls) (auto simp: split_beta Let_def split: if_splits) }
qed simp_all

lemma put_variants_spec:
  assumes "length (concat (map (\<lambda>v. filter vd_constant (gd_values (var_graph v))) vs)) \<le> length ls"
  shows "concat (map (\<lambda>v. filter vd_constant (gd_values (var_graph v))) (put_variants ls vs)) =
    map2 with_weight (concat (map (\<lambda>v. filter vd_constant (gd_values (var_graph v))) vs)) ls"
  using assms
proof (induction vs arbitrary: ls)
  case (Cons v vs)
  let ?c = "filter vd_constant (gd_values (var_graph v))"
  have l: "length ?c \<le> length ls" using Cons.prems by simp
  have "zip (?c @ xs) ls = zip ?c (take (length ?c) ls) @ zip xs (drop (length ?c) ls)" for xs
    by (simp add: zip_append1)
  then show ?case
    using Cons.IH[of "drop (length ?c) ls"] Cons.prems put_values_spec[OF l]
    by (simp add: put_graph_def split_beta Let_def)
qed simp

lemma constants_put_locations:
  assumes "length ls = length (constants m)"
  shows "constants (put_locations ls m) = map2 with_weight (constants m) ls"
proof -
  let ?c = "filter vd_constant (gd_values (md_graph m))"
  have l: "length ?c \<le> length ls" using assms by (simp add: constants_def)
  show ?thesis
    using assms put_values_spec[OF l] put_variants_spec[of "md_variants m" "drop (length ?c) ls"]
    by (simp add: constants_def put_locations_def put_graph_def split_beta Let_def zip_append1)
qed

lemma weights_put_locations:
  "length ls = length (constants m) \<Longrightarrow> map vd_weight (constants (put_locations ls m)) = ls"
  by (simp add: constants_put_locations comp_def split_beta map_snd_zip[unfolded comp_def])

section \<open>The length of the metadata does not depend on the numbers\<close>

definition same_strings :: "WeightLocation \<Rightarrow> WeightLocation \<Rightarrow> bool" where
  "same_strings l l' \<longleftrightarrow> wl_tensor_name l' = wl_tensor_name l \<and> wl_shard_path l' = wl_shard_path l \<and>
     wl_checksum l' = wl_checksum l"

lemma list_all2_split:
  assumes "list_all2 P (xs @ ys) zs"
  shows "list_all2 P xs (take (length xs) zs)" "list_all2 P ys (drop (length xs) zs)"
  using assms by (auto simp: list_all2_append1)

lemma same_strings_length: "same_strings l l' \<Longrightarrow> length (WriteWeightLocation l') = length (WriteWeightLocation l)"
  by (simp add: same_strings_def WriteWeightLocation_def write_u64_def WriteString_def)

lemma put_values_length:
  assumes "list_all2 same_strings (map vd_weight (filter vd_constant vs)) (take (length (filter vd_constant vs)) ls)"
  shows "length (WriteVector (WriteValueDesc iq iv) (fst (put_values ls vs))) = length (WriteVector (WriteValueDesc iq iv) vs)"
proof -
  have "length (fst (put_values ls vs)) = length vs \<and>
      length (concat (map (WriteValueDesc iq iv) (fst (put_values ls vs)))) = length (concat (map (WriteValueDesc iq iv) vs))"
    using assms
  proof (induction vs arbitrary: ls)
    case (Cons v vs)
    show ?case
    proof (cases "vd_constant v")
      case True
      with Cons.prems obtain l ls' where ls: "ls = l # ls'" by (cases ls) auto
      have "length (WriteValueDesc iq iv (with_weight v l)) = length (WriteValueDesc iq iv v)"
        using Cons.prems True ls by (simp add: WriteValueDesc_def same_strings_length)
      then show ?thesis using Cons.IH[of ls'] Cons.prems True ls by (simp add: split_beta Let_def)
    next
      case False
      then show ?thesis using Cons.IH[of ls] Cons.prems by (simp add: split_beta Let_def)
    qed
  qed simp
  then show ?thesis by (simp add: WriteVector_def write_u64_def)
qed

lemma put_graph_length:
  "list_all2 same_strings (map vd_weight (filter vd_constant (gd_values g))) (take (length (filter vd_constant (gd_values g))) ls) \<Longrightarrow>
   length (WriteGraphDesc ord iq iv (fst (put_graph ls g))) = length (WriteGraphDesc ord iq iv g)"
  by (simp add: put_graph_def split_beta Let_def WriteGraphDesc_def put_values_length)

lemma put_variants_length:
  assumes "list_all2 same_strings (map vd_weight (concat (map (\<lambda>v. filter vd_constant (gd_values (var_graph v))) vs))) ls"
  shows "length (WriteVector (write_variant ord iq iv) (put_variants ls vs)) = length (WriteVector (write_variant ord iq iv) vs)"
proof -
  have "length (put_variants ls vs) = length vs \<and>
      length (concat (map (write_variant ord iq iv) (put_variants ls vs))) = length (concat (map (write_variant ord iq iv) vs))"
    using assms
  proof (induction vs arbitrary: ls)
    case (Cons v vs)
    let ?c = "filter vd_constant (gd_values (var_graph v))"
    have len: "length ?c \<le> length ls" using list_all2_lengthD[OF Cons.prems] by simp
    have a: "list_all2 same_strings (map vd_weight ?c) (take (length ?c) ls)"
      and b: "list_all2 same_strings (map vd_weight (concat (map (\<lambda>v. filter vd_constant (gd_values (var_graph v))) vs))) (drop (length ?c) ls)"
      using list_all2_split[of same_strings "map vd_weight ?c" _ ls] Cons.prems by simp_all
    have "length (write_variant ord iq iv (v\<lparr>var_graph := fst (put_graph ls (var_graph v))\<rparr>)) = length (write_variant ord iq iv v)"
      by (simp add: write_variant_def put_graph_length[OF a])
    moreover have "snd (put_graph ls (var_graph v)) = drop (length ?c) ls"
      using put_values_spec(1)[OF len] by (simp add: put_graph_def split_beta Let_def)
    ultimately show ?case using Cons.IH[OF b] by (simp add: split_beta Let_def)
  qed simp
  then show ?thesis by (simp add: WriteVector_def write_u64_def)
qed

lemma put_locations_length:
  assumes "list_all2 same_strings (map vd_weight (constants m)) ls"
  shows "length (SerializeModel ord iq iv (put_locations ls m)) = length (SerializeModel ord iq iv m)"
proof -
  let ?c = "filter vd_constant (gd_values (md_graph m))"
  have len: "length ?c \<le> length ls" using list_all2_lengthD[OF assms] by (simp add: constants_def)
  have a: "list_all2 same_strings (map vd_weight ?c) (take (length ?c) ls)"
    and b: "list_all2 same_strings (map vd_weight (concat (map (\<lambda>v. filter vd_constant (gd_values (var_graph v))) (md_variants m)))) (drop (length ?c) ls)"
    using list_all2_split[of same_strings "map vd_weight ?c" _ ls] assms by (simp_all add: constants_def)
  have "snd (put_graph ls (md_graph m)) = drop (length ?c) ls"
    using put_values_spec(1)[OF len] by (simp add: put_graph_def split_beta Let_def)
  then show ?thesis
    by (simp add: put_locations_def split_beta Let_def SerializeModel_def put_graph_length[OF a] put_variants_length[OF b])
qed

end
