(* ===== verification/Model_Load.thy ===== *)
theory Model_Load
  imports Model_Save
begin

text \<open>
  Placing and writing the weights, step by step together; then the loader on a file that was saved.
\<close>

section \<open>Placing and writing\<close>

definition placed :: "world \<Rightarrow> nat \<Rightarrow> u8 list \<Rightarrow> Tensor \<Rightarrow> nat \<Rightarrow> bool" where
  "placed w start out t off \<longleftrightarrow> start \<le> off \<and> 64 dvd off \<and> off + m_memory_size t \<le> length out \<and>
     take (m_memory_size t) (drop off out) = weight_bytes w t"

definition known :: "world \<Rightarrow> nat \<Rightarrow> u8 list \<Rightarrow> nat \<times> nat \<Rightarrow> nat \<Rightarrow> bool" where
  "known w start out k off \<longleftrightarrow> start \<le> off \<and> 64 dvd off \<and> off + snd k \<le> length out \<and>
     take (snd k) (drop off out) = mem_read (mem w) (fst k) (snd k)"

lemma known_placed: "known w start out (weight_key w t) off \<longleftrightarrow> placed w start out t off"
  by (simp add: known_def placed_def weight_key_def weight_bytes_def)

lemma known_grows: "known w start out k off \<Longrightarrow> known w start (out @ ext) k off"
  by (auto simp: known_def)

lemma placed_grows: "placed w start out t off \<Longrightarrow> placed w start (out @ ext) t off"
  using known_grows by (simp flip: known_placed)

record write_state =
  ws_offset :: nat
  ws_locations :: "nat \<times> nat \<rightharpoonup> nat"
  ws_written :: "nat set"
  ws_out :: "u8 list"

definition write_inv :: "world \<Rightarrow> nat \<Rightarrow> write_state \<Rightarrow> bool" where
  "write_inv w start s \<longleftrightarrow> length (ws_out s) \<le> ws_offset s \<and> start \<le> ws_offset s \<and> 64 dvd ws_offset s \<and>
     (\<forall>k off. ws_locations s k = Some off \<longrightarrow> start \<le> off \<and> 64 dvd off \<and> off \<le> ws_offset s \<and> off \<le> SIZE_MAX \<and>
        (snd k \<noteq> 0 \<longrightarrow> off \<in> ws_written s \<and> known w start (ws_out s) k off)) \<and>
     (\<forall>off \<in> ws_written s. off < length (ws_out s))"

lemma write_inv_location:
  assumes "write_inv w start s" "ws_locations s k = Some off"
  shows "start \<le> off" "64 dvd off" "off \<le> ws_offset s" "off \<le> SIZE_MAX"
    "snd k \<noteq> 0 \<Longrightarrow> off \<in> ws_written s" "snd k \<noteq> 0 \<Longrightarrow> known w start (ws_out s) k off"
  using assms unfolding write_inv_def by blast+

lemma mem_read_0 [simp]: "mem_read m a 0 = []"
  by (simp add: mem_read_def)

text \<open>A payload seen before: nothing is written, or only padding in front of an empty weight.\<close>

lemma write_known:
  fixes v :: ValueDesc and path :: string
  assumes "write_inv w start s" "ws_locations s (weight_key w t) = Some off"
  defines "l \<equiv> location_of path v off (m_memory_size t)"
  shows "\<exists>ext. write_inv w start (s\<lparr>ws_out := ws_out s @ ext\<rparr>) \<and> placed w start (ws_out s @ ext) t off \<and>
     write_payloads w ((l, t) # ps) (length (ws_out s)) (ws_written s) (ws_out s) =
     write_payloads w ps (length (ws_out s @ ext)) (ws_written s) (ws_out s @ ext)"
proof -
  have l: "wl_byte_size l = m_memory_size t" "wl_offset l = off" by (simp_all add: l_def location_of_def)
  have i: "start \<le> off" "64 dvd off" "off \<le> ws_offset s"
    "m_memory_size t \<noteq> 0 \<Longrightarrow> off \<in> ws_written s \<and> placed w start (ws_out s) t off"
    using write_inv_location[OF assms(1,2)] by (simp_all add: known_placed) (simp add: weight_key_def)
  consider (skip) "m_memory_size t = 0" "off \<le> length (ws_out s)" | (pad) "m_memory_size t = 0" "length (ws_out s) < off"
    | (seen) "m_memory_size t \<noteq> 0"
    by linarith
  then show ?thesis
  proof cases
    case skip
    then show ?thesis using assms(1) i l by (intro exI[of _ "[]"]) (simp add: placed_def weight_bytes_def)
  next
    case pad
    let ?ext = "replicate (off - length (ws_out s)) 0"
    have "write_inv w start (s\<lparr>ws_out := ws_out s @ ?ext\<rparr>)"
      using assms(1) i(3) pad(2) by (auto simp: write_inv_def intro: known_grows)
    then show ?thesis
      using i l pad by (intro exI[of _ ?ext]) (simp add: placed_def weight_bytes_def)
  next
    case seen
    then show ?thesis using assms(1) i l by (intro exI[of _ "[]"]) simp
  qed
qed

text \<open>A new payload goes to the offset, which no weight has reached.\<close>

lemma write_new:
  fixes v :: ValueDesc and path :: string
  assumes "write_inv w start s" "ws_locations s (weight_key w t) = None" "\<not> overflows (ws_offset s) (m_memory_size t)"
  defines "l \<equiv> location_of path v (ws_offset s) (m_memory_size t)"
  shows "\<exists>ext written. write_inv w start \<lparr>ws_offset = AlignUp (ws_offset s + m_memory_size t) kWeightAlignment,
       ws_locations = (ws_locations s)(weight_key w t \<mapsto> ws_offset s), ws_written = written, ws_out = ws_out s @ ext\<rparr> \<and>
     placed w start (ws_out s @ ext) t (ws_offset s) \<and>
     write_payloads w ((l, t) # ps) (length (ws_out s)) (ws_written s) (ws_out s) =
     write_payloads w ps (length (ws_out s @ ext)) written (ws_out s @ ext)"
proof -
  let ?off = "ws_offset s" and ?n = "m_memory_size t"
  have l: "wl_byte_size l = ?n" "wl_offset l = ?off" by (simp_all add: l_def location_of_def)
  have small: "?off \<le> SIZE_MAX" "?off + ?n + 63 < 2 ^ 64"
    using assms(3) unfolding overflows_def kWeightAlignment_def SIZE_MAX_def by (simp_all, arith)
  note up = AlignUp_64[OF small(2)]
  have i: "length (ws_out s) \<le> ?off" "start \<le> ?off" "64 dvd ?off" "\<forall>o' \<in> ws_written s. o' < length (ws_out s)"
    using assms(1) by (simp_all add: write_inv_def)
  let ?pad = "replicate (?off - length (ws_out s)) 0" and ?data = "mem_read (mem w) (weight_address w t) ?n"
  have k: "known w start (ws_out s @ ?pad @ ?data) (weight_key w t) ?off"
    using i by (simp add: known_def weight_key_def)
  have inv: "write_inv w start \<lparr>ws_offset = AlignUp (?off + ?n) kWeightAlignment,
      ws_locations = (ws_locations s)(weight_key w t \<mapsto> ?off),
      ws_written = (if ?n \<noteq> 0 then insert ?off (ws_written s) else ws_written s), ws_out = ws_out s @ ?pad @ ?data\<rparr>"
    (is "write_inv w start ?s'")
  proof -
    have old: "start \<le> off \<and> 64 dvd off \<and> off \<le> ws_offset ?s' \<and> off \<le> SIZE_MAX \<and>
        (snd key \<noteq> 0 \<longrightarrow> off \<in> ws_written ?s' \<and> known w start (ws_out ?s') key off)"
      if "ws_locations s key = Some off" for key off
      using write_inv_location[OF assms(1) that] up(1) known_grows[of w start "ws_out s" key off "?pad @ ?data"]
      by (simp add: kWeightAlignment_def)
    have new: "start \<le> ?off \<and> 64 dvd ?off \<and> ?off \<le> ws_offset ?s' \<and> ?off \<le> SIZE_MAX \<and>
        (snd (weight_key w t) \<noteq> 0 \<longrightarrow> ?off \<in> ws_written ?s' \<and> known w start (ws_out ?s') (weight_key w t) ?off)"
      using i up(1) small(1) k by (simp add: kWeightAlignment_def weight_key_def)
    have "length (ws_out ?s') \<le> ws_offset ?s'" "start \<le> ws_offset ?s'" "64 dvd ws_offset ?s'"
      using i up by (simp_all add: kWeightAlignment_def)
    moreover have "\<forall>off \<in> ws_written ?s'. off < length (ws_out ?s')"
      using i by (auto intro: order_less_le_trans)
    moreover have "\<forall>key off. ws_locations ?s' key = Some off \<longrightarrow> start \<le> off \<and> 64 dvd off \<and> off \<le> ws_offset ?s' \<and>
        off \<le> SIZE_MAX \<and> (snd key \<noteq> 0 \<longrightarrow> off \<in> ws_written ?s' \<and> known w start (ws_out ?s') key off)"
    proof (intro allI impI)
      fix key off
      assume a: "ws_locations ?s' key = Some off"
      show "start \<le> off \<and> 64 dvd off \<and> off \<le> ws_offset ?s' \<and> off \<le> SIZE_MAX \<and>
          (snd key \<noteq> 0 \<longrightarrow> off \<in> ws_written ?s' \<and> known w start (ws_out ?s') key off)"
      proof (cases "key = weight_key w t")
        case True
        with a have "off = ?off" by simp
        with True new show ?thesis by blast
      next
        case False
        with a have "ws_locations s key = Some off" by simp
        then show ?thesis by (rule old)
      qed
    qed
    ultimately show ?thesis by (simp only: write_inv_def)
  qed
  show ?thesis
  proof (cases "?n = 0 \<and> ?off \<le> length (ws_out s)")
    case True
    then have "ws_out s @ ?pad @ ?data = ws_out s" by simp
    with True inv k l show ?thesis by (intro exI[of _ "[]"] exI[of _ "ws_written s"]) (simp add: known_placed)
  next
    case False
    have "?off \<notin> ws_written s" using i by auto
    then have "write_payloads w ((l, t) # ps) (length (ws_out s)) (ws_written s) (ws_out s) =
        write_payloads w ps (?off + ?n) (if ?n \<noteq> 0 then insert ?off (ws_written s) else ws_written s) (ws_out s @ ?pad @ ?data)"
      using False i(1) l by (simp only: write_payloads.simps) auto
    moreover have "?off + ?n = length (ws_out s @ ?pad @ ?data)" using i(1) by simp
    ultimately show ?thesis
      using inv k by (intro exI[of _ "?pad @ ?data"] exI conjI) (simp_all add: known_placed)
  qed
qed

definition settled :: "world \<Rightarrow> string \<Rightarrow> nat \<Rightarrow> u8 list \<Rightarrow> ValueDesc \<times> Tensor \<Rightarrow> WeightLocation \<Rightarrow> bool" where
  "settled w path start out p l \<longleftrightarrow> (\<exists>off. l = location_of path (fst p) off (m_memory_size (snd p)) \<and>
     off \<le> SIZE_MAX \<and> placed w start out (snd p) off)"

lemma place_write:
  assumes "place w path ps (ws_offset s) (ws_locations s) = Some ls" "write_inv w start s"
  shows "\<exists>ext. write_payloads w (zip ls (map snd ps)) (length (ws_out s)) (ws_written s) (ws_out s) = (ws_out s @ ext, True) \<and>
     list_all2 (settled w path start (ws_out s @ ext)) ps ls"
  using assms
proof (induction ps arbitrary: s ls)
  case Nil
  then show ?case by (intro exI[of _ "[]"]) simp
next
  case (Cons p ps)
  obtain v t where p: "p = (v, t)" by (cases p)
  have finish: ?case
    if step: "write_inv w start s'" "ws_out s' = ws_out s @ ext" "placed w start (ws_out s') t off" "off \<le> SIZE_MAX"
      and rest: "place w path ps (ws_offset s') (ws_locations s') = Some ls'" "ls = location_of path v off (m_memory_size t) # ls'"
      and run: "write_payloads w (zip ls (map snd (p # ps))) (length (ws_out s)) (ws_written s) (ws_out s) =
         write_payloads w (zip ls' (map snd ps)) (length (ws_out s')) (ws_written s') (ws_out s')"
    for s' ext off ls'
  proof -
    obtain ext' where e: "write_payloads w (zip ls' (map snd ps)) (length (ws_out s')) (ws_written s') (ws_out s') = (ws_out s' @ ext', True)"
        "list_all2 (settled w path start (ws_out s' @ ext')) ps ls'"
      using Cons.IH[OF rest(1) step(1)] by blast
    have "settled w path start (ws_out s' @ ext') p (location_of path v off (m_memory_size t))"
      using placed_grows[OF step(3), of ext'] step(4) p by (auto simp: settled_def)
    then show ?thesis using e run rest(2) step(2) by (intro exI[of _ "ext @ ext'"]) simp
  qed
  show ?case
  proof (cases "ws_locations s (weight_key w t)")
    case (Some off)
    then obtain ls' where ls: "place w path ps (ws_offset s) (ws_locations s) = Some ls'"
        "ls = location_of path v off (m_memory_size t) # ls'"
      using Cons.prems(1) p by (auto simp: Let_def)
    have "off \<le> SIZE_MAX" using write_inv_location(4)[OF Cons.prems(2) Some] .
    moreover obtain ext where "write_inv w start (s\<lparr>ws_out := ws_out s @ ext\<rparr>)" "placed w start (ws_out s @ ext) t off"
      "write_payloads w ((location_of path v off (m_memory_size t), t) # zip ls' (map snd ps)) (length (ws_out s)) (ws_written s) (ws_out s) =
       write_payloads w (zip ls' (map snd ps)) (length (ws_out s @ ext)) (ws_written s) (ws_out s @ ext)"
      using write_known[OF Cons.prems(2) Some] by blast
    ultimately show ?thesis
      using ls p by (intro finish[of "s\<lparr>ws_out := ws_out s @ ext\<rparr>" ext off ls']) simp_all
  next
    case None
    then obtain ls' where n: "\<not> overflows (ws_offset s) (m_memory_size t)"
      and ls: "place w path ps (AlignUp (ws_offset s + m_memory_size t) kWeightAlignment)
          ((ws_locations s)(weight_key w t \<mapsto> ws_offset s)) = Some ls'"
        "ls = location_of path v (ws_offset s) (m_memory_size t) # ls'"
      using Cons.prems(1) p by (auto simp: Let_def split: if_splits)
    have "ws_offset s \<le> SIZE_MAX" using n unfolding overflows_def by arith
    moreover obtain ext written where "write_inv w start \<lparr>ws_offset = AlignUp (ws_offset s + m_memory_size t) kWeightAlignment,
       ws_locations = (ws_locations s)(weight_key w t \<mapsto> ws_offset s), ws_written = written, ws_out = ws_out s @ ext\<rparr>"
      "placed w start (ws_out s @ ext) t (ws_offset s)"
      "write_payloads w ((location_of path v (ws_offset s) (m_memory_size t), t) # zip ls' (map snd ps)) (length (ws_out s)) (ws_written s) (ws_out s) =
       write_payloads w (zip ls' (map snd ps)) (length (ws_out s @ ext)) written (ws_out s @ ext)"
      using write_new[OF Cons.prems(2) None n] by blast
    ultimately show ?thesis
      using ls p
      by (intro finish[of "\<lparr>ws_offset = AlignUp (ws_offset s + m_memory_size t) kWeightAlignment,
         ws_locations = (ws_locations s)(weight_key w t \<mapsto> ws_offset s), ws_written = written, ws_out = ws_out s @ ext\<rparr>"
         ext "ws_offset s" ls']) simp_all
  qed
qed

section \<open>The passes settle\<close>

definition shaped :: "string \<Rightarrow> (ValueDesc \<times> Tensor) list \<Rightarrow> WeightLocation list \<Rightarrow> bool" where
  "shaped path ps ls \<longleftrightarrow> list_all2 (\<lambda>p l. \<exists>off \<le> SIZE_MAX. l = location_of path (fst p) off (m_memory_size (snd p))) ps ls"

lemma place_shaped:
  assumes "place w path ps off locs = Some ls" "\<forall>k o'. locs k = Some o' \<longrightarrow> o' \<le> SIZE_MAX"
  shows "shaped path ps ls"
  using assms
proof (induction ps arbitrary: off locs ls)
  case (Cons p ps)
  obtain v t where p: "p = (v, t)" by (cases p)
  show ?case
  proof (cases "locs (weight_key w t)")
    case (Some o')
    then have n: "o' \<le> SIZE_MAX" using Cons.prems(2) by blast
    obtain ls' where "place w path ps off locs = Some ls'" "ls = location_of path v o' (m_memory_size t) # ls'"
      using Cons.prems(1) Some p by (auto simp: Let_def)
    then show ?thesis using Cons.IH[OF _ Cons.prems(2)] n p by (auto simp: shaped_def)
  next
    case None
    then have n: "off \<le> SIZE_MAX" using Cons.prems(1) p by (auto simp: Let_def overflows_def split: if_splits)
    obtain ls' where "place w path ps (AlignUp (off + m_memory_size t) kWeightAlignment) (locs(weight_key w t \<mapsto> off)) = Some ls'"
        "ls = location_of path v off (m_memory_size t) # ls'"
      using Cons.prems(1) None p by (auto simp: Let_def split: if_splits)
    moreover have "\<forall>k o'. (locs(weight_key w t \<mapsto> off)) k = Some o' \<longrightarrow> o' \<le> SIZE_MAX"
      using Cons.prems(2) n by simp
    ultimately show ?thesis using Cons.IH[of _ "locs(weight_key w t \<mapsto> off)" ls'] n p
      by (auto simp: shaped_def simp del: fun_upd_apply)
  qed
qed (simp add: shaped_def)

lemma shaped_length: "shaped path ps ls \<Longrightarrow> length ls = length ps"
  by (auto simp: shaped_def dest: list_all2_lengthD)

lemma location_of_again [simp]:
  "location_of path (with_weight v (location_of path v o' n')) off n = location_of path v off n"
  by (simp add: location_of_def)

lemma place_reweighted:
  "shaped path ps ls \<Longrightarrow>
   place w path (map2 (\<lambda>p l. (with_weight (fst p) l, snd p)) ps ls) off locs = place w path ps off locs"
proof (induction ps arbitrary: ls off locs)
  case (Cons p ps)
  then obtain l ls' where "ls = l # ls'" "shaped path ps ls'" "\<exists>o'. l = location_of path (fst p) o' (m_memory_size (snd p))"
    by (auto simp: shaped_def list_all2_Cons1)
  then show ?case using Cons.IH by (cases p) (auto simp: Let_def simp del: fun_upd_apply split: option.splits)
qed (simp add: shaped_def)

lemma put_values_absorb:
  assumes "length (filter vd_constant vs) \<le> length ls'" "length (filter vd_constant vs) \<le> length ls"
  shows "put_values ls (fst (put_values ls' vs)) = put_values ls vs"
  using assms
proof (induction vs arbitrary: ls ls')
  case (Cons v vs)
  then show ?case
    using Cons.IH[of ls' ls] Cons.IH[of "tl ls'" "tl ls"] by (cases ls; cases ls') (auto simp: split_beta Let_def split: if_splits)
qed simp

lemma put_variants_absorb:
  assumes "length (concat (map (\<lambda>v. filter vd_constant (gd_values (var_graph v))) vs)) \<le> length ls'"
    "length (concat (map (\<lambda>v. filter vd_constant (gd_values (var_graph v))) vs)) \<le> length ls"
  shows "put_variants ls (put_variants ls' vs) = put_variants ls vs"
  using assms
proof (induction vs arbitrary: ls ls')
  case (Cons v vs)
  let ?n = "length (filter vd_constant (gd_values (var_graph v)))"
  have l: "?n \<le> length ls'" "?n \<le> length ls" using Cons.prems by simp_all
  show ?case
    using Cons.IH[of "drop ?n ls'" "drop ?n ls"] Cons.prems put_values_absorb[OF l]
      put_values_spec(1)[OF l(1)] put_values_spec(1)[OF l(2)]
    by (simp add: put_graph_def split_beta Let_def)
qed simp

lemma put_locations_absorb:
  assumes "length ls' = length (constants m)" "length ls = length (constants m)"
  shows "put_locations ls (put_locations ls' m) = put_locations ls m"
proof -
  let ?n = "length (filter vd_constant (gd_values (md_graph m)))"
  have l: "?n \<le> length ls'" "?n \<le> length ls" using assms by (simp_all add: constants_def)
  show ?thesis
    using put_values_absorb[OF l] put_values_spec(1)[OF l(1)] put_values_spec(1)[OF l(2)]
      put_variants_absorb[of "md_variants m" "drop ?n ls'" "drop ?n ls"] assms
    by (simp add: put_locations_def put_graph_def split_beta Let_def constants_def)
qed

abbreviation payloads :: "ModelDesc \<Rightarrow> Tensor list \<Rightarrow> (ValueDesc \<times> Tensor) list" where
  "payloads m ts \<equiv> zip (constants m) ts"

lemma shaped_constants:
  assumes "shaped path (payloads m ts) ls" "length ts = length (constants m)"
  shows "length ls = length (constants m)"
    "payloads (put_locations ls m) ts = map2 (\<lambda>p l. (with_weight (fst p) l, snd p)) (payloads m ts) ls"
proof -
  show l: "length ls = length (constants m)" using shaped_length[OF assms(1)] assms(2) by simp
  show "payloads (put_locations ls m) ts = map2 (\<lambda>p l. (with_weight (fst p) l, snd p)) (payloads m ts) ls"
    using l assms(2) by (simp add: constants_put_locations list_eq_iff_nth_eq)
qed

lemma shaped_same_length:
  assumes "shaped path (payloads m ts) ls" "shaped path (payloads m ts) ls'" "length ts = length (constants m)"
  shows "length (SerializeModel ord iq iv (put_locations ls' m)) = length (SerializeModel ord iq iv (put_locations ls m))"
proof -
  have l: "length ls = length (constants m)" "length ls' = length (constants m)"
    using shaped_length[OF assms(1)] shaped_length[OF assms(2)] assms(3) by simp_all
  have "list_all2 same_strings ls ls'"
  proof (rule list_all2_all_nthI)
    fix i
    assume i: "i < length ls"
    obtain a where a: "ls ! i = location_of path (constants m ! i) a (m_memory_size (ts ! i))"
      using assms(1,3) i l by (auto simp: shaped_def dest!: list_all2_nthD2[where p = i])
    obtain b where b: "ls' ! i = location_of path (constants m ! i) b (m_memory_size (ts ! i))"
      using assms(2,3) i l by (auto simp: shaped_def dest!: list_all2_nthD2[where p = i])
    show "same_strings (ls ! i) (ls' ! i)"
      unfolding a b by (simp add: same_strings_def location_of_def)
  qed (simp add: l)
  then have "list_all2 same_strings (map vd_weight (constants (put_locations ls m))) ls'"
    by (simp add: weights_put_locations l)
  from put_locations_length[OF this, of ord iq iv] show ?thesis
    by (simp add: put_locations_absorb l)
qed

lemma save_pass_again:
  assumes "shaped path (payloads m ts) ls" "length ts = length (constants m)"
  shows "save_pass ord w path ts (put_locations ls m) =
    map_option (\<lambda>ls'. put_locations ls' m)
      (place w path (payloads m ts) (AlignUp (header_size + length (SerializeModel ord True True (put_locations ls m))) kWeightAlignment) Map.empty)"
proof -
  note c = shaped_constants[OF assms]
  have "put_locations ls' (put_locations ls m) = put_locations ls' m"
    if "place w path (payloads m ts) off Map.empty = Some ls'" for ls' off
    using place_shaped[OF that] shaped_length[of path "payloads m ts" ls'] assms(2) c(1)
    by (simp add: put_locations_absorb)
  then show ?thesis
    unfolding save_pass_def c(2) place_reweighted[OF assms(1)] Let_def by (auto simp: option.map_comp intro!: option.map_cong)
qed

lemma save_passes_again:
  assumes "shaped path (payloads m ts) ls" "length ts = length (constants m)"
    "save_passes ord w path ts (Suc n) (put_locations ls m) = Some saved"
  shows "\<exists>ls'. saved = put_locations ls' m \<and> shaped path (payloads m ts) ls' \<and>
    place w path (payloads m ts) (AlignUp (header_size + length (SerializeModel ord True True saved)) kWeightAlignment) Map.empty = Some ls'"
  using assms(1,3)
proof (induction n arbitrary: ls)
  case 0
  then obtain ls' where p: "place w path (payloads m ts) (AlignUp (header_size + length (SerializeModel ord True True (put_locations ls m))) kWeightAlignment) Map.empty = Some ls'"
      "saved = put_locations ls' m"
    using save_pass_again[OF 0(1) assms(2)] by (auto split: option.splits)
  then have "shaped path (payloads m ts) ls'" using place_shaped[OF p(1)] by simp
  then show ?case using p shaped_same_length[OF 0(1) _ assms(2), of ls'] by auto
next
  case (Suc n)
  then obtain ls' where p: "place w path (payloads m ts) (AlignUp (header_size + length (SerializeModel ord True True (put_locations ls m))) kWeightAlignment) Map.empty = Some ls'"
      "save_passes ord w path ts (Suc n) (put_locations ls' m) = Some saved"
    using save_pass_again[OF Suc.prems(1) assms(2)] by (auto split: option.splits)
  then have "shaped path (payloads m ts) ls'" using place_shaped[OF p(1)] by simp
  then show ?case using Suc.IH p(2) by blast
qed

lemma save_passes_settle:
  assumes "save_passes ord w path ts 4 m = Some saved" "length ts = length (constants m)"
  shows "\<exists>ls. saved = put_locations ls m \<and> shaped path (payloads m ts) ls \<and>
    place w path (payloads m ts) (AlignUp (header_size + length (SerializeModel ord True True saved)) kWeightAlignment) Map.empty = Some ls"
proof -
  have four: "(4 :: nat) = Suc (Suc (Suc (Suc 0)))" by simp
  obtain ls where p: "place w path (payloads m ts) (AlignUp (header_size + length (SerializeModel ord True True m)) kWeightAlignment) Map.empty = Some ls"
      "save_passes ord w path ts (Suc (Suc (Suc 0))) (put_locations ls m) = Some saved"
    using assms(1) unfolding four save_passes.simps(2)[of _ _ _ _ "Suc (Suc (Suc 0))"] save_pass_def Let_def
    by (auto split: option.splits)
  show ?thesis using save_passes_again[OF _ assms(2) p(2)] place_shaped[OF p(1)] by simp
qed

end
