(* ===== verification/Model_Reload.thy ===== *)
theory Model_Reload
  imports Model_Load
begin

text \<open>
  Loading what was saved: the description is the one that was saved, completed, and every constant is
  given back as a read-only tensor over the bytes it had.
\<close>

section \<open>Collected weights\<close>

definition matches :: "world \<Rightarrow> ValueDesc \<Rightarrow> Tensor \<Rightarrow> bool" where
  "matches w v t \<longleftrightarrow> IsInitialized w t \<and>
     CheckedTensorBytes (td_dims (vd_tensor v)) (td_data_type (vd_tensor v)) = Some (m_memory_size t) \<and>
     m_dims t = td_dims (vd_tensor v) \<and> m_data_type t = td_data_type (vd_tensor v)"

lemma accept_weightE:
  assumes "accept_weight w (vd_tensor v) found = Some t"
  shows "found = Some (Some t)" "matches w v t"
  using assms by (auto simp: accept_weight_def matches_def split: option.splits if_splits)

lemma collect_values_matches:
  assumes "collect_values w weights prefix vs = Some ts"
  shows "list_all2 (\<lambda>v t. matches w v t \<and> lookup_weight weights prefix (vd_name v) = Some (Some t)) (filter vd_constant vs) ts"
  using assms
proof (induction vs arbitrary: ts)
  case (Cons v vs)
  then show ?case
    by (auto split: option.splits if_splits dest: accept_weightE)
qed simp

lemma collect_variants_matches:
  assumes "collect_variants w weights names vs = Some ts"
  shows "list_all2 (matches w) (concat (map (\<lambda>v. filter vd_constant (gd_values (var_graph v))) vs)) ts"
  using assms
proof (induction vs arbitrary: ts names)
  case (Cons v vs)
  then obtain ts1 ts2 where t: "collect_values w weights (var_name v @ ''::'') (gd_values (var_graph v)) = Some ts1"
      "collect_variants w weights (var_name v # names) vs = Some ts2" "ts = ts1 @ ts2"
    by (auto split: option.splits if_splits)
  from collect_values_matches[OF t(1)]
  have "list_all2 (matches w) (filter vd_constant (gd_values (var_graph v))) ts1" by (rule list_all2_mono) simp
  then show ?case using Cons.IH[OF t(2)] t(3) by (auto intro: list_all2_appendI)
qed simp

lemma collect_matches:
  assumes "collect w weights m = Some ts"
  shows "list_all2 (matches w) (constants m) ts"
    and "list_all2 (\<lambda>v t. weights (vd_name v) = Some (Some t)) (filter vd_constant (gd_values (md_graph m)))
      (take (length (filter vd_constant (gd_values (md_graph m)))) ts)"
proof -
  obtain ts1 ts2 where t: "collect_values w weights [] (gd_values (md_graph m)) = Some ts1"
      "collect_variants w weights [] (md_variants m) = Some ts2" "ts = ts1 @ ts2"
    using assms by (auto simp: collect_def split: option.splits)
  note v = collect_values_matches[OF t(1)]
  from v have "list_all2 (matches w) (filter vd_constant (gd_values (md_graph m))) ts1" by (rule list_all2_mono) simp
  then show "list_all2 (matches w) (constants m) ts"
    using collect_variants_matches[OF t(2)] t(3) by (auto simp: constants_def intro: list_all2_appendI)
  from v have "list_all2 (\<lambda>v t. weights (vd_name v) = Some (Some t)) (filter vd_constant (gd_values (md_graph m))) ts1"
    by (rule list_all2_mono) (simp add: lookup_weight_def split: option.splits)
  then show "list_all2 (\<lambda>v t. weights (vd_name v) = Some (Some t)) (filter vd_constant (gd_values (md_graph m)))
      (take (length (filter vd_constant (gd_values (md_graph m)))) ts)"
    using list_all2_lengthD[OF v] t(3) by simp
qed

section \<open>The description that is saved can be read\<close>

lemma put_values_good:
  assumes "\<forall>v \<in> set vs. good_value v" "\<forall>l \<in> set ls. good_location l" "length (filter vd_constant vs) \<le> length ls"
  shows "\<forall>v \<in> set (fst (put_values ls vs)). good_value v" "length (fst (put_values ls vs)) = length vs"
  using assms
proof (induction vs arbitrary: ls)
  case (Cons v vs)
  { case 1 then show ?case
      using Cons.IH(1)[of ls] Cons.IH(1)[of "tl ls"]
      by (cases ls) (auto simp: split_beta Let_def good_value_def split: if_splits)
  next
    case 2 then show ?case
      using Cons.IH(2)[of ls] Cons.IH(2)[of "tl ls"] by (cases ls) (auto simp: split_beta Let_def split: if_splits) }
qed simp_all

lemma put_graph_good:
  assumes "good_graph g" "\<forall>l \<in> set ls. good_location l" "length (filter vd_constant (gd_values g)) \<le> length ls"
  shows "good_graph (fst (put_graph ls g))" "snd (put_graph ls g) = drop (length (filter vd_constant (gd_values g))) ls"
  using assms put_values_good[of "gd_values g" ls] put_values_spec(1)[OF assms(3)]
  by (simp_all add: put_graph_def split_beta Let_def good_graph_def good_list_def)

lemma put_variants_good:
  assumes "\<forall>v \<in> set vs. good_variant v" "\<forall>l \<in> set ls. good_location l"
    "length (concat (map (\<lambda>v. filter vd_constant (gd_values (var_graph v))) vs)) \<le> length ls"
  shows "(\<forall>v \<in> set (put_variants ls vs). good_variant v) \<and> map var_name (put_variants ls vs) = map var_name vs"
  using assms
proof (induction vs arbitrary: ls)
  case (Cons v vs)
  let ?n = "length (filter vd_constant (gd_values (var_graph v)))"
  have d: "\<forall>l \<in> set (drop ?n ls). good_location l" using Cons.prems(2) by (auto dest: in_set_dropD)
  have g: "good_graph (var_graph v)" and n: "?n \<le> length ls"
    using Cons.prems by (simp_all add: good_variant_def)
  note pg = put_graph_good[OF g Cons.prems(2) n]
  have "put_variants ls (v # vs) = v\<lparr>var_graph := fst (put_graph ls (var_graph v))\<rparr> # put_variants (drop ?n ls) vs"
    by (simp add: split_beta Let_def pg(2))
  moreover have "good_variant (v\<lparr>var_graph := fst (put_graph ls (var_graph v))\<rparr>)"
    using Cons.prems(1) pg(1) by (simp add: good_variant_def)
  moreover have "(\<forall>v \<in> set (put_variants (drop ?n ls) vs). good_variant v) \<and>
      map var_name (put_variants (drop ?n ls) vs) = map var_name vs"
    using Cons.prems(1,3) by (intro Cons.IH d) simp_all
  ultimately show ?case by simp
qed simp

lemma put_locations_good:
  assumes "good_model m" "\<forall>l \<in> set ls. good_location l" "length ls = length (constants m)"
  shows "good_model (put_locations ls m)"
proof -
  let ?n = "length (filter vd_constant (gd_values (md_graph m)))"
  have g: "good_graph (md_graph m)" and n: "?n \<le> length ls"
    using assms by (simp_all add: good_model_def constants_def)
  have "\<forall>l \<in> set (drop ?n ls). good_location l" using assms(2) by (auto dest: in_set_dropD)
  moreover have "\<forall>v \<in> set (md_variants m). good_variant v" using assms(1) by (simp add: good_model_def good_list_def)
  moreover have "length (concat (map (\<lambda>v. filter vd_constant (gd_values (var_graph v))) (md_variants m))) \<le> length (drop ?n ls)"
    using assms(3) by (simp add: constants_def)
  ultimately have v: "\<forall>v \<in> set (put_variants (drop ?n ls) (md_variants m)). good_variant v"
      "map var_name (put_variants (drop ?n ls) (md_variants m)) = map var_name (md_variants m)"
    using put_variants_good by blast+
  from arg_cong[OF v(2), of length] have "length (put_variants (drop ?n ls) (md_variants m)) = length (md_variants m)" by simp
  with v assms(1) put_graph_good[OF g assms(2) n] show ?thesis
    by (simp add: good_model_def put_locations_def split_beta Let_def good_list_def)
qed

lemma shaped_good:
  assumes "shaped path (payloads m ts) ls" "list_all2 (matches w) (constants m) ts" "good_model m" "good_string path"
  shows "\<forall>l \<in> set ls. good_location l"
proof
  fix l
  assume "l \<in> set ls"
  then obtain i where i: "i < length ls" "l = ls ! i" by (auto simp: in_set_conv_nth)
  have len: "length ls = length (constants m)" "length ts = length (constants m)"
    using shaped_length[OF assms(1)] list_all2_lengthD[OF assms(2)] by simp_all
  let ?v = "constants m ! i" and ?t = "ts ! i"
  obtain off where l: "l = location_of path ?v off (m_memory_size ?t)" "off \<le> SIZE_MAX"
    using assms(1) i len by (auto simp: shaped_def dest!: list_all2_nthD2[where p = i])
  have "?v \<in> set (constants m)" using i len by simp
  then have "good_value ?v"
    using assms(3) by (auto simp: constants_def good_model_def good_graph_def good_list_def good_variant_def)
  moreover have "m_memory_size ?t \<le> SIZE_MAX"
    using list_all2_nthD[OF assms(2), of i] i len by (auto simp: matches_def dest: CheckedTensorBytes_bound)
  ultimately show "good_location l"
    using l assms(4) by (simp add: good_location_def location_of_def good_value_def good_tensor_def good_u64_def SIZE_MAX_def)
qed

section \<open>Views of the mapped file\<close>

definition view_of :: "world \<Rightarrow> nat \<Rightarrow> nat \<Rightarrow> TensorDesc \<Rightarrow> world \<Rightarrow> Tensor \<Rightarrow> bool" where
  "view_of w a n desc w' t \<longleftrightarrow> mem w' = mem w \<and> m_dims t = td_dims desc \<and> m_data_type t = td_data_type desc \<and>
     m_layout t = td_layout desc \<and> m_immutable t \<and> m_memory_size t = n \<and>
     tensor_bytes w' t n = Some (mem_read (mem w) a n)"

lemma view_tensor_fields:
  "m_dims (view_tensor d) = td_dims d" "m_data_type (view_tensor d) = td_data_type d" "m_layout (view_tensor d) = td_layout d"
  by (simp_all add: view_tensor_def set_quantization_form empty_Tensor_def)

definition ready :: "string \<Rightarrow> nat \<Rightarrow> nat \<Rightarrow> ValueDesc \<Rightarrow> bool" where
  "ready path start n v \<longleftrightarrow> wl_shard_path (vd_weight v) = path \<and> start \<le> wl_offset (vd_weight v) \<and>
     CheckedTensorBytes (td_dims (vd_tensor v)) (td_data_type (vd_tensor v)) = Some (wl_byte_size (vd_weight v)) \<and>
     wl_offset (vd_weight v) + wl_byte_size (vd_weight v) \<le> n \<and> wl_offset (vd_weight v) \<le> SIZE_MAX"

lemma CreateTensorView_ready:
  assumes "ready path start n v" "st path = Some (base, n)"
  shows "\<exists>w' t. CreateTensorView os (vd_tensor v) (vd_weight v) st w = (st, Some (w', t)) \<and>
    view_of w (base + wl_offset (vd_weight v)) (wl_byte_size (vd_weight v)) (vd_tensor v) w' t"
proof -
  let ?l = "vd_weight v" and ?d = "vd_tensor v"
  let ?w1 = "w\<lparr>buffers := buffers w @ [\<lparr>b_data = base + wl_offset ?l, b_size = wl_byte_size ?l, b_read_only = True\<rparr>]\<rparr>"
  let ?b = "length (buffers w)"
  let ?w2 = "fst (new_Storage (Some ?b) COMMON 0 ?w1)" and ?s = "length (storages w)"
  let ?t = "(view_tensor ?d)\<lparr>m_storage := Some ?s, m_memory_size := wl_byte_size ?l, m_offset := 0, m_immutable := True\<rparr>"
  have c: "CheckedTensorBytes (td_dims ?d) (td_data_type ?d) = Some (wl_byte_size ?l)" using assms(1) by (simp add: ready_def)
  have s: "st (wl_shard_path ?l) = Some (base, n)" using assms by (simp add: ready_def)
  have b: "wl_byte_size ?l \<le> SIZE_MAX" by (rule CheckedTensorBytes_bound[OF c])
  have r: "\<not> wl_offset ?l > SIZE_MAX" "\<not> wl_offset ?l > n" "\<not> wl_byte_size ?l > n - wl_offset ?l"
    using assms(1) by (auto simp: ready_def)
  have w2: "mem ?w2 = mem w" "buffers ?w2 = buffers ?w1"
    "st_capacity (storages ?w2 ! ?s) = wl_byte_size ?l" "st_buffer (storages ?w2 ! ?s) = Some ?b" "snd (new_Storage (Some ?b) COMMON 0 ?w1) = ?s"
    by (simp_all add: new_Storage_def MarkMutated_def Let_def)
  have "ResetBuffer ?b (wl_byte_size ?l) 0 (view_tensor ?d) ?w1 =
      Some (?w2, (view_tensor ?d)\<lparr>m_storage := Some ?s, m_memory_size := wl_byte_size ?l, m_offset := 0\<rparr>)"
    using w2 by (simp add: ResetBuffer_def ResetStorage_def storage_size_def split_beta Let_def)
  then have "CreateTensorView os ?d ?l st w = (st, Some (?w2, ?t))"
    using b r by (simp add: CreateTensorView_def c s GetOrOpenShard_def wrap_buffer_def Let_def)
  moreover have "view_of w (base + wl_offset ?l) (wl_byte_size ?l) ?d ?w2 ?t"
    using w2 by (simp add: view_of_def view_tensor_fields tensor_bytes_def)
  ultimately show ?thesis by blast
qed

section \<open>Loading a saved file\<close>

lemma validate_values_ready:
  assumes "\<forall>v \<in> set vs. vd_constant v \<longrightarrow> ready path start n v" "st path = Some (base, n)"
  shows "\<exists>w'. validate_values os path start vs st w = (w', Some (vs, st)) \<and> mem w' = mem w"
  using assms(1)
proof (induction vs arbitrary: w)
  case (Cons v vs)
  show ?case
  proof (cases "vd_constant v")
    case True
    then have r: "ready path start n v" using Cons.prems by simp
    then have same: "v\<lparr>vd_weight := (vd_weight v)\<lparr>wl_shard_path := path\<rparr>\<rparr> = v" by (simp add: ready_def)
    have off: "\<not> wl_offset (vd_weight v) < start" using r by (simp add: ready_def)
    obtain w1 t where c: "CreateTensorView os (vd_tensor v) (vd_weight v) st w = (st, Some (w1, t))" "mem w1 = mem w"
      using CreateTensorView_ready[of path start n v st base os w, OF r assms(2)] by (auto simp: view_of_def)
    obtain w2 where "validate_values os path start vs st w1 = (w2, Some (vs, st))" "mem w2 = mem w1"
      using Cons.IH[of w1] Cons.prems by auto
    then show ?thesis using True c off by (simp add: same Let_def)
  next
    case False
    then show ?thesis using Cons.IH[of w] Cons.prems by auto
  qed
qed simp

lemma validate_graph_ready:
  assumes "\<forall>v \<in> set (gd_values g). vd_constant v \<longrightarrow> ready path start n v" "st path = Some (base, n)"
  shows "\<exists>w'. validate_graph os path start g st w = (w', Some (g, st)) \<and> mem w' = mem w"
  using validate_values_ready[of "gd_values g" path start n st base os w, OF assms] by (auto simp: validate_graph_def)

lemma validate_variants_ready:
  assumes "\<forall>v \<in> set (concat (map (\<lambda>v. gd_values (var_graph v)) vs)). vd_constant v \<longrightarrow> ready path start n v" "st path = Some (base, n)"
  shows "\<exists>w'. validate_variants os path start vs st w = (w', Some (vs, st)) \<and> mem w' = mem w"
  using assms(1)
proof (induction vs arbitrary: w)
  case (Cons v vs)
  have g: "\<forall>x \<in> set (gd_values (var_graph v)). vd_constant x \<longrightarrow> ready path start n x" using Cons.prems by simp
  obtain w1 where "validate_graph os path start (var_graph v) st w = (w1, Some (var_graph v, st))" "mem w1 = mem w"
    using validate_graph_ready[of "var_graph v" path start n st base os w, OF g assms(2)] by blast
  moreover obtain w2 where "validate_variants os path start vs st w1 = (w2, Some (vs, st))" "mem w2 = mem w1"
    using Cons.IH[of w1] Cons.prems by auto
  ultimately show ?case by (simp add: Let_def)
qed simp

lemma constants_kept: "constants (kept_model iq iv m) = map (kept_value iq iv) (constants m)"
  by (simp add: constants_def kept_model_def kept_graph_def kept_variant_def filter_map comp_def map_concat kept_value_def)

lemma ready_kept: "ready path start n (kept_value iq iv v) = ready path start n v"
  by (simp add: ready_def kept_value_def kept_tensor_def)

lemma Load_written:
  assumes "traverses ord" "good_model m" "\<forall>v \<in> set (constants m). ready path (header_size + length (SerializeModel ord True True m)) (length bs) v"
    and bs: "bs = header_bytes \<lparr>fh_magic = kMagic, fh_version = kFormatVersion, fh_reserved = 0,
        fh_metadata_size = length (SerializeModel ord True True m)\<rparr> @ SerializeModel ord True True m @ rest"
    and limit: "length (SerializeModel ord True True m) \<le> kMaxMetadataBytes"
    and "fs path = Some bs" "os path = Some (base, length bs)"
  shows "\<exists>v'. Load os fs path loader v = Some (v', \<lparr>ml_path = path, ml_model = kept_model True True m,
      ml_weight_store = [path \<mapsto> (base, length bs)]\<rparr>, True) \<and> mem v' = mem v"
proof -
  let ?meta = "SerializeModel ord True True m"
  let ?h = "\<lparr>fh_magic = kMagic, fh_version = kFormatVersion, fh_reserved = 0, fh_metadata_size = length ?meta\<rparr>"
  let ?start = "header_size + length ?meta" and ?st = "[path \<mapsto> (base, length bs)]"
  let ?k = "kept_model True True m"
  have h: "parse_header bs = ?h"
    unfolding bs using limit by (intro parse_header_bytes) (simp_all add: kFormatVersion_def kMaxMetadataBytes_def)
  have len: "length bs = header_size + length ?meta + length rest" unfolding bs by simp
  have meta: "take (length ?meta) (drop header_size bs) = ?meta"
    unfolding bs using length_header_bytes[of ?h] by simp
  have d: "DeserializeModel True True True True ?meta = Accept ?k []"
    using codec.whole[OF model_codec[OF assms(1)] assms(2), of True True] by (simp add: DeserializeModel_Accept)
  have ok: "header_accepted ?h (length bs)"
    using limit len by (simp add: header_accepted_def kFormatVersion_def)
  have "header_size \<noteq> 0" by (simp add: header_size_def)
  then have shard: "GetOrOpenShard os path Map.empty = Some (?st, base, length bs)"
    using assms(7) len by (simp add: GetOrOpenShard_def Open_def)
  have r: "\<forall>v \<in> set (constants ?k). ready path ?start (length bs) v"
    using assms(3) by (auto simp: constants_kept ready_kept)
  then have rg: "\<forall>v \<in> set (gd_values (md_graph ?k)). vd_constant v \<longrightarrow> ready path ?start (length bs) v"
    and rv: "\<forall>v \<in> set (concat (map (\<lambda>v. gd_values (var_graph v)) (md_variants ?k))). vd_constant v \<longrightarrow> ready path ?start (length bs) v"
    unfolding constants_def by auto
  obtain v1 where v1: "validate_graph os path ?start (md_graph ?k) ?st v = (v1, Some (md_graph ?k, ?st))" "mem v1 = mem v"
    using validate_graph_ready[of "md_graph ?k" path ?start "length bs" ?st base os v, OF rg] by auto
  obtain v2 where v2: "validate_variants os path ?start (md_variants ?k) ?st v1 = (v2, Some (md_variants ?k, ?st))" "mem v2 = mem v1"
    using validate_variants_ready[of "md_variants ?k" path ?start "length bs" ?st base os v1, OF rv] by auto
  show ?thesis
    using v1 v2 h ok meta d shard len assms(6)
    by (simp add: Load_def Let_def kFormatVersion_def[symmetric]) (simp add: kFormatVersion_def)
qed

section \<open>What a saved file gives back\<close>

lemma put_values_keeps:
  "length (filter vd_constant vs) \<le> length ls \<Longrightarrow>
   map (\<lambda>v. (vd_tensor v, vd_constant v)) (fst (put_values ls vs)) = map (\<lambda>v. (vd_tensor v, vd_constant v)) vs"
proof (induction vs arbitrary: ls)
  case (Cons v vs)
  then show ?case
    using Cons.IH[of ls] Cons.IH[of "tl ls"] by (cases ls) (auto simp: split_beta Let_def split: if_splits)
qed simp

lemma written_prefix: "\<exists>rest. fst (write_payloads w ps c written out) = out @ rest"
proof (induction ps arbitrary: c written out)
  case (Cons p ps)
  obtain l t where p: "p = (l, t)" by (cases p)
  have ih: "\<exists>rest. fst (write_payloads w ps c wr (out @ e)) = out @ rest" for c wr e
    using Cons.IH[of c wr "out @ e"] by auto
  show ?case unfolding p by (auto intro: ih Cons.IH)
qed simp

lemma Save_file:
  assumes "Save ord dk path m weights w fs = (w', fs', True)" "fs' path = Some bs" "length bs \<le> SIZE_MAX"
    "fh_metadata_size (parse_header bs) \<le> kMaxMetadataBytes"
  shows "\<exists>ts ls rest. collect w weights m = Some ts \<and> shaped path (payloads m ts) ls \<and>
    length (SerializeModel ord True True (put_locations ls m)) \<le> kMaxMetadataBytes \<and>
    bs = header_bytes \<lparr>fh_magic = kMagic, fh_version = kFormatVersion, fh_reserved = 0,
        fh_metadata_size = length (SerializeModel ord True True (put_locations ls m))\<rparr>
      @ SerializeModel ord True True (put_locations ls m) @ rest \<and>
    list_all2 (settled w' path (header_size + length (SerializeModel ord True True (put_locations ls m))) bs) (payloads m ts) ls"
proof -
  obtain ts where ts: "collect w weights m = Some ts" using assms(1) by (auto simp: Save_def split: option.splits)
  have len: "length ts = length (constants m)" using list_all2_lengthD[OF collect_matches(1)[OF ts]] by simp
  obtain saved where s: "save_passes ord (touch ts w) path ts 4 m = Some saved"
    using assms(1) ts by (auto simp: Save_def Let_def split: option.splits)
  obtain ls where ls: "saved = put_locations ls m" "shaped path (payloads m ts) ls"
    "place (touch ts w) path (payloads m ts) (AlignUp (header_size + length (SerializeModel ord True True saved)) kWeightAlignment) Map.empty = Some ls"
    using save_passes_settle[OF s len] by blast
  let ?meta = "SerializeModel ord True True saved"
  let ?h = "\<lparr>fh_magic = kMagic, fh_version = kFormatVersion, fh_reserved = 0, fh_metadata_size = length ?meta\<rparr>"
  let ?start = "header_size + length ?meta"
  have "length ls = length (constants m)" using shaped_length[OF ls(2)] len by simp
  then have w: "zip (map vd_weight (constants saved)) ts = zip ls (map snd (payloads m ts))"
    using len by (simp add: ls(1) weights_put_locations)
  have f: "file_bytes (touch ts w) ?meta (zip ls (map snd (payloads m ts))) = (bs, True)" and w': "w' = touch ts w"
    using assms(1,2) ts s w by (auto simp: Save_def Let_def split_beta split: if_splits intro: prod_eqI)
  obtain rest where rest: "bs = header_bytes ?h @ ?meta @ rest"
    using f written_prefix[of "touch ts w" _ ?start "{}" "header_bytes ?h @ ?meta"]
    by (simp add: file_bytes_def Let_def) (metis append.assoc fst_conv)
  then have "length ?meta < 2 ^ 64" using assms(3) by (simp add: SIZE_MAX_def)
  then have "parse_header bs = ?h" unfolding rest by (intro parse_header_bytes) (simp_all add: kFormatVersion_def)
  with assms(4) have limit: "length ?meta \<le> kMaxMetadataBytes" by simp
  let ?s = "\<lparr>ws_offset = AlignUp ?start kWeightAlignment, ws_locations = Map.empty, ws_written = {}, ws_out = header_bytes ?h @ ?meta\<rparr>"
  have "?start + 63 < 2 ^ 64" using limit by (simp add: header_size_def kMaxMetadataBytes_def)
  then have inv: "write_inv (touch ts w) ?start ?s"
    using AlignUp_64[of ?start] by (simp add: write_inv_def kWeightAlignment_def)
  have "place (touch ts w) path (payloads m ts) (ws_offset ?s) (ws_locations ?s) = Some ls" using ls(3) by simp
  from place_write[OF this inv] obtain ext where e:
    "write_payloads (touch ts w) (zip ls (map snd (payloads m ts))) ?start {} (header_bytes ?h @ ?meta) = ((header_bytes ?h @ ?meta) @ ext, True)"
    "list_all2 (settled (touch ts w) path ?start ((header_bytes ?h @ ?meta) @ ext)) (payloads m ts) ls"
    by auto
  have "bs = (header_bytes ?h @ ?meta) @ ext" using f e(1) by (simp add: file_bytes_def Let_def)
  then show ?thesis using ts ls(1,2) limit e(2) w' rest by (intro exI[of _ ts] exI[of _ ls] exI[of _ ext]) auto
qed

lemma mem_read_mapped: "mem_read (mem (w\<lparr>mem := mem_write m a bs\<rparr>)) a (length bs) = bs"
  by (simp add: mem_read_write_same)

lemma mem_read_part: "off + n \<le> N \<Longrightarrow> take n (drop off (mem_read m a N)) = mem_read m (a + off) n"
  by (rule nth_equalityI) (simp_all add: add.assoc)

lemma find_map_value: "find P (map f xs) = map_option f (find (P \<circ> f) xs)"
  by (induction xs) simp_all

lemma FindValue_distinct:
  assumes "distinct (map vd_name vs)" "x \<in> set vs"
    "map (\<lambda>v. (vd_tensor v, vd_constant v)) vs' = map (\<lambda>v. (vd_tensor v, vd_constant v)) vs"
  shows "\<exists>y \<in> set vs'. find (\<lambda>v. vd_name v = vd_name x) vs' = Some y \<and> vd_tensor y = vd_tensor x \<and> vd_constant y = vd_constant x"
proof -
  have pairs: "\<exists>u \<in> set vs. vd_tensor u = vd_tensor y \<and> vd_constant u = vd_constant y" if "y \<in> set vs'" for y
  proof -
    have "(vd_tensor y, vd_constant y) \<in> set (map (\<lambda>v. (vd_tensor v, vd_constant v)) vs)"
      unfolding assms(3)[symmetric] using that by simp
    then show ?thesis by auto
  qed
  have "(vd_tensor x, vd_constant x) \<in> set (map (\<lambda>v. (vd_tensor v, vd_constant v)) vs')"
    unfolding assms(3) using assms(2) by simp
  then have "\<exists>y \<in> set vs'. vd_name y = vd_name x" by auto
  then obtain y where y: "find (\<lambda>v. vd_name v = vd_name x) vs' = Some y"
    by (cases "find (\<lambda>v. vd_name v = vd_name x) vs'") (auto simp: find_None_iff)
  then have n: "y \<in> set vs'" "vd_name y = vd_name x" by (auto simp: find_Some_iff)
  obtain u where u: "u \<in> set vs" "vd_tensor u = vd_tensor y" "vd_constant u = vd_constant y" using pairs[OF n(1)] by blast
  have "inj_on vd_name (set vs)" using assms(1) by (simp add: distinct_map)
  then have "u = x" using u n(2) assms(2) by (auto dest: inj_onD[of vd_name "set vs" u x])
  with u n y show ?thesis by auto
qed

lemma FindValue_kept: "FindValue (kept_model iq iv m) n = map_option (kept_value iq iv) (FindValue m n)"
proof -
  have "(\<lambda>v. vd_name v = n) \<circ> kept_value iq iv = (\<lambda>v. vd_name v = n)"
    by (simp add: fun_eq_iff kept_value_def kept_tensor_def)
  then show ?thesis by (simp add: FindValue_def kept_model_def kept_graph_def find_map_value)
qed

text \<open>A constant of the main graph is found under its name, at its place in the order of payloads.\<close>

lemma saved_constant:
  assumes "length ls = length (constants m)" "distinct (map vd_name (gd_values (md_graph m)))"
    "x \<in> set (gd_values (md_graph m))" "vd_constant x"
  shows "\<exists>i < length (filter vd_constant (gd_values (md_graph m))).
    filter vd_constant (gd_values (md_graph m)) ! i = x \<and> constants m ! i = x \<and> i < length (constants m) \<and>
    FindValue (put_locations ls m) (vd_name x) = Some (with_weight x (ls ! i))"
proof -
  let ?vs = "gd_values (md_graph m)" and ?vs' = "gd_values (md_graph (put_locations ls m))"
  let ?c = "filter vd_constant ?vs"
  have n: "length ?c \<le> length ls" using assms(1) by (simp add: constants_def)
  have vs': "?vs' = fst (put_values ls ?vs)" by (simp add: put_locations_def put_graph_def split_beta Let_def)
  have keep: "map (\<lambda>v. (vd_tensor v, vd_constant v)) ?vs' = map (\<lambda>v. (vd_tensor v, vd_constant v)) ?vs"
    unfolding vs' by (rule put_values_keeps[OF n])
  obtain y where y: "y \<in> set ?vs'" "find (\<lambda>v. vd_name v = vd_name x) ?vs' = Some y" "vd_tensor y = vd_tensor x" "vd_constant y"
    using FindValue_distinct[OF assms(2,3) keep] assms(4) by auto
  have "y \<in> set (filter vd_constant ?vs')" using y by simp
  then obtain i where i: "i < length ?c" "y = with_weight (?c ! i) (ls ! i)"
    using n unfolding vs' put_values_spec(2)[OF n] by (auto simp: in_set_conv_nth)
  have "?c ! i \<in> set ?vs" "vd_name (?c ! i) = vd_name x"
    using nth_mem[OF i(1)] i(2) y(3) by (auto dest: arg_cong[where f = vd_tensor])
  then have cx: "?c ! i = x" using assms(2,3) by (auto simp: distinct_map dest: inj_onD)
  have "constants m ! i = x" "i < length (constants m)"
    using i(1) cx by (simp_all add: constants_def nth_append)
  then show ?thesis using i cx y(2) by (auto simp: FindValue_def)
qed

text \<open>
  C31: A saved model comes back.  When \<open>Save\<close> reported success and the metadata is within the limit
  of the reader, \<open>Load\<close> accepts the file, the loaded description is the saved one, completed, with
  the weights' places filled in, and every constant of the main graph is given back as an immutable
  tensor of the same shape and type over exactly the bytes the weight had, whatever weights share
  memory and wherever the file is mapped.  Of the weights of the variant graphs nothing is said.
\<close>

theorem Save_Load_weights:
  assumes "traverses ord" "good_model m" "good_string path"
    and "Save ord dk path m weights w fs = (w', fs', True)"
    and "fs' path = Some bs" "length bs \<le> SIZE_MAX" "fh_metadata_size (parse_header bs) \<le> kMaxMetadataBytes"
    and "os path = Some (base, length bs)" "mem_read (mem v) base (length bs) = bs"
    and "distinct (map vd_name (gd_values (md_graph m)))"
    and "x \<in> set (gd_values (md_graph m))" "vd_constant x" "weights (vd_name x) = Some (Some t)"
  shows "\<exists>v' loader' ls store v'' t'. Load os fs' path loader v = Some (v', loader', True) \<and>
     ml_model loader' = kept_model True True (put_locations ls m) \<and>
     CreateWeightTensor os (vd_name x) loader' v' = (store, Some (v'', t')) \<and>
     tensor_bytes v'' t' (m_memory_size t) = Some (weight_bytes w' t) \<and>
     m_dims t' = m_dims t \<and> m_data_type t' = m_data_type t \<and> m_memory_size t' = m_memory_size t \<and> m_immutable t'"
proof -
  obtain ts ls rest where f: "collect w weights m = Some ts" "shaped path (payloads m ts) ls"
    and limit: "length (SerializeModel ord True True (put_locations ls m)) \<le> kMaxMetadataBytes"
    and bs: "bs = header_bytes \<lparr>fh_magic = kMagic, fh_version = kFormatVersion, fh_reserved = 0,
        fh_metadata_size = length (SerializeModel ord True True (put_locations ls m))\<rparr>
      @ SerializeModel ord True True (put_locations ls m) @ rest"
    and settled: "list_all2 (settled w' path (header_size + length (SerializeModel ord True True (put_locations ls m))) bs) (payloads m ts) ls"
    using Save_file[OF assms(4-7)] by blast
  let ?saved = "put_locations ls m" and ?st = "[path \<mapsto> (base, length bs)]"
  let ?start = "header_size + length (SerializeModel ord True True ?saved)"
  note c = collect_matches[OF f(1)]
  have len: "length ts = length (constants m)" "length ls = length (constants m)"
    using list_all2_lengthD[OF c(1)] shaped_length[OF f(2)] by simp_all
  have good: "good_model ?saved"
    by (rule put_locations_good[OF assms(2) shaped_good[OF f(2) c(1) assms(2,3)] len(2)])
  have each: "ready path ?start (length bs) (with_weight (constants m ! i) (ls ! i)) \<and>
      wl_byte_size (ls ! i) = m_memory_size (ts ! i) \<and> matches w (constants m ! i) (ts ! i) \<and>
      take (m_memory_size (ts ! i)) (drop (wl_offset (ls ! i)) bs) = weight_bytes w' (ts ! i)"
    if "i < length (constants m)" for i
  proof -
    have "settled w' path ?start bs (payloads m ts ! i) (ls ! i)"
      using settled that len by (simp add: list_all2_conv_all_nth)
    moreover have "matches w (constants m ! i) (ts ! i)" using list_all2_nthD[OF c(1) that] .
    ultimately show ?thesis
      using that len by (auto simp: settled_def placed_def ready_def location_of_def matches_def)
  qed
  have cs: "constants ?saved = map2 with_weight (constants m) ls" by (rule constants_put_locations[OF len(2)])
  then have rdy: "\<forall>v \<in> set (constants ?saved). ready path ?start (length bs) v"
    using each len by (auto simp: in_set_conv_nth)
  obtain v' where load: "Load os fs' path loader v = Some (v', \<lparr>ml_path = path, ml_model = kept_model True True ?saved,
      ml_weight_store = ?st\<rparr>, True)" "mem v' = mem v"
    using Load_written[OF assms(1) good rdy bs limit, where fs = fs' and os = os and base = base and loader = loader and v = v]
      assms(5,8) by blast
  obtain i where i: "i < length (filter vd_constant (gd_values (md_graph m)))" "filter vd_constant (gd_values (md_graph m)) ! i = x"
      "constants m ! i = x" "i < length (constants m)" "FindValue ?saved (vd_name x) = Some (with_weight x (ls ! i))"
    using saved_constant[OF len(2) assms(10-12)] by blast
  define y where yx: "y = with_weight x (ls ! i)"
  have t: "ts ! i = t" using list_all2_nthD[OF c(2) i(1)] i(1,2) assms(13) by simp
  note a = each[OF i(4), unfolded i(3) t, folded yx]
  have "ready path ?start (length bs) (kept_value True True y)" using a by (simp add: ready_kept)
  then obtain v'' t' where view: "CreateTensorView os (vd_tensor (kept_value True True y)) (vd_weight (kept_value True True y)) ?st v' = (?st, Some (v'', t'))"
    "view_of v' (base + wl_offset (vd_weight (kept_value True True y))) (wl_byte_size (vd_weight (kept_value True True y))) (vd_tensor (kept_value True True y)) v'' t'"
    using CreateTensorView_ready[of path ?start "length bs" "kept_value True True y" ?st base os v'] by auto
  have wy: "vd_weight (kept_value True True y) = ls ! i" "vd_constant (kept_value True True y)"
    using yx assms(12) by (simp_all add: kept_value_def)
  have find: "FindValue (kept_model True True ?saved) (vd_name x) = Some (kept_value True True y)"
    by (simp add: FindValue_kept i(5) yx)
  have off_ok: "wl_offset (ls ! i) + m_memory_size t \<le> length bs"
    using a yx by (auto simp: ready_def)
  have "mem_read (mem v) (base + wl_offset (ls ! i)) (m_memory_size t) = weight_bytes w' t"
    using a mem_read_part[OF off_ok, of "mem v" base] assms(9) by simp
  then have "tensor_bytes v'' t' (m_memory_size t) = Some (weight_bytes w' t)"
    using view(2) a load(2) by (simp add: view_of_def wy)
  moreover have "m_dims t' = m_dims t" "m_data_type t' = m_data_type t" "m_memory_size t' = m_memory_size t" "m_immutable t'"
    using view(2) a yx wy(1) by (simp_all add: view_of_def matches_def kept_value_def kept_tensor_def)
  moreover have "CreateWeightTensor os (vd_name x) \<lparr>ml_path = path, ml_model = kept_model True True ?saved, ml_weight_store = ?st\<rparr> v' =
      (\<lparr>ml_path = path, ml_model = kept_model True True ?saved, ml_weight_store = ?st\<rparr>, Some (v'', t'))"
    using view(1) find wy(2) by (simp add: CreateWeightTensor_def)
  ultimately show ?thesis using load(1) by (intro exI conjI) (assumption | simp)+
qed


text \<open>A model with one weight, the upper half of the heap with one buffer.\<close>

definition weight_desc :: TensorDesc where
  "weight_desc = \<lparr>td_name = ''w'', td_dims = [4], td_data_type = UINT8, td_layout = ND, td_quantization = default_quantization\<rparr>"

definition weight_model :: "WeightLocation \<Rightarrow> ModelDesc" where
  "weight_model l = \<lparr>md_name = ''m'', md_version = 1,
     md_graph = \<lparr>gd_name = ''g'', gd_inputs = [], gd_outputs = [''w''],
       gd_values = [\<lparr>vd_tensor = weight_desc, vd_constant = True, vd_weight = l\<rparr>], gd_nodes = []\<rparr>,
     md_metadata = Map.empty, md_variants = []\<rparr>"

definition no_location :: WeightLocation where
  "no_location = \<lparr>wl_tensor_name = [], wl_shard_path = [], wl_offset = 0, wl_byte_size = 0, wl_checksum = []\<rparr>"

definition weight_tensor :: Tensor where
  "weight_tensor = window_tensor\<lparr>m_dims := [4], m_data_type := UINT8\<rparr>"

definition good_disk :: disk where
  "good_disk = \<lparr>dk_opens = (\<lambda>_. True), dk_writes = (\<lambda>_. True), dk_torn = []\<rparr>"

lemma weight_model_simps:
  "constants (weight_model l) = [\<lparr>vd_tensor = weight_desc, vd_constant = True, vd_weight = l\<rparr>]"
  "put_locations [l'] (weight_model l) = weight_model l'"
  by (simp_all add: constants_def weight_model_def put_locations_def put_graph_def)

lemma weight_model_length: "length (SerializeModel sorted_keys True True (weight_model l)) = 162 + length (WriteWeightLocation l)"
  by (simp add: SerializeModel_def weight_model_def WriteGraphDesc_def WriteStringVector_def WriteVector_def
    WriteValueDesc_def WriteTensorDesc_def WriteQuantization_def WriteMetadata_def sorted_keys_def WriteString_def
    write_u64_def write_i64_def write_i32_def write_f32_def write_bool_def weight_desc_def default_quantization_def)

lemma good_weight_model: "good_model (weight_model no_location)"
  by (simp add: weight_model_def weight_desc_def no_location_def good_model_def good_graph_def good_list_def
    good_attributes_def good_value_def good_tensor_def good_location_def good_quantization_def
    default_quantization_def good_string_def good_i64_def good_i32_def good_u64_def SIZE_MAX_def
    kMaxCollectionSize_def INT64_MIN_def INT64_MAX_def)

lemma collect_weight_model:
  "collect (one_buffer_heap False) [''w'' \<mapsto> Some weight_tensor] (weight_model l) = Some [weight_tensor]"
  by (simp add: collect_def weight_model_def lookup_weight_def weight_desc_def accept_weight_def weight_tensor_def
    window_tensor_def IsInitialized_def available_def one_buffer_heap_def CheckedTensorBytes_def CheckedByteCount_def
    CheckedElementCount_spec mul64_def SIZE_MAX_def INT64_MAX_def empty_Tensor_def)

lemma weight_location_length:
  "length (WriteWeightLocation (location_of ''p'' \<lparr>vd_tensor = weight_desc, vd_constant = True, vd_weight = l\<rparr> off n)) =
     42 + length (wl_checksum l)"
  by (simp add: WriteWeightLocation_def location_of_def weight_desc_def WriteString_def write_u64_def)

lemma save_pass_weight_model:
  assumes "length (WriteWeightLocation l) \<le> 100"
  shows "save_pass sorted_keys w ''p'' [weight_tensor] (weight_model l) =
    Some (weight_model (location_of ''p'' \<lparr>vd_tensor = weight_desc, vd_constant = True, vd_weight = l\<rparr>
      (AlignUp (header_size + (162 + length (WriteWeightLocation l))) 64) 4))"
proof -
  let ?off = "AlignUp (header_size + (162 + length (WriteWeightLocation l))) 64"
  have "?off \<le> header_size + (162 + length (WriteWeightLocation l)) + 63"
    using assms by (intro AlignUp_64) (simp add: header_size_def)
  then have "\<not> overflows ?off 4"
    using assms by (simp add: overflows_def kWeightAlignment_def SIZE_MAX_def header_size_def)
  then show ?thesis
    by (simp add: save_pass_def weight_model_simps weight_model_length kWeightAlignment_def Let_def
      weight_tensor_def window_tensor_def)
qed

definition final_location :: WeightLocation where
  "final_location = location_of ''p'' \<lparr>vd_tensor = weight_desc, vd_constant = True, vd_weight = no_location\<rparr> 256 4"

lemma save_passes_weight_model:
  "save_passes sorted_keys w ''p'' [weight_tensor] 4 (weight_model no_location) = Some (weight_model final_location)"
proof -
  let ?v = "\<lambda>l. \<lparr>vd_tensor = weight_desc, vd_constant = True, vd_weight = l\<rparr>"
  have four: "(4 :: nat) = Suc (Suc (Suc (Suc 0)))" by simp
  have again: "save_pass sorted_keys w ''p'' [weight_tensor] (weight_model (location_of ''p'' (?v no_location) off n)) =
      Some (weight_model final_location)" for off n
  proof -
    have "length (WriteWeightLocation (location_of ''p'' (?v no_location) off n)) = 42"
      by (simp add: weight_location_length) (simp add: no_location_def)
    then show ?thesis
      by (simp add: save_pass_weight_model header_size_def AlignUp_def final_location_def) (simp add: location_of_def)
  qed
  have "length (WriteWeightLocation no_location) = 40"
    by (simp add: no_location_def WriteWeightLocation_def WriteString_def write_u64_def)
  then have "\<exists>off. save_pass sorted_keys w ''p'' [weight_tensor] (weight_model no_location) =
      Some (weight_model (location_of ''p'' (?v no_location) off 4))"
    using save_pass_weight_model[of no_location w] by (intro exI[of _ "AlignUp (header_size + 202) 64"]) simp
  then show ?thesis
    unfolding four using again again[of 256 4, folded final_location_def] by auto
qed

theorem Save_Load_weights_witness:
  "\<exists>w' fs' bs v v' loader' ls store v'' t'.
     Save sorted_keys good_disk ''p'' (weight_model no_location) [''w'' \<mapsto> Some weight_tensor] (one_buffer_heap False) Map.empty = (w', fs', True) \<and>
     fs' ''p'' = Some bs \<and> Load [''p'' \<mapsto> (1000, length bs)] fs' ''p''
       \<lparr>ml_path = [], ml_model = weight_model no_location, ml_weight_store = Map.empty\<rparr> v = Some (v', loader', True) \<and>
     ml_model loader' = kept_model True True (put_locations ls (weight_model no_location)) \<and>
     CreateWeightTensor [''p'' \<mapsto> (1000, length bs)] ''w'' loader' v' = (store, Some (v'', t')) \<and>
     tensor_bytes v'' t' 4 = Some (weight_bytes w' weight_tensor) \<and> m_immutable t'"
proof -
  let ?m = "weight_model no_location" and ?W = "[''w'' \<mapsto> Some weight_tensor]"
  let ?w' = "touch [weight_tensor] (one_buffer_heap False)"
  let ?meta = "SerializeModel sorted_keys True True (weight_model final_location)"
  let ?h = "\<lparr>fh_magic = kMagic, fh_version = kFormatVersion, fh_reserved = 0, fh_metadata_size = length ?meta\<rparr>"
  let ?bs = "header_bytes ?h @ ?meta @ replicate 28 0 @ mem_read (mem ?w') (weight_address ?w' weight_tensor) 4"
  let ?x = "\<lparr>vd_tensor = weight_desc, vd_constant = True, vd_weight = no_location\<rparr>"
  have len: "length ?meta = 204"
    by (simp add: weight_model_length final_location_def weight_location_length) (simp add: no_location_def)
  have "file_bytes ?w' ?meta (zip (map vd_weight (constants (weight_model final_location))) [weight_tensor]) = (?bs, True)"
    by (simp add: file_bytes_def weight_model_simps len header_size_def Let_def)
      (simp add: final_location_def location_of_def)
  then have save: "Save sorted_keys good_disk ''p'' ?m ?W (one_buffer_heap False) Map.empty = (?w', [''p'' \<mapsto> ?bs], True)"
    by (simp add: Save_def collect_weight_model save_passes_weight_model good_disk_def Let_def)
  have "parse_header ?bs = ?h" by (rule parse_header_bytes) (simp_all add: kFormatVersion_def len)
  then have limit: "fh_metadata_size (parse_header ?bs) \<le> kMaxMetadataBytes" by (simp add: len kMaxMetadataBytes_def)
  have "length ?bs = 260" by (simp add: len header_size_def)
  then have small: "length ?bs \<le> SIZE_MAX" by (simp add: SIZE_MAX_def)
  let ?v = "(one_buffer_heap False)\<lparr>mem := mem_write (mem (one_buffer_heap False)) 1000 ?bs\<rparr>"
  have x: "?x \<in> set (gd_values (md_graph ?m))" "vd_constant ?x" "?W (vd_name ?x) = Some (Some weight_tensor)"
    "distinct (map vd_name (gd_values (md_graph ?m)))" "good_string ''p''"
    by (simp_all add: weight_model_def weight_desc_def good_string_def SIZE_MAX_def)
  have fs: "[''p'' \<mapsto> ?bs] ''p'' = Some ?bs" by simp
  have os: "[''p'' \<mapsto> (1000, length ?bs)] ''p'' = Some (1000, length ?bs)" by simp
  have mapped: "mem_read (mem ?v) 1000 (length ?bs) = ?bs" by (rule mem_read_mapped)
  have size4: "m_memory_size weight_tensor = 4" and nm: "vd_name ?x = ''w''"
    by (simp_all add: weight_tensor_def window_tensor_def weight_desc_def)
  show ?thesis
    using Save_Load_weights[where loader = "\<lparr>ml_path = [], ml_model = ?m, ml_weight_store = Map.empty\<rparr>"
          and fs' = "[''p'' \<mapsto> ?bs]" and path = "''p''" and weights = ?W and x = ?x and bs = ?bs and base = 1000 and v = ?v
          and os = "[''p'' \<mapsto> (1000, length ?bs)]",
        OF traverses_sorted_keys good_weight_model x(5) save fs small limit os mapped x(4,1-3)] save fs
    unfolding size4 nm by blast
qed

end
