(* ===== verification/Float8_Formats.thy ===== *)
theory Float8_Formats
  imports Complex_Main Types
begin

unbundle bit_operations_syntax

text \<open>
  The 8-bit formats of \<open>include/util/fp8.h\<close>.  The conversions compute with \<open>float\<close>; every
  operation they use is exact on the values it meets (scaling by powers of two, differences of
  neighbours), so a finite \<open>float\<close> is the rational number it denotes, with its sign apart.
\<close>

section \<open>Floats as numbers\<close>

datatype fp = NaN bool | Inf bool | Fin bool rat

definition fp_of :: "f32 \<Rightarrow> fp" where
  "fp_of b =
     (let s = f32_negative b; e = f32_exponent b; m = f32_mantissa b in
      if e = 255 then if m = 0 then Inf s else NaN s
      else if e = 0 then Fin s (of_nat m * 2 powi (- 149))
      else Fin s (of_nat (8388608 + m) * 2 powi (int e - 150)))"

text \<open>\<open>static_cast<int32_t>\<close> truncates; the arguments are not negative.\<close>

definition RoundToNearestEven :: "rat \<Rightarrow> int" where
  "RoundToNearestEven x =
     (let lower = \<lfloor>x\<rfloor>; fraction = x - of_int lower in
      if fraction > 1 / 2 \<or> fraction = 1 / 2 \<and> lower mod 2 \<noteq> 0 then lower + 1 else lower)"

text \<open>The two loops that bring the fraction into \<open>[1, 2)\<close>, with fuel.\<close>

fun scale_down :: "nat \<Rightarrow> rat \<Rightarrow> int \<Rightarrow> rat \<times> int" where
  "scale_down 0 f e = (f, e)"
| "scale_down (Suc fuel) f e = (if f \<ge> 2 then scale_down fuel (f / 2) (e + 1) else (f, e))"

fun scale_up :: "nat \<Rightarrow> rat \<Rightarrow> int \<Rightarrow> rat \<times> int" where
  "scale_up 0 f e = (f, e)"
| "scale_up (Suc fuel) f e = (if f < 1 then scale_up fuel (f * 2) (e - 1) else (f, e))"

definition loop_fuel :: nat where "loop_fuel = 300"

section \<open>Encoding\<close>

definition put_bits :: "u8 \<Rightarrow> int \<Rightarrow> u8" where
  "put_bits sign n = sign OR word_of_int n"

definition encode_subnormal :: "rat \<Rightarrow> u8 \<Rightarrow> nat \<Rightarrow> rat \<Rightarrow> u8" where
  "encode_subnormal absolute_value sign mantissa_bits quantum =
     (let subnormal = RoundToNearestEven (absolute_value / quantum) in
      if subnormal \<le> 0 then sign
      else if subnormal \<ge> 2 ^ mantissa_bits then put_bits sign (2 ^ mantissa_bits)
      else put_bits sign subnormal)"

definition EncodeFinite :: "rat \<Rightarrow> u8 \<Rightarrow> nat \<Rightarrow> int \<Rightarrow> int \<Rightarrow> int \<Rightarrow> bool \<Rightarrow> u8" where
  "EncodeFinite absolute_value sign mantissa_bits bias max_normal_exponent max_normal_mantissa has_infinity =
     (let min_normal = (if has_infinity then 2 powi (-14) else 2 powi (-6));
          quantum = (if has_infinity then 2 powi (-16) else 2 powi (-9));
          max_finite = (if has_infinity then 57344 else 448);
          max_code = (if has_infinity then 0x7b else 0x7e);
          exponent_mask = (if has_infinity then 0x1f else 0x0f) in
      if absolute_value < min_normal then encode_subnormal absolute_value sign mantissa_bits quantum
      else if absolute_value > max_finite then sign OR max_code
      else
        let (fraction0, exponent0) = scale_down loop_fuel absolute_value 0;
            (fraction, exponent1) = scale_up loop_fuel fraction0 exponent0;
            rounded = RoundToNearestEven ((fraction - 1) * 2 ^ mantissa_bits);
            (mantissa, exponent) = (if rounded \<ge> 2 ^ mantissa_bits then (0, exponent1 + 1) else (rounded, exponent1)) in
        if exponent > max_normal_exponent then sign OR max_code
        else let exponent_field = exponent + bias in
        if exponent_field \<le> 0 then encode_subnormal absolute_value sign mantissa_bits quantum
        else if exponent_field \<ge> exponent_mask
        then put_bits (put_bits sign (exponent_mask * 2 ^ mantissa_bits))
               (if mantissa > max_normal_mantissa then max_normal_mantissa else mantissa)
        else put_bits (put_bits sign (exponent_field * 2 ^ mantissa_bits)) mantissa)"

definition sign_bit :: "bool \<Rightarrow> u8" where
  "sign_bit s = (if s then 0x80 else 0)"

fun EncodeE4M3 :: "fp \<Rightarrow> u8" where
  "EncodeE4M3 (NaN s) = sign_bit s OR 0x7F"
| "EncodeE4M3 (Inf s) = sign_bit s OR 0x7E"
| "EncodeE4M3 (Fin s x) = EncodeFinite x (sign_bit s) 3 7 8 6 False"

fun EncodeE5M2 :: "fp \<Rightarrow> u8" where
  "EncodeE5M2 (NaN s) = sign_bit s OR 0x7D"
| "EncodeE5M2 (Inf s) = sign_bit s OR 0x7C"
| "EncodeE5M2 (Fin s x) = EncodeFinite x (sign_bit s) 2 15 15 3 True"

definition FloatToFp8E4M3 :: "f32 \<Rightarrow> u8" where "FloatToFp8E4M3 b = EncodeE4M3 (fp_of b)"
definition FloatToFp8E5M2 :: "f32 \<Rightarrow> u8" where "FloatToFp8E5M2 b = EncodeE5M2 (fp_of b)"

section \<open>Decoding\<close>

definition DecodeE4M3 :: "u8 \<Rightarrow> fp" where
  "DecodeE4M3 bits =
     (let s = (bits AND 0x80 \<noteq> 0); e = uint (drop_bit 3 bits AND 0x0f); m = uint (bits AND 0x07) in
      if e = 0 \<and> m = 0 then Fin s 0
      else if e = 15 \<and> m = 7 then NaN False
      else if e = 0 then Fin s (of_int m * 2 powi (-9))
      else Fin s ((1 + of_int m / 8) * 2 powi (e - 7)))"

definition DecodeE5M2 :: "u8 \<Rightarrow> fp" where
  "DecodeE5M2 bits =
     (let s = (bits AND 0x80 \<noteq> 0); e = uint (drop_bit 2 bits AND 0x1f); m = uint (bits AND 0x03) in
      if e = 0 \<and> m = 0 then Fin s 0
      else if e = 31 then if m = 0 then Inf s else NaN False
      else if e = 0 then Fin s (of_int m * 2 powi (-16))
      else Fin s ((1 + of_int m / 4) * 2 powi (e - 15)))"

section \<open>Rounding\<close>

text \<open>Between \<open>n\<close> and its successor, at the part \<open>t\<close> of the way: the nearer one, the even one half way.\<close>

definition nearer_even :: "rat \<Rightarrow> nat \<Rightarrow> nat \<Rightarrow> bool" where
  "nearer_even t n c \<longleftrightarrow>
     c = n \<and> (t < 1 / 2 \<or> t = 1 / 2 \<and> even n) \<or> c = Suc n \<and> (1 / 2 < t \<or> t = 1 / 2 \<and> odd n)"

lemma nearer_evenD: "nearer_even t n c \<Longrightarrow> c = n \<and> t \<le> 1 / 2 \<or> c = Suc n \<and> 1 / 2 \<le> t"
  by (auto simp: nearer_even_def)

lemma nearer_even_shift: "even k \<Longrightarrow> nearer_even t n c \<Longrightarrow> nearer_even t (k + n) (k + c)"
  by (auto simp: nearer_even_def)

lemma RoundToNearestEven_nat:
  assumes "0 \<le> u"
  shows "\<exists>c. RoundToNearestEven u = int c \<and> nearer_even (u - of_nat (nat \<lfloor>u\<rfloor>)) (nat \<lfloor>u\<rfloor>) c"
proof -
  have f: "int (nat \<lfloor>u\<rfloor>) = \<lfloor>u\<rfloor>" "(of_nat (nat \<lfloor>u\<rfloor>) :: rat) = of_int \<lfloor>u\<rfloor>" using assms by simp_all
  have "even (int (nat \<lfloor>u\<rfloor>)) \<longleftrightarrow> \<lfloor>u\<rfloor> mod 2 = 0" unfolding f(1) by (rule even_iff_mod_2_eq_zero)
  then have e: "even (nat \<lfloor>u\<rfloor>) \<longleftrightarrow> \<lfloor>u\<rfloor> mod 2 = 0" by (simp only: even_of_nat)
  let ?frac = "u - of_int \<lfloor>u\<rfloor>"
  consider "?frac > 1 / 2 \<or> ?frac = 1 / 2 \<and> \<lfloor>u\<rfloor> mod 2 \<noteq> 0" | "?frac < 1 / 2 \<or> ?frac = 1 / 2 \<and> \<lfloor>u\<rfloor> mod 2 = 0"
    by linarith
  then show ?thesis
  proof cases
    case 1
    then have "RoundToNearestEven u = \<lfloor>u\<rfloor> + 1" by (simp add: RoundToNearestEven_def Let_def)
    then show ?thesis using 1 f e by (intro exI[of _ "Suc (nat \<lfloor>u\<rfloor>)"]) (auto simp: nearer_even_def)
  next
    case 2
    then have "RoundToNearestEven u = \<lfloor>u\<rfloor>" by (auto simp: RoundToNearestEven_def Let_def)
    then show ?thesis using 2 f e by (intro exI[of _ "nat \<lfloor>u\<rfloor>"]) (auto simp: nearer_even_def)
  qed
qed

lemma RoundToNearestEven_int: "RoundToNearestEven (of_int n) = n"
  by (simp add: RoundToNearestEven_def)

section \<open>The numbers of a format\<close>

text \<open>The value of code \<open>n\<close> with \<open>p\<close> mantissa bits and bias \<open>b\<close>, and the step to the next one.\<close>

definition grid :: "nat \<Rightarrow> int \<Rightarrow> nat \<Rightarrow> rat" where
  "grid p b n = (if n < 2 ^ p then of_nat n * 2 powi (1 - b - int p)
     else of_nat (2 ^ p + n mod 2 ^ p) * 2 powi (int (n div 2 ^ p) - b - int p))"

definition grid_step :: "nat \<Rightarrow> int \<Rightarrow> nat \<Rightarrow> rat" where
  "grid_step p b n = 2 powi (max 1 (int (n div 2 ^ p)) - b - int p)"

lemma grid_Suc: "grid p b (Suc n) = grid p b n + grid_step p b n"
proof (cases "Suc n mod 2 ^ p = 0")
  case True
  then have m: "n mod 2 ^ p = 2 ^ p - 1" "Suc n div 2 ^ p = Suc (n div 2 ^ p)"
    by (simp_all add: mod_Suc div_Suc split: if_splits)
  have ge: "\<not> Suc n < 2 ^ p" using True by (metis mod_less Suc_neq_Zero)
  have one: "(1 :: nat) \<le> 2 ^ p" by simp
  show ?thesis
  proof (cases "n < 2 ^ p")
    case nl: True
    then have n: "Suc n = 2 ^ p" using ge by simp
    have "of_nat (Suc n) = (2 :: rat) ^ p" unfolding n by simp
    then have e: "(of_nat n :: rat) = 2 ^ p - 1" by simp
    show ?thesis using nl n by (simp add: grid_def grid_step_def e algebra_simps power_int_diff)
      (simp add: add_divide_distrib[symmetric])
  next
    case False
    then have d: "1 \<le> int (n div 2 ^ p)" by (simp add: Suc_le_eq div_greater_zero_iff)
    have q: "(of_nat (n mod 2 ^ p) :: rat) = 2 ^ p - 1"
      unfolding m(1) of_nat_diff[OF one] by simp
    have "grid p b (Suc n) = 2 ^ p * 2 powi (int (n div 2 ^ p) + 1 - b - int p)"
      using ge True m(2) by (simp add: grid_def add.commute)
    also have "\<dots> = 2 ^ p * 2 * 2 powi (int (n div 2 ^ p) - b - int p)"
      by (simp add: power_int_add power_int_diff)
    finally show ?thesis using False d by (simp add: grid_def[of p b n] grid_step_def q max_def algebra_simps)
  qed
next
  case False
  then have m: "Suc n mod 2 ^ p = Suc (n mod 2 ^ p)" "Suc n div 2 ^ p = n div 2 ^ p"
    by (simp_all add: mod_Suc div_Suc split: if_splits)
  show ?thesis
  proof (cases "n < 2 ^ p")
    case True
    then have "Suc n < 2 ^ p" using False by (metis Suc_lessI mod_self)
    then show ?thesis using True by (simp add: grid_def grid_step_def algebra_simps)
  next
    case ge: False
    then have d: "1 \<le> int (n div 2 ^ p)" by (simp add: Suc_le_eq div_greater_zero_iff)
    then show ?thesis using ge by (simp add: grid_def grid_step_def m max_def algebra_simps)
  qed
qed

lemma grid_step_pos: "0 < grid_step p b n"
  by (simp add: grid_step_def)

lemma grid_less: "m < n \<Longrightarrow> grid p b m < grid p b n"
  by (rule lift_Suc_mono_less[of "grid p b"]) (simp add: grid_Suc grid_step_pos)

lemma grid_le_iff: "grid p b m \<le> grid p b n \<longleftrightarrow> m \<le> n"
  using grid_less[of m n p b] grid_less[of n m p b] by (cases m n rule: linorder_cases) auto

text \<open>A number between two codes, rounded to the nearer one, to the even one half way.\<close>

definition rounds_to :: "nat \<Rightarrow> int \<Rightarrow> rat \<Rightarrow> nat \<Rightarrow> bool" where
  "rounds_to p b x c \<longleftrightarrow> (\<exists>n t. 0 \<le> t \<and> t < 1 \<and> x = grid p b n + t * grid_step p b n \<and>
     nearer_even t n c)"

lemma rounds_to_nearest:
  assumes "rounds_to p b x c"
  shows "\<bar>x - grid p b c\<bar> \<le> \<bar>x - grid p b k\<bar>"
proof -
  obtain n t where t: "0 \<le> t" "t < 1" "x = grid p b n + t * grid_step p b n"
    and c: "c = n \<and> t \<le> 1 / 2 \<or> c = Suc n \<and> 1 / 2 \<le> t"
    using assms nearer_evenD unfolding rounds_to_def by blast
  let ?s = "grid_step p b n"
  have s: "0 < ?s" by (rule grid_step_pos)
  have t0: "0 \<le> t * ?s" "t * ?s \<le> ?s" using t(1,2) s by (simp_all add: mult_le_cancel_right2)
  have near: "\<bar>x - grid p b c\<bar> \<le> t * ?s \<and> \<bar>x - grid p b c\<bar> \<le> (1 - t) * ?s"
  proof -
    have "t * ?s \<le> (1 - t) * ?s" if "t \<le> 1 / 2" using that s by (simp add: mult_le_cancel_right)
    moreover have "(1 - t) * ?s \<le> t * ?s" if "1 / 2 \<le> t" using that s by (simp add: mult_le_cancel_right)
    ultimately show ?thesis using c t0 t(3) by (auto simp: grid_Suc algebra_simps)
  qed
  show ?thesis
  proof (cases "k \<le> n")
    case True
    then have "grid p b k \<le> grid p b n" by (simp add: grid_le_iff)
    then show ?thesis using near t(3) t0 by linarith
  next
    case False
    then have "grid p b (Suc n) \<le> grid p b k" by (simp add: grid_le_iff)
    then have "(1 - t) * ?s \<le> grid p b k - x" using t(3) by (simp add: grid_Suc algebra_simps)
    then show ?thesis using near by linarith
  qed
qed

text \<open>Another code is farther, unless the number is half way between them; then the code chosen is even.\<close>

lemma rounds_to_tie:
  assumes "rounds_to p b x c" and "k \<noteq> c" and tie: "\<bar>x - grid p b c\<bar> = \<bar>x - grid p b k\<bar>"
  shows "even c"
proof -
  obtain n t where t: "0 \<le> t" "t < 1" "x = grid p b n + t * grid_step p b n" and ne: "nearer_even t n c"
    using assms(1) unfolding rounds_to_def by blast
  let ?s = "grid_step p b n"
  have s: "0 < ?s" by (rule grid_step_pos)
  have t0: "0 \<le> t * ?s" "t * ?s \<le> ?s" using t(1,2) s by (simp_all add: mult_le_cancel_right2)
  from nearer_evenD[OF ne] have "t = 1 / 2"
  proof (elim disjE conjE)
    assume c: "c = n" and le: "t \<le> 1 / 2"
    have dc: "\<bar>x - grid p b c\<bar> = t * ?s" using t0 t(3) c by simp
    have "\<not> k < n" using grid_less[of k n p b] tie dc t(3) t0 by auto
    then have "Suc n \<le> k" using assms(2) c by simp
    then have "grid p b (Suc n) \<le> grid p b k" by (simp add: grid_le_iff)
    then have "(1 - t) * ?s \<le> grid p b k - x" using t(3) by (simp add: grid_Suc algebra_simps)
    then have "(1 - t) * ?s \<le> t * ?s" using tie dc by linarith
    then show ?thesis using s le by (simp add: mult_le_cancel_right)
  next
    assume c: "c = Suc n" and ge: "1 / 2 \<le> t"
    have dc: "\<bar>x - grid p b c\<bar> = (1 - t) * ?s" using t0 t(3) c by (simp add: grid_Suc algebra_simps)
    have "\<not> Suc n < k" using grid_less[of "Suc n" k p b] tie dc t(3) t0 c by (auto simp: grid_Suc algebra_simps)
    then have "k \<le> n" using assms(2) c by simp
    then have "grid p b k \<le> grid p b n" by (simp add: grid_le_iff)
    then have "t * ?s \<le> (1 - t) * ?s" using tie dc t(3) t0 by linarith
    then show ?thesis using s ge by (simp add: mult_le_cancel_right)
  qed
  then show ?thesis using ne by (auto simp: nearer_even_def)
qed

section \<open>Scaling\<close>

lemma below_double: "f < 2 \<Longrightarrow> f < 2 * 2 ^ j" for f :: rat
  by (rule order_less_le_trans[of f 2]) simp_all

lemma scale_down_spec:
  "1 \<le> f \<Longrightarrow> f < 2 \<Longrightarrow> k \<le> fuel \<Longrightarrow> scale_down fuel (f * 2 ^ k) e = (f, e + int k)"
proof (induction fuel arbitrary: k e)
  case (Suc fuel)
  show ?case
  proof (cases k)
    case 0
    then show ?thesis using Suc.prems by simp
  next
    case (Suc j)
    have "1 * 1 \<le> f * 2 ^ j" using Suc.prems by (intro mult_mono) simp_all
    then show ?thesis using Suc Suc.prems Suc.IH[of j "e + 1"] by (simp add: algebra_simps)
  qed
qed simp

lemma scale_up_spec:
  "1 \<le> f \<Longrightarrow> f < 2 \<Longrightarrow> k \<le> fuel \<Longrightarrow> scale_up fuel (f / 2 ^ k) e = (f, e - int k)"
proof (induction fuel arbitrary: k e)
  case (Suc fuel)
  show ?case
  proof (cases k)
    case 0
    then show ?thesis using Suc.prems by simp
  next
    case (Suc j)
    have "f < 2 ^ Suc j" using below_double[OF Suc.prems(2)] by simp
    then have "f / 2 ^ Suc j < 1" by (simp add: divide_less_eq)
    then show ?thesis using Suc Suc.prems Suc.IH[of j "e - 1"] by (simp add: algebra_simps)
  qed
qed simp

lemma scale_up_same: "1 \<le> f \<Longrightarrow> scale_up fuel f e = (f, e)"
  by (cases fuel) simp_all

lemma scale_down_same: "f < 2 \<Longrightarrow> scale_down fuel f e = (f, e)"
  by (cases fuel) simp_all

text \<open>The loops find the fraction and the exponent of every number they can meet.\<close>

lemma scaled:
  assumes "1 \<le> f" "f < 2" "\<bar>k\<bar> \<le> 300"
  shows "(case scale_down loop_fuel (f * 2 powi k) 0 of (f', e) \<Rightarrow> scale_up loop_fuel f' e) = (f, k)"
proof (cases "0 \<le> k")
  case True
  then have "f * 2 powi k = f * 2 ^ nat k" by (simp add: power_int_def)
  then show ?thesis using assms True scale_down_spec[of f "nat k" loop_fuel 0]
    by (simp add: loop_fuel_def scale_up_same)
next
  case False
  then have x: "f * 2 powi k = f / 2 ^ nat (- k)" by (simp add: power_int_def field_simps power_inverse)
  have "f < 2 * 2 ^ nat (- k)" by (rule below_double[OF assms(2)])
  then have "f / 2 ^ nat (- k) < 2" by (simp add: divide_less_eq)
  then show ?thesis using assms False scale_up_spec[of f "nat (- k)" loop_fuel 0]
    by (simp add: x scale_down_same) (simp add: loop_fuel_def)
qed

lemma fraction_exists:
  fixes y :: rat
  assumes "1 \<le> y" "y < 2 ^ n"
  shows "\<exists>f k. 1 \<le> f \<and> f < 2 \<and> k < n \<and> y = f * 2 ^ k"
  using assms
proof (induction n)
  case (Suc n)
  show ?case
  proof (cases "y < 2 ^ n")
    case True
    then show ?thesis using Suc by (metis less_Suc_eq)
  next
    case False
    then have "1 \<le> y / 2 ^ n" "y / 2 ^ n < 2" using Suc.prems by (simp_all add: divide_less_eq le_divide_eq)
    then show ?thesis by (intro exI[of _ "y / 2 ^ n"] exI[of _ n]) simp
  qed
qed simp

lemma number_form:
  fixes x :: rat
  assumes "2 powi (- int a) \<le> x" "x < 2 ^ n"
  shows "\<exists>f k. 1 \<le> f \<and> f < 2 \<and> - int a \<le> k \<and> k < int n \<and> x = f * 2 powi k"
proof -
  have y: "1 \<le> x * 2 ^ a" using assms(1) by (simp add: power_int_minus field_simps)
  have "x * 2 ^ a < 2 ^ (n + a)" using assms(2) by (simp add: power_add)
  then obtain f k where f: "1 \<le> f" "f < 2" "k < n + a" "x * 2 ^ a = f * 2 ^ k" using fraction_exists[OF y] by blast
  have "x = f * 2 powi (int k - int a)" using f(4) by (simp add: power_int_diff field_simps)
  then show ?thesis using f(1-3) by (intro exI[of _ f] exI[of _ "int k - int a"]) auto
qed


section \<open>Encoding rounds to the nearest code\<close>

lemma put_bits_put_bits: "put_bits (put_bits s m) n = put_bits s (m OR n)"
  by (simp add: put_bits_def of_int_or_eq or.assoc)

lemma disjoint_or: "0 \<le> m \<Longrightarrow> m < 2 ^ p \<Longrightarrow> e * 2 ^ p OR m = e * 2 ^ p + m" for e m :: int
proof -
  assume "0 \<le> m" "m < 2 ^ p"
  then have "take_bit p m = m" by (simp add: take_bit_int_eq_self_iff)
  moreover have "push_bit p e AND take_bit p m = 0"
    by (rule bit_eqI) (simp add: bit_and_iff bit_push_bit_iff bit_take_bit_iff)
  ultimately have "push_bit p e AND m = 0" by simp
  then show ?thesis by (simp add: disjunctive_add_eq_or push_bit_eq_mult)
qed

locale fp8_format =
  fixes p :: nat and b maxe maxm :: int and inf :: bool and top :: nat
  assumes least_normal: "(if inf then 2 powi (-14) else 2 powi (-6)) = (2 :: rat) powi (1 - b)"
    and quantum: "(if inf then 2 powi (-16) else 2 powi (-9)) = (2 :: rat) powi (1 - b - int p)"
    and greatest: "(if inf then 57344 else 448) = grid p b top"
    and greatest_code: "(if inf then 0x7b else 0x7e) = (word_of_int (int top) :: u8)"
    and mantissa_bits: "0 < p" and bias: "1 \<le> b" "b \<le> 15"
    and exponents: "int (top div 2 ^ p) = maxe + b" "maxe \<le> 15" "2 ^ p \<le> top" "top < 128"
    and mask: "int (top div 2 ^ p) \<le> (if inf then 0x1f else 0x0f)"
      "int (top div 2 ^ p) = (if inf then 0x1f else 0x0f) \<Longrightarrow> int (top mod 2 ^ p) \<le> maxm"
begin

lemma subnormal_rounds:
  assumes "0 \<le> x" "x < 2 powi (1 - b)"
  shows "\<exists>c. encode_subnormal x s p (2 powi (1 - b - int p)) = put_bits s (int c) \<and> c \<le> 2 ^ p \<and> rounds_to p b x c"
proof -
  define u where "u = x / 2 powi (1 - b - int p)"
  let ?r = "RoundToNearestEven u"
  have q: "(0 :: rat) < 2 powi (1 - b - int p)" by simp
  have e: "(2 :: rat) powi (1 - b) = 2 ^ p * 2 powi (1 - b - int p)"
    using power_int_add[of "2 :: rat" "int p" "1 - b - int p"] by simp
  have u: "0 \<le> u" "u < 2 ^ p" "x = u * 2 powi (1 - b - int p)"
    using assms q e by (simp_all add: u_def divide_less_eq)
  define n where "n = nat \<lfloor>u\<rfloor>"
  have fl: "of_int \<lfloor>u\<rfloor> = (of_nat n :: rat)" "int n = \<lfloor>u\<rfloor>" using u(1) by (simp_all add: n_def)
  have "\<lfloor>u\<rfloor> < 2 ^ p" using u(2) by (simp add: floor_less_iff)
  then have n: "n < 2 ^ p" using fl(2) by (metis of_nat_less_iff of_nat_numeral of_nat_power)
  have x: "x = grid p b n + (u - of_nat n) * grid_step p b n"
    using n u(3) by (simp add: grid_def grid_step_def algebra_simps)
  have t: "0 \<le> u - of_nat n" "u - of_nat n < 1"
    using fl(1) of_int_floor_le[of u] floor_correct[of u] by linarith+
  obtain c where c: "?r = int c" "nearer_even (u - of_nat n) n c"
    using RoundToNearestEven_nat[OF u(1)] unfolding n_def by blast
  have le: "c \<le> 2 ^ p" using c(2) n by (auto simp: nearer_even_def)
  have "rounds_to p b x c" unfolding rounds_to_def using c(2) t x by blast
  moreover have "encode_subnormal x s p (2 powi (1 - b - int p)) = put_bits s (int c)"
  proof -
    have "int c \<le> 2 ^ p" using le by (metis of_nat_le_iff of_nat_numeral of_nat_power)
    then show ?thesis
      by (auto simp: encode_subnormal_def Let_def u_def[symmetric] c(1) put_bits_def)
  qed
  ultimately show ?thesis using le by blast
qed

lemma normal_rounds:
  assumes "1 \<le> f" "f < 2" "1 - b \<le> k"
  defines "r \<equiv> RoundToNearestEven ((f - 1) * 2 ^ p)"
  shows "0 \<le> r" "r \<le> 2 ^ p" "rounds_to p b (f * 2 powi k) (nat ((k + b) * 2 ^ p + r))"
proof -
  define u where "u = (f - 1) * 2 ^ p"
  have u: "0 \<le> u" "u < 2 ^ p" using assms(1,2) by (simp_all add: u_def algebra_simps)
  define n0 where "n0 = nat \<lfloor>u\<rfloor>"
  have fl: "int n0 = \<lfloor>u\<rfloor>" using u(1) by (simp add: n0_def)
  have "\<lfloor>u\<rfloor> < 2 ^ p" using u(2) by (simp add: floor_less_iff)
  then have n0: "n0 < 2 ^ p" using fl by (metis of_nat_less_iff of_nat_numeral of_nat_power)
  have t: "0 \<le> u - of_nat n0" "u - of_nat n0 < 1"
    using u(1) floor_correct[of u] unfolding n0_def by simp_all
  obtain c where c: "r = int c" "nearer_even (u - of_nat n0) n0 c"
    using RoundToNearestEven_nat[OF u(1)] unfolding n0_def u_def r_def by blast
  then show "0 \<le> r" by simp
  have "c \<le> 2 ^ p" using c(2) n0 by (auto simp: nearer_even_def)
  then show "r \<le> 2 ^ p" using c(1) by (metis of_nat_le_iff of_nat_numeral of_nat_power)
  define e where "e = nat (k + b)"
  have e: "int e = k + b" "1 \<le> e" using assms(3) by (simp_all add: e_def)
  let ?n = "e * 2 ^ p + n0"
  have dm: "?n div 2 ^ p = e" "?n mod 2 ^ p = n0" using n0 by simp_all
  have big: "\<not> ?n < 2 ^ p" using e(2) by (metis dm(1) div_less not_one_le_zero)
  have step: "grid_step p b ?n = 2 powi (k - int p)" using e by (simp add: grid_step_def dm)
  have g: "grid p b ?n = (2 ^ p + of_nat n0) * 2 powi (k - int p)" using big e(1) n0 by (simp add: grid_def dm)
  have "f * 2 powi k = (2 ^ p + u) * 2 powi (k - int p)"
    by (simp add: u_def power_int_diff algebra_simps)
  then have x: "f * 2 powi k = grid p b ?n + (u - of_nat n0) * grid_step p b ?n"
    unfolding g step by (simp add: algebra_simps)
  have code: "nat ((k + b) * 2 ^ p + r) = e * 2 ^ p + c"
  proof -
    have "int e * 2 ^ p + int c = int (e * 2 ^ p + c)" by simp
    then show ?thesis unfolding c(1) e(1)[symmetric] by (simp only: nat_int)
  qed
  show "rounds_to p b (f * 2 powi k) (nat ((k + b) * 2 ^ p + r))"
    unfolding rounds_to_def code
    using nearer_even_shift[OF _ c(2), of "e * 2 ^ p"] mantissa_bits t x
    by (intro exI[of _ ?n] exI[of _ "u - of_nat n0"]) simp
qed

text \<open>Rounding never passes a code that is not below the number.\<close>

lemma rounds_to_le: "rounds_to p b x c \<Longrightarrow> x \<le> grid p b m \<Longrightarrow> c \<le> m"
proof -
  assume "rounds_to p b x c" "x \<le> grid p b m"
  then obtain n t where t: "0 \<le> t" "x = grid p b n + t * grid_step p b n"
    "c = n \<and> t \<le> 1 / 2 \<or> c = Suc n \<and> 1 / 2 \<le> t" using nearer_evenD unfolding rounds_to_def by blast
  have s: "0 < grid_step p b n" by (rule grid_step_pos)
  show ?thesis
  proof (cases "c = n")
    case True
    have "grid p b n \<le> grid p b m" using t(1,2) s \<open>x \<le> _\<close> by (simp add: order_trans[rotated] add_increasing2)
    then show ?thesis using True by (simp add: grid_le_iff)
  next
    case False
    then have "0 < t * grid_step p b n" using t s by auto
    then have "grid p b n < grid p b m" using t(2) \<open>x \<le> _\<close> by linarith
    then show ?thesis using False t(3) grid_le_iff[of p b m n] by (simp add: not_le[symmetric])
  qed
qed

lemma encode_fields:
  assumes "int c = (e + b) * 2 ^ p + m" "0 \<le> m" "m < 2 ^ p" "c \<le> top"
  shows "e \<le> maxe"
    and "put_bits (put_bits s ((e + b) * 2 ^ p)) m = put_bits s (int c)"
    and "(if inf then 0x1f else 0x0f) \<le> e + b \<Longrightarrow> (if inf then 0x1f else 0x0f) = e + b \<and> m \<le> maxm"
proof -
  have d: "int c div 2 ^ p = e + b" "int c mod 2 ^ p = m" using assms(1-3) by simp_all
  have le: "e + b \<le> int (top div 2 ^ p)"
    using zdiv_mono1[of "int c" "int top" "2 ^ p"] assms(4) by (simp add: d(1) zdiv_int)
  then show "e \<le> maxe" using exponents(1) by simp
  show "put_bits (put_bits s ((e + b) * 2 ^ p)) m = put_bits s (int c)"
    using disjoint_or[OF assms(2,3)] by (simp add: put_bits_put_bits assms(1))
  assume a: "(if inf then 0x1f else 0x0f) \<le> e + b"
  then have e: "e + b = (if inf then 0x1f else 0x0f)" "int (top div 2 ^ p) = e + b" using le mask(1) by linarith+
  have "int c \<le> (e + b) * 2 ^ p + int (top mod 2 ^ p)"
    using assms(4) div_mult_mod_eq[of "int top" "2 ^ p"] e(2) by (simp add: zdiv_int zmod_int)
  then have "m \<le> int (top mod 2 ^ p)" using assms(1) by simp
  then show "(if inf then 0x1f else 0x0f) = e + b \<and> m \<le> maxm" using mask(2) e by simp
qed

lemma encode_rounds:
  assumes "0 \<le> x"
  shows "\<exists>c \<le> top. EncodeFinite x s p b maxe maxm inf = put_bits s (int c) \<and>
    (x \<le> grid p b top \<longrightarrow> rounds_to p b x c) \<and> (grid p b top < x \<longrightarrow> c = top)"
proof -
  note cs = least_normal quantum greatest greatest_code
  consider (sub) "x < 2 powi (1 - b)" | (big) "2 powi (1 - b) \<le> x" "grid p b top < x"
    | (mid) "2 powi (1 - b) \<le> x" "x \<le> grid p b top" by linarith
  then show ?thesis
  proof cases
    case sub
    obtain c where c: "encode_subnormal x s p (2 powi (1 - b - int p)) = put_bits s (int c)" "c \<le> 2 ^ p" "rounds_to p b x c"
      using subnormal_rounds[OF assms sub] by blast
    have "x \<le> grid p b top"
    proof -
      have "grid p b (2 ^ p) = 2 powi (1 - b)"
        using power_int_add[of "2 :: rat" "int p" "1 - b - int p"] by (simp add: grid_def)
      moreover have "grid p b (2 ^ p) \<le> grid p b top" using exponents(3) by (simp add: grid_le_iff)
      ultimately show ?thesis using sub by simp
    qed
    then show ?thesis
      using c sub exponents(3) by (intro exI[of _ c]) (simp add: EncodeFinite_def cs Let_def)
  next
    case big
    then show ?thesis by (intro exI[of _ top]) (simp add: EncodeFinite_def cs Let_def put_bits_def)
  next
    case mid
    have "grid p b top < 2 ^ 16" unfolding greatest[symmetric] by simp
    moreover have "- int (nat (b - 1)) = 1 - b" using bias by simp
    ultimately obtain f k where f: "1 \<le> f" "f < 2" "1 - b \<le> k" "k < 16" "x = f * 2 powi k"
      using number_form[of "nat (b - 1)" x 16] mid by auto
    obtain f0 e0 where scale: "scale_down loop_fuel x 0 = (f0, e0)" "scale_up loop_fuel f0 e0 = (f, k)"
      using scaled[OF f(1,2), of k] f(3-5) bias by (cases "scale_down loop_fuel x 0") auto
    let ?r = "RoundToNearestEven ((f - 1) * 2 ^ p)"
    define c where "c = nat ((k + b) * 2 ^ p + ?r)"
    note nr = normal_rounds[OF f(1-3)]
    have rounds: "rounds_to p b x c" using nr(3) by (simp add: c_def f(5))
    then have top: "c \<le> top" by (rule rounds_to_le) (rule mid(2))
    have c: "int c = (k + b) * 2 ^ p + ?r" using nr(1) f(3) by (simp add: c_def)
    obtain m e where me: "(if ?r \<ge> 2 ^ p then (0, k + 1) else (?r, k)) = (m, e)" by fastforce
    have parts: "int c = (e + b) * 2 ^ p + m" "0 \<le> m" "m < 2 ^ p" "1 \<le> e + b"
    proof -
      have "int c = (e + b) * 2 ^ p + m \<and> 0 \<le> m \<and> m < 2 ^ p \<and> 1 \<le> e + b"
      proof (cases "2 ^ p \<le> ?r")
        case True
        then have "m = 0" "e = k + 1" "?r = 2 ^ p" using me nr(2) by auto
        then show ?thesis using c f(3) by (simp add: algebra_simps)
      next
        case False
        then have "m = ?r" "e = k" using me by auto
        then show ?thesis using c f(3) nr(1) False by simp
      qed
      then show "int c = (e + b) * 2 ^ p + m" "0 \<le> m" "m < 2 ^ p" "1 \<le> e + b" by blast+
    qed
    note fin = encode_fields[OF parts(1-3) top]
    have "EncodeFinite x s p b maxe maxm inf = put_bits s (int c)"
    proof (cases "(if inf then 0x1f else 0x0f) \<le> e + b")
      case True
      from fin(3)[OF True] have "(if inf then 0x1f else 0x0f) = e + b" "\<not> maxm < m" by simp_all
      then show ?thesis using mid scale me fin(1,2) parts(4) by (simp add: EncodeFinite_def cs Let_def)
    next
      case False
      then show ?thesis using mid scale me fin(1,2) parts(4) by (simp add: EncodeFinite_def cs Let_def)
    qed
    then show ?thesis using top rounds mid(2) by (intro exI[of _ c]) simp
  qed
qed

lemma encode_nearest:
  assumes "0 \<le> x"
  shows "\<exists>c \<le> top. EncodeFinite x s p b maxe maxm inf = put_bits s (int c) \<and>
    (\<forall>k \<le> top. k \<noteq> c \<longrightarrow> \<bar>x - grid p b c\<bar> < \<bar>x - grid p b k\<bar> \<or> \<bar>x - grid p b c\<bar> = \<bar>x - grid p b k\<bar> \<and> even c)"
proof -
  obtain c where c: "c \<le> top" "EncodeFinite x s p b maxe maxm inf = put_bits s (int c)"
    "x \<le> grid p b top \<longrightarrow> rounds_to p b x c" "grid p b top < x \<longrightarrow> c = top"
    using encode_rounds[OF assms] by blast
  have "\<bar>x - grid p b c\<bar> < \<bar>x - grid p b k\<bar> \<or> \<bar>x - grid p b c\<bar> = \<bar>x - grid p b k\<bar> \<and> even c"
    if "k \<le> top" "k \<noteq> c" for k
  proof (cases "x \<le> grid p b top")
    case True
    then have "rounds_to p b x c" using c(3) by blast
    from rounds_to_nearest[OF this] rounds_to_tie[OF this that(2)] show ?thesis by (metis order_le_less)
  next
    case False
    then have "c = top" using c(4) by simp
    moreover have "grid p b k < grid p b top" using that calculation by (simp add: grid_less)
    ultimately show ?thesis using False by simp
  qed
  then show ?thesis using c(1,2) by blast
qed

lemma encode_code:
  assumes "c \<le> top"
  shows "EncodeFinite (grid p b c) s p b maxe maxm inf = put_bits s (int c)"
proof -
  have "0 \<le> grid p b c" by (simp add: grid_def)
  then obtain c' where c': "EncodeFinite (grid p b c) s p b maxe maxm inf = put_bits s (int c')"
    "\<And>k. k \<le> top \<Longrightarrow> k \<noteq> c' \<Longrightarrow> \<bar>grid p b c - grid p b c'\<bar> < \<bar>grid p b c - grid p b k\<bar> \<or>
       \<bar>grid p b c - grid p b c'\<bar> = \<bar>grid p b c - grid p b k\<bar> \<and> even c'"
    using encode_nearest[of "grid p b c" s] by metis
  have "c' = c"
  proof (rule ccontr)
    assume "c' \<noteq> c"
    then have "grid p b c' = grid p b c" using c'(2)[of c] assms by auto
    then show False using grid_less[of c c' p b] grid_less[of c' c p b] \<open>c' \<noteq> c\<close>
      by (cases c c' rule: linorder_cases) auto
  qed
  then show ?thesis using c'(1) by simp
qed

end

interpretation e4m3: fp8_format 3 7 8 6 False 126
  by unfold_locales (simp_all add: grid_def)

interpretation e5m2: fp8_format 2 15 15 3 True 123
  by unfold_locales (simp_all add: grid_def)

section \<open>Decoding reads the code\<close>

lemma code_uint:
  assumes "c < 128"
  shows "uint (put_bits (sign_bit s) (int c)) = (if s then 128 else 0) + int c"
proof -
  let ?n = "(if s then 1 else 0) * 2 ^ 7 + int c"
  have "(if s then 1 else 0) * 2 ^ 7 OR int c = ?n"
    using assms by (intro disjoint_or) simp_all
  moreover have "put_bits (sign_bit s) (int c) = word_of_int ((if s then 1 else 0) * 2 ^ 7 OR int c)"
    by (simp add: put_bits_def sign_bit_def of_int_or_eq)
  ultimately have "put_bits (sign_bit s) (int c) = word_of_int ?n" by simp
  then have "uint (put_bits (sign_bit s) (int c)) = ?n mod 2 ^ 8" by (simp only: uint_word_of_int) simp
  also have "\<dots> = ?n" using assms by (intro mod_pos_pos_trivial) auto
  finally show ?thesis by simp
qed

lemma code_of_word:
  fixes w :: u8
  shows "\<exists>s c. c < 128 \<and> w = put_bits (sign_bit s) (int c)"
proof -
  let ?c = "nat (uint w mod 128)" and ?s = "128 \<le> uint w"
  have u: "0 \<le> uint w" "uint w < 256" using uint_lt2p[of w] by simp_all
  have "uint (put_bits (sign_bit ?s) (int ?c)) = uint w"
    using u by (subst code_uint) (auto simp: pos_mod_bound, presburger)
  then have "w = put_bits (sign_bit ?s) (int ?c)" by (simp add: word_uint_eq_iff)
  moreover have "?c < 128" by simp
  ultimately show ?thesis by blast
qed

lemma word_fields:
  fixes w :: u8
  shows "uint (w AND 0x07) = uint w mod 8" "uint (w AND 0x03) = uint w mod 4"
    "uint (drop_bit 3 w AND 0x0f) = uint w div 8 mod 16" "uint (drop_bit 2 w AND 0x1f) = uint w div 4 mod 32"
    "w AND 0x80 \<noteq> 0 \<longleftrightarrow> uint w div 128 mod 2 = 1"
proof -
  have m: "(0x07 :: u8) = mask 3" "(0x03 :: u8) = mask 2" "(0x0f :: u8) = mask 4" "(0x1f :: u8) = mask 5"
    by (simp_all add: mask_eq_exp_minus_1)
  show "uint (w AND 0x07) = uint w mod 8" "uint (w AND 0x03) = uint w mod 4"
    "uint (drop_bit 3 w AND 0x0f) = uint w div 8 mod 16" "uint (drop_bit 2 w AND 0x1f) = uint w div 4 mod 32"
    unfolding m by (simp_all flip: take_bit_eq_mask add: unsigned_take_bit_eq take_bit_eq_mod unsigned_drop_bit_eq drop_bit_eq_div uint_div_distrib uint_mod_distrib)
  have "(0x80 :: u8) = push_bit 7 1" by simp
  then have "w AND 0x80 \<noteq> 0 \<longleftrightarrow> bit w 7"
    by (metis and_exp_eq_0_iff_not_bit push_bit_of_1)
  then show "w AND 0x80 \<noteq> 0 \<longleftrightarrow> uint w div 128 mod 2 = 1"
    by (simp add: bit_iff_odd odd_iff_mod_2_eq_one word_uint_eq_iff uint_div_distrib uint_mod_distrib)
qed


lemma sign_and_code:
  fixes x :: int
  assumes "0 \<le> x" "x < 128"
  shows "(128 + x) mod 8 = x mod 8" "(128 + x) mod 4 = x mod 4"
    "(128 + x) div 8 mod 16 = x div 8" "(128 + x) div 4 mod 32 = x div 4"
    "x div 8 mod 16 = x div 8" "x div 4 mod 32 = x div 4"
    "(128 + x) div 128 mod 2 = 1" "x div 128 mod 2 = 0"
proof -
  show "(128 + x) mod 8 = x mod 8" "(128 + x) mod 4 = x mod 4" by presburger+
  have d: "(128 + x) div 8 = 16 + x div 8" "(128 + x) div 4 = 32 + x div 4" "(128 + x) div 128 = 1" "x div 128 = 0"
    using assms by simp_all
  have b: "0 \<le> x div 8" "x div 8 < 16" "0 \<le> x div 4" "x div 4 < 32"
    using assms by (simp_all add: div_less_iff_less_mult pos_imp_zdiv_nonneg_iff)
  then show "x div 8 mod 16 = x div 8" "x div 4 mod 32 = x div 4" by simp_all
  with b show "(128 + x) div 8 mod 16 = x div 8" "(128 + x) div 4 mod 32 = x div 4" unfolding d by simp_all
  show "(128 + x) div 128 mod 2 = 1" "x div 128 mod 2 = 0" unfolding d by simp_all
qed

lemma code_fields:
  fixes s :: bool
  assumes "c < 128"
  defines "w \<equiv> put_bits (sign_bit s) (int c)"
  shows "uint (w AND 0x07) = int (c mod 8)" "uint (w AND 0x03) = int (c mod 4)"
    "uint (drop_bit 3 w AND 0x0f) = int (c div 8)" "uint (drop_bit 2 w AND 0x1f) = int (c div 4)"
    "w AND 0x80 \<noteq> 0 \<longleftrightarrow> s"
proof -
  have r: "(0 :: int) \<le> int c" "int c < 128" using assms(1) by simp_all
  note sc = sign_and_code[OF r] add_0 if_True if_False zmod_int zdiv_int of_nat_numeral
  show "uint (w AND 0x07) = int (c mod 8)" "uint (w AND 0x03) = int (c mod 4)"
    "uint (drop_bit 3 w AND 0x0f) = int (c div 8)" "uint (drop_bit 2 w AND 0x1f) = int (c div 4)"
    "w AND 0x80 \<noteq> 0 \<longleftrightarrow> s"
    unfolding word_fields w_def code_uint[OF assms(1)] by (cases s; simp only: sc; simp)+
qed

lemma DecodeE4M3_code:
  assumes "c < 128"
  shows "DecodeE4M3 (put_bits (sign_bit s) (int c)) = (if c = 127 then NaN False else Fin s (grid 3 7 c))"
proof -
  let ?w = "put_bits (sign_bit s) (int c)"
  note f = code_fields[OF assms, of s]
  have "c = 127 \<longleftrightarrow> c div 8 = 15 \<and> c mod 8 = 7" using assms by presburger
  moreover have "c < 8 \<longleftrightarrow> c div 8 = 0" by presburger
  moreover have "c < 8 \<Longrightarrow> c mod 8 = c" by simp
  ultimately show ?thesis
    unfolding DecodeE4M3_def f Let_def
    by (auto simp: grid_def power_int_diff power_int_add field_simps)
qed

lemma DecodeE5M2_code:
  assumes "c < 128"
  shows "DecodeE5M2 (put_bits (sign_bit s) (int c)) =
    (if c = 124 then Inf s else if 124 < c then NaN False else Fin s (grid 2 15 c))"
proof -
  let ?w = "put_bits (sign_bit s) (int c)"
  note f = code_fields[OF assms, of s]
  have "c = 124 \<longleftrightarrow> c div 4 = 31 \<and> c mod 4 = 0" "124 \<le> c \<longleftrightarrow> c div 4 = 31" using assms by presburger+
  moreover have "c < 4 \<longleftrightarrow> c div 4 = 0" by presburger
  moreover have "c < 4 \<Longrightarrow> c mod 4 = c" by simp
  ultimately show ?thesis
    unfolding DecodeE5M2_def f Let_def
    by (auto simp: grid_def power_int_diff power_int_add field_simps)
qed

section \<open>Properties\<close>

lemma DecodeE4M3_FinD:
  assumes "DecodeE4M3 w = Fin s r"
  shows "\<exists>c \<le> 126. r = grid 3 7 c \<and> w = put_bits (sign_bit s) (int c)"
proof -
  obtain s' c where w: "c < 128" "w = put_bits (sign_bit s') (int c)" using code_of_word by blast
  then show ?thesis using assms DecodeE4M3_code[OF w(1), of s'] by (intro exI[of _ c]) (auto split: if_splits)
qed

lemma DecodeE5M2_FinD:
  assumes "DecodeE5M2 w = Fin s r"
  shows "\<exists>c \<le> 123. r = grid 2 15 c \<and> w = put_bits (sign_bit s) (int c)"
proof -
  obtain s' c where w: "c < 128" "w = put_bits (sign_bit s') (int c)" using code_of_word by blast
  then show ?thesis using assms DecodeE5M2_code[OF w(1), of s'] by (intro exI[of _ c]) (auto split: if_splits)
qed

lemma fp_of_nonneg: "fp_of x = Fin s v \<Longrightarrow> 0 \<le> v"
  by (auto simp: fp_of_def Let_def split: if_splits)

lemma even_code: "c < 128 \<Longrightarrow> even (uint (put_bits (sign_bit s) (int c))) \<longleftrightarrow> even c"
  using code_uint[of c s] by simp

lemma E4M3_finite:
  assumes "fp_of x = Fin s v"
  shows "\<exists>r. DecodeE4M3 (FloatToFp8E4M3 x) = Fin s r \<and>
    (\<forall>w q. DecodeE4M3 w = Fin s q \<and> w \<noteq> FloatToFp8E4M3 x \<longrightarrow>
       \<bar>v - r\<bar> < \<bar>v - q\<bar> \<or> \<bar>v - r\<bar> = \<bar>v - q\<bar> \<and> even (uint (FloatToFp8E4M3 x)))"
proof -
  obtain c where c: "c \<le> 126" "FloatToFp8E4M3 x = put_bits (sign_bit s) (int c)"
      "\<And>k. k \<le> 126 \<Longrightarrow> k \<noteq> c \<Longrightarrow> \<bar>v - grid 3 7 c\<bar> < \<bar>v - grid 3 7 k\<bar> \<or> \<bar>v - grid 3 7 c\<bar> = \<bar>v - grid 3 7 k\<bar> \<and> even c"
    using e4m3.encode_nearest[OF fp_of_nonneg[OF assms], of "sign_bit s"] by (auto simp: FloatToFp8E4M3_def assms)
  have "\<bar>v - grid 3 7 c\<bar> < \<bar>v - q\<bar> \<or> \<bar>v - grid 3 7 c\<bar> = \<bar>v - q\<bar> \<and> even (uint (FloatToFp8E4M3 x))"
    if w: "DecodeE4M3 w = Fin s q" "w \<noteq> FloatToFp8E4M3 x" for w q
  proof -
    obtain k where "k \<le> 126" "q = grid 3 7 k" "w = put_bits (sign_bit s) (int k)" using DecodeE4M3_FinD[OF w(1)] by blast
    then show ?thesis using c(3)[of k] w(2) c(1) even_code[of c s] by (auto simp: c(2))
  qed
  moreover have "DecodeE4M3 (FloatToFp8E4M3 x) = Fin s (grid 3 7 c)" using c(1,2) DecodeE4M3_code[of c s] by simp
  ultimately show ?thesis by blast
qed

lemma E5M2_finite:
  assumes "fp_of x = Fin s v"
  shows "\<exists>r. DecodeE5M2 (FloatToFp8E5M2 x) = Fin s r \<and>
    (\<forall>w q. DecodeE5M2 w = Fin s q \<and> w \<noteq> FloatToFp8E5M2 x \<longrightarrow>
       \<bar>v - r\<bar> < \<bar>v - q\<bar> \<or> \<bar>v - r\<bar> = \<bar>v - q\<bar> \<and> even (uint (FloatToFp8E5M2 x)))"
proof -
  obtain c where c: "c \<le> 123" "FloatToFp8E5M2 x = put_bits (sign_bit s) (int c)"
      "\<And>k. k \<le> 123 \<Longrightarrow> k \<noteq> c \<Longrightarrow> \<bar>v - grid 2 15 c\<bar> < \<bar>v - grid 2 15 k\<bar> \<or> \<bar>v - grid 2 15 c\<bar> = \<bar>v - grid 2 15 k\<bar> \<and> even c"
    using e5m2.encode_nearest[OF fp_of_nonneg[OF assms], of "sign_bit s"] by (auto simp: FloatToFp8E5M2_def assms)
  have "\<bar>v - grid 2 15 c\<bar> < \<bar>v - q\<bar> \<or> \<bar>v - grid 2 15 c\<bar> = \<bar>v - q\<bar> \<and> even (uint (FloatToFp8E5M2 x))"
    if w: "DecodeE5M2 w = Fin s q" "w \<noteq> FloatToFp8E5M2 x" for w q
  proof -
    obtain k where "k \<le> 123" "q = grid 2 15 k" "w = put_bits (sign_bit s) (int k)" using DecodeE5M2_FinD[OF w(1)] by blast
    then show ?thesis using c(3)[of k] w(2) c(1) even_code[of c s] by (auto simp: c(2))
  qed
  moreover have "DecodeE5M2 (FloatToFp8E5M2 x) = Fin s (grid 2 15 c)" using c(1,2) DecodeE5M2_code[of c s] by simp
  ultimately show ?thesis by blast
qed

lemma special_codes:
  "fp_of x = Inf s \<Longrightarrow> FloatToFp8E4M3 x = put_bits (sign_bit s) (int 126) \<and> FloatToFp8E5M2 x = put_bits (sign_bit s) (int 124)"
  "fp_of x = NaN s \<Longrightarrow> FloatToFp8E4M3 x = put_bits (sign_bit s) (int 127) \<and> FloatToFp8E5M2 x = put_bits (sign_bit s) (int 125)"
  by (simp_all add: FloatToFp8E4M3_def FloatToFp8E5M2_def put_bits_def)

text \<open>
  C38: Encoding rounds to the nearest, to even on a tie.  The 8-bit code of a finite \<open>float\<close> decodes,
  in both formats, to a number with the same sign, and every other code of that sign decodes to
  one that is farther away, or equally far and then the chosen code is even.  In particular a number
  beyond the largest one saturates and nothing finite becomes an infinity or a NaN.  An infinity
  becomes the largest number in E4M3, which has no infinities, and an infinity in E5M2, of the same
  sign; a NaN becomes a NaN.
\<close>

theorem fp8_encode_nearest:
  "case fp_of x of
     Fin s v \<Rightarrow>
       (\<exists>r4. DecodeE4M3 (FloatToFp8E4M3 x) = Fin s r4 \<and>
          (\<forall>w r. DecodeE4M3 w = Fin s r \<and> w \<noteq> FloatToFp8E4M3 x \<longrightarrow>
             \<bar>v - r4\<bar> < \<bar>v - r\<bar> \<or> \<bar>v - r4\<bar> = \<bar>v - r\<bar> \<and> even (uint (FloatToFp8E4M3 x)))) \<and>
       (\<exists>r5. DecodeE5M2 (FloatToFp8E5M2 x) = Fin s r5 \<and>
          (\<forall>w r. DecodeE5M2 w = Fin s r \<and> w \<noteq> FloatToFp8E5M2 x \<longrightarrow>
             \<bar>v - r5\<bar> < \<bar>v - r\<bar> \<or> \<bar>v - r5\<bar> = \<bar>v - r\<bar> \<and> even (uint (FloatToFp8E5M2 x))))
   | Inf s \<Rightarrow> DecodeE4M3 (FloatToFp8E4M3 x) = Fin s 448 \<and> DecodeE5M2 (FloatToFp8E5M2 x) = Inf s
   | NaN s \<Rightarrow> DecodeE4M3 (FloatToFp8E4M3 x) = NaN False \<and> DecodeE5M2 (FloatToFp8E5M2 x) = NaN False"
proof (cases "fp_of x")
  case (Fin s v)
  then show ?thesis using E4M3_finite E5M2_finite by simp
next
  case (Inf s)
  then show ?thesis
    using special_codes(1)[OF Inf] DecodeE4M3_code[of 126 s] DecodeE5M2_code[of 124 s] by (simp add: grid_def)
next
  case (NaN s)
  then show ?thesis using special_codes(2)[OF NaN] DecodeE4M3_code[of 127 s] DecodeE5M2_code[of 125 s] by simp
qed

text \<open>
  The float 19/16 lies half way between 9/8 and 5/4, the numbers of the E4M3 codes 57 and 58: it
  does not go to the odd one.
\<close>

theorem fp8_encode_nearest_witness:
  "fp_of 0x3f980000 = Fin False (19 / 16) \<and> DecodeE4M3 57 = Fin False (9 / 8) \<and> DecodeE4M3 58 = Fin False (5 / 4) \<and>
   FloatToFp8E4M3 0x3f980000 \<noteq> 57"
proof -
  have x: "fp_of 0x3f980000 = Fin False (19 / 16)"
    by (simp add: fp_of_def f32_negative_def f32_exponent_def f32_mantissa_def Let_def)
  have codes: "put_bits (sign_bit False) (int 57) = 57" "put_bits (sign_bit False) (int 58) = 58"
    by (simp_all add: put_bits_def sign_bit_def)
  have d: "DecodeE4M3 57 = Fin False (9 / 8)" "DecodeE4M3 58 = Fin False (5 / 4)"
    using DecodeE4M3_code[of 57 False] DecodeE4M3_code[of 58 False] unfolding codes by (simp_all add: grid_def)
  have "FloatToFp8E4M3 0x3f980000 \<noteq> 57"
  proof
    assume e: "FloatToFp8E4M3 0x3f980000 = 57"
    obtain r where r: "DecodeE4M3 57 = Fin False r" and near: "\<And>w q. DecodeE4M3 w = Fin False q \<Longrightarrow> w \<noteq> 57 \<Longrightarrow>
        \<bar>19 / 16 - r\<bar> < \<bar>19 / 16 - q\<bar> \<or> \<bar>19 / 16 - r\<bar> = \<bar>19 / 16 - q\<bar> \<and> even (uint (57 :: u8))"
      using fp8_encode_nearest[of "0x3f980000"] unfolding x e by auto
    have "r = 9 / 8" using r d(1) by simp
    then show False using near[OF d(2)] by simp
  qed
  then show ?thesis using x d by blast
qed

text \<open>
  Both 8-bit formats survive decoding and encoding: every code comes back unchanged, except
  that the codes of NaN come back as the positive one the encoder uses.
\<close>

theorem fp8_roundtrip:
  "EncodeE4M3 (DecodeE4M3 w) = (if uint w mod 128 = 127 then 0x7f else w) \<and>
   EncodeE5M2 (DecodeE5M2 w) = (if uint w mod 128 > 124 then 0x7d else w)"
proof -
  obtain s c where w: "c < 128" "w = put_bits (sign_bit s) (int c)" using code_of_word by blast
  have m: "uint w mod 128 = int c" using w code_uint[OF w(1), of s] by auto
  have "EncodeE4M3 (DecodeE4M3 w) = w" if "c \<le> 126"
    using that w DecodeE4M3_code[OF w(1), of s] e4m3.encode_code[OF that] by simp
  moreover have "EncodeE5M2 (DecodeE5M2 w) = w" if "c \<le> 123"
    using that w DecodeE5M2_code[OF w(1), of s] e5m2.encode_code[OF that] by simp
  moreover have "EncodeE5M2 (Inf s) = put_bits (sign_bit s) 124" by (simp add: put_bits_def)
  ultimately show ?thesis
    using w m DecodeE4M3_code[OF w(1), of s] DecodeE5M2_code[OF w(1), of s]
    by (cases "c = 127"; cases "c = 124"; cases "124 < c") (auto simp: sign_bit_def)
qed

end
