(* ===== verification/Selection_Kernels.thy ===== *)
theory Selection_Kernels
  imports Layout_Kernels "HOL-Library.Signed_Division"
begin

text \<open>
  The selection kernels of \<open>src/kernel/common/yolo_selection.cc\<close>: \<open>TopK\<close>, \<open>GatherElements\<close>,
  \<open>ReduceMax\<close>, \<open>Mod\<close> and the integer \<open>Div\<close>, with the shape rules of
  \<open>src/operator/yolo_selection_ops.cc\<close>.  Elements are copied as they are stored; \<open>ri\<close> and \<open>rf\<close> are
  \<open>ReadInteger\<close> and \<open>ReadFloat\<close> of the element type, \<open>integer\<close> says which of the two compares.
\<close>

section \<open>Comparing elements\<close>

definition IsYoloSelectionInteger :: "DataType \<Rightarrow> bool" where
  "IsYoloSelectionInteger dtype \<longleftrightarrow> dtype = INT64 \<or> dtype = INT32 \<or> dtype = INT8 \<or> dtype = UINT8"

definition IsYoloSelectionNumeric :: "DataType \<Rightarrow> bool" where
  "IsYoloSelectionNumeric dtype \<longleftrightarrow> IsYoloSelectionInteger dtype \<or> IsFloatingPointDataType dtype"

text \<open>\<open>a < b\<close> on \<open>float\<close>s: the sign-magnitude pattern as a signed number orders what is not a NaN.\<close>

definition f32_key :: "f32 \<Rightarrow> int" where
  "f32_key b = (if f32_negative b then - int (unat b mod 2147483648) else int (unat b mod 2147483648))"

definition f32_less :: "f32 \<Rightarrow> f32 \<Rightarrow> bool" where
  "f32_less a b \<longleftrightarrow> \<not> f32_is_nan a \<and> \<not> f32_is_nan b \<and> f32_key a < f32_key b"

definition GreaterValue :: "bool \<Rightarrow> ('s \<Rightarrow> int) \<Rightarrow> ('s \<Rightarrow> f32) \<Rightarrow> 's \<Rightarrow> 's \<Rightarrow> bool" where
  "GreaterValue integer ri rf lhs rhs =
     (if integer then ri lhs > ri rhs
      else (let a = rf lhs; b = rf rhs in
            if f32_is_nan a then \<not> f32_is_nan b else if f32_is_nan b then False else f32_less b a))"

section \<open>TopK\<close>

text \<open>The comparison of positions in a lane, and the sort with it; \<open>partial_sort\<close> leaves its first \<open>k\<close>.\<close>

definition before :: "('s \<Rightarrow> 's \<Rightarrow> bool) \<Rightarrow> bool \<Rightarrow> (nat \<Rightarrow> 's) \<Rightarrow> nat \<Rightarrow> nat \<Rightarrow> bool" where
  "before beats largest at a b =
     (let a_greater = beats (at a) (at b); b_greater = beats (at b) (at a) in
      if \<not> a_greater \<and> \<not> b_greater then a < b else if largest then a_greater else b_greater)"

fun insert_by :: "(nat \<Rightarrow> nat \<Rightarrow> bool) \<Rightarrow> nat \<Rightarrow> nat list \<Rightarrow> nat list" where
  "insert_by prior x [] = [x]"
| "insert_by prior x (y # ys) = (if prior y x then y # insert_by prior x ys else x # y # ys)"

definition sort_by :: "(nat \<Rightarrow> nat \<Rightarrow> bool) \<Rightarrow> nat list \<Rightarrow> nat list" where
  "sort_by prior xs = foldr (insert_by prior) xs []"

definition topk_order :: "('s \<Rightarrow> 's \<Rightarrow> bool) \<Rightarrow> bool \<Rightarrow> 's list \<Rightarrow> nat \<Rightarrow> nat \<Rightarrow> nat \<Rightarrow> nat \<Rightarrow> nat list" where
  "topk_order beats largest data len inner batch lane =
     sort_by (before beats largest (\<lambda>index. data ! ((batch * len + index) * inner + lane))) [0..<len]"

definition topk_writes :: "('s \<Rightarrow> 's \<Rightarrow> bool) \<Rightarrow> bool \<Rightarrow> 's list \<Rightarrow> nat \<Rightarrow> nat \<Rightarrow> nat \<Rightarrow> nat \<Rightarrow> (nat \<times> nat \<times> nat) list" where
  "topk_writes beats largest data len k outer inner =
     [((batch * k + selected) * inner + lane,
       (batch * len + topk_order beats largest data len inner batch lane ! selected) * inner + lane,
       topk_order beats largest data len inner batch lane ! selected).
      batch \<leftarrow> [0..<outer], lane \<leftarrow> [0..<inner], selected \<leftarrow> [0..<k]]"

definition NormalizeAxis :: "i64 \<Rightarrow> nat \<Rightarrow> i64" where
  "NormalizeAxis axis rank = (if axis < 0 then axis + int rank else axis)"

definition TopK ::
  "bool \<Rightarrow> ('s \<Rightarrow> int) \<Rightarrow> ('s \<Rightarrow> f32) \<Rightarrow> i64 \<Rightarrow> bool \<Rightarrow> 's nd \<Rightarrow> i64 nd option \<Rightarrow> 's nd \<Rightarrow> i64 nd option \<Rightarrow>
   int \<times> 's nd \<times> i64 nd option" where
  "TopK integer ri rf axis_attr largest data control out indices_out =
     (case (control, indices_out) of
        (Some c, Some io) \<Rightarrow>
          if nd_data c = [] \<or> nd_type c \<noteq> INT64 \<or> nd_numel c \<noteq> 1 then (-1, out, indices_out)
          else
            (let dims = nd_dims data; axis = NormalizeAxis axis_attr (length dims) in
             if axis < 0 \<or> int (length dims) \<le> axis then (-1, out, indices_out)
             else
               (let len = dims ! nat axis; k = nd_data c ! 0; expected = dims[nat axis := k] in
                if k < 0 \<or> k > len then (-1, out, indices_out)
                else if nd_dims out \<noteq> expected \<or> nd_dims io \<noteq> expected \<or> nd_type io \<noteq> INT64 then (-1, out, indices_out)
                else if nd_numel out = 0 then (0, out, indices_out)
                else
                  (let outer = nat (prod_list (take (nat axis) dims)); inner = nat (prod_list (drop (Suc (nat axis)) dims));
                       writes = topk_writes (GreaterValue integer ri rf) largest (nd_data data) (nat len) (nat k) outer inner
                   in (0, out\<lparr>nd_data := fold (\<lambda>(d, s, i) o'. o'[d := nd_data data ! s]) writes (nd_data out)\<rparr>,
                       Some (io\<lparr>nd_data := fold (\<lambda>(d, s, i) o'. o'[d := int i]) writes (nd_data io)\<rparr>)))))
      | _ \<Rightarrow> (-1, out, indices_out))"

section \<open>GatherElements\<close>

text \<open>The loop stops with \<open>-1\<close> at the first index out of range.\<close>

fun gather_elements_loop :: "nat \<Rightarrow> 's nd \<Rightarrow> i64 nd \<Rightarrow> nat list \<Rightarrow> 's list \<Rightarrow> bool \<times> 's list" where
  "gather_elements_loop axis data indices [] out = (True, out)"
| "gather_elements_loop axis data indices (i # rest) out =
     (let dims = nd_dims data; coords = LinearToCoords (int i) (ComputeStrides (nd_dims indices));
          read = nd_data indices ! i; index = (if read < 0 then read + dims ! axis else read)
      in if index < 0 \<or> index \<ge> dims ! axis then (False, out)
         else gather_elements_loop axis data indices rest
                (out[i := data_at data (offset_of (coords[axis := index]) (ComputeStrides dims))]))"

definition GatherElements :: "i64 \<Rightarrow> 's nd \<Rightarrow> i64 nd option \<Rightarrow> 's nd \<Rightarrow> int \<times> 's nd" where
  "GatherElements axis_attr data control out =
     (case control of None \<Rightarrow> (-1, out)
      | Some indices \<Rightarrow>
          if nd_type indices \<noteq> INT64 \<or> nd_dims out \<noteq> nd_dims indices then (-1, out)
          else
            (let dims = nd_dims data; idims = nd_dims indices; axis = NormalizeAxis axis_attr (length dims) in
             if axis < 0 \<or> int (length dims) \<le> axis \<or> length idims \<noteq> length dims then (-1, out)
             else if \<exists>i \<in> set [0..<length dims]. int i \<noteq> axis \<and> idims ! i > dims ! i then (-1, out)
             else if nd_numel out = 0 then (0, out)
             else (case gather_elements_loop (nat axis) data indices [0..<nat (nd_numel out)] (nd_data out) of
                     (fine, d) \<Rightarrow> (if fine then 0 else -1, out\<lparr>nd_data := d\<rparr>))))"

section \<open>ReduceMax\<close>

definition YoloSelectionAxes :: "i64 list \<Rightarrow> i64 nd option \<Rightarrow> bool \<Rightarrow> nat \<Rightarrow> i64 list option" where
  "YoloSelectionAxes axes_attr control noop_with_empty_axes rank =
     (let given = (case control of None \<Rightarrow> Some axes_attr
          | Some c \<Rightarrow> if nd_type c \<noteq> INT64 then None
                      else if nd_numel c = 0 then Some []
                      else if nd_data c = [] then None else Some (take (nat (nd_numel c)) (nd_data c)))
      in case given of None \<Rightarrow> None
         | Some axes \<Rightarrow>
             (let axes = (if axes = [] \<and> \<not> noop_with_empty_axes then map int [0..<rank] else axes);
                  normal = map (\<lambda>axis. if axis < 0 then axis + int rank else axis) axes
              in if (\<exists>axis \<in> set normal. axis < 0 \<or> int rank \<le> axis) \<or> \<not> distinct normal then None
                 else Some (sort normal)))"

text \<open>The shape that is left, and the offset of an input's coordinates in it.\<close>

definition reduced_shape :: "i64 list \<Rightarrow> bool \<Rightarrow> i64 list \<Rightarrow> i64 list" where
  "reduced_shape axes keepdims dims =
     concat (map (\<lambda>i. if int i \<in> set axes then if keepdims then [1] else [] else [dims ! i]) [0..<length dims])"

fun reduce_target :: "i64 list \<Rightarrow> bool \<Rightarrow> i64 list \<Rightarrow> nat \<Rightarrow> nat \<Rightarrow> i64 list \<Rightarrow> i64" where
  "reduce_target axes keepdims out_strides axis out_axis [] = 0"
| "reduce_target axes keepdims out_strides axis out_axis (c # coords) =
     (if int axis \<in> set axes
      then reduce_target axes keepdims out_strides (Suc axis) (if keepdims then Suc out_axis else out_axis) coords
      else c * out_strides ! out_axis + reduce_target axes keepdims out_strides (Suc axis) (Suc out_axis) coords)"

definition update_choice :: "('s \<Rightarrow> 's \<Rightarrow> bool) \<Rightarrow> 's list \<Rightarrow> (nat \<Rightarrow> nat) \<Rightarrow> nat \<Rightarrow> nat option list \<Rightarrow> nat option list" where
  "update_choice beats data target i selected =
     (case selected ! target i of
        None \<Rightarrow> selected[target i := Some i]
      | Some choice \<Rightarrow> if beats (data ! i) (data ! choice) then selected[target i := Some i] else selected)"

text \<open>
  What an output element nothing was selected for is set to: \<open>wi\<close> stores an integer of the element
  type, \<open>wr\<close> is \<open>TensorIO::Write\<close> of the output, given minus infinity.  A type without a case keeps the element.
\<close>

definition WriteLowest :: "(i64 \<Rightarrow> 's) \<Rightarrow> (f32 \<Rightarrow> 's) \<Rightarrow> DataType \<Rightarrow> 's \<Rightarrow> 's" where
  "WriteLowest wi wr dtype old =
     (if dtype = INT64 then wi INT64_MIN
      else if dtype = INT32 then wi (- 2147483648)
      else if dtype = INT8 then wi (- 128)
      else if dtype = UINT8 then wi 0
      else if dtype = FP32 \<or> dtype = FP16 \<or> dtype = BF16 \<or> dtype = FP8E4M3 \<or> dtype = FP8E5M2 then wr 0xFF800000
      else old)"

definition ReduceMax ::
  "bool \<Rightarrow> ('s \<Rightarrow> int) \<Rightarrow> ('s \<Rightarrow> f32) \<Rightarrow> (i64 \<Rightarrow> 's) \<Rightarrow> (f32 \<Rightarrow> 's) \<Rightarrow> i64 list \<Rightarrow> bool \<Rightarrow> bool \<Rightarrow> 's nd \<Rightarrow> i64 nd option \<Rightarrow> 's nd \<Rightarrow> int \<times> 's nd" where
  "ReduceMax integer ri rf wi wr axes_attr keepdims noop_with_empty_axes data control out =
     (case YoloSelectionAxes axes_attr control noop_with_empty_axes (length (nd_dims data)) of
        None \<Rightarrow> (-1, out)
      | Some axes \<Rightarrow>
          (let dims = nd_dims data; expected = reduced_shape axes keepdims dims in
           if nd_dims out \<noteq> expected then (-1, out)
           else if nd_numel out = 0 then (0, out)
           else
             (let target = (\<lambda>i. nat (reduce_target axes keepdims (ComputeStrides expected) 0 0
                    (LinearToCoords (int i) (ComputeStrides dims))));
                  selected = fold (update_choice (GreaterValue integer ri rf) (nd_data data) target)
                    [0..<nat (nd_numel data)] (replicate (nat (nd_numel out)) None)
              in (0, out\<lparr>nd_data := fold (\<lambda>i o'. o'[i :=
                      (case selected ! i of None \<Rightarrow> WriteLowest wi wr (nd_type out) (nd_data out ! i) | Some c \<Rightarrow> nd_data data ! c)])
                    [0..<nat (nd_numel out)] (nd_data out)\<rparr>))))"

section \<open>Mod and integer Div\<close>

text \<open>\<open>a / b\<close> and \<open>a % b\<close> truncate; their one overflow is met before they are computed.\<close>

definition integer_value :: "bool \<Rightarrow> bool \<Rightarrow> i64 \<Rightarrow> i64 \<Rightarrow> i64 option" where
  "integer_value is_div fmod a b =
     (if b = 0 then None
      else (let overflow = (a = INT64_MIN \<and> b = -1) in
            if is_div \<and> overflow then None
            else (let v = (if is_div then a sdiv b else if overflow then 0 else a smod b)
                  in Some (if \<not> is_div \<and> \<not> fmod \<and> v \<noteq> 0 \<and> (v < 0) \<noteq> (b < 0) then v + b else v))))"

text \<open>The casts of \<open>WriteInteger\<close>.\<close>

definition WriteInteger :: "DataType \<Rightarrow> i64 \<Rightarrow> i64" where
  "WriteInteger dtype v =
     (if dtype = INT32 then signed_take_bit 31 v else if dtype = INT8 then signed_take_bit 7 v
      else if dtype = UINT8 then take_bit 8 v else v)"

fun integer_loop :: "bool \<Rightarrow> bool \<Rightarrow> DataType \<Rightarrow> (nat \<Rightarrow> i64) \<Rightarrow> (nat \<Rightarrow> i64) \<Rightarrow> nat list \<Rightarrow> i64 list \<Rightarrow> bool \<times> i64 list" where
  "integer_loop is_div fmod dtype a b [] out = (True, out)"
| "integer_loop is_div fmod dtype a b (i # rest) out =
     (case integer_value is_div fmod (a i) (b i) of None \<Rightarrow> (False, out)
      | Some v \<Rightarrow> integer_loop is_div fmod dtype a b rest (out[i := WriteInteger dtype v]))"

definition YoloSelectionBroadcast :: "i64 list \<Rightarrow> i64 list \<Rightarrow> i64 list option" where
  "YoloSelectionBroadcast lhs rhs =
     for_axes (max (length lhs) (length rhs)) (\<lambda>i.
       let a = aligned_dim (max (length lhs) (length rhs)) lhs i; b = aligned_dim (max (length lhs) (length rhs)) rhs i in
       if a < 0 \<or> b < 0 \<or> a \<noteq> b \<and> a \<noteq> 1 \<and> b \<noteq> 1 then None else Some (if a = 1 then b else a))"

text \<open>\<open>IntegerBinary\<close> on an integer element type.\<close>

definition IntegerBinary :: "bool \<Rightarrow> bool \<Rightarrow> i64 nd option \<Rightarrow> i64 nd option \<Rightarrow> i64 nd option \<Rightarrow> int \<times> i64 nd option" where
  "IntegerBinary is_div fmod lhs rhs output =
     (case (lhs, rhs, output) of
        (Some l, Some r, Some out) \<Rightarrow>
          if nd_type l \<noteq> nd_type r \<or> nd_type l \<noteq> nd_type out then (-1, output)
          else (case YoloSelectionBroadcast (nd_dims l) (nd_dims r) of None \<Rightarrow> (-1, output)
                | Some shape \<Rightarrow>
                    if nd_dims out \<noteq> shape then (-1, output)
                    else (let coords = (\<lambda>i. LinearToCoords (int i) (ComputeStrides shape));
                              a = (\<lambda>i. data_at l (BroadcastOffset (coords i) (nd_dims l) (ComputeStrides (nd_dims l))));
                              b = (\<lambda>i. data_at r (BroadcastOffset (coords i) (nd_dims r) (ComputeStrides (nd_dims r))));
                              (fine, d) = integer_loop is_div fmod (nd_type l) a b [0..<nat (nd_numel out)] (nd_data out)
                          in (if fine then 0 else -1, Some (out\<lparr>nd_data := d\<rparr>))))
      | _ \<Rightarrow> (-1, output))"

end
