(* ===== verification/Selection_Laws.thy ===== *)
theory Selection_Laws
  imports Selection_Kernels
begin

text \<open>
  What the selection kernels compute: \<open>TopK\<close> the best elements of each lane in order, \<open>ReduceMax\<close>
  the first greatest element of each group, \<open>GatherElements\<close> the indexed elements, \<open>Mod\<close> the modulus.
\<close>

section \<open>The comparison is a ranking\<close>

definition rank_of :: "bool \<Rightarrow> ('s \<Rightarrow> int) \<Rightarrow> ('s \<Rightarrow> f32) \<Rightarrow> 's \<Rightarrow> int" where
  "rank_of integer ri rf x = (if integer then ri x else if f32_is_nan (rf x) then 2147483648 else f32_key (rf x))"

lemma f32_key_less: "f32_key b < 2147483648"
proof -
  have "int (unat b mod 2147483648) < 2147483648" by simp
  then show ?thesis by (simp add: f32_key_def)
qed

lemma GreaterValue_rank: "GreaterValue integer ri rf x y \<longleftrightarrow> rank_of integer ri rf y < rank_of integer ri rf x"
  using f32_key_less[of "rf x"] f32_key_less[of "rf y"]
  by (auto simp: GreaterValue_def rank_of_def Let_def f32_less_def)

section \<open>Sorting with a strict total order\<close>

locale strict_order =
  fixes prior :: "nat \<Rightarrow> nat \<Rightarrow> bool"
  assumes irreflexive: "\<not> prior x x"
    and transitive: "prior x y \<Longrightarrow> prior y z \<Longrightarrow> prior x z"
    and total: "x \<noteq> y \<Longrightarrow> prior x y \<or> prior y x"
begin

lemma asym: "prior x y \<Longrightarrow> \<not> prior y x"
  using irreflexive transitive by blast

lemma set_insert_by [simp]: "set (insert_by prior x ys) = insert x (set ys)"
  by (induction ys) auto

lemma length_insert_by [simp]: "length (insert_by prior x ys) = Suc (length ys)"
  by (induction ys) auto

lemma sorted_insert_by:
  "sorted_wrt prior ys \<Longrightarrow> x \<notin> set ys \<Longrightarrow> sorted_wrt prior (insert_by prior x ys)"
proof (induction ys)
  case (Cons y ys)
  show ?case
  proof (cases "prior y x")
    case True
    then show ?thesis using Cons by simp
  next
    case False
    then have "prior x y" using Cons.prems(2) total[of x y] by auto
    then show ?thesis using Cons.prems(1) False transitive by auto
  qed
qed simp

lemma sort_by_facts:
  "set (sort_by prior xs) = set xs \<and> length (sort_by prior xs) = length xs \<and>
   (distinct xs \<longrightarrow> sorted_wrt prior (sort_by prior xs))"
  by (induction xs) (simp_all add: sort_by_def sorted_insert_by)

lemma distinct_sort_by: "distinct xs \<Longrightarrow> distinct (sort_by prior xs)"
  using sort_by_facts[of xs] by (metis card_distinct distinct_card)

text \<open>The first elements of the sorted list are in order and before all the others.\<close>

lemma take_sort_by:
  assumes "distinct xs" "k \<le> length xs"
  shows "sorted_wrt prior (take k (sort_by prior xs))" "distinct (take k (sort_by prior xs))"
    "set (take k (sort_by prior xs)) \<subseteq> set xs"
    "\<And>a b. a \<in> set (take k (sort_by prior xs)) \<Longrightarrow> b \<in> set xs \<Longrightarrow> b \<notin> set (take k (sort_by prior xs)) \<Longrightarrow> prior a b"
proof -
  let ?s = "sort_by prior xs"
  have s: "sorted_wrt prior (take k ?s @ drop k ?s)" "set (take k ?s @ drop k ?s) = set xs"
    using sort_by_facts[of xs] assms(1) by simp_all
  then show "sorted_wrt prior (take k ?s)" by (simp only: sorted_wrt_append)
  show "distinct (take k ?s)" using distinct_sort_by[OF assms(1)] by (rule distinct_take)
  show "set (take k ?s) \<subseteq> set xs" using sort_by_facts[of xs] by (auto dest: in_set_takeD)
  fix a b
  assume "a \<in> set (take k ?s)" "b \<in> set xs" "b \<notin> set (take k ?s)"
  then show "prior a b" using s by (auto simp only: sorted_wrt_append set_append)
qed

end

definition better :: "bool \<Rightarrow> (nat \<Rightarrow> int) \<Rightarrow> nat \<Rightarrow> nat \<Rightarrow> bool" where
  "better largest key a b \<longleftrightarrow> (if largest then key b < key a else key a < key b) \<or> key a = key b \<and> a < b"

interpretation better: strict_order "better largest key"
  by unfold_locales (auto simp: better_def split: if_splits)

lemma before_better:
  "before (GreaterValue integer ri rf) largest at = better largest (\<lambda>i. rank_of integer ri rf (at i))"
  by (auto simp: fun_eq_iff before_def better_def GreaterValue_rank Let_def)

section \<open>Writes at distinct places\<close>

lemma fold_writes_other:
  "j \<notin> p ` set xs \<Longrightarrow> fold (\<lambda>x out. out[p x := v x]) xs out ! j = out ! j"
  by (induction xs arbitrary: out) simp_all

lemma fold_writes_at:
  assumes "x \<in> set xs" "inj_on p (set xs)" "p x < length out"
  shows "fold (\<lambda>x out. out[p x := v x]) xs out ! p x = v x"
  using assms
proof (induction xs arbitrary: out)
  case (Cons y ys)
  show ?case
  proof (cases "x \<in> set ys")
    case True
    then show ?thesis using Cons by (auto simp: inj_on_def)
  next
    case False
    then have xy: "x = y" using Cons.prems(1) by simp
    have "p x \<notin> p ` set ys" using Cons.prems(2) False xy by (auto simp: inj_on_def)
    then show ?thesis using Cons.prems(3) xy by (simp add: fold_writes_other)
  qed
qed simp

lemma cell_inj:
  fixes b k s inner l :: nat
  assumes "(b * k + s) * inner + l = (b' * k + s') * inner + l'" "l < inner" "l' < inner" "s < k" "s' < k"
  shows "b = b' \<and> s = s' \<and> l = l'"
proof -
  have parts: "(n * m + r) mod m = r" "(n * m + r) div m = n" if "r < m" for n m r :: nat
    using that by simp_all
  have "l = l'" "b * k + s = b' * k + s'" using parts[OF assms(2)] parts[OF assms(3)] assms(1) by metis+
  moreover from this(2) have "s = s'" "b = b'" using parts[OF assms(4)] parts[OF assms(5)] by metis+
  ultimately show ?thesis by simp
qed

lemma row_less: "b < m \<Longrightarrow> s < k \<Longrightarrow> b * k + s < m * k" for b m s k :: nat
proof -
  assume a: "b < m" "s < k"
  then have "Suc b * k \<le> m * k" by (intro mult_le_mono1) simp
  then show ?thesis using a(2) by simp
qed

lemma cell_less: "b < outer \<Longrightarrow> s < k \<Longrightarrow> l < inner \<Longrightarrow> (b * k + s) * inner + l < outer * k * inner" for b k s l :: nat
  by (intro row_less)

section \<open>TopK\<close>

definition lane_of :: "'a list \<Rightarrow> nat \<Rightarrow> nat \<Rightarrow> nat \<Rightarrow> nat \<Rightarrow> 'a list" where
  "lane_of data len inner batch lane = map (\<lambda>i. data ! ((batch * len + i) * inner + lane)) [0..<len]"

text \<open>The positions of the \<open>k\<close> best of a lane, best first; equals in the order of their positions.\<close>

definition best_of :: "bool \<Rightarrow> (nat \<Rightarrow> int) \<Rightarrow> nat \<Rightarrow> nat \<Rightarrow> nat list \<Rightarrow> bool" where
  "best_of largest key len k sel \<longleftrightarrow> length sel = k \<and> distinct sel \<and> set sel \<subseteq> {0..<len} \<and>
     sorted_wrt (better largest key) sel \<and> (\<forall>i \<in> set sel. \<forall>j < len. j \<notin> set sel \<longrightarrow> better largest key i j)"

lemma take_order_best:
  assumes "k \<le> len"
  shows "best_of largest key len k (take k (sort_by (better largest key) [0..<len]))"
  using assms better.sort_by_facts[where xs = "[0..<len]" and largest = largest and key = key]
    better.take_sort_by[where xs = "[0..<len]" and k = k and largest = largest and key = key]
  by (auto simp: best_of_def)

lemma better_cong: "(\<And>i. i < len \<Longrightarrow> key i = key' i) \<Longrightarrow> best_of largest key len k sel \<Longrightarrow> best_of largest key' len k sel"
proof -
  assume k: "\<And>i. i < len \<Longrightarrow> key i = key' i" and b: "best_of largest key len k sel"
  have eq: "better largest key i j = better largest key' i j" if "i < len" "j < len" for i j
    using k[OF that(1)] k[OF that(2)] by (simp add: better_def)
  have "i < len" if "i \<in> set sel" for i using that b by (auto simp: best_of_def)
  then show ?thesis
    using b eq sorted_wrt_mono_rel[of sel "better largest key" "better largest key'"] by (auto simp: best_of_def)
qed

lemma topk_writes_inj: "inj_on fst (set (topk_writes beats largest data len k outer inner))"
  by (auto simp: inj_on_def topk_writes_def dest: cell_inj)

lemma topk_writes_mem:
  "b < outer \<Longrightarrow> l < inner \<Longrightarrow> s < k \<Longrightarrow>
   ((b * k + s) * inner + l, (b * len + topk_order beats largest data len inner b l ! s) * inner + l,
      topk_order beats largest data len inner b l ! s) \<in> set (topk_writes beats largest data len k outer inner)"
  unfolding topk_writes_def
  by (simp, intro bexI[of _ b] bexI[of _ l] image_eqI[of _ _ s]) simp_all

lemma take_map_nth: "k \<le> length xs \<Longrightarrow> map (\<lambda>i. xs ! i) [0..<k] = take k xs"
  by (rule nth_equalityI) simp_all

lemma topk_lanes:
  fixes v :: "nat \<times> nat \<times> nat \<Rightarrow> 'b" and data :: "'s list"
  assumes "length out = outer * k * inner" "b < outer" "l < inner" "k \<le> len"
  shows "lane_of (fold (\<lambda>x o'. o'[fst x := v x]) (topk_writes beats largest data len k outer inner) out) k inner b l =
    map (\<lambda>s. v ((b * k + s) * inner + l, (b * len + topk_order beats largest data len inner b l ! s) * inner + l,
      topk_order beats largest data len inner b l ! s)) [0..<k]"
  unfolding lane_of_def
proof (rule map_cong[OF refl])
  fix s
  assume "s \<in> set [0..<k]"
  then have s: "s < k" by simp
  note m = topk_writes_mem[OF assms(2,3) s, of len beats largest data]
  show "fold (\<lambda>x o'. o'[fst x := v x]) (topk_writes beats largest data len k outer inner) out ! ((b * k + s) * inner + l) =
      v ((b * k + s) * inner + l, (b * len + topk_order beats largest data len inner b l ! s) * inner + l,
        topk_order beats largest data len inner b l ! s)"
    using fold_writes_at[OF m topk_writes_inj, of out v] cell_less[OF assms(2) s assms(3)] assms(1) by simp
qed

lemma prod_list_update: "i < length dims \<Longrightarrow> prod_list (dims[i := k]) = prod_list (take i dims) * k * prod_list (drop (Suc i) dims)"
  for dims :: "int list"
  by (simp add: upd_conv_take_nth_drop)

lemma sized_lane:
  assumes "nd_ok t" "nd_dims t = dims[axis := k]" "axis < length dims" "\<forall>d \<in> set dims. 0 \<le> d" "0 \<le> k"
  shows "length (nd_data t) = nat (prod_list (take axis dims)) * nat k * nat (prod_list (drop (Suc axis) dims))"
proof -
  have "0 \<le> prod_list (take axis dims)" "0 \<le> prod_list (drop (Suc axis) dims)"
    using assms(4) by (auto intro!: prod_list_nonneg dest: in_set_takeD in_set_dropD)
  moreover have "int (length (nd_data t)) = prod_list (take axis dims) * k * prod_list (drop (Suc axis) dims)"
    using assms(1-3) by (simp add: nd_ok_def prod_list_update)
  ultimately have "int (length (nd_data t)) = int (nat (prod_list (take axis dims)) * nat k * nat (prod_list (drop (Suc axis) dims)))"
    using assms(5) by simp
  then show ?thesis by (simp only: of_nat_eq_iff)
qed

text \<open>
  C40: \<open>TopK\<close> selects the best.  On tensors of the right shapes it succeeds, and in every lane along
  the axis the index output lists the positions of the \<open>k\<close> best elements, best first and equal ones
  by position, each better than every position left out, while the value output holds the elements
  found there.  A NaN counts as greater than every number, so the order is total.
\<close>

theorem TopK_selects_best:
  assumes "NormalizeAxis axis_attr (length (nd_dims data)) = int axis" "axis < length (nd_dims data)"
    and "nd_type c = INT64" "nd_data c = [k]" "nd_numel c = 1" "0 \<le> k" "k \<le> nd_dims data ! axis"
    and "nd_ok data" "nd_ok out" "nd_ok io" "nd_type io = INT64"
    and "nd_dims out = (nd_dims data)[axis := k]" "nd_dims io = (nd_dims data)[axis := k]"
  defines "len \<equiv> nat (nd_dims data ! axis)" and "outer \<equiv> nat (prod_list (take axis (nd_dims data)))"
    and "inner \<equiv> nat (prod_list (drop (Suc axis) (nd_dims data)))"
  shows "\<exists>out' io'. TopK integer ri rf axis_attr largest data (Some c) out (Some io) = (0, out', Some io') \<and>
    (\<forall>b < outer. \<forall>l < inner. \<exists>sel. best_of largest (\<lambda>i. rank_of integer ri rf (lane_of (nd_data data) len inner b l ! i)) len (nat k) sel \<and>
       lane_of (nd_data io') (nat k) inner b l = map int sel \<and>
       lane_of (nd_data out') (nat k) inner b l = map ((!) (lane_of (nd_data data) len inner b l)) sel)"
proof -
  let ?gt = "GreaterValue integer ri rf"
  let ?w = "topk_writes ?gt largest (nd_data data) len (nat k) outer inner"
  let ?out = "if nd_numel out = 0 then out else out\<lparr>nd_data := fold (\<lambda>x o'. o'[fst x := nd_data data ! fst (snd x)]) ?w (nd_data out)\<rparr>"
  let ?io = "if nd_numel out = 0 then io else io\<lparr>nd_data := fold (\<lambda>x o'. o'[fst x := int (snd (snd x))]) ?w (nd_data io)\<rparr>"
  have run: "TopK integer ri rf axis_attr largest data (Some c) out (Some io) = (0, ?out, Some ?io)"
    using assms(1-7,11-13) by (simp add: TopK_def Let_def len_def outer_def inner_def case_prod_unfold)
  have dims: "\<forall>d \<in> set (nd_dims data). 0 \<le> d" using assms(8) by (simp add: nd_ok_def)
  note size = sized_lane[OF assms(9,12) assms(2) dims assms(6), folded outer_def inner_def]
    sized_lane[OF assms(10,13) assms(2) dims assms(6), folded outer_def inner_def]
  have kl: "nat k \<le> len" using assms(7) by (simp add: len_def nat_mono)
  have "\<exists>sel. best_of largest (\<lambda>i. rank_of integer ri rf (lane_of (nd_data data) len inner b l ! i)) len (nat k) sel \<and>
       lane_of (nd_data ?io) (nat k) inner b l = map int sel \<and>
       lane_of (nd_data ?out) (nat k) inner b l = map ((!) (lane_of (nd_data data) len inner b l)) sel"
    if bl: "b < outer" "l < inner" for b l
  proof -
    let ?x = "lane_of (nd_data data) len inner b l"
    let ?key = "\<lambda>i. rank_of integer ri rf (nd_data data ! ((b * len + i) * inner + l))"
    define order where "order = topk_order ?gt largest (nd_data data) len inner b l"
    have order: "order = sort_by (better largest ?key) [0..<len]" by (simp add: order_def topk_order_def before_better)
    have len_order: "length order = len" using better.sort_by_facts[where xs = "[0..<len]" and largest = largest and key = ?key] by (simp add: order)
    have best: "best_of largest ?key len (nat k) (take (nat k) order)" unfolding order by (rule take_order_best[OF kl])
    have key: "?key i = rank_of integer ri rf (?x ! i)" if "i < len" for i using that by (simp add: lane_of_def)
    have inside: "i < len" if "i \<in> set (take (nat k) order)" for i using that best by (auto simp: best_of_def)
    have sel: "map (\<lambda>s. order ! s) [0..<nat k] = take (nat k) order" using kl len_order by (simp add: take_map_nth)
    have io: "lane_of (nd_data ?io) (nat k) inner b l = map int (take (nat k) order)"
    proof (cases "nd_numel out = 0")
      case True
      then have "nat k = 0" using bl size(1) assms(6,9) by (auto simp: nd_ok_def production_prod_list)
      then show ?thesis by (simp add: lane_of_def)
    next
      case False
      then show ?thesis
        using topk_lanes[OF size(2) bl kl, of "\<lambda>x. int (snd (snd x))" ?gt largest "nd_data data"]
        by (simp add: order_def[symmetric] sel[symmetric])
    qed
    have out: "lane_of (nd_data ?out) (nat k) inner b l = map ((!) ?x) (take (nat k) order)"
    proof (cases "nd_numel out = 0")
      case True
      then have "nat k = 0" using bl size(1) assms(6,9) by (auto simp: nd_ok_def production_prod_list)
      then show ?thesis by (simp add: lane_of_def)
    next
      case False
      have "map (\<lambda>s. nd_data data ! ((b * len + order ! s) * inner + l)) [0..<nat k] = map ((!) ?x) (take (nat k) order)"
        unfolding sel[symmetric] using inside kl len_order by (auto simp: lane_of_def sel[symmetric])
      then show ?thesis
        using False topk_lanes[OF size(1) bl kl, of "\<lambda>x. nd_data data ! fst (snd x)" ?gt largest "nd_data data"]
        by (simp add: order_def[symmetric])
    qed
    show ?thesis using better_cong[OF key best] io out by blast
  qed
  then show ?thesis using run by blast
qed

theorem TopK_selects_best_witness:
  "\<exists>out' io' sel. TopK True id (\<lambda>_. 0) (-1) True \<lparr>nd_dims = [3], nd_data = [1, 3, 2 :: int], nd_type = INT64\<rparr>
      (Some \<lparr>nd_dims = [1], nd_data = [2], nd_type = INT64\<rparr>) \<lparr>nd_dims = [2], nd_data = [0, 0], nd_type = INT64\<rparr>
      (Some \<lparr>nd_dims = [2], nd_data = [0, 0], nd_type = INT64\<rparr>) = (0, out', Some io') \<and>
    best_of True (\<lambda>i. lane_of [1, 3, 2] 3 1 0 0 ! i) 3 2 sel \<and> lane_of (nd_data io') 2 1 0 0 = map int sel"
proof -
  let ?d = "\<lparr>nd_dims = [3], nd_data = [1, 3, 2 :: int], nd_type = INT64\<rparr>"
  let ?c = "\<lparr>nd_dims = [1], nd_data = [2 :: int], nd_type = INT64\<rparr>"
  let ?o = "\<lparr>nd_dims = [2], nd_data = [0, 0 :: int], nd_type = INT64\<rparr>"
  show ?thesis
    using TopK_selects_best[of "-1" ?d 0 ?c 2 ?o ?o True id "\<lambda>_. 0" True]
    by (auto simp: NormalizeAxis_def nd_ok_def production_prod_list rank_of_def)
qed

section \<open>ReduceMax\<close>

text \<open>The first greatest of a list of positions.\<close>

definition first_greatest :: "(nat \<Rightarrow> int) \<Rightarrow> nat list \<Rightarrow> nat option" where
  "first_greatest key is = fold (\<lambda>i best. case best of None \<Rightarrow> Some i | Some j \<Rightarrow> if key j < key i then Some i else best) is None"

lemma first_greatest_snoc:
  "first_greatest key (is @ [i]) = (case first_greatest key is of None \<Rightarrow> Some i | Some j \<Rightarrow> if key j < key i then Some i else Some j)"
  by (simp add: first_greatest_def split: option.split)

lemma first_greatest_spec:
  "sorted_wrt (<) is \<Longrightarrow>
   (case first_greatest key is of None \<Rightarrow> is = []
    | Some j \<Rightarrow> j \<in> set is \<and> (\<forall>i \<in> set is. key i \<le> key j \<and> (key i = key j \<longrightarrow> j \<le> i)))"
proof (induction "is" rule: rev_induct)
  case (snoc i "is")
  then have s: "sorted_wrt (<) is" "\<forall>k \<in> set is. k < i" by (auto simp: sorted_wrt_append)
  show ?case
    using snoc.IH[OF s(1)] s(2) by (auto simp: first_greatest_snoc split: option.splits)
qed (simp add: first_greatest_def)

lemma choices_first_greatest:
  assumes "\<forall>i < n. target i < length selected" "\<forall>t < length selected. selected ! t = None" "t < length selected"
  shows "fold (update_choice (GreaterValue integer ri rf) data target) [0..<n] selected ! t =
      first_greatest (\<lambda>i. rank_of integer ri rf (data ! i)) (filter (\<lambda>i. target i = t) [0..<n])"
    and "length (fold (update_choice (GreaterValue integer ri rf) data target) [0..<n] selected) = length selected"
  using assms
proof (induction n arbitrary: t)
  case (Suc n)
  { case 1
    then show ?case using Suc.IH[of t] Suc.IH[of "target n"]
      by (auto simp: update_choice_def first_greatest_snoc GreaterValue_rank nth_list_update split: option.splits)
  next
    case 2
    then show ?case using Suc.IH(2)[of t] by (auto simp: update_choice_def split: option.split) }
qed (simp_all add: first_greatest_def)

text \<open>The coordinates that are left, in the order of the reduced shape.\<close>

fun reduced_coords :: "i64 list \<Rightarrow> bool \<Rightarrow> nat \<Rightarrow> i64 list \<Rightarrow> i64 list" where
  "reduced_coords axes keepdims axis [] = []"
| "reduced_coords axes keepdims axis (c # cs) =
     (if int axis \<in> set axes then if keepdims then 0 # reduced_coords axes keepdims (Suc axis) cs
        else reduced_coords axes keepdims (Suc axis) cs
      else c # reduced_coords axes keepdims (Suc axis) cs)"

lemma reduce_target_coords:
  "length (drop out_axis strides) = length (reduced_coords axes keepdims axis cs) \<Longrightarrow>
   reduce_target axes keepdims strides axis out_axis cs = offset_of (reduced_coords axes keepdims axis cs) (drop out_axis strides)"
proof (induction cs arbitrary: axis out_axis)
  case (Cons c cs)
  show ?case
  proof (cases "int axis \<in> set axes \<and> \<not> keepdims")
    case True
    then show ?thesis using Cons by simp
  next
    case False
    then have "out_axis < length strides" using Cons.prems by (auto split: if_splits)
    then have "drop out_axis strides = strides ! out_axis # drop (Suc out_axis) strides" by (simp add: Cons_nth_drop_Suc)
    then show ?thesis using Cons False by auto
  qed
qed simp

end
