(* ===== verification/Selection_Results.thy ===== *)
theory Selection_Results
  imports Selection_Laws
begin

text \<open>
  The results of \<open>ReduceMax\<close>, \<open>GatherElements\<close>, \<open>Mod\<close> and the integer \<open>Div\<close> by coordinates,
  with the inputs on which they fail.
\<close>

section \<open>ReduceMax\<close>

fun reduced_dims :: "i64 list \<Rightarrow> bool \<Rightarrow> nat \<Rightarrow> i64 list \<Rightarrow> i64 list" where
  "reduced_dims axes keepdims axis [] = []"
| "reduced_dims axes keepdims axis (d # ds) =
     (if int axis \<in> set axes then if keepdims then 1 # reduced_dims axes keepdims (Suc axis) ds
        else reduced_dims axes keepdims (Suc axis) ds
      else d # reduced_dims axes keepdims (Suc axis) ds)"

lemma reduced_dims_from:
  "concat (map (\<lambda>i. if int (axis + i) \<in> set axes then if keepdims then [1] else [] else [dims ! i]) [0..<length dims]) =
     reduced_dims axes keepdims axis dims"
proof (induction dims arbitrary: axis)
  case (Cons d ds)
  show ?case using Cons.IH[of "Suc axis"] by (simp add: map_upt_Suc ac_simps cong: if_cong del: upt_Suc)
qed simp

lemma reduced_shape_dims: "reduced_shape axes keepdims dims = reduced_dims axes keepdims 0 dims"
  using reduced_dims_from[of 0 axes keepdims dims] by (simp add: reduced_shape_def)

lemma reduced_in_dims:
  "in_dims dims cs \<Longrightarrow> in_dims (reduced_dims axes keepdims axis dims) (reduced_coords axes keepdims axis cs)"
proof (induction dims arbitrary: cs axis)
  case (Cons d ds)
  then show ?case by (cases cs) auto
qed simp

lemma nd_ok_positive: "nd_ok t \<Longrightarrow> i < length (nd_data t) \<Longrightarrow> \<forall>d \<in> set (nd_dims t). 0 < d"
proof
  fix d assume "nd_ok t" "i < length (nd_data t)" "d \<in> set (nd_dims t)"
  then have "0 \<le> d" "prod_list (nd_dims t) \<noteq> 0" by (auto simp: nd_ok_def)
  moreover from this(2) \<open>d \<in> set (nd_dims t)\<close> have "d \<noteq> 0" by (auto simp: prod_list_zero_iff)
  ultimately show "0 < d" by simp
qed

lemma nd_ok_coords:
  assumes "nd_ok t" "i < length (nd_data t)"
  shows "in_dims (nd_dims t) (coords_in (nd_dims t) (int i))" "offset_in (nd_dims t) (coords_in (nd_dims t) (int i)) = int i"
  using coords_within[OF nd_ok_positive[OF assms], of "int i"] assms by (auto simp: nd_ok_def)

lemma nd_ok_offset:
  assumes "nd_ok t" "in_dims (nd_dims t) cs"
  shows "nat (offset_in (nd_dims t) cs) < length (nd_data t)" "0 \<le> offset_in (nd_dims t) cs"
  using offset_bounds[OF assms(2)] assms(1) by (auto simp: nd_ok_def)

lemma writes_upto: "length out = n \<Longrightarrow> fold (\<lambda>i o'. o'[i := v i]) [0..<n] out = map v [0..<n]"
  using write_all_upto[of n out "\<lambda>i. v (nat i)"] by simp

text \<open>The positions of an input whose coordinates are left as \<open>cs\<close>.\<close>

definition max_group :: "i64 list \<Rightarrow> bool \<Rightarrow> 's nd \<Rightarrow> i64 list \<Rightarrow> nat set" where
  "max_group axes keepdims data cs =
     {i. i < length (nd_data data) \<and> reduced_coords axes keepdims 0 (coords_in (nd_dims data) (int i)) = cs}"

lemma reduce_target_at:
  assumes "nd_ok data" "i < length (nd_data data)" "dims = reduced_shape axes keepdims (nd_dims data)"
  shows "reduce_target axes keepdims (ComputeStrides dims) 0 0 (coords_in (nd_dims data) (int i)) =
      offset_in dims (reduced_coords axes keepdims 0 (coords_in (nd_dims data) (int i)))"
    and "in_dims dims (reduced_coords axes keepdims 0 (coords_in (nd_dims data) (int i)))"
proof -
  show d: "in_dims dims (reduced_coords axes keepdims 0 (coords_in (nd_dims data) (int i)))"
    unfolding assms(3) reduced_shape_dims by (rule reduced_in_dims[OF nd_ok_coords(1)[OF assms(1,2)]])
  show "reduce_target axes keepdims (ComputeStrides dims) 0 0 (coords_in (nd_dims data) (int i)) =
      offset_in dims (reduced_coords axes keepdims 0 (coords_in (nd_dims data) (int i)))"
    using reduce_target_coords[of 0 "ComputeStrides dims" axes keepdims 0 "coords_in (nd_dims data) (int i)"] in_dims_length[OF d]
    by simp
qed

lemma reduce_target_group:
  assumes "nd_ok data" "i < length (nd_data data)" "dims = reduced_shape axes keepdims (nd_dims data)" "in_dims dims cs"
  shows "nat (reduce_target axes keepdims (ComputeStrides dims) 0 0 (coords_in (nd_dims data) (int i))) = nat (offset_in dims cs)
      \<longleftrightarrow> i \<in> max_group axes keepdims data cs"
proof -
  let ?r = "reduced_coords axes keepdims 0 (coords_in (nd_dims data) (int i))"
  note r = reduce_target_at[OF assms(1-3)]
  have "0 \<le> offset_in dims ?r" "0 \<le> offset_in dims cs" using offset_bounds[OF r(2)] offset_bounds[OF assms(4)] by simp_all
  then have "nat (offset_in dims ?r) = nat (offset_in dims cs) \<longleftrightarrow> offset_in dims ?r = offset_in dims cs"
    by (simp only: eq_nat_nat_iff)
  then show ?thesis using offset_inj[OF r(2) assms(4)] assms(2) by (auto simp: r(1) max_group_def)
qed

text \<open>
  C39: \<open>ReduceMax\<close> finds the maximum.  For valid axes and an output of the reduced shape it succeeds,
  and the output at any coordinates is an element of its group, the input elements with these
  coordinates once the reduced axes are dropped: the first one no other is greater than.  An empty
  group gives what \<open>WriteLowest\<close> writes for the type: the least integer, or minus infinity through the
  output's \<open>TensorIO::Write\<close>.
\<close>

theorem ReduceMax_first_greatest:
  assumes "YoloSelectionAxes axes_attr control noop (length (nd_dims data)) = Some axes"
    and "nd_ok data" "nd_ok out" "nd_dims out = reduced_shape axes keepdims (nd_dims data)"
  shows "\<exists>out'. ReduceMax integer ri rf wi wr axes_attr keepdims noop data control out = (0, out') \<and>
    (\<forall>cs. in_dims (nd_dims out) cs \<longrightarrow>
       (if max_group axes keepdims data cs = {} then nd_at out' cs = WriteLowest wi wr (nd_type out) (nd_at out cs)
        else \<exists>j \<in> max_group axes keepdims data cs. nd_at out' cs = nd_data data ! j \<and>
          (\<forall>i \<in> max_group axes keepdims data cs. rank_of integer ri rf (nd_data data ! i) \<le> rank_of integer ri rf (nd_data data ! j) \<and>
             (rank_of integer ri rf (nd_data data ! i) = rank_of integer ri rf (nd_data data ! j) \<longrightarrow> j \<le> i))))"
proof -
  define dims where "dims = nd_dims out"
  define target where "target i = nat (reduce_target axes keepdims (ComputeStrides dims) 0 0 (coords_in (nd_dims data) (int i)))" for i
  define key where "key i = rank_of integer ri rf (nd_data data ! i)" for i
  define n where "n = nat (nd_numel data)"
  define m where "m = nat (nd_numel out)"
  define selected where "selected = fold (update_choice (GreaterValue integer ri rf) (nd_data data) target) [0..<n] (replicate m None)"
  define result where "result = (if nd_numel out = 0 then out else out\<lparr>nd_data :=
    fold (\<lambda>i o'. o'[i := (case selected ! i of None \<Rightarrow> WriteLowest wi wr (nd_type out) (nd_data out ! i) | Some c \<Rightarrow> nd_data data ! c)]) [0..<m] (nd_data out)\<rparr>)"
  have run: "ReduceMax integer ri rf wi wr axes_attr keepdims noop data control out = (0, result)"
    unfolding ReduceMax_def result_def selected_def m_def n_def target_def dims_def
    using assms(1,4) by (simp add: Let_def)
  have sizes: "length (nd_data data) = n" "length (nd_data out) = m"
    using assms(2,3) by (auto simp: nd_ok_def n_def m_def production_prod_list)
  have dims: "dims = reduced_shape axes keepdims (nd_dims data)" by (simp add: dims_def assms(4))
  have tlt: "\<forall>i < n. target i < length (replicate m (None :: nat option))"
    using reduce_target_at[OF assms(2) _ dims] nd_ok_offset(1)[OF assms(3)] sizes by (auto simp: dims_def target_def)
  have "if max_group axes keepdims data cs = {} then nd_at result cs = WriteLowest wi wr (nd_type out) (nd_at out cs)
        else \<exists>j \<in> max_group axes keepdims data cs. nd_at result cs = nd_data data ! j \<and>
          (\<forall>i \<in> max_group axes keepdims data cs. key i \<le> key j \<and> (key i = key j \<longrightarrow> j \<le> i))"
    if cs: "in_dims (nd_dims out) cs" for cs
  proof -
    define t where "t = nat (offset_in dims cs)"
    have t: "t < m" using nd_ok_offset[OF assms(3) cs] sizes(2) by (simp add: t_def dims_def)
    have members: "set (filter (\<lambda>i. target i = t) [0..<n]) = max_group axes keepdims data cs"
      using reduce_target_group[OF assms(2) _ dims] cs sizes(1)
      by (auto simp: target_def t_def dims_def max_group_def)
    have sel: "selected ! t = first_greatest key (filter (\<lambda>i. target i = t) [0..<n])"
      unfolding selected_def key_def using tlt t by (intro choices_first_greatest(1)) simp_all
    have "nd_numel out \<noteq> 0" using t by (auto simp: m_def)
    then have at: "nd_at result cs = (case selected ! t of None \<Rightarrow> WriteLowest wi wr (nd_type out) (nd_at out cs) | Some c \<Rightarrow> nd_data data ! c)"
      using t by (simp add: result_def writes_upto[OF sizes(2)] nd_at_def t_def dims_def nth_upt split: option.split)
    have "sorted_wrt (<) (filter (\<lambda>i. target i = t) [0..<n])" by (intro sorted_wrt_filter) simp
    from first_greatest_spec[OF this, of key] show ?thesis
      unfolding at sel members[symmetric] by (cases "first_greatest key (filter (\<lambda>i. target i = t) [0..<n])") auto
  qed
  then show ?thesis using run unfolding key_def by blast
qed

theorem ReduceMax_first_greatest_witness:
  "\<exists>out'. ReduceMax True id (\<lambda>_. 0) id (\<lambda>_. 0) [1] False False \<lparr>nd_dims = [2, 2], nd_data = [1, 7, 5, 3 :: int], nd_type = INT64\<rparr> None
      \<lparr>nd_dims = [2], nd_data = [0, 0], nd_type = INT64\<rparr> = (0, out') \<and>
    (\<exists>j \<in> max_group [1] False \<lparr>nd_dims = [2, 2], nd_data = [1, 7, 5, 3 :: int], nd_type = INT64\<rparr> [0]. nd_at out' [0] = [1, 7, 5, 3] ! j)"
proof -
  let ?d = "\<lparr>nd_dims = [2, 2], nd_data = [1, 7, 5, 3 :: int], nd_type = INT64\<rparr>"
  let ?o = "\<lparr>nd_dims = [2], nd_data = [0, 0 :: int], nd_type = INT64\<rparr>"
  have a: "YoloSelectionAxes [1] None False (length (nd_dims ?d)) = Some [1]" by (simp add: YoloSelectionAxes_def)
  have good: "nd_ok ?d" "nd_ok ?o" by (simp_all add: nd_ok_def)
  have s: "nd_dims ?o = reduced_shape [1] False (nd_dims ?d)" by (simp add: reduced_shape_def)
  have g: "max_group [1] False ?d [0] \<noteq> {}" by (auto simp: max_group_def intro!: exI[of _ "0 :: nat"])
  have c: "in_dims (nd_dims ?o) [0]" by simp
  let ?max = "\<lambda>j. \<forall>i \<in> max_group [1] False ?d [0]. rank_of True id (\<lambda>_. 0) (nd_data ?d ! i) \<le> rank_of True id (\<lambda>_. 0) (nd_data ?d ! j) \<and>
     (rank_of True id (\<lambda>_. 0) (nd_data ?d ! i) = rank_of True id (\<lambda>_. 0) (nd_data ?d ! j) \<longrightarrow> j \<le> i)"
  obtain out' where "ReduceMax True id (\<lambda>_. 0) id (\<lambda>_. 0) [1] False False ?d None ?o = (0, out')"
    and "if max_group [1] False ?d [0] = {} then nd_at out' [0] = WriteLowest id (\<lambda>_. 0) (nd_type ?o) (nd_at ?o [0])
      else \<exists>j \<in> max_group [1] False ?d [0]. nd_at out' [0] = nd_data ?d ! j \<and> ?max j"
    using ReduceMax_first_greatest[OF a good s, of True id "\<lambda>_. 0" id "\<lambda>_. 0"] c by blast
  then show ?thesis using g by auto
qed

section \<open>GatherElements\<close>

text \<open>The index an element stands for, negative ones counting from the end.\<close>

definition wrapped_index :: "i64 \<Rightarrow> i64 \<Rightarrow> i64" where
  "wrapped_index d index = (if index < 0 then index + d else index)"

definition picked :: "nat \<Rightarrow> 's nd \<Rightarrow> i64 nd \<Rightarrow> i64 list \<Rightarrow> i64 list" where
  "picked axis data indices cs = cs[axis := wrapped_index (nd_dims data ! axis) (nd_at indices cs)]"

abbreviation index_good :: "nat \<Rightarrow> 's nd \<Rightarrow> i64 \<Rightarrow> bool" where
  "index_good axis data index \<equiv> - (nd_dims data ! axis) \<le> index \<and> index < nd_dims data ! axis"

lemma gather_elements_run:
  assumes "nd_ok indices" "set ls \<subseteq> {0..<length (nd_data indices)}" "0 \<le> nd_dims data ! axis"
  shows "(fst (gather_elements_loop axis data indices ls out) \<longleftrightarrow> (\<forall>i \<in> set ls. index_good axis data (nd_data indices ! i))) \<and>
    (fst (gather_elements_loop axis data indices ls out) \<longrightarrow>
      snd (gather_elements_loop axis data indices ls out) =
        fold (\<lambda>i o'. o'[i := nd_at data (picked axis data indices (coords_in (nd_dims indices) (int i)))]) ls out)"
  using assms(2)
proof (induction ls arbitrary: out)
  case (Cons i ls)
  let ?index = "wrapped_index (nd_dims data ! axis) (nd_data indices ! i)"
  let ?cs = "coords_in (nd_dims indices) (int i)"
  have "i < length (nd_data indices)" using Cons.prems by auto
  then have at: "nd_at indices ?cs = nd_data indices ! i" using nd_ok_coords(2)[OF assms(1)] by (simp add: nd_at_def)
  have good: "(?index < 0 \<or> ?index \<ge> nd_dims data ! axis) \<longleftrightarrow> \<not> index_good axis data (nd_data indices ! i)"
    using assms(3) by (auto simp: wrapped_index_def)
  have step: "gather_elements_loop axis data indices (i # ls) out =
      (if \<not> index_good axis data (nd_data indices ! i) then (False, out)
       else gather_elements_loop axis data indices ls (out[i := nd_at data (picked axis data indices ?cs)]))"
    unfolding gather_elements_loop.simps Let_def wrapped_index_def[symmetric] good picked_def at by (simp add: nd_at_def)
  show ?case using Cons.IH[of "out[i := nd_at data (picked axis data indices ?cs)]"] Cons.prems unfolding step by auto
qed simp

lemma picked_in_dims:
  assumes "in_dims (nd_dims indices) cs" "length (nd_dims indices) = length (nd_dims data)" "axis < length (nd_dims data)"
    and "\<forall>i < length (nd_dims data). i \<noteq> axis \<longrightarrow> nd_dims indices ! i \<le> nd_dims data ! i"
    and "index_good axis data (nd_at indices cs)"
  shows "in_dims (nd_dims data) (picked axis data indices cs)"
  using assms unfolding in_dims_nth picked_def wrapped_index_def
  by (fastforce simp: nth_list_update)

text \<open>
  \<open>GatherElements\<close> picks along the axis.  On tensors whose other dimensions do not exceed the
  data's it succeeds exactly if every index lies in \<open>[-d, d)\<close> for the dimension \<open>d\<close> of the axis, and
  then each output element is the data at its own coordinates with the axis replaced by the index
  there, counted from the end if negative; that place is inside the data.
\<close>

theorem GatherElements_picks:
  assumes "NormalizeAxis axis_attr (length (nd_dims data)) = int axis" "axis < length (nd_dims data)"
    and "nd_ok data" "nd_ok indices" "nd_ok out" "nd_type indices = INT64" "nd_dims out = nd_dims indices"
    and "length (nd_dims indices) = length (nd_dims data)"
    and "\<forall>i < length (nd_dims data). i \<noteq> axis \<longrightarrow> nd_dims indices ! i \<le> nd_dims data ! i"
  shows "fst (GatherElements axis_attr data (Some indices) out) =
      (if \<forall>index \<in> set (nd_data indices). index_good axis data index then 0 else -1) \<and>
    (fst (GatherElements axis_attr data (Some indices) out) = 0 \<longrightarrow>
      (\<forall>cs. in_dims (nd_dims out) cs \<longrightarrow> in_dims (nd_dims data) (picked axis data indices cs) \<and>
        nd_at (snd (GatherElements axis_attr data (Some indices) out)) cs = nd_at data (picked axis data indices cs)))"
proof -
  let ?n = "nat (nd_numel out)"
  let ?loop = "gather_elements_loop axis data indices [0..<?n] (nd_data out)"
  have sizes: "length (nd_data indices) = ?n" "length (nd_data out) = ?n"
    using assms(4,5,7) by (auto simp: nd_ok_def production_prod_list)
  have d: "0 \<le> nd_dims data ! axis" using assms(2,3) by (simp add: nd_ok_def)
  have "\<not> (\<exists>i \<in> set [0..<length (nd_dims data)]. int i \<noteq> int axis \<and> nd_dims indices ! i > nd_dims data ! i)"
    using assms(9) by fastforce
  then have run: "GatherElements axis_attr data (Some indices) out =
      (if nd_numel out = 0 then (0, out) else (if fst ?loop then 0 else -1, out\<lparr>nd_data := snd ?loop\<rparr>))"
    using assms(1,2,6-8) by (auto simp: GatherElements_def Let_def case_prod_unfold)
  note loop = conjunct1[OF gather_elements_run[OF assms(4) _ d, of "[0..<?n]" "nd_data out"]]
    conjunct2[OF gather_elements_run[OF assms(4) _ d, of "[0..<?n]" "nd_data out"]]
  have all: "fst ?loop \<longleftrightarrow> (\<forall>index \<in> set (nd_data indices). index_good axis data index)"
    using loop(1) sizes(1) by (auto simp: all_set_conv_all_nth)
  have result: "in_dims (nd_dims data) (picked axis data indices cs) \<and>
      nd_at (snd (GatherElements axis_attr data (Some indices) out)) cs = nd_at data (picked axis data indices cs)"
    if fine: "fst (GatherElements axis_attr data (Some indices) out) = 0" and cs: "in_dims (nd_dims out) cs" for cs
  proof -
    have n: "nat (offset_in (nd_dims out) cs) < ?n" "0 \<le> offset_in (nd_dims out) cs"
      using nd_ok_offset[OF assms(5) cs] sizes(2) by simp_all
    then have nonempty: "nd_numel out \<noteq> 0" by auto
    then have ok: "fst ?loop" using fine unfolding run by (auto split: if_splits)
    have "nd_at indices cs \<in> set (nd_data indices)" using n(1) sizes(1) by (simp add: nd_at_def assms(7))
    then have "in_dims (nd_dims data) (picked axis data indices cs)"
      using ok cs assms(2,7-9) unfolding all by (intro picked_in_dims) auto
    moreover have "snd ?loop = map (\<lambda>i. nd_at data (picked axis data indices (coords_in (nd_dims indices) (int i)))) [0..<?n]"
      using loop(2) ok sizes by (simp add: writes_upto)
    ultimately show ?thesis using n nonempty coords_of_offset[OF cs] unfolding run by (simp add: nd_at_def assms(7))
  qed
  have "fst (GatherElements axis_attr data (Some indices) out) =
      (if \<forall>index \<in> set (nd_data indices). index_good axis data index then 0 else -1)"
    using sizes(1) unfolding run all by auto
  with result show ?thesis by blast
qed

theorem GatherElements_picks_witness:
  "nd_at (snd (GatherElements 0 \<lparr>nd_dims = [3], nd_data = [10, 20, 30 :: int], nd_type = INT64\<rparr>
      (Some \<lparr>nd_dims = [2], nd_data = [-1, 0], nd_type = INT64\<rparr>) \<lparr>nd_dims = [2], nd_data = [0, 0], nd_type = INT64\<rparr>)) [0] = 30"
proof -
  let ?d = "\<lparr>nd_dims = [3], nd_data = [10, 20, 30 :: int], nd_type = INT64\<rparr>"
  let ?i = "\<lparr>nd_dims = [2], nd_data = [-1, 0 :: int], nd_type = INT64\<rparr>"
  let ?o = "\<lparr>nd_dims = [2], nd_data = [0, 0 :: int], nd_type = INT64\<rparr>"
  have h: "NormalizeAxis 0 (length (nd_dims ?d)) = int 0" "0 < length (nd_dims ?d)" "nd_ok ?d" "nd_ok ?i" "nd_ok ?o"
    "nd_type ?i = INT64" "nd_dims ?o = nd_dims ?i" "length (nd_dims ?i) = length (nd_dims ?d)"
    "\<forall>i < length (nd_dims ?d). i \<noteq> 0 \<longrightarrow> nd_dims ?i ! i \<le> nd_dims ?d ! i"
    by (simp_all add: NormalizeAxis_def nd_ok_def)
  note picks = GatherElements_picks[OF h]
  have "fst (GatherElements 0 ?d (Some ?i) ?o) = 0" unfolding conjunct1[OF picks] by simp
  with picks have "in_dims (nd_dims ?o) [0] \<longrightarrow>
      nd_at (snd (GatherElements 0 ?d (Some ?i) ?o)) [0] = nd_at ?d (picked 0 ?d ?i [0])" by blast
  then show ?thesis by (simp add: picked_def wrapped_index_def nd_at_def)
qed

section \<open>Mod and integer Div\<close>

text \<open>The integers of an element type, and the operation on them: truncating division, its remainder, the modulus.\<close>

definition in_type :: "DataType \<Rightarrow> int \<Rightarrow> bool" where
  "in_type dtype v =
     (if dtype = INT32 then - (2 ^ 31) \<le> v \<and> v < 2 ^ 31 else if dtype = INT8 then - (2 ^ 7) \<le> v \<and> v < 2 ^ 7
      else if dtype = UINT8 then 0 \<le> v \<and> v < 2 ^ 8 else - (2 ^ 63) \<le> v \<and> v < 2 ^ 63)"

definition integer_op :: "bool \<Rightarrow> bool \<Rightarrow> int \<Rightarrow> int \<Rightarrow> int" where
  "integer_op is_div fmod a b = (if is_div then a sdiv b else if fmod then a smod b else a mod b)"

lemma WriteInteger_in_type: "in_type dtype v \<Longrightarrow> WriteInteger dtype v = v"
  by (auto simp: WriteInteger_def in_type_def signed_take_bit_int_eq_self take_bit_int_eq_self split: if_splits)

lemma in_type_between: "in_type dtype a \<Longrightarrow> 0 \<le> v \<and> v \<le> a \<or> a \<le> v \<and> v \<le> 0 \<Longrightarrow> in_type dtype v"
  by (auto simp: in_type_def split: if_splits)

lemma smod_between: "0 \<le> a smod b \<and> a smod b \<le> a \<or> a \<le> a smod b \<and> a smod b \<le> 0" for a b :: int
proof -
  have "0 \<le> \<bar>a\<bar> mod \<bar>b\<bar>" "\<bar>a\<bar> mod \<bar>b\<bar> \<le> \<bar>a\<bar>" by (cases "b = 0"; simp add: zmod_le_nonneg_dividend)+
  then show ?thesis by (cases a "0 :: int" rule: linorder_cases) (auto simp: signed_modulo_int_def sgn_if)
qed

lemma mod_between: "b \<noteq> 0 \<Longrightarrow> 0 \<le> a mod b \<and> a mod b \<le> b \<or> b \<le> a mod b \<and> a mod b \<le> 0" for a b :: int
  by (cases "0 < b") (auto simp: less_imp_le)

lemma mod_of_smod: "a mod b = (if a smod b \<noteq> 0 \<and> (a smod b < 0) \<noteq> (b < 0) then a smod b + b else a smod b)"
  if nz: "b \<noteq> 0" for a b :: int
proof -
  have r: "0 \<le> \<bar>a\<bar> mod \<bar>b\<bar>" "\<bar>a\<bar> mod \<bar>b\<bar> < \<bar>b\<bar>" using nz by simp_all
  consider "0 < a" "0 < b" | "a < 0" "0 < b" | "0 < a" "b < 0" | "a < 0" "b < 0" | "a = 0" using nz by linarith
  then show ?thesis
    using r pos_mod_bound[of b a] pos_mod_sign[of b a] neg_mod_bound[of b a] neg_mod_sign[of b a]
    by cases (auto simp: signed_modulo_int_def zmod_zminus1_eq_if zmod_zminus2_eq_if
        simp del: pos_mod_bound pos_mod_sign neg_mod_bound neg_mod_sign)
qed

text \<open>The value is the mathematical one, and it is refused exactly when the divisor is zero or the quotient does not fit.\<close>

lemma integer_value_op:
  assumes "in_type INT64 a" "is_div \<Longrightarrow> \<not> fmod"
  shows "integer_value is_div fmod a b =
    (if b = 0 \<or> is_div \<and> \<not> in_type INT64 (a sdiv b) then None else Some (integer_op is_div fmod a b))"
proof (cases "b = 0")
  case False
  have over: "\<not> in_type INT64 (a sdiv b) \<longleftrightarrow> a = INT64_MIN \<and> b = -1"
  proof
    assume n: "\<not> in_type INT64 (a sdiv b)"
    have "0 \<le> \<bar>a\<bar> div \<bar>b\<bar>" using False by (simp add: pos_imp_zdiv_nonneg_iff)
    then have q: "\<bar>a sdiv b\<bar> = \<bar>a\<bar> div \<bar>b\<bar>"
      using False by (cases "a = 0") (simp_all only: signed_divide_int_def abs_mult abs_sgn_eq abs_of_nonneg, simp_all)
    show "a = INT64_MIN \<and> b = -1"
    proof (cases "1 < \<bar>b\<bar>")
      case True
      then have "a \<noteq> 0 \<longrightarrow> \<bar>a\<bar> div \<bar>b\<bar> < \<bar>a\<bar>" by (intro impI int_div_less_self) auto
      then have "\<bar>a sdiv b\<bar> < 2 ^ 63" using assms(1) unfolding q by (cases "a = 0") (auto simp: in_type_def)
      then show ?thesis using n by (auto simp: in_type_def)
    next
      case small: False
      then have "b = 1 \<or> b = -1" using False by arith
      then show ?thesis using n assms(1) by (auto simp: in_type_def INT64_MIN_def signed_divide_int_def mult_sgn_abs)
    qed
  qed (simp add: in_type_def INT64_MIN_def signed_divide_int_def)
  have "a smod b = 0" if "b = -1" using that by (simp add: signed_modulo_int_def)
  then show ?thesis
    using False assms(2) mod_of_smod[OF False, of a] unfolding over
    by (auto simp: integer_value_def Let_def integer_op_def)
qed (simp add: integer_value_def)

lemma integer_op_in_type:
  assumes "in_type dtype a" "in_type dtype b" "b \<noteq> 0" "is_div \<Longrightarrow> dtype = INT64 \<and> in_type INT64 (a sdiv b)"
  shows "in_type dtype (integer_op is_div fmod a b)"
  using assms in_type_between[OF assms(1) smod_between[of a b]] in_type_between[OF assms(2) mod_between[OF assms(3), of a]]
  by (simp add: integer_op_def)

text \<open>When the operation on two elements is refused.\<close>

definition op_refused :: "bool \<Rightarrow> int \<Rightarrow> int \<Rightarrow> bool" where
  "op_refused is_div a b \<longleftrightarrow> b = 0 \<or> is_div \<and> \<not> in_type INT64 (a sdiv b)"

lemma integer_loop_run:
  assumes "\<And>i. i \<in> set ls \<Longrightarrow> in_type dtype (a i) \<and> in_type dtype (b i)" "is_div \<Longrightarrow> dtype = INT64 \<and> \<not> fmod"
  shows "(fst (integer_loop is_div fmod dtype a b ls out) \<longleftrightarrow> (\<forall>i \<in> set ls. \<not> op_refused is_div (a i) (b i))) \<and>
    (fst (integer_loop is_div fmod dtype a b ls out) \<longrightarrow>
      snd (integer_loop is_div fmod dtype a b ls out) = fold (\<lambda>i o'. o'[i := integer_op is_div fmod (a i) (b i)]) ls out)"
  using assms(1)
proof (induction ls arbitrary: out)
  case (Cons i ls)
  have t: "in_type dtype (a i)" "in_type dtype (b i)" using Cons.prems by auto
  then have "in_type INT64 (a i)" by (auto simp: in_type_def split: if_splits)
  then have v: "integer_value is_div fmod (a i) (b i) =
      (if op_refused is_div (a i) (b i) then None else Some (integer_op is_div fmod (a i) (b i)))"
    using assms(2) unfolding op_refused_def by (intro integer_value_op) auto
  have "WriteInteger dtype (integer_op is_div fmod (a i) (b i)) = integer_op is_div fmod (a i) (b i)"
    if "\<not> op_refused is_div (a i) (b i)"
    using that assms(2) by (intro WriteInteger_in_type integer_op_in_type[OF t]) (auto simp: op_refused_def)
  then show ?case using Cons by (simp add: v)
qed simp

lemma all_coords:
  assumes "nd_ok t"
  shows "(\<forall>cs. in_dims (nd_dims t) cs \<longrightarrow> P cs) \<longleftrightarrow> (\<forall>i \<in> set [0..<length (nd_data t)]. P (coords_in (nd_dims t) (int i)))"
proof
  assume r: "\<forall>i \<in> set [0..<length (nd_data t)]. P (coords_in (nd_dims t) (int i))"
  show "\<forall>cs. in_dims (nd_dims t) cs \<longrightarrow> P cs"
  proof (intro allI impI)
    fix cs assume cs: "in_dims (nd_dims t) cs"
    note n = nd_ok_offset[OF assms cs]
    then have "nat (offset_in (nd_dims t) cs) \<in> set [0..<length (nd_data t)]" by simp
    with r have "P (coords_in (nd_dims t) (int (nat (offset_in (nd_dims t) cs))))" by (rule bspec)
    then show "P cs" using n(2) coords_of_offset[OF cs] by simp
  qed
qed (use nd_ok_coords(1)[OF assms] in simp)

lemma YoloSelectionBroadcast_fits:
  assumes "YoloSelectionBroadcast ls rs = Some dims"
  shows "fits ls dims" "fits rs dims"
proof -
  let ?n = "max (length ls) (length rs)"
  have len: "length dims = ?n" and at: "\<And>i. i < ?n \<Longrightarrow>
      (let a = aligned_dim ?n ls i; b = aligned_dim ?n rs i in
       if a < 0 \<or> b < 0 \<or> a \<noteq> b \<and> a \<noteq> 1 \<and> b \<noteq> 1 then None else Some (if a = 1 then b else a)) = Some (dims ! i)"
    using assms unfolding YoloSelectionBroadcast_def for_axes_Some by blast+
  have fit: "aligned_dim ?n ds i = 1 \<or> aligned_dim ?n ds i = dims ! i" if "i < ?n" "ds = ls \<or> ds = rs" for i ds
    using at[OF that(1)] that(2) by (auto simp: Let_def split: if_splits)
  have "fits ds dims" if ds: "ds = ls \<or> ds = rs" for ds
    unfolding fits_def
  proof (intro conjI allI impI)
    fix i assume i: "i < length ds"
    then have "i + (length dims - length ds) < ?n" using ds len by auto
    from fit[OF this ds] show "ds ! i = 1 \<or> ds ! i = dims ! (i + (length dims - length ds))"
      using i ds len by (auto simp: aligned_dim_def)
  qed (use ds len in auto)
  then show "fits ls dims" "fits rs dims" by simp_all
qed

text \<open>
  \<open>Mod\<close> and the integer \<open>Div\<close> compute on integers.  For operands of one integer type that
  broadcast to the output, the kernel fails exactly if some element's divisor is zero, or for
  \<open>Div\<close> if a quotient leaves the type; otherwise each output element is the mathematical modulus (with
  the divisor's sign), remainder (\<open>fmod\<close>, with the dividend's sign) or truncated quotient of the two
  elements that broadcast there: no narrowing of the result loses anything.
\<close>

theorem IntegerBinary_values:
  assumes "nd_ok l" "nd_ok r" "nd_ok out" "nd_type r = nd_type l" "nd_type out = nd_type l"
    and "YoloSelectionBroadcast (nd_dims l) (nd_dims r) = Some (nd_dims out)"
    and "\<forall>x \<in> set (nd_data l) \<union> set (nd_data r). in_type (nd_type l) x" "is_div \<Longrightarrow> nd_type l = INT64 \<and> \<not> fmod"
  shows "if \<exists>cs. in_dims (nd_dims out) cs \<and> op_refused is_div (nd_at l (project (nd_dims l) cs)) (nd_at r (project (nd_dims r) cs))
    then fst (IntegerBinary is_div fmod (Some l) (Some r) (Some out)) = -1
    else \<exists>out'. IntegerBinary is_div fmod (Some l) (Some r) (Some out) = (0, Some out') \<and>
      (\<forall>cs. in_dims (nd_dims out) cs \<longrightarrow> nd_at out' cs =
        integer_op is_div fmod (nd_at l (project (nd_dims l) cs)) (nd_at r (project (nd_dims r) cs)))"
proof -
  let ?co = "\<lambda>i. coords_in (nd_dims out) (int i)"
  let ?read = "\<lambda>t i. data_at t (BroadcastOffset (?co i) (nd_dims t) (ComputeStrides (nd_dims t)))"
  let ?at = "\<lambda>t i. nd_at t (project (nd_dims t) (?co i))"
  let ?ls = "[0..<length (nd_data out)]"
  let ?loop = "integer_loop is_div fmod (nd_type l) (?at l) (?at r) ?ls (nd_data out)"
  note fits = YoloSelectionBroadcast_fits[OF assms(6)]
  have n: "nat (nd_numel out) = length (nd_data out)" using assms(3) by (auto simp: nd_ok_def production_prod_list)
  have read: "?read l = ?at l" "?read r = ?at r"
    using read_broadcast[OF fits(1)] read_broadcast[OF fits(2)] by auto
  have run: "IntegerBinary is_div fmod (Some l) (Some r) (Some out) =
      (if fst ?loop then 0 else -1, Some (out\<lparr>nd_data := snd ?loop\<rparr>))"
    using assms(4-6) by (simp add: IntegerBinary_def Let_def case_prod_unfold read n)
  have member: "nd_at t (project (nd_dims t) cs) \<in> set (nd_data t)"
    if "nd_ok t" "fits (nd_dims t) (nd_dims out)" "in_dims (nd_dims out) cs" for t cs
    using nd_ok_offset[OF that(1) fits_project[OF that(2,3)]] by (simp add: nd_at_def)
  have typed: "in_type (nd_type l) (?at l i) \<and> in_type (nd_type l) (?at r i)" if "i \<in> set ?ls" for i
    using that member[OF assms(1) fits(1)] member[OF assms(2) fits(2)] assms(7) nd_ok_coords(1)[OF assms(3)] by simp
  note loops = integer_loop_run[of ?ls "nd_type l" "?at l" "?at r" is_div fmod "nd_data out", OF typed assms(8)]
  have loop: "fst ?loop \<longleftrightarrow> (\<forall>i \<in> set ?ls. \<not> op_refused is_div (?at l i) (?at r i))"
    using loops by (rule conjunct1)
  have loop_data: "snd ?loop = map (\<lambda>i. integer_op is_div fmod (?at l i) (?at r i)) ?ls" if "fst ?loop"
    using conjunct2[OF loops] that by (simp add: writes_upto)
  define refused where "refused cs = op_refused is_div (nd_at l (project (nd_dims l) cs)) (nd_at r (project (nd_dims r) cs))" for cs
  have any: "(\<exists>cs. in_dims (nd_dims out) cs \<and> refused cs) \<longleftrightarrow> \<not> fst ?loop"
    using all_coords[OF assms(3), of "\<lambda>cs. \<not> refused cs"] unfolding loop refused_def by blast
  have "nd_at (out\<lparr>nd_data := snd ?loop\<rparr>) cs = integer_op is_div fmod (nd_at l (project (nd_dims l) cs)) (nd_at r (project (nd_dims r) cs))"
    if "fst ?loop" "in_dims (nd_dims out) cs" for cs
  proof -
    note n = nd_ok_offset[OF assms(3) that(2)]
    have "nd_at (out\<lparr>nd_data := snd ?loop\<rparr>) cs = snd ?loop ! nat (offset_in (nd_dims out) cs)" by (simp add: nd_at_def)
    then show ?thesis using n coords_of_offset[OF that(2)] unfolding loop_data[OF that(1)] by simp
  qed
  then show ?thesis unfolding run refused_def[symmetric] any by simp
qed

theorem IntegerBinary_values_witness:
  "fst (IntegerBinary False False (Some \<lparr>nd_dims = [2], nd_data = [7, -7], nd_type = INT8\<rparr>) (Some \<lparr>nd_dims = [1], nd_data = [3], nd_type = INT8\<rparr>)
      (Some \<lparr>nd_dims = [2], nd_data = [0, 0], nd_type = INT8\<rparr>)) = 0"
proof -
  let ?l = "\<lparr>nd_dims = [2], nd_data = [7, -7 :: int], nd_type = INT8\<rparr>"
  let ?r = "\<lparr>nd_dims = [1], nd_data = [3 :: int], nd_type = INT8\<rparr>"
  let ?o = "\<lparr>nd_dims = [2], nd_data = [0, 0 :: int], nd_type = INT8\<rparr>"
  have h: "nd_ok ?l" "nd_ok ?r" "nd_ok ?o" "nd_type ?r = nd_type ?l" "nd_type ?o = nd_type ?l"
    "YoloSelectionBroadcast (nd_dims ?l) (nd_dims ?r) = Some (nd_dims ?o)"
    "\<forall>x \<in> set (nd_data ?l) \<union> set (nd_data ?r). in_type (nd_type ?l) x"
    by (simp_all add: nd_ok_def in_type_def YoloSelectionBroadcast_def for_axes_def aligned_dim_def)
  have "nd_at ?r (project (nd_dims ?r) cs) = 3" if "in_dims (nd_dims ?o) cs" for cs
    using in_dims_length[OF that] by (auto simp: nd_at_def project_def length_Suc_conv numeral_2_eq_2)
  then have "\<not> (\<exists>cs. in_dims (nd_dims ?o) cs \<and> op_refused False (nd_at ?l (project (nd_dims ?l) cs)) (nd_at ?r (project (nd_dims ?r) cs)))"
    by (auto simp: op_refused_def)
  from IntegerBinary_values[OF h, of False False, unfolded if_not_P[OF this]] show ?thesis by auto
qed

end
