(* ===== verification/Compiled_Graph.thy ===== *)
theory Compiled_Graph
  imports Memory_Plan Graph_Build Runtime_Graph "HOL-Library.List_Lexorder" "HOL-Library.Char_ord"
begin

text \<open>
  \<open>CompiledGraph::Compile\<close> of \<open>src/core/execution_plan.cc\<close>: a snapshot of a built static graph.
  It checks what the shapes were computed from, freezes constants and bound tensors, rebinds the
  kernels' parameters to the frozen prototypes, orders the nodes and plans the memory.  The step
  works on the graph's environment, whose heap it extends; an exception is caught and becomes an
  error with the context of the function.  The schema of a kernel, which the registry attached to
  the operator, is given by the parameter \<open>K\<close>.
\<close>

section \<open>Results over a state\<close>

definition bindE :: "(status + 'a) \<times> 's \<Rightarrow> ('a \<Rightarrow> 's \<Rightarrow> (status + 'b) \<times> 's) \<Rightarrow> (status + 'b) \<times> 's" where
  "bindE r f = (case r of (Inl e, s) \<Rightarrow> (Inl e, s) | (Inr a, s) \<Rightarrow> f a s)"

fun foldE :: "('x \<Rightarrow> 'a \<Rightarrow> 's \<Rightarrow> (status + 'a) \<times> 's) \<Rightarrow> 'x list \<Rightarrow> 'a \<Rightarrow> 's \<Rightarrow> (status + 'a) \<times> 's" where
  "foldE f [] a s = (Inr a, s)"
| "foldE f (x # xs) a s = bindE (f x a s) (foldE f xs)"

lemma bindE_simps [simp]: "bindE (Inl e, s) f = (Inl e, s)" "bindE (Inr a, s) f = f a s"
  by (simp_all add: bindE_def)

lemma bindE_Inr: "bindE r f = (Inr b, s') \<longleftrightarrow> (\<exists>a s. r = (Inr a, s) \<and> f a s = (Inr b, s'))"
  by (cases r; cases "fst r") auto

text \<open>What the \<open>catch\<close> at the end of a function makes of an exception.\<close>

definition thrown :: "string \<Rightarrow> string \<Rightarrow> status" where
  "thrown context what = WithContext (BuildError what) context"

definition check_failed :: string where
  "check_failed = ''CHECK failed''"

section \<open>Kernel schemas\<close>

text \<open>
  What \<open>SetParamOwner\<close> and \<open>SetFactory\<close> left in a kernel: the tensors its parameters mention, in
  the order of \<open>VisitTensors\<close>, and the factory, which may answer null; its instance is given
  with the tensors its parameters are bound to.
\<close>

record 'b KernelSchema =
  ks_device :: DeviceType
  ks_dtype :: DataType
  ks_layout :: DataLayout
  ks_visitor :: bool
  ks_snapshot :: "nat option list option"
  ks_factory :: "(nat option list \<Rightarrow> 'b KernelBase) option option"

text \<open>\<open>bind_param_\<close>: every tensor is looked up in the bindings.\<close>

definition rebind :: "bool \<Rightarrow> nat option list \<Rightarrow> (nat \<rightharpoonup> nat) \<Rightarrow> status + nat option list" where
  "rebind visitor tensors bindings =
     (if \<not> visitor then Inl (Error kUnsupported ''kernel parameter schema has no Tensor visitor'')
      else if \<exists>t \<in> set tensors. case t of None \<Rightarrow> False | Some p \<Rightarrow> bindings p = None
      then Inl (Error kBuildFailed ''unbound tensor in kernel parameters'')
      else Inr (map (\<lambda>t. case t of None \<Rightarrow> None | Some p \<Rightarrow> bindings p) tensors))"

section \<open>The compiled graph\<close>

record compiled_value = plan_value +
  v_prototype :: nat

record 'b compiled_node = plan_node +
  cn_op_type :: string
  cn_schema :: "'b KernelSchema"
  cn_semantics :: OperatorSemantics

record 'b CompiledGraph =
  cg_values :: "compiled_value list"
  cg_nodes :: "'b compiled_node list"
  cg_inputs :: "string list"
  cg_outputs :: "string list"
  cg_memory_plan :: MemoryPlan
  cg_required :: "string list"
  cg_control :: "(string \<times> u8 list) list"

definition Descriptor :: "Tensor \<Rightarrow> Tensor" where
  "Descriptor source =
     (set_quantization (m_quantization source)
        (empty_Tensor\<lparr>m_dims := m_dims source, m_data_type := m_data_type source, m_layout := m_layout source\<rparr>))
      \<lparr>m_immutable := m_immutable source\<rparr>"

text \<open>
  \<open>FrozenBytes\<close>: a read-only window on the bytes, of the source itself when that is read-only
  already, otherwise of a copy.
\<close>

definition address :: "nat option \<Rightarrow> nat" where
  "address p = (case p of None \<Rightarrow> 0 | Some a \<Rightarrow> a)"

definition FrozenBytes :: "Tensor \<Rightarrow> nat \<Rightarrow> world \<Rightarrow> (world \<times> nat) option" where
  "FrozenBytes t bytes w =
     (if (case m_storage t of None \<Rightarrow> False | Some s \<Rightarrow> storage_read_only s w)
      then (let (w1, p) = raw_data t w in Some (wrap_buffer (address p) bytes True w1))
      else
        (let (w1, b) = new_buffer bytes w; (w2, s) = new_Storage (Some b) COMMON 0 w1;
             copy = empty_Tensor\<lparr>m_storage := Some s\<rparr>;
             written = (if bytes = 0 then Some w2
                        else case mutable_data bytes copy w2 of None \<Rightarrow> None
                             | Some (w3, copy', p) \<Rightarrow>
                                 (let (w4, source) = read_bytes t bytes w3
                                  in Some (w4\<lparr>mem := mem_write (mem w4) (address p) source\<rparr>)))
         in case written of None \<Rightarrow> None
            | Some w5 \<Rightarrow> (let (w6, p) = raw_data copy w5 in Some (wrap_buffer (address p) bytes True w6))))"

section \<open>Checks before anything is frozen\<close>

text \<open>The values the shapes depend on are what they were, and only the build computed them.\<close>

definition check_control :: "StaticGraph \<Rightarrow> string list \<Rightarrow> string \<times> u8 list \<Rightarrow> unit \<Rightarrow> world \<Rightarrow> (status + unit) \<times> world" where
  "check_control g external_states control u w =
     (let name = fst control; fixed = snd control;
          changed = Inl (BuildError (''build control values changed before compilation: '' @ name)) in
      case GetTensor g name of None \<Rightarrow> (changed, w)
      | Some p \<Rightarrow>
          (let t = tensor_at g p in
           if \<not> IsInitialized w t \<or> m_memory_size t < length fixed \<or>
              CheckedTensorBytes (m_dims t) (m_data_type t) \<noteq> Some (length fixed) then (changed, w)
           else
             (let (w', actual) = (if fixed = [] then (w, []) else read_bytes t (length fixed) w) in
              if actual \<noteq> fixed then (changed, w')
              else if GetProducer g name \<noteq> [] \<and> name \<notin> g_build_time g
              then (Inl (BuildError (''data-dependent shape controls are unsupported: '' @ name)), w')
              else if name \<in> set external_states
              then (Inl (BuildError (''shape controls cannot be mutable external state: '' @ name)), w')
              else (Inr (), w'))))"

definition shares_storage :: "StaticGraph \<Rightarrow> nat \<Rightarrow> nat \<Rightarrow> bool" where
  "shares_storage g p q \<longleftrightarrow> m_storage (tensor_at g p) = m_storage (tensor_at g q)"

definition check_external :: "StaticGraph \<Rightarrow> string \<Rightarrow> nat list \<Rightarrow> status + nat list" where
  "check_external g name checked =
     (let inputs = gd_inputs (md_graph (g_model g));
          bad = Inl (BuildError (''external state must be a mutable graph input: '' @ name)) in
      case GetTensor g name of None \<Rightarrow> bad
      | Some p \<Rightarrow>
          if m_immutable (tensor_at g p) \<or> name \<notin> set inputs then bad
          else if \<exists>item \<in> set (e_tensors (g_env g)). snd item \<noteq> p \<and> shares_storage g (snd item) p
          then Inl (BuildError (''external state view aliases are unsupported: '' @ name))
          else if \<exists>node \<in> set (g_nodes g). \<not> sn_removed node \<and> (\<exists>output \<in> set (sn_outputs node). output = name \<or>
                    (case GetTensor g output of None \<Rightarrow> False | Some q \<Rightarrow> shares_storage g q p))
          then Inl (BuildError (''external state aliases a produced value: '' @ name))
          else Inr (checked @ [p]))"

definition static_effect_node :: "StaticNode \<Rightarrow> OperatorEffectNode" where
  "static_effect_node n =
     \<lparr>en_name = sn_name n, en_inputs = sn_inputs n, en_outputs = sn_outputs n, en_semantics = sn_semantics n\<rparr>"

definition live_nodes :: "StaticGraph \<Rightarrow> StaticNode list" where
  "live_nodes g = filter (\<lambda>n. \<not> sn_removed n) (g_nodes g)"

section \<open>Freezing the values\<close>

text \<open>\<open>prototype->ResetBuffer(FrozenBytes(*source, bytes), bytes)\<close>\<close>

definition freeze_bytes :: "Tensor \<Rightarrow> nat \<Rightarrow> nat \<Rightarrow> op_env \<Rightarrow> (status + unit) \<times> op_env" where
  "freeze_bytes source bytes q e =
     (case FrozenBytes source bytes (e_world e) of
        None \<Rightarrow> (Inl (thrown ''compile'' check_failed), e)
      | Some (w, b) \<Rightarrow>
          (case ResetBuffer b bytes 0 (e_heap e ! q) w of
             None \<Rightarrow> (Inl (thrown ''compile'' check_failed), e\<lparr>e_world := w\<rparr>)
           | Some (w', t) \<Rightarrow> (Inr (), e\<lparr>e_heap := (e_heap e)[q := t], e_world := w'\<rparr>)))"

record freezing =
  fz_frozen :: "nat \<rightharpoonup> nat"
  fz_groups :: "(nat option \<times> nat) list"
  fz_values :: "compiled_value list"

definition is_seed :: "StaticGraph \<Rightarrow> nat list \<Rightarrow> string \<times> nat \<Rightarrow> bool" where
  "is_seed g externals item \<longleftrightarrow>
     snd item \<notin> set externals \<and> (fst item \<in> g_build_time g \<or> fst item \<in> g_bound g)"

text \<open>The prototype of a tensor: the one made for another name of it, or a new one.\<close>

definition make_prototype ::
  "string \<Rightarrow> nat \<Rightarrow> nat \<Rightarrow> bool \<Rightarrow> freezing \<Rightarrow> op_env \<Rightarrow> (status + nat) \<times> op_env" where
  "make_prototype name p bytes seed z e =
     (case fz_frozen z p of
        Some q \<Rightarrow> (Inr q, e)
      | None \<Rightarrow>
          (let source = e_heap e ! p; q = length (e_heap e); e1 = e\<lparr>e_heap := e_heap e @ [Descriptor source]\<rparr> in
           if \<not> seed then (Inr q, e1)
           else if \<not> IsInitialized (e_world e1) source \<or> m_memory_size source < bytes
           then (Inl (BuildError (''uninitialized seed: '' @ name)), e1)
           else bindE (freeze_bytes source bytes q e1) (\<lambda>_ e2. (Inr q, e2))))"

definition group_of :: "nat option \<Rightarrow> (nat option \<times> nat) list \<Rightarrow> nat \<times> (nat option \<times> nat) list" where
  "group_of key groups =
     (case map_of groups key of Some k \<Rightarrow> (k, groups) | None \<Rightarrow> (length groups, groups @ [(key, length groups)]))"

definition freeze_value ::
  "StaticGraph \<Rightarrow> nat list \<Rightarrow> string \<times> nat \<Rightarrow> freezing \<Rightarrow> op_env \<Rightarrow> (status + freezing) \<times> op_env" where
  "freeze_value g externals item z e =
     (let name = fst item; p = snd item; source = e_heap e ! p in
      case CheckedTensorBytes (m_dims source) (m_data_type source) of
        None \<Rightarrow> (Inl (BuildError (''invalid tensor descriptor: '' @ name)), e)
      | Some bytes \<Rightarrow>
          (let seed = is_seed g externals item in
           bindE (make_prototype name p bytes seed z e) (\<lambda>q e1.
           bindE (if seed \<and> \<not> IsInitialized (e_world e1) (e_heap e1 ! q) then freeze_bytes source bytes q e1 else (Inr (), e1)) (\<lambda>_ e2.
             (let (k, groups) = group_of (m_storage source) (fz_groups z) in
              (Inr \<lparr>fz_frozen = (fz_frozen z)(p \<mapsto> q), fz_groups = groups,
                    fz_values = fz_values z @ [\<lparr>v_name = name, v_group = k, v_bytes = bytes,
                                                v_offset = m_offset source, v_seed = seed, v_prototype = q\<rparr>]\<rparr>, e2))))))"

section \<open>Nodes\<close>

definition compile_node ::
  "(nat \<Rightarrow> 'b KernelSchema) \<Rightarrow> (nat \<rightharpoonup> nat) \<Rightarrow> StaticNode \<Rightarrow> 'b compiled_node list \<Rightarrow> status + 'b compiled_node list" where
  "compile_node K frozen node nodes =
     (case (case sn_op node of None \<Rightarrow> None | Some oper \<Rightarrow> op_kernel oper) of
        None \<Rightarrow> Inl (BuildError (''missing kernel schema: '' @ sn_name node))
      | Some k \<Rightarrow>
          (let schema = K k in
           case ks_snapshot schema of
             None \<Rightarrow> Inl (BuildError (''kernel cannot be snapshotted: '' @ sn_name node))
           | Some tensors \<Rightarrow>
               if ks_factory schema = None
               then Inl (BuildError (''kernel cannot be snapshotted: '' @ sn_name node))
               else case rebind (ks_visitor schema) tensors frozen of
                      Inl e \<Rightarrow> Inl (WithContext e (''compile node='' @ sn_name node))
                    | Inr bound \<Rightarrow>
                        Inr (nodes @ [\<lparr>pn_name = sn_name node, pn_inputs = sn_inputs node, pn_outputs = sn_outputs node,
                                      cn_op_type = sn_op_type node, cn_schema = schema\<lparr>ks_snapshot := Some bound\<rparr>,
                                      cn_semantics = sn_semantics node\<rparr>])))"

text \<open>A fusion may make an earlier node depend on a later one, so the nodes are ordered again.\<close>

definition slots :: "('b compiled_node \<Rightarrow> string list) \<Rightarrow> 'b compiled_node list \<Rightarrow> (nat \<times> string) list" where
  "slots f nodes = concat (map (\<lambda>x. map (Pair (fst x)) (f (snd x))) (enumerate 0 nodes))"

definition note_plan_producer :: "nat \<times> string \<Rightarrow> (string \<rightharpoonup> nat) \<Rightarrow> status + (string \<rightharpoonup> nat)" where
  "note_plan_producer e producers =
     (if producers (snd e) \<noteq> None then Inl (BuildError (''duplicate producer: '' @ snd e))
      else Inr (producers(snd e \<mapsto> fst e)))"

definition link_plan_input ::
  "StaticGraph \<Rightarrow> (string \<rightharpoonup> nat) \<Rightarrow> nat \<times> string \<Rightarrow> nat list \<times> nat list list \<Rightarrow> status + nat list \<times> nat list list" where
  "link_plan_input g producers e tables =
     (case producers (snd e) of
        Some p \<Rightarrow> Inr (add_edge (p, fst e) tables)
      | None \<Rightarrow> if snd e \<noteq> [] \<and> GetTensor g (snd e) = None then Inl (BuildError (''missing input: '' @ snd e))
                else Inr tables)"

definition order_plan :: "StaticGraph \<Rightarrow> 'b compiled_node list \<Rightarrow> status + 'b compiled_node list" where
  "order_plan g nodes =
     bindR (foldR note_plan_producer (slots pn_outputs nodes) Map.empty) (\<lambda>producers.
     bindR (foldR (link_plan_input g producers) (slots pn_inputs nodes)
              (replicate (length nodes) 0, replicate (length nodes) [])) (\<lambda>tables.
       case kahn_order pq_push list_pop [] (snd tables) (fst tables) of
         None \<Rightarrow> Inl (BuildError ''cycle in optimized graph'')
       | Some order \<Rightarrow> if length order \<noteq> length nodes then Inl (BuildError ''cycle in optimized graph'')
                       else Inr (map ((!) nodes) order)))"

section \<open>Compile\<close>

definition on_world :: "(world \<Rightarrow> (status + 'a) \<times> world) \<Rightarrow> op_env \<Rightarrow> (status + 'a) \<times> op_env" where
  "on_world f e = (let (r, w) = f (e_world e) in (r, e\<lparr>e_world := w\<rparr>))"

definition Compile ::
  "(nat \<Rightarrow> 'b KernelSchema) \<Rightarrow> string list \<Rightarrow> StaticGraph \<Rightarrow> (status + 'b CompiledGraph) \<times> op_env" where
  "Compile K external_states g =
     (let checked = ValidateStructureStatus g; descriptors = ValidateBuildDescriptorsStatus g;
          inputs = gd_inputs (md_graph (g_model g)); outputs = gd_outputs (md_graph (g_model g)) in
      if \<not> ok checked then (Inl checked, g_env g)
      else if \<not> ok descriptors then (Inl descriptors, g_env g)
      else
        bindE (on_world (foldE (check_control g external_states) (g_control g) ()) (g_env g)) (\<lambda>_ e1.
        bindE (foldR (check_external g) external_states [], e1) (\<lambda>externals e2.
        bindE (let effects = ValidateOperatorEffects (e_world e2) (e_heap e2) (map static_effect_node (live_nodes g))
                     (GetTensor g) (Some inputs) outputs True
               in (if ok effects then Inr () else Inl effects, e2)) (\<lambda>_ e3.
        bindE (foldE (freeze_value g externals) (e_tensors (g_env g))
                 \<lparr>fz_frozen = Map.empty, fz_groups = [], fz_values = []\<rparr> e3) (\<lambda>z e4.
          (let vs = sort_key v_name (fz_values z) in
           (bindR (foldR (compile_node K (fz_frozen z)) (live_nodes g) []) (\<lambda>nodes.
            bindR (order_plan g nodes) (\<lambda>ordered.
            bindR (BuildMemoryPlan (map plan_value.truncate vs) (map plan_node.truncate ordered) outputs) (\<lambda>plan.
              Inr \<lparr>cg_values = vs, cg_nodes = ordered, cg_inputs = inputs, cg_outputs = outputs,
                   cg_memory_plan = plan, cg_required = external_states, cg_control = g_control g\<rparr>))), e4)))))))"

end
