(* ===== verification/Execution_Session.thy ===== *)
theory Execution_Session
  imports Compiled_Graph
begin

text \<open>
  Instances of a compiled graph: \<open>InstallRuntime\<close>, \<open>LowerInto\<close> and \<open>CreateSession\<close> of
  \<open>src/core/execution_plan.cc\<close>, the lowering of \<open>src/core/graph_lowering.cc\<close> and the session
  with its inputs and outputs.  A session has a runtime graph over the one heap of the process,
  whose environment it takes over when it is created.  What throws inside is caught at the end of
  each function.  \<open>x86\<close> says whether the host has the x86 kernels.
\<close>

section \<open>Backends of sessions\<close>

record 'b SessionBackend = "'b BackendContext" +
  SetWorkspaceLimit :: "nat \<Rightarrow> 'b rt_env \<Rightarrow> 'b rt_env"
  SetFp8WeightCacheLimit :: "nat \<Rightarrow> 'b rt_env \<Rightarrow> 'b rt_env"
  ShareImmutableWeight :: "nat \<Rightarrow> nat \<Rightarrow> 'b rt_env \<Rightarrow> status \<times> 'b rt_env"

abbreviation context_of :: "'b SessionBackend \<Rightarrow> 'b BackendContext" where
  "context_of backend \<equiv> BackendContext.truncate backend"

definition new_runtime :: "'b rt_env \<Rightarrow> ('b, 'd) RuntimeGraph" where
  "new_runtime env = \<lparr>rg_env = env, rg_tensors = [], rg_nodes = [], rg_index = Map.empty, rg_ids = Map.empty,
     rg_value_names = [], rg_uses = Map.empty, rg_output_names = [], rg_output_ptrs = {}, rg_worker_count = 1,
     rg_pool = False, rg_profiling = False, rg_profiles = [], rg_profile_index = Map.empty,
     rg_mode = kParallelGraph, rg_threads = 1, rg_finalized = False, rg_bindings_installed = False,
     rg_uses_memory_plan = False, rg_locked = False, rg_contracts = [], rg_binding_contracts = [],
     rg_effect_nodes = [], rg_effect_inputs = [], rg_effect_outputs = [], rg_status = Ok\<rparr>"

text \<open>A step of the runtime graph whose exception ends the function.\<close>

definition tryE :: "string \<Rightarrow> ('s \<Rightarrow> 's option) \<Rightarrow> 's \<Rightarrow> (status + unit) \<times> 's" where
  "tryE context f s = (case f s of None \<Rightarrow> (Inl (thrown context check_failed), s) | Some s' \<Rightarrow> (Inr (), s'))"

section \<open>Installing the nodes\<close>

definition cg_produced :: "'b CompiledGraph \<Rightarrow> string list" where
  "cg_produced plan = concat (map pn_outputs (cg_nodes plan))"

text \<open>The outputs of bounded extent; \<open>at\<close> throws on a slot that is not there.\<close>

definition bounded_slots :: "'b compiled_node \<Rightarrow> nat list" where
  "bounded_slots n = bounded_outputs (cn_semantics n)"

definition cg_bounded :: "'b CompiledGraph \<Rightarrow> string list" where
  "cg_bounded plan = concat (map (\<lambda>n. map ((!) (pn_outputs n)) (bounded_slots n)) (cg_nodes plan))"

definition install_value ::
  "'b BackendContext \<Rightarrow> 'b CompiledGraph \<Rightarrow> compiled_value \<Rightarrow> unit \<Rightarrow> ('b, 'd) RuntimeGraph \<Rightarrow>
   (status + unit) \<times> ('b, 'd) RuntimeGraph" where
  "install_value backend plan v u g =
     (case rg_tensor g (v_name v) of
        None \<Rightarrow> (Inl (BuildError (''missing runtime binding: '' @ v_name v)), g)
      | Some p \<Rightarrow>
          (let contract = \<lparr>tc_name = v_name v, tc_tensor = p, tc_descriptor = tensor_of g (v_prototype v),
                 tc_bytes = v_bytes v, tc_fixed_quantization = (v_name v \<notin> set (cg_produced plan)),
                 tc_bounded = (v_name v \<in> set (cg_bounded plan)),
                 tc_fixed_values = map_of (cg_control plan) (v_name v)\<rparr>;
               g1 = g\<lparr>rg_contracts := rg_contracts g @ [contract]\<rparr>
           in (Inr (), if m_immutable (tensor_of g p) then map_env (MarkPersistent backend p True) g1 else g1)))"

text \<open>
  The factory of a compiled node gives its instance the device of the schema, so the test of the
  instance's device in the code always passes.
\<close>

definition install_node ::
  "'b BackendContext \<Rightarrow> semantics_registry \<Rightarrow> bool \<Rightarrow> string \<Rightarrow> (nat \<rightharpoonup> nat) \<Rightarrow> 'b compiled_node \<Rightarrow> unit \<Rightarrow>
   ('b, 'd) RuntimeGraph \<Rightarrow> (status + unit) \<times> ('b, 'd) RuntimeGraph" where
  "install_node backend registry x86 context bindings n u g =
     (let semantics = cn_semantics n; schema = cn_schema n; unavailable = BuildError (''compiled backend is unavailable: '' @ pn_name n) in
      if \<exists>slot \<in> set (mutable_inputs semantics). length (pn_inputs n) \<le> slot
      then (Inl (thrown context ''vector::at''), g)
      else
        (let marked = List.map_filter (\<lambda>slot. rg_tensor g (pn_inputs n ! slot)) (mutable_inputs semantics);
             g1 = fold (\<lambda>p. map_env (MarkPersistent backend p True)) marked g in
         if ks_device schema = X86 \<and> \<not> x86
         then (Inl (BuildError (''compiled x86 backend is unavailable: '' @ pn_name n)), g1)
         else case ks_factory schema of
           None \<Rightarrow> (Inl unavailable, g1)
         | Some None \<Rightarrow> (Inl unavailable, g1)
         | Some (Some instance_of) \<Rightarrow>
             (case rebind (ks_visitor schema) (case ks_snapshot schema of None \<Rightarrow> [] | Some ts \<Rightarrow> ts) bindings of
                Inl e \<Rightarrow> (Inl (WithContext e (''instantiate node='' @ pn_name n)), g1)
              | Inr bound \<Rightarrow>
                  (let kernel = (instance_of bound)\<lparr>k_owns_param := True\<rparr> in
                   case k_supports kernel (rg_env g1) of
                     Inl what \<Rightarrow> (Inl (thrown context what), g1)
                   | Inr status \<Rightarrow>
                       if \<not> ok status then (Inl (WithContext status (''instantiate node='' @ pn_name n)), g1)
                       else tryE context (AddNode registry
                              \<lparr>rn_name = pn_name n, rn_op_type = cn_op_type n, rn_inputs = pn_inputs n, rn_outputs = pn_outputs n,
                               rn_input_ids = [], rn_output_ids = [], rn_kernel = Some kernel, rn_device = ks_device schema,
                               rn_preds = [], rn_succs = [], rn_pending = 0, rn_semantics = Some semantics\<rparr>) g1))))"

definition InstallRuntime ::
  "'b BackendContext \<Rightarrow> semantics_registry \<Rightarrow> bool \<Rightarrow> string \<Rightarrow> 'b CompiledGraph \<Rightarrow> (nat \<rightharpoonup> nat) \<Rightarrow>
   ('b, 'd) RuntimeGraph \<Rightarrow> (status + unit) \<times> ('b, 'd) RuntimeGraph" where
  "InstallRuntime backend registry x86 context plan bindings g =
     (if \<exists>n \<in> set (cg_nodes plan). \<exists>slot \<in> set (bounded_slots n). length (pn_outputs n) \<le> slot
      then (Inl (thrown context ''vector::at''), g)
      else
        bindE (foldE (install_value backend plan) (cg_values plan) () g) (\<lambda>_ g1.
        bindE (foldE (install_node backend registry x86 context bindings) (cg_nodes plan) () g1) (\<lambda>_ g2.
          (Inr (), CaptureTensorBindings g2))))"

section \<open>Lowering onto the graph's own tensors\<close>

definition set_tensor ::
  "'b BackendContext \<Rightarrow> string \<Rightarrow> status \<Rightarrow> string \<Rightarrow> nat option \<Rightarrow> ('b, 'd) RuntimeGraph \<Rightarrow>
   (status + unit) \<times> ('b, 'd) RuntimeGraph" where
  "set_tensor backend context refused name tensor g =
     (case RuntimeSetTensor backend name tensor g of
        None \<Rightarrow> (Inl (thrown context check_failed), g)
      | Some (r, g') \<Rightarrow> (if r \<noteq> 0 then Inl refused else Inr (), g'))"

definition lower_value ::
  "'b BackendContext \<Rightarrow> StaticGraph \<Rightarrow> compiled_value \<Rightarrow> (nat \<rightharpoonup> nat) \<Rightarrow> ('b, 'd) RuntimeGraph \<Rightarrow>
   (status + (nat \<rightharpoonup> nat)) \<times> ('b, 'd) RuntimeGraph" where
  "lower_value backend static v bindings g =
     (let missing = BuildError (''missing legacy tensor: '' @ v_name v) in
      case GetTensor static (v_name v) of
        None \<Rightarrow> (Inl missing, g)
      | Some p \<Rightarrow> bindE (set_tensor backend ''lower graph'' missing (v_name v) (Some p) g)
                   (\<lambda>_ g1. (Inr (bindings(v_prototype v \<mapsto> p)), g1)))"

definition require_serial :: "'b BackendContext \<Rightarrow> 'b compiled_node \<Rightarrow> ('b, 'd) RuntimeGraph \<Rightarrow> ('b, 'd) RuntimeGraph option" where
  "require_serial backend n g =
     (if cap_parallel_nodes (Capabilities backend (ks_device (cn_schema n))) then Some g else SetThreadMode kSerialGraph g)"

definition LowerInto ::
  "'b BackendContext \<Rightarrow> semantics_registry \<Rightarrow> bool \<Rightarrow> 'b CompiledGraph \<Rightarrow> StaticGraph \<Rightarrow> ('b, 'd) RuntimeGraph \<Rightarrow>
   status \<times> ('b, 'd) RuntimeGraph" where
  "LowerInto backend registry x86 plan static g =
     (let ctx = ''lower graph'';
          (r, g') =
            bindE (tryE ctx (RuntimeClear backend) g) (\<lambda>_ g1.
            bindE (tryE ctx (SetThreadMode (rg_mode g)) g1) (\<lambda>_ g2.
            bindE (tryE ctx (SetOutputNames (cg_outputs plan)) g2) (\<lambda>_ g3.
            bindE (foldE (lower_value backend static) (cg_values plan) Map.empty g3) (\<lambda>bindings g4.
            bindE (foldE (\<lambda>n _. tryE ctx (require_serial backend n)) (cg_nodes plan) () g4) (\<lambda>_ g5.
            bindE (InstallRuntime backend registry x86 ctx plan bindings g5) (\<lambda>_ g6.
              (let (st, g7) = FinalizeStatus backend g6 in
               if \<not> ok st then (Inl st, g7)
               else (let (checked, g8) = CheckRuntimeStatus g7 in (if ok checked then Inr checked else Inl checked, g8)))))))))
      in (case r of Inl e \<Rightarrow> e | Inr st \<Rightarrow> st, g'))"

text \<open>The runtime graph sees the heap the static graph left; only the device's state is its own.\<close>

definition take_heap :: "op_env \<Rightarrow> ('b, 'd) RuntimeGraph \<Rightarrow> ('b, 'd) RuntimeGraph" where
  "take_heap e g = map_env (\<lambda>x. x\<lparr>x_heap := e_heap e, x_world := e_world e\<rparr>) g"

definition LowerStatus ::
  "(nat \<Rightarrow> 'b KernelSchema) \<Rightarrow> 'b BackendContext \<Rightarrow> semantics_registry \<Rightarrow> bool \<Rightarrow> StaticGraph \<Rightarrow>
   ('b, 'd) RuntimeGraph option \<Rightarrow> status \<times> ('b, 'd) RuntimeGraph option" where
  "LowerStatus K backend registry x86 static runtime =
     (case runtime of
        None \<Rightarrow> (Error kInvalidArgument ''runtime graph is null'', None)
      | Some g \<Rightarrow>
          (let (compiled, e) = Compile K [] static; g1 = take_heap e g in
           case compiled of
             Inl st \<Rightarrow> (st, Some g1)
           | Inr plan \<Rightarrow> (let (st, g2) = LowerInto backend registry x86 plan static g1 in (st, Some g2))))"

definition Lower ::
  "(nat \<Rightarrow> 'b KernelSchema) \<Rightarrow> 'b BackendContext \<Rightarrow> semantics_registry \<Rightarrow> bool \<Rightarrow> StaticGraph \<Rightarrow>
   ('b, 'd) RuntimeGraph option \<Rightarrow> int \<times> ('b, 'd) RuntimeGraph option" where
  "Lower K backend registry x86 static runtime =
     (let (st, g) = LowerStatus K backend registry x86 static runtime in (if ok st then 0 else -1, g))"

section \<open>Creating a session\<close>

record ExecutionSession_usage =
  us_mutable_host :: nat
  us_shared_weight :: nat
  us_reused_weight :: nat
  us_arena :: nat

text \<open>
  The bindings of mutable state are listed in the order the hash table is traversed.  Of the session
  that lends its constants only the tensors of its runtime graph are looked at.
\<close>

record SessionOptions =
  so_mode :: RuntimeThreadMode
  so_threads :: nat
  so_reuse :: bool
  so_host_limit :: nat
  so_workspace_limit :: nat
  so_fp8_limit :: nat
  so_state :: "(string \<times> nat option) list"
  so_source :: "(string \<rightharpoonup> nat) option"

record ('b, 'd) ExecutionSession =
  es_runtime :: "('b, 'd) RuntimeGraph"
  es_reuses :: bool
  es_usage :: ExecutionSession_usage
  es_inputs :: "string set"
  es_outputs :: "string set"

definition node_allowed :: "'b BackendContext \<Rightarrow> RuntimeThreadMode \<Rightarrow> 'b compiled_node \<Rightarrow> bool \<Rightarrow> status + bool" where
  "node_allowed backend mode n can_reuse =
     (let caps = Capabilities backend (ks_device (cn_schema n)) in
      if serial_execution (cn_semantics n) \<and> mode \<noteq> kSerialGraph
      then Inl (BuildError (''operator requires serial graph execution: '' @ pn_name n))
      else if \<not> cap_supported caps then Inl (BuildError (''backend cannot execute node='' @ pn_name n))
      else if \<not> cap_parallel_nodes caps \<and> mode \<noteq> kSerialGraph
      then Inl (BuildError (''backend requires serial execution: '' @ pn_name n))
      else Inr (can_reuse \<and> cap_activation_reuse caps))"

subsection \<open>Groups of values\<close>

definition cg_groups :: "'b CompiledGraph \<Rightarrow> nat list" where
  "cg_groups plan = remdups (map v_group (cg_values plan))"

definition group_values :: "'b CompiledGraph \<Rightarrow> nat \<Rightarrow> compiled_value list" where
  "group_values plan k = filter (\<lambda>v. v_group v = k) (cg_values plan)"

definition group_bytes :: "'b CompiledGraph \<Rightarrow> nat \<Rightarrow> nat" where
  "group_bytes plan k = foldl max 0 (map (\<lambda>v. v_offset v + v_bytes v) (group_values plan k))"

definition immutable_group :: "Tensor list \<Rightarrow> 'b CompiledGraph \<Rightarrow> nat \<Rightarrow> bool" where
  "immutable_group heap plan k \<longleftrightarrow>
     (let seeds = filter v_seed (group_values plan k) in
      seeds \<noteq> [] \<and> (\<forall>v \<in> set seeds. m_immutable (heap ! v_prototype v)))"

subsection \<open>External state\<close>

definition named_value :: "'b CompiledGraph \<Rightarrow> string \<Rightarrow> compiled_value option" where
  "named_value plan name = find (\<lambda>v. v_name v = name) (cg_values plan)"

definition state_compatible :: "world \<Rightarrow> Tensor \<Rightarrow> Tensor \<Rightarrow> nat \<Rightarrow> bool" where
  "state_compatible w t d bytes \<longleftrightarrow>
     (case m_storage t of None \<Rightarrow> False
      | Some s \<Rightarrow> IsInitialized w t \<and> \<not> m_immutable t \<and> \<not> m_immutable d \<and> \<not> storage_read_only s w \<and>
          m_dims t = m_dims d \<and> m_data_type t = m_data_type d \<and> m_layout t = m_layout d \<and>
          HasSameQuantization (m_quantization t) (m_quantization d) \<and> bytes \<le> m_memory_size t \<and>
          m_offset t \<le> storage_size s w \<and> bytes \<le> storage_size s w - m_offset t)"

text \<open>Another binding, of a smaller name, overlaps this one, unless both name the same tensor.\<close>

definition state_conflict ::
  "'b CompiledGraph \<Rightarrow> world \<Rightarrow> Tensor list \<Rightarrow> string \<times> nat \<Rightarrow> nat \<Rightarrow> string \<times> nat option \<Rightarrow> bool" where
  "state_conflict plan w heap item descriptor other \<longleftrightarrow>
     (case snd other of None \<Rightarrow> False
      | Some q \<Rightarrow>
          fst other < fst item \<and>
          \<not> ((case named_value plan (fst other) of None \<Rightarrow> False | Some v \<Rightarrow> v_prototype v = descriptor) \<and> q = snd item) \<and>
          TensorRangesOverlap w heap (snd item) q)"

record external_state =
  xs_prototypes :: "(nat \<times> nat) list"
  xs_groups :: "nat list"

definition check_state ::
  "'b CompiledGraph \<Rightarrow> (string \<times> nat option) list \<Rightarrow> world \<Rightarrow> Tensor list \<Rightarrow> string \<times> nat option \<Rightarrow> external_state \<Rightarrow>
   status + external_state" where
  "check_state plan states w heap item x =
     (let name = fst item; incompatible = Inl (BuildError (''incompatible external state: '' @ name)) in
      case named_value plan name of
        None \<Rightarrow> Inl (BuildError (''state binding is not a graph input: '' @ name))
      | Some v \<Rightarrow>
          if name \<notin> set (cg_inputs plan) \<or> name \<in> set (cg_produced plan)
          then Inl (BuildError (''state binding is not a graph input: '' @ name))
          else case snd item of
            None \<Rightarrow> incompatible
          | Some p \<Rightarrow>
              if \<not> state_compatible w (heap ! p) (heap ! v_prototype v) (v_bytes v) then incompatible
              else if \<exists>alias \<in> set (group_values plan (v_group v)). v_prototype alias \<noteq> v_prototype v
              then Inl (BuildError (''external state view aliases are unsupported: '' @ name))
              else if (case map_of (xs_prototypes x) (v_prototype v) of None \<Rightarrow> False | Some q \<Rightarrow> q \<noteq> p)
              then Inl (BuildError (''external state aliases require the same Tensor: '' @ name))
              else (case find (state_conflict plan w heap (name, p) (v_prototype v)) states of
                      Some other \<Rightarrow> Inl (BuildError (''overlapping external state bindings: '' @ name @ '' and '' @ fst other))
                    | None \<Rightarrow>
                        Inr \<lparr>xs_prototypes = (if map_of (xs_prototypes x) (v_prototype v) = None
                                              then xs_prototypes x @ [(v_prototype v, p)] else xs_prototypes x),
                             xs_groups = xs_groups x @ [v_group v]\<rparr>))"

definition check_weight_overlap ::
  "world \<Rightarrow> Tensor list \<Rightarrow> (nat \<times> nat) \<times> compiled_value \<Rightarrow> unit \<Rightarrow> status + unit" where
  "check_weight_overlap w heap item u =
     (let p = snd (fst item); v = snd item in
      if m_immutable (heap ! v_prototype v) \<and> IsInitialized w (heap ! v_prototype v) \<and>
         TensorRangesOverlap w heap p (v_prototype v)
      then Inl (BuildError (''external state overlaps immutable weight: '' @ v_name v)) else Inr ())"

definition check_states ::
  "'b CompiledGraph \<Rightarrow> (string \<times> nat option) list \<Rightarrow> world \<Rightarrow> Tensor list \<Rightarrow> status + external_state" where
  "check_states plan states w heap =
     (case find (\<lambda>name. name \<notin> fst ` set states) (cg_required plan) of
        Some name \<Rightarrow> Inl (BuildError (''missing external state binding: '' @ name))
      | None \<Rightarrow>
          bindR (foldR (check_state plan states w heap) states \<lparr>xs_prototypes = [], xs_groups = []\<rparr>) (\<lambda>x.
          bindR (foldR (check_weight_overlap w heap) (List.product (xs_prototypes x) (cg_values plan)) ()) (\<lambda>_.
            Inr x)))"

subsection \<open>The budget\<close>

definition arena_groups :: "bool \<Rightarrow> 'b CompiledGraph \<Rightarrow> nat list" where
  "arena_groups reuses plan = (if reuses then map a_group (allocations (cg_memory_plan plan)) else [])"

definition count_group ::
  "Tensor list \<Rightarrow> bool \<Rightarrow> 'b CompiledGraph \<Rightarrow> nat \<Rightarrow> ExecutionSession_usage \<Rightarrow> status + ExecutionSession_usage" where
  "count_group heap reuses plan k usage =
     (let bytes = group_bytes plan k; overflow = Inl (BuildError ''session storage size overflow'') in
      if k \<in> set (arena_groups reuses plan) then Inr usage
      else if immutable_group heap plan k
      then (if bytes > SIZE_MAX - us_shared_weight usage then overflow
            else Inr (usage\<lparr>us_shared_weight := us_shared_weight usage + bytes\<rparr>))
      else (if bytes > SIZE_MAX - us_mutable_host usage then overflow
            else Inr (usage\<lparr>us_mutable_host := us_mutable_host usage + bytes\<rparr>)))"

definition session_usage ::
  "Tensor list \<Rightarrow> bool \<Rightarrow> nat \<Rightarrow> 'b CompiledGraph \<Rightarrow> status + ExecutionSession_usage" where
  "session_usage heap reuses limit plan =
     (let arena = (if reuses then arena_bytes (cg_memory_plan plan) else 0) in
      bindR (foldR (count_group heap reuses plan) (cg_groups plan)
               \<lparr>us_mutable_host = arena, us_shared_weight = 0, us_reused_weight = 0, us_arena = arena\<rparr>) (\<lambda>usage.
        if us_mutable_host usage > limit then Inl (BuildError ''session host memory budget exceeded'')
        else Inr usage))"

subsection \<open>Storages\<close>

text \<open>A tensor over a new buffer, opened for writing: its storage and its address.\<close>

definition new_writable :: "nat \<Rightarrow> world \<Rightarrow> (world \<times> nat) option" where
  "new_writable n w =
     (let (w1, b) = new_buffer n w; (w2, s) = new_Storage (Some b) COMMON 0 w1 in
      case mutable_data n (empty_Tensor\<lparr>m_storage := Some s\<rparr>) w2 of
        None \<Rightarrow> None | Some (w3, t, p) \<Rightarrow> Some (w3, address p))"

definition wrap_storage :: "nat \<Rightarrow> nat \<Rightarrow> bool \<Rightarrow> world \<Rightarrow> world \<times> nat" where
  "wrap_storage a n read_only w = (let (w1, b) = wrap_buffer a n read_only w in new_Storage (Some b) COMMON 0 w1)"

definition place_allocation ::
  "nat \<Rightarrow> PlannedAllocation \<Rightarrow> (nat \<rightharpoonup> nat) \<times> world \<Rightarrow> (nat \<rightharpoonup> nat) \<times> world" where
  "place_allocation arena a s =
     (let (w, st) = wrap_storage (arena + a_offset a) (a_bytes a) False (snd s) in ((fst s)(a_group a \<mapsto> st), w))"

definition place_arena :: "bool \<Rightarrow> MemoryPlan \<Rightarrow> world \<Rightarrow> ((nat \<rightharpoonup> nat) \<times> world) option" where
  "place_arena reuses plan w =
     (if \<not> reuses \<or> arena_bytes plan = 0 then Some (Map.empty, w)
      else case new_writable (arena_bytes plan) w of
             None \<Rightarrow> None
           | Some (w1, arena) \<Rightarrow> Some (fold (place_allocation arena) (allocations plan) (Map.empty, w1)))"

text \<open>The constants of a group in one read-only allocation: a prototype's that covers it, or a copy of all.\<close>

definition copy_seed :: "nat \<Rightarrow> Tensor list \<Rightarrow> compiled_value \<Rightarrow> world \<Rightarrow> world" where
  "copy_seed a heap v w =
     (if \<not> v_seed v \<or> v_bytes v = 0 then w
      else (let (w', bytes) = read_bytes (heap ! v_prototype v) (v_bytes v) w
            in w'\<lparr>mem := mem_write (mem w') (a + v_offset v) bytes\<rparr>))"

definition freeze_group :: "Tensor list \<Rightarrow> 'b CompiledGraph \<Rightarrow> nat \<Rightarrow> world \<Rightarrow> (world \<times> nat option) option" where
  "freeze_group heap plan k w =
     (let n = group_bytes plan k; vs = group_values plan k in
      case find (\<lambda>v. v_seed v \<and> v_offset v = 0 \<and> n \<le> v_bytes v) vs of
        Some v \<Rightarrow> Some (w, m_storage (heap ! v_prototype v))
      | None \<Rightarrow>
          (case new_writable n w of
             None \<Rightarrow> None
           | Some (w1, a) \<Rightarrow> (let (w2, s) = wrap_storage a n True (fold (copy_seed a heap) vs w1) in Some (w2, Some s))))"

text \<open>A constant of another session that has the descriptor of \<open>t\<close> and the same bytes.\<close>

definition lendable :: "world \<Rightarrow> Tensor \<Rightarrow> Tensor \<Rightarrow> nat \<Rightarrow> bool" where
  "lendable w source t bytes \<longleftrightarrow>
     m_immutable source \<and> IsInitialized w source \<and> (case m_storage source of None \<Rightarrow> False | Some s \<Rightarrow> storage_read_only s w) \<and>
     m_dims source = m_dims t \<and> m_data_type source = m_data_type t \<and> m_layout source = m_layout t \<and>
     HasSameQuantization (m_quantization source) (m_quantization t) \<and> m_memory_size source = bytes"

definition same_content :: "Tensor \<Rightarrow> Tensor \<Rightarrow> nat \<Rightarrow> world \<Rightarrow> world \<times> bool" where
  "same_content source t bytes w =
     (let (w1, a) = raw_data source w; (w2, b) = raw_data t w1 in
      (w2, a = b \<or> mem_read (mem w2) (address a) bytes = mem_read (mem w2) (address b) bytes))"

text \<open>\<open>frozen\<close> as a tensor at offset 0, to be compared with and replaced by a constant of the source.\<close>

fun borrow_group ::
  "(string \<rightharpoonup> nat) \<Rightarrow> Tensor list \<Rightarrow> nat \<Rightarrow> compiled_value list \<Rightarrow> nat option \<Rightarrow> world \<Rightarrow> world \<times> nat option" where
  "borrow_group source heap n [] frozen w = (w, frozen)"
| "borrow_group source heap n (v # vs) frozen w =
     (case (if v_seed v \<and> v_offset v = 0 \<and> v_bytes v = n then source (v_name v) else None) of
        None \<Rightarrow> borrow_group source heap n vs frozen w
      | Some q \<Rightarrow>
          if \<not> lendable w (heap ! q) (heap ! v_prototype v) (v_bytes v) then borrow_group source heap n vs frozen w
          else (let (w1, same) = same_content (heap ! q) (empty_Tensor\<lparr>m_storage := frozen\<rparr>) (v_bytes v) w in
                if \<not> same then borrow_group source heap n vs frozen w1
                else (let (w2, a) = raw_data (heap ! q) w1; (w3, s) = wrap_storage (address a) (v_bytes v) True w2
                      in (w3, Some s))))"

definition place_constants ::
  "(string \<rightharpoonup> nat) option \<Rightarrow> Tensor list \<Rightarrow> 'b CompiledGraph \<Rightarrow> nat \<Rightarrow> (nat \<rightharpoonup> nat) \<times> world \<Rightarrow>
   ((nat \<rightharpoonup> nat) \<times> world) option" where
  "place_constants source heap plan k s =
     (case freeze_group heap plan k (snd s) of
        None \<Rightarrow> None
      | Some (w1, frozen) \<Rightarrow>
          (let (w2, frozen') = (case source of None \<Rightarrow> (w1, frozen)
                 | Some f \<Rightarrow> borrow_group f heap (group_bytes plan k) (group_values plan k) frozen w1);
               buffer = (case frozen' of None \<Rightarrow> None | Some st \<Rightarrow> st_buffer (storages w2 ! st));
               (w3, st) = new_Storage buffer COMMON 0 w2
           in Some ((fst s)(k \<mapsto> st), w3)))"

fun place_all_constants ::
  "(string \<rightharpoonup> nat) option \<Rightarrow> Tensor list \<Rightarrow> 'b CompiledGraph \<Rightarrow> nat list \<Rightarrow> (nat \<rightharpoonup> nat) \<times> world \<Rightarrow>
   ((nat \<rightharpoonup> nat) \<times> world) option" where
  "place_all_constants source heap plan [] s = Some s"
| "place_all_constants source heap plan (k # ks) s =
     (case place_constants source heap plan k s of None \<Rightarrow> None | Some s' \<Rightarrow> place_all_constants source heap plan ks s')"

subsection \<open>Binding the values\<close>

record building =
  bu_bindings :: "nat \<rightharpoonup> nat"
  bu_storage :: "nat \<rightharpoonup> nat"
  bu_inputs :: "string set"
  bu_reused :: nat

text \<open>\<open>memcpy(tensor->mutable_data(bytes), prototype->raw_data(), bytes)\<close>\<close>

definition fill_seed :: "Tensor \<Rightarrow> nat \<Rightarrow> Tensor \<Rightarrow> world \<Rightarrow> (world \<times> Tensor) option" where
  "fill_seed prototype bytes t w =
     (case mutable_data bytes t w of
        None \<Rightarrow> None
      | Some (w1, t', p) \<Rightarrow>
          (let (w2, source) = read_bytes prototype bytes w1
           in Some (w2\<lparr>mem := mem_write (mem w2) (address p) source\<rparr>, t')))"

definition new_session_tensor ::
  "bool \<Rightarrow> 'b CompiledGraph \<Rightarrow> compiled_value \<Rightarrow> (nat \<rightharpoonup> nat) \<Rightarrow> Tensor list \<Rightarrow> world \<Rightarrow>
   (Tensor \<times> (nat \<rightharpoonup> nat) \<times> world) option" where
  "new_session_tensor immutable_values plan v storage heap w =
     (let prototype = heap ! v_prototype v;
          (s, w1) = (case storage (v_group v) of Some s \<Rightarrow> (s, w)
                     | None \<Rightarrow> (let (w1, s) = new_deferred_Storage (group_bytes plan (v_group v)) w in (s, w1)))
      in case ResetStorage s (v_bytes v) (v_offset v) (Descriptor prototype) w1 of
           None \<Rightarrow> None
         | Some t \<Rightarrow>
             map_option (\<lambda>(w2, t'). (t', storage(v_group v \<mapsto> s), w2))
               (if v_seed v \<and> \<not> immutable_values \<and> v_bytes v \<noteq> 0 then fill_seed prototype (v_bytes v) t w1
                else Some (w1, t)))"

text \<open>The tensor of a value: one bound before, the caller's own, or a new one.\<close>

definition session_tensor ::
  "'b CompiledGraph \<Rightarrow> (nat \<Rightarrow> bool) \<Rightarrow> external_state \<Rightarrow> compiled_value \<Rightarrow> building \<Rightarrow> ('b, 'd) RuntimeGraph \<Rightarrow>
   (status + nat \<times> building) \<times> ('b, 'd) RuntimeGraph" where
  "session_tensor plan immutable_of x v b g =
     (let q = v_prototype v in
      case bu_bindings b q of
        Some p \<Rightarrow> (Inr (p, b), g)
      | None \<Rightarrow>
          (case map_of (xs_prototypes x) q of
             Some p \<Rightarrow> (Inr (p, b\<lparr>bu_bindings := (bu_bindings b)(q \<mapsto> p)\<rparr>), g)
           | None \<Rightarrow>
               (let heap = x_heap (rg_env g) in
                case new_session_tensor (immutable_of (v_group v)) plan v (bu_storage b) heap (x_world (rg_env g)) of
                  None \<Rightarrow> (Inl (thrown ''instantiate session'' check_failed), g)
                | Some (t, storage, w) \<Rightarrow>
                    (Inr (length heap, b\<lparr>bu_bindings := (bu_bindings b)(q \<mapsto> length heap), bu_storage := storage\<rparr>),
                     map_env (\<lambda>e. e\<lparr>x_heap := heap @ [t], x_world := w\<rparr>) g))))"

definition share_weight ::
  "'b SessionBackend \<Rightarrow> (string \<rightharpoonup> nat) option \<Rightarrow> string list \<Rightarrow> compiled_value \<Rightarrow> nat \<Rightarrow> building \<Rightarrow> ('b, 'd) RuntimeGraph \<Rightarrow>
   (status + building) \<times> ('b, 'd) RuntimeGraph" where
  "share_weight backend source cuda_inputs v p b g =
     (let t = tensor_of g p in
      case (if m_immutable t then (case source of None \<Rightarrow> None | Some f \<Rightarrow> f (v_name v)) else None) of
        None \<Rightarrow> (Inr b, g)
      | Some q \<Rightarrow>
          if \<not> lendable (x_world (rg_env g)) (tensor_of g q) t (v_bytes v) then (Inr b, g)
          else
            (let (w, same) = same_content (tensor_of g q) t (v_bytes v) (x_world (rg_env g));
                 g1 = map_env (\<lambda>e. e\<lparr>x_world := w\<rparr>) g; reused = b\<lparr>bu_reused := bu_reused b + v_bytes v\<rparr> in
             if \<not> same then (Inr b, g1)
             else if v_name v \<notin> set cuda_inputs then (Inr reused, g1)
             else (let (st, e) = ShareImmutableWeight backend q p (rg_env g1) in
                   (if ok st then Inr reused else Inl (WithContext st (''share weight='' @ v_name v)), g1\<lparr>rg_env := e\<rparr>))))"

definition bind_value ::
  "'b SessionBackend \<Rightarrow> 'b CompiledGraph \<Rightarrow> (nat \<Rightarrow> bool) \<Rightarrow> external_state \<Rightarrow> (string \<rightharpoonup> nat) option \<Rightarrow> compiled_value \<Rightarrow>
   building \<Rightarrow> ('b, 'd) RuntimeGraph \<Rightarrow> (status + building) \<times> ('b, 'd) RuntimeGraph" where
  "bind_value backend plan immutable_of x source v b g =
     (let cuda_inputs = concat (map pn_inputs (filter (\<lambda>n. ks_device (cn_schema n) = CUDA) (cg_nodes plan))) in
      bindE (session_tensor plan immutable_of x v b g) (\<lambda>(p, b1) g1.
      bindE (set_tensor (context_of backend) ''instantiate session''
               (BuildError (''session value binding failed: '' @ v_name v)) (v_name v) (Some p) g1) (\<lambda>_ g2.
      bindE (share_weight backend source cuda_inputs v p b1 g2) (\<lambda>b2 g3.
        (let fixed = m_immutable (tensor_of g3 p);
             b3 = (if v_name v \<notin> set (cg_produced plan) \<and> \<not> fixed
                   then b2\<lparr>bu_inputs := insert (v_name v) (bu_inputs b2)\<rparr> else b2)
         in (Inr b3, if fixed \<or> v_group v \<in> set (xs_groups x)
                     then map_env (MarkPersistent (context_of backend) p True) g3 else g3))))))"

subsection \<open>The whole\<close>

definition on_env :: "('b rt_env \<Rightarrow> 'b rt_env) \<Rightarrow> ('b, 'd) RuntimeGraph \<Rightarrow> (status + unit) \<times> ('b, 'd) RuntimeGraph" where
  "on_env f g = (Inr (), map_env f g)"

definition place_storages ::
  "SessionOptions \<Rightarrow> 'b CompiledGraph \<Rightarrow> bool \<Rightarrow> ('b, 'd) RuntimeGraph \<Rightarrow> (status + (nat \<rightharpoonup> nat)) \<times> ('b, 'd) RuntimeGraph" where
  "place_storages options plan reuses g =
     (let heap = x_heap (rg_env g); failed = (Inl (thrown ''instantiate session'' check_failed), g) in
      case place_arena reuses (cg_memory_plan plan) (x_world (rg_env g)) of
        None \<Rightarrow> failed
      | Some s \<Rightarrow>
          (case place_all_constants (so_source options) heap plan (filter (immutable_group heap plan) (cg_groups plan)) s of
             None \<Rightarrow> failed
           | Some (storage, w) \<Rightarrow> (Inr storage, map_env (\<lambda>e. e\<lparr>x_world := w\<rparr>) g)))"

definition CreateSession ::
  "'b SessionBackend \<Rightarrow> semantics_registry \<Rightarrow> bool \<Rightarrow> SessionOptions \<Rightarrow> 'b CompiledGraph \<Rightarrow> 'b rt_env \<Rightarrow>
   (status + ('b, 'd) ExecutionSession) \<times> 'b rt_env" where
  "CreateSession backend registry x86 options plan env =
     (let ctx = ''instantiate session''; context = context_of backend; heap = x_heap env;
          (r, g) =
            bindE (tryE ctx (SetThreadMode (so_mode options)) (new_runtime env)) (\<lambda>_ g1.
            bindE (tryE ctx (SetThreadCount (so_threads options)) g1) (\<lambda>_ g2.
            bindE (tryE ctx (SetOutputNames (cg_outputs plan)) g2) (\<lambda>_ g3.
            bindE (foldR (node_allowed context (so_mode options)) (cg_nodes plan) True, g3) (\<lambda>can_reuse g4.
              (let reuses = (so_reuse options \<and> can_reuse \<and> so_mode options = kSerialGraph) in
               bindE (check_states plan (so_state options) (x_world (rg_env g4)) heap, g4) (\<lambda>x g5.
               bindE (session_usage heap reuses (so_host_limit options) plan, g5) (\<lambda>usage g6.
               bindE (on_env (SetFp8WeightCacheLimit backend (so_fp8_limit options) \<circ>
                        SetWorkspaceLimit backend (so_workspace_limit options)) g6) (\<lambda>_ g7.
               bindE (place_storages options plan reuses g7) (\<lambda>storage g8.
               bindE (foldE (bind_value backend plan (immutable_group heap plan) x (so_source options)) (cg_values plan)
                        \<lparr>bu_bindings = Map.empty, bu_storage = storage, bu_inputs = {}, bu_reused = 0\<rparr> g8) (\<lambda>b g9.
               bindE (InstallRuntime context registry x86 ctx plan (bu_bindings b) g9) (\<lambda>_ g10.
                 (let (st, g11) = FinalizeStatus context (g10\<lparr>rg_uses_memory_plan := reuses\<rparr>) in
                  if \<not> ok st then (Inl st, g11)
                  else (let g12 = g11\<lparr>rg_locked := True\<rparr> in
                        (Inr \<lparr>es_runtime = g12, es_reuses = reuses, es_usage = usage\<lparr>us_reused_weight := bu_reused b\<rparr>,
                              es_inputs = bu_inputs b, es_outputs = set (cg_outputs plan)\<rparr>, g12))))))))))))))
      in (r, rg_env g))"

section \<open>Using a session\<close>

definition session_map :: "(('b, 'd) RuntimeGraph \<Rightarrow> ('b, 'd) RuntimeGraph) \<Rightarrow> ('b, 'd) ExecutionSession \<Rightarrow> ('b, 'd) ExecutionSession" where
  "session_map f s = s\<lparr>es_runtime := f (es_runtime s)\<rparr>"

definition SessionRun ::
  "'d double_ops \<Rightarrow> (nat \<Rightarrow> 'd) \<Rightarrow> 'b BackendContext \<Rightarrow> (('b, 'd) RuntimeGraph \<Rightarrow> (int \<times> ('b, 'd) RuntimeGraph) option) \<Rightarrow>
   ('b, 'd) ExecutionSession \<Rightarrow> (status \<times> ('b, 'd) ExecutionSession) option" where
  "SessionRun D elapsed backend parallel s =
     map_option (\<lambda>(st, g). (st, session_map (\<lambda>_. g) s)) (RunStatus D elapsed backend parallel (es_runtime s))"

text \<open>The fixed values of a contract on this tensor, compared with what is to be bound.\<close>

fun check_fixed :: "nat \<Rightarrow> Tensor \<Rightarrow> TensorContract list \<Rightarrow> world \<Rightarrow> bool \<times> world" where
  "check_fixed current t [] w = (True, w)"
| "check_fixed current t (c # cs) w =
     (case (if tc_tensor c = current \<and> tc_bytes c \<noteq> 0 then tc_fixed_values c else None) of
        None \<Rightarrow> check_fixed current t cs w
      | Some fixed \<Rightarrow>
          (let (w', actual) = read_bytes t (tc_bytes c) w in
           if actual \<noteq> take (tc_bytes c) fixed then (False, w') else check_fixed current t cs w'))"

definition BindInput ::
  "'b BackendContext \<Rightarrow> string \<Rightarrow> nat option \<Rightarrow> ('b, 'd) ExecutionSession \<Rightarrow> (status \<times> ('b, 'd) ExecutionSession) option" where
  "BindInput backend name tensor s =
     (let g = es_runtime s; bindings = CheckTensorBindings g;
          incompatible = Error kInvalidArgument (''incompatible session input: '' @ name) in
      if \<not> ok bindings then Some (bindings, s)
      else case (if name \<in> es_inputs s then rg_tensor g name else None, tensor) of
        (Some current, Some p) \<Rightarrow>
          (let t = tensor_of g p; c = tensor_of g current; w = x_world (rg_env g) in
           if \<not> (IsInitialized w t \<and> m_dims c = m_dims t \<and> m_data_type c = m_data_type t \<and> m_layout c = m_layout t \<and>
                 HasSameQuantization (m_quantization c) (m_quantization t) \<and> m_memory_size c \<le> m_memory_size t)
           then Some (incompatible, s)
           else
             (let (kept, w1) = check_fixed current t (rg_contracts g) w; g1 = map_env (\<lambda>e. e\<lparr>x_world := w1\<rparr>) g in
              if \<not> kept then Some (Error kInvalidArgument (''compiled control values changed: '' @ name), session_map (\<lambda>_. g1) s)
              else map_option (\<lambda>g2. (Ok, session_map (\<lambda>_. map_env (HostWritten backend current) g2) s))
                     (if current = p then Some g1 else copy_into current p g1)))
      | _ \<Rightarrow> Some (incompatible, s))"

definition ReadOutput ::
  "'b BackendContext \<Rightarrow> string \<Rightarrow> nat option option \<Rightarrow> ('b, 'd) ExecutionSession \<Rightarrow>
   status \<times> nat option option \<times> ('b, 'd) ExecutionSession" where
  "ReadOutput backend name output s =
     (if output = None then (Error kInvalidArgument ''null output destination'', output, s)
      else
        (let (checked, g) = CheckRuntimeStatus (es_runtime s); s1 = session_map (\<lambda>_. g) s in
         if \<not> ok checked then (checked, output, s1)
         else case (if name \<in> es_outputs s then rg_tensor g name else None) of
           None \<Rightarrow> (Error kNotFound (''unknown output: '' @ name), output, s1)
         | Some p \<Rightarrow>
             (let (st, e) = ReadHost backend p (rg_env g) in
              (st, if ok st then Some (Some p) else output, session_map (\<lambda>_. g\<lparr>rg_env := e\<rparr>) s))))"

end
