(* ===== verification/Compiled_Laws.thy ===== *)
theory Compiled_Laws
  imports Compiled_Graph
begin

text \<open>
  What compiling does with the nodes: each is taken over with its parameters rebound, and they are
  put in the order that respects every producer and otherwise keeps the graph's own order.
\<close>

section \<open>Taking the nodes over\<close>

definition node_image :: "'b compiled_node \<Rightarrow> StaticNode \<Rightarrow> bool" where
  "node_image c n \<longleftrightarrow> pn_name c = sn_name n \<and> pn_inputs c = sn_inputs n \<and> pn_outputs c = sn_outputs n \<and>
     cn_op_type c = sn_op_type n \<and> cn_semantics c = sn_semantics n"

definition rebound :: "(nat \<rightharpoonup> nat) \<Rightarrow> nat option \<Rightarrow> nat option \<Rightarrow> bool" where
  "rebound bindings t b \<longleftrightarrow> (case t of None \<Rightarrow> b = None | Some p \<Rightarrow> b = bindings p \<and> b \<noteq> None)"

text \<open>The schema is the operator's, with every tensor of its parameters replaced by its prototype.\<close>

definition schema_image :: "(nat \<Rightarrow> 'b KernelSchema) \<Rightarrow> (nat \<rightharpoonup> nat) \<Rightarrow> 'b compiled_node \<Rightarrow> StaticNode \<Rightarrow> bool" where
  "schema_image K frozen c n \<longleftrightarrow> (\<exists>oper k ts bound. sn_op n = Some oper \<and> op_kernel oper = Some k \<and>
     ks_snapshot (K k) = Some ts \<and> cn_schema c = (K k)\<lparr>ks_snapshot := Some bound\<rparr> \<and>
     ks_factory (K k) \<noteq> None \<and> ks_visitor (K k) \<and>
     list_all2 (rebound frozen) ts bound)"

lemma rebind_ok: "rebind visitor ts bindings = Inr bound \<longleftrightarrow> visitor \<and> list_all2 (rebound bindings) ts bound"
proof -
  have "\<not> (\<exists>t \<in> set ts. case t of None \<Rightarrow> False | Some p \<Rightarrow> bindings p = None) \<and>
      bound = map (\<lambda>t. case t of None \<Rightarrow> None | Some p \<Rightarrow> bindings p) ts \<longleftrightarrow> list_all2 (rebound bindings) ts bound"
  proof (induction ts arbitrary: bound)
    case (Cons t ts)
    then show ?case by (cases bound; cases t) (auto simp: rebound_def)
  qed auto
  then show ?thesis by (auto simp: rebind_def)
qed

lemma compile_node_ok:
  assumes "compile_node K frozen n cs = Inr cs'"
  shows "\<exists>c. cs' = cs @ [c] \<and> node_image c n \<and> schema_image K frozen c n"
proof -
  obtain oper k ts bound where k: "sn_op n = Some oper" "op_kernel oper = Some k" "ks_snapshot (K k) = Some ts"
      "ks_factory (K k) \<noteq> None" and bound: "rebind (ks_visitor (K k)) ts frozen = Inr bound"
    and cs: "cs' = cs @ [\<lparr>pn_name = sn_name n, pn_inputs = sn_inputs n, pn_outputs = sn_outputs n,
      cn_op_type = sn_op_type n, cn_schema = (K k)\<lparr>ks_snapshot := Some bound\<rparr>, cn_semantics = sn_semantics n\<rparr>]"
    using assms by (auto simp: compile_node_def Let_def split: option.splits sum.splits if_splits)
  have "schema_image K frozen \<lparr>pn_name = sn_name n, pn_inputs = sn_inputs n, pn_outputs = sn_outputs n,
      cn_op_type = sn_op_type n, cn_schema = (K k)\<lparr>ks_snapshot := Some bound\<rparr>, cn_semantics = sn_semantics n\<rparr> n"
    unfolding schema_image_def using k bound rebind_ok by (intro exI[of _ oper] exI[of _ k] exI[of _ ts] exI[of _ bound]) auto
  then show ?thesis using cs by (auto simp: node_image_def)
qed

lemma compile_nodes_ok:
  "foldR (compile_node K frozen) ns cs = Inr cs' \<Longrightarrow>
     \<exists>ds. cs' = cs @ ds \<and> list_all2 (\<lambda>c n. node_image c n \<and> schema_image K frozen c n) ds ns"
proof (induction ns arbitrary: cs)
  case (Cons n ns)
  then obtain s where s: "compile_node K frozen n cs = Inr s" "foldR (compile_node K frozen) ns s = Inr cs'" by blast
  from compile_node_ok[OF s(1)] obtain c where c: "s = cs @ [c]" "node_image c n" "schema_image K frozen c n" by blast
  from Cons.IH[OF s(2)] obtain ds where "cs' = s @ ds"
    "list_all2 (\<lambda>c n. node_image c n \<and> schema_image K frozen c n) ds ns" by blast
  then have "cs' = cs @ (c # ds)" "list_all2 (\<lambda>c n. node_image c n \<and> schema_image K frozen c n) (c # ds) (n # ns)"
    using c by simp_all
  then show ?case by blast
qed simp

section \<open>Ordering them\<close>

lemma slots_mem: "(i, v) \<in> set (slots f nodes) \<longleftrightarrow> i < length nodes \<and> v \<in> set (f (nodes ! i))"
proof -
  have "(i, v) \<in> set (slots f nodes) \<longleftrightarrow> (\<exists>e \<in> set (enumerate 0 nodes). fst e = i \<and> v \<in> set (f (snd e)))"
    by (auto simp: slots_def)
  also have "\<dots> \<longleftrightarrow> i < length nodes \<and> v \<in> set (f (nodes ! i))"
    by (auto simp: in_set_enumerate_eq Bex_def)
  finally show ?thesis .
qed

lemma note_producers_ok:
  "foldR note_plan_producer es P = Inr P' \<Longrightarrow>
     (\<forall>v i. P' v = Some i \<longleftrightarrow> P v = Some i \<or> (i, v) \<in> set es) \<and> (\<forall>e \<in> set es. P (snd e) = None)"
proof (induction es arbitrary: P)
  case (Cons e es)
  then obtain Q where Q: "note_plan_producer e P = Inr Q" "foldR note_plan_producer es Q = Inr P'" by blast
  then have e: "P (snd e) = None" "Q = P(snd e \<mapsto> fst e)" by (auto simp: note_plan_producer_def split: if_splits)
  show ?case using Cons.IH[OF Q(2)] e by (cases e) (auto split: if_splits)
qed simp

lemma link_inputs_ok:
  "foldR (link_plan_input g P) es tables = Inr tables' \<longleftrightarrow>
     (\<forall>e \<in> set es. P (snd e) = None \<longrightarrow> snd e = [] \<or> GetTensor g (snd e) \<noteq> None) \<and>
     tables' = foldl (\<lambda>s e. add_edge e s) tables
       (map (\<lambda>e. (the (P (snd e)), fst e)) (filter (\<lambda>e. P (snd e) \<noteq> None) es))"
  by (induction es arbitrary: tables) (auto simp: link_plan_input_def split: option.splits)

text \<open>Node \<open>i\<close> reads what node \<open>p\<close> writes.\<close>

definition plan_depends :: "'b compiled_node list \<Rightarrow> (nat \<times> nat) set" where
  "plan_depends nodes = {(p, i). p < length nodes \<and> i < length nodes \<and>
     (\<exists>v \<in> set (pn_inputs (nodes ! i)). v \<in> set (pn_outputs (nodes ! p)))}"

lemma plan_edges:
  assumes P: "\<forall>v i. P v = Some i \<longleftrightarrow> (i, v) \<in> set (slots pn_outputs nodes)"
  shows "set (map (\<lambda>e. (the (P (snd e)), fst e)) (filter (\<lambda>e. P (snd e) \<noteq> None) (slots pn_inputs nodes))) = plan_depends nodes"
proof (intro set_eqI iffI)
  fix e assume "e \<in> set (map (\<lambda>e. (the (P (snd e)), fst e)) (filter (\<lambda>e. P (snd e) \<noteq> None) (slots pn_inputs nodes)))"
  then obtain i v p where v: "(i, v) \<in> set (slots pn_inputs nodes)" "P v = Some p" "e = (p, i)" by auto
  have "(p, v) \<in> set (slots pn_outputs nodes)" using P v(2) by blast
  then show "e \<in> plan_depends nodes" using v(1,3) by (auto simp: slots_mem plan_depends_def)
next
  fix e assume "e \<in> plan_depends nodes"
  then obtain p i v where e: "e = (p, i)" "p < length nodes" "i < length nodes"
    "v \<in> set (pn_inputs (nodes ! i))" "v \<in> set (pn_outputs (nodes ! p))" by (auto simp: plan_depends_def)
  have "P v = Some p" using P e by (simp add: slots_mem)
  moreover have "(i, v) \<in> set (slots pn_inputs nodes)" using e by (simp add: slots_mem)
  ultimately show "e \<in> set (map (\<lambda>e. (the (P (snd e)), fst e)) (filter (\<lambda>e. P (snd e) \<noteq> None) (slots pn_inputs nodes)))"
    using e(1) by (force simp: image_iff)
qed

lemma order_plan_correct:
  assumes "order_plan g nodes = Inr ordered"
  shows "\<exists>order. ordered = map ((!) nodes) order \<and> distinct order \<and> set order = {..<length nodes} \<and>
     (\<forall>k < length order. \<forall>p. (p, order ! k) \<in> plan_depends nodes \<longrightarrow> p \<in> set (take k order)) \<and>
     ((\<forall>(p, i) \<in> plan_depends nodes. p < i) \<longrightarrow> order = [0..<length nodes])"
proof -
  let ?n = "length nodes"
  obtain P tables where P: "foldR note_plan_producer (slots pn_outputs nodes) Map.empty = Inr P"
    and tables: "foldR (link_plan_input g P) (slots pn_inputs nodes) (replicate ?n 0, replicate ?n []) = Inr tables"
    and run: "(case kahn_order pq_push list_pop [] (snd tables) (fst tables) of
         None \<Rightarrow> Inl (BuildError ''cycle in optimized graph'')
       | Some order \<Rightarrow> if length order \<noteq> ?n then Inl (BuildError ''cycle in optimized graph'')
                       else Inr (map ((!) nodes) order)) = Inr ordered"
    using assms unfolding order_plan_def by (auto simp: bindR_eq_Inr)
  have P': "\<forall>v i. P v = Some i \<longleftrightarrow> (i, v) \<in> set (slots pn_outputs nodes)"
    using note_producers_ok[OF P] by simp
  define es where "es = map (\<lambda>e. (the (P (snd e)), fst e)) (filter (\<lambda>e. P (snd e) \<noteq> None) (slots pn_inputs nodes))"
  have es: "set es = plan_depends nodes" unfolding es_def by (rule plan_edges[OF P'])
  have bound: "set es \<subseteq> {..<?n} \<times> {..<?n}" unfolding es by (auto simp: plan_depends_def)
  have t: "tables = edge_tables ?n es"
    using tables unfolding link_inputs_ok edge_tables_def es_def by simp
  note e = edge_tables_edge[OF bound] edge_tables_ok[OF bound] edge_tables_values(2)[OF bound]
  from pq.kahn_order_correct[OF e(2)] obtain order
    where o: "kahn_order pq_push list_pop [] (snd tables) (fst tables) = Some order" "distinct order"
      "set order \<subseteq> {..<?n}" "topological (snd tables) order" unfolding t e(3) by blast
  have len: "length order = ?n" and ordered: "ordered = map ((!) nodes) order"
    using run o(1) by (auto split: if_splits)
  have "order = [0..<?n]" if "\<forall>(p, i) \<in> plan_depends nodes. p < i"
    using pq_order_up[OF e(2)] o(1) that unfolding t e(1) es e(3) by auto
  moreover have "\<forall>k < length order. \<forall>p. (p, order ! k) \<in> plan_depends nodes \<longrightarrow> p \<in> set (take k order)"
    using o(4) unfolding topological_def t e(1) es .
  ultimately show ?thesis using ordered o(2) distinct_full[OF o(2,3)] len by auto
qed

section \<open>The parts of a successful compilation\<close>

lemma CompileE:
  assumes "Compile K external_states g = (Inr plan, e)"
  obtains externals z e1 e2 nodes where
    "ok (ValidateStructureStatus g)" "ok (ValidateBuildDescriptorsStatus g)"
    and "on_world (foldE (check_control g external_states) (g_control g) ()) (g_env g) = (Inr (), e1)"
    and "foldR (check_external g) external_states [] = Inr externals"
    and "foldE (freeze_value g externals) (e_tensors (g_env g))
           \<lparr>fz_frozen = Map.empty, fz_groups = [], fz_values = []\<rparr> e1 = (Inr z, e)"
    and "cg_values plan = sort_key v_name (fz_values z)"
    and "foldR (compile_node K (fz_frozen z)) (live_nodes g) [] = Inr nodes"
    and "order_plan g nodes = Inr (cg_nodes plan)"
    and "BuildMemoryPlan (map plan_value.truncate (cg_values plan)) (map plan_node.truncate (cg_nodes plan)) (cg_outputs plan)
           = Inr (cg_memory_plan plan)"
    and "cg_inputs plan = gd_inputs (md_graph (g_model g))" "cg_outputs plan = gd_outputs (md_graph (g_model g))"
    and "cg_required plan = external_states" "cg_control plan = g_control g"
  using assms unfolding Compile_def
  by (auto simp: Let_def bindE_Inr bindR_eq_Inr split: if_splits)

text \<open>
  C32: Compiling orders the nodes.  The compiled nodes are the live nodes of the graph, each once,
  with everything that describes them; a node that reads what another writes comes after it; and
  if the graph lists its nodes in such an order already, that order is kept.
\<close>

theorem Compile_orders_nodes:
  assumes "Compile K external_states g = (Inr plan, e)"
  shows "\<exists>order. distinct order \<and> set order = {..<length (live_nodes g)} \<and>
    list_all2 (\<lambda>c i. node_image c (live_nodes g ! i)) (cg_nodes plan) order \<and>
    (\<forall>(j, k) \<in> plan_depends (cg_nodes plan). j < k) \<and>
    ((\<forall>p < length (live_nodes g). \<forall>i < length (live_nodes g).
        set (sn_inputs (live_nodes g ! i)) \<inter> set (sn_outputs (live_nodes g ! p)) \<noteq> {} \<longrightarrow> p < i) \<longrightarrow>
      order = [0..<length (live_nodes g)])"
proof -
  from assms obtain z :: freezing and nodes where n: "foldR (compile_node K (fz_frozen z)) (live_nodes g) [] = Inr nodes"
    and o: "order_plan g nodes = Inr (cg_nodes plan)" by (rule CompileE) blast
  have l: "list_all2 (\<lambda>c n. node_image c n \<and> schema_image K (fz_frozen z) c n) nodes (live_nodes g)"
    using compile_nodes_ok[OF n] by simp
  then have len: "length nodes = length (live_nodes g)" by (rule list_all2_lengthD)
  have image: "node_image (nodes ! i) (live_nodes g ! i)" if "i < length nodes" for i
    using list_all2_nthD[OF l that] by simp
  from order_plan_correct[OF o] obtain order where order: "cg_nodes plan = map ((!) nodes) order" "distinct order"
      "set order = {..<length nodes}"
    and before: "\<And>k p. k < length order \<Longrightarrow> (p, order ! k) \<in> plan_depends nodes \<Longrightarrow> p \<in> set (take k order)"
    and kept: "(\<forall>(p, i) \<in> plan_depends nodes. p < i) \<longrightarrow> order = [0..<length nodes]" by blast
  have inside: "order ! k < length nodes" if "k < length order" for k using nth_mem[OF that] order(3) by auto
  have dep: "(p, i) \<in> plan_depends nodes \<longleftrightarrow> p < length (live_nodes g) \<and> i < length (live_nodes g) \<and>
      set (sn_inputs (live_nodes g ! i)) \<inter> set (sn_outputs (live_nodes g ! p)) \<noteq> {}" for p i
    using image[of p] image[of i] len by (auto simp: plan_depends_def node_image_def)
  have "list_all2 (\<lambda>c i. node_image c (live_nodes g ! i)) (cg_nodes plan) order"
    unfolding order(1) list_all2_conv_all_nth using inside image by auto
  moreover have "j < k" if "(j, k) \<in> plan_depends (cg_nodes plan)" for j k
  proof -
    have jk: "j < length order" "k < length order" "(order ! j, order ! k) \<in> plan_depends nodes"
      using that inside by (auto simp: plan_depends_def order(1))
    from before[OF jk(2,3)] obtain l where "l < k" "l < length order" "order ! l = order ! j"
      by (auto simp: in_set_conv_nth)
    then show ?thesis using jk(1) order(2) by (auto simp: nth_eq_iff_index_eq)
  qed
  ultimately show ?thesis using order(2,3) kept len unfolding dep
    by (intro exI[of _ order]) (auto simp: dep split: prod.splits)
qed

section \<open>An example\<close>

text \<open>
  \<open>x \<rightarrow> a \<rightarrow> y \<rightarrow> b \<rightarrow> z\<close> with \<open>b\<close> listed before \<open>a\<close>.  All tensors hold one \<open>float\<close>; the input has memory.
\<close>

definition one_float :: "nat \<Rightarrow> Tensor" where
  "one_float s = empty_Tensor\<lparr>m_dims := [1], m_data_type := FP32, m_storage := Some s, m_memory_size := 4\<rparr>"

definition plan_storage :: "nat option \<Rightarrow> Storage" where
  "plan_storage b = \<lparr>st_buffer = b, st_capacity = 4, st_deferred = (b = None), st_device = COMMON, st_device_index = 0,
     st_materialized = (b \<noteq> None), st_version = 0\<rparr>"

definition plan_world :: world where
  "plan_world = \<lparr>mem = (\<lambda>a. of_nat a), brk = 5, buffers = [\<lparr>b_data = 1, b_size = 4, b_read_only = False\<rparr>],
     storages = [plan_storage (Some 0), plan_storage None, plan_storage None],
     next_version = 1, deferred_scope = False\<rparr>"

definition plan_static_node :: "string \<Rightarrow> string \<Rightarrow> string \<Rightarrow> StaticNode" where
  "plan_static_node name input output = \<lparr>sn_name = name, sn_op_type = ''Op'', sn_inputs = [input], sn_outputs = [output],
     sn_op = Some \<lparr>op_out = [], op_kernel = Some 7\<rparr>, sn_semantics = default_semantics, sn_removed = False\<rparr>"

definition plan_desc :: "string \<Rightarrow> TensorDesc" where
  "plan_desc name = \<lparr>td_name = name, td_dims = [1], td_data_type = FP32, td_layout = ND, td_quantization = default_quantization\<rparr>"

definition plan_value_desc :: "string \<Rightarrow> ValueDesc" where
  "plan_value_desc name = \<lparr>vd_tensor = plan_desc name, vd_constant = False,
     vd_weight = \<lparr>wl_tensor_name = [], wl_shard_path = [], wl_offset = 0, wl_byte_size = 0, wl_checksum = []\<rparr>\<rparr>"

definition plan_graph :: StaticGraph where
  "plan_graph = \<lparr>g_model = \<lparr>md_name = ''m'', md_version = 1,
       md_graph = \<lparr>gd_name = ''g'', gd_inputs = [''x''], gd_outputs = [''z''],
         gd_values = map plan_value_desc [''x'', ''y'', ''z''], gd_nodes = []\<rparr>,
       md_metadata = Map.empty, md_variants = []\<rparr>,
     g_env = \<lparr>e_heap = [one_float 0, one_float 1, one_float 2], e_world = plan_world,
       e_tensors = [(''x'', 0), (''y'', 1), (''z'', 2)]\<rparr>,
     g_bound = {},
     g_nodes = [plan_static_node ''b'' ''y'' ''z'', plan_static_node ''a'' ''x'' ''y''],
     g_index = [''b'' \<mapsto> 0, ''a'' \<mapsto> 1], g_producer = [''z'' \<mapsto> ''b'', ''y'' \<mapsto> ''a''],
     g_users = [''y'' \<mapsto> [''b''], ''x'' \<mapsto> [''a'']],
     g_aliases = Map.empty, g_build_time = {}, g_control = [],
     g_descriptors = map (\<lambda>(name, p). (name, \<lparr>bd_descriptor = plan_desc name, bd_tensor = p\<rparr>)) [(''x'', 0), (''y'', 1), (''z'', 2)],
     g_built = True, g_device = COMMON\<rparr>"

definition plan_kernel :: "nat \<Rightarrow> unit KernelSchema" where
  "plan_kernel k = \<lparr>ks_device = COMMON, ks_dtype = FP32, ks_layout = ND, ks_visitor = True, ks_snapshot = Some [Some 1],
     ks_factory = Some (Some (\<lambda>ts. \<lparr>k_owns_param = True, k_prepare = (\<lambda>e. (0, e)), k_supports = (\<lambda>_. Inr Ok),
       k_compute = (\<lambda>e. (Inr 0, e))\<rparr>))\<rparr>"

lemma one_count: "CheckedElementCount [1] = Some 1"
  by (simp add: CheckedElementCount_def INT64_MAX_def mul64_def SIZE_MAX_def)

lemma one_bytes: "CheckedTensorBytes [1] FP32 = Some 4"
  by (simp add: CheckedTensorBytes_def CheckedByteCount_def one_count mul64_def SIZE_MAX_def)

lemma plan_structure: "ValidateStructureStatus plan_graph = Ok"
  by (simp add: ValidateStructureStatus_def CheckStatus_def broken_node_def plan_static_node_def active_model_def Let_def
    plan_graph_def walk_fuel_def active_node_def ValidateAndOrderGraph_def check_descriptions_def plan_value_desc_def
    plan_desc_def check_value_def one_count bindR_def check_input_def check_name_def visit_node_def bind_output_def
    name_node_def order_nodes_def node_inputs_def link_input_def add_edge_def check_output_def kahn_order_def
    initial_ready_def set_nodes_def pq_push_def)

lemma plan_descriptors: "ValidateBuildDescriptorsStatus plan_graph = Ok"
  by (simp add: ValidateBuildDescriptorsStatus_def plan_graph_def descriptor_matches_def GetTensor_def env_tensor_def
    tensor_at_def one_float_def plan_desc_def empty_Tensor_def HasSameQuantization_def default_quantization_def Let_def)

lemma default_effects:
  assumes "\<forall>n \<in> set nodes. en_semantics n = default_semantics"
  shows "ok (ValidateOperatorEffects w heap nodes tensors ins outs serial)"
proof -
  have "forR (\<lambda>node. forR (check_mutable_slot w heap tensors ins node) (mutable_inputs (en_semantics node))) nodes = Inr ()"
    "forR (check_effects nodes ins outs serial) nodes = Inr ()"
    using assms by (simp_all add: default_semantics_def check_effects_def Let_def)
  then show ?thesis unfolding ValidateOperatorEffects_def ValidateOperatorBindings_def as_status_def by (simp del: forR_ok)
qed
definition plan_values :: "compiled_value list" where
  "plan_values = [\<lparr>v_name = ''x'', v_group = 0, v_bytes = 4, v_offset = 0, v_seed = False, v_prototype = 3\<rparr>,
     \<lparr>v_name = ''y'', v_group = 1, v_bytes = 4, v_offset = 0, v_seed = False, v_prototype = 4\<rparr>,
     \<lparr>v_name = ''z'', v_group = 2, v_bytes = 4, v_offset = 0, v_seed = False, v_prototype = 5\<rparr>]"
definition plan_frozen :: freezing where
  "plan_frozen = \<lparr>fz_frozen = [0 \<mapsto> 3, 1 \<mapsto> 4, 2 \<mapsto> 5], fz_groups = [(Some 0, 0), (Some 1, 1), (Some 2, 2)], fz_values = plan_values\<rparr>"
lemma plan_freeze: "\<exists>e. foldE (freeze_value plan_graph []) (e_tensors (g_env plan_graph)) \<lparr>fz_frozen = Map.empty, fz_groups = [], fz_values = []\<rparr> (g_env plan_graph) = 
  (Inr plan_frozen, e)"
  by (simp add: plan_graph_def freeze_value_def one_float_def empty_Tensor_def one_bytes Let_def is_seed_def make_prototype_def 
    group_of_def plan_values_def eval_nat_numeral plan_frozen_def)
definition plan_compiled :: "string \<Rightarrow> string \<Rightarrow> string \<Rightarrow> unit compiled_node" where
  "plan_compiled name input output = \<lparr>pn_name = name, pn_inputs = [input], pn_outputs = [output], cn_op_type = ''Op'',
     cn_schema = (plan_kernel 7)\<lparr>ks_snapshot := Some [Some 4]\<rparr>, cn_semantics = default_semantics\<rparr>"
lemma plan_nodes: "foldR (compile_node plan_kernel (fz_frozen plan_frozen)) (live_nodes plan_graph) [] =
   Inr [plan_compiled ''b'' ''y'' ''z'', plan_compiled ''a'' ''x'' ''y'']"
  by (simp add: compile_node_def live_nodes_def plan_graph_def plan_static_node_def plan_kernel_def rebind_def plan_frozen_def plan_compiled_def)
lemma plan_order: "order_plan plan_graph [plan_compiled ''b'' ''y'' ''z'', plan_compiled ''a'' ''x'' ''y''] = 
    Inr [plan_compiled ''a'' ''x'' ''y'', plan_compiled ''b'' ''y'' ''z'']"
  by (simp add: order_plan_def slots_def plan_compiled_def note_plan_producer_def link_plan_input_def add_edge_def GetTensor_def env_tensor_def plan_graph_def
     kahn_order_def initial_ready_def pq_push_def)
lemma plan_sorted: "sort_key v_name plan_values = plan_values"
  by code_simp

lemma plan_lifetimes: "collect_lifetimes (map plan_value.truncate plan_values)
     (map plan_node.truncate [plan_compiled ''a'' ''x'' ''y'', plan_compiled ''b'' ''y'' ''z'']) [''z''] = Inr
  [(0, \<lparr>l_bytes = 4, l_first = 0, l_last = 0, l_produced = False, l_pinned = False, l_used = True\<rparr>),
   (1, \<lparr>l_bytes = 4, l_first = 0, l_last = 1, l_produced = True, l_pinned = False, l_used = True\<rparr>),
   (2, \<lparr>l_bytes = 4, l_first = 1, l_last = 2, l_produced = True, l_pinned = False, l_used = True\<rparr>)]"
  by (simp add: collect_lifetimes_def plan_values_def plan_compiled_def plan_value.truncate_def plan_node.truncate_def
    note_value_def note_node_def note_output_def note_input_def note_graph_output_def value_named_def Let_def life_of_def
    no_life_def set_life_def SIZE_MAX_def cong: bindR_cong_weak)

lemma plan_memory: "BuildMemoryPlan (map plan_value.truncate plan_values)
     (map plan_node.truncate [plan_compiled ''a'' ''x'' ''y'', plan_compiled ''b'' ''y'' ''z'']) [''z''] = Inr
  \<lparr>arena_bytes = 128, unshared_bytes = 128, allocations =
     [\<lparr>a_group = 1, a_offset = 0, a_bytes = 4, a_first = 0, a_last = 1\<rparr>,
      \<lparr>a_group = 2, a_offset = 64, a_bytes = 4, a_first = 1, a_last = 2\<rparr>]\<rparr>"
  unfolding BuildMemoryPlan_def plan_lifetimes
  by (simp add: intervals_def in_arena_def interval_of_def sort_key_def
      place_interval_def empty_plan_def best_slot_def better_slot_def SIZE_MAX_def Let_def
      cong: bindR_cong_weak)

definition plan_result :: "unit CompiledGraph" where
  "plan_result = \<lparr>cg_values = plan_values, cg_nodes = [plan_compiled ''a'' ''x'' ''y'', plan_compiled ''b'' ''y'' ''z''],
     cg_inputs = [''x''], cg_outputs = [''z''],
     cg_memory_plan = \<lparr>arena_bytes = 128, unshared_bytes = 128, allocations =
       [\<lparr>a_group = 1, a_offset = 0, a_bytes = 4, a_first = 0, a_last = 1\<rparr>,
        \<lparr>a_group = 2, a_offset = 64, a_bytes = 4, a_first = 1, a_last = 2\<rparr>]\<rparr>,
     cg_required = [], cg_control = []\<rparr>"

lemma plan_compiles: "\<exists>e. Compile plan_kernel [] plan_graph = (Inr plan_result, e)"
proof -
  have g: "g_control plan_graph = []" "gd_inputs (md_graph (g_model plan_graph)) = [''x'']"
    "gd_outputs (md_graph (g_model plan_graph)) = [''z'']" by (simp_all add: plan_graph_def)
  have v: "fz_values plan_frozen = plan_values" by (simp add: plan_frozen_def)
  have effects: "ok (ValidateOperatorEffects w heap (map static_effect_node (live_nodes plan_graph)) tensors ins outs serial)"
    for w heap tensors ins outs serial
    by (rule default_effects) (simp add: live_nodes_def plan_graph_def plan_static_node_def static_effect_node_def)
  obtain e where e: "foldE (freeze_value plan_graph []) (e_tensors (g_env plan_graph))
      \<lparr>fz_frozen = Map.empty, fz_groups = [], fz_values = []\<rparr> (g_env plan_graph) = (Inr plan_frozen, e)"
    using plan_freeze by blast
  have "Compile plan_kernel [] plan_graph = (Inr plan_result, e)"
    unfolding Compile_def plan_structure plan_descriptors Let_def g on_world_def
    by (simp add: effects e v plan_sorted plan_nodes plan_order plan_memory[simplified list.map] plan_result_def)
  then show ?thesis by blast
qed

lemma Compile_orders_nodes_witness:
  "\<exists>plan e. Compile plan_kernel [] plan_graph = (Inr plan, e) \<and>
     map pn_name (cg_nodes plan) = [''a'', ''b''] \<and> map sn_name (live_nodes plan_graph) = [''b'', ''a''] \<and>
     (\<forall>(j, k) \<in> plan_depends (cg_nodes plan). j < k)"
proof -
  obtain e where e: "Compile plan_kernel [] plan_graph = (Inr plan_result, e)" using plan_compiles by blast
  show ?thesis using e Compile_orders_nodes[OF e]
    by (intro exI[of _ plan_result] exI[of _ e]) (auto simp: plan_result_def plan_compiled_def live_nodes_def plan_graph_def plan_static_node_def)
qed

end
