(* ===== verification/Compiled_Values.thy ===== *)
theory Compiled_Values
  imports Compiled_Laws
begin

text \<open>
  What compiling does with the values: the tensors of the graph are left alone, every tensor gets
  one prototype and every storage one group, so that the memory plan, which knows groups only,
  separates the values the graph keeps in separate storages.
\<close>

section \<open>Freezing one value\<close>

definition frozen_ok :: "nat \<Rightarrow> nat \<Rightarrow> (nat \<rightharpoonup> nat) \<Rightarrow> bool" where
  "frozen_ok low high frozen \<longleftrightarrow> (\<forall>p q. frozen p = Some q \<longrightarrow> low \<le> q \<and> q < high) \<and>
     (\<forall>p p' q. frozen p = Some q \<longrightarrow> frozen p' = Some q \<longrightarrow> p = p')"

definition groups_ok :: "(nat option \<times> nat) list \<Rightarrow> bool" where
  "groups_ok groups \<longleftrightarrow> distinct (map fst groups) \<and> map snd groups = [0..<length groups]"

definition freezing_ok :: "Tensor list \<Rightarrow> freezing \<Rightarrow> op_env \<Rightarrow> bool" where
  "freezing_ok heap z e \<longleftrightarrow> take (length heap) (e_heap e) = heap \<and>
     frozen_ok (length heap) (length (e_heap e)) (fz_frozen z) \<and> groups_ok (fz_groups z)"

lemma frozen_ok_new:
  assumes "frozen_ok low high frozen" and "low \<le> high"
  shows "frozen_ok low (Suc high) (frozen(p \<mapsto> high))"
proof -
  have "frozen p' \<noteq> Some high" for p' using assms(1) unfolding frozen_ok_def by blast
  moreover have "\<forall>p q. frozen p = Some q \<longrightarrow> low \<le> q \<and> q < Suc high" using assms(1) less_SucI unfolding frozen_ok_def by blast
  ultimately show ?thesis using assms unfolding frozen_ok_def by (metis fun_upd_apply option.inject order_le_less lessI)
qed

text \<open>A value of the plan describes a name of the graph.\<close>

definition value_image :: "StaticGraph \<Rightarrow> nat list \<Rightarrow> Tensor list \<Rightarrow> freezing \<Rightarrow> compiled_value \<Rightarrow> string \<times> nat \<Rightarrow> bool" where
  "value_image g externals heap z v item \<longleftrightarrow>
     v_name v = fst item \<and> fz_frozen z (snd item) = Some (v_prototype v) \<and>
     map_of (fz_groups z) (m_storage (heap ! snd item)) = Some (v_group v) \<and>
     v_offset v = m_offset (heap ! snd item) \<and>
     CheckedTensorBytes (m_dims (heap ! snd item)) (m_data_type (heap ! snd item)) = Some (v_bytes v) \<and>
     (v_seed v \<longleftrightarrow> is_seed g externals item)"

definition extends :: "freezing \<Rightarrow> freezing \<Rightarrow> bool" where
  "extends z z' \<longleftrightarrow> (\<forall>p q. fz_frozen z p = Some q \<longrightarrow> fz_frozen z' p = Some q) \<and>
     (\<forall>s k. map_of (fz_groups z) s = Some k \<longrightarrow> map_of (fz_groups z') s = Some k)"

lemma extends_trans: "extends x y \<Longrightarrow> extends y z \<Longrightarrow> extends x z"
  by (simp add: extends_def)

lemma value_image_extends: "value_image g xs heap z v item \<Longrightarrow> extends z z' \<Longrightarrow> value_image g xs heap z' v item"
  by (simp add: value_image_def extends_def)

lemma freeze_bytes_heap:
  assumes "freeze_bytes source bytes q e = (r, e')"
  shows "length (e_heap e') = length (e_heap e) \<and> (\<forall>i. i \<noteq> q \<longrightarrow> e_heap e' ! i = e_heap e ! i) \<and> e_tensors e' = e_tensors e"
  using assms by (auto simp: freeze_bytes_def split: option.splits prod.splits)

lemma freeze_bytes_take:
  "freeze_bytes source bytes q e = (r, e') \<Longrightarrow> n \<le> q \<Longrightarrow> take n (e_heap e') = take n (e_heap e)"
  using freeze_bytes_heap[of source bytes q e r e'] by (auto intro!: nth_equalityI)

lemma make_prototype_ok:
  assumes "make_prototype name p bytes seed z e = (Inr q, e')" and "freezing_ok heap z e"
  shows "freezing_ok heap (z\<lparr>fz_frozen := (fz_frozen z)(p \<mapsto> q)\<rparr>) e' \<and>
    (\<forall>q'. fz_frozen z p = Some q' \<longrightarrow> q' = q) \<and> length heap \<le> q"
proof (cases "fz_frozen z p")
  case (Some q')
  then have "q' = q" "e' = e" using assms(1) by (auto simp: make_prototype_def)
  then show ?thesis using Some assms(2) by (auto simp: map_upd_triv freezing_ok_def frozen_ok_def)
next
  case None
  let ?e = "e\<lparr>e_heap := e_heap e @ [Descriptor (e_heap e ! p)]\<rparr>"
  have q: "q = length (e_heap e)" and e': "e' = ?e \<or> (\<exists>r. freeze_bytes (e_heap e ! p) bytes q ?e = (r, e'))"
    using assms(1) None by (auto simp: make_prototype_def Let_def bindE_Inr split: if_splits)
  have old: "take (length heap) (e_heap e) = heap" using assms(2) by (simp add: freezing_ok_def)
  then have n: "length heap \<le> length (e_heap e)" by (metis length_take min.bounded_iff order_refl)
  have "length (e_heap e') = length (e_heap ?e)" "take (length heap) (e_heap e') = take (length heap) (e_heap ?e)"
    using e' freeze_bytes_heap freeze_bytes_take[of _ _ q ?e _ e', OF _ n[folded q]] by metis+
  then have "length (e_heap e') = Suc (length (e_heap e))" "take (length heap) (e_heap e') = heap"
    using n old by simp_all
  moreover have "frozen_ok (length heap) (Suc q) ((fz_frozen z)(p \<mapsto> q))"
    using assms(2) n unfolding q freezing_ok_def by (blast intro: frozen_ok_new)
  ultimately show ?thesis using assms(2) None n by (simp add: freezing_ok_def q)
qed

lemma group_of_ok:
  assumes "group_of s groups = (k, groups')" and "groups_ok groups"
  shows "groups_ok groups' \<and> map_of groups' s = Some k \<and> (\<forall>t l. map_of groups t = Some l \<longrightarrow> map_of groups' t = Some l)"
proof (cases "map_of groups s")
  case None
  then have g: "groups' = groups @ [(s, length groups)]" "k = length groups" using assms(1) by (auto simp: group_of_def)
  moreover have "s \<notin> fst ` set groups" using None by (simp add: map_of_eq_None_iff)
  ultimately show ?thesis using assms(2) None by (simp add: groups_ok_def map_add_def)
qed (use assms in \<open>auto simp: group_of_def\<close>)

lemma freeze_value_ok:
  assumes "freeze_value g externals item z e = (Inr z', e')" and "freezing_ok heap z e" and "snd item < length heap"
  shows "freezing_ok heap z' e' \<and> extends z z' \<and>
    (\<exists>v. fz_values z' = fz_values z @ [v] \<and> value_image g externals heap z' v item)"
proof -
  let ?s = "e_heap e ! snd item"
  have s: "?s = heap ! snd item" using assms(2,3) unfolding freezing_ok_def by (metis nth_take)
  obtain bytes q e1 where bytes: "CheckedTensorBytes (m_dims ?s) (m_data_type ?s) = Some bytes"
    and make: "make_prototype (fst item) (snd item) bytes (is_seed g externals item) z e = (Inr q, e1)"
    and rest: "bindE (if is_seed g externals item \<and> \<not> IsInitialized (e_world e1) (e_heap e1 ! q)
                 then freeze_bytes ?s bytes q e1 else (Inr (), e1)) (\<lambda>_ e2.
       (let (k, groups) = group_of (m_storage ?s) (fz_groups z) in
        (Inr \<lparr>fz_frozen = (fz_frozen z)(snd item \<mapsto> q), fz_groups = groups,
              fz_values = fz_values z @ [\<lparr>v_name = fst item, v_group = k, v_bytes = bytes, v_offset = m_offset ?s,
                v_seed = is_seed g externals item, v_prototype = q\<rparr>]\<rparr>, e2))) = (Inr z', e')"
    using assms(1) unfolding freeze_value_def Let_def by (auto simp: bindE_Inr split: option.splits)
  obtain k groups where k: "group_of (m_storage ?s) (fz_groups z) = (k, groups)" by fastforce
  have e': "e' = e1 \<or> (\<exists>r. freeze_bytes ?s bytes q e1 = (r, e'))"
    and z': "z' = \<lparr>fz_frozen = (fz_frozen z)(snd item \<mapsto> q), fz_groups = groups,
        fz_values = fz_values z @ [\<lparr>v_name = fst item, v_group = k, v_bytes = bytes, v_offset = m_offset ?s,
          v_seed = is_seed g externals item, v_prototype = q\<rparr>]\<rparr>"
    using rest by (auto simp: k bindE_Inr split: if_splits)
  note made = make_prototype_ok[OF make assms(2)]
  note grouped = group_of_ok[OF k]
  have gr: "groups_ok (fz_groups z)" using assms(2) by (simp add: freezing_ok_def)
  have q: "length heap \<le> q" using made by blast
  have "take (length heap) (e_heap e') = take (length heap) (e_heap e1)" "length (e_heap e') = length (e_heap e1)"
    using e' freeze_bytes_take[OF _ q] freeze_bytes_heap by blast+
  then have "freezing_ok heap z' e'" using made grouped[OF gr] by (auto simp: freezing_ok_def z')
  moreover have "extends z z'" using made grouped[OF gr] by (auto simp: extends_def z')
  moreover have "value_image g externals heap z' (last (fz_values z')) item"
    using bytes grouped[OF gr] by (simp add: value_image_def z' s)
  ultimately show ?thesis by (auto simp: z')
qed

lemma freeze_values_ok:
  assumes "foldE (freeze_value g externals) items z e = (Inr z', e')" and "freezing_ok heap z e"
    and "\<forall>item \<in> set items. snd item < length heap"
  shows "freezing_ok heap z' e' \<and> extends z z' \<and>
    (\<exists>vs. fz_values z' = fz_values z @ vs \<and> list_all2 (value_image g externals heap z') vs items)"
  using assms
proof (induction items arbitrary: z e)
  case (Cons item items)
  then obtain y d where y: "freeze_value g externals item z e = (Inr y, d)"
    "foldE (freeze_value g externals) items y d = (Inr z', e')" by (auto simp: bindE_Inr)
  from freeze_value_ok[OF y(1) Cons.prems(2)] Cons.prems(3) obtain v where v: "freezing_ok heap y d" "extends z y"
    "fz_values y = fz_values z @ [v]" "value_image g externals heap y v item" by auto
  from Cons.IH[OF y(2) v(1)] Cons.prems(3) obtain vs where vs: "freezing_ok heap z' e'" "extends y z'"
    "fz_values z' = fz_values y @ vs" "list_all2 (value_image g externals heap z') vs items" by auto
  then have "list_all2 (value_image g externals heap z') (v # vs) (item # items)"
    using value_image_extends[OF v(4)] by simp
  then show ?case using vs v extends_trans by force
qed (auto simp: extends_def)

section \<open>The values of a compiled graph\<close>

text \<open>The names of the environment are distinct and their tensors are on the heap.\<close>

definition env_wf :: "op_env \<Rightarrow> bool" where
  "env_wf e \<longleftrightarrow> distinct (map fst (e_tensors e)) \<and> (\<forall>item \<in> set (e_tensors e). snd item < length (e_heap e))"

lemma on_world_heap: "on_world f e = (r, e') \<Longrightarrow> e_heap e' = e_heap e"
  by (auto simp: on_world_def split: prod.splits)

lemma Compile_freezes:
  assumes "Compile K external_states g = (Inr plan, e)" and "env_wf (g_env g)"
  obtains z externals where "freezing_ok (e_heap (g_env g)) z e"
    and "\<And>v. v \<in> set (cg_values plan) \<Longrightarrow>
          \<exists>p. GetTensor g (v_name v) = Some p \<and> value_image g externals (e_heap (g_env g)) z v (v_name v, p)"
    and "set (map v_name (cg_values plan)) = fst ` set (e_tensors (g_env g))"
proof -
  let ?heap = "e_heap (g_env g)" and ?start = "\<lparr>fz_frozen = Map.empty, fz_groups = [], fz_values = []\<rparr>"
  from assms(1) obtain externals and z :: freezing and e1
    where e1: "on_world (foldE (check_control g external_states) (g_control g) ()) (g_env g) = (Inr (), e1)"
    and f: "foldE (freeze_value g externals) (e_tensors (g_env g)) ?start e1 = (Inr z, e)"
    and vs: "cg_values plan = sort_key v_name (fz_values z)" by (rule CompileE) blast
  have "freezing_ok ?heap ?start e1"
    using on_world_heap[OF e1] by (simp add: freezing_ok_def frozen_ok_def groups_ok_def)
  from freeze_values_ok[OF f this] assms(2) have z: "freezing_ok ?heap z e"
    and l: "list_all2 (value_image g externals ?heap z) (fz_values z) (e_tensors (g_env g))"
    by (auto simp: env_wf_def)
  have "\<exists>p. GetTensor g (v_name v) = Some p \<and> value_image g externals ?heap z v (v_name v, p)"
    if v: "v \<in> set (cg_values plan)" for v
  proof -
    from v vs have "v \<in> set (fz_values z)" by simp
    then obtain i where i: "i < length (fz_values z)" "fz_values z ! i = v" by (auto simp: in_set_conv_nth)
    then obtain item where item: "item \<in> set (e_tensors (g_env g))" "value_image g externals ?heap z v item"
      using list_all2_nthD[OF l i(1)] list_all2_lengthD[OF l] nth_mem by metis
    moreover have name: "item = (v_name v, snd item)" using item(2) by (simp add: value_image_def prod_eq_iff)
    ultimately have "map_of (e_tensors (g_env g)) (v_name v) = Some (snd item)"
      using assms(2) map_of_is_SomeI unfolding env_wf_def by metis
    then show ?thesis using item(2) name by (metis GetTensor_def env_tensor_def)
  qed
  moreover have "list_all2 (\<lambda>v item. v_name v = fst item) (fz_values z) (e_tensors (g_env g))"
    using l by (rule list_all2_mono) (simp add: value_image_def)
  then have "map v_name (fz_values z) = map fst (e_tensors (g_env g))"
    by (simp add: list_all2_conv_all_nth list_eq_iff_nth_eq)
  then have "set (map v_name (cg_values plan)) = fst ` set (e_tensors (g_env g))"
    unfolding vs by (metis list.set_map set_sort)
  ultimately show ?thesis using that z by blast
qed

lemma group_injective:
  assumes "groups_ok groups" and "map_of groups s = Some k" and "map_of groups t = Some k"
  shows "s = t"
proof -
  from assms(2,3) have "(s, k) \<in> set groups" "(t, k) \<in> set groups" by (auto dest: map_of_SomeD)
  moreover have "distinct (map snd groups)" using assms(1) by (simp add: groups_ok_def)
  ultimately show ?thesis by (metis distinct_map inj_onD prod.inject snd_conv)
qed

text \<open>
  C34: Compiling keeps the sharing and nothing else of the graph's tensors.  Two names of the plan
  have one prototype exactly if they name one tensor of the graph and one storage group exactly if
  their tensors share a storage; each is as large as its tensor and at the same offset; and the
  tensors of the graph itself are what they were.
\<close>

theorem Compile_keeps_sharing:
  assumes "Compile K external_states g = (Inr plan, e)" and "env_wf (g_env g)"
  shows "take (length (e_heap (g_env g))) (e_heap e) = e_heap (g_env g) \<and>
    (\<forall>u \<in> set (cg_values plan). \<forall>v \<in> set (cg_values plan). \<exists>p q.
       GetTensor g (v_name u) = Some p \<and> GetTensor g (v_name v) = Some q \<and>
       (v_prototype u = v_prototype v \<longleftrightarrow> p = q) \<and>
       (v_group u = v_group v \<longleftrightarrow> m_storage (tensor_at g p) = m_storage (tensor_at g q)) \<and>
       v_offset u = m_offset (tensor_at g p) \<and>
       CheckedTensorBytes (m_dims (tensor_at g p)) (m_data_type (tensor_at g p)) = Some (v_bytes u))"
proof -
  let ?heap = "e_heap (g_env g)"
  from Compile_freezes[OF assms] obtain z externals where z: "freezing_ok ?heap z e"
    and v: "\<And>v. v \<in> set (cg_values plan) \<Longrightarrow>
          \<exists>p. GetTensor g (v_name v) = Some p \<and> value_image g externals ?heap z v (v_name v, p)" by metis
  have f: "frozen_ok (length ?heap) (length (e_heap e)) (fz_frozen z)" and gr: "groups_ok (fz_groups z)"
    using z by (simp_all add: freezing_ok_def)
  have same: "x = y \<longleftrightarrow> p = q" if "fz_frozen z p = Some x" "fz_frozen z q = Some y" for p q x y
    using f that unfolding frozen_ok_def by (metis option.inject)
  have group: "k = l \<longleftrightarrow> s = t" if "map_of (fz_groups z) s = Some k" "map_of (fz_groups z) t = Some l" for s t k l
    using group_injective[OF gr] that by (metis option.inject)
  have "\<exists>p q. GetTensor g (v_name u) = Some p \<and> GetTensor g (v_name w) = Some q \<and>
       (v_prototype u = v_prototype w \<longleftrightarrow> p = q) \<and>
       (v_group u = v_group w \<longleftrightarrow> m_storage (tensor_at g p) = m_storage (tensor_at g q)) \<and>
       v_offset u = m_offset (tensor_at g p) \<and>
       CheckedTensorBytes (m_dims (tensor_at g p)) (m_data_type (tensor_at g p)) = Some (v_bytes u)"
    if "u \<in> set (cg_values plan)" "w \<in> set (cg_values plan)" for u w
  proof -
    from v[OF that(1)] v[OF that(2)] obtain p q where "GetTensor g (v_name u) = Some p" "GetTensor g (v_name w) = Some q"
      "value_image g externals ?heap z u (v_name u, p)" "value_image g externals ?heap z w (v_name w, q)" by blast
    then show ?thesis using same group unfolding value_image_def tensor_at_def fst_conv snd_conv by blast
  qed
  moreover have "take (length ?heap) (e_heap e) = ?heap" using z by (simp add: freezing_ok_def)
  ultimately show ?thesis by blast
qed

lemma plan_env_wf: "env_wf (g_env plan_graph)"
  by (simp add: env_wf_def plan_graph_def)

lemma Compile_keeps_sharing_witness:
  "\<exists>plan e. Compile plan_kernel [] plan_graph = (Inr plan, e) \<and> length (cg_values plan) = 3 \<and>
     take 3 (e_heap e) = e_heap (g_env plan_graph)"
proof -
  obtain e where e: "Compile plan_kernel [] plan_graph = (Inr plan_result, e)" using plan_compiles by blast
  have "length (cg_values plan_result) = 3" "length (e_heap (g_env plan_graph)) = 3"
    by (simp_all add: plan_result_def plan_values_def plan_graph_def)
  then show ?thesis using e Compile_keeps_sharing[OF e plan_env_wf] by (metis (no_types))
qed

section \<open>What the memory plan means for the graph\<close>

text \<open>
  C33: The compiled plan keeps the graph's values apart.  Let a node of the compiled order write
  \<open>x\<close> and a later one read it.  Whatever a node in between writes to a value whose tensor the
  graph keeps in another storage, its bytes in the arena do not overlap those of \<open>x\<close>.
\<close>

theorem Compile_preserves_values:
  assumes "Compile K external_states g = (Inr plan, e)" and "env_wf (g_env g)"
    and "j \<le> k" and "k \<le> i" and "i < length (cg_nodes plan)"
    and "x \<in> set (pn_outputs (cg_nodes plan ! j))" and "x \<in> set (pn_inputs (cg_nodes plan ! i))" and "x \<noteq> []"
    and "y \<in> set (pn_outputs (cg_nodes plan ! k))"
    and "GetTensor g x = Some p" and "GetTensor g y = Some q"
    and "m_storage (tensor_at g p) \<noteq> m_storage (tensor_at g q)"
    and "value_named (map plan_value.truncate (cg_values plan)) x = Some v"
    and "value_named (map plan_value.truncate (cg_values plan)) y = Some w"
    and "a \<in> set (allocations (cg_memory_plan plan))" and "a_group a = v_group v"
    and "b \<in> set (allocations (cg_memory_plan plan))" and "a_group b = v_group w"
  shows "disjoint_ranges (a_offset a + v_offset v) (v_bytes v) (a_offset b + v_offset w) (v_bytes w)"
proof -
  let ?heap = "e_heap (g_env g)" and ?vs = "map plan_value.truncate (cg_values plan)"
    and ?nodes = "map plan_node.truncate (cg_nodes plan)"
  from Compile_freezes[OF assms(1,2)] obtain z externals where z: "freezing_ok ?heap z e"
    and image: "\<And>v. v \<in> set (cg_values plan) \<Longrightarrow>
          \<exists>p. GetTensor g (v_name v) = Some p \<and> value_image g externals ?heap z v (v_name v, p)" by metis
  have named: "\<exists>u \<in> set (cg_values plan). v = plan_value.truncate u \<and> v_name u = x"
    if "value_named ?vs x = Some v" for x v
    using that by (auto simp: value_named_def plan_value.truncate_def dest!: map_of_SomeD)
  have plan: "BuildMemoryPlan ?vs ?nodes (cg_outputs plan) = Inr (cg_memory_plan plan)"
    using assms(1) by (rule CompileE)
  have small: "\<forall>v \<in> set ?vs. v_bytes v \<le> SIZE_MAX"
    using image CheckedTensorBytes_bound by (fastforce simp: value_image_def plan_value.truncate_def)
  from named[OF assms(13)] named[OF assms(14)] obtain u u' where u: "u \<in> set (cg_values plan)" "v = plan_value.truncate u" "v_name u = x"
    "u' \<in> set (cg_values plan)" "w = plan_value.truncate u'" "v_name u' = y" by blast
  have "value_image g externals ?heap z u (x, p)" "value_image g externals ?heap z u' (y, q)"
    using image[OF u(1)] image[OF u(4)] u(3,6) assms(10,11) by auto
  then have "v_group u \<noteq> v_group u'"
    using assms(12) group_injective z unfolding value_image_def tensor_at_def freezing_ok_def snd_conv by metis
  then have g: "v_group v \<noteq> v_group w" unfolding u(2,5) by (simp add: plan_value.truncate_def)
  have n: "pn_outputs (?nodes ! l) = pn_outputs (cg_nodes plan ! l)" "pn_inputs (?nodes ! l) = pn_inputs (cg_nodes plan ! l)"
    if "l < length (cg_nodes plan)" for l using that by (simp_all add: plan_node.truncate_def)
  have l: "j < length (cg_nodes plan)" "k < length (cg_nodes plan)" using assms(3-5) by auto
  show ?thesis
  proof (rule plan_preserves_values[OF plan small])
    show "j < length ?nodes" "k < length ?nodes" using l by simp_all
    show "x \<in> set (pn_outputs (?nodes ! j))" "y \<in> set (pn_outputs (?nodes ! k))" using assms(6,9) n l by simp_all
    show "i < length ?nodes \<and> x \<in> set (pn_inputs (?nodes ! i)) \<or> i = length ?nodes \<and> x \<in> set (cg_outputs plan)"
      using assms(5,7) n by simp
  qed (use assms g in simp_all)
qed

lemma Compile_preserves_values_witness:
  "\<exists>plan e a b. Compile plan_kernel [] plan_graph = (Inr plan, e) \<and>
     a \<in> set (allocations (cg_memory_plan plan)) \<and> b \<in> set (allocations (cg_memory_plan plan)) \<and>
     a_group a = 1 \<and> a_group b = 2 \<and> disjoint_ranges (a_offset a) 4 (a_offset b) 4"
proof -
  let ?a = "\<lparr>a_group = 1, a_offset = 0, a_bytes = 4, a_first = 0, a_last = 1\<rparr>"
  let ?b = "\<lparr>a_group = 2, a_offset = 64, a_bytes = 4, a_first = 1, a_last = 2\<rparr>"
  obtain e where e: "Compile plan_kernel [] plan_graph = (Inr plan_result, e)" using plan_compiles by blast
  have named: "value_named (map plan_value.truncate (cg_values plan_result)) ''y'' = Some (plan_value.truncate (plan_values ! 1))"
    "value_named (map plan_value.truncate (cg_values plan_result)) ''z'' = Some (plan_value.truncate (plan_values ! 2))"
    by (simp_all add: value_named_def plan_result_def plan_values_def plan_value.truncate_def)
  have env: "GetTensor plan_graph ''y'' = Some 1" "GetTensor plan_graph ''z'' = Some 2"
    "m_storage (tensor_at plan_graph 1) \<noteq> m_storage (tensor_at plan_graph 2)"
    by (simp_all add: GetTensor_def env_tensor_def tensor_at_def plan_graph_def one_float_def)
  have ab: "?a \<in> set (allocations (cg_memory_plan plan_result))" "?b \<in> set (allocations (cg_memory_plan plan_result))"
    by (simp_all add: plan_result_def)
  have "disjoint_ranges (a_offset ?a + v_offset (plan_value.truncate (plan_values ! 1))) (v_bytes (plan_value.truncate (plan_values ! 1)))
      (a_offset ?b + v_offset (plan_value.truncate (plan_values ! 2))) (v_bytes (plan_value.truncate (plan_values ! 2)))"
    by (rule Compile_preserves_values[OF e plan_env_wf, where j = 0 and k = 1 and i = 1, OF _ _ _ _ _ _ _ env named ab(1) _ ab(2)])
      (simp_all add: plan_result_def plan_compiled_def plan_values_def plan_value.truncate_def)
  then have "disjoint_ranges (a_offset ?a) 4 (a_offset ?b) 4" by (simp add: plan_values_def plan_value.truncate_def)
  then show ?thesis using e ab by (intro exI[of _ plan_result] exI[of _ e] exI[of _ ?a] exI[of _ ?b]) simp
qed

end
