(* ===== verification/Session_Laws.thy ===== *)
theory Session_Laws
  imports Execution_Session Compiled_Values
begin

text \<open>
  What creating a session checks: that the memory it will take stays within the budget, and that
  the tensors lent to it as mutable state overlap neither each other nor a constant.
\<close>

section \<open>The budget\<close>

text \<open>What a group costs: memory of its own that is written, or shared constants.\<close>

definition mutable_cost :: "Tensor list \<Rightarrow> bool \<Rightarrow> 'b CompiledGraph \<Rightarrow> nat \<Rightarrow> nat" where
  "mutable_cost heap reuses plan k =
     (if k \<in> set (arena_groups reuses plan) \<or> immutable_group heap plan k then 0 else group_bytes plan k)"

definition constant_cost :: "Tensor list \<Rightarrow> bool \<Rightarrow> 'b CompiledGraph \<Rightarrow> nat \<Rightarrow> nat" where
  "constant_cost heap reuses plan k =
     (if k \<notin> set (arena_groups reuses plan) \<and> immutable_group heap plan k then group_bytes plan k else 0)"

definition charge :: "nat \<Rightarrow> nat \<Rightarrow> ExecutionSession_usage \<Rightarrow> ExecutionSession_usage" where
  "charge m c u = u\<lparr>us_mutable_host := us_mutable_host u + m, us_shared_weight := us_shared_weight u + c\<rparr>"

definition usage_fits :: "nat \<Rightarrow> nat \<Rightarrow> ExecutionSession_usage \<Rightarrow> bool" where
  "usage_fits m c u \<longleftrightarrow> us_mutable_host u + m \<le> SIZE_MAX \<and> us_shared_weight u + c \<le> SIZE_MAX"

lemma charge_simps [simp]:
  "charge 0 0 u = u" "charge m c (charge m' c' u) = charge (m' + m) (c' + c) u"
  "usage_fits m c (charge m' c' u) = usage_fits (m' + m) (c' + c) u"
  "us_mutable_host (charge m c u) = us_mutable_host u + m" "us_shared_weight (charge m c u) = us_shared_weight u + c"
  by (simp_all add: charge_def usage_fits_def add.assoc)

lemma usage_fits_mono: "usage_fits (m + m') (c + c') u \<Longrightarrow> usage_fits m c u"
  by (simp add: usage_fits_def)

lemma count_group_exact:
  assumes "usage_fits 0 0 u"
  shows "count_group heap reuses plan k u =
    (if usage_fits (mutable_cost heap reuses plan k) (constant_cost heap reuses plan k) u
     then Inr (charge (mutable_cost heap reuses plan k) (constant_cost heap reuses plan k) u)
     else Inl (BuildError ''session storage size overflow''))"
proof -
  have "us_mutable_host u \<le> SIZE_MAX" "us_shared_weight u \<le> SIZE_MAX" using assms by (simp_all add: usage_fits_def)
  then have "group_bytes plan k > SIZE_MAX - us_mutable_host u \<longleftrightarrow> \<not> us_mutable_host u + group_bytes plan k \<le> SIZE_MAX"
    "group_bytes plan k > SIZE_MAX - us_shared_weight u \<longleftrightarrow> \<not> us_shared_weight u + group_bytes plan k \<le> SIZE_MAX"
    by linarith+
  then show ?thesis using assms
    by (simp add: count_group_def Let_def mutable_cost_def constant_cost_def usage_fits_def charge_def)
qed

lemma count_groups_exact:
  assumes "usage_fits 0 0 u"
  shows "foldR (count_group heap reuses plan) ks u =
    (if usage_fits (\<Sum>k\<leftarrow>ks. mutable_cost heap reuses plan k) (\<Sum>k\<leftarrow>ks. constant_cost heap reuses plan k) u
     then Inr (charge (\<Sum>k\<leftarrow>ks. mutable_cost heap reuses plan k) (\<Sum>k\<leftarrow>ks. constant_cost heap reuses plan k) u)
     else Inl (BuildError ''session storage size overflow''))"
  using assms
proof (induction ks arbitrary: u)
  case (Cons k ks)
  let ?u = "charge (mutable_cost heap reuses plan k) (constant_cost heap reuses plan k) u"
  show ?case
    using Cons.IH[of ?u] usage_fits_mono[of "mutable_cost heap reuses plan k" _ "constant_cost heap reuses plan k"]
    by (auto simp: count_group_exact[OF Cons.prems])
qed simp

text \<open>
  C36: The budget is exact.  With an arena that usage_fits an address, creating a session charges the
  arena and every group outside it, each once: constants to the shared weights and the rest to the
  host memory.  It is refused exactly if one of the two sums does not fit in 64 bits or the host
  memory exceeds the limit; no sum wraps, and within the limit the charge is the exact sum.
\<close>

theorem session_usage_exact:
  fixes plan :: "'b CompiledGraph" and heap :: "Tensor list" and reuses :: bool
  assumes "arena_bytes (cg_memory_plan plan) \<le> SIZE_MAX"
  defines "arena \<equiv> if reuses then arena_bytes (cg_memory_plan plan) else 0"
    and "host \<equiv> \<Sum>k\<leftarrow>cg_groups plan. mutable_cost heap reuses plan k"
    and "shared \<equiv> \<Sum>k\<leftarrow>cg_groups plan. constant_cost heap reuses plan k"
  shows "session_usage heap reuses limit plan =
    (if arena + host > SIZE_MAX \<or> shared > SIZE_MAX then Inl (BuildError ''session storage size overflow'')
     else if arena + host > limit then Inl (BuildError ''session host memory budget exceeded'')
     else Inr \<lparr>us_mutable_host = arena + host, us_shared_weight = shared, us_reused_weight = 0, us_arena = arena\<rparr>)"
proof -
  let ?u = "\<lparr>us_mutable_host = arena, us_shared_weight = 0, us_reused_weight = 0, us_arena = arena\<rparr>"
  have "arena \<le> SIZE_MAX" using assms(1) by (simp add: arena_def)
  then have start: "usage_fits 0 0 ?u" by (simp add: usage_fits_def)
  have "usage_fits host shared ?u \<longleftrightarrow> \<not> (arena + host > SIZE_MAX \<or> shared > SIZE_MAX)" by (auto simp: usage_fits_def)
  then show ?thesis
    unfolding session_usage_def arena_def[symmetric] Let_def count_groups_exact[OF start] host_def[symmetric] shared_def[symmetric]
    by (simp add: charge_def)
qed

lemma session_usage_exact_witness:
  "session_usage [] True 131 plan_result = Inl (BuildError ''session host memory budget exceeded'') \<and>
   session_usage [] True 132 plan_result =
     Inr \<lparr>us_mutable_host = 132, us_shared_weight = 0, us_reused_weight = 0, us_arena = 128\<rparr>"
proof -
  have arena: "arena_bytes (cg_memory_plan plan_result) \<le> SIZE_MAX" by (simp add: plan_result_def SIZE_MAX_def)
  have "cg_groups plan_result = [0, 1, 2]" by (simp add: cg_groups_def plan_result_def plan_values_def)
  moreover have "mutable_cost [] True plan_result 0 = 4" "mutable_cost [] True plan_result 1 = 0" "mutable_cost [] True plan_result 2 = 0"
    "constant_cost [] True plan_result k = 0" for k
    by (auto simp: mutable_cost_def constant_cost_def arena_groups_def immutable_group_def group_values_def group_bytes_def
        plan_result_def plan_values_def)
  ultimately show ?thesis
    unfolding session_usage_exact[OF arena] by (simp add: plan_result_def SIZE_MAX_def)
qed

section \<open>Lent state\<close>

text \<open>A byte both tensors hold: two windows on one storage, or on memory that is already there.\<close>

definition share_a_byte :: "world \<Rightarrow> Tensor list \<Rightarrow> nat \<Rightarrow> nat \<Rightarrow> bool" where
  "share_a_byte w heap p q \<longleftrightarrow> (\<exists>m n x. tensor_byte_count (heap ! p) = Some m \<and> tensor_byte_count (heap ! q) = Some n \<and>
     (m_storage (heap ! p) = m_storage (heap ! q) \<or> storage_materialized w (heap ! p) \<and> storage_materialized w (heap ! q)) \<and>
     x \<in> byte_range w (heap ! p) m \<and> x \<in> byte_range w (heap ! q) n)"

lemma share_a_byte_sym: "share_a_byte w heap p q \<longleftrightarrow> share_a_byte w heap q p"
  unfolding share_a_byte_def by metis

lemma no_overlap:
  assumes "\<not> TensorRangesOverlap w heap p q" and "IsInitialized w (heap ! p)" and "IsInitialized w (heap ! q)"
  shows "\<not> share_a_byte w heap p q"
proof
  assume "share_a_byte w heap p q"
  then obtain m n x where c: "tensor_byte_count (heap ! p) = Some m" "tensor_byte_count (heap ! q) = Some n"
    and near: "m_storage (heap ! p) = m_storage (heap ! q) \<or> storage_materialized w (heap ! p) \<and> storage_materialized w (heap ! q)"
    and x: "raw_address w (heap ! p) \<le> x \<and> x < raw_address w (heap ! p) + m \<and>
            raw_address w (heap ! q) \<le> x \<and> x < raw_address w (heap ! q) + n"
    by (auto simp: share_a_byte_def byte_range_def)
  then have pos: "0 < m" "0 < n" by auto
  have dist: "distance_within (raw_address w (heap ! p)) m (raw_address w (heap ! q)) n"
    using distance_within_iff[OF pos] x by blast
  have stored: "m_storage (heap ! p) \<noteq> None" using assms(2) by (auto simp: IsInitialized_def split: option.splits)
  have "distance_within (m_offset (heap ! p)) m (m_offset (heap ! q)) n"
    if "m_storage (heap ! p) = m_storage (heap ! q)"
    using dist that by (auto simp: raw_address_def distance_within_def split: option.splits)
  then show False using assms c near pos dist stored
    by (auto simp: TensorRangesOverlap_def split: if_splits)
qed

text \<open>What is known of one binding when all are accepted.\<close>

definition state_bound :: "'b CompiledGraph \<Rightarrow> (string \<times> nat option) list \<Rightarrow> world \<Rightarrow> Tensor list \<Rightarrow> external_state \<Rightarrow>
    string \<times> nat option \<Rightarrow> bool" where
  "state_bound plan states w heap x item \<longleftrightarrow> (\<exists>v p. named_value plan (fst item) = Some v \<and> snd item = Some p \<and>
     state_compatible w (heap ! p) (heap ! v_prototype v) (v_bytes v) \<and>
     find (state_conflict plan w heap (fst item, p) (v_prototype v)) states = None \<and>
     map_of (xs_prototypes x) (v_prototype v) = Some p)"

lemma check_state_ok:
  assumes "check_state plan states w heap item x = Inr x'"
  shows "state_bound plan states w heap x' item \<and>
    (\<forall>k p. map_of (xs_prototypes x) k = Some p \<longrightarrow> map_of (xs_prototypes x') k = Some p)"
  using assms unfolding check_state_def Let_def state_bound_def
  by (cases item) (auto split: option.splits if_splits simp: map_add_def)

lemma check_state_all:
  assumes "foldR (check_state plan states w heap) items x = Inr x'"
  shows "(\<forall>item \<in> set items. state_bound plan states w heap x' item) \<and>
    (\<forall>k p. map_of (xs_prototypes x) k = Some p \<longrightarrow> map_of (xs_prototypes x') k = Some p)"
  using assms
proof (induction items arbitrary: x)
  case (Cons item items)
  then obtain y where y: "check_state plan states w heap item x = Inr y"
    "foldR (check_state plan states w heap) items y = Inr x'" by blast
  have "state_bound plan states w heap x' item"
    using check_state_ok[OF y(1)] Cons.IH[OF y(2)] unfolding state_bound_def by blast
  then show ?case using check_state_ok[OF y(1)] Cons.IH[OF y(2)] by simp
qed simp

lemma check_weights_all:
  "foldR (check_weight_overlap w heap) items u = Inr u' \<Longrightarrow> item \<in> set items \<Longrightarrow>
     m_immutable (heap ! v_prototype (snd item)) \<Longrightarrow> IsInitialized w (heap ! v_prototype (snd item)) \<Longrightarrow>
     \<not> TensorRangesOverlap w heap (snd (fst item)) (v_prototype (snd item))"
proof (induction items arbitrary: u)
  case (Cons a items)
  from Cons.prems(1) obtain y where y: "check_weight_overlap w heap a u = Inr y"
    "foldR (check_weight_overlap w heap) items y = Inr u'" by blast
  show ?case
  proof (cases "item = a")
    case True
    then show ?thesis using y(1) Cons.prems(3,4) by (auto simp: check_weight_overlap_def Let_def split: if_splits)
  qed (use Cons y(2) in auto)
qed simp

text \<open>Two bindings: one tensor for one prototype, and no byte in common otherwise.\<close>

definition states_apart :: "'b CompiledGraph \<Rightarrow> world \<Rightarrow> Tensor list \<Rightarrow> string \<times> nat option \<Rightarrow> string \<times> nat option \<Rightarrow> bool" where
  "states_apart plan w heap a b \<longleftrightarrow> (\<exists>u v p q. named_value plan (fst a) = Some u \<and> named_value plan (fst b) = Some v \<and>
     snd a = Some p \<and> snd b = Some q \<and> (p = q \<longleftrightarrow> v_prototype u = v_prototype v) \<and>
     (p \<noteq> q \<longrightarrow> \<not> share_a_byte w heap p q))"

lemma states_apart_sym: "states_apart plan w heap a b \<Longrightarrow> states_apart plan w heap b a"
  unfolding states_apart_def using share_a_byte_sym by metis

lemma bound_apart:
  assumes "state_bound plan states w heap x a" and "state_bound plan states w heap x b" and "b \<in> set states"
    and "fst b < fst a"
  shows "states_apart plan w heap a b"
proof -
  obtain u p where a: "named_value plan (fst a) = Some u" "snd a = Some p"
    "state_compatible w (heap ! p) (heap ! v_prototype u) (v_bytes u)"
    "find (state_conflict plan w heap (fst a, p) (v_prototype u)) states = None" "map_of (xs_prototypes x) (v_prototype u) = Some p"
    using assms(1) unfolding state_bound_def by blast
  obtain v q where b: "named_value plan (fst b) = Some v" "snd b = Some q"
    "state_compatible w (heap ! q) (heap ! v_prototype v) (v_bytes v)" "map_of (xs_prototypes x) (v_prototype v) = Some q"
    using assms(2) unfolding state_bound_def by blast
  have "\<not> state_conflict plan w heap (fst a, p) (v_prototype u) b"
    using a(4) assms(3) unfolding find_None_iff by blast
  then have free: "v_prototype v = v_prototype u \<and> q = p \<or> \<not> TensorRangesOverlap w heap p q"
    using assms(4) b(1,2) by (auto simp: state_conflict_def)
  moreover have "TensorRangesOverlap w heap p p" by (simp add: TensorRangesOverlap_def)
  moreover have "IsInitialized w (heap ! p)" "IsInitialized w (heap ! q)"
    using a(3) b(3) by (auto simp: state_compatible_def split: option.splits)
  ultimately have "p = q \<longleftrightarrow> v_prototype u = v_prototype v" "p \<noteq> q \<longrightarrow> \<not> share_a_byte w heap p q"
    using a(5) b(4) no_overlap by auto
  then show ?thesis using a b by (auto simp: states_apart_def)
qed

text \<open>
  C35: Lent state is separate.  When the bindings of mutable state are accepted, every required
  one is there; two of them bind one tensor exactly if they stand for one prototype, and otherwise
  have no byte in common; and none has a byte in common with an immutable constant.
\<close>

theorem check_states_separate:
  assumes "check_states plan states w heap = Inr x" and "distinct (map fst states)"
  shows "set (cg_required plan) \<subseteq> fst ` set states \<and>
    (\<forall>a \<in> set states. \<forall>b \<in> set states. a \<noteq> b \<longrightarrow> states_apart plan w heap a b) \<and>
    (\<forall>a \<in> set states. \<forall>v \<in> set (cg_values plan).
       m_immutable (heap ! v_prototype v) \<and> IsInitialized w (heap ! v_prototype v) \<longrightarrow>
       (\<exists>p. snd a = Some p \<and> \<not> share_a_byte w heap p (v_prototype v)))"
proof -
  obtain x' u where required: "find (\<lambda>name. name \<notin> fst ` set states) (cg_required plan) = None"
    and all: "foldR (check_state plan states w heap) states \<lparr>xs_prototypes = [], xs_groups = []\<rparr> = Inr x'"
    and weights: "foldR (check_weight_overlap w heap) (List.product (xs_prototypes x') (cg_values plan)) () = Inr u"
    using assms(1) by (auto simp: check_states_def bindR_eq_Inr split: option.splits)
  have bound: "state_bound plan states w heap x' a" if "a \<in> set states" for a
    using check_state_all[OF all] that by blast
  have "states_apart plan w heap a b" if "a \<in> set states" "b \<in> set states" "a \<noteq> b" for a b
  proof -
    have "fst a \<noteq> fst b" using assms(2) that by (auto simp: distinct_map dest: inj_onD)
    then consider "fst a < fst b" | "fst b < fst a" using neq_iff by blast
    then show ?thesis using bound_apart bound that states_apart_sym by metis
  qed
  moreover have "\<exists>p. snd a = Some p \<and> \<not> share_a_byte w heap p (v_prototype v)"
    if a: "a \<in> set states" and v: "v \<in> set (cg_values plan)"
      and fixed: "m_immutable (heap ! v_prototype v)" "IsInitialized w (heap ! v_prototype v)" for a v
  proof -
    obtain c :: compiled_value and p where p: "snd a = Some p" "map_of (xs_prototypes x') (v_prototype c) = Some p"
      "state_compatible w (heap ! p) (heap ! v_prototype c) (v_bytes c)"
      using bound[OF a] unfolding state_bound_def by blast
    then have "((v_prototype c, p), v) \<in> set (List.product (xs_prototypes x') (cg_values plan))"
      using v by (auto dest: map_of_SomeD)
    from check_weights_all[OF weights this] fixed have "\<not> TensorRangesOverlap w heap p (v_prototype v)" by simp
    moreover have "IsInitialized w (heap ! p)" using p(3) by (auto simp: state_compatible_def split: option.splits)
    ultimately show ?thesis using no_overlap p(1) fixed(2) by blast
  qed
  moreover have "set (cg_required plan) \<subseteq> fst ` set states" using required by (auto simp: find_None_iff)
  ultimately show ?thesis by blast
qed

definition lent_plan :: "unit CompiledGraph" where
  "lent_plan = plan_result\<lparr>cg_inputs := [''x'', ''y''], cg_nodes := [], cg_required := [''y''], cg_values :=
     [\<lparr>v_name = ''x'', v_group = 0, v_bytes = 4, v_offset = 0, v_seed = False, v_prototype = 2\<rparr>,
      \<lparr>v_name = ''y'', v_group = 1, v_bytes = 4, v_offset = 0, v_seed = False, v_prototype = 3\<rparr>]\<rparr>"

definition lent_heap :: "Tensor list" where
  "lent_heap = [one_float 0, one_float 1, Descriptor (one_float 0), Descriptor (one_float 1)]"

lemma lent_checked: "\<exists>x. check_states lent_plan [(''x'', Some 0), (''y'', Some 1)] plan_world lent_heap = Inr x"
proof -
  have "tensor_byte_count (one_float k) = Some 4" for k
    using one_bytes by (simp add: tensor_byte_count_def one_float_def empty_Tensor_def)
  moreover have "\<not> storage_materialized plan_world (one_float 1)"
    by (simp add: storage_materialized_def one_float_def empty_Tensor_def plan_world_def plan_storage_def)
  moreover have "m_storage (one_float k) = Some k" for k by (simp add: one_float_def empty_Tensor_def)
  ultimately have apart: "\<not> TensorRangesOverlap plan_world lent_heap (Suc 0) 0"
    by (simp add: TensorRangesOverlap_def lent_heap_def)
  have ready: "state_compatible plan_world (one_float k) (Descriptor (one_float k)) 4" if "k < 2" for k
    using that by (auto simp: state_compatible_def one_float_def empty_Tensor_def Descriptor_def set_quantization_def IsInitialized_def
        available_def plan_world_def plan_storage_def storage_read_only_def storage_size_def HasSameQuantization_def
        default_quantization_def less_2_cases_iff)
  let ?x = "\<lparr>v_name = ''x'', v_group = 0, v_bytes = 4, v_offset = 0, v_seed = False, v_prototype = 2\<rparr>"
    and ?y = "\<lparr>v_name = ''y'', v_group = 1, v_bytes = 4, v_offset = 0, v_seed = False, v_prototype = 3\<rparr>"
  have vs: "cg_values lent_plan = [?x, ?y]" by (simp add: lent_plan_def)
  have plan: "cg_inputs lent_plan = [''x'', ''y'']" "cg_produced lent_plan = []" "cg_required lent_plan = [''y'']"
    by (simp_all add: lent_plan_def cg_produced_def)
  show ?thesis
    using ready[of 0] ready[of 1] apart
    by (simp add: check_states_def check_state_def named_value_def vs plan Let_def group_values_def state_conflict_def
        check_weight_overlap_def lent_heap_def one_float_def empty_Tensor_def Descriptor_def set_quantization_def eval_nat_numeral)
qed

lemma check_states_separate_witness:
  "\<exists>x. check_states lent_plan [(''x'', Some 0), (''y'', Some 1)] plan_world lent_heap = Inr x \<and>
     \<not> share_a_byte plan_world lent_heap 0 1"
proof -
  obtain x where x: "check_states lent_plan [(''x'', Some 0), (''y'', Some 1)] plan_world lent_heap = Inr x"
    using lent_checked by blast
  have "states_apart lent_plan plan_world lent_heap (''x'', Some 0) (''y'', Some 1)"
    using check_states_separate[OF x] by simp
  then show ?thesis using x by (auto simp: states_apart_def)
qed

end
