(* ===== verification/Session_Input.thy ===== *)
theory Session_Input
  imports Execution_Session State_Advance
begin

text \<open>
  Binding an input of a session: the bytes are copied into the session's own tensor, and only there.
\<close>

section \<open>Which inputs are accepted\<close>

definition input_matches :: "Tensor \<Rightarrow> Tensor \<Rightarrow> bool" where
  "input_matches c t \<longleftrightarrow> m_dims c = m_dims t \<and> m_data_type c = m_data_type t \<and> m_layout c = m_layout t \<and>
     HasSameQuantization (m_quantization c) (m_quantization t)"

text \<open>The fixed values of every contract on the tensor are what is to be bound.\<close>

definition keeps_fixed :: "('b, 'd) RuntimeGraph \<Rightarrow> nat \<Rightarrow> nat \<Rightarrow> bool" where
  "keeps_fixed g current p \<longleftrightarrow> (\<forall>c \<in> set (rg_contracts g). \<forall>fixed. tc_tensor c = current \<and> tc_bytes c \<noteq> 0 \<longrightarrow>
     tc_fixed_values c = Some fixed \<longrightarrow>
     mem_read (mem (x_world (rg_env g))) (raw_address (x_world (rg_env g)) (tensor_of g p)) (tc_bytes c) = take (tc_bytes c) fixed)"

definition input_accepted :: "string \<Rightarrow> nat \<Rightarrow> ('b, 'd) ExecutionSession \<Rightarrow> bool" where
  "input_accepted name p s \<longleftrightarrow>
     (let g = es_runtime s in
      ok (CheckTensorBindings g) \<and> name \<in> es_inputs s \<and> IsInitialized (x_world (rg_env g)) (tensor_of g p) \<and>
      (case rg_tensor g name of None \<Rightarrow> False
       | Some current \<Rightarrow> input_matches (tensor_of g current) (tensor_of g p) \<and>
           m_memory_size (tensor_of g current) \<le> m_memory_size (tensor_of g p) \<and> keeps_fixed g current p))"

lemma check_fixed_placed:
  assumes "placed w t k"
  shows "check_fixed current t cs w =
    ((\<forall>c \<in> set cs. \<forall>fixed. tc_tensor c = current \<and> tc_bytes c \<noteq> 0 \<longrightarrow> tc_fixed_values c = Some fixed \<longrightarrow>
        mem_read (mem w) (raw_address w t) (tc_bytes c) = take (tc_bytes c) fixed), w)"
proof (induction cs)
  case (Cons c cs)
  have "(if tc_tensor c = current \<and> tc_bytes c \<noteq> 0 then tc_fixed_values c else None) = None \<or>
     (\<exists>fixed. tc_tensor c = current \<and> tc_bytes c \<noteq> 0 \<and> tc_fixed_values c = Some fixed)" by auto
  then show ?case
    using Cons.IH by (elim disjE exE) (auto simp: read_bytes_placed[OF assms] split: if_splits)
qed simp

section \<open>The copy\<close>

lemma copy_into_move:
  assumes "m_memory_size (tensor_of g current) = n" and "n \<noteq> 0" and "p \<noteq> current"
  shows "copy_into current p g = map_option (\<lambda>e. g\<lparr>rg_env := e\<rparr>) (move_bytes current p n (rg_env g))"
  using assms by (auto simp: copy_into_def move_bytes_def Let_def tensor_of_def map_env_def split: option.splits prod.splits)

lemma BindInput_copy:
  assumes D: "disjoint_states X (rg_env g)" and pq: "current \<in> X" "p \<in> X" "current \<noteq> p"
    and n: "m_memory_size (tensor_of g current) = state_bytes (tensor_of g current)"
      "state_bytes (tensor_of g p) = state_bytes (tensor_of g current)"
  shows "\<exists>e. copy_into current p g = Some (g\<lparr>rg_env := e\<rparr>) \<and> disjoint_states X e \<and>
    state_value e current = state_value (rg_env g) p \<and> (\<forall>r \<in> X. r \<noteq> current \<longrightarrow> state_value e r = state_value (rg_env g) r)"
proof (cases "m_memory_size (tensor_of g current) = 0")
  case True
  then have "copy_into current p g = Some (g\<lparr>rg_env := rg_env g\<rparr>)" by (simp add: copy_into_def)
  moreover have "state_value (rg_env g) q = []" if "q \<in> {current, p}" for q
    using True n that by (intro state_value_empty) (auto simp: tensor_of_def)
  ultimately show ?thesis using D by (metis insertI1 insertI2)
next
  case False
  from move_bytes_state[OF D pq, of "m_memory_size (tensor_of g current)"] n obtain e where
    "move_bytes current p (m_memory_size (tensor_of g current)) (rg_env g) = Some e" "disjoint_states X e"
    "state_value e current = state_value (rg_env g) p" "\<forall>r \<in> X. r \<noteq> current \<longrightarrow> state_value e r = state_value (rg_env g) r"
    unfolding tensor_of_def by metis
  then show ?thesis using copy_into_move[OF refl False pq(3)[symmetric]] by auto
qed

text \<open>
  C37: Binding an input copies it and touches nothing else.  Among tensors whose memory does not
  overlap, an input is accepted exactly if the bindings stand, the name is an input, the tensor has
  the compiled descriptor and is large enough, and control values keep their fixed bytes; then the
  session's tensor holds the bytes of the caller's and no other tensor has changed, and otherwise
  no tensor has.  It never fails otherwise.
\<close>

theorem BindInput_copies:
  assumes "disjoint_states X (rg_env (es_runtime s))" and "p \<in> X"
    and "rg_tensor (es_runtime s) name = Some current" and "current \<in> X"
    and "m_memory_size (tensor_of (es_runtime s) current) = state_bytes (tensor_of (es_runtime s) current)"
    and "\<forall>e. x_heap (HostWritten backend current e) = x_heap e \<and> x_world (HostWritten backend current e) = x_world e"
  shows "\<exists>st s'. BindInput backend name (Some p) s = Some (st, s') \<and> (ok st \<longleftrightarrow> input_accepted name p s) \<and>
    disjoint_states X (rg_env (es_runtime s')) \<and>
    (\<forall>r \<in> X. state_value (rg_env (es_runtime s')) r =
       state_value (rg_env (es_runtime s)) (if ok st \<and> r = current then p else r))"
proof -
  let ?g = "es_runtime s"
  let ?w = "x_world (rg_env ?g)" and ?t = "tensor_of (es_runtime s) p" and ?c = "tensor_of (es_runtime s) current"
  have pl: "placed ?w ?t (m_memory_size ?t)"
    using assms(1,2) by (simp add: disjoint_states_def state_ready_def tensor_of_def)
  note fixed = check_fixed_placed[OF pl, of current "rg_contracts ?g", folded keeps_fixed_def]
  have same_s: "session_map (\<lambda>_. ?g) s = s" by (cases s) (simp add: session_map_def)
  have same_g: "map_env (\<lambda>e. e\<lparr>x_world := x_world (rg_env ?g)\<rparr>) ?g = ?g" by (simp add: map_env_def)
  show ?thesis
  proof (cases "input_accepted name p s")
    case False
    then have "\<exists>st. BindInput backend name (Some p) s = Some (st, s) \<and> \<not> ok st"
      using assms(3) unfolding BindInput_def Let_def input_accepted_def input_matches_def
      by (auto simp: fixed same_g same_s cong: if_cong)
    then show ?thesis using False assms(1) by auto
  next
    case True
    have bytes: "state_bytes ?t = state_bytes ?c"
      using True assms(3) by (simp add: input_accepted_def input_matches_def Let_def state_bytes_def)
    obtain e where e: "(if current = p then Some ?g else copy_into current p ?g) = Some (?g\<lparr>rg_env := e\<rparr>)"
      "disjoint_states X e" "\<forall>r \<in> X. state_value e r = state_value (rg_env ?g) (if r = current then p else r)"
    proof (cases "current = p")
      case True
      then show ?thesis using that[of "rg_env ?g"] assms(1) by simp
    next
      case False
      then show ?thesis using that BindInput_copy[OF assms(1,4,2) _ assms(5) bytes] by auto
    qed
    let ?s = "session_map (\<lambda>_. map_env (HostWritten backend current) (?g\<lparr>rg_env := e\<rparr>)) s"
    have run: "BindInput backend name (Some p) s = Some (Ok, ?s)"
      using True assms(3) e(1)
      by (auto simp: BindInput_def Let_def input_accepted_def input_matches_def fixed same_g split: if_splits)
    have "rg_env (es_runtime ?s) = HostWritten backend current e" by (simp add: session_map_def map_env_def)
    then have "disjoint_states X (rg_env (es_runtime ?s)) = disjoint_states X e"
      "\<And>r. state_value (rg_env (es_runtime ?s)) r = state_value e r"
      using env_cong[of "HostWritten backend current e" e] assms(6) by simp_all
    then show ?thesis using True run e(2,3) by (intro exI[of _ Ok] exI[of _ ?s]) simp
  qed
qed

definition input_session :: "(unit, unit) ExecutionSession" where
  "input_session = \<lparr>es_runtime = state_example, es_reuses = False,
     es_usage = \<lparr>us_mutable_host = 8, us_shared_weight = 0, us_reused_weight = 0, us_arena = 0\<rparr>,
     es_inputs = {''x''}, es_outputs = {''y''}\<rparr>"

lemma state_example_disjoint: "disjoint_states {0, 1} (rg_env state_example)"
proof -
  have "state_range (rg_env state_example) 0 \<inter> state_range (rg_env state_example) 1 = {}"
    by (auto simp: state_range_def byte_range_def state_example_def raw_address_def half_fields half_state)
  moreover have "world_ok (x_world (rg_env state_example))"
    by (simp add: state_example_def world_ok_def storage_ok_def)
  moreover have "state_ready (rg_env state_example) 0" "state_ready (rg_env state_example) 1"
    by (simp_all add: state_ready_def placed_def state_example_def half_fields half_state)
  ultimately show ?thesis by (auto simp: disjoint_states_def)
qed

lemma BindInput_copies_witness:
  "\<exists>st s'. BindInput host_backend ''x'' (Some 1) input_session = Some (st, s') \<and> ok st \<and>
     state_value (rg_env (es_runtime s')) 0 = state_value (rg_env state_example) 1"
proof -
  have s: "es_runtime input_session = state_example" "es_inputs input_session = {''x''}" by (simp_all add: input_session_def)
  have t: "rg_tensor state_example ''x'' = Some 0" "tensor_of state_example 0 = half_tensor 0"
    "tensor_of state_example 1 = half_tensor 4" "tensor_of state_example (Suc 0) = half_tensor 4" "rg_contracts state_example = []"
    by (simp_all add: tensor_of_def state_example_def rg_tensor_def)
  have "ok (CheckTensorBindings state_example)"
    by (simp add: CheckTensorBindings_def state_example_def binding_matches_def rg_tensor_def tensor_of_def
        storage_id_def half_fields)
  moreover have "IsInitialized (x_world (rg_env state_example)) (half_tensor 4)"
    by (simp add: IsInitialized_def half_fields available_def state_example_def)
  ultimately have "input_accepted ''x'' 1 input_session"
    by (simp add: input_accepted_def s t input_matches_def half_fields HasSameQuantization_def default_quantization_def
        keeps_fixed_def)
  moreover have "\<exists>st s'. BindInput host_backend ''x'' (Some 1) input_session = Some (st, s') \<and>
      (ok st \<longleftrightarrow> input_accepted ''x'' 1 input_session) \<and> disjoint_states {0, 1} (rg_env (es_runtime s')) \<and>
      (\<forall>r \<in> {0, 1}. state_value (rg_env (es_runtime s')) r =
         state_value (rg_env (es_runtime input_session)) (if ok st \<and> r = 0 then 1 else r))"
    using state_example_disjoint
    by (intro BindInput_copies) (simp_all add: s t half_fields half_state host_backend_def)
  ultimately show ?thesis by (fastforce simp: s)
qed

end
