(* ===== verification/Spec2Isabelle.thy ===== *)
theory Spec2Isabelle
  imports Buffer_Pool Memory_Plan Graph_Passes Runtime_Schedule Op_Outputs Float16_Formats
    Device_Replica State_Advance Model_Reload Float8_Formats Selection_Results
    Session_Laws Session_Input
begin

text \<open>
  Feather, a C++ inference engine for neural networks: the parts of it that decide what is
  computed, in which order and in which memory.  The engine reads a model description, builds a
  \<^emph>\<open>static graph\<close> of operators over named tensors, rewrites it with passes, plans the memory of the
  intermediate tensors, and lowers it to a \<^emph>\<open>runtime graph\<close> that runs kernels serially or on a pool
  of workers.  Tensors share reference-counted storages whose buffers come from a pool.

  \<^bold>\<open>Theories and code.\<close>
  \<^item> \<open>Prelude\<close>, \<open>Types\<close>, \<open>Shape\<close>: \<open>include/core/status.h\<close>, \<open>include/util/types.h\<close>,
    \<open>include/core/dim.h\<close> and the checked element and byte counts of \<open>include/core/shape_utils.h\<close>.
    An \<open>int64_t\<close> is an integer and a \<open>size_t\<close> a natural number; where the code tests for overflow or
    relies on wrap-around, that is written out.  A \<open>float\<close> is its 32-bit pattern.
  \<^item> \<open>Size_Class\<close>, \<open>Buffer_Pool\<close>: the pool of \<open>src/core/memory.cc\<close>: its size classes, acquiring, releasing, trimming.
  \<^item> \<open>Tensor_Storage\<close>: \<open>storage.h\<close> and \<open>tensor.h\<close>: storages with capacity, versions, read-only and
    deferred contents; tensors that share them; copy on write.
  \<^item> \<open>Graph_Order\<close>, \<open>Topo_Order\<close>: the model description and \<open>ValidateAndOrderGraph\<close>, and
    the generic algorithm behind it and behind the scheduler, as a locale over the ready container.
  \<^item> \<open>Op_Semantics\<close>: \<open>operator_semantics.cc\<close> and the in-place effects of operators.
  \<^item> \<open>Memory_Plan\<close>: the arena planner of \<open>execution_plan.cc\<close>.
  \<^item> \<open>Compiled_Graph\<close>, \<open>Compiled_Laws\<close>, \<open>Compiled_Values\<close>: \<open>CompiledGraph::Compile\<close> there: the checks on
    shape controls and external state, the frozen prototypes, the order of the nodes and the plan.
  \<^item> \<open>Execution_Session\<close>, \<open>Session_Laws\<close>, \<open>Session_Input\<close>: lowering (\<open>graph_lowering.cc\<close>),
    \<open>CreateSession\<close> and the execution session with its inputs and outputs.
  \<^item> \<open>Static_Graph\<close>, \<open>Graph_Build\<close>, \<open>Graph_Passes\<close>: \<open>static_graph.cc\<close> with its edge indices, its build and
    its rewriting operations, and the pass manager with the default passes under \<open>src/pass\<close>.
  \<^item> \<open>Runtime_Graph\<close>, \<open>Runtime_Schedule\<close>: \<open>graph.cc\<close>: dependency construction, the serial loop, and
    the pool as a step relation in which each worker's critical sections are atomic.
  \<^item> \<open>Nd_Index\<close>: row-major indexing of dense tensors, shared by the operators and kernels.
  \<^item> \<open>Op_Shapes\<close>, \<open>Op_Outputs\<close>: shape inference under \<open>src/operator\<close> (elementwise, reshape, squeeze,
    transpose, concat, split, slice, flatten, expand, gather, where, reduce, matmul, conv, pool), and
    the allocation of the outputs in the tensor world of \<open>Tensor_Storage\<close>.
  \<^item> \<open>Layout_Kernels\<close>, \<open>Concat_Split\<close>: the portable kernels of \<open>src/kernel/common\<close> that move or
    combine elements, over an element conversion given by the locale \<open>exact_io\<close>.
  \<^item> \<open>Selection_Kernels\<close>, \<open>Selection_Laws\<close>, \<open>Selection_Results\<close>: \<open>src/kernel/common/yolo_selection.cc\<close>: the
    kernels \<open>TopK\<close>, \<open>GatherElements\<close>, \<open>ReduceMax\<close>, and \<open>Mod\<close> and \<open>Div\<close> on integers.
  \<^item> \<open>Float16_Formats\<close>, \<open>Float8_Formats\<close>: \<open>include/util/fp16.h\<close> and \<open>bf16.h\<close> on bit patterns, \<open>fp8.h\<close> over
    the rational numbers the patterns denote.
  \<^item> \<open>Device_Replica\<close>: \<open>device_replica.h\<close>: the four tables that relate storage views, handles and
    replicas on a device.
  \<^item> \<open>Stateful_Session\<close>, \<open>State_Memory\<close>, \<open>State_Advance\<close>: \<open>stateful_session.cc\<close>: the bindings of
    state outputs to state inputs, the overlap scan with its snapshots, and the commit by copying,
    exchanging storages or appending, in the tensor world of \<open>Tensor_Storage\<close>.
  \<^item> \<open>Model_Format\<close>, \<open>Model_Codec\<close>, \<open>Model_Roundtrip\<close>: the serialized model of \<open>src/model/model_io.cc\<close> in its
    five versions.  \<open>Model_File\<close>, \<open>Model_Save\<close>, \<open>Model_Load\<close>, \<open>Model_Reload\<close>: the file with its weights,
    the loader and the mapped store of \<open>weight_store.cc\<close>.  An enumeration value without a name is \<open>Foreign\<close>.

  \<^bold>\<open>What is shown.\<close>  Each state has an invariant that every operation keeps: the pool's accounting,
  the disjointness of planned memory, the agreement of the graph's name, producer and user
  indices with its nodes, the counters of the scheduler.  On top of them: validation accepts
  exactly the well-formed graphs and its order is topological; writes through a tensor never
  reach a storage it should not; planned intervals that are live together do not overlap, so that a compiled graph keeps its values apart;
  a session stays within its budget and its lent state is separate; passes
  keep the values a graph computes and the dead-node pass keeps exactly the needed nodes; a serial
  run is the sequential run in a topological order; on the pool a node starts only after its
  producers and a run that does not fail is never stuck.  Reshape implements its contract; outputs
  grant the pointer the kernel asks for; kernels compute the broadcast, transposed, gathered or
  concatenated tensor and split undoes concat; the selection kernels find the best and the greatest
  elements; the small float formats survive a round trip and the 8-bit encoders round to nearest.
  A serialized model is read back and no damaged one is accepted; a saved file gives its weights back.
  The replica tables implement two maps.  Advancing a session changes nothing when it fails and
  otherwise assigns all the outputs to the inputs at once, whatever storages they share.

  \<^bold>\<open>Interfaces.\<close>  \<open>kahn\<close>-style ordering, buffer and storage laws, passes (\<open>pass_contract\<close>, \<open>node_pass\<close>,
  \<open>pipeline\<close>), machines against their specification (\<open>machine_refinement\<close>),
  encoders with their decoders (\<open>codec\<close>), 8-bit formats (\<open>fp8_format\<close>) and the orders that sort
  positions (\<open>strict_order\<close>) are locales, interpreted on the code's definitions in the theory that provides them.

  \<^bold>\<open>Fuel.\<close>  Output-alias walks take one step per node and two more; the worklist of control values has
  one step per recorded value and per node input; dead-node rounds one more than there are live
  nodes; the loops that normalise a float before it is encoded have 300 steps, more than there are
  exponents.  That each is enough is proved where it is used.

  \<^bold>\<open>Parameters.\<close>  Operator builders, kernel selection and kernels are registered at run time by
  code outside the components above, and are arguments: \<open>OperatorRegistry\<close>, the kernels of a
  runtime node and the kernel schemas \<open>K\<close> a graph is compiled with.  A device's backend is one of the
  session; of the text of a caught exception only its kind is kept.  The file system, the mapping of a file and the order in which a hash table is
  traversed are arguments of the model file operations.  What passes assume of operators is \<open>op_laws\<close> and \<open>builder_law\<close>.

  \<^bold>\<open>Not modelled.\<close>  The x86 and CUDA kernels (vector intrinsics and device code), floating-point
  arithmetic itself and the kernels that consist of it, quantization, the fusions and operators of
  single models, the demos and tokenizers, logging, and the thread pools inside kernels.
\<close>

end
